(* ===== verification/Prelude.thy ===== *)
theory Prelude
  imports Main "HOL-Library.Char_ord" "HOL-Library.List_Lexorder" "HOL-Library.Product_Lexorder"
    "HOL-Library.Multiset"
begin

text \<open>
  Shared vocabulary of the development: Rust's \<open>Result\<close> as a sum type with its
  question-mark operator, \<open>Option\<close> combinators, checked and saturating integer
  arithmetic at the widths the sources use, the slice operations the components share
  (\<open>windows(2)\<close>, \<open>retain\<close>, \<open>sort_by_key\<close>, \<open>binary_search_by\<close>) and the generic lemmas
  about them.
\<close>

named_theorems res_simps \<open>inversion of the Result combinators\<close>

section \<open>Results\<close>

text \<open>
  A Rust \<open>Result<T, E>\<close> is \<open>'e + 'a\<close> with \<open>Inl\<close> for \<open>Err\<close> and \<open>Inr\<close> for \<open>Ok\<close>; \<open>res_bind\<close> is
  the question-mark operator, \<open>ok_or\<close> and \<open>map_err\<close> are the methods of those names and
  \<open>require_or\<close> is a guard that returns early with an error.
\<close>

definition res_bind :: "'e + 'a \<Rightarrow> ('a \<Rightarrow> 'e + 'b) \<Rightarrow> 'e + 'b" where
  "res_bind m f = (case m of Inl e \<Rightarrow> Inl e | Inr x \<Rightarrow> f x)"

definition res_then :: "'e + 'a \<Rightarrow> 'e + 'b \<Rightarrow> 'e + 'b" where
  "res_then m n = res_bind m (\<lambda>_. n)"

definition ok_or :: "'a option \<Rightarrow> 'e \<Rightarrow> 'e + 'a" where
  "ok_or x e = (case x of None \<Rightarrow> Inl e | Some y \<Rightarrow> Inr y)"

definition map_err :: "'e + 'a \<Rightarrow> 'f \<Rightarrow> 'f + 'a" where
  "map_err m e = (case m of Inl _ \<Rightarrow> Inl e | Inr x \<Rightarrow> Inr x)"

definition require_or :: "bool \<Rightarrow> 'e \<Rightarrow> 'e + unit" where
  "require_or b e = (if b then Inr () else Inl e)"

definition is_ok :: "'e + 'a \<Rightarrow> bool" where
  "is_ok m = (case m of Inl _ \<Rightarrow> False | Inr _ \<Rightarrow> True)"

definition ok :: "'e + 'a \<Rightarrow> 'a option" where
  "ok m = (case m of Inl _ \<Rightarrow> None | Inr x \<Rightarrow> Some x)"

fun res_fold :: "('s \<Rightarrow> 'a \<Rightarrow> 'e + 's) \<Rightarrow> 's \<Rightarrow> 'a list \<Rightarrow> 'e + 's" where
  "res_fold f s [] = Inr s"
| "res_fold f s (x # xs) = res_bind (f s x) (\<lambda>t. res_fold f t xs)"

fun res_map :: "('a \<Rightarrow> 'e + 'b) \<Rightarrow> 'a list \<Rightarrow> 'e + 'b list" where
  "res_map f [] = Inr []"
| "res_map f (x # xs) =
     res_bind (f x) (\<lambda>y. res_bind (res_map f xs) (\<lambda>ys. Inr (y # ys)))"

lemma res_bind_simps [simp]:
  "res_bind (Inl e) f = Inl e" "res_bind (Inr x) f = f x"
  by (simp_all add: res_bind_def)

lemma res_then_simps [simp]:
  "res_then (Inl e) n = Inl e" "res_then (Inr x) n = n"
  by (simp_all add: res_then_def)

lemma ok_or_simps [simp]: "ok_or None e = Inl e" "ok_or (Some x) e = Inr x"
  by (simp_all add: ok_or_def)

lemma map_err_simps [simp]: "map_err (Inl d) e = Inl e" "map_err (Inr x) e = Inr x"
  by (simp_all add: map_err_def)

lemma is_ok_simps [simp]: "is_ok (Inl e) = False" "is_ok (Inr x) = True"
  by (simp_all add: is_ok_def)

lemma ok_simps [simp]: "ok (Inl e) = None" "ok (Inr x) = Some x"
  by (simp_all add: ok_def)

lemma res_bind_Inr [res_simps]:
  "res_bind m f = Inr y \<longleftrightarrow> (\<exists>x. m = Inr x \<and> f x = Inr y)"
  by (cases m) simp_all

lemma res_bind_Inl [res_simps]:
  "res_bind m f = Inl e \<longleftrightarrow> m = Inl e \<or> (\<exists>x. m = Inr x \<and> f x = Inl e)"
  by (cases m) simp_all

lemma res_then_Inr [res_simps]:
  "res_then m n = Inr y \<longleftrightarrow> (\<exists>x. m = Inr x) \<and> n = Inr y"
  by (cases m) simp_all

lemma res_then_Inl [res_simps]:
  "res_then m n = Inl e \<longleftrightarrow> m = Inl e \<or> ((\<exists>x. m = Inr x) \<and> n = Inl e)"
  by (cases m) simp_all

lemma ok_or_Inr [res_simps]: "ok_or x e = Inr y \<longleftrightarrow> x = Some y"
  by (cases x) simp_all

lemma ok_or_Inl [res_simps]: "ok_or x e = Inl d \<longleftrightarrow> x = None \<and> d = e"
  by (cases x) auto

lemma map_err_Inr [res_simps]: "map_err m e = Inr y \<longleftrightarrow> m = Inr y"
  by (cases m) simp_all

lemma map_err_Inl [res_simps]: "map_err m e = Inl d \<longleftrightarrow> d = e \<and> (\<exists>c. m = Inl c)"
  by (cases m) auto

lemma require_or_Inr [res_simps]: "require_or b e = Inr u \<longleftrightarrow> b"
  by (simp add: require_or_def)

lemma require_or_Inl [res_simps]: "require_or b e = Inl d \<longleftrightarrow> \<not> b \<and> d = e"
  by (auto simp add: require_or_def)

lemma require_or_simps [simp]: "require_or True e = Inr ()" "require_or False e = Inl e"
  by (simp_all add: require_or_def)

lemma is_ok_iff: "is_ok m \<longleftrightarrow> (\<exists>x. m = Inr x)"
  by (cases m) simp_all

lemma res_fold_append:
  "res_fold f s (xs @ ys) = res_bind (res_fold f s xs) (\<lambda>t. res_fold f t ys)"
  by (induction xs arbitrary: s) (auto simp: res_bind_def split: sum.splits)

text \<open>An invariant every accepted step keeps holds after a whole accepted fold.\<close>

lemma res_fold_invariant:
  assumes "res_fold f s xs = Inr t" and "P s"
    and "\<And>a x b. x \<in> set xs \<Longrightarrow> P a \<Longrightarrow> f a x = Inr b \<Longrightarrow> P b"
  shows "P t"
  using assms
proof (induction xs arbitrary: s)
  case Nil
  then show ?case by simp
next
  case (Cons x xs)
  from Cons.prems(1) obtain u where u: "f s x = Inr u" "res_fold f u xs = Inr t"
    by (auto simp: res_simps)
  have "P u" using Cons.prems(2,3) u(1) by (meson list.set_intros(1))
  with Cons.IH [OF u(2)] Cons.prems(3) show ?case by (meson list.set_intros(2))
qed

lemma res_map_Inr_length: "res_map f xs = Inr ys \<Longrightarrow> length ys = length xs"
  by (induction xs arbitrary: ys) (auto simp: res_simps)

lemma res_map_Inr_iff:
  "res_map f xs = Inr ys \<longleftrightarrow> list_all2 (\<lambda>x y. f x = Inr y) xs ys"
proof (induction xs arbitrary: ys)
  case Nil
  then show ?case by auto
next
  case (Cons x xs)
  then show ?case by (cases ys) (auto simp: res_simps)
qed

section \<open>Machine integers\<close>

text \<open>
  \<open>u64\<close>, \<open>u32\<close> and \<open>usize\<close> values are natural numbers and \<open>i64\<close> values are integers; every
  operation that can leave the width is one of the checked or saturating methods below, with
  the bound written out.
\<close>

abbreviation u64_max :: nat where
  "u64_max \<equiv> 18446744073709551615"

abbreviation u32_max :: nat where
  "u32_max \<equiv> 4294967295"

abbreviation i64_max :: int where
  "i64_max \<equiv> 9223372036854775807"

abbreviation i64_min :: int where
  "i64_min \<equiv> - 9223372036854775808"

definition checked_add_u64 :: "nat \<Rightarrow> nat \<Rightarrow> nat option" where
  "checked_add_u64 a b = (if a + b \<le> u64_max then Some (a + b) else None)"

definition checked_sub_u64 :: "nat \<Rightarrow> nat \<Rightarrow> nat option" where
  "checked_sub_u64 a b = (if b \<le> a then Some (a - b) else None)"

definition checked_mul_u64 :: "nat \<Rightarrow> nat \<Rightarrow> nat option" where
  "checked_mul_u64 a b = (if a * b \<le> u64_max then Some (a * b) else None)"

definition saturating_add_u64 :: "nat \<Rightarrow> nat \<Rightarrow> nat" where
  "saturating_add_u64 a b = min (a + b) u64_max"

definition saturating_add_u32 :: "nat \<Rightarrow> nat \<Rightarrow> nat" where
  "saturating_add_u32 a b = min (a + b) u32_max"

definition saturating_mul_u64 :: "nat \<Rightarrow> nat \<Rightarrow> nat" where
  "saturating_mul_u64 a b = min (a * b) u64_max"

definition checked_add_i64 :: "int \<Rightarrow> int \<Rightarrow> int option" where
  "checked_add_i64 a b = (if i64_min \<le> a + b \<and> a + b \<le> i64_max then Some (a + b) else None)"

definition checked_sub_i64 :: "int \<Rightarrow> int \<Rightarrow> int option" where
  "checked_sub_i64 a b = (if i64_min \<le> a - b \<and> a - b \<le> i64_max then Some (a - b) else None)"

definition u64_of_i64 :: "int \<Rightarrow> nat option" where
  "u64_of_i64 a = (if 0 \<le> a then Some (nat a) else None)"

lemma checked_add_u64_Some: "checked_add_u64 a b = Some c \<longleftrightarrow> c = a + b \<and> a + b \<le> u64_max"
  by (auto simp: checked_add_u64_def)

lemma checked_sub_u64_Some: "checked_sub_u64 a b = Some c \<longleftrightarrow> b \<le> a \<and> c = a - b"
  by (auto simp: checked_sub_u64_def)

lemma checked_add_i64_Some:
  "checked_add_i64 a b = Some c \<longleftrightarrow> c = a + b \<and> i64_min \<le> c \<and> c \<le> i64_max"
  by (auto simp: checked_add_i64_def)

lemmas checked_Some = checked_add_u64_Some checked_sub_u64_Some checked_add_i64_Some

section \<open>Options\<close>

text \<open>
  Rust orders \<open>Option<T>\<close> with \<open>None\<close> below every \<open>Some\<close>; \<open>opt_max\<close> is \<open>Ord::max\<close> there.
\<close>

fun opt_max :: "'a::linorder option \<Rightarrow> 'a option \<Rightarrow> 'a option" where
  "opt_max None b = b"
| "opt_max a None = a"
| "opt_max (Some a) (Some b) = Some (max a b)"

lemma opt_max_None_right [simp]: "opt_max a None = a"
  by (cases a) simp_all

lemma opt_max_Some_right: "\<exists>c. opt_max a (Some b) = Some c \<and> b \<le> c"
  by (cases a) auto

definition get_or_insert :: "'a option \<Rightarrow> 'a \<Rightarrow> 'a option" where
  "get_or_insert x v = (case x of None \<Rightarrow> Some v | Some _ \<Rightarrow> x)"

section \<open>Sorted tables\<close>

text \<open>
  \<open>xs.windows(2).all(|p| key(p[0]) < key(p[1]))\<close> is \<open>strictly_ascending key xs\<close>, and
  \<open>retain\<close> is \<open>filter\<close>. \<open>bsearch_loop\<close> and \<open>binary_search_is_ok\<close> are the loop of the
  standard library's \<open>slice::binary_search_by\<close> with a comparison of \<open>key element\<close>
  against the target and the test \<open>.is_ok()\<close>.
\<close>

definition strictly_ascending :: "('r \<Rightarrow> 'k::linorder) \<Rightarrow> 'r list \<Rightarrow> bool" where
  "strictly_ascending key xs = successively (\<lambda>a b. key a < key b) xs"

function bsearch_loop :: "('r \<Rightarrow> 'k::linorder) \<Rightarrow> 'k \<Rightarrow> 'r list \<Rightarrow> nat \<Rightarrow> nat \<Rightarrow> nat" where
  "bsearch_loop key t xs base sz =
     (if sz > 1 then
        (let half = sz div 2; mid = base + half
         in bsearch_loop key t xs (if t < key (xs ! mid) then base else mid) (sz - half))
      else base)"
  by pat_completeness auto
termination
  by (relation "measure (\<lambda>(key, t, xs, base, sz). sz)") auto

declare bsearch_loop.simps [simp del]

definition binary_search_is_ok :: "('r \<Rightarrow> 'k::linorder) \<Rightarrow> 'k \<Rightarrow> 'r list \<Rightarrow> bool" where
  "binary_search_is_ok key t xs =
     (if xs = [] then False
      else key (xs ! bsearch_loop key t xs 0 (length xs)) = t)"

lemma strictly_ascending_iff_sorted_wrt:
  "strictly_ascending key xs \<longleftrightarrow> sorted_wrt (\<lambda>a b. key a < key b) xs"
  unfolding strictly_ascending_def
  by (rule successively_conv_sorted_wrt) (auto intro: transpI)

lemma strictly_ascending_nth_mono:
  assumes "strictly_ascending key xs" and "i < j" and "j < length xs"
  shows "key (xs ! i) < key (xs ! j)"
  using assms by (auto simp: strictly_ascending_iff_sorted_wrt sorted_wrt_iff_nth_less)

lemma strictly_ascending_sorted:
  "strictly_ascending key xs \<Longrightarrow> sorted (map key xs)"
  by (auto simp: strictly_ascending_iff_sorted_wrt sorted_map intro: sorted_wrt_mono_rel [rotated])

lemma strictly_ascending_inj:
  assumes "strictly_ascending key xs" and "a \<in> set xs" and "b \<in> set xs" and "key a = key b"
  shows "a = b"
proof -
  obtain i j where i: "i < length xs" "xs ! i = a" and j: "j < length xs" "xs ! j = b"
    using assms(2,3) by (auto simp: in_set_conv_nth)
  have "i = j"
    using strictly_ascending_nth_mono [OF assms(1)] i j assms(4)
    by (metis linorder_neqE_nat order_less_irrefl)
  with i j show ?thesis by simp
qed

lemma strictly_ascending_filter:
  "strictly_ascending key xs \<Longrightarrow> strictly_ascending key (filter P xs)"
  by (simp add: strictly_ascending_iff_sorted_wrt sorted_wrt_filter)

lemma strictly_ascending_sort_key:
  "strictly_ascending key (sort_key key xs) \<longleftrightarrow> distinct (map key xs)"
proof -
  have "strictly_ascending key (sort_key key xs)
      \<longleftrightarrow> sorted_wrt (<) (map key (sort_key key xs))"
    by (simp add: strictly_ascending_iff_sorted_wrt sorted_wrt_map)
  also have "\<dots> \<longleftrightarrow> distinct (map key (sort_key key xs))"
    by (simp add: strict_sorted_iff)
  also have "\<dots> \<longleftrightarrow> distinct (map key xs)"
    by (rule mset_eq_imp_distinct_iff) simp
  finally show ?thesis .
qed

lemma bsearch_loop_correct:
  assumes "strictly_ascending key xs" and "base + sz \<le> length xs"
    and "key (xs ! k) = t" and "base \<le> k" and "k < base + sz"
  shows "bsearch_loop key t xs base sz = k"
  using assms
proof (induction key t xs base sz rule: bsearch_loop.induct)
  case (1 key t xs base sz)
  note asc = strictly_ascending_nth_mono [OF 1(2)]
  show ?case
  proof (cases "sz > 1")
    case False
    with 1 show ?thesis by (simp add: bsearch_loop.simps [of key t xs base sz])
  next
    case True
    define mid where "mid = base + sz div 2"
    have below: "k < mid" if "t < key (xs ! mid)"
    proof (rule ccontr)
      assume "\<not> k < mid"
      then consider "mid = k" | "mid < k" by linarith
      then show False
        using asc [of mid k] 1(3,4,6) that by cases auto
    qed
    have above: "mid \<le> k" if "\<not> t < key (xs ! mid)"
    proof (rule ccontr)
      assume "\<not> mid \<le> k"
      then have "key (xs ! k) < key (xs ! mid)"
        using asc [of k mid] 1(3) True by (auto simp: mid_def)
      with that 1(4) show False by simp
    qed
    have "bsearch_loop key t xs (if t < key (xs ! (base + sz div 2)) then base
        else base + sz div 2) (sz - sz div 2) = k"
      by (rule 1(1) [OF True refl refl])
         (use 1(2-6) below above True in \<open>auto simp: mid_def split: if_splits\<close>)
    with True show ?thesis
      by (simp add: bsearch_loop.simps [of key t xs base sz] Let_def)
  qed
qed

lemma bsearch_loop_in_range:
  "0 < sz \<Longrightarrow> bsearch_loop key t xs base sz < base + sz"
proof (induction key t xs base sz rule: bsearch_loop.induct)
  case (1 key t xs base sz)
  show ?case
  proof (cases "sz > 1")
    case True
    define c where "c = (t < key (xs ! (base + sz div 2)))"
    have "bsearch_loop key t xs (if c then base else base + sz div 2) (sz - sz div 2)
        < (if c then base else base + sz div 2) + (sz - sz div 2)"
      unfolding c_def by (rule 1(1) [OF True refl refl]) (use True in auto)
    with True show ?thesis
      by (subst bsearch_loop.simps) (auto simp: Let_def c_def split: if_splits)
  qed (use 1 in \<open>simp add: bsearch_loop.simps [of key t xs base sz]\<close>)
qed

text \<open>On a strictly ascending table the binary search is membership of the key.\<close>

lemma binary_search_is_ok_iff:
  assumes "strictly_ascending key xs"
  shows "binary_search_is_ok key t xs \<longleftrightarrow> t \<in> key ` set xs"
proof
  assume "binary_search_is_ok key t xs"
  then have "xs \<noteq> []" "key (xs ! bsearch_loop key t xs 0 (length xs)) = t"
    by (auto simp: binary_search_is_ok_def split: if_splits)
  moreover from this(1) have "bsearch_loop key t xs 0 (length xs) < length xs"
    using bsearch_loop_in_range [of "length xs" key t xs 0] by simp
  ultimately show "t \<in> key ` set xs" by (metis image_eqI nth_mem)
next
  assume "t \<in> key ` set xs"
  then obtain k where "k < length xs" "key (xs ! k) = t"
    by (auto simp: in_set_conv_nth)
  then show "binary_search_is_ok key t xs"
    using bsearch_loop_correct [OF assms, of 0 "length xs" k t]
    by (auto simp: binary_search_is_ok_def)
qed

end
