(* ===== verification/Rust_Str.thy ===== *)
theory Rust_Str
  imports Prelude
begin

text \<open>
  Rust's \<open>str\<close> as the sources use it. A \<open>str\<close> is a list of bytes (\<open>string\<close>, whose \<open>char\<close> is
  one byte) in UTF-8; \<open>len()\<close> is \<open>length\<close>. Operations that look at characters decode: \<open>scalars\<close>
  cuts the bytes into the encodings of single characters and \<open>chars\<close> is the list of code
  points. The ASCII operations work byte by byte, as they do in the standard library.
\<close>

section \<open>Characters\<close>

abbreviation byte :: "char \<Rightarrow> nat" where
  "byte \<equiv> of_char"

definition scalar_width :: "char \<Rightarrow> nat" where
  "scalar_width c =
     (let b = byte c in
      if b < 192 then 1 else if b < 224 then 2 else if b < 240 then 3 else 4)"

function scalars :: "string \<Rightarrow> string list" where
  "scalars [] = []"
| "scalars (c # cs) =
     (c # take (scalar_width c - 1) cs) # scalars (drop (scalar_width c - 1) cs)"
  by pat_completeness auto
termination
  by (relation "measure length") auto

text \<open>
  A \<open>str\<close> is well-formed by its type; on other byte lists the decoder gives the replacement
  character, as \<open>from_utf8_lossy\<close> does, so that ASCII code points come from ASCII bytes only.
\<close>

fun code_point :: "string \<Rightarrow> nat" where
  "code_point [a] = (if byte a < (128::nat) then byte a else 65533)"
| "code_point [a, b] =
     (let c = (byte a mod 32) * 64 + byte b mod 64 in if c < 128 then 65533 else c)"
| "code_point [a, b, c] =
     (let d = (byte a mod 16) * 4096 + (byte b mod 64) * 64 + byte c mod 64
      in if d < 2048 then 65533 else d)"
| "code_point [a, b, c, d] =
     (let e = (byte a mod 8) * 262144 + (byte b mod 64) * 4096 + (byte c mod 64) * 64 + byte d mod 64
      in if e < 65536 then 65533 else e)"
| "code_point _ = 65533"

definition chars :: "string \<Rightarrow> nat list" where
  "chars s = map code_point (scalars s)"

text \<open>\<open>char::is_control\<close> is the general category Cc, \<open>char::is_whitespace\<close> is White_Space.\<close>

definition is_control :: "nat \<Rightarrow> bool" where
  "is_control c \<longleftrightarrow> c < 32 \<or> 127 \<le> c \<and> c < 160"

definition is_whitespace :: "nat \<Rightarrow> bool" where
  "is_whitespace c \<longleftrightarrow>
     9 \<le> c \<and> c \<le> 13 \<or> c = 32 \<or> c = 133 \<or> c = 160 \<or> c = 5760 \<or> 8192 \<le> c \<and> c \<le> 8202
     \<or> c = 8232 \<or> c = 8233 \<or> c = 8239 \<or> c = 8287 \<or> c = 12288"

definition is_ascii_digit :: "nat \<Rightarrow> bool" where
  "is_ascii_digit c \<longleftrightarrow> 48 \<le> c \<and> c \<le> 57"

definition is_ascii_lowercase :: "nat \<Rightarrow> bool" where
  "is_ascii_lowercase c \<longleftrightarrow> 97 \<le> c \<and> c \<le> 122"

definition is_ascii_uppercase :: "nat \<Rightarrow> bool" where
  "is_ascii_uppercase c \<longleftrightarrow> 65 \<le> c \<and> c \<le> 90"

definition is_ascii_alphanumeric :: "nat \<Rightarrow> bool" where
  "is_ascii_alphanumeric c \<longleftrightarrow>
     is_ascii_digit c \<or> is_ascii_lowercase c \<or> is_ascii_uppercase c"

definition is_ascii_hexdigit :: "nat \<Rightarrow> bool" where
  "is_ascii_hexdigit c \<longleftrightarrow> is_ascii_digit c \<or> 65 \<le> c \<and> c \<le> 70 \<or> 97 \<le> c \<and> c \<le> 102"

lemma scalars_ascii:
  "(\<forall>c \<in> set s. byte c < (128::nat)) \<Longrightarrow> scalars s = map (\<lambda>c. [c]) s"
  by (induction s) (auto simp: scalar_width_def)

lemma chars_ascii:
  "(\<forall>c \<in> set s. byte c < (128::nat)) \<Longrightarrow> chars s = map byte s"
  by (simp add: chars_def scalars_ascii)

lemma concat_scalars: "concat (scalars s) = s"
  by (induction s rule: scalars.induct) auto

lemma code_point_ascii: "code_point u < 128 \<Longrightarrow> \<exists>a. u = [a] \<and> byte a = code_point u"
  by (cases u rule: code_point.cases) (auto simp: Let_def split: if_splits)

lemma chars_ascii_only:
  assumes "\<forall>c \<in> set (chars s). c < 128"
  shows "chars s = map byte s"
proof -
  have "\<forall>u \<in> set us. code_point u < 128 \<Longrightarrow> map code_point us = map byte (concat us)" for us
    by (induction us) (auto dest!: code_point_ascii)
  from this [of "scalars s"] assms show ?thesis
    by (simp add: chars_def concat_scalars)
qed

section \<open>Trimming and case\<close>

definition blank_scalar :: "string \<Rightarrow> bool" where
  "blank_scalar u = is_whitespace (code_point u)"

definition trim_start :: "string \<Rightarrow> string" where
  "trim_start s = concat (dropWhile blank_scalar (scalars s))"

definition trim_end :: "string \<Rightarrow> string" where
  "trim_end s = concat (rev (dropWhile blank_scalar (rev (scalars s))))"

definition trim :: "string \<Rightarrow> string" where
  "trim s = concat (rev (dropWhile blank_scalar (rev (dropWhile blank_scalar (scalars s)))))"

definition to_ascii_lowercase_byte :: "char \<Rightarrow> char" where
  "to_ascii_lowercase_byte c =
     (if is_ascii_uppercase (byte c) then char_of (byte c + 32 :: nat) else c)"

definition to_ascii_lowercase :: "string \<Rightarrow> string" where
  "to_ascii_lowercase s = map to_ascii_lowercase_byte s"

definition eq_ignore_ascii_case :: "string \<Rightarrow> string \<Rightarrow> bool" where
  "eq_ignore_ascii_case s t \<longleftrightarrow> to_ascii_lowercase s = to_ascii_lowercase t"

lemma length_trim: "length (trim s) \<le> length s"
proof -
  define f where "f us = sum_list (map length us)" for us :: "string list"
  have le: "f (dropWhile P us) \<le> f us" for P us
    by (induction us) (auto simp: f_def)
  have rv: "f (rev us) = f us" for us
    by (simp add: f_def rev_map [symmetric])
  have "f (rev (dropWhile blank_scalar (rev (dropWhile blank_scalar (scalars s))))) \<le> f (scalars s)"
    using le rv by (metis order_trans)
  then show ?thesis
    by (metis concat_scalars f_def length_concat trim_def)
qed

lemma scalars_nonempty: "u \<in> set (scalars s) \<Longrightarrow> u \<noteq> []"
  by (induction s rule: scalars.induct) auto

lemma trim_eq_Nil: "trim s = [] \<longleftrightarrow> (\<forall>u \<in> set (scalars s). blank_scalar u)"
proof -
  define us where "us = dropWhile blank_scalar (scalars s)"
  have "trim s = [] \<longleftrightarrow> dropWhile blank_scalar (rev us) = []"
  proof -
    have "\<forall>u \<in> set (dropWhile blank_scalar (rev us)). u \<noteq> []"
      using scalars_nonempty unfolding us_def by (metis set_dropWhileD set_rev)
    then show ?thesis
      by (auto simp: trim_def us_def [symmetric])
  qed
  also have "\<dots> \<longleftrightarrow> (\<forall>u \<in> set us. blank_scalar u)"
    by (simp add: dropWhile_eq_Nil_conv)
  also have "\<dots> \<longleftrightarrow> us = []"
    unfolding us_def by (metis dropWhile_eq_Nil_conv empty_iff hd_dropWhile hd_in_set list.set(1))
  finally show ?thesis by (simp add: us_def dropWhile_eq_Nil_conv)
qed

lemma trim_ascii_not_blank:
  assumes "\<forall>c \<in> set s. byte c < (128::nat)" and "c \<in> set s" and "\<not> is_whitespace (byte c)"
  shows "trim s \<noteq> []"
  using assms by (auto simp: trim_eq_Nil scalars_ascii blank_scalar_def)

section \<open>Splitting\<close>

text \<open>\<open>split(c)\<close>, \<open>split_once(c)\<close>, \<open>strip_prefix\<close>, \<open>starts_with\<close>, \<open>ends_with\<close> and \<open>contains\<close>.\<close>

fun split_on :: "char \<Rightarrow> string \<Rightarrow> string list" where
  "split_on d [] = [[]]"
| "split_on d (c # cs) =
     (if c = d then [] # split_on d cs
      else case split_on d cs of [] \<Rightarrow> [[c]] | u # us \<Rightarrow> (c # u) # us)"

definition split_once :: "char \<Rightarrow> string \<Rightarrow> (string \<times> string) option" where
  "split_once d s =
     (if d \<in> set s then Some (takeWhile (\<lambda>c. c \<noteq> d) s, tl (dropWhile (\<lambda>c. c \<noteq> d) s)) else None)"

fun strip_prefix :: "string \<Rightarrow> string \<Rightarrow> string option" where
  "strip_prefix [] s = Some s"
| "strip_prefix (p # ps) [] = None"
| "strip_prefix (p # ps) (c # cs) = (if p = c then strip_prefix ps cs else None)"

definition starts_with :: "string \<Rightarrow> string \<Rightarrow> bool" where
  "starts_with s p \<longleftrightarrow> take (length p) s = p"

definition ends_with :: "string \<Rightarrow> string \<Rightarrow> bool" where
  "ends_with s p \<longleftrightarrow> length p \<le> length s \<and> drop (length s - length p) s = p"

fun contains_str :: "string \<Rightarrow> string \<Rightarrow> bool" where
  "contains_str [] p \<longleftrightarrow> p = []"
| "contains_str (c # cs) p \<longleftrightarrow> starts_with (c # cs) p \<or> contains_str cs p"

lemma split_on_nonempty [simp]: "split_on d s \<noteq> []"
  by (induction s) (auto split: list.splits)

lemma split_once_Some:
  "split_once d s = Some (a, b) \<Longrightarrow> s = a @ d # b \<and> d \<notin> set a"
proof (induction s arbitrary: a)
  case Nil
  then show ?case by (simp add: split_once_def)
next
  case (Cons c cs)
  show ?case
  proof (cases "c = d")
    case False
    with Cons.prems obtain a' where "a = c # a'" "split_once d cs = Some (a', b)"
      by (auto simp: split_once_def split: if_splits)
    with Cons.IH [of a'] False show ?thesis by simp
  qed (use Cons.prems in \<open>auto simp: split_once_def\<close>)
qed

lemma split_once_append [simp]:
  "d \<notin> set a \<Longrightarrow> split_once d (a @ d # b) = Some (a, b)"
  by (induction a) (auto simp: split_once_def)

lemma strip_prefix_iff: "strip_prefix p s = Some t \<longleftrightarrow> s = p @ t"
  by (induction p s rule: strip_prefix.induct) auto

lemma starts_with_iff: "starts_with s p \<longleftrightarrow> (\<exists>t. s = p @ t)"
  unfolding starts_with_def by (metis append_take_drop_id append_eq_conv_conj)

section \<open>Numbers\<close>

text \<open>
  \<open>str::parse::<u64>()\<close>: an optional plus sign and a nonempty run of ASCII digits whose value
  fits the width. \<open>show_nat\<close> is the decimal \<open>Display\<close> of an unsigned integer.
\<close>

fun digits_value :: "nat \<Rightarrow> string \<Rightarrow> nat" where
  "digits_value acc [] = acc"
| "digits_value acc (c # cs) = digits_value (acc * 10 + (byte c - 48)) cs"

definition all_digits :: "string \<Rightarrow> bool" where
  "all_digits s \<longleftrightarrow> s \<noteq> [] \<and> (\<forall>c \<in> set s. is_ascii_digit (byte c))"

definition parse_uint :: "nat \<Rightarrow> string \<Rightarrow> nat option" where
  "parse_uint cap s =
     (let t = (case s of c # cs \<Rightarrow> if c = CHR ''+'' then cs else s | [] \<Rightarrow> []) in
      if all_digits t \<and> digits_value 0 t \<le> cap then Some (digits_value 0 t) else None)"

definition parse_u64 :: "string \<Rightarrow> nat option" where
  "parse_u64 s = parse_uint u64_max s"

definition parse_u32 :: "string \<Rightarrow> nat option" where
  "parse_u32 s = parse_uint u32_max s"

fun show_nat :: "nat \<Rightarrow> string" where
  "show_nat n =
     (if n < 10 then [char_of (48 + n)] else show_nat (n div 10) @ [char_of (48 + n mod 10)])"

declare show_nat.simps [simp del]

lemma digits_value_append:
  "digits_value acc (s @ t) = digits_value (digits_value acc s) t"
  by (induction s arbitrary: acc) auto

lemma show_nat_digits:
  "show_nat n \<noteq> [] \<and> (\<forall>c \<in> set (show_nat n). is_ascii_digit (byte c))
   \<and> digits_value 0 (show_nat n) = n"
proof (induction n rule: show_nat.induct)
  case (1 n)
  then show ?case
    by (auto simp: show_nat.simps [of n] is_ascii_digit_def digits_value_append)
qed

lemma parse_uint_show_nat: "n \<le> cap \<Longrightarrow> parse_uint cap (show_nat n) = Some n"
proof -
  assume le: "n \<le> cap"
  obtain c cs where s: "show_nat n = c # cs" using show_nat_digits [of n] by (cases "show_nat n") auto
  have "c \<noteq> CHR ''+''" using show_nat_digits [of n] s by (auto simp: is_ascii_digit_def)
  with s show ?thesis
    using show_nat_digits [of n] le by (simp add: parse_uint_def all_digits_def)
qed

end
