(* ===== verification/Bounds.thy ===== *)
theory Bounds
  imports Rust_Str
begin

text \<open>
  The shared guards of \<open>compliance/bounds.rs\<close>: the closed table of inclusive numeric bounds, the
  character classes of persisted text and the checked capacity reservation. The domain error
  of \<open>compliance/mod.rs\<close> is here because every component below returns it.
\<close>

section \<open>Data\<close>

datatype compliance_error =
    InvalidInput | InvalidTransition | NotFound | Unavailable | Capacity
  | RulesUnavailable | RetentionNotDue

type_synonym 'a outcome = "compliance_error + 'a"

datatype bound_key
    = BkContact | BkNarrative | BkReason | BkEvidence | BkUrl | BkUrls | BkName
    | BkRequiredNames | BkOptionalNames | BkNameTokens | BkActor | BkLabel | BkSlug
    | BkDeliveryRef | BkQueueLimit | BkJournalRow | BkPayloadFile | BkServiceNotice
    | BkTicketPayload | BkListFile | BkListEntries | BkTokenBytes | BkIdBytes
    | BkSaltBytes | BkHexBytes | BkTokenFile | BkRecordItems | BkOptionalRecordItems
    | BkRecordHistory | BkOptionalHistory | BkPriorityKinds | BkChildrenClasses
    | BkMeasureRows | BkReleaseChanges | BkIntimateMargin | BkRetentionMonths
    | BkMaxTickets | BkMaxTicketEvents | BkMaxJournalBytes | BkMaxPayloadBytes
    | BkMaxRules | BkMaxRulesBytes | BkMaxRecords | BkMaxRecordBytes | BkMaxRecordsBytes
    | BkReadingAge | BkReservedEvents | BkReservedJournalBytes

record bound_spec =
  bs_key :: bound_key
  bs_default :: "nat option"
  bs_min :: nat
  bs_max :: nat
  bs_unit :: string

definition bound_spec_of :: "bound_key \<Rightarrow> nat option \<Rightarrow> nat \<Rightarrow> nat \<Rightarrow> string \<Rightarrow> bound_spec" where
  "bound_spec_of k d lo hi u =
     \<lparr> bs_key = k, bs_default = d, bs_min = lo, bs_max = hi, bs_unit = u \<rparr>"

text \<open>\<open>clock::MIN_RETENTION_MONTHS\<close>, the lower bound of the retention row of the table.\<close>

definition MIN_RETENTION_MONTHS :: nat where
  "MIN_RETENTION_MONTHS = 36"

definition RANGE_SPECS :: "bound_spec list" where
  "RANGE_SPECS =
    [bound_spec_of BkContact None 1 254 ''bytes'',
     bound_spec_of BkNarrative None 1 4096 ''bytes'',
     bound_spec_of BkReason None 1 2048 ''bytes'',
     bound_spec_of BkEvidence None 1 1024 ''bytes'',
     bound_spec_of BkUrl None 1 2048 ''bytes'',
     bound_spec_of BkUrls None 1 16 ''items'',
     bound_spec_of BkName None 1 128 ''bytes'',
     bound_spec_of BkRequiredNames None 1 8 ''items'',
     bound_spec_of BkOptionalNames None 0 8 ''items'',
     bound_spec_of BkNameTokens None 1 16 ''items'',
     bound_spec_of BkActor None 1 64 ''bytes'',
     bound_spec_of BkLabel None 1 128 ''bytes'',
     bound_spec_of BkSlug None 1 64 ''bytes'',
     bound_spec_of BkDeliveryRef None 1 128 ''bytes'',
     bound_spec_of BkQueueLimit (Some 20) 1 50 ''items'',
     bound_spec_of BkJournalRow None 1 8192 ''bytes'',
     bound_spec_of BkPayloadFile None 1 65536 ''bytes'',
     bound_spec_of BkServiceNotice None 1 65536 ''bytes'',
     bound_spec_of BkTicketPayload None 0 1048576 ''bytes'',
     bound_spec_of BkListFile None 1 16777216 ''bytes'',
     bound_spec_of BkListEntries None 0 100000 ''items'',
     bound_spec_of BkTokenBytes None 32 32 ''bytes'',
     bound_spec_of BkIdBytes None 32 32 ''bytes'',
     bound_spec_of BkSaltBytes None 32 32 ''bytes'',
     bound_spec_of BkHexBytes None 64 64 ''bytes'',
     bound_spec_of BkTokenFile None 64 65 ''bytes'',
     bound_spec_of BkRecordItems None 1 64 ''items'',
     bound_spec_of BkOptionalRecordItems None 0 64 ''items'',
     bound_spec_of BkRecordHistory None 1 32 ''items'',
     bound_spec_of BkOptionalHistory None 0 32 ''items'',
     bound_spec_of BkPriorityKinds None 17 17 ''items'',
     bound_spec_of BkChildrenClasses None 3 3 ''items'',
     bound_spec_of BkMeasureRows None 28 28 ''items'',
     bound_spec_of BkReleaseChanges None 0 10 ''items'',
     bound_spec_of BkIntimateMargin (Some 172800) 1 172800 ''seconds'',
     bound_spec_of BkRetentionMonths (Some 36) MIN_RETENTION_MONTHS 120 ''months'',
     bound_spec_of BkMaxTickets (Some 10000) 1 100000 ''items'',
     bound_spec_of BkMaxTicketEvents (Some 256) 16 256 ''events'',
     bound_spec_of BkMaxJournalBytes (Some 268435456) 1048576 2684354560 ''bytes'',
     bound_spec_of BkMaxPayloadBytes (Some 268435456) 1048576 2684354560 ''bytes'',
     bound_spec_of BkMaxRules (Some 100000) 1 100000 ''items'',
     bound_spec_of BkMaxRulesBytes (Some 16777216) 4096 16777216 ''bytes'',
     bound_spec_of BkMaxRecords (Some 10000) 1 10000 ''items'',
     bound_spec_of BkMaxRecordBytes (Some 1048576) 4096 1048576 ''bytes'',
     bound_spec_of BkMaxRecordsBytes (Some 268435456) 1048576 2684354560 ''bytes'',
     bound_spec_of BkReadingAge (Some 12) 8 16 ''years'',
     bound_spec_of BkReservedEvents (Some 4) 4 4 ''events'',
     bound_spec_of BkReservedJournalBytes (Some 65536) 65536 65536 ''bytes'']"

section \<open>Operations\<close>

definition spec :: "bound_key \<Rightarrow> bound_spec" where
  "spec k = the (List.find (\<lambda>s. bs_key s = k) RANGE_SPECS)"

definition validate_range :: "nat \<Rightarrow> nat \<Rightarrow> nat \<Rightarrow> unit outcome" where
  "validate_range n lo hi = (if lo \<le> n \<and> n \<le> hi then Inr () else Inl InvalidInput)"

definition validate_bound :: "bound_key \<Rightarrow> nat \<Rightarrow> unit outcome" where
  "validate_bound k n = (let s = spec k in validate_range n (bs_min s) (bs_max s))"

datatype text_class = NarrativeText | LabelText | SlugText | HexText

definition nonblank :: "string \<Rightarrow> unit outcome" where
  "nonblank s = (if trim s = [] then Inl InvalidInput else Inr ())"

fun character_ok :: "text_class \<Rightarrow> nat \<Rightarrow> nat \<Rightarrow> bool" where
  "character_ok NarrativeText index ch \<longleftrightarrow> \<not> is_control ch \<or> ch = 10 \<or> ch = 9"
| "character_ok LabelText index ch \<longleftrightarrow> \<not> is_control ch"
| "character_ok SlugText index ch \<longleftrightarrow>
     is_ascii_lowercase ch \<or> is_ascii_digit ch \<or> index \<noteq> 0 \<and> (ch = 95 \<or> ch = 46 \<or> ch = 45)"
| "character_ok HexText index ch \<longleftrightarrow> is_ascii_digit ch \<or> 97 \<le> ch \<and> ch \<le> 102"

definition characters :: "string \<Rightarrow> text_class \<Rightarrow> unit outcome" where
  "characters s cls =
     (if list_all (\<lambda>(index, ch). character_ok cls index ch) (List.enumerate 0 (chars s))
      then Inr () else Inl InvalidInput)"

definition text_ok :: "string \<Rightarrow> bound_key \<Rightarrow> text_class \<Rightarrow> unit outcome" where
  "text_ok s bound cls =
     res_then (validate_bound bound (length s))
       (res_then (nonblank s) (characters s cls))"

definition reserve :: "nat \<Rightarrow> nat \<Rightarrow> nat \<Rightarrow> nat \<Rightarrow> nat outcome" where
  "reserve current additional maximum reserved =
     res_bind (ok_or (checked_add_u64 current additional) Capacity) (\<lambda>total.
     res_bind (ok_or (checked_sub_u64 maximum reserved) Capacity) (\<lambda>limit.
     res_then (map_err (validate_range total 0 limit) Capacity)
       (Inr total)))"

section \<open>Properties\<close>

text \<open>
  Every key has exactly one row: the lookup's \<open>expect\<close> never fires, and the row found is the
  key's own.
\<close>

lemma spec_found: "\<exists>s. List.find (\<lambda>s. bs_key s = k) RANGE_SPECS = Some s \<and> bs_key s = k"
  by (cases k) (simp_all add: RANGE_SPECS_def bound_spec_of_def)

lemma spec_rows:
  "spec BkContact = bound_spec_of BkContact None 1 254 ''bytes''"
  "spec BkNarrative = bound_spec_of BkNarrative None 1 4096 ''bytes''"
  "spec BkReason = bound_spec_of BkReason None 1 2048 ''bytes''"
  "spec BkEvidence = bound_spec_of BkEvidence None 1 1024 ''bytes''"
  "spec BkUrl = bound_spec_of BkUrl None 1 2048 ''bytes''"
  "spec BkUrls = bound_spec_of BkUrls None 1 16 ''items''"
  "spec BkName = bound_spec_of BkName None 1 128 ''bytes''"
  "spec BkRequiredNames = bound_spec_of BkRequiredNames None 1 8 ''items''"
  "spec BkOptionalNames = bound_spec_of BkOptionalNames None 0 8 ''items''"
  "spec BkNameTokens = bound_spec_of BkNameTokens None 1 16 ''items''"
  "spec BkActor = bound_spec_of BkActor None 1 64 ''bytes''"
  "spec BkLabel = bound_spec_of BkLabel None 1 128 ''bytes''"
  "spec BkSlug = bound_spec_of BkSlug None 1 64 ''bytes''"
  "spec BkDeliveryRef = bound_spec_of BkDeliveryRef None 1 128 ''bytes''"
  "spec BkQueueLimit = bound_spec_of BkQueueLimit (Some 20) 1 50 ''items''"
  "spec BkJournalRow = bound_spec_of BkJournalRow None 1 8192 ''bytes''"
  "spec BkPayloadFile = bound_spec_of BkPayloadFile None 1 65536 ''bytes''"
  "spec BkServiceNotice = bound_spec_of BkServiceNotice None 1 65536 ''bytes''"
  "spec BkTicketPayload = bound_spec_of BkTicketPayload None 0 1048576 ''bytes''"
  "spec BkListFile = bound_spec_of BkListFile None 1 16777216 ''bytes''"
  "spec BkListEntries = bound_spec_of BkListEntries None 0 100000 ''items''"
  "spec BkTokenBytes = bound_spec_of BkTokenBytes None 32 32 ''bytes''"
  "spec BkIdBytes = bound_spec_of BkIdBytes None 32 32 ''bytes''"
  "spec BkSaltBytes = bound_spec_of BkSaltBytes None 32 32 ''bytes''"
  "spec BkHexBytes = bound_spec_of BkHexBytes None 64 64 ''bytes''"
  "spec BkTokenFile = bound_spec_of BkTokenFile None 64 65 ''bytes''"
  "spec BkRecordItems = bound_spec_of BkRecordItems None 1 64 ''items''"
  "spec BkOptionalRecordItems = bound_spec_of BkOptionalRecordItems None 0 64 ''items''"
  "spec BkRecordHistory = bound_spec_of BkRecordHistory None 1 32 ''items''"
  "spec BkOptionalHistory = bound_spec_of BkOptionalHistory None 0 32 ''items''"
  "spec BkPriorityKinds = bound_spec_of BkPriorityKinds None 17 17 ''items''"
  "spec BkChildrenClasses = bound_spec_of BkChildrenClasses None 3 3 ''items''"
  "spec BkMeasureRows = bound_spec_of BkMeasureRows None 28 28 ''items''"
  "spec BkReleaseChanges = bound_spec_of BkReleaseChanges None 0 10 ''items''"
  "spec BkIntimateMargin = bound_spec_of BkIntimateMargin (Some 172800) 1 172800 ''seconds''"
  "spec BkRetentionMonths = bound_spec_of BkRetentionMonths (Some 36) MIN_RETENTION_MONTHS 120 ''months''"
  "spec BkMaxTickets = bound_spec_of BkMaxTickets (Some 10000) 1 100000 ''items''"
  "spec BkMaxTicketEvents = bound_spec_of BkMaxTicketEvents (Some 256) 16 256 ''events''"
  "spec BkMaxJournalBytes = bound_spec_of BkMaxJournalBytes (Some 268435456) 1048576 2684354560 ''bytes''"
  "spec BkMaxPayloadBytes = bound_spec_of BkMaxPayloadBytes (Some 268435456) 1048576 2684354560 ''bytes''"
  "spec BkMaxRules = bound_spec_of BkMaxRules (Some 100000) 1 100000 ''items''"
  "spec BkMaxRulesBytes = bound_spec_of BkMaxRulesBytes (Some 16777216) 4096 16777216 ''bytes''"
  "spec BkMaxRecords = bound_spec_of BkMaxRecords (Some 10000) 1 10000 ''items''"
  "spec BkMaxRecordBytes = bound_spec_of BkMaxRecordBytes (Some 1048576) 4096 1048576 ''bytes''"
  "spec BkMaxRecordsBytes = bound_spec_of BkMaxRecordsBytes (Some 268435456) 1048576 2684354560 ''bytes''"
  "spec BkReadingAge = bound_spec_of BkReadingAge (Some 12) 8 16 ''years''"
  "spec BkReservedEvents = bound_spec_of BkReservedEvents (Some 4) 4 4 ''events''"
  "spec BkReservedJournalBytes = bound_spec_of BkReservedJournalBytes (Some 65536) 65536 65536 ''bytes''"
  by (simp_all only: spec_def RANGE_SPECS_def bound_spec_of_def find.simps bound_spec.simps bound_key.simps
      if_True if_False option.sel simp_thms)

lemma range_specs_distinct: "distinct (map bs_key RANGE_SPECS)"
  by (simp add: RANGE_SPECS_def bound_spec_of_def)

lemma range_specs_ordered: "list_all (\<lambda>s. bs_min s \<le> bs_max s \<and> bs_max s \<le> u64_max) RANGE_SPECS"
  by (simp add: RANGE_SPECS_def bound_spec_of_def MIN_RETENTION_MONTHS_def)

lemma validate_range_Inr [res_simps]:
  "validate_range n lo hi = Inr u \<longleftrightarrow> lo \<le> n \<and> n \<le> hi"
  by (simp add: validate_range_def)

lemma validate_bound_Inr [res_simps]:
  "validate_bound k n = Inr u \<longleftrightarrow> bs_min (spec k) \<le> n \<and> n \<le> bs_max (spec k)"
  by (simp add: validate_bound_def Let_def res_simps)

lemma validate_bound_Inl: "validate_bound k n = Inl e \<Longrightarrow> e = InvalidInput"
  by (auto simp: validate_bound_def validate_range_def Let_def split: if_splits)

lemma text_ok_length:
  "text_ok s k cls = Inr u \<Longrightarrow> bs_min (spec k) \<le> length s \<and> length s \<le> bs_max (spec k)"
  by (simp add: text_ok_def res_simps)

lemma reserve_Inr [res_simps]:
  "reserve c a m r = Inr t \<longleftrightarrow> t = c + a \<and> c + a \<le> u64_max \<and> r \<le> m \<and> c + a + r \<le> m"
  by (auto simp: reserve_def res_simps checked_Some)

lemma reserve_Inl: "reserve c a m r = Inl e \<Longrightarrow> e = Capacity"
  by (auto simp: reserve_def res_simps)

text \<open>Evaluation of the text guards on concrete text.\<close>

lemmas bound_eval = validate_bound_def validate_range_def spec_rows bound_spec_of_def
  MIN_RETENTION_MONTHS_def

lemmas text_eval = text_ok_def nonblank_def trim_def characters_def chars_def scalar_width_def
  blank_scalar_def is_whitespace_def is_control_def is_ascii_lowercase_def is_ascii_digit_def Let_def

lemma characters_printable:
  assumes "list_all (\<lambda>c. 32 \<le> byte c \<and> byte c < (127::nat)) s" and "cls = NarrativeText \<or> cls = LabelText"
  shows "characters s cls = Inr ()"
proof -
  have "list_all (\<lambda>(i, ch). character_ok cls i ch) (List.enumerate n (map byte t))"
    if "list_all (\<lambda>c. 32 \<le> byte c \<and> byte c < (127::nat)) t" for n t
    using that assms(2) by (induction t arbitrary: n) (auto simp: is_control_def)
  moreover have "chars s = map byte s"
    using assms(1) by (intro chars_ascii) (auto simp: list_all_iff)
  ultimately show ?thesis
    using assms(1) by (simp add: characters_def)
qed

lemma text_ok_printable:
  assumes "list_all (\<lambda>c. 32 \<le> byte c \<and> byte c < (127::nat)) s" and "cls = NarrativeText \<or> cls = LabelText"
    and "bs_min (spec k) \<le> length s" and "length s \<le> bs_max (spec k)"
    and "s \<noteq> []" and "hd s \<noteq> CHR '' ''"
  shows "text_ok s k cls = Inr ()"
proof -
  have b: "32 \<le> byte (hd s) \<and> byte (hd s) < (127::nat)" using assms(1,5) by (auto simp: list_all_iff)
  have "byte (hd s) \<noteq> (32::nat)"
  proof
    assume "byte (hd s) = (32::nat)"
    then have "byte (hd s) = (byte (CHR '' '') :: nat)" by simp
    with assms(6) show False by (simp only: of_char_eq_iff)
  qed
  with b have "\<not> is_whitespace (byte (hd s))" by (auto simp: is_whitespace_def)
  moreover have "\<forall>c \<in> set s. byte c < (128::nat)" using assms(1) by (auto simp: list_all_iff)
  ultimately have "trim s \<noteq> []"
    using assms(5) by (intro trim_ascii_not_blank [of s "hd s"]) auto
  with assms characters_printable [OF assms(1,2)] show ?thesis
    by (simp add: text_ok_def nonblank_def validate_bound_def validate_range_def)
qed

end
