(* ===== verification/Vocabulary.thy ===== *)
theory Vocabulary
  imports Bounds
begin

text \<open>
  The closed vocabularies of \<open>compliance/model.rs\<close>. Each use of the \<open>vocabulary!\<close> macro is a
  datatype with its \<open>as_str\<close> and \<open>parse\<close>; the macro's promise, that the two are inverse to each
  other and that nothing else parses, is the locale \<open>vocabulary\<close>, interpreted for every use.
\<close>

section \<open>The macro's contract\<close>

locale vocabulary =
  fixes as_str :: "'v \<Rightarrow> string" and parse :: "string \<Rightarrow> 'v outcome"
  assumes parse_as_str: "parse (as_str v) = Inr v"
    and parse_closed: "parse s = Inr v \<Longrightarrow> as_str v = s"
    and parse_error: "parse s = Inl e \<Longrightarrow> e = InvalidInput"
begin

lemma parse_iff: "parse s = Inr v \<longleftrightarrow> s = as_str v"
  using parse_as_str parse_closed by auto

lemma as_str_eq_iff: "as_str u = as_str v \<longleftrightarrow> u = v"
  using parse_as_str by (metis sum.inject(2))

lemma parse_rejects: "parse s = Inl InvalidInput \<longleftrightarrow> s \<notin> range as_str"
proof
  assume "parse s = Inl InvalidInput"
  then show "s \<notin> range as_str" using parse_as_str by (auto simp: image_iff)
next
  assume "s \<notin> range as_str"
  then show "parse s = Inl InvalidInput"
    using parse_iff [of s] parse_error [of s] by (cases "parse s") auto
qed

end

section \<open>The vocabularies\<close>

datatype route =
    RtIllegalContent | RtHarmfulToChildren | RtIntimateImages | RtSiteComplaint
    | RtRightsRemoval | RtDataRights | RtDataProtectionComplaint | RtOnlineSafetyComplaint

fun route_as_str :: "route \<Rightarrow> string" where
  "route_as_str RtIllegalContent = ''illegal_content''"
| "route_as_str RtHarmfulToChildren = ''harmful_to_children''"
| "route_as_str RtIntimateImages = ''intimate_images''"
| "route_as_str RtSiteComplaint = ''site_complaint''"
| "route_as_str RtRightsRemoval = ''rights_removal''"
| "route_as_str RtDataRights = ''data_rights''"
| "route_as_str RtDataProtectionComplaint = ''data_protection_complaint''"
| "route_as_str RtOnlineSafetyComplaint = ''online_safety_complaint''"

definition route_parse :: "string \<Rightarrow> route outcome" where
  "route_parse s =
     (if s = ''illegal_content'' then Inr RtIllegalContent
      else if s = ''harmful_to_children'' then Inr RtHarmfulToChildren
      else if s = ''intimate_images'' then Inr RtIntimateImages
      else if s = ''site_complaint'' then Inr RtSiteComplaint
      else if s = ''rights_removal'' then Inr RtRightsRemoval
      else if s = ''data_rights'' then Inr RtDataRights
      else if s = ''data_protection_complaint'' then Inr RtDataProtectionComplaint
      else if s = ''online_safety_complaint'' then Inr RtOnlineSafetyComplaint
      else Inl InvalidInput)"

datatype requester_type =
    RqSelfPerson | RqRepresentative | RqAffectedPerson | RqSiteOperator | RqRightsOwner
    | RqOther

fun requester_type_as_str :: "requester_type \<Rightarrow> string" where
  "requester_type_as_str RqSelfPerson = ''self''"
| "requester_type_as_str RqRepresentative = ''representative''"
| "requester_type_as_str RqAffectedPerson = ''affected_person''"
| "requester_type_as_str RqSiteOperator = ''site_operator''"
| "requester_type_as_str RqRightsOwner = ''rights_owner''"
| "requester_type_as_str RqOther = ''other''"

definition requester_type_parse :: "string \<Rightarrow> requester_type outcome" where
  "requester_type_parse s =
     (if s = ''self'' then Inr RqSelfPerson
      else if s = ''representative'' then Inr RqRepresentative
      else if s = ''affected_person'' then Inr RqAffectedPerson
      else if s = ''site_operator'' then Inr RqSiteOperator
      else if s = ''rights_owner'' then Inr RqRightsOwner
      else if s = ''other'' then Inr RqOther
      else Inl InvalidInput)"

datatype ticket_state =
    StReceived | StAcknowledged | StIdentityPending | StQueued | StDecided | StActioned
    | StAppealed | StReversed | StUpheld | StClosed

fun ticket_state_as_str :: "ticket_state \<Rightarrow> string" where
  "ticket_state_as_str StReceived = ''received''"
| "ticket_state_as_str StAcknowledged = ''acknowledged''"
| "ticket_state_as_str StIdentityPending = ''identity_pending''"
| "ticket_state_as_str StQueued = ''queued''"
| "ticket_state_as_str StDecided = ''decided''"
| "ticket_state_as_str StActioned = ''actioned''"
| "ticket_state_as_str StAppealed = ''appealed''"
| "ticket_state_as_str StReversed = ''reversed''"
| "ticket_state_as_str StUpheld = ''upheld''"
| "ticket_state_as_str StClosed = ''closed''"

definition ticket_state_parse :: "string \<Rightarrow> ticket_state outcome" where
  "ticket_state_parse s =
     (if s = ''received'' then Inr StReceived
      else if s = ''acknowledged'' then Inr StAcknowledged
      else if s = ''identity_pending'' then Inr StIdentityPending
      else if s = ''queued'' then Inr StQueued
      else if s = ''decided'' then Inr StDecided
      else if s = ''actioned'' then Inr StActioned
      else if s = ''appealed'' then Inr StAppealed
      else if s = ''reversed'' then Inr StReversed
      else if s = ''upheld'' then Inr StUpheld
      else if s = ''closed'' then Inr StClosed
      else Inl InvalidInput)"

datatype ground =
    GdIllegalContent | GdHarmfulToChildren | GdIntimateImages | GdRightsRemoval
    | GdDataDelisting | GdDataErasure | GdDataObjection

fun ground_as_str :: "ground \<Rightarrow> string" where
  "ground_as_str GdIllegalContent = ''illegal_content''"
| "ground_as_str GdHarmfulToChildren = ''harmful_to_children''"
| "ground_as_str GdIntimateImages = ''intimate_images''"
| "ground_as_str GdRightsRemoval = ''rights_removal''"
| "ground_as_str GdDataDelisting = ''data_delisting''"
| "ground_as_str GdDataErasure = ''data_erasure''"
| "ground_as_str GdDataObjection = ''data_objection''"

definition ground_parse :: "string \<Rightarrow> ground outcome" where
  "ground_parse s =
     (if s = ''illegal_content'' then Inr GdIllegalContent
      else if s = ''harmful_to_children'' then Inr GdHarmfulToChildren
      else if s = ''intimate_images'' then Inr GdIntimateImages
      else if s = ''rights_removal'' then Inr GdRightsRemoval
      else if s = ''data_delisting'' then Inr GdDataDelisting
      else if s = ''data_erasure'' then Inr GdDataErasure
      else if s = ''data_objection'' then Inr GdDataObjection
      else Inl InvalidInput)"

datatype request_kind =
    RkDelisting | RkErasure | RkObjection

fun request_kind_as_str :: "request_kind \<Rightarrow> string" where
  "request_kind_as_str RkDelisting = ''delisting''"
| "request_kind_as_str RkErasure = ''erasure''"
| "request_kind_as_str RkObjection = ''objection''"

definition request_kind_parse :: "string \<Rightarrow> request_kind outcome" where
  "request_kind_parse s =
     (if s = ''delisting'' then Inr RkDelisting
      else if s = ''erasure'' then Inr RkErasure
      else if s = ''objection'' then Inr RkObjection
      else Inl InvalidInput)"

datatype name_kind =
    NkLegalName | NkPseudonym

fun name_kind_as_str :: "name_kind \<Rightarrow> string" where
  "name_kind_as_str NkLegalName = ''legal_name''"
| "name_kind_as_str NkPseudonym = ''pseudonym''"

definition name_kind_parse :: "string \<Rightarrow> name_kind outcome" where
  "name_kind_parse s =
     (if s = ''legal_name'' then Inr NkLegalName
      else if s = ''pseudonym'' then Inr NkPseudonym
      else Inl InvalidInput)"

datatype interest =
    IsResponsibleUkPerson | IsUkIncorporatedBody

fun interest_as_str :: "interest \<Rightarrow> string" where
  "interest_as_str IsResponsibleUkPerson = ''responsible_uk_person''"
| "interest_as_str IsUkIncorporatedBody = ''uk_incorporated_body''"

definition interest_parse :: "string \<Rightarrow> interest outcome" where
  "interest_parse s =
     (if s = ''responsible_uk_person'' then Inr IsResponsibleUkPerson
      else if s = ''uk_incorporated_body'' then Inr IsUkIncorporatedBody
      else Inl InvalidInput)"

datatype identity_event =
    IeRequestIdentity | IeIdentityConfirmed | IeRequestClarification
    | IeClarificationReceived

fun identity_event_as_str :: "identity_event \<Rightarrow> string" where
  "identity_event_as_str IeRequestIdentity = ''request_identity''"
| "identity_event_as_str IeIdentityConfirmed = ''identity_confirmed''"
| "identity_event_as_str IeRequestClarification = ''request_clarification''"
| "identity_event_as_str IeClarificationReceived = ''clarification_received''"

definition identity_event_parse :: "string \<Rightarrow> identity_event outcome" where
  "identity_event_parse s =
     (if s = ''request_identity'' then Inr IeRequestIdentity
      else if s = ''identity_confirmed'' then Inr IeIdentityConfirmed
      else if s = ''request_clarification'' then Inr IeRequestClarification
      else if s = ''clarification_received'' then Inr IeClarificationReceived
      else Inl InvalidInput)"

datatype necessity =
    NcComplexity | NcVolume

fun necessity_as_str :: "necessity \<Rightarrow> string" where
  "necessity_as_str NcComplexity = ''complexity''"
| "necessity_as_str NcVolume = ''volume''"

definition necessity_parse :: "string \<Rightarrow> necessity outcome" where
  "necessity_parse s =
     (if s = ''complexity'' then Inr NcComplexity
      else if s = ''volume'' then Inr NcVolume
      else Inl InvalidInput)"

datatype delivery_channel =
    DcManualEmail | DcManualForm | DcManualApi

fun delivery_channel_as_str :: "delivery_channel \<Rightarrow> string" where
  "delivery_channel_as_str DcManualEmail = ''manual_email''"
| "delivery_channel_as_str DcManualForm = ''manual_form''"
| "delivery_channel_as_str DcManualApi = ''manual_api''"

definition delivery_channel_parse :: "string \<Rightarrow> delivery_channel outcome" where
  "delivery_channel_parse s =
     (if s = ''manual_email'' then Inr DcManualEmail
      else if s = ''manual_form'' then Inr DcManualForm
      else if s = ''manual_api'' then Inr DcManualApi
      else Inl InvalidInput)"

datatype decision_kind =
    DkGranted | DkRefused | DkNotIntimateImage | DkNoStanding | DkManifestlyUnfounded

fun decision_kind_as_str :: "decision_kind \<Rightarrow> string" where
  "decision_kind_as_str DkGranted = ''granted''"
| "decision_kind_as_str DkRefused = ''refused''"
| "decision_kind_as_str DkNotIntimateImage = ''not_intimate_image''"
| "decision_kind_as_str DkNoStanding = ''no_standing''"
| "decision_kind_as_str DkManifestlyUnfounded = ''manifestly_unfounded''"

definition decision_kind_parse :: "string \<Rightarrow> decision_kind outcome" where
  "decision_kind_parse s =
     (if s = ''granted'' then Inr DkGranted
      else if s = ''refused'' then Inr DkRefused
      else if s = ''not_intimate_image'' then Inr DkNotIntimateImage
      else if s = ''no_standing'' then Inr DkNoStanding
      else if s = ''manifestly_unfounded'' then Inr DkManifestlyUnfounded
      else Inl InvalidInput)"

datatype contact_method =
    CmEmail

fun contact_method_as_str :: "contact_method \<Rightarrow> string" where
  "contact_method_as_str CmEmail = ''email''"

definition contact_method_parse :: "string \<Rightarrow> contact_method outcome" where
  "contact_method_parse s =
     (if s = ''email'' then Inr CmEmail
      else Inl InvalidInput)"

section \<open>Interpretations\<close>

interpretation route: vocabulary route_as_str route_parse
proof
  show "route_parse (route_as_str v) = Inr v" for v
    by (cases v) (simp_all add: route_parse_def)
qed (auto simp: route_parse_def split: if_splits)

interpretation requester_type: vocabulary requester_type_as_str requester_type_parse
proof
  show "requester_type_parse (requester_type_as_str v) = Inr v" for v
    by (cases v) (simp_all add: requester_type_parse_def)
qed (auto simp: requester_type_parse_def split: if_splits)

interpretation ticket_state: vocabulary ticket_state_as_str ticket_state_parse
proof
  show "ticket_state_parse (ticket_state_as_str v) = Inr v" for v
    by (cases v) (simp_all add: ticket_state_parse_def)
qed (auto simp: ticket_state_parse_def split: if_splits)

interpretation ground: vocabulary ground_as_str ground_parse
proof
  show "ground_parse (ground_as_str v) = Inr v" for v
    by (cases v) (simp_all add: ground_parse_def)
qed (auto simp: ground_parse_def split: if_splits)

interpretation request_kind: vocabulary request_kind_as_str request_kind_parse
proof
  show "request_kind_parse (request_kind_as_str v) = Inr v" for v
    by (cases v) (simp_all add: request_kind_parse_def)
qed (auto simp: request_kind_parse_def split: if_splits)

interpretation name_kind: vocabulary name_kind_as_str name_kind_parse
proof
  show "name_kind_parse (name_kind_as_str v) = Inr v" for v
    by (cases v) (simp_all add: name_kind_parse_def)
qed (auto simp: name_kind_parse_def split: if_splits)

interpretation interest: vocabulary interest_as_str interest_parse
proof
  show "interest_parse (interest_as_str v) = Inr v" for v
    by (cases v) (simp_all add: interest_parse_def)
qed (auto simp: interest_parse_def split: if_splits)

interpretation identity_event: vocabulary identity_event_as_str identity_event_parse
proof
  show "identity_event_parse (identity_event_as_str v) = Inr v" for v
    by (cases v) (simp_all add: identity_event_parse_def)
qed (auto simp: identity_event_parse_def split: if_splits)

interpretation necessity: vocabulary necessity_as_str necessity_parse
proof
  show "necessity_parse (necessity_as_str v) = Inr v" for v
    by (cases v) (simp_all add: necessity_parse_def)
qed (auto simp: necessity_parse_def split: if_splits)

interpretation delivery_channel: vocabulary delivery_channel_as_str delivery_channel_parse
proof
  show "delivery_channel_parse (delivery_channel_as_str v) = Inr v" for v
    by (cases v) (simp_all add: delivery_channel_parse_def)
qed (auto simp: delivery_channel_parse_def split: if_splits)

interpretation decision_kind: vocabulary decision_kind_as_str decision_kind_parse
proof
  show "decision_kind_parse (decision_kind_as_str v) = Inr v" for v
    by (cases v) (simp_all add: decision_kind_parse_def)
qed (auto simp: decision_kind_parse_def split: if_splits)

interpretation contact_method: vocabulary contact_method_as_str contact_method_parse
proof
  show "contact_method_parse (contact_method_as_str v) = Inr v" for v
    by (cases v) (simp_all add: contact_method_parse_def)
qed (auto simp: contact_method_parse_def split: if_splits)

section \<open>The derived order of grounds\<close>

fun ground_index :: "ground \<Rightarrow> nat" where
  "ground_index GdIllegalContent = 0"
| "ground_index GdHarmfulToChildren = 1"
| "ground_index GdIntimateImages = 2"
| "ground_index GdRightsRemoval = 3"
| "ground_index GdDataDelisting = 4"
| "ground_index GdDataErasure = 5"
| "ground_index GdDataObjection = 6"

lemma ground_index_eq [simp]: "ground_index a = ground_index b \<longleftrightarrow> a = b"
  by (cases a; cases b) simp_all

instantiation ground :: linorder
begin

definition less_eq_ground :: "ground \<Rightarrow> ground \<Rightarrow> bool" where
  "less_eq_ground a b \<longleftrightarrow> ground_index a \<le> ground_index b"

definition less_ground :: "ground \<Rightarrow> ground \<Rightarrow> bool" where
  "less_ground a b \<longleftrightarrow> ground_index a < ground_index b"

instance
  by standard (auto simp: less_eq_ground_def less_ground_def)

end

end
