(* ===== verification/Model.thy ===== *)
theory Model
  imports Vocabulary
begin

text \<open>
  The domain data of \<open>compliance/model.rs\<close>: hexadecimal capabilities and document keys,
  canonical assets, intakes, decisions and their field validation. Three things are
  parameters, because they are not code of this repository: the SHA-256 digest of \<open>ring\<close>, the
  parser of the \<open>url\<close> crate, and the entropy source (the bytes drawn, or its failure).
\<close>

section \<open>Hexadecimal values\<close>

definition hex_digit :: "nat \<Rightarrow> char" where
  "hex_digit n = (if n < 10 then char_of (48 + n) else char_of (87 + n))"

definition hex :: "string \<Rightarrow> string" where
  "hex bytes = concat (map (\<lambda>b. [hex_digit (byte b div 16), hex_digit (byte b mod 16)]) bytes)"

definition sha256 :: "(string \<Rightarrow> string) \<Rightarrow> string list \<Rightarrow> string" where
  "sha256 digest parts = hex (digest (concat parts))"

definition nibble :: "char \<Rightarrow> nat" where
  "nibble ch = (if is_ascii_digit (byte ch) then byte ch - 48 else byte ch - 97 + 10)"

text \<open>
  The shift by four and the disjunction of two nibbles below sixteen is \<open>16 * a + b\<close>; the
  chunks of two bytes fill the 32 bytes of the result.
\<close>

fun decode_pairs :: "string \<Rightarrow> string" where
  "decode_pairs (a # b # cs) = char_of (16 * nibble a + nibble b) # decode_pairs cs"
| "decode_pairs _ = []"

definition decode_hex :: "string \<Rightarrow> string outcome" where
  "decode_hex raw =
     res_then (text_ok raw BkHexBytes HexText)
       (let decoded = decode_pairs raw in
        res_then (validate_bound BkIdBytes (length decoded)) (Inr decoded))"

datatype hex64 = Hex64 string

primrec hex64_as_str :: "hex64 \<Rightarrow> string" where
  "hex64_as_str (Hex64 s) = s"

definition hex64_parse :: "string \<Rightarrow> hex64 outcome" where
  "hex64_parse raw = res_then (decode_hex raw) (Inr (Hex64 raw))"

text \<open>An entropy draw of 32 bytes: the bytes, or the source's failure.\<close>

type_synonym draw = "string outcome"

definition hex64_random :: "draw \<Rightarrow> hex64 outcome" where
  "hex64_random entropy =
     res_then (validate_bound BkSaltBytes 32)
       (res_bind entropy (\<lambda>bytes. Inr (Hex64 (hex bytes))))"

datatype ticket_id = TicketId hex64

definition ticket_id_parse :: "string \<Rightarrow> ticket_id outcome" where
  "ticket_id_parse raw = res_bind (hex64_parse raw) (\<lambda>h. Inr (TicketId h))"

primrec ticket_id_as_str :: "ticket_id \<Rightarrow> string" where
  "ticket_id_as_str (TicketId h) = hex64_as_str h"

definition ticket_id_generate :: "draw \<Rightarrow> ticket_id outcome" where
  "ticket_id_generate entropy =
     res_then (validate_bound BkIdBytes 32)
       (res_bind entropy (\<lambda>bytes. ticket_id_parse (hex bytes)))"

datatype document_key = DocumentKey hex64

definition document_key_parse :: "string \<Rightarrow> document_key outcome" where
  "document_key_parse raw = res_bind (hex64_parse raw) (\<lambda>h. Inr (DocumentKey h))"

primrec document_key_as_str :: "document_key \<Rightarrow> string" where
  "document_key_as_str (DocumentKey h) = hex64_as_str h"

lemma hex64_as_str_eq [simp]: "hex64_as_str a = hex64_as_str b \<longleftrightarrow> a = b"
  by (cases a; cases b) simp

text \<open>The derived orders compare the hexadecimal text byte by byte.\<close>

instantiation hex64 :: linorder
begin

definition less_eq_hex64 :: "hex64 \<Rightarrow> hex64 \<Rightarrow> bool" where
  "less_eq_hex64 a b \<longleftrightarrow> hex64_as_str a \<le> hex64_as_str b"

definition less_hex64 :: "hex64 \<Rightarrow> hex64 \<Rightarrow> bool" where
  "less_hex64 a b \<longleftrightarrow> hex64_as_str a < hex64_as_str b"

instance
proof
  fix a b :: hex64
  show "a \<le> b \<Longrightarrow> b \<le> a \<Longrightarrow> a = b"
    by (cases a; cases b) (simp add: less_eq_hex64_def)
qed (auto simp: less_eq_hex64_def less_hex64_def order.strict_iff_order)

end

lemma ticket_id_as_str_eq [simp]: "ticket_id_as_str a = ticket_id_as_str b \<longleftrightarrow> a = b"
  by (cases a; cases b) simp

instantiation ticket_id :: linorder
begin

definition less_eq_ticket_id :: "ticket_id \<Rightarrow> ticket_id \<Rightarrow> bool" where
  "less_eq_ticket_id a b \<longleftrightarrow> ticket_id_as_str a \<le> ticket_id_as_str b"

definition less_ticket_id :: "ticket_id \<Rightarrow> ticket_id \<Rightarrow> bool" where
  "less_ticket_id a b \<longleftrightarrow> ticket_id_as_str a < ticket_id_as_str b"

instance
proof
  fix a b :: ticket_id
  show "a \<le> b \<Longrightarrow> b \<le> a \<Longrightarrow> a = b"
    by (simp add: less_eq_ticket_id_def)
qed (auto simp: less_eq_ticket_id_def less_ticket_id_def order.strict_iff_order)

end

lemma document_key_as_str_eq [simp]: "document_key_as_str a = document_key_as_str b \<longleftrightarrow> a = b"
  by (cases a; cases b) simp

instantiation document_key :: linorder
begin

definition less_eq_document_key :: "document_key \<Rightarrow> document_key \<Rightarrow> bool" where
  "less_eq_document_key a b \<longleftrightarrow> document_key_as_str a \<le> document_key_as_str b"

definition less_document_key :: "document_key \<Rightarrow> document_key \<Rightarrow> bool" where
  "less_document_key a b \<longleftrightarrow> document_key_as_str a < document_key_as_str b"

instance
proof
  fix a b :: document_key
  show "a \<le> b \<Longrightarrow> b \<le> a \<Longrightarrow> a = b"
    by (simp add: less_eq_document_key_def)
qed (auto simp: less_eq_document_key_def less_document_key_def order.strict_iff_order)

end

section \<open>Assets\<close>

text \<open>
  What the sources read of a parsed URL of the \<open>url\<close> crate; a host is a domain or an address,
  with the spelling that its \<open>to_string\<close> gives.
\<close>

datatype url_host = HostDomain string | HostAddress string

record parsed_url =
  pu_scheme :: string
  pu_host :: "url_host option"
  pu_username :: string
  pu_password :: "string option"
  pu_fragment :: "string option"
  pu_text :: string

record asset =
  as_url :: string
  as_document_id :: document_key

definition is_ascii_whitespace_byte :: "char \<Rightarrow> bool" where
  "is_ascii_whitespace_byte c \<longleftrightarrow> (byte c :: nat) \<in> {9, 10, 12, 13, 32}"

definition asset_new ::
  "(string \<Rightarrow> string) \<Rightarrow> (string \<Rightarrow> parsed_url option) \<Rightarrow> string \<Rightarrow> document_key \<Rightarrow> asset outcome" where
  "asset_new digest url_parse url document_id =
     res_then (text_ok url BkUrl LabelText)
      (if list_ex (\<lambda>c. is_ascii_whitespace_byte c \<or> c = CHR 0x5C) url then Inl InvalidInput
       else res_bind (ok_or (url_parse url) InvalidInput) (\<lambda>parsed.
         if pu_scheme parsed \<noteq> ''http'' \<and> pu_scheme parsed \<noteq> ''https''
            \<or> pu_host parsed = None
            \<or> pu_username parsed \<noteq> []
            \<or> pu_password parsed \<noteq> None
            \<or> pu_fragment parsed \<noteq> None
            \<or> pu_text parsed \<noteq> url
            \<or> sha256 digest [url] \<noteq> document_key_as_str document_id
         then Inl InvalidInput
         else Inr \<lparr> as_url = url, as_document_id = document_id \<rparr>))"

section \<open>Intakes\<close>

record contact =
  ct_method :: contact_method
  ct_address :: string

record report_fields =
  rf_contact :: contact
  rf_description :: string
  rf_requester_type :: requester_type
  rf_nonessential_opt_out :: bool

definition report_fields_validate :: "report_fields \<Rightarrow> unit outcome" where
  "report_fields_validate r =
     res_then (text_ok (ct_address (rf_contact r)) BkContact LabelText)
       (text_ok (rf_description r) BkNarrative NarrativeText)"

record evidenced_name =
  en_name :: string
  en_kind :: name_kind
  en_evidence :: string

record delivery =
  dv_channel :: delivery_channel
  dv_reference :: string

definition delivery_validate :: "delivery \<Rightarrow> unit outcome" where
  "delivery_validate d = text_ok (dv_reference d) BkDeliveryRef LabelText"

datatype intake_kind =
    IkIllegalContent (suspected_illegality: string)
  | IkHarmfulToChildren (harm_description: string)
  | IkIntimateImages (intimate_image_content: bool) (subject_or_authorised: bool) (good_faith: bool)
  | IkSiteComplaint (site_interest: interest) (related_ticket_id: "ticket_id option")
  | IkRightsRemoval (rights_basis: string) (authority: string)
  | IkDataRights (rights_request: request_kind) (rights_names: "evidenced_name list")
  | IkDataProtectionComplaint
  | IkOnlineSafetyComplaint

record intake =
  it_report :: report_fields
  it_assets :: "asset list"
  it_category :: intake_kind

fun intake_kind_route :: "intake_kind \<Rightarrow> route" where
  "intake_kind_route (IkIllegalContent _) = RtIllegalContent"
| "intake_kind_route (IkHarmfulToChildren _) = RtHarmfulToChildren"
| "intake_kind_route (IkIntimateImages _ _ _) = RtIntimateImages"
| "intake_kind_route (IkSiteComplaint _ _) = RtSiteComplaint"
| "intake_kind_route (IkRightsRemoval _ _) = RtRightsRemoval"
| "intake_kind_route (IkDataRights _ _) = RtDataRights"
| "intake_kind_route IkDataProtectionComplaint = RtDataProtectionComplaint"
| "intake_kind_route IkOnlineSafetyComplaint = RtOnlineSafetyComplaint"

definition intake_route :: "intake \<Rightarrow> route" where
  "intake_route i = intake_kind_route (it_category i)"

fun request_ground :: "request_kind \<Rightarrow> ground" where
  "request_ground RkDelisting = GdDataDelisting"
| "request_ground RkErasure = GdDataErasure"
| "request_ground RkObjection = GdDataObjection"

fun intake_kind_ground :: "intake_kind \<Rightarrow> ground option" where
  "intake_kind_ground (IkIllegalContent _) = Some GdIllegalContent"
| "intake_kind_ground (IkHarmfulToChildren _) = Some GdHarmfulToChildren"
| "intake_kind_ground (IkIntimateImages _ _ _) = Some GdIntimateImages"
| "intake_kind_ground (IkRightsRemoval _ _) = Some GdRightsRemoval"
| "intake_kind_ground (IkDataRights kind _) = Some (request_ground kind)"
| "intake_kind_ground _ = None"

definition intake_ground :: "intake \<Rightarrow> ground option" where
  "intake_ground i = intake_kind_ground (it_category i)"

definition intake_names :: "intake \<Rightarrow> evidenced_name list" where
  "intake_names i = (case it_category i of IkDataRights _ names \<Rightarrow> names | _ \<Rightarrow> [])"

section \<open>Decisions\<close>

record delisting_assessment =
  da_natural_person :: string
  da_name_search :: string
  da_role_in_public_life :: string
  da_child :: string
  da_accuracy :: string
  da_working_life :: string
  da_hate_speech_or_defamation :: string
  da_sensitive_data :: string
  da_currency :: string
  da_prejudice :: string
  da_risk :: string
  da_original_basis_of_publication :: string
  da_journalistic_context :: string
  da_legal_power_or_obligation_to_publish :: string
  da_criminal_offence :: string
  da_offence_seriousness :: string
  da_time_elapsed :: string
  da_spent_status :: string
  da_reasoned_decision :: string

definition assessment_fields :: "delisting_assessment \<Rightarrow> string list" where
  "assessment_fields a =
     [da_natural_person a, da_name_search a, da_role_in_public_life a, da_child a, da_accuracy a,
      da_working_life a, da_hate_speech_or_defamation a, da_sensitive_data a, da_currency a,
      da_prejudice a, da_risk a, da_original_basis_of_publication a, da_journalistic_context a,
      da_legal_power_or_obligation_to_publish a, da_criminal_offence a, da_offence_seriousness a,
      da_time_elapsed a, da_spent_status a, da_reasoned_decision a]"

definition assessment_validate :: "delisting_assessment \<Rightarrow> unit outcome" where
  "assessment_validate a =
     res_fold (\<lambda>_ v. text_ok v BkReason NarrativeText) () (assessment_fields a)"

datatype decision =
    DecGranted (dec_reasons: string) (dec_delivery: delivery) (dec_assessment: "delisting_assessment option")
  | DecRefused (dec_reasons: string) (dec_delivery: delivery)
  | DecNotIntimateImage (dec_reasons: string) (dec_delivery: delivery)
  | DecNoStanding (dec_reasons: string) (dec_delivery: delivery)
  | DecManifestlyUnfounded (dec_reasons: string) (dec_delivery: delivery)
      (dec_policy_version: string) (dec_policy_clause: string) (dec_duplicate_of: ticket_id)

fun decision_kind_of :: "decision \<Rightarrow> decision_kind" where
  "decision_kind_of (DecGranted _ _ _) = DkGranted"
| "decision_kind_of (DecRefused _ _) = DkRefused"
| "decision_kind_of (DecNotIntimateImage _ _) = DkNotIntimateImage"
| "decision_kind_of (DecNoStanding _ _) = DkNoStanding"
| "decision_kind_of (DecManifestlyUnfounded _ _ _ _ _) = DkManifestlyUnfounded"

definition communication :: "decision \<Rightarrow> string \<times> delivery" where
  "communication d = (dec_reasons d, dec_delivery d)"

definition decision_validate :: "decision \<Rightarrow> unit outcome" where
  "decision_validate d =
     (let (reasons, delivery) = communication d in
      res_then (text_ok reasons BkReason NarrativeText)
     (res_then (delivery_validate delivery)
     (res_then (case d of DecGranted _ _ (Some assessment) \<Rightarrow> assessment_validate assessment
                  | _ \<Rightarrow> Inr ())
      (case d of DecManifestlyUnfounded _ _ version clause _ \<Rightarrow>
           res_then (text_ok version BkSlug SlugText) (text_ok clause BkSlug SlugText)
         | _ \<Rightarrow> Inr ()))))"

section \<open>Lemmas\<close>

lemma spec_HexBytes [simp]: "bs_min (spec BkHexBytes) = 64" "bs_max (spec BkHexBytes) = 64"
  by (simp_all add: spec_rows bound_spec_of_def)

lemma spec_IdBytes [simp]: "bs_min (spec BkIdBytes) = 32" "bs_max (spec BkIdBytes) = 32"
  by (simp_all add: spec_rows bound_spec_of_def)

lemma spec_SaltBytes [simp]: "bs_min (spec BkSaltBytes) = 32" "bs_max (spec BkSaltBytes) = 32"
  by (simp_all add: spec_rows bound_spec_of_def)

definition hex_byte :: "char \<Rightarrow> bool" where
  "hex_byte c \<longleftrightarrow> is_ascii_digit (byte c) \<or> (97::nat) \<le> byte c \<and> byte c \<le> (102::nat)"

lemma hex_digit_props:
  assumes "n < 16"
  shows "hex_byte (hex_digit n)" and "nibble (hex_digit n) = n"
  using assms by (auto simp: hex_digit_def hex_byte_def nibble_def is_ascii_digit_def)

lemma nibble_hex_digit: "hex_byte c \<Longrightarrow> nibble c < 16 \<and> hex_digit (nibble c) = c"
  by (auto simp: hex_byte_def nibble_def hex_digit_def is_ascii_digit_def)

lemma characters_HexText:
  "characters s HexText = Inr u \<longleftrightarrow> list_all hex_byte s"
proof -
  have en: "list_all (\<lambda>(i, ch). P ch) (List.enumerate n xs) = list_all P xs" for P n and xs :: "nat list"
    by (induction xs arbitrary: n) auto
  define P where "P ch \<longleftrightarrow> is_ascii_digit ch \<or> (97::nat) \<le> ch \<and> ch \<le> 102" for ch
  have "characters s HexText = Inr u \<longleftrightarrow> list_all P (chars s)"
    using en [of P 0 "chars s"] by (simp add: characters_def P_def)
  also have "\<dots> \<longleftrightarrow> list_all hex_byte s"
  proof
    assume *: "list_all P (chars s)"
    then have "\<forall>c \<in> set (chars s). c < 128"
      by (auto simp: list_all_iff P_def is_ascii_digit_def)
    with * chars_ascii_only [of s] show "list_all hex_byte s"
      by (auto simp: list_all_iff hex_byte_def P_def)
  next
    assume *: "list_all hex_byte s"
    then have "\<forall>c \<in> set s. byte c < (128::nat)"
      by (auto simp: list_all_iff hex_byte_def is_ascii_digit_def)
    with * chars_ascii [of s] show "list_all P (chars s)"
      by (auto simp: list_all_iff hex_byte_def P_def)
  qed
  finally show ?thesis .
qed

lemma nonblank_hex: "list_all hex_byte s \<Longrightarrow> s \<noteq> [] \<Longrightarrow> nonblank s = Inr ()"
proof -
  assume *: "list_all hex_byte s" "s \<noteq> []"
  have "byte c < (128::nat) \<and> \<not> is_whitespace (byte c)" if "hex_byte c" for c
    using that by (auto simp: hex_byte_def is_ascii_digit_def is_whitespace_def)
  with * trim_ascii_not_blank [of s "hd s"] show ?thesis
    by (auto simp: nonblank_def list_all_iff)
qed

lemma text_ok_hex:
  "text_ok s BkHexBytes HexText = Inr u \<longleftrightarrow> length s = 64 \<and> list_all hex_byte s"
  using nonblank_hex [of s] by (cases "s = []") (auto simp: text_ok_def res_simps characters_HexText)

lemma length_decode_pairs: "length (decode_pairs s) = length s div 2"
  by (induction s rule: decode_pairs.induct) auto

lemma decode_hex_Inr:
  "decode_hex s = Inr b \<longleftrightarrow> length s = 64 \<and> list_all hex_byte s \<and> b = decode_pairs s"
  by (auto simp: decode_hex_def Let_def res_simps text_ok_hex length_decode_pairs)

lemma hex_simps [simp]:
  "hex [] = []"
  "hex (b # bs) = hex_digit (byte b div 16) # hex_digit (byte b mod 16) # hex bs"
  by (simp_all add: hex_def)

lemma length_hex [simp]: "length (hex bs) = 2 * length bs"
  by (induction bs) auto

lemma byte_less: "byte c < (256::nat)"
  by simp

lemma hex_all_hex_bytes: "list_all hex_byte (hex bs)"
proof (induction bs)
  case (Cons b bs)
  have "(byte b :: nat) div 16 < 16" using byte_less [of b] by (simp add: less_mult_imp_div_less)
  with Cons show ?case by (simp add: hex_digit_props)
qed simp

lemma decode_pairs_hex: "decode_pairs (hex bs) = bs"
proof (induction bs)
  case (Cons b bs)
  have "(byte b :: nat) div 16 < 16" using byte_less [of b] by (simp add: less_mult_imp_div_less)
  with Cons show ?case by (simp add: hex_digit_props)
qed simp

lemma hex_decode_pairs: "list_all hex_byte s \<Longrightarrow> even (length s) \<Longrightarrow> hex (decode_pairs s) = s"
proof (induction s rule: decode_pairs.induct)
  case (1 a b cs)
  then have n: "nibble a < 16" "nibble b < 16" "hex_digit (nibble a) = a" "hex_digit (nibble b) = b"
    using nibble_hex_digit by auto
  with 1 show ?case by (simp add: of_char_of)
qed auto

section \<open>Properties\<close>

text \<open>
  Hexadecimal round trip. The strict decoder accepts exactly the encodings of 32-byte
  values, and decoding is inverse to encoding: every accepted text is the canonical
  encoding of its value, so a capability or document key has one spelling.
\<close>

theorem decode_hex_roundtrip: "decode_hex s = Inr b \<longleftrightarrow> length b = 32 \<and> s = hex b"
proof
  assume "decode_hex s = Inr b"
  then show "length b = 32 \<and> s = hex b"
    by (auto simp: decode_hex_Inr length_decode_pairs hex_decode_pairs)
next
  assume "length b = 32 \<and> s = hex b"
  then show "decode_hex s = Inr b"
    by (simp add: decode_hex_Inr hex_all_hex_bytes decode_pairs_hex)
qed

end
