(* ===== verification/Civil_Calendar.thy ===== *)
theory Civil_Calendar
  imports Bounds
begin

text \<open>
  The calendar that \<open>compliance/clock.rs\<close> takes from the \<open>chrono\<close> crate. The crate is a
  parameter of the model: a record with the range test of \<open>DateTime::from_timestamp\<close> and the
  month addition of \<open>checked_add_months\<close>, whose documented behaviour is the locale \<open>calendar\<close>.
  The proleptic Gregorian calendar below is an executable instance of that contract over the
  range of instants the crate documents.
\<close>

section \<open>The calendar interface\<close>

record chrono =
  ts_valid :: "int \<Rightarrow> bool"
  ts_add_months :: "int \<Rightarrow> nat \<Rightarrow> int option"

locale calendar =
  fixes valid :: "int \<Rightarrow> bool" and add_m :: "int \<Rightarrow> nat \<Rightarrow> int option"
  assumes valid_i64: "valid s \<Longrightarrow> i64_min \<le> s \<and> s \<le> i64_max"
    and valid_convex: "valid a \<Longrightarrow> valid c \<Longrightarrow> a \<le> b \<Longrightarrow> b \<le> c \<Longrightarrow> valid b"
    and months_valid: "add_m s k = Some r \<Longrightarrow> valid r"
    and months_least: "add_m s k = Some r \<Longrightarrow> s + 2419200 * int k \<le> r"
    and months_most: "add_m s k = Some r \<Longrightarrow> r \<le> s + 2678400 * int k"
    and months_mono: "add_m s k = Some r \<Longrightarrow> add_m t k = Some q \<Longrightarrow> s \<le> t
      \<Longrightarrow> r div 86400 \<le> q div 86400"
    and months_strict: "add_m s j = Some r \<Longrightarrow> add_m s k = Some q \<Longrightarrow> j < k \<Longrightarrow> r < q"
    and months_fewer: "valid s \<Longrightarrow> add_m s k = Some q \<Longrightarrow> j \<le> k \<Longrightarrow> \<exists>r. add_m s j = Some r"
begin

lemma later_period_defined:
  assumes "valid s" and "add_m s k = Some q" and "j < k"
  shows "\<exists>r. add_m s j = Some r \<and> s \<le> r \<and> r < q"
proof -
  obtain r where r: "add_m s j = Some r"
    using months_fewer [OF assms(1,2), of j] assms(3) by auto
  then show ?thesis
    using months_strict [OF r assms(2,3)] months_least [OF r] by force
qed

end

text \<open>The contract of a whole \<open>chrono\<close> parameter.\<close>

definition chrono_ok :: "chrono \<Rightarrow> bool" where
  "chrono_ok C \<longleftrightarrow> calendar (ts_valid C) (ts_add_months C)"

section \<open>The proleptic Gregorian calendar\<close>

text \<open>
  Months are counted from January 1970 as integers; \<open>month_start\<close> is the day number of a
  month's first day, \<open>month_of_day\<close> finds the month of a day by stepping forward from a
  month that is certainly not later.
\<close>

definition leap_year :: "int \<Rightarrow> bool" where
  "leap_year y \<longleftrightarrow> 4 dvd y \<and> (\<not> 100 dvd y \<or> 400 dvd y)"

definition days_before_year :: "int \<Rightarrow> int" where
  "days_before_year y =
     365 * (y - 1970) + ((y - 1) div 4 - 492) - ((y - 1) div 100 - 19) + ((y - 1) div 400 - 4)"

definition month_days :: "bool \<Rightarrow> int \<Rightarrow> int" where
  "month_days leap i =
     (if i = 1 then (if leap then 29 else 28)
      else if i = 3 \<or> i = 5 \<or> i = 8 \<or> i = 10 then 30 else 31)"

definition days_before_month :: "bool \<Rightarrow> int \<Rightarrow> int" where
  "days_before_month leap i = (\<Sum>j \<leftarrow> [0..i - 1]. month_days leap j)"

definition month_length :: "int \<Rightarrow> int" where
  "month_length m = month_days (leap_year (1970 + m div 12)) (m mod 12)"

definition month_start :: "int \<Rightarrow> int" where
  "month_start m =
     days_before_year (1970 + m div 12) + days_before_month (leap_year (1970 + m div 12)) (m mod 12)"

lemma month_length_bounds: "28 \<le> month_length m" "month_length m \<le> 31"
  by (simp_all add: month_length_def month_days_def)

lemma div_step:
  fixes y n :: int
  assumes "0 < n"
  shows "y div n = (y - 1) div n + (if n dvd y then 1 else 0)"
proof (cases "n dvd y")
  case True
  then obtain k where k: "y = n * k" by blast
  have "(y - 1) div n = k - 1"
    by (rule int_div_pos_eq [where r = "n - 1"]) (use k assms in \<open>auto simp: algebra_simps\<close>)
  with True k assms show ?thesis by simp
next
  case False
  then have "0 < y mod n"
    using assms by (simp add: dvd_eq_mod_eq_0 order_less_le)
  then have "(y - 1) div n = y div n"
    by (intro int_div_pos_eq [where r = "y mod n - 1"])
       (use assms pos_mod_bound [of n y] in \<open>auto simp del: pos_mod_bound\<close>)
  with False show ?thesis by simp
qed

lemma days_before_year_step:
  "days_before_year (y + 1) = days_before_year y + (if leap_year y then 366 else 365)"
proof -
  define a b c where "a = (y - 1) div 4" and "b = (y - 1) div 100" and "c = (y - 1) div 400"
  have s: "y div 4 = a + (if 4 dvd y then 1 else 0)" "y div 100 = b + (if 100 dvd y then 1 else 0)"
    "y div 400 = c + (if 400 dvd y then 1 else 0)"
    unfolding a_def b_def c_def by (rule div_step; simp)+
  have "days_before_year (y + 1) - days_before_year y
      = 365 + (y div 4 - a) - (y div 100 - b) + (y div 400 - c)"
    by (simp add: days_before_year_def a_def b_def c_def)
  also have "\<dots> = (if leap_year y then 366 else 365)"
  proof -
    define p q r where "p \<longleftrightarrow> 4 dvd y" and "q \<longleftrightarrow> 100 dvd y" and "r \<longleftrightarrow> 400 dvd y"
    have "r \<longrightarrow> q" "q \<longrightarrow> p"
      unfolding p_def q_def r_def by (auto elim: dvd_trans [rotated])
    then show ?thesis
      unfolding s leap_year_def p_def [symmetric] q_def [symmetric] r_def [symmetric]
      by (cases p; cases q; cases r) simp_all
  qed
  finally show ?thesis by simp
qed

lemma month_start_step: "month_start (m + 1) = month_start m + month_length m"
proof -
  define y where "y = m div 12"
  define i where "i = m mod 12"
  have m: "m = 12 * y + i" and i: "0 \<le> i" "i < 12" by (auto simp: y_def i_def)
  show ?thesis
  proof (cases "i = 11")
    case True
    have *: "m + 1 = 12 * (y + 1)" using True m by simp
    have "(m + 1) div 12 = y + 1" "(m + 1) mod 12 = 0"
      unfolding * by simp_all
    moreover have "days_before_year (1970 + (y + 1))
        = days_before_year (1970 + y) + (if leap_year (1970 + y) then 366 else 365)"
      using days_before_year_step [of "1970 + y"] by (simp add: add.assoc)
    ultimately show ?thesis
      using True
      by (simp add: month_start_def month_length_def y_def [symmetric] i_def [symmetric]
          days_before_month_def month_days_def upto_rec1)
  next
    case False
    have "(m + 1) div 12 = y"
      by (rule int_div_pos_eq [where r = "i + 1"]) (use False m i in auto)
    moreover have "(m + 1) mod 12 = i + 1"
      by (rule int_mod_pos_eq [where q = y]) (use False m i in auto)
    moreover have "days_before_month l (i + 1) = days_before_month l i + month_days l i" for l
      using i by (simp add: days_before_month_def upto_rec2)
    ultimately show ?thesis
      by (simp add: month_start_def month_length_def y_def [symmetric] i_def [symmetric])
  qed
qed


lemma month_start_least: "month_start m + 28 * int k \<le> month_start (m + int k)"
proof (induction k)
  case (Suc k)
  then show ?case
    using month_start_step [of "m + int k"] month_length_bounds [of "m + int k"]
    by (simp add: algebra_simps)
qed simp

lemma month_start_most: "month_start (m + int k) \<le> month_start m + 31 * int k"
proof (induction k)
  case (Suc k)
  then show ?case
    using month_start_step [of "m + int k"] month_length_bounds [of "m + int k"]
    by (simp add: algebra_simps)
qed simp

lemma month_start_strict: "m < n \<Longrightarrow> month_start m + 28 \<le> month_start n"
  using month_start_least [of m "nat (n - m)"] by simp

lemma month_start_mono: "m \<le> n \<Longrightarrow> month_start m \<le> month_start n"
  using month_start_strict [of m n] by (cases "m = n") auto

lemma month_start_0: "month_start 0 = 0"
  by (simp add: month_start_def days_before_year_def days_before_month_def)

function month_walk :: "int \<Rightarrow> int \<Rightarrow> int" where
  "month_walk d m = (if month_start (m + 1) \<le> d then month_walk d (m + 1) else m)"
  by pat_completeness auto
termination
proof (relation "measure (\<lambda>(d, m). nat (d - month_start m))")
  fix d m
  assume "month_start (m + 1) \<le> d"
  then show "((d, m + 1), (d, m)) \<in> measure (\<lambda>(d, m). nat (d - month_start m))"
    using month_start_strict [of m "m + 1"] by simp
qed simp

declare month_walk.simps [simp del]

definition month_of_day :: "int \<Rightarrow> int" where
  "month_of_day d = month_walk d (if 0 \<le> d then d div 31 else d div 28 - 1)"

definition civil_add_months :: "int \<Rightarrow> nat \<Rightarrow> int" where
  "civil_add_months s k =
     (let day = s div 86400; m = month_of_day day; n = m + int k in
      (month_start n + min (day - month_start m) (month_length n - 1)) * 86400 + s mod 86400)"

definition gregorian :: chrono where
  "gregorian =
     \<lparr> ts_valid = (\<lambda>s. -8334601228800 \<le> s \<and> s \<le> 8210266876799),
       ts_add_months = (\<lambda>s k. let r = civil_add_months s k in
          if -8334601228800 \<le> r \<and> r \<le> 8210266876799 then Some r else None) \<rparr>"

lemma month_walk_props:
  "month_start m \<le> d \<Longrightarrow>
     month_start (month_walk d m) \<le> d \<and> d < month_start (month_walk d m + 1)"
proof (induction d m rule: month_walk.induct)
  case (1 d m)
  then show ?case
    by (cases "month_start (m + 1) \<le> d") (auto simp: month_walk.simps [of d m])
qed

lemma month_of_day_props:
  "month_start (month_of_day d) \<le> d \<and> d < month_start (month_of_day d + 1)"
  unfolding month_of_day_def
proof (rule month_walk_props)
  show "month_start (if 0 \<le> d then d div 31 else d div 28 - 1) \<le> d"
  proof (cases "0 \<le> d")
    case True
    then have "month_start (0 + int (nat (d div 31))) \<le> month_start 0 + 31 * int (nat (d div 31))"
      by (intro month_start_most)
    moreover have "int (nat (d div 31)) = d div 31" using True by (simp add: pos_imp_zdiv_nonneg_iff)
    ultimately show ?thesis
      using True by (simp add: month_start_0)
  next
    case False
    define e where "e = d div 28 - 1"
    have e: "e < 0" "28 * e \<le> d" using False by (auto simp: e_def neg_imp_zdiv_neg_iff)
    have "month_start e + 28 * int (nat (- e)) \<le> month_start (e + int (nat (- e)))"
      by (rule month_start_least)
    with e have "month_start e \<le> 28 * e" by (simp add: month_start_0)
    with e False show ?thesis by (simp add: e_def)
  qed
qed


lemma month_of_day_mono: "d \<le> e \<Longrightarrow> month_of_day d \<le> month_of_day e"
  using month_of_day_props [of d] month_of_day_props [of e]
    month_start_strict [of "month_of_day e + 1" "month_of_day d"]
  by (cases "month_of_day e + 1 = month_of_day d") force+

text \<open>
  The day that \<open>checked_add_months\<close> lands on, and its laws.
\<close>

definition add_months_day :: "int \<Rightarrow> nat \<Rightarrow> int" where
  "add_months_day d k =
     (let m = month_of_day d; n = m + int k in
      month_start n + min (d - month_start m) (month_length n - 1))"

lemma civil_add_months_day:
  "civil_add_months s k = add_months_day (s div 86400) k * 86400 + s mod 86400"
  by (simp add: civil_add_months_def add_months_day_def Let_def)

lemma add_months_day_within:
  "month_start (month_of_day d + int k) \<le> add_months_day d k
   \<and> add_months_day d k < month_start (month_of_day d + int k + 1)"
  using month_of_day_props [of d] month_length_bounds [of "month_of_day d + int k"]
  by (auto simp: add_months_day_def Let_def month_start_step)

lemma add_months_day_least: "d + 28 * int k \<le> add_months_day d k"
proof -
  define m where "m = month_of_day d"
  have "month_start m + 28 * int k \<le> month_start (m + int k)"
    "month_start (m + 1) + 28 * int k \<le> month_start (m + int k + 1)"
    using month_start_least [of m k] month_start_least [of "m + 1" k] by (simp_all add: ac_simps)
  then show ?thesis
    using month_of_day_props [of d] month_start_step [of "m + int k"]
    by (simp add: add_months_day_def Let_def m_def [symmetric] min_def)
qed

lemma add_months_day_most: "add_months_day d k \<le> d + 31 * int k"
proof -
  define m where "m = month_of_day d"
  have "month_start (m + int k) \<le> month_start m + 31 * int k"
    by (rule month_start_most)
  then show ?thesis
    by (simp add: add_months_day_def Let_def m_def [symmetric] min_def)
qed

lemma add_months_day_mono: "d \<le> e \<Longrightarrow> add_months_day d k \<le> add_months_day e k"
proof -
  assume de: "d \<le> e"
  show ?thesis
  proof (cases "month_of_day d = month_of_day e")
    case True
    with de show ?thesis by (simp add: add_months_day_def Let_def min_def)
  next
    case False
    then have "month_of_day d + 1 \<le> month_of_day e" using month_of_day_mono [OF de] by simp
    then have "month_start (month_of_day d + int k + 1) \<le> month_start (month_of_day e + int k)"
      by (intro month_start_mono) simp
    then show ?thesis
      using add_months_day_within [of d k] add_months_day_within [of e k] by linarith
  qed
qed

lemma add_months_day_strict: "j < k \<Longrightarrow> add_months_day d j < add_months_day d k"
proof -
  assume "j < k"
  then have "month_start (month_of_day d + int j + 1) \<le> month_start (month_of_day d + int k)"
    by (intro month_start_mono) simp
  then show ?thesis
    using add_months_day_within [of d j] add_months_day_within [of d k] by linarith
qed

lemma civil_add_months_laws:
  "s + 2419200 * int k \<le> civil_add_months s k"
  "civil_add_months s k \<le> s + 2678400 * int k"
  "s \<le> t \<Longrightarrow> civil_add_months s k div 86400 \<le> civil_add_months t k div 86400"
  "j < k \<Longrightarrow> civil_add_months s j < civil_add_months s k"
proof -
  have s: "s = s div 86400 * 86400 + s mod 86400" by simp
  show "s + 2419200 * int k \<le> civil_add_months s k"
    using add_months_day_least [of "s div 86400" k] s unfolding civil_add_months_day by linarith
  show "civil_add_months s k \<le> s + 2678400 * int k"
    using add_months_day_most [of "s div 86400" k] s unfolding civil_add_months_day by linarith
  show "j < k \<Longrightarrow> civil_add_months s j < civil_add_months s k"
    using add_months_day_strict [of j k "s div 86400"] unfolding civil_add_months_day by linarith
  have "civil_add_months u k div 86400 = add_months_day (u div 86400) k" for u
    unfolding civil_add_months_day by simp
  then show "civil_add_months s k div 86400 \<le> civil_add_months t k div 86400" if "s \<le> t"
    using add_months_day_mono [OF zdiv_mono1 [OF that]] by simp
qed

interpretation greg: calendar "ts_valid gregorian" "ts_add_months gregorian"
proof
  fix s t r q :: int and j k :: nat
  note laws = civil_add_months_laws
  show "ts_valid gregorian s \<Longrightarrow> i64_min \<le> s \<and> s \<le> i64_max"
    by (simp add: gregorian_def)
  show "ts_valid gregorian s \<Longrightarrow> ts_valid gregorian q \<Longrightarrow> s \<le> r \<Longrightarrow> r \<le> q \<Longrightarrow> ts_valid gregorian r"
    by (simp add: gregorian_def)
  show "ts_add_months gregorian s k = Some r \<Longrightarrow> ts_valid gregorian r"
    by (auto simp: gregorian_def Let_def split: if_splits)
  show "ts_add_months gregorian s k = Some r \<Longrightarrow> s + 2419200 * int k \<le> r"
    using laws(1) [of s k] by (auto simp: gregorian_def Let_def split: if_splits)
  show "ts_add_months gregorian s k = Some r \<Longrightarrow> r \<le> s + 2678400 * int k"
    using laws(2) [of s k] by (auto simp: gregorian_def Let_def split: if_splits)
  show "ts_add_months gregorian s k = Some r \<Longrightarrow> ts_add_months gregorian t k = Some q \<Longrightarrow> s \<le> t
      \<Longrightarrow> r div 86400 \<le> q div 86400"
    using laws(3) [of s t k] by (auto simp: gregorian_def Let_def split: if_splits)
  show "ts_add_months gregorian s j = Some r \<Longrightarrow> ts_add_months gregorian s k = Some q \<Longrightarrow> j < k
      \<Longrightarrow> r < q"
    using laws(4) [of j k s] by (auto simp: gregorian_def Let_def split: if_splits)
  show "ts_valid gregorian s \<Longrightarrow> ts_add_months gregorian s k = Some q \<Longrightarrow> j \<le> k
      \<Longrightarrow> \<exists>r. ts_add_months gregorian s j = Some r"
    using laws(1) [of s j] laws(4) [of j k s]
    by (cases "j = k") (auto simp: gregorian_def Let_def split: if_splits)
qed

lemma chrono_ok_gregorian: "chrono_ok gregorian"
  unfolding chrono_ok_def by (rule greg.calendar_axioms)

end
