(* ===== verification/Clock.thy ===== *)
theory Clock
  imports Civil_Calendar
begin

text \<open>
  The statutory thresholds of \<open>compliance/clock.rs\<close>. UTC instants are \<open>i64\<close> seconds; a
  \<open>DateTime<Utc>\<close> without a fraction is its timestamp. The calendar is the parameter \<open>C\<close>.
\<close>

section \<open>Operations\<close>

definition INTIMATE_PERIOD_SECONDS :: int where
  "INTIMATE_PERIOD_SECONDS = 172800"

definition DATA_RIGHTS_MONTHS :: nat where
  "DATA_RIGHTS_MONTHS = 1"

definition EXTENSION_MONTHS :: nat where
  "EXTENSION_MONTHS = 2"

definition COMPLAINT_ACK_SECONDS :: int where
  "COMPLAINT_ACK_SECONDS = 2592000"

definition REVIEW_FRESHNESS_SECONDS :: int where
  "REVIEW_FRESHNESS_SECONDS = 31536000"

definition CHILD_RISK_MONTHS :: nat where
  "CHILD_RISK_MONTHS = 3"

definition instant :: "chrono \<Rightarrow> int \<Rightarrow> int outcome" where
  "instant C seconds = (if ts_valid C seconds then Inr seconds else Inl InvalidInput)"

definition add_seconds :: "chrono \<Rightarrow> int \<Rightarrow> int \<Rightarrow> int outcome" where
  "add_seconds C at seconds =
     res_bind (ok_or (checked_add_i64 at seconds) InvalidInput) (\<lambda>result.
     res_then (instant C result) (Inr result))"

definition add_months :: "chrono \<Rightarrow> int \<Rightarrow> nat \<Rightarrow> int outcome" where
  "add_months C at months =
     res_bind (instant C at) (\<lambda>date. ok_or (ts_add_months C date months) InvalidInput)"

definition review_fresh :: "chrono \<Rightarrow> int \<Rightarrow> int \<Rightarrow> bool outcome" where
  "review_fresh C last_reviewed_at now =
     res_then (instant C now)
       (if last_reviewed_at > now then Inl InvalidInput
        else res_bind (add_seconds C last_reviewed_at REVIEW_FRESHNESS_SECONDS)
               (\<lambda>limit. Inr (now \<le> limit)))"

definition child_risk_due :: "chrono \<Rightarrow> int \<Rightarrow> int outcome" where
  "child_risk_due C concluded_at = add_months C concluded_at CHILD_RISK_MONTHS"

definition child_risk_overdue :: "chrono \<Rightarrow> int \<Rightarrow> int \<Rightarrow> bool outcome" where
  "child_risk_overdue C concluded_at now =
     res_then (instant C now)
       (if concluded_at > now then Inl InvalidInput
        else res_bind (child_risk_due C concluded_at) (\<lambda>due. Inr (now > due)))"

definition intimate_due :: "chrono \<Rightarrow> int \<Rightarrow> int outcome" where
  "intimate_due C received_at = add_seconds C received_at INTIMATE_PERIOD_SECONDS"

definition intimate_effective :: "chrono \<Rightarrow> int \<Rightarrow> nat \<Rightarrow> int outcome" where
  "intimate_effective C received_at margin =
     res_then (validate_bound BkIntimateMargin margin)
       (res_bind (intimate_due C received_at) (\<lambda>due. add_seconds C due (- int margin)))"

definition intimate_on_time :: "chrono \<Rightarrow> int \<Rightarrow> int \<Rightarrow> bool outcome" where
  "intimate_on_time C received_at actioned_at =
     (if actioned_at \<ge> received_at
      then res_bind (intimate_due C received_at) (\<lambda>due. Inr (actioned_at \<le> due))
      else Inr False)"

definition data_rights_due :: "chrono \<Rightarrow> int \<Rightarrow> bool \<Rightarrow> int outcome" where
  "data_rights_due C relevant_at extended =
     add_months C relevant_at (DATA_RIGHTS_MONTHS + (if extended then EXTENSION_MONTHS else 0))"

definition data_rights_overdue :: "chrono \<Rightarrow> int \<Rightarrow> bool \<Rightarrow> int \<Rightarrow> bool outcome" where
  "data_rights_overdue C relevant_at extended now =
     res_bind (data_rights_due C relevant_at extended) (\<lambda>due. Inr (now > due))"

definition complaint_ack_due :: "chrono \<Rightarrow> int \<Rightarrow> int outcome" where
  "complaint_ack_due C received_at = add_seconds C received_at COMPLAINT_ACK_SECONDS"

definition complaint_ack_on_time :: "chrono \<Rightarrow> int \<Rightarrow> int \<Rightarrow> bool outcome" where
  "complaint_ack_on_time C received_at acknowledged_at =
     (if acknowledged_at \<ge> received_at
      then res_bind (complaint_ack_due C received_at) (\<lambda>due. Inr (acknowledged_at \<le> due))
      else Inr False)"

definition retention_due :: "chrono \<Rightarrow> int \<Rightarrow> nat \<Rightarrow> int outcome" where
  "retention_due C closed_at retention_months =
     res_then (validate_bound BkRetentionMonths retention_months)
       (add_months C closed_at retention_months)"

definition retention_elapsed :: "chrono \<Rightarrow> int \<Rightarrow> nat \<Rightarrow> int \<Rightarrow> bool outcome" where
  "retention_elapsed C closed_at retention_months now =
     res_bind (retention_due C closed_at retention_months) (\<lambda>due. Inr (now \<ge> due))"

section \<open>Lemmas\<close>

lemmas clock_consts = INTIMATE_PERIOD_SECONDS_def DATA_RIGHTS_MONTHS_def EXTENSION_MONTHS_def
  COMPLAINT_ACK_SECONDS_def REVIEW_FRESHNESS_SECONDS_def CHILD_RISK_MONTHS_def
  MIN_RETENTION_MONTHS_def

lemma instant_Inr [res_simps]: "instant C s = Inr d \<longleftrightarrow> ts_valid C s \<and> d = s"
  by (auto simp: instant_def)

lemma add_seconds_Inr [res_simps]:
  "add_seconds C a s = Inr r \<longleftrightarrow>
     r = a + s \<and> i64_min \<le> r \<and> r \<le> i64_max \<and> ts_valid C r"
  by (auto simp: add_seconds_def res_simps checked_Some)

lemma add_months_Inr [res_simps]:
  "add_months C a k = Inr r \<longleftrightarrow> ts_valid C a \<and> ts_add_months C a k = Some r"
  by (auto simp: add_months_def res_simps)

lemma spec_IntimateMargin [simp]:
  "bs_min (spec BkIntimateMargin) = 1" "bs_max (spec BkIntimateMargin) = 172800"
  by (simp_all add: spec_rows bound_spec_of_def)

lemma spec_RetentionMonths [simp]:
  "bs_min (spec BkRetentionMonths) = 36" "bs_max (spec BkRetentionMonths) = 120"
  by (simp_all add: spec_rows bound_spec_of_def MIN_RETENTION_MONTHS_def)

lemma intimate_effective_Inr:
  "intimate_effective C t m = Inr e \<longleftrightarrow>
     1 \<le> m \<and> m \<le> 172800 \<and> e = t + 172800 - int m
     \<and> t + 172800 \<le> i64_max \<and> i64_min \<le> e \<and> i64_min \<le> t + 172800 \<and> e \<le> i64_max
     \<and> ts_valid C (t + 172800) \<and> ts_valid C e"
  by (auto simp: intimate_effective_def intimate_due_def clock_consts res_simps)

lemma retention_due_Inr:
  "retention_due C t m = Inr d \<longleftrightarrow>
     36 \<le> m \<and> m \<le> 120 \<and> ts_valid C t \<and> ts_add_months C t m = Some d"
  by (auto simp: retention_due_def res_simps)

lemma chrono_months_least:
  "chrono_ok C \<Longrightarrow> ts_add_months C s k = Some r \<Longrightarrow> s + 2419200 * int k \<le> r"
  unfolding chrono_ok_def by (rule calendar.months_least)

lemma chrono_months_most:
  "chrono_ok C \<Longrightarrow> ts_add_months C s k = Some r \<Longrightarrow> r \<le> s + 2678400 * int k"
  unfolding chrono_ok_def by (rule calendar.months_most)

lemma chrono_later_period:
  "chrono_ok C \<Longrightarrow> ts_valid C s \<Longrightarrow> ts_add_months C s k = Some q \<Longrightarrow> j < k
   \<Longrightarrow> \<exists>r. ts_add_months C s j = Some r \<and> s \<le> r \<and> r < q"
  unfolding chrono_ok_def by (rule calendar.later_period_defined)

lemma data_rights_due_Inr:
  "data_rights_due C t ext = Inr q \<longleftrightarrow>
     ts_valid C t \<and> ts_add_months C t (if ext then 3 else 1) = Some q"
  by (simp add: data_rights_due_def clock_consts res_simps numeral_3_eq_3)

lemma gregorian_valid [simp]:
  "ts_valid gregorian s \<longleftrightarrow> -8334601228800 \<le> s \<and> s \<le> 8210266876799"
  by (simp add: gregorian_def)

lemma retention_elapsed_lower:
  assumes "chrono_ok C" and "retention_elapsed C closed m now = Inr True"
  shows "36 \<le> m \<and> m \<le> 120 \<and> closed + 28 * 86400 * int m \<le> now \<and> closed + 1008 * 86400 \<le> now"
proof -
  obtain d where d: "36 \<le> m" "m \<le> 120" "ts_add_months C closed m = Some d" "d \<le> now"
    using assms(2) by (auto simp: retention_elapsed_def res_simps retention_due_Inr)
  with chrono_months_least [OF assms(1) d(3)] show ?thesis by simp
qed

section \<open>Properties\<close>

text \<open>
  the statutory protection of an intimate-image report. Whenever the effective instant is
  computed it is the receipt plus 48 hours minus the operator's margin, it lies between the
  receipt and the outer deadline, and an action at that instant counts as timely.
\<close>

theorem intimate_effective_timely:
  assumes "intimate_effective C t m = Inr e"
  shows "e = t + 172800 - int m \<and> t \<le> e \<and> e < t + 172800
    \<and> intimate_due C t = Inr (t + 172800) \<and> intimate_on_time C t e = Inr True"
  using assms
  by (auto simp: intimate_effective_Inr intimate_on_time_def intimate_due_def clock_consts res_simps)

theorem intimate_effective_timely_witness:
  "intimate_effective gregorian 1700000000 86400 = Inr 1700086400
   \<and> intimate_on_time gregorian 1700000000 1700086400 = Inr True"
proof -
  have "intimate_effective gregorian 1700000000 86400 = Inr 1700086400"
    by (simp add: intimate_effective_Inr)
  with intimate_effective_timely [OF this] show ?thesis by simp
qed

text \<open>
  The extended data-rights deadline. For a lawful calendar the extended deadline implies
  the initial one, is strictly later than it, and the two lie 28 to 31 and 84 to 93 days
  after the relevant time.
\<close>

theorem data_rights_due_extension:
  assumes "chrono_ok C" and "data_rights_due C t True = Inr q"
  shows "\<exists>r. data_rights_due C t False = Inr r \<and> r < q
    \<and> t + 28 * 86400 \<le> r \<and> r \<le> t + 31 * 86400 \<and> t + 84 * 86400 \<le> q \<and> q \<le> t + 93 * 86400"
proof -
  have q: "ts_valid C t" "ts_add_months C t 3 = Some q"
    using assms(2) by (simp_all add: data_rights_due_Inr)
  obtain r where "ts_add_months C t 1 = Some r" "r < q"
    using chrono_later_period [OF assms(1) q, of 1] by auto
  then show ?thesis
    using q chrono_months_least [OF assms(1)] chrono_months_most [OF assms(1)]
    by (fastforce simp: data_rights_due_Inr)
qed

theorem data_rights_due_extension_witness:
  "data_rights_due gregorian 1706655600 True = Inr 1714518000
   \<and> (\<exists>r. data_rights_due gregorian 1706655600 False = Inr r \<and> r < 1714518000)"
proof -
  have "civil_add_months 1706655600 3 = 1714518000"
    by code_simp
  then have "ts_add_months gregorian 1706655600 3 = Some 1714518000"
    by (simp add: gregorian_def)
  then have q: "data_rights_due gregorian 1706655600 True = Inr 1714518000"
    by (simp add: data_rights_due_Inr)
  with data_rights_due_extension [OF chrono_ok_gregorian q] show ?thesis by auto
qed

text \<open>
  Retention. When the retention test says a closed ticket's payload may be deleted, the
  configured period is at least 36 months, and at least 36 times 28 days have elapsed
  since closure.
\<close>

theorem retention_elapsed_floor:
  assumes "chrono_ok C" and "retention_elapsed C closed m now = Inr True"
  shows "36 \<le> m \<and> m \<le> 120 \<and> closed + 28 * 86400 * int m \<le> now \<and> closed + 1008 * 86400 \<le> now"
  by (rule retention_elapsed_lower [OF assms])

theorem retention_elapsed_floor_witness:
  "retention_elapsed gregorian 1706655600 36 1801350000 = Inr True
   \<and> 1706655600 + 1008 * 86400 \<le> (1801350000::int)"
proof -
  have "civil_add_months 1706655600 36 = 1801350000"
    by code_simp
  then have "ts_add_months gregorian 1706655600 36 = Some 1801350000"
    by (simp add: gregorian_def)
  then have "retention_due gregorian 1706655600 36 = Inr 1801350000"
    by (simp add: retention_due_Inr)
  then have "retention_elapsed gregorian 1706655600 36 1801350000 = Inr True"
    by (simp add: retention_elapsed_def)
  from retention_elapsed_floor [OF chrono_ok_gregorian this] this show ?thesis by simp
qed

end
