(* ===== verification/Journal_Row.thy ===== *)
theory Journal_Row
  imports Model Clock
begin

text \<open>
  The chain row of \<open>compliance/journal.rs\<close>: the closed event names, the flat record whose field
  order is the on-disk order, and the validation of every field. \<open>auth::actor\<close> is here because
  row validation is its caller.
\<close>

section \<open>Data\<close>

datatype event_name =
    EvReceived | EvAcknowledged | EvQueued | EvIdentityRequested | EvIdentityConfirmed
  | EvClarificationRequested | EvClarificationReceived | EvExtensionNotified | EvDecided
  | EvActionIntent | EvRulesCommitted | EvActioned | EvAppealed | EvReversalIntent | EvReversed
  | EvUpheld | EvProgressCommunicated | EvClosed | EvPurgeIntent | EvPurged | EvListAccessed
  | EvRecordIntent | EvRecordAdded | EvReviewOpened | EvTailRecovered

record journal_row =
  row_format_version :: nat
  row_sequence :: nat
  row_previous_hash :: string
  row_at :: int
  row_received_at :: int
  row_event :: event_name
  row_ticket_id :: string
  row_route :: string
  row_requester_type :: string
  row_state :: string
  row_actor :: string
  row_decision :: string
  row_reason_code :: string
  row_policy_version :: string
  row_asset_ids :: string
  row_payload_sequence :: nat
  row_commitment :: string
  row_intent_sequence :: nat
  row_effective_at :: int
  row_related_ticket_id :: string
  row_record_ref :: string
  row_list_version :: string
  row_url_count :: nat
  row_host_count :: nat
  row_quarantined_bytes :: nat
  row_quarantine_hash :: string
  row_hash :: string

definition empty_row :: "event_name \<Rightarrow> int \<Rightarrow> journal_row" where
  "empty_row event at =
     \<lparr> row_format_version = 1, row_sequence = 0, row_previous_hash = [], row_at = at,
       row_received_at = -1, row_event = event, row_ticket_id = [], row_route = [],
       row_requester_type = [], row_state = [], row_actor = [], row_decision = [],
       row_reason_code = [], row_policy_version = [], row_asset_ids = [],
       row_payload_sequence = 0, row_commitment = [], row_intent_sequence = 0,
       row_effective_at = -1, row_related_ticket_id = [], row_record_ref = [],
       row_list_version = [], row_url_count = 0, row_host_count = 0,
       row_quarantined_bytes = 0, row_quarantine_hash = [], row_hash = [] \<rparr>"

section \<open>Validation\<close>

definition actor_ok :: "string \<Rightarrow> unit outcome" where
  "actor_ok s =
     res_then (text_ok s BkActor SlugText)
       (if starts_with s ''system.'' then Inl InvalidInput else Inr ())"

definition row_documents :: "journal_row \<Rightarrow> document_key list outcome" where
  "row_documents r =
     (if row_asset_ids r = [] then Inr []
      else res_bind (res_map document_key_parse (split_on (CHR '','') (row_asset_ids r))) (\<lambda>keys.
        res_then (validate_bound BkUrls (length keys))
          (if strictly_ascending (\<lambda>k. k) keys then Inr keys else Inl InvalidInput)))"

definition personal_event :: "event_name \<Rightarrow> bool" where
  "personal_event e \<longleftrightarrow> e \<in> {EvReceived, EvIdentityRequested, EvIdentityConfirmed,
     EvClarificationRequested, EvClarificationReceived, EvExtensionNotified, EvDecided,
     EvActionIntent, EvAppealed, EvReversalIntent, EvUpheld, EvProgressCommunicated, EvClosed}"

definition rule_event :: "event_name \<Rightarrow> bool" where
  "rule_event e \<longleftrightarrow> e \<in> {EvActionIntent, EvRulesCommitted, EvActioned, EvReversalIntent, EvReversed}"

definition operation_event :: "event_name \<Rightarrow> bool" where
  "operation_event e \<longleftrightarrow> rule_event e \<or> e \<in> {EvPurgeIntent, EvPurged}"

definition validate_event_fields :: "journal_row \<Rightarrow> unit outcome" where
  "validate_event_fields r =
     (let e = row_event r in
      if personal_event e \<noteq> (row_payload_sequence r \<noteq> 0)
         \<or> operation_event e \<noteq> (row_intent_sequence r \<noteq> 0)
         \<or> rule_event e \<noteq> (row_asset_ids r \<noteq> [])
         \<or> rule_event e \<noteq> (row_effective_at r \<noteq> -1)
         \<or> (e \<notin> {EvDecided, EvAppealed} \<and> row_related_ticket_id r \<noteq> [])
      then Inl Unavailable
      else if rule_event e then
        res_then (ground_parse (row_reason_code r))
         (let permitted =
            (if e \<in> {EvActioned, EvReversalIntent, EvReversed} then row_decision r = ''granted''
             else row_decision r \<in> {[], ''granted'', ''not_intimate_image'', ''no_standing''})
          in if \<not> permitted \<or> row_policy_version r \<noteq> [] then Inl Unavailable else Inr ())
      else if e = EvDecided then
        res_bind (decision_kind_parse (row_decision r)) (\<lambda>kind.
          if kind = DkManifestlyUnfounded then
            (if row_policy_version r = []
                \<or> row_reason_code r \<noteq> ''duplicate_without_new_information''
                \<or> row_related_ticket_id r = []
             then Inl Unavailable else Inr ())
          else
            (if row_policy_version r \<noteq> []
                \<or> row_related_ticket_id r \<noteq> []
                \<or> kind = DkRefused \<and> row_reason_code r \<noteq> []
             then Inl Unavailable else Inr ()))
      else if row_decision r \<noteq> [] \<or> row_reason_code r \<noteq> [] \<or> row_policy_version r \<noteq> []
      then Inl Unavailable
      else Inr ())"

definition when_ok :: "bool \<Rightarrow> unit outcome \<Rightarrow> unit outcome" where
  "when_ok b m = (if b then m else Inr ())"

definition void :: "'a outcome \<Rightarrow> unit outcome" where
  "void m = res_then m (Inr ())"

definition validate_ticket_fields :: "chrono \<Rightarrow> journal_row \<Rightarrow> unit outcome" where
  "validate_ticket_fields C r =
     (if row_list_version r \<noteq> [] \<or> row_url_count r \<noteq> 0 \<or> row_host_count r \<noteq> 0
         \<or> row_record_ref r \<noteq> [] \<or> row_quarantined_bytes r \<noteq> 0 \<or> row_quarantine_hash r \<noteq> []
         \<or> row_event r \<in> {EvListAccessed, EvTailRecovered, EvRecordIntent, EvRecordAdded, EvReviewOpened}
      then Inl Unavailable
      else
        res_then (when_ok (row_decision r \<noteq> []) (void (decision_kind_parse (row_decision r))))
       (res_then (when_ok (row_reason_code r \<noteq> [] \<and> row_reason_code r \<noteq> ''duplicate_without_new_information'')
                   (void (ground_parse (row_reason_code r))))
       (res_then (when_ok (row_policy_version r \<noteq> [])
                   (res_then (text_ok (row_policy_version r) BkSlug SlugText)
                     (if row_decision r \<noteq> ''manifestly_unfounded''
                         \<or> row_reason_code r \<noteq> ''duplicate_without_new_information''
                      then Inl Unavailable else Inr ())))
       (res_then (row_documents r)
       (res_then (require_or ((row_payload_sequence r = 0) = (row_commitment r = [])) Unavailable)
       (res_then (when_ok (row_commitment r \<noteq> []) (void (hex64_parse (row_commitment r))))
       (res_then (when_ok (row_related_ticket_id r \<noteq> []) (void (ticket_id_parse (row_related_ticket_id r))))
       (when_ok (row_effective_at r \<noteq> -1) (void (instant C (row_effective_at r)))))))))))"

definition validate_system :: "journal_row \<Rightarrow> unit outcome" where
  "validate_system r =
     (if row_route r \<noteq> [] \<or> row_requester_type r \<noteq> [] \<or> row_state r \<noteq> []
         \<or> row_received_at r \<noteq> -1 \<or> row_decision r \<noteq> [] \<or> row_reason_code r \<noteq> []
         \<or> row_policy_version r \<noteq> [] \<or> row_asset_ids r \<noteq> [] \<or> row_payload_sequence r \<noteq> 0
         \<or> row_commitment r \<noteq> [] \<or> row_intent_sequence r \<noteq> 0 \<or> row_effective_at r \<noteq> -1
         \<or> row_related_ticket_id r \<noteq> [] \<or> row_record_ref r \<noteq> []
      then Inl Unavailable
      else case row_event r of
        EvListAccessed \<Rightarrow>
          (if row_actor r \<noteq> ''system.list'' \<or> row_quarantined_bytes r \<noteq> 0 \<or> row_quarantine_hash r \<noteq> []
           then Inl Unavailable
           else res_then (text_ok (row_list_version r) BkSlug SlugText)
             (res_bind (ok_or (checked_add_u64 (row_url_count r) (row_host_count r)) Unavailable)
               (\<lambda>total. validate_bound BkListEntries total)))
      | EvTailRecovered \<Rightarrow>
          (if row_actor r \<noteq> ''system.recovery'' \<or> row_list_version r \<noteq> [] \<or> row_url_count r \<noteq> 0
              \<or> row_host_count r \<noteq> 0
           then Inl Unavailable
           else res_then (validate_bound BkJournalRow (row_quarantined_bytes r))
             (void (hex64_parse (row_quarantine_hash r))))
      | _ \<Rightarrow> Inl Unavailable)"

definition validate_metadata :: "chrono \<Rightarrow> journal_row \<Rightarrow> unit outcome" where
  "validate_metadata C r =
     (if row_format_version r \<noteq> 1 then Inl Unavailable
      else
        res_then (hex64_parse (row_previous_hash r))
       (res_then (hex64_parse (row_hash r))
       (res_then (instant C (row_at r))
        (if row_ticket_id r = [] then validate_system r
         else
           res_then (ticket_id_parse (row_ticket_id r))
          (res_then (route_parse (row_route r))
          (res_then (requester_type_parse (row_requester_type r))
          (res_then (ticket_state_parse (row_state r))
          (res_then (instant C (row_received_at r))
          (if row_received_at r > row_at r then Inl Unavailable
           else
             res_then (when_ok (row_actor r \<notin> {''system.intake'', ''system.recovery''}) (actor_ok (row_actor r)))
            (res_then (validate_ticket_fields C r)
             (validate_event_fields r)))))))))))"

section \<open>Lemmas\<close>

lemma when_ok_Inr [res_simps]: "when_ok b m = Inr u \<longleftrightarrow> (b \<longrightarrow> m = Inr u)"
  by (simp add: when_ok_def)

lemma void_Inr [res_simps]: "void m = Inr u \<longleftrightarrow> (\<exists>x. m = Inr x)"
  by (simp add: void_def res_simps)

lemma hex64_parse_Inr:
  "hex64_parse s = Inr h \<longleftrightarrow> h = Hex64 s \<and> length s = 64 \<and> list_all hex_byte s"
  by (auto simp: hex64_parse_def res_simps decode_hex_Inr)

lemma ticket_id_parse_Inr:
  "ticket_id_parse s = Inr t \<longleftrightarrow> t = TicketId (Hex64 s) \<and> length s = 64 \<and> list_all hex_byte s"
  by (auto simp: ticket_id_parse_def res_simps hex64_parse_Inr)

lemma document_key_parse_Inr:
  "document_key_parse s = Inr t \<longleftrightarrow> t = DocumentKey (Hex64 s) \<and> length s = 64 \<and> list_all hex_byte s"
  by (auto simp: document_key_parse_def res_simps hex64_parse_Inr)

lemma row_documents_ascending:
  "row_documents r = Inr keys \<Longrightarrow> strictly_ascending (\<lambda>k. k) keys \<and> length keys \<le> 16"
  by (auto simp: row_documents_def res_simps strictly_ascending_def spec_rows
      bound_spec_of_def split: if_splits)

end
