(* ===== verification/Journal.thy ===== *)
theory Journal
  imports Journal_Row
begin

text \<open>
  The hash-chained journal of \<open>compliance/journal.rs\<close>: preparing and verifying rows, the append
  with its durable steps, loading with quarantine of a torn tail, and the recovery row. The
  disk is explicit (the bytes of \<open>events.jsonl\<close> and \<open>head.json\<close> and the quarantine files) and
  every durable step can fail where a fault parameter says so, so that the disk after a
  failed or interrupted operation is a value of the model. The \<open>serde_json\<close> encodings and the
  SHA-256 digest are parameters.
\<close>

section \<open>State and parameters\<close>

record head =
  hd_format_version :: nat
  hd_sequence :: nat
  hd_hash :: string
  hd_byte_length :: nat

record codec =
  cd_unsigned :: "journal_row \<Rightarrow> string option"
  cd_row :: "journal_row \<Rightarrow> string option"
  cd_parse :: "string \<Rightarrow> journal_row option"
  cd_head :: "head \<Rightarrow> string option"
  cd_head_parse :: "string \<Rightarrow> head option"

record jenv =
  je_codec :: codec
  je_digest :: "string \<Rightarrow> string"
  je_chrono :: chrono
  je_now :: int
  je_max_bytes :: nat
  je_decode_hook :: bool

record observed_tail =
  ot_bytes :: string
  ot_base_sequence :: nat

record journal =
  jn_head :: head
  jn_rows :: "journal_row list"
  jn_tail :: "observed_tail option"

record jdisk =
  jd_events :: string
  jd_head :: string
  jd_quarantine :: "(string \<times> string) list"

record verified_bytes =
  vb_rows :: "journal_row list"
  vb_complete_length :: nat
  vb_tail :: "string option"

abbreviation newline :: char where
  "newline \<equiv> CHR 0x0A"

definition zero_hash :: string where
  "zero_hash = replicate 64 (CHR ''0'')"

section \<open>Rows\<close>

definition journal_domain :: string where
  "journal_domain = ''AVA619-JOURNAL-v1'' @ [CHR 0x00]"

definition computed_hash :: "jenv \<Rightarrow> journal_row \<Rightarrow> string outcome" where
  "computed_hash E r =
     res_bind (ok_or (cd_unsigned (je_codec E) r) Unavailable)
       (\<lambda>bytes. Inr (sha256 (je_digest E) [journal_domain, bytes]))"

definition row_bytes :: "jenv \<Rightarrow> journal_row \<Rightarrow> string outcome" where
  "row_bytes E r =
     res_bind (ok_or (cd_row (je_codec E) r) Unavailable) (\<lambda>b.
       let bytes = b @ [newline] in
       res_then (map_err (validate_bound BkJournalRow (length bytes)) Capacity) (Inr bytes))"

definition verify_link :: "jenv \<Rightarrow> journal_row \<Rightarrow> nat \<Rightarrow> string \<Rightarrow> unit outcome" where
  "verify_link E r sequence previous =
     (if row_sequence r \<noteq> sequence then Inl Unavailable
      else if row_previous_hash r \<noteq> previous then Inl Unavailable
      else res_bind (computed_hash E r) (\<lambda>h. if h \<noteq> row_hash r then Inl Unavailable else Inr ()))"

definition verify_time :: "journal_row \<Rightarrow> int option \<Rightarrow> int \<Rightarrow> unit outcome" where
  "verify_time r prior_at now =
     (if row_at r > now \<or> (case prior_at of Some prior \<Rightarrow> row_at r < prior | None \<Rightarrow> False)
      then Inl Unavailable else Inr ())"

definition checkpoint_agrees :: "nat \<Rightarrow> string \<Rightarrow> nat \<Rightarrow> head \<Rightarrow> bool" where
  "checkpoint_agrees sequence hash len head \<longleftrightarrow>
     (sequence, hash, len) = (hd_sequence head, hd_hash head, hd_byte_length head)"

definition last_at :: "journal \<Rightarrow> int option" where
  "last_at j = (if jn_rows j = [] then None else Some (row_at (last (jn_rows j))))"

fun prepare_loop ::
  "jenv \<Rightarrow> nat \<Rightarrow> string \<Rightarrow> int option \<Rightarrow> journal_row list \<Rightarrow> journal_row list outcome" where
  "prepare_loop E sequence previous prior [] = Inr []"
| "prepare_loop E sequence previous prior (r # rs) =
     res_bind (ok_or (checked_add_u64 sequence 1) Capacity) (\<lambda>next.
     let r1 = r\<lparr> row_sequence := next, row_previous_hash := previous \<rparr> in
     res_bind (computed_hash E r1) (\<lambda>h.
     let r2 = r1\<lparr> row_hash := h \<rparr> in
     res_then (verify_time r2 prior (je_now E))
    (res_then (validate_metadata (je_chrono E) r2)
    (res_then (row_bytes E r2)
    (res_bind (prepare_loop E next (row_hash r2) (Some (row_at r2)) rs) (\<lambda>rest.
     Inr (r2 # rest)))))))"

definition prepare_rows :: "jenv \<Rightarrow> journal \<Rightarrow> journal_row list \<Rightarrow> journal_row list outcome" where
  "prepare_rows E j rows =
     prepare_loop E (hd_sequence (jn_head j)) (hd_hash (jn_head j)) (last_at j) rows"

section \<open>Verification\<close>

fun split_inclusive :: "string \<Rightarrow> string list" where
  "split_inclusive [] = []"
| "split_inclusive (c # cs) =
     (if c = newline then [c] # split_inclusive cs
      else case split_inclusive cs of [] \<Rightarrow> [[c]] | u # us \<Rightarrow> (c # u) # us)"

fun verify_loop ::
  "jenv \<Rightarrow> head \<Rightarrow> string list \<Rightarrow> journal_row list \<Rightarrow> nat \<Rightarrow> string \<Rightarrow> nat \<Rightarrow> bool \<Rightarrow> int option
   \<Rightarrow> verified_bytes outcome" where
  "verify_loop E head [] rows end previous sequence committed prior =
     (if \<not> committed then Inl Unavailable
      else Inr \<lparr> vb_rows = rows, vb_complete_length = end, vb_tail = None \<rparr>)"
| "verify_loop E head (line # lines) rows end previous sequence committed prior =
     (if line = [] \<or> last line \<noteq> newline then
        (if end < hd_byte_length head \<or> \<not> committed then Inl Unavailable
         else res_then (map_err (validate_bound BkJournalRow (length line)) Unavailable)
           (Inr \<lparr> vb_rows = rows, vb_complete_length = end, vb_tail = Some line \<rparr>))
      else
        res_then (map_err (validate_bound BkJournalRow (length line)) Unavailable)
       (res_then (require_or (je_decode_hook E) Unavailable)
       (res_bind (ok_or (cd_parse (je_codec E) line) Unavailable) (\<lambda>row.
        res_bind (ok_or (checked_add_u64 sequence 1) Unavailable) (\<lambda>next.
        res_then (verify_link E row next previous)
       (res_then (verify_time row prior (je_now E))
       (res_then (validate_metadata (je_chrono E) row)
       (res_bind (row_bytes E row) (\<lambda>bytes.
        if bytes \<noteq> line then Inl Unavailable
        else
          res_bind (ok_or (checked_add_u64 end (length line)) Unavailable) (\<lambda>end'.
          let committed' =
            (if row_sequence row = hd_sequence head
             then checkpoint_agrees (row_sequence row) (row_hash row) end' head else committed)
          in verify_loop E head lines (rows @ [row]) end' (row_hash row) next committed'
               (Some (row_at row))))))))))))"

definition verify_bytes :: "jenv \<Rightarrow> string \<Rightarrow> head \<Rightarrow> verified_bytes outcome" where
  "verify_bytes E bytes head =
     verify_loop E head (split_inclusive bytes) [] 0 zero_hash 0
       (checkpoint_agrees 0 zero_hash 0 head) None"

section \<open>The checkpoint file\<close>

datatype head_fault = HeadOk | HeadBeforeRename | HeadAfterRename

definition write_head :: "jenv \<Rightarrow> jdisk \<Rightarrow> head \<Rightarrow> head_fault \<Rightarrow> unit outcome \<times> jdisk" where
  "write_head E d head f =
     (case cd_head (je_codec E) head of
        None \<Rightarrow> (Inl Unavailable, d)
      | Some b \<Rightarrow>
          (case f of
             HeadOk \<Rightarrow> (Inr (), d\<lparr> jd_head := b @ [newline] \<rparr>)
           | HeadBeforeRename \<Rightarrow> (Inl Unavailable, d)
           | HeadAfterRename \<Rightarrow> (Inl Unavailable, d\<lparr> jd_head := b @ [newline] \<rparr>)))"

definition read_head :: "jenv \<Rightarrow> jdisk \<Rightarrow> head outcome" where
  "read_head E d =
     (if length (jd_head d) > bs_max (spec BkJournalRow) then Inl Unavailable
      else
        res_then (require_or (je_decode_hook E) Unavailable)
       (res_bind (ok_or (cd_head_parse (je_codec E) (jd_head d)) Unavailable) (\<lambda>head.
        res_then (hex64_parse (hd_hash head))
       (res_bind (ok_or (cd_head (je_codec E) head) Unavailable) (\<lambda>b.
        if hd_format_version head \<noteq> 1 \<or> b @ [newline] \<noteq> jd_head d then Inl Unavailable
        else Inr head)))))"

section \<open>Appending\<close>

record append_faults =
  af_open :: bool
  af_write :: "nat option"
  af_sync :: bool
  af_hook :: bool
  af_head :: head_fault

definition no_faults :: append_faults where
  "no_faults = \<lparr> af_open = False, af_write = None, af_sync = False, af_hook = False, af_head = HeadOk \<rparr>"

definition append_checks :: "jenv \<Rightarrow> journal \<Rightarrow> journal_row \<Rightarrow> (string \<times> nat) outcome" where
  "append_checks E j row =
     res_bind (ok_or (checked_add_u64 (hd_sequence (jn_head j)) 1) Unavailable) (\<lambda>next.
     res_then (verify_link E row next (hd_hash (jn_head j)))
    (res_then (verify_time row (last_at j) (je_now E))
    (res_bind (row_bytes E row) (\<lambda>bytes.
     res_bind (reserve (hd_byte_length (jn_head j)) (length bytes) (je_max_bytes E) 0) (\<lambda>len.
     Inr (bytes, len))))))"

definition append_tracked ::
  "jenv \<Rightarrow> append_faults \<Rightarrow> journal \<Rightarrow> jdisk \<Rightarrow> journal_row \<Rightarrow> unit outcome \<times> journal \<times> jdisk" where
  "append_tracked E f j d row =
     (case append_checks E j row of
        Inl e \<Rightarrow> (Inl e, j, d)
      | Inr (bytes, len) \<Rightarrow>
          if af_open f then (Inl Unavailable, j, d)
          else
            (case af_write f of
               Some k \<Rightarrow> (Inl Unavailable, j, d\<lparr> jd_events := jd_events d @ take k bytes \<rparr>)
             | None \<Rightarrow>
                 (let d1 = d\<lparr> jd_events := jd_events d @ bytes \<rparr> in
                  if af_sync f \<or> af_hook f then (Inl Unavailable, j, d1)
                  else
                    let head = \<lparr> hd_format_version = 1, hd_sequence = row_sequence row,
                                 hd_hash = row_hash row, hd_byte_length = len \<rparr>
                    in case write_head E d1 head (af_head f) of
                         (Inl e, d2) \<Rightarrow> (Inl e, j, d2)
                       | (Inr _, d2) \<Rightarrow> (Inr (), j\<lparr> jn_head := head, jn_rows := jn_rows j @ [row] \<rparr>, d2))))"

record listed_metadata =
  lm_version :: string
  lm_url_count :: nat
  lm_host_count :: nat

definition list_access_row :: "jenv \<Rightarrow> listed_metadata \<Rightarrow> journal_row" where
  "list_access_row E md =
     (empty_row EvListAccessed (je_now E))\<lparr> row_actor := ''system.list'', row_list_version := lm_version md,
        row_url_count := lm_url_count md, row_host_count := lm_host_count md \<rparr>"

definition record_list_access ::
  "jenv \<Rightarrow> append_faults \<Rightarrow> journal \<Rightarrow> jdisk \<Rightarrow> listed_metadata \<Rightarrow> unit outcome \<times> journal \<times> jdisk" where
  "record_list_access E f j d md =
     (case res_bind (prepare_rows E j [list_access_row E md]) (\<lambda>rows.
             let row = rows ! 0 in
             res_bind (row_bytes E row) (\<lambda>bytes.
             res_then (reserve (hd_byte_length (jn_head j)) (length bytes) (je_max_bytes E)
                         (bs_min (spec BkReservedJournalBytes)))
               (Inr row)))
      of Inl e \<Rightarrow> (Inl e, j, d)
       | Inr row \<Rightarrow> append_tracked E f j d row)"

section \<open>Loading and recovery\<close>

definition pad20 :: "nat \<Rightarrow> string" where
  "pad20 n = (let s = show_nat n in replicate (20 - length s) (CHR ''0'') @ s)"

definition quarantine_name :: "nat \<Rightarrow> string \<Rightarrow> string" where
  "quarantine_name base hash = ''quarantine-'' @ pad20 base @ ''-'' @ hash @ ''.bin''"

definition put_file :: "string \<Rightarrow> string \<Rightarrow> (string \<times> string) list \<Rightarrow> (string \<times> string) list" where
  "put_file name bytes fs = (name, bytes) # filter (\<lambda>p. fst p \<noteq> name) fs"

datatype tail_fault = TailOk | TailBeforePublish | TailAfterPublish | TailAfterTruncate

definition quarantine_tail ::
  "jenv \<Rightarrow> tail_fault \<Rightarrow> nat \<Rightarrow> jdisk \<Rightarrow> observed_tail \<Rightarrow> unit outcome \<times> jdisk" where
  "quarantine_tail E f keep d tail =
     (let bytes = ot_bytes tail;
          name = quarantine_name (ot_base_sequence tail) (sha256 (je_digest E) [bytes]);
          existing = map_of (jd_quarantine d) name;
          d1 = (if existing = Some bytes then d
                else d\<lparr> jd_quarantine := put_file name bytes (jd_quarantine d) \<rparr>);
          d2 = d1\<lparr> jd_events := take keep (jd_events d1) \<rparr>
      in if (case existing of None \<Rightarrow> False | Some b \<Rightarrow> length b > bs_max (spec BkJournalRow)) then (Inl Unavailable, d)
         else case f of
           TailBeforePublish \<Rightarrow> (Inl Unavailable, d)
         | TailAfterPublish \<Rightarrow> (Inl Unavailable, d1)
         | TailAfterTruncate \<Rightarrow> (Inl Unavailable, d2)
         | TailOk \<Rightarrow> (Inr (), d2))"

definition head_of_rows :: "journal_row list \<Rightarrow> nat \<Rightarrow> head" where
  "head_of_rows rows len =
     \<lparr> hd_format_version = 1,
       hd_sequence = (if rows = [] then 0 else row_sequence (last rows)),
       hd_hash = (if rows = [] then zero_hash else row_hash (last rows)),
       hd_byte_length = len \<rparr>"

definition load :: "jenv \<Rightarrow> tail_fault \<Rightarrow> jdisk \<Rightarrow> journal outcome \<times> jdisk" where
  "load E f d =
     (case res_bind (read_head E d) (\<lambda>head.
             if length (jd_events d) > je_max_bytes E then Inl Unavailable
             else verify_bytes E (jd_events d) head)
      of Inl e \<Rightarrow> (Inl e, d)
       | Inr v \<Rightarrow>
           (let head = head_of_rows (vb_rows v) (vb_complete_length v) in
            case vb_tail v of
              None \<Rightarrow> (Inr \<lparr> jn_head = head, jn_rows = vb_rows v, jn_tail = None \<rparr>, d)
            | Some bytes \<Rightarrow>
                (let tail = \<lparr> ot_bytes = bytes, ot_base_sequence = hd_sequence head \<rparr> in
                 case quarantine_tail E f (hd_byte_length head) d tail of
                   (Inl e, d') \<Rightarrow> (Inl e, d')
                 | (Inr _, d') \<Rightarrow>
                     (Inr \<lparr> jn_head = head, jn_rows = vb_rows v, jn_tail = Some tail \<rparr>, d'))))"

definition accounted_quarantine :: "journal \<Rightarrow> string \<Rightarrow> journal_row option" where
  "accounted_quarantine j name =
     (case strip_prefix ''quarantine-'' name of
        None \<Rightarrow> None
      | Some rest \<Rightarrow>
          (case split_once (CHR ''-'') rest of
             None \<Rightarrow> None
           | Some (base, suffix) \<Rightarrow>
               (case parse_u64 base of
                  None \<Rightarrow> None
                | Some sequence \<Rightarrow>
                    List.find (\<lambda>row. row_event row = EvTailRecovered \<and> row_sequence row > sequence
                        \<and> pad20 sequence = base \<and> suffix = row_quarantine_hash row @ ''.bin'')
                      (jn_rows j))))"

definition scan_quarantines :: "jenv \<Rightarrow> journal \<Rightarrow> jdisk \<Rightarrow> nat outcome" where
  "scan_quarantines E j d =
     res_fold (\<lambda>count (name, bytes).
        if \<not> starts_with name ''quarantine-'' then Inr count
        else case accounted_quarantine j name of
               None \<Rightarrow> Inr (count + 1)
             | Some row \<Rightarrow>
                 (if length bytes > bs_max (spec BkJournalRow) then Inl Unavailable
                  else if length bytes \<noteq> row_quarantined_bytes row
                          \<or> sha256 (je_digest E) [bytes] \<noteq> row_quarantine_hash row
                  then Inl Unavailable else Inr count))
       0 (jd_quarantine d)"

definition tail_row :: "jenv \<Rightarrow> observed_tail \<Rightarrow> journal_row" where
  "tail_row E tail =
     (empty_row EvTailRecovered (je_now E))\<lparr> row_actor := ''system.recovery'',
        row_quarantined_bytes := length (ot_bytes tail),
        row_quarantine_hash := sha256 (je_digest E) [ot_bytes tail] \<rparr>"

definition publish_recovery ::
  "jenv \<Rightarrow> head_fault \<Rightarrow> journal \<Rightarrow> jdisk \<Rightarrow> unit outcome \<times> journal \<times> jdisk" where
  "publish_recovery E g j d =
     (case scan_quarantines E j d of
        Inl e \<Rightarrow> (Inl e, j, d)
      | Inr _ \<Rightarrow> (case write_head E d (jn_head j) g of (r, d') \<Rightarrow> (r, j, d')))"

definition finish_recovery ::
  "jenv \<Rightarrow> append_faults \<Rightarrow> head_fault \<Rightarrow> journal \<Rightarrow> jdisk \<Rightarrow> unit outcome \<times> journal \<times> jdisk" where
  "finish_recovery E f g j d =
     (case jn_tail j of
        None \<Rightarrow> publish_recovery E g j d
      | Some tail \<Rightarrow>
          (let j1 = j\<lparr> jn_tail := None \<rparr> in
           case prepare_rows E j1 [tail_row E tail] of
             Inl e \<Rightarrow> (Inl e, j1, d)
           | Inr rows \<Rightarrow>
               (case append_tracked E f j1 d (rows ! 0) of
                  (Inl e, j2, d2) \<Rightarrow> (Inl e, j2, d2)
                | (Inr _, j2, d2) \<Rightarrow> publish_recovery E g j2 d2)))"

definition initialize :: "jenv \<Rightarrow> head_fault \<Rightarrow> journal outcome \<times> jdisk" where
  "initialize E g =
     (let j = \<lparr> jn_head = head_of_rows [] 0, jn_rows = [], jn_tail = None \<rparr> in
      case write_head E \<lparr> jd_events = [], jd_head = [], jd_quarantine = [] \<rparr> (jn_head j) g of
        (Inl e, d) \<Rightarrow> (Inl e, d)
      | (Inr _, d) \<Rightarrow> (Inr j, d))"

definition open_journal ::
  "jenv \<Rightarrow> tail_fault \<Rightarrow> append_faults \<Rightarrow> head_fault \<Rightarrow> jdisk option \<Rightarrow> journal outcome \<times> jdisk" where
  "open_journal E t f g disk =
     (case (case disk of None \<Rightarrow> initialize E g | Some d \<Rightarrow> load E t d) of
        (Inl e, d) \<Rightarrow> (Inl e, d)
      | (Inr j, d) \<Rightarrow>
          (case finish_recovery E f g j d of
             (Inl e, _, d') \<Rightarrow> (Inl e, d')
           | (Inr _, j', d') \<Rightarrow> (Inr j', d')))"

end
