(* ===== verification/Config.thy ===== *)
theory Config
  imports Model Clock
begin

text \<open>
  The settings of \<open>config/compliance.rs\<close> and their range and text validation. The resolution of
  directories (\<open>validate\<close> with \<open>overlaps\<close> and inode comparison) works on the file system and is
  not modelled. The size of the empty record index, which is the length of a serialized
  checkpoint, and \<open>Url::parse\<close> are parameters.
\<close>

datatype deployment_mode = LocalMode | HostedMode

record statement_change =
  sc_version :: string
  sc_at :: int
  sc_summary :: string

record settings =
  cf_deployment_mode :: deployment_mode
  cf_intimate_margin_seconds :: nat
  cf_retention_months :: nat
  cf_max_tickets :: nat
  cf_max_ticket_events :: nat
  cf_max_journal_bytes :: nat
  cf_max_payload_bytes :: nat
  cf_max_rules :: nat
  cf_max_rules_bytes :: nat
  cf_max_records :: nat
  cf_max_record_bytes :: nat
  cf_max_records_bytes :: nat
  cf_statement_version :: string
  cf_statement_changes :: "statement_change list"
  cf_reading_age :: nat
  cf_priority_catalog_version :: "string option"
  cf_priority_catalog_source :: "string option"
  cf_priority_kind_labels :: "string option list"
  cf_public_contact :: "string option"
  cf_ico_complaints_url :: "string option"
  cf_statement_proactive :: "string option"
  cf_statement_complaints :: "string option"
  cf_statement_children_primary :: "string option"
  cf_statement_children_priority :: "string option"
  cf_statement_children_other :: "string option"
  cf_unfounded_policy_version :: string

definition default_of :: "bound_key \<Rightarrow> nat" where
  "default_of k = the (bs_default (spec k))"

definition default_change :: statement_change where
  "default_change = \<lparr> sc_version = ''619.1'', sc_at = 1789689600,
     sc_summary = ''Initial local compliance surfaces; approvals pending'' \<rparr>"

definition default_settings :: settings where
  "default_settings =
     \<lparr> cf_deployment_mode = LocalMode,
       cf_intimate_margin_seconds = default_of BkIntimateMargin,
       cf_retention_months = default_of BkRetentionMonths,
       cf_max_tickets = default_of BkMaxTickets,
       cf_max_ticket_events = default_of BkMaxTicketEvents,
       cf_max_journal_bytes = default_of BkMaxJournalBytes,
       cf_max_payload_bytes = default_of BkMaxPayloadBytes,
       cf_max_rules = default_of BkMaxRules,
       cf_max_rules_bytes = default_of BkMaxRulesBytes,
       cf_max_records = default_of BkMaxRecords,
       cf_max_record_bytes = default_of BkMaxRecordBytes,
       cf_max_records_bytes = default_of BkMaxRecordsBytes,
       cf_statement_version = ''619.1'',
       cf_statement_changes = [default_change],
       cf_reading_age = default_of BkReadingAge,
       cf_priority_catalog_version = None,
       cf_priority_catalog_source = None,
       cf_priority_kind_labels = replicate 17 None,
       cf_public_contact = None,
       cf_ico_complaints_url = None,
       cf_statement_proactive = None,
       cf_statement_complaints = None,
       cf_statement_children_primary = None,
       cf_statement_children_priority = None,
       cf_statement_children_other = None,
       cf_unfounded_policy_version = ''619.1'' \<rparr>"

definition record_reservation_bytes :: "nat \<Rightarrow> nat \<Rightarrow> nat outcome" where
  "record_reservation_bytes used wrapper_bytes =
     res_bind (ok_or (checked_mul_u64 (bs_max (spec BkJournalRow)) 3) Capacity) (\<lambda>overhead.
     ok_or (Option.bind (checked_mul_u64 wrapper_bytes 2) (\<lambda>a.
            Option.bind (checked_add_u64 a used) (\<lambda>b.
            Option.bind (checked_add_u64 b overhead) (\<lambda>c.
            checked_add_u64 c (bs_min (spec BkReservedJournalBytes)))))) Capacity)"

definition range_checks :: "settings \<Rightarrow> (bound_key \<times> nat) list" where
  "range_checks c =
     [(BkIntimateMargin, cf_intimate_margin_seconds c),
      (BkRetentionMonths, cf_retention_months c),
      (BkMaxTickets, cf_max_tickets c),
      (BkMaxTicketEvents, cf_max_ticket_events c),
      (BkMaxJournalBytes, cf_max_journal_bytes c),
      (BkMaxPayloadBytes, cf_max_payload_bytes c),
      (BkMaxRules, cf_max_rules c),
      (BkMaxRulesBytes, cf_max_rules_bytes c),
      (BkMaxRecords, cf_max_records c),
      (BkMaxRecordBytes, cf_max_record_bytes c),
      (BkMaxRecordsBytes, cf_max_records_bytes c),
      (BkReadingAge, cf_reading_age c),
      (BkRecordHistory, length (cf_statement_changes c)),
      (BkPriorityKinds, length (cf_priority_kind_labels c))]"

definition validate_ranges :: "nat outcome \<Rightarrow> settings \<Rightarrow> unit outcome" where
  "validate_ranges initial_record_bytes c =
     res_then (res_fold (\<lambda>_ (k, n). validate_bound k n) () (range_checks c))
    (res_bind initial_record_bytes (\<lambda>initial.
     res_bind (map_err (record_reservation_bytes initial (cf_max_record_bytes c)) InvalidInput) (\<lambda>minimum.
     if minimum > cf_max_records_bytes c then Inl InvalidInput else Inr ())))"

fun validate_changes :: "chrono \<Rightarrow> int option \<Rightarrow> statement_change list \<Rightarrow> unit outcome" where
  "validate_changes C previous [] = Inr ()"
| "validate_changes C previous (ch # chs) =
     res_then (text_ok (sc_version ch) BkSlug SlugText)
    (res_then (text_ok (sc_summary ch) BkNarrative NarrativeText)
    (res_then (instant C (sc_at ch))
     (if (case previous of Some at \<Rightarrow> sc_at ch < at | None \<Rightarrow> False) then Inl InvalidInput
      else validate_changes C (Some (sc_at ch)) chs)))"

definition optional_texts :: "settings \<Rightarrow> (string option \<times> bound_key \<times> text_class) list" where
  "optional_texts c =
     [(cf_priority_catalog_version c, BkSlug, SlugText),
      (cf_priority_catalog_source c, BkNarrative, NarrativeText),
      (cf_public_contact c, BkContact, LabelText),
      (cf_statement_proactive c, BkNarrative, NarrativeText),
      (cf_statement_complaints c, BkNarrative, NarrativeText),
      (cf_statement_children_primary c, BkNarrative, NarrativeText),
      (cf_statement_children_priority c, BkNarrative, NarrativeText),
      (cf_statement_children_other c, BkNarrative, NarrativeText)]"

fun validate_labels :: "string list \<Rightarrow> string option list \<Rightarrow> unit outcome" where
  "validate_labels seen [] = Inr ()"
| "validate_labels seen (None # ls) = validate_labels seen ls"
| "validate_labels seen (Some l # ls) =
     res_then (text_ok l BkLabel LabelText)
       (if l \<in> set seen then Inl InvalidInput else validate_labels (l # seen) ls)"

definition validate_https :: "(string \<Rightarrow> parsed_url option) \<Rightarrow> string \<Rightarrow> unit outcome" where
  "validate_https url_parse raw =
     res_then (text_ok raw BkUrl LabelText)
    (res_bind (ok_or (url_parse raw) InvalidInput) (\<lambda>parsed.
     if pu_scheme parsed \<noteq> ''https''
        \<or> pu_host parsed = None
        \<or> pu_username parsed \<noteq> []
        \<or> pu_password parsed \<noteq> None
        \<or> pu_fragment parsed \<noteq> None
        \<or> pu_text parsed \<noteq> raw
        \<or> list_ex (\<lambda>c. is_ascii_whitespace_byte c \<or> c = CHR 0x5C) raw
     then Inl InvalidInput else Inr ()))"

definition validate_text ::
  "chrono \<Rightarrow> (string \<Rightarrow> parsed_url option) \<Rightarrow> settings \<Rightarrow> unit outcome" where
  "validate_text C url_parse c =
     res_then (text_ok (cf_statement_version c) BkSlug SlugText)
    (res_then (text_ok (cf_unfounded_policy_version c) BkSlug SlugText)
    (res_then (validate_changes C None (cf_statement_changes c))
     (if cf_statement_changes c = [] \<or> sc_version (last (cf_statement_changes c)) \<noteq> cf_statement_version c
      then Inl InvalidInput
      else
        res_then (res_fold (\<lambda>_ (v, key, cls). case v of Some s \<Rightarrow> text_ok s key cls | None \<Rightarrow> Inr ())
                    () (optional_texts c))
       (res_then (validate_labels [] (cf_priority_kind_labels c))
        (case cf_ico_complaints_url c of Some s \<Rightarrow> validate_https url_parse s | None \<Rightarrow> Inr ())))))"

section \<open>Lemmas\<close>

lemma res_fold_unit_Inr:
  "res_fold (\<lambda>_ x. f x) () xs = Inr u \<longleftrightarrow> (\<forall>x \<in> set xs. f x = Inr ())"
  by (induction xs) (auto simp: res_simps)

lemma validate_ranges_each:
  assumes "validate_ranges i c = Inr u" and "(k, n) \<in> set (range_checks c)"
  shows "bs_min (spec k) \<le> n \<and> n \<le> bs_max (spec k)"
proof -
  have "res_fold (\<lambda>_ x. case x of (k, n) \<Rightarrow> validate_bound k n) () (range_checks c) = Inr ()"
    using assms(1) by (auto simp: validate_ranges_def res_simps)
  then show ?thesis
    using assms(2) res_fold_unit_Inr [of "\<lambda>x. case x of (k, n) \<Rightarrow> validate_bound k n"]
    by (force simp: res_simps)
qed

lemma validate_ranges_retention: "validate_ranges i c = Inr u \<Longrightarrow> 36 \<le> cf_retention_months c"
  using validate_ranges_each [of i c u BkRetentionMonths "cf_retention_months c"]
  by (simp add: range_checks_def)

lemma validate_labels_none: "validate_labels seen (replicate n None) = Inr ()"
  by (induction n) simp_all

section \<open>Properties\<close>

text \<open>
  The default settings are valid: with the size of an empty record index up to a megabyte
  they pass the range and the text validation, so the service starts from its defaults.
\<close>

theorem default_settings_valid:
  assumes "i \<le> 1048576" and "ts_valid C 1789689600"
  shows "validate_ranges (Inr i) default_settings = Inr () \<and> validate_text C p default_settings = Inr ()"
proof
  have r: "res_fold (\<lambda>_ (k, n). validate_bound k n) () (range_checks default_settings) = Inr ()"
    by (simp add: range_checks_def default_settings_def default_of_def bound_eval)
  have "record_reservation_bytes i (default_of BkMaxRecordBytes) = Inr (2097152 + i + 24576 + 65536)"
    using assms(1)
    by (simp add: record_reservation_bytes_def default_of_def spec_rows bound_spec_of_def
        checked_mul_u64_def checked_add_u64_def)
  then show "validate_ranges (Inr i) default_settings = Inr ()"
    using assms(1) r
    by (simp add: validate_ranges_def) (simp add: default_settings_def default_of_def spec_rows bound_spec_of_def)
  have v: "text_ok ''619.1'' BkSlug SlugText = Inr ()"
    by (simp add: text_eval bound_eval)
  have s: "text_ok ''Initial local compliance surfaces; approvals pending'' BkNarrative NarrativeText = Inr ()"
    by (rule text_ok_printable) (simp_all add: bound_eval)
  show "validate_text C p default_settings = Inr ()"
    using assms(2) v s
    by (simp add: validate_text_def default_settings_def default_change_def optional_texts_def instant_def
        validate_labels_none)
qed

theorem default_settings_valid_witness:
  "validate_ranges (Inr 150) default_settings = Inr ()
   \<and> validate_text gregorian (\<lambda>_. None) default_settings = Inr ()"
  using default_settings_valid [of 150 gregorian "\<lambda>_. None"] by simp

end
