(* ===== verification/Listed.thy ===== *)
theory Listed
  imports Journal Config
begin

text \<open>
  The hash-only URL and host lists of \<open>compliance/listed.rs\<close>. A \<open>BTreeSet\<close> is a set; the
  request-local host cache is a map that \<open>denies\<close> threads. \<open>Url::parse\<close>, the digest and the
  decoding of the configured file are parameters.
\<close>

section \<open>Data\<close>

record listed_data =
  ld_version :: string
  ld_url_hashes :: "hex64 list"
  ld_host_hashes :: "hex64 list"

record listed_matcher =
  lx_data :: listed_data
  lx_urls :: "hex64 set"
  lx_hosts :: "hex64 set"

type_synonym host_cache = "string \<rightharpoonup> hex64 list"

record listed_file =
  lf_format_version :: nat
  lf_data :: listed_data

section \<open>Operations\<close>

definition listed_empty :: listed_matcher where
  "listed_empty =
     \<lparr> lx_data = \<lparr> ld_version = [], ld_url_hashes = [], ld_host_hashes = [] \<rparr>, lx_urls = {}, lx_hosts = {} \<rparr>"

definition from_data :: "listed_data \<Rightarrow> nat \<Rightarrow> listed_matcher outcome" where
  "from_data data cap =
     res_then
       (if ld_version data = [] then
          (if ld_url_hashes data \<noteq> [] \<or> ld_host_hashes data \<noteq> [] then Inl RulesUnavailable else Inr ())
        else map_err (text_ok (ld_version data) BkSlug SlugText) RulesUnavailable)
    (res_bind (ok_or (checked_add_u64 (length (ld_url_hashes data)) (length (ld_host_hashes data)))
                 RulesUnavailable) (\<lambda>count.
     res_then (map_err (validate_range count 0 (min cap (bs_max (spec BkListEntries)))) RulesUnavailable)
      (if \<not> strictly_ascending (\<lambda>h. h) (ld_url_hashes data)
          \<or> \<not> strictly_ascending (\<lambda>h. h) (ld_host_hashes data)
       then Inl RulesUnavailable
       else
         let urls = set (ld_url_hashes data); hosts = set (ld_host_hashes data) in
         if urls \<inter> hosts \<noteq> {} then Inl RulesUnavailable
         else Inr \<lparr> lx_data = data, lx_urls = urls, lx_hosts = hosts \<rparr>)))"

definition listed_load ::
  "(string \<Rightarrow> listed_file option) \<Rightarrow> settings \<Rightarrow> string option \<Rightarrow> listed_matcher outcome" where
  "listed_load decode cfg configured =
     (case configured of
        None \<Rightarrow> Inr listed_empty
      | Some bytes \<Rightarrow>
          (if length bytes > min (bs_max (spec BkListFile)) (cf_max_rules_bytes cfg) then Inl RulesUnavailable
           else
             res_bind (ok_or (decode bytes) RulesUnavailable) (\<lambda>loaded.
             if lf_format_version loaded \<noteq> 1 then Inl RulesUnavailable
             else
               res_then (map_err (text_ok (ld_version (lf_data loaded)) BkSlug SlugText) RulesUnavailable)
                 (from_data (lf_data loaded) (cf_max_rules cfg)))))"

definition listed_metadata_of :: "listed_matcher \<Rightarrow> listed_metadata" where
  "listed_metadata_of m =
     \<lparr> lm_version = ld_version (lx_data m), lm_url_count = card (lx_urls m), lm_host_count = card (lx_hosts m) \<rparr>"

text \<open>The loop pushes the hash of the host and then of every parent domain.\<close>

lemma split_once_shorter: "split_once d s = Some (a, b) \<Longrightarrow> length b < length s"
  by (drule split_once_Some) simp

function host_suffixes :: "string \<Rightarrow> bool \<Rightarrow> string list" where
  "host_suffixes host domain =
     host # (if domain then (case split_once (CHR ''.'') host of
                               None \<Rightarrow> [] | Some (_, parent) \<Rightarrow> host_suffixes parent domain)
             else [])"
  by pat_completeness auto
termination
  by (relation "measure (\<lambda>(h, d). length h)") (auto dest: split_once_shorter)

declare host_suffixes.simps [simp del]

definition host_hashes :: "(string \<Rightarrow> string) \<Rightarrow> string \<Rightarrow> bool \<Rightarrow> hex64 list" where
  "host_hashes digest host domain =
     map (\<lambda>suffix. Hex64 (sha256 digest [suffix])) (host_suffixes host domain)"

definition strip_dot :: "string \<Rightarrow> string" where
  "strip_dot s = (if s \<noteq> [] \<and> last s = CHR ''.'' then butlast s else s)"

fun host_spelling :: "url_host \<Rightarrow> string \<times> bool" where
  "host_spelling (HostDomain s) = (strip_dot s, True)"
| "host_spelling (HostAddress s) = (s, False)"

definition denies ::
  "(string \<Rightarrow> string) \<Rightarrow> (string \<Rightarrow> parsed_url option) \<Rightarrow> listed_matcher \<Rightarrow> document_key \<Rightarrow> string
   \<Rightarrow> host_cache \<Rightarrow> bool \<times> host_cache" where
  "denies digest url_parse m document canonical_url cache =
     (if Hex64 (document_key_as_str document) \<in> lx_urls m then (True, cache)
      else case url_parse canonical_url of
             None \<Rightarrow> (True, cache)
           | Some parsed \<Rightarrow>
               (case pu_host parsed of
                  None \<Rightarrow> (True, cache)
                | Some host \<Rightarrow>
                    (let (spelling, domain) = host_spelling host;
                         hashes = (case cache spelling of Some hs \<Rightarrow> hs | None \<Rightarrow> host_hashes digest spelling domain);
                         cache' = cache(spelling \<mapsto> hashes)
                     in if hashes \<noteq> [] \<and> hd hashes \<in> lx_hosts m then (True, cache')
                        else (list_ex (\<lambda>h. h \<in> lx_hosts m) (drop 1 hashes), cache'))))"

section \<open>Lemmas\<close>

lemma host_suffixes_Cons: "\<exists>rest. host_suffixes host domain = host # rest"
  by (rule exI, rule host_suffixes.simps)

lemma host_suffixes_parent:
  "set (host_suffixes host True) = insert host {s. \<exists>label. host = label @ CHR ''.'' # s} "
proof (induction "length host" arbitrary: host rule: less_induct)
  case less
  show ?case
  proof (cases "split_once (CHR ''.'') host")
    case None
    then have "CHR ''.'' \<notin> set host" by (simp add: split_once_def split: if_splits)
    with None show ?thesis by (auto simp: host_suffixes.simps [of host])
  next
    case (Some ab)
    obtain a b where ab: "ab = (a, b)" by force
    with Some have h: "host = a @ CHR ''.'' # b" "CHR ''.'' \<notin> set a" using split_once_Some by auto
    have "set (host_suffixes host True) = insert host (set (host_suffixes b True))"
      using Some ab by (simp add: host_suffixes.simps [of host])
    also have "\<dots> = insert host (insert b {s. \<exists>label. b = label @ CHR ''.'' # s})"
      using less [of b] h by simp
    also have "\<dots> = insert host {s. \<exists>label. host = label @ CHR ''.'' # s}"
    proof -
      have "(\<exists>label. host = label @ CHR ''.'' # s) \<longleftrightarrow> s = b \<or> (\<exists>label. b = label @ CHR ''.'' # s)" for s
        using h by (auto simp: append_eq_append_conv2 append_eq_Cons_conv Cons_eq_append_conv)
      then show ?thesis by auto
    qed
    finally show ?thesis .
  qed
qed

text \<open>A cache is coherent when each entry holds the hashes of its host.\<close>

definition cache_ok :: "(string \<Rightarrow> string) \<Rightarrow> (string \<Rightarrow> bool) \<Rightarrow> host_cache \<Rightarrow> bool" where
  "cache_ok digest domain_of cache \<longleftrightarrow>
     (\<forall>spelling hs. cache spelling = Some hs \<longrightarrow> hs = host_hashes digest spelling (domain_of spelling))"

lemma host_hashes_nonempty: "host_hashes digest h d \<noteq> []"
  using host_suffixes_Cons [of h d] by (auto simp: host_hashes_def)

lemma hd_or_tail: "xs \<noteq> [] \<Longrightarrow> hd xs \<in> S \<or> list_ex (\<lambda>h. h \<in> S) (drop 1 xs) \<longleftrightarrow> (\<exists>h \<in> set xs. h \<in> S)"
  by (cases xs) (auto simp: list_ex_iff)

lemma host_suffixes_address: "set (host_suffixes host False) = {host}"
  by (simp add: host_suffixes.simps)

lemma denies_host:
  assumes "cache_ok digest domain_of cache" and "domain_of (fst (host_spelling host)) = snd (host_spelling host)"
    and "Hex64 (document_key_as_str document) \<notin> lx_urls m" and "url_parse url = Some parsed"
    and "pu_host parsed = Some host"
  shows denies_host_iff: "fst (denies digest url_parse m document url cache) \<longleftrightarrow>
      (\<exists>h \<in> set (host_hashes digest (fst (host_spelling host)) (snd (host_spelling host))). h \<in> lx_hosts m)"
    and denies_host_cache: "cache_ok digest domain_of (snd (denies digest url_parse m document url cache))"
proof -
  obtain spelling domain where sp: "host_spelling host = (spelling, domain)" by force
  define hs where "hs = host_hashes digest spelling domain"
  have cached: "(case cache spelling of Some hs \<Rightarrow> hs | None \<Rightarrow> host_hashes digest spelling domain) = hs"
    using assms(1,2) sp by (auto simp: cache_ok_def hs_def split: option.splits)
  have d: "denies digest url_parse m document url cache =
      (if hs \<noteq> [] \<and> hd hs \<in> lx_hosts m then (True, cache(spelling \<mapsto> hs))
       else (list_ex (\<lambda>h. h \<in> lx_hosts m) (drop 1 hs), cache(spelling \<mapsto> hs)))"
    using assms(3-5) cached sp by (simp add: denies_def Let_def)
  have "hs \<noteq> []" by (simp add: hs_def host_hashes_nonempty)
  with d hd_or_tail [of hs "lx_hosts m"]
  show "fst (denies digest url_parse m document url cache) \<longleftrightarrow>
      (\<exists>h \<in> set (host_hashes digest (fst (host_spelling host)) (snd (host_spelling host))). h \<in> lx_hosts m)"
    by (auto simp: sp hs_def [symmetric])
  show "cache_ok digest domain_of (snd (denies digest url_parse m document url cache))"
    using d assms(1,2) sp by (auto simp: cache_ok_def hs_def)
qed

section \<open>Properties\<close>

text \<open>
  what the list denies. With a coherent cache a candidate is denied exactly when its document hash
  is listed, its URL has no parsable host, or the hash of its host or of a parent domain at a
  DNS label boundary is listed (an address has no parents); the answer does not depend on
  what the cache already holds, and the cache stays coherent.
\<close>

theorem denies_iff:
  assumes "cache_ok digest domain_of cache"
    and "\<And>parsed host. url_parse url = Some parsed \<Longrightarrow> pu_host parsed = Some host \<Longrightarrow>
      domain_of (fst (host_spelling host)) = snd (host_spelling host)"
  shows "(fst (denies digest url_parse m document url cache) \<longleftrightarrow>
      Hex64 (document_key_as_str document) \<in> lx_urls m
      \<or> Option.bind (url_parse url) pu_host = None
      \<or> (\<exists>parsed name. url_parse url = Some parsed \<and> pu_host parsed = Some (HostAddress name)
            \<and> Hex64 (sha256 digest [name]) \<in> lx_hosts m)
      \<or> (\<exists>parsed name label suffix. url_parse url = Some parsed \<and> pu_host parsed = Some (HostDomain name)
            \<and> (strip_dot name = suffix \<or> strip_dot name = label @ CHR ''.'' # suffix)
            \<and> Hex64 (sha256 digest [suffix]) \<in> lx_hosts m))
    \<and> cache_ok digest domain_of (snd (denies digest url_parse m document url cache))"
proof (cases "Hex64 (document_key_as_str document) \<in> lx_urls m")
  case True
  then show ?thesis using assms(1) by (simp add: denies_def)
next
  case False
  show ?thesis
  proof (cases "Option.bind (url_parse url) pu_host")
    case None
    then show ?thesis using assms(1) False by (auto simp: denies_def split: option.splits)
  next
    case (Some host)
    then obtain parsed where p: "url_parse url = Some parsed" "pu_host parsed = Some host"
      by (cases "url_parse url") auto
    note d = denies_host [of digest domain_of cache host document m url_parse url parsed,
        OF assms(1) assms(2) [OF p] False p]
    show ?thesis
    proof (cases host)
      case (HostDomain name)
      have "fst (denies digest url_parse m document url cache) \<longleftrightarrow>
          (\<exists>s \<in> set (host_suffixes (strip_dot name) True). Hex64 (sha256 digest [s]) \<in> lx_hosts m)"
        using d(1) HostDomain by (auto simp: host_hashes_def)
      then show ?thesis
        using d(2) p False HostDomain by (auto simp: host_suffixes_parent)
    next
      case (HostAddress name)
      then show ?thesis
        using d p False by (auto simp: host_hashes_def host_suffixes_address)
    qed
  qed
qed

definition demo_url :: "string \<Rightarrow> parsed_url option" where
  "demo_url s = Some \<lparr> pu_scheme = ''https'', pu_host = Some (HostDomain ''a.bad.example''), pu_username = [],
     pu_password = None, pu_fragment = None, pu_text = s \<rparr>"

definition demo_matcher :: listed_matcher where
  "demo_matcher = \<lparr> lx_data = lx_data listed_empty, lx_urls = {},
     lx_hosts = {Hex64 (sha256 (\<lambda>s. s) [''bad.example''])} \<rparr>"

theorem denies_iff_witness:
  "fst (denies (\<lambda>s. s) demo_url demo_matcher (DocumentKey (Hex64 [])) ''https://a.bad.example/'' (\<lambda>_. None))"
proof -
  define u where "u = ''https://a.bad.example/''"
  have c: "cache_ok (\<lambda>s. s) (\<lambda>_. True) (\<lambda>_. None)" by (simp add: cache_ok_def)
  have h: "\<And>parsed host. demo_url u = Some parsed \<Longrightarrow> pu_host parsed = Some host \<Longrightarrow> True = snd (host_spelling host)"
    by (auto simp: demo_url_def)
  have "\<exists>parsed name label suffix. demo_url u = Some parsed \<and> pu_host parsed = Some (HostDomain name)
      \<and> (strip_dot name = suffix \<or> strip_dot name = label @ CHR ''.'' # suffix)
      \<and> Hex64 (sha256 (\<lambda>s. s) [suffix]) \<in> lx_hosts demo_matcher"
    by (rule exI [of _ "the (demo_url u)"], rule exI [of _ "''a.bad.example''"], rule exI [of _ "''a''"],
        rule exI [of _ "''bad.example''"]) (simp add: demo_url_def demo_matcher_def strip_dot_def)
  then show ?thesis
    unfolding u_def [symmetric]
    by (intro denies_iff [where domain_of = "\<lambda>_. True", THEN conjunct1, THEN iffD2] c h disjI2)
qed

end
