(* ===== verification/Rules.thy ===== *)
theory Rules
  imports Listed
begin

text \<open>
  The serving rules of \<open>compliance/rules.rs\<close>: rules, reversal markers, the document index, the
  serving gate, deltas and the store with its atomic snapshot replacement. The tokenizer, the
  Unicode alphanumeric table, the digest, \<open>Url::parse\<close> and the JSON encodings are parameters.
  The store is explicit: the live snapshot, the bytes of \<open>snapshot.json\<close> and the observed clock.
\<close>

section \<open>Names\<close>

record name_set =
  ns_salt :: hex64
  ns_tokens :: "hex64 list"

definition btree_set :: "'a::linorder list \<Rightarrow> 'a list" where
  "btree_set xs = sort (remdups xs)"

definition name_domain :: string where
  "name_domain = ''AVA619-NAME-v1'' @ [CHR 0x00]"

definition token_hash :: "(string \<Rightarrow> string) \<Rightarrow> hex64 \<Rightarrow> string \<Rightarrow> hex64" where
  "token_hash digest salt token =
     Hex64 (sha256 digest [name_domain, decode_pairs (hex64_as_str salt), token])"

definition query_tokens :: "(string \<Rightarrow> string list) \<Rightarrow> string \<Rightarrow> string list" where
  "query_tokens tokenize s = btree_set (tokenize (CHR '' '' # s))"

definition name_tokens ::
  "(string \<Rightarrow> string list) \<Rightarrow> (nat \<Rightarrow> bool) \<Rightarrow> string \<Rightarrow> string list outcome" where
  "name_tokens tokenize alphanumeric s =
     res_then (text_ok s BkName LabelText)
      (let tokens = query_tokens tokenize s in
       res_then (validate_bound BkNameTokens (length tokens))
         (if \<not> list_ex (\<lambda>token. list_ex alphanumeric (chars token)) tokens then Inl InvalidInput
          else Inr tokens))"

definition name_set_new ::
  "(string \<Rightarrow> string) \<Rightarrow> (string \<Rightarrow> string list) \<Rightarrow> (nat \<Rightarrow> bool) \<Rightarrow> string \<Rightarrow> hex64 \<Rightarrow> name_set outcome" where
  "name_set_new digest tokenize alphanumeric name salt =
     res_bind (name_tokens tokenize alphanumeric name) (\<lambda>normalized.
       Inr \<lparr> ns_salt = salt, ns_tokens = btree_set (map (token_hash digest salt) normalized) \<rparr>)"

definition name_set_matches :: "(string \<Rightarrow> string) \<Rightarrow> name_set \<Rightarrow> string list \<Rightarrow> bool" where
  "name_set_matches digest ns query =
     list_all (\<lambda>t. t \<in> set (map (token_hash digest (ns_salt ns)) query)) (ns_tokens ns)"

definition name_set_validate :: "name_set \<Rightarrow> unit outcome" where
  "name_set_validate ns =
     res_then (validate_bound BkNameTokens (length (ns_tokens ns)))
       (if \<not> strictly_ascending (\<lambda>t. t) (ns_tokens ns) then Inl InvalidInput else Inr ())"

section \<open>Snapshots\<close>

datatype rule_kind = GlobalRule | NameRule

record rule =
  rl_rule_id :: string
  rl_ticket_id :: ticket_id
  rl_document_id :: document_key
  rl_ground :: ground
  rl_kind :: rule_kind
  rl_effective_at :: int
  rl_intent_sequence :: nat
  rl_name_sets :: "name_set list"

record marker =
  mk_document_id :: document_key
  mk_ground :: ground
  mk_reversed_at :: int
  mk_intent_sequence :: nat

record snapshot_file =
  sf_format_version :: nat
  sf_generation :: nat
  sf_rules :: "rule list"
  sf_do_not_reapply :: "marker list"
  sf_listed :: listed_data

record rules_snapshot =
  sn_file :: snapshot_file
  sn_by_document :: "document_key \<rightharpoonup> nat list"
  sn_listed :: listed_matcher
  sn_unavailable :: bool

record renv =
  rn_digest :: "string \<Rightarrow> string"
  rn_url_parse :: "string \<Rightarrow> parsed_url option"
  rn_chrono :: chrono
  rn_settings :: settings
  rn_encode :: "snapshot_file \<Rightarrow> string option"
  rn_decode :: "string \<Rightarrow> snapshot_file option"
  rn_encode_listed :: "listed_data \<Rightarrow> string option"

definition rule_id :: "ticket_id \<Rightarrow> document_key \<Rightarrow> ground \<Rightarrow> string" where
  "rule_id ticket document ground =
     ticket_id_as_str ticket @ '':'' @ document_key_as_str document @ '':'' @ ground_as_str ground"

definition marker_key :: "marker \<Rightarrow> document_key \<times> string" where
  "marker_key m = (mk_document_id m, ground_as_str (mk_ground m))"

definition validate_rule :: "chrono \<Rightarrow> rule \<Rightarrow> unit outcome" where
  "validate_rule C r =
     (if rl_rule_id r \<noteq> rule_id (rl_ticket_id r) (rl_document_id r) (rl_ground r)
         \<or> (rl_kind r = NameRule) \<noteq> (rl_ground r = GdDataDelisting)
         \<or> (rl_kind r = GlobalRule \<and> rl_name_sets r \<noteq> [])
      then Inl RulesUnavailable
      else
        res_then (instant C (rl_effective_at r))
       (res_then (validate_range (rl_intent_sequence r) 1 u64_max)
       (res_then (if rl_kind r = NameRule then validate_bound BkRequiredNames (length (rl_name_sets r)) else Inr ())
         (res_fold (\<lambda>_ ns. name_set_validate ns) () (rl_name_sets r)))))"

definition validate_marker :: "chrono \<Rightarrow> marker \<Rightarrow> unit outcome" where
  "validate_marker C m =
     res_then (instant C (mk_reversed_at m)) (validate_range (mk_intent_sequence m) 1 u64_max)"

definition validate_snapshot :: "chrono \<Rightarrow> snapshot_file \<Rightarrow> unit outcome" where
  "validate_snapshot C f =
     (if sf_format_version f \<noteq> 1
         \<or> \<not> strictly_ascending rl_rule_id (sf_rules f)
         \<or> \<not> strictly_ascending marker_key (sf_do_not_reapply f)
      then Inl RulesUnavailable
      else
        res_then (res_fold (\<lambda>_ r. validate_rule C r) () (sf_rules f))
          (res_fold (\<lambda>_ m. validate_marker C m) () (sf_do_not_reapply f)))"

definition index_rules :: "rule list \<Rightarrow> document_key \<rightharpoonup> nat list" where
  "index_rules rules =
     fold (\<lambda>(i, r) m. m(rl_document_id r \<mapsto> (case m (rl_document_id r) of None \<Rightarrow> [i] | Some is \<Rightarrow> is @ [i])))
       (List.enumerate 0 rules) Map.empty"

definition rebuild :: "renv \<Rightarrow> snapshot_file \<Rightarrow> rules_snapshot outcome" where
  "rebuild R f =
     res_then (validate_snapshot (rn_chrono R) f)
    (res_bind (from_data (sf_listed f) (cf_max_rules (rn_settings R))) (\<lambda>listed.
     Inr \<lparr> sn_file = f, sn_by_document = index_rules (sf_rules f), sn_listed = listed, sn_unavailable = False \<rparr>))"

section \<open>The serving gate\<close>

definition rule_applies :: "(string \<Rightarrow> string) \<Rightarrow> rule \<Rightarrow> string list \<Rightarrow> int \<Rightarrow> bool" where
  "rule_applies digest r query now \<longleftrightarrow>
     now \<ge> rl_effective_at r
     \<and> (case rl_kind r of GlobalRule \<Rightarrow> True
          | NameRule \<Rightarrow> list_ex (\<lambda>ns. name_set_matches digest ns query) (rl_name_sets r))"

definition allows ::
  "renv \<Rightarrow> rules_snapshot \<Rightarrow> document_key \<Rightarrow> string \<Rightarrow> string list \<Rightarrow> int \<Rightarrow> host_cache \<Rightarrow> bool \<times> host_cache" where
  "allows R s document canonical_url query now hosts =
     (if sn_unavailable s then (False, hosts)
      else
        (case denies (rn_digest R) (rn_url_parse R) (sn_listed s) document canonical_url hosts of
           (True, hosts') \<Rightarrow> (False, hosts')
         | (False, hosts') \<Rightarrow>
             (case sn_by_document s document of
                None \<Rightarrow> (True, hosts')
              | Some indices \<Rightarrow>
                  (\<not> list_ex (\<lambda>i. rule_applies (rn_digest R) (sf_rules (sn_file s) ! i) query now) indices, hosts'))))"

definition has_intent :: "rules_snapshot \<Rightarrow> ticket_id \<Rightarrow> document_key list \<Rightarrow> ground \<Rightarrow> nat \<Rightarrow> bool" where
  "has_intent s ticket documents ground sequence =
     list_all (\<lambda>document. list_ex (\<lambda>r. rl_ticket_id r = ticket \<and> rl_document_id r = document
          \<and> rl_ground r = ground \<and> rl_intent_sequence r = sequence) (sf_rules (sn_file s))) documents"

definition marked_in :: "marker list \<Rightarrow> document_key \<Rightarrow> ground \<Rightarrow> bool" where
  "marked_in ms document ground = binary_search_is_ok marker_key (document, ground_as_str ground) ms"

definition marked :: "rules_snapshot \<Rightarrow> document_key \<Rightarrow> ground \<Rightarrow> bool" where
  "marked s document ground = marked_in (sf_do_not_reapply (sn_file s)) document ground"

section \<open>Deltas\<close>

datatype rule_delta =
    DeltaInstall (dl_ticket: ticket_id) (dl_documents: "document_key list") (dl_ground: ground)
      (dl_effective_at: int) (dl_sequence: nat) (dl_names: "name_set list")
  | DeltaRemove (dl_ticket: ticket_id)
  | DeltaReverse (dl_ticket: ticket_id) (dl_documents: "document_key list") (dl_ground: ground)
      (dl_at: int) (dl_sequence: nat)

fun verifies :: "rules_snapshot \<Rightarrow> rule_delta \<Rightarrow> bool" where
  "verifies s (DeltaInstall ticket documents ground effective_at sequence names) =
     list_all (\<lambda>document.
        case sn_by_document s document of
          None \<Rightarrow> False
        | Some indices \<Rightarrow>
            list_ex (\<lambda>i. let r = sf_rules (sn_file s) ! i in
               rl_ticket_id r = ticket \<and> rl_ground r = ground \<and> rl_intent_sequence r = sequence
               \<and> rl_effective_at r \<le> effective_at \<and> rl_name_sets r = names) indices) documents"
| "verifies s (DeltaRemove ticket) = (\<not> list_ex (\<lambda>r. rl_ticket_id r = ticket) (sf_rules (sn_file s)))"
| "verifies s (DeltaReverse ticket documents ground at sequence) =
     (\<not> list_ex (\<lambda>r. rl_ticket_id r = ticket) (sf_rules (sn_file s))
      \<and> list_all (\<lambda>document. marked s document ground) documents)"

definition install_rule ::
  "ticket_id \<Rightarrow> ground \<Rightarrow> int \<Rightarrow> nat \<Rightarrow> name_set list \<Rightarrow> marker list \<Rightarrow> rule list \<Rightarrow> document_key
   \<Rightarrow> rule list outcome" where
  "install_rule ticket ground effective_at sequence names markers rules document =
     (if marked_in markers document ground then Inl InvalidTransition
      else
        let id = rule_id ticket document ground;
            earlier = (case List.find (\<lambda>r. rl_rule_id r = id) rules of
                         Some r \<Rightarrow> rl_effective_at r | None \<Rightarrow> effective_at)
        in Inr (filter (\<lambda>r. rl_rule_id r \<noteq> id) rules
             @ [\<lparr> rl_rule_id = id, rl_ticket_id = ticket, rl_document_id = document, rl_ground = ground,
                  rl_kind = (if names = [] then GlobalRule else NameRule),
                  rl_effective_at = min earlier effective_at, rl_intent_sequence = sequence,
                  rl_name_sets = names \<rparr>]))"

definition mark_document :: "ground \<Rightarrow> int \<Rightarrow> nat \<Rightarrow> marker list \<Rightarrow> document_key \<Rightarrow> marker list" where
  "mark_document ground at sequence ms document =
     (if marked_in ms document ground then ms
      else sort_key marker_key (ms @ [\<lparr> mk_document_id = document, mk_ground = ground, mk_reversed_at = at,
                                       mk_intent_sequence = sequence \<rparr>]))"

fun apply_delta :: "snapshot_file \<Rightarrow> rule_delta \<Rightarrow> snapshot_file outcome" where
  "apply_delta f (DeltaInstall ticket documents ground effective_at sequence names) =
     res_bind (res_fold (install_rule ticket ground effective_at sequence names (sf_do_not_reapply f))
                 (sf_rules f) documents) (\<lambda>rules.
     Inr (f\<lparr> sf_rules := sort_key rl_rule_id rules \<rparr>))"
| "apply_delta f (DeltaRemove ticket) =
     Inr (f\<lparr> sf_rules := sort_key rl_rule_id (filter (\<lambda>r. rl_ticket_id r \<noteq> ticket) (sf_rules f)) \<rparr>)"
| "apply_delta f (DeltaReverse ticket documents ground at sequence) =
     Inr (f\<lparr> sf_rules := sort_key rl_rule_id (filter (\<lambda>r. rl_ticket_id r \<noteq> ticket) (sf_rules f)),
             sf_do_not_reapply := foldl (mark_document ground at sequence) (sf_do_not_reapply f) documents \<rparr>)"

section \<open>The store\<close>

record prepared_rules =
  pr_snapshot :: rules_snapshot
  pr_bytes :: string

record rules_store =
  st_state :: rules_snapshot
  st_disk :: "string option"
  st_observed_utc :: int

definition prepare_snapshot :: "renv \<Rightarrow> rules_snapshot \<Rightarrow> prepared_rules outcome" where
  "prepare_snapshot R s =
     (let f = sn_file s in
      res_bind (res_fold (\<lambda>sum n. ok_or (checked_add_u64 sum n) Capacity) 0
         [length (sf_rules f), length (sf_do_not_reapply f), length (ld_url_hashes (sf_listed f)),
          length (ld_host_hashes (sf_listed f))]) (\<lambda>count.
      res_then (reserve 0 count (cf_max_rules (rn_settings R)) 0)
     (res_bind (ok_or (rn_encode R f) RulesUnavailable) (\<lambda>b.
      let bytes = b @ [newline] in
      res_then (reserve 0 (length bytes) (cf_max_rules_bytes (rn_settings R)) 0)
        (Inr \<lparr> pr_snapshot = s, pr_bytes = bytes \<rparr>)))))"

definition prepare_delta :: "renv \<Rightarrow> rules_snapshot \<Rightarrow> rule_delta \<Rightarrow> prepared_rules outcome" where
  "prepare_delta R s delta =
     (if sn_unavailable s then Inl RulesUnavailable
      else
        res_bind (apply_delta (sn_file s) delta) (\<lambda>f.
        res_bind (ok_or (checked_add_u64 (sf_generation f) 1) Capacity) (\<lambda>generation.
        res_bind (rebuild R (f\<lparr> sf_generation := generation \<rparr>)) (\<lambda>candidate.
        prepare_snapshot R candidate))))"

text \<open>How the replacement of the snapshot file ends.\<close>

datatype persist_end = PersistOk | PersistError bool | PersistPanic bool

definition persist :: "persist_end \<Rightarrow> string \<Rightarrow> string option \<Rightarrow> string option" where
  "persist e bytes old =
     (case e of
        PersistOk \<Rightarrow> Some bytes
      | PersistError renamed \<Rightarrow> if renamed then Some bytes else old
      | PersistPanic renamed \<Rightarrow> if renamed then Some bytes else old)"

definition commit :: "persist_end \<Rightarrow> rules_store \<Rightarrow> prepared_rules \<Rightarrow> unit outcome \<times> rules_store" where
  "commit e st p =
     (if sn_unavailable (st_state st) then (Inl RulesUnavailable, st)
      else
        let st1 = st\<lparr> st_disk := persist e (pr_bytes p) (st_disk st) \<rparr> in
        case e of
          PersistOk \<Rightarrow> (Inr (), st1\<lparr> st_state := pr_snapshot p \<rparr>)
        | PersistError renamed \<Rightarrow>
            (Inl RulesUnavailable,
             if renamed then st1\<lparr> st_state := (st_state st)\<lparr> sn_unavailable := True \<rparr> \<rparr> else st1)
        | PersistPanic _ \<Rightarrow>
            (Inl RulesUnavailable, st1\<lparr> st_state := (st_state st)\<lparr> sn_unavailable := True \<rparr> \<rparr>))"

definition serving_now :: "rules_store \<Rightarrow> int \<Rightarrow> int \<times> rules_store" where
  "serving_now st now =
     (max (st_observed_utc st) now, st\<lparr> st_observed_utc := max (st_observed_utc st) now \<rparr>)"

definition read_snapshot :: "renv \<Rightarrow> string \<Rightarrow> snapshot_file outcome" where
  "read_snapshot R bytes =
     (if length bytes > cf_max_rules_bytes (rn_settings R) then Inl RulesUnavailable
      else
        res_bind (ok_or (rn_decode R bytes) RulesUnavailable) (\<lambda>f.
        res_bind (ok_or (rn_encode R f) RulesUnavailable) (\<lambda>b.
        if bytes \<noteq> b @ [newline] then Inl RulesUnavailable else Inr f)))"

definition open_rules :: "renv \<Rightarrow> bool \<Rightarrow> int \<Rightarrow> listed_matcher \<Rightarrow> string option \<Rightarrow> rules_store outcome" where
  "open_rules R persist_ok now listed disk =
     res_bind
       (case disk of
          None \<Rightarrow> Inr \<lparr> sf_format_version = 1, sf_generation = 0, sf_rules = [], sf_do_not_reapply = [],
                        sf_listed = lx_data listed \<rparr>
        | Some bytes \<Rightarrow> read_snapshot R bytes) (\<lambda>f.
     res_then (rebuild R f)
    (res_bind (ok_or (rn_encode_listed R (sf_listed f)) RulesUnavailable) (\<lambda>a.
     res_bind (ok_or (rn_encode_listed R (lx_data listed)) RulesUnavailable) (\<lambda>b.
     let list_changed = (a \<noteq> b); f1 = f\<lparr> sf_listed := lx_data listed \<rparr> in
     res_bind (if list_changed then ok_or (checked_add_u64 (sf_generation f1) 1) RulesUnavailable
               else Inr (sf_generation f1)) (\<lambda>generation.
     res_bind (rebuild R (f1\<lparr> sf_generation := generation \<rparr>)) (\<lambda>s.
     res_bind (prepare_snapshot R s) (\<lambda>p.
     if disk = None \<or> list_changed then
       (if persist_ok then Inr \<lparr> st_state = pr_snapshot p, st_disk = Some (pr_bytes p), st_observed_utc = now \<rparr>
        else Inl RulesUnavailable)
     else Inr \<lparr> st_state = pr_snapshot p, st_disk = disk, st_observed_utc = now \<rparr>)))))))"

end
