(* ===== verification/Transitions.thy ===== *)
theory Transitions
  imports Journal_Row Config
begin

text \<open>
  The ticket lifecycle of \<open>compliance/transitions.rs\<close>: the successor table, the statutory
  eligibility guards and the reducer that replays a ticket's rows. A \<open>BTreeMap\<close> is an
  association list in key order. \<open>apply_row\<close> is \<open>Ticket::apply\<close>; its callers drop the ticket when
  it fails, so the failure carries no ticket.
\<close>

section \<open>Data\<close>

record milestones =
  ms_received_at :: int
  ms_acknowledged_at :: "int option"
  ms_identity_pending_at :: "int option"
  ms_queued_at :: "int option"
  ms_decided_at :: "int option"
  ms_actioned_at :: "int option"
  ms_appealed_at :: "int option"
  ms_reversed_at :: "int option"
  ms_upheld_at :: "int option"
  ms_closed_at :: "int option"

record ticket =
  tk_id :: ticket_id
  tk_route :: route
  tk_requester :: requester_type
  tk_state :: ticket_state
  tk_times :: milestones
  tk_relevant_at :: int
  tk_pending_evidence :: "identity_event option"
  tk_extended_epoch :: "int option"
  tk_decision :: "decision_kind option"
  tk_ground :: "ground option"
  tk_pending :: "journal_row option"
  tk_provisional_committed :: bool
  tk_references :: "(nat \<times> string) list"
  tk_purged :: bool
  tk_events :: nat
  tk_last_at :: int

section \<open>Eligibility\<close>

definition successor_option :: "ticket_state \<Rightarrow> event_name \<Rightarrow> ticket_state option" where
  "successor_option state event =
     (case event of
        EvAcknowledged \<Rightarrow> if state = StReceived then Some StAcknowledged else None
      | EvQueued \<Rightarrow> if state = StAcknowledged then Some StQueued else None
      | EvIdentityRequested \<Rightarrow> if state = StQueued then Some StIdentityPending else None
      | EvClarificationRequested \<Rightarrow> if state = StQueued then Some StIdentityPending else None
      | EvIdentityConfirmed \<Rightarrow> if state = StIdentityPending then Some StQueued else None
      | EvClarificationReceived \<Rightarrow> if state = StIdentityPending then Some StQueued else None
      | EvDecided \<Rightarrow> if state = StQueued then Some StDecided else None
      | EvActioned \<Rightarrow> if state = StDecided then Some StActioned else None
      | EvAppealed \<Rightarrow> if state \<in> {StActioned, StDecided} then Some StAppealed else None
      | EvReversed \<Rightarrow> if state = StAppealed then Some StReversed else None
      | EvUpheld \<Rightarrow> if state = StAppealed then Some StUpheld else None
      | EvClosed \<Rightarrow> if state \<in> {StDecided, StActioned, StReversed, StUpheld} then Some StClosed else None
      | EvExtensionNotified \<Rightarrow> if state \<in> {StQueued, StIdentityPending} then Some state else None
      | EvProgressCommunicated \<Rightarrow>
          if state \<in> {StQueued, StIdentityPending, StDecided, StActioned, StAppealed} then Some state else None
      | EvPurgeIntent \<Rightarrow> if state = StClosed then Some state else None
      | EvPurged \<Rightarrow> if state = StClosed then Some state else None
      | EvActionIntent \<Rightarrow> if state \<in> {StReceived, StDecided} then Some state else None
      | EvRulesCommitted \<Rightarrow> if state \<in> {StReceived, StDecided} then Some state else None
      | EvReversalIntent \<Rightarrow> if state = StAppealed then Some state else None
      | _ \<Rightarrow> None)"

definition successor :: "ticket_state \<Rightarrow> event_name \<Rightarrow> ticket_state outcome" where
  "successor state event = ok_or (successor_option state event) InvalidTransition"

definition extension_window :: "chrono \<Rightarrow> int \<Rightarrow> int \<Rightarrow> bool outcome" where
  "extension_window C relevant_at now =
     (if now \<ge> relevant_at
      then res_bind (data_rights_due C relevant_at False) (\<lambda>due. Inr (now \<le> due))
      else Inr False)"

definition purge_due :: "chrono \<Rightarrow> settings \<Rightarrow> ticket \<Rightarrow> int \<Rightarrow> bool outcome" where
  "purge_due C cfg t now =
     (if \<not> is_ok (successor (tk_state t) EvPurgeIntent) \<or> tk_pending t \<noteq> None \<or> tk_purged t
      then Inr False
      else res_bind (ok_or (ms_closed_at (tk_times t)) Unavailable) (\<lambda>closed.
        retention_elapsed C closed (cf_retention_months cfg) now))"

definition deadline :: "chrono \<Rightarrow> ticket \<Rightarrow> int option outcome" where
  "deadline C t =
     (case tk_route t of
        RtIntimateImages \<Rightarrow> res_bind (intimate_due C (ms_received_at (tk_times t))) (\<lambda>d. Inr (Some d))
      | RtDataRights \<Rightarrow>
          res_bind (data_rights_due C (tk_relevant_at t) (tk_extended_epoch t = Some (tk_relevant_at t)))
            (\<lambda>d. Inr (Some d))
      | RtDataProtectionComplaint \<Rightarrow>
          res_bind (complaint_ack_due C (ms_received_at (tk_times t))) (\<lambda>d. Inr (Some d))
      | _ \<Rightarrow> Inr None)"

definition queue_overdue :: "chrono \<Rightarrow> ticket \<Rightarrow> int \<Rightarrow> bool outcome" where
  "queue_overdue C t now =
     (case tk_route t of
        RtIntimateImages \<Rightarrow>
          res_bind (intimate_on_time C (ms_received_at (tk_times t)) now) (\<lambda>b. Inr (\<not> b))
      | RtDataRights \<Rightarrow>
          data_rights_overdue C (tk_relevant_at t) (tk_extended_epoch t = Some (tk_relevant_at t)) now
      | RtDataProtectionComplaint \<Rightarrow>
          res_bind (complaint_ack_on_time C (ms_received_at (tk_times t)) now) (\<lambda>b. Inr (\<not> b))
      | _ \<Rightarrow> Inr False)"

definition decision_allowed ::
  "settings \<Rightarrow> ticket \<Rightarrow> decision \<Rightarrow> ground option \<Rightarrow> (ticket_id \<times> ticket) list \<Rightarrow> unit outcome" where
  "decision_allowed cfg t d ground tickets =
     res_then (successor (tk_state t) EvDecided)
    (res_then (decision_validate d)
     (let eligible =
        (case d of
           DecNotIntimateImage _ _ \<Rightarrow> tk_route t = RtIntimateImages
         | DecNoStanding _ _ \<Rightarrow> tk_route t = RtIntimateImages
         | DecManifestlyUnfounded _ _ _ _ _ \<Rightarrow>
             tk_route t \<in> {RtSiteComplaint, RtDataProtectionComplaint, RtOnlineSafetyComplaint}
         | _ \<Rightarrow> True)
      in if \<not> eligible then Inl InvalidInput
         else
           res_then
             (case d of
                DecGranted _ _ assessment \<Rightarrow>
                  (if (assessment \<noteq> None) \<noteq> (ground = Some GdDataDelisting) then Inl InvalidInput else Inr ())
              | _ \<Rightarrow> Inr ())
             (case d of
                DecManifestlyUnfounded _ _ policy_version policy_clause duplicate_of \<Rightarrow>
                  (if policy_version \<noteq> cf_unfounded_policy_version cfg
                      \<or> policy_clause \<noteq> ''duplicate_without_new_information''
                   then Inl InvalidInput
                   else
                     (case map_of tickets duplicate_of of
                        None \<Rightarrow> Inl InvalidInput
                      | Some prior \<Rightarrow>
                          (if tk_state prior = StClosed \<and> tk_route prior = tk_route t
                           then Inr () else Inl InvalidInput)))
              | _ \<Rightarrow> Inr ())))"

section \<open>The reducer\<close>

definition received :: "journal_row \<Rightarrow> ticket outcome" where
  "received row =
     (if row_event row \<noteq> EvReceived \<or> row_state row \<noteq> ''received'' \<or> row_payload_sequence row \<noteq> 1
      then Inl Unavailable
      else
        res_bind (ticket_id_parse (row_ticket_id row)) (\<lambda>id.
        res_bind (route_parse (row_route row)) (\<lambda>route.
        res_bind (requester_type_parse (row_requester_type row)) (\<lambda>requester.
        Inr \<lparr> tk_id = id, tk_route = route, tk_requester = requester, tk_state = StReceived,
              tk_times = \<lparr> ms_received_at = row_received_at row, ms_acknowledged_at = None,
                 ms_identity_pending_at = None, ms_queued_at = None, ms_decided_at = None,
                 ms_actioned_at = None, ms_appealed_at = None, ms_reversed_at = None,
                 ms_upheld_at = None, ms_closed_at = None \<rparr>,
              tk_relevant_at = row_received_at row, tk_pending_evidence = None,
              tk_extended_epoch = None, tk_decision = None, tk_ground = None, tk_pending = None,
              tk_provisional_committed = False, tk_references = [(1, row_commitment row)],
              tk_purged = False, tk_events = 1, tk_last_at = row_at row \<rparr>))))"

definition completion_event :: "event_name \<Rightarrow> bool" where
  "completion_event e \<longleftrightarrow> e \<in> {EvRulesCommitted, EvActioned, EvReversed, EvPurged}"

definition intent_event :: "event_name \<Rightarrow> bool" where
  "intent_event e \<longleftrightarrow> e \<in> {EvActionIntent, EvReversalIntent, EvPurgeIntent}"

definition intent_allowed :: "ticket \<Rightarrow> journal_row \<Rightarrow> bool" where
  "intent_allowed t row \<longleftrightarrow>
     (let intake = tk_state t = StReceived \<and> tk_route t = RtIntimateImages \<and> row_decision row = [];
          reviewed = tk_state t = StDecided \<and>
            (case tk_decision t of
               None \<Rightarrow> False
             | Some decision \<Rightarrow> row_decision row = decision_kind_as_str decision
                 \<and> decision \<in> {DkGranted, DkNotIntimateImage, DkNoStanding})
      in \<not> (\<not> intake \<and> \<not> reviewed \<or> \<not> is_ok (ground_parse (row_reason_code row))
          \<or> row_asset_ids row = [] \<or> row_effective_at row < ms_received_at (tk_times t)))"

definition guard :: "chrono \<Rightarrow> settings \<Rightarrow> ticket \<Rightarrow> journal_row \<Rightarrow> unit outcome" where
  "guard C cfg t row =
     (let e = row_event row in
      if tk_pending t \<noteq> None \<and> \<not> completion_event e then Inl InvalidTransition
      else if e = EvAcknowledged \<and> tk_route t = RtIntimateImages \<and> \<not> tk_provisional_committed t
      then Inl InvalidTransition
      else if e = EvActionIntent \<and> \<not> intent_allowed t row then Inl InvalidTransition
      else
        res_then
          (if e = EvExtensionNotified then
             (if tk_route t \<noteq> RtDataRights \<or> tk_extended_epoch t = Some (tk_relevant_at t)
              then Inl InvalidTransition
              else res_bind (extension_window C (tk_relevant_at t) (row_at row))
                (\<lambda>w. if w then Inr () else Inl InvalidTransition))
           else Inr ())
       (res_then
          (if e = EvPurgeIntent then
             res_bind (purge_due C cfg t (row_at row)) (\<lambda>due. if due then Inr () else Inl RetentionNotDue)
           else Inr ())
        (if e = EvClosed \<and> tk_state t = StDecided \<and> tk_decision t = Some DkGranted \<and> tk_ground t \<noteq> None
         then Inl InvalidTransition
         else if e \<in> {EvReversalIntent, EvReversed, EvActioned}
                 \<and> (tk_decision t \<noteq> Some DkGranted \<or> tk_ground t = None)
         then Inl InvalidTransition
         else Inr ())))"

definition evidence :: "ticket \<Rightarrow> journal_row \<Rightarrow> ticket outcome" where
  "evidence t row =
     (let request = (case row_event row of
            EvIdentityRequested \<Rightarrow> Some IeRequestIdentity
          | EvClarificationRequested \<Rightarrow> Some IeRequestClarification
          | _ \<Rightarrow> None);
          reply = (case row_event row of
            EvIdentityConfirmed \<Rightarrow> Some IeRequestIdentity
          | EvClarificationReceived \<Rightarrow> Some IeRequestClarification
          | _ \<Rightarrow> None)
      in if (request \<noteq> None \<or> reply \<noteq> None) \<and> tk_route t \<noteq> RtDataRights then Inl InvalidTransition
         else
           let t1 = (case request of Some r \<Rightarrow> t\<lparr> tk_pending_evidence := Some r \<rparr> | None \<Rightarrow> t)
           in case reply of
                None \<Rightarrow> Inr t1
              | Some expected \<Rightarrow>
                  (if tk_pending_evidence t1 \<noteq> Some expected then Inl InvalidTransition
                   else Inr (t1\<lparr> tk_relevant_at := max (tk_relevant_at t1) (row_at row),
                                 tk_pending_evidence := None \<rparr>)))"

definition expected_completion :: "journal_row \<Rightarrow> event_name option" where
  "expected_completion intent =
     (case row_event intent of
        EvReversalIntent \<Rightarrow> Some EvReversed
      | EvPurgeIntent \<Rightarrow> Some EvPurged
      | EvActionIntent \<Rightarrow> Some (if row_decision intent = ''granted'' then EvActioned else EvRulesCommitted)
      | _ \<Rightarrow> None)"

definition operation :: "ticket \<Rightarrow> journal_row \<Rightarrow> ticket outcome" where
  "operation t row =
     (let e = row_event row in
      if intent_event e then
        (if tk_pending t \<noteq> None \<or> row_intent_sequence row \<noteq> row_sequence row then Inl InvalidTransition
         else Inr (t\<lparr> tk_pending := Some row \<rparr>))
      else if completion_event e then
        res_bind (ok_or (tk_pending t) InvalidTransition) (\<lambda>intent.
        res_bind (ok_or (expected_completion intent) InvalidTransition) (\<lambda>expected.
        if e \<noteq> expected
           \<or> row_intent_sequence row \<noteq> row_sequence intent
           \<or> row_reason_code row \<noteq> row_reason_code intent
           \<or> row_asset_ids row \<noteq> row_asset_ids intent
           \<or> row_effective_at row \<noteq> row_effective_at intent
           \<or> row_decision row \<noteq> row_decision intent
        then Inl InvalidTransition
        else
          Inr (t\<lparr> tk_pending := None, tk_purged := (e = EvPurged),
                  tk_provisional_committed :=
                    (tk_provisional_committed t \<or> e = EvRulesCommitted \<and> row_decision row = []) \<rparr>)))
      else Inr t)"

definition record_reference :: "ticket \<Rightarrow> journal_row \<Rightarrow> ticket outcome" where
  "record_reference t row =
     (if row_payload_sequence row = 0 then Inr t
      else case map_of (tk_references t) (row_payload_sequence row) of
             Some expected \<Rightarrow>
               (if expected \<noteq> row_commitment row \<or> row_event row \<noteq> EvActionIntent then Inl Unavailable
                else Inr t)
           | None \<Rightarrow>
               (if row_payload_sequence row \<noteq> length (tk_references t) + 1 then Inl Unavailable
                else Inr (t\<lparr> tk_references := tk_references t @ [(row_payload_sequence row, row_commitment row)] \<rparr>)))"

definition milestone :: "milestones \<Rightarrow> event_name \<Rightarrow> int \<Rightarrow> milestones" where
  "milestone m event at =
     (case event of
        EvAcknowledged \<Rightarrow> m\<lparr> ms_acknowledged_at := Some at \<rparr>
      | EvIdentityRequested \<Rightarrow> m\<lparr> ms_identity_pending_at := Some at \<rparr>
      | EvClarificationRequested \<Rightarrow> m\<lparr> ms_identity_pending_at := Some at \<rparr>
      | EvQueued \<Rightarrow> m\<lparr> ms_queued_at := Some at \<rparr>
      | EvIdentityConfirmed \<Rightarrow> m\<lparr> ms_queued_at := Some at \<rparr>
      | EvClarificationReceived \<Rightarrow> m\<lparr> ms_queued_at := Some at \<rparr>
      | EvDecided \<Rightarrow> m\<lparr> ms_decided_at := Some at \<rparr>
      | EvActioned \<Rightarrow> m\<lparr> ms_actioned_at := Some at \<rparr>
      | EvAppealed \<Rightarrow> m\<lparr> ms_appealed_at := Some at \<rparr>
      | EvReversed \<Rightarrow> m\<lparr> ms_reversed_at := Some at \<rparr>
      | EvUpheld \<Rightarrow> m\<lparr> ms_upheld_at := Some at \<rparr>
      | EvClosed \<Rightarrow> m\<lparr> ms_closed_at := Some at \<rparr>
      | _ \<Rightarrow> m)"

definition record_decision :: "ticket \<Rightarrow> journal_row \<Rightarrow> ticket outcome" where
  "record_decision t row =
     (if row_event row = EvDecided then
        res_bind (decision_kind_parse (row_decision row)) (\<lambda>k.
          Inr (t\<lparr> tk_decision := Some k, tk_ground := ok (ground_parse (row_reason_code row)) \<rparr>))
      else Inr t)"

definition apply_row :: "chrono \<Rightarrow> settings \<Rightarrow> ticket \<Rightarrow> journal_row \<Rightarrow> ticket outcome" where
  "apply_row C cfg t row =
     res_bind (successor (tk_state t) (row_event row)) (\<lambda>next.
     if row_ticket_id row \<noteq> ticket_id_as_str (tk_id t)
        \<or> row_route row \<noteq> route_as_str (tk_route t)
        \<or> row_requester_type row \<noteq> requester_type_as_str (tk_requester t)
        \<or> row_received_at row \<noteq> ms_received_at (tk_times t)
        \<or> row_state row \<noteq> ticket_state_as_str next
        \<or> row_at row < tk_last_at t
        \<or> tk_purged t
     then Inl InvalidTransition
     else
       res_then (guard C cfg t row)
      (res_bind (evidence t row) (\<lambda>t1.
       res_bind (operation t1 row) (\<lambda>t2.
       res_bind (record_decision t2 row) (\<lambda>t3.
       let t4 = (if row_event row = EvExtensionNotified
                 then t3\<lparr> tk_extended_epoch := Some (tk_relevant_at t3) \<rparr> else t3) in
       res_bind (record_reference t4 row) (\<lambda>t5.
       res_bind (ok_or (checked_add_u64 (tk_events t5) 1) Capacity) (\<lambda>events.
       Inr (t5\<lparr> tk_times := milestone (tk_times t5) (row_event row) (row_at row), tk_state := next,
                tk_events := events, tk_last_at := row_at row \<rparr>))))))))"

text \<open>Replaying a ticket's rows: the receipt starts it, every later row is reduced.\<close>

definition replay :: "chrono \<Rightarrow> settings \<Rightarrow> journal_row list \<Rightarrow> ticket outcome" where
  "replay C cfg rows =
     (case rows of
        [] \<Rightarrow> Inl Unavailable
      | r # rs \<Rightarrow> res_bind (received r) (\<lambda>t. res_fold (apply_row C cfg) t rs))"

end
