(* ===== verification/Ordered_Map.thy ===== *)
theory Ordered_Map
  imports Prelude "HOL-Library.Multiset"
begin

text \<open>
  \<open>BTreeMap\<close> as an association list in strictly ascending order of its keys: iteration is the list, lookup is \<open>map_of\<close> and equal
  contents are equal lists.
\<close>

text \<open>\<open>BTreeMap::insert\<close> on a list in ascending order of its keys.\<close>

fun btree_insert :: "'k :: linorder \<Rightarrow> 'v \<Rightarrow> ('k \<times> 'v) list \<Rightarrow> ('k \<times> 'v) list" where
  "btree_insert k v [] = [(k, v)]"
| "btree_insert k v (e # es) =
     (if k < fst e then (k, v) # e # es
      else if k = fst e then (k, v) # es
      else e # btree_insert k v es)"

definition btree_ok :: "('k :: linorder \<times> 'v) list \<Rightarrow> bool" where
  "btree_ok es \<longleftrightarrow> sorted_wrt (<) (map fst es)"

lemma btree_insert_keys [simp]: "fst ` set (btree_insert k v es) = insert k (fst ` set es)"
  by (induction es) auto

lemma btree_insert_ok [simp, intro]: "btree_ok es \<Longrightarrow> btree_ok (btree_insert k v es)"
  unfolding btree_ok_def
proof (induction es)
  case (Cons e es)
  have "sorted_wrt (<) (map fst (btree_insert k v es))" using Cons by simp
  moreover have "\<forall>x \<in> fst ` set (btree_insert k v es). fst e < x" if "fst e < k"
    using Cons.prems that by auto
  ultimately show ?case using Cons.prems by fastforce
qed simp

lemma map_of_btree_insert [simp]:
  "btree_ok es \<Longrightarrow> map_of (btree_insert k v es) = (map_of es)(k \<mapsto> v)"
  unfolding btree_ok_def
proof (induction es)
  case (Cons e es)
  have "map_of es k = None" if "k < fst e"
    using Cons.prems that by (force simp: map_of_eq_None_iff)
  with Cons show ?case by (cases e) (auto simp: fun_eq_iff)
qed simp

lemma btree_ok_distinct: "btree_ok es \<Longrightarrow> distinct (map fst es)"
  by (simp add: btree_ok_def strict_sorted_iff)

lemma btree_ok_Nil [simp]: "btree_ok []"
  by (simp add: btree_ok_def)

lemma btree_ok_eqI:
  assumes "btree_ok xs" and "btree_ok ys" and "map_of xs = map_of ys"
  shows "xs = ys"
proof (rule map_sorted_distinct_set_unique [of fst])
  have "set xs = set ys" using assms map_of_inject_set btree_ok_distinct by blast
  then show "set xs = set ys" "inj_on fst (set xs \<union> set ys)"
    using btree_ok_distinct [OF assms(1)] by (simp_all add: distinct_map)
qed (use assms in \<open>simp_all add: btree_ok_def strict_sorted_iff\<close>)

lemma btree_mem: "btree_ok es \<Longrightarrow> (k, v) \<in> set es \<longleftrightarrow> map_of es k = Some v"
  by (simp add: btree_ok_distinct)

lemma btree_fresh_values: "k \<notin> fst ` set es \<Longrightarrow> set (btree_insert k v es) = insert (k, v) (set es)"
  by (induction es) auto

lemma btree_fresh_mset: "k \<notin> fst ` set es \<Longrightarrow> mset (map snd (btree_insert k v es)) = add_mset v (mset (map snd es))"
  by (induction es) auto

end
