(* ===== verification/Payload.thy ===== *)
theory Payload
  imports Rules Transitions Ordered_Map
begin

text \<open>
  The immutable personal revisions of \<open>compliance/payload.rs\<close>, with the intake and notice checks that
  \<open>compliance/tickets.rs\<close> shares with them. A revision is one file behind a salted commitment. The
  disk is the list of ticket directories with their managed files, each with its bytes; how a write
  ends is an argument. The \<open>serde_json\<close> encodings, the digest and the tokenizer are fields of \<open>penv\<close>.
\<close>

section \<open>Intakes\<close>

record notice =
  nt_text :: string
  nt_remedies :: "string list"

datatype payload_event =
    PeIntake (pe_intake: intake)
  | PeIdentity (pe_identity: identity_event) (pe_reasons: string)
  | PeExtension (pe_necessity: necessity) (pe_reasons: string) (pe_written: string) (pe_delivery: delivery)
  | PeDecision (pe_decision: decision) (pe_salts: "hex64 list") (pe_notice: notice)
  | PeAppeal (pe_reasons: string) (pe_related: "ticket_id option")
  | PeReversal (pe_reasons: string) (pe_delivery: delivery) (pe_notice: notice)
  | PeUphold (pe_reasons: string) (pe_delivery: delivery) (pe_notice: notice)
  | PeProgress (pe_enquiries: string) (pe_update: string) (pe_delivery: delivery)
  | PeClosure (pe_reasons: string)

record stored_payload =
  sp_format_version :: nat
  sp_ticket_id :: ticket_id
  sp_sequence :: nat
  sp_salt :: hex64
  sp_content :: payload_event

text \<open>\<open>serde_json::Value\<close>; a number that is no 64-bit integer is a float.\<close>

datatype json_value =
    JvNull | JvBool bool | JvInt int | JvFloat string | JvText string
  | JvArray "json_value list" | JvObject "(string \<times> json_value) list"

record penv =
  pn_digest :: "string \<Rightarrow> string"
  pn_value :: "ticket_id \<Rightarrow> nat \<Rightarrow> payload_event \<Rightarrow> json_value option"
  pn_scalar :: "json_value \<Rightarrow> string option"
  pn_encode :: "stored_payload \<Rightarrow> string option"
  pn_decode :: "string \<Rightarrow> stored_payload option"
  pn_hook :: bool
  pn_tokenize :: "string \<Rightarrow> string list"
  pn_alphanumeric :: "nat \<Rightarrow> bool"

definition evidence_text :: "string \<Rightarrow> unit outcome" where
  "evidence_text s = text_ok s BkEvidence NarrativeText"

definition validate_names :: "penv \<Rightarrow> evidenced_name list \<Rightarrow> unit outcome" where
  "validate_names P names =
     res_fold (\<lambda>_ name. res_then (name_tokens (pn_tokenize P) (pn_alphanumeric P) (en_name name))
       (evidence_text (en_evidence name))) () names"

definition validate_category :: "penv \<Rightarrow> intake_kind \<Rightarrow> unit outcome" where
  "validate_category P category =
     (case category of
        IkIllegalContent suspected \<Rightarrow> evidence_text suspected
      | IkHarmfulToChildren harm \<Rightarrow> evidence_text harm
      | IkRightsRemoval basis auth \<Rightarrow> res_then (evidence_text basis) (evidence_text auth)
      | IkIntimateImages content subject good \<Rightarrow>
          (if \<not> content \<or> \<not> subject \<or> \<not> good then Inl InvalidInput else Inr ())
      | IkDataRights kind names \<Rightarrow>
          res_then (validate_bound (if kind = RkDelisting then BkRequiredNames else BkOptionalNames) (length names))
            (validate_names P names)
      | _ \<Rightarrow> Inr ())"

definition validate_intake :: "penv \<Rightarrow> intake \<Rightarrow> unit outcome" where
  "validate_intake P i =
     res_then (report_fields_validate (it_report i))
    (res_then
       (if intake_route i \<in> {RtDataProtectionComplaint, RtOnlineSafetyComplaint}
        then (if it_assets i \<noteq> [] then Inl InvalidInput else Inr ())
        else validate_bound BkUrls (length (it_assets i)))
    (if length (btree_set (map as_document_id (it_assets i))) \<noteq> length (it_assets i) then Inl InvalidInput
     else validate_category P (it_category i)))"

definition reason_text :: "string \<Rightarrow> unit outcome" where
  "reason_text s = text_ok s BkReason NarrativeText"

definition narrative_text :: "string \<Rightarrow> unit outcome" where
  "narrative_text s = text_ok s BkNarrative NarrativeText"

definition validate_notice :: "notice \<Rightarrow> unit outcome" where
  "validate_notice n =
     res_then (text_ok (nt_text n) BkServiceNotice NarrativeText)
       (res_fold (\<lambda>_ remedy. narrative_text remedy) () (nt_remedies n))"

fun payload_validate :: "penv \<Rightarrow> payload_event \<Rightarrow> unit outcome" where
  "payload_validate P (PeIntake i) = validate_intake P i"
| "payload_validate P (PeIdentity _ reasons) = reason_text reasons"
| "payload_validate P (PeAppeal reasons _) = reason_text reasons"
| "payload_validate P (PeClosure reasons) = reason_text reasons"
| "payload_validate P (PeExtension _ reasons written d) =
     res_then (reason_text reasons) (res_then (narrative_text written) (delivery_validate d))"
| "payload_validate P (PeDecision dec salts n) =
     res_then (decision_validate dec)
       (res_then (validate_bound BkOptionalNames (length salts)) (validate_notice n))"
| "payload_validate P (PeReversal reasons d n) =
     res_then (reason_text reasons) (res_then (delivery_validate d) (validate_notice n))"
| "payload_validate P (PeUphold reasons d n) =
     res_then (reason_text reasons) (res_then (delivery_validate d) (validate_notice n))"
| "payload_validate P (PeProgress enquiries update d) =
     res_then (narrative_text enquiries) (res_then (narrative_text update) (delivery_validate d))"

section \<open>Commitments\<close>

fun join_comma :: "string list \<Rightarrow> string" where
  "join_comma [] = []"
| "join_comma [p] = p"
| "join_comma (p # q # ps) = p @ '','' @ join_comma (q # ps)"

fun canonical_value :: "(json_value \<Rightarrow> string option) \<Rightarrow> json_value \<Rightarrow> string outcome" where
  "canonical_value enc (JvObject fs) =
     res_bind
       (res_map (\<lambda>(k, r). res_bind (ok_or (enc (JvText k)) Unavailable) (\<lambda>kb. res_bind r (\<lambda>vb. Inr (kb @ '':'' @ vb))))
         (sort_key fst (map (\<lambda>(k, v). (k, canonical_value enc v)) fs)))
       (\<lambda>parts. Inr (''{'' @ join_comma parts @ ''}''))"
| "canonical_value enc (JvArray vs) =
     res_bind (res_map (\<lambda>r. r) (map (canonical_value enc) vs)) (\<lambda>parts. Inr (''['' @ join_comma parts @ '']''))"
| "canonical_value enc (JvFloat _) = Inl InvalidInput"
| "canonical_value enc v = ok_or (enc v) Unavailable"

definition be_bytes :: "nat \<Rightarrow> string" where
  "be_bytes n = map (\<lambda>i. char_of (n div 256 ^ (7 - i) mod 256)) [0..<8]"

definition payload_domain :: string where
  "payload_domain = ''AVA619-PAYLOAD-v1'' @ [CHR 0x00]"

definition commitment :: "penv \<Rightarrow> ticket_id \<Rightarrow> nat \<Rightarrow> hex64 \<Rightarrow> payload_event \<Rightarrow> string outcome" where
  "commitment P ticket sequence salt content =
     res_bind (ok_or (pn_value P ticket sequence content) Unavailable) (\<lambda>value.
     res_bind (canonical_value (pn_scalar P) value) (\<lambda>bytes.
     Inr (sha256 (pn_digest P) [payload_domain, decode_pairs (hex64_as_str salt), be_bytes (length bytes), bytes])))"

section \<open>Revisions\<close>

record prepared_payload =
  pp_ticket :: ticket_id
  pp_sequence :: nat
  pp_content :: payload_event
  pp_bytes :: string
  pp_commitment :: string

definition prepare_with_salt ::
  "penv \<Rightarrow> ticket_id \<Rightarrow> nat \<Rightarrow> payload_event \<Rightarrow> hex64 \<Rightarrow> prepared_payload outcome" where
  "prepare_with_salt P ticket sequence content salt =
     res_then (validate_range sequence 1 u64_max)
    (res_then (payload_validate P content)
    (res_bind (commitment P ticket sequence salt content) (\<lambda>cm.
     res_bind (ok_or (pn_encode P \<lparr> sp_format_version = 1, sp_ticket_id = ticket, sp_sequence = sequence,
                        sp_salt = salt, sp_content = content \<rparr>) Unavailable) (\<lambda>b.
     let bytes = b @ [newline] in
     res_then (map_err (validate_bound BkPayloadFile (length bytes)) Capacity)
       (Inr \<lparr> pp_ticket = ticket, pp_sequence = sequence, pp_content = content, pp_bytes = bytes,
              pp_commitment = cm \<rparr>)))))"

text \<open>The payload root: its ticket directories with their managed files.\<close>

type_synonym pdisk = "(ticket_id \<times> (nat \<times> string) list) list"

definition payload_file :: "pdisk \<Rightarrow> ticket_id \<Rightarrow> nat \<Rightarrow> string option" where
  "payload_file d ticket sequence = Option.bind (map_of d ticket) (\<lambda>fs. map_of fs sequence)"

definition files_of :: "pdisk \<Rightarrow> ticket_id \<Rightarrow> (nat \<times> string) list" where
  "files_of d ticket = (case map_of d ticket of None \<Rightarrow> [] | Some fs \<Rightarrow> fs)"

definition put_payload :: "ticket_id \<Rightarrow> nat \<Rightarrow> string \<Rightarrow> pdisk \<Rightarrow> pdisk" where
  "put_payload ticket sequence bytes d = btree_insert ticket (btree_insert sequence bytes (files_of d ticket)) d"

definition delete_payload :: "ticket_id \<Rightarrow> nat \<Rightarrow> pdisk \<Rightarrow> pdisk" where
  "delete_payload ticket sequence d =
     (if map_of d ticket = None then d
      else btree_insert ticket (filter (\<lambda>p. fst p \<noteq> sequence) (files_of d ticket)) d)"

definition read_authorized_measured ::
  "penv \<Rightarrow> pdisk \<Rightarrow> ticket_id \<Rightarrow> nat \<Rightarrow> string \<Rightarrow> bool \<Rightarrow> (payload_event \<times> nat) option outcome" where
  "read_authorized_measured P d ticket sequence expected purge_authorized =
     (case payload_file d ticket sequence of
        None \<Rightarrow> if purge_authorized then Inr None else Inl Unavailable
      | Some bytes \<Rightarrow>
          if length bytes > bs_max (spec BkPayloadFile) then Inl Unavailable
          else
            res_then (require_or (pn_hook P) Unavailable)
           (res_bind (ok_or (pn_decode P bytes) Unavailable) (\<lambda>stored.
            if sp_format_version stored \<noteq> 1 \<or> sp_ticket_id stored \<noteq> ticket \<or> sp_sequence stored \<noteq> sequence
            then Inl Unavailable
            else
              res_then (payload_validate P (sp_content stored))
             (res_bind (commitment P ticket sequence (sp_salt stored) (sp_content stored)) (\<lambda>cm.
              if cm \<noteq> expected then Inl Unavailable
              else
                res_bind (ok_or (pn_encode P stored) Unavailable) (\<lambda>b.
                if bytes \<noteq> b @ [newline] then Inl Unavailable
                else Inr (Some (sp_content stored, length bytes))))))))"

definition read_authorized ::
  "penv \<Rightarrow> pdisk \<Rightarrow> ticket_id \<Rightarrow> nat \<Rightarrow> string \<Rightarrow> bool \<Rightarrow> payload_event option outcome" where
  "read_authorized P d ticket sequence expected purge_authorized =
     res_bind (read_authorized_measured P d ticket sequence expected purge_authorized)
       (\<lambda>loaded. Inr (map_option fst loaded))"

definition read_payload :: "penv \<Rightarrow> pdisk \<Rightarrow> ticket_id \<Rightarrow> nat \<Rightarrow> string \<Rightarrow> payload_event outcome" where
  "read_payload P d ticket sequence expected =
     res_bind (read_authorized P d ticket sequence expected False) (\<lambda>loaded. ok_or loaded Unavailable)"

text \<open>
  How a write ends: a failure before the file exists (with whether a directory was created already), a
  write cut short, a failed sync, or a failure after the bytes were verified.
\<close>

record payload_faults =
  pf_open :: "bool option"
  pf_write :: "nat option"
  pf_sync :: bool
  pf_after :: bool

definition write_payload ::
  "penv \<Rightarrow> payload_faults \<Rightarrow> pdisk \<Rightarrow> prepared_payload \<Rightarrow> unit outcome \<times> bool \<times> pdisk" where
  "write_payload P f d p =
     (case pf_open f of
        Some started \<Rightarrow> (Inl Unavailable, started, d)
      | None \<Rightarrow>
          if payload_file d (pp_ticket p) (pp_sequence p) \<noteq> None then (Inl Unavailable, False, d)
          else
            (case pf_write f of
               Some k \<Rightarrow> (Inl Unavailable, True, put_payload (pp_ticket p) (pp_sequence p) (take k (pp_bytes p)) d)
             | None \<Rightarrow>
                 (let d1 = put_payload (pp_ticket p) (pp_sequence p) (pp_bytes p) d in
                  if pf_sync f then (Inl Unavailable, True, d1)
                  else
                    (case read_payload P d1 (pp_ticket p) (pp_sequence p) (pp_commitment p) of
                       Inl e \<Rightarrow> (Inl e, True, d1)
                     | Inr _ \<Rightarrow> (if pf_after f then Inl Unavailable else Inr (), True, d1)))))"

text \<open>
  Deleting the revisions of a purged ticket. A fault names the deletion that fails and whether it fails after the
  file is gone.
\<close>

fun purge_payloads ::
  "penv \<Rightarrow> (nat \<times> bool) option \<Rightarrow> pdisk \<Rightarrow> ticket_id \<Rightarrow> (nat \<times> string) list \<Rightarrow> unit outcome \<times> pdisk" where
  "purge_payloads P fault d ticket [] = (Inr (), d)"
| "purge_payloads P fault d ticket ((sequence, expected) # refs) =
     (case read_authorized P d ticket sequence expected True of
        Inl e \<Rightarrow> (Inl e, d)
      | Inr None \<Rightarrow> purge_payloads P fault d ticket refs
      | Inr (Some _) \<Rightarrow>
          (let d1 = delete_payload ticket sequence d in
           case fault of
             Some (0, gone) \<Rightarrow> (Inl Unavailable, if gone then d1 else d)
           | Some (Suc n, gone) \<Rightarrow> purge_payloads P (Some (n, gone)) d1 ticket refs
           | None \<Rightarrow> purge_payloads P None d1 ticket refs))"

text \<open>
  The inventory of one directory: referenced files count with their verified length, others are removed or
  counted. What was removed before an error stays removed.
\<close>

fun inventory_files ::
  "(nat \<Rightarrow> bool) \<Rightarrow> (nat \<Rightarrow> nat option) \<Rightarrow> bool \<Rightarrow> nat \<Rightarrow> (nat \<times> string) list \<Rightarrow> nat outcome \<times> (nat \<times> string) list" where
  "inventory_files referenced verified remove_orphans acc [] = (Inr acc, [])"
| "inventory_files referenced verified remove_orphans acc ((sequence, bytes) # fs) =
     (if \<not> referenced sequence \<and> length bytes \<le> bs_max (spec BkPayloadFile) \<and> remove_orphans
      then inventory_files referenced verified remove_orphans acc fs
      else
        case (if referenced sequence then res_bind (ok_or (verified sequence) Unavailable) (\<lambda>len. ok_or (checked_add_u64 acc len) Unavailable)
              else if length bytes > bs_max (spec BkPayloadFile) then Inl Unavailable
              else ok_or (checked_add_u64 acc (length bytes)) Unavailable) of
          Inl e \<Rightarrow> (Inl e, (sequence, bytes) # fs)
        | Inr acc1 \<Rightarrow>
            (case inventory_files referenced verified remove_orphans acc1 fs of
               (r, kept) \<Rightarrow> (r, (sequence, bytes) # kept)))"

fun inventory ::
  "(ticket_id \<times> nat \<Rightarrow> bool) \<Rightarrow> (ticket_id \<times> nat \<Rightarrow> nat option) \<Rightarrow> bool \<Rightarrow> pdisk \<Rightarrow> (ticket_id \<times> nat) list outcome \<times> pdisk" where
  "inventory referenced verified remove_orphans [] = (Inr [], [])"
| "inventory referenced verified remove_orphans ((ticket, fs) # dirs) =
     (case inventory_files (\<lambda>n. referenced (ticket, n)) (\<lambda>n. verified (ticket, n)) remove_orphans 0 fs of
        (Inl e, kept) \<Rightarrow> (Inl e, (ticket, kept) # dirs)
      | (Inr acc, kept) \<Rightarrow>
          (case inventory referenced verified remove_orphans dirs of
             (r, dirs') \<Rightarrow> (res_bind r (\<lambda>totals. Inr ((ticket, acc) # totals)), (ticket, kept) # dirs')))"

section \<open>Writing and reading back\<close>

text \<open>What the code relies on of the encodings: decoding a line gives back the revision it encodes.\<close>

definition payload_codec_ok :: "penv \<Rightarrow> bool" where
  "payload_codec_ok P \<longleftrightarrow> pn_hook P \<and> (\<forall>s b. pn_encode P s = Some b \<longrightarrow> pn_decode P (b @ [newline]) = Some s)"

definition pdisk_ok :: "pdisk \<Rightarrow> bool" where
  "pdisk_ok d \<longleftrightarrow> btree_ok d \<and> (\<forall>(t, fs) \<in> set d. btree_ok fs)"

lemma files_of_ok: "pdisk_ok d \<Longrightarrow> btree_ok (files_of d t)"
  by (auto simp: pdisk_ok_def files_of_def split: option.splits dest!: map_of_SomeD)

lemma set_btree_insert: "set (btree_insert k v es) \<subseteq> insert (k, v) (set es)"
  by (induction es) auto

lemma btree_insert_pdisk: "pdisk_ok d \<Longrightarrow> btree_ok fs \<Longrightarrow> pdisk_ok (btree_insert t fs d)"
  using set_btree_insert [of t fs d] by (fastforce simp: pdisk_ok_def)

lemma put_payload_ok: "pdisk_ok d \<Longrightarrow> pdisk_ok (put_payload t n b d)"
  by (simp add: put_payload_def btree_insert_pdisk files_of_ok)

lemma btree_filter_ok: "btree_ok es \<Longrightarrow> btree_ok (filter P es)"
  unfolding btree_ok_def by (induction es) auto

lemma delete_payload_ok: "pdisk_ok d \<Longrightarrow> pdisk_ok (delete_payload t n d)"
  by (simp add: delete_payload_def btree_insert_pdisk files_of_ok btree_filter_ok)

lemma payload_file_put:
  assumes "pdisk_ok d"
  shows "payload_file (put_payload t n b d) u m = (if u = t \<and> m = n then Some b else payload_file d u m)"
  using assms files_of_ok [OF assms, of t]
  by (auto simp: payload_file_def put_payload_def pdisk_ok_def files_of_def split: option.splits)

lemma map_of_filter_key: "map_of (filter (\<lambda>p. fst p \<noteq> n) es) m = (if m = n then None else map_of es m)"
  by (induction es) auto

lemma payload_file_delete:
  assumes "pdisk_ok d"
  shows "payload_file (delete_payload t n d) u m = (if u = t \<and> m = n then None else payload_file d u m)"
  using assms by (auto simp: payload_file_def delete_payload_def pdisk_ok_def files_of_def map_of_filter_key
      split: option.splits bind_splits)

lemma prepare_with_salt_Inr:
  assumes "prepare_with_salt P t n content salt = Inr p"
  shows "pp_ticket p = t" "pp_sequence p = n" "pp_content p = content" "1 \<le> n" "n \<le> u64_max"
    "payload_validate P content = Inr ()" "commitment P t n salt content = Inr (pp_commitment p)"
    "length (pp_bytes p) \<le> bs_max (spec BkPayloadFile)"
    "\<exists>b. pn_encode P \<lparr> sp_format_version = 1, sp_ticket_id = t, sp_sequence = n, sp_salt = salt, sp_content = content \<rparr> = Some b
       \<and> pp_bytes p = b @ [newline]"
  using assms by (auto simp: prepare_with_salt_def res_simps Let_def validate_range_Inr validate_bound_Inr)

lemma read_prepared:
  assumes "payload_codec_ok P" and "prepare_with_salt P t n content salt = Inr p" and "payload_file d t n = Some (pp_bytes p)"
  shows "read_authorized_measured P d t n (pp_commitment p) auth = Inr (Some (content, length (pp_bytes p)))"
  using assms(1,3) prepare_with_salt_Inr [OF assms(2)]
  by (auto simp: read_authorized_measured_def payload_codec_ok_def)

lemma read_payload_prepared:
  assumes "payload_codec_ok P" and "prepare_with_salt P t n content salt = Inr p" and "payload_file d t n = Some (pp_bytes p)"
  shows "read_payload P d t n (pp_commitment p) = Inr content"
  using read_prepared [OF assms] by (simp add: read_payload_def read_authorized_def)

lemma write_payload_disk:
  assumes "write_payload P f d p = (r, started, d')"
  shows "d' = d \<or> started \<and> payload_file d (pp_ticket p) (pp_sequence p) = None
      \<and> (\<exists>b. d' = put_payload (pp_ticket p) (pp_sequence p) b d \<and> (r = Inr () \<longrightarrow> b = pp_bytes p))"
    and "r = Inr () \<Longrightarrow> started \<and> d' = put_payload (pp_ticket p) (pp_sequence p) (pp_bytes p) d
      \<and> payload_file d (pp_ticket p) (pp_sequence p) = None"
  using assms by (auto simp: write_payload_def Let_def split: option.splits if_splits sum.splits)

text \<open>
  C8: personal revisions are immutable and read back. However a write ends, every file that existed keeps its
  bytes; a write that succeeds makes exactly the prepared content readable under its commitment, and one that
  reports no started mutation leaves the disk as it was.
\<close>

theorem payload_write_roundtrip:
  assumes "payload_codec_ok P" and "pdisk_ok d" and "prepare_with_salt P t n content salt = Inr p"
    and "write_payload P f d p = (r, started, d')"
  shows "pdisk_ok d' \<and> (\<forall>u m b. payload_file d u m = Some b \<longrightarrow> payload_file d' u m = Some b)
    \<and> (r = Inr () \<longrightarrow> read_payload P d' t n (pp_commitment p) = Inr content) \<and> (\<not> started \<longrightarrow> d' = d)"
proof -
  note p = prepare_with_salt_Inr [OF assms(3)]
  from write_payload_disk(1) [OF assms(4)] have "pdisk_ok d' \<and> (\<forall>u m b. payload_file d u m = Some b \<longrightarrow> payload_file d' u m = Some b)"
    using assms(2) by (auto simp: put_payload_ok payload_file_put)
  moreover have "read_payload P d' t n (pp_commitment p) = Inr content" if "r = Inr ()"
    using write_payload_disk(2) [OF assms(4) that] read_payload_prepared [OF assms(1,3)] assms(2) p
    by (simp add: payload_file_put)
  moreover have "d' = d" if "\<not> started" using write_payload_disk(1) [OF assms(4)] that by auto
  ultimately show ?thesis by blast
qed

end
