(* ===== verification/Journal_Chain.thy ===== *)
theory Journal_Chain
  imports Journal
begin

text \<open>
  The theory of verified chains. \<open>journal_env\<close> is what the journal relies on of its encodings
  and its digest; inside it, preparing rows gives a chain, a chain's bytes verify, and what
  verifies is the bytes of a chain that extends the checkpoint.
\<close>

section \<open>Chains\<close>

definition chain_hash :: "journal_row list \<Rightarrow> string" where
  "chain_hash rows = (if rows = [] then zero_hash else row_hash (last rows))"

definition prior_at :: "journal_row list \<Rightarrow> int option" where
  "prior_at rows = (if rows = [] then None else Some (row_at (last rows)))"

definition link_ok :: "jenv \<Rightarrow> journal_row list \<Rightarrow> journal_row \<Rightarrow> bool" where
  "link_ok E pre r \<longleftrightarrow>
     length pre + 1 \<le> u64_max
     \<and> verify_link E r (length pre + 1) (chain_hash pre) = Inr ()
     \<and> verify_time r (prior_at pre) (je_now E) = Inr ()
     \<and> validate_metadata (je_chrono E) r = Inr ()
     \<and> is_ok (row_bytes E r)"

fun chain_ok :: "jenv \<Rightarrow> journal_row list \<Rightarrow> journal_row list \<Rightarrow> bool" where
  "chain_ok E pre [] \<longleftrightarrow> True"
| "chain_ok E pre (r # rs) \<longleftrightarrow> link_ok E pre r \<and> chain_ok E (pre @ [r]) rs"

definition encode_row :: "jenv \<Rightarrow> journal_row \<Rightarrow> string" where
  "encode_row E r = (case row_bytes E r of Inr b \<Rightarrow> b | Inl _ \<Rightarrow> [])"

definition encode_rows :: "jenv \<Rightarrow> journal_row list \<Rightarrow> string" where
  "encode_rows E rows = concat (map (encode_row E) rows)"

definition checkpoint_in :: "jenv \<Rightarrow> head \<Rightarrow> journal_row list \<Rightarrow> bool" where
  "checkpoint_in E head rows \<longleftrightarrow>
     hd_sequence head \<le> length rows
     \<and> hd_hash head = chain_hash (take (hd_sequence head) rows)
     \<and> hd_byte_length head = length (encode_rows E (take (hd_sequence head) rows))"

text \<open>What the journal relies on of the encodings and of the digest.\<close>

locale journal_env =
  fixes E :: jenv
  assumes parse_row: "cd_row (je_codec E) r = Some b \<Longrightarrow> cd_parse (je_codec E) (b @ [newline]) = Some r"
    and row_one_line: "cd_row (je_codec E) r = Some b \<Longrightarrow> newline \<notin> set b"
    and unsigned_hash: "cd_unsigned (je_codec E) (r\<lparr> row_hash := h \<rparr>) = cd_unsigned (je_codec E) r"
    and unsigned_inj: "cd_unsigned (je_codec E) r = Some b \<Longrightarrow> cd_unsigned (je_codec E) q = Some b
      \<Longrightarrow> row_hash r = row_hash q \<Longrightarrow> r = q"
    and head_roundtrip: "cd_head (je_codec E) cp = Some b \<Longrightarrow> cd_head_parse (je_codec E) (b @ [newline]) = Some cp"
    and head_encodes: "hd_sequence cp \<le> u64_max \<Longrightarrow> hd_byte_length cp \<le> u64_max \<Longrightarrow> length (hd_hash cp) = 64
      \<Longrightarrow> list_all hex_byte (hd_hash cp) \<Longrightarrow> hd_format_version cp = 1
      \<Longrightarrow> \<exists>b. cd_head (je_codec E) cp = Some b \<and> length b < 8192"
    and digest_width: "length (je_digest E s) = 32"

section \<open>Lines\<close>

lemma split_inclusive_line:
  "newline \<notin> set b \<Longrightarrow> split_inclusive (b @ newline # rest) = (b @ [newline]) # split_inclusive rest"
  by (induction b) auto

lemma split_inclusive_tail: "newline \<notin> set t \<Longrightarrow> t \<noteq> [] \<Longrightarrow> split_inclusive t = [t]"
proof (induction t)
  case (Cons c t)
  then show ?case by (cases t) auto
qed simp

lemma concat_split_inclusive: "concat (split_inclusive s) = s"
  by (induction s) (auto split: list.splits)

lemma split_inclusive_shape:
  "split_inclusive s = ls @ l # rest \<Longrightarrow>
     l \<noteq> [] \<and> (newline \<notin> set (butlast l)) \<and> (rest \<noteq> [] \<longrightarrow> last l = newline)"
proof (induction s arbitrary: ls l rest)
  case (Cons c s)
  show ?case
  proof (cases "c = newline")
    case True
    with Cons show ?thesis by (cases ls) auto
  next
    case False
    show ?thesis
    proof (cases "split_inclusive s")
      case Nil
      with Cons.prems False show ?thesis by (cases ls) auto
    next
      case (Cons u us)
      note IH = Cons.IH
      show ?thesis
      proof (cases ls)
        case Nil
        then have "l = c # u" "rest = us" using Cons.prems False \<open>split_inclusive s = u # us\<close> by auto
        with IH [of "[]" u us] False \<open>split_inclusive s = u # us\<close> show ?thesis by auto
      next
        case (Cons v vs)
        then have "split_inclusive s = (u # vs) @ l # rest"
          using Cons.prems False \<open>split_inclusive s = u # us\<close> by auto
        with IH show ?thesis by blast
      qed
    qed
  qed
qed simp

section \<open>Verification against chains\<close>

lemma spec_JournalRow [simp]: "bs_min (spec BkJournalRow) = 1" "bs_max (spec BkJournalRow) = 8192"
  by (simp_all add: spec_rows bound_spec_of_def)

lemma row_bytes_Inr:
  "row_bytes E r = Inr bytes \<longleftrightarrow>
     (\<exists>b. cd_row (je_codec E) r = Some b \<and> bytes = b @ [newline] \<and> length bytes \<le> 8192)"
  by (auto simp: row_bytes_def Let_def res_simps)

lemma encode_row_Inr: "row_bytes E r = Inr b \<Longrightarrow> encode_row E r = b"
  by (simp add: encode_row_def)

lemma encode_rows_simps [simp]:
  "encode_rows E [] = []" "encode_rows E (r # rs) = encode_row E r @ encode_rows E rs"
  "encode_rows E (rs @ qs) = encode_rows E rs @ encode_rows E qs"
  by (simp_all add: encode_rows_def)

lemma chain_hash_simps [simp]: "chain_hash [] = zero_hash" "chain_hash (rs @ [r]) = row_hash r"
  by (simp_all add: chain_hash_def)

lemma prior_at_simps [simp]: "prior_at [] = None" "prior_at (rs @ [r]) = Some (row_at r)"
  by (simp_all add: prior_at_def)

lemma chain_ok_append:
  "chain_ok E pre (rs @ qs) \<longleftrightarrow> chain_ok E pre rs \<and> chain_ok E (pre @ rs) qs"
  by (induction rs arbitrary: pre) auto

lemma verify_link_Inr:
  "verify_link E r n p = Inr u \<longleftrightarrow>
     row_sequence r = n \<and> row_previous_hash r = p \<and> computed_hash E r = Inr (row_hash r)"
  by (auto simp: verify_link_def res_simps)

lemma verify_time_Inr:
  "verify_time r p now = Inr u \<longleftrightarrow> row_at r \<le> now \<and> (\<forall>q. p = Some q \<longrightarrow> q \<le> row_at r)"
  by (auto simp: verify_time_def split: option.splits)

lemma checkpoint_step:
  "hd_sequence cp = Suc (length pre) \<Longrightarrow>
     checkpoint_agrees (Suc (length pre)) (row_hash r)
       (length (encode_rows E pre) + length (encode_row E r)) cp
     \<longleftrightarrow> checkpoint_in E cp (pre @ [r])"
  "hd_sequence cp \<noteq> Suc (length pre) \<Longrightarrow> checkpoint_in E cp (pre @ [r]) \<longleftrightarrow> checkpoint_in E cp pre"
  by (auto simp: checkpoint_agrees_def checkpoint_in_def take_Cons')

definition verify_from :: "jenv \<Rightarrow> head \<Rightarrow> journal_row list \<Rightarrow> string list \<Rightarrow> verified_bytes outcome" where
  "verify_from E cp pre lines =
     verify_loop E cp lines pre (length (encode_rows E pre)) (chain_hash pre) (length pre)
       (checkpoint_in E cp pre) (prior_at pre)"

lemma verify_bytes_from: "verify_bytes E bytes cp = verify_from E cp [] (split_inclusive bytes)"
  by (simp add: verify_bytes_def verify_from_def checkpoint_in_def checkpoint_agrees_def
      eq_commute [of zero_hash])

lemma verify_from_Nil:
  "verify_from E cp pre [] =
     (if checkpoint_in E cp pre
      then Inr \<lparr> vb_rows = pre, vb_complete_length = length (encode_rows E pre), vb_tail = None \<rparr>
      else Inl Unavailable)"
  by (simp add: verify_from_def)

lemma verify_from_torn:
  assumes "line \<noteq> []" and "last line \<noteq> newline"
  shows "verify_from E cp pre (line # lines) =
     (if checkpoint_in E cp pre \<and> length line \<le> 8192
      then Inr \<lparr> vb_rows = pre, vb_complete_length = length (encode_rows E pre), vb_tail = Some line \<rparr>
      else Inl Unavailable)"
proof -
  have "checkpoint_in E cp pre \<Longrightarrow> \<not> length (encode_rows E pre) < hd_byte_length cp"
    by (metis append_take_drop_id checkpoint_in_def encode_rows_simps(3) length_append le_add1 not_less)
  moreover have "1 \<le> length line" using assms by (cases line) auto
  ultimately show ?thesis
    using assms by (auto simp: verify_from_def validate_bound_def validate_range_def Let_def)
qed

context journal_env
begin

lemma encode_row_shape:
  assumes "row_bytes E r = Inr bytes"
  shows "bytes \<noteq> [] \<and> last bytes = newline \<and> newline \<notin> set (butlast bytes) \<and> length bytes \<le> 8192
    \<and> cd_parse (je_codec E) bytes = Some r"
  using assms parse_row row_one_line by (auto simp: row_bytes_Inr)

lemma verify_from_step:
  assumes "link_ok E pre r" and "je_decode_hook E" and "length (encode_rows E (pre @ [r])) \<le> u64_max"
  shows "verify_from E cp pre (encode_row E r # lines) = verify_from E cp (pre @ [r]) lines"
proof -
  obtain b where b: "row_bytes E r = Inr b" using assms(1) by (auto simp: link_ok_def is_ok_iff)
  note shape = encode_row_shape [OF b]
  then have "1 \<le> length b" by (cases b) auto
  moreover have "row_sequence r = length pre + 1"
    using assms(1) by (simp add: link_ok_def verify_link_Inr)
  ultimately show ?thesis
    using assms shape b checkpoint_step [where cp = cp and pre = pre and r = r and E = E]
    by (cases "hd_sequence cp = Suc (length pre)")
       (simp_all add: verify_from_def encode_row_Inr [OF b] link_ok_def validate_bound_def
        validate_range_def checked_add_u64_def)
qed

lemma verify_from_inv:
  assumes "verify_from E cp pre (line # lines) = Inr v" and "line \<noteq> []" and "last line = newline"
  shows "\<exists>r. line = encode_row E r \<and> link_ok E pre r \<and> je_decode_hook E
    \<and> length (encode_rows E (pre @ [r])) \<le> u64_max
    \<and> verify_from E cp (pre @ [r]) lines = Inr v"
proof -
  obtain r where r: "cd_parse (je_codec E) line = Some r" "length pre + 1 \<le> u64_max"
      "verify_link E r (length pre + 1) (chain_hash pre) = Inr ()"
      "verify_time r (prior_at pre) (je_now E) = Inr ()"
      "validate_metadata (je_chrono E) r = Inr ()" "row_bytes E r = Inr line" "je_decode_hook E"
      "length (encode_rows E pre) + length line \<le> u64_max"
    using assms by (auto simp: verify_from_def res_simps checked_Some Let_def split: if_splits)
  then have link: "link_ok E pre r" by (simp add: link_ok_def)
  have enc: "encode_row E r = line" using r by (simp add: encode_row_Inr)
  have "length (encode_rows E (pre @ [r])) \<le> u64_max" using r enc by simp
  with verify_from_step [OF link] r assms(1) enc link show ?thesis by metis
qed

lemma verify_from_chain:
  assumes "chain_ok E pre rs" and "je_decode_hook E"
    and "length (encode_rows E (pre @ rs)) \<le> u64_max"
  shows "verify_from E cp pre (map (encode_row E) rs @ lines) = verify_from E cp (pre @ rs) lines"
  using assms
proof (induction rs arbitrary: pre)
  case (Cons r rs)
  then have "verify_from E cp pre (encode_row E r # map (encode_row E) rs @ lines)
      = verify_from E cp (pre @ [r]) (map (encode_row E) rs @ lines)"
    by (intro verify_from_step) auto
  with Cons show ?case by auto
qed simp

lemma split_inclusive_rows:
  assumes "chain_ok E pre rs"
  shows "split_inclusive (encode_rows E rs @ t) = map (encode_row E) rs @ split_inclusive t"
  using assms
proof (induction rs arbitrary: pre)
  case (Cons r rs)
  then obtain b where b: "cd_row (je_codec E) r = Some b" "encode_row E r = b @ [newline]"
    by (auto simp: link_ok_def is_ok_iff row_bytes_Inr encode_row_Inr dest: encode_row_Inr)
  then have "split_inclusive (b @ newline # (encode_rows E rs @ t))
      = (b @ [newline]) # split_inclusive (encode_rows E rs @ t)"
    using row_one_line by (intro split_inclusive_line) blast
  with Cons b show ?case by auto
qed simp

lemma verify_bytes_complete:
  assumes "chain_ok E [] rows" and "je_decode_hook E" and "length (encode_rows E rows) \<le> u64_max"
    and "checkpoint_in E cp rows" and "newline \<notin> set t" and "length t \<le> 8192"
  shows "verify_bytes E (encode_rows E rows @ t) cp =
    Inr \<lparr> vb_rows = rows, vb_complete_length = length (encode_rows E rows),
          vb_tail = (if t = [] then None else Some t) \<rparr>"
proof -
  have "verify_bytes E (encode_rows E rows @ t) cp = verify_from E cp rows (split_inclusive t)"
    using verify_from_chain [OF assms(1,2)] assms(3)
    by (simp add: verify_bytes_from split_inclusive_rows [OF assms(1)])
  moreover have "last t \<noteq> newline" if "t \<noteq> []" using assms(5) that by (metis last_in_set)
  ultimately show ?thesis
    using assms by (simp add: verify_from_Nil verify_from_torn split_inclusive_tail)
qed

lemma verify_from_sound:
  assumes "verify_from E cp pre lines = Inr v"
    and "\<And>ls l rest. lines = ls @ l # rest \<Longrightarrow>
      l \<noteq> [] \<and> newline \<notin> set (butlast l) \<and> (rest \<noteq> [] \<longrightarrow> last l = newline)"
  shows "\<exists>rs t. vb_rows v = pre @ rs \<and> chain_ok E pre rs \<and> concat lines = encode_rows E rs @ t
    \<and> vb_complete_length v = length (encode_rows E (pre @ rs)) \<and> checkpoint_in E cp (pre @ rs)
    \<and> newline \<notin> set t \<and> length t \<le> 8192 \<and> vb_tail v = (if t = [] then None else Some t)"
  using assms
proof (induction lines arbitrary: pre)
  case Nil
  then show ?case
    by (intro exI [of _ "[]"]) (auto simp: verify_from_Nil split: if_splits)
next
  case (Cons line lines)
  have shape: "line \<noteq> []" "newline \<notin> set (butlast line)" "lines \<noteq> [] \<longrightarrow> last line = newline"
    using Cons.prems(2) [of "[]" line lines] by auto
  show ?case
  proof (cases "last line = newline")
    case True
    then obtain r where r: "line = encode_row E r" "link_ok E pre r"
        "verify_from E cp (pre @ [r]) lines = Inr v"
      using verify_from_inv [OF Cons.prems(1) shape(1)] by blast
    obtain rs t where rs: "vb_rows v = (pre @ [r]) @ rs" "chain_ok E (pre @ [r]) rs"
        "concat lines = encode_rows E rs @ t" "vb_complete_length v = length (encode_rows E ((pre @ [r]) @ rs))"
        "checkpoint_in E cp ((pre @ [r]) @ rs)" "newline \<notin> set t" "length t \<le> 8192"
        "vb_tail v = (if t = [] then None else Some t)"
      using Cons.IH [OF r(3)] Cons.prems(2) [of "line # ls" for ls] by auto
    with r show ?thesis by (intro exI [of _ "r # rs"] exI [of _ t]) auto
  next
    case False
    then have "newline \<notin> set line"
      using shape(1,2) by (cases line rule: rev_cases) auto
    moreover have "lines = []" using shape(3) False by blast
    ultimately show ?thesis
      using Cons.prems(1) shape(1) False
      by (intro exI [of _ "[]"] exI [of _ line]) (auto simp: verify_from_torn split: if_splits)
  qed
qed

lemma verify_bytes_sound:
  assumes "verify_bytes E bytes cp = Inr v"
  shows "\<exists>t. chain_ok E [] (vb_rows v) \<and> bytes = encode_rows E (vb_rows v) @ t
    \<and> vb_complete_length v = length (encode_rows E (vb_rows v)) \<and> checkpoint_in E cp (vb_rows v)
    \<and> newline \<notin> set t \<and> length t \<le> 8192 \<and> vb_tail v = (if t = [] then None else Some t)"
  using verify_from_sound [of cp "[]" "split_inclusive bytes" v] assms split_inclusive_shape [of bytes]
  by (simp add: verify_bytes_from concat_split_inclusive)

lemma prepare_loop_chain:
  assumes "prepare_loop E (length pre) (chain_hash pre) (prior_at pre) rs = Inr qs"
  shows "chain_ok E pre qs \<and> length qs = length rs"
  using assms
proof (induction rs arbitrary: pre qs)
  case (Cons r rs)
  from Cons.prems obtain h rest where h:
      "computed_hash E (r\<lparr>row_sequence := Suc (length pre), row_previous_hash := chain_hash pre\<rparr>) = Inr h"
    and rest: "length pre + 1 \<le> u64_max"
      "let r2 = r\<lparr>row_sequence := Suc (length pre), row_previous_hash := chain_hash pre, row_hash := h\<rparr> in
       verify_time r2 (prior_at pre) (je_now E) = Inr ()
       \<and> validate_metadata (je_chrono E) r2 = Inr () \<and> is_ok (row_bytes E r2)
       \<and> prepare_loop E (Suc (length pre)) h (Some (row_at r)) rs = Inr rest \<and> qs = r2 # rest"
    by (auto simp: res_simps checked_Some Let_def is_ok_iff)
  define r2 where "r2 = r\<lparr>row_sequence := Suc (length pre), row_previous_hash := chain_hash pre, row_hash := h\<rparr>"
  have "computed_hash E r2 = Inr h"
    using h unsigned_hash [where r = "r\<lparr>row_sequence := Suc (length pre), row_previous_hash := chain_hash pre\<rparr>" and h = h]
    by (simp add: computed_hash_def r2_def)
  then have link: "link_ok E pre r2"
    using rest by (simp add: link_ok_def verify_link_Inr r2_def Let_def)
  have "prepare_loop E (length (pre @ [r2])) (chain_hash (pre @ [r2])) (prior_at (pre @ [r2])) rs = Inr rest"
    "qs = r2 # rest"
    using rest by (simp_all add: r2_def Let_def)
  with Cons.IH [of "pre @ [r2]" rest] link show ?case by auto
qed auto

end

end
