(* ===== verification/Journal_Recovery.thy ===== *)
theory Journal_Recovery
  imports Journal_Chain
begin

text \<open>
  Crash safety of the journal: whatever durable step of an append fails, loading the disk it
  leaves gives the old chain or the old chain with the new row, and the torn bytes of a
  partial write are cut off and kept in a quarantine file.
\<close>

section \<open>Consistency of memory and disk\<close>

text \<open>Quarantine files hold torn tails, each shorter than the largest row.\<close>

definition quarantine_bounded :: "jdisk \<Rightarrow> bool" where
  "quarantine_bounded d \<longleftrightarrow> list_all (\<lambda>p. length (snd p) \<le> 8192) (jd_quarantine d)"

definition consistent :: "jenv \<Rightarrow> journal \<Rightarrow> jdisk \<Rightarrow> bool" where
  "consistent E j d \<longleftrightarrow>
     chain_ok E [] (jn_rows j) \<and> quarantine_bounded d
     \<and> jd_events d = encode_rows E (jn_rows j)
     \<and> length (jd_events d) \<le> je_max_bytes E
     \<and> jn_head j = head_of_rows (jn_rows j) (length (jd_events d))
     \<and> (\<exists>cp. read_head E d = Inr cp \<and> checkpoint_in E cp (jn_rows j))"

text \<open>The rows a disk holds durably: what any later load of it gives.\<close>

definition durable_rows :: "jenv \<Rightarrow> jdisk \<Rightarrow> journal_row list \<Rightarrow> bool" where
  "durable_rows E d rows \<longleftrightarrow> chain_ok E [] rows \<and> quarantine_bounded d
     \<and> (\<exists>t cp. jd_events d = encode_rows E rows @ t \<and> length (jd_events d) \<le> je_max_bytes E \<and> newline \<notin> set t
          \<and> length t \<le> 8192 \<and> read_head E d = Inr cp \<and> checkpoint_in E cp rows)"

lemma consistent_durable_rows: "consistent E j d \<Longrightarrow> durable_rows E d (jn_rows j)"
  by (auto simp: consistent_def durable_rows_def intro!: exI [of _ "[]"])

lemma quarantine_bounded_lookup: "quarantine_bounded d \<Longrightarrow> map_of (jd_quarantine d) name = Some b \<Longrightarrow> length b \<le> 8192"
  by (fastforce simp: quarantine_bounded_def list_all_iff dest: map_of_SomeD)

lemma quarantine_bounded_put:
  "quarantine_bounded d \<Longrightarrow> length b \<le> 8192 \<Longrightarrow> jd_quarantine e = put_file name b (jd_quarantine d) \<Longrightarrow> quarantine_bounded e"
  by (auto simp: quarantine_bounded_def put_file_def list_all_iff)

lemma quarantine_bounded_same: "jd_quarantine e = jd_quarantine d \<Longrightarrow> quarantine_bounded e = quarantine_bounded d"
  by (simp add: quarantine_bounded_def)

definition head_valid :: "head \<Rightarrow> bool" where
  "head_valid cp \<longleftrightarrow> hd_format_version cp = 1 \<and> hd_sequence cp \<le> u64_max
     \<and> hd_byte_length cp \<le> u64_max \<and> length (hd_hash cp) = 64 \<and> list_all hex_byte (hd_hash cp)"

lemma zero_hash_hex: "length zero_hash = 64" "list_all hex_byte zero_hash"
  by (simp_all add: zero_hash_def list_all_iff hex_byte_def is_ascii_digit_def)

lemma chain_ok_sequences:
  "chain_ok E pre rs \<Longrightarrow> rs \<noteq> [] \<Longrightarrow> row_sequence (last rs) = length (pre @ rs)
     \<and> length (pre @ rs) \<le> u64_max \<and> length (row_hash (last rs)) = 64
     \<and> list_all hex_byte (row_hash (last rs))"
proof (induction rs arbitrary: pre)
  case (Cons r rs)
  show ?case
  proof (cases "rs = []")
    case True
    with Cons show ?thesis
      by (auto simp: link_ok_def verify_link_Inr validate_metadata_def res_simps hex64_parse_Inr
          split: if_splits)
  next
    case False
    with Cons.IH [of "pre @ [r]"] Cons.prems show ?thesis by simp
  qed
qed simp

lemma head_of_rows_valid:
  assumes "chain_ok E [] rows" and "len \<le> u64_max"
  shows "head_valid (head_of_rows rows len)"
  using assms chain_ok_sequences [OF assms(1)]
  by (cases "rows = []") (auto simp: head_valid_def head_of_rows_def zero_hash_hex)

lemma head_of_rows_checkpoint:
  assumes "chain_ok E [] rows"
  shows "checkpoint_in E (head_of_rows rows (length (encode_rows E rows))) (rows @ qs)"
  using chain_ok_sequences [OF assms]
  by (cases "rows = []") (auto simp: checkpoint_in_def head_of_rows_def chain_hash_def)

lemma checkpoint_in_append: "checkpoint_in E cp rows \<Longrightarrow> checkpoint_in E cp (rows @ qs)"
  by (simp add: checkpoint_in_def)

lemma head_of_rows_snoc:
  "head_of_rows (rows @ [r]) len =
     \<lparr> hd_format_version = 1, hd_sequence = row_sequence r, hd_hash = row_hash r, hd_byte_length = len \<rparr>"
  by (simp add: head_of_rows_def)

section \<open>A later clock\<close>

lemma row_bytes_now [simp]: "row_bytes (E\<lparr> je_now := n \<rparr>) = row_bytes E"
  by (rule ext) (simp add: row_bytes_def)

lemma encode_row_now [simp]: "encode_row (E\<lparr> je_now := n \<rparr>) = encode_row E"
  by (rule ext) (simp add: encode_row_def)

lemma encode_rows_now [simp]: "encode_rows (E\<lparr> je_now := n \<rparr>) = encode_rows E"
  by (rule ext) (simp add: encode_rows_def)

lemma computed_hash_now [simp]: "computed_hash (E\<lparr> je_now := n \<rparr>) = computed_hash E"
  by (rule ext) (simp add: computed_hash_def)

lemma checkpoint_in_now [simp]: "checkpoint_in (E\<lparr> je_now := n \<rparr>) = checkpoint_in E"
  by (intro ext) (simp add: checkpoint_in_def)

lemma chain_ok_later:
  "chain_ok E pre rs \<Longrightarrow> je_now E \<le> n \<Longrightarrow> chain_ok (E\<lparr> je_now := n \<rparr>) pre rs"
  by (induction rs arbitrary: pre) (auto simp: link_ok_def verify_link_Inr verify_time_Inr)

lemma jenv_now:
  "je_codec (E\<lparr> je_now := n \<rparr>) = je_codec E" "je_digest (E\<lparr> je_now := n \<rparr>) = je_digest E"
  by simp_all

lemma journal_env_later: "journal_env E \<Longrightarrow> journal_env (E\<lparr> je_now := n \<rparr>)"
  unfolding journal_env_def jenv_now .

lemma read_head_now [simp]: "read_head (E\<lparr> je_now := n \<rparr>) d = read_head E d"
  by (simp add: read_head_def)

lemma durable_later: "durable_rows E d rows \<Longrightarrow> je_now E \<le> n \<Longrightarrow> durable_rows (E\<lparr> je_now := n \<rparr>) d rows"
  by (auto simp: durable_rows_def chain_ok_later)

section \<open>Loading\<close>

context journal_env
begin

lemma read_head_written:
  assumes "head_valid cp" and "cd_head (je_codec E) cp = Some b" and "jd_head d = b @ [newline]"
    and "je_decode_hook E"
  shows "read_head E d = Inr cp"
proof -
  have "length b < 8192"
    using head_encodes [of cp] assms(1,2) by (auto simp: head_valid_def)
  moreover have "hex64_parse (hd_hash cp) = Inr (Hex64 (hd_hash cp))"
    using assms(1) by (simp add: hex64_parse_Inr head_valid_def)
  ultimately show ?thesis
    using assms head_roundtrip [OF assms(2)] by (simp add: read_head_def head_valid_def)
qed

lemma read_head_same: "jd_head e = jd_head d \<Longrightarrow> read_head E e = read_head E d"
  by (simp add: read_head_def)

lemma read_written_head:
  assumes "chain_ok E [] rows" and "je_decode_hook E" and "length (encode_rows E rows) \<le> u64_max"
    and "write_head E d (head_of_rows rows (length (encode_rows E rows))) g = (Inr (), d')"
  shows "read_head E d' = Inr (head_of_rows rows (length (encode_rows E rows)))" "jd_events d' = jd_events d"
  using read_head_written [OF head_of_rows_valid [OF assms(1,3)], where d = d'] assms(2,4)
  by (auto simp: write_head_def split: option.splits head_fault.splits)

lemma write_head_quarantine: "write_head E d h g = (r, d') \<Longrightarrow> jd_quarantine d' = jd_quarantine d"
  by (auto simp: write_head_def split: option.splits head_fault.splits)

lemma initialize_consistent:
  assumes "je_decode_hook E" and "initialize E g = (Inr j, d)"
  shows "consistent E j d" "jn_rows j = []" "jn_tail j = None"
proof -
  obtain u where w: "write_head E \<lparr> jd_events = [], jd_head = [], jd_quarantine = [] \<rparr> (head_of_rows [] 0) g = (Inr u, d)"
    "j = \<lparr> jn_head = head_of_rows [] 0, jn_rows = [], jn_tail = None \<rparr>"
    using assms(2) by (auto simp: initialize_def split: prod.splits sum.splits)
  with read_written_head [of "[]" _ g d, OF _ assms(1)] head_of_rows_checkpoint [of E "[]" "[]"]
    write_head_quarantine [OF w(1)]
  show "consistent E j d" "jn_rows j = []" "jn_tail j = None" by (auto simp: consistent_def quarantine_bounded_def)
qed

lemma load_verified:
  assumes "durable_rows E d rows" and "je_decode_hook E" and "je_max_bytes E \<le> u64_max"
  obtains t cp where "jd_events d = encode_rows E rows @ t" "read_head E d = Inr cp" "newline \<notin> set t" "length t \<le> 8192"
    "load E f d = (let head = head_of_rows rows (length (encode_rows E rows));
        tail = \<lparr> ot_bytes = t, ot_base_sequence = hd_sequence head \<rparr> in
      if t = [] then (Inr \<lparr> jn_head = head, jn_rows = rows, jn_tail = None \<rparr>, d)
      else case quarantine_tail E f (length (encode_rows E rows)) d tail of
          (Inl e, d') \<Rightarrow> (Inl e, d') | (Inr _, d') \<Rightarrow> (Inr \<lparr> jn_head = head, jn_rows = rows, jn_tail = Some tail \<rparr>, d'))"
    "checkpoint_in E cp rows"
proof -
  obtain t cp where d: "chain_ok E [] rows" "jd_events d = encode_rows E rows @ t" "length (jd_events d) \<le> je_max_bytes E"
      "newline \<notin> set t" "length t \<le> 8192" "read_head E d = Inr cp" "checkpoint_in E cp rows"
    using assms(1) by (auto simp: durable_rows_def)
  have "length (encode_rows E rows) \<le> u64_max" using d(2,3) assms(3) by simp
  from verify_bytes_complete [OF d(1) assms(2) this d(7,4,5)]
  have v: "verify_bytes E (jd_events d) cp = Inr \<lparr> vb_rows = rows,
      vb_complete_length = length (encode_rows E rows), vb_tail = (if t = [] then None else Some t) \<rparr>"
    using d(2) by simp
  have "hd_byte_length (head_of_rows rows n) = n" for n by (simp add: head_of_rows_def)
  then show thesis
    by (intro that [of t cp]) (use d v in \<open>auto simp: load_def Let_def split: prod.split sum.split\<close>)
qed

lemma quarantine_tail_cases:
  assumes "quarantine_tail E f keep d tail = (r, d')" and "quarantine_bounded d" and "length (ot_bytes tail) \<le> 8192"
  shows "jd_head d' = jd_head d" "quarantine_bounded d'" "jd_events d' = jd_events d \<or> jd_events d' = take keep (jd_events d)"
    "r = Inr () \<Longrightarrow> jd_events d' = take keep (jd_events d)
       \<and> map_of (jd_quarantine d') (quarantine_name (ot_base_sequence tail) (sha256 (je_digest E) [ot_bytes tail])) = Some (ot_bytes tail)"
    "f = TailOk \<Longrightarrow> r = Inr ()"
proof -
  let ?name = "quarantine_name (ot_base_sequence tail) (sha256 (je_digest E) [ot_bytes tail])"
  have ok: "\<not> (case map_of (jd_quarantine d) ?name of None \<Rightarrow> False | Some b \<Rightarrow> length b > bs_max (spec BkJournalRow))"
    using quarantine_bounded_lookup [OF assms(2)] by (fastforce split: option.splits)
  note defs = quarantine_tail_def Let_def put_file_def
  from assms(1) ok show "jd_head d' = jd_head d" "jd_events d' = jd_events d \<or> jd_events d' = take keep (jd_events d)"
    by (cases f; auto simp: defs split: if_splits)+
  from assms(1) ok show "f = TailOk \<Longrightarrow> r = Inr ()" by (auto simp: defs split: if_splits)
  from assms(1) ok show "r = Inr () \<Longrightarrow> jd_events d' = take keep (jd_events d) \<and> map_of (jd_quarantine d') ?name = Some (ot_bytes tail)"
    by (cases f) (auto simp: defs split: if_splits)
  have "jd_quarantine d' = jd_quarantine d \<or> jd_quarantine d' = put_file ?name (ot_bytes tail) (jd_quarantine d)"
    using assms(1) ok by (cases f) (auto simp: quarantine_tail_def Let_def split: if_splits)
  then show "quarantine_bounded d'"
    using quarantine_bounded_same [of d' d] quarantine_bounded_put [OF assms(2,3)] assms(2) by blast
qed

lemma load_durable:
  assumes "durable_rows E d rows" and "je_decode_hook E" and "je_max_bytes E \<le> u64_max" and "load E f d = (r, d')"
  shows "(\<exists>e. r = Inl e \<and> durable_rows E d' rows) \<or>
    (\<exists>k. r = Inr k \<and> jn_rows k = rows \<and> consistent E k d'
       \<and> jd_events d = jd_events d' @ (case jn_tail k of None \<Rightarrow> [] | Some tail \<Rightarrow> ot_bytes tail)
       \<and> (\<forall>tail. jn_tail k = Some tail \<longrightarrow> ot_bytes tail \<noteq> [] \<and> map_of (jd_quarantine d')
            (quarantine_name (length rows) (sha256 (je_digest E) [ot_bytes tail])) = Some (ot_bytes tail)))"
    "f = TailOk \<Longrightarrow> is_ok r"
proof -
  obtain t cp where d: "jd_events d = encode_rows E rows @ t" "read_head E d = Inr cp" "newline \<notin> set t" "length t \<le> 8192"
      "load E f d = (let head = head_of_rows rows (length (encode_rows E rows));
        tail = \<lparr> ot_bytes = t, ot_base_sequence = hd_sequence head \<rparr> in
      if t = [] then (Inr \<lparr> jn_head = head, jn_rows = rows, jn_tail = None \<rparr>, d)
      else case quarantine_tail E f (length (encode_rows E rows)) d tail of
          (Inl e, d') \<Rightarrow> (Inl e, d') | (Inr _, d') \<Rightarrow> (Inr \<lparr> jn_head = head, jn_rows = rows, jn_tail = Some tail \<rparr>, d'))"
      "checkpoint_in E cp rows"
    using load_verified [OF assms(1-3), of f] by blast
  have base: "chain_ok E [] rows" "quarantine_bounded d" "length (jd_events d) \<le> je_max_bytes E"
    using assms(1) by (auto simp: durable_rows_def)
  have seq: "hd_sequence (head_of_rows rows n) = length rows" for n
    using chain_ok_sequences [OF base(1)] by (auto simp: head_of_rows_def)
  let ?tail = "\<lparr> ot_bytes = t, ot_base_sequence = length rows \<rparr>"
  obtain r1 d1 where q: "quarantine_tail E f (length (encode_rows E rows)) d ?tail = (r1, d1)" by force
  note q' = quarantine_tail_cases [OF q base(2)]
  have cut: "durable_rows E d1 rows" if "t \<noteq> []"
    using q' d base read_head_same [of d1 d] by (auto simp: durable_rows_def)
  show "f = TailOk \<Longrightarrow> is_ok r"
    using assms(4) d(4,5) q q'(5) seq by (auto simp: Let_def is_ok_def split: if_splits sum.splits)
  show "(\<exists>e. r = Inl e \<and> durable_rows E d' rows) \<or>
    (\<exists>k. r = Inr k \<and> jn_rows k = rows \<and> consistent E k d'
       \<and> jd_events d = jd_events d' @ (case jn_tail k of None \<Rightarrow> [] | Some tail \<Rightarrow> ot_bytes tail)
       \<and> (\<forall>tail. jn_tail k = Some tail \<longrightarrow> ot_bytes tail \<noteq> [] \<and> map_of (jd_quarantine d')
            (quarantine_name (length rows) (sha256 (je_digest E) [ot_bytes tail])) = Some (ot_bytes tail)))"
  proof (cases "t = []")
    case True
    with assms(4) d base show ?thesis by (auto simp: Let_def consistent_def)
  next
    case False
    show ?thesis
    proof (cases r1)
      case (Inl e)
      with False assms(4) d(5) q seq cut show ?thesis by (auto simp: Let_def)
    next
      case (Inr u)
      have "consistent E \<lparr> jn_head = head_of_rows rows (length (encode_rows E rows)), jn_rows = rows, jn_tail = Some ?tail \<rparr> d1"
        using q' Inr d base read_head_same [of d1 d] by (auto simp: consistent_def)
      with False Inr assms(4) d q seq q'(4) show ?thesis by (auto simp: Let_def)
    qed
  qed
qed

lemma prepared_row_links:
  assumes "consistent E j d" and "prepare_rows E j [r] = Inr rows"
  shows "\<exists>row. rows = [row] \<and> chain_ok E [] (jn_rows j @ [row])"
proof -
  have c: "chain_ok E [] (jn_rows j)" and h: "jn_head j = head_of_rows (jn_rows j) (length (jd_events d))"
    using assms(1) by (simp_all add: consistent_def)
  have "hd_sequence (jn_head j) = length (jn_rows j)" "hd_hash (jn_head j) = chain_hash (jn_rows j)"
    "last_at j = prior_at (jn_rows j)"
    using chain_ok_sequences [OF c] h
    by (auto simp: head_of_rows_def chain_hash_def last_at_def prior_at_def)
  then have "chain_ok E (jn_rows j) rows \<and> length rows = 1"
    using prepare_loop_chain [of "jn_rows j" "[r]" rows] assms(2) by (simp add: prepare_rows_def)
  with c show ?thesis by (cases rows) (auto simp: chain_ok_append)
qed

text \<open>The possible disks an append leaves, whatever fails.\<close>

lemma append_disk:
  assumes "append_tracked E f j d row = (res, j', d')"
    and "jn_head j = head_of_rows (jn_rows j) (length (jd_events d))"
    and "length (jd_events d) \<le> je_max_bytes E"
  obtains
    (old) t m where "d' = d\<lparr> jd_events := jd_events d @ t \<rparr>" "newline \<notin> set t" "length t \<le> 8192" "t = take m (encode_row E row)"
      "length (jd_events d') \<le> je_max_bytes E" "\<exists>e. res = Inl e" "j' = j"
  | (grown) "jd_events d' = jd_events d @ encode_row E row"
      "jd_head d' = jd_head d" "length (jd_events d') \<le> je_max_bytes E" "\<exists>e. res = Inl e" "j' = j"
  | (moved) b where "jd_events d' = jd_events d @ encode_row E row"
      "cd_head (je_codec E) (head_of_rows (jn_rows j @ [row]) (length (jd_events d'))) = Some b"
      "jd_head d' = b @ [newline]" "length (jd_events d') \<le> je_max_bytes E"
      "res = Inr () \<Longrightarrow> j' = j\<lparr> jn_head := head_of_rows (jn_rows j @ [row]) (length (jd_events d')),
          jn_rows := jn_rows j @ [row] \<rparr>"
      "\<And>e. res = Inl e \<Longrightarrow> j' = j"
proof (cases "append_checks E j row")
  case (Inl e)
  with assms(1,3) old [of "[]" 0] show ?thesis by (auto simp: append_tracked_def)
next
  case (Inr p)
  obtain bytes len where p: "p = (bytes, len)" by force
  have b: "row_bytes E row = Inr bytes" and len: "len = length (jd_events d) + length bytes"
    "len \<le> je_max_bytes E"
    using Inr p assms(2) by (auto simp: append_checks_def res_simps head_of_rows_def)
  note shape = encode_row_shape [OF b]
  have enc: "encode_row E row = bytes" by (rule encode_row_Inr [OF b])
  show ?thesis
  proof (cases "af_open f")
    case True
    with assms(1,3) Inr p old [of "[]" 0] show ?thesis by (auto simp: append_tracked_def)
  next
    case open_ok: False
    show ?thesis
    proof (cases "af_write f")
      case (Some k)
      with assms(1) Inr p open_ok
      have d': "d' = d\<lparr> jd_events := jd_events d @ take k bytes \<rparr>" "res = Inl Unavailable" "j' = j"
        by (auto simp: append_tracked_def)
      show ?thesis
      proof (cases "k < length bytes")
        case True
        have "newline \<notin> set (take k bytes)"
          using shape True by (metis butlast_take in_set_takeD in_set_butlastD less_imp_le_nat
              linorder_not_le not_less_eq_eq take_butlast)
        with d' shape len True enc show ?thesis by (intro old [of "take k bytes" k]) auto
      next
        case False
        with d' enc len show ?thesis by (intro grown) auto
      qed
    next
      case None
      let ?head = "head_of_rows (jn_rows j @ [row]) len"
      show ?thesis
      proof (cases "af_sync f \<or> af_hook f")
        case True
        with assms(1) Inr p open_ok None enc len show ?thesis
          by (intro grown) (auto simp: append_tracked_def Let_def)
      next
        case False
        with assms(1) Inr p open_ok None enc len show ?thesis
          by (cases "cd_head (je_codec E) ?head"; cases "af_head f")
             (auto simp: append_tracked_def Let_def write_head_def head_of_rows_snoc
               intro: grown moved)
      qed
    qed
  qed
qed

lemma append_quarantine: "append_tracked E f j d row = (res, j', d') \<Longrightarrow> jd_quarantine d' = jd_quarantine d"
  by (auto simp: append_tracked_def write_head_def Let_def split: sum.splits if_splits option.splits prod.splits head_fault.splits)

lemma append_then_load:
  assumes "je_decode_hook E" and "je_max_bytes E \<le> u64_max" and "consistent E j d"
    and "chain_ok E [] (jn_rows j @ [row])" and "append_tracked E f j d row = (res, j', d')"
  shows "\<exists>rows t cp. chain_ok E [] rows \<and> jd_events d' = encode_rows E rows @ t
    \<and> length (jd_events d') \<le> je_max_bytes E \<and> newline \<notin> set t \<and> length t \<le> 8192
    \<and> read_head E d' = Inr cp \<and> checkpoint_in E cp rows
    \<and> quarantine_bounded d' \<and> (\<exists>m. t = take m (encode_row E row))
    \<and> (rows = jn_rows j \<or> rows = jn_rows j @ [row] \<and> t = [])
    \<and> (res = Inr () \<longrightarrow> rows = jn_rows j @ [row] \<and> consistent E j' d' \<and> read_head E d' = Inr (jn_head j'))
    \<and> (\<forall>e. res = Inl e \<longrightarrow> j' = j)"
proof -
  let ?new = "head_of_rows (jn_rows j @ [row]) (length (encode_rows E (jn_rows j @ [row])))"
  have c: "chain_ok E [] (jn_rows j)" and ev: "jd_events d = encode_rows E (jn_rows j)"
    and le: "length (jd_events d) \<le> je_max_bytes E"
    and h: "jn_head j = head_of_rows (jn_rows j) (length (jd_events d))"
    using assms(3) by (auto simp: consistent_def)
  obtain cp where cp: "read_head E d = Inr cp" "checkpoint_in E cp (jn_rows j)"
    using assms(3) by (auto simp: consistent_def)
  have same: "read_head E e = Inr cp" if "jd_head e = jd_head d" for e
    using cp(1) read_head_same [OF that] by simp
  have q: "quarantine_bounded d'"
    using quarantine_bounded_same [OF append_quarantine [OF assms(5)]] assms(3) by (simp add: consistent_def)
  have none: "\<exists>m. [] = take m (encode_row E row)" by (rule exI [of _ 0]) simp
  from assms(5) h le show ?thesis
  proof (cases rule: append_disk)
    case (old t m)
    then show ?thesis
      using c ev same [of d'] cp(2) q
      by (intro exI [of _ "jn_rows j"] exI [of _ t] exI [of _ cp]) auto
  next
    case grown
    then show ?thesis
      using assms(4) ev q none same [of d'] checkpoint_in_append [OF cp(2)]
      by (intro exI [of _ "jn_rows j @ [row]"] exI [of _ "[]"] exI [of _ cp]) auto
  next
    case (moved nb)
    have len: "length (encode_rows E (jn_rows j @ [row])) = length (jd_events d')" using moved ev by simp
    have "head_valid ?new" by (rule head_of_rows_valid [OF assms(4)]) (use moved len assms(2) in simp)
    from read_head_written [OF this _ _ assms(1), of nb d'] have "read_head E d' = Inr ?new"
      using moved len by simp
    moreover from this have "res = Inr () \<longrightarrow> consistent E j' d' \<and> read_head E d' = Inr (jn_head j')"
      using moved ev len assms(4) q head_of_rows_checkpoint [OF assms(4), of "[]"] by (auto simp: consistent_def)
    ultimately show ?thesis
      using assms(4) q none moved ev len head_of_rows_checkpoint [OF assms(4), of "[]"]
      by (intro exI [of _ "jn_rows j @ [row]"] exI [of _ "[]"] exI [of _ ?new]) auto
  qed
qed

lemma append_durable:
  assumes "je_decode_hook E" and "je_max_bytes E \<le> u64_max" and "consistent E j d"
    and "chain_ok E [] (jn_rows j @ [row])" and "append_tracked E f j d row = (res, j', d')"
  shows "durable_rows E d' (jn_rows j) \<or> durable_rows E d' (jn_rows j @ [row])"
    "res = Inr () \<Longrightarrow> consistent E j' d' \<and> jn_rows j' = jn_rows j @ [row]"
proof -
  from append_then_load [OF assms] show "durable_rows E d' (jn_rows j) \<or> durable_rows E d' (jn_rows j @ [row])"
    unfolding durable_rows_def by blast
  assume "res = Inr ()"
  moreover from this have "jn_rows j' = jn_rows j @ [row]"
    using assms(5) by (auto simp: append_tracked_def Let_def split: sum.splits if_splits option.splits prod.splits)
  ultimately show "consistent E j' d' \<and> jn_rows j' = jn_rows j @ [row]" using append_then_load [OF assms] by blast
qed

section \<open>Finishing a recovery\<close>

lemma publish_recovery_keeps:
  assumes "je_decode_hook E" and "je_max_bytes E \<le> u64_max" and "consistent E j d" and "publish_recovery E g j d = (r, j', d')"
  shows "j' = j \<and> durable_rows E d' (jn_rows j) \<and> (r = Inr () \<longrightarrow> consistent E j d') \<and> jd_quarantine d' = jd_quarantine d"
proof -
  let ?head = "head_of_rows (jn_rows j) (length (encode_rows E (jn_rows j)))"
  have c: "chain_ok E [] (jn_rows j)" "jd_events d = encode_rows E (jn_rows j)" "length (jd_events d) \<le> je_max_bytes E"
      "jn_head j = ?head" "quarantine_bounded d"
    using assms(3) by (auto simp: consistent_def)
  have valid: "head_valid ?head" by (rule head_of_rows_valid [OF c(1)]) (use c(2,3) assms(2) in simp)
  have new: "consistent E j (d\<lparr> jd_head := b @ [newline] \<rparr>)" if "cd_head (je_codec E) ?head = Some b" for b
    using read_head_written [OF valid that _ assms(1), of "d\<lparr> jd_head := b @ [newline] \<rparr>"]
      head_of_rows_checkpoint [OF c(1), of "[]"] c by (auto simp: consistent_def quarantine_bounded_def)
  show ?thesis
    using assms(3,4) c(4) new consistent_durable_rows [OF new] consistent_durable_rows [OF assms(3)]
    by (auto simp: publish_recovery_def write_head_def split: sum.splits option.splits head_fault.splits)
qed

lemma system_append:
  assumes "je_decode_hook E" and "je_max_bytes E \<le> u64_max" and "consistent E j d"
    and "prepare_rows E j [row] = Inr rows" and "append_tracked E f j d (rows ! 0) = (r, j', d')"
  shows "\<exists>q new. (\<exists>n p h. q = row\<lparr> row_sequence := n, row_previous_hash := p, row_hash := h \<rparr>) \<and> new \<in> {[], [q]}
    \<and> durable_rows E d' (jn_rows j @ new) \<and> (r = Inr () \<longrightarrow> new = [q] \<and> consistent E j' d' \<and> jn_rows j' = jn_rows j @ new)"
proof -
  obtain q where q: "rows = [q]" "chain_ok E [] (jn_rows j @ [q])" using prepared_row_links [OF assms(3,4)] by blast
  moreover have "\<exists>n p h. q = row\<lparr> row_sequence := n, row_previous_hash := p, row_hash := h \<rparr>"
    using assms(4) q(1) by (auto simp: prepare_rows_def res_simps Let_def)
  ultimately show ?thesis
    using append_durable [OF assms(1-3) q(2), of f r j' d'] assms(5) consistent_durable_rows [of E j' d']
    by (cases "r = Inr ()") (force intro: exI [of _ q])+
qed

text \<open>A recovery adds the one row that records the quarantined tail, if there was one, and nothing else.\<close>

lemma finish_recovery_keeps:
  assumes "je_decode_hook E" and "je_max_bytes E \<le> u64_max" and "consistent E j d" and "finish_recovery E f g j d = (r, j', d')"
  shows "\<exists>new. durable_rows E d' (jn_rows j @ new) \<and> jd_quarantine d' = jd_quarantine d
    \<and> (r = Inr () \<longrightarrow> consistent E j' d' \<and> jn_rows j' = jn_rows j @ new \<and> length new = (if jn_tail j = None then 0 else 1))
    \<and> (\<forall>x \<in> set new. \<exists>tail n p h. jn_tail j = Some tail
         \<and> x = (tail_row E tail)\<lparr> row_sequence := n, row_previous_hash := p, row_hash := h \<rparr>)"
proof (cases "jn_tail j")
  case None
  with publish_recovery_keeps [OF assms(1-3)] assms(4) show ?thesis
    by (intro exI [of _ "[]"]) (auto simp: finish_recovery_def)
next
  case (Some tail)
  let ?j = "j\<lparr> jn_tail := None \<rparr>"
  have c: "consistent E ?j d" and kept: "jn_rows ?j = jn_rows j" using assms(3) by (auto simp: consistent_def)
  show ?thesis
  proof (cases "prepare_rows E ?j [tail_row E tail]")
    case (Inl e)
    with Some assms(4) consistent_durable_rows [OF assms(3)] show ?thesis
      by (intro exI [of _ "[]"]) (auto simp: finish_recovery_def)
  next
    case (Inr rows)
    obtain r1 j1 d1 where a: "append_tracked E f ?j d (rows ! 0) = (r1, j1, d1)" by (metis prod_cases3)
    obtain q new where q: "\<exists>n p h. q = (tail_row E tail)\<lparr> row_sequence := n, row_previous_hash := p, row_hash := h \<rparr>"
        "new \<in> {[], [q]}" "durable_rows E d1 (jn_rows j @ new)"
        "r1 = Inr () \<Longrightarrow> new = [q] \<and> consistent E j1 d1 \<and> jn_rows j1 = jn_rows j @ new"
      using system_append [OF assms(1,2) c Inr a] unfolding kept by blast
    have same: "jd_quarantine d1 = jd_quarantine d" by (rule append_quarantine [OF a])
    have rec: "\<forall>x \<in> set new. \<exists>tail n p h. jn_tail j = Some tail
         \<and> x = (tail_row E tail)\<lparr> row_sequence := n, row_previous_hash := p, row_hash := h \<rparr>"
      using q(1,2) Some by fastforce
    show ?thesis
    proof (cases r1)
      case (Inl e)
      with Some Inr a assms(4) q(3) same rec show ?thesis by (intro exI [of _ new]) (auto simp: finish_recovery_def)
    next
      case (Inr u)
      with Some \<open>prepare_rows E ?j [tail_row E tail] = Inr rows\<close> a assms(4) have "publish_recovery E g j1 d1 = (r, j', d')"
        by (auto simp: finish_recovery_def)
      from publish_recovery_keeps [OF assms(1,2) _ this] q(4) Inr same rec Some show ?thesis
        by (intro exI [of _ new]) auto
    qed
  qed
qed

end

text \<open>
  Reopening a disk that holds some rows and a torn tail: the rows and, for a tail, the record of it, with the torn
  bytes in their quarantine file.
\<close>

definition tail_recorded :: "jenv \<Rightarrow> nat \<Rightarrow> string \<Rightarrow> jdisk \<Rightarrow> journal_row \<Rightarrow> bool" where
  "tail_recorded E n t d x \<longleftrightarrow> row_event x = EvTailRecovered \<and> row_ticket_id x = []
     \<and> row_quarantined_bytes x = length t \<and> row_quarantine_hash x = sha256 (je_digest E) [t]
     \<and> map_of (jd_quarantine d) (quarantine_name n (row_quarantine_hash x)) = Some t"

lemma tail_recorded_now [simp]: "tail_recorded (E\<lparr> je_now := n \<rparr>) = tail_recorded E"
  by (intro ext) (simp add: tail_recorded_def)

context journal_env
begin

lemma reopen_durable:
  assumes "je_decode_hook E" and "je_max_bytes E \<le> u64_max" and "durable_rows E d rows"
    and "jd_events d = encode_rows E rows @ t" and "open_journal E w f g (Some d) = (Inr q, e)"
  shows "consistent E q e"
    "if t = [] then jn_rows q = rows else (\<exists>x. jn_rows q = rows @ [x] \<and> tail_recorded E (length rows) t e x)"
proof -
  obtain l d1 where l: "load E w d = (Inr l, d1)" "finish_recovery E f g l d1 = (Inr (), q, e)"
    using assms(5) by (auto simp: open_journal_def split: prod.splits sum.splits)
  from load_durable(1) [OF assms(3,1,2) l(1)]
  have c: "jn_rows l = rows" "consistent E l d1" "jd_events d = jd_events d1 @ (case jn_tail l of None \<Rightarrow> [] | Some x \<Rightarrow> ot_bytes x)"
      "\<And>x. jn_tail l = Some x \<Longrightarrow> ot_bytes x \<noteq> [] \<and> map_of (jd_quarantine d1)
          (quarantine_name (length rows) (sha256 (je_digest E) [ot_bytes x])) = Some (ot_bytes x)"
    by auto
  have t: "t = (case jn_tail l of None \<Rightarrow> [] | Some x \<Rightarrow> ot_bytes x)" using c(1-3) assms(4) by (simp add: consistent_def)
  obtain new where new: "jd_quarantine e = jd_quarantine d1" "consistent E q e" "jn_rows q = rows @ new"
      "length new = (if jn_tail l = None then 0 else 1)" "\<forall>x \<in> set new. \<exists>tail n p h. jn_tail l = Some tail
       \<and> x = (tail_row E tail)\<lparr> row_sequence := n, row_previous_hash := p, row_hash := h \<rparr>"
    using finish_recovery_keeps [OF assms(1,2) c(2) l(2)] c(1) by auto
  show "consistent E q e" by (rule new(2))
  show "if t = [] then jn_rows q = rows else (\<exists>x. jn_rows q = rows @ [x] \<and> tail_recorded E (length rows) t e x)"
  proof (cases "jn_tail l")
    case None
    with new(3,4) t show ?thesis by simp
  next
    case (Some y)
    then obtain x where x: "new = [x]" "\<exists>n p h. x = (tail_row E y)\<lparr> row_sequence := n, row_previous_hash := p, row_hash := h \<rparr>"
      using new(4,5) by (auto simp: length_Suc_conv)
    with new(1,3) c(4) [OF Some] Some t show ?thesis by (auto simp: tail_row_def empty_row_def tail_recorded_def)
  qed
qed

end

section \<open>Tampering\<close>

lemma hex_inj: "hex a = hex b \<longleftrightarrow> a = b"
  by (metis decode_pairs_hex)

definition chain_preimages :: "jenv \<Rightarrow> journal_row list \<Rightarrow> string set" where
  "chain_preimages E rows =
     {journal_domain @ b | r b. r \<in> set rows \<and> cd_unsigned (je_codec E) r = Some b}"

lemma chain_preimages_append:
  "chain_preimages E (rs @ qs) = chain_preimages E rs \<union> chain_preimages E qs"
  by (auto simp: chain_preimages_def)

context journal_env
begin

lemma equal_hash_equal_row:
  assumes "link_ok E pre r" and "link_ok E pre' q" and "row_hash r = row_hash q"
    and "inj_on (je_digest E) S" and "chain_preimages E [r] \<subseteq> S" and "chain_preimages E [q] \<subseteq> S"
  shows "r = q \<and> chain_hash pre = chain_hash pre'"
proof -
  obtain a b where a: "cd_unsigned (je_codec E) r = Some a" "row_hash r = hex (je_digest E (journal_domain @ a))"
    and b: "cd_unsigned (je_codec E) q = Some b" "row_hash q = hex (je_digest E (journal_domain @ b))"
    using assms(1,2) by (auto simp: link_ok_def verify_link_Inr computed_hash_def res_simps sha256_def)
  then have "je_digest E (journal_domain @ a) = je_digest E (journal_domain @ b)"
    using assms(3) by (simp add: hex_inj)
  then have "a = b"
    using assms(4-6) a(1) b(1) by (auto simp: chain_preimages_def dest: inj_onD)
  then have "r = q" using unsigned_inj a(1) b(1) assms(3) by blast
  with assms(1,2) show ?thesis by (auto simp: link_ok_def verify_link_Inr)
qed

lemma equal_hash_equal_chain:
  assumes "chain_ok E [] rs" and "chain_ok E [] qs" and "length rs = length qs"
    and "chain_hash rs = chain_hash qs" and "inj_on (je_digest E) S"
    and "chain_preimages E rs \<subseteq> S" and "chain_preimages E qs \<subseteq> S"
  shows "rs = qs"
  using assms(1-4,6,7)
proof (induction rs arbitrary: qs rule: rev_induct)
  case (snoc r rs)
  then obtain q ps where qs: "qs = ps @ [q]" by (cases qs rule: rev_cases) auto
  have links: "link_ok E rs r" "link_ok E ps q" using snoc.prems qs by (auto simp: chain_ok_append)
  have sub: "chain_preimages E [r] \<subseteq> S" "chain_preimages E [q] \<subseteq> S"
    "chain_preimages E rs \<subseteq> S" "chain_preimages E ps \<subseteq> S"
    using snoc.prems qs by (simp_all add: chain_preimages_append)
  have eq: "r = q" "chain_hash rs = chain_hash ps"
    using equal_hash_equal_row [OF links _ assms(5) sub(1,2)] snoc.prems qs by auto
  then have "rs = ps"
    using snoc.IH [of ps] snoc.prems qs sub by (auto simp: chain_ok_append)
  with eq qs show ?case by simp
qed simp

end

lemma checkpoint_chain:
  assumes "chain_ok E [] rows" and "checkpoint_in E cp rows"
  shows "hd_sequence cp \<le> length rows" "chain_ok E [] (take (hd_sequence cp) rows)"
    "chain_hash (take (hd_sequence cp) rows) = hd_hash cp" "length (encode_rows E (take (hd_sequence cp) rows)) = hd_byte_length cp"
  using assms chain_ok_append [of E "[]" "take (hd_sequence cp) rows" "drop (hd_sequence cp) rows"]
  by (auto simp: checkpoint_in_def)

lemma chain_preimages_take: "chain_preimages E (take n rows) \<subseteq> chain_preimages E rows"
  by (auto simp: chain_preimages_def dest: in_set_takeD)

section \<open>Properties\<close>

text \<open>
  C10: crash safety of the journal. Take a journal consistent with its disk and a row prepared
  for it, and append the row with any combination of failing steps (the file does not open,
  the write stops after any number of bytes, the sync or a hook fails, the checkpoint is not
  replaced or is replaced before an error). Loading the resulting disk at any later time
  succeeds; it gives the old rows or the old rows and the new one, exactly the latter when
  the append reported success, with nothing but their encoding left in the events file, and a
  failed append leaves the journal in memory as it was. A reported success also leaves the
  checkpoint on the disk at the new head. The bytes after the rows, if any, are a part of the row
  of the failed append. A reopening, whatever fails in it, either reports an error or gives a
  journal consistent with its disk that holds exactly those rows when there was no torn part;
  when there was one, the old rows followed by a single recovery row with the length and digest
  of the torn bytes, which are kept in the quarantine file of that name.
\<close>

theorem append_crash_recovery:
  assumes "journal_env E" and "je_decode_hook E" and "je_max_bytes E \<le> u64_max"
    and "consistent E j d" and "prepare_rows E j [r] = Inr [row]"
    and "append_tracked E f j d row = (res, j', d')" and "je_now E \<le> n"
  shows "\<exists>k d'' t. load (E\<lparr> je_now := n \<rparr>) TailOk d' = (Inr k, d'')
    \<and> (jn_rows k = jn_rows j \<or> jn_rows k = jn_rows j @ [row])
    \<and> (res = Inr () \<longrightarrow> jn_rows k = jn_rows j @ [row] \<and> consistent E j' d' \<and> read_head E d' = Inr (jn_head j'))
    \<and> jd_events d'' = encode_rows E (jn_rows k)
    \<and> (\<forall>e. res = Inl e \<longrightarrow> j' = j)
    \<and> jd_events d' = encode_rows E (jn_rows k) @ t
    \<and> (t \<noteq> [] \<longrightarrow> jn_rows k = jn_rows j \<and> (\<exists>m. t = take m (encode_row E row)))
    \<and> (\<forall>w g h q e. open_journal (E\<lparr> je_now := n \<rparr>) w g h (Some d') = (Inr q, e) \<longrightarrow>
         consistent (E\<lparr> je_now := n \<rparr>) q e
         \<and> (if t = [] then jn_rows q = jn_rows k
            else (\<exists>x. jn_rows q = jn_rows k @ [x] \<and> tail_recorded E (length (jn_rows k)) t e x)))"
proof -
  let ?E = "E\<lparr> je_now := n \<rparr>"
  note env = journal_env_later [OF assms(1), of n]
  have link: "chain_ok E [] (jn_rows j @ [row])"
    using journal_env.prepared_row_links [OF assms(1,4,5)] by auto
  obtain rows t cp where d': "chain_ok E [] rows" "jd_events d' = encode_rows E rows @ t"
      "length (jd_events d') \<le> je_max_bytes E" "newline \<notin> set t" "length t \<le> 8192"
      "read_head E d' = Inr cp" "checkpoint_in E cp rows" "quarantine_bounded d'" "\<exists>m. t = take m (encode_row E row)"
      "rows = jn_rows j \<or> rows = jn_rows j @ [row] \<and> t = []"
      "res = Inr () \<longrightarrow> rows = jn_rows j @ [row] \<and> consistent E j' d' \<and> read_head E d' = Inr (jn_head j')"
      "\<forall>e. res = Inl e \<longrightarrow> j' = j"
    using journal_env.append_then_load [OF assms(1-4) link assms(6)] by blast
  have "durable_rows E d' rows" using d'(1-8) by (auto simp: durable_rows_def)
  note dur = durable_later [OF this assms(7)]
  obtain k d'' where k: "load ?E TailOk d' = (Inr k, d'')" "jn_rows k = rows" "jd_events d'' = encode_rows E rows"
    using journal_env.load_durable [OF env dur, of TailOk] assms(2,3)
    by (cases "load ?E TailOk d'") (auto simp: consistent_def is_ok_def)
  have "consistent ?E q e \<and> (if t = [] then jn_rows q = jn_rows k
      else (\<exists>x. jn_rows q = jn_rows k @ [x] \<and> tail_recorded E (length (jn_rows k)) t e x))"
    if "open_journal ?E w g h (Some d') = (Inr q, e)" for w g h q e
    using journal_env.reopen_durable [OF env _ _ dur _ that] d'(2) k(2) assms(2,3) by (cases "t = []") simp_all
  then have reopened: "\<forall>w g h q e. open_journal ?E w g h (Some d') = (Inr q, e) \<longrightarrow> consistent ?E q e
      \<and> (if t = [] then jn_rows q = jn_rows k
         else (\<exists>x. jn_rows q = jn_rows k @ [x] \<and> tail_recorded E (length (jn_rows k)) t e x))"
    by blast
  have "t \<noteq> [] \<longrightarrow> jn_rows k = jn_rows j \<and> (\<exists>m. t = take m (encode_row E row))" using d'(9,10) k(2) by blast
  with k d'(2,10-12) reopened show ?thesis by (intro exI [of _ k] exI [of _ d''] exI [of _ t] conjI) auto
qed

text \<open>
  C14: what the loader accepts, exactly. A file is accepted under a checkpoint just when it is the
  canonical encoding of a chain of rows from the zero hash, followed by at most one
  unterminated tail of at most one row's size, and the checkpoint names a prefix of the rows
  by its length, last hash and size, so that no committed row is missing; what it answers is
  that chain, the length of its encoding and the tail.
\<close>

theorem verify_bytes_exact:
  assumes "journal_env E" and "je_decode_hook E" and "length bytes \<le> u64_max"
  shows "verify_bytes E bytes cp = Inr v \<longleftrightarrow>
    (\<exists>rows t. chain_ok E [] rows \<and> checkpoint_in E cp rows \<and> bytes = encode_rows E rows @ t
       \<and> newline \<notin> set t \<and> length t \<le> 8192
       \<and> v = \<lparr> vb_rows = rows, vb_complete_length = length (encode_rows E rows), vb_tail = (if t = [] then None else Some t) \<rparr>)"
proof
  assume "verify_bytes E bytes cp = Inr v"
  from journal_env.verify_bytes_sound [OF assms(1) this] obtain t where
      "chain_ok E [] (vb_rows v) \<and> checkpoint_in E cp (vb_rows v) \<and> bytes = encode_rows E (vb_rows v) @ t
        \<and> newline \<notin> set t \<and> length t \<le> 8192 \<and> vb_complete_length v = length (encode_rows E (vb_rows v))
        \<and> vb_tail v = (if t = [] then None else Some t)"
    by blast
  then show "\<exists>rows t. chain_ok E [] rows \<and> checkpoint_in E cp rows \<and> bytes = encode_rows E rows @ t
      \<and> newline \<notin> set t \<and> length t \<le> 8192
      \<and> v = \<lparr> vb_rows = rows, vb_complete_length = length (encode_rows E rows), vb_tail = (if t = [] then None else Some t) \<rparr>"
    by (intro exI [of _ "vb_rows v"] exI [of _ t]) simp
next
  assume "\<exists>rows t. chain_ok E [] rows \<and> checkpoint_in E cp rows \<and> bytes = encode_rows E rows @ t
      \<and> newline \<notin> set t \<and> length t \<le> 8192
      \<and> v = \<lparr> vb_rows = rows, vb_complete_length = length (encode_rows E rows), vb_tail = (if t = [] then None else Some t) \<rparr>"
  with journal_env.verify_bytes_complete [OF assms(1) _ assms(2)] assms(3) show "verify_bytes E bytes cp = Inr v" by auto
qed

text \<open>
  C13: tamper evidence. Take two files that verify under the same checkpoint, one of them the
  file as it was written and the other what is found later. Unless the digest collides on two
  of the row encodings in them, they agree byte for byte up to the length the checkpoint
  records, and they hold the same committed rows, as many as the checkpoint counts: a row
  below the checkpoint that is changed, dropped, inserted or moved is refused.
\<close>

theorem journal_tamper_evident:
  assumes "journal_env E"
    and "verify_bytes E bytes cp = Inr v" and "verify_bytes E bytes' cp = Inr w"
    and "inj_on (je_digest E) (chain_preimages E (vb_rows v) \<union> chain_preimages E (vb_rows w))"
  shows "hd_sequence cp \<le> length (vb_rows v) \<and> hd_sequence cp \<le> length (vb_rows w)
    \<and> take (hd_sequence cp) (vb_rows v) = take (hd_sequence cp) (vb_rows w)
    \<and> hd_byte_length cp \<le> length bytes \<and> take (hd_byte_length cp) bytes = take (hd_byte_length cp) bytes'"
proof -
  let ?S = "chain_preimages E (vb_rows v) \<union> chain_preimages E (vb_rows w)" and ?n = "hd_sequence cp"
  obtain s t where v: "chain_ok E [] (vb_rows v)" "checkpoint_in E cp (vb_rows v)" "bytes = encode_rows E (vb_rows v) @ s"
      and w: "chain_ok E [] (vb_rows w)" "checkpoint_in E cp (vb_rows w)" "bytes' = encode_rows E (vb_rows w) @ t"
    using journal_env.verify_bytes_sound [OF assms(1)] assms(2,3) by blast
  note a = checkpoint_chain [OF v(1,2)] and b = checkpoint_chain [OF w(1,2)]
  have "chain_preimages E (take ?n (vb_rows v)) \<subseteq> ?S" "chain_preimages E (take ?n (vb_rows w)) \<subseteq> ?S"
    using chain_preimages_take [of E ?n "vb_rows v"] chain_preimages_take [of E ?n "vb_rows w"] by auto
  from journal_env.equal_hash_equal_chain [OF assms(1) a(2) b(2) _ _ assms(4) this] a b
  have eq: "take ?n (vb_rows v) = take ?n (vb_rows w)" by simp
  have split: "encode_rows E rows = encode_rows E (take ?n rows) @ encode_rows E (drop ?n rows)" for rows
    by (metis append_take_drop_id encode_rows_simps(3))
  have bytes: "bytes = encode_rows E (take ?n (vb_rows v)) @ encode_rows E (drop ?n (vb_rows v)) @ s"
      "bytes' = encode_rows E (take ?n (vb_rows w)) @ encode_rows E (drop ?n (vb_rows w)) @ t"
    using v(3) w(3) split [of "vb_rows v"] split [of "vb_rows w"] by (metis append.assoc)+
  have
      "take (hd_byte_length cp) bytes = encode_rows E (take ?n (vb_rows v))" "hd_byte_length cp \<le> length bytes"
      "take (hd_byte_length cp) bytes' = encode_rows E (take ?n (vb_rows w))"
    using a(4) b(4) by (simp_all add: bytes)
  with eq a(1) b(1) show ?thesis by simp
qed

end
