(* ===== verification/Cases.thy ===== *)
theory Cases
  imports Payload Journal_Recovery
begin

text \<open>
  The case owner of \<open>compliance/tickets.rs\<close>: commands, plans and their durable execution over the journal, the
  personal revisions and the serving rules. A plan is drafted, measured against every capacity, given its
  identifier and salts, and executed: revision, rows in order, with the rules or the purge between an intent and
  its completion. Each durable step can fail where \<open>plan_faults\<close> says so. The clock readings of an operation
  and the draws of the entropy source are arguments; the journal's own clock is \<open>je_now\<close>.
\<close>

section \<open>Commands\<close>

datatype administration_event =
    AeIdentity identity_event string
  | AeExtension necessity string string delivery
  | AeDecision decision
  | AeAppeal string "ticket_id option"
  | AeReversal string delivery
  | AeUphold string delivery
  | AeProgress string string delivery
  | AeClosure string

fun administration_validate :: "administration_event \<Rightarrow> unit outcome" where
  "administration_validate (AeIdentity _ reasons) = reason_text reasons"
| "administration_validate (AeAppeal reasons _) = reason_text reasons"
| "administration_validate (AeClosure reasons) = reason_text reasons"
| "administration_validate (AeExtension _ reasons written d) =
     res_then (reason_text reasons) (res_then (narrative_text written) (delivery_validate d))"
| "administration_validate (AeDecision d) = decision_validate d"
| "administration_validate (AeReversal reasons d) = res_then (reason_text reasons) (delivery_validate d)"
| "administration_validate (AeUphold reasons d) = res_then (reason_text reasons) (delivery_validate d)"
| "administration_validate (AeProgress enquiries update d) =
     res_then (narrative_text enquiries) (res_then (narrative_text update) (delivery_validate d))"

definition decision_remedies :: "decision \<Rightarrow> string list" where
  "decision_remedies d =
     (case d of
        DecRefused _ _ \<Rightarrow>
          [''You may complain to AVA through Reports and requests'',
           ''You may complain to the Information Commissioner'' @ [CHR 0x27] @ ''s Office'',
           ''You may seek a judicial remedy'']
      | _ \<Rightarrow> [])"

definition contact_label :: string where
  "contact_label = newline # ''AVA contact: ''"

definition ico_label :: string where
  "ico_label = newline # ''ICO complaints: ''"

definition decision_notice :: "decision \<Rightarrow> settings \<Rightarrow> notice" where
  "decision_notice d cfg =
     (let text = fst (communication d) in
      \<lparr> nt_text =
          (case d of
             DecRefused _ _ \<Rightarrow>
               text @ contact_label
                 @ (case cf_public_contact cfg of None \<Rightarrow> ''[AVA contact pending deployment]'' | Some c \<Rightarrow> c)
                 @ ico_label
                 @ (case cf_ico_complaints_url cfg of None \<Rightarrow> ''[ICO complaints link pending configuration]'' | Some u \<Rightarrow> u)
           | _ \<Rightarrow> text),
        nt_remedies = decision_remedies d \<rparr>)"

text \<open>\<open>str::split_once\<close> at the first occurrence of a string.\<close>

fun split_once_str :: "string \<Rightarrow> string \<Rightarrow> (string \<times> string) option" where
  "split_once_str p [] = (if p = [] then Some ([], []) else None)"
| "split_once_str p (c # cs) =
     (case strip_prefix p (c # cs) of
        Some rest \<Rightarrow> Some ([], rest)
      | None \<Rightarrow> map_option (\<lambda>(a, b). (c # a, b)) (split_once_str p cs))"

definition verify_decision_notice :: "decision \<Rightarrow> notice \<Rightarrow> unit outcome" where
  "verify_decision_notice d n =
     (if nt_remedies n \<noteq> decision_remedies d then Inl Unavailable
      else
        res_bind (ok_or (strip_prefix (fst (communication d)) (nt_text n)) Unavailable) (\<lambda>suffix.
        case d of
          DecRefused _ _ \<Rightarrow>
            res_bind (ok_or (strip_prefix contact_label suffix) Unavailable) (\<lambda>contacts.
            res_bind (ok_or (split_once_str ico_label contacts) Unavailable) (\<lambda>(contact, ico).
            res_then (text_ok contact BkContact LabelText) (text_ok ico BkUrl LabelText)))
        | _ \<Rightarrow> (if suffix = [] then Inr () else Inl Unavailable)))"

fun administration_personal :: "administration_event \<Rightarrow> settings \<Rightarrow> payload_event" where
  "administration_personal (AeIdentity e reasons) cfg = PeIdentity e reasons"
| "administration_personal (AeExtension n reasons written d) cfg = PeExtension n reasons written d"
| "administration_personal (AeDecision d) cfg = PeDecision d [] (decision_notice d cfg)"
| "administration_personal (AeAppeal reasons related) cfg = PeAppeal reasons related"
| "administration_personal (AeReversal reasons d) cfg =
     PeReversal reasons d
       \<lparr> nt_text = ''The original action is reversed. Independent protection may still apply.'', nt_remedies = [] \<rparr>"
| "administration_personal (AeUphold reasons d) cfg =
     PeUphold reasons d \<lparr> nt_text = ''The reviewed outcome is upheld.'', nt_remedies = [] \<rparr>"
| "administration_personal (AeProgress enquiries update d) cfg = PeProgress enquiries update d"
| "administration_personal (AeClosure reasons) cfg = PeClosure reasons"

fun identity_event_name :: "identity_event \<Rightarrow> event_name" where
  "identity_event_name IeRequestIdentity = EvIdentityRequested"
| "identity_event_name IeIdentityConfirmed = EvIdentityConfirmed"
| "identity_event_name IeRequestClarification = EvClarificationRequested"
| "identity_event_name IeClarificationReceived = EvClarificationReceived"

fun personal_event_name :: "administration_event \<Rightarrow> event_name" where
  "personal_event_name (AeIdentity e _) = identity_event_name e"
| "personal_event_name (AeExtension _ _ _ _) = EvExtensionNotified"
| "personal_event_name (AeDecision _) = EvDecided"
| "personal_event_name (AeAppeal _ _) = EvAppealed"
| "personal_event_name (AeReversal _ _) = EvReversalIntent"
| "personal_event_name (AeUphold _ _) = EvUpheld"
| "personal_event_name (AeProgress _ _ _) = EvProgressCommunicated"
| "personal_event_name (AeClosure _) = EvClosed"

section \<open>Rows\<close>

definition event_row :: "ticket \<Rightarrow> event_name \<Rightarrow> int \<Rightarrow> string \<Rightarrow> journal_row outcome" where
  "event_row t event at actor =
     res_bind (successor (tk_state t) event) (\<lambda>state.
     Inr ((empty_row event at)\<lparr> row_actor := actor, row_ticket_id := ticket_id_as_str (tk_id t),
        row_route := route_as_str (tk_route t), row_requester_type := requester_type_as_str (tk_requester t),
        row_received_at := ms_received_at (tk_times t), row_state := ticket_state_as_str state \<rparr>))"

definition completion :: "ticket \<Rightarrow> journal_row \<Rightarrow> int \<Rightarrow> string \<Rightarrow> journal_row outcome" where
  "completion t intent at actor =
     res_bind (ok_or (expected_completion intent) Unavailable) (\<lambda>event.
     res_bind (event_row t event at actor) (\<lambda>row.
     Inr (row\<lparr> row_intent_sequence := row_intent_sequence intent, row_asset_ids := row_asset_ids intent,
        row_reason_code := row_reason_code intent, row_decision := row_decision intent,
        row_effective_at := row_effective_at intent \<rparr>)))"

definition delta :: "penv \<Rightarrow> journal_row \<Rightarrow> intake \<Rightarrow> hex64 list \<Rightarrow> rule_delta outcome" where
  "delta P intent i salts =
     res_bind (ticket_id_parse (row_ticket_id intent)) (\<lambda>ticket.
     res_bind (ground_parse (row_reason_code intent)) (\<lambda>ground.
     if row_event intent = EvReversalIntent then
       res_bind (row_documents intent) (\<lambda>docs.
       Inr (DeltaReverse ticket docs ground (row_at intent) (row_intent_sequence intent)))
     else if row_decision intent \<in> {''not_intimate_image'', ''no_standing''} then Inr (DeltaRemove ticket)
     else
       res_bind
         (if ground = GdDataDelisting then
            (if length salts \<noteq> length (intake_names i) then Inl Unavailable
             else res_map (\<lambda>(name, salt). name_set_new (pn_digest P) (pn_tokenize P) (pn_alphanumeric P) (en_name name) salt)
                    (zip (intake_names i) salts))
          else Inr []) (\<lambda>names.
       res_bind (row_documents intent) (\<lambda>docs.
       Inr (DeltaInstall ticket docs ground (row_effective_at intent) (row_intent_sequence intent) names)))))"

definition reference :: "prepared_payload \<Rightarrow> journal_row \<Rightarrow> journal_row" where
  "reference p row = row\<lparr> row_payload_sequence := pp_sequence p, row_commitment := pp_commitment p \<rparr>"

definition reversal_fields :: "ticket \<Rightarrow> journal_row \<Rightarrow> journal_row outcome" where
  "reversal_fields t row =
     res_bind (ok_or (tk_decision t) InvalidTransition) (\<lambda>d.
     res_bind (ok_or (tk_ground t) InvalidTransition) (\<lambda>g.
     Inr (row\<lparr> row_decision := decision_kind_as_str d, row_reason_code := ground_as_str g \<rparr>)))"

definition documents :: "intake \<Rightarrow> string" where
  "documents i = join_comma (btree_set (map (document_key_as_str \<circ> as_document_id) (it_assets i)))"

section \<open>The case owner\<close>

record cenv =
  cn_journal :: jenv
  cn_rules :: renv
  cn_payload :: penv
  cn_settings :: settings

record case_state =
  ca_journal :: journal
  ca_jdisk :: jdisk
  ca_pdisk :: pdisk
  ca_tickets :: "(ticket_id \<times> ticket) list"
  ca_usage :: "(ticket_id \<times> nat) list"
  ca_rules :: rules_store
  ca_writes_disabled :: bool
  ca_started :: bool

record plan =
  pl_rows :: "journal_row list"
  pl_payload :: "prepared_payload option"
  pl_rules :: "prepared_rules option"
  pl_purge :: bool
  pl_reserved :: bool

record draft_plan =
  dp_rows :: "journal_row list"
  dp_content :: payload_event
  dp_intake :: intake
  dp_payload_sequence :: nat
  dp_payload_bytes :: nat
  dp_new_ticket :: bool

record footprint =
  fp_new_tickets :: nat
  fp_events :: nat
  fp_journal_bytes :: nat
  fp_existing_payload :: nat
  fp_added_payload :: nat
  fp_total_payload :: nat
  fp_reserved :: bool

text \<open>The draws of one plan, in the order of their use: the ticket, the revision's salt, the salts of the names.\<close>

record draws =
  dr_id :: draw
  dr_salt :: draw
  dr_names :: "nat \<Rightarrow> draw"

abbreviation journal_sequence :: "case_state \<Rightarrow> nat" where
  "journal_sequence c \<equiv> hd_sequence (jn_head (ca_journal c))"

definition case_ticket :: "case_state \<Rightarrow> ticket_id \<Rightarrow> ticket outcome" where
  "case_ticket c tid = ok_or (map_of (ca_tickets c) tid) NotFound"

subsection \<open>Measuring\<close>

definition project_and_measure ::
  "cenv \<Rightarrow> case_state \<Rightarrow> journal_row list \<Rightarrow> nat \<Rightarrow> bool \<Rightarrow> (ticket \<times> footprint) outcome" where
  "project_and_measure C c rows payload_bytes reserved =
     (case rows of
        [] \<Rightarrow> Inl Unavailable
      | first # rest \<Rightarrow>
          res_bind (ticket_id_parse (row_ticket_id first)) (\<lambda>tid.
          res_bind (if row_event first = EvReceived then received first
                    else ok_or (map_of (ca_tickets c) tid) NotFound) (\<lambda>start.
          let new = row_event first = EvReceived in
          res_bind (res_fold (apply_row (je_chrono (cn_journal C)) (cn_settings C)) start (if new then rest else rows)) (\<lambda>candidate.
          res_bind (res_fold (\<lambda>acc row. res_bind (row_bytes (cn_journal C) row) (\<lambda>b. ok_or (checked_add_u64 acc (length b)) Capacity)) 0 rows)
            (\<lambda>journal_bytes.
          res_bind (res_fold (\<lambda>acc p. ok_or (checked_add_u64 acc (snd p)) Capacity) 0 (ca_usage c)) (\<lambda>total_payload.
          Inr (candidate,
               \<lparr> fp_new_tickets = (if new then 1 else 0), fp_events = tk_events candidate, fp_journal_bytes = journal_bytes,
                 fp_existing_payload = (if new then 0 else case map_of (ca_usage c) tid of None \<Rightarrow> 0 | Some n \<Rightarrow> n),
                 fp_added_payload = payload_bytes, fp_total_payload = total_payload, fp_reserved = reserved \<rparr>)))))))"

definition reserve_footprint :: "cenv \<Rightarrow> case_state \<Rightarrow> footprint \<Rightarrow> unit outcome" where
  "reserve_footprint C c fp =
     (let cfg = cn_settings C;
          spare_events = (if fp_reserved fp then 0 else bs_min (spec BkReservedEvents));
          spare_bytes = (if fp_reserved fp then 0 else bs_min (spec BkReservedJournalBytes))
      in
      res_then (reserve (length (ca_tickets c)) (fp_new_tickets fp) (cf_max_tickets cfg) 0)
     (res_then (reserve 0 (fp_events fp) (cf_max_ticket_events cfg) spare_events)
     (res_then (reserve (hd_byte_length (jn_head (ca_journal c))) (fp_journal_bytes fp) (cf_max_journal_bytes cfg) spare_bytes)
     (res_then (reserve (fp_existing_payload fp) (fp_added_payload fp) (bs_max (spec BkTicketPayload)) 0)
     (res_then (reserve (fp_total_payload fp) (fp_added_payload fp) (cf_max_payload_bytes cfg) 0)
       (Inr ()))))))"

definition case_reserve :: "cenv \<Rightarrow> case_state \<Rightarrow> journal_row list \<Rightarrow> nat \<Rightarrow> bool \<Rightarrow> ticket outcome" where
  "case_reserve C c rows payload_bytes reserved =
     res_bind (project_and_measure C c rows payload_bytes reserved) (\<lambda>(candidate, fp).
     res_then (reserve_footprint C c fp) (Inr candidate))"

subsection \<open>Plans\<close>

definition content_salts :: "payload_event \<Rightarrow> hex64 list" where
  "content_salts content = (case content of PeDecision _ salts _ \<Rightarrow> salts | _ \<Rightarrow> [])"

definition plan_rules ::
  "cenv \<Rightarrow> case_state \<Rightarrow> journal_row list \<Rightarrow> intake \<Rightarrow> payload_event \<Rightarrow> prepared_rules option outcome" where
  "plan_rules C c rows i content =
     (case List.find (\<lambda>row. row_event row \<in> {EvActionIntent, EvReversalIntent}) rows of
        None \<Rightarrow> Inr None
      | Some intent \<Rightarrow>
          res_bind (delta (cn_payload C) intent i (content_salts content)) (\<lambda>dl.
          res_bind (prepare_delta (cn_rules C) (st_state (ca_rules c)) dl) (\<lambda>p. Inr (Some p))))"

text \<open>\<open>format!("{index:064x}")\<close>\<close>

definition index_hex :: "nat \<Rightarrow> string" where
  "index_hex n = map (\<lambda>i. hex_digit (n div 16 ^ (63 - i) mod 16)) [0..<64]"

definition sizing_id :: "case_state \<Rightarrow> ticket_id outcome" where
  "sizing_id c =
     ok_or (List.find (\<lambda>tid. map_of (ca_tickets c) tid = None)
       (List.map_filter (\<lambda>n. ok (ticket_id_parse (index_hex n))) [0..<length (ca_tickets c) + 1])) Capacity"

definition reserve_draft :: "cenv \<Rightarrow> case_state \<Rightarrow> draft_plan \<Rightarrow> unit outcome" where
  "reserve_draft C c dp =
     res_bind (prepare_rows (cn_journal C) (ca_journal c) (dp_rows dp)) (\<lambda>rows.
     res_then (case_reserve C c rows (dp_payload_bytes dp) False)
    (res_bind (if dp_new_ticket dp
               then res_bind (sizing_id c) (\<lambda>tid. Inr (map (\<lambda>row. row\<lparr> row_ticket_id := ticket_id_as_str tid \<rparr>) (dp_rows dp)))
               else Inr (dp_rows dp)) (\<lambda>rule_rows.
     res_then (plan_rules C c rule_rows (dp_intake dp) (dp_content dp)) (Inr ()))))"

definition draw_material :: "case_state \<Rightarrow> draws \<Rightarrow> draft_plan \<Rightarrow> (ticket_id \<times> hex64 \<times> hex64 list) outcome" where
  "draw_material c D dp =
     res_bind
       (if dp_new_ticket dp
        then res_bind (ticket_id_generate (dr_id D)) (\<lambda>tid.
             if map_of (ca_tickets c) tid \<noteq> None then Inl Unavailable else Inr tid)
        else case dp_rows dp of [] \<Rightarrow> Inl Unavailable | first # _ \<Rightarrow> ticket_id_parse (row_ticket_id first)) (\<lambda>tid.
     res_bind (hex64_random (dr_salt D)) (\<lambda>salt.
     res_bind (res_map (\<lambda>k. hex64_random (dr_names D k)) [0..<length (content_salts (dp_content dp))]) (\<lambda>names.
     Inr (tid, salt, names))))"

definition with_salts :: "hex64 list \<Rightarrow> payload_event \<Rightarrow> payload_event" where
  "with_salts salts content = (case content of PeDecision d _ n \<Rightarrow> PeDecision d salts n | _ \<Rightarrow> content)"

definition finish_plan ::
  "cenv \<Rightarrow> case_state \<Rightarrow> draft_plan \<Rightarrow> ticket_id \<times> hex64 \<times> hex64 list \<Rightarrow> plan outcome" where
  "finish_plan C c dp material =
     (case material of (tid, salt, names) \<Rightarrow>
        res_bind (prepare_with_salt (cn_payload C) tid (dp_payload_sequence dp) (with_salts names (dp_content dp)) salt) (\<lambda>payload.
        let rows = map (\<lambda>row.
              let row1 = row\<lparr> row_ticket_id := ticket_id_as_str tid \<rparr> in
              if row_payload_sequence row1 \<noteq> 0 then reference payload row1 else row1) (dp_rows dp)
        in res_bind (plan_rules C c rows (dp_intake dp) (pp_content payload)) (\<lambda>rules.
           Inr \<lparr> pl_rows = rows, pl_payload = Some payload, pl_rules = rules, pl_purge = False, pl_reserved = False \<rparr>)))"

definition materialize_plan :: "cenv \<Rightarrow> case_state \<Rightarrow> draws \<Rightarrow> draft_plan \<Rightarrow> plan outcome" where
  "materialize_plan C c D dp =
     res_then (reserve_draft C c dp)
    (res_bind (draw_material c D dp) (\<lambda>material. finish_plan C c dp material))"

subsection \<open>Execution\<close>

text \<open>
  Where the steps of a plan fail, by the position of the row: the hooks before a completion row, after an
  intent and after the rules, the append itself, and the ends of the revision's write, the commit and the purge.
\<close>

record plan_faults =
  fa_payload :: payload_faults
  fa_append :: "nat \<Rightarrow> append_faults"
  fa_completion :: "nat \<Rightarrow> bool"
  fa_intent :: "nat \<Rightarrow> bool"
  fa_commit :: persist_end
  fa_purge :: "(nat \<times> bool) option"
  fa_rules :: "nat \<Rightarrow> bool"

definition case_append ::
  "cenv \<Rightarrow> append_faults \<Rightarrow> journal_row \<Rightarrow> case_state \<Rightarrow> unit outcome \<times> case_state" where
  "case_append C f row c =
     (let E = cn_journal C;
          started = is_ok (append_checks E (ca_journal c) row) \<and> \<not> af_open f
      in case append_tracked E f (ca_journal c) (ca_jdisk c) row of
           (r, j, d) \<Rightarrow> (r, c\<lparr> ca_journal := j, ca_jdisk := d, ca_started := ca_started c \<or> started \<rparr>))"

definition case_commit ::
  "persist_end \<Rightarrow> prepared_rules option \<Rightarrow> case_state \<Rightarrow> unit outcome \<times> case_state" where
  "case_commit e rules c =
     (case rules of
        None \<Rightarrow> (Inr (), c)
      | Some p \<Rightarrow> (case commit e (ca_rules c) p of (r, st) \<Rightarrow> (r, c\<lparr> ca_rules := st \<rparr>)))"

definition case_purge_files ::
  "cenv \<Rightarrow> (nat \<times> bool) option \<Rightarrow> bool \<Rightarrow> ticket \<Rightarrow> case_state \<Rightarrow> unit outcome \<times> case_state" where
  "case_purge_files C fault purge t c =
     (if purge
      then (case purge_payloads (cn_payload C) fault (ca_pdisk c) (tk_id t) (tk_references t) of
              (r, d) \<Rightarrow> (r, c\<lparr> ca_pdisk := d \<rparr>))
      else (Inr (), c))"

definition bind_case ::
  "unit outcome \<times> case_state \<Rightarrow> (case_state \<Rightarrow> unit outcome \<times> case_state) \<Rightarrow> unit outcome \<times> case_state" where
  "bind_case m f = (case m of (Inl e, c) \<Rightarrow> (Inl e, c) | (Inr _, c) \<Rightarrow> f c)"

definition hook_case :: "bool \<Rightarrow> case_state \<Rightarrow> unit outcome \<times> case_state" where
  "hook_case fails c = (if fails then Inl Unavailable else Inr (), c)"

text \<open>What follows a durable intent: the rules are committed, or the revisions purged.\<close>

definition after_intent ::
  "cenv \<Rightarrow> plan_faults \<Rightarrow> ticket \<Rightarrow> bool \<Rightarrow> nat \<Rightarrow> prepared_rules option \<Rightarrow> case_state \<Rightarrow> unit outcome \<times> case_state" where
  "after_intent C f projected purge i rules c =
     bind_case (hook_case (fa_intent f i) c) (\<lambda>c.
     bind_case (case_commit (fa_commit f) rules c) (\<lambda>c.
     bind_case (case_purge_files C (fa_purge f) purge projected c) (\<lambda>c.
     hook_case (fa_rules f i) c)))"

fun plan_loop ::
  "cenv \<Rightarrow> plan_faults \<Rightarrow> ticket \<Rightarrow> bool \<Rightarrow> nat \<Rightarrow> prepared_rules option \<Rightarrow> journal_row list \<Rightarrow> case_state
   \<Rightarrow> unit outcome \<times> case_state" where
  "plan_loop C f projected purge i rules [] c = (Inr (), c)"
| "plan_loop C f projected purge i rules (row # rows) c =
     bind_case (hook_case (completion_event (row_event row) \<and> fa_completion f i) c) (\<lambda>c.
     bind_case (case_append C (fa_append f i) row c) (\<lambda>c.
     if intent_event (row_event row)
     then bind_case (after_intent C f projected purge i rules c) (\<lambda>c. plan_loop C f projected purge (Suc i) None rows c)
     else plan_loop C f projected purge (Suc i) rules rows c))"

definition case_write_payload ::
  "cenv \<Rightarrow> payload_faults \<Rightarrow> prepared_payload option \<Rightarrow> case_state \<Rightarrow> unit outcome \<times> case_state" where
  "case_write_payload C f payload c =
     (case payload of
        None \<Rightarrow> (Inr (), c)
      | Some p \<Rightarrow>
          (case write_payload (cn_payload C) f (ca_pdisk c) p of
             (r, started, d) \<Rightarrow> (r, c\<lparr> ca_pdisk := d, ca_started := ca_started c \<or> started \<rparr>)))"

definition payload_length :: "prepared_payload option \<Rightarrow> nat" where
  "payload_length payload = (case payload of None \<Rightarrow> 0 | Some p \<Rightarrow> length (pp_bytes p))"

definition publish_ticket :: "plan \<Rightarrow> ticket \<Rightarrow> case_state \<Rightarrow> case_state" where
  "publish_ticket plan projected c =
     (let tid = tk_id projected;
          old = (case map_of (ca_usage c) tid of None \<Rightarrow> 0 | Some n \<Rightarrow> n);
          usage = (if pl_purge plan then btree_insert tid 0 (ca_usage c)
                   else case pl_payload plan of
                          None \<Rightarrow> ca_usage c
                        | Some p \<Rightarrow> btree_insert tid (old + length (pp_bytes p)) (ca_usage c))
      in c\<lparr> ca_tickets := btree_insert tid projected (ca_tickets c), ca_usage := usage \<rparr>)"

definition execute_plan :: "cenv \<Rightarrow> plan_faults \<Rightarrow> plan \<Rightarrow> case_state \<Rightarrow> unit outcome \<times> case_state" where
  "execute_plan C f plan c =
     (case res_bind (prepare_rows (cn_journal C) (ca_journal c) (pl_rows plan)) (\<lambda>rows.
             res_bind (case_reserve C c rows (payload_length (pl_payload plan)) (pl_reserved plan)) (\<lambda>projected.
             Inr (rows, projected))) of
        Inl e \<Rightarrow> (Inl e, c)
      | Inr (rows, projected) \<Rightarrow>
          bind_case (case_write_payload C (fa_payload f) (pl_payload plan) c) (\<lambda>c.
          bind_case (plan_loop C f projected (pl_purge plan) 0 (pl_rules plan) rows c) (\<lambda>c.
          (Inr (), publish_ticket plan projected c))))"

subsection \<open>Operations\<close>

definition case_intake :: "cenv \<Rightarrow> case_state \<Rightarrow> ticket \<Rightarrow> intake outcome" where
  "case_intake C c t =
     res_bind (ok_or (map_of (tk_references t) 1) Unavailable) (\<lambda>expected.
     res_bind (read_payload (cn_payload C) (ca_pdisk c) (tk_id t) 1 expected) (\<lambda>content.
     case content of PeIntake i \<Rightarrow> Inr i | _ \<Rightarrow> Inl Unavailable))"

definition zero_id :: ticket_id where
  "zero_id = TicketId (Hex64 zero_hash)"

definition admission_rows ::
  "cenv \<Rightarrow> case_state \<Rightarrow> intake \<Rightarrow> int \<Rightarrow> int \<Rightarrow> prepared_payload \<Rightarrow> journal_row list outcome" where
  "admission_rows C c i received_at now payload =
     (let rec = reference payload ((empty_row EvReceived now)\<lparr> row_actor := ''system.intake'',
            row_ticket_id := ticket_id_as_str zero_id, row_route := route_as_str (intake_route i),
            row_requester_type := requester_type_as_str (rf_requester_type (it_report i)),
            row_state := ''received'', row_received_at := received_at \<rparr>)
      in
      res_bind (received rec) (\<lambda>t.
      res_bind
        (if intake_route i = RtIntimateImages then
           res_bind (ok_or (checked_add_u64 (journal_sequence c) 2) Capacity) (\<lambda>sequence.
           res_bind (event_row t EvActionIntent now ''system.intake'') (\<lambda>row.
           res_bind (intimate_effective (je_chrono (cn_journal C)) received_at (cf_intimate_margin_seconds (cn_settings C))) (\<lambda>eff.
           let intent = reference payload (row\<lparr> row_intent_sequence := sequence, row_reason_code := ''intimate_images'',
                 row_asset_ids := documents i, row_effective_at := eff \<rparr>)
           in res_bind (completion t intent now ''system.intake'') (\<lambda>fin. Inr [intent, fin]))))
         else Inr []) (\<lambda>provisional.
      res_bind (event_row t EvAcknowledged now ''system.intake'') (\<lambda>ack.
      Inr (rec # provisional @ [ack, ack\<lparr> row_event := EvQueued, row_state := ''queued'' \<rparr>])))))"

definition admission_plan ::
  "cenv \<Rightarrow> draws \<Rightarrow> intake \<Rightarrow> int \<Rightarrow> int \<Rightarrow> case_state \<Rightarrow> (plan \<times> ticket_id) outcome" where
  "admission_plan C D i received_at now c =
     res_bind (prepare_with_salt (cn_payload C) zero_id 1 (PeIntake i) (Hex64 zero_hash)) (\<lambda>payload.
     res_bind (admission_rows C c i received_at now payload) (\<lambda>rows.
     res_bind (materialize_plan C c D \<lparr> dp_rows = rows, dp_content = PeIntake i, dp_intake = i,
        dp_payload_sequence = 1, dp_payload_bytes = length (pp_bytes payload), dp_new_ticket = True \<rparr>) (\<lambda>plan.
     res_bind (case pl_rows plan of [] \<Rightarrow> Inl Unavailable | first # _ \<Rightarrow> ticket_id_parse (row_ticket_id first)) (\<lambda>tid.
     Inr (plan, tid)))))"

definition case_admit ::
  "cenv \<Rightarrow> plan_faults \<Rightarrow> draws \<Rightarrow> intake \<Rightarrow> int \<Rightarrow> int \<Rightarrow> case_state \<Rightarrow> ticket outcome \<times> case_state" where
  "case_admit C f D i received_at now c =
     (if ca_writes_disabled c then (Inl Unavailable, c)
      else case admission_plan C D i received_at now c of
             Inl e \<Rightarrow> (Inl e, c)
           | Inr (plan, tid) \<Rightarrow>
               (case execute_plan C f plan c of
                  (Inl e, c') \<Rightarrow> (Inl e, c')
                | (Inr _, c') \<Rightarrow> (case_ticket c' tid, c')))"

definition prepare_personal ::
  "case_state \<Rightarrow> ticket \<Rightarrow> intake \<Rightarrow> payload_event \<Rightarrow> journal_row \<Rightarrow> (notice option \<times> payload_event \<times> journal_row) outcome" where
  "prepare_personal c t i content row =
     (case content of
        PeDecision d salts n \<Rightarrow>
          (let salts1 = (if decision_kind_of d = DkGranted \<and> intake_ground i = Some GdDataDelisting
                         then map (\<lambda>_. Hex64 zero_hash) (intake_names i) else salts);
               row1 = row\<lparr> row_decision := decision_kind_as_str (decision_kind_of d) \<rparr>;
               row2 = (if decision_kind_of d \<in> {DkGranted, DkNotIntimateImage, DkNoStanding}
                       then row1\<lparr> row_reason_code := (case intake_ground i of None \<Rightarrow> [] | Some g \<Rightarrow> ground_as_str g) \<rparr>
                       else row1);
               row3 = (case d of
                         DecManifestlyUnfounded _ _ policy_version policy_clause duplicate_of \<Rightarrow>
                           row2\<lparr> row_policy_version := policy_version, row_reason_code := policy_clause,
                                 row_related_ticket_id := ticket_id_as_str duplicate_of \<rparr>
                       | _ \<Rightarrow> row2)
           in Inr (Some n, PeDecision d salts1 n, row3))
      | PeReversal _ _ n \<Rightarrow>
          res_bind (reversal_fields t row) (\<lambda>row1.
          res_bind (ok_or (checked_add_u64 (journal_sequence c) 1) Capacity) (\<lambda>sequence.
          Inr (Some n, content, row1\<lparr> row_asset_ids := documents i, row_effective_at := row_at row1,
            row_intent_sequence := sequence \<rparr>)))
      | PeUphold _ _ n \<Rightarrow> Inr (Some n, content, row)
      | PeExtension _ _ written _ \<Rightarrow> Inr (Some \<lparr> nt_text = written, nt_remedies = [] \<rparr>, content, row)
      | PeProgress _ update _ \<Rightarrow> Inr (Some \<lparr> nt_text = update, nt_remedies = [] \<rparr>, content, row)
      | PeAppeal _ (Some related) \<Rightarrow>
          res_then (case_ticket c related)
            (Inr (None, content, row\<lparr> row_related_ticket_id := ticket_id_as_str related \<rparr>))
      | _ \<Rightarrow> Inr (None, content, row))"

definition prepare_action ::
  "cenv \<Rightarrow> case_state \<Rightarrow> ticket \<Rightarrow> intake \<Rightarrow> payload_event \<Rightarrow> journal_row \<Rightarrow> journal_row list outcome" where
  "prepare_action C c t i content row =
     (let action = (case content of PeDecision (DecGranted _ _ _) _ _ \<Rightarrow> intake_ground i \<noteq> None | _ \<Rightarrow> False);
          determination = (case content of
              PeDecision (DecNotIntimateImage _ _) _ _ \<Rightarrow> True
            | PeDecision (DecNoStanding _ _) _ _ \<Rightarrow> True
            | _ \<Rightarrow> False);
          reversal = (row_event row = EvReversalIntent)
      in if \<not> action \<and> \<not> determination \<and> \<not> reversal then Inr [row]
         else if reversal then res_bind (completion t row (row_at row) (row_actor row)) (\<lambda>fin. Inr [row, fin])
         else
           res_bind (apply_row (je_chrono (cn_journal C)) (cn_settings C) t row) (\<lambda>projected.
           res_bind (ok_or (checked_add_u64 (journal_sequence c) 2) Capacity) (\<lambda>sequence.
           let intent = row\<lparr> row_event := EvActionIntent, row_intent_sequence := sequence,
                 row_asset_ids := documents i, row_effective_at := row_at row \<rparr>
           in res_bind (completion projected intent (row_at row) (row_actor row)) (\<lambda>fin. Inr [row, intent, fin]))))"

text \<open>The rows and content of an administration, up to the drawing of its salts.\<close>

definition administration_draft ::
  "cenv \<Rightarrow> case_state \<Rightarrow> ticket_id \<Rightarrow> string \<Rightarrow> administration_event \<Rightarrow> int \<Rightarrow> (draft_plan \<times> notice option) outcome" where
  "administration_draft C c tid actor command now =
     res_bind (case_ticket c tid) (\<lambda>t.
     if tk_purged t then Inl InvalidTransition
     else
       res_bind (case_intake C c t) (\<lambda>i.
       res_bind (event_row t (personal_event_name command) now actor) (\<lambda>row.
       res_then (case command of
                   AeDecision d \<Rightarrow> decision_allowed (cn_settings C) t d (intake_ground i) (ca_tickets c)
                 | _ \<Rightarrow> Inr ())
      (res_bind (prepare_personal c t i (administration_personal command (cn_settings C)) row) (\<lambda>(notice, content, row1).
       let sequence = length (tk_references t) + 1 in
       res_bind (prepare_with_salt (cn_payload C) tid sequence content (Hex64 zero_hash)) (\<lambda>payload.
       res_bind (prepare_action C c t i (pp_content payload) (reference payload row1)) (\<lambda>rows.
       Inr (\<lparr> dp_rows = rows, dp_content = pp_content payload, dp_intake = i, dp_payload_sequence = sequence,
              dp_payload_bytes = length (pp_bytes payload), dp_new_ticket = False \<rparr>, notice))))))))"

definition administration_plan ::
  "cenv \<Rightarrow> draws \<Rightarrow> ticket_id \<Rightarrow> string \<Rightarrow> administration_event \<Rightarrow> int \<Rightarrow> case_state \<Rightarrow> (plan \<times> notice option) outcome" where
  "administration_plan C D tid actor command now c =
     res_bind (administration_draft C c tid actor command now) (\<lambda>(dp, notice).
     res_bind (materialize_plan C c D dp) (\<lambda>plan. Inr (plan, notice)))"

definition case_administer ::
  "cenv \<Rightarrow> plan_faults \<Rightarrow> draws \<Rightarrow> ticket_id \<Rightarrow> string \<Rightarrow> administration_event \<Rightarrow> int \<Rightarrow> case_state
   \<Rightarrow> (ticket \<times> notice option) outcome \<times> case_state" where
  "case_administer C f D tid actor command now c =
     (if ca_writes_disabled c then (Inl Unavailable, c)
      else case administration_plan C D tid actor command now c of
             Inl e \<Rightarrow> (Inl e, c)
           | Inr (plan, notice) \<Rightarrow>
               (case execute_plan C f plan c of
                  (Inl e, c') \<Rightarrow> (Inl e, c')
                | (Inr _, c') \<Rightarrow> (res_bind (case_ticket c' tid) (\<lambda>t. Inr (t, notice)), c')))"

definition purge_plan :: "cenv \<Rightarrow> case_state \<Rightarrow> ticket \<Rightarrow> string \<Rightarrow> int \<Rightarrow> plan outcome" where
  "purge_plan C c t actor now =
     res_then (successor (tk_state t) EvPurgeIntent)
    (res_bind (purge_due (je_chrono (cn_journal C)) (cn_settings C) t now) (\<lambda>due.
     if \<not> due then Inl RetentionNotDue
     else
       res_bind (event_row t EvPurgeIntent now actor) (\<lambda>row.
       res_bind (ok_or (checked_add_u64 (journal_sequence c) 1) Capacity) (\<lambda>sequence.
       let intent = row\<lparr> row_intent_sequence := sequence \<rparr> in
       res_bind (completion t intent now actor) (\<lambda>fin.
       Inr \<lparr> pl_rows = [intent, fin], pl_payload = None, pl_rules = None, pl_purge = True, pl_reserved = True \<rparr>)))))"

definition case_purge ::
  "cenv \<Rightarrow> plan_faults \<Rightarrow> ticket_id \<Rightarrow> string \<Rightarrow> int \<Rightarrow> case_state \<Rightarrow> (ticket \<times> notice option) outcome \<times> case_state" where
  "case_purge C f tid actor now c =
     (if ca_writes_disabled c then (Inl Unavailable, c)
      else
        case case_ticket c tid of
          Inl e \<Rightarrow> (Inl e, c)
        | Inr t \<Rightarrow>
            if tk_purged t then (Inr (t, None), c)
            else
              (case purge_plan C c t actor now of
                 Inl e \<Rightarrow> (Inl e, c)
               | Inr plan \<Rightarrow>
                   (case execute_plan C f plan c of
                      (Inl e, c') \<Rightarrow> (Inl e, c')
                    | (Inr _, c') \<Rightarrow> (res_bind (case_ticket c' tid) (\<lambda>t. Inr (t, None)), c'))))"

definition case_read :: "cenv \<Rightarrow> case_state \<Rightarrow> ticket_id \<Rightarrow> (ticket \<times> payload_event list) outcome" where
  "case_read C c tid =
     res_bind (case_ticket c tid) (\<lambda>t.
     res_bind (if tk_purged t then Inr []
               else res_map (\<lambda>(sequence, expected). read_payload (cn_payload C) (ca_pdisk c) tid sequence expected)
                      (tk_references t)) (\<lambda>events.
     Inr (t, events)))"

section \<open>The store\<close>

text \<open>
  \<open>ComplianceStore\<close> serialises every operation on the case behind one lock, so a run is a sequence of them.
  \<open>execute_case\<close> is \<open>execute\<close>: the write progress is reset, and an error after the first durable mutation
  makes the store unavailable for good.
\<close>

record case_store =
  so_case :: "case_state option"
  so_unavailable :: bool

definition execute_case ::
  "(case_state \<Rightarrow> 'a outcome \<times> case_state) \<Rightarrow> case_store \<Rightarrow> 'a outcome \<times> case_store" where
  "execute_case op s =
     (if so_unavailable s then (Inl Unavailable, s)
      else case so_case s of
             None \<Rightarrow> (Inl Unavailable, s)
           | Some c \<Rightarrow>
               (case op (c\<lparr> ca_started := False \<rparr>) of
                  (r, c') \<Rightarrow>
                    (r, \<lparr> so_case = Some c', so_unavailable = (\<not> is_ok r \<and> ca_started c') \<rparr>)))"

definition store_available :: "case_store \<Rightarrow> unit outcome" where
  "store_available s = (if so_unavailable s then Inl Unavailable else Inr ())"

definition store_status :: "case_store \<Rightarrow> ticket_id \<Rightarrow> ticket outcome" where
  "store_status s tid =
     (if so_unavailable s then Inl Unavailable
      else res_bind (ok_or (so_case s) Unavailable) (\<lambda>c. ok_or (map_of (ca_tickets c) tid) NotFound))"

definition store_admit ::
  "cenv \<Rightarrow> plan_faults \<Rightarrow> draws \<Rightarrow> intake \<Rightarrow> int \<Rightarrow> int \<Rightarrow> case_store \<Rightarrow> ticket outcome \<times> case_store" where
  "store_admit C f D i received_at now s =
     (case res_then (validate_intake (cn_payload C) i) (instant (je_chrono (cn_journal C)) received_at) of
        Inl e \<Rightarrow> (Inl e, s)
      | Inr _ \<Rightarrow> execute_case (case_admit C f D i received_at now) s)"

definition store_administer ::
  "cenv \<Rightarrow> plan_faults \<Rightarrow> draws \<Rightarrow> ticket_id \<Rightarrow> string \<Rightarrow> administration_event \<Rightarrow> int \<Rightarrow> case_store
   \<Rightarrow> (ticket \<times> notice option) outcome \<times> case_store" where
  "store_administer C f D tid actor command now s =
     (case res_then (actor_ok actor) (administration_validate command) of
        Inl e \<Rightarrow> (Inl e, s)
      | Inr _ \<Rightarrow> execute_case (case_administer C f D tid actor command now) s)"

definition store_purge ::
  "cenv \<Rightarrow> plan_faults \<Rightarrow> ticket_id \<Rightarrow> string \<Rightarrow> int \<Rightarrow> case_store \<Rightarrow> (ticket \<times> notice option) outcome \<times> case_store" where
  "store_purge C f tid actor now s =
     (case actor_ok actor of
        Inl e \<Rightarrow> (Inl e, s)
      | Inr _ \<Rightarrow> execute_case (case_purge C f tid actor now) s)"

definition store_read ::
  "cenv \<Rightarrow> ticket_id \<Rightarrow> string \<Rightarrow> case_store \<Rightarrow> (ticket \<times> payload_event list) outcome \<times> case_store" where
  "store_read C tid actor s =
     (case actor_ok actor of
        Inl e \<Rightarrow> (Inl e, s)
      | Inr _ \<Rightarrow> execute_case (\<lambda>c. (case_read C c tid, c)) s)"

subsection \<open>The queue\<close>

datatype queue_view = QvOpen | QvPurgeDue

record queue_page =
  qp_observed_at :: int
  qp_items :: "ticket list"
  qp_next :: "ticket_id option"

definition queue_selected :: "cenv \<Rightarrow> int \<Rightarrow> queue_view \<Rightarrow> ticket \<Rightarrow> bool outcome" where
  "queue_selected C now view t =
     (case view of
        QvOpen \<Rightarrow>
          Inr (tk_pending t \<noteq> None
            \<or> tk_state t \<in> {StReceived, StAcknowledged, StIdentityPending, StQueued, StDecided, StAppealed})
      | QvPurgeDue \<Rightarrow> purge_due (je_chrono (cn_journal C)) (cn_settings C) t now)"

definition queue_key :: "ticket \<Rightarrow> int \<times> ticket_id" where
  "queue_key t = (ms_received_at (tk_times t), tk_id t)"

fun queue_collect ::
  "cenv \<Rightarrow> int \<Rightarrow> queue_view \<Rightarrow> (int \<times> ticket_id) option \<Rightarrow> ticket list \<Rightarrow> ticket list outcome" where
  "queue_collect C now view cursor [] = Inr []"
| "queue_collect C now view cursor (t # ts) =
     res_bind (queue_selected C now view t) (\<lambda>selected.
     res_bind (queue_collect C now view cursor ts) (\<lambda>items.
     Inr (if selected \<and> (case cursor of None \<Rightarrow> True | Some k \<Rightarrow> queue_key t > k) then t # items else items)))"

definition store_queue ::
  "cenv \<Rightarrow> case_store \<Rightarrow> string \<Rightarrow> ticket_id option \<Rightarrow> nat \<Rightarrow> queue_view \<Rightarrow> int \<Rightarrow> queue_page outcome" where
  "store_queue C s actor after limit view now =
     res_then (actor_ok actor)
    (res_then (validate_bound BkQueueLimit limit)
     (if so_unavailable s then Inl Unavailable
      else
        res_bind (ok_or (so_case s) Unavailable) (\<lambda>c.
        res_bind (case after of
                    None \<Rightarrow> Inr None
                  | Some tid \<Rightarrow> res_bind (ok_or (map_of (ca_tickets c) tid) InvalidInput) (\<lambda>t. Inr (Some (queue_key t)))) (\<lambda>cursor.
        res_bind (queue_collect C now view cursor (map snd (ca_tickets c))) (\<lambda>collected.
        let items = sort_key queue_key collected;
            more = limit < length items;
            kept = take limit items
        in Inr \<lparr> qp_observed_at = now, qp_items = kept,
                 qp_next = (if more then map_option tk_id (if kept = [] then None else Some (last kept)) else None) \<rparr>)))))"

end
