(* ===== verification/Case_Recovery.thy ===== *)
theory Case_Recovery
  imports Cases
begin

text \<open>
  Startup recovery, \<open>compliance/recovery.rs\<close>, and \<open>ComplianceStore::open\<close> of \<open>compliance/tickets.rs\<close>: the projections are rebuilt from
  the verified rows, every referenced revision is read back and checked against its row, and each ticket's
  unfinished operation is completed. Where the steps of a ticket's recovery fail, and its clock readings, are
  given by its position.
\<close>

section \<open>Rebuilding\<close>

definition rebuild_row ::
  "chrono \<Rightarrow> settings \<Rightarrow> (ticket_id \<times> ticket) list \<Rightarrow> journal_row \<Rightarrow> (ticket_id \<times> ticket) list outcome" where
  "rebuild_row ch cfg tickets row =
     (if row_ticket_id row = [] then Inr tickets
      else
        res_bind (ticket_id_parse (row_ticket_id row)) (\<lambda>tid.
        if row_event row = EvReceived then
          res_bind (received row) (\<lambda>t.
          if map_of tickets tid \<noteq> None then Inl Unavailable else Inr (btree_insert tid t tickets))
        else
          res_bind (ok_or (map_of tickets tid) Unavailable) (\<lambda>t.
          res_bind (apply_row ch cfg t row) (\<lambda>t'. Inr (btree_insert tid t' tickets)))))"

definition rebuild_tickets :: "cenv \<Rightarrow> journal_row list \<Rightarrow> (ticket_id \<times> ticket) list outcome" where
  "rebuild_tickets C rows =
     res_bind (res_fold (rebuild_row (je_chrono (cn_journal C)) (cn_settings C)) [] rows) (\<lambda>tickets.
     res_then (reserve 0 (length tickets) (cf_max_tickets (cn_settings C)) 0)
    (res_then (res_fold (\<lambda>_ p. res_then (reserve 0 (tk_events (snd p)) (cf_max_ticket_events (cn_settings C)) 0) (Inr ())) () tickets)
       (Inr tickets)))"

section \<open>Verifying the revisions\<close>

record verified_payloads =
  vp_intakes :: "(ticket_id \<times> intake) list"
  vp_lengths :: "((ticket_id \<times> nat) \<times> nat) list"

definition vp_intake :: "verified_payloads \<Rightarrow> ticket_id \<Rightarrow> intake outcome" where
  "vp_intake v tid = ok_or (map_of (vp_intakes v) tid) Unavailable"

definition vp_personal ::
  "cenv \<Rightarrow> case_state \<Rightarrow> verified_payloads \<Rightarrow> ticket_id \<Rightarrow> nat \<Rightarrow> string \<Rightarrow> payload_event outcome" where
  "vp_personal C c v tid sequence expected =
     (if sequence \<noteq> 1 then read_payload (cn_payload C) (ca_pdisk c) tid sequence expected
      else
        res_bind (ok_or (map_of (ca_tickets c) tid) Unavailable) (\<lambda>t.
        if map_of (tk_references t) 1 \<noteq> Some expected then Inl Unavailable
        else res_bind (vp_intake v tid) (\<lambda>i. Inr (PeIntake i))))"

definition purge_authorized :: "ticket \<Rightarrow> bool" where
  "purge_authorized t \<longleftrightarrow> tk_purged t \<or> (case tk_pending t of None \<Rightarrow> False | Some row \<Rightarrow> row_event row = EvPurgeIntent)"

definition verify_reference ::
  "cenv \<Rightarrow> case_state \<Rightarrow> ticket \<Rightarrow> verified_payloads \<Rightarrow> nat \<times> string \<Rightarrow> verified_payloads outcome" where
  "verify_reference C c t v ref =
     (case ref of (sequence, expected) \<Rightarrow>
        res_bind (read_authorized_measured (cn_payload C) (ca_pdisk c) (tk_id t) sequence expected (purge_authorized t)) (\<lambda>loaded.
        case loaded of
          None \<Rightarrow> Inr v
        | Some (content, len) \<Rightarrow>
            (let v1 = v\<lparr> vp_lengths := btree_insert (tk_id t, sequence) len (vp_lengths v) \<rparr> in
             if sequence = 1
             then (case content of
                     PeIntake i \<Rightarrow> Inr (v1\<lparr> vp_intakes := btree_insert (tk_id t) i (vp_intakes v1) \<rparr>)
                   | _ \<Rightarrow> Inl Unavailable)
             else Inr v1)))"

definition verify_ticket ::
  "cenv \<Rightarrow> case_state \<Rightarrow> verified_payloads \<Rightarrow> ticket_id \<times> ticket \<Rightarrow> verified_payloads outcome" where
  "verify_ticket C c v p =
     (let t = snd p in
      res_bind (res_fold (verify_reference C c t) v (tk_references t)) (\<lambda>v1.
      if purge_authorized t then Inr v1
      else
        res_bind (vp_intake v1 (tk_id t)) (\<lambda>i.
        if intake_route i \<noteq> tk_route t \<or> rf_requester_type (it_report i) \<noteq> tk_requester t then Inl Unavailable
        else Inr v1)))"

definition personal_rows :: "event_name set" where
  "personal_rows = {EvReceived, EvDecided, EvIdentityRequested, EvIdentityConfirmed, EvClarificationRequested,
     EvClarificationReceived, EvExtensionNotified, EvAppealed, EvReversalIntent, EvUpheld, EvProgressCommunicated, EvClosed}"

fun content_event :: "payload_event \<Rightarrow> event_name" where
  "content_event (PeIntake _) = EvReceived"
| "content_event (PeIdentity e _) = identity_event_name e"
| "content_event (PeExtension _ _ _ _) = EvExtensionNotified"
| "content_event (PeDecision _ _ _) = EvDecided"
| "content_event (PeAppeal _ _) = EvAppealed"
| "content_event (PeReversal _ _ _) = EvReversalIntent"
| "content_event (PeUphold _ _ _) = EvUpheld"
| "content_event (PeProgress _ _ _) = EvProgressCommunicated"
| "content_event (PeClosure _) = EvClosed"

definition verify_decision_row ::
  "cenv \<Rightarrow> journal_row \<Rightarrow> intake \<Rightarrow> (ticket_id \<times> ticket) list \<Rightarrow> decision \<Rightarrow> hex64 list \<Rightarrow> notice \<Rightarrow> unit outcome" where
  "verify_decision_row C row i history d salts n =
     (if row_decision row \<noteq> decision_kind_as_str (decision_kind_of d) then Inl Unavailable
      else
        res_then
          (if row_event row = EvDecided then
             res_bind (ticket_id_parse (row_ticket_id row)) (\<lambda>tid.
             res_bind (ok_or (map_of history tid) Unavailable) (\<lambda>before.
             decision_allowed (cn_settings C) before d (intake_ground i) history))
           else Inr ())
       (res_then (verify_decision_notice d n)
        (let names_required = (decision_kind_of d = DkGranted \<and> intake_ground i = Some GdDataDelisting) in
         if length salts \<noteq> (if names_required then length (intake_names i) else 0) then Inl Unavailable
         else Inr ())))"

definition verify_personal_row ::
  "cenv \<Rightarrow> case_state \<Rightarrow> journal_row \<Rightarrow> intake \<Rightarrow> (ticket_id \<times> ticket) list \<Rightarrow> verified_payloads \<Rightarrow> unit outcome" where
  "verify_personal_row C c row i history v =
     (if row_payload_sequence row = 0 then (if row_event row \<in> personal_rows then Inl Unavailable else Inr ())
      else
        res_bind (ticket_id_parse (row_ticket_id row)) (\<lambda>tid.
        res_bind (vp_personal C c v tid (row_payload_sequence row) (row_commitment row)) (\<lambda>content.
        res_then (case content of
                    PeDecision d salts n \<Rightarrow> verify_decision_row C row i history d salts n
                  | _ \<Rightarrow> Inr ())
         (let expected = content_event content in
          if row_event row \<noteq> expected \<and> \<not> (row_event row = EvActionIntent \<and> expected \<in> {EvReceived, EvDecided})
          then Inl Unavailable else Inr ()))))"

definition verify_history_row ::
  "cenv \<Rightarrow> case_state \<Rightarrow> verified_payloads \<Rightarrow> (ticket_id \<times> ticket) list \<Rightarrow> journal_row \<Rightarrow> (ticket_id \<times> ticket) list outcome" where
  "verify_history_row C c v history row =
     res_bind (ticket_id_parse (row_ticket_id row)) (\<lambda>tid.
     res_bind (ok_or (map_of (ca_tickets c) tid) Unavailable) (\<lambda>final_ticket.
     res_then (if purge_authorized final_ticket then Inr ()
               else res_bind (vp_intake v (tk_id final_ticket)) (\<lambda>i. verify_personal_row C c row i history v))
      (if row_event row = EvReceived then res_bind (received row) (\<lambda>t. Inr (btree_insert tid t history))
       else
         res_bind (ok_or (map_of history tid) Unavailable) (\<lambda>t.
         res_bind (apply_row (je_chrono (cn_journal C)) (cn_settings C) t row) (\<lambda>t'. Inr (btree_insert tid t' history))))))"

definition verify_payloads :: "cenv \<Rightarrow> case_state \<Rightarrow> verified_payloads outcome" where
  "verify_payloads C c =
     res_bind (res_fold (verify_ticket C c) \<lparr> vp_intakes = [], vp_lengths = [] \<rparr> (ca_tickets c)) (\<lambda>v.
     res_then (res_fold (verify_history_row C c v) [] (filter (\<lambda>row. row_ticket_id row \<noteq> []) (jn_rows (ca_journal c))))
       (Inr v))"

section \<open>Completing operations\<close>

definition recovery_operation ::
  "cenv \<Rightarrow> case_state \<Rightarrow> ticket \<Rightarrow> journal_row \<Rightarrow> verified_payloads \<Rightarrow> rule_delta outcome" where
  "recovery_operation C c t intent v =
     res_bind (vp_intake v (tk_id t)) (\<lambda>i.
     res_bind (vp_personal C c v (tk_id t) (row_payload_sequence intent) (row_commitment intent)) (\<lambda>content.
     case content of
       PeDecision _ salts _ \<Rightarrow> delta (cn_payload C) intent i salts
     | PeIntake _ \<Rightarrow> delta (cn_payload C) intent i []
     | PeReversal _ _ _ \<Rightarrow> delta (cn_payload C) intent i []
     | _ \<Rightarrow> Inl Unavailable))"

text \<open>The clock readings and the failing steps of one ticket's recovery.\<close>

record recovery_step =
  rv_pending_now :: int
  rv_purge :: "(nat \<times> bool) option"
  rv_commit :: persist_end
  rv_rules :: bool
  rv_pending_plan :: plan_faults
  rv_finish_now :: int
  rv_finish_plan :: plan_faults

definition recovery_plan :: "journal_row list \<Rightarrow> prepared_rules option \<Rightarrow> plan" where
  "recovery_plan rows rules =
     \<lparr> pl_rows = rows, pl_payload = None, pl_rules = rules, pl_purge = False, pl_reserved = True \<rparr>"

definition recovery_rules ::
  "cenv \<Rightarrow> persist_end \<Rightarrow> rules_snapshot \<Rightarrow> rule_delta \<Rightarrow> case_state \<Rightarrow> unit outcome \<times> case_state" where
  "recovery_rules C e rules_at_open dl c =
     (if verifies rules_at_open dl then (Inr (), c)
      else case prepare_delta (cn_rules C) (st_state (ca_rules c)) dl of
             Inl err \<Rightarrow> (Inl err, c)
           | Inr prepared \<Rightarrow> case_commit e (Some prepared) c)"

definition finish_pending ::
  "cenv \<Rightarrow> recovery_step \<Rightarrow> verified_payloads \<Rightarrow> rules_snapshot \<Rightarrow> ticket \<Rightarrow> case_state \<Rightarrow> unit outcome \<times> case_state" where
  "finish_pending C f v rules_at_open t c =
     (case tk_pending t of
        None \<Rightarrow> (Inl Unavailable, c)
      | Some intent \<Rightarrow>
          bind_case
            (if row_event intent = EvPurgeIntent then
               bind_case (case_purge_files C (rv_purge f) True t c)
                 (\<lambda>c. (Inr (), c\<lparr> ca_usage := btree_insert (tk_id t) 0 (ca_usage c) \<rparr>))
             else
               (case recovery_operation C c t intent v of
                  Inl e \<Rightarrow> (Inl e, c)
                | Inr dl \<Rightarrow> bind_case (recovery_rules C (rv_commit f) rules_at_open dl c) (hook_case (rv_rules f))))
            (\<lambda>c. case completion t intent (rv_pending_now f) ''system.recovery'' of
                    Inl e \<Rightarrow> (Inl e, c)
                  | Inr fin \<Rightarrow> execute_plan C (rv_pending_plan f) (recovery_plan [fin] None) c))"

definition finish_decision ::
  "cenv \<Rightarrow> recovery_step \<Rightarrow> verified_payloads \<Rightarrow> ticket \<Rightarrow> case_state \<Rightarrow> unit outcome \<times> case_state" where
  "finish_decision C f v t c =
     (let rows = jn_rows (ca_journal c); name = ticket_id_as_str (tk_id t) in
      case List.find (\<lambda>row. row_ticket_id row = name \<and> row_event row = EvDecided) (rev rows) of
        None \<Rightarrow> (Inl Unavailable, c)
      | Some decided \<Rightarrow>
          if row_reason_code decided = []
             \<or> row_decision decided \<notin> {''granted'', ''not_intimate_image'', ''no_standing''}
             \<or> list_ex (\<lambda>row. row_ticket_id row = name \<and> row_event row = EvActionIntent
                  \<and> row_sequence row > row_sequence decided) rows
          then (Inr (), c)
          else
            (case res_bind (vp_intake v (tk_id t)) (\<lambda>i.
                  res_bind (ok_or (checked_add_u64 (journal_sequence c) 1) Capacity) (\<lambda>sequence.
                  let intent = decided\<lparr> row_event := EvActionIntent, row_actor := ''system.recovery'',
                        row_at := rv_finish_now f, row_intent_sequence := sequence, row_asset_ids := documents i,
                        row_effective_at := row_at decided \<rparr>
                  in
                  res_bind (recovery_operation C c t intent v) (\<lambda>dl.
                  res_bind (prepare_delta (cn_rules C) (st_state (ca_rules c)) dl) (\<lambda>prepared.
                  res_bind (completion t intent (rv_finish_now f) ''system.recovery'') (\<lambda>fin.
                  Inr (recovery_plan [intent, fin] (Some prepared))))))) of
               Inl e \<Rightarrow> (Inl e, c)
             | Inr plan \<Rightarrow> execute_plan C (rv_finish_plan f) plan c))"

definition verify_completed ::
  "cenv \<Rightarrow> case_state \<Rightarrow> ticket \<Rightarrow> verified_payloads \<Rightarrow> rules_snapshot \<Rightarrow> unit outcome" where
  "verify_completed C c t v rules_at_open =
     (case List.find (\<lambda>row. row_ticket_id row = ticket_id_as_str (tk_id t)
             \<and> row_event row \<in> {EvActionIntent, EvReversalIntent}) (rev (jn_rows (ca_journal c))) of
        None \<Rightarrow> Inr ()
      | Some intent \<Rightarrow>
          res_bind
            (if tk_purged t then
               (if row_event intent = EvReversalIntent then
                  res_bind (row_documents intent) (\<lambda>docs.
                  res_bind (ground_parse (row_reason_code intent)) (\<lambda>g.
                  Inr (verifies rules_at_open (DeltaReverse (tk_id t) docs g (row_at intent) (row_intent_sequence intent)))))
                else if row_decision intent \<in> {''not_intimate_image'', ''no_standing''}
                then Inr (verifies rules_at_open (DeltaRemove (tk_id t)))
                else
                  res_bind (row_documents intent) (\<lambda>docs.
                  res_bind (ground_parse (row_reason_code intent)) (\<lambda>g.
                  Inr (has_intent rules_at_open (tk_id t) docs g (row_intent_sequence intent)))))
             else res_bind (recovery_operation C c t intent v) (\<lambda>dl. Inr (verifies rules_at_open dl))) (\<lambda>valid.
          if valid then Inr () else Inl RulesUnavailable))"

text \<open>The rows that finish an interrupted admission, and the rules they install.\<close>

definition intake_rows ::
  "cenv \<Rightarrow> int \<Rightarrow> verified_payloads \<Rightarrow> ticket \<Rightarrow> case_state \<Rightarrow> (journal_row list \<times> prepared_rules option) outcome" where
  "intake_rows C now v t c =
     (let installed = list_ex (\<lambda>row. row_ticket_id row = ticket_id_as_str (tk_id t) \<and> row_event row = EvRulesCommitted)
            (jn_rows (ca_journal c))
      in
      res_bind
        (if tk_state t = StReceived then
           res_bind
             (if tk_route t = RtIntimateImages \<and> \<not> installed then
                res_bind (vp_intake v (tk_id t)) (\<lambda>i.
                res_bind (event_row t EvActionIntent now ''system.recovery'') (\<lambda>row.
                res_bind (ok_or (map_of (tk_references t) 1) Unavailable) (\<lambda>cm.
                res_bind (ok_or (checked_add_u64 (journal_sequence c) 1) Capacity) (\<lambda>sequence.
                res_bind (intimate_effective (je_chrono (cn_journal C)) (ms_received_at (tk_times t))
                            (cf_intimate_margin_seconds (cn_settings C))) (\<lambda>eff.
                let intent = row\<lparr> row_reason_code := ''intimate_images'', row_asset_ids := documents i,
                      row_payload_sequence := 1, row_commitment := cm, row_intent_sequence := sequence,
                      row_effective_at := eff \<rparr>
                in
                res_bind (delta (cn_payload C) intent i []) (\<lambda>dl.
                res_bind (prepare_delta (cn_rules C) (st_state (ca_rules c)) dl) (\<lambda>prepared.
                res_bind (completion t intent now ''system.recovery'') (\<lambda>fin.
                Inr ([intent, fin], Some prepared)))))))))
              else Inr ([], None)) (\<lambda>(rows, rules).
           res_bind (event_row t EvAcknowledged now ''system.recovery'') (\<lambda>ack. Inr (rows @ [ack], rules)))
         else Inr ([], None)) (\<lambda>(rows, rules).
      res_bind (event_row (t\<lparr> tk_state := StAcknowledged \<rparr>) EvQueued now ''system.recovery'') (\<lambda>queued.
      Inr (rows @ [queued], rules))))"

definition finish_intake ::
  "cenv \<Rightarrow> recovery_step \<Rightarrow> verified_payloads \<Rightarrow> ticket \<Rightarrow> case_state \<Rightarrow> unit outcome \<times> case_state" where
  "finish_intake C f v t c =
     (case intake_rows C (rv_finish_now f) v t c of
        Inl e \<Rightarrow> (Inl e, c)
      | Inr (rows, rules) \<Rightarrow> execute_plan C (rv_finish_plan f) (recovery_plan rows rules) c)"

definition reconcile_ticket ::
  "cenv \<Rightarrow> recovery_step \<Rightarrow> verified_payloads \<Rightarrow> rules_snapshot \<Rightarrow> ticket \<Rightarrow> case_state \<Rightarrow> unit outcome \<times> case_state" where
  "reconcile_ticket C f v rules_at_open t c =
     bind_case
       (if tk_pending t \<noteq> None then finish_pending C f v rules_at_open t c
        else (verify_completed C c t v rules_at_open, c))
       (\<lambda>c. case map_of (ca_tickets c) (tk_id t) of
              None \<Rightarrow> (Inl Unavailable, c)
            | Some current \<Rightarrow>
                if tk_state current \<in> {StReceived, StAcknowledged} then finish_intake C f v current c
                else if tk_state current = StDecided then finish_decision C f v current c
                else (Inr (), c))"

fun reconcile_tickets ::
  "cenv \<Rightarrow> (nat \<Rightarrow> recovery_step) \<Rightarrow> verified_payloads \<Rightarrow> rules_snapshot \<Rightarrow> nat \<Rightarrow> ticket list \<Rightarrow> case_state
   \<Rightarrow> unit outcome \<times> case_state" where
  "reconcile_tickets C F v rules_at_open n [] c = (Inr (), c)"
| "reconcile_tickets C F v rules_at_open n (t # ts) c =
     bind_case (reconcile_ticket C (F n) v rules_at_open t c) (reconcile_tickets C F v rules_at_open (Suc n) ts)"

definition referenced :: "(ticket_id \<times> ticket) list \<Rightarrow> ticket_id \<times> nat \<Rightarrow> bool" where
  "referenced tickets p \<longleftrightarrow> list_ex (\<lambda>(_, t). tk_id t = fst p \<and> snd p \<in> fst ` set (tk_references t)) tickets"

definition usage_checks :: "cenv \<Rightarrow> (ticket_id \<times> nat) list \<Rightarrow> unit outcome" where
  "usage_checks C usage =
     res_bind (res_fold (\<lambda>acc p. res_then (validate_bound BkTicketPayload (snd p)) (ok_or (checked_add_u64 acc (snd p)) Unavailable)) 0 usage)
       (\<lambda>all_bytes. res_then (reserve 0 all_bytes (cf_max_payload_bytes (cn_settings C)) 0) (Inr ()))"

definition recovered_case :: "cenv \<Rightarrow> case_state \<Rightarrow> verified_payloads outcome \<times> case_state" where
  "recovered_case C c =
     (case rebuild_tickets C (jn_rows (ca_journal c)) of
        Inl e \<Rightarrow> (Inl e, c)
      | Inr tickets \<Rightarrow>
          (let c1 = c\<lparr> ca_tickets := tickets \<rparr> in
           case verify_payloads C c1 of
             Inl e \<Rightarrow> (Inl e, c1)
           | Inr v \<Rightarrow>
               (case inventory (referenced tickets) (map_of (vp_lengths v)) True (ca_pdisk c1) of
                  (Inl e, d) \<Rightarrow> (Inl e, c1\<lparr> ca_pdisk := d \<rparr>)
                | (Inr usage, d) \<Rightarrow>
                    (res_then (usage_checks C usage) (Inr v), c1\<lparr> ca_usage := usage, ca_pdisk := d \<rparr>))))"

definition reconcile ::
  "cenv \<Rightarrow> (nat \<Rightarrow> recovery_step) \<Rightarrow> append_faults \<Rightarrow> head_fault \<Rightarrow> case_state \<Rightarrow> unit outcome \<times> case_state" where
  "reconcile C F f g c =
     (case recovered_case C c of
        (Inl e, c1) \<Rightarrow> (Inl e, c1)
      | (Inr v, c1) \<Rightarrow>
          bind_case (reconcile_tickets C F v (st_state (ca_rules c)) 0 (map snd (ca_tickets c1)) c1) (\<lambda>c2.
          case finish_recovery (cn_journal C) f g (ca_journal c2) (ca_jdisk c2) of
            (r, j, d) \<Rightarrow> (r, c2\<lparr> ca_journal := j, ca_jdisk := d \<rparr>)))"

section \<open>Opening the store\<close>

text \<open>
  The disks a restart finds, and what it reads and which of its steps fail: the configured list's bytes, the
  rules owner's reading of the clock, whether its file can be replaced, and the steps of the journal and of
  recovery.
\<close>

record case_disks =
  ds_journal :: "jdisk option"
  ds_payload :: pdisk
  ds_rules :: "string option"

record open_inputs =
  on_listed :: "string option"
  on_decode_list :: "string \<Rightarrow> listed_file option"
  on_rules_now :: int
  on_persist :: bool
  on_writes_disabled :: bool
  on_tail :: tail_fault
  on_init :: head_fault
  on_steps :: "nat \<Rightarrow> recovery_step"
  on_append :: append_faults
  on_head :: head_fault
  on_access :: append_faults

definition open_unpublished :: "jenv \<Rightarrow> tail_fault \<Rightarrow> head_fault \<Rightarrow> jdisk option \<Rightarrow> journal outcome \<times> jdisk" where
  "open_unpublished E t g disk = (case disk of None \<Rightarrow> initialize E g | Some d \<Rightarrow> load E t d)"

definition fresh_case :: "open_inputs \<Rightarrow> journal \<Rightarrow> jdisk \<Rightarrow> pdisk \<Rightarrow> rules_store \<Rightarrow> case_state" where
  "fresh_case oi j jd pd st =
     \<lparr> ca_journal = j, ca_jdisk = jd, ca_pdisk = pd, ca_tickets = [], ca_usage = [], ca_rules = st,
       ca_writes_disabled = on_writes_disabled oi, ca_started = False \<rparr>"

definition case_list_access :: "cenv \<Rightarrow> open_inputs \<Rightarrow> listed_matcher \<Rightarrow> case_state \<Rightarrow> unit outcome \<times> case_state" where
  "case_list_access C oi listed c =
     (if on_listed oi = None then (Inr (), c)
      else
        case record_list_access (cn_journal C) (on_access oi) (ca_journal c) (ca_jdisk c) (listed_metadata_of listed) of
          (r, j, d) \<Rightarrow> (r, c\<lparr> ca_journal := j, ca_jdisk := d \<rparr>))"

definition case_disks_of :: "case_state \<Rightarrow> case_disks" where
  "case_disks_of c = \<lparr> ds_journal = Some (ca_jdisk c), ds_payload = ca_pdisk c, ds_rules = st_disk (ca_rules c) \<rparr>"

definition open_case ::
  "cenv \<Rightarrow> open_inputs \<Rightarrow> listed_matcher \<Rightarrow> rules_store \<Rightarrow> case_disks \<Rightarrow> case_state outcome \<times> rules_store \<times> case_disks" where
  "open_case C oi listed st ds =
     (case open_unpublished (cn_journal C) (on_tail oi) (on_init oi) (ds_journal ds) of
        (Inl e, jd) \<Rightarrow> (Inl e, st, ds\<lparr> ds_journal := Some jd, ds_rules := st_disk st \<rparr>)
      | (Inr j, jd) \<Rightarrow>
          (case bind_case (reconcile C (on_steps oi) (on_append oi) (on_head oi) (fresh_case oi j jd (ds_payload ds) st))
                  (case_list_access C oi listed) of
             (r, c) \<Rightarrow> (res_bind r (\<lambda>_. Inr c), ca_rules c, case_disks_of c)))"

definition open_store ::
  "cenv \<Rightarrow> open_inputs \<Rightarrow> case_disks \<Rightarrow> (case_store \<times> rules_store) outcome \<times> case_disks" where
  "open_store C oi ds =
     (case listed_load (on_decode_list oi) (cn_settings C) (on_listed oi) of
        Inl e \<Rightarrow> (Inl e, ds)
      | Inr listed \<Rightarrow>
          (case open_rules (cn_rules C) (on_persist oi) (on_rules_now oi) listed (ds_rules ds) of
             Inl e \<Rightarrow> (Inl e, ds)
           | Inr st \<Rightarrow>
               (case open_case C oi listed st ds of
                  (Inr c, st1, ds1) \<Rightarrow> (Inr (\<lparr> so_case = Some c, so_unavailable = False \<rparr>, st1), ds1)
                | (Inl RulesUnavailable, st1, ds1) \<Rightarrow> (Inl RulesUnavailable, ds1)
                | (Inl _, st1, ds1) \<Rightarrow> (Inr (\<lparr> so_case = None, so_unavailable = True \<rparr>, st1), ds1))))"

end
