(* ===== verification/Lifecycle.thy ===== *)
theory Lifecycle
  imports Transitions
begin

text \<open>
  What the ticket reducer guarantees of every ticket that replays: an inversion lemma that
  gives each field after an accepted row, the lifecycle invariant, and its consequences.
\<close>

section \<open>Inversion of an accepted row\<close>

definition is_reply :: "event_name \<Rightarrow> bool" where
  "is_reply e \<longleftrightarrow> e \<in> {EvIdentityConfirmed, EvClarificationReceived}"

definition is_request :: "event_name \<Rightarrow> bool" where
  "is_request e \<longleftrightarrow> e \<in> {EvIdentityRequested, EvClarificationRequested}"

lemma evidence_Inr:
  assumes "evidence t row = Inr t1"
  shows "t1 = t\<lparr> tk_relevant_at := (if is_reply (row_event row) then max (tk_relevant_at t) (row_at row)
                                     else tk_relevant_at t),
                  tk_pending_evidence := (if is_reply (row_event row) then None
                     else if row_event row = EvIdentityRequested then Some IeRequestIdentity
                     else if row_event row = EvClarificationRequested then Some IeRequestClarification
                     else tk_pending_evidence t) \<rparr>"
    and "is_request (row_event row) \<or> is_reply (row_event row) \<Longrightarrow> tk_route t = RtDataRights"
  using assms
  by (cases "row_event row"; simp add: evidence_def is_reply_def is_request_def Let_def split: if_splits)+

lemma operation_Inr:
  assumes "operation t row = Inr t1"
  shows "t1 = t\<lparr> tk_pending := (if intent_event (row_event row) then Some row
                    else if completion_event (row_event row) then None else tk_pending t),
                  tk_purged := (if completion_event (row_event row) then row_event row = EvPurged else tk_purged t),
                  tk_provisional_committed := (tk_provisional_committed t
                    \<or> row_event row = EvRulesCommitted \<and> row_decision row = []) \<rparr>"
    and "completion_event (row_event row) \<Longrightarrow> \<exists>intent. tk_pending t = Some intent
      \<and> expected_completion intent = Some (row_event row)
      \<and> row_intent_sequence row = row_sequence intent \<and> row_reason_code row = row_reason_code intent
      \<and> row_asset_ids row = row_asset_ids intent \<and> row_effective_at row = row_effective_at intent
      \<and> row_decision row = row_decision intent"
  using assms
  by (auto simp: operation_def intent_event_def completion_event_def res_simps Let_def split: if_splits)

lemma record_reference_Inr:
  assumes "record_reference t row = Inr t1"
  shows "t1 = t\<lparr> tk_references := tk_references t1 \<rparr>"
    and "tk_references t1 = tk_references t
      \<or> (tk_references t1 = tk_references t @ [(length (tk_references t) + 1, row_commitment row)]
         \<and> row_payload_sequence row = length (tk_references t) + 1)"
  using assms by (auto simp: record_reference_def split: if_splits option.splits)

lemma record_decision_Inr:
  assumes "record_decision t row = Inr t1"
  shows "t1 = (if row_event row = EvDecided
               then t\<lparr> tk_decision := ok (decision_kind_parse (row_decision row)),
                       tk_ground := ok (ground_parse (row_reason_code row)) \<rparr> else t)"
    and "row_event row = EvDecided \<Longrightarrow> \<exists>k. decision_kind_parse (row_decision row) = Inr k"
  using assms by (auto simp: record_decision_def res_simps split: if_splits)

lemma apply_row_Inr:
  assumes "apply_row C cfg t row = Inr t'"
  obtains "next" t1 t2 t3 t4 t5 where
    "successor_option (tk_state t) (row_event row) = Some next"
    "row_ticket_id row = ticket_id_as_str (tk_id t)" "row_route row = route_as_str (tk_route t)"
    "row_received_at row = ms_received_at (tk_times t)" "row_state row = ticket_state_as_str next"
    "tk_last_at t \<le> row_at row" "\<not> tk_purged t" "guard C cfg t row = Inr ()"
    "evidence t row = Inr t1" "operation t1 row = Inr t2" "record_decision t2 row = Inr t3"
    "t4 = (if row_event row = EvExtensionNotified then t3\<lparr> tk_extended_epoch := Some (tk_relevant_at t3) \<rparr> else t3)"
    "record_reference t4 row = Inr t5" "tk_events t5 + 1 \<le> u64_max"
    "t' = t5\<lparr> tk_times := milestone (tk_times t5) (row_event row) (row_at row), tk_state := next,
       tk_events := tk_events t5 + 1, tk_last_at := row_at row \<rparr>"
proof -
  define ext where "ext t3 = (if row_event row = EvExtensionNotified
    then t3\<lparr> tk_extended_epoch := Some (tk_relevant_at t3) \<rparr> else t3)" for t3 :: ticket
  obtain "next" where n: "successor_option (tk_state t) (row_event row) = Some next"
    using assms by (auto simp: apply_row_def res_simps successor_def)
  have rest: "row_ticket_id row = ticket_id_as_str (tk_id t)" "row_route row = route_as_str (tk_route t)"
    "row_received_at row = ms_received_at (tk_times t)" "row_state row = ticket_state_as_str next"
    "tk_last_at t \<le> row_at row" "\<not> tk_purged t" "guard C cfg t row = Inr ()"
    "\<exists>t1 t2 t3 t5. evidence t row = Inr t1 \<and> operation t1 row = Inr t2 \<and> record_decision t2 row = Inr t3
      \<and> record_reference (ext t3) row = Inr t5 \<and> tk_events t5 + 1 \<le> u64_max
      \<and> t' = t5\<lparr> tk_times := milestone (tk_times t5) (row_event row) (row_at row), tk_state := next,
          tk_events := tk_events t5 + 1, tk_last_at := row_at row \<rparr>"
    using assms n unfolding apply_row_def Let_def ext_def [symmetric]
    by (simp_all add: res_simps successor_def checked_Some split: if_split_asm) blast+
  then obtain t1 t2 t3 t5 where "evidence t row = Inr t1" "operation t1 row = Inr t2"
      "record_decision t2 row = Inr t3" "record_reference (ext t3) row = Inr t5" "tk_events t5 + 1 \<le> u64_max"
      "t' = t5\<lparr> tk_times := milestone (tk_times t5) (row_event row) (row_at row), tk_state := next,
          tk_events := tk_events t5 + 1, tk_last_at := row_at row \<rparr>"
    by blast
  then show thesis
    using that [of "next" t1 t2 t3 "ext t3" t5] n rest(1-7) by (simp add: ext_def)
qed

text \<open>Every field of the ticket after an accepted row.\<close>

lemma apply_row_fields:
  assumes "apply_row C cfg t row = Inr t'"
  shows apply_successor: "successor_option (tk_state t) (row_event row) = Some (tk_state t')"
    and apply_guard: "guard C cfg t row = Inr ()"
    and apply_not_purged: "\<not> tk_purged t"
    and apply_time: "tk_last_at t \<le> row_at row \<and> tk_last_at t' = row_at row"
    and apply_identity: "tk_id t' = tk_id t \<and> tk_route t' = tk_route t \<and> tk_requester t' = tk_requester t"
    and apply_times: "tk_times t' = milestone (tk_times t) (row_event row) (row_at row)"
    and apply_relevant: "tk_relevant_at t' = (if is_reply (row_event row)
        then max (tk_relevant_at t) (row_at row) else tk_relevant_at t)"
    and apply_evidence: "tk_pending_evidence t' = (if is_reply (row_event row) then None
        else if row_event row = EvIdentityRequested then Some IeRequestIdentity
        else if row_event row = EvClarificationRequested then Some IeRequestClarification
        else tk_pending_evidence t)"
    and apply_extended: "tk_extended_epoch t' = (if row_event row = EvExtensionNotified
        then Some (tk_relevant_at t) else tk_extended_epoch t)"
    and apply_decision: "tk_decision t' = (if row_event row = EvDecided
        then ok (decision_kind_parse (row_decision row)) else tk_decision t)"
    and apply_ground: "tk_ground t' = (if row_event row = EvDecided
        then ok (ground_parse (row_reason_code row)) else tk_ground t)"
    and apply_pending: "tk_pending t' = (if intent_event (row_event row) then Some row
        else if completion_event (row_event row) then None else tk_pending t)"
    and apply_purged: "tk_purged t' = (row_event row = EvPurged)"
    and apply_provisional: "tk_provisional_committed t' = (tk_provisional_committed t
        \<or> row_event row = EvRulesCommitted \<and> row_decision row = [])"
    and apply_references: "tk_references t' = tk_references t
        \<or> tk_references t' = tk_references t @ [(length (tk_references t) + 1, row_commitment row)]"
    and apply_data_rights: "is_request (row_event row) \<or> is_reply (row_event row) \<Longrightarrow> tk_route t = RtDataRights"
    and apply_completes: "completion_event (row_event row) \<Longrightarrow> \<exists>intent. tk_pending t = Some intent
        \<and> expected_completion intent = Some (row_event row) \<and> row_decision row = row_decision intent
        \<and> row_intent_sequence row = row_sequence intent \<and> row_effective_at row = row_effective_at intent
        \<and> row_asset_ids row = row_asset_ids intent \<and> row_reason_code row = row_reason_code intent"
    and apply_decided: "row_event row = EvDecided \<Longrightarrow> \<exists>k. decision_kind_parse (row_decision row) = Inr k"
    and apply_events: "tk_events t' = tk_events t + 1"
proof -
  obtain "next" t1 t2 t3 t4 t5 where *:
    "successor_option (tk_state t) (row_event row) = Some next"
    "tk_last_at t \<le> row_at row" "\<not> tk_purged t" "guard C cfg t row = Inr ()"
    "evidence t row = Inr t1" "operation t1 row = Inr t2" "record_decision t2 row = Inr t3"
    "t4 = (if row_event row = EvExtensionNotified then t3\<lparr> tk_extended_epoch := Some (tk_relevant_at t3) \<rparr> else t3)"
    "record_reference t4 row = Inr t5"
    "t' = t5\<lparr> tk_times := milestone (tk_times t5) (row_event row) (row_at row), tk_state := next,
       tk_events := tk_events t5 + 1, tk_last_at := row_at row \<rparr>"
    by (rule apply_row_Inr [OF assms])
  note e = evidence_Inr [OF *(5)] and o = operation_Inr [OF *(6)] and d = record_decision_Inr [OF *(7)]
    and r = record_reference_Inr [OF *(9)]
  have r5: "tk_state t5 = tk_state t4" "tk_times t5 = tk_times t4" "tk_id t5 = tk_id t4"
    "tk_route t5 = tk_route t4" "tk_requester t5 = tk_requester t4" "tk_relevant_at t5 = tk_relevant_at t4"
    "tk_pending_evidence t5 = tk_pending_evidence t4" "tk_extended_epoch t5 = tk_extended_epoch t4"
    "tk_decision t5 = tk_decision t4" "tk_ground t5 = tk_ground t4" "tk_pending t5 = tk_pending t4"
    "tk_purged t5 = tk_purged t4" "tk_provisional_committed t5 = tk_provisional_committed t4"
    "tk_events t5 = tk_events t4"
    by (subst r(1), simp)+
  show "successor_option (tk_state t) (row_event row) = Some (tk_state t')"
    "guard C cfg t row = Inr ()" "\<not> tk_purged t" "tk_last_at t \<le> row_at row \<and> tk_last_at t' = row_at row"
    using * by simp_all
  have ev: "row_event row = EvExtensionNotified \<Longrightarrow> \<not> is_reply (row_event row)"
    by (simp add: is_reply_def)
  show "tk_id t' = tk_id t \<and> tk_route t' = tk_route t \<and> tk_requester t' = tk_requester t"
    "tk_times t' = milestone (tk_times t) (row_event row) (row_at row)"
    "tk_relevant_at t' = (if is_reply (row_event row) then max (tk_relevant_at t) (row_at row) else tk_relevant_at t)"
    "tk_pending_evidence t' = (if is_reply (row_event row) then None
        else if row_event row = EvIdentityRequested then Some IeRequestIdentity
        else if row_event row = EvClarificationRequested then Some IeRequestClarification
        else tk_pending_evidence t)"
    "tk_extended_epoch t' = (if row_event row = EvExtensionNotified then Some (tk_relevant_at t) else tk_extended_epoch t)"
    "tk_decision t' = (if row_event row = EvDecided then ok (decision_kind_parse (row_decision row)) else tk_decision t)"
    "tk_ground t' = (if row_event row = EvDecided then ok (ground_parse (row_reason_code row)) else tk_ground t)"
    "tk_pending t' = (if intent_event (row_event row) then Some row
        else if completion_event (row_event row) then None else tk_pending t)"
    "tk_provisional_committed t' = (tk_provisional_committed t
        \<or> row_event row = EvRulesCommitted \<and> row_decision row = [])"
    "tk_events t' = tk_events t + 1"
    using ev by (simp_all add: *(8,10) r5 d(1) o(1) e(1))
  show "tk_purged t' = (row_event row = EvPurged)"
    using *(3) by (auto simp: *(8,10) r5 d(1) o(1) e(1) completion_event_def)
  show "tk_references t' = tk_references t
        \<or> tk_references t' = tk_references t @ [(length (tk_references t) + 1, row_commitment row)]"
  proof -
    have "tk_references t4 = tk_references t" by (simp add: *(8) d(1) o(1) e(1))
    with r(2) show ?thesis by (auto simp: *(10))
  qed
  show "is_request (row_event row) \<or> is_reply (row_event row) \<Longrightarrow> tk_route t = RtDataRights"
    by (rule e(2))
  show "completion_event (row_event row) \<Longrightarrow> \<exists>intent. tk_pending t = Some intent
        \<and> expected_completion intent = Some (row_event row) \<and> row_decision row = row_decision intent
        \<and> row_intent_sequence row = row_sequence intent \<and> row_effective_at row = row_effective_at intent
        \<and> row_asset_ids row = row_asset_ids intent \<and> row_reason_code row = row_reason_code intent"
    using o(2) by (auto simp: e(1))
  show "row_event row = EvDecided \<Longrightarrow> \<exists>k. decision_kind_parse (row_decision row) = Inr k"
    by (rule d(2))
qed

section \<open>The lifecycle invariant\<close>

definition pending_fits :: "ticket \<Rightarrow> journal_row \<Rightarrow> bool" where
  "pending_fits t i \<longleftrightarrow>
     row_event i = EvActionIntent \<and> tk_state t = StReceived \<and> tk_route t = RtIntimateImages \<and> row_decision i = []
     \<or> row_event i = EvActionIntent \<and> tk_state t = StDecided
         \<and> (\<exists>k \<in> {DkGranted, DkNotIntimateImage, DkNoStanding}. tk_decision t = Some k
              \<and> row_decision i = decision_kind_as_str k)
     \<or> row_event i = EvReversalIntent \<and> tk_state t = StAppealed \<and> tk_decision t = Some DkGranted
         \<and> tk_ground t \<noteq> None
     \<or> row_event i = EvPurgeIntent \<and> tk_state t = StClosed"

definition lifecycle_inv :: "ticket \<Rightarrow> bool" where
  "lifecycle_inv t \<longleftrightarrow>
     (tk_purged t \<longrightarrow> tk_state t = StClosed \<and> tk_pending t = None)
     \<and> (tk_state t = StClosed \<longleftrightarrow> ms_closed_at (tk_times t) \<noteq> None)
     \<and> (tk_route t = RtIntimateImages \<and> tk_state t \<noteq> StReceived \<longrightarrow> tk_provisional_committed t)
     \<and> (tk_decision t = None \<longleftrightarrow> tk_state t \<in> {StReceived, StAcknowledged, StQueued, StIdentityPending})
     \<and> (tk_state t \<in> {StActioned, StReversed} \<longrightarrow> tk_decision t = Some DkGranted \<and> tk_ground t \<noteq> None)
     \<and> (tk_pending_evidence t \<noteq> None \<longleftrightarrow> tk_state t = StIdentityPending)
     \<and> (\<forall>i. tk_pending t = Some i \<longrightarrow> pending_fits t i)
     \<and> tk_references t \<noteq> [] \<and> map fst (tk_references t) = [1..<length (tk_references t) + 1]
     \<and> ms_received_at (tk_times t) \<le> tk_relevant_at t
     \<and> (\<forall>e. tk_extended_epoch t = Some e \<longrightarrow> e \<le> tk_relevant_at t \<and> tk_route t = RtDataRights)"

lemma lifecycle_inv_parts:
  assumes "lifecycle_inv t"
  shows inv_purged: "tk_purged t \<longrightarrow> tk_state t = StClosed \<and> tk_pending t = None"
    and inv_closed: "tk_state t = StClosed \<longleftrightarrow> ms_closed_at (tk_times t) \<noteq> None"
    and inv_provisional: "tk_route t = RtIntimateImages \<and> tk_state t \<noteq> StReceived \<longrightarrow> tk_provisional_committed t"
    and inv_decision: "tk_decision t = None \<longleftrightarrow> tk_state t \<in> {StReceived, StAcknowledged, StQueued, StIdentityPending}"
    and inv_granted: "tk_state t \<in> {StActioned, StReversed} \<longrightarrow> tk_decision t = Some DkGranted \<and> tk_ground t \<noteq> None"
    and inv_evidence: "tk_pending_evidence t \<noteq> None \<longleftrightarrow> tk_state t = StIdentityPending"
    and inv_pending: "tk_pending t = Some i \<Longrightarrow> pending_fits t i"
    and inv_references: "tk_references t \<noteq> [] \<and> map fst (tk_references t) = [1..<length (tk_references t) + 1]"
    and inv_relevant: "ms_received_at (tk_times t) \<le> tk_relevant_at t"
    and inv_extended: "tk_extended_epoch t = Some e \<Longrightarrow> e \<le> tk_relevant_at t \<and> tk_route t = RtDataRights"
  using assms unfolding lifecycle_inv_def by blast+

lemma received_inv: "received row = Inr t \<Longrightarrow> lifecycle_inv t"
  by (auto simp: received_def lifecycle_inv_def res_simps split: if_splits)

lemma guard_Inr_pending:
  "guard C cfg t row = Inr () \<Longrightarrow> tk_pending t = None \<or> completion_event (row_event row)"
  by (auto simp: guard_def Let_def split: if_splits)

lemma guard_Inr_acknowledged:
  "guard C cfg t row = Inr () \<Longrightarrow> row_event row = EvAcknowledged \<Longrightarrow> tk_route t = RtIntimateImages
   \<Longrightarrow> tk_provisional_committed t"
  by (auto simp: guard_def Let_def split: if_splits)

lemma guard_Inr_intent:
  "guard C cfg t row = Inr () \<Longrightarrow> row_event row = EvActionIntent \<Longrightarrow> intent_allowed t row"
  by (auto simp: guard_def Let_def split: if_splits)

lemma guard_Inr_granted:
  "guard C cfg t row = Inr () \<Longrightarrow> row_event row \<in> {EvReversalIntent, EvReversed, EvActioned}
   \<Longrightarrow> tk_decision t = Some DkGranted \<and> tk_ground t \<noteq> None"
  by (auto simp: guard_def Let_def res_simps split: if_splits)

lemma guard_Inr_extension:
  "guard C cfg t row = Inr () \<Longrightarrow> row_event row = EvExtensionNotified
   \<Longrightarrow> tk_route t = RtDataRights \<and> tk_extended_epoch t \<noteq> Some (tk_relevant_at t)
     \<and> extension_window C (tk_relevant_at t) (row_at row) = Inr True"
  by (auto simp: guard_def Let_def res_simps split: if_splits)

lemma guard_Inr_purge:
  "guard C cfg t row = Inr () \<Longrightarrow> row_event row = EvPurgeIntent \<Longrightarrow> purge_due C cfg t (row_at row) = Inr True"
  by (auto simp: guard_def Let_def res_simps split: if_splits)

lemma guard_Inr_closed:
  "guard C cfg t row = Inr () \<Longrightarrow> row_event row = EvClosed
   \<Longrightarrow> \<not> (tk_state t = StDecided \<and> tk_decision t = Some DkGranted \<and> tk_ground t \<noteq> None)"
  by (auto simp: guard_def Let_def res_simps split: if_splits)

lemma apply_inv_purged:
  assumes "apply_row C cfg t row = Inr t'"
  shows "tk_purged t' \<longrightarrow> tk_state t' = StClosed \<and> tk_pending t' = None"
  using apply_successor [OF assms] apply_purged [OF assms] apply_pending [OF assms]
  by (auto simp: successor_option_def intent_event_def completion_event_def split: if_splits)

lemma apply_inv_closed:
  assumes "apply_row C cfg t row = Inr t'" and "lifecycle_inv t"
  shows "tk_state t' = StClosed \<longleftrightarrow> ms_closed_at (tk_times t') \<noteq> None"
  using apply_successor [OF assms(1)] apply_times [OF assms(1)] inv_closed [OF assms(2)]
  by (cases "row_event row") (auto simp: successor_option_def milestone_def split: if_splits)

lemma apply_inv_provisional:
  assumes "apply_row C cfg t row = Inr t'" and "lifecycle_inv t"
  shows "tk_route t' = RtIntimateImages \<and> tk_state t' \<noteq> StReceived \<longrightarrow> tk_provisional_committed t'"
  using apply_successor [OF assms(1)] apply_provisional [OF assms(1)] apply_identity [OF assms(1)]
    guard_Inr_acknowledged [OF apply_guard [OF assms(1)]] inv_provisional [OF assms(2)]
  by (cases "row_event row") (auto simp: successor_option_def split: if_splits)

lemma apply_inv_decision:
  assumes "apply_row C cfg t row = Inr t'" and "lifecycle_inv t"
  shows "tk_decision t' = None \<longleftrightarrow> tk_state t' \<in> {StReceived, StAcknowledged, StQueued, StIdentityPending}"
  using apply_successor [OF assms(1)] apply_decision [OF assms(1)] apply_decided [OF assms(1)] inv_decision [OF assms(2)]
  by (cases "row_event row") (auto simp: successor_option_def split: if_splits)

lemma apply_inv_granted:
  assumes "apply_row C cfg t row = Inr t'" and "lifecycle_inv t"
  shows "tk_state t' \<in> {StActioned, StReversed} \<longrightarrow> tk_decision t' = Some DkGranted \<and> tk_ground t' \<noteq> None"
  using apply_successor [OF assms(1)] apply_decision [OF assms(1)] apply_ground [OF assms(1)]
    guard_Inr_granted [OF apply_guard [OF assms(1)]] inv_granted [OF assms(2)] inv_decision [OF assms(2)]
  by (cases "row_event row") (auto simp: successor_option_def split: if_splits)

lemma apply_inv_evidence:
  assumes "apply_row C cfg t row = Inr t'" and "lifecycle_inv t"
  shows "tk_pending_evidence t' \<noteq> None \<longleftrightarrow> tk_state t' = StIdentityPending"
  using apply_successor [OF assms(1)] apply_evidence [OF assms(1)] inv_evidence [OF assms(2)]
  by (cases "row_event row") (auto simp: successor_option_def is_reply_def split: if_splits)

lemma apply_inv_pending:
  assumes "apply_row C cfg t row = Inr t'" and "tk_pending t' = Some i"
  shows "i = row \<and> pending_fits t' i"
proof -
  have i: "i = row" "intent_event (row_event row)"
    using apply_pending [OF assms(1)] guard_Inr_pending [OF apply_guard [OF assms(1)]] assms(2)
    by (auto split: if_splits)
  note g = apply_guard [OF assms(1)] and f = apply_successor [OF assms(1)] apply_decision [OF assms(1)]
    apply_ground [OF assms(1)] apply_identity [OF assms(1)]
  from i(2) consider "row_event row = EvActionIntent" | "row_event row = EvReversalIntent"
    | "row_event row = EvPurgeIntent"
    by (auto simp: intent_event_def)
  then have "pending_fits t' row"
  proof cases
    case 1
    from guard_Inr_intent [OF g 1] 1 f show ?thesis
      by (auto simp: successor_option_def pending_fits_def intent_allowed_def Let_def
          split: if_splits option.splits)
  next
    case 2
    from guard_Inr_granted [OF g] 2 f show ?thesis
      by (auto simp: successor_option_def pending_fits_def split: if_splits)
  next
    case 3
    with f show ?thesis by (auto simp: successor_option_def pending_fits_def split: if_splits)
  qed
  with i show ?thesis by simp
qed

lemma apply_inv_references:
  assumes "apply_row C cfg t row = Inr t'" and "lifecycle_inv t"
  shows "tk_references t' \<noteq> [] \<and> map fst (tk_references t') = [1..<length (tk_references t') + 1]"
  using apply_references [OF assms(1)] inv_references [OF assms(2)]
  by (cases "tk_references t") auto

lemma milestone_received [simp]: "ms_received_at (milestone m e a) = ms_received_at m"
  by (cases e) (simp_all add: milestone_def)

lemma apply_inv_relevant:
  assumes "apply_row C cfg t row = Inr t'" and "lifecycle_inv t"
  shows "ms_received_at (tk_times t') \<le> tk_relevant_at t'
    \<and> (\<forall>e. tk_extended_epoch t' = Some e \<longrightarrow> e \<le> tk_relevant_at t' \<and> tk_route t' = RtDataRights)"
  using apply_relevant [OF assms(1)] apply_times [OF assms(1)] apply_extended [OF assms(1)]
    apply_identity [OF assms(1)] guard_Inr_extension [OF apply_guard [OF assms(1)]] inv_relevant [OF assms(2)] inv_extended [OF assms(2)]
  by (auto split: if_splits)

lemma apply_row_inv:
  assumes "apply_row C cfg t row = Inr t'" and "lifecycle_inv t"
  shows "lifecycle_inv t'"
  unfolding lifecycle_inv_def [of t']
  using apply_inv_purged [OF assms(1)] apply_inv_closed [OF assms] apply_inv_provisional [OF assms]
    apply_inv_decision [OF assms] apply_inv_granted [OF assms] apply_inv_evidence [OF assms]
    apply_inv_pending [OF assms(1)] apply_inv_references [OF assms] apply_inv_relevant [OF assms]
  by (intro conjI) simp_all

section \<open>Replays\<close>

lemma replay_invariant:
  assumes "replay C cfg rows = Inr t"
    and "\<And>r t. received r = Inr t \<Longrightarrow> P t"
    and "\<And>a r b. P a \<Longrightarrow> lifecycle_inv a \<Longrightarrow> apply_row C cfg a r = Inr b \<Longrightarrow> P b"
  shows "P t \<and> lifecycle_inv t"
proof -
  obtain r rs t0 where rs: "rows = r # rs" "received r = Inr t0" "res_fold (apply_row C cfg) t0 rs = Inr t"
    using assms(1) by (cases rows) (auto simp: replay_def res_simps)
  show ?thesis
    by (rule res_fold_invariant [OF rs(3)]) (use assms(2,3) rs(2) received_inv apply_row_inv in blast)+
qed

lemma replay_lifecycle: "replay C cfg rows = Inr t \<Longrightarrow> lifecycle_inv t"
  using replay_invariant [of C cfg rows t "\<lambda>_. True"] by simp

lemma replay_snoc:
  "rows \<noteq> [] \<Longrightarrow> replay C cfg (rows @ [r]) = res_bind (replay C cfg rows) (\<lambda>t. apply_row C cfg t r)"
  by (cases rows) (auto simp: replay_def res_fold_append res_bind_def split: sum.splits)

lemma replay_prefix:
  assumes "replay C cfg (pre @ post) = Inr t" and "pre \<noteq> []"
  shows "\<exists>u. replay C cfg pre = Inr u \<and> res_fold (apply_row C cfg) u post = Inr t"
  using assms by (cases pre) (auto simp: replay_def res_simps res_fold_append)

lemma replay_single: "replay C cfg [r] = Inr t \<longleftrightarrow> received r = Inr t"
  by (simp add: replay_def) (metis res_bind_Inr)

lemma received_fields:
  "received r = Inr t \<Longrightarrow> tk_pending t = None \<and> tk_state t = StReceived \<and> \<not> tk_provisional_committed t
   \<and> \<not> tk_purged t \<and> tk_last_at t = row_at r"
  by (auto simp: received_def res_simps split: if_splits)

lemma replay_pending_in:
  "replay C cfg rows = Inr t \<Longrightarrow> tk_pending t = Some i \<Longrightarrow> i \<in> set rows"
proof (induction rows arbitrary: t rule: rev_induct)
  case (snoc r rows)
  show ?case
  proof (cases "rows = []")
    case True
    with snoc.prems received_fields [of r t] show ?thesis by (simp add: replay_single)
  next
    case False
    then obtain u where u: "replay C cfg rows = Inr u" "apply_row C cfg u r = Inr t"
      using snoc.prems(1) by (auto simp: replay_snoc res_simps)
    from apply_inv_pending [OF u(2) snoc.prems(2)] show ?thesis by simp
  qed
qed (simp add: replay_def)

text \<open>A completion finds the row that announced it.\<close>

lemma replay_completion:
  assumes "replay C cfg (pre @ s # post) = Inr t" and "completion_event (row_event s)"
  shows "\<exists>r \<in> set pre. expected_completion r = Some (row_event s) \<and> row_decision s = row_decision r
    \<and> row_intent_sequence s = row_sequence r \<and> row_effective_at s = row_effective_at r
    \<and> row_asset_ids s = row_asset_ids r \<and> row_reason_code s = row_reason_code r"
proof (cases "pre = []")
  case True
  with assms show ?thesis
    by (auto simp: replay_def res_simps received_def completion_event_def split: if_splits)
next
  case False
  then obtain u v where u: "replay C cfg pre = Inr u" "apply_row C cfg u s = Inr v"
    using replay_prefix [OF assms(1)] by (auto simp: res_simps)
  from apply_completes [OF u(2) assms(2)] replay_pending_in [OF u(1)] show ?thesis by blast
qed

lemma replay_provisional:
  "replay C cfg rows = Inr t \<Longrightarrow> tk_provisional_committed t \<Longrightarrow>
     \<exists>s \<in> set rows. row_event s = EvRulesCommitted \<and> row_decision s = []"
proof (induction rows arbitrary: t rule: rev_induct)
  case (snoc r rows)
  show ?case
  proof (cases "rows = []")
    case True
    with snoc.prems received_fields [of r t] show ?thesis by (simp add: replay_single)
  next
    case False
    then obtain u where u: "replay C cfg rows = Inr u" "apply_row C cfg u r = Inr t"
      using snoc.prems(1) by (auto simp: replay_snoc res_simps)
    with snoc apply_provisional [OF u(2)] show ?thesis by auto
  qed
qed (simp add: replay_def)

section \<open>Retention\<close>

lemma replay_closed_in:
  "replay C cfg rows = Inr t \<Longrightarrow> ms_closed_at (tk_times t) = Some at \<Longrightarrow> \<exists>c \<in> set rows. row_event c = EvClosed \<and> row_at c = at"
proof (induction rows arbitrary: t rule: rev_induct)
  case (snoc r rows)
  show ?case
  proof (cases "rows = []")
    case True
    with snoc.prems show ?thesis by (auto simp: replay_single received_def res_simps split: if_splits)
  next
    case False
    then obtain u where u: "replay C cfg rows = Inr u" "apply_row C cfg u r = Inr t"
      using snoc.prems(1) by (auto simp: replay_snoc res_simps)
    with snoc apply_times [OF u(2)] show ?thesis by (cases "row_event r") (auto simp: milestone_def)
  qed
qed (simp add: replay_def)

lemma replay_last_applied:
  assumes "replay C cfg (rows @ [r]) = Inr t" and "tk_purged t \<or> tk_pending t \<noteq> None"
  obtains u where "rows \<noteq> []" "replay C cfg rows = Inr u" "apply_row C cfg u r = Inr t"
proof (cases "rows = []")
  case True
  with assms received_fields [of r t] show ?thesis by (simp add: replay_single)
next
  case False
  with assms(1) that show ?thesis by (auto simp: replay_snoc res_simps)
qed

lemma expected_Purged: "expected_completion i = Some EvPurged \<Longrightarrow> row_event i = EvPurgeIntent"
  by (auto simp: expected_completion_def split: event_name.splits if_splits)

text \<open>A purged ticket ends in its purge intent and the purge that completes it.\<close>

lemma replay_purged_ends:
  assumes "replay C cfg rows = Inr t" and "tk_purged t"
  obtains pre i p u v where "rows = pre @ [i, p]" "replay C cfg pre = Inr u" "apply_row C cfg u i = Inr v" "apply_row C cfg v p = Inr t"
    "row_event i = EvPurgeIntent" "row_event p = EvPurged" "row_intent_sequence p = row_sequence i"
proof -
  obtain rs p where rows: "rows = rs @ [p]" using assms(1) by (cases rows rule: rev_cases) (auto simp: replay_def)
  obtain v where v: "rs \<noteq> []" "replay C cfg rs = Inr v" "apply_row C cfg v p = Inr t"
    using replay_last_applied [of C cfg rs p t] assms rows by blast
  have p: "row_event p = EvPurged" using apply_purged [OF v(3)] apply_not_purged [OF v(3)] assms(2) by (auto split: if_splits)
  then obtain i where i: "tk_pending v = Some i" "expected_completion i = Some EvPurged" "row_intent_sequence p = row_sequence i"
    using apply_completes [OF v(3)] by (auto simp: completion_event_def)
  obtain pre j where rs: "rs = pre @ [j]" using v(1) by (cases rs rule: rev_cases) auto
  obtain u where u: "replay C cfg pre = Inr u" "apply_row C cfg u j = Inr v"
    using replay_last_applied [of C cfg pre j v] v(2) rs i(1) by auto
  have "j = i" using apply_inv_pending [OF u(2) i(1)] by simp
  with u v(3) rows rs i p expected_Purged show thesis by (intro that [of pre i p u v]) auto
qed

section \<open>A ticket's life\<close>

text \<open>The rows of an intimate-image ticket, from receipt to purge.\<close>

definition demo_ticket_row :: "nat \<Rightarrow> event_name \<Rightarrow> int \<Rightarrow> string \<Rightarrow> journal_row" where
  "demo_ticket_row seq e at state =
     (empty_row e at)\<lparr> row_sequence := seq, row_received_at := 1700000000,
        row_ticket_id := replicate 64 (CHR ''a''), row_route := ''intimate_images'',
        row_requester_type := ''self'', row_state := state \<rparr>"

definition demo_rule_row :: "nat \<Rightarrow> event_name \<Rightarrow> int \<Rightarrow> string \<Rightarrow> journal_row" where
  "demo_rule_row seq e at state =
     (demo_ticket_row seq e at state)\<lparr> row_intent_sequence := 2, row_reason_code := ''intimate_images'',
        row_asset_ids := replicate 64 (CHR ''b''), row_effective_at := 1700000000 \<rparr>"

definition demo_admission :: "journal_row list" where
  "demo_admission =
     [(demo_ticket_row 1 EvReceived 1700000000 ''received'')\<lparr> row_payload_sequence := 1 \<rparr>,
      (demo_rule_row 2 EvActionIntent 1700000000 ''received'')\<lparr> row_payload_sequence := 1 \<rparr>,
      demo_rule_row 3 EvRulesCommitted 1700000000 ''received'',
      demo_ticket_row 4 EvAcknowledged 1700000000 ''acknowledged'']"

definition demo_closing :: "journal_row list" where
  "demo_closing =
     [demo_ticket_row 5 EvQueued 1700000000 ''queued'',
      (demo_ticket_row 6 EvDecided 1700000500 ''decided'')
        \<lparr> row_payload_sequence := 2, row_decision := ''refused'' \<rparr>,
      (demo_ticket_row 7 EvClosed 1706655600 ''closed'')\<lparr> row_payload_sequence := 3 \<rparr>,
      (demo_ticket_row 8 EvPurgeIntent 1801350000 ''closed'')\<lparr> row_intent_sequence := 8 \<rparr>,
      (demo_ticket_row 9 EvPurged 1801350000 ''closed'')\<lparr> row_intent_sequence := 8 \<rparr>]"

lemmas reducer_eval = apply_row_def successor_def successor_option_def guard_def evidence_def
  operation_def record_decision_def record_reference_def milestone_def intent_event_def
  completion_event_def intent_allowed_def expected_completion_def ground_parse_def
  decision_kind_parse_def checked_add_u64_def Let_def

lemma demo_id_parses:
  "ticket_id_parse (replicate 64 (CHR ''a'')) = Inr (TicketId (Hex64 (replicate 64 (CHR ''a''))))"
  by (simp add: ticket_id_parse_Inr list_all_iff hex_byte_def)

lemma demo_retention:
  "retention_elapsed gregorian 1706655600 (cf_retention_months default_settings) 1801350000 = Inr True"
proof -
  have "civil_add_months 1706655600 36 = 1801350000"
    by code_simp
  then have "ts_add_months gregorian 1706655600 36 = Some 1801350000"
    by (simp add: gregorian_def)
  then have "retention_due gregorian 1706655600 36 = Inr 1801350000"
    by (simp add: retention_due_Inr)
  then show ?thesis
    by (simp add: retention_elapsed_def default_settings_def default_of_def bound_eval)
qed

lemma demo_admission_replays:
  "\<exists>t. replay gregorian default_settings demo_admission = Inr t \<and> tk_state t = StAcknowledged
     \<and> tk_route t = RtIntimateImages"
  by (simp add: replay_def demo_admission_def demo_rule_row_def demo_ticket_row_def empty_row_def
      received_def demo_id_parses route_parse_def requester_type_parse_def reducer_eval)

lemma demo_purge_replays:
  "\<exists>t. replay gregorian default_settings (demo_admission @ demo_closing) = Inr t \<and> tk_state t = StClosed
     \<and> tk_purged t"
  by (simp add: replay_def demo_admission_def demo_closing_def demo_rule_row_def demo_ticket_row_def empty_row_def
      received_def demo_id_parses route_parse_def requester_type_parse_def reducer_eval purge_due_def demo_retention)

section \<open>Consequences\<close>

lemma replay_member_applied:
  assumes "replay C cfg rows = Inr t" and "r \<in> set rows" and "row_event r \<noteq> EvReceived"
  shows "\<exists>u v. apply_row C cfg u r = Inr v"
proof -
  obtain pre post where rows: "rows = pre @ r # post" using assms(2) by (meson split_list)
  show ?thesis
  proof (cases "pre = []")
    case True
    with assms rows show ?thesis by (auto simp: replay_def res_simps received_def split: if_splits)
  next
    case False
    with assms(1) rows replay_prefix [of C cfg pre "r # post" t] show ?thesis
      by (auto simp: res_simps)
  qed
qed

lemma replay_route:
  assumes "res_fold (apply_row C cfg) u rows = Inr t"
  shows "tk_route t = tk_route u"
  by (rule res_fold_invariant [OF assms, of "\<lambda>x. tk_route x = tk_route u"]) (use apply_identity in auto)

lemma expected_RulesCommitted: "expected_completion r = Some EvRulesCommitted \<Longrightarrow> row_event r = EvActionIntent"
  by (auto simp: expected_completion_def split: event_name.splits if_splits)

lemma intent_allowed_assets: "intent_allowed t r \<Longrightarrow> row_asset_ids r \<noteq> []"
  by (auto simp: intent_allowed_def Let_def)

lemma provisional_has_intent:
  assumes "replay C cfg rows = Inr t" and "s \<in> set rows" and "row_event s = EvRulesCommitted"
  shows "\<exists>r \<in> set rows. row_event r = EvActionIntent \<and> row_intent_sequence s = row_sequence r
    \<and> row_asset_ids s = row_asset_ids r \<and> row_effective_at s = row_effective_at r \<and> row_asset_ids r \<noteq> []"
proof -
  obtain pre post where rows: "rows = pre @ s # post" using assms(2) by (meson split_list)
  obtain r where r: "r \<in> set pre" "row_event r = EvActionIntent" "row_intent_sequence s = row_sequence r"
      "row_asset_ids s = row_asset_ids r" "row_effective_at s = row_effective_at r"
    using replay_completion [of C cfg pre s post t] assms rows expected_RulesCommitted
    by (auto simp: completion_event_def)
  obtain u v where "apply_row C cfg u r = Inr v"
    using replay_member_applied [OF assms(1), of r] r rows by auto
  then have "row_asset_ids r \<noteq> []"
    using guard_Inr_intent [OF apply_guard] r(2) intent_allowed_assets by blast
  with r rows show ?thesis by auto
qed

section \<open>Properties\<close>

text \<open>
  the lifecycle invariant holds of every ticket that replays. A purged ticket is closed
  with no operation pending; the closing instant is set exactly in the closed state; an
  intimate-image ticket past receipt has its provisional protection committed; a decision
  exists exactly after deciding; only granted decisions with a ground are actioned or
  reversed; an evidence request is open exactly while evidence is pending; a pending operation
  fits the state; personal revisions are numbered contiguously from one; the deadline origin
  never precedes receipt, and only data-rights tickets carry an extension.
\<close>

theorem replay_keeps_lifecycle: "replay C cfg rows = Inr t \<Longrightarrow> lifecycle_inv t"
  by (rule replay_lifecycle)

theorem replay_keeps_lifecycle_witness:
  "\<exists>t. replay gregorian default_settings (demo_admission @ demo_closing) = Inr t \<and> lifecycle_inv t"
  using demo_purge_replays replay_keeps_lifecycle by blast

text \<open>
  C15: personal files are purged only after the configured retention, and only on a recorded intent. The rows of a ticket that
  replays as purged end in a purge intent and the purge that completes this intent; before them is the row that closed the
  ticket, and the intent is not earlier than the instant the calendar gives for the configured number of months after that
  row, which is at least thirty-six months and at least twenty-eight days for each of them. The ticket is closed and no operation is
  pending.
\<close>

theorem purged_after_retention:
  assumes "chrono_ok C" and "replay C cfg rows = Inr t" and "tk_purged t"
  shows "tk_state t = StClosed \<and> tk_pending t = None
    \<and> (\<exists>pre i p c due. rows = pre @ [i, p] \<and> row_event i = EvPurgeIntent \<and> row_event p = EvPurged
         \<and> row_intent_sequence p = row_sequence i \<and> row_at i \<le> row_at p
         \<and> c \<in> set pre \<and> row_event c = EvClosed \<and> ms_closed_at (tk_times t) = Some (row_at c)
         \<and> ts_add_months C (row_at c) (cf_retention_months cfg) = Some due \<and> due \<le> row_at i
         \<and> 36 \<le> cf_retention_months cfg \<and> row_at c + 28 * 86400 * int (cf_retention_months cfg) \<le> due)"
proof -
  obtain pre i p u v where r: "rows = pre @ [i, p]" "replay C cfg pre = Inr u" "apply_row C cfg u i = Inr v" "apply_row C cfg v p = Inr t"
      "row_event i = EvPurgeIntent" "row_event p = EvPurged" "row_intent_sequence p = row_sequence i"
    using replay_purged_ends [OF assms(2,3)] .
  obtain at due where at: "ms_closed_at (tk_times u) = Some at" "36 \<le> cf_retention_months cfg"
      "ts_add_months C at (cf_retention_months cfg) = Some due" "due \<le> row_at i"
    using guard_Inr_purge [OF apply_guard [OF r(3)] r(5)]
    by (auto simp: purge_due_def retention_elapsed_def res_simps retention_due_Inr split: if_splits)
  obtain c where c: "c \<in> set pre" "row_event c = EvClosed" "row_at c = at" using replay_closed_in [OF r(2) at(1)] by blast
  have "ms_closed_at (tk_times t) = Some at"
    using apply_times [OF r(3)] apply_times [OF r(4)] r(5,6) at(1) by (simp add: milestone_def)
  moreover have "row_at i \<le> row_at p" using apply_time [OF r(3)] apply_time [OF r(4)] by simp
  moreover have "at + 28 * 86400 * int (cf_retention_months cfg) \<le> due" using chrono_months_least [OF assms(1) at(3)] by simp
  moreover have "tk_state t = StClosed" "tk_pending t = None" using inv_purged [OF replay_lifecycle [OF assms(2)]] assms(3) by auto
  ultimately show ?thesis using r(1,5-7) at(2-4) c by blast
qed

theorem purged_after_retention_witness:
  "\<exists>t c due. replay gregorian default_settings (demo_admission @ demo_closing) = Inr t
     \<and> ms_closed_at (tk_times t) = Some c \<and> ts_add_months gregorian c (cf_retention_months default_settings) = Some due
     \<and> c + 28 * 86400 * int (cf_retention_months default_settings) \<le> due"
proof -
  obtain t where t: "replay gregorian default_settings (demo_admission @ demo_closing) = Inr t" "tk_purged t"
    using demo_purge_replays by blast
  with purged_after_retention [OF chrono_ok_gregorian t] show ?thesis by blast
qed

text \<open>
  C1: no intimate-image report is acknowledged before its provisional protection is durable:
  the acknowledgement row of such a ticket is preceded by an action intent with a nonempty
  list of assets and by the row that commits exactly that intent.
\<close>

theorem intimate_acknowledged_after_protection:
  assumes "replay C cfg (pre @ a # post) = Inr t" and "row_event a = EvAcknowledged"
    and "tk_route t = RtIntimateImages"
  shows "\<exists>r \<in> set pre. \<exists>s \<in> set pre. row_event r = EvActionIntent \<and> row_event s = EvRulesCommitted
    \<and> row_decision s = [] \<and> row_intent_sequence s = row_sequence r
    \<and> row_asset_ids s = row_asset_ids r \<and> row_effective_at s = row_effective_at r \<and> row_asset_ids r \<noteq> []"
proof -
  have "pre \<noteq> []"
    using assms(1,2) by (auto simp: replay_def res_simps received_def split: if_splits)
  then obtain u v where u: "replay C cfg pre = Inr u" "apply_row C cfg u a = Inr v"
      "res_fold (apply_row C cfg) v post = Inr t"
    using replay_prefix [OF assms(1)] by (auto simp: res_simps)
  have "tk_route u = RtIntimateImages"
    using replay_route [OF u(3)] apply_identity [OF u(2)] assms(3) by simp
  then have "tk_provisional_committed u"
    using guard_Inr_acknowledged [OF apply_guard [OF u(2)]] assms(2) by simp
  then obtain s where s: "s \<in> set pre" "row_event s = EvRulesCommitted" "row_decision s = []"
    using replay_provisional [OF u(1)] by blast
  with provisional_has_intent [OF u(1) s(1,2)] show ?thesis by blast
qed

theorem intimate_acknowledged_after_protection_witness:
  "\<exists>t. \<exists>r \<in> set demo_admission. \<exists>s \<in> set demo_admission.
     replay gregorian default_settings demo_admission = Inr t \<and> row_event r = EvActionIntent \<and> row_event s = EvRulesCommitted \<and> row_asset_ids s = row_asset_ids r"
proof -
  obtain t where t: "replay gregorian default_settings demo_admission = Inr t" "tk_route t = RtIntimateImages"
    using demo_admission_replays by blast
  have split: "demo_admission = take 3 demo_admission @ demo_ticket_row 4 EvAcknowledged 1700000000 ''acknowledged'' # []"
    by (simp add: demo_admission_def)
  have r: "replay gregorian default_settings (take 3 demo_admission
      @ demo_ticket_row 4 EvAcknowledged 1700000000 ''acknowledged'' # []) = Inr t"
    using t(1) by (simp only: split [symmetric])
  have "row_event (demo_ticket_row 4 EvAcknowledged 1700000000 ''acknowledged'') = EvAcknowledged"
    by (simp add: demo_ticket_row_def empty_row_def)
  from intimate_acknowledged_after_protection [OF r this t(2)] t(1) show ?thesis
    by (meson in_set_takeD)
qed

text \<open>
  every completed operation is the one announced. A row that completes an operation is
  preceded by an intent row of the matching kind with the same sequence reference, ground,
  assets, activation instant and decision.
\<close>

theorem completion_matches_intent:
  assumes "replay C cfg (pre @ s # post) = Inr t"
    and "row_event s \<in> {EvRulesCommitted, EvActioned, EvReversed, EvPurged}"
  shows "\<exists>r \<in> set pre. row_event r \<in> {EvActionIntent, EvReversalIntent, EvPurgeIntent}
    \<and> expected_completion r = Some (row_event s) \<and> row_decision s = row_decision r
    \<and> row_intent_sequence s = row_sequence r \<and> row_effective_at s = row_effective_at r
    \<and> row_asset_ids s = row_asset_ids r \<and> row_reason_code s = row_reason_code r"
proof -
  have kind: "expected_completion r \<noteq> None \<Longrightarrow> row_event r \<in> {EvActionIntent, EvReversalIntent, EvPurgeIntent}" for r
    by (auto simp: expected_completion_def split: event_name.splits)
  have "completion_event (row_event s)" using assms(2) by (auto simp: completion_event_def)
  then obtain r where "r \<in> set pre" "expected_completion r = Some (row_event s)" "row_decision s = row_decision r"
      "row_intent_sequence s = row_sequence r" "row_effective_at s = row_effective_at r"
      "row_asset_ids s = row_asset_ids r" "row_reason_code s = row_reason_code r"
    using replay_completion [OF assms(1)] by blast
  with kind [of r] show ?thesis by auto
qed

theorem completion_matches_intent_witness:
  "\<exists>t r. replay gregorian default_settings demo_admission = Inr t
     \<and> expected_completion r = Some EvRulesCommitted \<and> r \<in> set demo_admission"
proof -
  let ?s = "demo_rule_row 3 EvRulesCommitted 1700000000 ''received''"
  obtain t where t: "replay gregorian default_settings demo_admission = Inr t"
    using demo_admission_replays by blast
  have split: "demo_admission = take 2 demo_admission @ ?s # drop 3 demo_admission"
    by (simp add: demo_admission_def)
  have e: "row_event ?s = EvRulesCommitted" by (simp add: demo_rule_row_def demo_ticket_row_def empty_row_def)
  have "replay gregorian default_settings (take 2 demo_admission @ ?s # drop 3 demo_admission) = Inr t"
    using t by (simp only: split [symmetric])
  then have "\<exists>r \<in> set (take 2 demo_admission). expected_completion r = Some EvRulesCommitted"
    using completion_matches_intent [of gregorian default_settings "take 2 demo_admission" ?s] e by force
  with t show ?thesis by (meson in_set_takeD)
qed

text \<open>
  Closure is final. A closed ticket accepts only the two purge rows, which leave its
  state, decision, ground and closing instant alone, and once it is purged it accepts nothing.
\<close>

theorem closed_is_final:
  assumes "tk_state t = StClosed"
  shows "(\<forall>t'. apply_row C cfg t row = Inr t' \<longrightarrow> row_event row \<in> {EvPurgeIntent, EvPurged}
      \<and> tk_state t' = StClosed \<and> tk_decision t' = tk_decision t \<and> tk_ground t' = tk_ground t
      \<and> ms_closed_at (tk_times t') = ms_closed_at (tk_times t))
    \<and> (tk_purged t \<longrightarrow> apply_row C cfg t row = Inl InvalidTransition)"
proof (intro conjI allI impI)
  fix t' assume a: "apply_row C cfg t row = Inr t'"
  have "row_event row \<in> {EvPurgeIntent, EvPurged} \<and> tk_state t' = StClosed"
    using apply_successor [OF a] assms by (cases "row_event row") (auto simp: successor_option_def)
  then show "row_event row \<in> {EvPurgeIntent, EvPurged}" "tk_state t' = StClosed"
    "tk_decision t' = tk_decision t" "tk_ground t' = tk_ground t"
    "ms_closed_at (tk_times t') = ms_closed_at (tk_times t)"
    using apply_decision [OF a] apply_ground [OF a] apply_times [OF a] by (auto simp: milestone_def)
next
  assume "tk_purged t"
  then show "apply_row C cfg t row = Inl InvalidTransition"
    by (cases "successor (tk_state t) (row_event row)") (auto simp: apply_row_def successor_def res_simps)
qed

theorem closed_is_final_witness:
  "\<exists>t. tk_state t = StClosed \<and> tk_purged t
     \<and> apply_row gregorian default_settings t (demo_ticket_row 10 EvAppealed 1801350000 ''appealed'')
        = Inl InvalidTransition"
  using closed_is_final demo_purge_replays by blast

text \<open>
  extensions. An accepted extension notice concerns a data-rights ticket, arrives no later
  than the initial deadline and moves the deadline strictly later; a second notice for the
  same deadline origin is refused.
\<close>

theorem extension_once_and_timely:
  assumes "chrono_ok C" and "apply_row C cfg t row = Inr t'" and "row_event row = EvExtensionNotified"
    and "deadline C t' = Inr due'"
  shows "tk_route t = RtDataRights
    \<and> (\<exists>d d'. deadline C t = Inr (Some d) \<and> due' = Some d' \<and> row_at row \<le> d \<and> d < d')
    \<and> (\<forall>r. row_event r = EvExtensionNotified \<longrightarrow> \<not> is_ok (apply_row C cfg t' r))"
proof -
  have g: "tk_route t = RtDataRights" "tk_extended_epoch t \<noteq> Some (tk_relevant_at t)"
      "extension_window C (tk_relevant_at t) (row_at row) = Inr True"
    using guard_Inr_extension [OF apply_guard [OF assms(2)] assms(3)] by auto
  have t': "tk_relevant_at t' = tk_relevant_at t" "tk_extended_epoch t' = Some (tk_relevant_at t)"
      "tk_route t' = RtDataRights"
    using apply_relevant [OF assms(2)] apply_extended [OF assms(2)] apply_identity [OF assms(2)] assms(3) g
    by (auto simp: is_reply_def)
  obtain d' where d': "due' = Some d'" "data_rights_due C (tk_relevant_at t) True = Inr d'"
    using assms(4) t' by (auto simp: deadline_def res_simps)
  obtain d where d: "data_rights_due C (tk_relevant_at t) False = Inr d" "row_at row \<le> d"
    using g(3) by (auto simp: extension_window_def res_simps split: if_splits)
  have "d < d'"
    using d(1) d'(2) chrono_later_period [OF assms(1), of "tk_relevant_at t" 3 d' 1]
    by (auto simp: data_rights_due_Inr)
  moreover have "\<not> is_ok (apply_row C cfg t' r)" if "row_event r = EvExtensionNotified" for r
  proof
    assume "is_ok (apply_row C cfg t' r)"
    then obtain u where "apply_row C cfg t' r = Inr u" by (auto simp: is_ok_iff)
    from guard_Inr_extension [OF apply_guard [OF this] that] t' show False by simp
  qed
  ultimately show ?thesis
    using g d d' by (auto simp: deadline_def)
qed

theorem extension_once_and_timely_witness:
  "\<exists>t t'. apply_row gregorian default_settings t
       ((demo_ticket_row 4 EvExtensionNotified 1700000500 ''queued'')\<lparr> row_route := ''data_rights'', row_payload_sequence := 2 \<rparr>)
       = Inr t' \<and> tk_route t = RtDataRights \<and> deadline gregorian t' = Inr (Some 1707948800)"
proof -
  let ?row = "(demo_ticket_row 4 EvExtensionNotified 1700000500 ''queued'')
    \<lparr> row_route := ''data_rights'', row_payload_sequence := 2 \<rparr>"
  have "civil_add_months 1700000000 1 = 1702592000" "civil_add_months 1700000000 3 = 1707948800"
    by code_simp+
  then have due: "data_rights_due gregorian 1700000000 False = Inr 1702592000"
      "data_rights_due gregorian 1700000000 True = Inr 1707948800"
    by (simp_all add: data_rights_due_Inr) (simp_all add: gregorian_def)
  obtain t t' where t: "apply_row gregorian default_settings t ?row = Inr t'"
      "deadline gregorian t' = Inr (Some 1707948800)"
  proof -
    obtain t where "replay gregorian default_settings
        [(demo_ticket_row 1 EvReceived 1700000000 ''received'')\<lparr> row_route := ''data_rights'', row_payload_sequence := 1 \<rparr>,
         (demo_ticket_row 2 EvAcknowledged 1700000000 ''acknowledged'')\<lparr> row_route := ''data_rights'' \<rparr>,
         (demo_ticket_row 3 EvQueued 1700000000 ''queued'')\<lparr> row_route := ''data_rights'' \<rparr>] = Inr t"
      "\<exists>t'. apply_row gregorian default_settings t ?row = Inr t' \<and> deadline gregorian t' = Inr (Some 1707948800)"
      by (simp add: replay_def demo_ticket_row_def empty_row_def received_def demo_id_parses route_parse_def
          requester_type_parse_def reducer_eval extension_window_def deadline_def due)
    then show thesis using that by blast
  qed
  have "row_event ?row = EvExtensionNotified" by (simp add: demo_ticket_row_def empty_row_def)
  from extension_once_and_timely [OF chrono_ok_gregorian t(1) this t(2)] t show ?thesis by blast
qed

end
