(* ===== verification/Serving.thy ===== *)
theory Serving
  imports Rules
begin

text \<open>
  What the serving rules guarantee: the index answers like a scan of the rules, deltas keep
  snapshots valid and do what they say, reversal markers are permanent, and a store whose
  durable state is uncertain serves nothing.
\<close>

section \<open>The index\<close>

lemma index_rules_snoc:
  "index_rules (rs @ [r]) =
     (index_rules rs)(rl_document_id r \<mapsto>
        (case index_rules rs (rl_document_id r) of None \<Rightarrow> [length rs] | Some is \<Rightarrow> is @ [length rs]))"
  by (simp add: index_rules_def enumerate_append_eq)

lemma index_rules_eq:
  "index_rules rs d =
     (let is = filter (\<lambda>i. rl_document_id (rs ! i) = d) [0..<length rs] in if is = [] then None else Some is)"
proof (induction rs rule: rev_induct)
  case Nil
  then show ?case by (simp add: index_rules_def)
next
  case (snoc r rs)
  have "filter (\<lambda>i. rl_document_id ((rs @ [r]) ! i) = d) [0..<length rs]
      = filter (\<lambda>i. rl_document_id (rs ! i) = d) [0..<length rs]"
    by (rule filter_cong) (auto simp: nth_append)
  with snoc show ?case
    by (auto simp: index_rules_snoc Let_def nth_append)
qed

lemma index_rules_any:
  "(case index_rules rs d of None \<Rightarrow> False | Some is \<Rightarrow> list_ex (\<lambda>i. P (rs ! i)) is)
   \<longleftrightarrow> (\<exists>r \<in> set rs. rl_document_id r = d \<and> P r)"
  by (force simp: index_rules_eq Let_def list_ex_iff in_set_conv_nth filter_empty_conv split: option.splits if_splits)

lemma rebuild_Inr:
  assumes "rebuild R f = Inr s"
  shows "sn_file s = f" and "sn_by_document s = index_rules (sf_rules f)" and "\<not> sn_unavailable s"
    and "validate_snapshot (rn_chrono R) f = Inr ()"
    and "from_data (sf_listed f) (cf_max_rules (rn_settings R)) = Inr (sn_listed s)"
  using assms by (auto simp: rebuild_def res_simps)

text \<open>A snapshot is well-formed when it was rebuilt from its file, or is marked unavailable.\<close>

definition snapshot_ok :: "renv \<Rightarrow> rules_snapshot \<Rightarrow> bool" where
  "snapshot_ok R s \<longleftrightarrow> rebuild R (sn_file s) = Inr (s\<lparr> sn_unavailable := False \<rparr>)"

lemma snapshot_ok_fields:
  assumes "snapshot_ok R s"
  shows "sn_by_document s = index_rules (sf_rules (sn_file s))"
    and "validate_snapshot (rn_chrono R) (sn_file s) = Inr ()"
  using rebuild_Inr [OF assms [unfolded snapshot_ok_def]] by simp_all

lemma rebuild_snapshot_ok: "rebuild R f = Inr s \<Longrightarrow> snapshot_ok R s"
  using rebuild_Inr [of R f s] by (simp add: snapshot_ok_def)

lemma allows_scan:
  assumes "snapshot_ok R s"
  shows "fst (allows R s d url query now hosts) \<longleftrightarrow>
    \<not> sn_unavailable s \<and> \<not> fst (denies (rn_digest R) (rn_url_parse R) (sn_listed s) d url hosts)
    \<and> \<not> (\<exists>r \<in> set (sf_rules (sn_file s)). rl_document_id r = d \<and> rule_applies (rn_digest R) r query now)"
proof -
  have "(case sn_by_document s d of None \<Rightarrow> False
      | Some is \<Rightarrow> list_ex (\<lambda>i. rule_applies (rn_digest R) (sf_rules (sn_file s) ! i) query now) is)
      \<longleftrightarrow> (\<exists>r \<in> set (sf_rules (sn_file s)). rl_document_id r = d \<and> rule_applies (rn_digest R) r query now)"
    using index_rules_any [where rs = "sf_rules (sn_file s)" and d = d
        and P = "\<lambda>r. rule_applies (rn_digest R) r query now"] snapshot_ok_fields(1) [OF assms] by simp
  moreover obtain b h where "denies (rn_digest R) (rn_url_parse R) (sn_listed s) d url hosts = (b, h)" by force
  ultimately show ?thesis
    by (cases b) (auto simp: allows_def split: option.splits)
qed

section \<open>Validity\<close>

lemma validate_snapshot_Inr:
  "validate_snapshot C f = Inr () \<longleftrightarrow>
     sf_format_version f = 1 \<and> strictly_ascending rl_rule_id (sf_rules f)
     \<and> strictly_ascending marker_key (sf_do_not_reapply f)
     \<and> (\<forall>r \<in> set (sf_rules f). validate_rule C r = Inr ())
     \<and> (\<forall>m \<in> set (sf_do_not_reapply f). validate_marker C m = Inr ())"
  by (auto simp: validate_snapshot_def res_simps res_fold_unit_Inr split: if_splits)

lemma marked_in_iff:
  assumes "strictly_ascending marker_key ms"
  shows "marked_in ms d g \<longleftrightarrow> (\<exists>m \<in> set ms. mk_document_id m = d \<and> mk_ground m = g)"
  unfolding marked_in_def binary_search_is_ok_iff [OF assms]
  by (auto simp: marker_key_def ground.as_str_eq_iff image_iff)

section \<open>Installing\<close>

text \<open>
  Ticket and document keys are 64 characters wide by construction; then a rule identifier names
  its ticket, document and ground.
\<close>

definition wide_keys :: "ticket_id \<Rightarrow> document_key \<Rightarrow> bool" where
  "wide_keys t d \<longleftrightarrow> length (ticket_id_as_str t) = 64 \<and> length (document_key_as_str d) = 64"

definition rules_wide :: "rules_snapshot \<Rightarrow> bool" where
  "rules_wide s \<longleftrightarrow> (\<forall>r \<in> set (sf_rules (sn_file s)). wide_keys (rl_ticket_id r) (rl_document_id r))"

lemma rule_id_inj:
  assumes "rule_id t d g = rule_id u e h" and "wide_keys t d" and "wide_keys u e"
  shows "t = u \<and> d = e \<and> g = h"
proof -
  have "ticket_id_as_str t = ticket_id_as_str u"
    and rest: "document_key_as_str d @ '':'' @ ground_as_str g = document_key_as_str e @ '':'' @ ground_as_str h"
    using assms by (simp_all add: rule_id_def wide_keys_def append_eq_append_conv)
  moreover from rest have "document_key_as_str d = document_key_as_str e" "ground_as_str g = ground_as_str h"
    using assms by (simp_all add: wide_keys_def append_eq_append_conv)
  ultimately show ?thesis by (simp add: ground.as_str_eq_iff)
qed

lemma rule_id_document: "rule_id t d g = rule_id t e g \<longleftrightarrow> d = e"
  by (auto simp: rule_id_def)

definition installed ::
  "ticket_id \<Rightarrow> ground \<Rightarrow> int \<Rightarrow> nat \<Rightarrow> name_set list \<Rightarrow> document_key \<Rightarrow> rule \<Rightarrow> bool" where
  "installed t g e n names d r \<longleftrightarrow>
     rl_rule_id r = rule_id t d g \<and> rl_ticket_id r = t \<and> rl_document_id r = d \<and> rl_ground r = g
     \<and> rl_kind r = (if names = [] then GlobalRule else NameRule) \<and> rl_effective_at r \<le> e
     \<and> rl_intent_sequence r = n \<and> rl_name_sets r = names"

lemma install_rule_Inr:
  assumes "install_rule t g e n names ms rules d = Inr rules'"
  shows "\<not> marked_in ms d g"
    and "\<exists>new. rules' = filter (\<lambda>r. rl_rule_id r \<noteq> rule_id t d g) rules @ [new] \<and> installed t g e n names d new
      \<and> (distinct (map rl_rule_id rules) \<longrightarrow>
           (\<forall>r \<in> set rules. rl_rule_id r = rule_id t d g \<longrightarrow> rl_effective_at new \<le> rl_effective_at r))"
proof -
  show "\<not> marked_in ms d g" using assms by (simp add: install_rule_def split: if_splits)
  have same: "List.find (\<lambda>q. rl_rule_id q = rl_rule_id r) rules = Some r"
    if "distinct (map rl_rule_id rules)" "r \<in> set rules" for r
    using that by (induction rules) (auto simp: image_iff)
  show "\<exists>new. rules' = filter (\<lambda>r. rl_rule_id r \<noteq> rule_id t d g) rules @ [new] \<and> installed t g e n names d new
      \<and> (distinct (map rl_rule_id rules) \<longrightarrow>
           (\<forall>r \<in> set rules. rl_rule_id r = rule_id t d g \<longrightarrow> rl_effective_at new \<le> rl_effective_at r))"
    using assms same
    by (fastforce simp: install_rule_def installed_def Let_def split: if_splits option.splits)
qed

definition supersedes :: "rule list \<Rightarrow> rule list \<Rightarrow> bool" where
  "supersedes rules' rules \<longleftrightarrow>
     (\<forall>r \<in> set rules. \<exists>r' \<in> set rules'. rl_rule_id r' = rl_rule_id r \<and> rl_effective_at r' \<le> rl_effective_at r)"

lemma install_fold:
  assumes "res_fold (install_rule t g e n names ms) rules docs = Inr rules'" and "distinct (map rl_rule_id rules)"
  shows "distinct (map rl_rule_id rules') \<and> supersedes rules' rules
    \<and> (\<forall>d \<in> set docs. \<not> marked_in ms d g \<and> (\<exists>r \<in> set rules'. installed t g e n names d r))
    \<and> (\<forall>r. (\<forall>d \<in> set docs. rl_rule_id r \<noteq> rule_id t d g) \<longrightarrow> (r \<in> set rules' \<longleftrightarrow> r \<in> set rules))
    \<and> (\<forall>r \<in> set rules'. r \<in> set rules \<or> (\<exists>d \<in> set docs. installed t g e n names d r))"
  using assms
proof (induction docs arbitrary: rules)
  case Nil
  then show ?case by (auto simp: supersedes_def)
next
  case (Cons d docs)
  obtain mid where mid: "install_rule t g e n names ms rules d = Inr mid"
      "res_fold (install_rule t g e n names ms) mid docs = Inr rules'"
    using Cons.prems(1) by (auto simp: res_simps)
  obtain new where new: "mid = filter (\<lambda>r. rl_rule_id r \<noteq> rule_id t d g) rules @ [new]"
      "installed t g e n names d new"
      "\<forall>r \<in> set rules. rl_rule_id r = rule_id t d g \<longrightarrow> rl_effective_at new \<le> rl_effective_at r"
    using install_rule_Inr(2) [OF mid(1)] Cons.prems(2) by blast
  have dist: "distinct (map rl_rule_id mid)"
    using Cons.prems(2) new(1,2) by (auto simp: distinct_map_filter installed_def)
  note IH = Cons.IH [OF mid(2) dist]
  have sup: "supersedes mid rules"
    using new by (auto simp: supersedes_def installed_def)
  have "supersedes rules' rules"
    using IH sup unfolding supersedes_def by (metis order_trans)
  moreover have "\<exists>r \<in> set rules'. installed t g e n names d r"
  proof (cases "d \<in> set docs")
    case True
    with IH show ?thesis by blast
  next
    case False
    then have "\<forall>x \<in> set docs. rl_rule_id new \<noteq> rule_id t x g"
      using new(2) by (auto simp: installed_def rule_id_document)
    with IH new(1,2) show ?thesis by auto
  qed
  moreover have "r \<in> set rules' \<longleftrightarrow> r \<in> set rules"
    if "\<forall>x \<in> set (d # docs). rl_rule_id r \<noteq> rule_id t x g" for r
    using IH that new(1,2) by (auto simp: installed_def)
  moreover have "\<forall>r \<in> set rules'. r \<in> set rules \<or> (\<exists>x \<in> set (d # docs). installed t g e n names x r)"
    using IH new(1,2) by auto
  ultimately show ?case
    using IH install_rule_Inr(1) [OF mid(1)] by auto
qed

section \<open>Markers\<close>

lemma mark_document_props:
  assumes "strictly_ascending marker_key ms"
  shows "strictly_ascending marker_key (mark_document g at n ms d)"
    and "set ms \<subseteq> set (mark_document g at n ms d)"
    and "marked_in (mark_document g at n ms d) d g"
proof -
  define new where "new = \<lparr> mk_document_id = d, mk_ground = g, mk_reversed_at = at, mk_intent_sequence = n \<rparr>"
  have key: "marker_key new = (d, ground_as_str g)" by (simp add: new_def marker_key_def)
  have asc: "strictly_ascending marker_key (mark_document g at n ms d)"
  proof (cases "marked_in ms d g")
    case False
    have "distinct (map marker_key ms)"
      using assms by (simp add: strictly_ascending_iff_sorted_wrt sorted_wrt_map [symmetric] strict_sorted_iff)
    moreover have "marker_key new \<notin> marker_key ` set ms"
      using False key unfolding marked_in_def binary_search_is_ok_iff [OF assms] by simp
    ultimately show ?thesis
      using False by (simp add: mark_document_def new_def [symmetric] strictly_ascending_sort_key)
  qed (use assms in \<open>simp add: mark_document_def\<close>)
  then show "strictly_ascending marker_key (mark_document g at n ms d)" .
  show "set ms \<subseteq> set (mark_document g at n ms d)" by (auto simp: mark_document_def)
  show "marked_in (mark_document g at n ms d) d g"
    unfolding marked_in_iff [OF asc] using marked_in_iff [OF assms, of d g]
    by (cases "marked_in ms d g") (auto simp: mark_document_def)
qed

lemma mark_documents_props:
  assumes "strictly_ascending marker_key ms"
  shows "strictly_ascending marker_key (foldl (mark_document g at n) ms docs)
    \<and> set ms \<subseteq> set (foldl (mark_document g at n) ms docs)
    \<and> (\<forall>d \<in> set docs. marked_in (foldl (mark_document g at n) ms docs) d g)"
  using assms
proof (induction docs arbitrary: ms)
  case (Cons d docs)
  note step = mark_document_props [OF Cons.prems, of g at n d]
  note IH = Cons.IH [OF step(1)]
  have "marked_in (foldl (mark_document g at n) (mark_document g at n ms d) docs) d g"
    using IH step(3) marked_in_iff [OF step(1)] marked_in_iff [of "foldl (mark_document g at n) (mark_document g at n ms d) docs"]
    by blast
  with IH step(2) show ?case by auto
qed simp

section \<open>Deltas\<close>

lemma prepare_snapshot_Inr:
  "prepare_snapshot R s = Inr p \<Longrightarrow> pr_snapshot p = s
   \<and> (\<exists>b. rn_encode R (sn_file s) = Some b \<and> pr_bytes p = b @ [newline])"
  by (auto simp: prepare_snapshot_def Let_def res_simps)

lemma prepare_delta_Inr:
  assumes "prepare_delta R s delta = Inr p"
  obtains f where "\<not> sn_unavailable s" "apply_delta (sn_file s) delta = Inr f"
    "sn_file (pr_snapshot p) = f\<lparr> sf_generation := sf_generation f + 1 \<rparr>"
    "snapshot_ok R (pr_snapshot p)" "\<not> sn_unavailable (pr_snapshot p)"
    "\<exists>b. rn_encode R (sn_file (pr_snapshot p)) = Some b \<and> pr_bytes p = b @ [newline]"
proof -
  obtain f c where f: "\<not> sn_unavailable s" "apply_delta (sn_file s) delta = Inr f"
      "rebuild R (f\<lparr> sf_generation := sf_generation f + 1 \<rparr>) = Inr c" "prepare_snapshot R c = Inr p"
    using assms by (auto simp: prepare_delta_def res_simps checked_Some split: if_splits)
  from prepare_snapshot_Inr [OF f(4)] rebuild_Inr [OF f(3)] rebuild_snapshot_ok [OF f(3)] f(1,2)
  show ?thesis by (intro that [of f]) auto
qed

lemma apply_delta_markers:
  assumes "apply_delta f delta = Inr f'" and "strictly_ascending marker_key (sf_do_not_reapply f)"
  shows "strictly_ascending marker_key (sf_do_not_reapply f')
    \<and> set (sf_do_not_reapply f) \<subseteq> set (sf_do_not_reapply f')"
proof (cases delta)
  case (DeltaReverse t docs g at n)
  with assms mark_documents_props [OF assms(2), of g at n docs] show ?thesis by auto
qed (use assms in \<open>auto simp: res_simps\<close>)

lemma apply_delta_listed: "apply_delta f delta = Inr f' \<Longrightarrow> sf_listed f' = sf_listed f"
  by (cases delta) (auto simp: res_simps)

lemma snapshot_ok_sorted:
  assumes "snapshot_ok R s"
  shows "strictly_ascending rl_rule_id (sf_rules (sn_file s))"
    and "strictly_ascending marker_key (sf_do_not_reapply (sn_file s))"
    and "distinct (map rl_rule_id (sf_rules (sn_file s)))"
proof -
  show a: "strictly_ascending rl_rule_id (sf_rules (sn_file s))"
    and "strictly_ascending marker_key (sf_do_not_reapply (sn_file s))"
    using snapshot_ok_fields(2) [OF assms] by (simp_all add: validate_snapshot_Inr)
  from a show "distinct (map rl_rule_id (sf_rules (sn_file s)))"
    by (simp add: strictly_ascending_iff_sorted_wrt sorted_wrt_map [symmetric] strict_sorted_iff)
qed

lemma snapshot_ok_listed:
  assumes "snapshot_ok R s"
  shows "from_data (sf_listed (sn_file s)) (cf_max_rules (rn_settings R)) = Inr (sn_listed s)"
  using rebuild_Inr(5) [OF assms [unfolded snapshot_ok_def]] by simp

lemma prepare_delta_listed:
  assumes "snapshot_ok R s" and "prepare_delta R s delta = Inr p"
  shows "sn_listed (pr_snapshot p) = sn_listed s"
proof -
  obtain f where f: "apply_delta (sn_file s) delta = Inr f" "snapshot_ok R (pr_snapshot p)"
      "sn_file (pr_snapshot p) = f\<lparr> sf_generation := sf_generation f + 1 \<rparr>"
    by (rule prepare_delta_Inr [OF assms(2)])
  have "sf_listed (sn_file (pr_snapshot p)) = sf_listed (sn_file s)"
    using apply_delta_listed [OF f(1)] f(3) by simp
  with snapshot_ok_listed [OF assms(1)] snapshot_ok_listed [OF f(2)] show ?thesis by simp
qed

lemma prepare_install:
  assumes "snapshot_ok R s" and "prepare_delta R s (DeltaInstall t docs g e n names) = Inr p"
  shows "supersedes (sf_rules (sn_file (pr_snapshot p))) (sf_rules (sn_file s))"
    and "\<forall>d \<in> set docs. \<not> marked s d g \<and> (\<exists>r \<in> set (sf_rules (sn_file (pr_snapshot p))). installed t g e n names d r)"
    and "\<forall>r. (\<forall>d \<in> set docs. rl_rule_id r \<noteq> rule_id t d g) \<longrightarrow>
      (r \<in> set (sf_rules (sn_file (pr_snapshot p))) \<longleftrightarrow> r \<in> set (sf_rules (sn_file s)))"
    and "\<forall>r \<in> set (sf_rules (sn_file (pr_snapshot p))). r \<in> set (sf_rules (sn_file s))
      \<or> (\<exists>d \<in> set docs. installed t g e n names d r)"
proof -
  obtain f where f: "apply_delta (sn_file s) (DeltaInstall t docs g e n names) = Inr f"
      "sn_file (pr_snapshot p) = f\<lparr> sf_generation := sf_generation f + 1 \<rparr>"
    by (rule prepare_delta_Inr [OF assms(2)])
  obtain rules where rules: "res_fold (install_rule t g e n names (sf_do_not_reapply (sn_file s)))
      (sf_rules (sn_file s)) docs = Inr rules" "set (sf_rules (sn_file (pr_snapshot p))) = set rules"
    using f by (auto simp: res_simps)
  note fold = install_fold [OF rules(1) snapshot_ok_sorted(3) [OF assms(1)]]
  show "supersedes (sf_rules (sn_file (pr_snapshot p))) (sf_rules (sn_file s))"
    using fold rules(2) by (simp add: supersedes_def)
  show "\<forall>d \<in> set docs. \<not> marked s d g \<and> (\<exists>r \<in> set (sf_rules (sn_file (pr_snapshot p))). installed t g e n names d r)"
    using fold rules(2) by (simp add: marked_def)
  show "\<forall>r. (\<forall>d \<in> set docs. rl_rule_id r \<noteq> rule_id t d g) \<longrightarrow>
      (r \<in> set (sf_rules (sn_file (pr_snapshot p))) \<longleftrightarrow> r \<in> set (sf_rules (sn_file s)))"
    using fold rules(2) by blast
  show "\<forall>r \<in> set (sf_rules (sn_file (pr_snapshot p))). r \<in> set (sf_rules (sn_file s))
      \<or> (\<exists>d \<in> set docs. installed t g e n names d r)"
    using fold rules(2) by blast
qed

section \<open>Histories\<close>

text \<open>
  The snapshots a store goes through: each is the current one or one prepared from it and committed.
\<close>

inductive evolves :: "renv \<Rightarrow> rules_snapshot \<Rightarrow> rules_snapshot \<Rightarrow> bool" for R where
  evolves_refl: "evolves R s s"
| evolves_step: "evolves R s u \<Longrightarrow> prepare_delta R u delta = Inr p \<Longrightarrow> evolves R s (pr_snapshot p)"

lemma evolves_ok: "evolves R s u \<Longrightarrow> snapshot_ok R s \<Longrightarrow> snapshot_ok R u"
  by (induction rule: evolves.induct) (auto elim: prepare_delta_Inr)

lemma marked_iff:
  "snapshot_ok R s \<Longrightarrow> marked s d g \<longleftrightarrow> (\<exists>m \<in> set (sf_do_not_reapply (sn_file s)). mk_document_id m = d \<and> mk_ground m = g)"
  unfolding marked_def by (rule marked_in_iff) (rule snapshot_ok_sorted(2))

lemma prepare_delta_keeps_markers:
  assumes "snapshot_ok R s" and "prepare_delta R s delta = Inr p" and "marked s d g"
  shows "marked (pr_snapshot p) d g"
proof -
  obtain f where f: "apply_delta (sn_file s) delta = Inr f" "snapshot_ok R (pr_snapshot p)"
      "sn_file (pr_snapshot p) = f\<lparr> sf_generation := sf_generation f + 1 \<rparr>"
    by (rule prepare_delta_Inr [OF assms(2)])
  have "set (sf_do_not_reapply (sn_file s)) \<subseteq> set (sf_do_not_reapply (sn_file (pr_snapshot p)))"
    using apply_delta_markers [OF f(1) snapshot_ok_sorted(2) [OF assms(1)]] f(3) by simp
  with assms(1,3) f(2) show ?thesis by (auto simp: marked_iff)
qed

lemma install_marked_fails:
  assumes "d \<in> set docs" and "marked_in ms d g"
  shows "\<not> is_ok (res_fold (install_rule t g e n names ms) rules docs)"
  using assms(1)
proof (induction docs arbitrary: rules)
  case (Cons x docs)
  show ?case
  proof (cases "x = d")
    case True
    with assms(2) show ?thesis by (simp add: install_rule_def)
  next
    case False
    with Cons show ?thesis by (auto simp: is_ok_iff res_simps)
  qed
qed simp

section \<open>The durable store\<close>

definition store_ok :: "renv \<Rightarrow> rules_store \<Rightarrow> bool" where
  "store_ok R st \<longleftrightarrow> snapshot_ok R (st_state st)
     \<and> (\<not> sn_unavailable (st_state st) \<longrightarrow>
          (\<exists>b. rn_encode R (sn_file (st_state st)) = Some b \<and> st_disk st = Some (b @ [newline])))"

lemma unavailable_allows_nothing: "sn_unavailable s \<Longrightarrow> \<not> fst (allows R s d url q now hosts)"
  by (simp add: allows_def)

section \<open>Properties\<close>

text \<open>
  the indexed serving gate is the scan of the rules. On a snapshot rebuilt from its file a
  candidate passes exactly when the store is available, the list does not deny it, and no rule
  for its document is in force: effective, and global or matched by a whole evidenced name.
\<close>

theorem allows_iff:
  assumes "snapshot_ok R s"
  shows "fst (allows R s d url query now hosts) \<longleftrightarrow>
    \<not> sn_unavailable s \<and> \<not> fst (denies (rn_digest R) (rn_url_parse R) (sn_listed s) d url hosts)
    \<and> (\<forall>r \<in> set (sf_rules (sn_file s)). rl_document_id r = d \<longrightarrow> \<not> rule_applies (rn_digest R) r query now)"
  using allows_scan [OF assms] by blast

text \<open>
  C12: an installed global rule protects. After a global rule for some documents is prepared,
  none of them passes the gate at any instant from the rule's effective time on, whatever the
  query and the cache; existing rules are kept with an effective time no later than before,
  and documents outside the delta are served exactly as before.
\<close>

theorem install_protects:
  assumes "snapshot_ok R s" and "prepare_delta R s (DeltaInstall t docs g e n []) = Inr p"
    and "rules_wide s" and "\<forall>d \<in> set docs. wide_keys t d"
  shows "(\<forall>d \<in> set docs. \<forall>url query now hosts. e \<le> now \<longrightarrow> \<not> fst (allows R (pr_snapshot p) d url query now hosts))
    \<and> supersedes (sf_rules (sn_file (pr_snapshot p))) (sf_rules (sn_file s))
    \<and> (\<forall>d url query now hosts. d \<notin> set docs \<longrightarrow>
         fst (allows R (pr_snapshot p) d url query now hosts) = fst (allows R s d url query now hosts))"
proof -
  let ?new = "sf_rules (sn_file (pr_snapshot p))" and ?old = "sf_rules (sn_file s)"
  note inst = prepare_install [OF assms(1,2)]
  have ok: "snapshot_ok R (pr_snapshot p)" "\<not> sn_unavailable (pr_snapshot p)" "\<not> sn_unavailable s"
    by (rule prepare_delta_Inr [OF assms(2)], simp)+
  have "\<not> fst (allows R (pr_snapshot p) d url query now hosts)" if "d \<in> set docs" "e \<le> now" for d url query now hosts
    using inst(2) that unfolding allows_scan [OF ok(1)] by (force simp: installed_def rule_applies_def)
  moreover have "fst (allows R (pr_snapshot p) d url query now hosts) = fst (allows R s d url query now hosts)"
    if "d \<notin> set docs" for d url query now hosts
  proof -
    have "r \<in> set ?new \<longleftrightarrow> r \<in> set ?old" if doc: "rl_document_id r = d" for r
    proof
      assume "r \<in> set ?new"
      with inst(4) doc \<open>d \<notin> set docs\<close> show "r \<in> set ?old" by (auto simp: installed_def)
    next
      assume r: "r \<in> set ?old"
      then have "rl_rule_id r = rule_id (rl_ticket_id r) (rl_document_id r) (rl_ground r)"
        using snapshot_ok_fields(2) [OF assms(1)]
        by (auto simp: validate_snapshot_Inr validate_rule_def split: if_splits)
      then have "\<forall>x \<in> set docs. rl_rule_id r \<noteq> rule_id t x g"
        using rule_id_inj assms(3,4) r doc \<open>d \<notin> set docs\<close> unfolding rules_wide_def by metis
      with inst(3) r show "r \<in> set ?new" by blast
    qed
    then show ?thesis
      unfolding allows_scan [OF ok(1)] allows_scan [OF assms(1)] prepare_delta_listed [OF assms(1,2)]
      using ok by auto
  qed
  ultimately show ?thesis using inst(1) by blast
qed

text \<open>
  A prepared delta verifies. The snapshot prepared for a delta passes the check that recovery
  makes for it: installed rules with the delta's sequence and names are in force no later than
  asked, removed tickets have no rule, reversed documents are marked.
\<close>

theorem prepared_delta_verifies:
  assumes "snapshot_ok R s" and "prepare_delta R s delta = Inr p"
  shows "verifies (pr_snapshot p) delta"
proof -
  obtain f where f: "apply_delta (sn_file s) delta = Inr f" "snapshot_ok R (pr_snapshot p)"
      "sn_file (pr_snapshot p) = f\<lparr> sf_generation := sf_generation f + 1 \<rparr>"
    by (rule prepare_delta_Inr [OF assms(2)])
  show ?thesis
  proof (cases delta)
    case (DeltaInstall t docs g e n names)
    define P where "P r \<longleftrightarrow> rl_ticket_id r = t \<and> rl_ground r = g \<and> rl_intent_sequence r = n
      \<and> rl_effective_at r \<le> e \<and> rl_name_sets r = names" for r :: rule
    have "case sn_by_document (pr_snapshot p) d of None \<Rightarrow> False
        | Some is \<Rightarrow> list_ex (\<lambda>i. P (sf_rules (sn_file (pr_snapshot p)) ! i)) is" if "d \<in> set docs" for d
      unfolding snapshot_ok_fields(1) [OF f(2)] index_rules_any
      using prepare_install(2) [OF assms(1) assms(2) [unfolded DeltaInstall]] that
      by (auto simp: installed_def P_def)
    then show ?thesis unfolding DeltaInstall verifies.simps list_all_iff P_def Let_def by blast
  next
    case (DeltaRemove t)
    with f show ?thesis by (auto simp: list_ex_iff)
  next
    case (DeltaReverse t docs g at n)
    with f mark_documents_props [OF snapshot_ok_sorted(2) [OF assms(1)], of g at n docs] show ?thesis
      by (auto simp: list_ex_iff list_all_iff marked_def)
  qed
qed

text \<open>
  reversals are permanent. Once a document is marked on a ground, it stays marked in every
  snapshot prepared later, and no later delta can install a rule for it on that ground.
\<close>

theorem reversal_is_permanent:
  assumes "snapshot_ok R s" and "marked s d g" and "evolves R s u"
  shows "marked u d g
    \<and> (\<forall>t docs e n names. d \<in> set docs \<longrightarrow> \<not> is_ok (prepare_delta R u (DeltaInstall t docs g e n names)))"
proof -
  have m: "marked u d g"
    using assms(3,1,2)
  proof (induction rule: evolves.induct)
    case (evolves_step s u delta p)
    then show ?case
      using prepare_delta_keeps_markers [OF evolves_ok [OF evolves_step.hyps(1)] evolves_step.hyps(2)] by blast
  qed simp
  moreover have "\<not> is_ok (prepare_delta R u (DeltaInstall t docs g e n names))" if "d \<in> set docs" for t docs e n names
    using install_marked_fails [OF that] m
    by (auto simp: prepare_delta_def is_ok_iff res_simps marked_def split: if_splits)
  ultimately show ?thesis by blast
qed

text \<open>
  C11: commits fail closed, fault by fault. Committing a prepared delta keeps memory and disk in agreement. When every durable
  step succeeds the new snapshot is live and durable; after an error before the replacement the store is as it was, with the old
  snapshot live and durable. After an error once the file was replaced, and after a panic wherever it struck, an error is
  reported and the store stops serving: no document passes the gate for any query at any time, and every later delta and
  commit is refused; the disk then holds the new bytes exactly when the replacement had happened.
\<close>

theorem commit_fails_closed:
  assumes "store_ok R st" and "prepare_delta R (st_state st) delta = Inr p" and "commit e st p = (res, st')"
  shows "store_ok R st'
    \<and> (case e of
         PersistOk \<Rightarrow> res = Inr () \<and> st_state st' = pr_snapshot p \<and> st_disk st' = Some (pr_bytes p)
       | PersistError False \<Rightarrow> res = Inl RulesUnavailable \<and> st' = st
       | _ \<Rightarrow> res = Inl RulesUnavailable \<and> st_disk st' = (if e \<in> {PersistError True, PersistPanic True} then Some (pr_bytes p) else st_disk st)
           \<and> (\<forall>d url q now hosts. \<not> fst (allows R (st_state st') d url q now hosts))
           \<and> (\<forall>delta'. \<not> is_ok (prepare_delta R (st_state st') delta')) \<and> (\<forall>e' p'. commit e' st' p' = (Inl RulesUnavailable, st')))"
proof -
  obtain f where f: "\<not> sn_unavailable (st_state st)" "snapshot_ok R (pr_snapshot p)"
      "\<exists>b. rn_encode R (sn_file (pr_snapshot p)) = Some b \<and> pr_bytes p = b @ [newline]"
    by (rule prepare_delta_Inr [OF assms(2)])
  have ok: "snapshot_ok R ((st_state st)\<lparr> sn_unavailable := True \<rparr>)" "snapshot_ok R (st_state st)"
    using assms(1) by (simp_all add: store_ok_def snapshot_ok_def)
  have refused: "\<not> is_ok (prepare_delta R s delta')" if "sn_unavailable s" for s delta'
    using that prepare_delta_Inr [of R s delta'] by (auto simp: is_ok_iff)
  show ?thesis
  proof (cases e)
    case (PersistError renamed)
    with assms(1,3) f ok refused show ?thesis
      by (cases renamed) (auto simp: commit_def persist_def store_ok_def allows_def)
  qed (use assms(1,3) f ok refused in \<open>auto simp: commit_def persist_def store_ok_def allows_def split: bool.splits if_splits\<close>)
qed

text \<open>
  The serving clock of a store never runs backwards: over any sequence of clock readings the
  served instants are nondecreasing and none is behind its reading.
\<close>

fun serve_times :: "rules_store \<Rightarrow> int list \<Rightarrow> int list" where
  "serve_times st [] = []"
| "serve_times st (n # ns) = (case serving_now st n of (t, st') \<Rightarrow> t # serve_times st' ns)"

lemma serve_times_lower: "t \<in> set (serve_times st ns) \<Longrightarrow> st_observed_utc st \<le> t"
proof (induction ns arbitrary: st)
  case (Cons n ns)
  have "st_observed_utc st \<le> t" if "t \<in> set (serve_times (st\<lparr> st_observed_utc := max (st_observed_utc st) n \<rparr>) ns)"
    using Cons.IH [OF that] by simp
  with Cons.prems show ?case by (auto simp: serving_now_def)
qed simp

theorem serving_now_monotone:
  "sorted (serve_times st readings) \<and> list_all2 (\<le>) readings (serve_times st readings)"
proof (induction readings arbitrary: st)
  case (Cons n ns)
  define u where "u = st\<lparr> st_observed_utc := max (st_observed_utc st) n \<rparr>"
  have now: "st_observed_utc u = max (st_observed_utc st) n" by (simp add: u_def)
  have "\<forall>t \<in> set (serve_times u ns). max (st_observed_utc st) n \<le> t"
    unfolding now [symmetric] using serve_times_lower by blast
  moreover have "serve_times st (n # ns) = max (st_observed_utc st) n # serve_times u ns"
    by (simp add: serving_now_def u_def)
  ultimately show ?case
    using Cons.IH [of u] by (simp only: sorted_simps list.rel_inject max.cobounded2 simp_thms)
qed simp

section \<open>A concrete store\<close>

definition demo_renv :: renv where
  "demo_renv = \<lparr> rn_digest = (\<lambda>s. s), rn_url_parse = demo_url, rn_chrono = gregorian,
     rn_settings = default_settings, rn_encode = (\<lambda>f. Some (replicate (sf_generation f) (CHR ''1''))),
     rn_decode = (\<lambda>_. None), rn_encode_listed = (\<lambda>l. Some (ld_version l)) \<rparr>"

definition demo_key :: document_key where
  "demo_key = DocumentKey (Hex64 (replicate 64 (CHR ''a'')))"

definition demo_id :: ticket_id where
  "demo_id = TicketId (Hex64 (replicate 64 (CHR ''b'')))"

definition demo_file :: "nat \<Rightarrow> rule list \<Rightarrow> marker list \<Rightarrow> snapshot_file" where
  "demo_file n rs ms = \<lparr> sf_format_version = 1, sf_generation = n, sf_rules = rs, sf_do_not_reapply = ms,
     sf_listed = lx_data listed_empty \<rparr>"

definition demo_snapshot :: "nat \<Rightarrow> rule list \<Rightarrow> marker list \<Rightarrow> rules_snapshot" where
  "demo_snapshot n rs ms = \<lparr> sn_file = demo_file n rs ms, sn_by_document = index_rules rs,
     sn_listed = listed_empty, sn_unavailable = False \<rparr>"

definition demo_rule :: rule where
  "demo_rule = \<lparr> rl_rule_id = rule_id demo_id demo_key GdIllegalContent, rl_ticket_id = demo_id,
     rl_document_id = demo_key, rl_ground = GdIllegalContent, rl_kind = GlobalRule,
     rl_effective_at = 1700000000, rl_intent_sequence = 4, rl_name_sets = [] \<rparr>"

definition demo_marker :: marker where
  "demo_marker = \<lparr> mk_document_id = demo_key, mk_ground = GdIllegalContent, mk_reversed_at = 1700000500,
     mk_intent_sequence = 7 \<rparr>"

definition demo_install :: rule_delta where
  "demo_install = DeltaInstall demo_id [demo_key] GdIllegalContent 1700000000 4 []"

lemma demo_rebuild:
  assumes "rs = [] \<or> rs = [demo_rule]" and "ms = [] \<or> ms = [demo_marker]"
  shows "rebuild demo_renv (demo_file n rs ms) = Inr (demo_snapshot n rs ms)"
proof -
  have "validate_rule gregorian demo_rule = Inr ()"
    by (simp add: validate_rule_def demo_rule_def instant_def validate_range_def)
  moreover have "validate_marker gregorian demo_marker = Inr ()"
    by (simp add: validate_marker_def demo_marker_def instant_def validate_range_def)
  ultimately have "validate_snapshot gregorian (demo_file n rs ms) = Inr ()"
    using assms by (auto simp: validate_snapshot_Inr demo_file_def strictly_ascending_iff_sorted_wrt)
  then show ?thesis
    by (simp add: rebuild_def demo_renv_def demo_snapshot_def from_data_def demo_file_def listed_empty_def
        checked_add_u64_def validate_range_def strictly_ascending_iff_sorted_wrt)
qed

lemma demo_snapshot_ok:
  "rs = [] \<or> rs = [demo_rule] \<Longrightarrow> ms = [] \<or> ms = [demo_marker] \<Longrightarrow> snapshot_ok demo_renv (demo_snapshot n rs ms)"
  by (rule rebuild_snapshot_ok [OF demo_rebuild])

lemma demo_prepare:
  "prepare_delta demo_renv (demo_snapshot 0 [] []) demo_install =
     Inr \<lparr> pr_snapshot = demo_snapshot 1 [demo_rule] [], pr_bytes = ''1'' @ [newline] \<rparr>"
proof -
  have "apply_delta (demo_file 0 [] []) demo_install = Inr (demo_file 0 [demo_rule] [])"
    by (simp add: demo_install_def demo_file_def install_rule_def demo_rule_def marked_in_iff
        strictly_ascending_iff_sorted_wrt)
  then show ?thesis
    using demo_rebuild [of "[demo_rule]" "[]" 1]
    by (simp add: prepare_delta_def demo_snapshot_def demo_file_def checked_add_u64_def prepare_snapshot_def Let_def
        reserve_def checked_sub_u64_def validate_range_def demo_renv_def listed_empty_def default_settings_def
        default_of_def spec_rows bound_spec_of_def)
qed

theorem allows_iff_witness:
  "\<not> fst (allows demo_renv (demo_snapshot 1 [demo_rule] []) demo_key ''https://x.example/'' [] 1700000000 (\<lambda>_. None))"
  using allows_iff [OF demo_snapshot_ok, of "[demo_rule]" "[]" 1 demo_key _ "[]" 1700000000 "\<lambda>_. None"]
  by (simp add: demo_snapshot_def demo_file_def) (simp add: demo_rule_def rule_applies_def)

theorem install_protects_witness:
  "\<not> fst (allows demo_renv (demo_snapshot 1 [demo_rule] []) demo_key ''https://x.example/'' [] 1700000001 (\<lambda>_. None))"
  using install_protects [OF demo_snapshot_ok demo_prepare [unfolded demo_install_def]]
  by (simp add: rules_wide_def demo_snapshot_def demo_file_def wide_keys_def demo_id_def demo_key_def)

theorem prepared_delta_verifies_witness: "verifies (demo_snapshot 1 [demo_rule] []) demo_install"
  using prepared_delta_verifies [OF demo_snapshot_ok demo_prepare] by simp

theorem reversal_is_permanent_witness:
  "\<not> is_ok (prepare_delta demo_renv (demo_snapshot 2 [] [demo_marker]) demo_install)"
proof -
  have "marked (demo_snapshot 2 [] [demo_marker]) demo_key GdIllegalContent"
    using marked_iff [OF demo_snapshot_ok, of "[]" "[demo_marker]" 2]
    by (simp add: demo_snapshot_def demo_file_def demo_marker_def)
  from reversal_is_permanent [OF demo_snapshot_ok this evolves_refl] show ?thesis
    by (simp add: demo_install_def)
qed

definition demo_store :: rules_store where
  "demo_store = \<lparr> st_state = demo_snapshot 0 [] [], st_disk = Some [newline], st_observed_utc = 1700000000 \<rparr>"

theorem commit_fails_closed_witness:
  "\<exists>st'. commit (PersistError True) demo_store
      \<lparr> pr_snapshot = demo_snapshot 1 [demo_rule] [], pr_bytes = ''1'' @ [newline] \<rparr> = (Inl RulesUnavailable, st')
    \<and> store_ok demo_renv st' \<and> sn_unavailable (st_state st')"
proof -
  let ?p = "\<lparr> pr_snapshot = demo_snapshot 1 [demo_rule] [], pr_bytes = ''1'' @ [newline] \<rparr>"
  have ok: "store_ok demo_renv demo_store"
    using demo_snapshot_ok [of "[]" "[]" 0]
    by (simp add: store_ok_def demo_store_def) (simp add: demo_snapshot_def demo_file_def demo_renv_def)
  obtain st' where st': "commit (PersistError True) demo_store ?p = (Inl RulesUnavailable, st')"
      "sn_unavailable (st_state st')"
    by (simp add: commit_def demo_store_def persist_def demo_snapshot_def)
  have "prepare_delta demo_renv (st_state demo_store) demo_install = Inr ?p"
    using demo_prepare by (simp add: demo_store_def)
  from commit_fails_closed [OF ok this st'(1)] st' show ?thesis by blast
qed

end
