(* ===== verification/Case_Plan.thy ===== *)
theory Case_Plan
  imports Case_Recovery Lifecycle Serving
begin

text \<open>
  The case owner's invariant. What an executed plan leaves on the disk is a prefix of its rows, in order, behind
  the revision they refer to and with the rules changed only after their intent; the projections in memory are
  those the journal rebuilds to; and an operation that fails leaves the case as it was or takes it out of service.
\<close>

section \<open>Projections\<close>

definition projections_ok :: "(ticket_id \<times> ticket) list \<Rightarrow> bool" where
  "projections_ok tickets \<longleftrightarrow> btree_ok tickets
     \<and> (\<forall>p \<in> set tickets. tk_id (snd p) = fst p \<and> ticket_id_parse (ticket_id_as_str (fst p)) = Inr (fst p))"

lemma projections_ok_Nil [simp]: "projections_ok []"
  by (simp add: projections_ok_def)

lemma ticket_id_parse_str:
  "ticket_id_parse s = Inr tid \<Longrightarrow> ticket_id_as_str tid = s \<and> ticket_id_parse (ticket_id_as_str tid) = Inr tid \<and> s \<noteq> []"
  by (auto simp: ticket_id_parse_def ticket_id_as_str_def res_simps hex64_parse_Inr)

lemma received_id: "received row = Inr t \<Longrightarrow> ticket_id_parse (row_ticket_id row) = Inr (tk_id t)
    \<and> tk_events t = 1 \<and> row_event row = EvReceived"
  by (auto simp: received_def res_simps split: if_splits)

lemma projections_insert:
  assumes "projections_ok tickets" and "ticket_id_parse (ticket_id_as_str (tk_id t)) = Inr (tk_id t)"
  shows "projections_ok (btree_insert (tk_id t) t tickets)"
  using assms set_btree_insert [of "tk_id t" t tickets] by (fastforce simp: projections_ok_def)

lemma projections_lookup:
  assumes "projections_ok tickets" and "map_of tickets tid = Some t"
  shows "tk_id t = tid" "ticket_id_parse (ticket_id_as_str tid) = Inr tid"
  using assms by (force simp: projections_ok_def dest: map_of_SomeD)+

lemma apply_row_id:
  assumes "apply_row ch cfg t row = Inr t'"
  shows "row_ticket_id row = ticket_id_as_str (tk_id t)" "tk_id t' = tk_id t" "row_event row \<noteq> EvReceived"
    "tk_events t' = Suc (tk_events t)"
proof -
  show "row_ticket_id row = ticket_id_as_str (tk_id t)" by (rule apply_row_Inr [OF assms])
  show "tk_id t' = tk_id t" "tk_events t' = Suc (tk_events t)"
    using apply_identity [OF assms] apply_events [OF assms] by simp_all
  show "row_event row \<noteq> EvReceived"
    using apply_successor [OF assms] by (intro notI) (simp add: successor_option_def)
qed

lemma rebuild_row_cases:
  assumes "rebuild_row ch cfg tickets row = Inr tickets'"
  obtains (other) "row_ticket_id row = []" "tickets' = tickets"
  | (receipt) t where "row_event row = EvReceived" "received row = Inr t" "map_of tickets (tk_id t) = None"
      "tickets' = btree_insert (tk_id t) t tickets" "ticket_id_parse (ticket_id_as_str (tk_id t)) = Inr (tk_id t)"
  | (reduced) tid t t' where "row_event row \<noteq> EvReceived" "ticket_id_parse (row_ticket_id row) = Inr tid"
      "map_of tickets tid = Some t" "apply_row ch cfg t row = Inr t'" "tickets' = btree_insert tid t' tickets"
proof (cases "row_ticket_id row = []")
  case True
  with assms other show ?thesis by (simp add: rebuild_row_def)
next
  case named: False
  show ?thesis
  proof (cases "row_event row = EvReceived")
    case True
    with assms named obtain tid t where t: "ticket_id_parse (row_ticket_id row) = Inr tid" "received row = Inr t"
        "map_of tickets tid = None" "tickets' = btree_insert tid t tickets"
      by (auto simp: rebuild_row_def res_bind_Inr split: if_splits)
    show ?thesis using receipt [OF True t(2)] t received_id [OF t(2)] ticket_id_parse_str [OF t(1)] by simp
  next
    case False
    with assms named reduced show ?thesis by (simp add: rebuild_row_def res_bind_Inr ok_or_Inr) blast
  qed
qed

lemma rebuild_row_ok:
  assumes "rebuild_row ch cfg tickets row = Inr tickets'" and "projections_ok tickets"
  shows "projections_ok tickets'"
  using assms(1)
proof (cases rule: rebuild_row_cases)
  case (reduced tid t t')
  with projections_lookup [OF assms(2) reduced(3)] apply_row_id(2) [OF reduced(4)] show ?thesis
    using projections_insert [OF assms(2), of t'] by simp
qed (use assms(2) projections_insert in auto)

lemma btree_insert_again: "btree_ok es \<Longrightarrow> btree_insert k v (btree_insert k u es) = btree_insert k v es"
  by (rule btree_ok_eqI) auto

lemma btree_insert_same: "btree_ok es \<Longrightarrow> map_of es k = Some v \<Longrightarrow> btree_insert k v es = es"
  by (rule btree_ok_eqI) auto

lemma projections_btree [dest]: "projections_ok tickets \<Longrightarrow> btree_ok tickets"
  by (simp add: projections_ok_def)

lemma rebuild_fold_ok:
  "res_fold (rebuild_row ch cfg) tickets rows = Inr tickets' \<Longrightarrow> projections_ok tickets \<Longrightarrow> projections_ok tickets'"
  by (rule res_fold_invariant) (blast intro: rebuild_row_ok)+

text \<open>Reducing rows on one ticket is rebuilding them on the map that holds it.\<close>

lemma rebuild_applied:
  assumes "projections_ok tickets" and "map_of tickets tid = Some t" and "res_fold (apply_row ch cfg) t rows = Inr t'"
  shows "res_fold (rebuild_row ch cfg) tickets rows = Inr (btree_insert tid t' tickets) \<and> tk_id t' = tid"
  using assms
proof (induction rows arbitrary: tickets t)
  case Nil
  then show ?case by (simp add: btree_insert_same projections_btree projections_lookup)
next
  case (Cons row rows)
  from Cons.prems(3) obtain u where u: "apply_row ch cfg t row = Inr u" "res_fold (apply_row ch cfg) u rows = Inr t'"
    by (auto simp: res_bind_Inr)
  note l = projections_lookup [OF Cons.prems(1,2)] and i = apply_row_id [OF u(1)]
  have "row_ticket_id row \<noteq> []" using ticket_id_parse_str [OF l(2)] l(1) i(1) by simp
  then have step: "rebuild_row ch cfg tickets row = Inr (btree_insert tid u tickets)"
    using l i Cons.prems(2) u(1) by (simp add: rebuild_row_def)
  have "map_of (btree_insert tid u tickets) tid = Some u" using Cons.prems(1) by (simp add: projections_btree)
  from Cons.IH [OF rebuild_row_ok [OF step Cons.prems(1)] this u(2)] step show ?case
    using Cons.prems(1) by (simp add: btree_insert_again projections_btree)
qed

lemma rebuild_received:
  assumes "received row = Inr t" and "map_of tickets (tk_id t) = None"
  shows "rebuild_row ch cfg tickets row = Inr (btree_insert (tk_id t) t tickets)"
proof -
  note i = received_id [OF assms(1)]
  from i have "row_ticket_id row \<noteq> []" using ticket_id_parse_str [of "row_ticket_id row" "tk_id t"] by simp
  with assms i show ?thesis by (simp add: rebuild_row_def)
qed

definition plan_rows_ok :: "case_state \<Rightarrow> journal_row list \<Rightarrow> bool" where
  "plan_rows_ok c rows \<longleftrightarrow>
     (case rows of [] \<Rightarrow> True
      | first # _ \<Rightarrow> row_event first = EvReceived \<longrightarrow>
          (\<forall>tid. ticket_id_parse (row_ticket_id first) = Inr tid \<longrightarrow> map_of (ca_tickets c) tid = None))"

lemma project_cases:
  assumes "project_and_measure C c rows n reserved = Inr (t, fp)"
  obtains (receipt) first "rest" t0 where "rows = first # rest" "row_event first = EvReceived" "received first = Inr t0"
      "res_fold (apply_row (je_chrono (cn_journal C)) (cn_settings C)) t0 rest = Inr t" "fp_new_tickets fp = 1"
      "fp_events fp = tk_events t"
  | (existing) tid t0 where "rows \<noteq> []" "row_event (hd rows) \<noteq> EvReceived" "ticket_id_parse (row_ticket_id (hd rows)) = Inr tid"
      "map_of (ca_tickets c) tid = Some t0" "res_fold (apply_row (je_chrono (cn_journal C)) (cn_settings C)) t0 rows = Inr t"
      "fp_new_tickets fp = 0" "fp_events fp = tk_events t"
proof -
  from assms obtain first "rest" where rows: "rows = first # rest"
    by (cases rows) (auto simp: project_and_measure_def)
  show thesis
  proof (cases "row_event first = EvReceived")
    case True
    with assms rows obtain t0 where "received first = Inr t0"
        "res_fold (apply_row (je_chrono (cn_journal C)) (cn_settings C)) t0 rest = Inr t"
        "fp_new_tickets fp = 1" "fp_events fp = tk_events t"
      by (auto simp: project_and_measure_def res_bind_Inr Let_def)
    with rows True receipt show thesis by blast
  next
    case False
    with assms rows existing show thesis
      by (auto simp: project_and_measure_def res_bind_Inr Let_def ok_or_Inr)
  qed
qed

lemma rebuild_plan:
  assumes "project_and_measure C c rows n reserved = Inr (t, fp)" and "projections_ok (ca_tickets c)" and "plan_rows_ok c rows"
  shows "res_fold (rebuild_row (je_chrono (cn_journal C)) (cn_settings C)) (ca_tickets c) rows
     = Inr (btree_insert (tk_id t) t (ca_tickets c))"
  using assms(1)
proof (cases rule: project_cases)
  case (receipt first "rest" t0)
  have none: "map_of (ca_tickets c) (tk_id t0) = None"
    using assms(3) receipt received_id [OF receipt(3)] by (simp add: plan_rows_ok_def)
  note step = rebuild_received [OF receipt(3) none]
  have "map_of (btree_insert (tk_id t0) t0 (ca_tickets c)) (tk_id t0) = Some t0"
    using assms(2) by (simp add: projections_btree)
  from rebuild_applied [OF rebuild_row_ok [OF step assms(2)] this receipt(4)] step receipt(1) assms(2)
  show ?thesis by (simp add: btree_insert_again projections_btree)
next
  case (existing tid t0)
  with rebuild_applied [OF assms(2) existing(4,5)] show ?thesis by simp
qed

section \<open>Capacity\<close>

definition projections_within :: "settings \<Rightarrow> (ticket_id \<times> ticket) list \<Rightarrow> bool" where
  "projections_within cfg tickets \<longleftrightarrow> length tickets \<le> min u64_max (cf_max_tickets cfg)
     \<and> (\<forall>p \<in> set tickets. tk_events (snd p) \<le> min u64_max (cf_max_ticket_events cfg))"

lemma rebuild_tickets_Inr:
  "rebuild_tickets C rows = Inr tickets \<longleftrightarrow>
     res_fold (rebuild_row (je_chrono (cn_journal C)) (cn_settings C)) [] rows = Inr tickets
     \<and> projections_within (cn_settings C) tickets"
  by (auto simp: rebuild_tickets_def res_simps projections_within_def res_fold_unit_Inr)

lemma btree_lookup: "btree_ok es \<Longrightarrow> p \<in> set es \<longleftrightarrow> map_of es (fst p) = Some (snd p)"
  by (cases p) (simp add: btree_ok_distinct)

lemma btree_length: "btree_ok es \<Longrightarrow> length es = card (dom (map_of es))"
  by (metis btree_ok_distinct distinct_card dom_map_of_conv_image_fst length_map list.set_map)

text \<open>Rebuilding only adds tickets and events.\<close>

lemma rebuild_row_grows:
  assumes "rebuild_row ch cfg tickets row = Inr tickets'" and "projections_ok tickets" and "map_of tickets tid = Some t"
  shows "\<exists>t'. map_of tickets' tid = Some t' \<and> tk_events t \<le> tk_events t'"
  using assms(1)
proof (cases rule: rebuild_row_cases)
  case (reduced k u u')
  with assms(2,3) show ?thesis by (auto simp: projections_btree apply_row_id(4))
qed (use assms(2,3) in \<open>auto simp: projections_btree\<close>)

lemma rebuild_fold_grows:
  assumes "res_fold (rebuild_row ch cfg) tickets rows = Inr tickets'" and "projections_ok tickets" and "map_of tickets tid = Some t"
  shows "\<exists>t'. map_of tickets' tid = Some t' \<and> tk_events t \<le> tk_events t'"
  using assms
proof (induction rows arbitrary: tickets t)
  case (Cons row rows)
  then obtain u where u: "rebuild_row ch cfg tickets row = Inr u" "res_fold (rebuild_row ch cfg) u rows = Inr tickets'"
    by (auto simp: res_bind_Inr)
  from rebuild_row_grows [OF u(1) Cons.prems(2,3)] Cons.IH [OF u(2) rebuild_row_ok [OF u(1) Cons.prems(2)]]
  show ?case by (meson order_trans)
qed simp

lemma within_earlier:
  assumes "res_fold (rebuild_row ch cfg) tickets rows = Inr tickets'" and "projections_ok tickets" and "projections_within cfg tickets'"
  shows "projections_within cfg tickets"
proof -
  note g = rebuild_fold_grows [OF assms(1,2)] and ok = rebuild_fold_ok [OF assms(1,2)]
  have "dom (map_of tickets) \<subseteq> dom (map_of tickets')" using g by blast
  then have "length tickets \<le> length tickets'"
    using assms(2) ok by (simp add: btree_length projections_btree card_mono finite_dom_map_of)
  moreover have "\<exists>q \<in> set tickets'. tk_events (snd p) \<le> tk_events (snd q)" if "p \<in> set tickets" for p
  proof -
    have "map_of tickets (fst p) = Some (snd p)" using that assms(2) by (simp add: btree_lookup projections_btree)
    from g [OF this] show ?thesis by (metis map_of_SomeD snd_conv)
  qed
  ultimately show ?thesis using assms(3) by (fastforce simp: projections_within_def)
qed

text \<open>A prefix of rows that rebuild within the configured capacity rebuilds within it.\<close>

lemma rebuild_prefix:
  assumes "rebuild_tickets C (pre @ post) = Inr tickets"
  shows "\<exists>earlier. rebuild_tickets C pre = Inr earlier"
proof -
  obtain u where u: "res_fold (rebuild_row (je_chrono (cn_journal C)) (cn_settings C)) [] pre = Inr u"
      "res_fold (rebuild_row (je_chrono (cn_journal C)) (cn_settings C)) u post = Inr tickets"
      "projections_within (cn_settings C) tickets"
    using assms by (auto simp: rebuild_tickets_Inr res_fold_append res_bind_Inr)
  from within_earlier [OF u(2) rebuild_fold_ok [OF u(1)] u(3)] u(1) show ?thesis by (auto simp: rebuild_tickets_Inr)
qed

section \<open>Executing a plan\<close>

definition has_intent_row :: "journal_row list \<Rightarrow> bool" where
  "has_intent_row rows \<longleftrightarrow> (\<exists>row \<in> set rows. intent_event (row_event row))"

definition rules_committed :: "prepared_rules \<Rightarrow> case_state \<Rightarrow> bool" where
  "rules_committed p c \<longleftrightarrow> st_state (ca_rules c) = pr_snapshot p \<and> st_disk (ca_rules c) = Some (pr_bytes p)"

lemma bind_case_eq:
  "bind_case m f = (r, c') \<longleftrightarrow>
     (\<exists>e. m = (Inl e, c') \<and> r = Inl e) \<or> (\<exists>u c1. m = (Inr u, c1) \<and> f c1 = (r, c'))"
  by (auto simp: bind_case_def split: prod.splits sum.splits)

lemma bind_case_simps [simp]: "bind_case (Inr u, c) f = f c" "bind_case (Inl e, c) f = (Inl e, c)"
  by (simp_all add: bind_case_def)

lemma hook_case_eq: "hook_case b c = (r, c') \<longleftrightarrow> c' = c \<and> r = (if b then Inl Unavailable else Inr ())"
  by (auto simp: hook_case_def)

lemma case_unchanged [simp]:
  "c\<lparr> ca_rules := ca_rules c \<rparr> = c" "c\<lparr> ca_pdisk := ca_pdisk c \<rparr> = c" "c\<lparr> ca_journal := ca_journal c, ca_jdisk := ca_jdisk c \<rparr> = c"
  by simp_all

lemma case_commit_frame:
  assumes "case_commit e rules c = (r, c')"
  shows "c' = c\<lparr> ca_rules := ca_rules c' \<rparr>" "rules = None \<Longrightarrow> c' = c"
    "r = Inr () \<Longrightarrow> rules = Some p \<Longrightarrow> rules_committed p c'"
proof -
  show "c' = c\<lparr> ca_rules := ca_rules c' \<rparr>" "rules = None \<Longrightarrow> c' = c"
    using assms by (auto simp: case_commit_def split: option.splits prod.splits)
  show "rules_committed p c'" if "r = Inr ()" "rules = Some p"
    using assms that by (auto simp: case_commit_def commit_def persist_def Let_def rules_committed_def
        split: prod.splits if_splits persist_end.splits)
qed

lemma case_purge_frame:
  assumes "case_purge_files C fault purge t c = (r, c')"
  shows "c' = c\<lparr> ca_pdisk := ca_pdisk c' \<rparr>" "\<not> purge \<Longrightarrow> c' = c"
  using assms by (auto simp: case_purge_files_def split: if_splits prod.splits)

lemma after_intent_cases:
  assumes "after_intent C f projected purge i rules c = (r, c')"
  obtains (stopped) "c' = c" "\<exists>e. r = Inl e"
  | (commit) e where "case_commit (fa_commit f) rules c = (Inl e, c')" "r = Inl e"
  | (purge) c1 r2 where "case_commit (fa_commit f) rules c = (Inr (), c1)"
      "case_purge_files C (fa_purge f) purge projected c1 = (r2, c')"
  using assms that
  by (cases "case_commit (fa_commit f) rules c"; cases "fst (case_commit (fa_commit f) rules c)"; cases "fa_intent f i")
     (auto simp: after_intent_def bind_case_eq hook_case_eq)

lemma after_intent_frame:
  assumes "after_intent C f projected purge i rules c = (r, c')"
  shows "c' = c\<lparr> ca_rules := ca_rules c', ca_pdisk := ca_pdisk c' \<rparr>" "rules = None \<Longrightarrow> ca_rules c' = ca_rules c"
    "\<not> purge \<Longrightarrow> ca_pdisk c' = ca_pdisk c" "r = Inr () \<Longrightarrow> rules = Some p \<Longrightarrow> rules_committed p c'"
proof -
  from assms have "c' = c\<lparr> ca_rules := ca_rules c', ca_pdisk := ca_pdisk c' \<rparr> \<and> (rules = None \<longrightarrow> ca_rules c' = ca_rules c)
      \<and> (\<not> purge \<longrightarrow> ca_pdisk c' = ca_pdisk c) \<and> (r = Inr () \<longrightarrow> rules = Some p \<longrightarrow> rules_committed p c')"
  proof (cases rule: after_intent_cases)
    case stopped
    then show ?thesis by auto
  next
    case (commit e)
    note f = case_commit_frame(1,2) [OF commit(1)]
    from f(1) have "ca_pdisk c' = ca_pdisk c" by (metis case_state.select_convs(3) case_state.surjective case_state.update_convs(6))
    with f commit(2) show ?thesis by auto
  next
    case (purge c1 r2)
    note f = case_commit_frame [OF purge(1)] and g = case_purge_frame [OF purge(2)]
    have "ca_pdisk c1 = ca_pdisk c" "ca_rules c' = ca_rules c1"
      by (subst f(1), simp) (subst g(1), simp)
    moreover have "c' = c\<lparr> ca_rules := ca_rules c', ca_pdisk := ca_pdisk c' \<rparr>"
      by (subst g(1), subst f(1)) (simp add: calculation)
    ultimately show ?thesis using f(2,3) g(2) by (auto simp: rules_committed_def)
  qed
  then show "c' = c\<lparr> ca_rules := ca_rules c', ca_pdisk := ca_pdisk c' \<rparr>" "rules = None \<Longrightarrow> ca_rules c' = ca_rules c"
    "\<not> purge \<Longrightarrow> ca_pdisk c' = ca_pdisk c" "r = Inr () \<Longrightarrow> rules = Some p \<Longrightarrow> rules_committed p c'" by blast+
qed

lemma case_append_frame:
  assumes "case_append C f row c = (r, c')"
  shows "c' = c\<lparr> ca_journal := ca_journal c', ca_jdisk := ca_jdisk c', ca_started := ca_started c' \<rparr>"
    "ca_started c \<Longrightarrow> ca_started c'" "r = Inr () \<Longrightarrow> ca_started c'" "\<not> ca_started c' \<Longrightarrow> c' = c"
    "append_tracked (cn_journal C) f (ca_journal c) (ca_jdisk c) row = (r, ca_journal c', ca_jdisk c')"
  using assms
  by (auto simp: case_append_def append_tracked_def Let_def is_ok_def split: sum.splits prod.splits if_splits)

text \<open>What the case owner relies on: the journal's encodings and digest, and the revisions' encoding.\<close>

locale case_env =
  fixes C :: cenv
  assumes journal: "journal_env (cn_journal C)"
    and hook: "je_decode_hook (cn_journal C)"
    and u64: "je_max_bytes (cn_journal C) \<le> u64_max"
    and codec: "payload_codec_ok (cn_payload C)"
begin

abbreviation E :: jenv where
  "E \<equiv> cn_journal C"

lemma durable_load:
  assumes "durable_rows E d rows" and "je_now E \<le> n"
  shows "\<exists>k d'. load (E\<lparr> je_now := n \<rparr>) TailOk d = (Inr k, d') \<and> jn_rows k = rows \<and> jd_events d' = encode_rows E rows"
  using journal_env.load_durable [OF journal_env_later [OF journal] durable_later [OF assms], of TailOk] hook u64
  by (cases "load (E\<lparr> je_now := n \<rparr>) TailOk d") (auto simp: consistent_def is_ok_def)

lemmas consistent_durable = consistent_durable_rows [of E]

lemma case_append_durable:
  assumes "case_append C f row c = (r, c')" and "consistent E (ca_journal c) (ca_jdisk c)"
    and "chain_ok E (jn_rows (ca_journal c)) [row]"
  shows "durable_rows E (ca_jdisk c') (jn_rows (ca_journal c)) \<or> durable_rows E (ca_jdisk c') (jn_rows (ca_journal c) @ [row])"
    "r = Inr () \<Longrightarrow> consistent E (ca_journal c') (ca_jdisk c') \<and> jn_rows (ca_journal c') = jn_rows (ca_journal c) @ [row]"
proof -
  note a = case_append_frame(5) [OF assms(1)]
  have link: "chain_ok E [] (jn_rows (ca_journal c) @ [row])"
    using assms(2,3) by (simp add: consistent_def chain_ok_append)
  from journal_env.append_durable [OF journal hook u64 assms(2) link a]
  show "durable_rows E (ca_jdisk c') (jn_rows (ca_journal c)) \<or> durable_rows E (ca_jdisk c') (jn_rows (ca_journal c) @ [row])"
    "r = Inr () \<Longrightarrow> consistent E (ca_journal c') (ca_jdisk c') \<and> jn_rows (ca_journal c') = jn_rows (ca_journal c) @ [row]" by blast+
qed

end

text \<open>
  The effect of the rows of a plan, whatever fails: a prefix of them is durable, the rules and the revisions
  change only behind a durable intent, and a row after the intent is durable only once the rules are.
\<close>


definition plan_frame :: "case_state \<Rightarrow> case_state \<Rightarrow> bool" where
  "plan_frame c c' \<longleftrightarrow> ca_tickets c' = ca_tickets c \<and> ca_usage c' = ca_usage c \<and> ca_writes_disabled c' = ca_writes_disabled c"

definition loop_effect ::
  "jenv \<Rightarrow> bool \<Rightarrow> prepared_rules option \<Rightarrow> journal_row list \<Rightarrow> case_state \<Rightarrow> unit outcome \<Rightarrow> case_state \<Rightarrow> nat \<Rightarrow> bool" where
  "loop_effect E purge rules rows c r c' k \<longleftrightarrow>
     k \<le> length rows \<and> durable_rows E (ca_jdisk c') (jn_rows (ca_journal c) @ take k rows)
     \<and> (r = Inr () \<longrightarrow> k = length rows \<and> consistent E (ca_journal c') (ca_jdisk c')
          \<and> jn_rows (ca_journal c') = jn_rows (ca_journal c) @ rows
          \<and> (\<forall>p. rules = Some p \<longrightarrow> has_intent_row rows \<longrightarrow> rules_committed p c'))
     \<and> plan_frame c c'
     \<and> (ca_rules c' \<noteq> ca_rules c \<longrightarrow> rules \<noteq> None \<and> has_intent_row (take k rows))
     \<and> (\<forall>p. rules = Some p \<longrightarrow> has_intent_row (take (k - 1) rows) \<longrightarrow> rules_committed p c')
     \<and> (ca_pdisk c' \<noteq> ca_pdisk c \<longrightarrow> purge \<and> has_intent_row (take k rows))"

lemma has_intent_row_simps [simp]:
  "\<not> has_intent_row []" "has_intent_row (row # rows) \<longleftrightarrow> intent_event (row_event row) \<or> has_intent_row rows"
  by (auto simp: has_intent_row_def)

lemma plan_loop_cases:
  assumes "plan_loop C f projected purge i rules (row # rows) c = (r, c')"
  obtains (hook) "c' = c" "r = Inl Unavailable"
  | (failed) e where "case_append C (fa_append f i) row c = (Inl e, c')" "r = Inl e"
  | (plain) c1 where "case_append C (fa_append f i) row c = (Inr (), c1)" "\<not> intent_event (row_event row)"
      "plan_loop C f projected purge (Suc i) rules rows c1 = (r, c')"
  | (stopped) c1 e where "case_append C (fa_append f i) row c = (Inr (), c1)" "intent_event (row_event row)"
      "after_intent C f projected purge i rules c1 = (Inl e, c')" "r = Inl e"
  | (intent) c1 c2 where "case_append C (fa_append f i) row c = (Inr (), c1)" "intent_event (row_event row)"
      "after_intent C f projected purge i rules c1 = (Inr (), c2)" "plan_loop C f projected purge (Suc i) None rows c2 = (r, c')"
proof (cases "completion_event (row_event row) \<and> fa_completion f i")
  case True
  with assms hook show thesis by (auto simp: bind_case_def hook_case_def)
next
  case go: False
  have "bind_case (case_append C (fa_append f i) row c) (\<lambda>c. if intent_event (row_event row)
      then bind_case (after_intent C f projected purge i rules c) (\<lambda>c. plan_loop C f projected purge (Suc i) None rows c)
      else plan_loop C f projected purge (Suc i) rules rows c) = (r, c')"
    using assms unfolding plan_loop.simps hook_case_def if_not_P [OF go] bind_case_simps .
  then show thesis
    by (cases "intent_event (row_event row)") (auto simp: bind_case_eq intro: failed plain stopped intent)
qed

lemma plan_loop_started:
  assumes "plan_loop C f projected purge i rules rows c = (r, c')"
  shows "(ca_started c \<longrightarrow> ca_started c') \<and> (ca_started c' \<or> c' = c)"
  using assms
proof (induction rows arbitrary: i rules c)
  case (Cons row rows)
  have after: "ca_started c2" if "after_intent C f projected purge i rules c1 = (rb, c2)" "ca_started c1" for rb c1 c2
    by (subst after_intent_frame(1) [OF that(1)]) (simp add: that(2))
  from Cons.prems show ?case
  proof (cases rule: plan_loop_cases)
    case (failed e)
    then show ?thesis using case_append_frame [OF failed(1)] by auto
  next
    case (plain c1)
    then show ?thesis using Cons.IH [OF plain(3)] case_append_frame(3) [OF plain(1)] by auto
  next
    case (stopped c1 e)
    then show ?thesis using after [OF stopped(3)] case_append_frame(3) [OF stopped(1)] by auto
  next
    case (intent c1 c2)
    then show ?thesis using Cons.IH [OF intent(4)] after [OF intent(3)] case_append_frame(3) [OF intent(1)] by auto
  qed auto
qed simp

context case_env
begin

lemma loop_effect_stop:
  assumes "durable_rows E (ca_jdisk c') (jn_rows (ca_journal c) @ take k (row # rows))" and "k \<le> 1"
    and "c' = c\<lparr> ca_journal := ca_journal c', ca_jdisk := ca_jdisk c', ca_started := ca_started c' \<rparr>"
  shows "loop_effect E purge rules (row # rows) c (Inl e) c' k"
proof -
  have "ca_rules c' = ca_rules c" "ca_pdisk c' = ca_pdisk c" by (subst assms(3), simp)+
  moreover have "plan_frame c c'" unfolding plan_frame_def by (subst (1 2 3) assms(3)) simp
  ultimately show ?thesis using assms(1,2) by (cases k) (auto simp: loop_effect_def)
qed

lemma loop_effect_step:
  assumes append: "case_append C f row c = (Inr (), c1)" "consistent E (ca_journal c) (ca_jdisk c)"
      "chain_ok E (jn_rows (ca_journal c)) [row]"
    and step: "c2 = c1\<lparr> ca_rules := ca_rules c2, ca_pdisk := ca_pdisk c2 \<rparr>"
      "ca_rules c2 \<noteq> ca_rules c1 \<Longrightarrow> intent_event (row_event row) \<and> rules \<noteq> None"
      "ca_pdisk c2 \<noteq> ca_pdisk c1 \<Longrightarrow> intent_event (row_event row) \<and> purge"
      "\<And>p. intent_event (row_event row) \<Longrightarrow> rules = Some p \<Longrightarrow> rules_committed p c2"
    and rest: "loop_effect E purge rules' rows c2 r c' k" "rules' = (if intent_event (row_event row) then None else rules)"
  shows "loop_effect E purge rules (row # rows) c r c' (Suc k)"
proof -
  note fr = case_append_frame [OF append(1)] and du = case_append_durable(2) [OF append refl]
  have j: "ca_journal c2 = ca_journal c1" "ca_jdisk c2 = ca_jdisk c1" by (subst step(1), simp)+
  have rules: "ca_rules c1 = ca_rules c" "ca_pdisk c1 = ca_pdisk c" by (subst fr(1), simp)+
  note e = rest(1) [unfolded loop_effect_def]
  have "plan_frame c2 c'" using e by blast
  then have "plan_frame c c'"
    using arg_cong [OF step(1), of ca_tickets] arg_cong [OF step(1), of ca_usage] arg_cong [OF step(1), of ca_writes_disabled]
      arg_cong [OF fr(1), of ca_tickets] arg_cong [OF fr(1), of ca_usage] arg_cong [OF fr(1), of ca_writes_disabled]
    by (simp add: plan_frame_def)
  moreover have "rules_committed p c'" if "intent_event (row_event row)" "rules = Some p" for p
    using e step(4) [OF that] that rest(2) by (auto simp: rules_committed_def)
  moreover have "rules_committed p c'" if "rules = Some p" "has_intent_row (take k (row # rows))" for p
    using e calculation(2) that rest(2) by (cases k) (auto split: if_splits)
  ultimately show ?thesis
    unfolding loop_effect_def using e j du rules step(2,3) rest(2) by (auto split: if_splits)
qed

lemma loop_effect_stopped:
  assumes append: "case_append C f row c = (Inr (), c1)" "consistent E (ca_journal c) (ca_jdisk c)"
      "chain_ok E (jn_rows (ca_journal c)) [row]"
    and intent: "intent_event (row_event row)" "after_intent C g projected purge i rules c1 = (Inl e, c2)"
  shows "loop_effect E purge rules (row # rows) c (Inl e) c2 1"
proof -
  note fr = after_intent_frame [OF intent(2)] and ap = case_append_frame(1) [OF append(1)] and du = case_append_durable(2) [OF append refl]
  have j: "ca_journal c2 = ca_journal c1" "ca_jdisk c2 = ca_jdisk c1" by (subst fr(1), simp)+
  have d: "durable_rows E (ca_jdisk c2) (jn_rows (ca_journal c) @ [row])"
    using consistent_durable du j by fastforce
  have k: "ca_rules c1 = ca_rules c" "ca_pdisk c1 = ca_pdisk c" by (subst ap, simp)+
  have "plan_frame c c2"
    unfolding plan_frame_def by (subst (1 2 3) fr(1), subst (1 2 3) ap) simp
  with d k fr(2,3) intent show ?thesis by (cases rules) (auto simp: loop_effect_def)
qed

lemma plan_loop_effect:
  assumes "consistent E (ca_journal c) (ca_jdisk c)" and "chain_ok E (jn_rows (ca_journal c)) rows"
    and "plan_loop C f projected purge i rules rows c = (r, c')"
  shows "\<exists>k. loop_effect E purge rules rows c r c' k"
  using assms
proof (induction rows arbitrary: i rules c)
  case Nil
  then show ?case by (auto simp: loop_effect_def consistent_durable plan_frame_def)
next
  case (Cons row rows)
  have one: "chain_ok E (jn_rows (ca_journal c)) [row]" and more: "chain_ok E (jn_rows (ca_journal c) @ [row]) rows"
    using Cons.prems(2) by simp_all
  note du = case_append_durable [OF _ Cons.prems(1) one]
  from Cons.prems(3) show ?case
  proof (cases rule: plan_loop_cases)
    case hook
    with loop_effect_stop [of c c 0] consistent_durable [OF Cons.prems(1)] show ?thesis by (intro exI [of _ 0]) simp
  next
    case (failed e)
    note stop = loop_effect_stop [OF _ _ case_append_frame(1) [OF failed(1)]]
    from du(1) [OF failed(1)] failed(2) show ?thesis using stop [of 0] stop [of 1] by fastforce
  next
    case (plain c1)
    with du(2) [OF plain(1) refl] more obtain k where "loop_effect E purge rules rows c1 r c' k" using Cons.IH by metis
    from loop_effect_step [OF plain(1) Cons.prems(1) one _ _ _ _ this] plain(2) show ?thesis by auto
  next
    case (stopped c1 e)
    with loop_effect_stopped [OF stopped(1) Cons.prems(1) one stopped(2,3)] show ?thesis by blast
  next
    case (intent c1 c2)
    note fr = after_intent_frame [OF intent(3)]
    have "ca_journal c2 = ca_journal c1" "ca_jdisk c2 = ca_jdisk c1" by (subst fr(1), simp)+
    with intent(4) du(2) [OF intent(1) refl] more obtain k where k: "loop_effect E purge None rows c2 r c' k"
      using Cons.IH by metis
    from loop_effect_step [OF intent(1) Cons.prems(1) one fr(1) _ _ _ k, of rules] fr(2-4) intent(2) show ?thesis
      by (cases rules) auto
  qed
qed

lemma prepared_chain:
  assumes "consistent E j d" and "prepare_rows E j rs = Inr rows"
  shows "chain_ok E (jn_rows j) rows"
proof -
  have c: "chain_ok E [] (jn_rows j)" and h: "jn_head j = head_of_rows (jn_rows j) (length (jd_events d))"
    using assms(1) by (simp_all add: consistent_def)
  have "hd_sequence (jn_head j) = length (jn_rows j)" "hd_hash (jn_head j) = chain_hash (jn_rows j)"
    "last_at j = prior_at (jn_rows j)"
    using chain_ok_sequences [OF c] h by (auto simp: head_of_rows_def chain_hash_def last_at_def prior_at_def)
  with journal_env.prepare_loop_chain [OF journal, of "jn_rows j" rs rows] assms(2) show ?thesis
    by (simp add: prepare_rows_def)
qed

end

lemma prepare_loop_same:
  "prepare_loop E n h a rs = Inr rows \<Longrightarrow>
     map row_event rows = map row_event rs \<and> map row_ticket_id rows = map row_ticket_id rs"
  by (induction rs arbitrary: n h a rows) (fastforce simp: res_simps Let_def)+

lemma plan_rows_ok_prepared:
  assumes "prepare_rows E j rs = Inr rows" and "plan_rows_ok c rs"
  shows "plan_rows_ok c rows"
  using assms prepare_loop_same [of E _ _ _ rs rows]
  by (cases rows; cases rs) (auto simp: prepare_rows_def plan_rows_ok_def)

lemma length_btree_insert:
  assumes "btree_ok es"
  shows "length (btree_insert k v es) = (if map_of es k = None then Suc (length es) else length es)"
proof -
  have "dom (map_of (btree_insert k v es)) = insert k (dom (map_of es))" using assms by simp
  then show ?thesis
    using assms btree_length [of "btree_insert k v es"] btree_length [OF assms]
    by (auto simp: card_insert_if finite_dom_map_of insert_absorb)
qed

lemma reserve_footprint_Inr:
  "reserve_footprint C c fp = Inr () \<Longrightarrow>
     length (ca_tickets c) + fp_new_tickets fp \<le> min u64_max (cf_max_tickets (cn_settings C))
     \<and> fp_events fp \<le> min u64_max (cf_max_ticket_events (cn_settings C))"
  by (auto simp: reserve_footprint_def Let_def res_simps)

lemma reserved_within:
  assumes "project_and_measure C c rows n reserved = Inr (t, fp)" and "reserve_footprint C c fp = Inr ()"
    and "projections_ok (ca_tickets c)" and "projections_within (cn_settings C) (ca_tickets c)"
  shows "projections_within (cn_settings C) (btree_insert (tk_id t) t (ca_tickets c))"
proof -
  note fp = reserve_footprint_Inr [OF assms(2)]
  have "length (btree_insert (tk_id t) t (ca_tickets c)) \<le> length (ca_tickets c) + fp_new_tickets fp \<and> fp_events fp = tk_events t"
    using assms(1)
  proof (cases rule: project_cases)
    case (receipt first "rest" t0)
    then show ?thesis using assms(3) by (simp add: length_btree_insert projections_btree)
  next
    case (existing tid t0)
    have "tk_id t = tid" using rebuild_applied [OF assms(3) existing(4,5)] by simp
    with existing show ?thesis using assms(3) by (simp add: length_btree_insert projections_btree)
  qed
  with fp assms(4) set_btree_insert [of "tk_id t" t "ca_tickets c"] show ?thesis
    by (fastforce simp: projections_within_def)
qed

section \<open>The invariant\<close>

text \<open>
  A case in service: memory and disk agree on the journal, the projections are the ones the journal rebuilds to
  within the configured capacity, and the revision directories are in order.
\<close>

definition case_ok :: "cenv \<Rightarrow> case_state \<Rightarrow> bool" where
  "case_ok C c \<longleftrightarrow> consistent (cn_journal C) (ca_journal c) (ca_jdisk c)
     \<and> rebuild_tickets C (jn_rows (ca_journal c)) = Inr (ca_tickets c) \<and> pdisk_ok (ca_pdisk c)"

lemma case_ok_projections:
  assumes "case_ok C c"
  shows "projections_ok (ca_tickets c)" "projections_within (cn_settings C) (ca_tickets c)"
  using assms rebuild_fold_ok by (auto simp: case_ok_def rebuild_tickets_Inr)

lemma case_write_cases:
  assumes "case_write_payload C f payload c = (r, c')"
  shows "c' = c\<lparr> ca_pdisk := ca_pdisk c', ca_started := ca_started c' \<rparr>"
    "(ca_started c \<longrightarrow> ca_started c') \<and> (ca_started c' \<or> c' = c)"
    "pdisk_ok (ca_pdisk c) \<Longrightarrow> pdisk_ok (ca_pdisk c')
      \<and> (\<forall>t n b. payload_file (ca_pdisk c) t n = Some b \<longrightarrow> payload_file (ca_pdisk c') t n = Some b)"
    "pdisk_ok (ca_pdisk c) \<Longrightarrow> r = Inr () \<Longrightarrow> payload = Some p \<Longrightarrow>
      payload_file (ca_pdisk c') (pp_ticket p) (pp_sequence p) = Some (pp_bytes p)"
proof -
  have "c' = c\<lparr> ca_pdisk := ca_pdisk c', ca_started := ca_started c' \<rparr>
    \<and> (ca_started c \<longrightarrow> ca_started c') \<and> (ca_started c' \<or> c' = c)
    \<and> (pdisk_ok (ca_pdisk c) \<longrightarrow> pdisk_ok (ca_pdisk c')
        \<and> (\<forall>t n b. payload_file (ca_pdisk c) t n = Some b \<longrightarrow> payload_file (ca_pdisk c') t n = Some b)
        \<and> (r = Inr () \<longrightarrow> payload = Some p \<longrightarrow> payload_file (ca_pdisk c') (pp_ticket p) (pp_sequence p) = Some (pp_bytes p)))"
  proof (cases payload)
    case None
    with assms show ?thesis by (auto simp: case_write_payload_def)
  next
    case (Some q)
    obtain started d where w: "write_payload (cn_payload C) f (ca_pdisk c) q = (r, started, d)"
      and c': "c' = c\<lparr> ca_pdisk := d, ca_started := ca_started c \<or> started \<rparr>"
      using assms Some by (auto simp: case_write_payload_def split: prod.splits)
    have same: "ca_started c' \<or> c' = c"
      using write_payload_disk(1) [OF w] c' by (cases c) auto
    have "pdisk_ok (ca_pdisk c) \<longrightarrow> pdisk_ok d
        \<and> (\<forall>t n b. payload_file (ca_pdisk c) t n = Some b \<longrightarrow> payload_file d t n = Some b)
        \<and> (r = Inr () \<longrightarrow> payload_file d (pp_ticket q) (pp_sequence q) = Some (pp_bytes q))"
      using write_payload_disk(1) [OF w] write_payload_disk(2) [OF w] by (auto simp: put_payload_ok payload_file_put)
    with same c' Some show ?thesis by auto
  qed
  then show "c' = c\<lparr> ca_pdisk := ca_pdisk c', ca_started := ca_started c' \<rparr>"
    "(ca_started c \<longrightarrow> ca_started c') \<and> (ca_started c' \<or> c' = c)"
    "pdisk_ok (ca_pdisk c) \<Longrightarrow> pdisk_ok (ca_pdisk c')
      \<and> (\<forall>t n b. payload_file (ca_pdisk c) t n = Some b \<longrightarrow> payload_file (ca_pdisk c') t n = Some b)"
    "pdisk_ok (ca_pdisk c) \<Longrightarrow> r = Inr () \<Longrightarrow> payload = Some p \<Longrightarrow>
      payload_file (ca_pdisk c') (pp_ticket p) (pp_sequence p) = Some (pp_bytes p)"
    by blast+
qed

end
