(* ===== verification/Case_Store.thy ===== *)
theory Case_Store
  imports Case_Plan
begin

text \<open>
  The case owner in service: the effect of a whole plan, the invariant every operation keeps, what a failed
  operation leaves, and what a restart finds after any of them.
\<close>

section \<open>The effect of a plan\<close>

lemma execute_plan_cases:
  assumes "execute_plan C f plan c = (r, c')"
  obtains (refused) e where "r = Inl e" "c' = c"
  | (unwritten) e where "case_write_payload C (fa_payload f) (pl_payload plan) c = (Inl e, c')" "r = Inl e"
  | (run) rows projected fp c1 rl c2 where "prepare_rows (cn_journal C) (ca_journal c) (pl_rows plan) = Inr rows"
      "project_and_measure C c rows (payload_length (pl_payload plan)) (pl_reserved plan) = Inr (projected, fp)"
      "reserve_footprint C c fp = Inr ()" "case_write_payload C (fa_payload f) (pl_payload plan) c = (Inr (), c1)"
      "plan_loop C f projected (pl_purge plan) 0 (pl_rules plan) rows c1 = (rl, c2)"
      "r = rl" "c' = (if rl = Inr () then publish_ticket plan projected c2 else c2)"
proof (cases "res_bind (prepare_rows (cn_journal C) (ca_journal c) (pl_rows plan)) (\<lambda>rows.
     res_bind (case_reserve C c rows (payload_length (pl_payload plan)) (pl_reserved plan)) (\<lambda>projected. Inr (rows, projected)))")
  case (Inl e)
  with assms refused show thesis by (auto simp: execute_plan_def)
next
  case (Inr p)
  obtain rows projected where p: "p = (rows, projected)" by force
  with Inr obtain fp where fp: "prepare_rows (cn_journal C) (ca_journal c) (pl_rows plan) = Inr rows"
      "project_and_measure C c rows (payload_length (pl_payload plan)) (pl_reserved plan) = Inr (projected, fp)"
      "reserve_footprint C c fp = Inr ()"
    by (auto simp: res_simps case_reserve_def split: prod.splits)
  obtain rw c1 where w: "case_write_payload C (fa_payload f) (pl_payload plan) c = (rw, c1)" by force
  obtain rl c2 where l: "plan_loop C f projected (pl_purge plan) 0 (pl_rules plan) rows c1 = (rl, c2)" by force
  have x: "execute_plan C f plan c = bind_case (rw, c1) (\<lambda>c. bind_case (plan_loop C f projected (pl_purge plan) 0 (pl_rules plan) rows c)
      (\<lambda>c. (Inr (), publish_ticket plan projected c)))"
    using Inr p w by (simp add: execute_plan_def)
  show thesis
  proof (cases rw)
    case (Inl e)
    with x assms w unwritten show thesis by auto
  next
    case (Inr u)
    with x assms l have "r = rl \<and> c' = (if rl = Inr () then publish_ticket plan projected c2 else c2)" by (cases rl) auto
    with run [OF fp _ l] w Inr show thesis by simp
  qed
qed

text \<open>
  The effect of a plan, whatever fails in it. \<open>rows\<close> are the chained rows of the plan and \<open>k\<close> of them are durable.
\<close>

definition plan_effect :: "cenv \<Rightarrow> plan \<Rightarrow> case_state \<Rightarrow> unit outcome \<Rightarrow> case_state \<Rightarrow> journal_row list \<Rightarrow> nat \<Rightarrow> bool" where
  "plan_effect C plan c r c' rows k \<longleftrightarrow>
     k \<le> length rows \<and> durable_rows (cn_journal C) (ca_jdisk c') (jn_rows (ca_journal c) @ take k rows)
     \<and> (\<exists>tickets. rebuild_tickets C (jn_rows (ca_journal c) @ take k rows) = Inr tickets)
     \<and> (r = Inr () \<longrightarrow> k = length rows \<and> case_ok C c' \<and> jn_rows (ca_journal c') = jn_rows (ca_journal c) @ rows
          \<and> (\<forall>p. pl_rules plan = Some p \<longrightarrow> has_intent_row rows \<longrightarrow> rules_committed p c'))
     \<and> (0 < k \<longrightarrow> prepare_rows (cn_journal C) (ca_journal c) (pl_rows plan) = Inr rows)
     \<and> (\<forall>p. 0 < k \<longrightarrow> \<not> pl_purge plan \<longrightarrow> pl_payload plan = Some p \<longrightarrow>
          payload_file (ca_pdisk c') (pp_ticket p) (pp_sequence p) = Some (pp_bytes p))
     \<and> (ca_rules c' \<noteq> ca_rules c \<longrightarrow> has_intent_row (take k rows))
     \<and> (\<forall>p. pl_rules plan = Some p \<longrightarrow> has_intent_row (take (k - 1) rows) \<longrightarrow> rules_committed p c')
     \<and> (ca_started c' \<or> c' = c) \<and> pdisk_ok (ca_pdisk c')"

lemma publish_ticket_fields [simp]:
  "ca_journal (publish_ticket plan t c) = ca_journal c" "ca_jdisk (publish_ticket plan t c) = ca_jdisk c"
  "ca_pdisk (publish_ticket plan t c) = ca_pdisk c" "ca_rules (publish_ticket plan t c) = ca_rules c"
  "ca_started (publish_ticket plan t c) = ca_started c" "ca_writes_disabled (publish_ticket plan t c) = ca_writes_disabled c"
  "ca_tickets (publish_ticket plan t c) = btree_insert (tk_id t) t (ca_tickets c)"
  by (simp_all add: publish_ticket_def Let_def)

lemma purge_payloads_ok:
  "purge_payloads P fault d t refs = (r, d') \<Longrightarrow> pdisk_ok d \<Longrightarrow> pdisk_ok d'"
proof (induction P fault d t refs rule: purge_payloads.induct)
  case (2 P fault d t n e refs)
  then show ?case
    by (auto simp: delete_payload_ok Let_def split: sum.splits option.splits prod.splits nat.splits if_splits)
qed simp

lemma plan_loop_pdisk:
  "plan_loop C f projected purge i rules rows c = (r, c') \<Longrightarrow> pdisk_ok (ca_pdisk c) \<Longrightarrow> pdisk_ok (ca_pdisk c')"
proof (induction rows arbitrary: i rules c)
  case (Cons row rows)
  have append: "ca_pdisk c1 = ca_pdisk c" if "case_append C (fa_append f i) row c = (ra, c1)" for ra c1
    by (subst case_append_frame(1) [OF that]) simp
  have after: "pdisk_ok (ca_pdisk c2)" if "after_intent C f projected purge i rules c1 = (rb, c2)" "pdisk_ok (ca_pdisk c1)" for rb c1 c2
    using that(1)
  proof (cases rule: after_intent_cases)
    case (commit e)
    have "ca_pdisk c2 = ca_pdisk c1" by (subst case_commit_frame(1) [OF commit(1)]) simp
    with that(2) show ?thesis by simp
  next
    case (purge c3 r2)
    have "ca_pdisk c3 = ca_pdisk c1" by (subst case_commit_frame(1) [OF purge(1)]) simp
    with purge(2) that(2) purge_payloads_ok show ?thesis
      by (auto simp: case_purge_files_def split: if_splits prod.splits)
  qed (use that(2) in simp)
  from Cons.prems(1) show ?case
  proof (cases rule: plan_loop_cases)
    case (intent c1 c2)
    with Cons.IH [OF intent(4)] after [OF intent(3)] append Cons.prems(2) show ?thesis by simp
  qed (use Cons append after in fastforce)+
qed simp

context case_env
begin

lemma execute_plan_effect:
  assumes "case_ok C c" and "plan_rows_ok c (pl_rows plan)" and "execute_plan C f plan c = (r, c')"
  shows "\<exists>rows k. plan_effect C plan c r c' rows k"
  using assms(3)
proof (cases rule: execute_plan_cases)
  case (refused e)
  then show ?thesis
    using assms(1) consistent_durable by (intro exI [of _ "[]"] exI [of _ 0]) (auto simp: plan_effect_def case_ok_def)
next
  case (unwritten e)
  note w = case_write_cases [OF unwritten(1)]
  have "ca_jdisk c' = ca_jdisk c" "ca_rules c' = ca_rules c" by (subst w(1), simp)+
  then show ?thesis
    using assms(1) unwritten(2) w(2,3) consistent_durable
    by (intro exI [of _ "[]"] exI [of _ 0]) (auto simp: plan_effect_def case_ok_def)
next
  case (run rows projected fp c1 rl c2)
  note w = case_write_cases [OF run(4)] and ok = case_ok_projections [OF assms(1)]
  have same: "ca_jdisk c1 = ca_jdisk c" "ca_rules c1 = ca_rules c" "ca_journal c1 = ca_journal c" "ca_tickets c1 = ca_tickets c"
    by (subst w(1), simp)+
  have cons: "consistent E (ca_journal c) (ca_jdisk c)" and pd: "pdisk_ok (ca_pdisk c)"
    and rb: "rebuild_tickets C (jn_rows (ca_journal c)) = Inr (ca_tickets c)" using assms(1) by (simp_all add: case_ok_def)
  obtain k where k: "loop_effect E (pl_purge plan) (pl_rules plan) rows c1 rl c2 k"
    using plan_loop_effect [OF _ _ run(5)] same cons prepared_chain [OF cons run(1)] by auto
  note all = rebuild_plan [OF run(2) ok(1) plan_rows_ok_prepared [OF run(1) assms(2)]]
  have full: "rebuild_tickets C (jn_rows (ca_journal c) @ rows) = Inr (btree_insert (tk_id projected) projected (ca_tickets c))"
    using rb all reserved_within [OF run(2,3) ok] by (simp add: rebuild_tickets_Inr res_fold_append)
  then have prefix: "\<exists>tickets. rebuild_tickets C (jn_rows (ca_journal c) @ take k rows) = Inr tickets"
    using rebuild_prefix [of C "jn_rows (ca_journal c) @ take k rows" "drop k rows"] by simp
  have started: "ca_started c2 \<or> c2 = c1" "ca_started c1 \<longrightarrow> ca_started c2" using plan_loop_started [OF run(5)] by auto
  have done': "rl = Inr () \<longrightarrow> case_ok C c'"
    using k same full run(6,7) plan_loop_pdisk [OF run(5)] w(3) [OF pd]
    by (auto simp: loop_effect_def plan_frame_def case_ok_def)
  have pd': "pdisk_ok (ca_pdisk c')"
    using plan_loop_pdisk [OF run(5)] w(3) [OF pd] run(6,7) by auto
  have "rows \<noteq> []" using run(2) by (auto simp: project_and_measure_def)
  then have begun: "ca_started c' \<or> c' = c"
    using started w(2) k run(7) by (auto simp: loop_effect_def)
  have kept: "payload_file (ca_pdisk c') (pp_ticket p) (pp_sequence p) = Some (pp_bytes p)"
    if "\<not> pl_purge plan" "pl_payload plan = Some p" for p
    using w(4) [OF pd refl that(2)] k that(1) run(7) by (auto simp: loop_effect_def)
  have "rules_committed p c' = rules_committed p c2" "ca_rules c' = ca_rules c2" "ca_jdisk c' = ca_jdisk c2"
    "ca_journal c' = ca_journal c2" for p using run(7) by (auto simp: rules_committed_def)
  with k done' prefix begun kept same pd' run(1,6) show ?thesis
    by (intro exI [of _ rows] exI [of _ k]) (auto simp: loop_effect_def plan_effect_def)
qed

end

section \<open>Operations keep the invariant\<close>

lemma ticket_id_parse_as_str: "ticket_id_parse (ticket_id_as_str tid) = Inr x \<Longrightarrow> x = tid"
  using ticket_id_parse_str [of "ticket_id_as_str tid" x] by (cases x; cases tid) (auto simp: ticket_id_as_str_def)

lemma finish_plan_Inr:
  assumes "finish_plan C c dp (tid, salt, names) = Inr plan"
  shows "map row_event (pl_rows plan) = map row_event (dp_rows dp)" "\<forall>row \<in> set (pl_rows plan). row_ticket_id row = ticket_id_as_str tid"
    "\<not> pl_purge plan"
    "\<exists>p. pl_payload plan = Some p
       \<and> prepare_with_salt (cn_payload C) tid (dp_payload_sequence dp) (with_salts names (dp_content dp)) salt = Inr p
       \<and> plan_rules C c (pl_rows plan) (dp_intake dp) (pp_content p) = Inr (pl_rules plan)"
  using assms by (auto simp: finish_plan_def res_bind_Inr Let_def reference_def)

lemma materialize_plan_Inr:
  assumes "materialize_plan C c D dp = Inr plan"
  obtains tid salt names where "finish_plan C c dp (tid, salt, names) = Inr plan"
    "dp_new_ticket dp \<Longrightarrow> map_of (ca_tickets c) tid = None"
    "\<not> dp_new_ticket dp \<Longrightarrow> dp_rows dp \<noteq> [] \<and> ticket_id_parse (row_ticket_id (hd (dp_rows dp))) = Inr tid"
    "ticket_id_parse (ticket_id_as_str tid) = Inr tid"
proof -
  obtain tid salt names where m: "draw_material c D dp = Inr (tid, salt, names)" "finish_plan C c dp (tid, salt, names) = Inr plan"
    using assms by (auto simp: materialize_plan_def res_then_Inr res_bind_Inr)
  have "dp_new_ticket dp \<Longrightarrow> map_of (ca_tickets c) tid = None \<and> ticket_id_parse (ticket_id_as_str tid) = Inr tid"
    using m(1) by (auto simp: draw_material_def res_bind_Inr ticket_id_generate_def res_then_Inr split: if_splits
        dest: ticket_id_parse_str)
  moreover have "\<not> dp_new_ticket dp \<Longrightarrow> dp_rows dp \<noteq> [] \<and> ticket_id_parse (row_ticket_id (hd (dp_rows dp))) = Inr tid"
    using m(1) by (cases "dp_rows dp") (auto simp: draw_material_def res_bind_Inr)
  ultimately show thesis using that m(2) ticket_id_parse_str by (cases "dp_new_ticket dp") blast+
qed

lemma materialized_rows_ok:
  assumes "materialize_plan C c D dp = Inr plan" and "dp_new_ticket dp \<or> row_event (hd (dp_rows dp)) \<noteq> EvReceived"
  shows "plan_rows_ok c (pl_rows plan)"
proof (cases "pl_rows plan")
  case (Cons first more)
  obtain tid salt names where m: "finish_plan C c dp (tid, salt, names) = Inr plan"
    "dp_new_ticket dp \<Longrightarrow> map_of (ca_tickets c) tid = None"
    by (rule materialize_plan_Inr [OF assms(1)]) blast
  from finish_plan_Inr(1,2) [OF m(1)] Cons have "row_event first = row_event (hd (dp_rows dp))" "row_ticket_id first = ticket_id_as_str tid"
    by (auto simp: neq_Nil_conv map_eq_Cons_conv)
  with Cons assms(2) m(2) show ?thesis by (auto simp: plan_rows_ok_def dest: ticket_id_parse_as_str)
qed (simp add: plan_rows_ok_def)

text \<open>
  What an operation on the case may do: succeed in a case that is in service, change nothing before its first
  durable write, and whatever happens leave a journal that extends the old one and rebuilds.
\<close>

definition recoverable :: "cenv \<Rightarrow> journal_row list \<Rightarrow> case_state \<Rightarrow> bool" where
  "recoverable C old c \<longleftrightarrow>
     pdisk_ok (ca_pdisk c)
     \<and> (\<exists>new tickets. durable_rows (cn_journal C) (ca_jdisk c) (old @ new) \<and> rebuild_tickets C (old @ new) = Inr tickets)"

definition case_keeps :: "cenv \<Rightarrow> case_state \<Rightarrow> 'a outcome \<Rightarrow> case_state \<Rightarrow> bool" where
  "case_keeps C c r c' \<longleftrightarrow> (is_ok r \<longrightarrow> case_ok C c') \<and> (ca_started c' \<or> c' = c) \<and> recoverable C (jn_rows (ca_journal c)) c'
     \<and> (is_ok r \<longrightarrow> (\<exists>new. jn_rows (ca_journal c') = jn_rows (ca_journal c) @ new))"

lemma admission_plan_Inr:
  assumes "admission_plan C D i received_at now c = Inr (plan, tid)"
  obtains payload rows where "prepare_with_salt (cn_payload C) zero_id 1 (PeIntake i) (Hex64 zero_hash) = Inr payload"
    "admission_rows C c i received_at now payload = Inr rows"
    "materialize_plan C c D \<lparr> dp_rows = rows, dp_content = PeIntake i, dp_intake = i, dp_payload_sequence = 1,
       dp_payload_bytes = length (pp_bytes payload), dp_new_ticket = True \<rparr> = Inr plan"
    "pl_rows plan \<noteq> []" "ticket_id_parse (row_ticket_id (hd (pl_rows plan))) = Inr tid"
  using assms by (auto simp: admission_plan_def res_bind_Inr split: list.splits)

lemma case_admit_cases:
  assumes "case_admit C f D i received_at now c = (r, c')"
  obtains (refused) e where "r = Inl e" "c' = c"
  | (failed) plan tid e where "admission_plan C D i received_at now c = Inr (plan, tid)" "execute_plan C f plan c = (Inl e, c')" "r = Inl e"
  | (admitted) plan tid where "admission_plan C D i received_at now c = Inr (plan, tid)" "execute_plan C f plan c = (Inr (), c')"
      "r = case_ticket c' tid"
proof (cases "ca_writes_disabled c")
  case True
  with assms refused show thesis by (auto simp: case_admit_def)
next
  case False
  show thesis
  proof (cases "admission_plan C D i received_at now c")
    case (Inl e)
    with assms False refused show thesis by (auto simp: case_admit_def)
  next
    case (Inr p)
    obtain plan tid q c1 where p: "p = (plan, tid)" and q: "execute_plan C f plan c = (q, c1)" by (metis surj_pair)
    with assms False Inr failed admitted show thesis by (cases q) (auto simp: case_admit_def)
  qed
qed

lemma event_row_event: "event_row t e now actor = Inr row \<Longrightarrow> row_event row = e"
  by (auto simp: event_row_def res_bind_Inr empty_row_def)

lemma prepare_personal_event: "prepare_personal c t i content row = Inr (n, content', row') \<Longrightarrow> row_event row' = row_event row"
  by (auto simp: prepare_personal_def res_simps reversal_fields_def Let_def split: payload_event.splits option.splits decision.splits if_splits)

lemma prepare_action_rows: "prepare_action C c t i content row = Inr rows \<Longrightarrow> rows \<noteq> [] \<and> hd rows = row"
  by (auto simp: prepare_action_def Let_def res_simps split: if_splits)

lemma administration_draft_rows:
  assumes "administration_draft C c tid actor command now = Inr (dp, n)"
  shows "\<not> dp_new_ticket dp" "row_event (hd (dp_rows dp)) \<noteq> EvReceived"
proof -
  obtain t i row notice content row1 payload rows where *: "event_row t (personal_event_name command) now actor = Inr row"
      "prepare_personal c t i (administration_personal command (cn_settings C)) row = Inr (notice, content, row1)"
      "prepare_action C c t i (pp_content payload) (reference payload row1) = Inr rows" "dp_rows dp = rows" "\<not> dp_new_ticket dp"
    using assms unfolding administration_draft_def by (auto simp: res_bind_Inr res_then_Inr Let_def split: if_splits)
  then show "\<not> dp_new_ticket dp" by simp
  have "row_event (hd rows) = personal_event_name command"
    using event_row_event [OF *(1)] prepare_personal_event [OF *(2)] prepare_action_rows [OF *(3)] by (simp add: reference_def)
  moreover have "personal_event_name command \<noteq> EvReceived"
    by (cases command rule: personal_event_name.cases; cases "case command of AeIdentity e _ \<Rightarrow> e | _ \<Rightarrow> IeRequestIdentity") auto
  ultimately show "row_event (hd (dp_rows dp)) \<noteq> EvReceived" using * by simp
qed

lemma case_administer_cases:
  assumes "case_administer C f D tid actor command now c = (r, c')"
  obtains (refused) e where "r = Inl e" "c' = c"
  | (failed) plan notice e where "administration_plan C D tid actor command now c = Inr (plan, notice)"
      "execute_plan C f plan c = (Inl e, c')" "r = Inl e"
  | (completed) plan notice where "administration_plan C D tid actor command now c = Inr (plan, notice)"
      "execute_plan C f plan c = (Inr (), c')" "r = res_bind (case_ticket c' tid) (\<lambda>t. Inr (t, notice))"
proof (cases "ca_writes_disabled c")
  case True
  with assms refused show thesis by (auto simp: case_administer_def)
next
  case False
  show thesis
  proof (cases "administration_plan C D tid actor command now c")
    case (Inl e)
    with assms False refused show thesis by (auto simp: case_administer_def)
  next
    case (Inr p)
    obtain plan notice q c1 where p: "p = (plan, notice)" and q: "execute_plan C f plan c = (q, c1)" by (metis surj_pair)
    with assms False Inr failed completed show thesis by (cases q) (auto simp: case_administer_def)
  qed
qed

lemma case_purge_cases:
  assumes "case_purge C f tid actor now c = (r, c')"
  obtains (refused) e where "r = Inl e" "c' = c"
  | (already) t where "r = Inr (t, None)" "tk_purged t" "map_of (ca_tickets c) tid = Some t" "c' = c"
  | (failed) t plan e where "map_of (ca_tickets c) tid = Some t" "purge_plan C c t actor now = Inr plan"
      "execute_plan C f plan c = (Inl e, c')" "r = Inl e"
  | (purged) t plan where "map_of (ca_tickets c) tid = Some t" "purge_plan C c t actor now = Inr plan"
      "execute_plan C f plan c = (Inr (), c')" "r = res_bind (case_ticket c' tid) (\<lambda>t. Inr (t, None))"
proof (cases "ca_writes_disabled c \<or> map_of (ca_tickets c) tid = None")
  case True
  with assms refused show thesis by (auto simp: case_purge_def case_ticket_def split: if_splits)
next
  case False
  then obtain t where t: "map_of (ca_tickets c) tid = Some t" by blast
  show thesis
  proof (cases "tk_purged t")
    case True
    with assms False t already show thesis by (auto simp: case_purge_def case_ticket_def)
  next
    case live: False
    show thesis
    proof (cases "purge_plan C c t actor now")
      case (Inl e)
      with assms False t live refused show thesis by (auto simp: case_purge_def case_ticket_def)
    next
      case (Inr plan)
      obtain q c1 where q: "execute_plan C f plan c = (q, c1)" by force
      with assms False t live Inr failed [OF t Inr] purged [OF t Inr] show thesis
        by (cases q) (auto simp: case_purge_def case_ticket_def [of c])
    qed
  qed
qed

lemma purge_plan_rows:
  assumes "purge_plan C c t actor now = Inr plan"
  shows "plan_rows_ok c (pl_rows plan)"
  using assms by (auto simp: purge_plan_def res_simps Let_def plan_rows_ok_def dest!: event_row_event split: if_splits)

context case_env
begin

lemma recoverable_self: "case_ok C c \<Longrightarrow> recoverable C (jn_rows (ca_journal c)) c"
  unfolding recoverable_def case_ok_def by (intro conjI exI [of _ "[]"] exI [of _ "ca_tickets c"]) (auto intro: consistent_durable)

lemma case_keeps_self: "case_ok C c \<Longrightarrow> case_keeps C c r c"
  by (simp add: case_keeps_def recoverable_self)

lemma execute_keeps:
  assumes "case_ok C c" and "plan_rows_ok c (pl_rows plan)" and "execute_plan C f plan c = (r, c')" and "is_ok q \<longrightarrow> r = Inr ()"
  shows "case_keeps C c q c'"
  using execute_plan_effect [OF assms(1-3)] assms(4) by (auto simp: plan_effect_def case_keeps_def recoverable_def)

text \<open>Every operation either does nothing or executes one plan, and then its result is that of the plan or an error.\<close>

lemma operation_keeps:
  assumes "case_ok C c"
    and "c' = c \<or> (\<exists>plan f q. plan_rows_ok c (pl_rows plan) \<and> execute_plan C f plan c = (q, c') \<and> (is_ok r \<longrightarrow> q = Inr ()))"
  shows "case_keeps C c r c'"
  using assms execute_keeps case_keeps_self by blast

lemma case_admit_keeps:
  assumes "case_ok C c" and "case_admit C f D i received_at now c = (r, c')"
  shows "case_keeps C c r c'"
proof -
  have rows: "plan_rows_ok c (pl_rows plan)" if "admission_plan C D i received_at now c = Inr (plan, tid)" for plan tid
    using that by (rule admission_plan_Inr) (auto intro: materialized_rows_ok)
  from assms(2) show ?thesis
    by (cases rule: case_admit_cases) (use rows in \<open>intro operation_keeps [OF assms(1)], fastforce\<close>)+
qed

lemma case_administer_keeps:
  assumes "case_ok C c" and "case_administer C f D tid actor command now c = (r, c')"
  shows "case_keeps C c r c'"
proof -
  have rows: "plan_rows_ok c (pl_rows plan)" if "administration_plan C D tid actor command now c = Inr (plan, n)" for plan n
    using that administration_draft_rows materialized_rows_ok by (fastforce simp: administration_plan_def res_bind_Inr)
  from assms(2) show ?thesis
    by (cases rule: case_administer_cases) (use rows in \<open>intro operation_keeps [OF assms(1)], fastforce\<close>)+
qed

lemma case_purge_keeps:
  assumes "case_ok C c" and "case_purge C f tid actor now c = (r, c')"
  shows "case_keeps C c r c'"
  using assms(2)
  by (cases rule: case_purge_cases) (use purge_plan_rows in \<open>intro operation_keeps [OF assms(1)], fastforce\<close>)+

end

section \<open>Runs of the store\<close>

text \<open>The calls of the store, each with its draws, clock readings and failing steps; a run is a list of them with its times.\<close>

datatype case_call =
    CallAdmit plan_faults draws intake int int
  | CallAdminister plan_faults draws ticket_id string administration_event int
  | CallPurge plan_faults ticket_id string int
  | CallRead ticket_id string

definition at_time :: "cenv \<Rightarrow> int \<Rightarrow> cenv" where
  "at_time C n = C\<lparr> cn_journal := (cn_journal C)\<lparr> je_now := n \<rparr> \<rparr>"

definition answered :: "'a outcome \<times> case_store \<Rightarrow> bool \<times> case_store" where
  "answered p = (is_ok (fst p), snd p)"

fun store_call :: "cenv \<Rightarrow> case_call \<Rightarrow> case_store \<Rightarrow> bool \<times> case_store" where
  "store_call C (CallAdmit f D i received_at now) s = answered (store_admit C f D i received_at now s)"
| "store_call C (CallAdminister f D tid actor command now) s = answered (store_administer C f D tid actor command now s)"
| "store_call C (CallPurge f tid actor now) s = answered (store_purge C f tid actor now s)"
| "store_call C (CallRead tid actor) s = answered (store_read C tid actor s)"

definition store_ok :: "cenv \<Rightarrow> journal_row list \<Rightarrow> case_store \<Rightarrow> bool" where
  "store_ok C old s \<longleftrightarrow>
     (\<exists>c. so_case s = Some c \<and> recoverable C old c
       \<and> (so_unavailable s \<or> case_ok C c \<and> (\<exists>new. jn_rows (ca_journal c) = old @ new)))"

lemma recoverable_extend: "recoverable C (old @ new) c \<Longrightarrow> recoverable C old c"
  by (auto simp: recoverable_def)

lemma case_started_reset:
  assumes "case_ok C c"
  shows "case_ok C (c\<lparr> ca_started := b \<rparr>)"
  using assms by (simp add: case_ok_def)

context case_env
begin

lemma execute_case_ok:
  assumes "store_ok C old s" and "\<And>c r c'. case_ok C c \<Longrightarrow> run c = (r, c') \<Longrightarrow> case_keeps C c r c'"
  shows "store_ok C old (snd (execute_case run s))"
proof -
  obtain c where c: "so_case s = Some c" "so_unavailable s \<or> case_ok C c \<and> (\<exists>new. jn_rows (ca_journal c) = old @ new)"
    using assms(1) by (auto simp: store_ok_def)
  show ?thesis
  proof (cases "so_unavailable s")
    case True
    then show ?thesis using assms(1) by (simp add: execute_case_def)
  next
    case False
    obtain r c' where r: "run (c\<lparr> ca_started := False \<rparr>) = (r, c')" by force
    have "case_ok C (c\<lparr> ca_started := False \<rparr>)" using c(2) False case_started_reset by blast
    note k = assms(2) [OF this r] and ok = this
    obtain new where new: "jn_rows (ca_journal c) = old @ new" using c(2) False by blast
    have "recoverable C old c'" using k new recoverable_extend [of C old new c'] by (simp add: case_keeps_def)
    moreover have "\<not> (\<not> is_ok r \<and> ca_started c') \<Longrightarrow> case_ok C c' \<and> (\<exists>more. jn_rows (ca_journal c') = old @ more)"
      using k ok new by (auto simp: case_keeps_def)
    ultimately show ?thesis using False c(1) r by (auto simp: execute_case_def store_ok_def)
  qed
qed

lemma store_call_ok:
  assumes "store_ok C old s"
  shows "store_ok C old (snd (store_call C call s))"
proof (cases call)
  case (CallAdmit f D i received_at now)
  then show ?thesis using assms execute_case_ok [OF assms case_admit_keeps]
    by (auto simp: answered_def store_admit_def split: sum.splits)
next
  case (CallAdminister f D tid actor command now)
  then show ?thesis using assms execute_case_ok [OF assms case_administer_keeps]
    by (auto simp: answered_def store_administer_def split: sum.splits)
next
  case (CallPurge f tid actor now)
  then show ?thesis using assms execute_case_ok [OF assms case_purge_keeps]
    by (auto simp: answered_def store_purge_def split: sum.splits)
next
  case (CallRead tid actor)
  then show ?thesis using assms execute_case_ok [OF assms, of "\<lambda>c. (case_read C c tid, c)"] case_keeps_self
    by (auto simp: answered_def store_read_def split: sum.splits)
qed

end

lemma at_time_simps [simp]:
  "cn_settings (at_time C n) = cn_settings C" "cn_payload (at_time C n) = cn_payload C" "cn_rules (at_time C n) = cn_rules C"
  "cn_journal (at_time C n) = (cn_journal C)\<lparr> je_now := n \<rparr>" "rebuild_tickets (at_time C n) = rebuild_tickets C"
  by (auto simp: at_time_def rebuild_tickets_def fun_eq_iff)

lemma case_env_later: "case_env C \<Longrightarrow> case_env (at_time C n)"
  by (auto simp: case_env_def intro: journal_env_later)

lemma consistent_later: "consistent E j d \<Longrightarrow> je_now E \<le> n \<Longrightarrow> consistent (E\<lparr> je_now := n \<rparr>) j d"
  by (auto simp: consistent_def chain_ok_later)

lemma execute_case_failed:
  assumes "case_env C" and "so_case s = Some c" and "case_ok C c" and "\<not> so_unavailable s"
    and "\<And>c r c'. case_ok C c \<Longrightarrow> run c = (r, c') \<Longrightarrow> case_keeps C c r c'" and "answered (execute_case run s) = (False, s')"
  shows "s' = s\<lparr> so_case := Some (c\<lparr> ca_started := False \<rparr>) \<rparr> \<or> so_unavailable s'"
proof -
  obtain r c' where r: "run (c\<lparr> ca_started := False \<rparr>) = (r, c')" by force
  have k: "case_keeps C (c\<lparr> ca_started := False \<rparr>) r c'" by (rule assms(5) [OF case_started_reset [OF assms(3)] r])
  have "\<not> is_ok r" "s' = \<lparr> so_case = Some c', so_unavailable = ca_started c' \<rparr>"
    using assms(2,4,6) r by (auto simp: answered_def execute_case_def)
  with k assms(4) show ?thesis by (cases s) (auto simp: case_keeps_def)
qed

lemma unavailable_refuses: "so_unavailable s \<Longrightarrow> store_call D call s = (False, s)"
  by (cases call) (auto simp: answered_def store_admit_def store_administer_def store_purge_def store_read_def execute_case_def
      split: sum.splits)

section \<open>Properties\<close>

text \<open>
  C3: the order of durable writes. Whatever fails while a plan executes, the rows a later load finds are the old
  ones and the first \<open>k\<close> of the plan's, all of them when the plan succeeds; before any of them the revision
  they commit to is on the disk in full; the rules change only once the intent is durable, and a row after the
  intent is durable only when the rules are; and nothing at all has changed when no write was started.
\<close>

theorem plan_write_order:
  assumes "case_env C" and "case_ok C c" and "plan_rows_ok c (pl_rows plan)" and "execute_plan C f plan c = (r, c')"
    and "je_now (cn_journal C) \<le> n"
  shows "\<exists>j d rows k. load ((cn_journal C)\<lparr> je_now := n \<rparr>) TailOk (ca_jdisk c') = (Inr j, d)
    \<and> jn_rows j = jn_rows (ca_journal c) @ take k rows \<and> k \<le> length rows
    \<and> (r = Inr () \<longrightarrow> k = length rows \<and> case_ok C c')
    \<and> (0 < k \<longrightarrow> prepare_rows (cn_journal C) (ca_journal c) (pl_rows plan) = Inr rows)
    \<and> (\<forall>p. 0 < k \<longrightarrow> \<not> pl_purge plan \<longrightarrow> pl_payload plan = Some p \<longrightarrow>
         payload_file (ca_pdisk c') (pp_ticket p) (pp_sequence p) = Some (pp_bytes p))
    \<and> (ca_rules c' \<noteq> ca_rules c \<longrightarrow> has_intent_row (take k rows))
    \<and> (\<forall>p. pl_rules plan = Some p \<longrightarrow> has_intent_row (take (k - 1) rows) \<longrightarrow> rules_committed p c')
    \<and> (ca_started c' \<or> c' = c)"
proof -
  obtain rows k where e: "plan_effect C plan c r c' rows k"
    using case_env.execute_plan_effect [OF assms(1-4)] by blast
  then have "durable_rows (cn_journal C) (ca_jdisk c') (jn_rows (ca_journal c) @ take k rows)"
    by (simp add: plan_effect_def)
  from case_env.durable_load [OF assms(1) this assms(5)] e show ?thesis unfolding plan_effect_def by metis
qed

text \<open>
  C7: a failed call. On a store in service, a call that answers with an error leaves the store in service with
  the case it had (its write progress reset), or it takes the store out of service; and a store out of service answers every later
  call with an error and keeps its state.
\<close>

theorem failed_call_isolated:
  assumes "case_env C" and "so_case s = Some c" and "case_ok C c" and "\<not> so_unavailable s"
    and "store_call C call s = (False, s')"
  shows "s' = s \<or> s' = s\<lparr> so_case := Some (c\<lparr> ca_started := False \<rparr>) \<rparr>
    \<or> so_unavailable s' \<and> (\<forall>D later. store_call D later s' = (False, s'))"
proof -
  note failed = execute_case_failed [OF assms(1-4)]
  have "s' = s \<or> s' = s\<lparr> so_case := Some (c\<lparr> ca_started := False \<rparr>) \<rparr> \<or> so_unavailable s'"
  proof (cases call)
    case (CallAdmit f D i received_at now)
    with assms(5) failed [OF case_env.case_admit_keeps [OF assms(1)]] show ?thesis
      by (auto simp: store_admit_def split: sum.splits) (auto simp: answered_def)
  next
    case (CallAdminister f D tid actor command now)
    with assms(5) failed [OF case_env.case_administer_keeps [OF assms(1)]] show ?thesis
      by (auto simp: store_administer_def split: sum.splits) (auto simp: answered_def)
  next
    case (CallPurge f tid actor now)
    with assms(5) failed [OF case_env.case_purge_keeps [OF assms(1)]] show ?thesis
      by (auto simp: store_purge_def split: sum.splits) (auto simp: answered_def)
  next
    case (CallRead tid actor)
    with assms(5) failed [of "\<lambda>c. (case_read C c tid, c)"] case_env.case_keeps_self [OF assms(1)] show ?thesis
      by (auto simp: store_read_def split: sum.splits) (auto simp: answered_def)
  qed
  with unavailable_refuses show ?thesis by blast
qed

end
