(* ===== verification/Case_Admission.thy ===== *)
theory Case_Admission
  imports Case_Store
begin

text \<open>
  Admission end to end: an acknowledged report is on the disk, its ticket is queued, and the documents of an
  intimate-image report are refused by the serving rules before the acknowledgement is durable.
\<close>

section \<open>Document lists\<close>

lemma split_on_single: "c \<notin> set s \<Longrightarrow> split_on c s = [s]"
  by (induction s) auto

lemma split_on_append_char: "c \<notin> set p \<Longrightarrow> split_on c (p @ c # s) = p # split_on c s"
  by (induction p) auto

lemma split_join_comma:
  assumes "ps \<noteq> []" and "\<forall>p \<in> set ps. CHR '','' \<notin> set p"
  shows "split_on (CHR '','') (join_comma ps) = ps"
  using assms
proof (induction ps rule: join_comma.induct)
  case (3 p q ps)
  then show ?case using split_on_append_char [of "CHR '',''" p "join_comma (q # ps)"] by simp
qed (auto simp: split_on_single)

definition document_wf :: "document_key \<Rightarrow> bool" where
  "document_wf d \<longleftrightarrow> document_key_parse (document_key_as_str d) = Inr d"

lemma document_key_str:
  "document_key_parse s = Inr d \<Longrightarrow> document_key_as_str d = s \<and> document_wf d \<and> s \<noteq> [] \<and> CHR '','' \<notin> set s"
  by (auto simp: document_wf_def document_key_parse_def document_key_as_str_def res_simps hex64_parse_Inr list_all_iff hex_byte_def
      is_ascii_digit_def)

lemma document_key_as_str_inj: "document_key_as_str d = document_key_as_str e \<longleftrightarrow> d = e"
  by (cases d; cases e) (auto simp: document_key_as_str_def split: hex64.splits)

lemma res_map_parse:
  "\<forall>d \<in> set ds. document_wf d \<Longrightarrow> res_map document_key_parse (map document_key_as_str ds) = Inr ds"
  by (induction ds) (auto simp: document_wf_def)

text \<open>The documents of a row built from an intake are the intake's.\<close>

lemma set_btree_set [simp]: "set (btree_set xs) = set xs"
  by (simp add: btree_set_def)

lemma map_preimage: "set ys \<subseteq> f ` A \<Longrightarrow> \<exists>xs. ys = map f xs \<and> set xs \<subseteq> A"
proof (induction ys)
  case (Cons y ys)
  then obtain x xs where "y = f x" "x \<in> A" "ys = map f xs" "set xs \<subseteq> A" by auto
  then show ?case by (intro exI [of _ "x # xs"]) simp
qed simp

lemma row_documents_intake:
  assumes "row_asset_ids row = documents i" and "row_documents row = Inr docs"
    and "\<forall>a \<in> set (it_assets i). document_wf (as_document_id a)"
  shows "set docs = as_document_id ` set (it_assets i)"
proof -
  define ps where "ps = btree_set (map (document_key_as_str \<circ> as_document_id) (it_assets i))"
  have ps: "set ps = document_key_as_str ` as_document_id ` set (it_assets i)" by (simp add: ps_def image_image)
  have a: "row_asset_ids row = join_comma ps" using assms(1) by (simp add: documents_def ps_def)
  show ?thesis
  proof (cases "ps = []")
    case True
    with a assms(2) ps show ?thesis by (auto simp: row_documents_def)
  next
    case False
    have wf: "CHR '','' \<notin> set p \<and> p \<noteq> []" if "p \<in> set ps" for p
    proof -
      from that ps obtain a where a: "a \<in> set (it_assets i)" "p = document_key_as_str (as_document_id a)" by auto
      with assms(3) have "document_key_parse p = Inr (as_document_id a)" by (simp add: document_wf_def)
      from document_key_str [OF this] show ?thesis by simp
    qed
    have split: "split_on (CHR '','') (join_comma ps) = ps" using False wf by (intro split_join_comma) blast+
    have "join_comma ps \<noteq> []" using False wf by (cases ps rule: join_comma.cases) auto
    with a assms(2) split have keys: "res_map document_key_parse ps = Inr docs"
      by (auto simp: row_documents_def res_simps split: if_splits)
    obtain ds where ds: "ps = map document_key_as_str ds" "set ds \<subseteq> as_document_id ` set (it_assets i)"
      using map_preimage [of ps document_key_as_str "as_document_id ` set (it_assets i)"] ps by blast
    have "docs = ds" using keys ds res_map_parse [of ds] assms(3) by fastforce
    then have "document_key_as_str ` set docs = document_key_as_str ` as_document_id ` set (it_assets i)"
      using ds(1) ps by simp
    then show ?thesis using document_key_as_str_inj by (metis (no_types, lifting) inj_image_eq_iff inj_onI)
  qed
qed

section \<open>Admission rows\<close>

lemma admission_rows_Inr:
  assumes "admission_rows C c i received_at now payload = Inr rows"
  obtains rec provisional ack where "rows = rec # provisional @ [ack, ack\<lparr> row_event := EvQueued, row_state := ''queued'' \<rparr>]"
    "row_event rec = EvReceived" "row_payload_sequence rec = pp_sequence payload"
    "row_event ack = EvAcknowledged"
    "if intake_route i = RtIntimateImages
     then \<exists>intent fin. provisional = [intent, fin] \<and> row_event intent = EvActionIntent \<and> row_reason_code intent = ''intimate_images''
       \<and> row_decision intent = [] \<and> row_asset_ids intent = documents i
       \<and> intimate_effective (je_chrono (cn_journal C)) received_at (cf_intimate_margin_seconds (cn_settings C)) = Inr (row_effective_at intent)
     else provisional = []"
proof (cases "intake_route i = RtIntimateImages")
  case True
  with assms that show thesis
    by (auto simp: admission_rows_def res_bind_Inr Let_def reference_def event_row_def empty_row_def)
next
  case False
  with assms that show thesis
    by (auto simp: admission_rows_def res_bind_Inr Let_def reference_def event_row_def empty_row_def)
qed

lemma find_intent:
  assumes "\<not> P a" and "P b"
  shows "List.find P (a # b # xs) = Some b"
  using assms by simp

lemma ground_intimate: "ground_parse ''intimate_images'' = Inr GdIntimateImages"
  by (simp add: ground_parse_def)

lemma delta_provisional:
  assumes "delta P intent i [] = Inr dl" and "row_event intent = EvActionIntent" and "row_reason_code intent = ''intimate_images''"
    and "row_decision intent = []"
  obtains tid docs where "dl = DeltaInstall tid docs GdIntimateImages (row_effective_at intent) (row_intent_sequence intent) []"
    "ticket_id_parse (row_ticket_id intent) = Inr tid" "row_documents intent = Inr docs"
  using assms by (auto simp: delta_def res_bind_Inr ground_intimate)

section \<open>A plan that succeeds\<close>

lemma prepare_loop_commitments:
  "prepare_loop E n h a rs = Inr rows \<Longrightarrow> map row_commitment rows = map row_commitment rs"
  by (induction rs arbitrary: n h a rows) (fastforce simp: res_simps Let_def)+

lemma fold_keeps_intake:
  assumes "res_fold (apply_row ch cfg) t rows = Inr t'" and "map_of (tk_references t) 1 = Some cm"
  shows "map_of (tk_references t') 1 = Some cm"
  by (rule res_fold_invariant [OF assms(1), of "\<lambda>t. map_of (tk_references t) 1 = Some cm"])
     (use assms(2) apply_references in \<open>fastforce+\<close>)

lemma fold_ends_queued:
  assumes "res_fold (apply_row ch cfg) t (rows @ [row]) = Inr t'" and "row_event row = EvQueued"
  shows "tk_state t' = StQueued"
  using assms by (auto simp: res_fold_append res_bind_Inr successor_option_def split: if_splits dest!: apply_successor)

lemma has_intent_row_image: "has_intent_row rows \<longleftrightarrow> (\<exists>e \<in> row_event ` set rows. intent_event e)"
  by (simp add: has_intent_row_def)

text \<open>The ticket a plan that starts with a receipt projects.\<close>

lemma receipt_projection:
  assumes "project_and_measure C c rows n reserved = Inr (t, fp)" and "rows = rec # mid @ [queued]"
    and "row_event rec = EvReceived" and "row_event queued = EvQueued" and "ticket_id_parse (row_ticket_id rec) = Inr tid"
  shows "tk_id t = tid \<and> tk_state t = StQueued \<and> map_of (tk_references t) 1 = Some (row_commitment rec)"
  using assms(1)
proof (cases rule: project_cases)
  case (receipt first others t0)
  have r: "received rec = Inr t0" and f: "res_fold (apply_row (je_chrono (cn_journal C)) (cn_settings C)) t0 (mid @ [queued]) = Inr t"
    using receipt assms(2) by simp_all
  have "tk_id t = tk_id t0"
    by (rule res_fold_invariant [OF f, of "\<lambda>t. tk_id t = tk_id t0"]) (use apply_row_id(2) in \<open>fastforce+\<close>)
  moreover have "tk_references t0 = [(1, row_commitment rec)]"
    using r by (auto simp: received_def res_simps split: if_splits)
  then have "map_of (tk_references t) 1 = Some (row_commitment rec)" by (intro fold_keeps_intake [OF f]) simp
  ultimately show ?thesis using received_id [OF r] assms(5) fold_ends_queued [OF f assms(4)] by simp
qed (use assms(2,3) in simp)

context case_env
begin

lemma execute_plan_success:
  assumes "case_ok C c" and "plan_rows_ok c (pl_rows plan)" and "execute_plan C f plan c = (Inr (), c')"
  obtains rows projected fp where "prepare_rows E (ca_journal c) (pl_rows plan) = Inr rows"
    "project_and_measure C c rows (payload_length (pl_payload plan)) (pl_reserved plan) = Inr (projected, fp)"
    "ca_tickets c' = btree_insert (tk_id projected) projected (ca_tickets c)"
    "\<And>p. \<not> pl_purge plan \<Longrightarrow> pl_payload plan = Some p \<Longrightarrow> payload_file (ca_pdisk c') (pp_ticket p) (pp_sequence p) = Some (pp_bytes p)"
    "\<And>p. pl_rules plan = Some p \<Longrightarrow> has_intent_row (pl_rows plan) \<Longrightarrow> rules_committed p c'"
    "case_ok C c'"
  using assms(3)
proof (cases rule: execute_plan_cases)
  case (run rows projected fp c1 rl c2)
  from execute_plan_effect [OF assms] obtain rows' where e: "plan_effect C plan c (Inr ()) c' rows' (length rows')"
    by (auto simp: plan_effect_def)
  note w = case_write_cases [OF run(4)]
  have same: "ca_journal c1 = ca_journal c" "ca_jdisk c1 = ca_jdisk c" "ca_tickets c1 = ca_tickets c"
    by (subst w(1), simp)+
  have cons: "consistent E (ca_journal c) (ca_jdisk c)" using assms(1) by (simp add: case_ok_def)
  obtain k where k: "loop_effect E (pl_purge plan) (pl_rules plan) rows c1 rl c2 k"
    using plan_loop_effect [OF _ _ run(5)] same cons prepared_chain [OF cons run(1)] by auto
  have rl: "rl = Inr ()" using run(6) by simp
  have rows: "rows \<noteq> []" using run(2) by (auto simp: project_and_measure_def)
  have "jn_rows (ca_journal c') = jn_rows (ca_journal c) @ rows"
    using k rl run(7) same by (simp add: loop_effect_def)
  with e have "rows' = rows" by (simp add: plan_effect_def)
  moreover have "has_intent_row rows = has_intent_row (pl_rows plan)"
  proof -
    have "row_event ` set rows = row_event ` set (pl_rows plan)"
      using prepare_loop_same [of E _ _ _ "pl_rows plan" rows] run(1) unfolding prepare_rows_def by (metis list.set_map)
    then show ?thesis by (simp add: has_intent_row_image)
  qed
  ultimately show thesis
    using that [OF run(1,2)] e k rl run(7) same rows by (auto simp: plan_effect_def loop_effect_def plan_frame_def)
qed simp_all

end

section \<open>Properties\<close>

lemma plan_rules_provisional:
  assumes "plan_rules C c rows i (PeIntake i') = Inr rules" and "rows = rec # intent # later" and "row_event rec = EvReceived"
    and "row_event intent = EvActionIntent" "row_reason_code intent = ''intimate_images''" "row_decision intent = []"
  obtains p tid docs where "rules = Some p" "row_documents intent = Inr docs"
    "prepare_delta (cn_rules C) (st_state (ca_rules c))
       (DeltaInstall tid docs GdIntimateImages (row_effective_at intent) (row_intent_sequence intent) []) = Inr p"
proof -
  obtain dl p where p: "delta (cn_payload C) intent i [] = Inr dl" "prepare_delta (cn_rules C) (st_state (ca_rules c)) dl = Inr p" "rules = Some p"
    using assms by (auto simp: plan_rules_def content_salts_def res_bind_Inr)
  show thesis by (rule delta_provisional [OF p(1) assms(4-6)]) (use that p in blast)
qed

lemma install_refuses:
  assumes "snapshot_ok R s" and "prepare_delta R s (DeltaInstall t docs g e n []) = Inr p" and "d \<in> set docs" and "e \<le> now"
  shows "\<not> fst (allows R (pr_snapshot p) d url query now hosts)"
proof -
  have ok: "snapshot_ok R (pr_snapshot p)" by (rule prepare_delta_Inr [OF assms(2)])
  show ?thesis
    using prepare_install(2) [OF assms(1,2)] assms(3,4) unfolding allows_scan [OF ok] by (force simp: installed_def rule_applies_def)
qed

text \<open>A draft row given its ticket and, where it refers to the revision, the revision's commitment.\<close>

definition stamped :: "ticket_id \<Rightarrow> prepared_payload \<Rightarrow> journal_row \<Rightarrow> journal_row" where
  "stamped tid p row =
     (let row1 = row\<lparr> row_ticket_id := ticket_id_as_str tid \<rparr> in
      if row_payload_sequence row1 \<noteq> 0 then reference p row1 else row1)"

lemma stamped_simps [simp]:
  "row_event (stamped tid p row) = row_event row" "row_reason_code (stamped tid p row) = row_reason_code row"
  "row_decision (stamped tid p row) = row_decision row" "row_asset_ids (stamped tid p row) = row_asset_ids row"
  "row_effective_at (stamped tid p row) = row_effective_at row" "row_ticket_id (stamped tid p row) = ticket_id_as_str tid"
  "row_payload_sequence row \<noteq> 0 \<Longrightarrow> row_commitment (stamped tid p row) = pp_commitment p"
  by (simp_all add: stamped_def reference_def Let_def)

lemma admission_plan_shape:
  assumes "admission_plan C D i received_at now c = Inr (plan, tid)"
  obtains p salt rec mid queued where "map_of (ca_tickets c) tid = None" "pl_payload plan = Some p" "\<not> pl_purge plan"
    "prepare_with_salt (cn_payload C) tid 1 (PeIntake i) salt = Inr p"
    "plan_rules C c (pl_rows plan) i (PeIntake i) = Inr (pl_rules plan)"
    "pl_rows plan = rec # mid @ [queued]" "row_event rec = EvReceived" "row_commitment rec = pp_commitment p"
    "ticket_id_parse (row_ticket_id rec) = Inr tid" "row_event queued = EvQueued"
    "intake_route i = RtIntimateImages \<Longrightarrow> \<exists>intent later. mid = intent # later \<and> row_event intent = EvActionIntent
       \<and> row_reason_code intent = ''intimate_images'' \<and> row_decision intent = [] \<and> row_asset_ids intent = documents i
       \<and> intimate_effective (je_chrono (cn_journal C)) received_at (cf_intimate_margin_seconds (cn_settings C)) = Inr (row_effective_at intent)"
  using assms
proof (rule admission_plan_Inr)
  fix payload rows
  assume pay: "prepare_with_salt (cn_payload C) zero_id 1 (PeIntake i) (Hex64 zero_hash) = Inr payload"
    and rows: "admission_rows C c i received_at now payload = Inr rows"
    and mat: "materialize_plan C c D \<lparr> dp_rows = rows, dp_content = PeIntake i, dp_intake = i, dp_payload_sequence = 1,
       dp_payload_bytes = length (pp_bytes payload), dp_new_ticket = True \<rparr> = Inr plan"
    and hd: "pl_rows plan \<noteq> []" "ticket_id_parse (row_ticket_id (hd (pl_rows plan))) = Inr tid"
  obtain tid' salt names where fin: "finish_plan C c \<lparr> dp_rows = rows, dp_content = PeIntake i, dp_intake = i, dp_payload_sequence = 1,
       dp_payload_bytes = length (pp_bytes payload), dp_new_ticket = True \<rparr> (tid', salt, names) = Inr plan"
      and new: "map_of (ca_tickets c) tid' = None"
    by (rule materialize_plan_Inr [OF mat]) simp
  have seq: "pp_sequence payload = 1" using prepare_with_salt_Inr(2) [OF pay] .
  obtain p where p: "pl_payload plan = Some p" "prepare_with_salt (cn_payload C) tid' 1 (PeIntake i) salt = Inr p"
      "plan_rules C c (pl_rows plan) i (PeIntake i) = Inr (pl_rules plan)"
    using finish_plan_Inr(4) [OF fin] prepare_with_salt_Inr(3) by (fastforce simp: with_salts_def)
  have map: "pl_rows plan = map (stamped tid' p) rows"
    using fin p(1) by (auto simp: finish_plan_def res_bind_Inr stamped_def Let_def)
  have tid: "tid' = tid"
    using finish_plan_Inr(2) [OF fin] hd ticket_id_parse_as_str [of tid' tid] by (metis list.set_sel(1))
  show thesis
  proof (rule admission_rows_Inr [OF rows])
    fix rec provisional ack
    assume a: "rows = rec # provisional @ [ack, ack\<lparr> row_event := EvQueued, row_state := ''queued'' \<rparr>]"
      "row_event rec = EvReceived" "row_payload_sequence rec = pp_sequence payload" "row_event ack = EvAcknowledged"
      "if intake_route i = RtIntimateImages
       then \<exists>intent fin. provisional = [intent, fin] \<and> row_event intent = EvActionIntent \<and> row_reason_code intent = ''intimate_images''
         \<and> row_decision intent = [] \<and> row_asset_ids intent = documents i
         \<and> intimate_effective (je_chrono (cn_journal C)) received_at (cf_intimate_margin_seconds (cn_settings C)) = Inr (row_effective_at intent)
       else provisional = []"
    let ?g = "stamped tid p"
    show thesis
    proof (rule that [of p salt "?g rec" "map ?g (provisional @ [ack])" "?g (ack\<lparr> row_event := EvQueued, row_state := ''queued'' \<rparr>)"])
      show "pl_rows plan = ?g rec # map ?g (provisional @ [ack]) @ [?g (ack\<lparr> row_event := EvQueued, row_state := ''queued'' \<rparr>)]"
        using map a(1) tid by simp
      show "row_commitment (?g rec) = pp_commitment p" using a(3) seq by simp
      show "ticket_id_parse (row_ticket_id (?g rec)) = Inr tid" using hd map a(1) tid by simp
      show "\<exists>intent later. map ?g (provisional @ [ack]) = intent # later \<and> row_event intent = EvActionIntent
          \<and> row_reason_code intent = ''intimate_images'' \<and> row_decision intent = [] \<and> row_asset_ids intent = documents i
          \<and> intimate_effective (je_chrono (cn_journal C)) received_at (cf_intimate_margin_seconds (cn_settings C)) = Inr (row_effective_at intent)"
        if "intake_route i = RtIntimateImages"
        using a(5) that by auto
    qed (use new p tid finish_plan_Inr(3) [OF fin] a in simp_all)
  qed
qed

lemma provisional_protects:
  assumes "plan_rules C c rows i (PeIntake i) = Inr rules" and "rows = rec # mid @ [queued]" and "row_event rec = EvReceived"
    and "\<exists>intent later. mid = intent # later \<and> row_event intent = EvActionIntent
       \<and> row_reason_code intent = ''intimate_images'' \<and> row_decision intent = [] \<and> row_asset_ids intent = documents i
       \<and> intimate_effective ch received_at margin = Inr (row_effective_at intent)"
    and "snapshot_ok (cn_rules C) (st_state (ca_rules c))" and "\<forall>a \<in> set (it_assets i). document_wf (as_document_id a)"
    and "\<And>r. rules = Some r \<Longrightarrow> has_intent_row rows \<Longrightarrow> rules_committed r c'"
  shows "\<exists>eff. intimate_effective ch received_at margin = Inr eff
      \<and> (\<forall>a url query at hosts. a \<in> set (it_assets i) \<longrightarrow> eff \<le> at \<longrightarrow>
           \<not> fst (allows (cn_rules C) (st_state (ca_rules c')) (as_document_id a) url query at hosts))"
proof -
  obtain intent later where i: "mid = intent # later" "row_event intent = EvActionIntent" "row_reason_code intent = ''intimate_images''"
      "row_decision intent = []" "row_asset_ids intent = documents i" "intimate_effective ch received_at margin = Inr (row_effective_at intent)"
    using assms(4) by blast
  obtain p tid docs where p: "rules = Some p" "row_documents intent = Inr docs"
      "prepare_delta (cn_rules C) (st_state (ca_rules c))
         (DeltaInstall tid docs GdIntimateImages (row_effective_at intent) (row_intent_sequence intent) []) = Inr p"
    using plan_rules_provisional [OF assms(1) _ assms(3) i(2-4)] assms(2) i(1) by (metis append_Cons)
  have "has_intent_row rows" using assms(2) i by (simp add: intent_event_def)
  with assms(7) p(1) have "st_state (ca_rules c') = pr_snapshot p" by (simp add: rules_committed_def)
  moreover have "set docs = as_document_id ` set (it_assets i)" by (rule row_documents_intake [OF i(5) p(2) assms(6)])
  ultimately show ?thesis using install_refuses [OF assms(5) p(3)] i(6) by auto
qed

lemma prepared_shape:
  assumes "prepare_loop E n h a rs = Inr rows" and "rs = rec # mid @ [queued]"
  obtains rec' mid' queued' where "rows = rec' # mid' @ [queued']" "row_event rec' = row_event rec" "row_event queued' = row_event queued"
    "row_ticket_id rec' = row_ticket_id rec" "row_commitment rec' = row_commitment rec"
proof -
  note same = prepare_loop_same [OF assms(1)] prepare_loop_commitments [OF assms(1)]
  have "length rows = length rs" using same by (metis length_map)
  then have "rows \<noteq> []" "tl rows \<noteq> []" using assms(2) by (cases rows; cases "tl rows"; simp)+
  then have shape: "rows = hd rows # butlast (tl rows) @ [last (tl rows)]" by simp
  show thesis
    by (rule that [OF shape]) (use same assms(2) shape in \<open>auto simp: map_eq_Cons_conv map_eq_append_conv\<close>)
qed

text \<open>
  C4: an acknowledged report is safe. When an admission answers with a ticket, the ticket is new, it is queued, it
  is in the projections, and its revision reads back as exactly the intake that was submitted. For an
  intimate-image report every reported document is already refused by the serving rules, from the effective time
  the clock computes on, whatever the query.
\<close>

theorem admission_acknowledged:
  assumes "case_env C" and "case_ok C c" and "snapshot_ok (cn_rules C) (st_state (ca_rules c))"
    and "\<forall>a \<in> set (it_assets i). document_wf (as_document_id a)"
    and "case_admit C f D i received_at now c = (Inr t, c')"
  shows "map_of (ca_tickets c) (tk_id t) = None \<and> map_of (ca_tickets c') (tk_id t) = Some t \<and> tk_state t = StQueued
    \<and> case_intake C c' t = Inr i
    \<and> (intake_route i = RtIntimateImages \<longrightarrow>
        (\<exists>eff. intimate_effective (je_chrono (cn_journal C)) received_at (cf_intimate_margin_seconds (cn_settings C)) = Inr eff
          \<and> (\<forall>a url query at hosts. a \<in> set (it_assets i) \<longrightarrow> eff \<le> at \<longrightarrow>
               \<not> fst (allows (cn_rules C) (st_state (ca_rules c')) (as_document_id a) url query at hosts))))"
proof -
  obtain plan tid where plan: "admission_plan C D i received_at now c = Inr (plan, tid)" "execute_plan C f plan c = (Inr (), c')"
      "case_ticket c' tid = Inr t"
    using assms(5) by (cases rule: case_admit_cases) auto
  obtain p salt rec mid queued where new: "map_of (ca_tickets c) tid = None" and pay: "pl_payload plan = Some p" "\<not> pl_purge plan"
      "prepare_with_salt (cn_payload C) tid 1 (PeIntake i) salt = Inr p"
    and rules: "plan_rules C c (pl_rows plan) i (PeIntake i) = Inr (pl_rules plan)"
    and rows: "pl_rows plan = rec # mid @ [queued]" "row_event rec = EvReceived" "row_commitment rec = pp_commitment p"
      "ticket_id_parse (row_ticket_id rec) = Inr tid" "row_event queued = EvQueued"
    and intimate: "intake_route i = RtIntimateImages \<Longrightarrow> \<exists>intent later. mid = intent # later \<and> row_event intent = EvActionIntent
       \<and> row_reason_code intent = ''intimate_images'' \<and> row_decision intent = [] \<and> row_asset_ids intent = documents i
       \<and> intimate_effective (je_chrono (cn_journal C)) received_at (cf_intimate_margin_seconds (cn_settings C)) = Inr (row_effective_at intent)"
    by (rule admission_plan_shape [OF plan(1)]) (rule that; assumption)
  have "plan_rows_ok c (pl_rows plan)" using rows new by (auto simp: plan_rows_ok_def)
  from case_env.execute_plan_success [OF assms(1,2) this plan(2)]
  obtain qs projected fp where q: "prepare_rows (cn_journal C) (ca_journal c) (pl_rows plan) = Inr qs"
      "project_and_measure C c qs (payload_length (pl_payload plan)) (pl_reserved plan) = Inr (projected, fp)"
      "ca_tickets c' = btree_insert (tk_id projected) projected (ca_tickets c)"
      "payload_file (ca_pdisk c') tid 1 = Some (pp_bytes p)"
      "\<And>r. pl_rules plan = Some r \<Longrightarrow> has_intent_row (pl_rows plan) \<Longrightarrow> rules_committed r c'"
    using pay prepare_with_salt_Inr(1,2) [OF pay(3)] by metis
  obtain rec' mid' queued' where qs: "qs = rec' # mid' @ [queued']" "row_event rec' = EvReceived" "row_event queued' = EvQueued"
      "row_ticket_id rec' = row_ticket_id rec" "row_commitment rec' = row_commitment rec"
    by (rule prepared_shape [OF q(1) [unfolded prepare_rows_def] rows(1)]) (use rows in auto)
  note t = receipt_projection [OF q(2) qs(1-3)]
  have proj: "tk_id projected = tid" "tk_state projected = StQueued" "map_of (tk_references projected) 1 = Some (pp_commitment p)"
    using t rows qs by simp_all
  have same: "t = projected"
    using plan(3) q(3) proj(1) case_ok_projections(1) [OF assms(2)] by (auto simp: case_ticket_def ok_or_Inr projections_btree)
  have intake: "case_intake C c' t = Inr i"
    using read_payload_prepared [OF case_env.codec [OF assms(1)] pay(3) q(4)] same proj by (simp add: case_intake_def)
  have "\<exists>eff. intimate_effective (je_chrono (cn_journal C)) received_at (cf_intimate_margin_seconds (cn_settings C)) = Inr eff
      \<and> (\<forall>a url query at hosts. a \<in> set (it_assets i) \<longrightarrow> eff \<le> at \<longrightarrow>
           \<not> fst (allows (cn_rules C) (st_state (ca_rules c')) (as_document_id a) url query at hosts))"
    if "intake_route i = RtIntimateImages"
    by (rule provisional_protects [OF rules rows(1,2) intimate [OF that] assms(3,4) q(5)])
  with same proj new q(3) intake case_ok_projections(1) [OF assms(2)] show ?thesis by (auto simp: projections_btree)
qed

end
