(* ===== verification/Case_Progress.thy ===== *)
theory Case_Progress
  imports Case_Admission
begin

text \<open>
  Progress: without faults, a plan that passes its checks is executed to the end, so an admission whose plan can be
  drawn up answers with its ticket.
\<close>

definition no_plan_faults :: plan_faults where
  "no_plan_faults =
     \<lparr> fa_payload = \<lparr> pf_open = None, pf_write = None, pf_sync = False, pf_after = False \<rparr>, fa_append = (\<lambda>_. no_faults),
       fa_completion = (\<lambda>_. False), fa_intent = (\<lambda>_. False), fa_commit = PersistOk, fa_purge = None, fa_rules = (\<lambda>_. False) \<rparr>"

lemma no_plan_faults_simps [simp]:
  "fa_payload no_plan_faults = \<lparr> pf_open = None, pf_write = None, pf_sync = False, pf_after = False \<rparr>"
  "fa_append no_plan_faults i = no_faults" "\<not> fa_completion no_plan_faults i" "\<not> fa_intent no_plan_faults i"
  "fa_commit no_plan_faults = PersistOk" "fa_purge no_plan_faults = None" "\<not> fa_rules no_plan_faults i"
  by (simp_all add: no_plan_faults_def)

context case_env
begin

lemma append_succeeds:
  assumes "consistent E j d" and "chain_ok E (jn_rows j) [row]" and "length (jd_events d) + length (encode_row E row) \<le> je_max_bytes E"
  shows "\<exists>j' d'. append_tracked E no_faults j d row = (Inr (), j', d') \<and> length (jd_events d') = length (jd_events d) + length (encode_row E row)"
proof -
  have c: "chain_ok E [] (jn_rows j)" and h: "jn_head j = head_of_rows (jn_rows j) (length (jd_events d))"
    using assms(1) by (simp_all add: consistent_def)
  have hd: "hd_sequence (jn_head j) = length (jn_rows j)" "hd_hash (jn_head j) = chain_hash (jn_rows j)"
    "last_at j = prior_at (jn_rows j)" "hd_byte_length (jn_head j) = length (jd_events d)"
    using chain_ok_sequences [OF c] h by (auto simp: head_of_rows_def chain_hash_def last_at_def prior_at_def)
  obtain b where b: "row_bytes E row = Inr b" using assms(2) by (auto simp: link_ok_def is_ok_iff)
  note enc = encode_row_Inr [OF b]
  have chk: "append_checks E j row = Inr (b, length (jd_events d) + length b)"
    using assms(2,3) hd b enc u64
    by (simp add: append_checks_def link_ok_def checked_add_u64_def res_simps reserve_def checked_sub_u64_def validate_range_def)
  let ?head = "head_of_rows (jn_rows j @ [row]) (length (jd_events d) + length b)"
  have "chain_ok E [] (jn_rows j @ [row])" using c assms(2) by (simp add: chain_ok_append)
  then have "head_valid ?head" using head_of_rows_valid assms(3) enc u64 by fastforce
  then obtain hb where "cd_head (je_codec E) ?head = Some hb"
    using journal_env.head_encodes [OF journal, of ?head] by (auto simp: head_valid_def)
  then show ?thesis
    using chk enc by (simp add: append_tracked_def no_faults_def Let_def write_head_def head_of_rows_snoc)
qed

lemma plan_loop_succeeds:
  assumes "consistent E (ca_journal c) (ca_jdisk c)" and "chain_ok E (jn_rows (ca_journal c)) rows"
    and "length (jd_events (ca_jdisk c)) + length (encode_rows E rows) \<le> je_max_bytes E"
    and "rules \<noteq> None \<longrightarrow> \<not> sn_unavailable (st_state (ca_rules c))"
  shows "\<exists>c'. plan_loop C no_plan_faults t False i rules rows c = (Inr (), c')"
  using assms
proof (induction rows arbitrary: i rules c)
  case (Cons row rows)
  have one: "chain_ok E (jn_rows (ca_journal c)) [row]" using Cons.prems(2) by simp
  obtain j' d' where a: "append_tracked E no_faults (ca_journal c) (ca_jdisk c) row = (Inr (), j', d')"
      "length (jd_events d') = length (jd_events (ca_jdisk c)) + length (encode_row E row)"
    using append_succeeds [OF Cons.prems(1) one] Cons.prems(3) by auto
  then obtain c1 where c1: "case_append C no_faults row c = (Inr (), c1)" "ca_jdisk c1 = d'" "ca_rules c1 = ca_rules c"
    by (simp add: case_append_def Let_def)
  note du = case_append_durable(2) [OF c1(1) Cons.prems(1) one refl]
  have more: "chain_ok E (jn_rows (ca_journal c1)) rows"
    "length (jd_events (ca_jdisk c1)) + length (encode_rows E rows) \<le> je_max_bytes E"
    using du Cons.prems(2,3) a(2) c1(2) by simp_all
  show ?case
  proof (cases "intent_event (row_event row)")
    case False
    obtain c' where "plan_loop C no_plan_faults t False (Suc i) rules rows c1 = (Inr (), c')"
      using Cons.IH [of c1 rules] du more c1(3) Cons.prems(4) by auto
    with c1(1) False show ?thesis by (simp add: hook_case_def)
  next
    case True
    obtain c2 where c2: "after_intent C no_plan_faults t False i rules c1 = (Inr (), c2)" "ca_journal c2 = ca_journal c1" "ca_jdisk c2 = ca_jdisk c1"
      using Cons.prems(4) c1(3)
      by (cases rules) (auto simp: after_intent_def hook_case_def case_commit_def case_purge_files_def commit_def Let_def)
    obtain c' where "plan_loop C no_plan_faults t False (Suc i) None rows c2 = (Inr (), c')"
      using Cons.IH [of c2 None] du more c2(2,3) by auto
    with c1(1) True c2(1) show ?thesis by (simp add: hook_case_def)
  qed
qed simp

end

lemma measured_bytes:
  "res_fold (\<lambda>acc row. res_bind (row_bytes E row) (\<lambda>b. ok_or (checked_add_u64 acc (length b)) Capacity)) n rows = Inr m
   \<Longrightarrow> m = n + length (encode_rows E rows)"
proof (induction rows arbitrary: n)
  case (Cons row rows)
  then obtain b where b: "row_bytes E row = Inr b"
      "res_fold (\<lambda>acc row. res_bind (row_bytes E row) (\<lambda>b. ok_or (checked_add_u64 acc (length b)) Capacity)) (n + length b) rows = Inr m"
    by (auto simp: res_bind_Inr ok_or_Inr checked_Some)
  from Cons.IH [OF b(2)] encode_row_Inr [OF b(1)] show ?case by simp
qed simp

lemma reserved_bytes:
  assumes "project_and_measure C c rows n reserved = Inr (t, fp)" and "reserve_footprint C c fp = Inr ()"
  shows "hd_byte_length (jn_head (ca_journal c)) + length (encode_rows (cn_journal C) rows) \<le> cf_max_journal_bytes (cn_settings C)"
proof -
  have "fp_journal_bytes fp = length (encode_rows (cn_journal C) rows)"
    using assms(1) by (cases rows) (auto simp: project_and_measure_def res_bind_Inr Let_def dest!: measured_bytes [of _ _ "_ # _"] simp del: res_fold.simps(2))
  moreover have "hd_byte_length (jn_head (ca_journal c)) + fp_journal_bytes fp \<le> cf_max_journal_bytes (cn_settings C)"
    using assms(2) by (auto simp: reserve_footprint_def Let_def res_simps)
  ultimately show ?thesis by simp
qed

context case_env
begin

lemma execute_plan_succeeds:
  assumes "case_ok C c" and "cf_max_journal_bytes (cn_settings C) \<le> je_max_bytes E" and "\<not> pl_purge plan"
    and "prepare_rows E (ca_journal c) (pl_rows plan) = Inr rows"
    and "case_reserve C c rows (payload_length (pl_payload plan)) (pl_reserved plan) = Inr t"
    and "pl_rules plan \<noteq> None \<longrightarrow> \<not> sn_unavailable (st_state (ca_rules c))"
    and "pl_payload plan = Some p" and "prepare_with_salt (cn_payload C) tid n content salt = Inr p"
    and "payload_file (ca_pdisk c) tid n = None"
  shows "\<exists>c'. execute_plan C no_plan_faults plan c = (Inr (), c')"
proof -
  have cons: "consistent E (ca_journal c) (ca_jdisk c)" and pd: "pdisk_ok (ca_pdisk c)" using assms(1) by (simp_all add: case_ok_def)
  obtain fp where fp: "project_and_measure C c rows (payload_length (pl_payload plan)) (pl_reserved plan) = Inr (t, fp)"
      "reserve_footprint C c fp = Inr ()"
    using assms(5) by (auto simp: case_reserve_def res_simps)
  have "hd_byte_length (jn_head (ca_journal c)) = length (jd_events (ca_jdisk c))"
    using cons by (simp add: consistent_def head_of_rows_def)
  with reserved_bytes [OF fp] assms(2) have room: "length (jd_events (ca_jdisk c)) + length (encode_rows E rows) \<le> je_max_bytes E" by simp
  note p = prepare_with_salt_Inr [OF assms(8)]
  have read: "read_payload (cn_payload C) (put_payload tid n (pp_bytes p) (ca_pdisk c)) tid n (pp_commitment p) = Inr content"
    using read_payload_prepared [OF codec assms(8)] pd by (simp add: payload_file_put)
  obtain c1 where w: "case_write_payload C (fa_payload no_plan_faults) (pl_payload plan) c = (Inr (), c1)"
      and c1: "ca_journal c1 = ca_journal c" "ca_jdisk c1 = ca_jdisk c" "ca_rules c1 = ca_rules c"
    using read p assms(7,9) by (simp add: case_write_payload_def write_payload_def Let_def)
  obtain c2 where "plan_loop C no_plan_faults t False 0 (pl_rules plan) rows c1 = (Inr (), c2)"
    using plan_loop_succeeds [of c1 rows "pl_rules plan" t 0] c1 cons prepared_chain [OF cons assms(4)] room assms(6) by auto
  with w assms(3-5) show ?thesis by (simp add: execute_plan_def)
qed

end

lemma materialized_reserved:
  assumes "admission_plan C D i received_at now c = Inr (plan, tid)"
  shows "pl_rules plan \<noteq> None \<longrightarrow> \<not> sn_unavailable (st_state (ca_rules c))"
proof -
  obtain p salt rec mid queued where r: "plan_rules C c (pl_rows plan) i (PeIntake i) = Inr (pl_rules plan)"
    by (rule admission_plan_shape [OF assms]) blast
  then show ?thesis
    by (auto simp: plan_rules_def res_bind_Inr prepare_delta_def split: option.splits if_splits)
qed

lemma admission_plan_completes:
  assumes "case_env C" and "case_ok C c" and "cf_max_journal_bytes (cn_settings C) \<le> je_max_bytes (cn_journal C)"
    and "\<not> ca_writes_disabled c" and "admission_plan C D i received_at now c = Inr (plan, tid)"
    and "prepare_rows (cn_journal C) (ca_journal c) (pl_rows plan) = Inr rows"
    and "case_reserve C c rows (payload_length (pl_payload plan)) (pl_reserved plan) = Inr t"
    and "payload_file (ca_pdisk c) tid 1 = None"
  shows "\<exists>c'. case_admit C no_plan_faults D i received_at now c = (Inr t, c') \<and> tk_id t = tid"
proof -
  obtain p salt rec mid queued where shape: "map_of (ca_tickets c) tid = None" "pl_payload plan = Some p" "\<not> pl_purge plan"
      "prepare_with_salt (cn_payload C) tid 1 (PeIntake i) salt = Inr p"
      "pl_rows plan = rec # mid @ [queued]" "row_event rec = EvReceived" "ticket_id_parse (row_ticket_id rec) = Inr tid" "row_event queued = EvQueued"
    by (rule admission_plan_shape [OF assms(5)]) (rule that; assumption)
  obtain c' where c': "execute_plan C no_plan_faults plan c = (Inr (), c')"
    using case_env.execute_plan_succeeds [OF assms(1-3) shape(3) assms(6,7) materialized_reserved [OF assms(5)] shape(2,4) assms(8)] by blast
  have "plan_rows_ok c (pl_rows plan)" using shape by (auto simp: plan_rows_ok_def)
  then obtain projected fp where q: "project_and_measure C c rows (payload_length (pl_payload plan)) (pl_reserved plan) = Inr (projected, fp)"
      "ca_tickets c' = btree_insert (tk_id projected) projected (ca_tickets c)"
    using case_env.execute_plan_success [OF assms(1,2) _ c'] assms(6) by (metis sum.inject(2))
  have same: "projected = t" using assms(7) q(1) by (simp add: case_reserve_def res_simps)
  obtain rec' mid' queued' where r: "rows = rec' # mid' @ [queued']" "row_event rec' = EvReceived" "row_event queued' = EvQueued"
      "row_ticket_id rec' = row_ticket_id rec"
    by (rule prepared_shape [OF assms(6) [unfolded prepare_rows_def] shape(5)]) (use shape in auto)
  have "tk_id t = tid" using receipt_projection [OF q(1) r(1-3)] r(4) shape(7) same by simp
  moreover from this have "case_ticket c' tid = Inr t"
    using q(2) same case_ok_projections(1) [OF assms(2)] by (simp add: case_ticket_def projections_btree)
  ultimately show ?thesis using assms(4,5) c' by (simp add: case_admit_def)
qed

section \<open>Properties\<close>

text \<open>
  C6: an admission that fails nowhere completes. When the plan of an admission can be drawn up, its rows are within
  the capacity the case reserves, the drawn ticket has no revision on the disk yet and no step fails, the admission
  answers with the ticket of that identifier.
\<close>

theorem admission_completes:
  assumes "case_env C" and "case_ok C c" and "cf_max_journal_bytes (cn_settings C) \<le> je_max_bytes (cn_journal C)"
    and "\<not> ca_writes_disabled c" and "admission_plan C D i received_at now c = Inr (plan, tid)"
    and "prepare_rows (cn_journal C) (ca_journal c) (pl_rows plan) = Inr rows"
    and "case_reserve C c rows (payload_length (pl_payload plan)) (pl_reserved plan) = Inr t"
    and "payload_file (ca_pdisk c) tid 1 = None"
  shows "\<exists>c'. case_admit C no_plan_faults D i received_at now c = (Inr t, c') \<and> tk_id t = tid"
  by (rule admission_plan_completes [OF assms])

end
