(* ===== verification/Case_Startup.thy ===== *)
theory Case_Startup
  imports Case_Store
begin

text \<open>
  Startup recovery: when it succeeds, no ticket has an operation under way and every report has reached the
  moderation queue.
\<close>

lemma plan_loop_frame: "plan_loop C f projected purge i rules rows c = (r, c') \<Longrightarrow> plan_frame c c'"
proof (induction rows arbitrary: i rules c)
  case (Cons row rows)
  have append: "plan_frame c c1" if "case_append C (fa_append f i) row c = (ra, c1)" for ra c1
    unfolding plan_frame_def by (subst (1 2 3) case_append_frame(1) [OF that]) simp
  have after: "plan_frame c1 c2" if "after_intent C f projected purge i rules c1 = (rb, c2)" for rb c1 c2
    unfolding plan_frame_def by (subst (1 2 3) after_intent_frame(1) [OF that]) simp
  from Cons.prems show ?case
  proof (cases rule: plan_loop_cases)
    case (intent c1 c2)
    with Cons.IH [OF intent(4)] after [OF intent(3)] append [OF intent(1)] show ?thesis by (simp add: plan_frame_def)
  next
    case (stopped c1 e)
    with after [OF stopped(3)] append [OF stopped(1)] show ?thesis by (simp add: plan_frame_def)
  next
    case (plain c1)
    with Cons.IH [OF plain(3)] append [OF plain(1)] show ?thesis by (simp add: plan_frame_def)
  qed (use append in \<open>auto simp: plan_frame_def\<close>)
qed (simp add: plan_frame_def)

lemma execute_plan_tickets:
  assumes "execute_plan C f plan c = (Inr (), c')"
  obtains rows t fp where "prepare_rows (cn_journal C) (ca_journal c) (pl_rows plan) = Inr rows"
    "project_and_measure C c rows (payload_length (pl_payload plan)) (pl_reserved plan) = Inr (t, fp)"
    "ca_tickets c' = btree_insert (tk_id t) t (ca_tickets c)"
  using assms
proof (cases rule: execute_plan_cases)
  case (run rows projected fp c1 rl c2)
  have "ca_tickets c1 = ca_tickets c" by (subst case_write_cases(1) [OF run(4)]) simp
  with run plan_loop_frame [OF run(5)] that show thesis by (auto simp: plan_frame_def)
qed simp_all

text \<open>The plans of recovery extend a known ticket.\<close>

lemma recovery_plan_ticket:
  assumes "execute_plan C f (recovery_plan rows rules) c = (Inr (), c')" and "projections_ok (ca_tickets c)"
    and "map_of (ca_tickets c) tid = Some t" and "rows \<noteq> []" and "row_ticket_id (hd rows) = ticket_id_as_str tid"
    and "row_event (hd rows) \<noteq> EvReceived"
  obtains rows' t' where "map row_event rows' = map row_event rows"
    "res_fold (apply_row (je_chrono (cn_journal C)) (cn_settings C)) t rows' = Inr t'"
    "ca_tickets c' = btree_insert tid t' (ca_tickets c)" "tk_id t' = tid"
proof (rule execute_plan_tickets [OF assms(1)])
  fix rows' t' fp
  assume p: "prepare_rows (cn_journal C) (ca_journal c) (pl_rows (recovery_plan rows rules)) = Inr rows'"
    and m: "project_and_measure C c rows' (payload_length (pl_payload (recovery_plan rows rules))) (pl_reserved (recovery_plan rows rules)) = Inr (t', fp)"
    and u: "ca_tickets c' = btree_insert (tk_id t') t' (ca_tickets c)"
  have same: "map row_event rows' = map row_event rows" "map row_ticket_id rows' = map row_ticket_id rows"
    using p prepare_loop_same by (auto simp: prepare_rows_def recovery_plan_def)
  then have ne: "rows' \<noteq> []" using assms(4) by auto
  then have hd: "row_event (hd rows') = row_event (hd rows)" "row_ticket_id (hd rows') = row_ticket_id (hd rows)"
    using same assms(4) by (metis hd_map)+
  from m show thesis
  proof (cases rule: project_cases)
    case (receipt first others t0)
    with hd assms(6) show thesis by simp
  next
    case (existing tid' t0)
    have "tid' = tid" using existing(3) hd(2) assms(5) ticket_id_parse_as_str by simp
    with existing(4) assms(3) have t0: "t0 = t" by simp
    from rebuild_applied [OF assms(2) assms(3) existing(5) [unfolded t0]] have "tk_id t' = tid" by simp
    with that [OF same(1) existing(5) [unfolded t0]] u show thesis by simp
  qed
qed

section \<open>Settled tickets\<close>

definition settled :: "ticket \<Rightarrow> bool" where
  "settled t \<longleftrightarrow> tk_pending t = None \<and> tk_state t \<notin> {StReceived, StAcknowledged}"

lemma fold_snoc_applied:
  assumes "res_fold (apply_row ch cfg) t rows = Inr t'" and "rows \<noteq> []"
  obtains u where "apply_row ch cfg u (last rows) = Inr t'" "res_fold (apply_row ch cfg) t (butlast rows) = Inr u"
proof -
  have "rows = butlast rows @ [last rows]" using assms(2) by simp
  with assms(1) have "res_fold (apply_row ch cfg) t (butlast rows @ [last rows]) = Inr t'" by metis
  with that show thesis by (auto simp: res_fold_append res_bind_Inr)
qed

text \<open>A completion, and any row that is no intent, leaves no operation pending.\<close>

lemma apply_row_pending:
  assumes "apply_row ch cfg t row = Inr t'" and "\<not> intent_event (row_event row)"
  shows "tk_pending t' = None"
  using apply_pending [OF assms(1)] assms(2) guard_Inr_pending [OF apply_guard [OF assms(1)]] by (auto split: if_splits)

lemma apply_row_advanced:
  assumes "apply_row ch cfg t row = Inr t'" and "tk_state t \<notin> {StReceived, StAcknowledged}"
  shows "tk_state t' \<notin> {StReceived, StAcknowledged}"
  using apply_successor [OF assms(1)] assms(2)
  by (cases "row_event row") (auto simp: successor_option_def split: if_splits)

lemma completion_row:
  assumes "completion t intent at actor = Inr fin"
  shows "completion_event (row_event fin)" "row_ticket_id fin = ticket_id_as_str (tk_id t)"
  using assms by (auto simp: completion_def res_bind_Inr ok_or_Inr event_row_def empty_row_def expected_completion_def completion_event_def
      split: event_name.splits if_splits)

lemma completion_not: "completion_event e \<Longrightarrow> e \<noteq> EvReceived \<and> \<not> intent_event e"
  by (auto simp: completion_event_def intent_event_def)

text \<open>
  What one ticket's recovery does to the projections: only that ticket changes.
\<close>

definition ticket_step :: "ticket_id \<Rightarrow> (ticket \<Rightarrow> bool) \<Rightarrow> case_state \<Rightarrow> case_state \<Rightarrow> bool" where
  "ticket_step tid P c c' \<longleftrightarrow> projections_ok (ca_tickets c') \<and> (\<exists>t. map_of (ca_tickets c') tid = Some t \<and> P t)
     \<and> (\<forall>k. k \<noteq> tid \<longrightarrow> map_of (ca_tickets c') k = map_of (ca_tickets c) k)"

lemma ticket_step_insert:
  assumes "projections_ok (ca_tickets c)" and "map_of (ca_tickets c) tid = Some t" and "ca_tickets c' = btree_insert tid t' (ca_tickets c)"
    and "tk_id t' = tid" and "P t'"
  shows "ticket_step tid P c c'"
  using assms projections_insert [OF assms(1), of t'] projections_lookup [OF assms(1,2)]
  by (auto simp: ticket_step_def projections_btree)

lemma case_commit_tickets: "case_commit e rules c = (r, c') \<Longrightarrow> ca_tickets c' = ca_tickets c"
  using case_commit_frame(1) [of e rules c r c'] by (metis case_state.select_convs(4) case_state.surjective case_state.update_convs(6))

lemma case_purge_tickets: "case_purge_files C fault purge t c = (r, c') \<Longrightarrow> ca_tickets c' = ca_tickets c"
  using case_purge_frame(1) [of C fault purge t c r c'] by (metis case_state.select_convs(4) case_state.surjective case_state.update_convs(3))

lemma recovery_rules_tickets: "recovery_rules C e s0 dl c = (r, c') \<Longrightarrow> ca_tickets c' = ca_tickets c"
  by (auto simp: recovery_rules_def split: if_splits sum.splits dest: case_commit_tickets)

lemma finish_pending_cases:
  assumes "finish_pending C f v s0 t c = (Inr (), c')"
  obtains intent c1 fin where "ca_tickets c1 = ca_tickets c" "completion t intent (rv_pending_now f) ''system.recovery'' = Inr fin"
    "execute_plan C (rv_pending_plan f) (recovery_plan [fin] None) c1 = (Inr (), c')"
proof -
  obtain intent where i: "tk_pending t = Some intent" using assms by (auto simp: finish_pending_def split: option.splits)
  let ?m = "if row_event intent = EvPurgeIntent then
      bind_case (case_purge_files C (rv_purge f) True t c) (\<lambda>c. (Inr (), c\<lparr> ca_usage := btree_insert (tk_id t) 0 (ca_usage c) \<rparr>))
    else (case recovery_operation C c t intent v of Inl e \<Rightarrow> (Inl e, c)
      | Inr dl \<Rightarrow> bind_case (recovery_rules C (rv_commit f) s0 dl c) (hook_case (rv_rules f)))"
  let ?k = "\<lambda>c. case completion t intent (rv_pending_now f) ''system.recovery'' of Inl e \<Rightarrow> (Inl e, c)
    | Inr fin \<Rightarrow> execute_plan C (rv_pending_plan f) (recovery_plan [fin] None) c"
  have "bind_case ?m ?k = (Inr (), c')" using assms i by (simp add: finish_pending_def)
  then obtain u c1 where m: "?m = (Inr u, c1)" and k: "?k c1 = (Inr (), c')" unfolding bind_case_eq by auto
  have "ca_tickets c1 = ca_tickets c"
    using m by (auto simp: bind_case_eq hook_case_eq split: if_splits sum.splits dest: case_purge_tickets recovery_rules_tickets)
  with k that show thesis by (auto split: sum.splits)
qed

lemma finish_pending_step:
  assumes "finish_pending C f v s0 t c = (Inr (), c')" and "projections_ok (ca_tickets c)" and "map_of (ca_tickets c) (tk_id t) = Some t"
  shows "ticket_step (tk_id t) (\<lambda>t'. tk_pending t' = None) c c'"
proof -
  obtain intent c1 fin where c1: "ca_tickets c1 = ca_tickets c" "completion t intent (rv_pending_now f) ''system.recovery'' = Inr fin"
      "execute_plan C (rv_pending_plan f) (recovery_plan [fin] None) c1 = (Inr (), c')"
    using finish_pending_cases [OF assms(1)] by metis
  note fin = completion_row [OF c1(2)]
  obtain rows' t' where r: "map row_event rows' = map row_event [fin]"
      "res_fold (apply_row (je_chrono (cn_journal C)) (cn_settings C)) t rows' = Inr t'"
      "ca_tickets c' = btree_insert (tk_id t) t' (ca_tickets c1)" "tk_id t' = tk_id t"
    by (rule recovery_plan_ticket [OF c1(3), of "tk_id t" t]) (use assms(2,3) c1 fin completion_not in auto)
  then obtain row where "rows' = [row]" "row_event row = row_event fin" by (auto simp: map_eq_Cons_conv)
  with r have "tk_pending t' = None" using fin(1) completion_not apply_row_pending by (auto simp: res_bind_Inr)
  with ticket_step_insert [of c "tk_id t" t c' t'] assms(2,3) r c1(1) show ?thesis by simp
qed

lemma event_row_fields:
  "event_row t e at actor = Inr row \<Longrightarrow> row_event row = e \<and> row_ticket_id row = ticket_id_as_str (tk_id t)"
  by (auto simp: event_row_def res_bind_Inr empty_row_def)

lemma intake_rows_shape:
  assumes "intake_rows C now v t c = Inr (rows, rules)"
  shows "rows \<noteq> []" "row_event (last rows) = EvQueued" "row_event (hd rows) \<noteq> EvReceived" "row_ticket_id (hd rows) = ticket_id_as_str (tk_id t)"
proof -
  obtain pre queued where "rows = pre @ [queued]" "row_event queued = EvQueued" "row_ticket_id queued = ticket_id_as_str (tk_id t)"
    "pre = [] \<or> row_event (hd pre) \<in> {EvActionIntent, EvAcknowledged} \<and> row_ticket_id (hd pre) = ticket_id_as_str (tk_id t)"
    using assms unfolding intake_rows_def Let_def res_bind_Inr
    by (auto split: if_splits simp: res_bind_Inr Let_def dest!: event_row_fields)
  then show "rows \<noteq> []" "row_event (last rows) = EvQueued" "row_event (hd rows) \<noteq> EvReceived"
    "row_ticket_id (hd rows) = ticket_id_as_str (tk_id t)"
    by (cases pre; auto)+
qed

lemma finish_intake_step:
  assumes "finish_intake C f v t c = (Inr (), c')" and "projections_ok (ca_tickets c)" and "map_of (ca_tickets c) (tk_id t) = Some t"
  shows "ticket_step (tk_id t) settled c c'"
proof -
  obtain rows rules where i: "intake_rows C (rv_finish_now f) v t c = Inr (rows, rules)"
      "execute_plan C (rv_finish_plan f) (recovery_plan rows rules) c = (Inr (), c')"
    using assms(1) by (auto simp: finish_intake_def split: sum.splits)
  note shape = intake_rows_shape [OF i(1)]
  obtain rows' t' where r: "map row_event rows' = map row_event rows"
      "res_fold (apply_row (je_chrono (cn_journal C)) (cn_settings C)) t rows' = Inr t'"
      "ca_tickets c' = btree_insert (tk_id t) t' (ca_tickets c)" "tk_id t' = tk_id t"
    by (rule recovery_plan_ticket [OF i(2) assms(2,3) shape(1,4,3)])
  have ne: "rows' \<noteq> []" using r(1) shape(1) by (cases rows') simp_all
  have last: "row_event (last rows') = EvQueued"
    using arg_cong [OF r(1), of last] ne shape(1,2) by (simp add: last_map)
  obtain u where u: "apply_row (je_chrono (cn_journal C)) (cn_settings C) u (last rows') = Inr t'"
    by (rule fold_snoc_applied [OF r(2) ne])
  have "settled t'"
    using apply_row_pending [OF u] apply_successor [OF u] last
    by (auto simp: settled_def intent_event_def successor_option_def split: if_splits)
  with ticket_step_insert [OF assms(2,3) r(3,4)] show ?thesis by blast
qed

lemma finish_decision_cases:
  assumes "finish_decision C f v t c = (Inr (), c')"
  obtains (unchanged) "c' = c"
  | (acted) intent fin prepared where "row_event intent = EvActionIntent" "row_ticket_id intent = ticket_id_as_str (tk_id t)"
      "completion_event (row_event fin)" "execute_plan C (rv_finish_plan f) (recovery_plan [intent, fin] (Some prepared)) c = (Inr (), c')"
proof -
  obtain decided where d: "List.find (\<lambda>row. row_ticket_id row = ticket_id_as_str (tk_id t) \<and> row_event row = EvDecided)
      (rev (jn_rows (ca_journal c))) = Some decided"
    using assms by (auto simp: finish_decision_def Let_def split: option.splits)
  then have id: "row_ticket_id decided = ticket_id_as_str (tk_id t)" by (auto simp: find_Some_iff)
  have "c' = c \<or> (\<exists>i seq fin prepared.
      completion t (decided\<lparr> row_event := EvActionIntent, row_actor := ''system.recovery'', row_at := rv_finish_now f,
         row_intent_sequence := seq, row_asset_ids := documents i, row_effective_at := row_at decided \<rparr>)
         (rv_finish_now f) ''system.recovery'' = Inr fin
      \<and> execute_plan C (rv_finish_plan f) (recovery_plan [decided\<lparr> row_event := EvActionIntent, row_actor := ''system.recovery'',
         row_at := rv_finish_now f, row_intent_sequence := seq, row_asset_ids := documents i, row_effective_at := row_at decided \<rparr>, fin]
         (Some prepared)) c = (Inr (), c'))"
    using assms d unfolding finish_decision_def Let_def by (auto split: if_splits sum.splits simp: res_bind_Inr)
  then show thesis
  proof (elim disjE exE conjE)
    fix i seq fin prepared
    assume a: "completion t (decided\<lparr> row_event := EvActionIntent, row_actor := ''system.recovery'', row_at := rv_finish_now f,
         row_intent_sequence := seq, row_asset_ids := documents i, row_effective_at := row_at decided \<rparr>)
         (rv_finish_now f) ''system.recovery'' = Inr fin"
      and e: "execute_plan C (rv_finish_plan f) (recovery_plan [decided\<lparr> row_event := EvActionIntent, row_actor := ''system.recovery'',
         row_at := rv_finish_now f, row_intent_sequence := seq, row_asset_ids := documents i, row_effective_at := row_at decided \<rparr>, fin]
         (Some prepared)) c = (Inr (), c')"
    show thesis by (rule acted [OF _ _ completion_row(1) [OF a] e]) (simp_all add: id)
  qed (rule unchanged)
qed

lemma finish_decision_step:
  assumes "finish_decision C f v t c = (Inr (), c')" and "projections_ok (ca_tickets c)" and "map_of (ca_tickets c) (tk_id t) = Some t"
    and "settled t"
  shows "ticket_step (tk_id t) settled c c'"
  using assms(1)
proof (cases rule: finish_decision_cases)
  case unchanged
  with assms show ?thesis by (simp add: ticket_step_def)
next
  case (acted intent fin prepared)
  obtain rows' t' where r: "map row_event rows' = map row_event [intent, fin]"
      "res_fold (apply_row (je_chrono (cn_journal C)) (cn_settings C)) t rows' = Inr t'"
      "ca_tickets c' = btree_insert (tk_id t) t' (ca_tickets c)" "tk_id t' = tk_id t"
    by (rule recovery_plan_ticket [OF acted(4) assms(2,3)]) (use acted in auto)
  then obtain a b where ab: "rows' = [a, b]" "row_event b = row_event fin" by (auto simp: map_eq_Cons_conv)
  with r(2) obtain u where u: "apply_row (je_chrono (cn_journal C)) (cn_settings C) t a = Inr u"
      "apply_row (je_chrono (cn_journal C)) (cn_settings C) u b = Inr t'" by (auto simp: res_bind_Inr)
  have "settled t'"
    using apply_row_pending [OF u(2)] apply_row_advanced [OF u(2) apply_row_advanced [OF u(1)]] assms(4) ab(2) acted(3) completion_not
    by (simp add: settled_def)
  with ticket_step_insert [OF assms(2,3) r(3,4)] show ?thesis by blast
qed

lemma ticket_step_trans:
  assumes "ticket_step tid P c c1" and "ticket_step tid Q c1 c'"
  shows "ticket_step tid Q c c'"
  using assms by (simp add: ticket_step_def)

lemma reconcile_ticket_settles:
  assumes "reconcile_ticket C f v s0 t c = (Inr (), c')" and "projections_ok (ca_tickets c)" and "map_of (ca_tickets c) (tk_id t) = Some t"
  shows "ticket_step (tk_id t) settled c c'"
proof -
  let ?k = "\<lambda>c. case map_of (ca_tickets c) (tk_id t) of None \<Rightarrow> (Inl Unavailable, c)
     | Some current \<Rightarrow> if tk_state current \<in> {StReceived, StAcknowledged} then finish_intake C f v current c
         else if tk_state current = StDecided then finish_decision C f v current c else (Inr (), c)"
  obtain u c1 where m: "(if tk_pending t \<noteq> None then finish_pending C f v s0 t c else (verify_completed C c t v s0, c)) = (Inr u, c1)"
      and k: "?k c1 = (Inr (), c')"
    using assms(1) unfolding reconcile_ticket_def bind_case_eq by auto
  have step: "ticket_step (tk_id t) (\<lambda>t'. tk_pending t' = None) c c1"
    using m finish_pending_step [OF _ assms(2,3)] assms(2,3) by (auto simp: ticket_step_def split: if_splits)
  then obtain cur where cur: "map_of (ca_tickets c1) (tk_id t) = Some cur" "tk_pending cur = None" "projections_ok (ca_tickets c1)"
    by (auto simp: ticket_step_def)
  then have id: "tk_id cur = tk_id t" using projections_lookup by blast
  have "ticket_step (tk_id t) settled c1 c'"
  proof (cases "tk_state cur \<in> {StReceived, StAcknowledged}")
    case True
    with k cur finish_intake_step [of C f v cur c1 c'] id show ?thesis by simp
  next
    case False
    then have "settled cur" using cur by (simp add: settled_def)
    with k cur False finish_decision_step [of C f v cur c1 c'] id show ?thesis
      by (auto simp: ticket_step_def split: if_splits)
  qed
  with step show ?thesis by (rule ticket_step_trans)
qed

lemma reconcile_tickets_settle:
  assumes "reconcile_tickets C F v s0 n ts c = (Inr (), c')" and "projections_ok (ca_tickets c)"
    and "\<forall>t \<in> set ts. map_of (ca_tickets c) (tk_id t) = Some t" and "distinct (map tk_id ts)"
  shows "(\<forall>t \<in> set ts. \<exists>t'. map_of (ca_tickets c') (tk_id t) = Some t' \<and> settled t')
    \<and> (\<forall>k. k \<notin> tk_id ` set ts \<longrightarrow> map_of (ca_tickets c') k = map_of (ca_tickets c) k)"
  using assms
proof (induction ts arbitrary: n c)
  case (Cons t ts)
  from Cons.prems(1) obtain c1 where c1: "reconcile_ticket C (F n) v s0 t c = (Inr (), c1)"
      "reconcile_tickets C F v s0 (Suc n) ts c1 = (Inr (), c')"
    by (auto simp: bind_case_eq)
  have step: "ticket_step (tk_id t) settled c c1"
    using reconcile_ticket_settles [OF c1(1) Cons.prems(2)] Cons.prems(3) by simp
  have "\<forall>u \<in> set ts. map_of (ca_tickets c1) (tk_id u) = Some u"
  proof
    fix u
    assume u: "u \<in> set ts"
    then have "tk_id u \<noteq> tk_id t" using Cons.prems(4) by (metis distinct.simps(2) image_eqI list.set_map list.simps(9))
    with u step Cons.prems(3) show "map_of (ca_tickets c1) (tk_id u) = Some u" by (simp add: ticket_step_def)
  qed
  with Cons.IH [OF c1(2)] step Cons.prems(4) show ?case by (auto simp: ticket_step_def)
qed simp

section \<open>Properties\<close>

text \<open>
  C5: startup leaves nothing half done. When recovery succeeds, whatever the journal it started from, every ticket
  of the journal is still there, no ticket has a rules change, a reversal or a purge pending, and every report has
  been acknowledged and queued; each intent was completed by recovery or by the service before it.
\<close>

theorem reconcile_settles:
  assumes "reconcile C F f g c = (Inr (), c')"
  shows "\<exists>tickets. rebuild_tickets C (jn_rows (ca_journal c)) = Inr tickets
    \<and> fst ` set (ca_tickets c') = fst ` set tickets
    \<and> (\<forall>tid t. map_of (ca_tickets c') tid = Some t \<longrightarrow> tk_pending t = None \<and> tk_state t \<notin> {StReceived, StAcknowledged})"
proof -
  obtain v c1 where r: "recovered_case C c = (Inr v, c1)"
    using assms by (cases "recovered_case C c") (auto simp: reconcile_def split: sum.splits)
  then have rb: "rebuild_tickets C (jn_rows (ca_journal c)) = Inr (ca_tickets c1)"
    by (auto simp: recovered_case_def res_then_Inr Let_def split: sum.splits prod.splits)
  then have ok: "projections_ok (ca_tickets c1)" using rebuild_fold_ok by (auto simp: rebuild_tickets_Inr)
  obtain c2 where c2: "reconcile_tickets C F v (st_state (ca_rules c)) 0 (map snd (ca_tickets c1)) c1 = (Inr (), c2)"
      "ca_tickets c' = ca_tickets c2"
    using assms r
    by (cases "reconcile_tickets C F v (st_state (ca_rules c)) 0 (map snd (ca_tickets c1)) c1")
       (auto simp: reconcile_def bind_case_eq split: prod.splits sum.splits)
  have ids: "map tk_id (map snd (ca_tickets c1)) = map fst (ca_tickets c1)" using ok by (auto simp: projections_ok_def)
  have d: "distinct (map tk_id (map snd (ca_tickets c1)))"
    unfolding ids using ok by (simp add: projections_btree btree_ok_distinct)
  have keys: "tk_id ` set (map snd (ca_tickets c1)) = fst ` set (ca_tickets c1)" using arg_cong [OF ids, of set] by (simp add: image_image)
  have "\<forall>t \<in> set (map snd (ca_tickets c1)). map_of (ca_tickets c1) (tk_id t) = Some t"
    using ok by (auto simp: projections_ok_def btree_ok_distinct)
  note settle = reconcile_tickets_settle [OF c2(1) ok this d, unfolded keys]
  have all: "\<exists>t'. map_of (ca_tickets c2) k = Some t' \<and> settled t'" if "k \<in> fst ` set (ca_tickets c1)" for k
    using settle that unfolding keys [symmetric] by blast
  have others: "map_of (ca_tickets c2) k = None" if "k \<notin> fst ` set (ca_tickets c1)" for k
  proof -
    have "map_of (ca_tickets c1) k = None" using that by (simp add: map_of_eq_None_iff)
    with settle that show ?thesis by simp
  qed
  have "fst ` set (ca_tickets c2) = fst ` set (ca_tickets c1)"
  proof (intro set_eqI iffI)
    fix k
    assume "k \<in> fst ` set (ca_tickets c2)"
    then show "k \<in> fst ` set (ca_tickets c1)" using others [of k] by (auto simp: map_of_eq_None_iff)
  next
    fix k
    assume "k \<in> fst ` set (ca_tickets c1)"
    from all [OF this] show "k \<in> fst ` set (ca_tickets c2)" by (metis map_of_eq_None_iff option.distinct(1))
  qed
  moreover have "settled t" if "map_of (ca_tickets c2) tid = Some t" for tid t
    using all [of tid] others [of tid] that by (cases "tid \<in> fst ` set (ca_tickets c1)") auto
  ultimately show ?thesis using rb c2(2) by (auto simp: settled_def)
qed

end
