(* ===== verification/Case_Lifetime.thy ===== *)
theory Case_Lifetime
  imports Case_Startup
begin

text \<open>
  The store across restarts: what startup leaves on the disks wherever it fails, and the histories of calls and
  restarts as a step relation on the disks and the store in memory.
\<close>

section \<open>Loading\<close>

context case_env
begin

lemma load_durable:
  assumes "durable_rows E d rows" and "load E t d = (r, d')"
  shows "(\<exists>e. r = Inl e \<and> durable_rows E d' rows) \<or> (\<exists>k. r = Inr k \<and> jn_rows k = rows \<and> consistent E k d')"
  using journal_env.load_durable(1) [OF journal assms(1) hook u64 assms(2)] by blast

lemma system_append:
  assumes "consistent E j d" and "prepare_rows E j [row] = Inr rows" and "append_tracked E f j d (rows ! 0) = (r, j', d')"
  shows "\<exists>new. (\<forall>x \<in> set new. row_ticket_id x = row_ticket_id row) \<and> durable_rows E d' (jn_rows j @ new)
    \<and> (r = Inr () \<longrightarrow> consistent E j' d' \<and> jn_rows j' = jn_rows j @ new)"
proof -
  obtain q new where q: "\<exists>n p h. q = row\<lparr> row_sequence := n, row_previous_hash := p, row_hash := h \<rparr>" "new \<in> {[], [q]}"
      "durable_rows E d' (jn_rows j @ new)" "r = Inr () \<longrightarrow> consistent E j' d' \<and> jn_rows j' = jn_rows j @ new"
    using journal_env.system_append [OF journal hook u64 assms] by blast
  then show ?thesis by (intro exI [of _ new]) auto
qed

lemma finish_recovery_keeps:
  assumes "consistent E j d" and "finish_recovery E f g j d = (r, j', d')"
  shows "\<exists>new. (\<forall>x \<in> set new. row_ticket_id x = []) \<and> durable_rows E d' (jn_rows j @ new)
    \<and> (r = Inr () \<longrightarrow> consistent E j' d' \<and> jn_rows j' = jn_rows j @ new)"
proof -
  obtain new where new: "durable_rows E d' (jn_rows j @ new)" "r = Inr () \<longrightarrow> consistent E j' d' \<and> jn_rows j' = jn_rows j @ new"
      "\<forall>x \<in> set new. \<exists>tail n p h. jn_tail j = Some tail
         \<and> x = (tail_row E tail)\<lparr> row_sequence := n, row_previous_hash := p, row_hash := h \<rparr>"
    using journal_env.finish_recovery_keeps [OF journal hook u64 assms] by blast
  moreover from new(3) have "\<forall>x \<in> set new. row_ticket_id x = []" by (auto simp: tail_row_def empty_row_def)
  ultimately show ?thesis by blast
qed

end

lemma rebuild_system_rows:
  assumes "\<forall>x \<in> set new. row_ticket_id x = []"
  shows "rebuild_tickets C (rows @ new) = rebuild_tickets C rows"
proof -
  have "res_fold (rebuild_row (je_chrono (cn_journal C)) (cn_settings C)) tickets new = Inr tickets" for tickets
    using assms by (induction new) (auto simp: rebuild_row_def)
  then have "res_fold (rebuild_row (je_chrono (cn_journal C)) (cn_settings C)) [] (rows @ new)
      = res_fold (rebuild_row (je_chrono (cn_journal C)) (cn_settings C)) [] rows"
    by (cases "res_fold (rebuild_row (je_chrono (cn_journal C)) (cn_settings C)) [] rows") (simp_all add: res_fold_append)
  then show ?thesis by (simp add: rebuild_tickets_def)
qed

section \<open>Recovery keeps the journal\<close>

definition recovers :: "cenv \<Rightarrow> journal_row list \<Rightarrow> unit outcome \<Rightarrow> case_state \<Rightarrow> bool" where
  "recovers C old r c \<longleftrightarrow> recoverable C old c \<and> (r = Inr () \<longrightarrow> case_ok C c \<and> (\<exists>new. jn_rows (ca_journal c) = old @ new))"

text \<open>The steps that leave the journal and the projections alone.\<close>

definition same_journal :: "case_state \<Rightarrow> case_state \<Rightarrow> bool" where
  "same_journal c c' \<longleftrightarrow> ca_journal c' = ca_journal c \<and> ca_jdisk c' = ca_jdisk c \<and> ca_tickets c' = ca_tickets c
     \<and> (pdisk_ok (ca_pdisk c) \<longrightarrow> pdisk_ok (ca_pdisk c'))"

lemma same_journal_refl [simp]: "same_journal c c"
  by (simp add: same_journal_def)

lemma same_journal_ok: "same_journal c c' \<Longrightarrow> case_ok C c \<Longrightarrow> case_ok C c'"
  by (simp add: same_journal_def case_ok_def)

lemma case_commit_same: "case_commit e rules c = (r, c') \<Longrightarrow> same_journal c c'"
  by (auto simp: case_commit_def same_journal_def split: option.splits prod.splits)

lemma case_purge_same: "case_purge_files C fault purge t c = (r, c') \<Longrightarrow> same_journal c c'"
  by (auto simp: case_purge_files_def same_journal_def split: if_splits prod.splits intro: purge_payloads_ok)

lemma recovery_rules_same: "recovery_rules C e s0 dl c = (r, c') \<Longrightarrow> same_journal c c'"
  by (auto simp: recovery_rules_def split: if_splits sum.splits dest: case_commit_same)

lemma inventory_files_kept:
  "inventory_files ref ver b acc fs = (r, kept) \<Longrightarrow> btree_ok fs \<Longrightarrow> btree_ok kept \<and> set kept \<subseteq> set fs"
proof (induction ref ver b acc fs arbitrary: r kept rule: inventory_files.induct)
  case (2 ref ver b acc n bytes fs)
  have tail: "btree_ok fs" "\<forall>p \<in> set fs. n < fst p" using "2.prems"(2) by (auto simp: btree_ok_def)
  show ?case
  proof (cases "\<not> ref n \<and> length bytes \<le> bs_max (spec BkPayloadFile) \<and> b")
    case True
    with "2.IH"(1) "2.prems"(1) tail show ?thesis by fastforce
  next
    case False
    define m where "m = (if ref n then res_bind (ok_or (ver n) Unavailable) (\<lambda>len. ok_or (checked_add_u64 acc len) Unavailable)
      else if length bytes > bs_max (spec BkPayloadFile) then Inl Unavailable else ok_or (checked_add_u64 acc (length bytes)) Unavailable)"
    have eq: "inventory_files ref ver b acc ((n, bytes) # fs) =
        (case m of Inl e \<Rightarrow> (Inl e, (n, bytes) # fs) | Inr acc1 \<Rightarrow> (case inventory_files ref ver b acc1 fs of (r, kept) \<Rightarrow> (r, (n, bytes) # kept)))"
      using False unfolding m_def by (subst inventory_files.simps(2), subst if_not_P) simp_all
    show ?thesis
    proof (cases m)
      case (Inl e)
      with eq "2.prems" show ?thesis by simp
    next
      case (Inr acc1)
      obtain r' kept' where k: "inventory_files ref ver b acc1 fs = (r', kept')" by force
      have "kept = (n, bytes) # kept'" using "2.prems"(1) unfolding eq Inr by (simp add: k)
      with "2.IH"(2) [OF False Inr [unfolded m_def] k tail(1)] tail(2) show ?thesis by (fastforce simp: btree_ok_def)
    qed
  qed
qed simp

lemma inventory_kept: "inventory ref ver b d = (r, d') \<Longrightarrow> pdisk_ok d \<Longrightarrow> pdisk_ok d' \<and> map fst d' = map fst d"
proof (induction ref ver b d arbitrary: r d' rule: inventory.induct)
  case (2 ref ver b ticket fs dirs)
  have "btree_ok fs" "pdisk_ok dirs" using "2.prems"(2) by (auto simp: pdisk_ok_def btree_ok_def)
  with "2.prems" "2.IH" inventory_files_kept show ?case
    by (auto simp: pdisk_ok_def btree_ok_def split: prod.splits sum.splits) (fastforce+)
qed simp

text \<open>Disks that hold a journal, and disks of a first start that failed: without a journal or without its checkpoint.\<close>

definition case_stored :: "cenv \<Rightarrow> case_disks \<Rightarrow> journal_row list \<Rightarrow> bool" where
  "case_stored C ds rows \<longleftrightarrow> (\<exists>d. ds_journal ds = Some d \<and> durable_rows (cn_journal C) d rows) \<and> pdisk_ok (ds_payload ds)
     \<and> (\<exists>tickets. rebuild_tickets C rows = Inr tickets)"

definition case_unstored :: "cenv \<Rightarrow> case_disks \<Rightarrow> bool" where
  "case_unstored C ds \<longleftrightarrow> pdisk_ok (ds_payload ds) \<and> (\<forall>d. ds_journal ds = Some d \<longrightarrow> (\<exists>e. read_head (cn_journal C) d = Inl e))"

lemma recovered_case_cases:
  assumes "recovered_case C c = (r, c1)" and "pdisk_ok (ca_pdisk c)"
  shows "ca_journal c1 = ca_journal c" "ca_jdisk c1 = ca_jdisk c" "pdisk_ok (ca_pdisk c1)"
    "\<And>v. r = Inr v \<Longrightarrow> rebuild_tickets C (jn_rows (ca_journal c)) = Inr (ca_tickets c1)"
  using assms inventory_kept
  by (auto simp: recovered_case_def Let_def split: sum.splits prod.splits)

context case_env
begin

abbreviation rows_of :: "case_state \<Rightarrow> journal_row list" where
  "rows_of c \<equiv> jn_rows (ca_journal c)"

lemma recovers_self: "case_ok C c \<Longrightarrow> recovers C (rows_of c) r c"
  by (simp add: recovers_def recoverable_self)

lemma recovers_same: "same_journal c c' \<Longrightarrow> case_ok C c \<Longrightarrow> recovers C (rows_of c) r c'"
  using recovers_self [of c'] same_journal_ok by (fastforce simp: same_journal_def)

lemma recovers_trans:
  assumes "recovers C old (Inr ()) c1" and "recovers C (rows_of c1) r c'"
  shows "recovers C old r c'"
proof -
  obtain new where new: "rows_of c1 = old @ new" using assms(1) by (auto simp: recovers_def)
  with assms(2) show ?thesis by (auto simp: recovers_def intro: recoverable_extend)
qed

lemma recovers_bind:
  assumes "bind_case m k = (r, c')" and "\<And>r1 c1. m = (r1, c1) \<Longrightarrow> recovers C old r1 c1"
    and "\<And>c1 r2 c2. case_ok C c1 \<Longrightarrow> k c1 = (r2, c2) \<Longrightarrow> recovers C (rows_of c1) r2 c2"
  shows "recovers C old r c'"
  using assms(1) unfolding bind_case_eq
proof (elim disjE exE conjE)
  fix u c1
  assume m: "m = (Inr u, c1)" "k c1 = (r, c')"
  then have "recovers C old (Inr ()) c1" using assms(2) by simp
  moreover from this have "case_ok C c1" by (simp add: recovers_def)
  ultimately show ?thesis using recovers_trans assms(3) m(2) by blast
qed (use assms(2) in simp)

lemma recovery_execute:
  assumes "case_ok C c" and "rows \<noteq> [] \<longrightarrow> row_event (hd rows) \<noteq> EvReceived"
    and "execute_plan C f (recovery_plan rows rules) c = (r, c')"
  shows "recovers C (rows_of c) r c'"
proof -
  have "plan_rows_ok c (pl_rows (recovery_plan rows rules))"
    using assms(2) by (auto simp: plan_rows_ok_def recovery_plan_def split: list.splits)
  from execute_keeps [OF assms(1) this assms(3), of r] show ?thesis
    by (cases r) (auto simp: case_keeps_def recovers_def)
qed

lemma finish_intake_recovers:
  assumes "case_ok C c" and "finish_intake C f v t c = (r, c')"
  shows "recovers C (rows_of c) r c'"
proof (cases "intake_rows C (rv_finish_now f) v t c")
  case (Inl e)
  with assms recovers_self show ?thesis by (auto simp: finish_intake_def)
next
  case (Inr p)
  obtain rows rules where p: "p = (rows, rules)" by force
  from intake_rows_shape(3) [OF Inr [unfolded p]] Inr p assms(2) show ?thesis
    by (intro recovery_execute [OF assms(1), of rows _ rules]) (simp_all add: finish_intake_def)
qed

lemma finish_pending_recovers:
  assumes "case_ok C c" and "finish_pending C f v s0 t c = (r, c')"
  shows "recovers C (rows_of c) r c'"
proof (cases "tk_pending t")
  case None
  with assms recovers_self show ?thesis by (auto simp: finish_pending_def)
next
  case (Some intent)
  show ?thesis
    using assms(2) unfolding finish_pending_def Some option.case
  proof (rule recovers_bind)
    fix r1 c1
    assume "(if row_event intent = EvPurgeIntent
       then bind_case (case_purge_files C (rv_purge f) True t c) (\<lambda>c. (Inr (), c\<lparr>ca_usage := btree_insert (tk_id t) 0 (ca_usage c)\<rparr>))
       else case recovery_operation C c t intent v of Inl e \<Rightarrow> (Inl e, c)
            | Inr dl \<Rightarrow> bind_case (recovery_rules C (rv_commit f) s0 dl c) (hook_case (rv_rules f))) = (r1, c1)"
    then have "same_journal c c1"
      by (auto simp: bind_case_eq hook_case_eq split: if_splits sum.splits dest!: case_purge_same recovery_rules_same)
         (simp_all add: same_journal_def)
    then show "recovers C (rows_of c) r1 c1" by (rule recovers_same [OF _ assms(1)])
  next
    fix c1 r2 c2
    assume ok: "case_ok C c1" and k: "(case completion t intent (rv_pending_now f) ''system.recovery'' of Inl e \<Rightarrow> (Inl e, c1)
       | Inr fin \<Rightarrow> execute_plan C (rv_pending_plan f) (recovery_plan [fin] None) c1) = (r2, c2)"
    show "recovers C (rows_of c1) r2 c2"
    proof (cases "completion t intent (rv_pending_now f) ''system.recovery''")
      case (Inl e)
      with k recovers_self [OF ok] show ?thesis by simp
    next
      case (Inr fin)
      with k recovery_execute [OF ok, of "[fin]"] completion_row(1) [OF Inr] completion_not show ?thesis by auto
    qed
  qed
qed

lemma finish_decision_recovers:
  assumes "case_ok C c" and "finish_decision C f v t c = (r, c')"
  shows "recovers C (rows_of c) r c'"
proof -
  have "c' = c \<or> (\<exists>decided i seq fin prepared. execute_plan C (rv_finish_plan f) (recovery_plan
      [decided\<lparr> row_event := EvActionIntent, row_actor := ''system.recovery'', row_at := rv_finish_now f, row_intent_sequence := seq,
         row_asset_ids := documents i, row_effective_at := row_at decided \<rparr>, fin] (Some prepared)) c = (r, c'))"
    using assms(2) unfolding finish_decision_def Let_def
    by (auto split: option.splits if_splits sum.splits simp: res_bind_Inr)
  then show ?thesis
  proof (elim disjE exE)
    assume "c' = c"
    with recovers_self [OF assms(1)] show ?thesis by simp
  next
    fix decided i seq fin prepared
    assume "execute_plan C (rv_finish_plan f) (recovery_plan
      [decided\<lparr> row_event := EvActionIntent, row_actor := ''system.recovery'', row_at := rv_finish_now f, row_intent_sequence := seq,
         row_asset_ids := documents i, row_effective_at := row_at decided \<rparr>, fin] (Some prepared)) c = (r, c')"
    then show ?thesis by (rule recovery_execute [OF assms(1), rotated]) simp
  qed
qed

lemma reconcile_ticket_recovers:
  assumes "case_ok C c" and "reconcile_ticket C f v s0 t c = (r, c')"
  shows "recovers C (rows_of c) r c'"
  using assms(2) unfolding reconcile_ticket_def
proof (rule recovers_bind)
  fix r1 c1
  assume "(if tk_pending t \<noteq> None then finish_pending C f v s0 t c else (verify_completed C c t v s0, c)) = (r1, c1)"
  then show "recovers C (rows_of c) r1 c1"
    using finish_pending_recovers [OF assms(1)] recovers_self [OF assms(1)] by (auto split: if_splits)
next
  fix c1 r2 c2
  assume "case_ok C c1" and "(case map_of (ca_tickets c1) (tk_id t) of None \<Rightarrow> (Inl Unavailable, c1)
     | Some current \<Rightarrow> if tk_state current \<in> {StReceived, StAcknowledged} then finish_intake C f v current c1
         else if tk_state current = StDecided then finish_decision C f v current c1 else (Inr (), c1)) = (r2, c2)"
  then show "recovers C (rows_of c1) r2 c2"
    using recovers_self finish_intake_recovers finish_decision_recovers by (auto split: option.splits if_splits)
qed

lemma reconcile_tickets_recovers:
  "case_ok C c \<Longrightarrow> reconcile_tickets C F v s0 n ts c = (r, c') \<Longrightarrow> recovers C (rows_of c) r c'"
proof (induction ts arbitrary: n c r c')
  case Nil
  then show ?case using recovers_self by simp
next
  case (Cons t ts)
  from Cons.prems(2) show ?case
    unfolding reconcile_tickets.simps
    by (rule recovers_bind) (erule reconcile_ticket_recovers [OF Cons.prems(1)], erule (1) Cons.IH)
qed

lemma system_step_recovers:
  assumes "case_ok C c" and "\<forall>x \<in> set new. row_ticket_id x = []" and "durable_rows E d (rows_of c @ new)"
    and "r = Inr () \<longrightarrow> consistent E j d \<and> jn_rows j = rows_of c @ new"
  shows "recovers C (rows_of c) r (c\<lparr> ca_journal := j, ca_jdisk := d \<rparr>)"
  using assms rebuild_system_rows [OF assms(2), of C "rows_of c"]
  by (auto simp: recovers_def recoverable_def case_ok_def intro!: exI [of _ new])

lemma reconcile_recovers:
  assumes "consistent E (ca_journal c) (ca_jdisk c)" and "pdisk_ok (ca_pdisk c)"
    and "rebuild_tickets C (rows_of c) = Inr tickets" and "reconcile C F f g c = (r, c')"
  shows "recovers C (rows_of c) r c'"
proof -
  obtain r1 c1 where r1: "recovered_case C c = (r1, c1)" by force
  note c1 = recovered_case_cases [OF r1 assms(2)]
  show ?thesis
  proof (cases r1)
    case (Inl e)
    have "recoverable C (rows_of c) c1"
      unfolding recoverable_def using c1 assms(1,3) consistent_durable by (intro conjI exI [of _ "[]"] exI [of _ tickets]) auto
    with Inl r1 assms(4) show ?thesis by (auto simp: reconcile_def recovers_def)
  next
    case (Inr v)
    have ok: "case_ok C c1" using c1 Inr assms(1) by (simp add: case_ok_def)
    have "bind_case (reconcile_tickets C F v (st_state (ca_rules c)) 0 (map snd (ca_tickets c1)) c1)
        (\<lambda>c2. case finish_recovery E f g (ca_journal c2) (ca_jdisk c2) of (r, j, d) \<Rightarrow> (r, c2\<lparr> ca_journal := j, ca_jdisk := d \<rparr>)) = (r, c')"
      using assms(4) r1 Inr by (simp add: reconcile_def)
    then have "recovers C (rows_of c1) r c'"
    proof (rule recovers_bind)
      show "recovers C (rows_of c1) r2 c2"
        if "reconcile_tickets C F v (st_state (ca_rules c)) 0 (map snd (ca_tickets c1)) c1 = (r2, c2)" for r2 c2
        using reconcile_tickets_recovers [OF ok that] .
    next
      fix c2 r3 c3
      assume ok2: "case_ok C c2" and k: "(case finish_recovery E f g (ca_journal c2) (ca_jdisk c2) of
          (r, j, d) \<Rightarrow> (r, c2\<lparr> ca_journal := j, ca_jdisk := d \<rparr>)) = (r3, c3)"
      obtain j d where fr: "finish_recovery E f g (ca_journal c2) (ca_jdisk c2) = (r3, j, d)" "c3 = c2\<lparr> ca_journal := j, ca_jdisk := d \<rparr>"
        using k by (auto split: prod.splits)
      from finish_recovery_keeps [OF _ fr(1)] ok2 fr(2) system_step_recovers [OF ok2] show "recovers C (rows_of c2) r3 c3"
        by (auto simp: case_ok_def)
    qed
    with c1(1) show ?thesis by simp
  qed
qed

lemma case_list_access_recovers:
  assumes "case_ok C c" and "case_list_access C oi listed c = (r, c')"
  shows "recovers C (rows_of c) r c'"
proof (cases "on_listed oi")
  case None
  with assms recovers_self show ?thesis by (simp add: case_list_access_def)
next
  case (Some bytes)
  obtain j d where a: "record_list_access E (on_access oi) (ca_journal c) (ca_jdisk c) (listed_metadata_of listed) = (r, j, d)"
      "c' = c\<lparr> ca_journal := j, ca_jdisk := d \<rparr>"
    using assms(2) Some by (auto simp: case_list_access_def split: prod.splits)
  have c: "consistent E (ca_journal c) (ca_jdisk c)" using assms(1) by (simp add: case_ok_def)
  from a(1) consider (refused) e where "r = Inl e" "j = ca_journal c" "d = ca_jdisk c"
    | (row) rows where "prepare_rows E (ca_journal c) [list_access_row E (listed_metadata_of listed)] = Inr rows"
        "append_tracked E (on_access oi) (ca_journal c) (ca_jdisk c) (rows ! 0) = (r, j, d)"
    by (auto simp: record_list_access_def Let_def res_bind_Inr res_then_Inr split: sum.splits)
  then show ?thesis
  proof cases
    case refused
    with a(2) recovers_self [OF assms(1)] show ?thesis by simp
  next
    case row
    from system_append [OF c row] a(2) system_step_recovers [OF assms(1)] show ?thesis
      by (auto simp: list_access_row_def empty_row_def)
  qed
qed

lemma recovers_stored:
  assumes "recovers C rows r c"
  shows "\<exists>new. case_stored C (case_disks_of c) (rows @ new) \<and> (r = Inr () \<longrightarrow> case_ok C c \<and> rows_of c = rows @ new)"
proof (cases "r = Inr ()")
  case True
  with assms obtain new where "case_ok C c" "rows_of c = rows @ new" by (auto simp: recovers_def)
  moreover from this(1) have "durable_rows E (ca_jdisk c) (rows_of c)" using consistent_durable by (simp add: case_ok_def)
  ultimately show ?thesis
    by (intro exI [of _ new]) (auto simp: case_stored_def case_disks_of_def case_ok_def)
next
  case False
  with assms show ?thesis by (auto simp: recovers_def recoverable_def case_stored_def case_disks_of_def)
qed

lemma open_case_loaded:
  assumes "open_unpublished E (on_tail oi) (on_init oi) (ds_journal ds) = (Inr j, jd)" and "consistent E j jd"
    and "rebuild_tickets C (jn_rows j) = Inr tickets" and "pdisk_ok (ds_payload ds)"
    and "open_case C oi listed st ds = (r, st', ds')"
  shows "\<exists>new. case_stored C ds' (jn_rows j @ new) \<and> (\<forall>c. r = Inr c \<longrightarrow> ds' = case_disks_of c \<and> case_ok C c \<and> rows_of c = jn_rows j @ new)"
proof -
  let ?c = "fresh_case oi j jd (ds_payload ds) st"
  obtain r1 c1 where b: "bind_case (reconcile C (on_steps oi) (on_append oi) (on_head oi) ?c) (case_list_access C oi listed) = (r1, c1)" by force
  then have out: "r = res_bind r1 (\<lambda>_. Inr c1)" "ds' = case_disks_of c1" using assms(1,5) by (auto simp: open_case_def)
  have "recovers C (rows_of ?c) r2 c2"
    if "reconcile C (on_steps oi) (on_append oi) (on_head oi) ?c = (r2, c2)" for r2 c2
    by (rule reconcile_recovers [OF _ _ _ that, of tickets]) (use assms(2-4) in \<open>simp_all add: fresh_case_def\<close>)
  from recovers_bind [OF b this case_list_access_recovers] have "recovers C (jn_rows j) r1 c1" by (simp add: fresh_case_def)
  from recovers_stored [OF this] out show ?thesis by (cases r1) auto
qed

lemma open_case_stored:
  assumes "case_stored C ds rows" and "open_case C oi listed st ds = (r, st', ds')"
  shows "\<exists>new. case_stored C ds' (rows @ new) \<and> (\<forall>c. r = Inr c \<longrightarrow> ds' = case_disks_of c \<and> case_ok C c \<and> rows_of c = rows @ new)"
proof -
  obtain d where d: "ds_journal ds = Some d" "durable_rows E d rows" "pdisk_ok (ds_payload ds)"
    using assms(1) by (auto simp: case_stored_def)
  obtain tickets where t: "rebuild_tickets C rows = Inr tickets" using assms(1) by (auto simp: case_stored_def)
  obtain r1 jd where l: "load E (on_tail oi) d = (r1, jd)" by force
  from load_durable [OF d(2) l] show ?thesis
  proof (elim disjE exE conjE)
    fix e
    assume "r1 = Inl e" "durable_rows E jd rows"
    with d t l assms(2) show ?thesis
      by (intro exI [of _ "[]"]) (auto simp: open_case_def open_unpublished_def case_stored_def)
  next
    fix k
    assume "r1 = Inr k" "jn_rows k = rows" "consistent E k jd"
    with open_case_loaded [OF _ _ _ d(3) assms(2), of k jd tickets] d t l show ?thesis by (simp add: open_unpublished_def)
  qed
qed

lemma initialize_cases:
  assumes "initialize E g = (r, d)"
  shows "(\<exists>j. r = Inr j \<and> consistent E j d \<and> jn_rows j = []) \<or> (\<exists>e. r = Inl e) \<and> (durable_rows E d [] \<or> (\<exists>e. read_head E d = Inl e))"
proof (cases r)
  case (Inr j)
  with journal_env.initialize_consistent [OF journal hook] assms show ?thesis by simp
next
  case (Inl e)
  let ?head = "head_of_rows [] 0"
  have valid: "head_valid ?head" using head_of_rows_valid [of E "[]"] by simp
  have none: "\<exists>e. read_head E \<lparr> jd_events = [], jd_head = [], jd_quarantine = [] \<rparr> = Inl e"
    by (cases "read_head E \<lparr> jd_events = [], jd_head = [], jd_quarantine = [] \<rparr>")
       (auto simp: read_head_def res_simps Let_def split: if_splits)
  have written: "durable_rows E \<lparr> jd_events = [], jd_head = b @ [newline], jd_quarantine = [] \<rparr> []"
    if "cd_head (je_codec E) ?head = Some b" for b
    using journal_env.read_head_written [OF journal valid that _ hook, of "\<lparr> jd_events = [], jd_head = b @ [newline], jd_quarantine = [] \<rparr>"]
      head_of_rows_checkpoint [of E "[]" "[]"] by (auto simp: durable_rows_def quarantine_bounded_def)
  from assms Inl none written show ?thesis
    by (auto simp: initialize_def Let_def write_head_def split: option.splits head_fault.splits prod.splits sum.splits)
qed

lemma open_case_unstored:
  assumes "case_unstored C ds" and "open_case C oi listed st ds = (r, st', ds')"
  shows "case_unstored C ds' \<and> (\<exists>e. r = Inl e)
    \<or> (\<exists>rows. case_stored C ds' rows \<and> (\<forall>c. r = Inr c \<longrightarrow> ds' = case_disks_of c \<and> case_ok C c \<and> rows_of c = rows))"
proof (cases "ds_journal ds")
  case None
  have pd: "pdisk_ok (ds_payload ds)" using assms(1) by (simp add: case_unstored_def)
  have empty: "rebuild_tickets C [] = Inr []" by (simp add: rebuild_tickets_Inr projections_within_def)
  obtain r1 jd where i: "initialize E (on_init oi) = (r1, jd)" by force
  from initialize_cases [OF i] show ?thesis
  proof (elim disjE exE conjE)
    fix j
    assume "r1 = Inr j" "consistent E j jd" "jn_rows j = []"
    with open_case_loaded [OF _ _ _ pd assms(2), of j jd "[]"] i None empty show ?thesis by (auto simp: open_unpublished_def)
  next
    fix e
    assume "r1 = Inl e" "durable_rows E jd []"
    with i None pd empty assms(2) show ?thesis
      by (intro disjI2 exI [of _ "[]"]) (auto simp: open_case_def open_unpublished_def case_stored_def)
  next
    fix e e'
    assume "r1 = Inl e" "read_head E jd = Inl e'"
    with i None pd assms(2) show ?thesis by (auto simp: open_case_def open_unpublished_def case_unstored_def)
  qed
next
  case (Some d)
  with assms show ?thesis by (auto simp: open_case_def open_unpublished_def case_unstored_def load_def)
qed

end

section \<open>Histories\<close>

text \<open>
  The world of the store: the time, the disks and the store in memory, if the process runs. A step is a call at
  some later time, which may fail anywhere, or a restart on the disks, whether the process was running or not.
\<close>

record world =
  wd_now :: int
  wd_disks :: case_disks
  wd_store :: "case_store option"

definition fresh_world :: "cenv \<Rightarrow> string option \<Rightarrow> world" where
  "fresh_world C rules = \<lparr> wd_now = je_now (cn_journal C), wd_disks = \<lparr> ds_journal = None, ds_payload = [], ds_rules = rules \<rparr>, wd_store = None \<rparr>"

definition called_disks :: "case_disks \<Rightarrow> case_store \<Rightarrow> case_disks" where
  "called_disks ds s = (case so_case s of None \<Rightarrow> ds | Some c \<Rightarrow> case_disks_of c)"

inductive world_step :: "cenv \<Rightarrow> world \<Rightarrow> world \<Rightarrow> bool" for C where
  restart: "wd_now w \<le> n \<Longrightarrow> open_store (at_time C n) oi (wd_disks w) = (r, ds) \<Longrightarrow>
    world_step C w \<lparr> wd_now = n, wd_disks = ds, wd_store = (case r of Inl _ \<Rightarrow> None | Inr p \<Rightarrow> Some (fst p)) \<rparr>"
| call: "wd_now w \<le> n \<Longrightarrow> wd_store w = Some s \<Longrightarrow> store_call (at_time C n) c s = (b, s') \<Longrightarrow>
    world_step C w \<lparr> wd_now = n, wd_disks = called_disks (wd_disks w) s', wd_store = Some s' \<rparr>"

definition running_ok :: "cenv \<Rightarrow> case_disks \<Rightarrow> journal_row list \<Rightarrow> case_store \<Rightarrow> bool" where
  "running_ok C ds rows s \<longleftrightarrow>
     (so_unavailable s \<or> (\<exists>c. so_case s = Some c \<and> case_ok C c \<and> jn_rows (ca_journal c) = rows))
     \<and> (\<forall>c. so_case s = Some c \<longrightarrow> ds = case_disks_of c)"

definition world_stored :: "cenv \<Rightarrow> world \<Rightarrow> journal_row list \<Rightarrow> bool" where
  "world_stored C w rows \<longleftrightarrow> case_stored (at_time C (wd_now w)) (wd_disks w) rows
     \<and> (\<forall>s. wd_store w = Some s \<longrightarrow> running_ok (at_time C (wd_now w)) (wd_disks w) rows s)"

definition world_unstored :: "cenv \<Rightarrow> world \<Rightarrow> bool" where
  "world_unstored C w \<longleftrightarrow> case_unstored (at_time C (wd_now w)) (wd_disks w)
     \<and> (\<forall>s. wd_store w = Some s \<longrightarrow> so_unavailable s \<and> so_case s = None)"

lemma case_stored_later:
  "case_stored (at_time C m) ds rows \<Longrightarrow> m \<le> n \<Longrightarrow> case_stored (at_time C n) ds rows"
  using durable_later [of "(cn_journal C)\<lparr> je_now := m \<rparr>" _ rows n] by (auto simp: case_stored_def)

lemma case_unstored_later: "case_unstored (at_time C m) ds \<Longrightarrow> case_unstored (at_time C n) ds"
  by (simp add: case_unstored_def)

lemma open_store_cases:
  assumes "open_store C oi ds = (r, ds')"
  obtains (fatal) e where "r = Inl e" "ds' = ds"
  | (opened) listed st0 q st where "open_case C oi listed st0 ds = (q, st, ds')"
      "\<And>e. r = Inl e \<Longrightarrow> q = Inl e" "\<And>s st1. r = Inr (s, st1) \<Longrightarrow> so_unavailable s \<and> so_case s = None \<and> (\<exists>e. q = Inl e)
        \<or> \<not> so_unavailable s \<and> (\<exists>c. so_case s = Some c \<and> q = Inr c)"
  using assms unfolding open_store_def
  by (auto split: sum.splits prod.splits compliance_error.splits)

lemma stored_restart:
  assumes "case_env C" and "case_stored C ds rows" and "open_store C oi ds = (r, ds')"
  shows "\<exists>new. case_stored C ds' (rows @ new) \<and> (\<forall>s st. r = Inr (s, st) \<longrightarrow> running_ok C ds' (rows @ new) s)"
  using assms(3)
proof (cases rule: open_store_cases)
  case (fatal e)
  with assms(2) show ?thesis by (intro exI [of _ "[]"]) simp
next
  case (opened listed st0 q st)
  from case_env.open_case_stored [OF assms(1,2) opened(1)] opened(3) show ?thesis
    unfolding running_ok_def by fastforce
qed

lemma unstored_restart:
  assumes "case_env C" and "case_unstored C ds" and "open_store C oi ds = (r, ds')"
  shows "case_unstored C ds' \<and> (\<forall>s st. r = Inr (s, st) \<longrightarrow> so_unavailable s \<and> so_case s = None)
    \<or> (\<exists>rows. case_stored C ds' rows \<and> (\<forall>s st. r = Inr (s, st) \<longrightarrow> running_ok C ds' rows s))"
  using assms(3)
proof (cases rule: open_store_cases)
  case (fatal e)
  with assms(2) show ?thesis by simp
next
  case (opened listed st0 q st)
  from case_env.open_case_unstored [OF assms(1,2) opened(1)] opened(3) show ?thesis
    unfolding running_ok_def by fastforce
qed

lemma stored_call:
  assumes "case_env C" and "case_stored C ds rows" and "running_ok C ds rows s" and "store_call C k s = (b, s')"
  shows "\<exists>new. case_stored C (called_disks ds s') (rows @ new) \<and> running_ok C (called_disks ds s') (rows @ new) s'"
proof (cases "so_unavailable s")
  case True
  then have s': "s' = s" using unavailable_refuses assms(4) by (metis prod.inject)
  then have "called_disks ds s' = ds" using assms(3) by (auto simp: called_disks_def running_ok_def split: option.splits)
  with assms(2,3) s' show ?thesis by (intro exI [of _ "[]"]) simp
next
  case False
  then obtain c where c: "so_case s = Some c" "case_ok C c" "jn_rows (ca_journal c) = rows" using assms(3) by (auto simp: running_ok_def)
  then have "store_ok C rows s" using case_env.recoverable_self [OF assms(1) c(2)] by (auto simp: store_ok_def)
  from case_env.store_call_ok [OF assms(1) this, of k] assms(4) obtain c' where
      c': "so_case s' = Some c'" "recoverable C rows c'" "so_unavailable s' \<or> case_ok C c' \<and> (\<exists>new. jn_rows (ca_journal c') = rows @ new)"
    by (auto simp: store_ok_def)
  then have "recovers C rows (if so_unavailable s' then Inl Unavailable else Inr ()) c'" by (auto simp: recovers_def)
  from case_env.recovers_stored [OF assms(1) this] c'(1) show ?thesis
    by (auto simp: called_disks_def running_ok_def split: if_splits)
qed

lemma running_later: "running_ok (at_time C m) ds rows s \<Longrightarrow> m \<le> n \<Longrightarrow> running_ok (at_time C n) ds rows s"
  using consistent_later [of "(cn_journal C)\<lparr> je_now := m \<rparr>" _ _ n] by (auto simp: running_ok_def case_ok_def)

lemma world_stored_step:
  assumes "case_env C" and "world_stored C w rows" and "world_step C w w'"
  shows "wd_now w \<le> wd_now w' \<and> (\<exists>new. world_stored C w' (rows @ new))"
  using assms(3)
proof (cases rule: world_step.cases)
  case (restart n oi r ds)
  have "case_stored (at_time C n) (wd_disks w) rows"
    using assms(2) restart(2) case_stored_later by (auto simp: world_stored_def)
  from stored_restart [OF case_env_later [OF assms(1)] this restart(3)] restart(1,2) show ?thesis
    by (auto simp: world_stored_def split: sum.splits)
next
  case (call n s k b s')
  have "case_stored (at_time C n) (wd_disks w) rows" "running_ok (at_time C n) (wd_disks w) rows s"
    using assms(2) call(2,3) case_stored_later running_later by (auto simp: world_stored_def)
  from stored_call [OF case_env_later [OF assms(1)] this call(4)] call(1,2) show ?thesis
    by (auto simp: world_stored_def)
qed

lemma world_unstored_step:
  assumes "case_env C" and "world_unstored C w" and "world_step C w w'"
  shows "world_unstored C w' \<or> (\<exists>rows. world_stored C w' rows)"
  using assms(3)
proof (cases rule: world_step.cases)
  case (restart n oi r ds)
  have "case_unstored (at_time C n) (wd_disks w)" using assms(2) case_unstored_later by (auto simp: world_unstored_def)
  from unstored_restart [OF case_env_later [OF assms(1)] this restart(3)] restart(1) show ?thesis
    by (auto simp: world_stored_def world_unstored_def split: sum.splits)
next
  case (call n s k b s')
  have s: "so_unavailable s" "so_case s = None" using assms(2) call(3) by (auto simp: world_unstored_def)
  then have "s' = s" using unavailable_refuses call(4) by (metis prod.inject)
  with s call(1) assms(2) case_unstored_later show ?thesis by (auto simp: world_unstored_def called_disks_def)
qed

lemma world_stored_steps:
  assumes "(world_step C)\<^sup>*\<^sup>* w w'" and "case_env C" and "world_stored C w rows"
  shows "\<exists>new. world_stored C w' (rows @ new)"
  using assms(1)
proof (induction rule: rtranclp_induct)
  case base
  with assms(3) show ?case by (auto intro: exI [of _ "[]"])
next
  case (step y z)
  then obtain new where "world_stored C y (rows @ new)" by blast
  from world_stored_step [OF assms(2) this step(2)] show ?case by auto
qed

lemma world_reachable:
  assumes "(world_step C)\<^sup>*\<^sup>* (fresh_world C rules) w" and "case_env C"
  shows "world_unstored C w \<or> (\<exists>rows. world_stored C w rows)"
  using assms(1)
proof (induction rule: rtranclp_induct)
  case base
  show ?case by (simp add: world_unstored_def fresh_world_def case_unstored_def pdisk_ok_def)
next
  case (step y z)
  then show ?case using world_unstored_step [OF assms(2)] world_stored_step [OF assms(2)] by blast
qed

text \<open>
  A first start that fails before its checkpoint is renamed leaves a journal directory that every later start takes
  for a journal and refuses to open.
\<close>

lemma failed_first_start_blocks:
  assumes "case_unstored C ds" and "ds_journal ds = Some d" and "open_store C oi ds = (Inr (s, st), ds')"
  shows "so_unavailable s \<and> so_case s = None \<and> ds_journal ds' = Some d"
  using assms(3)
proof (cases rule: open_store_cases)
  case (opened listed st0 q st')
  with assms(1,2) show ?thesis by (auto simp: open_case_def open_unpublished_def case_unstored_def load_def)
qed simp

section \<open>Properties\<close>

text \<open>
  C2: nothing recorded is lost. Take any history of the service from its first start: calls and restarts at
  ascending times, each call and each start failing wherever it may. Whenever a store is in service, memory and
  disk agree. And in every later world of such a history the journal on the disk loads at any later time, its rows extend the rows that
  store had recorded, and the projections rebuild from them; a store in service there holds exactly those rows and
  those projections.
\<close>

theorem journal_outlives_restarts:
  assumes "case_env C" and "(world_step C)\<^sup>*\<^sup>* (fresh_world C rules) w"
    and "wd_store w = Some s" and "\<not> so_unavailable s" and "so_case s = Some c"
    and "(world_step C)\<^sup>*\<^sup>* w w'" and "wd_now w' \<le> n"
  shows "consistent ((cn_journal C)\<lparr> je_now := wd_now w \<rparr>) (ca_journal c) (ca_jdisk c)
    \<and> (\<exists>d k d' new tickets. ds_journal (wd_disks w') = Some d \<and> load ((cn_journal C)\<lparr> je_now := n \<rparr>) TailOk d = (Inr k, d')
        \<and> jn_rows k = jn_rows (ca_journal c) @ new \<and> rebuild_tickets C (jn_rows k) = Inr tickets
        \<and> (\<forall>s' c'. wd_store w' = Some s' \<longrightarrow> \<not> so_unavailable s' \<longrightarrow> so_case s' = Some c' \<longrightarrow>
             jn_rows (ca_journal c') = jn_rows k \<and> ca_tickets c' = tickets))"
proof -
  obtain rows where rows: "world_stored C w rows"
    using world_reachable [OF assms(2,1)] assms(3,4) by (auto simp: world_unstored_def)
  then have ok: "case_ok (at_time C (wd_now w)) c" "jn_rows (ca_journal c) = rows"
    using assms(3-5) by (auto simp: world_stored_def running_ok_def)
  obtain new where new: "world_stored C w' (rows @ new)" using world_stored_steps [OF assms(6,1) rows] by blast
  then obtain d tickets where d: "ds_journal (wd_disks w') = Some d" "durable_rows ((cn_journal C)\<lparr> je_now := wd_now w' \<rparr>) d (rows @ new)"
      "rebuild_tickets C (rows @ new) = Inr tickets"
    by (auto simp: world_stored_def case_stored_def)
  from case_env.durable_load [OF case_env_later [OF assms(1), of "wd_now w'"], of d "rows @ new" n] d(2) assms(7) obtain k d' where
      "load ((cn_journal C)\<lparr> je_now := n \<rparr>) TailOk d = (Inr k, d')" "jn_rows k = rows @ new"
    by auto
  moreover have "jn_rows (ca_journal c') = rows @ new \<and> ca_tickets c' = tickets"
    if "wd_store w' = Some s'" "\<not> so_unavailable s'" "so_case s' = Some c'" for s' c'
    using new that d(3) by (auto simp: world_stored_def running_ok_def case_ok_def)
  ultimately show ?thesis using ok d(1,3) by (auto simp: case_ok_def)
qed

end
