(* ===== verification/Case_Queue.thy ===== *)
theory Case_Queue
  imports Case_Plan
begin

text \<open>
  The moderation queue of the case store: pages of bounded size follow one another by a cursor, the last ticket
  of the page before. Following the cursors ends and gives every selected ticket once, in order of receipt.
\<close>

section \<open>Selection\<close>

definition queue_wanted :: "cenv \<Rightarrow> int \<Rightarrow> queue_view \<Rightarrow> ticket \<Rightarrow> bool" where
  "queue_wanted C now view t \<longleftrightarrow> queue_selected C now view t = Inr True"

definition queue_order :: "cenv \<Rightarrow> int \<Rightarrow> queue_view \<Rightarrow> ticket list \<Rightarrow> ticket list" where
  "queue_order C now view ts = sort_key queue_key (filter (queue_wanted C now view) ts)"

lemma queue_collect_eq:
  "queue_collect C now view cursor ts = Inr items \<longleftrightarrow>
     (\<forall>t \<in> set ts. is_ok (queue_selected C now view t))
     \<and> items = filter (\<lambda>t. case cursor of None \<Rightarrow> True | Some k \<Rightarrow> queue_key t > k) (filter (queue_wanted C now view) ts)"
proof (induction ts arbitrary: items)
  case (Cons t ts)
  show ?case
  proof (cases "queue_selected C now view t")
    case (Inr selected)
    then show ?thesis using Cons.IH by (cases selected) (auto simp: res_bind_Inr queue_wanted_def)
  qed (simp add: is_ok_def)
qed auto

lemma queue_order_strict:
  assumes "distinct (map tk_id ts)"
  shows "sorted_wrt (\<lambda>a b. queue_key a < queue_key b) (queue_order C now view ts)"
proof -
  have "distinct (map tk_id (filter (queue_wanted C now view) ts))" using assms by (simp add: distinct_map_filter)
  then have "distinct (map queue_key (filter (queue_wanted C now view) ts))"
    by (auto simp: distinct_map queue_key_def inj_on_def)
  then have "distinct (map queue_key (queue_order C now view ts))"
    unfolding queue_order_def by (metis distinct_map mset_map mset_sort mset_eq_imp_distinct_iff set_sort distinct_sort)
  moreover have "sorted (map queue_key (queue_order C now view ts))" by (simp add: queue_order_def)
  ultimately have "sorted_wrt (<) (map queue_key (queue_order C now view ts))" by (simp add: strict_sorted_iff)
  then show ?thesis by (simp add: sorted_wrt_map)
qed

lemma filter_after:
  fixes key :: "'a \<Rightarrow> 'b :: linorder"
  assumes "sorted_wrt (\<lambda>a b. key a < key b) L" and "i < length L"
  shows "filter (\<lambda>t. key t > key (L ! i)) L = drop (Suc i) L"
proof -
  have L: "L = take (Suc i) L @ drop (Suc i) L" by simp
  have before: "\<not> key t > key (L ! i)" if "t \<in> set (take (Suc i) L)" for t
  proof -
    from that assms(2) obtain j where j: "j < Suc i" "t = L ! j" by (auto simp: in_set_conv_nth)
    then have "j = i \<or> key (L ! j) < key (L ! i)" using assms sorted_wrt_nth_less by (metis less_SucE)
    with j show ?thesis by auto
  qed
  have after: "key t > key (L ! i)" if "t \<in> set (drop (Suc i) L)" for t
  proof -
    from that obtain j where j: "j < length (drop (Suc i) L)" "t = drop (Suc i) L ! j" by (metis in_set_conv_nth)
    then have "t = L ! (Suc i + j)" "Suc i + j < length L" by auto
    then show ?thesis using sorted_wrt_nth_less [OF assms(1), of i "Suc i + j"] by simp
  qed
  have "filter (\<lambda>t. key t > key (L ! i)) L
      = filter (\<lambda>t. key t > key (L ! i)) (take (Suc i) L) @ filter (\<lambda>t. key t > key (L ! i)) (drop (Suc i) L)"
    by (subst L) (rule filter_append)
  also have "\<dots> = drop (Suc i) L" using before after by (simp add: filter_empty_conv filter_id_conv)
  finally show ?thesis .
qed

section \<open>Pages\<close>

fun queue_pages ::
  "cenv \<Rightarrow> case_store \<Rightarrow> string \<Rightarrow> nat \<Rightarrow> queue_view \<Rightarrow> int \<Rightarrow> nat \<Rightarrow> ticket_id option \<Rightarrow> ticket list list option" where
  "queue_pages C s actor limit view now 0 after = None"
| "queue_pages C s actor limit view now (Suc n) after =
     (case store_queue C s actor after limit view now of
        Inl e \<Rightarrow> None
      | Inr page \<Rightarrow>
          (case qp_next page of
             None \<Rightarrow> Some [qp_items page]
           | Some tid \<Rightarrow> map_option ((#) (qp_items page)) (queue_pages C s actor limit view now n (Some tid))))"

lemma spec_QueueLimit: "bs_min (spec BkQueueLimit) = 1" "bs_max (spec BkQueueLimit) = 50"
  by (simp_all add: bound_eval)

definition page_of :: "int \<Rightarrow> nat \<Rightarrow> ticket list \<Rightarrow> queue_page" where
  "page_of now limit items =
     \<lparr> qp_observed_at = now, qp_items = take limit items,
       qp_next = (if limit < length items
                  then map_option tk_id (if take limit items = [] then None else Some (last (take limit items))) else None) \<rparr>"

lemma store_queue_collected:
  assumes "so_case s = Some c" and "\<not> so_unavailable s" and "actor_ok actor = Inr ()" and "validate_bound BkQueueLimit limit = Inr ()"
    and "(case after of None \<Rightarrow> Inr None
          | Some tid \<Rightarrow> res_bind (ok_or (map_of (ca_tickets c) tid) InvalidInput) (\<lambda>t. Inr (Some (queue_key t)))) = Inr cursor"
    and "queue_collect C now view cursor (map snd (ca_tickets c)) = Inr collected"
  shows "store_queue C s actor after limit view now = Inr (page_of now limit (sort_key queue_key collected))"
  using assms by (simp add: store_queue_def page_of_def Let_def)

text \<open>The page that starts at position \<open>m\<close> of the whole order.\<close>

lemma store_queue_page:
  assumes "so_case s = Some c" and "\<not> so_unavailable s" and "projections_ok (ca_tickets c)" and "actor_ok actor = Inr ()"
    and "validate_bound BkQueueLimit limit = Inr ()" and "\<forall>t \<in> set (map snd (ca_tickets c)). is_ok (queue_selected C now view t)"
    and "L = queue_order C now view (map snd (ca_tickets c))"
    and "after = None \<and> m = 0 \<or> 0 < m \<and> m \<le> length L \<and> after = Some (tk_id (L ! (m - 1)))"
  shows "store_queue C s actor after limit view now = Inr \<lparr> qp_observed_at = now, qp_items = take limit (drop m L),
     qp_next = (if m + limit < length L then Some (tk_id (L ! (m + limit - 1))) else None) \<rparr>"
proof -
  have limit: "0 < limit" using assms(5) by (auto simp: validate_bound_Inr spec_QueueLimit)
  have ids: "map tk_id (map snd (ca_tickets c)) = map fst (ca_tickets c)" using assms(3) by (auto simp: projections_ok_def)
  have distinct: "distinct (map tk_id (map snd (ca_tickets c)))"
    unfolding ids using assms(3) by (simp add: projections_btree btree_ok_distinct)
  have lookup: "map_of (ca_tickets c) (tk_id t) = Some t" if "t \<in> set L" for t
    using that assms(3,7) by (auto simp: queue_order_def projections_ok_def btree_ok_distinct)
  have cursor: "sort_key queue_key (filter (\<lambda>t. queue_key t > queue_key (L ! i)) (filter (queue_wanted C now view) (map snd (ca_tickets c))))
      = drop (Suc i) L" if "i < length L" for i
    using filter_after [OF queue_order_strict [OF distinct, of C now view], of i] that
    unfolding filter_sort [symmetric] assms(7) queue_order_def by simp
  have next_id: "map_option tk_id (if take limit (drop m L) = [] then None else Some (last (take limit (drop m L))))
      = Some (tk_id (L ! (m + limit - 1)))" if "m + limit < length L"
    using that limit by (simp add: last_conv_nth)
  have page: "page_of now limit (drop m L) = \<lparr> qp_observed_at = now, qp_items = take limit (drop m L),
     qp_next = (if m + limit < length L then Some (tk_id (L ! (m + limit - 1))) else None) \<rparr>"
    using next_id by (auto simp: page_of_def)
  from assms(8) show ?thesis
  proof
    assume m: "after = None \<and> m = 0"
    have "queue_collect C now view None (map snd (ca_tickets c)) = Inr (filter (queue_wanted C now view) (map snd (ca_tickets c)))"
      using assms(6) by (simp add: queue_collect_eq)
    from store_queue_collected [OF assms(1,2,4,5) _ this, of after] page m assms(7) show ?thesis by (simp add: queue_order_def)
  next
    assume m: "0 < m \<and> m \<le> length L \<and> after = Some (tk_id (L ! (m - 1)))"
    then have i: "m - 1 < length L" "Suc (m - 1) = m" by linarith+
    have found: "map_of (ca_tickets c) (tk_id (L ! (m - 1))) = Some (L ! (m - 1))" using i(1) by (intro lookup nth_mem)
    have "queue_collect C now view (Some (queue_key (L ! (m - 1)))) (map snd (ca_tickets c))
        = Inr (filter (\<lambda>t. queue_key t > queue_key (L ! (m - 1))) (filter (queue_wanted C now view) (map snd (ca_tickets c))))"
      using assms(6) by (simp add: queue_collect_eq)
    from store_queue_collected [OF assms(1,2,4,5) _ this, of after] page m found cursor [OF i(1)] i(2) show ?thesis by simp
  qed
qed

lemma queue_pages_from:
  assumes "so_case s = Some c" and "\<not> so_unavailable s" and "projections_ok (ca_tickets c)" and "actor_ok actor = Inr ()"
    and "validate_bound BkQueueLimit limit = Inr ()" and "\<forall>t \<in> set (map snd (ca_tickets c)). is_ok (queue_selected C now view t)"
    and "L = queue_order C now view (map snd (ca_tickets c))"
    and "after = None \<and> m = 0 \<or> 0 < m \<and> m \<le> length L \<and> after = Some (tk_id (L ! (m - 1)))"
    and "length L \<le> m + n * limit" and "0 < n"
  shows "\<exists>pages. queue_pages C s actor limit view now n after = Some pages \<and> concat pages = drop m L
    \<and> (\<forall>page \<in> set pages. length page \<le> limit)"
  using assms(8-10)
proof (induction n arbitrary: after m)
  case (Suc n)
  have limit: "0 < limit" using assms(5) by (auto simp: validate_bound_Inr spec_QueueLimit)
  note page = store_queue_page [OF assms(1-7) Suc.prems(1)]
  show ?case
  proof (cases "m + limit < length L")
    case False
    then show ?thesis using page by simp
  next
    case True
    have "\<exists>pages. queue_pages C s actor limit view now n (Some (tk_id (L ! (m + limit - 1)))) = Some pages
        \<and> concat pages = drop (m + limit) L \<and> (\<forall>page \<in> set pages. length page \<le> limit)"
      using Suc.IH [of "Some (tk_id (L ! (m + limit - 1)))" "m + limit"] True limit Suc.prems(2) by (cases n) auto
    then obtain pages where p: "queue_pages C s actor limit view now n (Some (tk_id (L ! (m + limit - 1)))) = Some pages"
        "concat pages = drop (m + limit) L" "\<forall>page \<in> set pages. length page \<le> limit" by blast
    have "take limit (drop m L) @ drop (m + limit) L = drop m L"
      by (metis add.commute append_take_drop_id drop_drop)
    with p page True show ?thesis by simp
  qed
qed simp

section \<open>Properties\<close>

text \<open>
  C9: following the queue's cursors ends. On a store in service, for an operator alias and a page size within
  bounds, asking for the page after the last ticket of the page before ends after at most one page more than the
  selected tickets fill, and the pages joined are exactly the selected tickets, each once, in the order of their
  receipt and identifier; no page is longer than asked for.
\<close>

theorem queue_pages_end:
  assumes "so_case s = Some c" and "\<not> so_unavailable s" and "case_ok C c" and "actor_ok actor = Inr ()"
    and "validate_bound BkQueueLimit limit = Inr ()" and "store_queue C s actor None limit view now = Inr first"
  shows "\<exists>pages. queue_pages C s actor limit view now
       (Suc (length (queue_order C now view (map snd (ca_tickets c))) div limit)) None = Some pages
    \<and> concat pages = queue_order C now view (map snd (ca_tickets c))
    \<and> sorted_wrt (\<lambda>a b. queue_key a < queue_key b) (concat pages)
    \<and> (\<forall>page \<in> set pages. length page \<le> limit)"
proof -
  let ?L = "queue_order C now view (map snd (ca_tickets c))"
  note ok = case_ok_projections(1) [OF assms(3)]
  have sel: "\<forall>t \<in> set (map snd (ca_tickets c)). is_ok (queue_selected C now view t)"
    using assms(1,2,6) by (auto simp: store_queue_def res_bind_Inr res_then_Inr queue_collect_eq split: if_splits)
  have ids: "map tk_id (map snd (ca_tickets c)) = map fst (ca_tickets c)" using ok by (auto simp: projections_ok_def)
  have "distinct (map tk_id (map snd (ca_tickets c)))"
    unfolding ids using ok by (simp add: projections_btree btree_ok_distinct)
  note strict = queue_order_strict [OF this, of C now view]
  have "0 < limit" using assms(5) by (auto simp: validate_bound_Inr spec_QueueLimit)
  then have "length ?L \<le> 0 + Suc (length ?L div limit) * limit"
    using dividend_less_div_times [of limit "length ?L"] by simp
  from queue_pages_from [OF assms(1,2) ok assms(4,5) sel refl _ this, of None] strict show ?thesis by auto
qed

end
