(* ===== verification/Journal_Json.thy ===== *)
theory Journal_Json
  imports Journal_Recovery
begin

text \<open>
  An executable instance of the journal's encodings. \<open>serde_json\<close> writes a row as one JSON object
  with the fields in declaration order; the instance writes the same text and reads back that
  canonical form. It shows that the contract \<open>journal_env\<close> can be met and lets the journal's
  operations run.
\<close>

section \<open>Scalars\<close>

definition escape_char :: "char \<Rightarrow> string" where
  "escape_char c =
     (let b = (byte c :: nat) in
      if c = CHR 0x22 then [CHR 0x5C, CHR 0x22]
      else if c = CHR 0x5C then [CHR 0x5C, CHR 0x5C]
      else if b = 8 then [CHR 0x5C, CHR ''b'']
      else if b = 9 then [CHR 0x5C, CHR ''t'']
      else if b = 10 then [CHR 0x5C, CHR ''n'']
      else if b = 12 then [CHR 0x5C, CHR ''f'']
      else if b = 13 then [CHR 0x5C, CHR ''r'']
      else if b < 32 then [CHR 0x5C, CHR ''u'', CHR ''0'', CHR ''0'', hex_digit (b div 16), hex_digit (b mod 16)]
      else [c])"

definition escape :: "string \<Rightarrow> string" where
  "escape s = concat (map escape_char s)"

fun unescape :: "string \<Rightarrow> (string \<times> string) option" where
  "unescape [] = None"
| "unescape (c # cs) =
     (if c = CHR 0x22 then Some ([], cs)
      else if c = CHR 0x5C then
        (case cs of
           [] \<Rightarrow> None
         | e # ds \<Rightarrow>
             (if e = CHR ''u'' then
                (case ds of
                   _ # _ # a # b # es \<Rightarrow>
                     map_option (\<lambda>(s, r). (char_of (16 * nibble a + nibble b) # s, r)) (unescape es)
                 | _ \<Rightarrow> None)
              else
                map_option (\<lambda>(s, r).
                   ((if e = CHR ''b'' then char_of (8::nat) else if e = CHR ''t'' then char_of (9::nat)
                     else if e = CHR ''n'' then char_of (10::nat) else if e = CHR ''f'' then char_of (12::nat)
                     else if e = CHR ''r'' then char_of (13::nat) else e) # s, r)) (unescape ds)))
      else map_option (\<lambda>(s, r). (c # s, r)) (unescape cs))"

datatype jval = JStr string | JInt int

definition show_int :: "int \<Rightarrow> string" where
  "show_int i = (if i < 0 then CHR ''-'' # show_nat (nat (- i)) else show_nat (nat i))"

definition digit_run :: "string \<Rightarrow> string" where
  "digit_run s = takeWhile (\<lambda>c. is_ascii_digit (byte c)) s"

definition read_int :: "string \<Rightarrow> (int \<times> string) option" where
  "read_int s =
     (let (neg, t) = (case s of c # cs \<Rightarrow> if c = CHR ''-'' then (True, cs) else (False, s) | [] \<Rightarrow> (False, s));
          ds = digit_run t; n = int (digits_value 0 ds)
      in if ds = [] then None else Some (if neg then - n else n, drop (length ds) t))"

fun show_jval :: "jval \<Rightarrow> string" where
  "show_jval (JStr s) = CHR 0x22 # escape s @ [CHR 0x22]"
| "show_jval (JInt i) = show_int i"

fun read_jval :: "bool \<Rightarrow> string \<Rightarrow> (jval \<times> string) option" where
  "read_jval True (c # cs) = (if c = CHR 0x22 then map_option (\<lambda>(s, r). (JStr s, r)) (unescape cs) else None)"
| "read_jval True [] = None"
| "read_jval False s = map_option (\<lambda>(i, r). (JInt i, r)) (read_int s)"

fun is_jstr :: "jval \<Rightarrow> bool" where
  "is_jstr (JStr _) = True"
| "is_jstr (JInt _) = False"

lemma byte_eqI: "byte c = (byte d :: nat) \<Longrightarrow> c = d"
  by simp

lemma unescape_char:
  "unescape (escape_char c @ rest) = map_option (\<lambda>(s, r). (c # s, r)) (unescape rest)"
proof -
  have ctl: "char_of (16 * nibble (hex_digit (byte c div 16)) + nibble (hex_digit (byte c mod 16))) = c"
    if "byte c < (32::nat)"
    using that by (simp add: hex_digit_props)
  have ne: "c \<noteq> CHR 0x22" "c \<noteq> CHR 0x5C" if "byte c < (32::nat)"
    using that by auto
  have code: "c = char_of k" if "byte c = (k::nat)" for k
    using that by (metis char_of_char)
  show ?thesis
    using ctl ne
    by (auto simp: escape_char_def Let_def dest: code split: if_splits)
qed

lemma unescape_escape: "unescape (escape s @ CHR 0x22 # rest) = Some (s, rest)"
  by (induction s) (auto simp: escape_def unescape_char)

lemma escape_char_no_newline: "newline \<notin> set (escape_char c)"
proof -
  have "hex_digit n \<noteq> newline" if "n < 16" for n
    using hex_digit_props(1) [OF that] by (auto simp: hex_byte_def is_ascii_digit_def)
  moreover have "(byte c :: nat) div 16 < 16" using byte_less [of c] by (simp add: less_mult_imp_div_less)
  ultimately have "hex_digit (byte c div 16) \<noteq> newline" "hex_digit (byte c mod 16) \<noteq> newline"
    by simp_all
  then show ?thesis
    by (auto simp: escape_char_def Let_def dest: sym)
qed

lemma escape_no_newline: "newline \<notin> set (escape s)"
  using escape_char_no_newline by (auto simp: escape_def)

lemma digit_run_append:
  assumes "\<forall>c \<in> set s. is_ascii_digit (byte c)" and "rest \<noteq> [] \<Longrightarrow> \<not> is_ascii_digit (byte (hd rest))"
  shows "digit_run (s @ rest) = s"
  using assms by (induction s) (auto simp: digit_run_def takeWhile_eq_Nil_iff)

lemma read_show_int:
  assumes "rest \<noteq> [] \<Longrightarrow> \<not> is_ascii_digit (byte (hd rest))"
  shows "read_int (show_int i @ rest) = Some (i, rest)"
proof -
  have n: "digit_run (show_nat n @ rest) = show_nat n" "show_nat n \<noteq> []"
    "digits_value 0 (show_nat n) = n" "hd (show_nat n) \<noteq> CHR ''-''" for n
  proof -
    show "digit_run (show_nat n @ rest) = show_nat n"
      using show_nat_digits [of n] assms by (intro digit_run_append) auto
    show "show_nat n \<noteq> []" "digits_value 0 (show_nat n) = n" using show_nat_digits [of n] by auto
    then have "is_ascii_digit (byte (hd (show_nat n)))" using show_nat_digits [of n] by auto
    then show "hd (show_nat n) \<noteq> CHR ''-''" by (auto simp: is_ascii_digit_def)
  qed
  show ?thesis
  proof (cases "i < 0")
    case True
    with n [of "nat (- i)"] show ?thesis by (simp add: read_int_def show_int_def Let_def)
  next
    case False
    obtain c cs where "show_nat (nat i) = c # cs" using n(2) by (cases "show_nat (nat i)") auto
    with n [of "nat i"] False show ?thesis by (simp add: read_int_def show_int_def Let_def)
  qed
qed

lemma read_show_jval:
  assumes "rest \<noteq> [] \<Longrightarrow> \<not> is_ascii_digit (byte (hd rest))"
  shows "read_jval (is_jstr v) (show_jval v @ rest) = Some (v, rest)"
  using assms by (cases v) (auto simp: unescape_escape read_show_int)

lemma show_jval_no_newline: "newline \<notin> set (show_jval v)"
proof (cases v)
  case (JStr s)
  then show ?thesis using escape_no_newline [of s] by auto
next
  case (JInt i)
  have "newline \<notin> set (show_nat n)" for n
    using show_nat_digits [of n] by (auto simp: is_ascii_digit_def)
  with JInt show ?thesis by (auto simp: show_int_def)
qed

section \<open>Objects\<close>

text \<open>A schema lists the keys in order, with whether the field is a string.\<close>

definition show_key :: "string \<Rightarrow> string" where
  "show_key k = CHR 0x22 # k @ [CHR 0x22, CHR '':'']"

fun show_fields :: "(string \<times> bool) list \<Rightarrow> jval list \<Rightarrow> string" where
  "show_fields ((k, _) # (k', t) # ks) (v # vs) =
     show_key k @ show_jval v @ CHR '','' # show_fields ((k', t) # ks) vs"
| "show_fields [(k, _)] (v # vs) = show_key k @ show_jval v"
| "show_fields _ _ = []"

fun read_fields :: "(string \<times> bool) list \<Rightarrow> string \<Rightarrow> (jval list \<times> string) option" where
  "read_fields [] s = Some ([], s)"
| "read_fields ((k, t) # ks) s =
     (case strip_prefix (show_key k) s of
        None \<Rightarrow> None
      | Some u \<Rightarrow>
          (case read_jval t u of
             None \<Rightarrow> None
           | Some (v, w) \<Rightarrow>
               (if ks = [] then Some ([v], w)
                else case w of
                       c # cs \<Rightarrow>
                         (if c = CHR '','' then map_option (\<lambda>(vs, r). (v # vs, r)) (read_fields ks cs) else None)
                     | [] \<Rightarrow> None)))"

definition show_object :: "(string \<times> bool) list \<Rightarrow> jval list \<Rightarrow> string" where
  "show_object schema vs = CHR ''{'' # show_fields schema vs @ [CHR ''}'']"

definition read_object :: "(string \<times> bool) list \<Rightarrow> string \<Rightarrow> jval list option" where
  "read_object schema s =
     (case s of
        c # cs \<Rightarrow>
          (if c = CHR ''{'' then
             (case read_fields schema cs of
                Some (vs, [d]) \<Rightarrow> (if d = CHR ''}'' then Some vs else None)
              | Some (vs, [d, e]) \<Rightarrow> (if d = CHR ''}'' \<and> e = newline then Some vs else None)
              | _ \<Rightarrow> None)
           else None)
      | [] \<Rightarrow> None)"

lemma read_show_fields:
  assumes "map snd schema = map is_jstr vs" and "rest \<noteq> []" and "\<not> is_ascii_digit (byte (hd rest))"
    and "schema \<noteq> []"
  shows "read_fields schema (show_fields schema vs @ rest) = Some (vs, rest)"
  using assms
proof (induction schema arbitrary: vs)
  case (Cons kt ks)
  obtain k t where kt: "kt = (k, t)" by force
  obtain v ws where vs: "vs = v # ws" "t = is_jstr v" "map snd ks = map is_jstr ws"
    using Cons.prems(1) kt by (cases vs) auto
  have strip: "strip_prefix (show_key k) (show_key k @ u) = Some u" for u
    by (simp add: strip_prefix_iff)
  show ?case
  proof (cases ks)
    case Nil
    with kt vs Cons.prems strip read_show_jval [of rest v] show ?thesis by simp
  next
    case (Cons kt' ks')
    obtain k' t' where kt': "kt' = (k', t')" by force
    have "read_jval (is_jstr v) (show_jval v @ CHR '','' # show_fields ks ws @ rest)
        = Some (v, CHR '','' # show_fields ks ws @ rest)"
      by (rule read_show_jval) (simp add: is_ascii_digit_def)
    moreover have "read_fields ks (show_fields ks ws @ rest) = Some (ws, rest)"
      using Cons.IH [OF vs(3)] Cons.prems Cons by simp
    ultimately show ?thesis
      using kt kt' vs Cons strip by simp
  qed
qed simp

lemma read_show_object:
  assumes "map snd schema = map is_jstr vs" and "schema \<noteq> []"
  shows "read_object schema (show_object schema vs) = Some vs"
    and "read_object schema (show_object schema vs @ [newline]) = Some vs"
  using read_show_fields [OF assms(1), of "[CHR ''}'']"]
    read_show_fields [OF assms(1), of "[CHR ''}'', newline]"] assms(2)
  by (simp_all add: read_object_def show_object_def is_ascii_digit_def)

lemma show_fields_no_newline:
  "\<forall>(k, t) \<in> set schema. newline \<notin> set k \<Longrightarrow> newline \<notin> set (show_fields schema vs)"
  by (induction schema vs rule: show_fields.induct) (auto simp: show_key_def show_jval_no_newline)

section \<open>Rows and checkpoints\<close>

fun event_name_as_str :: "event_name \<Rightarrow> string" where
  "event_name_as_str EvReceived = ''received''"
| "event_name_as_str EvAcknowledged = ''acknowledged''"
| "event_name_as_str EvQueued = ''queued''"
| "event_name_as_str EvIdentityRequested = ''identity_requested''"
| "event_name_as_str EvIdentityConfirmed = ''identity_confirmed''"
| "event_name_as_str EvClarificationRequested = ''clarification_requested''"
| "event_name_as_str EvClarificationReceived = ''clarification_received''"
| "event_name_as_str EvExtensionNotified = ''extension_notified''"
| "event_name_as_str EvDecided = ''decided''"
| "event_name_as_str EvActionIntent = ''action_intent''"
| "event_name_as_str EvRulesCommitted = ''rules_committed''"
| "event_name_as_str EvActioned = ''actioned''"
| "event_name_as_str EvAppealed = ''appealed''"
| "event_name_as_str EvReversalIntent = ''reversal_intent''"
| "event_name_as_str EvReversed = ''reversed''"
| "event_name_as_str EvUpheld = ''upheld''"
| "event_name_as_str EvProgressCommunicated = ''progress_communicated''"
| "event_name_as_str EvClosed = ''closed''"
| "event_name_as_str EvPurgeIntent = ''purge_intent''"
| "event_name_as_str EvPurged = ''purged''"
| "event_name_as_str EvListAccessed = ''list_accessed''"
| "event_name_as_str EvRecordIntent = ''record_intent''"
| "event_name_as_str EvRecordAdded = ''record_added''"
| "event_name_as_str EvReviewOpened = ''review_opened''"
| "event_name_as_str EvTailRecovered = ''tail_recovered''"

definition all_events :: "event_name list" where
  "all_events = [EvReceived, EvAcknowledged, EvQueued, EvIdentityRequested, EvIdentityConfirmed,
     EvClarificationRequested, EvClarificationReceived, EvExtensionNotified, EvDecided,
     EvActionIntent, EvRulesCommitted, EvActioned, EvAppealed, EvReversalIntent, EvReversed,
     EvUpheld, EvProgressCommunicated, EvClosed, EvPurgeIntent, EvPurged, EvListAccessed,
     EvRecordIntent, EvRecordAdded, EvReviewOpened, EvTailRecovered]"

definition event_name_parse :: "string \<Rightarrow> event_name outcome" where
  "event_name_parse s = ok_or (List.find (\<lambda>e. event_name_as_str e = s) all_events) InvalidInput"

interpretation event_name: vocabulary event_name_as_str event_name_parse
proof
  show "event_name_parse (event_name_as_str v) = Inr v" for v
    by (cases v) (simp_all add: event_name_parse_def all_events_def)
  show "event_name_parse s = Inr v \<Longrightarrow> event_name_as_str v = s" for s v
    by (auto simp: event_name_parse_def res_simps find_Some_iff)
  show "event_name_parse s = Inl e \<Longrightarrow> e = InvalidInput" for s e
    by (auto simp: event_name_parse_def res_simps)
qed

definition row_schema :: "(string \<times> bool) list" where
  "row_schema =
    [(''format_version'', False),
     (''sequence'', False),
     (''previous_hash'', True),
     (''at'', False),
     (''received_at'', False),
     (''event'', True),
     (''ticket_id'', True),
     (''route'', True),
     (''requester_type'', True),
     (''state'', True),
     (''actor'', True),
     (''decision'', True),
     (''reason_code'', True),
     (''policy_version'', True),
     (''asset_ids'', True),
     (''payload_sequence'', False),
     (''commitment'', True),
     (''intent_sequence'', False),
     (''effective_at'', False),
     (''related_ticket_id'', True),
     (''record_ref'', True),
     (''list_version'', True),
     (''url_count'', False),
     (''host_count'', False),
     (''quarantined_bytes'', False),
     (''quarantine_hash'', True),
     (''hash'', True)]"

definition unsigned_values :: "journal_row \<Rightarrow> jval list" where
  "unsigned_values r =
    [JInt (int (row_format_version r)),
     JInt (int (row_sequence r)),
     JStr (row_previous_hash r),
     JInt (row_at r),
     JInt (row_received_at r),
     JStr (event_name_as_str (row_event r)),
     JStr (row_ticket_id r),
     JStr (row_route r),
     JStr (row_requester_type r),
     JStr (row_state r),
     JStr (row_actor r),
     JStr (row_decision r),
     JStr (row_reason_code r),
     JStr (row_policy_version r),
     JStr (row_asset_ids r),
     JInt (int (row_payload_sequence r)),
     JStr (row_commitment r),
     JInt (int (row_intent_sequence r)),
     JInt (row_effective_at r),
     JStr (row_related_ticket_id r),
     JStr (row_record_ref r),
     JStr (row_list_version r),
     JInt (int (row_url_count r)),
     JInt (int (row_host_count r)),
     JInt (int (row_quarantined_bytes r)),
     JStr (row_quarantine_hash r)]"

primrec jint_of :: "jval \<Rightarrow> int" where
  "jint_of (JStr _) = 0"
| "jint_of (JInt i) = i"

primrec jstr_of :: "jval \<Rightarrow> string" where
  "jstr_of (JStr s) = s"
| "jstr_of (JInt _) = []"

definition row_of_values :: "jval list \<Rightarrow> journal_row option" where
  "row_of_values vs =
     (if map is_jstr vs = map snd row_schema then
        case event_name_parse (jstr_of (vs ! 5)) of
          Inl _ \<Rightarrow> None
        | Inr event \<Rightarrow> Some \<lparr>
             row_format_version = nat (jint_of (vs ! 0)),
             row_sequence = nat (jint_of (vs ! 1)),
             row_previous_hash = jstr_of (vs ! 2),
             row_at = jint_of (vs ! 3),
             row_received_at = jint_of (vs ! 4),
             row_event = event,
             row_ticket_id = jstr_of (vs ! 6),
             row_route = jstr_of (vs ! 7),
             row_requester_type = jstr_of (vs ! 8),
             row_state = jstr_of (vs ! 9),
             row_actor = jstr_of (vs ! 10),
             row_decision = jstr_of (vs ! 11),
             row_reason_code = jstr_of (vs ! 12),
             row_policy_version = jstr_of (vs ! 13),
             row_asset_ids = jstr_of (vs ! 14),
             row_payload_sequence = nat (jint_of (vs ! 15)),
             row_commitment = jstr_of (vs ! 16),
             row_intent_sequence = nat (jint_of (vs ! 17)),
             row_effective_at = jint_of (vs ! 18),
             row_related_ticket_id = jstr_of (vs ! 19),
             row_record_ref = jstr_of (vs ! 20),
             row_list_version = jstr_of (vs ! 21),
             row_url_count = nat (jint_of (vs ! 22)),
             row_host_count = nat (jint_of (vs ! 23)),
             row_quarantined_bytes = nat (jint_of (vs ! 24)),
             row_quarantine_hash = jstr_of (vs ! 25),
             row_hash = jstr_of (vs ! 26) \<rparr>
      else None)"

definition json_codec :: codec where
  "json_codec =
     \<lparr> cd_unsigned = (\<lambda>r. Some (show_object (butlast row_schema) (unsigned_values r))),
       cd_row = (\<lambda>r. Some (show_object row_schema (unsigned_values r @ [JStr (row_hash r)]))),
       cd_parse = (\<lambda>s. Option.bind (read_object row_schema s) row_of_values),
       cd_head = (\<lambda>h. Some (show_object
          [(''format_version'', False), (''sequence'', False), (''hash'', True), (''byte_length'', False)]
          [JInt (int (hd_format_version h)), JInt (int (hd_sequence h)), JStr (hd_hash h),
           JInt (int (hd_byte_length h))])),
       cd_head_parse = (\<lambda>s. case read_object
          [(''format_version'', False), (''sequence'', False), (''hash'', True), (''byte_length'', False)] s of
            Some [JInt a, JInt b, JStr c, JInt d] \<Rightarrow>
              (if 0 \<le> a \<and> 0 \<le> b \<and> 0 \<le> d
               then Some \<lparr> hd_format_version = nat a, hd_sequence = nat b, hd_hash = c,
                             hd_byte_length = nat d \<rparr> else None)
          | _ \<Rightarrow> None) \<rparr>"

lemma unsigned_values_hash: "unsigned_values (r\<lparr> row_hash := h \<rparr>) = unsigned_values r"
  by (simp add: unsigned_values_def)

lemma row_schema_kinds:
  "map snd (butlast row_schema) = map is_jstr (unsigned_values r)"
  "map snd row_schema = map is_jstr (unsigned_values r @ [JStr h])"
  by (simp_all add: row_schema_def unsigned_values_def)

lemma row_of_values_row: "row_of_values (unsigned_values r @ [JStr (row_hash r)]) = Some r"
  using row_schema_kinds(2) [of r "row_hash r"]
  by (simp add: row_of_values_def) (simp add: unsigned_values_def event_name.parse_as_str)

lemma row_schema_nonempty: "butlast row_schema \<noteq> []" "row_schema \<noteq> []"
  by (simp_all add: row_schema_def)

lemma row_schema_no_newline:
  "newline \<notin> set (show_fields row_schema vs)"
  by (rule show_fields_no_newline) (simp add: row_schema_def)

lemma length_show_nat: "n < 10 ^ Suc k \<Longrightarrow> length (show_nat n) \<le> Suc k"
proof (induction k arbitrary: n)
  case 0
  then show ?case by (simp add: show_nat.simps [of n])
next
  case (Suc k)
  show ?case
  proof (cases "n < 10")
    case False
    have "n div 10 < 10 ^ Suc k" using Suc.prems by (simp add: less_mult_imp_div_less)
    with Suc.IH False show ?thesis by (simp add: show_nat.simps [of n])
  qed (simp add: show_nat.simps [of n])
qed

lemma length_show_u64: "n \<le> u64_max \<Longrightarrow> length (show_nat n) \<le> 20"
  using length_show_nat [of n 19] by simp

lemma escape_hex: "list_all hex_byte s \<Longrightarrow> escape s = s"
proof (induction s)
  case (Cons c s)
  then have "escape_char c = [c]"
    by (auto simp: hex_byte_def is_ascii_digit_def escape_char_def Let_def)
  with Cons show ?case by (simp add: escape_def)
qed (simp add: escape_def)

text \<open>A journal environment with this codec; its digest keeps the last 32 bytes of its input.\<close>

definition demo_digest :: "string \<Rightarrow> string" where
  "demo_digest s = take 32 (rev s @ replicate 32 (CHR ''0''))"

definition json_env :: "int \<Rightarrow> jenv" where
  "json_env now = \<lparr> je_codec = json_codec, je_digest = demo_digest, je_chrono = gregorian,
     je_now = now, je_max_bytes = 1048576, je_decode_hook = True \<rparr>"

interpretation json: journal_env "json_env now"
proof
  fix r q :: journal_row and b s h :: string and cp :: head
  show "cd_parse (je_codec (json_env now)) (b @ [newline]) = Some r"
    if "cd_row (je_codec (json_env now)) r = Some b"
    using that read_show_object(2) [OF row_schema_kinds(2) [of r "row_hash r"] row_schema_nonempty(2)]
    by (auto simp: json_env_def json_codec_def row_of_values_row)
  show "newline \<notin> set b" if "cd_row (je_codec (json_env now)) r = Some b"
    using that row_schema_no_newline by (auto simp: json_env_def json_codec_def show_object_def)
  show "cd_unsigned (je_codec (json_env now)) (r\<lparr> row_hash := h \<rparr>) = cd_unsigned (je_codec (json_env now)) r"
    by (simp add: json_env_def json_codec_def unsigned_values_hash)
  show "r = q"
    if "cd_unsigned (je_codec (json_env now)) r = Some b" "cd_unsigned (je_codec (json_env now)) q = Some b"
      "row_hash r = row_hash q"
  proof -
    let ?f = "\<lambda>x. show_object (butlast row_schema) (unsigned_values x)"
    note inverse = read_show_object(1) [OF row_schema_kinds(1) row_schema_nonempty(1)]
    have eq: "?f r = ?f q" using that(1,2) by (simp add: json_env_def json_codec_def)
    have "Some (unsigned_values r) = read_object (butlast row_schema) (?f r)"
      by (rule inverse [symmetric])
    also have "\<dots> = Some (unsigned_values q)"
      unfolding eq by (rule inverse)
    finally have "unsigned_values r = unsigned_values q" by (rule option.inject [THEN iffD1])
    then have "Some r = Some q"
      unfolding row_of_values_row [symmetric] that(3) by (rule arg_cong)
    then show ?thesis by (rule option.inject [THEN iffD1])
  qed
  show "cd_head_parse (je_codec (json_env now)) (b @ [newline]) = Some cp"
    if "cd_head (je_codec (json_env now)) cp = Some b"
    using that by (auto simp: json_env_def json_codec_def read_show_object(2))
  show "\<exists>b. cd_head (je_codec (json_env now)) cp = Some b \<and> length b < 8192"
    if "hd_sequence cp \<le> u64_max" "hd_byte_length cp \<le> u64_max" "length (hd_hash cp) = 64"
      "list_all hex_byte (hd_hash cp)" "hd_format_version cp = 1"
    using that length_show_u64 [of 1] length_show_u64 [of "hd_sequence cp"] length_show_u64 [of "hd_byte_length cp"]
    by (simp add: json_env_def json_codec_def show_object_def show_key_def show_int_def escape_hex)
  show "length (je_digest (json_env now) s) = 32"
    by (simp add: json_env_def demo_digest_def)
qed

section \<open>A journal in operation\<close>

text \<open>A fresh journal at one instant, its disk, and a list-access row prepared for it.\<close>

definition demo_env :: jenv where
  "demo_env = json_env 1700000000"

definition demo_journal :: journal where
  "demo_journal = \<lparr> jn_head = head_of_rows [] 0, jn_rows = [], jn_tail = None \<rparr>"

definition demo_disk :: jdisk where
  "demo_disk = snd (initialize demo_env HeadOk)"

definition demo_request :: journal_row where
  "demo_request = list_access_row demo_env \<lparr> lm_version = ''v1'', lm_url_count = 2, lm_host_count = 1 \<rparr>"

definition demo_row :: journal_row where
  "demo_row = demo_request\<lparr> row_sequence := 1, row_previous_hash := zero_hash,
     row_hash := hex (demo_digest (journal_domain @ show_object (butlast row_schema)
        (unsigned_values (demo_request\<lparr> row_sequence := 1, row_previous_hash := zero_hash \<rparr>)))) \<rparr>"

lemma demo_env_sel [simp]:
  "je_codec demo_env = json_codec" "je_digest demo_env = demo_digest" "je_chrono demo_env = gregorian"
  "je_now demo_env = 1700000000" "je_max_bytes demo_env = 1048576" "je_decode_hook demo_env"
  by (simp_all add: demo_env_def json_env_def)

lemma demo_journal_env: "journal_env demo_env"
  unfolding demo_env_def by (rule json.journal_env_axioms)

lemma demo_consistent: "consistent demo_env demo_journal demo_disk"
proof (rule journal_env.initialize_consistent(1) [OF demo_journal_env, of HeadOk])
  show "initialize demo_env HeadOk = (Inr demo_journal, demo_disk)"
    by (simp add: demo_journal_def demo_disk_def initialize_def write_head_def json_codec_def)
qed simp

lemma demo_hash: "length (row_hash demo_row) = 64" "list_all hex_byte (row_hash demo_row)"
  by (simp_all add: demo_row_def hex_all_hex_bytes demo_digest_def)

lemma zero_hash_parses: "hex64_parse zero_hash = Inr (Hex64 zero_hash)"
  by (simp add: hex64_parse_Inr zero_hash_hex)

lemma demo_row_metadata: "validate_metadata gregorian demo_row = Inr ()"
proof -
  have "hex64_parse (row_hash demo_row) = Inr (Hex64 (row_hash demo_row))"
    using demo_hash by (simp add: hex64_parse_Inr)
  moreover have "text_ok ''v1'' BkSlug SlugText = Inr ()"
    by (simp add: text_eval bound_eval)
  moreover have "validate_bound BkListEntries 3 = Inr ()"
    by (simp add: bound_eval)
  ultimately show ?thesis
    using zero_hash_parses
    by (simp add: validate_metadata_def instant_def validate_system_def demo_row_def demo_request_def
        list_access_row_def empty_row_def checked_add_u64_def)
qed

lemma demo_row_bytes: "is_ok (row_bytes demo_env demo_row)"
proof -
  have "length (show_object row_schema (unsigned_values demo_row @ [JStr (row_hash demo_row)])) \<le> 8191"
  proof -
    have e: "escape (row_hash demo_row) = row_hash demo_row" "escape zero_hash = zero_hash"
      using demo_hash zero_hash_hex by (simp_all add: escape_hex)
    have v: "unsigned_values demo_row = unsigned_values (demo_request\<lparr> row_sequence := 1, row_previous_hash := zero_hash \<rparr>)"
      unfolding demo_row_def by (rule unsigned_values_hash)
    show ?thesis
      using demo_hash zero_hash_hex e unfolding v
      by (simp add: show_object_def row_schema_def unsigned_values_def show_key_def demo_request_def
          list_access_row_def empty_row_def show_int_def show_nat.simps escape_def escape_char_def)
  qed
  then show ?thesis
    by (auto simp: is_ok_iff row_bytes_Inr json_codec_def)
qed

lemma demo_prepared: "prepare_rows demo_env demo_journal [demo_request] = Inr [demo_row]"
proof -
  have h: "computed_hash demo_env (demo_request\<lparr> row_sequence := 1, row_previous_hash := zero_hash \<rparr>)
      = Inr (row_hash demo_row)"
    by (simp add: computed_hash_def json_codec_def sha256_def demo_row_def)
  have d: "demo_request\<lparr> row_sequence := 1, row_previous_hash := zero_hash, row_hash := row_hash demo_row \<rparr> = demo_row"
    by (simp add: demo_row_def)
  have t: "verify_time demo_row None 1700000000 = Inr ()"
    by (simp add: verify_time_def demo_row_def demo_request_def list_access_row_def empty_row_def)
  obtain b where b: "row_bytes demo_env demo_row = Inr b" using demo_row_bytes by (auto simp: is_ok_iff)
  show ?thesis
    using h d t b demo_row_metadata
    by (simp add: prepare_rows_def demo_journal_def head_of_rows_def last_at_def checked_add_u64_def Let_def)
qed

lemma demo_chain: "chain_ok demo_env [] [demo_row]"
  using journal_env.prepared_row_links [OF demo_journal_env demo_consistent demo_prepared]
  by (simp add: demo_journal_def)

lemma demo_size: "length (encode_rows demo_env [demo_row]) \<le> u64_max"
proof -
  obtain b where b: "row_bytes demo_env demo_row = Inr b" using demo_row_bytes by (auto simp: is_ok_iff)
  then show ?thesis by (simp add: encode_row_Inr [OF b]) (auto simp: row_bytes_Inr)
qed

lemma demo_verifies:
  assumes "checkpoint_in demo_env cp [demo_row]"
  shows "verify_bytes demo_env (encode_rows demo_env [demo_row]) cp =
    Inr \<lparr> vb_rows = [demo_row], vb_complete_length = length (encode_rows demo_env [demo_row]), vb_tail = None \<rparr>"
  using journal_env.verify_bytes_complete [OF demo_journal_env demo_chain _ demo_size assms, of "[]"] by simp

lemma demo_checkpoints:
  "checkpoint_in demo_env (head_of_rows [] 0) [demo_row]"
  "checkpoint_in demo_env (head_of_rows [demo_row] (length (encode_rows demo_env [demo_row]))) [demo_row]"
  using head_of_rows_checkpoint [of demo_env "[]" "[demo_row]"]
    head_of_rows_checkpoint [OF demo_chain, of "[]"]
  by simp_all

section \<open>Witnesses\<close>

theorem append_crash_recovery_witness:
  "\<exists>k d t. load (demo_env\<lparr> je_now := 1700000001 \<rparr>) TailOk
      (snd (snd (append_tracked demo_env (no_faults\<lparr> af_write := Some 10 \<rparr>) demo_journal demo_disk demo_row)))
      = (Inr k, d) \<and> (jn_rows k = [] \<or> jn_rows k = [demo_row]) \<and> (t = [] \<or> jn_rows k = [])"
proof -
  obtain res j' d' where a: "append_tracked demo_env (no_faults\<lparr> af_write := Some 10 \<rparr>)
      demo_journal demo_disk demo_row = (res, j', d')"
    by (metis prod_cases3)
  have "je_max_bytes demo_env \<le> u64_max" "je_now demo_env \<le> 1700000001" by simp_all
  from append_crash_recovery [OF demo_journal_env _ this(1) demo_consistent demo_prepared a this(2)]
  show ?thesis using a by (auto simp: demo_journal_def)
qed

theorem verify_bytes_exact_witness:
  "verify_bytes demo_env (encode_rows demo_env [demo_row]) (head_of_rows [] 0)
     = Inr \<lparr> vb_rows = [demo_row], vb_complete_length = length (encode_rows demo_env [demo_row]), vb_tail = None \<rparr>"
  using verify_bytes_exact [OF demo_journal_env _ demo_size, of "head_of_rows [] 0"
      "\<lparr> vb_rows = [demo_row], vb_complete_length = length (encode_rows demo_env [demo_row]), vb_tail = None \<rparr>"]
    demo_chain demo_checkpoints(1) by (fastforce intro: exI [of _ "[demo_row]"] exI [of _ "[]"])

theorem journal_tamper_evident_witness:
  "\<exists>v cp. cp = head_of_rows [demo_row] (length (encode_rows demo_env [demo_row]))
     \<and> verify_bytes demo_env (encode_rows demo_env [demo_row]) cp = Inr v
     \<and> hd_sequence cp \<le> length (vb_rows v) \<and> hd_byte_length cp \<le> length (encode_rows demo_env [demo_row])"
proof -
  have "inj_on demo_digest (chain_preimages demo_env [demo_row])"
    by (auto simp: inj_on_def chain_preimages_def)
  with journal_tamper_evident [OF demo_journal_env demo_verifies [OF demo_checkpoints(2)] demo_verifies [OF demo_checkpoints(2)]]
    demo_verifies [OF demo_checkpoints(2)]
  show ?thesis by auto
qed

end
