(* ===== verification/Case_Demo.thy ===== *)
theory Case_Demo
  imports Case_Progress Case_Lifetime Case_Queue Journal_Json
begin

text \<open>
  A concrete case owner: the journal's JSON encoding, one intimate-image report, and the evaluation of its admission.
\<close>

section \<open>The environment\<close>

definition demo_intake :: intake where
  "demo_intake =
     \<lparr> it_report = \<lparr> rf_contact = \<lparr> ct_method = CmEmail, ct_address = ''a@b'' \<rparr>, rf_description = ''photo'',
          rf_requester_type = RqSelfPerson, rf_nonessential_opt_out = False \<rparr>,
       it_assets = [\<lparr> as_url = ''https://x/'', as_document_id = demo_key \<rparr>],
       it_category = IkIntimateImages True True True \<rparr>"

definition demo_penv :: penv where
  "demo_penv =
     \<lparr> pn_digest = (\<lambda>_. replicate 32 (CHR ''c'')), pn_value = (\<lambda>t n c. Some (JvInt (int n))), pn_scalar = (\<lambda>_. Some ''1''),
       pn_encode = (\<lambda>s. if sp_format_version s = 1 \<and> sp_sequence s = 1 \<and> sp_content s = PeIntake demo_intake
           \<and> length (ticket_id_as_str (sp_ticket_id s)) = 64
         then Some (ticket_id_as_str (sp_ticket_id s) @ hex64_as_str (sp_salt s)) else None),
       pn_decode = (\<lambda>b. Some \<lparr> sp_format_version = 1, sp_ticket_id = TicketId (Hex64 (take 64 b)), sp_sequence = 1,
         sp_salt = Hex64 (butlast (drop 64 b)), sp_content = PeIntake demo_intake \<rparr>),
       pn_hook = True, pn_tokenize = (\<lambda>s. [s]), pn_alphanumeric = (\<lambda>_. True) \<rparr>"

definition demo_jenv :: jenv where
  "demo_jenv = (json_env 1700000000)\<lparr> je_digest := (\<lambda>_. replicate 32 (CHR ''h'')), je_max_bytes := cf_max_journal_bytes default_settings \<rparr>"

definition demo_cenv :: cenv where
  "demo_cenv = \<lparr> cn_journal = demo_jenv, cn_rules = demo_renv, cn_payload = demo_penv, cn_settings = default_settings \<rparr>"

definition demo_case :: case_state where
  "demo_case = \<lparr> ca_journal = demo_journal, ca_jdisk = snd (initialize demo_jenv HeadOk), ca_pdisk = [], ca_tickets = [], ca_usage = [],
     ca_rules = \<lparr> st_state = demo_snapshot 0 [] [], st_disk = None, st_observed_utc = 0 \<rparr>,
     ca_writes_disabled = False, ca_started = False \<rparr>"

definition demo_draws :: draws where
  "demo_draws = \<lparr> dr_id = Inr (replicate 32 (CHR ''b'')), dr_salt = Inr (replicate 32 (CHR ''s'')), dr_names = (\<lambda>_. Inl Unavailable) \<rparr>"

definition demo_store :: case_store where
  "demo_store = \<lparr> so_case = Some demo_case, so_unavailable = False \<rparr>"

lemma demo_jenv_sel [simp]:
  "je_codec demo_jenv = json_codec" "je_digest demo_jenv = (\<lambda>_. replicate 32 (CHR ''h''))" "je_chrono demo_jenv = gregorian"
  "je_now demo_jenv = 1700000000" "je_max_bytes demo_jenv = cf_max_journal_bytes default_settings" "je_decode_hook demo_jenv"
  by (simp_all add: demo_jenv_def json_env_def)

lemma demo_cenv_sel [simp]:
  "cn_journal demo_cenv = demo_jenv" "cn_rules demo_cenv = demo_renv" "cn_payload demo_cenv = demo_penv" "cn_settings demo_cenv = default_settings"
  by (simp_all add: demo_cenv_def)

lemma demo_journal_bytes: "cf_max_journal_bytes default_settings \<le> u64_max" "5 * 8192 + 65536 \<le> cf_max_journal_bytes default_settings"
  by (simp_all add: default_settings_def default_of_def bound_eval)

interpretation demo_owner: case_env demo_cenv
proof (rule case_env.intro)
  show "journal_env (cn_journal demo_cenv)"
    using json.journal_env_axioms [of 0] unfolding journal_env_def by (simp add: json_env_def)
  show "je_decode_hook (cn_journal demo_cenv)" "je_max_bytes (cn_journal demo_cenv) \<le> u64_max"
    using demo_journal_bytes by simp_all
  show "payload_codec_ok (cn_payload demo_cenv)"
    unfolding payload_codec_ok_def
  proof (intro conjI allI impI)
    fix s b
    assume "pn_encode (cn_payload demo_cenv) s = Some b"
    then have "sp_format_version s = 1" "sp_sequence s = 1" "sp_content s = PeIntake demo_intake"
      "length (ticket_id_as_str (sp_ticket_id s)) = 64" "b = ticket_id_as_str (sp_ticket_id s) @ hex64_as_str (sp_salt s)"
      by (auto simp: demo_penv_def split: if_splits)
    then show "pn_decode (cn_payload demo_cenv) (b @ [newline]) = Some s"
      by (cases s; cases "sp_ticket_id s" rule: ticket_id.exhaust; cases "sp_salt s"; cases "case sp_ticket_id s of TicketId h \<Rightarrow> h")
         (auto simp: demo_penv_def)
  qed (simp add: demo_penv_def)
qed

lemma demo_case_ok: "case_ok demo_cenv demo_case"
proof -
  have "initialize demo_jenv HeadOk = (Inr demo_journal, snd (initialize demo_jenv HeadOk))"
    by (simp add: demo_journal_def initialize_def write_head_def json_codec_def)
  from journal_env.initialize_consistent(1) [OF demo_owner.journal _ this [folded demo_cenv_sel(1)]] show ?thesis
    by (simp add: case_ok_def demo_case_def demo_journal_def rebuild_tickets_Inr projections_within_def pdisk_ok_def)
qed

section \<open>Rows\<close>

definition hex64s :: "string \<Rightarrow> bool" where
  "hex64s s \<longleftrightarrow> length s = 64 \<and> list_all hex_byte s"

definition demo_link :: string where
  "demo_link = hex (replicate 32 (CHR ''h''))"

definition demo_commitment :: string where
  "demo_commitment = hex (replicate 32 (CHR ''c''))"

definition demo_effective :: int where
  "demo_effective = 1699999990 + 172800 - int (cf_intimate_margin_seconds default_settings)"

definition intake_row :: "string \<Rightarrow> event_name \<Rightarrow> string \<Rightarrow> journal_row" where
  "intake_row ts e state =
     (empty_row e 1700000000)\<lparr> row_actor := ''system.intake'', row_ticket_id := ts, row_route := ''intimate_images'',
        row_requester_type := ''self'', row_received_at := 1699999990, row_state := state \<rparr>"

definition intake_draft :: "string \<Rightarrow> journal_row list" where
  "intake_draft ts =
     [(intake_row ts EvReceived ''received'')\<lparr> row_payload_sequence := 1, row_commitment := demo_commitment \<rparr>,
      (intake_row ts EvActionIntent ''received'')\<lparr> row_intent_sequence := 2, row_reason_code := ''intimate_images'',
         row_asset_ids := replicate 64 (CHR ''a''), row_effective_at := demo_effective, row_payload_sequence := 1,
         row_commitment := demo_commitment \<rparr>,
      (intake_row ts EvRulesCommitted ''received'')\<lparr> row_intent_sequence := 2, row_reason_code := ''intimate_images'',
         row_asset_ids := replicate 64 (CHR ''a''), row_effective_at := demo_effective \<rparr>,
      intake_row ts EvAcknowledged ''acknowledged'',
      intake_row ts EvQueued ''queued'']"

definition linked :: "nat \<Rightarrow> string \<Rightarrow> journal_row \<Rightarrow> journal_row" where
  "linked n previous r = r\<lparr> row_sequence := n, row_previous_hash := previous, row_hash := demo_link \<rparr>"

definition intake_linked :: "string \<Rightarrow> journal_row list" where
  "intake_linked ts =
     [linked 1 zero_hash (intake_draft ts ! 0), linked 2 demo_link (intake_draft ts ! 1), linked 3 demo_link (intake_draft ts ! 2),
      linked 4 demo_link (intake_draft ts ! 3), linked 5 demo_link (intake_draft ts ! 4)]"

lemma hex64s_facts [simp]: "hex64s zero_hash" "hex64s demo_link" "hex64s demo_commitment" "hex64s (replicate 64 (CHR ''a''))"
proof -
  have "list_all hex_byte (replicate 64 (CHR ''a''))" by (simp add: list_all_iff hex_byte_def)
  then show "hex64s zero_hash" "hex64s demo_link" "hex64s demo_commitment" "hex64s (replicate 64 (CHR ''a''))"
    by (simp_all add: hex64s_def zero_hash_hex demo_link_def demo_commitment_def hex_all_hex_bytes)
qed

lemma hex64s_parse:
  "hex64s s \<Longrightarrow> hex64_parse s = Inr (Hex64 s)" "hex64s s \<Longrightarrow> ticket_id_parse s = Inr (TicketId (Hex64 s))"
  "hex64s s \<Longrightarrow> document_key_parse s = Inr (DocumentKey (Hex64 s))" "hex64s s \<Longrightarrow> s \<noteq> []"
  by (auto simp: hex64s_def hex64_parse_Inr ticket_id_parse_Inr document_key_parse_Inr)

lemma demo_effective_value: "demo_effective = 1699999990"
  by (simp add: demo_effective_def default_settings_def default_of_def bound_eval)

lemmas row_eval = intake_draft_def intake_row_def linked_def empty_row_def

lemma demo_row_valid:
  assumes "hex64s ts" and "hex64s previous" and "i < 5"
  shows "validate_metadata gregorian (linked n previous (intake_draft ts ! i)) = Inr ()"
proof -
  note h = hex64s_parse [OF assms(1)] hex64s_parse(1) [OF assms(2)] hex64s_parse [OF hex64s_facts(2)] hex64s_parse [OF hex64s_facts(3)]
    hex64s_parse [OF hex64s_facts(4)]
  have "split_on (CHR '','') (replicate 64 (CHR ''a'')) = [replicate 64 (CHR ''a'')]" by (rule split_on_single) simp
  then have docs: "row_documents (linked n previous (intake_draft ts ! j)) = Inr (if j = 1 \<or> j = 2 then [DocumentKey (Hex64 (replicate 64 (CHR ''a'')))] else [])"
    if "j < 5" for j
    using that h by (auto simp: row_documents_def row_eval less_Suc_eq numeral_nat strictly_ascending_def validate_bound_def validate_range_def bound_eval)
  from assms(3) consider "i = 0" | "i = 1" | "i = 2" | "i = 3" | "i = 4" by linarith
  then show ?thesis
    using h docs [OF assms(3)]
    by cases (simp_all add: row_eval validate_metadata_def validate_ticket_fields_def validate_event_fields_def when_ok_def void_def instant_def
        route_parse_def requester_type_parse_def ticket_state_parse_def ground_parse_def personal_event_def operation_event_def rule_event_def
        demo_effective_value Let_def)
qed

lemma escape_literals:
  "escape ''system.intake'' = ''system.intake''" "escape ''intimate_images'' = ''intimate_images''" "escape ''self'' = ''self''"
  "escape ''received'' = ''received''" "escape ''acknowledged'' = ''acknowledged''" "escape ''queued'' = ''queued''" "escape [] = []"
  "escape ''action_intent'' = ''action_intent''" "escape ''rules_committed'' = ''rules_committed''"
  by (simp_all add: escape_def escape_char_def)

lemma shown_lengths:
  "length (show_int 1) = 1" "length (show_int 0) = 1" "length (show_int 2) = 1" "length (show_int (- 1)) = 2"
  "length (show_int 1700000000) = 10" "length (show_int 1699999990) = 10"
  by (simp_all add: show_int_def show_nat.simps)

lemma demo_row_bytes_ok:
  assumes "hex64s ts" and "hex64s previous" and "i < 5" and "n \<in> {1, 2, 3, 4, 5}"
  shows "\<exists>b. row_bytes demo_jenv (linked n previous (intake_draft ts ! i)) = Inr b"
proof -
  have e: "escape ts = ts" "escape previous = previous" "escape demo_link = demo_link" "escape demo_commitment = demo_commitment"
      "escape (replicate 64 (CHR ''a'')) = replicate 64 (CHR ''a'')"
    and l: "length ts = 64" "length previous = 64" "length demo_link = 64" "length demo_commitment = 64"
    using assms(1,2) hex64s_facts by (auto simp: hex64s_def escape_hex)
  have n: "length (show_int (int n)) = 1" using assms(4) by (auto simp: show_int_def show_nat.simps)
  from assms(3) consider "i = 0" | "i = 1" | "i = 2" | "i = 3" | "i = 4" by linarith
  then have "length (show_object row_schema (unsigned_values (linked n previous (intake_draft ts ! i))
      @ [JStr (row_hash (linked n previous (intake_draft ts ! i)))])) \<le> 8191"
    by cases (simp_all add: show_object_def row_schema_def unsigned_values_def show_key_def row_eval e l n
        escape_literals shown_lengths demo_effective_value)
  then show ?thesis by (auto simp: row_bytes_Inr json_codec_def)
qed

lemma demo_hashes: "computed_hash demo_jenv r = Inr demo_link"
  by (simp add: computed_hash_def json_codec_def sha256_def demo_link_def)

lemma demo_loop_step:
  assumes "hex64s ts" and "hex64s previous" and "i < 5" and "n < 5" and "prior = None \<or> prior = Some 1700000000"
  shows "prepare_loop demo_jenv n previous prior (intake_draft ts ! i # rows) =
    res_bind (prepare_loop demo_jenv (Suc n) demo_link (Some 1700000000) rows) (\<lambda>more. Inr (linked (Suc n) previous (intake_draft ts ! i) # more))"
proof -
  have seq: "Suc n \<in> {1, 2, 3, 4, 5}" using assms(4) by auto
  obtain b where b: "row_bytes demo_jenv (linked (Suc n) previous (intake_draft ts ! i)) = Inr b"
    using demo_row_bytes_ok [OF assms(1-3) seq] by blast
  note v = demo_row_valid [OF assms(1-3), of "Suc n"]
  have at: "row_at (linked (Suc n) previous (intake_draft ts ! i)) = 1700000000"
    using assms(3) by (auto simp: row_eval less_Suc_eq numeral_nat)
  have t: "verify_time (linked (Suc n) previous (intake_draft ts ! i)) prior 1700000000 = Inr ()"
    using assms(5) at by (auto simp: verify_time_def)
  have ch: "checked_add_u64 n 1 = Some (Suc n)" using assms(4) by (simp add: checked_add_u64_def)
  have "prepare_loop demo_jenv n previous prior (r # rows) =
      res_then (verify_time (linked (Suc n) previous r) prior 1700000000)
     (res_then (validate_metadata gregorian (linked (Suc n) previous r))
     (res_then (row_bytes demo_jenv (linked (Suc n) previous r))
     (res_bind (prepare_loop demo_jenv (Suc n) (row_hash (linked (Suc n) previous r)) (Some (row_at (linked (Suc n) previous r))) rows) (\<lambda>more.
        Inr (linked (Suc n) previous r # more)))))" for r
    using ch by (simp add: demo_hashes linked_def Let_def)
  moreover have "row_hash (linked (Suc n) previous (intake_draft ts ! i)) = demo_link" by (simp add: linked_def)
  ultimately show ?thesis using t v b at by (simp del: prepare_loop.simps)
qed

lemma intake_draft_nth: "intake_draft ts = [intake_draft ts ! 0, intake_draft ts ! 1, intake_draft ts ! 2, intake_draft ts ! 3, intake_draft ts ! 4]"
  by (simp add: intake_draft_def)

lemma demo_rows_prepared:
  assumes "hex64s ts"
  shows "prepare_rows demo_jenv demo_journal (intake_draft ts) = Inr (intake_linked ts)"
proof -
  note step = demo_loop_step [OF assms]
  have "prepare_loop demo_jenv 0 zero_hash None
      [intake_draft ts ! 0, intake_draft ts ! 1, intake_draft ts ! 2, intake_draft ts ! 3, intake_draft ts ! 4] = Inr (intake_linked ts)"
    by (simp add: step intake_linked_def numeral_nat del: prepare_loop.simps(2))
  then show ?thesis
    by (subst intake_draft_nth) (simp add: prepare_rows_def demo_journal_def head_of_rows_def last_at_def)
qed

lemma measured_ok:
  assumes "\<forall>row \<in> set rows. \<exists>b. row_bytes E row = Inr b" and "acc + 8192 * length rows \<le> u64_max"
  shows "\<exists>m. res_fold (\<lambda>acc row. res_bind (row_bytes E row) (\<lambda>b. ok_or (checked_add_u64 acc (length b)) Capacity)) acc rows = Inr m
    \<and> m \<le> acc + 8192 * length rows"
  using assms
proof (induction rows arbitrary: acc)
  case (Cons row rows)
  obtain b where b: "row_bytes E row = Inr b" using Cons.prems(1) by auto
  then have "length b \<le> 8192" by (auto simp: row_bytes_Inr)
  moreover from this obtain m where "res_fold (\<lambda>acc row. res_bind (row_bytes E row) (\<lambda>b. ok_or (checked_add_u64 acc (length b)) Capacity))
      (acc + length b) rows = Inr m" "m \<le> acc + length b + 8192 * length rows"
    using Cons.IH [of "acc + length b"] Cons.prems by auto
  ultimately show ?case using b Cons.prems(2) by (auto simp: checked_add_u64_def)
qed simp

lemma demo_rows_bytes:
  assumes "hex64s ts"
  shows "\<forall>row \<in> set (intake_linked ts). \<exists>b. row_bytes demo_jenv row = Inr b"
  using demo_row_bytes_ok [OF assms, of zero_hash 0 1] demo_row_bytes_ok [OF assms, of demo_link 1 2] demo_row_bytes_ok [OF assms, of demo_link 2 3]
    demo_row_bytes_ok [OF assms, of demo_link 3 4] demo_row_bytes_ok [OF assms, of demo_link 4 5]
  by (simp add: intake_linked_def)

lemma demo_reserved:
  assumes "hex64s ts" and "bytes \<le> 1048576"
  shows "\<exists>t. case_reserve demo_cenv demo_case (intake_linked ts) bytes False = Inr t"
proof -
  have p: "ticket_id_parse ts = Inr (TicketId (Hex64 ts))" by (rule hex64s_parse [OF assms(1)])
  obtain t0 where t0: "received (intake_linked ts ! 0) = Inr t0"
      "\<exists>t. res_fold (apply_row gregorian default_settings) t0 (tl (intake_linked ts)) = Inr t \<and> tk_events t = 5"
    using p by (simp add: intake_linked_def row_eval received_def route_parse_def requester_type_parse_def reducer_eval demo_effective_value)
  then obtain t where t: "res_fold (apply_row gregorian default_settings) t0 (tl (intake_linked ts)) = Inr t" "tk_events t = 5" by blast
  obtain m where m: "res_fold (\<lambda>acc row. res_bind (row_bytes demo_jenv row) (\<lambda>b. ok_or (checked_add_u64 acc (length b)) Capacity)) 0
      (intake_linked ts) = Inr m" "m \<le> 40960"
    using measured_ok [OF demo_rows_bytes [OF assms(1)], of 0] by (auto simp: intake_linked_def)
  have shape: "intake_linked ts = intake_linked ts ! 0 # tl (intake_linked ts)" "row_event (intake_linked ts ! 0) = EvReceived"
    "row_ticket_id (intake_linked ts ! 0) = ts"
    by (simp_all add: intake_linked_def row_eval)
  let ?fp = "\<lparr> fp_new_tickets = 1, fp_events = 5, fp_journal_bytes = m, fp_existing_payload = 0, fp_added_payload = bytes,
    fp_total_payload = 0, fp_reserved = False \<rparr>"
  have "project_and_measure demo_cenv demo_case (intake_linked ts) bytes False = Inr (t, ?fp)"
    using t0(1) t m(1) p shape(2,3)
    by (subst (1) shape(1), subst (asm) (3) shape(1))
       (simp add: project_and_measure_def demo_case_def Let_def del: res_fold.simps(2))
  moreover have "reserve_footprint demo_cenv demo_case ?fp = Inr ()"
    using m(2) assms(2)
    by (simp add: reserve_footprint_def demo_case_def demo_journal_def head_of_rows_def reserve_def checked_add_u64_def checked_sub_u64_def
        validate_range_def default_settings_def default_of_def bound_eval)
  ultimately show ?thesis by (simp add: case_reserve_def)
qed

section \<open>The plan\<close>

definition demo_payload :: "string \<Rightarrow> string \<Rightarrow> prepared_payload" where
  "demo_payload ts ss = \<lparr> pp_ticket = TicketId (Hex64 ts), pp_sequence = 1, pp_content = PeIntake demo_intake, pp_bytes = ts @ ss @ [newline],
     pp_commitment = demo_commitment \<rparr>"

lemma demo_intake_valid: "payload_validate demo_penv (PeIntake demo_intake) = Inr ()"
proof -
  have "text_ok ''a@b'' BkContact LabelText = Inr ()" "text_ok ''photo'' BkNarrative NarrativeText = Inr ()"
    by (simp_all add: text_eval bound_eval)
  then show ?thesis
    by (simp add: validate_intake_def demo_intake_def report_fields_validate_def intake_route_def validate_bound_def validate_range_def bound_eval
        validate_category_def btree_set_def)
qed

lemma demo_payload_prepared:
  assumes "hex64s ts" and "hex64s ss"
  shows "prepare_with_salt demo_penv (TicketId (Hex64 ts)) 1 (PeIntake demo_intake) (Hex64 ss) = Inr (demo_payload ts ss)"
proof -
  have "length ts = 64" "length ss = 64" using assms by (simp_all add: hex64s_def)
  moreover have "commitment demo_penv (TicketId (Hex64 ts)) 1 (Hex64 ss) (PeIntake demo_intake) = Inr demo_commitment"
    by (simp add: commitment_def demo_penv_def sha256_def demo_commitment_def)
  ultimately show ?thesis
    using demo_intake_valid
    by (simp add: prepare_with_salt_def demo_payload_def validate_range_def demo_penv_def validate_bound_def bound_eval Let_def)
qed

lemma demo_admission_rows:
  "admission_rows demo_cenv demo_case demo_intake 1699999990 1700000000 (demo_payload zero_hash zero_hash) = Inr (intake_draft zero_hash)"
proof -
  have e: "intimate_effective gregorian 1699999990 (cf_intimate_margin_seconds default_settings) = Inr demo_effective"
    by (simp add: intimate_effective_Inr demo_effective_value default_settings_def default_of_def bound_eval)
  have r: "ticket_id_parse zero_hash = Inr zero_id" using hex64s_parse(2) [OF hex64s_facts(1)] by (simp add: zero_id_def)
  show ?thesis
    using e r
    by (simp add: admission_rows_def demo_payload_def demo_intake_def intake_route_def reference_def empty_row_def zero_id_def received_def
        route_parse_def requester_type_parse_def event_row_def successor_def successor_option_def completion_def expected_completion_def
        intake_draft_def intake_row_def documents_def demo_key_def btree_set_def demo_case_def demo_journal_def head_of_rows_def
        checked_add_u64_def Let_def)
qed

definition demo_protection :: "string \<Rightarrow> rule" where
  "demo_protection ts = \<lparr> rl_rule_id = rule_id (TicketId (Hex64 ts)) demo_key GdIntimateImages, rl_ticket_id = TicketId (Hex64 ts),
     rl_document_id = demo_key, rl_ground = GdIntimateImages, rl_kind = GlobalRule,
     rl_effective_at = demo_effective, rl_intent_sequence = 2, rl_name_sets = [] \<rparr>"

lemma demo_protection_rebuilds:
  "rebuild demo_renv (demo_file 1 [demo_protection ts] []) = Inr (demo_snapshot 1 [demo_protection ts] [])"
proof -
  have "validate_rule gregorian (demo_protection ts) = Inr ()"
    by (simp add: validate_rule_def demo_protection_def instant_def validate_range_def demo_effective_value)
  then have "validate_snapshot gregorian (demo_file 1 [demo_protection ts] []) = Inr ()"
    by (auto simp: validate_snapshot_Inr demo_file_def strictly_ascending_iff_sorted_wrt)
  then show ?thesis
    by (simp add: rebuild_def demo_renv_def demo_snapshot_def from_data_def demo_file_def listed_empty_def
        checked_add_u64_def validate_range_def strictly_ascending_iff_sorted_wrt)
qed

lemma demo_plan_rules:
  assumes "hex64s ts"
  shows "\<exists>p. plan_rules demo_cenv demo_case (intake_draft ts) demo_intake (PeIntake demo_intake) = Inr (Some p)"
proof -
  let ?intent = "intake_draft ts ! 1" and ?dl = "DeltaInstall (TicketId (Hex64 ts)) [demo_key] GdIntimateImages demo_effective 2 []"
  have find: "List.find (\<lambda>row. row_event row \<in> {EvActionIntent, EvReversalIntent}) (intake_draft ts) = Some ?intent"
    by (simp add: row_eval)
  have "split_on (CHR '','') (replicate 64 (CHR ''a'')) = [replicate 64 (CHR ''a'')]" by (rule split_on_single) simp
  then have docs: "row_documents ?intent = Inr [demo_key]"
    using hex64s_parse(3) [OF hex64s_facts(4)]
    by (simp add: row_documents_def row_eval strictly_ascending_def validate_bound_def validate_range_def bound_eval demo_key_def)
  have dl: "delta demo_penv ?intent demo_intake [] = Inr ?dl"
    using docs hex64s_parse(2) [OF assms] by (simp add: delta_def row_eval ground_intimate)
  have "apply_delta (demo_file 0 [] []) ?dl = Inr (demo_file 0 [demo_protection ts] [])"
    by (simp add: demo_file_def install_rule_def demo_protection_def marked_in_iff strictly_ascending_iff_sorted_wrt)
  then have "prepare_delta demo_renv (demo_snapshot 0 [] []) ?dl =
      Inr \<lparr> pr_snapshot = demo_snapshot 1 [demo_protection ts] [], pr_bytes = ''1'' @ [newline] \<rparr>"
    using demo_protection_rebuilds [of ts]
    by (simp add: prepare_delta_def demo_snapshot_def demo_file_def checked_add_u64_def prepare_snapshot_def Let_def
        reserve_def checked_sub_u64_def validate_range_def demo_renv_def listed_empty_def default_settings_def
        default_of_def spec_rows bound_spec_of_def)
  then show ?thesis using find dl by (simp add: plan_rules_def content_salts_def demo_case_def)
qed

lemma demo_case_sel [simp]:
  "ca_pdisk demo_case = []" "ca_journal demo_case = demo_journal" "ca_tickets demo_case = []" "\<not> ca_writes_disabled demo_case"
  by (simp_all add: demo_case_def)

lemma demo_sizing: "sizing_id demo_case = Inr zero_id"
proof -
  have "hex_digit 0 = CHR ''0''" by code_simp
  then have "index_hex 0 = zero_hash"
    by (simp add: index_hex_def zero_hash_def map_replicate_const)
  then show ?thesis
    using hex64s_parse(2) [OF hex64s_facts(1)]
    by (simp add: sizing_id_def zero_id_def List.map_filter_def)
qed

definition demo_ticket :: string where
  "demo_ticket = hex (replicate 32 (CHR ''b''))"

definition demo_salt :: string where
  "demo_salt = hex (replicate 32 (CHR ''s''))"

lemma demo_drawn [simp]: "hex64s demo_ticket" "hex64s demo_salt"
  by (simp_all add: hex64s_def demo_ticket_def demo_salt_def hex_all_hex_bytes)

lemma stamped_draft:
  assumes "hex64s ts" and "hex64s us"
  shows "map (stamped (TicketId (Hex64 ts)) (demo_payload ts ss)) (intake_draft us) = intake_draft ts"
  by (simp add: row_eval stamped_def reference_def demo_payload_def)

lemma demo_admission_plan:
  "\<exists>rules. admission_plan demo_cenv demo_draws demo_intake 1699999990 1700000000 demo_case =
     Inr (\<lparr> pl_rows = intake_draft demo_ticket, pl_payload = Some (demo_payload demo_ticket demo_salt), pl_rules = Some rules,
            pl_purge = False, pl_reserved = False \<rparr>, TicketId (Hex64 demo_ticket))"
proof -
  let ?dp = "\<lparr> dp_rows = intake_draft zero_hash, dp_content = PeIntake demo_intake, dp_intake = demo_intake, dp_payload_sequence = 1,
    dp_payload_bytes = length (pp_bytes (demo_payload zero_hash zero_hash)), dp_new_ticket = True \<rparr>"
  have pay: "prepare_with_salt demo_penv zero_id 1 (PeIntake demo_intake) (Hex64 zero_hash) = Inr (demo_payload zero_hash zero_hash)"
    unfolding zero_id_def by (rule demo_payload_prepared) simp_all
  obtain t where t: "case_reserve demo_cenv demo_case (intake_linked zero_hash) (length (pp_bytes (demo_payload zero_hash zero_hash))) False = Inr t"
    using demo_reserved [of zero_hash 129] by (auto simp: demo_payload_def zero_hash_hex)
  obtain p where p: "plan_rules demo_cenv demo_case (intake_draft zero_hash) demo_intake (PeIntake demo_intake) = Inr (Some p)"
    using demo_plan_rules [of zero_hash] by auto
  obtain q where q: "plan_rules demo_cenv demo_case (intake_draft demo_ticket) demo_intake (PeIntake demo_intake) = Inr (Some q)"
    using demo_plan_rules [of demo_ticket] by auto
  have again: "map (\<lambda>row. row\<lparr> row_ticket_id := ticket_id_as_str zero_id \<rparr>) (intake_draft zero_hash) = intake_draft zero_hash"
    by (simp add: row_eval zero_id_def)
  have "reserve_draft demo_cenv demo_case ?dp = Inr ()"
    using demo_rows_prepared [of zero_hash] t p again by (simp add: reserve_draft_def demo_sizing)
  moreover have "draw_material demo_case demo_draws ?dp = Inr (TicketId (Hex64 demo_ticket), Hex64 demo_salt, [])"
    using hex64s_parse(2) [OF demo_drawn(1)]
    by (simp add: draw_material_def demo_draws_def ticket_id_generate_def hex64_random_def validate_bound_def validate_range_def bound_eval
        demo_ticket_def [symmetric] demo_salt_def [symmetric] content_salts_def)
  moreover have "finish_plan demo_cenv demo_case ?dp (TicketId (Hex64 demo_ticket), Hex64 demo_salt, []) =
      Inr \<lparr> pl_rows = intake_draft demo_ticket, pl_payload = Some (demo_payload demo_ticket demo_salt), pl_rules = Some q,
        pl_purge = False, pl_reserved = False \<rparr>"
    using demo_payload_prepared [OF demo_drawn] q stamped_draft [of demo_ticket zero_hash demo_salt]
    by (simp add: finish_plan_def with_salts_def stamped_def [abs_def] demo_payload_def [of demo_ticket demo_salt, THEN arg_cong, of pp_content])
  ultimately show ?thesis
    using pay demo_admission_rows hex64s_parse(2) [OF demo_drawn(1)]
    by (simp add: admission_plan_def materialize_plan_def) (simp add: intake_draft_def intake_row_def)
qed

section \<open>Witnesses\<close>

lemma demo_admission_inputs:
  obtains rules t where "admission_plan demo_cenv demo_draws demo_intake 1699999990 1700000000 demo_case =
     Inr (\<lparr> pl_rows = intake_draft demo_ticket, pl_payload = Some (demo_payload demo_ticket demo_salt), pl_rules = Some rules,
            pl_purge = False, pl_reserved = False \<rparr>, TicketId (Hex64 demo_ticket))"
    "case_reserve demo_cenv demo_case (intake_linked demo_ticket) (payload_length (Some (demo_payload demo_ticket demo_salt))) False = Inr t"
proof -
  have "payload_length (Some (demo_payload demo_ticket demo_salt)) = 129"
    using demo_drawn by (simp add: payload_length_def demo_payload_def hex64s_def)
  with demo_reserved [of demo_ticket 129] demo_admission_plan that show thesis by auto
qed

theorem admission_completes_witness:
  "\<exists>t c'. case_admit demo_cenv no_plan_faults demo_draws demo_intake 1699999990 1700000000 demo_case = (Inr t, c')
     \<and> tk_id t = TicketId (Hex64 demo_ticket)"
proof (rule demo_admission_inputs)
  fix rules t
  assume plan: "admission_plan demo_cenv demo_draws demo_intake 1699999990 1700000000 demo_case =
      Inr (\<lparr> pl_rows = intake_draft demo_ticket, pl_payload = Some (demo_payload demo_ticket demo_salt), pl_rules = Some rules,
        pl_purge = False, pl_reserved = False \<rparr>, TicketId (Hex64 demo_ticket))"
    and t: "case_reserve demo_cenv demo_case (intake_linked demo_ticket) (payload_length (Some (demo_payload demo_ticket demo_salt))) False = Inr t"
  from admission_completes [OF demo_owner.case_env_axioms demo_case_ok _ _ plan, of "intake_linked demo_ticket" t] t demo_rows_prepared [of demo_ticket]
  show ?thesis by (auto simp: payload_file_def)
qed

lemma demo_admitted:
  obtains t c' where "case_admit demo_cenv no_plan_faults demo_draws demo_intake 1699999990 1700000000 demo_case = (Inr t, c')"
    "tk_id t = TicketId (Hex64 demo_ticket)"
proof (rule demo_admission_inputs)
  fix rules t
  assume plan: "admission_plan demo_cenv demo_draws demo_intake 1699999990 1700000000 demo_case =
      Inr (\<lparr> pl_rows = intake_draft demo_ticket, pl_payload = Some (demo_payload demo_ticket demo_salt), pl_rules = Some rules,
        pl_purge = False, pl_reserved = False \<rparr>, TicketId (Hex64 demo_ticket))"
    and t: "case_reserve demo_cenv demo_case (intake_linked demo_ticket) (payload_length (Some (demo_payload demo_ticket demo_salt))) False = Inr t"
  from admission_plan_completes [OF demo_owner.case_env_axioms demo_case_ok _ _ plan, of "intake_linked demo_ticket" t] t demo_rows_prepared [of demo_ticket]
  show thesis by (auto simp: payload_file_def intro: that)
qed

theorem admission_acknowledged_witness:
  "\<exists>t c'. case_admit demo_cenv no_plan_faults demo_draws demo_intake 1699999990 1700000000 demo_case = (Inr t, c')
     \<and> map_of (ca_tickets c') (TicketId (Hex64 demo_ticket)) = Some t \<and> tk_state t = StQueued \<and> case_intake demo_cenv c' t = Inr demo_intake
     \<and> \<not> fst (allows demo_renv (st_state (ca_rules c')) demo_key ''https://x/'' [] 1700000000 (\<lambda>_. None))"
proof (rule demo_admitted)
  fix t c'
  assume a: "case_admit demo_cenv no_plan_faults demo_draws demo_intake 1699999990 1700000000 demo_case = (Inr t, c')"
    "tk_id t = TicketId (Hex64 demo_ticket)"
  have s: "snapshot_ok (cn_rules demo_cenv) (st_state (ca_rules demo_case))"
    using demo_snapshot_ok [of "[]" "[]" 0] by (simp add: demo_case_def)
  have d: "\<forall>x \<in> set (it_assets demo_intake). document_wf (as_document_id x)"
    using hex64s_parse(3) [OF hex64s_facts(4)] by (simp add: demo_intake_def document_wf_def demo_key_def)
  have e: "intimate_effective gregorian 1699999990 (cf_intimate_margin_seconds default_settings) = Inr demo_effective"
    by (simp add: intimate_effective_Inr demo_effective_value default_settings_def default_of_def bound_eval)
  have i: "intake_route demo_intake = RtIntimateImages" "\<lparr> as_url = ''https://x/'', as_document_id = demo_key \<rparr> \<in> set (it_assets demo_intake)"
    by (simp_all add: demo_intake_def intake_route_def)
  from admission_acknowledged [OF demo_owner.case_env_axioms demo_case_ok s d a(1)] a e i show ?thesis
    by (auto simp: demo_effective_value)
qed

definition demo_crash :: plan_faults where
  "demo_crash = no_plan_faults\<lparr> fa_append := (\<lambda>n. if n = 2 then no_faults\<lparr> af_write := Some 10 \<rparr> else no_faults) \<rparr>"

theorem plan_write_order_witness:
  "\<exists>plan j d rows k. plan_rows_ok demo_case (pl_rows plan) \<and> pl_rows plan = intake_draft demo_ticket
     \<and> load (demo_jenv\<lparr> je_now := 1700000200 \<rparr>) TailOk (ca_jdisk (snd (execute_plan demo_cenv demo_crash plan demo_case))) = (Inr j, d)
     \<and> jn_rows j = take k rows \<and> k \<le> length rows"
proof (rule demo_admission_inputs)
  fix rules t
  assume "admission_plan demo_cenv demo_draws demo_intake 1699999990 1700000000 demo_case =
      Inr (\<lparr> pl_rows = intake_draft demo_ticket, pl_payload = Some (demo_payload demo_ticket demo_salt), pl_rules = Some rules,
        pl_purge = False, pl_reserved = False \<rparr>, TicketId (Hex64 demo_ticket))"
  define plan where "plan = \<lparr> pl_rows = intake_draft demo_ticket, pl_payload = Some (demo_payload demo_ticket demo_salt), pl_rules = Some rules,
    pl_purge = False, pl_reserved = False \<rparr>"
  obtain r c' where x: "execute_plan demo_cenv demo_crash plan demo_case = (r, c')" by force
  have ok: "plan_rows_ok demo_case (pl_rows plan)" by (simp add: plan_rows_ok_def plan_def intake_draft_def)
  have "je_now (cn_journal demo_cenv) \<le> 1700000200" by simp
  from plan_write_order [OF demo_owner.case_env_axioms demo_case_ok ok x this] obtain j d rows k where
      "load (demo_jenv\<lparr> je_now := 1700000200 \<rparr>) TailOk (ca_jdisk c') = (Inr j, d)" "jn_rows j = take k rows" "k \<le> length rows"
    by (auto simp: demo_journal_def)
  with ok x show ?thesis by (intro exI [of _ plan]) (auto simp: plan_def)
qed

lemma demo_actor: "actor_ok ''ops'' = Inr ()"
  by (simp add: actor_ok_def text_eval bound_eval starts_with_def)

theorem failed_call_isolated_witness:
  "store_call demo_cenv (CallRead (TicketId (Hex64 demo_ticket)) ''ops'') demo_store = (False, demo_store)"
proof -
  obtain s' where s': "store_call demo_cenv (CallRead (TicketId (Hex64 demo_ticket)) ''ops'') demo_store = (False, s')"
    by (simp add: answered_def store_read_def demo_actor execute_case_def demo_store_def case_read_def case_ticket_def demo_case_def)
  have reset: "demo_store\<lparr> so_case := Some (demo_case\<lparr> ca_started := False \<rparr>) \<rparr> = demo_store"
    by (simp add: demo_store_def demo_case_def)
  have "\<not> so_unavailable s'"
    using s' by (auto simp: answered_def store_read_def demo_actor execute_case_def demo_store_def case_read_def case_ticket_def demo_case_def)
  with failed_call_isolated [OF demo_owner.case_env_axioms _ demo_case_ok _ s'] reset s' show ?thesis
    by (simp add: demo_store_def)
qed

theorem queue_pages_end_witness:
  "\<exists>pages. queue_pages demo_cenv
       \<lparr> so_case = Some (snd (case_admit demo_cenv no_plan_faults demo_draws demo_intake 1699999990 1700000000 demo_case)), so_unavailable = False \<rparr>
       ''ops'' 20 QvOpen 1700000000
       (Suc (length (queue_order demo_cenv 1700000000 QvOpen (map snd (ca_tickets
          (snd (case_admit demo_cenv no_plan_faults demo_draws demo_intake 1699999990 1700000000 demo_case))))) div 20)) None = Some pages
     \<and> (\<forall>page \<in> set pages. length page \<le> 20)"
proof (rule demo_admitted)
  fix t c'
  assume a: "case_admit demo_cenv no_plan_faults demo_draws demo_intake 1699999990 1700000000 demo_case = (Inr t, c')"
  let ?s = "\<lparr> so_case = Some c', so_unavailable = False \<rparr>"
  have ok: "case_ok demo_cenv c'" using demo_owner.case_admit_keeps [OF demo_case_ok a] by (simp add: case_keeps_def)
  have l: "validate_bound BkQueueLimit 20 = Inr ()" by (simp add: validate_bound_def validate_range_def bound_eval)
  have "queue_collect demo_cenv 1700000000 QvOpen None (map snd (ca_tickets c'))
      = Inr (filter (queue_wanted demo_cenv 1700000000 QvOpen) (map snd (ca_tickets c')))"
    by (simp add: queue_collect_eq queue_selected_def)
  then obtain first where "store_queue demo_cenv ?s ''ops'' None 20 QvOpen 1700000000 = Inr first"
    using store_queue_collected [OF _ _ demo_actor l, of ?s c' None None] by auto
  from queue_pages_end [OF _ _ ok demo_actor l this] a show ?thesis by auto
qed

theorem payload_write_roundtrip_witness:
  "\<exists>d. write_payload demo_penv \<lparr> pf_open = None, pf_write = None, pf_sync = False, pf_after = False \<rparr> [] (demo_payload demo_ticket demo_salt)
       = (Inr (), True, d)
     \<and> read_payload demo_penv d (TicketId (Hex64 demo_ticket)) 1 demo_commitment = Inr (PeIntake demo_intake)"
proof -
  let ?f = "\<lparr> pf_open = None, pf_write = None, pf_sync = False, pf_after = False \<rparr>"
  note p = demo_payload_prepared [OF demo_drawn]
  have codec: "payload_codec_ok demo_penv" using demo_owner.codec by simp
  have "payload_file (put_payload (TicketId (Hex64 demo_ticket)) 1 (pp_bytes (demo_payload demo_ticket demo_salt)) [])
      (TicketId (Hex64 demo_ticket)) 1 = Some (pp_bytes (demo_payload demo_ticket demo_salt))"
    by (simp add: payload_file_put pdisk_ok_def)
  from read_payload_prepared [OF codec p this] obtain d where
      w: "write_payload demo_penv ?f [] (demo_payload demo_ticket demo_salt) = (Inr (), True, d)"
    by (simp add: write_payload_def payload_file_def demo_payload_def Let_def)
  have "pdisk_ok []" by (simp add: pdisk_ok_def)
  from payload_write_roundtrip [OF codec this p w] w show ?thesis by (simp add: demo_payload_def)
qed

section \<open>A restart after the admission\<close>

definition demo_restart :: case_state where
  "demo_restart = \<lparr> ca_journal = \<lparr> jn_head = head_of_rows (intake_linked demo_ticket) 0, jn_rows = intake_linked demo_ticket, jn_tail = None \<rparr>,
     ca_jdisk = \<lparr> jd_events = encode_rows demo_jenv (intake_linked demo_ticket), jd_head = [], jd_quarantine = [] \<rparr>,
     ca_pdisk = [(TicketId (Hex64 demo_ticket), [(1, pp_bytes (demo_payload demo_ticket demo_salt))])], ca_tickets = [], ca_usage = [],
     ca_rules = \<lparr> st_state = demo_snapshot 1 [demo_protection demo_ticket] [], st_disk = Some (''1'' @ [newline]), st_observed_utc = 0 \<rparr>,
     ca_writes_disabled = False, ca_started = False \<rparr>"

abbreviation demo_id64 :: ticket_id where
  "demo_id64 \<equiv> TicketId (Hex64 demo_ticket)"

abbreviation demo_rows :: "journal_row list" where
  "demo_rows \<equiv> intake_linked demo_ticket"

definition demo_step :: "ticket \<Rightarrow> nat \<Rightarrow> ticket" where
  "demo_step t i = projr (apply_row gregorian default_settings t (demo_rows ! i))"

definition demo_t0 :: ticket where
  "demo_t0 = projr (received (demo_rows ! 0))"

definition demo_t1 :: ticket where
  "demo_t1 = demo_step demo_t0 1"

definition demo_t2 :: ticket where
  "demo_t2 = demo_step demo_t1 2"

definition demo_t3 :: ticket where
  "demo_t3 = demo_step demo_t2 3"

definition demo_final :: ticket where
  "demo_final = demo_step demo_t3 4"

lemma demo_life:
  "received (demo_rows ! 0) = Inr demo_t0" "apply_row gregorian default_settings demo_t0 (demo_rows ! 1) = Inr demo_t1"
  "apply_row gregorian default_settings demo_t1 (demo_rows ! 2) = Inr demo_t2" "apply_row gregorian default_settings demo_t2 (demo_rows ! 3) = Inr demo_t3"
  "apply_row gregorian default_settings demo_t3 (demo_rows ! 4) = Inr demo_final"
  "tk_id demo_final = demo_id64" "tk_references demo_final = [(1, demo_commitment)]" "tk_state demo_final = StQueued" "tk_pending demo_final = None"
  "\<not> tk_purged demo_final" "tk_route demo_final = RtIntimateImages" "tk_requester demo_final = RqSelfPerson" "tk_events demo_final = 5"
proof -
  have p: "ticket_id_parse demo_ticket = Inr demo_id64" by (rule hex64s_parse [OF demo_drawn(1)])
  have "\<exists>t0 t1 t2 t3 t. received (demo_rows ! 0) = Inr t0
    \<and> apply_row gregorian default_settings t0 (demo_rows ! 1) = Inr t1 \<and> apply_row gregorian default_settings t1 (demo_rows ! 2) = Inr t2
    \<and> apply_row gregorian default_settings t2 (demo_rows ! 3) = Inr t3 \<and> apply_row gregorian default_settings t3 (demo_rows ! 4) = Inr t
    \<and> tk_id t = demo_id64 \<and> tk_references t = [(1, demo_commitment)] \<and> tk_state t = StQueued \<and> tk_pending t = None
    \<and> \<not> tk_purged t \<and> tk_route t = RtIntimateImages \<and> tk_requester t = RqSelfPerson \<and> tk_events t = 5"
    using p by (simp add: intake_linked_def row_eval received_def route_parse_def requester_type_parse_def reducer_eval demo_effective_value)
  then show "received (demo_rows ! 0) = Inr demo_t0" "apply_row gregorian default_settings demo_t0 (demo_rows ! 1) = Inr demo_t1"
    "apply_row gregorian default_settings demo_t1 (demo_rows ! 2) = Inr demo_t2" "apply_row gregorian default_settings demo_t2 (demo_rows ! 3) = Inr demo_t3"
    "apply_row gregorian default_settings demo_t3 (demo_rows ! 4) = Inr demo_final"
    "tk_id demo_final = demo_id64" "tk_references demo_final = [(1, demo_commitment)]" "tk_state demo_final = StQueued" "tk_pending demo_final = None"
    "\<not> tk_purged demo_final" "tk_route demo_final = RtIntimateImages" "tk_requester demo_final = RqSelfPerson" "tk_events demo_final = 5"
    by (auto simp: demo_t0_def demo_t1_def demo_t2_def demo_t3_def demo_final_def demo_step_def)
qed

lemma demo_rows_nth: "demo_rows = [demo_rows ! 0, demo_rows ! 1, demo_rows ! 2, demo_rows ! 3, demo_rows ! 4]"
  by (simp add: intake_linked_def)

lemma demo_rows_fields:
  "row_ticket_id (demo_rows ! 0) = demo_ticket" "row_ticket_id (demo_rows ! 1) = demo_ticket" "row_ticket_id (demo_rows ! 2) = demo_ticket"
  "row_ticket_id (demo_rows ! 3) = demo_ticket" "row_ticket_id (demo_rows ! 4) = demo_ticket"
  "row_event (demo_rows ! 0) = EvReceived" "row_event (demo_rows ! 1) = EvActionIntent" "row_event (demo_rows ! 2) = EvRulesCommitted"
  "row_event (demo_rows ! 3) = EvAcknowledged" "row_event (demo_rows ! 4) = EvQueued"
  "row_payload_sequence (demo_rows ! 0) = 1" "row_payload_sequence (demo_rows ! 1) = 1" "row_payload_sequence (demo_rows ! 2) = 0"
  "row_payload_sequence (demo_rows ! 3) = 0" "row_payload_sequence (demo_rows ! 4) = 0"
  "row_commitment (demo_rows ! 0) = demo_commitment" "row_commitment (demo_rows ! 1) = demo_commitment"
  by (simp_all add: intake_linked_def row_eval)

lemma demo_rebuilt: "rebuild_tickets demo_cenv demo_rows = Inr [(demo_id64, demo_final)]"
proof -
  have id0: "tk_id demo_t0 = demo_id64"
    using received_id [OF demo_life(1)] demo_rows_fields(1) hex64s_parse(2) [OF demo_drawn(1)] by simp
  have first: "rebuild_row gregorian default_settings [] (demo_rows ! 0) = Inr [(demo_id64, demo_t0)]"
    using rebuild_received [OF demo_life(1), of "[]"] id0 by simp
  have ok: "projections_ok [(demo_id64, demo_t0)]"
    using rebuild_row_ok [OF first] by simp
  have "res_fold (apply_row gregorian default_settings) demo_t0 [demo_rows ! 1, demo_rows ! 2, demo_rows ! 3, demo_rows ! 4] = Inr demo_final"
    using demo_life by simp
  from rebuild_applied [OF ok _ this, of demo_id64] first
  have "res_fold (rebuild_row gregorian default_settings) [] demo_rows = Inr [(demo_id64, demo_final)]"
    by (subst demo_rows_nth) simp
  then show ?thesis
    using demo_life(13) by (simp add: rebuild_tickets_Inr projections_within_def default_settings_def default_of_def bound_eval)
qed

definition demo_verified :: verified_payloads where
  "demo_verified = \<lparr> vp_intakes = [(demo_id64, demo_intake)], vp_lengths = [((demo_id64, 1), 129)] \<rparr>"

abbreviation demo_loaded :: case_state where
  "demo_loaded \<equiv> demo_restart\<lparr> ca_tickets := [(demo_id64, demo_final)] \<rparr>"

lemma demo_revision: "read_authorized_measured demo_penv (ca_pdisk demo_restart) demo_id64 1 demo_commitment auth = Inr (Some (PeIntake demo_intake, 129))"
proof -
  have "payload_file (ca_pdisk demo_restart) demo_id64 1 = Some (pp_bytes (demo_payload demo_ticket demo_salt))"
    by (simp add: demo_restart_def payload_file_def files_of_def)
  from read_prepared [OF _ demo_payload_prepared [OF demo_drawn] this] demo_owner.codec
  show ?thesis using demo_drawn by (simp add: demo_payload_def hex64s_def)
qed

lemma demo_not_purged: "\<not> purge_authorized demo_final"
  using demo_life(9,10) by (simp add: purge_authorized_def)

lemma demo_ticket_verifies: "verify_ticket demo_cenv demo_loaded \<lparr> vp_intakes = [], vp_lengths = [] \<rparr> (demo_id64, demo_final) = Inr demo_verified"
  using demo_not_purged demo_life(6,7,11,12) demo_revision
  by (simp add: verify_ticket_def verify_reference_def vp_intake_def demo_verified_def demo_intake_def intake_route_def Let_def)

lemma demo_history_step:
  assumes "i < 5"
  shows "verify_history_row demo_cenv demo_loaded demo_verified history (demo_rows ! i) =
    (if i = 0 then res_bind (received (demo_rows ! 0)) (\<lambda>t. Inr (btree_insert demo_id64 t history))
     else res_bind (ok_or (map_of history demo_id64) Unavailable) (\<lambda>t.
       res_bind (apply_row gregorian default_settings t (demo_rows ! i)) (\<lambda>t'. Inr (btree_insert demo_id64 t' history))))"
proof -
  have p: "ticket_id_parse demo_ticket = Inr demo_id64" by (rule hex64s_parse [OF demo_drawn(1)])
  have v: "vp_personal demo_cenv demo_loaded demo_verified demo_id64 1 demo_commitment = Inr (PeIntake demo_intake)"
    using demo_life(7) by (simp add: vp_personal_def vp_intake_def demo_verified_def)
  from assms consider "i = 0" | "i = 1" | "i = 2" | "i = 3" | "i = 4" by linarith
  then show ?thesis
    using p v demo_not_purged demo_life(6)
    by cases (simp_all add: verify_history_row_def verify_personal_row_def demo_rows_fields personal_rows_def vp_intake_def
        demo_verified_def [THEN arg_cong, of vp_intakes] del: One_nat_def)
qed

lemma demo_payloads_verify: "verify_payloads demo_cenv demo_loaded = Inr demo_verified"
proof -
  have "row_ticket_id (demo_rows ! i) \<noteq> []" if "i < 5" for i
    using that demo_rows_fields(1-5) [unfolded One_nat_def] hex64s_parse(4) [OF demo_drawn(1)] by (auto simp: less_Suc_eq numeral_nat)
  then have "filter (\<lambda>row. row_ticket_id row \<noteq> []) demo_rows = [demo_rows ! 0, demo_rows ! 1, demo_rows ! 2, demo_rows ! 3, demo_rows ! 4]"
    by (subst (1) demo_rows_nth) (simp del: One_nat_def)
  moreover have "res_fold (verify_history_row demo_cenv demo_loaded demo_verified) []
      [demo_rows ! 0, demo_rows ! 1, demo_rows ! 2, demo_rows ! 3, demo_rows ! 4] = Inr [(demo_id64, demo_final)]"
    using demo_life by (simp add: demo_history_step del: One_nat_def)
  moreover have "jn_rows (ca_journal demo_loaded) = demo_rows" by (simp add: demo_restart_def)
  ultimately show ?thesis using demo_ticket_verifies by (simp add: verify_payloads_def)
qed

lemma demo_recovered:
  "recovered_case demo_cenv demo_restart = (Inr demo_verified, demo_loaded\<lparr> ca_usage := [(demo_id64, 129)] \<rparr>)"
proof -
  have j: "jn_rows (ca_journal demo_restart) = demo_rows" by (simp add: demo_restart_def)
  have "inventory (referenced [(demo_id64, demo_final)]) (map_of (vp_lengths demo_verified)) True (ca_pdisk demo_restart)
      = (Inr [(demo_id64, 129)], ca_pdisk demo_restart)"
    using demo_life(6,7) by (simp add: demo_restart_def referenced_def demo_verified_def checked_add_u64_def)
  moreover have "usage_checks demo_cenv [(demo_id64, 129)] = Inr ()"
    by (simp add: usage_checks_def validate_bound_def validate_range_def bound_eval checked_add_u64_def reserve_def checked_sub_u64_def
        default_settings_def default_of_def)
  ultimately show ?thesis
    using demo_rebuilt demo_payloads_verify by (simp add: recovered_case_def j Let_def)
qed

lemma demo_completed:
  "verify_completed demo_cenv (demo_loaded\<lparr> ca_usage := u \<rparr>) demo_final demo_verified (demo_snapshot 1 [demo_protection demo_ticket] []) = Inr ()"
proof -
  let ?c = "demo_loaded\<lparr> ca_usage := u \<rparr>"
    and ?dl = "DeltaInstall demo_id64 [demo_key] GdIntimateImages demo_effective 2 []"
  have reversed: "rev demo_rows = [demo_rows ! 4, demo_rows ! 3, demo_rows ! 2, demo_rows ! 1, demo_rows ! 0]"
    by (subst (1) demo_rows_nth) simp
  have find: "List.find (\<lambda>row. row_ticket_id row = ticket_id_as_str (tk_id demo_final)
      \<and> row_event row \<in> {EvActionIntent, EvReversalIntent}) (rev (jn_rows (ca_journal ?c))) = Some (demo_rows ! 1)"
    using demo_life(6) by (simp add: demo_restart_def reversed demo_rows_fields del: One_nat_def rev_is_rev_conv)
  have "split_on (CHR '','') (replicate 64 (CHR ''a'')) = [replicate 64 (CHR ''a'')]" by (rule split_on_single) simp
  then have docs: "row_documents (demo_rows ! 1) = Inr [demo_key]"
    using hex64s_parse(3) [OF hex64s_facts(4)]
    by (simp add: row_documents_def intake_linked_def row_eval strictly_ascending_def validate_bound_def validate_range_def bound_eval demo_key_def)
  have "delta demo_penv (demo_rows ! 1) demo_intake [] = Inr ?dl"
    using docs hex64s_parse(2) [OF demo_drawn(1)] by (simp add: delta_def intake_linked_def row_eval ground_intimate)
  then have "recovery_operation demo_cenv ?c demo_final (demo_rows ! 1) demo_verified = Inr ?dl"
    using demo_life(6,7)
    by (simp add: recovery_operation_def vp_intake_def vp_personal_def demo_verified_def demo_rows_fields del: One_nat_def)
  moreover have "verifies (demo_snapshot 1 [demo_protection demo_ticket] []) ?dl"
    by (simp add: demo_snapshot_def demo_file_def demo_protection_def index_rules_def Let_def numeral_nat)
  ultimately show ?thesis using find demo_life(10) by (simp add: verify_completed_def)
qed

definition demo_step_ok :: recovery_step where
  "demo_step_ok = \<lparr> rv_pending_now = 1700000000, rv_purge = None, rv_commit = PersistOk, rv_rules = False,
     rv_pending_plan = no_plan_faults, rv_finish_now = 1700000000, rv_finish_plan = no_plan_faults \<rparr>"

theorem reconcile_settles_witness:
  "\<exists>c'. reconcile demo_cenv (\<lambda>_. demo_step_ok) no_faults HeadOk demo_restart = (Inr (), c') \<and> fst ` set (ca_tickets c') = {demo_id64}
     \<and> (\<forall>t. map_of (ca_tickets c') demo_id64 = Some t \<longrightarrow> tk_pending t = None \<and> tk_state t \<notin> {StReceived, StAcknowledged})"
proof -
  let ?c = "demo_loaded\<lparr> ca_usage := [(demo_id64, 129)] \<rparr>"
  have "reconcile_tickets demo_cenv (\<lambda>_. demo_step_ok) demo_verified (st_state (ca_rules demo_restart)) 0 [demo_final] ?c = (Inr (), ?c)"
    using demo_completed demo_life(6,8,9)
    by (simp add: reconcile_ticket_def bind_case_def demo_restart_def)
  moreover have "\<exists>j d. finish_recovery demo_jenv no_faults HeadOk (ca_journal ?c) (ca_jdisk ?c) = (Inr (), j, d)"
    by (simp add: finish_recovery_def publish_recovery_def scan_quarantines_def demo_restart_def write_head_def json_codec_def)
  ultimately obtain c' where "reconcile demo_cenv (\<lambda>_. demo_step_ok) no_faults HeadOk demo_restart = (Inr (), c')"
    using demo_recovered by (auto simp: reconcile_def bind_case_def)
  from reconcile_settles [OF this] this show ?thesis
    using demo_rebuilt by (auto simp: demo_restart_def)
qed

section \<open>A first start, an admission and a restart\<close>

definition demo_inputs :: open_inputs where
  "demo_inputs = \<lparr> on_listed = None, on_decode_list = (\<lambda>_. None), on_rules_now = 1700000000, on_persist = True, on_writes_disabled = False,
     on_tail = TailOk, on_init = HeadOk, on_steps = (\<lambda>_. demo_step_ok), on_append = no_faults, on_head = HeadOk, on_access = no_faults \<rparr>"

definition demo_rules :: rules_store where
  "demo_rules = \<lparr> st_state = demo_snapshot 0 [] [], st_disk = Some [newline], st_observed_utc = 1700000000 \<rparr>"

lemma demo_rules_open: "open_rules demo_renv True 1700000000 listed_empty None = Inr demo_rules"
proof -
  have "rebuild demo_renv (demo_file 0 [] []) = Inr (demo_snapshot 0 [] [])" by (rule demo_rebuild) simp_all
  moreover have "rn_encode_listed demo_renv l = Some (ld_version l)" "rn_encode demo_renv f = Some (replicate (sf_generation f) (CHR ''1''))"
    "rn_settings demo_renv = default_settings" for l f
    by (simp_all add: demo_renv_def)
  ultimately show ?thesis
    by (simp add: open_rules_def demo_file_def demo_snapshot_def prepare_snapshot_def demo_rules_def Let_def checked_add_u64_def
        checked_sub_u64_def reserve_def validate_range_def default_settings_def default_of_def bound_eval listed_empty_def)
qed

lemma demo_first_start:
  "\<exists>s st ds c. open_store demo_cenv demo_inputs \<lparr> ds_journal = None, ds_payload = [], ds_rules = None \<rparr> = (Inr (s, st), ds)
     \<and> \<not> so_unavailable s \<and> so_case s = Some c \<and> jn_rows (ca_journal c) = []"
proof -
  obtain d where i: "initialize demo_jenv HeadOk = (Inr demo_journal, d)" "jd_quarantine d = []"
    by (simp add: demo_journal_def initialize_def write_head_def json_codec_def)
  let ?c = "fresh_case demo_inputs demo_journal d [] demo_rules"
  have c: "ca_journal ?c = demo_journal" "ca_jdisk ?c = d" "ca_pdisk ?c = []" by (simp_all add: fresh_case_def)
  have j: "jn_rows demo_journal = []" "jn_tail demo_journal = None" by (simp_all add: demo_journal_def)
  have usage: "usage_checks demo_cenv [] = Inr ()"
    by (simp add: usage_checks_def reserve_def checked_sub_u64_def checked_add_u64_def validate_range_def)
  have tickets: "rebuild_tickets demo_cenv [] = Inr []" by (simp add: rebuild_tickets_Inr projections_within_def)
  have rc: "recovered_case demo_cenv ?c = (Inr \<lparr> vp_intakes = [], vp_lengths = [] \<rparr>, ?c\<lparr> ca_tickets := [], ca_usage := [], ca_pdisk := [] \<rparr>)"
    using usage tickets c j by (simp add: recovered_case_def verify_payloads_def)
  obtain d' where fr: "finish_recovery demo_jenv no_faults HeadOk demo_journal d = (Inr (), demo_journal, d')"
    using i(2) j by (simp add: finish_recovery_def publish_recovery_def scan_quarantines_def write_head_def json_codec_def)
  obtain c' where r: "reconcile demo_cenv (\<lambda>_. demo_step_ok) no_faults HeadOk ?c = (Inr (), c')" "ca_journal c' = demo_journal"
    using rc fr c by (simp add: reconcile_def)
  have oc: "open_case demo_cenv demo_inputs listed_empty demo_rules \<lparr> ds_journal = None, ds_payload = [], ds_rules = None \<rparr>
      = (Inr c', ca_rules c', case_disks_of c')"
    using i(1) r(1) by (simp add: open_case_def open_unpublished_def case_list_access_def demo_inputs_def)
  have "open_store demo_cenv demo_inputs \<lparr> ds_journal = None, ds_payload = [], ds_rules = None \<rparr>
      = (Inr (\<lparr> so_case = Some c', so_unavailable = False \<rparr>, ca_rules c'), case_disks_of c')"
    using oc demo_rules_open by (simp add: open_store_def listed_load_def demo_inputs_def)
  with r(2) j show ?thesis by auto
qed

lemma demo_history:
  obtains w w' s c where "(world_step demo_cenv)\<^sup>*\<^sup>* (fresh_world demo_cenv None) w" "wd_store w = Some s" "\<not> so_unavailable s"
    "so_case s = Some c" "jn_rows (ca_journal c) = []" "(world_step demo_cenv)\<^sup>*\<^sup>* w w'" "wd_now w = 1700000000" "wd_now w' = 1700000200"
proof -
  obtain s st ds c where o: "open_store demo_cenv demo_inputs \<lparr> ds_journal = None, ds_payload = [], ds_rules = None \<rparr> = (Inr (s, st), ds)"
      "\<not> so_unavailable s" "so_case s = Some c" "jn_rows (ca_journal c) = []"
    using demo_first_start by blast
  let ?w = "\<lparr> wd_now = 1700000000, wd_disks = ds, wd_store = Some s \<rparr>"
  have now: "at_time demo_cenv 1700000000 = demo_cenv" by (simp add: at_time_def demo_cenv_def demo_jenv_def json_env_def)
  have first: "world_step demo_cenv (fresh_world demo_cenv None) ?w"
    using world_step.restart [of "fresh_world demo_cenv None" 1700000000 demo_cenv demo_inputs "Inr (s, st)" ds] o(1) now
    by (simp add: fresh_world_def)
  let ?call = "CallAdmit demo_crash demo_draws demo_intake 1699999990 1700000100"
  obtain b s' where k: "store_call (at_time demo_cenv 1700000100) ?call s = (b, s')" by force
  let ?v = "\<lparr> wd_now = 1700000100, wd_disks = called_disks ds s', wd_store = Some s' \<rparr>"
  have second: "world_step demo_cenv ?w ?v"
    using world_step.call [of ?w 1700000100 s demo_cenv ?call b s'] k by simp
  obtain r ds' where p: "open_store (at_time demo_cenv 1700000200) demo_inputs (called_disks ds s') = (r, ds')" by force
  have third: "world_step demo_cenv ?v \<lparr> wd_now = 1700000200, wd_disks = ds', wd_store = (case r of Inl _ \<Rightarrow> None | Inr p \<Rightarrow> Some (fst p)) \<rparr>"
    using world_step.restart [of ?v 1700000200 demo_cenv demo_inputs r ds'] p by simp
  show thesis
    by (rule that [of ?w s c "\<lparr> wd_now = 1700000200, wd_disks = ds', wd_store = (case r of Inl _ \<Rightarrow> None | Inr p \<Rightarrow> Some (fst p)) \<rparr>"])
       (use first second third o in \<open>auto intro: rtranclp_trans\<close>)
qed

theorem journal_outlives_restarts_witness:
  "\<exists>w w' d k d'. (world_step demo_cenv)\<^sup>*\<^sup>* (fresh_world demo_cenv None) w \<and> (world_step demo_cenv)\<^sup>*\<^sup>* w w' \<and> wd_now w < wd_now w'
     \<and> ds_journal (wd_disks w') = Some d \<and> load (demo_jenv\<lparr> je_now := 1700000300 \<rparr>) TailOk d = (Inr k, d')
     \<and> (\<exists>tickets. rebuild_tickets demo_cenv (jn_rows k) = Inr tickets)"
proof (rule demo_history)
  fix w w' s c
  assume w: "(world_step demo_cenv)\<^sup>*\<^sup>* (fresh_world demo_cenv None) w" "wd_store w = Some s" "\<not> so_unavailable s" "so_case s = Some c"
    "jn_rows (ca_journal c) = []" "(world_step demo_cenv)\<^sup>*\<^sup>* w w'" "wd_now w = 1700000000" "wd_now w' = 1700000200"
  then have "wd_now w' \<le> 1700000300" by simp
  from journal_outlives_restarts [OF demo_owner.case_env_axioms w(1-4,6) this] w show ?thesis by fastforce
qed

end
