(* ===== verification/Robots_Pattern.thy ===== *)
theory Robots_Pattern
  imports Rust_Str
begin

text \<open>
  The path patterns of \<open>crates/robotstxt/src/pattern.rs\<close>. The percent-encoding crate behind
  \<open>percent_encode\<close> is the parameter \<open>enc\<close>. The matcher's greedy search over the parts between
  stars is compared with \<open>glob\<close>, the declarative meaning of \<open>*\<close> and \<open>$\<close>.
\<close>

section \<open>Searching\<close>

text \<open>\<open>str::find\<close>, \<open>str::rfind\<close> and \<open>trim_end_matches('$')\<close>.\<close>

fun find_str :: "string \<Rightarrow> string \<Rightarrow> nat option" where
  "find_str [] p = (if p = [] then Some 0 else None)"
| "find_str (c # cs) p = (if starts_with (c # cs) p then Some 0 else map_option Suc (find_str cs p))"

fun rfind_str :: "string \<Rightarrow> string \<Rightarrow> nat option" where
  "rfind_str [] p = (if p = [] then Some 0 else None)"
| "rfind_str (c # cs) p =
     (case rfind_str cs p of Some i \<Rightarrow> Some (Suc i)
      | None \<Rightarrow> if starts_with (c # cs) p then Some 0 else None)"

definition trim_end_dollar :: "string \<Rightarrow> string" where
  "trim_end_dollar s = rev (dropWhile (\<lambda>c. c = CHR ''$'') (rev s))"

section \<open>Patterns\<close>

record pattern =
  pt_pattern :: string
  pt_len :: nat

definition pattern_new :: "(string \<Rightarrow> string) \<Rightarrow> string \<Rightarrow> pattern" where
  "pattern_new enc raw =
     (let len = length raw; p = enc raw in
      if CHR ''$'' \<in> set p then \<lparr> pt_pattern = hd (split_on (CHR ''$'') p) @ ''$'', pt_len = len \<rparr>
      else \<lparr> pt_pattern = p, pt_len = len \<rparr>)"

text \<open>The loop over the parts; \<open>start\<close> is the offset of the text not yet consumed.\<close>

fun match_parts :: "nat \<Rightarrow> nat \<Rightarrow> string \<Rightarrow> string list \<Rightarrow> bool" where
  "match_parts idx start path [] = True"
| "match_parts idx start path (part # parts) =
     (if ends_with part ''$'' then
        (if idx > 0 \<and> list_all (\<lambda>c. c = CHR ''$'') part then True
         else
           let trimmed = trim_end_dollar part in
           if idx = 0 then path = trimmed
           else (case rfind_str (drop start path) trimmed of
                   Some i \<Rightarrow> start + i + length trimmed = length path
                 | None \<Rightarrow> False))
      else if idx = 0 then
        (if \<not> starts_with path part then False
         else match_parts (Suc idx) (start + length part) path parts)
      else (case find_str (drop start path) part of
              Some i \<Rightarrow> match_parts (Suc idx) (start + i + length part) path parts
            | None \<Rightarrow> False))"

definition pattern_matches :: "(string \<Rightarrow> string) \<Rightarrow> pattern \<Rightarrow> string \<Rightarrow> bool" where
  "pattern_matches enc p path = match_parts 0 0 (enc path) (split_on (CHR ''*'') (pt_pattern p))"

section \<open>The meaning of a pattern\<close>

text \<open>
  A star stands for any text, a dollar sign ends the pattern at the end of the path, and a
  pattern without one matches every path that continues it.
\<close>

fun glob :: "string \<Rightarrow> string \<Rightarrow> bool" where
  "glob [] s = True"
| "glob (p # ps) s =
     (if p = CHR ''$'' then s = []
      else if p = CHR ''*'' then list_ex (\<lambda>i. glob ps (drop i s)) [0..<Suc (length s)]
      else s \<noteq> [] \<and> hd s = p \<and> glob ps (tl s))"

lemma glob_star: "glob (CHR ''*'' # ps) s \<longleftrightarrow> (\<exists>i. glob ps (drop i s))"
proof -
  have "\<exists>j \<le> length s. glob ps (drop j s)" if "glob ps (drop i s)" for i
    using that by (cases "i \<le> length s") (blast, force)
  moreover have "glob (CHR ''*'' # ps) s \<longleftrightarrow> (\<exists>j \<le> length s. glob ps (drop j s))"
    by (auto simp: list_ex_iff Bex_def less_Suc_eq_le simp del: upt_Suc)
  ultimately show ?thesis by blast
qed

lemma glob_dollar [simp]: "glob (CHR ''$'' # ps) s \<longleftrightarrow> s = []"
  by (simp only: glob.simps if_True simp_thms)

lemma glob_char:
  "p \<noteq> CHR ''$'' \<Longrightarrow> p \<noteq> CHR ''*'' \<Longrightarrow> glob (p # ps) s \<longleftrightarrow> s \<noteq> [] \<and> hd s = p \<and> glob ps (tl s)"
  by (simp only: glob.simps if_False simp_thms)

declare glob.simps(2) [simp del]

lemma starts_with_length: "starts_with s p \<Longrightarrow> length p \<le> length s"
  by (auto simp: starts_with_iff)

lemma glob_literal:
  "CHR ''*'' \<notin> set p \<Longrightarrow> CHR ''$'' \<notin> set p \<Longrightarrow>
   glob (p @ q) s \<longleftrightarrow> starts_with s p \<and> glob q (drop (length p) s)"
proof (induction p arbitrary: s)
  case (Cons c p)
  then have "c \<noteq> CHR ''$''" "c \<noteq> CHR ''*''" by auto
  with Cons.IH [of "tl s"] Cons.prems show ?case
    by (cases s) (simp_all add: starts_with_def glob_char eq_commute [of c])
qed (simp add: starts_with_def)

lemma find_str_Some:
  "find_str s p = Some i \<Longrightarrow> i \<le> length s \<and> starts_with (drop i s) p \<and> (\<forall>j < i. \<not> starts_with (drop j s) p)"
proof (induction s arbitrary: i)
  case (Cons c s)
  show ?case
  proof (cases i)
    case (Suc k)
    with Cons show ?thesis by (auto split: if_splits simp: less_Suc_eq_0_disj)
  qed (use Cons in \<open>auto split: if_splits\<close>)
qed (auto simp: starts_with_def split: if_splits)

lemma find_str_None: "find_str s p = None \<Longrightarrow> \<not> starts_with (drop i s) p"
proof (induction s arbitrary: i)
  case (Cons c s)
  then show ?case by (cases i) (auto split: if_splits)
qed (auto simp: starts_with_def split: if_splits)

lemma rfind_str_Some: "rfind_str s p = Some i \<Longrightarrow> i \<le> length s \<and> starts_with (drop i s) p"
  by (induction s arbitrary: i) (auto simp: starts_with_def split: if_splits option.splits)

lemma rfind_str_at:
  "starts_with (drop j s) p \<Longrightarrow> j \<le> length s \<Longrightarrow> \<exists>i. rfind_str s p = Some i \<and> j \<le> i"
proof (induction s arbitrary: j)
  case (Cons c s)
  show ?case
  proof (cases j)
    case 0
    with Cons.prems show ?thesis by (auto split: option.splits)
  next
    case (Suc k)
    with Cons.IH [of k] Cons.prems show ?thesis by auto
  qed
qed (auto simp: starts_with_def)

lemma rfind_str_end:
  "(case rfind_str s p of Some i \<Rightarrow> i + length p = length s | None \<Rightarrow> False) \<longleftrightarrow> (\<exists>i. drop i s = p)"
proof -
  have "drop i s = p" if "starts_with (drop i s) p" "i + length p = length s" for i
    using that by (simp add: starts_with_def)
  moreover have "\<exists>i. rfind_str s p = Some i \<and> i + length p = length s" if "drop j s = p" for j
  proof -
    define k where "k = length s - length p"
    have k: "drop k s = p" "k \<le> length s" "k + length p = length s"
      using that by (cases "j \<le> length s", auto simp: k_def)
    then obtain i where "rfind_str s p = Some i" "k \<le> i"
      using rfind_str_at [of k s p] by (auto simp: starts_with_def)
    moreover have "i + length p \<le> length s"
      using rfind_str_Some [OF \<open>rfind_str s p = Some i\<close>] by (auto dest: starts_with_length)
    ultimately show ?thesis using k by auto
  qed
  ultimately show ?thesis
    using rfind_str_Some [of s p] by (cases "rfind_str s p") fastforce+
qed

section \<open>Parts\<close>

fun join_stars :: "string list \<Rightarrow> string" where
  "join_stars [] = []"
| "join_stars [p] = p"
| "join_stars (p # ps) = p @ CHR ''*'' # join_stars ps"

lemma join_split: "join_stars (split_on (CHR ''*'') s) = s"
proof (induction s)
  case (Cons c s)
  obtain u us where "split_on (CHR ''*'') s = u # us"
    using split_on_nonempty [of "CHR ''*''" s] by (cases "split_on (CHR ''*'') s") auto
  with Cons show ?case by (cases us) auto
qed simp

lemma split_on_no_sep: "p \<in> set (split_on d s) \<Longrightarrow> d \<notin> set p"
proof (induction s arbitrary: p)
  case (Cons c s)
  obtain u us where "split_on d s = u # us"
    using split_on_nonempty [of d s] by (cases "split_on d s") auto
  with Cons show ?case by (auto split: if_splits)
qed simp

lemma hd_split_on: "hd (split_on d s) = takeWhile (\<lambda>c. c \<noteq> d) s"
proof (induction s)
  case (Cons c s)
  then show ?case using split_on_nonempty [of d s] by (auto split: list.splits)
qed simp

text \<open>Parts of a constructed pattern: a dollar sign can only end the last part.\<close>

fun parts_ok :: "string list \<Rightarrow> bool" where
  "parts_ok [] = False"
| "parts_ok [p] \<longleftrightarrow> CHR ''*'' \<notin> set p \<and> CHR ''$'' \<notin> set (butlast p)"
| "parts_ok (p # ps) \<longleftrightarrow> CHR ''*'' \<notin> set p \<and> CHR ''$'' \<notin> set p \<and> parts_ok ps"

lemma parts_ok_split: "CHR ''$'' \<notin> set (butlast s) \<Longrightarrow> parts_ok (split_on (CHR ''*'') s)"
proof (induction s)
  case (Cons c s)
  obtain u us where u: "split_on (CHR ''*'') s = u # us"
    using split_on_nonempty [of "CHR ''*''" s] by (cases "split_on (CHR ''*'') s") auto
  have s: "join_stars (u # us) = s" using join_split [of s] u by simp
  have "CHR ''$'' \<notin> set (butlast s)" using Cons.prems by (auto split: if_splits)
  with Cons.IH u have ok: "parts_ok (u # us)" by simp
  show ?case
  proof (cases us)
    case Nil
    with ok u Cons.prems s show ?thesis by (auto split: if_splits)
  next
    case (Cons v vs)
    with ok u Cons.prems s show ?thesis by (auto split: if_splits)
  qed
qed simp

lemma dollar_part:
  assumes "CHR ''$'' \<notin> set (butlast p)"
  shows "ends_with p ''$'' \<longleftrightarrow> p \<noteq> [] \<and> last p = CHR ''$''"
    and "ends_with p ''$'' \<Longrightarrow> trim_end_dollar p = butlast p \<and> p = butlast p @ ''$''"
    and "\<not> ends_with p ''$'' \<Longrightarrow> CHR ''$'' \<notin> set p"
    and "ends_with p ''$'' \<Longrightarrow> list_all (\<lambda>c. c = CHR ''$'') p \<longleftrightarrow> butlast p = []"
proof -
  show e: "ends_with p ''$'' \<longleftrightarrow> p \<noteq> [] \<and> last p = CHR ''$''"
    by (cases p rule: rev_cases) (auto simp: ends_with_def)
  have d: "dropWhile (\<lambda>c. c = CHR ''$'') (rev q) = rev q" if "CHR ''$'' \<notin> set q" for q
    using that by (cases q rule: rev_cases) auto
  show "ends_with p ''$'' \<Longrightarrow> trim_end_dollar p = butlast p \<and> p = butlast p @ ''$''"
    using assms d unfolding e by (cases p rule: rev_cases) (auto simp: trim_end_dollar_def)
  show "\<not> ends_with p ''$'' \<Longrightarrow> CHR ''$'' \<notin> set p"
    using assms unfolding e by (cases p rule: rev_cases) auto
  have nil: "q = []" if "CHR ''$'' \<notin> set q" "\<forall>c \<in> set q. c = CHR ''$''" for q
    using that by (cases q) simp_all
  show "ends_with p ''$'' \<Longrightarrow> list_all (\<lambda>c. c = CHR ''$'') p \<longleftrightarrow> butlast p = []"
    using assms nil [of "butlast p"] unfolding e by (cases p rule: rev_cases) (auto simp: list_all_iff)
qed

lemma glob_literal_dollar:
  assumes "CHR ''*'' \<notin> set p" and "CHR ''$'' \<notin> set p"
  shows "glob (p @ ''$'') s \<longleftrightarrow> s = p"
  unfolding glob_literal [OF assms] by (auto simp: starts_with_def)

text \<open>The leftmost occurrence of a part is the best choice for what follows.\<close>

lemma glob_first_occurrence:
  assumes "CHR ''*'' \<notin> set p" and "CHR ''$'' \<notin> set p" and "find_str s p = Some i"
  shows "(\<exists>j. glob (p @ CHR ''*'' # q) (drop j s)) \<longleftrightarrow> (\<exists>k. glob q (drop k (drop (i + length p) s)))"
proof
  assume "\<exists>j. glob (p @ CHR ''*'' # q) (drop j s)"
  then obtain j k where jk: "starts_with (drop j s) p" "glob q (drop k (drop (length p) (drop j s)))"
    unfolding glob_literal [OF assms(1,2)] glob_star by blast
  then have "i \<le> j" using find_str_Some [OF assms(3)] by (meson not_le)
  then have "drop k (drop (length p) (drop j s)) = drop (k + (j - i)) (drop (i + length p) s)"
    by (simp add: algebra_simps)
  with jk(2) show "\<exists>k. glob q (drop k (drop (i + length p) s))" by metis
next
  assume "\<exists>k. glob q (drop k (drop (i + length p) s))"
  then have "glob (p @ CHR ''*'' # q) (drop i s)"
    using find_str_Some [OF assms(3)] unfolding glob_literal [OF assms(1,2)] glob_star by (auto simp: add.commute)
  then show "\<exists>j. glob (p @ CHR ''*'' # q) (drop j s)" by blast
qed

lemma match_parts_star:
  assumes "parts_ok parts"
  shows "match_parts (Suc idx) start path parts \<longleftrightarrow> (\<exists>i. glob (join_stars parts) (drop i (drop start path)))"
  using assms
proof (induction parts arbitrary: idx start rule: parts_ok.induct)
  case (2 p)
  let ?r = "drop start path"
  show ?case
  proof (cases "ends_with p ''$''")
    case True
    with dollar_part(2) [of p] 2 have p: "trim_end_dollar p = butlast p" "p = butlast p @ ''$''"
      "CHR ''*'' \<notin> set (butlast p)" "CHR ''$'' \<notin> set (butlast p)"
      by (auto dest: in_set_butlastD)
    have g: "(\<exists>i. glob p (drop i ?r)) \<longleftrightarrow> (\<exists>i. drop i ?r = butlast p)"
      using glob_literal_dollar [OF p(3,4)] p(2) by metis
    show ?thesis
    proof (cases "butlast p = []")
      case True
      have "\<exists>i. drop i ?r = []" by (rule exI [of _ "length ?r"]) simp
      with True g \<open>ends_with p ''$''\<close> dollar_part(4) [of p] 2 show ?thesis by simp
    next
      case False
      have "(case rfind_str ?r (butlast p) of Some i \<Rightarrow> start + i + length (butlast p) = length path | None \<Rightarrow> False)
          \<longleftrightarrow> (case rfind_str ?r (butlast p) of Some i \<Rightarrow> i + length (butlast p) = length ?r | None \<Rightarrow> False)"
        using False by (auto split: option.splits dest!: rfind_str_Some starts_with_length simp: neq_Nil_conv)
      then show ?thesis
        using False True p(1) g dollar_part(4) [of p] 2 rfind_str_end [where s = ?r and p = "butlast p"]
        by (simp add: Let_def del: length_drop length_butlast drop_drop)
    qed
  next
    case False
    with dollar_part(3) [of p] 2 have p: "CHR ''*'' \<notin> set p" "CHR ''$'' \<notin> set p" by auto
    have "glob p s \<longleftrightarrow> starts_with s p" for s
      using glob_literal [OF p, of "[]"] by simp
    then show ?thesis
      using False find_str_Some [of ?r p] find_str_None [of ?r p]
      by (auto split: option.splits)
  qed
next
  case (3 p q ps)
  have n: "\<not> ends_with p ''$''"
    using 3 by (cases p rule: rev_cases) (auto simp: ends_with_def)
  show ?case
  proof (cases "find_str (drop start path) p")
    case None
    then show ?thesis
      using n 3 find_str_None [OF None] by (simp add: glob_literal)
  next
    case (Some i)
    have "match_parts (Suc idx) start path (p # q # ps) \<longleftrightarrow> match_parts (Suc (Suc idx)) (start + i + length p) path (q # ps)"
      using n Some by simp
    also have "\<dots> \<longleftrightarrow> (\<exists>k. glob (join_stars (q # ps)) (drop k (drop (start + i + length p) path)))"
      using 3 by (simp del: match_parts.simps drop_drop)
    also have "\<dots> \<longleftrightarrow> (\<exists>k. glob (join_stars (q # ps)) (drop k (drop (i + length p) (drop start path))))"
      by (simp add: algebra_simps)
    also have "\<dots> \<longleftrightarrow> (\<exists>j. glob (p @ CHR ''*'' # join_stars (q # ps)) (drop j (drop start path)))"
      using glob_first_occurrence [OF _ _ Some] 3 by simp
    finally show ?thesis by simp
  qed
qed simp

text \<open>
  C36: the pattern matcher is exact. A pattern built from the text of a rule matches a path
  exactly when the encoded path is an instance of the encoded rule: a star stands for any text,
  everything after the first dollar sign is ignored and the dollar sign anchors the end of the
  path, and a pattern without one matches every continuation.
\<close>

theorem pattern_matches_glob:
  "pattern_matches enc (pattern_new enc raw) path \<longleftrightarrow> glob (enc raw) (enc path)"
proof -
  define q where "q = pt_pattern (pattern_new enc raw)"
  define s where "s = enc path"
  have q: "CHR ''$'' \<notin> set (butlast q) \<and> glob q s = glob (enc raw) s"
  proof (cases "CHR ''$'' \<in> set (enc raw)")
    case True
    define a where "a = takeWhile (\<lambda>c. c \<noteq> CHR ''$'') (enc raw)"
    have a: "q = a @ ''$''" "CHR ''$'' \<notin> set a"
      using True by (auto simp: q_def pattern_new_def hd_split_on a_def dest: set_takeWhileD)
    obtain b where b: "enc raw = a @ CHR ''$'' # b"
      using split_once_Some [of "CHR ''$''" "enc raw"] True
      by (simp add: split_once_def a_def) (metis dropWhile_eq_Cons_conv takeWhile_dropWhile_id True set_takeWhileD dropWhile_eq_Nil_conv list.exhaust_sel hd_dropWhile)
    have "glob (a @ CHR ''$'' # b) s = glob (a @ ''$'') s" for a s
      by (induction a arbitrary: s) (auto simp: glob.simps)
    with a b show ?thesis by simp
  next
    case False
    then show ?thesis by (auto simp: q_def pattern_new_def dest: in_set_butlastD)
  qed
  obtain p ps where ps: "split_on (CHR ''*'') q = p # ps"
    using split_on_nonempty [of "CHR ''*''" q] by (cases "split_on (CHR ''*'') q") auto
  have ok: "parts_ok (p # ps)" and j: "join_stars (p # ps) = q"
    using parts_ok_split [of q] join_split [of q] q ps by auto
  have "match_parts 0 0 s (p # ps) \<longleftrightarrow> glob q s"
  proof (cases ps)
    case Nil
    show ?thesis
    proof (cases "ends_with p ''$''")
      case True
      with Nil ok dollar_part(2) [of p] have "p = butlast p @ ''$''" "trim_end_dollar p = butlast p"
        "CHR ''*'' \<notin> set (butlast p)" "CHR ''$'' \<notin> set (butlast p)" by (auto dest: in_set_butlastD)
      with glob_literal_dollar [of "butlast p" s] Nil True j show ?thesis by auto
    next
      case False
      with Nil ok dollar_part(3) [of p] have "CHR ''*'' \<notin> set p" "CHR ''$'' \<notin> set p" by auto
      with glob_literal [of p "[]" s] False Nil j show ?thesis by auto
    qed
  next
    case (Cons r rs)
    have n: "\<not> ends_with p ''$''"
      using ok Cons by (cases p rule: rev_cases) (auto simp: ends_with_def)
    have "glob q s \<longleftrightarrow> starts_with s p \<and> (\<exists>i. glob (join_stars ps) (drop i (drop (length p) s)))"
      using ok Cons glob_literal [of p "CHR ''*'' # join_stars ps" s] j by (auto simp: glob_star)
    moreover have "parts_ok ps" using ok Cons by simp
    ultimately show ?thesis
      using n match_parts_star [of ps 0 "length p" s] by simp
  qed
  with q ps show ?thesis by (simp add: pattern_matches_def q_def [symmetric] s_def [symmetric])
qed

end
