(* ===== verification/Robots.thy ===== *)
theory Robots
  imports Robots_Pattern "HOL-Library.Product_Lexorder"
begin

text \<open>
  The robots.txt reader and matcher of \<open>crates/robotstxt/src/lib.rs\<close>. The line parser
  (\<open>parser::parse\<close>, written with the nom combinators), the percent encoding and itertools'
  \<open>coalesce\<close> are parameters; the \<open>f32\<close> of a crawl delay is only passed on, so its type is a
  variable. \<open>char_limit\<close> counts characters.
\<close>

section \<open>Data\<close>

datatype 'f line =
    UserAgentLine "string list"
  | AllowLine string
  | DisallowLine string
  | SitemapLine string
  | CrawlDelayLine "'f option"
  | RawLine

datatype directive = Allow | Disallow

record robots_rule =
  rr_pattern :: pattern
  rr_directive :: directive

record 'f robots =
  rb_rules :: "robots_rule list"
  rb_crawl_delay :: "'f option"
  rb_sitemaps :: "string list"

record 'f robots_lib =
  rx_parse :: "string \<Rightarrow> 'f line list option"
  rx_encode :: "string \<Rightarrow> string"
  rx_coalesce :: "(char \<Rightarrow> char \<Rightarrow> char + char \<times> char) \<Rightarrow> string \<Rightarrow> string"

datatype robots_error = InvalidUserAgent | RobotsSyntax

record url_parts =
  up_path :: string
  up_query :: "string option"

section \<open>Reading\<close>

definition is_ascii_alphabetic :: "nat \<Rightarrow> bool" where
  "is_ascii_alphabetic c \<longleftrightarrow> is_ascii_lowercase c \<or> is_ascii_uppercase c"

definition is_valid_user_agent :: "string \<Rightarrow> bool" where
  "is_valid_user_agent s \<longleftrightarrow>
     list_all (\<lambda>c. is_ascii_alphabetic c \<or> c = byte (CHR ''-'') \<or> c = byte (CHR ''_'')) (chars s) \<and> s \<noteq> []"

definition lower_code :: "nat \<Rightarrow> nat" where
  "lower_code c = (if is_ascii_uppercase c then c + 32 else c)"

definition agent_matches :: "string \<Rightarrow> string \<Rightarrow> bool" where
  "agent_matches useragent agent =
     list_all (\<lambda>(c1, c2). lower_code c1 = c2) (zip (chars agent) (chars useragent))"

definition push_rule :: "(string \<Rightarrow> string) \<Rightarrow> string \<Rightarrow> directive \<Rightarrow> 'f robots \<Rightarrow> 'f robots" where
  "push_rule enc path d R =
     R\<lparr> rb_rules := rb_rules R @ [\<lparr> rr_pattern = pattern_new enc path, rr_directive = d \<rparr>] \<rparr>"

definition push_sitemap :: "string \<Rightarrow> 'f robots \<Rightarrow> 'f robots" where
  "push_sitemap url R = R\<lparr> rb_sitemaps := rb_sitemaps R @ [url] \<rparr>"

text \<open>The inner loop of \<open>parse_with_params\<close>: the lines of a group that names the agent.\<close>

fun capture :: "(string \<Rightarrow> string) \<Rightarrow> bool \<Rightarrow> 'f line list \<Rightarrow> 'f robots \<Rightarrow> 'f line list \<times> 'f robots" where
  "capture enc captured [] R = ([], R)"
| "capture enc captured (AllowLine path # lines) R =
     capture enc True lines (if path \<noteq> [] then push_rule enc path Allow R else R)"
| "capture enc captured (DisallowLine path # lines) R =
     capture enc True lines (if path \<noteq> [] then push_rule enc path Disallow R else R)"
| "capture enc captured (UserAgentLine agents # lines) R =
     (if captured then (UserAgentLine agents # lines, R) else capture enc captured lines R)"
| "capture enc captured (SitemapLine url # lines) R = capture enc captured lines (push_sitemap url R)"
| "capture enc captured (CrawlDelayLine (Some delay) # lines) R =
     capture enc True lines (R\<lparr> rb_crawl_delay := Some delay \<rparr>)"
| "capture enc captured (CrawlDelayLine None # lines) R = capture enc captured lines R"
| "capture enc captured (RawLine # lines) R = capture enc captured lines R"

lemma capture_shorter: "length (fst (capture enc captured lines R)) \<le> length lines"
  by (induction enc captured lines R rule: capture.induct) auto

text \<open>The outer loop; \<open>n\<close> counts the user-agent lines it has seen.\<close>

fun global_line :: "(string \<Rightarrow> string) \<Rightarrow> 'f line \<Rightarrow> 'f robots \<Rightarrow> 'f robots" where
  "global_line enc (AllowLine path) R = push_rule enc path Allow R"
| "global_line enc (DisallowLine path) R = push_rule enc path Disallow R"
| "global_line enc (CrawlDelayLine (Some delay)) R = R\<lparr> rb_crawl_delay := Some delay \<rparr>"
| "global_line enc _ R = R"

fun sitemap_line :: "'f line \<Rightarrow> 'f robots \<Rightarrow> 'f robots" where
  "sitemap_line (SitemapLine url) R = push_sitemap url R"
| "sitemap_line _ R = R"

function collect :: "(string \<Rightarrow> string) \<Rightarrow> string \<Rightarrow> nat \<Rightarrow> 'f line list \<Rightarrow> 'f robots \<Rightarrow> 'f robots" where
  "collect enc ua n [] R = R"
| "collect enc ua n (line # lines) R =
     (case line of
        UserAgentLine agents \<Rightarrow>
          (if list_ex (agent_matches ua) agents then
             (let c = capture enc False lines R in collect enc ua (Suc n) (fst c) (snd c))
           else collect enc ua (Suc n) lines R)
      | _ \<Rightarrow> collect enc ua n lines (sitemap_line line (if n = 0 then global_line enc line R else R)))"
  by pat_completeness auto
termination
  by (relation "measure (\<lambda>(enc, ua, n, lines, R). length lines)")
    (auto simp: capture_shorter case_prod_unfold less_Suc_eq_le)

definition names_agent :: "string \<Rightarrow> 'f line \<Rightarrow> bool" where
  "names_agent ua line = (case line of UserAgentLine agents \<Rightarrow> list_ex (agent_matches ua) agents | _ \<Rightarrow> False)"

definition parse_with_params ::
  "'f robots_lib \<Rightarrow> string \<Rightarrow> string \<Rightarrow> nat \<Rightarrow> robots_error + 'f robots" where
  "parse_with_params X useragent robotstxt char_limit =
     (if \<not> is_valid_user_agent useragent then Inl InvalidUserAgent
      else
        let text = map (\<lambda>c. if c = CHR 0x00 then CHR 0x0A else c) (concat (take char_limit (scalars robotstxt))) in
        res_bind (ok_or (rx_parse X text) RobotsSyntax) (\<lambda>lines.
        let ua = to_ascii_lowercase useragent;
            ua' = (if list_ex (names_agent ua) lines then ua else ''*'')
        in Inr (collect (rx_encode X) ua' 0 lines \<lparr> rb_rules = [], rb_crawl_delay = None, rb_sitemaps = [] \<rparr>)))"

definition robots_parse :: "'f robots_lib \<Rightarrow> string \<Rightarrow> string \<Rightarrow> robots_error + 'f robots" where
  "robots_parse X useragent robotstxt = parse_with_params X useragent robotstxt 512000"

section \<open>Matching\<close>

text \<open>
  The order of rules: longer patterns first, then \<open>Allow\<close> before \<open>Disallow\<close>.
\<close>

definition rule_rank :: "robots_rule \<Rightarrow> int \<times> nat" where
  "rule_rank r = (- int (pt_len (rr_pattern r)), if rr_directive r = Allow then 0 else 1)"

definition is_precise_path_allowed :: "'f robots_lib \<Rightarrow> 'f robots \<Rightarrow> string \<Rightarrow> bool" where
  "is_precise_path_allowed X R p =
     (let path = (if p = [] then ''/'' else p) in
      if path = ''/robots.txt'' then True
      else
        case sort_key rule_rank (filter (\<lambda>r. pattern_matches (rx_encode X) (rr_pattern r) path) (rb_rules R)) of
          [] \<Rightarrow> True
        | r # _ \<Rightarrow> rr_directive r = Allow)"

definition is_path_allowed :: "'f robots_lib \<Rightarrow> 'f robots \<Rightarrow> string \<Rightarrow> bool" where
  "is_path_allowed X R path =
     (let res = is_precise_path_allowed X R path in
      if \<not> res \<and> ends_with path ''/'' then is_precise_path_allowed X R (path @ ''index.html'') else res)"

definition prepare_path :: "'f robots_lib \<Rightarrow> url_parts \<Rightarrow> string" where
  "prepare_path X url =
     (let path = rx_coalesce X (\<lambda>a b. if a = CHR ''/'' \<and> b = CHR ''/'' then Inl a else Inr (a, b)) (up_path url) in
      case up_query url of Some query \<Rightarrow> path @ ''?'' @ query | None \<Rightarrow> path)"

definition is_allowed :: "'f robots_lib \<Rightarrow> 'f robots \<Rightarrow> url_parts \<Rightarrow> bool" where
  "is_allowed X R url = is_path_allowed X R (prepare_path X url)"

definition is_allowed_strict :: "'f robots_lib \<Rightarrow> 'f robots \<Rightarrow> url_parts \<Rightarrow> bool" where
  "is_allowed_strict X R url =
     is_precise_path_allowed X R
       (case up_query url of Some query \<Rightarrow> up_path url @ ''?'' @ query | None \<Rightarrow> up_path url)"

section \<open>Groups in one pass\<close>

text \<open>
  The scope of a line: before any user-agent line, inside a group of the agent (and whether the
  group has a directive yet), or in a group of other agents.
\<close>

datatype scope = Preamble | Inside bool | Outside

fun next_scope :: "string \<Rightarrow> scope \<Rightarrow> 'f line \<Rightarrow> scope" where
  "next_scope ua s (UserAgentLine agents) =
     (if s = Inside False then s
      else if list_ex (agent_matches ua) agents then Inside False else Outside)"
| "next_scope ua s (AllowLine _) = (case s of Inside _ \<Rightarrow> Inside True | _ \<Rightarrow> s)"
| "next_scope ua s (DisallowLine _) = (case s of Inside _ \<Rightarrow> Inside True | _ \<Rightarrow> s)"
| "next_scope ua s (CrawlDelayLine (Some _)) = (case s of Inside _ \<Rightarrow> Inside True | _ \<Rightarrow> s)"
| "next_scope ua s _ = s"

definition scoped_path :: "scope \<Rightarrow> string \<Rightarrow> bool" where
  "scoped_path s path = (case s of Preamble \<Rightarrow> True | Inside _ \<Rightarrow> path \<noteq> [] | Outside \<Rightarrow> False)"

fun scoped_rule :: "scope \<Rightarrow> 'f line \<Rightarrow> (string \<times> directive) list" where
  "scoped_rule s (AllowLine path) = (if scoped_path s path then [(path, Allow)] else [])"
| "scoped_rule s (DisallowLine path) = (if scoped_path s path then [(path, Disallow)] else [])"
| "scoped_rule s _ = []"

fun scoped_rules :: "string \<Rightarrow> scope \<Rightarrow> 'f line list \<Rightarrow> (string \<times> directive) list" where
  "scoped_rules ua s [] = []"
| "scoped_rules ua s (line # lines) = scoped_rule s line @ scoped_rules ua (next_scope ua s line) lines"

fun scoped_delay :: "string \<Rightarrow> scope \<Rightarrow> 'f line list \<Rightarrow> 'f option \<Rightarrow> 'f option" where
  "scoped_delay ua s [] d = d"
| "scoped_delay ua s (line # lines) d =
     scoped_delay ua (next_scope ua s line) lines
       (case line of CrawlDelayLine (Some x) \<Rightarrow> if s = Outside then d else Some x | _ \<Rightarrow> d)"

fun declared_sitemaps :: "'f line list \<Rightarrow> string list" where
  "declared_sitemaps [] = []"
| "declared_sitemaps (SitemapLine url # lines) = url # declared_sitemaps lines"
| "declared_sitemaps (line # lines) = declared_sitemaps lines"

definition rule_of :: "(string \<Rightarrow> string) \<Rightarrow> string \<times> directive \<Rightarrow> robots_rule" where
  "rule_of enc = (\<lambda>(path, d). \<lparr> rr_pattern = pattern_new enc path, rr_directive = d \<rparr>)"

definition add_scoped :: "(string \<Rightarrow> string) \<Rightarrow> string \<Rightarrow> scope \<Rightarrow> 'f line list \<Rightarrow> 'f robots \<Rightarrow> 'f robots" where
  "add_scoped enc ua s lines R =
     \<lparr> rb_rules = rb_rules R @ map (rule_of enc) (scoped_rules ua s lines),
       rb_crawl_delay = scoped_delay ua s lines (rb_crawl_delay R),
       rb_sitemaps = rb_sitemaps R @ declared_sitemaps lines \<rparr>"

lemmas push_defs = push_rule_def push_sitemap_def add_scoped_def rule_of_def scoped_path_def

lemma capture_scoped:
  "add_scoped enc ua (Inside captured) lines R =
     (case capture enc captured lines R of (rest, R') \<Rightarrow> add_scoped enc ua (Inside True) rest R')
   \<and> (fst (capture enc captured lines R) = [] \<or> (\<exists>agents rest. fst (capture enc captured lines R) = UserAgentLine agents # rest))"
  by (induction enc captured lines R rule: capture.induct)
    (auto simp: push_defs split: prod.splits if_splits)

text \<open>Inside a finished group a user-agent line is read as outside of every group.\<close>

lemma add_scoped_restart:
  "lines = [] \<or> (\<exists>agents rest. lines = UserAgentLine agents # rest) \<Longrightarrow>
   add_scoped enc ua (Inside True) lines R = add_scoped enc ua Outside lines R"
  by (auto simp: add_scoped_def)

lemma collect_scoped:
  "collect enc ua n lines R = add_scoped enc ua (if n = 0 then Preamble else Outside) lines R"
proof (induction enc ua n lines R rule: collect.induct)
  case (1 enc ua n R)
  then show ?case by (simp add: add_scoped_def)
next
  case (2 enc ua n line lines R)
  show ?case
  proof (cases line)
    case (UserAgentLine agents)
    show ?thesis
    proof (cases "list_ex (agent_matches ua) agents")
      case True
      define c where "c = capture enc False lines R"
      have "collect enc ua n (line # lines) R = add_scoped enc ua Outside (fst c) (snd c)"
        using 2(1) UserAgentLine True by (simp add: c_def Let_def)
      also have "\<dots> = add_scoped enc ua (Inside True) (fst c) (snd c)"
        using capture_scoped [of enc ua False lines R] by (simp add: c_def add_scoped_restart)
      also have "\<dots> = add_scoped enc ua (Inside False) lines R"
        using capture_scoped [of enc ua False lines R] by (simp add: c_def case_prod_unfold)
      finally show ?thesis
        using UserAgentLine True by (simp add: add_scoped_def)
    next
      case False
      then show ?thesis
        using 2(2) UserAgentLine by (simp add: add_scoped_def)
    qed
  next
    case (CrawlDelayLine d)
    then show ?thesis
      using 2 by (cases d) (auto simp: push_defs)
  qed (use 2 in \<open>auto simp: push_defs\<close>)
qed

section \<open>The longest match\<close>

lemma hd_sort_key:
  assumes "xs \<noteq> []"
  shows "hd (sort_key f xs) \<in> set xs \<and> (\<forall>x \<in> set xs. f (hd (sort_key f xs)) \<le> f x)"
proof -
  obtain y ys where y: "sort_key f xs = y # ys"
    using assms by (metis list.exhaust length_0_conv length_sort)
  have s: "set (y # ys) = set xs" unfolding y [symmetric] by simp
  have "sorted (map f (y # ys))" unfolding y [symmetric] by simp
  with s show ?thesis unfolding y by auto
qed

definition applicable :: "'f robots_lib \<Rightarrow> 'f robots \<Rightarrow> string \<Rightarrow> robots_rule list" where
  "applicable X R path = filter (\<lambda>r. pattern_matches (rx_encode X) (rr_pattern r) path) (rb_rules R)"

text \<open>
  the longest matching rule decides. Apart from \<open>/robots.txt\<close> itself, a path is allowed
  exactly when no rule matches it or, among the matching rules with the longest pattern, there
  is an \<open>Allow\<close>; the empty path is read as the root.
\<close>

theorem longest_match_decides:
  "is_precise_path_allowed X R path \<longleftrightarrow>
     (let p = if path = [] then ''/'' else path; rules = set (applicable X R p) in
      p = ''/robots.txt'' \<or> rules = {}
      \<or> (\<exists>r \<in> rules. rr_directive r = Allow \<and> (\<forall>q \<in> rules. pt_len (rr_pattern q) \<le> pt_len (rr_pattern r))))"
proof -
  define p where "p = (if path = [] then ''/'' else path)"
  define rs where "rs = applicable X R p"
  show ?thesis
  proof (cases "p = ''/robots.txt'' \<or> rs = []")
    case True
    then show ?thesis
      by (auto simp: is_precise_path_allowed_def Let_def p_def [symmetric] applicable_def [symmetric] rs_def [symmetric])
  next
    case False
    obtain h t where h: "sort_key rule_rank rs = h # t"
      using False by (metis list.exhaust length_0_conv length_sort)
    have least: "h \<in> set rs" "\<forall>q \<in> set rs. rule_rank h \<le> rule_rank q"
      using hd_sort_key [of rs rule_rank] False h by auto
    have "rr_directive h = Allow \<longleftrightarrow> (\<exists>r \<in> set rs. rr_directive r = Allow
        \<and> (\<forall>q \<in> set rs. pt_len (rr_pattern q) \<le> pt_len (rr_pattern r)))"
    proof
      assume "rr_directive h = Allow"
      moreover have "\<forall>q \<in> set rs. pt_len (rr_pattern q) \<le> pt_len (rr_pattern h)"
        using least(2) by (force simp: rule_rank_def)
      ultimately show "\<exists>r \<in> set rs. rr_directive r = Allow
        \<and> (\<forall>q \<in> set rs. pt_len (rr_pattern q) \<le> pt_len (rr_pattern r))" using least(1) by blast
    next
      assume "\<exists>r \<in> set rs. rr_directive r = Allow
        \<and> (\<forall>q \<in> set rs. pt_len (rr_pattern q) \<le> pt_len (rr_pattern r))"
      then obtain r where "r \<in> set rs" "rr_directive r = Allow" "pt_len (rr_pattern h) \<le> pt_len (rr_pattern r)"
        using least(1) by blast
      with least(2) have "rule_rank h \<le> rule_rank r" by blast
      with \<open>pt_len (rr_pattern h) \<le> _\<close> \<open>rr_directive r = Allow\<close> show "rr_directive h = Allow"
        by (auto simp: rule_rank_def split: if_splits)
    qed
    with False h show ?thesis
      by (simp add: is_precise_path_allowed_def Let_def p_def [symmetric] applicable_def [symmetric] rs_def [symmetric])
  qed
qed

text \<open>
  Reading a file in nested loops is a single pass over its lines. The rules kept for an
  agent are those before the first user-agent line and the nonempty ones of the groups that name
  it, where consecutive user-agent lines share a group; the last delay in scope wins and every
  sitemap is kept. The agent is the requested one when some line names it and the star otherwise.
\<close>

theorem parse_is_one_pass:
  assumes "parse_with_params X useragent text limit = Inr R"
  shows "\<exists>lines. rx_parse X (map (\<lambda>c. if c = CHR 0x00 then CHR 0x0A else c) (concat (take limit (scalars text)))) = Some lines
    \<and> (let ua = to_ascii_lowercase useragent; agent = (if list_ex (names_agent ua) lines then ua else ''*'') in
       rb_rules R = map (rule_of (rx_encode X)) (scoped_rules agent Preamble lines)
       \<and> rb_crawl_delay R = scoped_delay agent Preamble lines None
       \<and> rb_sitemaps R = declared_sitemaps lines)"
proof -
  have "is_valid_user_agent useragent" using assms by (simp add: parse_with_params_def split: if_splits)
  with assms obtain lines where
    l: "rx_parse X (map (\<lambda>c. if c = CHR 0x00 then CHR 0x0A else c) (concat (take limit (scalars text)))) = Some lines"
      "R = collect (rx_encode X) (if list_ex (names_agent (to_ascii_lowercase useragent)) lines
             then to_ascii_lowercase useragent else ''*'') 0 lines \<lparr> rb_rules = [], rb_crawl_delay = None, rb_sitemaps = [] \<rparr>"
    unfolding parse_with_params_def Let_def by (simp only: not_True_eq_False if_False res_bind_Inr ok_or_Inr sum.inject) blast
  show ?thesis
    by (rule exI [of _ lines]) (simp only: l Let_def collect_scoped add_scoped_def, simp)
qed

definition demo_robots_lib :: "nat robots_lib" where
  "demo_robots_lib = \<lparr> rx_parse = (\<lambda>_. Some [DisallowLine ''/tmp'', UserAgentLine [''Other''], AllowLine ''/'',
       UserAgentLine [''bot''], UserAgentLine [''x''], DisallowLine ''/a'', DisallowLine []]),
     rx_encode = (\<lambda>s. s), rx_coalesce = (\<lambda>_ s. s) \<rparr>"

theorem parse_is_one_pass_witness:
  "\<exists>R. parse_with_params demo_robots_lib ''Bot'' ''text'' 10 = Inr R
    \<and> rb_rules R = map (rule_of (\<lambda>s. s)) [(''/tmp'', Disallow), (''/a'', Disallow)]"
proof -
  have lower: "to_ascii_lowercase ''Bot'' = ''bot''"
    by code_simp
  have c: "chars ''bot'' = [98, 111, 116]" "chars ''Other'' = [79, 116, 104, 101, 114]" "chars ''x'' = [120]"
    "chars ''Bot'' = [66, 111, 116]"
    by (simp_all add: chars_ascii)
  have a: "agent_matches ''bot'' ''bot''" "\<not> agent_matches ''bot'' ''Other''" "\<not> agent_matches ''bot'' ''x''"
    by (simp_all add: agent_matches_def c lower_code_def is_ascii_uppercase_def)
  have v: "is_valid_user_agent ''Bot''"
    by (simp add: is_valid_user_agent_def c is_ascii_alphabetic_def is_ascii_lowercase_def is_ascii_uppercase_def)
  obtain R where R: "parse_with_params demo_robots_lib ''Bot'' ''text'' 10 = Inr R"
    unfolding parse_with_params_def using v by (simp add: demo_robots_lib_def Let_def)
  have n: "list_ex (names_agent ''bot'') (the (rx_parse demo_robots_lib s))" for s
    by (simp add: demo_robots_lib_def names_agent_def a)
  have "rb_rules R = map (rule_of (\<lambda>s. s)) [(''/tmp'', Disallow), (''/a'', Disallow)]"
    using parse_is_one_pass [OF R] n
    by (simp add: Let_def lower) (simp add: demo_robots_lib_def scoped_path_def a)
  with R show ?thesis by blast
qed

text \<open>
  An empty \<open>Disallow\<close> line denies nothing inside a group, but before the first user-agent line
  it denies every path.
\<close>

definition demo_rules :: "nat robots" where
  "demo_rules = \<lparr> rb_rules = [\<lparr> rr_pattern = pattern_new (\<lambda>s. s) ''/a'', rr_directive = Disallow \<rparr>,
       \<lparr> rr_pattern = pattern_new (\<lambda>s. s) ''/a/b'', rr_directive = Allow \<rparr>],
     rb_crawl_delay = None, rb_sitemaps = [] \<rparr>"

theorem longest_match_decides_witness:
  "is_precise_path_allowed demo_robots_lib demo_rules ''/a/b/c'' \<and> \<not> is_precise_path_allowed demo_robots_lib demo_rules ''/a/c''"
  unfolding longest_match_decides
  by (simp add: applicable_def demo_rules_def demo_robots_lib_def Let_def pattern_matches_def pattern_new_def
      starts_with_def ends_with_def)

lemma empty_disallow_before_groups:
  "\<not> is_precise_path_allowed demo_robots_lib
      (collect (\<lambda>s. s) ''bot'' 0 [DisallowLine []] \<lparr> rb_rules = [], rb_crawl_delay = None, rb_sitemaps = [] \<rparr>) ''/a''
   \<and> is_precise_path_allowed demo_robots_lib
      (collect (\<lambda>s. s) ''bot'' 0 [UserAgentLine [''bot''], DisallowLine []]
        \<lparr> rb_rules = [], rb_crawl_delay = None, rb_sitemaps = [] \<rparr>) ''/a''"
  by (simp add: is_precise_path_allowed_def Let_def push_rule_def demo_robots_lib_def pattern_matches_def
      pattern_new_def starts_with_def ends_with_def)

end
