(* ===== verification/Host_State.thy ===== *)
theory Host_State
  imports Rust_Str
begin

text \<open>
  The persisted per-host access state of \<open>crawler/host_state.rs\<close> and the response headers of
  \<open>crawler/network.rs\<close> it reads. An instant is an integer count of nanoseconds. What the code
  takes from chrono (checked addition, the greatest instant, the RFC 2822 reader) is the record
  \<open>wall\<close>, with its contract as the locale \<open>wall_time\<close>. The registry is explicit: the states in
  memory, the states on disk and the failure flag; how a replacement of the state file ends is an
  argument of every operation that writes.
\<close>

section \<open>Errors and headers\<close>

datatype exclusion_phase = Frontier | PostParse

datatype exclusion_reason = OutsideScope | NeverCrawl_Host | CctldDenied | CctldNotAllowed | CountryUnresolved
  | HostingCountryDenied | HostingCountryNotAllowed | LanguageDenied | LanguageNotAllowed | ListingBudgetExhausted

datatype crawl_error =
    CeInvalidContentType string | CeFetchFailed nat | CeInvalidUrl | CeUrlTooLong | CeSchemeRefused
  | CePortRefused | CeOffScope | CeRefusedPrivateAddress | CeConnectError | CeTlsError | CeTimeout
  | CeHostBlocked | CeChallenge | CeCrawlDelayExceedsCeiling | CeRobotsUnreachable | CeHostStateWrite
  | CeStoreRefused | CeStoreOwned | CeCountryProviderUnavailable | CeExcludedByPolicy exclusion_reason exclusion_phase | CeRecordInvalid
  | CeSinkWrite | CeLedgerWrite | CeLedgerIncomplete | CeDuplicateTarget | CeFatalRun
  | CeRetentionBacklog | CeListingBudgetExhausted | CeCancelled | CeInternalInvariant
  | CeTestNetworkDisabled | CeDomainMismatch | CeAlreadyCrawled | CeIgnoredExtension | CeEmptyBody
  | CeContentTooLarge | CeResponseBodyReadFailed | CeInvalidRedirect | CeDisallowedPath | CeAnyhow

type_synonym 'a crawl = "crawl_error + 'a"

record header_values =
  hv_values :: "string list"
  hv_invalid :: bool

type_synonym response_headers = "string \<rightharpoonup> header_values"

definition printable_ascii :: "string \<Rightarrow> bool" where
  "printable_ascii s = list_all (\<lambda>c. 32 \<le> byte c \<and> byte c \<le> (126::nat)) s"

definition headers_observe :: "response_headers \<Rightarrow> string \<Rightarrow> string option \<Rightarrow> response_headers" where
  "headers_observe H name value =
     (let key = to_ascii_lowercase name;
          entry = (case H key of Some e \<Rightarrow> e | None \<Rightarrow> \<lparr> hv_values = [], hv_invalid = False \<rparr>)
      in H(key \<mapsto>
            (case value of
               Some v \<Rightarrow> if printable_ascii v then entry\<lparr> hv_values := hv_values entry @ [v] \<rparr>
                         else entry\<lparr> hv_invalid := True \<rparr>
             | None \<Rightarrow> entry\<lparr> hv_invalid := True \<rparr>)))"

definition headers_invalid :: "response_headers \<Rightarrow> string \<Rightarrow> bool" where
  "headers_invalid H name = (case H (to_ascii_lowercase name) of Some e \<Rightarrow> hv_invalid e | None \<Rightarrow> False)"

definition headers_all :: "response_headers \<Rightarrow> string \<Rightarrow> string list" where
  "headers_all H name = (case H (to_ascii_lowercase name) of Some e \<Rightarrow> hv_values e | None \<Rightarrow> [])"

definition headers_get :: "response_headers \<Rightarrow> string \<Rightarrow> string option" where
  "headers_get H name =
     (case H (to_ascii_lowercase name) of
        Some e \<Rightarrow> if hv_invalid e then None
                  else (case hv_values e of v # _ \<Rightarrow> Some v | [] \<Rightarrow> None)
      | None \<Rightarrow> None)"

section \<open>Wall time\<close>

record wall =
  wl_add :: "int \<Rightarrow> int \<Rightarrow> int option"
  wl_min :: int
  wl_max :: int
  wl_rfc2822 :: "string \<Rightarrow> int option"

abbreviation seconds_ns :: "int \<Rightarrow> int" where
  "seconds_ns s \<equiv> s * 1000000000"

definition valid_utc :: "wall \<Rightarrow> int \<Rightarrow> bool" where
  "valid_utc W t \<longleftrightarrow> wl_min W \<le> t \<and> t \<le> wl_max W"

locale wall_time =
  fixes W :: wall
  assumes add_Some: "wl_add W t d = Some u \<Longrightarrow> u = t + d"
    and add_max: "wl_add W t d = Some u \<Longrightarrow> u \<le> wl_max W"
    and add_None: "wl_add W t d = None \<Longrightarrow> 0 \<le> d \<Longrightarrow> valid_utc W t \<Longrightarrow> wl_max W < t + d"
    and rfc2822_max: "wl_rfc2822 W s = Some u \<Longrightarrow> u \<le> wl_max W"
begin

text \<open>A nonnegative step forward from a valid instant never lands before it.\<close>

lemma add_floor:
  assumes "0 \<le> d"
  shows "t \<le> (case wl_add W t d of Some u \<Rightarrow> u | None \<Rightarrow> t + d)"
  using assms add_Some [of t d] by (cases "wl_add W t d") auto

text \<open>A deadline that does not fit is replaced by the greatest instant, which is later.\<close>

lemma capped_add:
  assumes "0 \<le> d" and "valid_utc W t"
  shows "(case wl_add W t d of Some u \<Rightarrow> u | None \<Rightarrow> wl_max W) = min (t + d) (wl_max W)"
  using assms add_Some [of t d] add_max [of t d] add_None [of t d] by (cases "wl_add W t d") auto

end

section \<open>State\<close>

datatype challenge_kind = MitigatedHeader | VerificationForm | InteractiveWidget

datatype block_reason = HttpStatus nat | ChallengeSeen challenge_kind | IndefiniteRateDeadline

record host_state =
  hs_blocked_until_utc :: "int option"
  hs_block_reason :: "block_reason option"
  hs_consecutive_rate_responses :: nat
  hs_retry_at_utc :: "int option"
  hs_retry_after_invalid :: bool
  hs_last_request_start :: "int option"
  hs_listing_window_start_utc :: "int option"
  hs_listing_attempts :: nat

definition default_host_state :: host_state where
  "default_host_state =
     \<lparr> hs_blocked_until_utc = None, hs_block_reason = None, hs_consecutive_rate_responses = 0,
       hs_retry_at_utc = None, hs_retry_after_invalid = False, hs_last_request_start = None,
       hs_listing_window_start_utc = None, hs_listing_attempts = 0 \<rparr>"

definition MIN_BLOCK_SECS :: nat where
  "MIN_BLOCK_SECS = 24 * 60 * 60"

section \<open>Rate deadlines\<close>

definition backoff_seconds :: "nat \<Rightarrow> nat" where
  "backoff_seconds consecutive =
     (let shifted = (if consecutive - 1 < 64 then 2 ^ (consecutive - 1) else u64_max)
      in min (saturating_mul_u64 900 shifted) 86400)"

definition i64_seconds_max :: nat where
  "i64_seconds_max = 9223372036854775"

definition parse_retry_after :: "wall \<Rightarrow> string \<Rightarrow> int \<Rightarrow> int option" where
  "parse_retry_after W raw now =
     (let value = trim raw in
      if value \<noteq> [] \<and> list_all (\<lambda>c. is_ascii_digit (byte c)) value then
        (case parse_uint (2 ^ 63 - 1) value of
           None \<Rightarrow> None
         | Some seconds \<Rightarrow>
             if seconds \<le> i64_seconds_max then wl_add W now (seconds_ns (int seconds)) else None)
      else map_option (\<lambda>deadline. max deadline now) (wl_rfc2822 W value))"

text \<open>The loop of \<open>observe\<close> over the values of Retry-After.\<close>

definition observe_retry_value ::
  "wall \<Rightarrow> int \<Rightarrow> host_state \<times> int option \<Rightarrow> string \<Rightarrow> host_state \<times> int option" where
  "observe_retry_value W now sr value =
     (case sr of (st, retry) \<Rightarrow>
      (case parse_retry_after W value now of
         Some deadline \<Rightarrow> (st, opt_max retry (Some deadline))
       | None \<Rightarrow>
           (let st1 = st\<lparr> hs_retry_after_invalid := True \<rparr> in
            (if list_all (\<lambda>c. is_ascii_digit (byte c)) (trim value)
             then st1\<lparr> hs_block_reason := Some IndefiniteRateDeadline, hs_blocked_until_utc := Some (wl_max W) \<rparr>
             else st1, retry))))"

definition observe_rate :: "wall \<Rightarrow> int \<Rightarrow> nat \<Rightarrow> response_headers \<Rightarrow> host_state \<Rightarrow> host_state" where
  "observe_rate W now status H st =
     (if status = 429 \<or> status = 503 then
        let n = saturating_add_u32 (hs_consecutive_rate_responses st) 1;
            st1 = st\<lparr> hs_consecutive_rate_responses := n,
                     hs_retry_after_invalid := (hs_retry_after_invalid st \<or> headers_invalid H ''retry-after'') \<rparr>;
            retry = wl_add W now (seconds_ns (int (backoff_seconds n)));
            (st2, retry') = foldl (observe_retry_value W now) (st1, retry) (headers_all H ''retry-after'')
        in st2\<lparr> hs_retry_at_utc := opt_max (hs_retry_at_utc st2) retry' \<rparr>
      else if 200 \<le> status \<and> status < 300 then
        st\<lparr> hs_consecutive_rate_responses := 0, hs_retry_at_utc := None \<rparr>
      else st)"

definition observe_block ::
  "wall \<Rightarrow> int \<Rightarrow> nat \<Rightarrow> nat \<Rightarrow> challenge_kind option \<Rightarrow> host_state \<Rightarrow> host_state" where
  "observe_block W now block_secs status challenge st =
     (if status \<in> {401, 403, 429} \<or> challenge \<noteq> None then
        let floor = (case wl_add W now (seconds_ns (int block_secs)) of Some t \<Rightarrow> t | None \<Rightarrow> wl_max W) in
        st\<lparr> hs_blocked_until_utc :=
              opt_max (opt_max (hs_blocked_until_utc st) (Some floor)) (hs_retry_at_utc st),
            hs_block_reason := Some (case challenge of Some k \<Rightarrow> ChallengeSeen k | None \<Rightarrow> HttpStatus status) \<rparr>
      else st)"

definition observe_state ::
  "wall \<Rightarrow> nat \<Rightarrow> int \<Rightarrow> nat \<Rightarrow> response_headers \<Rightarrow> challenge_kind option \<Rightarrow> host_state \<Rightarrow> host_state" where
  "observe_state W policy_block_secs now status H challenge st =
     observe_block W now (max policy_block_secs MIN_BLOCK_SECS) status challenge (observe_rate W now status H st)"

section \<open>The registry\<close>

type_synonym host_key = string

record host_registry =
  hr_states :: "host_key \<rightharpoonup> host_state"
  hr_disk :: "(host_key \<rightharpoonup> host_state) option"
  hr_failed :: bool

text \<open>How the atomic replacement of the state file ends; a failure may come before or after the rename.\<close>

datatype write_end = WriteOk | WriteFailed bool

definition registry_state :: "host_registry \<Rightarrow> host_key \<Rightarrow> host_state crawl" where
  "registry_state r host =
     (if hr_failed r then Inl CeHostStateWrite
      else Inr (case hr_states r host of Some st \<Rightarrow> st | None \<Rightarrow> default_host_state))"

definition registry_update ::
  "write_end \<Rightarrow> host_registry \<Rightarrow> host_key \<Rightarrow> (host_state \<Rightarrow> unit crawl \<times> host_state) \<Rightarrow> unit crawl \<times> host_registry" where
  "registry_update w r host change =
     (if hr_failed r then (Inl CeHostStateWrite, r)
      else
        case change (case hr_states r host of Some st \<Rightarrow> st | None \<Rightarrow> default_host_state) of
          (res, st) \<Rightarrow>
            let states = (hr_states r)(host \<mapsto> st); r1 = r\<lparr> hr_states := states \<rparr> in
            (case res of
               Inl e \<Rightarrow> (Inl e, r1)
             | Inr _ \<Rightarrow>
                 (case w of
                    WriteOk \<Rightarrow> (Inr (), r1\<lparr> hr_disk := Some states \<rparr>)
                  | WriteFailed renamed \<Rightarrow>
                      (Inl CeHostStateWrite,
                       r1\<lparr> hr_disk := (if renamed then Some states else hr_disk r), hr_failed := True \<rparr>))))"

definition started :: "write_end \<Rightarrow> host_registry \<Rightarrow> host_key \<Rightarrow> int \<Rightarrow> unit crawl \<times> host_registry" where
  "started w r host now =
     registry_update w r host (\<lambda>st. (Inr (), st\<lparr> hs_last_request_start := Some now \<rparr>))"

definition admit_listing_state :: "int \<Rightarrow> nat \<Rightarrow> host_state \<Rightarrow> unit crawl \<times> host_state" where
  "admit_listing_state now listing_limit st =
     (let st1 = (if (case hs_listing_window_start_utc st of None \<Rightarrow> True
                     | Some start \<Rightarrow> (now - start) div 1000000000 \<ge> 86400)
                 then st\<lparr> hs_listing_window_start_utc := Some now, hs_listing_attempts := 0 \<rparr> else st) in
      if hs_listing_attempts st1 \<ge> listing_limit then (Inl CeListingBudgetExhausted, st1)
      else (Inr (), st1\<lparr> hs_listing_attempts := saturating_add_u64 (hs_listing_attempts st1) 1 \<rparr>))"

definition admit_listing ::
  "write_end \<Rightarrow> host_registry \<Rightarrow> host_key \<Rightarrow> int \<Rightarrow> nat \<Rightarrow> unit crawl \<times> host_registry" where
  "admit_listing w r host now listing_limit =
     registry_update w r host (admit_listing_state now listing_limit)"

definition observe ::
  "wall \<Rightarrow> nat \<Rightarrow> write_end \<Rightarrow> host_registry \<Rightarrow> host_key \<Rightarrow> int \<Rightarrow> nat \<Rightarrow> response_headers
   \<Rightarrow> challenge_kind option \<Rightarrow> unit crawl \<times> host_registry" where
  "observe W block_secs w r host now status H challenge =
     registry_update w r host (\<lambda>st. (Inr (), observe_state W block_secs now status H challenge st))"

definition valid_not_modified :: "write_end \<Rightarrow> host_registry \<Rightarrow> host_key \<Rightarrow> unit crawl \<times> host_registry" where
  "valid_not_modified w r host =
     registry_update w r host (\<lambda>st. (Inr (), st\<lparr> hs_consecutive_rate_responses := 0, hs_retry_at_utc := None \<rparr>))"

section \<open>Deadlines only move forward\<close>

definition opt_le :: "int option \<Rightarrow> int option \<Rightarrow> bool" where
  "opt_le a b \<longleftrightarrow> opt_max a b = b"

lemma opt_le_iff: "opt_le a b \<longleftrightarrow> (case a of None \<Rightarrow> True | Some x \<Rightarrow> \<exists>y. b = Some y \<and> x \<le> y)"
  by (cases a; cases b) (auto simp: opt_le_def)

lemma opt_le_refl [simp]: "opt_le a a"
  by (simp add: opt_le_iff split: option.splits)

lemma opt_le_trans: "opt_le a b \<Longrightarrow> opt_le b c \<Longrightarrow> opt_le a c"
  by (auto simp: opt_le_iff split: option.splits)

lemma opt_le_max [simp]: "opt_le a (opt_max a b)" "opt_le b (opt_max a b)"
  by (cases a; cases b; simp add: opt_le_iff)+

lemma opt_max_le [simp]: "opt_le (opt_max a b) c \<longleftrightarrow> opt_le a c \<and> opt_le b c"
  by (cases a; cases b; cases c) (auto simp: opt_le_iff)

lemma opt_le_max_mono: "opt_le a b \<Longrightarrow> opt_le a (opt_max b c)"
  by (rule opt_le_trans [OF _ opt_le_max(1)])

lemma opt_le_max_mono2: "opt_le a c \<Longrightarrow> opt_le a (opt_max b c)"
  by (rule opt_le_trans [OF _ opt_le_max(2)])

text \<open>Every stored deadline is an instant chrono can represent.\<close>

definition block_fits :: "wall \<Rightarrow> host_state \<Rightarrow> bool" where
  "block_fits W st \<longleftrightarrow>
     opt_le (hs_blocked_until_utc st) (Some (wl_max W)) \<and> opt_le (hs_retry_at_utc st) (Some (wl_max W))"

context wall_time
begin

lemma retry_value_step:
  assumes "opt_le (hs_blocked_until_utc st) (Some (wl_max W))"
    and "observe_retry_value W now (st, retry) v = (st', retry')"
  shows "opt_le (hs_blocked_until_utc st) (hs_blocked_until_utc st')"
    and "opt_le (hs_blocked_until_utc st') (Some (wl_max W))"
    and "hs_retry_at_utc st' = hs_retry_at_utc st" and "opt_le retry retry'"
    and "parse_retry_after W v now = Some d \<Longrightarrow> opt_le (Some d) retry'"
  using assms by (auto simp: observe_retry_value_def Let_def split: option.splits if_splits)

lemma parse_retry_after_fits:
  assumes "parse_retry_after W v now = Some d" and "valid_utc W now"
  shows "d \<le> wl_max W"
  using assms add_max rfc2822_max
  by (auto simp: valid_utc_def parse_retry_after_def Let_def split: if_splits option.splits)

lemma retry_values_fold:
  assumes "opt_le (hs_blocked_until_utc st) (Some (wl_max W))" and "valid_utc W now"
    and "foldl (observe_retry_value W now) (st, retry) vs = (st', retry')"
  shows "opt_le (hs_blocked_until_utc st) (hs_blocked_until_utc st')
    \<and> opt_le (hs_blocked_until_utc st') (Some (wl_max W))
    \<and> hs_retry_at_utc st' = hs_retry_at_utc st \<and> opt_le retry retry'
    \<and> (opt_le retry (Some (wl_max W)) \<longrightarrow> opt_le retry' (Some (wl_max W)))
    \<and> (\<forall>v \<in> set vs. \<forall>d. parse_retry_after W v now = Some d \<longrightarrow> opt_le (Some d) retry')"
  using assms(1,3)
proof (induction vs arbitrary: st retry)
  case (Cons v vs)
  obtain st1 retry1 where one: "observe_retry_value W now (st, retry) v = (st1, retry1)" by force
  note step = retry_value_step [OF Cons.prems(1) one]
  have rest: "foldl (observe_retry_value W now) (st1, retry1) vs = (st', retry')"
    using Cons.prems(2) one by simp
  note IH = Cons.IH [OF step(2) rest]
  have "opt_le retry (Some (wl_max W)) \<Longrightarrow> opt_le retry1 (Some (wl_max W))"
    using one parse_retry_after_fits [OF _ assms(2), of v]
    by (cases retry) (auto simp: observe_retry_value_def opt_le_iff Let_def split: option.splits)
  with IH step show ?case by (auto intro: opt_le_trans)
qed simp

lemma observe_rate_forward:
  assumes "block_fits W st" and "valid_utc W now"
  shows "opt_le (hs_blocked_until_utc st) (hs_blocked_until_utc (observe_rate W now status H st))"
    and "block_fits W (observe_rate W now status H st)"
proof -
  let ?n = "saturating_add_u32 (hs_consecutive_rate_responses st) 1"
  let ?st1 = "st\<lparr> hs_consecutive_rate_responses := ?n,
    hs_retry_after_invalid := (hs_retry_after_invalid st \<or> headers_invalid H ''retry-after'') \<rparr>"
  let ?retry = "wl_add W now (seconds_ns (int (backoff_seconds ?n)))"
  obtain st2 retry' where f: "foldl (observe_retry_value W now) (?st1, ?retry) (headers_all H ''retry-after'') = (st2, retry')"
    by force
  have r: "opt_le ?retry (Some (wl_max W))"
    using add_max by (auto simp: opt_le_iff split: option.splits)
  have "opt_le (hs_blocked_until_utc ?st1) (Some (wl_max W))" using assms(1) by (simp add: block_fits_def)
  note fold = retry_values_fold [OF this assms(2) f]
  have fits: "opt_le (opt_max (hs_retry_at_utc st2) retry') (Some (wl_max W))"
    using fold r assms(1) by (simp add: block_fits_def)
  show "opt_le (hs_blocked_until_utc st) (hs_blocked_until_utc (observe_rate W now status H st))"
    using fold f by (simp add: observe_rate_def Let_def)
  show "block_fits W (observe_rate W now status H st)"
    using fold f fits assms(1)
    by (auto simp: observe_rate_def Let_def block_fits_def) (simp_all add: opt_le_iff)
qed

lemma observe_block_forward:
  assumes "block_fits W st" and "valid_utc W now"
  shows "opt_le (hs_blocked_until_utc st) (hs_blocked_until_utc (observe_block W now secs status challenge st))"
    and "block_fits W (observe_block W now secs status challenge st)"
    and "status \<in> {401, 403, 429} \<or> challenge \<noteq> None \<Longrightarrow>
      opt_le (Some (min (now + seconds_ns (int secs)) (wl_max W)))
        (hs_blocked_until_utc (observe_block W now secs status challenge st))"
proof -
  have c: "(case wl_add W now (seconds_ns (int secs)) of Some t \<Rightarrow> t | None \<Rightarrow> wl_max W)
      = min (now + seconds_ns (int secs)) (wl_max W)"
    by (rule capped_add) (use assms(2) in simp_all)
  show "opt_le (hs_blocked_until_utc st) (hs_blocked_until_utc (observe_block W now secs status challenge st))"
    by (simp add: observe_block_def Let_def opt_le_max_mono)
  show "block_fits W (observe_block W now secs status challenge st)"
    using assms(1) unfolding observe_block_def c Let_def
    by (auto simp: block_fits_def) (simp_all add: opt_le_iff)
  show "status \<in> {401, 403, 429} \<or> challenge \<noteq> None \<Longrightarrow>
      opt_le (Some (min (now + seconds_ns (int secs)) (wl_max W)))
        (hs_blocked_until_utc (observe_block W now secs status challenge st))"
    unfolding observe_block_def c Let_def
    by (simp add: opt_le_max_mono del: min_def)
qed

end

section \<open>Histories of a registry\<close>

definition state_of :: "host_registry \<Rightarrow> host_key \<Rightarrow> host_state" where
  "state_of r host = (case hr_states r host of Some st \<Rightarrow> st | None \<Rightarrow> default_host_state)"

text \<open>The operations that write the registry, at any instant, on any host, with any outcome of the write.\<close>

inductive registry_step :: "wall \<Rightarrow> nat \<Rightarrow> host_registry \<Rightarrow> host_registry \<Rightarrow> bool" for W block_secs where
  step_started: "started w r host now = (res, r') \<Longrightarrow> registry_step W block_secs r r'"
| step_listing: "admit_listing w r host now limit = (res, r') \<Longrightarrow> registry_step W block_secs r r'"
| step_observe: "valid_utc W now \<Longrightarrow> observe W block_secs w r host now status H challenge = (res, r')
    \<Longrightarrow> registry_step W block_secs r r'"
| step_not_modified: "valid_not_modified w r host = (res, r') \<Longrightarrow> registry_step W block_secs r r'"

lemma registry_update_cases:
  assumes "registry_update w r host change = (res, r')"
  shows "hr_failed r' \<longrightarrow> hr_failed r \<or> w \<noteq> WriteOk"
    and "hr_failed r \<Longrightarrow> r' = r \<and> res = Inl CeHostStateWrite"
    and "\<not> hr_failed r \<Longrightarrow> hr_states r' = (hr_states r)(host \<mapsto> snd (change (state_of r host)))"
    and "res = Inr () \<Longrightarrow> hr_disk r' = Some (hr_states r') \<and> \<not> hr_failed r'"
    and "\<not> hr_failed r \<Longrightarrow> fst (change (state_of r host)) = Inr () \<Longrightarrow> res = Inr () \<longleftrightarrow> w = WriteOk"
  using assms
  by (auto simp: registry_update_def state_of_def Let_def split: if_splits prod.splits sum.splits write_end.splits)

lemma registry_update_state:
  assumes "registry_update w r host change = (res, r')"
  shows "state_of r' h = (if h = host \<and> \<not> hr_failed r then snd (change (state_of r host)) else state_of r h)"
  using registry_update_cases(2,3) [OF assms] by (cases "hr_failed r") (auto simp: state_of_def)

lemma admit_listing_state_block:
  "hs_blocked_until_utc (snd (admit_listing_state now limit st)) = hs_blocked_until_utc st
   \<and> hs_retry_at_utc (snd (admit_listing_state now limit st)) = hs_retry_at_utc st"
  by (simp add: admit_listing_state_def Let_def)

definition registry_fits :: "wall \<Rightarrow> host_registry \<Rightarrow> bool" where
  "registry_fits W r \<longleftrightarrow> (\<forall>host. block_fits W (state_of r host))"

context wall_time
begin

lemma registry_step_forward:
  assumes "registry_step W secs r r'" and "registry_fits W r"
  shows "registry_fits W r' \<and> (\<forall>h. opt_le (hs_blocked_until_utc (state_of r h)) (hs_blocked_until_utc (state_of r' h)))"
  using assms
proof (induction rule: registry_step.induct)
  case (step_observe now w r host status H challenge res r')
  have fits: "block_fits W (state_of r host)" using step_observe.prems by (simp add: registry_fits_def)
  note rate = observe_rate_forward [OF fits step_observe.hyps(1), where status = status and H = H]
  note block = observe_block_forward [OF rate(2) step_observe.hyps(1), where status = status and challenge = challenge
      and secs = "max secs MIN_BLOCK_SECS"]
  show ?case
    using step_observe.prems rate(1) block(1,2)
    unfolding registry_fits_def
    by (auto simp: registry_update_state [OF step_observe.hyps(2) [unfolded observe_def]] observe_state_def
        intro: opt_le_trans)
next
  case (step_started w r host now res r')
  then show ?case
    by (auto simp: registry_fits_def registry_update_state [OF step_started.hyps [unfolded started_def]] block_fits_def)
next
  case (step_listing w r host now limit res r')
  then show ?case
    by (auto simp: registry_fits_def registry_update_state [OF step_listing.hyps [unfolded admit_listing_def]]
        block_fits_def admit_listing_state_block)
next
  case (step_not_modified w r host res r')
  then show ?case
    by (auto simp: registry_fits_def registry_update_state [OF step_not_modified.hyps [unfolded valid_not_modified_def]]
        block_fits_def) (simp_all add: opt_le_iff)
qed

lemma registry_steps_forward:
  assumes "(registry_step W secs)\<^sup>*\<^sup>* r r'" and "registry_fits W r"
  shows "registry_fits W r' \<and> (\<forall>h. opt_le (hs_blocked_until_utc (state_of r h)) (hs_blocked_until_utc (state_of r' h)))"
  using assms
proof (induction rule: rtranclp_induct)
  case (step u v)
  with registry_step_forward [OF step.hyps(2)] show ?case by (auto intro: opt_le_trans)
qed simp

lemma observe_denial:
  assumes "observe W secs WriteOk r host now status H challenge = (Inr (), r')"
    and "registry_fits W r" and "valid_utc W now" and "status \<in> {401, 403, 429} \<or> challenge \<noteq> None"
  shows "opt_le (Some (min (now + seconds_ns 86400) (wl_max W))) (hs_blocked_until_utc (state_of r' host))
    \<and> registry_fits W r'"
proof
  have live: "\<not> hr_failed r" using registry_update_cases(2) [OF assms(1) [unfolded observe_def]] by auto
  have fits: "block_fits W (state_of r host)" using assms(2) by (simp add: registry_fits_def)
  note rate = observe_rate_forward [OF fits assms(3), where status = status and H = H]
  note block = observe_block_forward(3) [OF rate(2) assms(3,4), of "max secs MIN_BLOCK_SECS"]
  have "opt_le (Some (min (now + seconds_ns 86400) (wl_max W)))
      (Some (min (now + seconds_ns (int (max secs MIN_BLOCK_SECS))) (wl_max W)))"
    by (simp add: opt_le_iff MIN_BLOCK_SECS_def)
  with block live show "opt_le (Some (min (now + seconds_ns 86400) (wl_max W))) (hs_blocked_until_utc (state_of r' host))"
    using registry_update_state [OF assms(1) [unfolded observe_def], of host]
    by (auto simp: observe_state_def intro: opt_le_trans)
  show "registry_fits W r'"
    using registry_step_forward [OF step_observe [OF assms(3,1)] assms(2)] by blast
qed

end

section \<open>Rate responses\<close>

lemma backoff_seconds_eq: "backoff_seconds n = min (900 * 2 ^ (n - 1)) 86400"
proof (cases "n - 1 < 7")
  case True
  then have "n - 1 \<in> {0, 1, 2, 3, 4, 5, 6}" by auto
  then show ?thesis by (auto simp: backoff_seconds_def saturating_mul_u64_def)
next
  case False
  then have "(2::nat) ^ 7 \<le> 2 ^ (n - 1)" by (intro power_increasing) auto
  then show ?thesis
    by (auto simp: backoff_seconds_def saturating_mul_u64_def Let_def min_def)
qed

context wall_time
begin

lemma observe_rate_retry:
  assumes "block_fits W st" and "valid_utc W now" and "status = 429 \<or> status = 503"
  shows "opt_le (wl_add W now (seconds_ns (int (backoff_seconds (saturating_add_u32 (hs_consecutive_rate_responses st) 1)))))
      (hs_retry_at_utc (observe_rate W now status H st))"
    and "opt_le (hs_retry_at_utc st) (hs_retry_at_utc (observe_rate W now status H st))"
    and "v \<in> set (headers_all H ''retry-after'') \<Longrightarrow> parse_retry_after W v now = Some d \<Longrightarrow>
      opt_le (Some d) (hs_retry_at_utc (observe_rate W now status H st))"
proof -
  let ?n = "saturating_add_u32 (hs_consecutive_rate_responses st) 1"
  let ?st1 = "st\<lparr> hs_consecutive_rate_responses := ?n,
    hs_retry_after_invalid := (hs_retry_after_invalid st \<or> headers_invalid H ''retry-after'') \<rparr>"
  let ?retry = "wl_add W now (seconds_ns (int (backoff_seconds ?n)))"
  obtain st2 retry' where f: "foldl (observe_retry_value W now) (?st1, ?retry) (headers_all H ''retry-after'') = (st2, retry')"
    by force
  have "opt_le (hs_blocked_until_utc ?st1) (Some (wl_max W))" using assms(1) by (simp add: block_fits_def)
  note fold = retry_values_fold [OF this assms(2) f]
  have eq: "hs_retry_at_utc (observe_rate W now status H st) = opt_max (hs_retry_at_utc st) retry'"
    using assms(3) fold f by (simp add: observe_rate_def Let_def)
  show "opt_le ?retry (hs_retry_at_utc (observe_rate W now status H st))"
    unfolding eq using fold by (blast intro: opt_le_max_mono2)
  show "opt_le (hs_retry_at_utc st) (hs_retry_at_utc (observe_rate W now status H st))"
    unfolding eq by simp
  show "v \<in> set (headers_all H ''retry-after'') \<Longrightarrow> parse_retry_after W v now = Some d \<Longrightarrow>
      opt_le (Some d) (hs_retry_at_utc (observe_rate W now status H st))"
    unfolding eq using fold by (blast intro: opt_le_max_mono2)
qed

end

section \<open>Listing budgets\<close>

fun listing_run :: "nat \<Rightarrow> host_state \<Rightarrow> int list \<Rightarrow> nat" where
  "listing_run limit st [] = 0"
| "listing_run limit st (now # nows) =
     (case admit_listing_state now limit st of (res, st') \<Rightarrow>
        (if res = Inr () then 1 else 0) + listing_run limit st' nows)"

definition window_open :: "host_state \<Rightarrow> int \<Rightarrow> bool" where
  "window_open st now \<longleftrightarrow> (\<exists>start. hs_listing_window_start_utc st = Some start \<and> (now - start) div 1000000000 < 86400)"

lemma listing_run_window:
  assumes "hs_listing_window_start_utc st = Some start"
    and "\<forall>now \<in> set nows. (now - start) div 1000000000 < 86400"
    and "limit \<le> u32_max"
  shows "hs_listing_attempts st + listing_run limit st nows \<le> max limit (hs_listing_attempts st)"
  using assms(1,2)
proof (induction nows arbitrary: st)
  case (Cons now nows)
  have w: "\<not> (now - start) div 1000000000 \<ge> 86400" using Cons.prems(2) by simp
  show ?case
  proof (cases "hs_listing_attempts st \<ge> limit")
    case True
    with Cons.IH [of st] Cons.prems w show ?thesis by (simp add: admit_listing_state_def)
  next
    case False
    define st' where "st' = st\<lparr> hs_listing_attempts := hs_listing_attempts st + 1 \<rparr>"
    have "admit_listing_state now limit st = (Inr (), st')"
      using Cons.prems(1) w False assms(3)
      by (simp add: admit_listing_state_def st'_def saturating_add_u64_def)
    moreover have "hs_listing_attempts st' + listing_run limit st' nows \<le> max limit (hs_listing_attempts st')"
      using Cons.IH [of st'] Cons.prems by (simp add: st'_def)
    ultimately show ?thesis using False by (simp add: st'_def)
  qed
qed simp

section \<open>Properties\<close>

text \<open>
  C30: a denial blocks the host for a day, whatever follows. After a 401, 403 or 429 response or a
  detected challenge is recorded, every later history of the registry (requests, budgets, other
  responses, failed writes) leaves the host blocked until at least 24 hours after the observation,
  or until the last representable instant.
\<close>

theorem denial_blocks_for_a_day:
  assumes "wall_time W" and "registry_fits W r" and "valid_utc W now"
    and "status \<in> {401, 403, 429} \<or> challenge \<noteq> None"
    and "observe W secs WriteOk r host now status H challenge = (Inr (), r1)"
    and "(registry_step W secs)\<^sup>*\<^sup>* r1 r2"
  shows "\<exists>u. hs_blocked_until_utc (state_of r2 host) = Some u \<and> min (now + seconds_ns 86400) (wl_max W) \<le> u"
proof -
  note denied = wall_time.observe_denial [OF assms(1,5,2,3,4)]
  have "opt_le (hs_blocked_until_utc (state_of r1 host)) (hs_blocked_until_utc (state_of r2 host))"
    using wall_time.registry_steps_forward [OF assms(1,6)] denied by blast
  then have "opt_le (Some (min (now + seconds_ns 86400) (wl_max W))) (hs_blocked_until_utc (state_of r2 host))"
    using denied by (blast intro: opt_le_trans)
  then show ?thesis by (simp add: opt_le_iff)
qed

text \<open>
  the registry fails closed. A write that fails returns the write error and marks the
  registry; from then on every operation fails without changing anything and no state can be
  read, so no further request can be admitted.
\<close>

theorem registry_fails_closed:
  assumes "registry_update (WriteFailed renamed) r host change = (res, r1)"
    and "fst (change (state_of r host)) = Inr ()"
    and "(registry_step W secs)\<^sup>*\<^sup>* r1 r2"
  shows "res = Inl CeHostStateWrite \<and> r2 = r1 \<and> registry_state r2 h = Inl CeHostStateWrite"
proof -
  have failed: "hr_failed r1" "res = Inl CeHostStateWrite"
    using assms(1,2) by (auto simp: registry_update_def state_of_def Let_def split: if_splits prod.splits)
  have "r2 = r1"
    using assms(3)
  proof (induction rule: rtranclp_induct)
    case (step u v)
    from step.hyps(2) step.IH failed(1) show ?case
      by (auto elim!: registry_step.cases simp: started_def admit_listing_def observe_def valid_not_modified_def
          registry_update_def)
  qed simp
  with failed show ?thesis by (simp add: registry_state_def)
qed

text \<open>
  rate responses defer the host. After a recorded 429 or 503 the retry deadline is no earlier
  than before, than any readable Retry-After value, and than the exponential back-off, which is
  900 seconds doubled for every consecutive rate response and capped at a day.
\<close>

theorem rate_response_defers:
  assumes "wall_time W" and "registry_fits W r" and "valid_utc W now" and "status = 429 \<or> status = 503"
    and "observe W secs WriteOk r host now status H challenge = (Inr (), r1)"
  shows "opt_le (hs_retry_at_utc (state_of r host)) (hs_retry_at_utc (state_of r1 host))
    \<and> (\<forall>v \<in> set (headers_all H ''retry-after''). \<forall>d. parse_retry_after W v now = Some d \<longrightarrow>
         opt_le (Some d) (hs_retry_at_utc (state_of r1 host)))
    \<and> opt_le (wl_add W now (seconds_ns (min (900 * 2 ^ min (hs_consecutive_rate_responses (state_of r host)) (u32_max - 1)) 86400)))
         (hs_retry_at_utc (state_of r1 host))"
proof -
  have live: "\<not> hr_failed r" using registry_update_cases(2) [OF assms(5) [unfolded observe_def]] by auto
  have fits: "block_fits W (state_of r host)" using assms(2) by (simp add: registry_fits_def)
  have eq: "hs_retry_at_utc (state_of r1 host) = hs_retry_at_utc (observe_rate W now status H (state_of r host))"
    using registry_update_state [OF assms(5) [unfolded observe_def], of host] live
    by (simp add: observe_state_def observe_block_def Let_def)
  have m: "min (c + 1) u32_max - 1 = min c (u32_max - 1)" for c :: nat by simp
  have n: "int (backoff_seconds (saturating_add_u32 (hs_consecutive_rate_responses (state_of r host)) 1))
      = min (900 * 2 ^ min (hs_consecutive_rate_responses (state_of r host)) (u32_max - 1)) 86400"
    unfolding backoff_seconds_eq saturating_add_u32_def m by (simp add: of_nat_min)
  show ?thesis
    using wall_time.observe_rate_retry [OF assms(1) fits assms(3,4), where H = H] unfolding eq n by blast
qed

text \<open>
  The listing budget. While the window opened by an admission lasts, admissions and the
  attempts already counted never exceed the limit together.
\<close>

theorem listing_budget_kept:
  assumes "hs_listing_window_start_utc st = None \<or> \<not> window_open st now" and "limit \<le> u32_max"
    and "\<forall>t \<in> set nows. (t - now) div 1000000000 < 86400"
  shows "listing_run limit st (now # nows) \<le> limit"
proof -
  define st1 where "st1 = st\<lparr> hs_listing_window_start_utc := Some now, hs_listing_attempts := 0 \<rparr>"
  have fresh: "admit_listing_state now limit st = admit_listing_state now limit st1"
    using assms(1)
    by (cases "hs_listing_window_start_utc st") (auto simp: admit_listing_state_def st1_def window_open_def Let_def)
  have "hs_listing_attempts st1 + listing_run limit st1 (now # nows) \<le> max limit (hs_listing_attempts st1)"
    using assms(2,3) by (intro listing_run_window [where start = now]) (auto simp: st1_def)
  then have "listing_run limit st1 (now # nows) \<le> limit" by (simp add: st1_def)
  then show ?thesis unfolding listing_run.simps fresh .
qed

section \<open>Concrete wall time\<close>

text \<open>The range of chrono's UTC instants.\<close>

definition utc_wall :: wall where
  "utc_wall = (let lo = -8334601228800000000000; hi = 8210266876799999999999 in
     \<lparr> wl_add = (\<lambda>t d. if lo \<le> t + d \<and> t + d \<le> hi then Some (t + d) else None), wl_min = lo, wl_max = hi,
       wl_rfc2822 = (\<lambda>_. None) \<rparr>)"

interpretation utc: wall_time utc_wall
  by unfold_locales (auto simp: utc_wall_def Let_def valid_utc_def split: if_splits)

definition demo_registry :: host_registry where
  "demo_registry = \<lparr> hr_states = Map.empty, hr_disk = None, hr_failed = False \<rparr>"

lemma demo_registry_fits: "registry_fits utc_wall demo_registry"
  by (simp add: registry_fits_def state_of_def demo_registry_def block_fits_def default_host_state_def opt_le_iff)

lemma demo_observe:
  "\<exists>r1. observe utc_wall secs WriteOk demo_registry host now status H challenge = (Inr (), r1)"
  by (simp add: observe_def registry_update_def demo_registry_def Let_def)

theorem denial_blocks_for_a_day_witness:
  "\<exists>r1 u. observe utc_wall 0 WriteOk demo_registry ''h'' 0 403 Map.empty None = (Inr (), r1)
    \<and> hs_blocked_until_utc (state_of r1 ''h'') = Some u \<and> 86400000000000 \<le> u"
proof -
  obtain r1 where r1: "observe utc_wall 0 WriteOk demo_registry ''h'' 0 403 Map.empty None = (Inr (), r1)"
    using demo_observe by blast
  have "valid_utc utc_wall 0" "min (0 + seconds_ns 86400) (wl_max utc_wall) = 86400000000000"
    by (simp_all add: valid_utc_def utc_wall_def Let_def)
  with denial_blocks_for_a_day [OF utc.wall_time_axioms demo_registry_fits, of 0 403 None, OF _ _ r1 rtranclp.rtrancl_refl] r1
  show ?thesis by auto
qed

theorem registry_fails_closed_witness:
  "\<exists>r1. started (WriteFailed True) demo_registry ''h'' 5 = (Inl CeHostStateWrite, r1)
    \<and> registry_state r1 ''h'' = Inl CeHostStateWrite"
proof -
  obtain res r1 where r1: "started (WriteFailed True) demo_registry ''h'' 5 = (res, r1)" by force
  with registry_fails_closed [where W = utc_wall and secs = 0 and h = "''h''",
      OF r1 [unfolded started_def] _ rtranclp.rtrancl_refl]
  show ?thesis by auto
qed

theorem rate_response_defers_witness:
  "\<exists>r1. observe utc_wall 0 WriteOk demo_registry ''h'' 0 503 Map.empty None = (Inr (), r1)
    \<and> opt_le (Some 900000000000) (hs_retry_at_utc (state_of r1 ''h''))"
proof -
  obtain r1 where r1: "observe utc_wall 0 WriteOk demo_registry ''h'' 0 503 Map.empty None = (Inr (), r1)"
    using demo_observe by blast
  have v: "valid_utc utc_wall 0" "wl_add utc_wall 0 900000000000 = Some 900000000000"
    by (simp_all add: valid_utc_def utc_wall_def Let_def)
  have z: "hs_consecutive_rate_responses (state_of demo_registry ''h'') = 0"
    by (simp add: state_of_def demo_registry_def default_host_state_def)
  from rate_response_defers [OF utc.wall_time_axioms demo_registry_fits v(1) _ r1] r1 v(2) z show ?thesis by simp
qed

theorem listing_budget_kept_witness:
  "listing_run 1 default_host_state [0, 5, 86399999999999] \<le> 1"
  using listing_budget_kept [of default_host_state 0 1 "[5, 86399999999999]"]
  by (simp add: default_host_state_def)

text \<open>
  The window is fixed at its first admission, not rolling: with a limit of two, three pages are
  admitted within two seconds around its end.
\<close>

lemma listing_window_is_fixed:
  "listing_run 2 default_host_state [0, 86399000000000, 86400000000000, 86401000000000]
   = 4"
  by (simp add: default_host_state_def admit_listing_state_def saturating_add_u64_def)

text \<open>An empty Retry-After value counts as an unrepresentable deadline and blocks the host for good.\<close>

lemma empty_retry_after_blocks_forever:
  "hs_blocked_until_utc (observe_state utc_wall 0 0 503 (headers_observe Map.empty ''Retry-After'' (Some [])) None default_host_state)
   = Some (wl_max utc_wall)"
proof -
  have k: "to_ascii_lowercase ''Retry-After'' = ''retry-after''" "to_ascii_lowercase ''retry-after'' = ''retry-after''"
    by code_simp+
  have h: "headers_all (headers_observe Map.empty ''Retry-After'' (Some [])) ''retry-after'' = [[]]"
    by (simp add: headers_all_def headers_observe_def Let_def k printable_ascii_def)
  show ?thesis
    unfolding observe_state_def observe_rate_def h
    by (simp add: observe_block_def observe_retry_value_def parse_retry_after_def trim_def utc_wall_def Let_def)
qed

end
