(* ===== verification/Network_Scope.thy ===== *)
theory Network_Scope
  imports Host_State "HOL-Library.Word"
begin

text \<open>
  Network admission of \<open>crawler/network.rs\<close>: host and origin keys, the parser of fetch URLs, the
  public-address policy, address vetting and the sealed request scope. The url crate is the
  record \<open>web_url\<close> of what the code reads from a parsed URL, with the parser, the removal of a
  fragment and the record form as fields of \<open>url_lib\<close>; reading an IP address is a field too.
\<close>

section \<open>Addresses\<close>

text \<open>IPv4 addresses by their octets, IPv6 addresses by their eight 16-bit segments.\<close>

datatype ip_addr =
    IpV4 "8 word" "8 word" "8 word" "8 word"
  | IpV6 "16 word list"

definition is_public_v4 :: "nat \<Rightarrow> nat \<Rightarrow> nat \<Rightarrow> bool" where
  "is_public_v4 a b c \<longleftrightarrow>
     \<not> (a = 0 \<or> a = 10 \<or> a = 127 \<or> a \<ge> 224
        \<or> (a = 100 \<and> 64 \<le> b \<and> b \<le> 127)
        \<or> (a = 169 \<and> b = 254)
        \<or> (a = 172 \<and> 16 \<le> b \<and> b \<le> 31)
        \<or> (a = 192 \<and> (b = 168 \<or> (b = 0 \<and> (c = 0 \<or> c = 2)) \<or> (b = 88 \<and> c = 99)))
        \<or> (a = 198 \<and> (b = 18 \<or> b = 19 \<or> (b = 51 \<and> c = 100)))
        \<or> (a = 203 \<and> b = 0 \<and> c = 113))"

fun is_public_address :: "ip_addr \<Rightarrow> bool" where
  "is_public_address (IpV4 a b c d) = is_public_v4 (unat a) (unat b) (unat c)"
| "is_public_address (IpV6 s) =
     (Bit_Operations.and (s ! 0) 0xe000 = 0x2000
      \<and> s ! 0 \<noteq> 0x2002
      \<and> \<not> (s ! 0 = 0x2001 \<and> (s ! 1 < 0x0200 \<or> s ! 1 = 0x0db8))
      \<and> \<not> (s ! 0 = 0x3fff \<and> s ! 1 < 0x1000))"

section \<open>URLs\<close>

record web_url =
  wu_scheme :: string
  wu_host :: "string option"
  wu_port :: "nat option"
  wu_path :: string
  wu_query :: "string option"
  wu_username :: string
  wu_password :: "string option"
  wu_text :: string

record url_lib =
  ul_parse :: "string \<Rightarrow> web_url option"
  ul_no_fragment :: "web_url \<Rightarrow> web_url"
  ul_safe :: "web_url \<Rightarrow> string"
  ul_join :: "web_url \<Rightarrow> string \<Rightarrow> web_url option"
  ul_ip :: "string \<Rightarrow> ip_addr option"

definition MAX_URL_LEN_BYTES :: nat where
  "MAX_URL_LEN_BYTES = 8192"

definition host_key_from_url :: "web_url \<Rightarrow> host_key crawl" where
  "host_key_from_url url =
     res_bind (ok_or (wu_host url) CeInvalidUrl) (\<lambda>host.
     Inr (to_ascii_lowercase (if host \<noteq> [] \<and> last host = CHR ''.'' then butlast host else host)))"

definition origin_key_from_url :: "web_url \<Rightarrow> string crawl" where
  "origin_key_from_url url =
     res_bind (host_key_from_url url) (\<lambda>host.
     res_bind (ok_or (wu_port url) CeSchemeRefused) (\<lambda>port.
     Inr (wu_scheme url @ ''://'' @ host @ '':'' @ show_nat port)))"

definition http_scheme :: "web_url \<Rightarrow> bool" where
  "http_scheme url \<longleftrightarrow> wu_scheme url = ''http'' \<or> wu_scheme url = ''https''"

definition reject_userinfo_before_normalize :: "string \<Rightarrow> web_url \<Rightarrow> unit crawl" where
  "reject_userinfo_before_normalize raw url =
     (if wu_username url \<noteq> [] \<or> wu_password url \<noteq> None
         \<or> (case drop 2 (split_on (CHR ''/'') raw) of s # _ \<Rightarrow> CHR ''@'' \<in> set s | [] \<Rightarrow> False)
      then Inl CeInvalidUrl else Inr ())"

definition trim_brackets :: "string \<Rightarrow> string" where
  "trim_brackets s =
     rev (dropWhile (\<lambda>c. c = CHR ''['' \<or> c = CHR '']'') (rev (dropWhile (\<lambda>c. c = CHR ''['' \<or> c = CHR '']'') s)))"

text \<open>Every percent sign must be followed by two hexadecimal digits.\<close>

fun escapes_ok :: "string \<Rightarrow> bool" where
  "escapes_ok [] = True"
| "escapes_ok (c # cs) \<longleftrightarrow>
     (c = CHR ''%'' \<longrightarrow> (case cs of a # b # _ \<Rightarrow> is_ascii_hexdigit (byte a) \<and> is_ascii_hexdigit (byte b) | _ \<Rightarrow> False))
     \<and> escapes_ok cs"

definition parse_fetch_url :: "url_lib \<Rightarrow> string \<Rightarrow> web_url crawl" where
  "parse_fetch_url U raw =
     (if length raw > MAX_URL_LEN_BYTES then Inl CeUrlTooLong
      else if list_ex (\<lambda>c. is_control c \<or> is_whitespace c) (chars raw) then Inl CeInvalidUrl
      else
        res_bind (ok_or (ul_parse U raw) CeInvalidUrl) (\<lambda>url.
        res_then (reject_userinfo_before_normalize raw url)
       (if \<not> http_scheme url then Inl CeSchemeRefused
        else
          res_then (host_key_from_url url)
         (if (case wu_host url of
                Some host \<Rightarrow> (case ul_ip U (trim_brackets host) of Some ip \<Rightarrow> \<not> is_public_address ip | None \<Rightarrow> False)
              | None \<Rightarrow> False)
          then Inl CeRefusedPrivateAddress
          else if \<not> escapes_ok raw then Inl CeInvalidUrl
          else Inr (ul_no_fragment U url)))))"

section \<open>Address vetting\<close>

definition resolve_public ::
  "url_lib \<Rightarrow> (string \<Rightarrow> ip_addr list crawl) \<Rightarrow> string \<Rightarrow> nat \<Rightarrow> (ip_addr \<times> nat) list crawl" where
  "resolve_public U lookup host port =
     res_bind (case ul_ip U (trim_brackets host) of Some ip \<Rightarrow> Inr [ip] | None \<Rightarrow> lookup host) (\<lambda>addresses.
     if addresses = [] then Inl CeConnectError
     else if \<not> list_all is_public_address addresses then Inl CeRefusedPrivateAddress
     else Inr (map (\<lambda>ip. (ip, port)) addresses))"

definition pin_vetted_addresses ::
  "(string \<rightharpoonup> (ip_addr \<times> nat) list) \<Rightarrow> string \<Rightarrow> (ip_addr \<times> nat) list \<Rightarrow> (string \<rightharpoonup> (ip_addr \<times> nat) list)" where
  "pin_vetted_addresses pins host addresses = pins(host \<mapsto> addresses)"

definition admitted :: "(string \<rightharpoonup> (ip_addr \<times> nat) list) \<Rightarrow> string \<Rightarrow> (ip_addr \<times> nat) list crawl" where
  "admitted pins host =
     ok_or (pins (if host \<noteq> [] \<and> last host = CHR ''.'' then butlast host else host)) CeRefusedPrivateAddress"

section \<open>Scope\<close>

record loopback_endpoint =
  lb_address :: "ip_addr \<times> nat"
  lb_aliases :: "string set"
  lb_targets :: "string set option"

datatype scope_kind = Production | Sample "string set" | Loopback loopback_endpoint

definition admits_host :: "loopback_endpoint \<Rightarrow> host_key \<Rightarrow> bool" where
  "admits_host e host \<longleftrightarrow> ends_with host ''.fixture.invalid'' \<or> host \<in> lb_aliases e"

definition contains_exact :: "url_lib \<Rightarrow> scope_kind \<Rightarrow> web_url \<Rightarrow> bool" where
  "contains_exact U k url =
     (case k of
        Production \<Rightarrow> True
      | Sample urls \<Rightarrow> ul_safe U url \<in> urls
      | Loopback e \<Rightarrow>
          wu_port url = Some (snd (lb_address e))
          \<and> (case host_key_from_url url of Inr h \<Rightarrow> admits_host e h | Inl _ \<Rightarrow> False)
          \<and> (case lb_targets e of None \<Rightarrow> True | Some urls \<Rightarrow> ul_safe U url \<in> urls))"

definition same_origin_text :: "url_lib \<Rightarrow> string \<Rightarrow> string \<Rightarrow> bool" where
  "same_origin_text U origin v =
     (case ul_parse U v of Some u \<Rightarrow> origin_key_from_url u = Inr origin | None \<Rightarrow> False)"

definition scope_validate :: "url_lib \<Rightarrow> scope_kind \<Rightarrow> web_url \<Rightarrow> bool \<Rightarrow> unit crawl" where
  "scope_validate U k url robots =
     (if \<not> http_scheme url then Inl CeSchemeRefused
      else
        let expected = (if wu_scheme url = ''https'' then 443 else 80);
            port = (case k of Loopback e \<Rightarrow> snd (lb_address e) | _ \<Rightarrow> expected)
        in if wu_port url \<noteq> Some port then Inl CePortRefused
           else if contains_exact U k url then Inr ()
           else
             let selected = (if robots \<and> wu_path url = ''/robots.txt'' \<and> wu_query url = None then
                               (case k of Sample urls \<Rightarrow> Some urls | Loopback e \<Rightarrow> lb_targets e | Production \<Rightarrow> None)
                             else None)
             in case selected of
                  None \<Rightarrow> Inl CeOffScope
                | Some urls \<Rightarrow>
                    res_bind (origin_key_from_url url) (\<lambda>origin.
                    if \<exists>v \<in> urls. same_origin_text U origin v then Inr () else Inl CeOffScope))"

definition validate_robots_redirect :: "url_lib \<Rightarrow> scope_kind \<Rightarrow> web_url \<Rightarrow> unit crawl" where
  "validate_robots_redirect U k url = scope_validate U k url False"

definition scope_resolve ::
  "url_lib \<Rightarrow> (string \<Rightarrow> ip_addr list crawl) \<Rightarrow> scope_kind \<Rightarrow> web_url \<Rightarrow> (ip_addr \<times> nat) list crawl" where
  "scope_resolve U lookup k url =
     res_bind (host_key_from_url url) (\<lambda>host.
     case k of
       Loopback e \<Rightarrow>
         (if \<not> admits_host e host then Inl CeRefusedPrivateAddress
          else res_then (resolve_public U lookup host (snd (lb_address e))) (Inr [lb_address e]))
     | _ \<Rightarrow>
         res_bind (ok_or (wu_port url) CePortRefused) (\<lambda>port. resolve_public U lookup host port))"

section \<open>The public-address policy as address blocks\<close>

definition ipv4_value :: "nat \<Rightarrow> nat \<Rightarrow> nat \<Rightarrow> nat \<Rightarrow> nat" where
  "ipv4_value a b c d = a * 2 ^ 24 + b * 2 ^ 16 + c * 2 ^ 8 + d"

text \<open>The special-use IPv4 blocks, as the first address and the prefix length.\<close>

definition special_v4 :: "(nat \<times> nat) list" where
  "special_v4 =
     [(ipv4_value 0 0 0 0, 8), (ipv4_value 10 0 0 0, 8), (ipv4_value 100 64 0 0, 10), (ipv4_value 127 0 0 0, 8),
      (ipv4_value 169 254 0 0, 16), (ipv4_value 172 16 0 0, 12), (ipv4_value 192 0 0 0, 24),
      (ipv4_value 192 0 2 0, 24), (ipv4_value 192 88 99 0, 24), (ipv4_value 192 168 0 0, 16),
      (ipv4_value 198 18 0 0, 15), (ipv4_value 198 51 100 0, 24), (ipv4_value 203 0 113 0, 24),
      (ipv4_value 224 0 0 0, 3)]"

definition in_block :: "nat \<Rightarrow> nat \<times> nat \<Rightarrow> bool" where
  "in_block ip = (\<lambda>(base, len). ip div 2 ^ (32 - len) = base div 2 ^ (32 - len))"

lemma ipv4_value_div:
  assumes "b < 256" and "c < 256" and "d < 256"
  shows "ipv4_value a b c d div 2 ^ 8 = a * 65536 + b * 256 + c" and "ipv4_value a b c d div 2 ^ 16 = a * 256 + b"
    and "ipv4_value a b c d div 2 ^ 17 = a * 128 + b div 2" and "ipv4_value a b c d div 2 ^ 20 = a * 16 + b div 16"
    and "ipv4_value a b c d div 2 ^ 22 = a * 4 + b div 64" and "ipv4_value a b c d div 2 ^ 24 = a"
    and "ipv4_value a b c d div 2 ^ 29 = a div 32"
proof -
  have split: "v div (m * n) = v div m div n" for v m n :: nat by (rule div_mult2_eq)
  have "ipv4_value a b c d = (a * 65536 + b * 256 + c) * 256 + d" by (simp add: ipv4_value_def)
  with assms(3) show e: "ipv4_value a b c d div 2 ^ 8 = a * 65536 + b * 256 + c" by simp
  have "a * 65536 + b * 256 + c = (a * 256 + b) * 256 + c" by simp
  with assms(2) have "(a * 65536 + b * 256 + c) div 256 = a * 256 + b" by simp
  with e split [of "ipv4_value a b c d" "2 ^ 8" "256"] show s: "ipv4_value a b c d div 2 ^ 16 = a * 256 + b" by simp
  show "ipv4_value a b c d div 2 ^ 17 = a * 128 + b div 2"
  proof -
    have "(a * 256 + b) div 2 = a * 128 + b div 2" by presburger
    with s split [of "ipv4_value a b c d" "2 ^ 16" 2] show ?thesis by simp
  qed
  show "ipv4_value a b c d div 2 ^ 20 = a * 16 + b div 16"
  proof -
    have "(a * 256 + b) div 16 = a * 16 + b div 16" by presburger
    with s split [of "ipv4_value a b c d" "2 ^ 16" 16] show ?thesis by simp
  qed
  show "ipv4_value a b c d div 2 ^ 22 = a * 4 + b div 64"
  proof -
    have "(a * 256 + b) div 64 = a * 4 + b div 64" by presburger
    with s split [of "ipv4_value a b c d" "2 ^ 16" 64] show ?thesis by simp
  qed
  show t: "ipv4_value a b c d div 2 ^ 24 = a"
    using s split [of "ipv4_value a b c d" "2 ^ 16" 256] assms(1) by simp
  show "ipv4_value a b c d div 2 ^ 29 = a div 32"
    using t split [of "ipv4_value a b c d" "2 ^ 24" 32] by simp
qed

lemma radix_eq:
  fixes a b x y n :: nat
  shows "b < n \<Longrightarrow> y < n \<Longrightarrow> a * n + b = x * n + y \<longleftrightarrow> a = x \<and> b = y"
  by (metis add_left_imp_eq div_less div_mult_self3 add.commute add_cancel_right_left gr_implies_not0)

lemma radix3_eq:
  fixes a b c x y z :: nat
  assumes "b < 256" and "c < 256" and "y < 256" and "z < 256"
  shows "a * 65536 + b * 256 + c = x * 65536 + y * 256 + z \<longleftrightarrow> a = x \<and> b = y \<and> c = z"
proof -
  have "a * 65536 + b * 256 + c = (a * 256 + b) * 256 + c" "x * 65536 + y * 256 + z = (x * 256 + y) * 256 + z" by simp_all
  then show ?thesis using radix_eq [OF assms(2,4)] radix_eq [OF assms(1,3)] by metis
qed

lemma block_arith:
  fixes a b c :: nat
  assumes "a < 256" and "b < 256" and "c < 256"
  shows "a div 32 = 7 \<longleftrightarrow> a \<ge> 224"
    and "a * 4 + b div 64 = 401 \<longleftrightarrow> a = 100 \<and> 64 \<le> b \<and> b \<le> 127"
    and "a * 16 + b div 16 = 2753 \<longleftrightarrow> a = 172 \<and> 16 \<le> b \<and> b \<le> 31"
    and "a * 128 + b div 2 = 25353 \<longleftrightarrow> a = 198 \<and> (b = 18 \<or> b = 19)"
    and "a * 256 + b = 43518 \<longleftrightarrow> a = 169 \<and> b = 254"
    and "a * 256 + b = 49320 \<longleftrightarrow> a = 192 \<and> b = 168"
    and "a * 65536 + b * 256 + c = 12582912 \<longleftrightarrow> a = 192 \<and> b = 0 \<and> c = 0"
    and "a * 65536 + b * 256 + c = 12582914 \<longleftrightarrow> a = 192 \<and> b = 0 \<and> c = 2"
    and "a * 65536 + b * 256 + c = 12605539 \<longleftrightarrow> a = 192 \<and> b = 88 \<and> c = 99"
    and "a * 65536 + b * 256 + c = 12989284 \<longleftrightarrow> a = 198 \<and> b = 51 \<and> c = 100"
    and "a * 65536 + b * 256 + c = 13303921 \<longleftrightarrow> a = 203 \<and> b = 0 \<and> c = 113"
proof -
  show "a div 32 = 7 \<longleftrightarrow> a \<ge> 224" using assms(1) by auto
  have "b div 64 = 1 \<longleftrightarrow> 64 \<le> b \<and> b \<le> 127" "b div 16 = 1 \<longleftrightarrow> 16 \<le> b \<and> b \<le> 31" "b div 2 = 9 \<longleftrightarrow> b = 18 \<or> b = 19"
    by auto
  then show "a * 4 + b div 64 = 401 \<longleftrightarrow> a = 100 \<and> 64 \<le> b \<and> b \<le> 127"
    and "a * 16 + b div 16 = 2753 \<longleftrightarrow> a = 172 \<and> 16 \<le> b \<and> b \<le> 31"
    and "a * 128 + b div 2 = 25353 \<longleftrightarrow> a = 198 \<and> (b = 18 \<or> b = 19)"
    using radix_eq [of "b div 64" 4 1 a 100] radix_eq [of "b div 16" 16 1 a 172] radix_eq [of "b div 2" 128 9 a 198] assms(2)
    by (simp_all add: less_mult_imp_div_less)
  show "a * 256 + b = 43518 \<longleftrightarrow> a = 169 \<and> b = 254" "a * 256 + b = 49320 \<longleftrightarrow> a = 192 \<and> b = 168"
    using radix_eq [of b 256 254 a 169] radix_eq [of b 256 168 a 192] assms(2) by simp_all
  show "a * 65536 + b * 256 + c = 12582912 \<longleftrightarrow> a = 192 \<and> b = 0 \<and> c = 0"
    and "a * 65536 + b * 256 + c = 12582914 \<longleftrightarrow> a = 192 \<and> b = 0 \<and> c = 2"
    and "a * 65536 + b * 256 + c = 12605539 \<longleftrightarrow> a = 192 \<and> b = 88 \<and> c = 99"
    and "a * 65536 + b * 256 + c = 12989284 \<longleftrightarrow> a = 198 \<and> b = 51 \<and> c = 100"
    and "a * 65536 + b * 256 + c = 13303921 \<longleftrightarrow> a = 203 \<and> b = 0 \<and> c = 113"
    using radix3_eq [OF assms(2,3), of 0 0 a 192] radix3_eq [OF assms(2,3), of 0 2 a 192] radix3_eq [OF assms(2,3), of 88 99 a 192]
      radix3_eq [OF assms(2,3), of 51 100 a 198] radix3_eq [OF assms(2,3), of 0 113 a 203]
    by simp_all
qed

lemma special_v4_eval:
  "special_v4 = [(0, 8), (167772160, 8), (1681915904, 10), (2130706432, 8), (2851995648, 16), (2886729728, 12), (3221225472, 24), (3221225984, 24), (3227017984, 24), (3232235520, 16), (3323068416, 15), (3325256704, 24), (3405803776, 24), (3758096384, 3)]"
  by (simp add: special_v4_def ipv4_value_def)

lemma is_public_v4_blocks:
  assumes "a < 256" and "b < 256" and "c < 256" and "d < 256"
  shows "is_public_v4 a b c \<longleftrightarrow> \<not> list_ex (in_block (ipv4_value a b c d)) special_v4"
proof -
  define v where "v = ipv4_value a b c d"
  note div = ipv4_value_div [OF assms(2-4), of a, folded v_def]
  have b8: "in_block v (0, 8) \<longleftrightarrow> a = 0"
    "in_block v (167772160, 8) \<longleftrightarrow> a = 10"
    "in_block v (2130706432, 8) \<longleftrightarrow> a = 127"
    using div(6) by (simp_all add: in_block_def)
  have b10: "in_block v (1681915904, 10) \<longleftrightarrow> a * 4 + b div 64 = 401"
    using div(5) by (simp_all add: in_block_def)
  have b16: "in_block v (2851995648, 16) \<longleftrightarrow> a * 256 + b = 43518"
    "in_block v (3232235520, 16) \<longleftrightarrow> a * 256 + b = 49320"
    using div(2) by (simp_all add: in_block_def)
  have b12: "in_block v (2886729728, 12) \<longleftrightarrow> a * 16 + b div 16 = 2753"
    using div(4) by (simp_all add: in_block_def)
  have b24: "in_block v (3221225472, 24) \<longleftrightarrow> a * 65536 + b * 256 + c = 12582912"
    "in_block v (3221225984, 24) \<longleftrightarrow> a * 65536 + b * 256 + c = 12582914"
    "in_block v (3227017984, 24) \<longleftrightarrow> a * 65536 + b * 256 + c = 12605539"
    "in_block v (3325256704, 24) \<longleftrightarrow> a * 65536 + b * 256 + c = 12989284"
    "in_block v (3405803776, 24) \<longleftrightarrow> a * 65536 + b * 256 + c = 13303921"
    using div(1) by (simp_all add: in_block_def)
  have b15: "in_block v (3323068416, 15) \<longleftrightarrow> a * 128 + b div 2 = 25353"
    using div(3) by (simp_all add: in_block_def)
  have b3: "in_block v (3758096384, 3) \<longleftrightarrow> a div 32 = 7"
    using div(7) by (simp_all add: in_block_def)
  have "list_ex (in_block v) special_v4 \<longleftrightarrow>
      a = 0 \<or> a = 10 \<or> a * 4 + b div 64 = 401 \<or> a = 127 \<or> a * 256 + b = 43518 \<or> a * 16 + b div 16 = 2753
      \<or> a * 65536 + b * 256 + c = 12582912 \<or> a * 65536 + b * 256 + c = 12582914
      \<or> a * 65536 + b * 256 + c = 12605539 \<or> a * 256 + b = 49320 \<or> a * 128 + b div 2 = 25353
      \<or> a * 65536 + b * 256 + c = 12989284 \<or> a * 65536 + b * 256 + c = 13303921 \<or> a div 32 = 7"
    by (simp only: special_v4_eval b8 b10 b16 b12 b24 b15 b3 list_ex_iff list.set bex_simps simp_thms)
  then show ?thesis unfolding block_arith [OF assms(1-3)] is_public_v4_def v_def by argo
qed

lemma resolve_public_Inr:
  assumes "resolve_public U lookup host port = Inr addrs"
  shows "addrs \<noteq> [] \<and> (\<forall>(ip, p) \<in> set addrs. is_public_address ip \<and> p = port)"
  using assms by (auto simp: resolve_public_def res_simps list_all_iff split: if_splits)

lemma scope_validate_Inr:
  assumes "scope_validate U k url robots = Inr ()"
  shows "http_scheme url"
    and "wu_port url = Some (case k of Loopback e \<Rightarrow> snd (lb_address e) | _ \<Rightarrow> if wu_scheme url = ''https'' then 443 else 80)"
    and "contains_exact U k url
      \<or> (robots \<and> wu_path url = ''/robots.txt'' \<and> wu_query url = None
         \<and> (\<exists>urls origin v. (k = Sample urls \<or> (\<exists>e. k = Loopback e \<and> lb_targets e = Some urls))
              \<and> origin_key_from_url url = Inr origin \<and> v \<in> urls \<and> same_origin_text U origin v))"
proof -
  show "http_scheme url"
    using assms by (simp add: scope_validate_def split: if_splits)
  show "wu_port url = Some (case k of Loopback e \<Rightarrow> snd (lb_address e) | _ \<Rightarrow> if wu_scheme url = ''https'' then 443 else 80)"
    using assms by (simp add: scope_validate_def Let_def split: if_splits)
  show "contains_exact U k url
      \<or> (robots \<and> wu_path url = ''/robots.txt'' \<and> wu_query url = None
         \<and> (\<exists>urls origin v. (k = Sample urls \<or> (\<exists>e. k = Loopback e \<and> lb_targets e = Some urls))
              \<and> origin_key_from_url url = Inr origin \<and> v \<in> urls \<and> same_origin_text U origin v))"
  proof (cases "contains_exact U k url")
    case False
    with assms obtain urls where urls: "robots" "wu_path url = ''/robots.txt''" "wu_query url = None"
        "(case k of Sample urls \<Rightarrow> Some urls | Loopback e \<Rightarrow> lb_targets e | Production \<Rightarrow> None) = Some urls"
        "res_bind (origin_key_from_url url) (\<lambda>origin.
           if \<exists>v \<in> urls. same_origin_text U origin v then Inr () else Inl CeOffScope) = Inr ()"
      by (auto simp: scope_validate_def Let_def split: if_splits option.splits)
    then obtain origin v where "origin_key_from_url url = Inr origin" "v \<in> urls" "same_origin_text U origin v"
      by (auto simp: res_simps split: if_splits)
    moreover have "k = Sample urls \<or> (\<exists>e. k = Loopback e \<and> lb_targets e = Some urls)"
      using urls(4) by (cases k) auto
    ultimately show ?thesis using urls(1-3) by blast
  qed simp
qed

section \<open>Properties\<close>

text \<open>
  Targets resolve to public addresses only. Outside the owned loopback fixture, the addresses
  that a target resolves to are never empty and all pass the public-address policy, on the
  target's own port; an IPv4 address among them lies in none of the special-use blocks (this
  host, private, shared, loopback, link-local, protocol, documentation, benchmarking, relay,
  multicast and reserved). A fixture target resolves to the owned endpoint only.
\<close>

theorem resolved_addresses_public:
  assumes "scope_resolve U lookup k url = Inr addrs"
  shows "case k of
      Loopback e \<Rightarrow> addrs = [lb_address e] \<and> (\<exists>host. host_key_from_url url = Inr host \<and> admits_host e host)
    | _ \<Rightarrow> addrs \<noteq> [] \<and> (\<forall>(ip, port) \<in> set addrs. wu_port url = Some port \<and> is_public_address ip
        \<and> (\<forall>a b c d. ip = IpV4 a b c d \<longrightarrow>
             \<not> list_ex (in_block (ipv4_value (unat a) (unat b) (unat c) (unat d))) special_v4))"
proof -
  have octet: "unat w < 256" for w :: "8 word"
    using unsigned_less [of w, where 'a = nat] by simp
  have blocks: "is_public_address (IpV4 a b c d) \<longleftrightarrow>
      \<not> list_ex (in_block (ipv4_value (unat a) (unat b) (unat c) (unat d))) special_v4" for a b c d
    unfolding is_public_address.simps
    by (rule is_public_v4_blocks) (rule octet)+
  obtain host where host: "host_key_from_url url = Inr host" using assms by (auto simp: scope_resolve_def res_simps)
  show ?thesis
  proof (cases "\<exists>e. k = Loopback e")
    case True
    with assms host show ?thesis by (auto simp: scope_resolve_def res_simps split: if_splits)
  next
    case False
    then obtain port where p: "wu_port url = Some port" "resolve_public U lookup host port = Inr addrs"
      using assms host by (cases k) (auto simp: scope_resolve_def res_simps)
    from resolve_public_Inr [OF p(2)] p(1) False blocks show ?thesis by (cases k) auto
  qed
qed

text \<open>
  A sample never leaves its selection. In sample scope a request is admitted only on the
  default port of its scheme and only if its exact record form was selected, or it is the bare
  robots.txt of an origin with a selected URL; a robots redirect has to be selected exactly.
\<close>

theorem sample_scope_exact:
  assumes "scope_validate U (Sample urls) url robots = Inr ()"
  shows "http_scheme url \<and> wu_port url = Some (if wu_scheme url = ''https'' then 443 else 80)
    \<and> (ul_safe U url \<in> urls
       \<or> (robots \<and> wu_path url = ''/robots.txt'' \<and> wu_query url = None
          \<and> (\<exists>origin v. origin_key_from_url url = Inr origin \<and> v \<in> urls \<and> same_origin_text U origin v)))
    \<and> (validate_robots_redirect U (Sample urls) url = Inr () \<longleftrightarrow> ul_safe U url \<in> urls)"
proof -
  note v = scope_validate_Inr [OF assms]
  have "validate_robots_redirect U (Sample urls) url = Inr () \<longleftrightarrow> ul_safe U url \<in> urls"
    using v(1,2) by (auto simp: validate_robots_redirect_def scope_validate_def contains_exact_def)
  with v show ?thesis by (auto simp: contains_exact_def)
qed

definition demo_web :: "string \<Rightarrow> web_url" where
  "demo_web path = \<lparr> wu_scheme = ''https'', wu_host = Some ''Example.org.'', wu_port = Some 443, wu_path = path,
     wu_query = None, wu_username = [], wu_password = None, wu_text = ''https://example.org'' @ path \<rparr>"

definition demo_url_lib :: url_lib where
  "demo_url_lib = \<lparr> ul_parse = (\<lambda>s. Some (demo_web (drop 19 s))), ul_no_fragment = (\<lambda>u. u), ul_safe = wu_text,
     ul_join = (\<lambda>u s. Some (demo_web s)), ul_ip = (\<lambda>_. None) \<rparr>"

theorem resolved_addresses_public_witness:
  "scope_resolve demo_url_lib (\<lambda>_. Inr [IpV4 93 184 215 14]) Production (demo_web ''/a'')
     = Inr [(IpV4 93 184 215 14, 443)]
   \<and> \<not> list_ex (in_block (ipv4_value 93 184 215 14)) special_v4"
proof -
  have r: "scope_resolve demo_url_lib (\<lambda>_. Inr [IpV4 93 184 215 14]) Production (demo_web ''/a'')
      = Inr [(IpV4 93 184 215 14, 443)]"
    by (simp add: scope_resolve_def host_key_from_url_def demo_web_def demo_url_lib_def resolve_public_def is_public_v4_def)
  from resolved_addresses_public [OF r] r show ?thesis by simp
qed

theorem sample_scope_exact_witness:
  "scope_validate demo_url_lib (Sample {''https://example.org/a''}) (demo_web ''/a'') True = Inr ()
   \<and> validate_robots_redirect demo_url_lib (Sample {''https://example.org/a''}) (demo_web ''/a'') = Inr ()"
proof -
  have v: "scope_validate demo_url_lib (Sample {''https://example.org/a''}) (demo_web ''/a'') True = Inr ()"
    by (simp add: scope_validate_def http_scheme_def demo_web_def contains_exact_def demo_url_lib_def)
  from sample_scope_exact [OF v] v show ?thesis by (simp add: demo_url_lib_def demo_web_def)
qed

end
