(* ===== verification/Politeness.thy ===== *)
theory Politeness
  imports Host_State
begin

text \<open>
  The host gate of \<open>crawler/politeness.rs\<close>: the permits, the start mutex and the timing that every
  fetch to one host shares. \<open>acquire_host\<close> suspends twice, so it is three operations: \<open>request\<close>
  takes a permit, \<open>enter\<close> runs from the start mutex to the wait, and \<open>start\<close> runs after the wait.
  \<open>gate_step\<close> interleaves them with the operations of the permits, cancellation, the passage of
  monotonic ticks, jumps of the wall clock and the registry operations of other hosts.
  \<open>gs_starts\<close> is a ghost log of the admitted starts, newest first, each with its gap.
\<close>

section \<open>Limits\<close>

definition HARD_MIN_HOST_GAP_MS :: nat where "HARD_MIN_HOST_GAP_MS = 500"
definition HARD_MAX_HOST_CONCURRENCY :: nat where "HARD_MAX_HOST_CONCURRENCY = 2"
definition MAX_ACCEPTED_CRAWL_DELAY_SECS :: nat where "MAX_ACCEPTED_CRAWL_DELAY_SECS = 60"
definition ROBOTS_FAILURE_RETRY_SECS :: nat where "ROBOTS_FAILURE_RETRY_SECS = 300"

section \<open>The gate\<close>

record gate_timing =
  tm_next_start :: nat
  tm_last_headers :: "nat option"
  tm_blocked_until :: nat
  tm_initialized :: bool

definition default_timing :: gate_timing where
  "default_timing = \<lparr> tm_next_start = 0, tm_last_headers = None, tm_blocked_until = 0, tm_initialized = False \<rparr>"

definition remaining_ms :: "int \<Rightarrow> int \<Rightarrow> nat" where
  "remaining_ms utc deadline = nat ((deadline - utc) div 1000000)"

definition sync_blocked :: "host_state \<Rightarrow> nat \<Rightarrow> int \<Rightarrow> gate_timing \<Rightarrow> gate_timing" where
  "sync_blocked st ticks utc tm =
     (case opt_max (hs_blocked_until_utc st) (hs_retry_at_utc st) of
        None \<Rightarrow> tm
      | Some deadline \<Rightarrow>
          tm\<lparr> tm_blocked_until := max (tm_blocked_until tm) (saturating_add_u64 ticks (remaining_ms utc deadline)) \<rparr>)"

definition sync_initial :: "wall \<Rightarrow> host_state \<Rightarrow> nat \<Rightarrow> int \<Rightarrow> nat \<Rightarrow> gate_timing \<Rightarrow> unit crawl \<times> gate_timing" where
  "sync_initial W st ticks utc gap tm =
     (if tm_initialized tm then (Inr (), tm)
      else case hs_last_request_start st of
             None \<Rightarrow> (Inr (), tm\<lparr> tm_initialized := True \<rparr>)
           | Some l \<Rightarrow>
               (case wl_add W l (int gap * 1000000) of
                  None \<Rightarrow> (Inl CeInternalInvariant, tm)
                | Some deadline \<Rightarrow>
                    (Inr (), tm\<lparr> tm_next_start := saturating_add_u64 ticks (remaining_ms utc deadline),
                                tm_initialized := True \<rparr>)))"

definition sync_headers :: "nat \<Rightarrow> gate_timing \<Rightarrow> gate_timing" where
  "sync_headers gap tm =
     (case tm_last_headers tm of
        None \<Rightarrow> tm
      | Some l \<Rightarrow> tm\<lparr> tm_next_start := max (tm_next_start tm) (saturating_add_u64 (saturating_add_u64 l gap) 1) \<rparr>)"

definition sync_deadlines ::
  "wall \<Rightarrow> host_state \<Rightarrow> nat \<Rightarrow> int \<Rightarrow> nat \<Rightarrow> gate_timing \<Rightarrow> unit crawl \<times> gate_timing" where
  "sync_deadlines W st ticks utc gap tm =
     (case sync_initial W st ticks utc gap (sync_blocked st ticks utc tm) of
        (Inl e, tm1) \<Rightarrow> (Inl e, tm1)
      | (Inr _, tm1) \<Rightarrow> (Inr (), sync_headers gap tm1))"

section \<open>Tasks\<close>

datatype task =
    Permitted (tk_gap: nat) (tk_queued: nat)
  | Waiting (tk_gap: nat) (tk_queued: nat) (tk_next_start: nat)
  | Running (tk_gap: nat) (tk_started_at: int) (tk_queue_ms: nat) (tk_guard: bool)

record gate_env =
  ge_wall :: wall
  ge_host :: host_key
  ge_gap_ms :: nat
  ge_block_secs :: nat
  ge_permits :: nat

record gate_sys =
  gs_ticks :: nat
  gs_utc :: int
  gs_registry :: host_registry
  gs_timing :: gate_timing
  gs_free :: nat
  gs_holder :: "nat option"
  gs_tasks :: "nat \<rightharpoonup> task"
  gs_starts :: "(nat \<times> nat) list"

definition new_gate :: "gate_env \<Rightarrow> host_registry \<Rightarrow> nat \<Rightarrow> int \<Rightarrow> gate_sys" where
  "new_gate E r ticks utc =
     \<lparr> gs_ticks = ticks, gs_utc = utc, gs_registry = r, gs_timing = default_timing, gs_free = ge_permits E,
       gs_holder = None, gs_tasks = Map.empty, gs_starts = [] \<rparr>"

text \<open>Dropping the semaphore permit and the start guard of a task.\<close>

definition release :: "nat \<Rightarrow> gate_sys \<Rightarrow> gate_sys" where
  "release i s =
     s\<lparr> gs_tasks := (gs_tasks s)(i := None), gs_free := gs_free s + 1,
        gs_holder := (if gs_holder s = Some i then None else gs_holder s) \<rparr>"

definition host_gap :: "gate_env \<Rightarrow> nat option \<Rightarrow> nat" where
  "host_gap E robots_delay =
     max (max (ge_gap_ms E) HARD_MIN_HOST_GAP_MS) (case robots_delay of Some d \<Rightarrow> d | None \<Rightarrow> 0)"

text \<open>\<open>acquire_host\<close> up to the semaphore; \<open>queued\<close> is the tick of the call, and \<open>None\<close>
  means that the permit is not available yet.\<close>

definition request :: "gate_env \<Rightarrow> nat \<Rightarrow> nat \<Rightarrow> nat option \<Rightarrow> gate_sys \<Rightarrow> (unit crawl \<times> gate_sys) option" where
  "request E i queued robots_delay s =
     (if (case robots_delay of Some d \<Rightarrow> d > MAX_ACCEPTED_CRAWL_DELAY_SECS * 1000 | None \<Rightarrow> False)
      then Some (Inl CeCrawlDelayExceedsCeiling, s)
      else if gs_free s = 0 then None
      else Some (Inr (), s\<lparr> gs_free := gs_free s - 1,
                          gs_tasks := (gs_tasks s)(i \<mapsto> Permitted (host_gap E robots_delay) queued) \<rparr>))"

text \<open>From the start mutex to the wait.\<close>

definition enter :: "gate_env \<Rightarrow> nat \<Rightarrow> nat \<Rightarrow> nat \<Rightarrow> gate_sys \<Rightarrow> unit crawl \<times> gate_sys" where
  "enter E i gap queued s =
     (let s1 = s\<lparr> gs_holder := Some i \<rparr> in
      case registry_state (gs_registry s) (ge_host E) of
        Inl e \<Rightarrow> (Inl e, release i s1)
      | Inr st \<Rightarrow>
          (case sync_deadlines (ge_wall E) st (gs_ticks s) (gs_utc s) gap (gs_timing s) of
             (Inl e, tm) \<Rightarrow> (Inl e, release i (s1\<lparr> gs_timing := tm \<rparr>))
           | (Inr _, tm) \<Rightarrow>
               (if tm_blocked_until tm > gs_ticks s
                then (Inl CeHostBlocked, release i (s1\<lparr> gs_timing := tm \<rparr>))
                else (Inr (), s1\<lparr> gs_timing := tm,
                                 gs_tasks := (gs_tasks s)(i \<mapsto> Waiting gap queued (tm_next_start tm)) \<rparr>))))"

text \<open>From the end of the wait to the permit.\<close>

definition start :: "gate_env \<Rightarrow> write_end \<Rightarrow> nat \<Rightarrow> nat \<Rightarrow> nat \<Rightarrow> gate_sys \<Rightarrow> unit crawl \<times> gate_sys" where
  "start E w i gap queued s =
     (case registry_state (gs_registry s) (ge_host E) of
        Inl e \<Rightarrow> (Inl e, release i s)
      | Inr st \<Rightarrow>
          (case sync_deadlines (ge_wall E) st (gs_ticks s) (gs_utc s) gap (gs_timing s) of
             (Inl e, tm) \<Rightarrow> (Inl e, release i (s\<lparr> gs_timing := tm \<rparr>))
           | (Inr _, tm) \<Rightarrow>
               (if tm_blocked_until tm > gs_ticks s
                then (Inl CeHostBlocked, release i (s\<lparr> gs_timing := tm \<rparr>))
                else
                  case checked_add_u64 (gs_ticks s) gap of
                    None \<Rightarrow> (Inl CeInternalInvariant, release i (s\<lparr> gs_timing := tm \<rparr>))
                  | Some ns \<Rightarrow>
                      (let s1 = s\<lparr> gs_timing := tm\<lparr> tm_next_start := ns \<rparr> \<rparr> in
                       case started w (gs_registry s) (ge_host E) (gs_utc s) of
                         (Inl e, r) \<Rightarrow> (Inl e, release i (s1\<lparr> gs_registry := r \<rparr>))
                       | (Inr _, r) \<Rightarrow>
                           (Inr (), s1\<lparr> gs_registry := r, gs_starts := (gs_ticks s, gap) # gs_starts s,
                                       gs_tasks := (gs_tasks s)(i \<mapsto>
                                         Running gap (gs_utc s) (gs_ticks s - queued) True) \<rparr>)))))"

section \<open>Permits\<close>

definition headers_received :: "nat \<Rightarrow> nat \<Rightarrow> gate_sys \<Rightarrow> gate_sys" where
  "headers_received i gap s =
     (let tm = gs_timing s in
      s\<lparr> gs_timing := tm\<lparr> tm_last_headers := Some (gs_ticks s),
           tm_next_start := max (tm_next_start tm) (saturating_add_u64 (saturating_add_u64 (gs_ticks s) gap) 1) \<rparr>,
         gs_holder := None,
         gs_tasks := (gs_tasks s)(i := map_option (\<lambda>t. Running (tk_gap t) (tk_started_at t) (tk_queue_ms t) False) (gs_tasks s i)) \<rparr>)"

definition permit_drop :: "nat \<Rightarrow> nat \<Rightarrow> bool \<Rightarrow> gate_sys \<Rightarrow> gate_sys" where
  "permit_drop i gap guard s = release i (if guard then headers_received i gap s else s)"

definition permit_observe ::
  "gate_env \<Rightarrow> write_end \<Rightarrow> nat \<Rightarrow> nat \<Rightarrow> response_headers \<Rightarrow> challenge_kind option \<Rightarrow> gate_sys
   \<Rightarrow> unit crawl \<times> gate_sys" where
  "permit_observe E w gap status H challenge s =
     (case observe (ge_wall E) (ge_block_secs E) w (gs_registry s) (ge_host E) (gs_utc s) status H challenge of
        (Inl e, r) \<Rightarrow> (Inl e, s\<lparr> gs_registry := r \<rparr>)
      | (Inr _, r) \<Rightarrow>
          (case registry_state r (ge_host E) of
             Inl e \<Rightarrow> (Inl e, s\<lparr> gs_registry := r \<rparr>)
           | Inr st \<Rightarrow>
               (case sync_deadlines (ge_wall E) st (gs_ticks s) (gs_utc s) gap (gs_timing s) of
                  (res, tm) \<Rightarrow> (res, s\<lparr> gs_registry := r, gs_timing := tm \<rparr>))))"

definition observe_body_challenge ::
  "gate_env \<Rightarrow> write_end \<Rightarrow> nat \<Rightarrow> response_headers \<Rightarrow> challenge_kind \<Rightarrow> gate_sys \<Rightarrow> unit crawl \<times> gate_sys" where
  "observe_body_challenge E w gap H challenge s = permit_observe E w gap 0 H (Some challenge) s"

section \<open>Interleavings\<close>

inductive gate_step :: "gate_env \<Rightarrow> gate_sys \<Rightarrow> gate_sys \<Rightarrow> bool" for E where
  g_tick: "ticks \<ge> gs_ticks s \<Longrightarrow> ticks \<le> u64_max \<Longrightarrow>
    gate_step E s (s\<lparr> gs_ticks := ticks, gs_utc := utc \<rparr>)"
| g_registry: "registry_step (ge_wall E) (ge_block_secs E) (gs_registry s) r \<Longrightarrow>
    gate_step E s (s\<lparr> gs_registry := r \<rparr>)"
| g_request: "gs_tasks s i = None \<Longrightarrow> queued \<le> gs_ticks s \<Longrightarrow> request E i queued delay s = Some (res, s') \<Longrightarrow> gate_step E s s'"
| g_enter: "gs_tasks s i = Some (Permitted gap queued) \<Longrightarrow> gs_holder s = None \<Longrightarrow>
    enter E i gap queued s = (res, s') \<Longrightarrow> gate_step E s s'"
| g_start: "gs_tasks s i = Some (Waiting gap queued ns) \<Longrightarrow> ns \<le> gs_ticks s \<Longrightarrow>
    start E w i gap queued s = (res, s') \<Longrightarrow> gate_step E s s'"
| g_headers: "gs_tasks s i = Some (Running gap at q True) \<Longrightarrow> gate_step E s (headers_received i gap s)"
| g_observe: "gs_tasks s i = Some (Running gap at q guard) \<Longrightarrow>
    permit_observe E w gap status H challenge s = (res, s') \<Longrightarrow> gate_step E s s'"
| g_drop: "gs_tasks s i = Some (Running gap at q guard) \<Longrightarrow> gate_step E s (permit_drop i gap guard s)"
| g_cancel_queued: "gs_tasks s i = Some (Permitted gap queued) \<Longrightarrow> gate_step E s (release i s)"
| g_cancel_waiting: "gs_tasks s i = Some (Waiting gap queued ns) \<Longrightarrow> gate_step E s (release i s)"

definition reachable_gate :: "gate_env \<Rightarrow> gate_sys \<Rightarrow> bool" where
  "reachable_gate E s \<longleftrightarrow> (\<exists>r ticks utc. ticks \<le> u64_max \<and> (gate_step E)\<^sup>*\<^sup>* (new_gate E r ticks utc) s)"

inductive_cases gate_stepE: "gate_step E s s'"

section \<open>Timing only moves forward\<close>

definition timing_le :: "gate_timing \<Rightarrow> gate_timing \<Rightarrow> bool" where
  "timing_le a b \<longleftrightarrow>
     tm_last_headers b = tm_last_headers a \<and> tm_blocked_until a \<le> tm_blocked_until b
     \<and> (tm_initialized a \<longrightarrow> tm_initialized b \<and> tm_next_start a \<le> tm_next_start b)"

lemma timing_le_refl [simp]: "timing_le a a"
  by (simp add: timing_le_def)

lemma sat_twice [simp]: "saturating_add_u64 (saturating_add_u64 a b) (Suc 0) = min (Suc (a + b)) u64_max"
  by (simp add: saturating_add_u64_def)

lemma sync_deadlines_le:
  assumes "sync_deadlines W st ticks utc gap tm = (res, tm')"
  shows "timing_le tm tm'"
  using assms
  by (auto simp: sync_deadlines_def sync_initial_def sync_blocked_def sync_headers_def timing_le_def
      split: option.splits if_splits prod.splits sum.splits)

lemma sync_deadlines_ok:
  assumes "sync_deadlines W st ticks utc gap tm = (Inr u, tm')"
  shows "tm_initialized tm'"
    and "tm_last_headers tm = Some h \<Longrightarrow> min (Suc (h + gap)) u64_max \<le> tm_next_start tm'"
    and "opt_max (hs_blocked_until_utc st) (hs_retry_at_utc st) = Some d \<Longrightarrow>
      saturating_add_u64 ticks (remaining_ms utc d) \<le> tm_blocked_until tm'"
  using assms
  by (auto simp: sync_deadlines_def sync_initial_def sync_blocked_def sync_headers_def
      split: option.splits if_splits prod.splits sum.splits)

section \<open>The invariant\<close>

fun holds_lock :: "task \<Rightarrow> bool" where
  "holds_lock (Permitted _ _) = False"
| "holds_lock (Waiting _ _ _) = True"
| "holds_lock (Running _ _ _ guard) = guard"

definition lock_inv :: "gate_env \<Rightarrow> gate_sys \<Rightarrow> bool" where
  "lock_inv E s \<longleftrightarrow>
     gs_ticks s \<le> u64_max
     \<and> finite (dom (gs_tasks s)) \<and> gs_free s + card (dom (gs_tasks s)) = ge_permits E
     \<and> (\<forall>i. gs_holder s = Some i \<longleftrightarrow> (\<exists>t. gs_tasks s i = Some t \<and> holds_lock t))
     \<and> (\<forall>i t. gs_tasks s i = Some t \<longrightarrow> host_gap E None \<le> tk_gap t)
     \<and> (\<forall>i g at q. gs_tasks s i = Some (Running g at q True) \<longrightarrow> (\<exists>t0 xs. gs_starts s = (t0, g) # xs))"

text \<open>After the last start: either its request still holds the start mutex, or its headers arrived.\<close>

definition settled :: "nat \<Rightarrow> nat \<Rightarrow> gate_sys \<Rightarrow> bool" where
  "settled t0 g0 s \<longleftrightarrow>
     (\<exists>h. tm_last_headers (gs_timing s) = Some h \<and> t0 \<le> h \<and> h \<le> gs_ticks s
       \<and> min (Suc (h + g0)) u64_max \<le> tm_next_start (gs_timing s)
       \<and> (\<forall>i g q ns. gs_tasks s i = Some (Waiting g q ns) \<longrightarrow> min (Suc (h + max g0 g)) u64_max \<le> ns))"

fun spaced :: "(nat \<times> nat) list \<Rightarrow> bool" where
  "spaced ((t, g) # (t0, g0) # xs) \<longleftrightarrow> t0 + max g0 g < t \<and> spaced ((t0, g0) # xs)"
| "spaced _ = True"

definition time_inv :: "gate_env \<Rightarrow> gate_sys \<Rightarrow> bool" where
  "time_inv E s \<longleftrightarrow>
     spaced (gs_starts s) \<and> (\<forall>(t, g) \<in> set (gs_starts s). host_gap E None \<le> g)
     \<and> (\<forall>i g q ns. gs_tasks s i = Some (Waiting g q ns) \<longrightarrow> tm_initialized (gs_timing s))
     \<and> (\<forall>t0 g0 xs. gs_starts s = (t0, g0) # xs \<longrightarrow>
          tm_initialized (gs_timing s) \<and> t0 \<le> gs_ticks s
          \<and> ((\<exists>i at q. gs_tasks s i = Some (Running g0 at q True)) \<or> settled t0 g0 s))"

lemma lock_inv_unique:
  "lock_inv E s \<Longrightarrow> gs_tasks s i = Some t \<Longrightarrow> holds_lock t \<Longrightarrow> gs_tasks s j = Some u \<Longrightarrow> holds_lock u \<Longrightarrow> i = j"
  unfolding lock_inv_def by (metis option.inject)

lemma lock_inv_release:
  assumes "lock_inv E s" and "gs_tasks s i = Some t"
  shows "lock_inv E (release i s)"
proof -
  have "i \<in> dom (gs_tasks s)" "finite (dom (gs_tasks s))"
    using assms by (auto simp: lock_inv_def)
  then have "card (dom (gs_tasks s) - {i}) = card (dom (gs_tasks s)) - 1" "card (dom (gs_tasks s)) > 0"
    by (auto simp: card_gt_0_iff)
  then show ?thesis
    using assms lock_inv_unique [OF assms(1)]
    by (auto simp: lock_inv_def release_def)
qed

lemma lock_inv_timing [simp]: "lock_inv E (s\<lparr> gs_timing := tm \<rparr>) = lock_inv E s"
  by (simp add: lock_inv_def)

lemma lock_inv_registry [simp]: "lock_inv E (s\<lparr> gs_registry := r \<rparr>) = lock_inv E s"
  by (simp add: lock_inv_def)

lemma release_update [simp]:
  "gs_timing (release i s) = gs_timing s" "gs_starts (release i s) = gs_starts s" "gs_ticks (release i s) = gs_ticks s"
  "gs_tasks (release i s) = (gs_tasks s)(i := None)"
  by (simp_all add: release_def)

lemma settled_timing:
  assumes "settled t0 g0 s" and "timing_le (gs_timing s) tm" and "tm_initialized (gs_timing s)"
  shows "settled t0 g0 (s\<lparr> gs_timing := tm \<rparr>)"
proof -
  obtain h where h: "tm_last_headers (gs_timing s) = Some h" "t0 \<le> h" "h \<le> gs_ticks s"
      "min (Suc (h + g0)) u64_max \<le> tm_next_start (gs_timing s)"
      "\<forall>i g q ns. gs_tasks s i = Some (Waiting g q ns) \<longrightarrow> min (Suc (h + max g0 g)) u64_max \<le> ns"
    using assms(1) unfolding settled_def by blast
  have "tm_last_headers tm = Some h" "min (Suc (h + g0)) u64_max \<le> tm_next_start tm"
    using assms(2,3) h(1,4) by (auto simp: timing_le_def)
  with h(2,3,5) show ?thesis unfolding settled_def by auto
qed

lemma settled_tasks:
  assumes "settled t0 g0 s" and "\<And>i g q ns. m i = Some (Waiting g q ns) \<Longrightarrow> gs_tasks s i = Some (Waiting g q ns)"
    and "gs_timing s' = gs_timing s" and "gs_ticks s \<le> gs_ticks s'" and "gs_tasks s' = m"
  shows "settled t0 g0 s'"
proof -
  obtain h where h: "tm_last_headers (gs_timing s) = Some h" "t0 \<le> h" "h \<le> gs_ticks s"
      "min (Suc (h + g0)) u64_max \<le> tm_next_start (gs_timing s)"
      "\<forall>i g q ns. gs_tasks s i = Some (Waiting g q ns) \<longrightarrow> min (Suc (h + max g0 g)) u64_max \<le> ns"
    using assms(1) unfolding settled_def by blast
  moreover have "h \<le> gs_ticks s'" using h(3) assms(4) by simp
  ultimately show ?thesis
    unfolding settled_def assms(3,5) using assms(2) by blast
qed

lemma time_inv_release:
  assumes "time_inv E s" and "gs_tasks s i = Some t" and "\<forall>g at q. t \<noteq> Running g at q True"
  shows "time_inv E (release i s)"
proof -
  have "settled t0 g0 s \<Longrightarrow> settled t0 g0 (release i s)" for t0 g0
    by (rule settled_tasks [where m = "(gs_tasks s)(i := None)"]) (auto split: if_splits)
  moreover have "gs_tasks s j = Some (Running g at q True) \<Longrightarrow> gs_tasks (release i s) j = Some (Running g at q True)" for j g at q
    using assms(2,3) by auto
  moreover have "((gs_tasks s)(i := None)) j = Some (Waiting g q ns) \<Longrightarrow> gs_tasks s j = Some (Waiting g q ns)" for j g q ns
    by (auto split: if_splits)
  ultimately show ?thesis
    using assms(1) unfolding time_inv_def release_update by blast
qed

lemma time_inv_timing:
  assumes "time_inv E s" and "timing_le (gs_timing s) tm"
  shows "time_inv E (s\<lparr> gs_timing := tm \<rparr>)"
  using assms settled_timing [OF _ assms(2)] unfolding time_inv_def
  by (simp add: timing_le_def) blast

lemma time_inv_registry [simp]: "time_inv E (s\<lparr> gs_registry := r \<rparr>) = time_inv E s"
  by (simp add: time_inv_def settled_def)

lemma time_inv_settled:
  assumes "time_inv E s" and "gs_starts s = (t0, g0) # xs"
    and "\<And>i g at q. gs_tasks s i \<noteq> Some (Running g at q True)"
  shows "settled t0 g0 s"
  using assms unfolding time_inv_def by blast

section \<open>Preservation\<close>

lemma new_gate_inv: "ticks \<le> u64_max \<Longrightarrow> lock_inv E (new_gate E r ticks utc) \<and> time_inv E (new_gate E r ticks utc)"
  by (simp add: lock_inv_def time_inv_def new_gate_def)

lemma host_gap_mono: "host_gap E None \<le> host_gap E d"
  by (simp add: host_gap_def)

lemma request_inv:
  assumes "lock_inv E s" and "time_inv E s" and "gs_tasks s i = None" and "request E i q d s = Some (res, s')"
  shows "lock_inv E s' \<and> time_inv E s'"
proof (cases "s' = s")
  case False
  then have s': "s' = s\<lparr> gs_free := gs_free s - 1,
      gs_tasks := (gs_tasks s)(i \<mapsto> Permitted (host_gap E d) q) \<rparr>" and free: "gs_free s > 0"
    using assms(4) by (auto simp: request_def split: if_splits)
  have "lock_inv E s'"
    using assms(1,3) free host_gap_mono [of E d] unfolding lock_inv_def s' by (auto simp: card_insert_if)
  moreover have "settled t0 g0 s \<Longrightarrow> settled t0 g0 s'" for t0 g0
    by (rule settled_tasks [where m = "gs_tasks s'"]) (auto simp: s' split: if_splits)
  moreover have "gs_tasks s j = Some (Running g at q True) \<Longrightarrow> gs_tasks s' j = Some (Running g at q True)" for j g at q
    using assms(3) by (auto simp: s')
  moreover have "gs_tasks s' j = Some (Waiting g q ns) \<Longrightarrow> gs_tasks s j = Some (Waiting g q ns)" for j g q ns
    by (auto simp: s' split: if_splits)
  moreover have sel: "gs_starts s' = gs_starts s" "gs_timing s' = gs_timing s" "gs_ticks s' = gs_ticks s"
    by (simp_all add: s')
  ultimately show ?thesis using assms(2) unfolding time_inv_def sel by blast
qed (use assms in simp)

lemma no_running_guard:
  assumes "lock_inv E s" and "gs_holder s = None \<or> (gs_holder s = Some i \<and> gs_tasks s i = Some (Waiting g q ns))"
  shows "gs_tasks s j \<noteq> Some (Running g' at q' True)"
proof
  assume "gs_tasks s j = Some (Running g' at q' True)"
  then have "gs_holder s = Some j" using assms(1) unfolding lock_inv_def by (metis holds_lock.simps(3))
  with assms(2) \<open>gs_tasks s j = _\<close> show False by auto
qed

lemma lock_inv_hold:
  assumes "lock_inv E s" and "gs_tasks s i = Some (Permitted gap queued)" and "gs_holder s = None"
  shows "lock_inv E (s\<lparr> gs_holder := Some i, gs_tasks := (gs_tasks s)(i \<mapsto> Waiting gap queued ns) \<rparr>)"
proof -
  have "host_gap E None \<le> gap" using assms(1,2) unfolding lock_inv_def by fastforce
  with assms show ?thesis unfolding lock_inv_def by (auto simp: insert_absorb domI)
qed

lemma enter_inv:
  assumes "lock_inv E s" and "time_inv E s" and "gs_tasks s i = Some (Permitted gap queued)" and "gs_holder s = None"
    and "enter E i gap queued s = (res, s')"
  shows "lock_inv E s' \<and> time_inv E s'"
proof -
  define s1 where "s1 = s\<lparr> gs_holder := Some i \<rparr>"
  have rel: "release i (s1\<lparr> gs_timing := tm \<rparr>) = release i (s\<lparr> gs_timing := tm \<rparr>)" for tm
    using assms(4) by (simp add: release_def s1_def)
  have r1: "release i s1 = release i (s\<lparr> gs_timing := gs_timing s \<rparr>)"
    using assms(4) by (simp add: release_def s1_def)
  have gone: "lock_inv E (release i (s\<lparr> gs_timing := tm \<rparr>)) \<and> time_inv E (release i (s\<lparr> gs_timing := tm \<rparr>))"
    if "timing_le (gs_timing s) tm" for tm
  proof
    show "lock_inv E (release i (s\<lparr> gs_timing := tm \<rparr>))"
      by (rule lock_inv_release [where t = "Permitted gap queued"]) (use assms(1,3) in simp_all)
    show "time_inv E (release i (s\<lparr> gs_timing := tm \<rparr>))"
      by (rule time_inv_release [OF time_inv_timing [OF assms(2) that], where t = "Permitted gap queued"])
        (use assms(3) in simp_all)
  qed
  have wait: "lock_inv E s2 \<and> time_inv E s2"
    if "sync_deadlines (ge_wall E) st (gs_ticks s) (gs_utc s) gap (gs_timing s) = (Inr u, tm)"
      and s2: "s2 = s1\<lparr> gs_timing := tm, gs_tasks := (gs_tasks s)(i \<mapsto> Waiting gap queued (tm_next_start tm)) \<rparr>"
    for st u tm s2
  proof
    note le = sync_deadlines_le [OF that(1)] and ok = sync_deadlines_ok [OF that(1)]
    have "s2 = (s\<lparr> gs_holder := Some i, gs_tasks := (gs_tasks s)(i \<mapsto> Waiting gap queued (tm_next_start tm)) \<rparr>)\<lparr> gs_timing := tm \<rparr>"
      by (simp add: s2 s1_def)
    then show "lock_inv E s2" using lock_inv_hold [OF assms(1,3,4)] by simp
    have quiet: "gs_tasks s j \<noteq> Some (Waiting g q ns)" "gs_tasks s j \<noteq> Some (Running g at q' True)" for j g q ns at q'
      using assms(1,4) unfolding lock_inv_def by (metis holds_lock.simps(2,3) option.distinct(1))+
    have "settled t0 g0 s2" if st0: "gs_starts s = (t0, g0) # xs" for t0 g0 xs
    proof -
      have "tm_initialized (gs_timing s)" using assms(2) st0 unfolding time_inv_def by blast
      then have "settled t0 g0 (s\<lparr> gs_timing := tm \<rparr>)"
        using settled_timing [OF time_inv_settled [OF assms(2) st0 quiet(2)] le] by blast
      then obtain h where h: "tm_last_headers tm = Some h" "t0 \<le> h" "h \<le> gs_ticks s"
          "min (Suc (h + g0)) u64_max \<le> tm_next_start tm"
        unfolding settled_def by auto
      have "tm_last_headers (gs_timing s) = Some h" using le h(1) by (simp add: timing_le_def)
      from ok(2) [OF this] h(4) have "min (Suc (h + max g0 gap)) u64_max \<le> tm_next_start tm"
        by (simp add: max_def)
      with h quiet(1) show ?thesis
        unfolding settled_def by (intro exI [of _ h]) (simp add: s2 s1_def)
    qed
    then show "time_inv E s2"
      using assms(2) ok(1) unfolding time_inv_def by (simp add: s2 s1_def)
  qed
  show ?thesis
    using assms(5) gone gone [OF timing_le_refl] wait sync_deadlines_le
    unfolding enter_def Let_def s1_def [symmetric] rel r1
    by (auto split: sum.splits prod.splits if_splits)
qed

lemma waiting_release_inv:
  assumes "lock_inv E s" and "time_inv E s" and "gs_tasks s i = Some (Waiting gap queued ns)"
    and "timing_le (gs_timing s) tm"
  shows "lock_inv E (release i (s\<lparr> gs_timing := tm \<rparr>)) \<and> time_inv E (release i (s\<lparr> gs_timing := tm \<rparr>))"
proof
  show "lock_inv E (release i (s\<lparr> gs_timing := tm \<rparr>))"
    by (rule lock_inv_release [where t = "Waiting gap queued ns"]) (use assms(1,3) in simp_all)
  show "time_inv E (release i (s\<lparr> gs_timing := tm \<rparr>))"
    by (rule time_inv_release [OF time_inv_timing [OF assms(2,4)], where t = "Waiting gap queued ns"])
      (use assms(3) in simp_all)
qed

lemma started_after_last:
  assumes "lock_inv E s" and "time_inv E s" and "gs_tasks s i = Some (Waiting gap queued ns)" and "ns \<le> gs_ticks s"
    and "gs_ticks s + gap \<le> u64_max" and "gs_starts s = (t0, g0) # xs"
  shows "t0 + max g0 gap < gs_ticks s"
    and "\<exists>h. tm_last_headers (gs_timing s) = Some h \<and> Suc (h + g0) \<le> gs_ticks s \<and> t0 \<le> h \<and> h \<le> gs_ticks s"
proof -
  have "gs_holder s = Some i" using assms(1,3) unfolding lock_inv_def by (metis holds_lock.simps(2))
  then have "settled t0 g0 s"
    using time_inv_settled [OF assms(2,6)] no_running_guard [OF assms(1)] assms(3) by blast
  then obtain h where h: "tm_last_headers (gs_timing s) = Some h" "t0 \<le> h" "h \<le> gs_ticks s"
      "min (Suc (h + max g0 gap)) u64_max \<le> ns"
    unfolding settled_def using assms(3) by blast
  have "host_gap E None \<le> gap" using assms(1,3) unfolding lock_inv_def by fastforce
  then have "gap > 0" by (simp add: host_gap_def HARD_MIN_HOST_GAP_MS_def)
  with h(4) assms(4,5) have "Suc (h + max g0 gap) \<le> gs_ticks s" by (simp add: min_def split: if_splits)
  with h show "t0 + max g0 gap < gs_ticks s"
    and "\<exists>h. tm_last_headers (gs_timing s) = Some h \<and> Suc (h + g0) \<le> gs_ticks s \<and> t0 \<le> h \<and> h \<le> gs_ticks s"
    by auto
qed

lemma time_inv_next_start:
  assumes "lock_inv E s" and "time_inv E s" and "gs_tasks s i = Some (Waiting gap queued ns)" and "ns \<le> gs_ticks s"
    and "gs_ticks s + gap \<le> u64_max" and "timing_le (gs_timing s) tm" and "tm_initialized tm"
  shows "time_inv E (s\<lparr> gs_timing := tm\<lparr> tm_next_start := gs_ticks s + gap \<rparr> \<rparr>)"
proof -
  let ?tm = "tm\<lparr> tm_next_start := gs_ticks s + gap \<rparr>"
  have hold: "gs_holder s = Some i" using assms(1,3) unfolding lock_inv_def by (metis holds_lock.simps(2))
  have others: "j = i" if "gs_tasks s j = Some (Waiting g q n)" for j g q n
    using lock_inv_unique [OF assms(1,3) _ that] by simp
  have "settled t0 g0 (s\<lparr> gs_timing := ?tm \<rparr>)" if st0: "gs_starts s = (t0, g0) # xs" for t0 g0 xs
  proof -
    have "settled t0 g0 s"
      using time_inv_settled [OF assms(2) st0] no_running_guard [OF assms(1)] assms(3) hold by blast
    then obtain h where h: "tm_last_headers (gs_timing s) = Some h" "t0 \<le> h" "h \<le> gs_ticks s"
      "\<forall>i g q ns. gs_tasks s i = Some (Waiting g q ns) \<longrightarrow> min (Suc (h + max g0 g)) u64_max \<le> ns"
      unfolding settled_def by blast
    moreover have "tm_last_headers ?tm = Some h" using h(1) assms(6) by (simp add: timing_le_def)
    moreover have "min (Suc (h + g0)) u64_max \<le> tm_next_start ?tm"
      using started_after_last(2) [OF assms(1-5) st0] h(1) by auto
    ultimately show ?thesis unfolding settled_def by (intro exI [of _ h]) simp
  qed
  then show ?thesis using assms(2,7) unfolding time_inv_def by simp
qed

lemma start_ok_inv:
  assumes "lock_inv E s" and "time_inv E s" and "gs_tasks s i = Some (Waiting gap queued ns)" and "ns \<le> gs_ticks s"
    and "gs_ticks s + gap \<le> u64_max" and "timing_le (gs_timing s) tm" and "tm_initialized tm"
    and s': "s' = s\<lparr> gs_timing := tm\<lparr> tm_next_start := gs_ticks s + gap \<rparr>, gs_registry := r,
      gs_starts := (gs_ticks s, gap) # gs_starts s, gs_tasks := (gs_tasks s)(i \<mapsto> Running gap at q True) \<rparr>"
  shows "lock_inv E s' \<and> time_inv E s'"
proof
  have gap: "host_gap E None \<le> gap" using assms(1,3) unfolding lock_inv_def by fastforce
  have alone: "j = i" if "gs_tasks s j = Some t" "holds_lock t" for j t
    using lock_inv_unique [OF assms(1,3) _ that] by simp
  have hold: "gs_holder s = Some i" using assms(1,3) unfolding lock_inv_def by (metis holds_lock.simps(2))
  have dom: "dom (gs_tasks s') = dom (gs_tasks s)" using assms(3) by (auto simp: s')
  have holder: "gs_holder s' = Some j \<longleftrightarrow> (\<exists>t. gs_tasks s' j = Some t \<and> holds_lock t)" for j
    using hold alone by (cases "j = i") (auto simp: s')
  have gaps: "host_gap E None \<le> tk_gap t" if "gs_tasks s' j = Some t" for j t
    using assms(1) gap that unfolding lock_inv_def by (cases "j = i") (auto simp: s')
  have head: "\<exists>t0 xs. gs_starts s' = (t0, g) # xs" if "gs_tasks s' j = Some (Running g a b True)" for j g a b
    using that alone by (cases "j = i") (auto simp: s')
  have "gs_ticks s' = gs_ticks s" "gs_free s' = gs_free s" by (simp_all add: s')
  with assms(1) dom holder gaps head show "lock_inv E s'" unfolding lock_inv_def by metis
  have "spaced (gs_starts s')"
    using assms(2) started_after_last(1) [OF assms(1-5)] unfolding time_inv_def s'
    by (cases "gs_starts s") auto
  then show "time_inv E s'"
    using assms(2,7) gap unfolding time_inv_def by (auto simp: s')
qed

lemma start_inv:
  assumes "lock_inv E s" and "time_inv E s" and "gs_tasks s i = Some (Waiting gap queued ns)" and "ns \<le> gs_ticks s"
    and "start E w i gap queued s = (res, s')"
  shows "lock_inv E s' \<and> time_inv E s'"
proof -
  note gone = waiting_release_inv [OF assms(1-3)]
  have same: "release i s = release i (s\<lparr> gs_timing := gs_timing s \<rparr>)" by simp
  have late: "lock_inv E (release i (s\<lparr> gs_timing := tm\<lparr> tm_next_start := gs_ticks s + gap \<rparr>, gs_registry := r \<rparr>))
      \<and> time_inv E (release i (s\<lparr> gs_timing := tm\<lparr> tm_next_start := gs_ticks s + gap \<rparr>, gs_registry := r \<rparr>))"
    if "timing_le (gs_timing s) tm" "tm_initialized tm" "gs_ticks s + gap \<le> u64_max" for tm r
  proof
    let ?s = "(s\<lparr> gs_timing := tm\<lparr> tm_next_start := gs_ticks s + gap \<rparr> \<rparr>)\<lparr> gs_registry := r \<rparr>"
    have "lock_inv E ?s" "time_inv E ?s"
      using assms(1) time_inv_next_start [OF assms(1-4) that(3,1,2)] by (simp_all only: lock_inv_timing lock_inv_registry time_inv_registry)
    then show "lock_inv E (release i ?s)" "time_inv E (release i ?s)"
      using lock_inv_release [of E ?s i "Waiting gap queued ns"] time_inv_release [of E ?s i "Waiting gap queued ns"] assms(3)
      by simp_all
  qed
  show ?thesis
  proof (cases "registry_state (gs_registry s) (ge_host E)")
    case (Inl e)
    then show ?thesis using assms(5) gone [OF timing_le_refl] by (auto simp: start_def)
  next
    case (Inr st)
    obtain out tm where sync: "sync_deadlines (ge_wall E) st (gs_ticks s) (gs_utc s) gap (gs_timing s) = (out, tm)" by force
    note le = sync_deadlines_le [OF sync]
    show ?thesis
    proof (cases "out = Inr () \<and> tm_blocked_until tm \<le> gs_ticks s \<and> gs_ticks s + gap \<le> u64_max")
      case False
      then have "s' = release i (s\<lparr> gs_timing := tm \<rparr>)"
        using assms(5) Inr sync
        by (cases out) (auto simp: start_def checked_add_u64_def Let_def split: if_splits prod.splits sum.splits)
      then show ?thesis using gone [OF le] by simp
    next
      case True
      then have ok: "tm_initialized tm" using sync_deadlines_ok(1) sync by blast
      obtain res' r where st: "started w (gs_registry s) (ge_host E) (gs_utc s) = (res', r)" by force
      show ?thesis
      proof (cases res')
        case (Inl e)
        then have "s' = release i (s\<lparr> gs_timing := tm\<lparr> tm_next_start := gs_ticks s + gap \<rparr>, gs_registry := r \<rparr>)"
          using assms(5) Inr sync True st by (simp add: start_def checked_add_u64_def Let_def split: prod.splits)
        then show ?thesis using late [OF le ok] True by simp
      next
        case (Inr u)
        then have "s' = s\<lparr> gs_timing := tm\<lparr> tm_next_start := gs_ticks s + gap \<rparr>, gs_registry := r,
            gs_starts := (gs_ticks s, gap) # gs_starts s,
            gs_tasks := (gs_tasks s)(i \<mapsto> Running gap (gs_utc s) (gs_ticks s - queued) True) \<rparr>"
          using assms(5) \<open>registry_state _ _ = Inr st\<close> sync True st
          by (simp add: start_def checked_add_u64_def Let_def split: prod.splits)
        then show ?thesis using start_ok_inv [OF assms(1-4) _ le ok] True by blast
      qed
    qed
  qed
qed

lemma headers_inv:
  assumes "lock_inv E s" and "time_inv E s" and "gs_tasks s i = Some (Running gap at q True)"
  shows "lock_inv E (headers_received i gap s) \<and> time_inv E (headers_received i gap s)"
proof
  define s' where "s' = headers_received i gap s"
  have sel: "gs_ticks s' = gs_ticks s" "gs_free s' = gs_free s" "gs_holder s' = None" "gs_starts s' = gs_starts s"
      "gs_tasks s' = (gs_tasks s)(i \<mapsto> Running gap at q False)"
      "tm_last_headers (gs_timing s') = Some (gs_ticks s)" "tm_initialized (gs_timing s') = tm_initialized (gs_timing s)"
      "min (Suc (gs_ticks s + gap)) u64_max \<le> tm_next_start (gs_timing s')"
    using assms(3) by (simp_all add: s'_def headers_received_def Let_def)
  have alone: "j = i" if "gs_tasks s j = Some t" "holds_lock t" for j t
    using lock_inv_unique [OF assms(1,3) _ that] by simp
  have dom: "dom (gs_tasks s') = dom (gs_tasks s)" using assms(3) by (auto simp: sel)
  have none: "\<not> holds_lock t" if "gs_tasks s' j = Some t" for j t
    using that alone by (cases "j = i") (auto simp: sel)
  have gaps: "host_gap E None \<le> tk_gap t" if "gs_tasks s' j = Some t" for j t
    using assms(1,3) that unfolding lock_inv_def by (cases "j = i") (auto simp: sel, force)
  have head: "\<exists>t0 xs. gs_starts s' = (t0, g) # xs" if "gs_tasks s' j = Some (Running g a b True)" for j g a b
    using none [OF that] by simp
  show "lock_inv E (headers_received i gap s)"
    using assms(1) dom none gaps head unfolding s'_def [symmetric] lock_inv_def sel(1,2,3) by (metis option.distinct(1))
  obtain t0 xs where st: "gs_starts s = (t0, gap) # xs"
    using assms(1,3) unfolding lock_inv_def by blast
  have t0: "t0 \<le> gs_ticks s" "tm_initialized (gs_timing s)" using assms(2) st unfolding time_inv_def by blast+
  have "gs_tasks s' j \<noteq> Some (Waiting g q' ns)" for j g q' ns using none [of j "Waiting g q' ns"] by auto
  then have "settled t0 gap s'"
    unfolding settled_def sel(1,6) using t0(1) sel(8) by blast
  then show "time_inv E (headers_received i gap s)"
    using assms(2) st t0 unfolding s'_def [symmetric] time_inv_def sel(1,4,7) by simp
qed

lemma permit_drop_inv:
  assumes "lock_inv E s" and "time_inv E s" and "gs_tasks s i = Some (Running gap at q guard)"
  shows "lock_inv E (permit_drop i gap guard s) \<and> time_inv E (permit_drop i gap guard s)"
proof -
  define u where "u = (if guard then headers_received i gap s else s)"
  have u: "lock_inv E u" "time_inv E u" "gs_tasks u i = Some (Running gap at q False)"
    using assms headers_inv [OF assms(1,2)] by (auto simp: u_def headers_received_def Let_def)
  then have "lock_inv E (release i u) \<and> time_inv E (release i u)"
    using lock_inv_release [OF u(1,3)] time_inv_release [OF u(2,3)] by blast
  then show ?thesis by (simp add: permit_drop_def u_def)
qed

lemma permit_observe_inv:
  assumes "lock_inv E s" and "time_inv E s" and "permit_observe E w gap status H challenge s = (res, s')"
  shows "lock_inv E s' \<and> time_inv E s'"
proof -
  have one: "lock_inv E (s\<lparr> gs_registry := r \<rparr>) \<and> time_inv E (s\<lparr> gs_registry := r \<rparr>)" for r
    using assms(1,2) by simp
  have both: "lock_inv E (s\<lparr> gs_registry := r, gs_timing := tm \<rparr>) \<and> time_inv E (s\<lparr> gs_registry := r, gs_timing := tm \<rparr>)"
    if "timing_le (gs_timing s) tm" for r tm
    using assms(1) time_inv_timing [of E "s\<lparr> gs_registry := r \<rparr>" tm] assms(2) that by simp
  obtain out r where obs: "observe (ge_wall E) (ge_block_secs E) w (gs_registry s) (ge_host E) (gs_utc s) status H challenge = (out, r)"
    by force
  show ?thesis
  proof (cases "\<exists>u st. out = Inr u \<and> registry_state r (ge_host E) = Inr st")
    case True
    then obtain u st where ok: "out = Inr u" "registry_state r (ge_host E) = Inr st" by blast
    obtain res' tm where sync: "sync_deadlines (ge_wall E) st (gs_ticks s) (gs_utc s) gap (gs_timing s) = (res', tm)" by force
    have "s' = s\<lparr> gs_registry := r, gs_timing := tm \<rparr>"
      using assms(3) obs ok sync by (simp add: permit_observe_def)
    then show ?thesis using both [OF sync_deadlines_le [OF sync]] by simp
  next
    case False
    then have "s' = s\<lparr> gs_registry := r \<rparr>"
      using assms(3) obs by (auto simp: permit_observe_def split: sum.splits)
    then show ?thesis using one by simp
  qed
qed

lemma tick_inv:
  assumes "lock_inv E s" and "time_inv E s" and "gs_ticks s \<le> ticks" and "ticks \<le> u64_max"
  shows "lock_inv E (s\<lparr> gs_ticks := ticks, gs_utc := utc \<rparr>) \<and> time_inv E (s\<lparr> gs_ticks := ticks, gs_utc := utc \<rparr>)"
proof -
  let ?s = "s\<lparr> gs_ticks := ticks, gs_utc := utc \<rparr>"
  have "settled t0 g0 s \<Longrightarrow> settled t0 g0 ?s" for t0 g0
    by (rule settled_tasks [where m = "gs_tasks s"]) (use assms(3) in simp_all)
  moreover have "t0 \<le> gs_ticks s \<Longrightarrow> t0 \<le> ticks" for t0 using assms(3) by simp
  ultimately show ?thesis
    using assms(1,2,4) unfolding lock_inv_def time_inv_def by simp blast
qed

lemma gate_step_inv:
  assumes "gate_step E s s'" and "lock_inv E s \<and> time_inv E s"
  shows "lock_inv E s' \<and> time_inv E s'"
  using assms
proof (induction rule: gate_step.induct)
  case (g_tick s ticks utc)
  then show ?case using tick_inv by blast
next
  case (g_registry s r)
  then show ?case by simp
next
  case (g_request s i queued delay res s')
  then show ?case using request_inv by blast
next
  case (g_enter s i gap queued res s')
  then show ?case using enter_inv by blast
next
  case (g_start s i gap queued ns w res s')
  then show ?case using start_inv by blast
next
  case (g_headers s i gap at q)
  then show ?case using headers_inv by blast
next
  case (g_observe s i gap at q guard w status H challenge res s')
  then show ?case using permit_observe_inv by blast
next
  case (g_drop s i gap at q guard)
  then show ?case using permit_drop_inv by blast
next
  case (g_cancel_queued s i gap queued)
  then show ?case using lock_inv_release time_inv_release by blast
next
  case (g_cancel_waiting s i gap queued ns)
  then show ?case using lock_inv_release time_inv_release by blast
qed

lemma reachable_gate_inv:
  assumes "reachable_gate E s"
  shows "lock_inv E s" and "time_inv E s"
proof -
  obtain r ticks utc where "ticks \<le> u64_max" and run: "(gate_step E)\<^sup>*\<^sup>* (new_gate E r ticks utc) s"
    using assms unfolding reachable_gate_def by blast
  from run have "lock_inv E s \<and> time_inv E s"
  proof (induction rule: rtranclp_induct)
    case base
    show ?case by (rule new_gate_inv) fact
  next
    case (step y z)
    then show ?case using gate_step_inv by blast
  qed
  then show "lock_inv E s" "time_inv E s" by blast+
qed

section \<open>Properties\<close>

lemma spaced_nth:
  "spaced xs \<Longrightarrow> i < j \<Longrightarrow> j < length xs \<Longrightarrow>
   fst (xs ! j) + max (snd (xs ! j)) (snd (xs ! (j - 1))) < fst (xs ! i)"
proof (induction xs arbitrary: i j rule: spaced.induct)
  case (1 t g t0 g0 xs)
  show ?case
  proof (cases "j = 1")
    case True
    with 1 show ?thesis by simp
  next
    case False
    with 1(3) obtain k where j: "j = Suc k" "k > 0" by (cases j) auto
    have "fst (((t0, g0) # xs) ! k) + max (snd (((t0, g0) # xs) ! k)) (snd (((t0, g0) # xs) ! (k - 1)))
        < fst (((t0, g0) # xs) ! l)" if "l < k" for l
      using 1(1) [of l k] 1(2,4) that j by simp
    from this [of "i - 1"] this [of 0] 1(2,3) j show ?thesis
      by (cases i; cases k) auto
  qed
qed auto

text \<open>
  C16: the gap between request starts. In every interleaving of requests, cancellations, responses,
  clock jumps and registry failures, two admitted starts to one host are further apart than the
  gap of the earlier one and of the start that follows it, and every gap is at least the policy's
  and at least 500 milliseconds.
\<close>

theorem host_starts_are_spaced:
  assumes "reachable_gate E s" and "i < j" and "j < length (gs_starts s)"
  shows "fst (gs_starts s ! j) + max (snd (gs_starts s ! j)) (snd (gs_starts s ! (j - 1))) < fst (gs_starts s ! i)
    \<and> max (ge_gap_ms E) 500 \<le> snd (gs_starts s ! j)"
proof -
  have inv: "time_inv E s" by (rule reachable_gate_inv) fact
  then have "spaced (gs_starts s)" "\<forall>x \<in> set (gs_starts s). host_gap E None \<le> snd x"
    unfolding time_inv_def by auto
  then show ?thesis
    using spaced_nth [of "gs_starts s" i j] assms(2,3) nth_mem [OF assms(3)]
    by (simp add: host_gap_def HARD_MIN_HOST_GAP_MS_def)
qed

text \<open>
  concurrency. In every reachable state the tasks that hold a permit and the free permits add
  up to the permits of the gate, and at most one task is between the start mutex and its headers.
\<close>

theorem host_concurrency_bounded:
  assumes "reachable_gate E s"
  shows "card (dom (gs_tasks s)) + gs_free s = ge_permits E
    \<and> (\<forall>i j t u. gs_tasks s i = Some t \<longrightarrow> gs_tasks s j = Some u \<longrightarrow> holds_lock t \<longrightarrow> holds_lock u \<longrightarrow> i = j)"
proof -
  have inv: "lock_inv E s" by (rule reachable_gate_inv) fact
  then have "card (dom (gs_tasks s)) + gs_free s = ge_permits E" unfolding lock_inv_def by simp
  with lock_inv_unique [OF inv] show ?thesis by blast
qed

lemma start_Inr:
  assumes "start E w i gap queued s = (Inr u, s')"
  obtains st tm where "registry_state (gs_registry s) (ge_host E) = Inr st"
    "sync_deadlines (ge_wall E) st (gs_ticks s) (gs_utc s) gap (gs_timing s) = (Inr (), tm)"
    "tm_blocked_until tm \<le> gs_ticks s" "gs_ticks s + gap \<le> u64_max" "w = WriteOk"
proof -
  obtain st where st: "registry_state (gs_registry s) (ge_host E) = Inr st"
    using assms by (cases "registry_state (gs_registry s) (ge_host E)") (auto simp: start_def)
  obtain out tm where sync: "sync_deadlines (ge_wall E) st (gs_ticks s) (gs_utc s) gap (gs_timing s) = (out, tm)" by force
  have out: "out = Inr ()" "tm_blocked_until tm \<le> gs_ticks s" "gs_ticks s + gap \<le> u64_max"
    using assms st sync by (cases out; auto simp: start_def checked_add_u64_def split: if_splits)+
  obtain res r where r: "started w (gs_registry s) (ge_host E) (gs_utc s) = (res, r)" by force
  have "res = Inr ()"
    using assms st sync out r by (cases res) (simp_all add: start_def checked_add_u64_def Let_def)
  then have "w = WriteOk"
    using registry_update_cases(2,5) [OF r [unfolded started_def]] by auto
  with that [OF st] sync out show ?thesis by blast
qed

text \<open>
  no request starts against a block. A start is admitted only while the registry is readable,
  the gate's monotonic deadline has passed, and every recorded block or retry instant of the host
  is less than a millisecond ahead of the wall clock.
\<close>

theorem blocked_host_not_started:
  assumes "start E w i gap queued s = (Inr u, s')" and "gs_ticks s < u64_max"
  shows "\<not> hr_failed (gs_registry s) \<and> tm_blocked_until (gs_timing s) \<le> gs_ticks s
    \<and> (\<forall>d. opt_max (hs_blocked_until_utc (state_of (gs_registry s) (ge_host E)))
            (hs_retry_at_utc (state_of (gs_registry s) (ge_host E))) = Some d \<longrightarrow> d < gs_utc s + 1000000)"
proof -
  obtain st tm where a: "registry_state (gs_registry s) (ge_host E) = Inr st"
      "sync_deadlines (ge_wall E) st (gs_ticks s) (gs_utc s) gap (gs_timing s) = (Inr (), tm)"
      "tm_blocked_until tm \<le> gs_ticks s"
    by (rule start_Inr [OF assms(1)])
  have st: "st = state_of (gs_registry s) (ge_host E)" "\<not> hr_failed (gs_registry s)"
    using a(1) by (auto simp: registry_state_def state_of_def split: if_splits)
  have "d < gs_utc s + 1000000" if "opt_max (hs_blocked_until_utc st) (hs_retry_at_utc st) = Some d" for d
  proof -
    have "remaining_ms (gs_utc s) d = 0"
      using sync_deadlines_ok(3) [OF a(2) that] a(3) assms(2) by (auto simp: saturating_add_u64_def min_def split: if_splits)
    then have "(d - gs_utc s) div 1000000 \<le> 0" by (simp add: remaining_ms_def)
    then show ?thesis by linarith
  qed
  moreover have "tm_blocked_until (gs_timing s) \<le> gs_ticks s"
    using sync_deadlines_le [OF a(2)] a(3) by (simp add: timing_le_def)
  ultimately show ?thesis using st by blast
qed

text \<open>
  C35: a waiting request starts. In every reachable state, a request that waits on a host with no
  block or retry deadline ahead starts once its wait is over: letting the clock reach its deadline
  and running it admits a start, at the deadline or now if that is later.
\<close>

theorem waiting_request_starts:
  assumes "reachable_gate E s" and "gs_tasks s i = Some (Waiting gap queued ns)"
    and "\<not> hr_failed (gs_registry s)" and "tm_blocked_until (gs_timing s) \<le> gs_ticks s"
    and "opt_le (opt_max (hs_blocked_until_utc (state_of (gs_registry s) (ge_host E)))
            (hs_retry_at_utc (state_of (gs_registry s) (ge_host E)))) (Some (gs_utc s))"
    and "max ns (gs_ticks s) + gap \<le> u64_max"
  shows "\<exists>s'. (gate_step E)\<^sup>*\<^sup>* s s' \<and> gs_starts s' = (max ns (gs_ticks s), gap) # gs_starts s"
proof -
  define t where "t = max ns (gs_ticks s)"
  define u where "u = s\<lparr> gs_ticks := t, gs_utc := gs_utc s \<rparr>"
  define st where "st = state_of (gs_registry s) (ge_host E)"
  have step1: "gate_step E s u"
  proof -
    have "max ns (gs_ticks s) \<le> u64_max" using assms(6) by linarith
    then show ?thesis unfolding u_def by (intro g_tick) (simp_all add: t_def)
  qed
  have init: "tm_initialized (gs_timing s)"
    using reachable_gate_inv(2) [OF assms(1)] assms(2) unfolding time_inv_def by blast
  have "remaining_ms (gs_utc s) d = 0" if "opt_max (hs_blocked_until_utc st) (hs_retry_at_utc st) = Some d" for d
    using assms(5) that unfolding st_def [symmetric] by (simp add: opt_le_iff remaining_ms_def div_nonpos_pos_le0)
  then have blocked: "tm_blocked_until (sync_blocked st t (gs_utc s) (gs_timing s)) \<le> t"
    using assms(4,6) by (auto simp: sync_blocked_def saturating_add_u64_def t_def split: option.splits)
  obtain tm where sync: "sync_deadlines (ge_wall E) st t (gs_utc s) gap (gs_timing s) = (Inr (), tm)"
      "tm_blocked_until tm \<le> t"
    using init blocked
    by (auto simp: sync_deadlines_def sync_initial_def sync_headers_def sync_blocked_def split: option.splits)
  have reg: "registry_state (gs_registry s) (ge_host E) = Inr st"
    using assms(3) by (simp add: registry_state_def st_def state_of_def)
  obtain r where "started WriteOk (gs_registry s) (ge_host E) (gs_utc s) = (Inr (), r)"
    using assms(3) by (simp add: started_def registry_update_def Let_def)
  moreover have "gs_ticks u = t" "gs_utc u = gs_utc s" "gs_registry u = gs_registry s" "gs_timing u = gs_timing s"
      "gs_starts u = gs_starts s" "t + gap \<le> u64_max" using assms(6) by (simp_all add: u_def t_def)
  ultimately have "\<exists>s'. start E WriteOk i gap queued u = (Inr (), s') \<and> gs_starts s' = (t, gap) # gs_starts s"
    using reg sync by (simp add: start_def checked_add_u64_def Let_def)
  then obtain s' where s': "start E WriteOk i gap queued u = (Inr (), s')" "gs_starts s' = (t, gap) # gs_starts s"
    by blast
  have "gs_tasks u i = Some (Waiting gap queued ns)" "ns \<le> gs_ticks u"
    using assms(2) by (simp_all add: u_def t_def)
  from g_start [OF this s'(1)] have "gate_step E u s'" .
  with step1 s'(2) show ?thesis unfolding t_def by (meson rtranclp.rtrancl_into_rtrancl r_into_rtranclp)
qed

section \<open>A concrete gate\<close>

definition demo_gate_env :: gate_env where
  "demo_gate_env = \<lparr> ge_wall = utc_wall, ge_host = ''h'', ge_gap_ms = 10000, ge_block_secs = 86400, ge_permits = 1 \<rparr>"

definition demo_waiting :: gate_sys where
  "demo_waiting = (new_gate demo_gate_env demo_registry 7 0)
     \<lparr> gs_free := 0, gs_holder := Some 1, gs_timing := default_timing\<lparr> tm_initialized := True \<rparr>,
       gs_tasks := [1 \<mapsto> Waiting 10000 7 0] \<rparr>"

lemma demo_waiting_reachable: "reachable_gate demo_gate_env demo_waiting"
proof -
  let ?s0 = "new_gate demo_gate_env demo_registry 7 0"
  obtain s1 where r: "request demo_gate_env 1 7 None ?s0 = Some (Inr (), s1)"
      and s1: "s1 = ?s0\<lparr> gs_free := 0, gs_tasks := [1 \<mapsto> Permitted 10000 7] \<rparr>"
    by (simp add: request_def new_gate_def demo_gate_env_def host_gap_def HARD_MIN_HOST_GAP_MS_def)
  have "gate_step demo_gate_env ?s0 s1" by (rule g_request [OF _ _ r]) (simp_all add: new_gate_def)
  moreover have e: "enter demo_gate_env 1 10000 7 s1 = (Inr (), demo_waiting)"
    by (simp add: enter_def s1 new_gate_def demo_registry_def registry_state_def default_host_state_def
        sync_deadlines_def sync_initial_def sync_blocked_def sync_headers_def default_timing_def demo_waiting_def Let_def)
  moreover have "gate_step demo_gate_env s1 demo_waiting"
    by (rule g_enter [OF _ _ e]) (simp_all add: s1 new_gate_def)
  ultimately have "(gate_step demo_gate_env)\<^sup>*\<^sup>* ?s0 demo_waiting" by (meson rtranclp.rtrancl_into_rtrancl r_into_rtranclp)
  moreover have "(7::nat) \<le> u64_max" by simp
  ultimately show ?thesis unfolding reachable_gate_def by blast
qed

lemma demo_waiting_sel:
  "gs_tasks demo_waiting = [1 \<mapsto> Waiting 10000 7 0]" "gs_ticks demo_waiting = 7" "gs_registry demo_waiting = demo_registry"
  "tm_blocked_until (gs_timing demo_waiting) = 0" "gs_starts demo_waiting = []" "gs_utc demo_waiting = 0"
  "state_of demo_registry h = default_host_state" "gs_free demo_waiting = 0" "\<not> hr_failed demo_registry"
  by (simp_all add: demo_waiting_def new_gate_def default_timing_def state_of_def demo_registry_def)

theorem waiting_request_starts_witness:
  "\<exists>s'. (gate_step demo_gate_env)\<^sup>*\<^sup>* demo_waiting s' \<and> gs_starts s' = [(7, 10000)]"
  using waiting_request_starts [OF demo_waiting_reachable, of 1 10000 7 0]
  by (simp add: demo_waiting_sel default_host_state_def opt_le_iff)

theorem host_concurrency_bounded_witness: "card (dom (gs_tasks demo_waiting)) + gs_free demo_waiting = 1"
  using host_concurrency_bounded [OF demo_waiting_reachable] by (simp add: demo_gate_env_def)

theorem blocked_host_not_started_witness:
  "\<exists>s'. start demo_gate_env WriteOk 1 10000 7 demo_waiting = (Inr (), s') \<and> \<not> hr_failed (gs_registry demo_waiting)"
proof -
  obtain s' where s': "start demo_gate_env WriteOk 1 10000 7 demo_waiting = (Inr (), s')"
    by (simp add: start_def demo_waiting_def new_gate_def demo_registry_def registry_state_def default_host_state_def
        sync_deadlines_def sync_initial_def sync_blocked_def sync_headers_def default_timing_def started_def
        registry_update_def checked_add_u64_def Let_def)
  with blocked_host_not_started [OF s'] show ?thesis by (simp add: demo_waiting_sel)
qed

definition demo_started :: gate_sys where
  "demo_started = snd (start demo_gate_env WriteOk 1 10000 7 demo_waiting)"

definition demo_second :: gate_sys where
  "demo_second = snd (enter demo_gate_env 2 10000 7
     (snd (the (request demo_gate_env 2 7 None (permit_drop 1 10000 True demo_started)))))"

definition demo_two_starts :: gate_sys where
  "demo_two_starts = snd (start demo_gate_env WriteOk 2 10000 7 (demo_second\<lparr> gs_ticks := 10008, gs_utc := 0 \<rparr>))"

lemmas gate_eval = start_def enter_def request_def permit_drop_def headers_received_def release_def new_gate_def
  demo_registry_def registry_state_def default_host_state_def sync_deadlines_def sync_initial_def sync_blocked_def
  sync_headers_def default_timing_def started_def registry_update_def checked_add_u64_def host_gap_def
  HARD_MIN_HOST_GAP_MS_def

lemma demo_two_starts_reachable:
  "reachable_gate demo_gate_env demo_two_starts \<and> gs_starts demo_two_starts = [(10008, 10000), (7, 10000)]"
proof -
  have started: "gate_step demo_gate_env demo_waiting demo_started"
    by (rule g_start [of _ 1 10000 7 0 _ WriteOk "fst (start demo_gate_env WriteOk 1 10000 7 demo_waiting)"])
      (simp_all add: demo_waiting_sel demo_started_def)
  let ?d = "permit_drop 1 10000 True demo_started"
  obtain at q where "gs_tasks demo_started 1 = Some (Running 10000 at q True)"
    by (simp add: demo_started_def demo_waiting_def demo_gate_env_def gate_eval Let_def)
  then have dropped: "gate_step demo_gate_env demo_started ?d" by (rule g_drop)
  let ?r = "snd (the (request demo_gate_env 2 7 None ?d))"
  have tasks: "gs_tasks ?d = Map.empty" "gs_free ?d = 1" "gs_holder ?d = None" "gs_ticks ?d = 7"
    by (auto simp: demo_started_def demo_waiting_def demo_gate_env_def gate_eval Let_def)
  have req: "request demo_gate_env 2 7 None ?d = Some (Inr (), ?r)" "gs_tasks ?r = [2 \<mapsto> Permitted 10000 7]" "gs_holder ?r = None"
    using tasks by (simp_all add: request_def host_gap_def demo_gate_env_def HARD_MIN_HOST_GAP_MS_def)
  have queued: "gate_step demo_gate_env ?d ?r" by (rule g_request [OF _ _ req(1)]) (subst tasks, simp)+
  have "enter demo_gate_env 2 10000 7 ?r = (fst (enter demo_gate_env 2 10000 7 ?r), demo_second)"
    unfolding demo_second_def by (rule prod.collapse [symmetric])
  then have second: "gate_step demo_gate_env ?r demo_second"
    by (rule g_enter [rotated 2]) (subst req, simp)+
  have w: "gs_tasks demo_second = [2 \<mapsto> Waiting 10000 7 10008]" "gs_ticks demo_second = 7"
    by (simp_all add: demo_second_def demo_started_def demo_waiting_def demo_gate_env_def gate_eval Let_def saturating_add_u64_def
        remaining_ms_def)
  have tick: "gate_step demo_gate_env demo_second (demo_second\<lparr> gs_ticks := 10008, gs_utc := 0 \<rparr>)"
    by (rule g_tick) (simp_all add: w)
  have "gate_step demo_gate_env (demo_second\<lparr> gs_ticks := 10008, gs_utc := 0 \<rparr>) demo_two_starts"
    by (rule g_start [of _ 2 10000 7 10008 _ WriteOk
          "fst (start demo_gate_env WriteOk 2 10000 7 (demo_second\<lparr> gs_ticks := 10008, gs_utc := 0 \<rparr>))"])
      (simp_all add: w demo_two_starts_def)
  with started dropped queued second tick have "(gate_step demo_gate_env)\<^sup>*\<^sup>* demo_waiting demo_two_starts"
    by (meson rtranclp.rtrancl_into_rtrancl r_into_rtranclp)
  then have "reachable_gate demo_gate_env demo_two_starts"
    using demo_waiting_reachable unfolding reachable_gate_def by (meson rtranclp_trans)
  moreover have "gs_starts demo_two_starts = [(10008, 10000), (7, 10000)]"
    by (simp add: demo_two_starts_def demo_second_def demo_started_def demo_waiting_def demo_gate_env_def gate_eval Let_def
        saturating_add_u64_def remaining_ms_def)
  ultimately show ?thesis by blast
qed

theorem host_starts_are_spaced_witness:
  "length (gs_starts demo_two_starts) = 2
   \<and> fst (gs_starts demo_two_starts ! 1) + 10000 < fst (gs_starts demo_two_starts ! 0)"
  using host_starts_are_spaced [of demo_gate_env demo_two_starts 0 1] demo_two_starts_reachable
  by (simp add: demo_gate_env_def)

end
