(* ===== verification/Robots_Txt.thy ===== *)
theory Robots_Txt
  imports Robots Network_Scope Politeness
begin

text \<open>
  The robots manager of \<open>crawler/robots_txt.rs\<close>: group selection, declared delays, the refresh
  loop with its redirects, the cache, and the decision for one URL. The transport is an oracle
  that answers the n-th fetch of a refresh; the url crate, the percent decoder, floating-point
  reading and rounding, the trace and the frontier policy are fields of \<open>rt_env\<close>, and so is
  whether the parser or the matcher panics, which the code catches. The list of fetched targets
  that the hops return is a ghost.
\<close>

section \<open>Text\<close>

text \<open>
  \<open>str::lines\<close>: cut at line feeds; a carriage return before a line feed goes with it, and an empty
  last line is dropped.
\<close>

definition strip_cr :: "string \<Rightarrow> string" where
  "strip_cr s = (if s \<noteq> [] \<and> last s = CHR 0x0D then butlast s else s)"

definition str_lines :: "string \<Rightarrow> string list" where
  "str_lines s =
     (let parts = split_on (CHR 0x0A) s in
      map strip_cr (butlast parts) @ (if last parts = [] then [] else [last parts]))"

fun split_any :: "char list \<Rightarrow> string \<Rightarrow> string list" where
  "split_any ds [] = [[]]"
| "split_any ds (c # cs) =
     (if c \<in> set ds then [] # split_any ds cs
      else case split_any ds cs of [] \<Rightarrow> [[c]] | u # us \<Rightarrow> (c # u) # us)"

definition utf8_tail :: "char \<Rightarrow> bool" where
  "utf8_tail c \<longleftrightarrow> 128 \<le> byte c \<and> byte c \<le> (191::nat)"

text \<open>\<open>str::from_utf8\<close> accepts exactly the shortest encodings of Unicode scalar values.\<close>

fun utf8_ok :: "string \<Rightarrow> bool" where
  "utf8_ok [] = True"
| "utf8_ok (a # s) =
     (let x = byte a :: nat in
      if x < 128 then utf8_ok s
      else if 194 \<le> x \<and> x \<le> 223 then (case s of b # r \<Rightarrow> utf8_tail b \<and> utf8_ok r | [] \<Rightarrow> False)
      else if 224 \<le> x \<and> x \<le> 239 then
        (case s of
           b # c # r \<Rightarrow> utf8_tail b \<and> utf8_tail c \<and> (x = 224 \<longrightarrow> byte b \<ge> (160::nat))
             \<and> (x = 237 \<longrightarrow> byte b \<le> (159::nat)) \<and> utf8_ok r
         | _ \<Rightarrow> False)
      else if 240 \<le> x \<and> x \<le> 244 then
        (case s of
           b # c # d # r \<Rightarrow> utf8_tail b \<and> utf8_tail c \<and> utf8_tail d \<and> (x = 240 \<longrightarrow> byte b \<ge> (144::nat))
             \<and> (x = 244 \<longrightarrow> byte b \<le> (143::nat)) \<and> utf8_ok r
         | _ \<Rightarrow> False)
      else False)"

section \<open>Snapshots\<close>

datatype robots_decision = AllowRule | DisallowRule | AllowAllUnavailable | DisallowUnreachable | Bootstrap

datatype robots_body_state = Received | NotReceived

record robots_snapshot =
  rs_origin :: string
  rs_fetched_at_utc :: int
  rs_expires_at_utc :: int
  rs_http_status :: "nat option"
  rs_body_sha256 :: "string option"
  rs_body_state :: robots_body_state
  rs_decision :: robots_decision
  rs_matched_rule_kind :: string
  rs_matched_rule_sha256 :: "string option"
  rs_crawl_delay_ms :: "nat option"
  rs_failure_code :: "string option"

record 'f cached =
  ch_parsed :: "'f robots option"
  ch_selected :: string
  ch_snapshot :: robots_snapshot
  ch_ticks :: nat
  ch_ttl_ms :: nat

record fetch_response =
  fr_status :: nat
  fr_headers :: response_headers
  fr_body :: "string crawl"

record 'f rt_env =
  rt_urls :: url_lib
  rt_scope :: scope_kind
  rt_traced :: bool
  rt_lib :: "'f robots_lib"
  rt_sha256 :: "string \<Rightarrow> string"
  rt_f32_ms :: "'f \<Rightarrow> nat option"
  rt_f64_ms :: "string \<Rightarrow> nat option"
  rt_decode_path :: "string \<Rightarrow> string option"
  rt_set_path :: "web_url \<Rightarrow> string \<Rightarrow> web_url"
  rt_origin_url :: "web_url \<Rightarrow> web_url"
  rt_frontier :: "web_url \<Rightarrow> unit crawl"
  rt_trace_redirect :: "web_url \<Rightarrow> unit crawl"
  rt_trace_result :: "robots_snapshot \<Rightarrow> unit crawl"
  rt_wall :: wall
  rt_cache_secs :: nat
  rt_parse_panics :: "string \<Rightarrow> bool"
  rt_match_panics :: "web_url \<Rightarrow> bool"

definition pending_snapshot :: "string \<Rightarrow> int \<Rightarrow> robots_snapshot" where
  "pending_snapshot origin now =
     \<lparr> rs_origin = origin, rs_fetched_at_utc = now, rs_expires_at_utc = now, rs_http_status = None,
       rs_body_sha256 = None, rs_body_state = NotReceived, rs_decision = DisallowUnreachable,
       rs_matched_rule_kind = ''unreachable'', rs_matched_rule_sha256 = None, rs_crawl_delay_ms = None,
       rs_failure_code = None \<rparr>"

definition cache_expired :: "'f cached \<Rightarrow> nat \<Rightarrow> bool" where
  "cache_expired c now \<longleftrightarrow> now - ch_ticks c \<ge> ch_ttl_ms c"

section \<open>Group selection\<close>

record group_state =
  gr_groups :: "(string list \<times> string list) list"
  gr_agents :: "string list"
  gr_lines :: "string list"
  gr_has_rule :: bool
  gr_sitemaps :: "string list"

definition group_line :: "group_state \<Rightarrow> string \<Rightarrow> group_state" where
  "group_line g raw =
     (let line = trim (hd (split_on (CHR ''#'') raw)) in
      case split_once (CHR '':'') line of
        None \<Rightarrow> g
      | Some (n, value) \<Rightarrow>
          (let name = to_ascii_lowercase (trim n) in
           if name = ''user-agent'' then
             (let g1 = (if gr_has_rule g
                        then g\<lparr> gr_groups := gr_groups g @ [(gr_agents g, gr_lines g)], gr_agents := [], gr_lines := [],
                               gr_has_rule := False \<rparr>
                        else g)
              in g1\<lparr> gr_agents := gr_agents g1 @ map to_ascii_lowercase
                   (filter (\<lambda>s. s \<noteq> []) (split_any [CHR '','', CHR '' '', CHR 0x09] value)) \<rparr>)
           else if name = ''sitemap'' then g\<lparr> gr_sitemaps := gr_sitemaps g @ [line] \<rparr>
           else if name = ''allow'' \<or> name = ''disallow'' \<or> name = ''crawl-delay'' then
             g\<lparr> gr_lines := gr_lines g @ [line], gr_has_rule := True \<rparr>
           else g))"

definition read_groups :: "string \<Rightarrow> (string list \<times> string list) list \<times> string list" where
  "read_groups body =
     (let g = foldl group_line \<lparr> gr_groups = [], gr_agents = [], gr_lines = [], gr_has_rule = False, gr_sitemaps = [] \<rparr>
                (str_lines body)
      in (gr_groups g @ [(gr_agents g, gr_lines g)], gr_sitemaps g))"

definition bot_token :: "(string list \<times> string list) list \<Rightarrow> string" where
  "bot_token groups =
     (if list_ex (\<lambda>(agents, _). ''avasearchbot'' \<in> set agents) groups then ''avasearchbot'' else ''*'')"

definition selected_lines :: "(string list \<times> string list) list \<Rightarrow> string list" where
  "selected_lines groups =
     concat (map snd (filter (\<lambda>(agents, _). agents = [] \<or> bot_token groups \<in> set agents) groups))"

definition select_exact_groups :: "string \<Rightarrow> string" where
  "select_exact_groups body =
     (case read_groups body of (groups, sitemaps) \<Rightarrow>
        ''User-agent: AVASearchBot'' @ [CHR 0x0A]
        @ concat (map (\<lambda>line. line @ [CHR 0x0A]) (selected_lines groups @ sitemaps)))"

definition validate_declared_delays :: "(string \<Rightarrow> nat option) \<Rightarrow> string \<Rightarrow> nat option crawl" where
  "validate_declared_delays f64_ms selected =
     res_fold (\<lambda>delay line.
        case split_once (CHR '':'') line of
          None \<Rightarrow> Inr delay
        | Some (name, value) \<Rightarrow>
            if \<not> eq_ignore_ascii_case (trim name) ''crawl-delay'' then Inr delay
            else (case f64_ms (trim value) of
                    None \<Rightarrow> Inl CeRobotsUnreachable
                  | Some ms \<Rightarrow> Inr (opt_max delay (Some ms)))) None (str_lines selected)"

definition failure_code :: "crawl_error \<Rightarrow> string" where
  "failure_code e =
     (case e of
        CeTimeout \<Rightarrow> ''timeout'' | CeTlsError \<Rightarrow> ''tls'' | CeConnectError \<Rightarrow> ''connect''
      | CeContentTooLarge \<Rightarrow> ''body-too-large'' | CeHostBlocked \<Rightarrow> ''host-blocked''
      | CeRefusedPrivateAddress \<Rightarrow> ''private-address'' | _ \<Rightarrow> ''transport-failed'')"

section \<open>Paths\<close>

fun collapse_slashes :: "bool \<Rightarrow> string \<Rightarrow> string" where
  "collapse_slashes slash [] = []"
| "collapse_slashes slash (c # cs) =
     (if c \<noteq> CHR ''/'' \<or> \<not> slash then c # collapse_slashes (c = CHR ''/'') cs
      else collapse_slashes (c = CHR ''/'') cs)"

fun resolve_segments :: "string list \<Rightarrow> string list \<Rightarrow> string list crawl" where
  "resolve_segments acc [] = Inr acc"
| "resolve_segments acc (seg # segs) =
     (if seg = [] \<or> seg = ''.'' then resolve_segments acc segs
      else if seg = ''..'' then (if acc = [] then Inl CeInvalidUrl else resolve_segments (butlast acc) segs)
      else resolve_segments (acc @ [seg]) segs)"

fun join_slash :: "string list \<Rightarrow> string" where
  "join_slash [] = []"
| "join_slash [s] = s"
| "join_slash (s # ss) = s @ CHR ''/'' # join_slash ss"

definition remove_dot_segments :: "string \<Rightarrow> string crawl" where
  "remove_dot_segments path =
     res_bind (resolve_segments [] (split_on (CHR ''/'') path)) (\<lambda>segments.
     let resolved = CHR ''/'' # join_slash segments in
     Inr (if resolved \<noteq> ''/'' \<and> (ends_with path ''/'' \<or> ends_with path ''/.'' \<or> ends_with path ''/..'')
          then resolved @ ''/'' else resolved))"

definition conservative_url :: "'f rt_env \<Rightarrow> web_url \<Rightarrow> web_url crawl" where
  "conservative_url E url =
     res_bind (ok_or (rt_decode_path E (wu_path url)) CeInvalidUrl) (\<lambda>path.
     res_bind (remove_dot_segments (collapse_slashes False path)) (\<lambda>resolved.
     Inr (rt_set_path E url resolved)))"

definition url_parts_of :: "web_url \<Rightarrow> url_parts" where
  "url_parts_of url = \<lparr> up_path = wu_path url, up_query = wu_query url \<rparr>"

definition matching_line :: "'f rt_env \<Rightarrow> web_url \<Rightarrow> string \<Rightarrow> (nat \<times> string \<times> string) list option" where
  "matching_line E url line =
     (case split_once (CHR '':'') line of
        None \<Rightarrow> None
      | Some (n, p) \<Rightarrow>
          (let name = to_ascii_lowercase (trim n); pattern = trim p in
           if \<not> (name = ''allow'' \<or> name = ''disallow'') \<or> pattern = [] then Some []
           else
             case robots_parse (rt_lib E) ''AVASearchBot''
                    (''User-agent: AVASearchBot'' @ [CHR 0x0A] @ ''Disallow: '' @ pattern) of
               Inl _ \<Rightarrow> None
             | Inr single \<Rightarrow>
                 Some (if is_allowed_strict (rt_lib E) single (url_parts_of url) then []
                       else [(length pattern, name, pattern)])))"

fun matching_lines :: "'f rt_env \<Rightarrow> web_url \<Rightarrow> string list \<Rightarrow> (nat \<times> string \<times> string) list option" where
  "matching_lines E url [] = Some []"
| "matching_lines E url (line # lines) =
     (case matching_line E url line of
        None \<Rightarrow> None
      | Some ms \<Rightarrow> map_option ((@) ms) (matching_lines E url lines))"

definition matching_rule :: "'f rt_env \<Rightarrow> string \<Rightarrow> web_url \<Rightarrow> (string \<times> string) option" where
  "matching_rule E selected url =
     (case matching_lines E url (str_lines selected) of
        None \<Rightarrow> None
      | Some ms \<Rightarrow>
          (case sort_key (\<lambda>(len, name, _). (- int len, name)) ms of
             [] \<Rightarrow> None
           | (_, kind, pattern) # _ \<Rightarrow> Some (kind, rt_sha256 E pattern)))"

section \<open>Refresh\<close>

definition parse_robots_body :: "'f rt_env \<Rightarrow> string \<Rightarrow> robots_snapshot \<Rightarrow> 'f robots option \<times> string \<times> robots_snapshot" where
  "parse_robots_body E bytes snap =
     (let failed = (None, [], snap\<lparr> rs_failure_code := Some ''parser-failure'' \<rparr>) in
      if rt_parse_panics E bytes \<or> \<not> utf8_ok bytes then failed
      else
        let selected = select_exact_groups bytes in
        case validate_declared_delays (rt_f64_ms E) selected of
          Inl _ \<Rightarrow> failed
        | Inr declared \<Rightarrow>
            (case robots_parse (rt_lib E) ''AVASearchBot'' selected of
               Inl _ \<Rightarrow> failed
             | Inr robots \<Rightarrow>
                 (case (case rb_crawl_delay robots of None \<Rightarrow> Some None | Some f \<Rightarrow> map_option Some (rt_f32_ms E f)) of
                    None \<Rightarrow> failed
                  | Some delay \<Rightarrow>
                      (Some robots, selected,
                       snap\<lparr> rs_crawl_delay_ms := opt_max delay declared, rs_decision := AllowRule,
                             rs_matched_rule_kind := ''default'' \<rparr>))))"

definition redirect_status :: "nat \<Rightarrow> bool" where
  "redirect_status status \<longleftrightarrow> status \<in> {301, 302, 303, 307, 308}"

definition redirect_target :: "'f rt_env \<Rightarrow> web_url \<Rightarrow> response_headers \<Rightarrow> string + web_url" where
  "redirect_target E target H =
     (case (if \<not> headers_invalid H ''location'' \<and> length (headers_all H ''location'') = 1
            then ul_join (rt_urls E) target (hd (headers_all H ''location'')) else None) of
        None \<Rightarrow> Inl ''redirect-invalid''
      | Some u \<Rightarrow>
          (if \<not> is_ok (parse_fetch_url (rt_urls E) (wu_text u)) \<or> (wu_scheme target = ''https'' \<and> wu_scheme u = ''http'')
           then Inl ''redirect-invalid''
           else if \<not> is_ok (validate_robots_redirect (rt_urls E) (rt_scope E) u) then Inl ''redirect-off-scope''
           else Inr u))"

fun fatal_fetch :: "crawl_error \<Rightarrow> bool" where
  "fatal_fetch CeHostStateWrite = True"
| "fatal_fetch CeInternalInvariant = True"
| "fatal_fetch (CeExcludedByPolicy _ _) = True"
| "fatal_fetch _ = False"

fun fatal_body :: "crawl_error \<Rightarrow> bool" where
  "fatal_body CeHostStateWrite = True"
| "fatal_body CeInternalInvariant = True"
| "fatal_body _ = False"

text \<open>
  The loop over at most ten fetches; \<open>n\<close> is the number of fetches left, so hop 0 has ten.
\<close>

primrec refresh_hops ::
  "nat \<Rightarrow> 'f rt_env \<Rightarrow> (nat \<Rightarrow> web_url \<Rightarrow> fetch_response crawl) \<Rightarrow> web_url \<Rightarrow> string set \<Rightarrow> robots_snapshot
   \<Rightarrow> ('f robots option \<times> string \<times> robots_snapshot \<times> web_url list) crawl" where
  "refresh_hops 0 E fetch target visited snap =
     Inr (None, [], snap\<lparr> rs_failure_code := Some ''redirect-loop-or-limit'' \<rparr>, [])"
| "refresh_hops (Suc n) E fetch target visited snap =
     (if wu_text target \<in> visited
      then Inr (None, [], snap\<lparr> rs_failure_code := Some ''redirect-loop-or-limit'' \<rparr>, [])
      else
        res_then (if n = 9 then scope_validate (rt_urls E) (rt_scope E) target True else Inr ())
       (let clean = snap\<lparr> rs_http_status := None, rs_body_sha256 := None, rs_body_state := NotReceived \<rparr> in
        case fetch (9 - n) target of
          Inl e \<Rightarrow>
            (if fatal_fetch e then Inl e
             else Inr (None, [], clean\<lparr> rs_failure_code := Some (failure_code e) \<rparr>, [target]))
        | Inr r \<Rightarrow>
            (let seen = clean\<lparr> rs_http_status := Some (fr_status r) \<rparr> in
             case fr_body r of
               Inl e \<Rightarrow>
                 (if fatal_body e then Inl e
                  else Inr (None, [], seen\<lparr> rs_failure_code := Some (failure_code e) \<rparr>, [target]))
             | Inr bytes \<Rightarrow>
                 (let got = seen\<lparr> rs_body_sha256 := Some (rt_sha256 E bytes), rs_body_state := Received \<rparr> in
                  if redirect_status (fr_status r) then
                    (case redirect_target E target (fr_headers r) of
                       Inl code \<Rightarrow> Inr (None, [], got\<lparr> rs_failure_code := Some code \<rparr>, [target])
                     | Inr u \<Rightarrow>
                         res_then (rt_trace_redirect E u)
                        (res_then (rt_trace_result E got)
                        (res_bind (refresh_hops n E fetch u (insert (wu_text target) visited) got)
                           (\<lambda>(parsed, selected, s, fetched). Inr (parsed, selected, s, target # fetched)))))
                  else if 400 \<le> fr_status r \<and> fr_status r < 500 then
                    Inr (None, [], got\<lparr> rs_decision := AllowAllUnavailable, rs_matched_rule_kind := ''unavailable'' \<rparr>, [target])
                  else if fr_status r \<noteq> 200 then
                    Inr (None, [], got\<lparr> rs_failure_code := Some ''http-unreachable'' \<rparr>, [target])
                  else
                    (case parse_robots_body E bytes got of
                       (parsed, selected, s) \<Rightarrow> Inr (parsed, selected, s, [target]))))))"

definition cache_result ::
  "'f rt_env \<Rightarrow> int \<Rightarrow> nat \<Rightarrow> 'f robots option \<Rightarrow> string \<Rightarrow> robots_snapshot \<Rightarrow> 'f cached crawl" where
  "cache_result E utc ticks parsed selected snap =
     (let ttl_ms = (if rs_decision snap = DisallowUnreachable then ROBOTS_FAILURE_RETRY_SECS * 1000
                    else rt_cache_secs E * 1000) in
      res_bind (ok_or (wl_add (rt_wall E) utc (int ttl_ms * 1000000)) CeInternalInvariant) (\<lambda>expires.
      let snap1 = snap\<lparr> rs_fetched_at_utc := utc, rs_expires_at_utc := expires \<rparr> in
      res_then (rt_trace_result E snap1)
        (Inr \<lparr> ch_parsed = parsed, ch_selected = selected, ch_snapshot = snap1, ch_ticks = ticks, ch_ttl_ms = ttl_ms \<rparr>)))"

text \<open>
  \<open>asked\<close> is the instant of the call; \<open>utc\<close> and \<open>ticks\<close> are read after the last fetch.
\<close>

definition refresh ::
  "'f rt_env \<Rightarrow> (nat \<Rightarrow> web_url \<Rightarrow> fetch_response crawl) \<Rightarrow> int \<Rightarrow> int \<Rightarrow> nat \<Rightarrow> web_url \<Rightarrow> 'f cached crawl" where
  "refresh E fetch asked utc ticks url =
     (let origin = rt_origin_url E url in
      res_bind (ok_or (ul_join (rt_urls E) origin ''robots.txt'') CeInvalidUrl) (\<lambda>target.
      res_bind (refresh_hops 10 E fetch target {} (pending_snapshot (ul_safe (rt_urls E) origin) asked))
        (\<lambda>(parsed, selected, snap, fetched). cache_result E utc ticks parsed selected snap)))"

section \<open>The decision for a URL\<close>

definition decide ::
  "'f rt_env \<Rightarrow> 'f cached \<Rightarrow> web_url \<Rightarrow> robots_snapshot crawl" where
  "decide E c url =
     res_bind (conservative_url E url) (\<lambda>conservative.
     case ch_parsed c of
       None \<Rightarrow> Inr (ch_snapshot c)
     | Some robots \<Rightarrow>
         if rt_match_panics E url
         then Inr ((ch_snapshot c)\<lparr> rs_decision := DisallowUnreachable, rs_failure_code := Some ''parser-failure'' \<rparr>)
         else
         (let allow_exact = is_allowed_strict (rt_lib E) robots (url_parts_of url);
              allow_conservative = is_allowed_strict (rt_lib E) robots (url_parts_of conservative);
              matched = matching_rule E (ch_selected c) (if allow_exact then conservative else url);
              s = (ch_snapshot c)\<lparr> rs_decision := (if allow_exact \<and> allow_conservative then AllowRule else DisallowRule) \<rparr>
          in Inr (case matched of
                    None \<Rightarrow> s
                  | Some (kind, hash) \<Rightarrow> s\<lparr> rs_matched_rule_kind := kind, rs_matched_rule_sha256 := Some hash \<rparr>)))"

type_synonym 'f robots_cache = "string \<rightharpoonup> 'f cached"

definition is_loopback :: "scope_kind \<Rightarrow> bool" where
  "is_loopback k = (case k of Loopback _ \<Rightarrow> True | _ \<Rightarrow> False)"

definition snapshot_for ::
  "'f rt_env \<Rightarrow> (nat \<Rightarrow> web_url \<Rightarrow> fetch_response crawl) \<Rightarrow> nat \<Rightarrow> int \<Rightarrow> int \<Rightarrow> nat \<Rightarrow> web_url \<Rightarrow> 'f robots_cache
   \<Rightarrow> robots_snapshot crawl \<times> 'f robots_cache" where
  "snapshot_for E fetch now asked utc ticks url cache =
     (case res_then (if \<not> rt_traced E \<and> \<not> is_loopback (rt_scope E) then Inl CeInternalInvariant else Inr ())
            (res_then (rt_frontier E url) (origin_key_from_url url)) of
        Inl e \<Rightarrow> (Inl e, cache)
      | Inr key \<Rightarrow>
          (case (case cache key of
                   Some c \<Rightarrow> if cache_expired c now then refresh E fetch asked utc ticks url else Inr c
                 | None \<Rightarrow> refresh E fetch asked utc ticks url) of
             Inl e \<Rightarrow> (Inl e, cache)
           | Inr c \<Rightarrow> (decide E c url, cache(key \<mapsto> c))))"

definition permits :: "robots_snapshot crawl \<Rightarrow> bool" where
  "permits r = (case r of Inr s \<Rightarrow> rs_decision s \<in> {AllowRule, AllowAllUnavailable} | Inl _ \<Rightarrow> False)"

definition crawl_delay :: "robots_snapshot crawl \<Rightarrow> nat option" where
  "crawl_delay r = (case r of Inr s \<Rightarrow> rs_crawl_delay_ms s | Inl _ \<Rightarrow> None)"

definition cached_sitemaps :: "'f rt_env \<Rightarrow> nat \<Rightarrow> web_url \<Rightarrow> 'f robots_cache \<Rightarrow> web_url list option crawl" where
  "cached_sitemaps E ticks url cache =
     res_then (scope_validate (rt_urls E) (rt_scope E) url True)
    (res_then (rt_frontier E url)
    (res_bind (origin_key_from_url url) (\<lambda>key.
     Inr (case cache key of
            None \<Rightarrow> None
          | Some c \<Rightarrow>
              if cache_expired c ticks then None
              else Some (case ch_parsed c of
                           None \<Rightarrow> []
                         | Some robots \<Rightarrow> List.map_filter (ul_parse (rt_urls E)) (rb_sitemaps robots))))))"

definition sitemaps :: "'f rt_env \<Rightarrow> nat \<Rightarrow> web_url \<Rightarrow> robots_snapshot crawl \<times> 'f robots_cache \<Rightarrow> web_url list" where
  "sitemaps E ticks url looked_up =
     (case looked_up of
        (Inl _, _) \<Rightarrow> []
      | (Inr _, cache) \<Rightarrow> (case cached_sitemaps E ticks url cache of Inr (Some urls) \<Rightarrow> urls | _ \<Rightarrow> []))"

definition revalidate_snapshot_before_send ::
  "nat \<Rightarrow> web_url \<Rightarrow> robots_snapshot \<Rightarrow> 'f robots_cache \<Rightarrow> bool crawl" where
  "revalidate_snapshot_before_send ticks url snap cache =
     res_bind (origin_key_from_url url) (\<lambda>key.
     Inr (case cache key of
            None \<Rightarrow> False
          | Some c \<Rightarrow> \<not> cache_expired c ticks \<and> rs_fetched_at_utc (ch_snapshot c) = rs_fetched_at_utc snap))"

section \<open>Redirect chains\<close>

definition chain_link :: "'f rt_env \<Rightarrow> web_url \<Rightarrow> web_url \<Rightarrow> bool" where
  "chain_link E a b \<longleftrightarrow>
     \<not> (wu_scheme a = ''https'' \<and> wu_scheme b = ''http'')
     \<and> is_ok (validate_robots_redirect (rt_urls E) (rt_scope E) b) \<and> is_ok (parse_fetch_url (rt_urls E) (wu_text b))"

text \<open>One answer sends the crawler from one target to the next: a complete redirect with one \<open>Location\<close> that resolves to it.\<close>

definition redirected :: "'f rt_env \<Rightarrow> fetch_response crawl \<Rightarrow> web_url \<Rightarrow> web_url \<Rightarrow> bool" where
  "redirected E answer a b \<longleftrightarrow> (\<exists>r bytes location. answer = Inr r \<and> fr_body r = Inr bytes \<and> redirect_status (fr_status r)
     \<and> headers_all (fr_headers r) ''location'' = [location] \<and> ul_join (rt_urls E) a location = Some b)"

text \<open>The chain of the fetches from the \<open>k\<close>-th on: each is of the target the previous answer redirected to.\<close>

fun fetch_chain :: "'f rt_env \<Rightarrow> (nat \<Rightarrow> web_url \<Rightarrow> fetch_response crawl) \<Rightarrow> nat \<Rightarrow> web_url list \<Rightarrow> bool" where
  "fetch_chain E fetch k [] \<longleftrightarrow> True"
| "fetch_chain E fetch k [a] \<longleftrightarrow> True"
| "fetch_chain E fetch k (a # b # us) \<longleftrightarrow> redirected E (fetch k a) a b \<and> chain_link E a b \<and> fetch_chain E fetch (Suc k) (b # us)"

text \<open>What the answer to a fetch shows for a decision.\<close>

definition answer_evidence :: "'f rt_env \<Rightarrow> fetch_response crawl \<Rightarrow> 'f robots option \<Rightarrow> robots_snapshot \<Rightarrow> bool" where
  "answer_evidence E answer parsed s \<longleftrightarrow>
     (case rs_decision s of
        DisallowUnreachable \<Rightarrow> parsed = None
      | AllowAllUnavailable \<Rightarrow>
          parsed = None \<and> (\<exists>r bytes. answer = Inr r \<and> fr_body r = Inr bytes
            \<and> 400 \<le> fr_status r \<and> fr_status r < 500 \<and> rs_http_status s = Some (fr_status r))
      | AllowRule \<Rightarrow>
          (\<exists>R r bytes. parsed = Some R \<and> answer = Inr r \<and> fr_body r = Inr bytes \<and> fr_status r = 200 \<and> utf8_ok bytes
            \<and> rs_http_status s = Some 200 \<and> robots_parse (rt_lib E) ''AVASearchBot'' (select_exact_groups bytes) = Inr R)
      | _ \<Rightarrow> False)"

lemma parse_robots_body_cases:
  assumes "parse_robots_body E bytes snap = (parsed, selected, s)"
  shows "(parsed = None \<and> rs_decision s = rs_decision snap)
    \<or> (\<exists>R. parsed = Some R \<and> robots_parse (rt_lib E) ''AVASearchBot'' (select_exact_groups bytes) = Inr R
        \<and> rs_decision s = AllowRule \<and> utf8_ok bytes \<and> rs_http_status s = rs_http_status snap)"
  using assms by (auto simp: parse_robots_body_def Let_def split: if_splits sum.splits option.splits)

lemma redirect_target_Inr:
  assumes "redirect_target E target H = Inr u"
  shows "chain_link E target u" "\<exists>location. headers_all H ''location'' = [location] \<and> ul_join (rt_urls E) target location = Some u"
  using assms by (auto simp: redirect_target_def chain_link_def length_Suc_conv split: option.splits if_splits)

text \<open>What the hops come to with \<open>n\<close> fetches left: they fetched a chain, and its last answer justifies the decision.\<close>

definition hops_post ::
  "'f rt_env \<Rightarrow> (nat \<Rightarrow> web_url \<Rightarrow> fetch_response crawl) \<Rightarrow> nat \<Rightarrow> web_url \<Rightarrow> string set \<Rightarrow> 'f robots option
   \<Rightarrow> robots_snapshot \<Rightarrow> web_url list \<Rightarrow> bool" where
  "hops_post E fetch n target visited parsed s fetched \<longleftrightarrow>
     length fetched \<le> n \<and> distinct (map wu_text fetched) \<and> set (map wu_text fetched) \<inter> visited = {}
     \<and> fetch_chain E fetch (10 - n) fetched \<and> (fetched = [] \<or> hd fetched = target)
     \<and> (if fetched = [] then parsed = None \<and> rs_decision s = DisallowUnreachable
        else answer_evidence E (fetch (10 - n + (length fetched - 1)) (last fetched)) parsed s)"

lemma answer_evidence_unreachable: "rs_decision s = DisallowUnreachable \<Longrightarrow> answer_evidence E answer None s"
  by (simp add: answer_evidence_def)

lemma hops_post_stop:
  assumes "wu_text target \<notin> visited" and "answer_evidence E (fetch (9 - n) target) parsed s"
  shows "hops_post E fetch (Suc n) target visited parsed s [target]"
  using assms by (simp add: hops_post_def)

lemma hops_post_next:
  assumes "hops_post E fetch n u (insert (wu_text target) visited) parsed s fetched" and "chain_link E target u"
    and "redirected E (fetch (9 - n) target) target u" and "wu_text target \<notin> visited" and "n < 10"
  shows "hops_post E fetch (Suc n) target visited parsed s (target # fetched)"
proof (cases fetched)
  case Nil
  with assms show ?thesis by (auto simp: hops_post_def answer_evidence_unreachable)
next
  case (Cons v us)
  have "10 - n = Suc (9 - n)" "10 - n + length us = 9 - n + Suc (length us)" using assms(5) by simp_all
  with assms Cons show ?thesis by (auto simp: hops_post_def)
qed

text \<open>The hops from a new target, by the answer to the fetch of it.\<close>

lemma refresh_hops_answer:
  assumes "refresh_hops (Suc n) E fetch target visited snap = Inr (parsed, selected, s, fetched)"
    and "wu_text target \<notin> visited" and "rs_decision snap = DisallowUnreachable"
  obtains (stop) "fetched = [target]" "answer_evidence E (fetch (9 - n) target) parsed s"
      "\<And>fetch'. fetch' (9 - n) target = fetch (9 - n) target \<Longrightarrow>
        refresh_hops (Suc n) E fetch' target visited snap = Inr (parsed, selected, s, fetched)"
  | (go) u got tail where "fetched = target # tail" "chain_link E target u" "redirected E (fetch (9 - n) target) target u"
      "refresh_hops n E fetch u (insert (wu_text target) visited) got = Inr (parsed, selected, s, tail)" "rs_decision got = DisallowUnreachable"
      "\<And>fetch'. fetch' (9 - n) target = fetch (9 - n) target \<Longrightarrow>
        refresh_hops n E fetch' u (insert (wu_text target) visited) got = Inr (parsed, selected, s, tail) \<Longrightarrow>
        refresh_hops (Suc n) E fetch' target visited snap = Inr (parsed, selected, s, fetched)"
proof -
  define clean where "clean = snap\<lparr> rs_http_status := None, rs_body_sha256 := None, rs_body_state := NotReceived \<rparr>"
  have clean: "rs_decision clean = DisallowUnreachable" using assms(3) by (simp add: clean_def)
  note hops = refresh_hops.simps(2) [of n E _ target visited snap, unfolded if_not_P [OF assms(2)], folded clean_def]
  have ok: "res_then (if n = 9 then scope_validate (rt_urls E) (rt_scope E) target True else Inr ()) x = x" for x :: "('a robots option \<times> string \<times> robots_snapshot \<times> web_url list) crawl"
    using assms(1) unfolding hops by (auto simp: res_simps res_then_def split: if_splits sum.splits)
  note run = assms(1) [unfolded hops ok Let_def, folded clean_def] and again = hops [unfolded ok Let_def, folded clean_def]
  have stops: thesis if "fetched = [target]" "answer_evidence E (fetch (9 - n) target) parsed s"
      "\<And>fetch'. fetch' (9 - n) target = fetch (9 - n) target \<Longrightarrow>
        refresh_hops (Suc n) E fetch' target visited snap = refresh_hops (Suc n) E fetch target visited snap"
    using that stop assms(1) by metis
  show thesis
  proof (cases "fetch (9 - n) target")
    case (Inl e)
    show thesis
      by (rule stops) (use run Inl clean in \<open>auto simp: again answer_evidence_def split: if_splits\<close>)
  next
    case (Inr r)
    define seen where "seen = clean\<lparr> rs_http_status := Some (fr_status r) \<rparr>"
    have seen: "rs_decision seen = DisallowUnreachable" "rs_http_status seen = Some (fr_status r)"
      using clean by (simp_all add: seen_def)
    show thesis
    proof (cases "fr_body r")
      case body: (Inl e)
      show thesis
        by (rule stops) (use run Inr body seen in \<open>auto simp: again seen_def [symmetric] answer_evidence_def split: if_splits\<close>)
    next
      case body: (Inr bytes)
      define got where "got = seen\<lparr> rs_body_sha256 := Some (rt_sha256 E bytes), rs_body_state := Received \<rparr>"
      have got: "rs_decision got = DisallowUnreachable" "rs_http_status got = Some (fr_status r)"
        using seen by (simp_all add: got_def)
      note run' = run [unfolded Inr sum.case body, folded seen_def, folded got_def]
      show thesis
      proof (cases "redirect_status (fr_status r) \<and> is_ok (redirect_target E target (fr_headers r))")
        case True
        then obtain u where u: "redirect_target E target (fr_headers r) = Inr u" by (auto simp: is_ok_iff)
        obtain tail where tail: "fetched = target # tail"
            "refresh_hops n E fetch u (insert (wu_text target) visited) got = Inr (parsed, selected, s, tail)"
          using run' True u by (auto simp: res_simps)
        have "redirected E (fetch (9 - n) target) target u"
          using redirect_target_Inr(2) [OF u] Inr body True by (auto simp: redirected_def)
        moreover have "refresh_hops (Suc n) E fetch' target visited snap = Inr (parsed, selected, s, fetched)"
          if "fetch' (9 - n) target = fetch (9 - n) target"
            "refresh_hops n E fetch' u (insert (wu_text target) visited) got = Inr (parsed, selected, s, tail)" for fetch'
          unfolding again [of fetch', unfolded that(1) Inr sum.case body, folded seen_def, folded got_def]
          using run' that(2) True u tail(1) by (auto simp: res_simps)
        ultimately show thesis using go [OF tail(1) redirect_target_Inr(1) [OF u] _ tail(2) got(1)] by blast
      next
        case False
        obtain p sel t where fields: "parse_robots_body E bytes got = (p, sel, t)" by (metis prod_cases3)
        have "fetched = [target]" and "(parsed = None \<and> rs_decision s = AllowAllUnavailable \<and> 400 \<le> fr_status r \<and> fr_status r < 500
              \<and> rs_http_status s = Some (fr_status r))
            \<or> (parsed = None \<and> rs_decision s = DisallowUnreachable) \<or> (fr_status r = 200 \<and> parsed = p \<and> s = t)"
          using run' False fields got by (auto simp: is_ok_def split: if_splits sum.splits)
        moreover from this(2) have "answer_evidence E (fetch (9 - n) target) parsed s"
          using parse_robots_body_cases [OF fields] got Inr body
          by (elim disjE conjE exE) (auto simp: answer_evidence_def)
        moreover have "refresh_hops (Suc n) E fetch' target visited snap = refresh_hops (Suc n) E fetch target visited snap"
          if "fetch' (9 - n) target = fetch (9 - n) target" for fetch'
          unfolding again [of fetch', unfolded that Inr sum.case body, folded seen_def, folded got_def]
            again [of fetch, unfolded Inr sum.case body, folded seen_def, folded got_def]
          using False by (auto simp: is_ok_def split: sum.splits)
        ultimately show thesis using stops by blast
      qed
    qed
  qed
qed

lemma refresh_hops_post:
  assumes "refresh_hops n E fetch target visited snap = Inr (parsed, selected, s, fetched)"
    and "rs_decision snap = DisallowUnreachable" and "n \<le> 10"
  shows "hops_post E fetch n target visited parsed s fetched"
  using assms
proof (induction n arbitrary: target visited snap parsed selected s fetched)
  case 0
  then show ?case by (auto simp: hops_post_def)
next
  case (Suc n)
  show ?case
  proof (cases "wu_text target \<in> visited")
    case True
    with Suc.prems show ?thesis by (auto simp: hops_post_def)
  next
    case False
    from Suc.prems(1) False Suc.prems(2) show ?thesis
    proof (cases rule: refresh_hops_answer)
      case stop
      with hops_post_stop [OF False] show ?thesis by simp
    next
      case (go u got tail)
      with Suc.IH [OF go(4,5)] Suc.prems(3) hops_post_next [where fetch = fetch and n = n, OF _ go(2,3) False] show ?thesis by simp
    qed
  qed
qed

lemma refresh_hops_local:
  assumes "refresh_hops n E fetch target visited snap = Inr (parsed, selected, s, fetched)"
    and "rs_decision snap = DisallowUnreachable" and "n \<le> 10"
    and "\<forall>i < length fetched. fetch' (10 - n + i) (fetched ! i) = fetch (10 - n + i) (fetched ! i)"
  shows "refresh_hops n E fetch' target visited snap = Inr (parsed, selected, s, fetched)"
  using assms
proof (induction n arbitrary: target visited snap parsed selected s fetched)
  case (Suc n)
  show ?case
  proof (cases "wu_text target \<in> visited")
    case True
    with Suc.prems show ?thesis by simp
  next
    case False
    from Suc.prems(1) False Suc.prems(2) show ?thesis
    proof (cases rule: refresh_hops_answer)
      case stop
      with Suc.prems(4) show ?thesis by simp
    next
      case (go u got tail)
      have "fetch' (9 - n) target = fetch (9 - n) target" using Suc.prems(4) go(1) by fastforce
      moreover have "fetch' (10 - n + i) (tail ! i) = fetch (10 - n + i) (tail ! i)" if "i < length tail" for i
      proof -
        have idx: "10 - Suc n + Suc i = 10 - n + i" using Suc.prems(3) by simp
        have "Suc i < length fetched" "fetched ! Suc i = tail ! i" using that go(1) by simp_all
        with Suc.prems(4) [rule_format, of "Suc i", unfolded idx] show ?thesis by simp
      qed
      ultimately show ?thesis using go(6) Suc.IH [OF go(4,5)] Suc.prems(3) by simp
    qed
  qed
qed simp

section \<open>Dot segments\<close>

definition plain_segment :: "string \<Rightarrow> bool" where
  "plain_segment seg \<longleftrightarrow> seg \<noteq> [] \<and> seg \<noteq> ''.'' \<and> seg \<noteq> ''..'' \<and> CHR ''/'' \<notin> set seg"

lemma resolve_segments_plain:
  assumes "resolve_segments acc segs = Inr out" and "\<forall>s \<in> set acc. plain_segment s"
    and "\<forall>s \<in> set segs. CHR ''/'' \<notin> set s"
  shows "\<forall>s \<in> set out. plain_segment s"
  using assms
proof (induction segs arbitrary: acc)
  case (Cons seg segs)
  consider "seg = [] \<or> seg = ''.''" | "seg = ''..''" | "seg \<noteq> [] \<and> seg \<noteq> ''.'' \<and> seg \<noteq> ''..''" by blast
  then show ?case
  proof cases
    case 1
    with Cons.prems show ?thesis by (intro Cons.IH [of acc]) auto
  next
    case 2
    with Cons.prems have "acc \<noteq> []" "resolve_segments (butlast acc) segs = Inr out" by (auto split: if_splits)
    with Cons.prems show ?thesis by (intro Cons.IH [of "butlast acc"]) (auto dest: in_set_butlastD)
  next
    case 3
    with Cons.prems(3) have "plain_segment seg" by (simp add: plain_segment_def)
    with 3 Cons.prems show ?thesis by (intro Cons.IH [of "acc @ [seg]"]) auto
  qed
qed simp

lemma drop_no_slash: "CHR ''/'' \<notin> set s \<Longrightarrow> drop k s \<noteq> CHR ''/'' # t"
  using set_drop_subset [of k s] by auto

lemma join_slash_last:
  assumes "segs \<noteq> []"
  shows "\<exists>pre. CHR ''/'' # join_slash segs = pre @ CHR ''/'' # last segs"
  using assms
proof (induction segs rule: join_slash.induct)
  case (2 s)
  then show ?case by (intro exI [of _ "[]"]) simp
next
  case (3 s v va)
  then obtain pre where "CHR ''/'' # join_slash (v # va) = pre @ CHR ''/'' # last (v # va)" by blast
  then show ?case by (intro exI [of _ "CHR ''/'' # s @ pre"]) simp
qed simp

lemma resolve_segments_id:
  assumes "\<forall>s \<in> set segs. plain_segment s"
  shows "resolve_segments acc segs = Inr (acc @ segs)"
  using assms by (induction segs arbitrary: acc) (auto simp: plain_segment_def)

lemma split_on_no_slash: "CHR ''/'' \<notin> set s \<Longrightarrow> split_on (CHR ''/'') s = [s]"
  by (induction s) auto

lemma split_on_append:
  "CHR ''/'' \<notin> set s \<Longrightarrow> split_on (CHR ''/'') (s @ CHR ''/'' # t) = s # split_on (CHR ''/'') t"
  by (induction s) auto

lemma split_join:
  assumes "\<forall>s \<in> set segs. CHR ''/'' \<notin> set s" and "segs \<noteq> []"
  shows "split_on (CHR ''/'') (join_slash segs) = segs"
    and "split_on (CHR ''/'') (join_slash segs @ ''/'') = segs @ [[]]"
  using assms
  by (induction segs rule: join_slash.induct) (auto simp: split_on_no_slash split_on_append)

lemma resolve_segments_snoc_nil:
  "resolve_segments acc (segs @ [[]]) = resolve_segments acc segs"
  by (induction acc segs rule: resolve_segments.induct) auto

text \<open>
  Path normalisation. A normalised path is rooted, all its segments are nonempty and none of
  them is a dot segment, and normalising it again changes nothing; a path that climbs above the
  root is refused.
\<close>

theorem remove_dot_segments_normal:
  assumes "remove_dot_segments path = Inr q"
  shows "remove_dot_segments q = Inr q
    \<and> (\<exists>segs. list_all plain_segment segs \<and> (q = CHR ''/'' # join_slash segs \<or> (segs \<noteq> [] \<and> q = CHR ''/'' # join_slash segs @ ''/'')))"
proof -
  obtain segs where segs: "resolve_segments [] (split_on (CHR ''/'') path) = Inr segs"
      "q = CHR ''/'' # join_slash segs \<or> (CHR ''/'' # join_slash segs \<noteq> ''/'' \<and> q = CHR ''/'' # join_slash segs @ ''/'')"
    using assms by (auto simp: remove_dot_segments_def res_simps Let_def split: if_splits)
  have plain: "\<forall>s \<in> set segs. plain_segment s"
    using resolve_segments_plain [OF segs(1)] split_on_no_sep by auto
  then have noslash: "\<forall>s \<in> set segs. CHR ''/'' \<notin> set s" by (simp add: plain_segment_def)
  have nonempty: "segs \<noteq> []" if "CHR ''/'' # join_slash segs \<noteq> ''/''" using that by auto
  have res: "resolve_segments [] (split_on (CHR ''/'') (CHR ''/'' # join_slash segs)) = Inr segs"
      "segs \<noteq> [] \<Longrightarrow> resolve_segments [] (split_on (CHR ''/'') (CHR ''/'' # join_slash segs @ ''/'')) = Inr segs"
    using split_join [OF noslash] resolve_segments_id [OF plain, of "[]"]
    by (cases "segs = []"; simp add: resolve_segments_snoc_nil)+
  have last: "\<not> ends_with (CHR ''/'' # join_slash segs) ''/''
      \<and> \<not> ends_with (CHR ''/'' # join_slash segs) ''/.'' \<and> \<not> ends_with (CHR ''/'' # join_slash segs) ''/..''"
    if "segs \<noteq> []"
  proof -
    from join_slash_last [OF that] obtain pre where pre: "CHR ''/'' # join_slash segs = pre @ CHR ''/'' # last segs" by blast
    have l: "plain_segment (last segs)" using plain that by simp
    then show ?thesis unfolding pre plain_segment_def
      by (cases "last segs" rule: rev_cases) (auto simp: ends_with_def drop_Cons' append_eq_Cons_conv Cons_eq_append_conv drop_no_slash)
  qed
  show ?thesis
  proof (cases "q = CHR ''/'' # join_slash segs")
    case True
    have "remove_dot_segments q = Inr q"
      using res(1) last True by (cases "segs = []") (simp_all add: remove_dot_segments_def Let_def)
    with True plain show ?thesis by (auto simp: list_all_iff)
  next
    case False
    with segs(2) nonempty have q: "q = CHR ''/'' # join_slash segs @ ''/''" "segs \<noteq> []" "join_slash segs \<noteq> []" by auto
    have "ends_with q ''/''" unfolding q(1) by (simp add: ends_with_def)
    with res(2) q have "remove_dot_segments q = Inr q"
      by (simp add: remove_dot_segments_def Let_def)
    with q plain show ?thesis by (auto simp: list_all_iff)
  qed
qed

section \<open>The refreshed entry\<close>

lemma cache_result_Inr:
  assumes "cache_result E utc ticks parsed selected snap = Inr c"
  shows "ch_parsed c = parsed" "ch_ticks c = ticks"
    "rs_decision (ch_snapshot c) = rs_decision snap" "rs_http_status (ch_snapshot c) = rs_http_status snap"
    "ch_ttl_ms c = (if rs_decision snap = DisallowUnreachable then ROBOTS_FAILURE_RETRY_SECS else rt_cache_secs E) * 1000"
  using assms by (auto simp: cache_result_def Let_def res_simps)

lemma cache_result_evidence:
  assumes "cache_result E utc ticks parsed selected snap = Inr c"
  shows "answer_evidence E answer (ch_parsed c) (ch_snapshot c) = answer_evidence E answer parsed snap"
  unfolding answer_evidence_def cache_result_Inr(1,3,4) [OF assms] ..

lemma refresh_Inr:
  assumes "refresh E fetch asked utc ticks url = Inr c"
  obtains target fetched where
    "ul_join (rt_urls E) (rt_origin_url E url) ''robots.txt'' = Some target" "fetched \<noteq> []" "hd fetched = target"
    "scope_validate (rt_urls E) (rt_scope E) target True = Inr ()"
    "length fetched \<le> 10" "distinct (map wu_text fetched)" "fetch_chain E fetch 0 fetched"
    "answer_evidence E (fetch (length fetched - 1) (last fetched)) (ch_parsed c) (ch_snapshot c)"
    "rs_decision (ch_snapshot c) = DisallowUnreachable \<Longrightarrow> ch_ttl_ms c = ROBOTS_FAILURE_RETRY_SECS * 1000"
    "\<And>fetch'. \<forall>i < length fetched. fetch' i (fetched ! i) = fetch i (fetched ! i) \<Longrightarrow> refresh E fetch' asked utc ticks url = Inr c"
proof -
  define snap0 where "snap0 = pending_snapshot (ul_safe (rt_urls E) (rt_origin_url E url)) asked"
  have snap0: "rs_decision snap0 = DisallowUnreachable" by (simp add: snap0_def pending_snapshot_def)
  obtain target parsed selected snap fetched where t: "ul_join (rt_urls E) (rt_origin_url E url) ''robots.txt'' = Some target"
      and h: "refresh_hops 10 E fetch target {} snap0 = Inr (parsed, selected, snap, fetched)"
      and c: "cache_result E utc ticks parsed selected snap = Inr c"
    using assms unfolding refresh_def Let_def res_bind_Inr ok_or_Inr snap0_def by auto
  have ten: "(10 :: nat) = Suc 9" by simp
  have post: "hops_post E fetch 10 target {} parsed snap fetched" by (rule refresh_hops_post [OF h snap0]) simp
  have first: "scope_validate (rt_urls E) (rt_scope E) target True = Inr ()" "fetched \<noteq> []"
  proof -
    show "scope_validate (rt_urls E) (rt_scope E) target True = Inr ()" using h unfolding ten refresh_hops.simps by (simp add: res_simps)
    from h [unfolded ten] _ snap0 show "fetched \<noteq> []" by (rule refresh_hops_answer) simp_all
  qed
  have local: "refresh E fetch' asked utc ticks url = Inr c" if "\<forall>i < length fetched. fetch' i (fetched ! i) = fetch i (fetched ! i)" for fetch'
    using refresh_hops_local [OF h snap0, of fetch'] that t c unfolding refresh_def Let_def snap0_def [symmetric] by simp
  show thesis
    using that [OF t first(2) _ first(1)] post first(2) cache_result_evidence [OF c] cache_result_Inr(3,5) [OF c] local
    by (auto simp: hops_post_def)
qed

text \<open>
  C29: a refresh fails closed. Its fetches form a chain: the first is of the origin's \<open>robots.txt\<close>, which is in scope, and
  each later one is of the single location to which the answer before redirected, in scope and never from HTTPS to HTTP; there are at
  most ten, no URL is fetched twice, and the outcome depends on the answers to these fetches only. Whatever the
  transport answers, the entry permits access only on the evidence of the last answer: a permission by rules rests on a complete
  answer with status 200 and a UTF-8 body from which exactly these rules were parsed, a blanket permission on a complete 4xx answer, and every
  other outcome is cached as unreachable for the failure period.
\<close>

theorem refresh_fails_closed:
  assumes "refresh E fetch asked utc ticks url = Inr c"
  shows "\<exists>fetched target. ul_join (rt_urls E) (rt_origin_url E url) ''robots.txt'' = Some target
    \<and> scope_validate (rt_urls E) (rt_scope E) target True = Inr () \<and> fetched \<noteq> [] \<and> hd fetched = target
    \<and> fetch_chain E fetch 0 fetched \<and> length fetched \<le> 10 \<and> distinct (map wu_text fetched)
    \<and> (\<forall>fetch'. (\<forall>i < length fetched. fetch' i (fetched ! i) = fetch i (fetched ! i)) \<longrightarrow> refresh E fetch' asked utc ticks url = Inr c)
    \<and> (case rs_decision (ch_snapshot c) of
         AllowRule \<Rightarrow> \<exists>R r bytes. ch_parsed c = Some R \<and> fetch (length fetched - 1) (last fetched) = Inr r
           \<and> fr_body r = Inr bytes \<and> fr_status r = 200 \<and> utf8_ok bytes
           \<and> robots_parse (rt_lib E) ''AVASearchBot'' (select_exact_groups bytes) = Inr R
       | AllowAllUnavailable \<Rightarrow> ch_parsed c = None \<and> (\<exists>r bytes. fetch (length fetched - 1) (last fetched) = Inr r
           \<and> fr_body r = Inr bytes \<and> 400 \<le> fr_status r \<and> fr_status r < 500)
       | DisallowUnreachable \<Rightarrow> ch_parsed c = None \<and> ch_ttl_ms c = ROBOTS_FAILURE_RETRY_SECS * 1000
       | _ \<Rightarrow> False)"
proof -
  obtain target fetched where f: "ul_join (rt_urls E) (rt_origin_url E url) ''robots.txt'' = Some target" "fetched \<noteq> []" "hd fetched = target"
      "scope_validate (rt_urls E) (rt_scope E) target True = Inr ()" "length fetched \<le> 10" "distinct (map wu_text fetched)" "fetch_chain E fetch 0 fetched"
      "answer_evidence E (fetch (length fetched - 1) (last fetched)) (ch_parsed c) (ch_snapshot c)"
      "rs_decision (ch_snapshot c) = DisallowUnreachable \<Longrightarrow> ch_ttl_ms c = ROBOTS_FAILURE_RETRY_SECS * 1000"
      "\<And>fetch'. \<forall>i < length fetched. fetch' i (fetched ! i) = fetch i (fetched ! i) \<Longrightarrow> refresh E fetch' asked utc ticks url = Inr c"
    using refresh_Inr [OF assms] by metis
  from f show ?thesis
    unfolding answer_evidence_def by (intro exI [of _ fetched] exI [of _ target]) (auto split: robots_decision.splits)
qed

section \<open>Permission\<close>

text \<open>A lookup with the answers its fetches may get, and the caches of a manager: what a sequence of lookups, with any answers and at any times,
  makes of the empty cache.\<close>

record robots_lookup =
  lk_fetch :: "nat \<Rightarrow> web_url \<Rightarrow> fetch_response crawl"
  lk_asked :: int
  lk_utc :: int
  lk_ticks :: nat
  lk_url :: web_url

inductive looked_up :: "'f rt_env \<Rightarrow> robots_lookup list \<Rightarrow> 'f robots_cache \<Rightarrow> bool" for E where
  looked_up_new: "looked_up E [] Map.empty"
| looked_up_step: "looked_up E past cache \<Longrightarrow> snapshot_for E (lk_fetch l) now (lk_asked l) (lk_utc l) (lk_ticks l) (lk_url l) cache = (r, cache') \<Longrightarrow>
    looked_up E (l # past) cache'"

definition made_by :: "'f rt_env \<Rightarrow> string \<Rightarrow> robots_lookup \<Rightarrow> 'f cached \<Rightarrow> bool" where
  "made_by E key l c \<longleftrightarrow> origin_key_from_url (lk_url l) = Inr key
     \<and> refresh E (lk_fetch l) (lk_asked l) (lk_utc l) (lk_ticks l) (lk_url l) = Inr c"

text \<open>The answer at the end of the redirects that a lookup follows from the origin's \<open>robots.txt\<close>.\<close>

definition last_answer :: "'f rt_env \<Rightarrow> robots_lookup \<Rightarrow> fetch_response \<Rightarrow> string \<Rightarrow> bool" where
  "last_answer E l r bytes \<longleftrightarrow> (\<exists>fetched. fetched \<noteq> []
     \<and> ul_join (rt_urls E) (rt_origin_url E (lk_url l)) ''robots.txt'' = Some (hd fetched) \<and> fetch_chain E (lk_fetch l) 0 fetched
     \<and> lk_fetch l (length fetched - 1) (last fetched) = Inr r \<and> fr_body r = Inr bytes)"

lemma snapshot_for_cases:
  assumes "snapshot_for E fetch now asked utc ticks url cache = (r, cache')"
  obtains (fail) e where "r = Inl e" "cache' = cache"
  | (hit) key c where "origin_key_from_url url = Inr key" "cache key = Some c" "\<not> cache_expired c now"
      "r = decide E c url" "cache' = cache(key \<mapsto> c)"
  | (miss) key c where "origin_key_from_url url = Inr key" "refresh E fetch asked utc ticks url = Inr c"
      "r = decide E c url" "cache' = cache(key \<mapsto> c)"
proof (cases "res_then (if \<not> rt_traced E \<and> \<not> is_loopback (rt_scope E) then Inl CeInternalInvariant else Inr ())
    (res_then (rt_frontier E url) (origin_key_from_url url))")
  case (Inl e)
  with assms show ?thesis by (intro fail [of e]) (auto simp: snapshot_for_def)
next
  case (Inr key)
  then have key: "origin_key_from_url url = Inr key" by (simp add: res_simps)
  let ?hit = "\<exists>c. cache key = Some c \<and> \<not> cache_expired c now"
  show ?thesis
  proof (cases ?hit)
    case True
    with assms hit [OF key] Inr show ?thesis by (auto simp: snapshot_for_def)
  next
    case False
    then have entry: "(case cache key of Some c \<Rightarrow> if cache_expired c now then refresh E fetch asked utc ticks url else Inr c
        | None \<Rightarrow> refresh E fetch asked utc ticks url) = refresh E fetch asked utc ticks url"
      by (auto split: option.splits)
    show ?thesis
      using assms fail miss [OF key]
      unfolding snapshot_for_def Inr sum.case entry
      by (cases "refresh E fetch asked utc ticks url") auto
  qed
qed

lemma looked_up_entries:
  assumes "looked_up E past cache" and "cache key = Some c"
  shows "\<exists>l \<in> set past. made_by E key l c"
  using assms
proof (induction arbitrary: key c)
  case (looked_up_step past cache l now r cache')
  from looked_up_step.hyps(2) show ?case
  proof (cases rule: snapshot_for_cases)
    case (fail e)
    with looked_up_step show ?thesis by auto
  next
    case (hit k d)
    with looked_up_step have "cache key = Some c" by (auto split: if_splits)
    with looked_up_step.IH show ?thesis by auto
  next
    case (miss k d)
    then have "made_by E k l d" unfolding made_by_def by blast
    with miss looked_up_step show ?thesis by (cases "key = k") auto
  qed
qed simp

lemma decide_permits:
  assumes "permits (decide E c url)" and "made_by E key l c"
  shows "\<exists>v r bytes. conservative_url E url = Inr v \<and> last_answer E l r bytes
    \<and> (case ch_parsed c of
         None \<Rightarrow> 400 \<le> fr_status r \<and> fr_status r < 500
       | Some R \<Rightarrow> fr_status r = 200 \<and> robots_parse (rt_lib E) ''AVASearchBot'' (select_exact_groups bytes) = Inr R
           \<and> is_allowed_strict (rt_lib E) R (url_parts_of url) \<and> is_allowed_strict (rt_lib E) R (url_parts_of v))"
proof -
  from refresh_Inr [OF assms(2) [unfolded made_by_def, THEN conjunct2]] obtain fetched where f: "fetched \<noteq> []"
      "ul_join (rt_urls E) (rt_origin_url E (lk_url l)) ''robots.txt'' = Some (hd fetched)" "fetch_chain E (lk_fetch l) 0 fetched"
      "answer_evidence E (lk_fetch l (length fetched - 1) (last fetched)) (ch_parsed c) (ch_snapshot c)" by metis
  have ans: "last_answer E l r bytes" if "lk_fetch l (length fetched - 1) (last fetched) = Inr r" "fr_body r = Inr bytes" for r bytes
    using f(1-3) that unfolding last_answer_def by blast
  obtain v where v: "conservative_url E url = Inr v"
    using assms(1) by (cases "conservative_url E url") (auto simp: decide_def permits_def)
  show ?thesis
  proof (cases "ch_parsed c")
    case None
    with assms(1) v f(4) have "rs_decision (ch_snapshot c) = AllowAllUnavailable"
      by (auto simp: decide_def permits_def answer_evidence_def split: robots_decision.splits)
    with f(4) None ans v show ?thesis by (auto simp: answer_evidence_def)
  next
    case (Some R)
    have "is_allowed_strict (rt_lib E) R (url_parts_of url) \<and> is_allowed_strict (rt_lib E) R (url_parts_of v)"
      using assms(1) v Some by (auto simp: decide_def permits_def Let_def split: option.splits if_splits)
    moreover from f(4) Some have "\<exists>r bytes. lk_fetch l (length fetched - 1) (last fetched) = Inr r \<and> fr_body r = Inr bytes \<and> fr_status r = 200
        \<and> robots_parse (rt_lib E) ''AVASearchBot'' (select_exact_groups bytes) = Inr R"
      by (auto simp: answer_evidence_def split: robots_decision.splits)
    ultimately show ?thesis using Some ans v by auto
  qed
qed

text \<open>
  C17: what a permission rests on. Take the cache after any sequence of lookups, failed ones included, and a lookup that permits a URL. It
  used the unexpired entry that an earlier lookup of the same origin made, or the entry it made itself, and the entry rests on the
  answer at the end of the redirects which that lookup followed from the origin's \<open>robots.txt\<close>, received completely: either the answer had
  a 4xx status, or it had status 200, its body parsed to the rules of the entry, and these rules allow both the URL as written and its
  conservative form (decoded, slashes collapsed, dot segments resolved).
\<close>

theorem permission_needs_both_forms:
  assumes "looked_up E past cache" and "this = \<lparr> lk_fetch = fetch, lk_asked = asked, lk_utc = utc, lk_ticks = ticks, lk_url = url \<rparr>"
    and "snapshot_for E fetch now asked utc ticks url cache = (r, cache')" and "permits r"
  shows "\<exists>key c l v answer bytes. origin_key_from_url url = Inr key \<and> cache' key = Some c \<and> made_by E key l c
    \<and> (cache key = Some c \<and> \<not> cache_expired c now \<and> l \<in> set past \<or> l = this)
    \<and> conservative_url E url = Inr v \<and> last_answer E l answer bytes
    \<and> (case ch_parsed c of
         None \<Rightarrow> 400 \<le> fr_status answer \<and> fr_status answer < 500
       | Some R \<Rightarrow> fr_status answer = 200 \<and> robots_parse (rt_lib E) ''AVASearchBot'' (select_exact_groups bytes) = Inr R
           \<and> is_allowed_strict (rt_lib E) R (url_parts_of url) \<and> is_allowed_strict (rt_lib E) R (url_parts_of v))"
  using assms(3)
proof (cases rule: snapshot_for_cases)
  case (fail e)
  with assms(4) show ?thesis by (simp add: permits_def)
next
  case (hit key c)
  obtain l where l: "l \<in> set past" "made_by E key l c" using looked_up_entries [OF assms(1) hit(2)] by blast
  from decide_permits [OF _ l(2), of url] l hit assms(4) show ?thesis by fastforce
next
  case (miss key c)
  then have m: "made_by E key this c" unfolding made_by_def assms(2) by simp
  from decide_permits [OF _ m, of url] m miss assms(4) show ?thesis by fastforce
qed

lemma numeral_10_Suc_9: "(10::nat) = Suc 9" by simp

definition demo_rt_env :: "nat rt_env" where
  "demo_rt_env = \<lparr> rt_urls = demo_url_lib, rt_scope = Production, rt_traced = True, rt_lib = demo_robots_lib,
     rt_sha256 = (\<lambda>_. []), rt_f32_ms = Some, rt_f64_ms = (\<lambda>_. None), rt_decode_path = Some,
     rt_set_path = (\<lambda>u p. u\<lparr> wu_path := p \<rparr>), rt_origin_url = (\<lambda>u. u\<lparr> wu_path := ''/'' \<rparr>),
     rt_frontier = (\<lambda>_. Inr ()), rt_trace_redirect = (\<lambda>_. Inr ()), rt_trace_result = (\<lambda>_. Inr ()),
     rt_wall = utc_wall, rt_cache_secs = 3600, rt_parse_panics = (\<lambda>_. False), rt_match_panics = (\<lambda>_. False) \<rparr>"

lemma demo_rt_simps:
  "rt_urls demo_rt_env = demo_url_lib" "rt_scope demo_rt_env = Production" "rt_traced demo_rt_env"
  "rt_lib demo_rt_env = demo_robots_lib" "rt_sha256 demo_rt_env s = []" "rt_decode_path demo_rt_env = Some"
  "rt_set_path demo_rt_env u p = u\<lparr> wu_path := p \<rparr>" "rt_frontier demo_rt_env u = Inr ()"
  "rt_trace_result demo_rt_env snap = Inr ()" "rt_wall demo_rt_env = utc_wall" "rt_cache_secs demo_rt_env = 3600"
  "ul_join demo_url_lib u t = Some (demo_web t)" "wl_add utc_wall 0 3600000000000 = Some 3600000000000"
  by (simp_all add: demo_rt_env_def demo_url_lib_def utc_wall_def Let_def)

definition demo_fetch :: "nat \<Rightarrow> web_url \<Rightarrow> fetch_response crawl" where
  "demo_fetch i u = Inr \<lparr> fr_status = 404, fr_headers = Map.empty, fr_body = Inr [] \<rparr>"

lemma demo_refresh:
  "\<exists>c. refresh demo_rt_env demo_fetch 0 0 0 (demo_web ''/a'') = Inr c \<and> ch_parsed c = None
    \<and> rs_decision (ch_snapshot c) = AllowAllUnavailable"
proof -
  have "refresh_hops 10 demo_rt_env demo_fetch (demo_web ''robots.txt'') {} snap
      = Inr (None, [], snap\<lparr> rs_http_status := Some 404, rs_body_sha256 := Some [], rs_body_state := Received,
          rs_decision := AllowAllUnavailable, rs_matched_rule_kind := ''unavailable'' \<rparr>, [demo_web ''robots.txt''])" for snap
    unfolding numeral_10_Suc_9 by (simp only: refresh_hops.simps)
      (simp add: demo_rt_simps demo_fetch_def redirect_status_def scope_validate_def http_scheme_def demo_web_def contains_exact_def)
  then show ?thesis by (simp add: refresh_def demo_rt_simps cache_result_def Let_def)
qed

theorem refresh_fails_closed_witness:
  "\<exists>c fetched. refresh demo_rt_env demo_fetch 0 0 0 (demo_web ''/a'') = Inr c
    \<and> rs_decision (ch_snapshot c) = AllowAllUnavailable \<and> length fetched \<le> 10 \<and> fetched \<noteq> []
    \<and> hd fetched = demo_web ''robots.txt'' \<and> fetch_chain demo_rt_env demo_fetch 0 fetched"
proof -
  obtain c where c: "refresh demo_rt_env demo_fetch 0 0 0 (demo_web ''/a'') = Inr c"
      "rs_decision (ch_snapshot c) = AllowAllUnavailable"
    using demo_refresh by blast
  from refresh_fails_closed [OF c(1)] c show ?thesis by (auto simp: demo_rt_simps)
qed

theorem permission_needs_both_forms_witness:
  "\<exists>r cache' key c answer bytes. snapshot_for demo_rt_env demo_fetch 5 0 0 0 (demo_web ''/a'') Map.empty = (r, cache')
    \<and> permits r \<and> cache' key = Some c \<and> 400 \<le> fr_status answer
    \<and> last_answer demo_rt_env \<lparr> lk_fetch = demo_fetch, lk_asked = 0, lk_utc = 0, lk_ticks = 0, lk_url = demo_web ''/a'' \<rparr> answer bytes"
proof -
  obtain key where key: "origin_key_from_url (demo_web ''/a'') = Inr key"
    by (simp add: origin_key_from_url_def host_key_from_url_def demo_web_def)
  obtain c where c: "refresh demo_rt_env demo_fetch 0 0 0 (demo_web ''/a'') = Inr c" "ch_parsed c = None"
      "rs_decision (ch_snapshot c) = AllowAllUnavailable"
    using demo_refresh by blast
  have conservative: "conservative_url demo_rt_env (demo_web ''/a'') = Inr (demo_web ''/a'')"
    by (simp add: conservative_url_def demo_rt_simps demo_web_def remove_dot_segments_def Let_def ends_with_def)
  obtain r cache' where run: "snapshot_for demo_rt_env demo_fetch 5 0 0 0 (demo_web ''/a'') Map.empty = (r, cache')" "permits r"
    using key c conservative by (auto simp: snapshot_for_def demo_rt_simps decide_def permits_def)
  from permission_needs_both_forms [OF looked_up_new refl run] obtain k d answer bytes where
    "cache' k = Some d" "last_answer demo_rt_env \<lparr> lk_fetch = demo_fetch, lk_asked = 0, lk_utc = 0, lk_ticks = 0, lk_url = demo_web ''/a'' \<rparr> answer bytes"
    by auto
  moreover from this(2) have "400 \<le> fr_status answer" by (auto simp: last_answer_def demo_fetch_def)
  ultimately show ?thesis using run by blast
qed

theorem remove_dot_segments_normal_witness:
  "remove_dot_segments ''/a/./b/../c/'' = Inr ''/a/c/'' \<and> remove_dot_segments ''/a/c/'' = Inr ''/a/c/''"
proof -
  have r: "remove_dot_segments ''/a/./b/../c/'' = Inr ''/a/c/''" by code_simp
  from remove_dot_segments_normal [OF r] r show ?thesis by simp
qed

end
