(* ===== verification/Exclusions.thy ===== *)
theory Exclusions
  imports Network_Scope
begin

text \<open>
  The exclusion policy of the crawler (\<open>core/src/crawler/exclusions.rs\<close>): host rules with label boundaries, country-code
  suffixes, hosting countries from an offline provider, declared languages and listing budgets. The provider is a parameter, as
  the trait leaves it.
\<close>

section \<open>Policy\<close>

datatype content_class = Terrorism | Csea | AssistingSuicide | EncouragingSeriousSelfHarm | ThreatsHarassmentStalking | PublicOrderHate
  | Drugs | FirearmsWeapons | IllegalImmigrationTrafficking | SexualExploitation | IntimateImageOffencesCyberflashing | ProceedsOfCrime
  | Fraud | FinancialServices | ForeignInterference | AnimalWelfare | Pornography | SuicidePromotion | SelfHarmPromotion
  | EatingDisorderPromotion | PriorityS62PendingReview

definition requires_adult_verification :: "content_class \<Rightarrow> bool" where
  "requires_adult_verification c \<longleftrightarrow> c \<in> {Pornography, SuicidePromotion, SelfHarmPromotion, EatingDisorderPromotion}"

datatype content_policy = NeverCrawl | CrawlButSuppressUk | SuppressForChildren | DownRank

record class_rule =
  cr_id :: string
  cr_host :: string
  cr_include_subdomains :: bool
  cr_class :: content_class
  cr_policy :: content_policy

record listing_policy =
  lp_host :: string
  lp_include_subdomains :: bool
  lp_max_page_attempts :: nat

record provider_config =
  pc_id :: string
  pc_version :: string

record policy_change =
  pg_version :: string
  pg_date_utc :: int
  pg_reason :: string
  pg_review_ref :: string

record serving_policy =
  sp_uk_or_unknown_measures :: bool
  sp_non_uk_policy :: string
  sp_missing_adult_is_child :: bool

definition default_serving_policy :: serving_policy where
  "default_serving_policy = \<lparr> sp_uk_or_unknown_measures = True, sp_non_uk_policy = ''same-as-uk'', sp_missing_adult_is_child = True \<rparr>"

record exclusions_config =
  xc_version :: string
  xc_changed_at_utc :: int
  xc_change_log :: "policy_change list"
  xc_cctld_allow :: "string list"
  xc_cctld_deny :: "string list"
  xc_language_allow :: "string list"
  xc_language_deny :: "string list"
  xc_country_allow :: "string list"
  xc_country_deny :: "string list"
  xc_country_provider :: "provider_config option"
  xc_rules :: "class_rule list"
  xc_listing_sites :: "listing_policy list"
  xc_serving :: serving_policy

record exclusion_match =
  xm_rule_id :: string
  xm_phase :: exclusion_phase

datatype country_unknown_reason = NoProvider | NotResolved | ProviderUnavailable | ConflictingAddresses

datatype hosting_country = Known string string | Unknown_Country country_unknown_reason

record country_provider =
  cp_id :: string
  cp_version :: string
  cp_country :: "ip_addr \<Rightarrow> string option"

record class_matches =
  cm_matches :: "exclusion_match list"
  cm_classes :: "content_class list"
  cm_policies :: "content_policy list"

record exclusions =
  ex_config :: exclusions_config
  ex_provider :: "country_provider option"

definition exclusions_new :: "exclusions_config \<Rightarrow> country_provider option \<Rightarrow> exclusions crawl" where
  "exclusions_new config provider =
     (case (xc_country_provider config, provider) of
        (None, None) \<Rightarrow> Inr \<lparr> ex_config = config, ex_provider = provider \<rparr>
      | (Some expected, Some actual) \<Rightarrow>
          if pc_id expected = cp_id actual \<and> pc_version expected = cp_version actual
          then Inr \<lparr> ex_config = config, ex_provider = provider \<rparr> else Inl CeCountryProviderUnavailable
      | _ \<Rightarrow> Inl CeCountryProviderUnavailable)"

section \<open>Hosts\<close>

definition strip_suffix :: "string \<Rightarrow> string \<Rightarrow> string option" where
  "strip_suffix p s = (if ends_with s p then Some (take (length s - length p) s) else None)"

definition host_matches :: "string \<Rightarrow> string \<Rightarrow> bool \<Rightarrow> bool" where
  "host_matches host rule subdomains \<longleftrightarrow> host = rule
     \<or> (subdomains \<and> (case strip_suffix rule host of None \<Rightarrow> False | Some prefix \<Rightarrow> ends_with prefix ''.''))"

definition collect_new :: "'a \<Rightarrow> 'a list \<Rightarrow> 'a list" where
  "collect_new x xs = (if x \<in> set xs then xs else xs @ [x])"

definition no_matches :: class_matches where
  "no_matches = \<lparr> cm_matches = [], cm_classes = [], cm_policies = [] \<rparr>"

definition add_match :: "string \<Rightarrow> class_matches \<Rightarrow> class_rule \<Rightarrow> class_matches" where
  "add_match host r rule =
     (if host_matches host (cr_host rule) (cr_include_subdomains rule)
      then \<lparr> cm_matches = cm_matches r @ [\<lparr> xm_rule_id = cr_id rule, xm_phase = Frontier \<rparr>],
             cm_classes = collect_new (cr_class rule) (cm_classes r), cm_policies = collect_new (cr_policy rule) (cm_policies r) \<rparr>
      else r)"

definition class_matches_of :: "exclusions \<Rightarrow> host_key \<Rightarrow> class_matches" where
  "class_matches_of x host = foldl (add_match host) no_matches (xc_rules (ex_config x))"

definition never_crawl_matches :: "exclusions \<Rightarrow> host_key \<Rightarrow> bool" where
  "never_crawl_matches x host \<longleftrightarrow> NeverCrawl \<in> set (cm_policies (class_matches_of x host))"

definition host_suffix :: "host_key \<Rightarrow> string" where
  "host_suffix host = last (split_on CHR ''.'' host)"

definition geo_scope_allows :: "exclusions \<Rightarrow> host_key \<Rightarrow> exclusion_reason + unit" where
  "geo_scope_allows x host =
     (let suffix = host_suffix host; c = ex_config x in
      if suffix \<in> set (xc_cctld_deny c) then Inl CctldDenied
      else if xc_cctld_allow c \<noteq> [] \<and> suffix \<notin> set (xc_cctld_allow c) then Inl CctldNotAllowed
      else Inr ())"

section \<open>Languages\<close>

definition language_matches :: "string \<Rightarrow> string \<Rightarrow> bool" where
  "language_matches language rule =
     (let language = to_ascii_lowercase language; rule = to_ascii_lowercase rule in
      language = rule \<or> (case strip_prefix rule language of None \<Rightarrow> False | Some tail \<Rightarrow> starts_with tail ''-''))"

definition declared_language_allowed :: "exclusions \<Rightarrow> string list \<Rightarrow> exclusion_reason + unit" where
  "declared_language_allowed x languages =
     (let c = ex_config x; hit = (\<lambda>rules. list_ex (\<lambda>l. list_ex (language_matches l) rules) languages) in
      if hit (xc_language_deny c) then Inl LanguageDenied
      else if xc_language_allow c \<noteq> [] \<and> \<not> hit (xc_language_allow c) then Inl LanguageNotAllowed
      else Inr ())"

definition at_phase :: "exclusion_phase \<Rightarrow> exclusion_reason + 'a \<Rightarrow> 'a crawl" where
  "at_phase phase r = (case r of Inl reason \<Rightarrow> Inl (CeExcludedByPolicy reason phase) | Inr a \<Rightarrow> Inr a)"

definition language_check :: "exclusions \<Rightarrow> string list \<Rightarrow> exclusion_phase \<Rightarrow> unit crawl" where
  "language_check x languages phase = at_phase phase (declared_language_allowed x languages)"

definition declared_language :: "string \<Rightarrow> string option" where
  "declared_language raw =
     (let v = trim raw; parts = split_on CHR ''-'' v; first = hd parts in
      if length v > 63 \<or> v = []
         \<or> \<not> list_all (\<lambda>p. p \<noteq> [] \<and> length p \<le> 8 \<and> list_all (\<lambda>c. is_ascii_alphanumeric (byte c)) p) parts
      then None
      else if length first < 2 \<or> \<not> list_all (\<lambda>c. is_ascii_lowercase (byte c) \<or> is_ascii_uppercase (byte c)) first then None
      else Some (to_ascii_lowercase v))"

section \<open>Admission\<close>

definition frontier :: "exclusions \<Rightarrow> web_url \<Rightarrow> string list option \<Rightarrow> class_matches crawl" where
  "frontier x url known_languages =
     (case host_key_from_url url of
        Inl e \<Rightarrow> Inl e
      | Inr host \<Rightarrow>
          if never_crawl_matches x host then Inl (CeExcludedByPolicy NeverCrawl_Host Frontier)
          else
            res_then (at_phase Frontier (geo_scope_allows x host))
              (res_then (case known_languages of Some languages \<Rightarrow> language_check x languages Frontier | None \<Rightarrow> Inr ())
                 (Inr (class_matches_of x host))))"

definition valid_code :: "string \<Rightarrow> bool" where
  "valid_code s \<longleftrightarrow> length s = 2 \<and> list_all (\<lambda>c. is_ascii_uppercase (byte c)) s"

fun country_codes :: "country_provider \<Rightarrow> (ip_addr \<times> nat) list \<Rightarrow> string list \<Rightarrow> string list" where
  "country_codes p [] codes = codes"
| "country_codes p (a # as) codes =
     (case cp_country p (fst a) of
        Some code \<Rightarrow> if valid_code code then country_codes p as (codes @ [code]) else []
      | None \<Rightarrow> [])"

definition country :: "exclusions \<Rightarrow> (ip_addr \<times> nat) list \<Rightarrow> hosting_country" where
  "country x addresses =
     (case ex_provider x of
        None \<Rightarrow> Unknown_Country NoProvider
      | Some p \<Rightarrow>
          (let codes = country_codes p addresses [] in
           if codes = [] then Unknown_Country ProviderUnavailable
           else if list_ex (\<lambda>code. code \<noteq> codes ! 0) codes then Unknown_Country ConflictingAddresses
           else Known (codes ! 0) (cp_version p)))"

definition admit_country :: "exclusions \<Rightarrow> hosting_country \<Rightarrow> unit crawl" where
  "admit_country x c =
     (let cfg = ex_config x; refuse = (\<lambda>reason. Inl (CeExcludedByPolicy reason Frontier)) in
      case c of
        Unknown_Country _ \<Rightarrow> if xc_country_allow cfg \<noteq> [] \<or> xc_country_deny cfg \<noteq> [] then refuse CountryUnresolved else Inr ()
      | Known code _ \<Rightarrow>
          if code \<in> set (xc_country_deny cfg) then refuse HostingCountryDenied
          else if xc_country_allow cfg \<noteq> [] \<and> code \<notin> set (xc_country_allow cfg) then refuse HostingCountryNotAllowed
          else Inr ())"

definition admit_addresses :: "exclusions \<Rightarrow> (ip_addr \<times> nat) list \<Rightarrow> hosting_country crawl" where
  "admit_addresses x addresses = (let c = country x addresses in res_then (admit_country x c) (Inr c))"

definition listing_limit :: "exclusions \<Rightarrow> host_key \<Rightarrow> nat option" where
  "listing_limit x host =
     (let limits = map lp_max_page_attempts (filter (\<lambda>r. host_matches host (lp_host r) (lp_include_subdomains r)) (xc_listing_sites (ex_config x)))
      in if limits = [] then None else Some (Min (set limits)))"

section \<open>What they come to\<close>

text \<open>A rule for subdomains matches at label boundaries only.\<close>

lemma ends_with_iff: "ends_with s p \<longleftrightarrow> (\<exists>q. s = q @ p)"
  unfolding ends_with_def by (metis append_take_drop_id append_eq_conv_conj diff_add_inverse2 le_add2 length_append length_drop)

lemma host_matches_iff: "host_matches host rule subdomains \<longleftrightarrow> host = rule \<or> subdomains \<and> (\<exists>labels. host = labels @ ''.'' @ rule)"
  by (auto simp: host_matches_def strip_suffix_def ends_with_iff)

lemma collect_new_set [simp]: "set (collect_new x xs) = insert x (set xs)"
  by (auto simp: collect_new_def)

lemma class_matches_fold:
  "set (cm_policies (foldl (add_match host) r rules))
     = set (cm_policies r) \<union> {cr_policy rule | rule. rule \<in> set rules \<and> host_matches host (cr_host rule) (cr_include_subdomains rule)}"
  by (induction rules arbitrary: r) (auto simp: add_match_def)

lemma never_crawl_iff:
  "never_crawl_matches x host \<longleftrightarrow> (\<exists>rule \<in> set (xc_rules (ex_config x)). cr_policy rule = NeverCrawl \<and> host_matches host (cr_host rule) (cr_include_subdomains rule))"
  by (auto simp: never_crawl_matches_def class_matches_of_def class_matches_fold no_matches_def) metis+

lemma languages_allowed_iff:
  "declared_language_allowed x ls = Inr () \<longleftrightarrow>
    (\<forall>l \<in> set ls. \<forall>rule \<in> set (xc_language_deny (ex_config x)). \<not> language_matches l rule)
    \<and> (xc_language_allow (ex_config x) \<noteq> [] \<longrightarrow> (\<exists>l \<in> set ls. \<exists>rule \<in> set (xc_language_allow (ex_config x)). language_matches l rule))"
  by (simp add: declared_language_allowed_def Let_def list_ex_iff)

text \<open>The codes of the provider are used only when every address has one.\<close>

lemma country_codes_all:
  "country_codes p as codes \<noteq> [] \<Longrightarrow>
    country_codes p as codes = codes @ map (\<lambda>a. the (cp_country p (fst a))) as \<and> (\<forall>a \<in> set as. \<exists>code. cp_country p (fst a) = Some code \<and> valid_code code)"
  by (induction p as codes rule: country_codes.induct) (auto split: option.splits if_splits)

lemma country_known:
  assumes "country x addresses = Known code version"
  shows "\<exists>p. ex_provider x = Some p \<and> cp_version p = version \<and> addresses \<noteq> [] \<and> valid_code code \<and> (\<forall>a \<in> set addresses. cp_country p (fst a) = Some code)"
proof -
  obtain p where p: "ex_provider x = Some p" using assms by (cases "ex_provider x") (auto simp: country_def)
  let ?codes = "country_codes p addresses []"
  have c: "?codes \<noteq> []" "\<forall>c \<in> set ?codes. c = code" "version = cp_version p"
    using assms p by (auto simp: country_def Let_def list_ex_iff split: if_splits)
  from country_codes_all [OF c(1)] have all: "?codes = map (\<lambda>a. the (cp_country p (fst a))) addresses"
    "\<forall>a \<in> set addresses. \<exists>code. cp_country p (fst a) = Some code \<and> valid_code code" by simp_all
  have ne: "addresses \<noteq> []" using c(1) all(1) by auto
  have eq: "cp_country p (fst a) = Some code" if "a \<in> set addresses" for a
  proof -
    from bspec [OF all(2) that] obtain d where d: "cp_country p (fst a) = Some d" by auto
    have "the (cp_country p (fst a)) \<in> set (map (\<lambda>a. the (cp_country p (fst a))) addresses)" using that by simp
    then have "the (cp_country p (fst a)) = code" using c(2) unfolding all(1) by blast
    with d show ?thesis by simp
  qed
  moreover have "valid_code code" using ne eq all(2) by (metis list.set_intros(1) neq_Nil_conv option.inject)
  ultimately show ?thesis using p c(3) ne by simp
qed

text \<open>
  C26: Admission fails closed and denial wins. An address set and a page that pass the policy belong to a host no never-crawl rule
  covers, exactly or at a label boundary, with a suffix that is not denied and is allowed where there is an allow-list, in
  languages none of which is denied; and when any hosting country is restricted, every address has one and the same code from
  the provider, which is not denied and is allowed where there is an allow-list.
\<close>

theorem admission_fails_closed:
  assumes "frontier x url languages = Inr cm" and "admit_addresses x addresses = Inr hosting"
  shows "\<exists>host. host_key_from_url url = Inr host
    \<and> (\<forall>rule \<in> set (xc_rules (ex_config x)). cr_policy rule = NeverCrawl \<longrightarrow>
        host \<noteq> cr_host rule \<and> (cr_include_subdomains rule \<longrightarrow> (\<nexists>labels. host = labels @ ''.'' @ cr_host rule)))
    \<and> host_suffix host \<notin> set (xc_cctld_deny (ex_config x))
    \<and> (xc_cctld_allow (ex_config x) \<noteq> [] \<longrightarrow> host_suffix host \<in> set (xc_cctld_allow (ex_config x)))
    \<and> (\<forall>ls. languages = Some ls \<longrightarrow>
        (\<forall>l \<in> set ls. \<forall>rule \<in> set (xc_language_deny (ex_config x)). \<not> language_matches l rule)
        \<and> (xc_language_allow (ex_config x) \<noteq> [] \<longrightarrow> (\<exists>l \<in> set ls. \<exists>rule \<in> set (xc_language_allow (ex_config x)). language_matches l rule)))
    \<and> (xc_country_allow (ex_config x) \<noteq> [] \<or> xc_country_deny (ex_config x) \<noteq> [] \<longrightarrow>
        (\<exists>p code. ex_provider x = Some p \<and> addresses \<noteq> [] \<and> (\<forall>a \<in> set addresses. cp_country p (fst a) = Some code)
          \<and> code \<notin> set (xc_country_deny (ex_config x)) \<and> (xc_country_allow (ex_config x) \<noteq> [] \<longrightarrow> code \<in> set (xc_country_allow (ex_config x)))))"
proof -
  obtain host where host: "host_key_from_url url = Inr host" and never: "\<not> never_crawl_matches x host"
    and geo: "geo_scope_allows x host = Inr ()" and lang: "\<forall>ls. languages = Some ls \<longrightarrow> declared_language_allowed x ls = Inr ()"
    using assms(1) by (auto simp: frontier_def at_phase_def language_check_def res_then_def split: sum.splits if_splits option.splits)
  have rules: "\<forall>rule \<in> set (xc_rules (ex_config x)). cr_policy rule = NeverCrawl \<longrightarrow>
      host \<noteq> cr_host rule \<and> (cr_include_subdomains rule \<longrightarrow> (\<nexists>labels. host = labels @ ''.'' @ cr_host rule))"
    using never by (auto simp: never_crawl_iff host_matches_iff)
  have admitted: "admit_country x (country x addresses) = Inr ()" using assms(2) by (auto simp: admit_addresses_def Let_def res_then_def res_bind_def split: sum.splits)
  have geography: "\<exists>p code. ex_provider x = Some p \<and> addresses \<noteq> [] \<and> (\<forall>a \<in> set addresses. cp_country p (fst a) = Some code)
      \<and> code \<notin> set (xc_country_deny (ex_config x)) \<and> (xc_country_allow (ex_config x) \<noteq> [] \<longrightarrow> code \<in> set (xc_country_allow (ex_config x)))"
    if "xc_country_allow (ex_config x) \<noteq> [] \<or> xc_country_deny (ex_config x) \<noteq> []"
  proof (cases "country x addresses")
    case (Known code version)
    with country_known [OF Known] admitted show ?thesis by (auto simp: admit_country_def Let_def split: if_splits)
  next
    case (Unknown_Country r)
    with admitted that show ?thesis by (auto simp: admit_country_def Let_def split: if_splits)
  qed
  have "host_suffix host \<notin> set (xc_cctld_deny (ex_config x))" "xc_cctld_allow (ex_config x) \<noteq> [] \<longrightarrow> host_suffix host \<in> set (xc_cctld_allow (ex_config x))"
    using geo by (auto simp: geo_scope_allows_def Let_def split: if_splits)
  moreover have "\<forall>ls. languages = Some ls \<longrightarrow>
        (\<forall>l \<in> set ls. \<forall>rule \<in> set (xc_language_deny (ex_config x)). \<not> language_matches l rule)
        \<and> (xc_language_allow (ex_config x) \<noteq> [] \<longrightarrow> (\<exists>l \<in> set ls. \<exists>rule \<in> set (xc_language_allow (ex_config x)). language_matches l rule))"
    using lang by (simp add: languages_allowed_iff)
  ultimately show ?thesis using host rules geography by blast
qed

definition sample_exclusions :: exclusions where
  "sample_exclusions = \<lparr> ex_config = \<lparr> xc_version = ''1'', xc_changed_at_utc = 0, xc_change_log = [], xc_cctld_allow = [], xc_cctld_deny = [''xx''], xc_language_allow = [], xc_language_deny = [''zz''],
      xc_country_allow = [''GB''], xc_country_deny = [], xc_country_provider = None,
      xc_rules = [\<lparr> cr_id = ''r1'', cr_host = ''bad.example'', cr_include_subdomains = True, cr_class = Fraud, cr_policy = NeverCrawl \<rparr>],
      xc_listing_sites = [], xc_serving = default_serving_policy \<rparr>,
    ex_provider = Some \<lparr> cp_id = ''p'', cp_version = ''1'', cp_country = (\<lambda>_. Some ''GB'') \<rparr> \<rparr>"

theorem admission_fails_closed_witness:
  "host_suffix ''example.org'' \<notin> set (xc_cctld_deny (ex_config sample_exclusions))
    \<and> (\<exists>p code. ex_provider sample_exclusions = Some p \<and> cp_country p (IpV4 1 1 1 1) = Some code \<and> code \<in> {''GB''})"
proof -
  let ?url = "\<lparr> wu_scheme = ''https'', wu_host = Some ''example.org'', wu_port = None, wu_path = ''/'', wu_query = None, wu_username = [],
    wu_password = None, wu_text = ''https://example.org/'' \<rparr>"
  have host: "host_key_from_url ?url = Inr ''example.org''"
    by (simp add: host_key_from_url_def res_bind_def ok_or_def to_ascii_lowercase_def to_ascii_lowercase_byte_def is_ascii_uppercase_def)
  have "\<not> never_crawl_matches sample_exclusions ''example.org''"
    by (simp add: never_crawl_iff sample_exclusions_def host_matches_def strip_suffix_def ends_with_def)
  moreover have "geo_scope_allows sample_exclusions ''example.org'' = Inr ()"
    by (simp add: geo_scope_allows_def sample_exclusions_def host_suffix_def)
  ultimately have f: "frontier sample_exclusions ?url None = Inr (class_matches_of sample_exclusions ''example.org'')"
    by (simp add: frontier_def host at_phase_def res_then_def res_bind_def)
  have a: "admit_addresses sample_exclusions [(IpV4 1 1 1 1, 443)] = Inr (Known ''GB'' ''1'')"
    by (simp add: admit_addresses_def admit_country_def country_def sample_exclusions_def valid_code_def is_ascii_uppercase_def res_then_def res_bind_def)
  from admission_fails_closed [OF f a] host show ?thesis by (auto simp: sample_exclusions_def)
qed

end
