(* ===== verification/Transport.thy ===== *)
theory Transport
  imports Exclusions
begin

text \<open>
  The transport of the crawler (\<open>Transport\<close> in \<open>core/src/crawler/network.rs\<close> and the name resolution of its client in \<open>identity.rs\<close>):
  a target is vetted and its addresses are resolved before it queues for its host; when it is sent, these addresses are pinned for
  the host, and the client's only source of addresses is the table of pins. The HTTP client, the trace and the observation of the
  response by the host permit are parameters; locks are not poisoned.
\<close>

section \<open>Operations\<close>

type_synonym socket_addr = "ip_addr \<times> nat"
type_synonym pins = "string \<rightharpoonup> socket_addr list"

record transport =
  tp_urls :: url_lib
  tp_scope :: scope_kind
  tp_exclusions :: exclusions

record prepared_target =
  pt_url :: web_url
  pt_addresses :: "socket_addr list"
  pt_country :: hosting_country

definition prepare ::
  "transport \<Rightarrow> (string \<Rightarrow> ip_addr list crawl) \<Rightarrow> (hosting_country \<Rightarrow> unit crawl) \<Rightarrow> web_url \<Rightarrow> prepared_target crawl" where
  "prepare T lookup trace url =
     res_bind (frontier (tp_exclusions T) url None) (\<lambda>_.
     res_bind (scope_resolve (tp_urls T) lookup (tp_scope T) url) (\<lambda>addresses.
     let c = country (tp_exclusions T) addresses in
     res_then (trace c)
       (res_then (admit_country (tp_exclusions T) c)
          (Inr \<lparr> pt_url = url, pt_addresses = addresses, pt_country = c \<rparr>))))"

text \<open>The resolver that the client is built with: it answers from the pins and has no other source.\<close>

definition vetted_resolve :: "pins \<Rightarrow> string \<Rightarrow> socket_addr list option" where
  "vetted_resolve pins name = (case admitted pins name of Inr addresses \<Rightarrow> Some addresses | Inl _ \<Rightarrow> None)"

record 'r send_env =
  se_client :: "(string \<Rightarrow> socket_addr list option) \<Rightarrow> web_url \<Rightarrow> 'r crawl"
  se_start :: "unit crawl"
  se_status :: "'r \<Rightarrow> unit crawl"
  se_observe :: "'r \<Rightarrow> unit crawl"
  se_finish :: "crawl_error \<Rightarrow> unit crawl"

definition transport_send :: "'r send_env \<Rightarrow> pins \<Rightarrow> prepared_target \<Rightarrow> ('r \<times> hosting_country) crawl \<times> pins" where
  "transport_send S pins target =
     (case host_key_from_url (pt_url target) of
        Inl e \<Rightarrow> (Inl e, pins)
      | Inr host \<Rightarrow>
          (let pins' = pin_vetted_addresses pins host (pt_addresses target) in
           (res_then (se_start S)
              (case se_client S (vetted_resolve pins') (pt_url target) of
                 Inl e \<Rightarrow> res_then (se_finish S e) (Inl e)
               | Inr response \<Rightarrow>
                   res_then (se_status S response)
                     (case se_observe S response of
                        Inl e \<Rightarrow> res_then (se_finish S e) (Inl e)
                      | Inr _ \<Rightarrow> Inr (response, pt_country target))),
            pins')))"

section \<open>Pins\<close>

text \<open>
  The pins that other requests set between the pin of a request and its connection: each of a prepared target, and none for the same
  host, whose start lock the request holds until its headers arrive.
\<close>

inductive other_pins :: "transport \<Rightarrow> host_key \<Rightarrow> pins \<Rightarrow> pins \<Rightarrow> bool" for T host where
  other_none: "other_pins T host pins pins"
| other_pin: "other_pins T host pins pins' \<Longrightarrow> prepare T lookup trace url = Inr target \<Longrightarrow> host_key_from_url url = Inr key \<Longrightarrow>
    key \<noteq> host \<Longrightarrow> other_pins T host pins (pin_vetted_addresses pins' key (pt_addresses target))"

lemma prepare_Inr:
  assumes "prepare T lookup trace url = Inr target"
  shows "scope_resolve (tp_urls T) lookup (tp_scope T) url = Inr (pt_addresses target)" "pt_url target = url"
    "pt_country target = country (tp_exclusions T) (pt_addresses target)"
    "admit_country (tp_exclusions T) (pt_country target) = Inr ()"
  using assms by (auto simp: prepare_def res_simps Let_def)

lemma send_pins:
  "host_key_from_url (pt_url target) = Inr host \<Longrightarrow> snd (transport_send S pins target) = pins(host \<mapsto> pt_addresses target)"
  by (simp add: transport_send_def Let_def pin_vetted_addresses_def)

lemma other_pins_keep: "other_pins T host pins pins' \<Longrightarrow> pins' host = pins host"
  by (induction rule: other_pins.induct) (simp_all add: pin_vetted_addresses_def)

section \<open>Connections\<close>

text \<open>
  What the client relies on of the host of a parsed URL: it is lower case, and a host with a final dot is not an address literal.
  And what the documentation of the client says of its connections: the host of an address literal is
  dialled as it is, every other host at one of the addresses its resolver gives for the host.
\<close>

definition canonical_host :: "url_lib \<Rightarrow> web_url \<Rightarrow> bool" where
  "canonical_host U url \<longleftrightarrow> (\<exists>h. wu_host url = Some h \<and> to_ascii_lowercase h = h
     \<and> (h \<noteq> [] \<and> last h = CHR ''.'' \<longrightarrow> ul_ip U (trim_brackets h) = None \<and> ul_ip U (trim_brackets (butlast h)) = None))"

definition dials_resolved ::
  "url_lib \<Rightarrow> ((string \<Rightarrow> socket_addr list option) \<Rightarrow> web_url \<Rightarrow> socket_addr option) \<Rightarrow> bool" where
  "dials_resolved U dial \<longleftrightarrow> (\<forall>R url address. dial R url = Some address \<longrightarrow>
     (\<exists>h. wu_host url = Some h \<and> (case ul_ip U (trim_brackets h) of
        Some ip \<Rightarrow> fst address = ip \<and> wu_port url = Some (snd address)
      | None \<Rightarrow> \<exists>addresses. R h = Some addresses \<and> address \<in> set addresses)))"

lemma public_v4_outside: "is_public_address (IpV4 a b c d) \<Longrightarrow>
    \<not> list_ex (in_block (ipv4_value (unat a) (unat b) (unat c) (unat d))) special_v4"
proof -
  have octet: "unat w < 256" for w :: "8 word" using unsigned_less [of w, where 'a = nat] by simp
  show "is_public_address (IpV4 a b c d) \<Longrightarrow> \<not> list_ex (in_block (ipv4_value (unat a) (unat b) (unat c) (unat d))) special_v4"
    unfolding is_public_address.simps using is_public_v4_blocks [OF octet octet octet octet] by blast
qed

text \<open>The addresses a target was vetted with.\<close>

lemma scope_resolve_public:
  assumes "scope_resolve U lookup k url = Inr addresses" and "host_key_from_url url = Inr host"
  shows "case k of
      Loopback e \<Rightarrow> addresses = [lb_address e] \<and> admits_host e host
        \<and> (\<forall>ip. ul_ip U (trim_brackets host) = Some ip \<longrightarrow> is_public_address ip)
    | _ \<Rightarrow> addresses \<noteq> [] \<and> (\<forall>(ip, port) \<in> set addresses. wu_port url = Some port \<and> is_public_address ip)
        \<and> (\<forall>ip. ul_ip U (trim_brackets host) = Some ip \<longrightarrow> (\<exists>port. wu_port url = Some port \<and> addresses = [(ip, port)]))"
  using assms by (cases k) (auto simp: scope_resolve_def resolve_public_def res_simps list_all_iff split: if_splits option.splits)

lemma dialled_address:
  assumes "dials_resolved U dial" and "canonical_host U url" and "host_key_from_url url = Inr host" and "pins host = Some addresses"
    and "dial (vetted_resolve pins) url = Some address"
  shows "(\<exists>ip. ul_ip U (trim_brackets host) = Some ip \<and> fst address = ip \<and> wu_port url = Some (snd address))
    \<or> (ul_ip U (trim_brackets host) = None \<and> address \<in> set addresses)"
proof -
  obtain h where h: "wu_host url = Some h" "to_ascii_lowercase h = h"
      "h \<noteq> [] \<and> last h = CHR ''.'' \<longrightarrow> ul_ip U (trim_brackets h) = None \<and> ul_ip U (trim_brackets (butlast h)) = None"
    using assms(2) unfolding canonical_host_def by blast
  have d: "case ul_ip U (trim_brackets h) of Some ip \<Rightarrow> fst address = ip \<and> wu_port url = Some (snd address)
        | None \<Rightarrow> \<exists>addresses. vetted_resolve pins h = Some addresses \<and> address \<in> set addresses"
    using assms(1,5) h(1) unfolding dials_resolved_def by fastforce
  have lower: "to_ascii_lowercase (butlast h) = butlast h" using h(2) by (metis to_ascii_lowercase_def map_butlast)
  have host: "host = (if h \<noteq> [] \<and> last h = CHR ''.'' then butlast h else h)"
    using assms(3) h(1,2) lower by (auto simp: host_key_from_url_def res_simps)
  have same: "ul_ip U (trim_brackets host) = ul_ip U (trim_brackets h)" using h(3) host by auto
  have "vetted_resolve pins h = Some addresses" using assms(4) host by (auto simp: vetted_resolve_def admitted_def ok_or_def)
  with d same show ?thesis by (auto split: option.splits)
qed


section \<open>Sample\<close>

definition sample_transport :: transport where
  "sample_transport = \<lparr> tp_urls = demo_url_lib, tp_scope = Production, tp_exclusions = sample_exclusions \<rparr>"

definition sample_url :: web_url where
  "sample_url = (demo_web ''/a'')\<lparr> wu_host := Some ''example.org'' \<rparr>"

definition sample_dial :: "(string \<Rightarrow> socket_addr list option) \<Rightarrow> web_url \<Rightarrow> socket_addr option" where
  "sample_dial R url = (case wu_host url of Some h \<Rightarrow> (case R h of Some (a # _) \<Rightarrow> Some a | _ \<Rightarrow> None) | None \<Rightarrow> None)"

definition sample_send :: "unit send_env" where
  "sample_send = \<lparr> se_client = (\<lambda>_ _. Inr ()), se_start = Inr (), se_status = (\<lambda>_. Inr ()), se_observe = (\<lambda>_. Inr ()), se_finish = (\<lambda>_. Inr ()) \<rparr>"

lemma sample_prepared:
  "prepare sample_transport (\<lambda>_. Inr [IpV4 93 184 215 14]) (\<lambda>_. Inr ()) sample_url
    = Inr \<lparr> pt_url = sample_url, pt_addresses = [(IpV4 93 184 215 14, 443)], pt_country = Known ''GB'' ''1'' \<rparr>"
proof -
  have host: "host_key_from_url sample_url = Inr ''example.org''"
    by (simp add: host_key_from_url_def sample_url_def demo_web_def res_bind_def ok_or_def to_ascii_lowercase_def to_ascii_lowercase_byte_def is_ascii_uppercase_def)
  have "\<not> never_crawl_matches sample_exclusions ''example.org''"
    by (simp add: never_crawl_iff sample_exclusions_def host_matches_def strip_suffix_def ends_with_def)
  moreover have "geo_scope_allows sample_exclusions ''example.org'' = Inr ()"
    by (simp add: geo_scope_allows_def sample_exclusions_def host_suffix_def)
  ultimately have f: "frontier sample_exclusions sample_url None = Inr (class_matches_of sample_exclusions ''example.org'')"
    by (simp add: frontier_def host at_phase_def res_then_def res_bind_def)
  have "scope_resolve demo_url_lib (\<lambda>_. Inr [IpV4 93 184 215 14]) Production sample_url = Inr [(IpV4 93 184 215 14, 443)]"
    by (simp add: scope_resolve_def host) (simp add: sample_url_def demo_web_def demo_url_lib_def resolve_public_def is_public_v4_def)
  with f show ?thesis
    by (simp add: prepare_def sample_transport_def admit_country_def country_def sample_exclusions_def valid_code_def is_ascii_uppercase_def Let_def)
qed


end
