(* ===== verification/File_Store.thy ===== *)
theory File_Store
  imports Prelude "HOL-Library.Word"
begin

text \<open>
  The disk formats of the \<open>file-store\<close> crate: little-endian integers, items behind a length header
  (\<open>iterable.rs\<close>), items of constant size (\<open>iterable.rs\<close>, \<open>random_lookup.rs\<close>). A file is the list of
  its bytes; the bincode codec is a parameter. A slice outside the data panics.
\<close>

type_synonym u8s = "8 word list"

datatype 'a may_panic = Ret 'a | Panic

fun outcome_bind :: "'a may_panic \<Rightarrow> ('a \<Rightarrow> 'b may_panic) \<Rightarrow> 'b may_panic" where
  "outcome_bind (Ret x) f = f x"
| "outcome_bind Panic f = Panic"

definition slice :: "u8s \<Rightarrow> nat \<Rightarrow> nat \<Rightarrow> u8s may_panic" where
  "slice data i j = (if i \<le> j \<and> j \<le> length data then Ret (take (j - i) (drop i data)) else Panic)"

section \<open>Little-endian integers\<close>

fun le_digits :: "nat \<Rightarrow> nat \<Rightarrow> u8s" where
  "le_digits 0 n = []"
| "le_digits (Suc k) n = word_of_nat n # le_digits k (n div 256)"

fun le_value :: "u8s \<Rightarrow> nat" where
  "le_value [] = 0"
| "le_value (b # bs) = unat b + 256 * le_value bs"

definition to_le_bytes :: "64 word \<Rightarrow> u8s" where
  "to_le_bytes w = le_digits 8 (unat w)"

definition from_le_bytes :: "u8s \<Rightarrow> 64 word" where
  "from_le_bytes bs = word_of_nat (le_value bs)"

lemma bind_Ret_iff: "outcome_bind m k = Ret y \<longleftrightarrow> (\<exists>x. m = Ret x \<and> k x = Ret y)"
  by (cases m) auto

lemma bind_case_iff:
  "outcome_bind m (\<lambda>v. case v of Inl e \<Rightarrow> Ret (Inl e) | Inr x \<Rightarrow> k x) = Ret (Inr y) \<longleftrightarrow> (\<exists>x. m = Ret (Inr x) \<and> k x = Ret (Inr y))"
  by (cases m) (auto split: sum.splits)

lemma length_le_digits [simp]: "length (le_digits k n) = k"
  by (induction k arbitrary: n) auto

lemma length_to_le_bytes [simp]: "length (to_le_bytes w) = 8"
  by (simp add: to_le_bytes_def)

lemma le_value_digits: "n < 256 ^ k \<Longrightarrow> le_value (le_digits k n) = n"
proof (induction k arbitrary: n)
  case (Suc k)
  then have "n div 256 < 256 ^ k" by (simp add: less_mult_imp_div_less mult.commute)
  with Suc.IH show ?case by (simp add: unat_of_nat)
qed simp

lemma from_to_le_bytes [simp]: "from_le_bytes (to_le_bytes w) = w"
proof -
  have "unat w < 256 ^ 8" using unsigned_less [of w, where 'a = nat] by simp
  then show ?thesis by (simp add: from_le_bytes_def to_le_bytes_def le_value_digits)
qed

section \<open>Items behind a header\<close>

definition header_size :: nat where "header_size = 8"

definition header_serialize :: "64 word \<Rightarrow> u8s" where
  "header_serialize num_upcoming_bytes = to_le_bytes num_upcoming_bytes"

definition header_deserialize :: "u8s \<Rightarrow> 64 word option" where
  "header_deserialize bs = (if length bs \<noteq> header_size then None else Some (from_le_bytes bs))"

record written_offset =
  wo_start :: nat
  wo_num_bytes :: nat

definition written_range :: "written_offset \<Rightarrow> nat \<times> nat" where
  "written_range o' = (wo_start o', wo_start o' + wo_num_bytes o')"

record iter_writer =
  iw_bytes :: u8s
  iw_next_start :: nat

definition iter_writer_new :: iter_writer where
  "iter_writer_new = \<lparr> iw_bytes = [], iw_next_start = 0 \<rparr>"

definition iter_write :: "('a \<Rightarrow> u8s option) \<Rightarrow> 'a \<Rightarrow> iter_writer \<Rightarrow> (written_offset \<times> iter_writer) option" where
  "iter_write enc item w =
     (case enc item of
        None \<Rightarrow> None
      | Some serialized \<Rightarrow>
          (let bytes_written = header_size + length serialized in
           Some (\<lparr> wo_start = iw_next_start w, wo_num_bytes = bytes_written \<rparr>,
                 \<lparr> iw_bytes = iw_bytes w @ header_serialize (word_of_nat (length serialized)) @ serialized,
                   iw_next_start = iw_next_start w + bytes_written \<rparr>)))"

fun iter_write_all ::
  "('a \<Rightarrow> u8s option) \<Rightarrow> 'a list \<Rightarrow> iter_writer \<Rightarrow> (written_offset list \<times> iter_writer) option" where
  "iter_write_all enc [] w = Some ([], w)"
| "iter_write_all enc (x # xs) w =
     (case iter_write enc x w of
        None \<Rightarrow> None
      | Some (o', w1) \<Rightarrow> map_option (\<lambda>(os, w2). (o' # os, w2)) (iter_write_all enc xs w1))"

record iter_reader =
  ir_data :: u8s
  ir_offset :: nat

definition iter_reader_from_bytes :: "u8s \<Rightarrow> iter_reader" where
  "iter_reader_from_bytes data = \<lparr> ir_data = data, ir_offset = 0 \<rparr>"

definition iter_reader_slice :: "iter_reader \<Rightarrow> nat \<times> nat \<Rightarrow> iter_reader may_panic" where
  "iter_reader_slice r rng = outcome_bind (slice (ir_data r) (fst rng) (snd rng)) (\<lambda>d. Ret (iter_reader_from_bytes d))"

definition iter_next :: "(u8s \<Rightarrow> 'a option) \<Rightarrow> iter_reader \<Rightarrow> ('a option \<times> iter_reader) may_panic" where
  "iter_next dec r =
     (if ir_offset r + header_size > length (ir_data r) then Ret (None, r)
      else
        outcome_bind (slice (ir_data r) (ir_offset r) (ir_offset r + header_size)) (\<lambda>header_bytes.
        case header_deserialize header_bytes of
          None \<Rightarrow> Ret (None, r)
        | Some header \<Rightarrow>
            (let start = ir_offset r + header_size; end = start + unat header in
             outcome_bind (slice (ir_data r) start end) (\<lambda>serialized.
             case dec serialized of
               None \<Rightarrow> Panic
             | Some item \<Rightarrow> Ret (Some item, r\<lparr> ir_offset := end \<rparr>)))))"

lemma iter_next_progress:
  assumes "iter_next dec r = Ret (Some x, r')"
  shows "ir_data r' = ir_data r \<and> ir_offset r < ir_offset r' \<and> ir_offset r' \<le> length (ir_data r)"
  using assms by (auto simp: iter_next_def slice_def header_deserialize_def header_size_def Let_def
      split: if_splits option.splits)

text \<open>Collecting a reader to the end: every step moves the offset forward, so it terminates.\<close>

function iter_collect :: "(u8s \<Rightarrow> 'a option) \<Rightarrow> iter_reader \<Rightarrow> 'a list may_panic" where
  "iter_collect dec r =
     (case iter_next dec r of
        Panic \<Rightarrow> Panic
      | Ret (None, _) \<Rightarrow> Ret []
      | Ret (Some x, r') \<Rightarrow> outcome_bind (iter_collect dec r') (\<lambda>xs. Ret (x # xs)))"
  by pat_completeness auto
termination
  by (relation "measure (\<lambda>(dec, r). length (ir_data r) - ir_offset r)")
    (auto dest!: iter_next_progress)

declare iter_collect.simps [simp del]

subsection \<open>Frames\<close>

text \<open>What the callers rely on of a codec: decoding inverts encoding, and an encoding fits into memory.\<close>

definition codec_ok :: "('a \<Rightarrow> u8s option) \<Rightarrow> (u8s \<Rightarrow> 'a option) \<Rightarrow> bool" where
  "codec_ok enc dec \<longleftrightarrow> (\<forall>x s. enc x = Some s \<longrightarrow> dec s = Some x \<and> length s < 2 ^ 63)"

text \<open>The bytes one item occupies.\<close>

definition frame :: "u8s \<Rightarrow> u8s" where
  "frame s = to_le_bytes (word_of_nat (length s)) @ s"

lemma length_frame [simp]: "length (frame s) = 8 + length s"
  by (simp add: frame_def)

lemma iter_next_frame:
  assumes "dec s = Some x" and "length s < 2 ^ 63"
  shows "iter_next dec \<lparr> ir_data = pre @ frame s @ post, ir_offset = length pre \<rparr>
    = Ret (Some x, \<lparr> ir_data = pre @ frame s @ post, ir_offset = length pre + length (frame s) \<rparr>)"
proof -
  have "unat (word_of_nat (length s) :: 64 word) = length s" using assms(2) by (simp add: unat_of_nat)
  then show ?thesis using assms(1)
    by (simp add: iter_next_def slice_def header_deserialize_def header_size_def frame_def)
qed

lemma iter_next_torn:
  assumes "j < length (frame s)" and "length s < 2 ^ 63"
  shows "iter_next dec \<lparr> ir_data = pre @ take j (frame s), ir_offset = length pre \<rparr>
    = (if j < 8 then Ret (None, \<lparr> ir_data = pre @ take j (frame s), ir_offset = length pre \<rparr>) else Panic)"
proof -
  have "unat (word_of_nat (length s) :: 64 word) = length s" using assms(2) by (simp add: unat_of_nat)
  then show ?thesis using assms(1)
    by (auto simp: iter_next_def slice_def header_deserialize_def header_size_def frame_def)
qed

lemma iter_collect_frames:
  assumes "codec_ok enc dec" and "map enc xs = map Some ss"
  shows "iter_collect dec \<lparr> ir_data = pre @ concat (map frame ss) @ post, ir_offset = length pre \<rparr>
    = outcome_bind (iter_collect dec \<lparr> ir_data = pre @ concat (map frame ss) @ post,
        ir_offset = length pre + length (concat (map frame ss)) \<rparr>) (\<lambda>ys. Ret (xs @ ys))"
  using assms(2)
proof (induction xs arbitrary: ss pre)
  case Nil
  then show ?case by (cases "iter_collect dec \<lparr> ir_data = pre @ post, ir_offset = length pre \<rparr>") auto
next
  case (Cons x xs)
  then obtain s ts where ss: "ss = s # ts" "enc x = Some s" "map enc xs = map Some ts" by (cases ss) auto
  then have dec: "dec s = Some x" "length s < 2 ^ 63" using assms(1) by (auto simp: codec_ok_def)
  let ?rest = "iter_collect dec \<lparr> ir_data = pre @ frame s @ concat (map frame ts) @ post,
      ir_offset = length pre + length (frame s) + length (concat (map frame ts)) \<rparr>"
  have "iter_collect dec \<lparr> ir_data = (pre @ frame s) @ concat (map frame ts) @ post, ir_offset = length (pre @ frame s) \<rparr>
      = outcome_bind ?rest (\<lambda>ys. Ret (xs @ ys))"
    using Cons.IH [OF ss(3), of "pre @ frame s"] by simp
  then show ?case
    using iter_next_frame [of dec s x pre "concat (map frame ts) @ post"] dec
    by (subst iter_collect.simps) (cases ?rest; simp add: ss(1) add.assoc)
qed

lemma iter_collect_end: "iter_collect dec \<lparr> ir_data = data, ir_offset = length data \<rparr> = Ret []"
  by (subst iter_collect.simps) (simp add: iter_next_def header_size_def)

lemma written_range_eq: "written_range \<lparr> wo_start = a, wo_num_bytes = n \<rparr> = (a, a + n)"
  by (simp add: written_range_def)

lemma iter_write_all_frames:
  assumes "map enc xs = map Some ss"
  shows "\<exists>os. iter_write_all enc xs w = Some (os, \<lparr> iw_bytes = iw_bytes w @ concat (map frame ss),
      iw_next_start = iw_next_start w + length (concat (map frame ss)) \<rparr>)
    \<and> map written_range os = map (\<lambda>i. (iw_next_start w + length (concat (map frame (take i ss))),
        iw_next_start w + length (concat (map frame (take (Suc i) ss))))) [0..<length ss]"
  using assms
proof (induction xs arbitrary: ss w)
  case (Cons x xs)
  then obtain s ts where ss: "ss = s # ts" "enc x = Some s" "map enc xs = map Some ts" by (cases ss) auto
  define w1 where "w1 = \<lparr> iw_bytes = iw_bytes w @ frame s, iw_next_start = iw_next_start w + length (frame s) \<rparr>"
  have one: "iter_write enc x w = Some (\<lparr> wo_start = iw_next_start w, wo_num_bytes = length (frame s) \<rparr>, w1)"
    by (simp add: iter_write_def ss(2) w1_def frame_def header_serialize_def header_size_def Let_def)
  from Cons.IH [OF ss(3), of w1] obtain os where os:
    "iter_write_all enc xs w1 = Some (os, \<lparr> iw_bytes = iw_bytes w1 @ concat (map frame ts),
      iw_next_start = iw_next_start w1 + length (concat (map frame ts)) \<rparr>)"
    "map written_range os = map (\<lambda>i. (iw_next_start w1 + length (concat (map frame (take i ts))),
        iw_next_start w1 + length (concat (map frame (take (Suc i) ts))))) [0..<length ts]" by blast
  have "[0..<length ss] = 0 # map Suc [0..<length ts]" 
    using upt_conv_Cons [of 0 "Suc (length ts)"] by (simp add: ss(1) map_Suc_upt del: upt_Suc)
  with one os show ?case
    by (auto simp: ss(1) w1_def written_range_eq add.assoc o_def simp del: upt_Suc)
qed (use assms in simp)

text \<open>
  the iterable store reads back what was written. The items written to a fresh store are
  exactly the items a reader collects from its bytes, in order, and the range reported for each
  item is the part of the file from which a reader collects that item alone.
\<close>

theorem iterable_roundtrip:
  assumes "codec_ok enc dec" and "list_all (\<lambda>x. enc x \<noteq> None) xs"
  shows "\<exists>os w. iter_write_all enc xs iter_writer_new = Some (os, w) \<and> length os = length xs
    \<and> iter_collect dec (iter_reader_from_bytes (iw_bytes w)) = Ret xs
    \<and> (\<forall>i < length xs. \<exists>r. iter_reader_slice (iter_reader_from_bytes (iw_bytes w)) (written_range (os ! i)) = Ret r
          \<and> iter_collect dec r = Ret [xs ! i])"
proof -
  define ss where "ss = map (the \<circ> enc) xs"
  have ss: "map enc xs = map Some ss" using assms(2) by (auto simp: ss_def list_all_iff)
  then have len: "length xs = length ss" by (metis length_map)
  let ?data = "concat (map frame ss)"
  from iter_write_all_frames [OF ss, of iter_writer_new] obtain os where os:
    "iter_write_all enc xs iter_writer_new = Some (os, \<lparr> iw_bytes = ?data, iw_next_start = length ?data \<rparr>)"
    "map written_range os = map (\<lambda>i. (length (concat (map frame (take i ss))), length (concat (map frame (take (Suc i) ss)))))
        [0..<length ss]"
    by (auto simp: iter_writer_new_def)
  from arg_cong [OF os(2), of length] len have n: "length os = length xs" by simp
  have collect: "iter_collect dec (iter_reader_from_bytes ?data) = Ret xs"
    using iter_collect_frames [OF assms(1) ss, of "[]" "[]"] iter_collect_end [of dec ?data]
    by (simp add: iter_reader_from_bytes_def)
  have single: "iter_reader_slice (iter_reader_from_bytes ?data) (written_range (os ! i)) = Ret (iter_reader_from_bytes (frame (ss ! i)))
      \<and> iter_collect dec (iter_reader_from_bytes (frame (ss ! i))) = Ret [xs ! i]" if i: "i < length xs" for i
  proof -
    have r: "written_range (os ! i) = (length (concat (map frame (take i ss))), length (concat (map frame (take (Suc i) ss))))"
      using arg_cong [OF os(2), of "\<lambda>l. l ! i"] i n len by simp
    have cut: "concat (map frame (take (Suc i) ss)) = concat (map frame (take i ss)) @ frame (ss ! i)"
      using i len by (simp add: take_Suc_conv_app_nth)
    have whole: "?data = concat (map frame (take i ss)) @ frame (ss ! i) @ concat (map frame (drop (Suc i) ss))"
      using i len by (metis append.assoc append_take_drop_id concat_append cut map_append)
    have e: "map enc [xs ! i] = map Some [ss ! i]"
      using i len arg_cong [OF ss, of "\<lambda>l. l ! i"] by simp
    have "iter_collect dec (iter_reader_from_bytes (frame (ss ! i))) = Ret [xs ! i]"
      using iter_collect_frames [OF assms(1) e, of "[]" "[]"] iter_collect_end [of dec "frame (ss ! i)"]
      by (simp add: iter_reader_from_bytes_def)
    moreover have "slice ?data (length (concat (map frame (take i ss)))) (length (concat (map frame (take (Suc i) ss))))
        = Ret (frame (ss ! i))"
      unfolding cut by (subst whole)+ (simp add: slice_def)
    ultimately show ?thesis by (simp add: iter_reader_slice_def r iter_reader_from_bytes_def)
  qed
  show ?thesis using os(1) n collect single by (intro exI [of _ os] exI conjI) auto
qed

text \<open>
  A torn file. When a file ends inside an item, which is what a crash during a write leaves, a
  reader that has passed the complete items stops cleanly only if the cut is inside the length
  header; from the eighth byte on it panics, and the complete items are lost to \<open>collect\<close>.
\<close>

theorem torn_item_panics:
  assumes "codec_ok enc dec" and "map enc xs = map Some ss" and "enc x = Some s" and "j < length (frame s)"
  shows "iter_collect dec (iter_reader_from_bytes (concat (map frame ss) @ take j (frame s)))
    = (if j < 8 then Ret xs else Panic)"
proof -
  let ?pre = "concat (map frame ss)"
  have fits: "length s < 2 ^ 63" using assms(1,3) by (auto simp: codec_ok_def)
  have "iter_collect dec \<lparr> ir_data = ?pre @ take j (frame s), ir_offset = length ?pre \<rparr> = (if j < 8 then Ret [] else Panic)"
    using iter_next_torn [OF assms(4) fits, of dec ?pre] by (subst iter_collect.simps) simp
  with iter_collect_frames [OF assms(1,2), of "[]" "take j (frame s)"] show ?thesis
    by (simp add: iter_reader_from_bytes_def)
qed

definition u64_enc :: "64 word \<Rightarrow> u8s option" where
  "u64_enc w = Some (to_le_bytes w)"

definition u64_dec :: "u8s \<Rightarrow> 64 word option" where
  "u64_dec bs = (if length bs = 8 then Some (from_le_bytes bs) else None)"

lemma u64_codec_ok: "codec_ok u64_enc u64_dec"
  by (simp add: codec_ok_def u64_enc_def u64_dec_def)

theorem iterable_roundtrip_witness:
  "\<exists>os w. iter_write_all u64_enc [1, 2, 3] iter_writer_new = Some (os, w)
    \<and> iter_collect u64_dec (iter_reader_from_bytes (iw_bytes w)) = Ret [1, 2, 3]"
  using iterable_roundtrip [OF u64_codec_ok, of "[1, 2, 3]"] by (auto simp: u64_enc_def)

theorem torn_item_panics_witness:
  "iter_collect u64_dec (iter_reader_from_bytes (frame (to_le_bytes 5) @ take 9 (frame (to_le_bytes 7)))) = Panic
   \<and> iter_collect u64_dec (iter_reader_from_bytes (frame (to_le_bytes 5) @ take 7 (frame (to_le_bytes 7)))) = Ret [5]"
  using torn_item_panics [OF u64_codec_ok, of "[5]" "[to_le_bytes 5]" 7 "to_le_bytes 7" 9]
    torn_item_panics [OF u64_codec_ok, of "[5]" "[to_le_bytes 5]" 7 "to_le_bytes 7" 7]
  by (simp add: u64_enc_def)

section \<open>Items of constant size\<close>

text \<open>
  \<open>RandomLookup\<close> stores items of a constant size; the id of an item is its position. \<open>bytes\<close>, \<open>ser\<close> and
  \<open>deser\<close> are the members of the \<open>ConstSerializable\<close> trait.
\<close>

record lookup_writer =
  lw_next_id :: nat
  lw_bytes :: u8s

definition lookup_writer_new :: lookup_writer where
  "lookup_writer_new = \<lparr> lw_next_id = 0, lw_bytes = [] \<rparr>"

definition lookup_write :: "('v \<Rightarrow> u8s) \<Rightarrow> 'v \<Rightarrow> lookup_writer \<Rightarrow> nat \<times> lookup_writer" where
  "lookup_write ser item w =
     (lw_next_id w, \<lparr> lw_next_id = lw_next_id w + 1, lw_bytes = lw_bytes w @ ser item \<rparr>)"

definition lookup_get :: "nat \<Rightarrow> (u8s \<Rightarrow> 'v) \<Rightarrow> u8s \<Rightarrow> nat \<Rightarrow> 'v may_panic" where
  "lookup_get bytes deser data i =
     (let start = i * bytes in outcome_bind (slice data start (start + bytes)) (\<lambda>b. Ret (deser b)))"

definition lookup_next :: "nat \<Rightarrow> (u8s \<Rightarrow> 'v) \<Rightarrow> u8s \<Rightarrow> nat \<Rightarrow> ((nat \<times> 'v) option \<times> nat) may_panic" where
  "lookup_next bytes deser data next_id =
     (let start = next_id * bytes in
      if start \<ge> length data then Ret (None, next_id)
      else outcome_bind (slice data start (start + bytes)) (\<lambda>b. Ret (Some (next_id, deser b), next_id + 1)))"

text \<open>Collecting the iterator that starts at an id; \<open>None\<close> would be an endless iteration.\<close>

partial_function (option) lookup_collect :: "nat \<Rightarrow> (u8s \<Rightarrow> 'v) \<Rightarrow> u8s \<Rightarrow> nat \<Rightarrow> (nat \<times> 'v) list may_panic option" where
  "lookup_collect bytes deser data next_id =
     (case lookup_next bytes deser data next_id of
        Panic \<Rightarrow> Some Panic
      | Ret (None, _) \<Rightarrow> Some (Ret [])
      | Ret (Some x, next) \<Rightarrow>
          Option.bind (lookup_collect bytes deser data next) (\<lambda>out. Some (outcome_bind out (\<lambda>xs. Ret (x # xs)))))"

text \<open>\<open>ConstIterableStoreReader\<close>: the same layout, read by offset; a short tail ends the iteration.\<close>

record const_reader =
  cr_data :: u8s
  cr_offset :: nat

definition const_reader_len :: "nat \<Rightarrow> const_reader \<Rightarrow> nat" where
  "const_reader_len bytes r = length (cr_data r) div bytes"

definition const_write :: "('v \<Rightarrow> u8s) \<Rightarrow> nat \<Rightarrow> 'v \<Rightarrow> iter_writer \<Rightarrow> written_offset \<times> iter_writer" where
  "const_write ser bytes item w =
     (\<lparr> wo_start = iw_next_start w, wo_num_bytes = bytes \<rparr>,
      \<lparr> iw_bytes = iw_bytes w @ ser item, iw_next_start = iw_next_start w + bytes \<rparr>)"

definition const_next :: "nat \<Rightarrow> (u8s \<Rightarrow> 'v) \<Rightarrow> const_reader \<Rightarrow> 'v option \<times> const_reader" where
  "const_next bytes deser r =
     (if cr_offset r + bytes > length (cr_data r) then (None, r)
      else (Some (deser (take bytes (drop (cr_offset r) (cr_data r)))), r\<lparr> cr_offset := cr_offset r + bytes \<rparr>))"

subsection \<open>The contract of constant-size items\<close>

locale const_serializable =
  fixes bytes :: nat and ser :: "'v \<Rightarrow> u8s" and deser :: "u8s \<Rightarrow> 'v"
  assumes length_ser: "length (ser x) = bytes" and deser_ser: "deser (ser x) = x" and bytes_pos: "0 < bytes"
begin

lemma length_concat_ser: "length (concat (map ser xs)) = length xs * bytes"
  by (induction xs) (simp_all add: length_ser)

lemma split_at_item:
  assumes "i < length xs"
  shows "take bytes (drop (i * bytes) (concat (map ser xs))) = ser (xs ! i)"
proof -
  have "concat (map ser xs) = concat (map ser (take i xs)) @ ser (xs ! i) @ concat (map ser (drop (Suc i) xs))"
    using assms by (metis append_take_drop_id concat_append id_take_nth_drop list.map(2) concat.simps(2) map_append)
  moreover have "length (concat (map ser (take i xs))) = i * bytes" using assms by (simp add: length_concat_ser)
  ultimately show ?thesis by (simp add: length_ser)
qed

lemma slice_item:
  assumes "i < length xs"
  shows "slice (concat (map ser xs)) (i * bytes) (i * bytes + bytes) = Ret (ser (xs ! i))"
proof -
  have "Suc i * bytes \<le> length xs * bytes" using assms by (intro mult_right_mono) auto
  then show ?thesis using split_at_item [OF assms] by (simp add: slice_def length_concat_ser add.commute)
qed

lemma get_item: "i < length xs \<Longrightarrow> lookup_get bytes deser (concat (map ser xs)) i = Ret (xs ! i)"
  using slice_item [of i xs] by (simp add: lookup_get_def Let_def deser_ser)

lemma get_past_end:
  assumes "i \<ge> length xs"
  shows "lookup_get bytes deser (concat (map ser xs)) i = Panic"
proof -
  have "length xs * bytes < i * bytes + bytes"
    using mult_le_mono1 [OF assms, of bytes] bytes_pos by linarith
  then show ?thesis by (simp add: lookup_get_def Let_def slice_def length_concat_ser)
qed

lemma collect_items:
  "lookup_collect bytes deser (concat (map ser xs)) k = Some (Ret (zip [k..<length xs] (drop k xs)))"
proof (induction "length xs - k" arbitrary: k)
  case 0
  then have "length xs * bytes \<le> k * bytes" by (intro mult_right_mono) auto
  then show ?case using 0 by (subst lookup_collect.simps) (simp add: lookup_next_def Let_def length_concat_ser)
next
  case (Suc n)
  then have k: "k < length xs" and n: "n = length xs - Suc k" by linarith+
  have "k * bytes < length xs * bytes" using k bytes_pos by simp
  then have step: "lookup_next bytes deser (concat (map ser xs)) k = Ret (Some (k, xs ! k), k + 1)"
    using slice_item [OF k] by (simp add: lookup_next_def Let_def length_concat_ser deser_ser)
  have "zip [k..<length xs] (drop k xs) = (k, xs ! k) # zip [Suc k..<length xs] (drop (Suc k) xs)"
    using k by (simp add: upt_conv_Cons Cons_nth_drop_Suc [symmetric])
  with Suc.hyps(1) [OF n] step show ?case by (subst lookup_collect.simps) simp
qed

lemma const_next_item:
  assumes "i < length xs"
  shows "const_next bytes deser \<lparr> cr_data = concat (map ser xs), cr_offset = i * bytes \<rparr>
    = (Some (xs ! i), \<lparr> cr_data = concat (map ser xs), cr_offset = Suc i * bytes \<rparr>)"
proof -
  have "Suc i * bytes \<le> length xs * bytes" using assms by (intro mult_right_mono) auto
  then show ?thesis using split_at_item [OF assms] by (simp add: const_next_def length_concat_ser deser_ser add.commute)
qed

lemma const_len: "const_reader_len bytes \<lparr> cr_data = concat (map ser xs), cr_offset = k \<rparr> = length xs"
  using bytes_pos by (simp add: const_reader_len_def length_concat_ser)

end

interpretation u64: const_serializable 8 to_le_bytes from_le_bytes
  by unfold_locales simp_all

text \<open>\<open>Range<u64>\<close>: its ends, one after the other.\<close>

definition range_serialize :: "64 word \<times> 64 word \<Rightarrow> u8s" where
  "range_serialize rng = to_le_bytes (fst rng) @ to_le_bytes (snd rng)"

definition range_deserialize :: "u8s \<Rightarrow> 64 word \<times> 64 word" where
  "range_deserialize buf = (from_le_bytes (take 8 buf), from_le_bytes (take 8 (drop 8 buf)))"

interpretation range: const_serializable 16 range_serialize range_deserialize
  by unfold_locales (simp_all add: range_serialize_def range_deserialize_def)

end
