(* ===== verification/Wal.thy ===== *)
theory Wal
  imports File_Store
begin

text \<open>
  The write-ahead log of the \<open>simple-wal\<close> crate. The state is the log's handle, with the bytes its
  buffered writer has not handed to the disk yet, and the file on disk (\<open>None\<close> when it does not
  exist). Buffered bytes reach the file at a flush; the buffer is not bounded here, while a \<open>BufWriter\<close> may hand
  a part of a large batch over earlier. A handle of \<open>File::open\<close> is read-only, one of \<open>File::create\<close> is writable.
\<close>

datatype handle_mode = ReadOnly | Writable

record wal =
  wa_mode :: handle_mode
  wa_writer :: iter_writer

type_synonym wal_file = "u8s option"

datatype wal_error = EncodeFailed | WriteRefused | NoFile

definition wal_open :: "wal_file \<Rightarrow> wal \<times> wal_file" where
  "wal_open disk =
     (case disk of
        Some data \<Rightarrow> (\<lparr> wa_mode = ReadOnly, wa_writer = iter_writer_new \<rparr>, Some data)
      | None \<Rightarrow> (\<lparr> wa_mode = Writable, wa_writer = iter_writer_new \<rparr>, Some []))"

definition wal_clear :: "wal \<Rightarrow> wal_file \<Rightarrow> (wal_error + unit) \<times> wal \<times> wal_file" where
  "wal_clear w disk =
     (case disk of
        None \<Rightarrow> (Inl NoFile, w, None)
      | Some _ \<Rightarrow> (Inr (), w\<lparr> wa_mode := Writable, wa_writer := iter_writer_new \<rparr>, Some []))"

text \<open>Flushing hands the buffered bytes to the file; an empty buffer needs no write.\<close>

definition wal_flush :: "wal \<Rightarrow> wal_file \<Rightarrow> (wal_error + unit) \<times> wal \<times> wal_file" where
  "wal_flush w disk =
     (if iw_bytes (wa_writer w) = [] then (Inr (), w, disk)
      else case wa_mode w of
             ReadOnly \<Rightarrow> (Inl WriteRefused, w, disk)
           | Writable \<Rightarrow>
               (Inr (), w\<lparr> wa_writer := (wa_writer w)\<lparr> iw_bytes := [] \<rparr> \<rparr>,
                map_option (\<lambda>data. data @ iw_bytes (wa_writer w)) disk))"

definition wal_write :: "('a \<Rightarrow> u8s option) \<Rightarrow> 'a \<Rightarrow> wal \<Rightarrow> wal_file \<Rightarrow> (wal_error + unit) \<times> wal \<times> wal_file" where
  "wal_write enc item w disk =
     (case iter_write enc item (wa_writer w) of
        None \<Rightarrow> (Inl EncodeFailed, w, disk)
      | Some (_, wr) \<Rightarrow> wal_flush (w\<lparr> wa_writer := wr \<rparr>) disk)"

fun wal_batch_write :: "('a \<Rightarrow> u8s option) \<Rightarrow> 'a list \<Rightarrow> wal \<Rightarrow> wal_file \<Rightarrow> (wal_error + unit) \<times> wal \<times> wal_file" where
  "wal_batch_write enc [] w disk = wal_flush w disk"
| "wal_batch_write enc (x # xs) w disk =
     (case iter_write enc x (wa_writer w) of
        None \<Rightarrow> (Inl EncodeFailed, w, disk)
      | Some (_, wr) \<Rightarrow> wal_batch_write enc xs (w\<lparr> wa_writer := wr \<rparr>) disk)"

definition wal_iter :: "(u8s \<Rightarrow> 'a option) \<Rightarrow> wal_file \<Rightarrow> wal_error + 'a list may_panic" where
  "wal_iter dec disk = res_bind (ok_or disk NoFile) (\<lambda>data. Inr (iter_collect dec (iter_reader_from_bytes data)))"

section \<open>The log as a list\<close>

datatype 'a wal_op = OpWrite 'a | OpBatch "'a list" | OpClear

fun wal_step :: "('a \<Rightarrow> u8s option) \<Rightarrow> 'a wal_op \<Rightarrow> wal \<Rightarrow> wal_file \<Rightarrow> (wal_error + unit) \<times> wal \<times> wal_file" where
  "wal_step enc (OpWrite x) w disk = wal_write enc x w disk"
| "wal_step enc (OpBatch xs) w disk = wal_batch_write enc xs w disk"
| "wal_step enc OpClear w disk = wal_clear w disk"

fun log_step :: "'a wal_op \<Rightarrow> 'a list \<Rightarrow> 'a list" where
  "log_step (OpWrite x) items = items @ [x]"
| "log_step (OpBatch xs) items = items @ xs"
| "log_step OpClear items = []"

fun op_encodes :: "('a \<Rightarrow> u8s option) \<Rightarrow> 'a wal_op \<Rightarrow> bool" where
  "op_encodes enc (OpWrite x) \<longleftrightarrow> enc x \<noteq> None"
| "op_encodes enc (OpBatch xs) \<longleftrightarrow> list_all (\<lambda>x. enc x \<noteq> None) xs"
| "op_encodes enc OpClear \<longleftrightarrow> True"

fun wal_run :: "('a \<Rightarrow> u8s option) \<Rightarrow> 'a wal_op list \<Rightarrow> wal \<Rightarrow> wal_file \<Rightarrow> (wal_error + unit) \<times> wal \<times> wal_file" where
  "wal_run enc [] w disk = (Inr (), w, disk)"
| "wal_run enc (p # ps) w disk =
     (case wal_step enc p w disk of
        (Inl e, w1, f1) \<Rightarrow> (Inl e, w1, f1)
      | (Inr _, w1, f1) \<Rightarrow> wal_run enc ps w1 f1)"

text \<open>A writable log with an empty buffer whose file holds the frames of the items.\<close>

definition wal_rep :: "('a \<Rightarrow> u8s option) \<Rightarrow> wal \<Rightarrow> wal_file \<Rightarrow> 'a list \<Rightarrow> bool" where
  "wal_rep enc w disk items \<longleftrightarrow>
     wa_mode w = Writable \<and> iw_bytes (wa_writer w) = [] \<and> list_all (\<lambda>x. enc x \<noteq> None) items
     \<and> disk = Some (concat (map (frame \<circ> the \<circ> enc) items))"

lemma iter_write_frame:
  "enc x = Some s \<Longrightarrow> \<exists>o' n. iter_write enc x wr = Some (o', \<lparr> iw_bytes = iw_bytes wr @ frame s, iw_next_start = n \<rparr>)"
  by (simp add: iter_write_def frame_def header_serialize_def Let_def)

lemma batch_frames:
  assumes "list_all (\<lambda>x. enc x \<noteq> None) xs" and "wa_mode w = Writable"
  shows "\<exists>w'. wal_batch_write enc xs w (Some data)
      = (Inr (), w', Some (data @ iw_bytes (wa_writer w) @ concat (map (frame \<circ> the \<circ> enc) xs)))
    \<and> wa_mode w' = Writable \<and> iw_bytes (wa_writer w') = []"
  using assms
proof (induction xs arbitrary: w)
  case (Cons x xs)
  then obtain s where s: "enc x = Some s" by auto
  then obtain o' n where wr: "iter_write enc x (wa_writer w)
      = Some (o', \<lparr> iw_bytes = iw_bytes (wa_writer w) @ frame s, iw_next_start = n \<rparr>)"
    using iter_write_frame [of enc x s "wa_writer w"] by blast
  from Cons.IH [of "w\<lparr> wa_writer := \<lparr> iw_bytes = iw_bytes (wa_writer w) @ frame s, iw_next_start = n \<rparr> \<rparr>"] Cons.prems
  show ?case by (simp add: wr s)
qed (simp add: wal_flush_def)

lemma wal_write_batch: "wal_write enc x = wal_batch_write enc [x]"
  by (simp add: fun_eq_iff wal_write_def split: option.splits prod.splits)

lemma wal_step_rep:
  assumes "wal_rep enc w disk items" and "op_encodes enc p"
  shows "\<exists>w' f'. wal_step enc p w disk = (Inr (), w', f') \<and> wal_rep enc w' f' (log_step p items)"
proof -
  have batch: "\<exists>w' f'. wal_batch_write enc xs w disk = (Inr (), w', f') \<and> wal_rep enc w' f' (items @ xs)"
    if "list_all (\<lambda>x. enc x \<noteq> None) xs" for xs
  proof -
    obtain data where d: "disk = Some data" "data = concat (map (frame \<circ> the \<circ> enc) items)" using assms(1) by (simp add: wal_rep_def)
    from batch_frames [OF that, of w data] assms(1) d that show ?thesis by (auto simp: wal_rep_def)
  qed
  show ?thesis
  proof (cases p)
    case (OpWrite x)
    with assms(2) batch [of "[x]"] show ?thesis by (simp add: wal_write_batch)
  next
    case (OpBatch xs)
    with assms(2) batch [of xs] show ?thesis by simp
  next
    case OpClear
    with assms(1) show ?thesis by (auto simp: wal_rep_def wal_clear_def iter_writer_new_def)
  qed
qed

lemma wal_run_rep:
  assumes "wal_rep enc w disk items" and "list_all (op_encodes enc) ps"
  shows "\<exists>w' f'. wal_run enc ps w disk = (Inr (), w', f') \<and> wal_rep enc w' f' (fold log_step ps items)"
  using assms
proof (induction ps arbitrary: w disk items)
  case (Cons p ps)
  then obtain w1 f1 where "wal_step enc p w disk = (Inr (), w1, f1)" "wal_rep enc w1 f1 (log_step p items)"
    using wal_step_rep [of enc w disk items p] by auto
  with Cons.IH [of w1 f1 "log_step p items"] Cons.prems show ?case by simp
qed auto

lemma wal_rep_iter:
  assumes "codec_ok enc dec" and "wal_rep enc w disk items"
  shows "wal_iter dec disk = Inr (Ret items)"
proof -
  let ?ss = "map (the \<circ> enc) items"
  have ss: "map enc items = map Some ?ss" using assms(2) by (auto simp: wal_rep_def list_all_iff)
  have "disk = Some (concat (map frame ?ss))" using assms(2) by (simp add: wal_rep_def o_def)
  with iter_collect_frames [OF assms(1) ss, of "[]" "[]"] iter_collect_end [of dec "concat (map frame ?ss)"]
  show ?thesis by (simp add: wal_iter_def iter_reader_from_bytes_def)
qed

text \<open>
  C39: a log created by \<open>open\<close> implements a list. After any sequence of writes, batches and clears of
  encodable items every operation has succeeded and iterating the disk returns exactly what was
  written since the last clear, in order.
\<close>

theorem wal_refines_log:
  assumes "codec_ok enc dec" and "list_all (op_encodes enc) ps"
  shows "\<exists>w disk. wal_run enc ps (fst (wal_open None)) (snd (wal_open None)) = (Inr (), w, disk)
    \<and> wal_iter dec disk = Inr (Ret (fold log_step ps []))"
proof -
  have "wal_rep enc (fst (wal_open None)) (snd (wal_open None)) []"
    by (simp add: wal_rep_def wal_open_def iter_writer_new_def)
  with wal_run_rep [OF this assms(2)] wal_rep_iter [OF assms(1)] show ?thesis by blast
qed

text \<open>
  A reopened log is read-only. Opening an existing log file keeps its contents readable, but
  every attempt to log an item is refused and leaves the file as it was, until the log is cleared.
\<close>

theorem reopened_wal_refuses_writes:
  assumes "enc x = Some s"
  shows "\<exists>w. wal_batch_write enc (x # xs) (fst (wal_open (Some data))) (snd (wal_open (Some data))) = (Inl WriteRefused, w, Some data)
      \<or> wal_batch_write enc (x # xs) (fst (wal_open (Some data))) (snd (wal_open (Some data))) = (Inl EncodeFailed, w, Some data)"
proof -
  have gen: "\<exists>w'. wal_batch_write enc ys w f = (Inl WriteRefused, w', f) \<or> wal_batch_write enc ys w f = (Inl EncodeFailed, w', f)"
    if "wa_mode w = ReadOnly" "iw_bytes (wa_writer w) \<noteq> []" for ys w f
    using that
  proof (induction ys arbitrary: w)
    case (Cons y ys)
    show ?case
    proof (cases "iter_write enc y (wa_writer w)")
      case (Some r)
      then obtain o' wr where r: "r = (o', wr)" by (cases r)
      have "iw_bytes wr \<noteq> []" using Some r Cons.prems(2) by (auto simp: iter_write_def Let_def split: option.splits)
      then show ?thesis using Cons.IH [of "w\<lparr> wa_writer := wr \<rparr>"] Cons.prems(1) Some r by simp
    qed simp
  qed (simp add: wal_flush_def)
  obtain o' n where "iter_write enc x iter_writer_new = Some (o', \<lparr> iw_bytes = frame s, iw_next_start = n \<rparr>)"
    using iter_write_frame [of enc x s iter_writer_new] assms by (auto simp: iter_writer_new_def)
  moreover have "frame s \<noteq> []" using length_frame [of s] by force
  ultimately show ?thesis
    using gen [of "\<lparr> wa_mode = ReadOnly, wa_writer = \<lparr> iw_bytes = frame s, iw_next_start = n \<rparr> \<rparr>" xs "Some data"]
    by (simp add: wal_open_def)
qed

theorem wal_refines_log_witness:
  "\<exists>w disk. wal_run u64_enc [OpWrite 1, OpClear, OpBatch [2, 3]] (fst (wal_open None)) (snd (wal_open None)) = (Inr (), w, disk)
    \<and> wal_iter u64_dec disk = Inr (Ret [2, 3])"
  using wal_refines_log [OF u64_codec_ok, of "[OpWrite 1, OpClear, OpBatch [2, 3]]"] by (simp add: u64_enc_def)

theorem reopened_wal_refuses_writes_witness:
  "\<exists>w. wal_batch_write u64_enc [7] (fst (wal_open (Some []))) (snd (wal_open (Some []))) = (Inl WriteRefused, w, Some [])
    \<or> wal_batch_write u64_enc [7] (fst (wal_open (Some []))) (snd (wal_open (Some []))) = (Inl EncodeFailed, w, Some [])"
  by (rule reopened_wal_refuses_writes) (simp add: u64_enc_def)

end
