(* ===== verification/Bloom.thy ===== *)
theory Bloom
  imports File_Store
begin

text \<open>
  The Bloom filters of the \<open>bloom\<close> crate. The xxh3 hash is a parameter, and so are the sizes that
  \<open>new\<close> computes in floating point. A remainder by the length of an empty bit vector panics.
\<close>

unbundle bit_operations_syntax

section \<open>Words\<close>

definition combine_u64s :: "64 word \<times> 64 word \<Rightarrow> 128 word" where
  "combine_u64s nums = (push_bit 64 (ucast (fst nums)) OR ucast (snd nums))"

definition split_u128 :: "128 word \<Rightarrow> 64 word \<times> 64 word" where
  "split_u128 num = (ucast (drop_bit 64 num), ucast num)"

lemma combine_split_u128: "combine_u64s (split_u128 num) = num"
  by (rule bit_word_eqI) (auto simp: combine_u64s_def split_u128_def bit_simps)

lemma split_combine_u64s: "split_u128 (combine_u64s nums) = nums"
proof -
  have "fst (split_u128 (combine_u64s nums)) = fst nums"
    by (rule bit_word_eqI) (auto simp: combine_u64s_def split_u128_def bit_simps dest: bit_imp_le_length)
  moreover have "snd (split_u128 (combine_u64s nums)) = snd nums"
    by (rule bit_word_eqI) (auto simp: combine_u64s_def split_u128_def bit_simps)
  ultimately show ?thesis by (simp add: prod_eq_iff)
qed

definition LARGE_PRIME :: "64 word" where
  "LARGE_PRIME = 11400714819323198549"

section \<open>Filters of integers\<close>

record u64_bloom =
  ub_bits :: "bool list"

definition u64_bloom_new :: "nat \<Rightarrow> u64_bloom" where
  "u64_bloom_new num_bits = \<lparr> ub_bits = replicate num_bits False \<rparr>"

definition empty_from :: "u64_bloom \<Rightarrow> u64_bloom" where
  "empty_from other = \<lparr> ub_bits = replicate (length (ub_bits other)) False \<rparr>"

definition bloom_fill :: "u64_bloom \<Rightarrow> u64_bloom" where
  "bloom_fill f = \<lparr> ub_bits = map (\<lambda>_. True) (ub_bits f) \<rparr>"

definition u64_hash :: "64 word \<Rightarrow> nat" where
  "u64_hash item = unat (item * LARGE_PRIME)"

definition u64_insert :: "64 word \<Rightarrow> u64_bloom \<Rightarrow> u64_bloom may_panic" where
  "u64_insert item f =
     (if ub_bits f = [] then Panic
      else Ret \<lparr> ub_bits = (ub_bits f)[u64_hash item mod length (ub_bits f) := True] \<rparr>)"

definition u64_contains :: "64 word \<Rightarrow> u64_bloom \<Rightarrow> bool may_panic" where
  "u64_contains item f =
     (if ub_bits f = [] then Panic else Ret (ub_bits f ! (u64_hash item mod length (ub_bits f))))"

definition insert_u128 :: "128 word \<Rightarrow> u64_bloom \<Rightarrow> u64_bloom may_panic" where
  "insert_u128 item f = u64_insert (ucast item) f"

definition contains_u128 :: "128 word \<Rightarrow> u64_bloom \<Rightarrow> bool may_panic" where
  "contains_u128 item f = u64_contains (ucast item) f"

text \<open>\<open>|=\<close> on bit vectors keeps the left length; missing bits on the right count as zero.\<close>

definition bloom_union :: "u64_bloom \<Rightarrow> u64_bloom \<Rightarrow> u64_bloom" where
  "bloom_union f g =
     \<lparr> ub_bits = map (\<lambda>i. ub_bits f ! i \<or> (i < length (ub_bits g) \<and> ub_bits g ! i)) [0..<length (ub_bits f)] \<rparr>"

section \<open>Filters of byte strings\<close>

record bytes_bloom =
  bb_bits :: "bool list"
  bb_num_hashes :: nat

definition bytes_bloom_new :: "nat \<Rightarrow> nat \<Rightarrow> bytes_bloom" where
  "bytes_bloom_new num_bits num_hashes = \<lparr> bb_bits = replicate num_bits False, bb_num_hashes = num_hashes \<rparr>"

definition hash_raw :: "(u8s \<Rightarrow> 128 word) \<Rightarrow> u8s \<Rightarrow> 64 word \<times> 64 word" where
  "hash_raw xxh item = split_u128 (xxh item)"

definition probe :: "64 word \<times> 64 word \<Rightarrow> nat \<Rightarrow> nat \<Rightarrow> nat" where
  "probe ab len i = unat ((fst ab * word_of_nat i + snd ab) mod LARGE_PRIME) mod len"

fun check_probes :: "64 word \<times> 64 word \<Rightarrow> bool list \<Rightarrow> nat list \<Rightarrow> bool may_panic" where
  "check_probes ab bits [] = Ret True"
| "check_probes ab bits (i # is) =
     (if bits = [] then Panic
      else if \<not> bits ! probe ab (length bits) i then Ret False
      else check_probes ab bits is)"

fun set_probes :: "64 word \<times> 64 word \<Rightarrow> bool list \<Rightarrow> nat list \<Rightarrow> bool list may_panic" where
  "set_probes ab bits [] = Ret bits"
| "set_probes ab bits (i # is) =
     (if bits = [] then Panic else set_probes ab (bits[probe ab (length bits) i := True]) is)"

definition contains_raw :: "(u8s \<Rightarrow> 128 word) \<Rightarrow> bytes_bloom \<Rightarrow> u8s \<Rightarrow> bool may_panic" where
  "contains_raw xxh f item = check_probes (hash_raw xxh item) (bb_bits f) [0..<bb_num_hashes f]"

definition insert_raw :: "(u8s \<Rightarrow> 128 word) \<Rightarrow> u8s \<Rightarrow> bytes_bloom \<Rightarrow> bytes_bloom may_panic" where
  "insert_raw xxh item f =
     outcome_bind (set_probes (hash_raw xxh item) (bb_bits f) [0..<bb_num_hashes f]) (\<lambda>bits. Ret (f\<lparr> bb_bits := bits \<rparr>))"

fun insert_all_raw :: "(u8s \<Rightarrow> 128 word) \<Rightarrow> u8s list \<Rightarrow> bytes_bloom \<Rightarrow> bytes_bloom may_panic" where
  "insert_all_raw xxh [] f = Ret f"
| "insert_all_raw xxh (x # xs) f = outcome_bind (insert_raw xxh x f) (insert_all_raw xxh xs)"

section \<open>No false negatives\<close>

lemma probe_less: "bits \<noteq> [] \<Longrightarrow> probe ab (length bits) i < length bits"
  by (simp add: probe_def)

lemma check_probes_eq:
  "bits \<noteq> [] \<Longrightarrow> check_probes ab bits is = Ret (list_all (\<lambda>i. bits ! probe ab (length bits) i) is)"
  by (induction "is") auto

lemma set_probes_eq:
  assumes "bits \<noteq> []"
  shows "\<exists>bits'. set_probes ab bits is = Ret bits' \<and> length bits' = length bits
    \<and> (\<forall>k < length bits. bits' ! k \<longleftrightarrow> bits ! k \<or> k \<in> probe ab (length bits) ` set is)"
  using assms
proof (induction "is" arbitrary: bits)
  case (Cons i "is")
  let ?b = "bits[probe ab (length bits) i := True]"
  have "?b \<noteq> []" using Cons.prems by simp
  from Cons.IH [OF this] obtain bits' where b: "set_probes ab ?b is = Ret bits'" "length bits' = length bits"
      "\<forall>k < length bits. bits' ! k \<longleftrightarrow> ?b ! k \<or> k \<in> probe ab (length bits) ` set is" by auto
  have "?b ! k \<longleftrightarrow> bits ! k \<or> k = probe ab (length bits) i" if "k < length bits" for k
    using that probe_less [OF Cons.prems, of ab i] by (auto simp: nth_list_update)
  with b Cons.prems show ?case by (intro exI [of _ bits']) auto
qed simp

lemma insert_raw_Ret:
  assumes "bb_bits f \<noteq> []"
  shows "\<exists>f'. insert_raw xxh x f = Ret f' \<and> length (bb_bits f') = length (bb_bits f) \<and> bb_num_hashes f' = bb_num_hashes f
    \<and> contains_raw xxh f' x = Ret True
    \<and> (\<forall>y. contains_raw xxh f y = Ret True \<longrightarrow> contains_raw xxh f' y = Ret True)"
proof -
  from set_probes_eq [OF assms] obtain bits' where b:
    "set_probes (hash_raw xxh x) (bb_bits f) [0..<bb_num_hashes f] = Ret bits'" "length bits' = length (bb_bits f)"
    "\<forall>k < length (bb_bits f). bits' ! k \<longleftrightarrow> bb_bits f ! k \<or> k \<in> probe (hash_raw xxh x) (length (bb_bits f)) ` set [0..<bb_num_hashes f]"
    by blast
  have ne: "bits' \<noteq> []" using b(2) assms by auto
  have less: "probe ab (length (bb_bits f)) i < length (bb_bits f)" for ab i by (rule probe_less [OF assms])
  have "insert_raw xxh x f = Ret (f\<lparr> bb_bits := bits' \<rparr>)" by (simp add: insert_raw_def b(1))
  moreover have "contains_raw xxh (f\<lparr> bb_bits := bits' \<rparr>) x = Ret True"
    using b(3) less by (simp add: contains_raw_def check_probes_eq [OF ne] b(2) list_all_iff)
  moreover have "contains_raw xxh (f\<lparr> bb_bits := bits' \<rparr>) y = Ret True" if "contains_raw xxh f y = Ret True" for y
    using that b(3) less by (simp add: contains_raw_def check_probes_eq [OF ne] check_probes_eq [OF assms] b(2) list_all_iff)
  ultimately show ?thesis by (intro exI [of _ "f\<lparr> bb_bits := bits' \<rparr>"]) (simp add: b(2))
qed

lemma insert_all_raw_Ret:
  assumes "bb_bits f \<noteq> []"
  shows "\<exists>f'. insert_all_raw xxh xs f = Ret f' \<and> length (bb_bits f') = length (bb_bits f) \<and> bb_num_hashes f' = bb_num_hashes f
    \<and> (\<forall>x. x \<in> set xs \<or> contains_raw xxh f x = Ret True \<longrightarrow> contains_raw xxh f' x = Ret True)"
  using assms
proof (induction xs arbitrary: f)
  case (Cons x xs)
  from insert_raw_Ret [OF Cons.prems] obtain f1 where f1: "insert_raw xxh x f = Ret f1"
      "length (bb_bits f1) = length (bb_bits f)" "bb_num_hashes f1 = bb_num_hashes f" "contains_raw xxh f1 x = Ret True"
      "\<forall>y. contains_raw xxh f y = Ret True \<longrightarrow> contains_raw xxh f1 y = Ret True" by metis
  have "bb_bits f1 \<noteq> []" using f1(2) Cons.prems by auto
  from Cons.IH [OF this] f1 show ?case by (auto; metis)
qed auto

lemma contains_raw_total: "bb_bits f \<noteq> [] \<Longrightarrow> \<exists>b. contains_raw xxh f x = Ret b"
  by (simp add: contains_raw_def check_probes_eq)

lemma u64_bloom_laws:
  assumes "ub_bits f \<noteq> []"
  obtains f' where "u64_insert x f = Ret f'" "length (ub_bits f') = length (ub_bits f)" "u64_contains x f' = Ret True"
    "\<And>y. u64_contains y f = Ret True \<Longrightarrow> u64_contains y f' = Ret True"
proof (rule that [of "\<lparr> ub_bits = (ub_bits f)[u64_hash x mod length (ub_bits f) := True] \<rparr>"])
qed (use assms in \<open>auto simp: u64_insert_def u64_contains_def nth_list_update\<close>)

lemma bloom_union_contains:
  assumes "length (ub_bits f) = length (ub_bits g)" and "ub_bits f \<noteq> []"
  shows "u64_contains x (bloom_union f g) = Ret (u64_contains x f = Ret True \<or> u64_contains x g = Ret True)"
proof -
  have "ub_bits g \<noteq> []" using assms by auto
  with assms show ?thesis by (simp add: u64_contains_def bloom_union_def)
qed

text \<open>
  No false negatives. In a filter with at least one bit, inserting any byte strings never
  panics and afterwards each of them is reported as contained, whatever the hash function.
\<close>

theorem bloom_no_false_negatives:
  assumes "0 < num_bits" and "x \<in> set xs"
  shows "\<exists>f. insert_all_raw xxh xs (bytes_bloom_new num_bits num_hashes) = Ret f \<and> contains_raw xxh f x = Ret True"
proof -
  have "bb_bits (bytes_bloom_new num_bits num_hashes) \<noteq> []" using assms(1) by (simp add: bytes_bloom_new_def)
  from insert_all_raw_Ret [OF this] assms(2) show ?thesis by blast
qed

theorem bloom_no_false_negatives_witness:
  "\<exists>f. insert_all_raw (\<lambda>s. word_of_nat (le_value s)) [[1], [2, 3]] (bytes_bloom_new 5 2) = Ret f
    \<and> contains_raw (\<lambda>s. word_of_nat (le_value s)) f [2, 3] = Ret True"
  by (rule bloom_no_false_negatives) simp_all

end
