(* ===== verification/Kv_Segment.thy ===== *)
theory Kv_Segment
  imports Bloom
begin

text \<open>
  One segment of the \<open>speedy-kv\<close> store: blob pointers, the blob store, the blob index, the key index
  with its exact-match automaton, the segment writer and lookups. The finite-state transducer of
  the key index is the \<open>fst\<close> crate and a parameter, as are the xxh3 hash and the sizes of the Bloom
  filter. A segment is the contents of its four files.
\<close>

section \<open>Blob pointers and blobs\<close>

type_synonym kv = "u8s \<times> u8s"
type_synonym u64_range = "64 word \<times> 64 word"

record blob_pointer =
  bp_key :: u64_range
  bp_value :: u64_range

definition as_bytes :: "blob_pointer \<Rightarrow> u8s" where
  "as_bytes p = concat (map to_le_bytes [fst (bp_key p), snd (bp_key p), fst (bp_value p), snd (bp_value p)])"

definition from_bytes :: "u8s \<Rightarrow> blob_pointer" where
  "from_bytes bs =
     \<lparr> bp_key = (from_le_bytes (take 8 bs), from_le_bytes (take 8 (drop 8 bs))),
       bp_value = (from_le_bytes (take 8 (drop 16 bs)), from_le_bytes (take 8 (drop 24 bs))) \<rparr>"

interpretation pointer: const_serializable 32 as_bytes from_bytes
  by unfold_locales (simp_all add: as_bytes_def from_bytes_def)

definition get_bytes :: "u8s \<Rightarrow> u64_range \<Rightarrow> u8s may_panic" where
  "get_bytes store rng =
     (if unat (snd rng) > length store \<or> unat (fst rng) > length store then Panic
      else slice store (unat (fst rng)) (unat (snd rng)))"

definition blob_get :: "u8s \<Rightarrow> blob_pointer \<Rightarrow> kv may_panic" where
  "blob_get store ptr =
     outcome_bind (get_bytes store (bp_key ptr)) (\<lambda>key.
     outcome_bind (get_bytes store (bp_value ptr)) (\<lambda>val. Ret (key, val)))"

record blob_writer =
  sw_bytes :: u8s
  sw_offset :: "64 word"

definition blob_write :: "u8s \<Rightarrow> u8s \<Rightarrow> blob_writer \<Rightarrow> blob_pointer \<times> blob_writer" where
  "blob_write key val w =
     (let o1 = sw_offset w + word_of_nat (length key);
          o2 = o1 + word_of_nat (length val)
      in (\<lparr> bp_key = (sw_offset w, o1), bp_value = (o1, o2) \<rparr>,
          \<lparr> sw_bytes = sw_bytes w @ key @ val, sw_offset = o2 \<rparr>))"

section \<open>The key index\<close>

record 's automaton =
  am_start :: 's
  am_is_match :: "'s \<Rightarrow> bool"
  am_can_match :: "'s \<Rightarrow> bool"
  am_accept :: "'s \<Rightarrow> 8 word \<Rightarrow> 's may_panic"

definition exact_match :: "u8s \<Rightarrow> nat option automaton" where
  "exact_match key =
     \<lparr> am_start = Some 0,
       am_is_match = (\<lambda>s. s = Some (length key)),
       am_can_match = (\<lambda>s. s \<noteq> None),
       am_accept = (\<lambda>s byte.
         case s of
           None \<Rightarrow> Ret None
         | Some i \<Rightarrow> if i \<ge> length key then Panic else Ret (if key ! i = byte then Some (i + 1) else None)) \<rparr>"

text \<open>How the transducer drives an automaton along one key: it stops when no match is possible.\<close>

fun run_automaton :: "'s automaton \<Rightarrow> 's \<Rightarrow> u8s \<Rightarrow> bool may_panic" where
  "run_automaton A s [] = Ret (am_is_match A s)"
| "run_automaton A s (b # bs) =
     (if \<not> am_can_match A s then Ret False else outcome_bind (am_accept A s b) (\<lambda>t. run_automaton A t bs))"

datatype key_bound = Included u8s | Excluded u8s | Unbounded

fun above :: "key_bound \<Rightarrow> u8s \<Rightarrow> bool" where
  "above (Included s) k \<longleftrightarrow> s \<le> k"
| "above (Excluded s) k \<longleftrightarrow> s < k"
| "above Unbounded k \<longleftrightarrow> True"

fun below :: "key_bound \<Rightarrow> u8s \<Rightarrow> bool" where
  "below (Included e) k \<longleftrightarrow> k \<le> e"
| "below (Excluded e) k \<longleftrightarrow> k < e"
| "below Unbounded k \<longleftrightarrow> True"

record 'm fst_lib =
  fx_build :: "(u8s \<times> 64 word) list \<Rightarrow> 'm option"
  fx_len :: "'m \<Rightarrow> nat"
  fx_search :: "'m \<Rightarrow> nat option automaton \<Rightarrow> (u8s \<times> 64 word) list may_panic"
  fx_range :: "'m \<Rightarrow> key_bound \<Rightarrow> key_bound \<Rightarrow> (u8s \<times> 64 word) list"

text \<open>
  The documented behaviour of the crate: keys inserted in strictly ascending order build a map, a
  search returns the entries the automaton accepts in key order provided that the automaton does
  not panic on a stored key, and a range the entries between its bounds.
\<close>

definition fst_map_ok :: "'m fst_lib \<Rightarrow> 'm \<Rightarrow> (u8s \<times> 64 word) list \<Rightarrow> bool" where
  "fst_map_ok X mp es \<longleftrightarrow>
     fx_len X mp = length es
     \<and> (\<forall>A. (\<forall>e \<in> set es. run_automaton A (am_start A) (fst e) \<noteq> Panic) \<longrightarrow>
           fx_search X mp A = Ret (filter (\<lambda>e. run_automaton A (am_start A) (fst e) = Ret True) es))
     \<and> (\<forall>lo hi. fx_range X mp lo hi = filter (\<lambda>e. above lo (fst e) \<and> below hi (fst e)) es)"

definition fst_ok :: "'m fst_lib \<Rightarrow> bool" where
  "fst_ok X \<longleftrightarrow> (\<forall>es. sorted_wrt (<) (map fst es) \<longrightarrow> (\<exists>mp. fx_build X es = Some mp \<and> fst_map_ok X mp es))"

definition index_get :: "'m fst_lib \<Rightarrow> 'm \<Rightarrow> u8s \<Rightarrow> 64 word option may_panic" where
  "index_get X mp key =
     outcome_bind (fx_search X mp (exact_match key)) (\<lambda>es. Ret (case es of [] \<Rightarrow> None | e # _ \<Rightarrow> Some (snd e)))"

lemma run_exact_match_at:
  assumes "i \<le> length key" and "\<not> (\<exists>b t. k = drop i key @ b # t)"
  shows "run_automaton (exact_match key) (Some i) k = Ret (k = drop i key)"
  using assms
proof (induction k arbitrary: i)
  case Nil
  then show ?case by (auto simp: exact_match_def)
next
  case (Cons b bs)
  have i: "i < length key" using Cons.prems by (cases "i = length key") auto
  have d: "drop i key = key ! i # drop (Suc i) key" using i by (simp add: Cons_nth_drop_Suc)
  have dead: "run_automaton (exact_match key) None bs = Ret False"
    by (cases bs) (simp_all add: exact_match_def)
  show ?case
  proof (cases "key ! i = b")
    case True
    have "\<not> (\<exists>c t. bs = drop (Suc i) key @ c # t)" using Cons.prems(2) True d by auto
    with Cons.IH [of "Suc i"] i True d show ?thesis by (simp add: exact_match_def)
  next
    case False
    with dead i d show ?thesis by (simp add: exact_match_def)
  qed
qed

text \<open>On a longer key that starts with the queried one the automaton reads past its end and panics.\<close>

lemma run_exact_match_prefix:
  "run_automaton (exact_match key) (am_start (exact_match key)) (key @ b # t) = Panic"
proof -
  have "run_automaton (exact_match key) (Some i) (drop i key @ b # t) = Panic" if "i \<le> length key" for i
    using that
  proof (induction "length key - i" arbitrary: i)
    case 0
    then show ?case by (simp add: exact_match_def)
  next
    case (Suc n)
    then have i: "i < length key" by linarith
    then have "drop i key = key ! i # drop (Suc i) key" by (simp add: Cons_nth_drop_Suc)
    with Suc.hyps(1) [of "Suc i"] Suc.hyps(2) i show ?case by (simp add: exact_match_def)
  qed
  from this [of 0] show ?thesis by (simp add: exact_match_def)
qed

section \<open>Segments\<close>

record 'm kv_env =
  ke_fst :: "'m fst_lib"
  ke_xxh :: "u8s \<Rightarrow> 128 word"
  ke_bloom_size :: "nat \<Rightarrow> nat \<times> nat"

record 'm segment =
  sg_index :: 'm
  sg_blob_index :: u8s
  sg_store :: u8s
  sg_bloom :: bytes_bloom
  sg_uuid :: nat

record segment_writer =
  sgw_ids :: "(u8s \<times> 64 word) list"
  sgw_blob_index :: lookup_writer
  sgw_store :: blob_writer
  sgw_bloom :: bytes_bloom

definition segment_writer_new :: "'m kv_env \<Rightarrow> nat \<Rightarrow> segment_writer" where
  "segment_writer_new E num_items =
     \<lparr> sgw_ids = [], sgw_blob_index = lookup_writer_new, sgw_store = \<lparr> sw_bytes = [], sw_offset = 0 \<rparr>,
       sgw_bloom = bytes_bloom_new (fst (ke_bloom_size E num_items)) (snd (ke_bloom_size E num_items)) \<rparr>"

definition segment_insert :: "'m kv_env \<Rightarrow> kv \<Rightarrow> segment_writer \<Rightarrow> segment_writer may_panic" where
  "segment_insert E e w =
     (case blob_write (fst e) (snd e) (sgw_store w) of (ptr, store) \<Rightarrow>
      case lookup_write as_bytes ptr (sgw_blob_index w) of (i, index) \<Rightarrow>
        outcome_bind (insert_raw (ke_xxh E) (fst e) (sgw_bloom w)) (\<lambda>bloom.
        Ret \<lparr> sgw_ids = sgw_ids w @ [(fst e, word_of_nat i)], sgw_blob_index = index, sgw_store = store, sgw_bloom = bloom \<rparr>))"

fun segment_insert_all :: "'m kv_env \<Rightarrow> kv list \<Rightarrow> segment_writer \<Rightarrow> segment_writer may_panic" where
  "segment_insert_all E [] w = Ret w"
| "segment_insert_all E (e # es) w = outcome_bind (segment_insert E e w) (segment_insert_all E es)"

text \<open>\<open>write_sorted_it\<close>, \<open>finish\<close> and opening the result; \<open>Ret None\<close> is an error of the transducer builder.\<close>

definition write_sorted_it :: "'m kv_env \<Rightarrow> nat \<Rightarrow> nat \<Rightarrow> kv list \<Rightarrow> 'm segment option may_panic" where
  "write_sorted_it E num_items uuid es =
     outcome_bind (segment_insert_all E es (segment_writer_new E num_items)) (\<lambda>w.
     Ret (map_option (\<lambda>mp. \<lparr> sg_index = mp, sg_blob_index = lw_bytes (sgw_blob_index w),
         sg_store = sw_bytes (sgw_store w), sg_bloom = sgw_bloom w, sg_uuid = uuid \<rparr>)
       (fx_build (ke_fst E) (sgw_ids w))))"

definition segment_len :: "'m kv_env \<Rightarrow> 'm segment \<Rightarrow> nat" where
  "segment_len E sg = fx_len (ke_fst E) (sg_index sg)"

definition segment_get_raw :: "'m kv_env \<Rightarrow> 'm segment \<Rightarrow> u8s \<Rightarrow> u8s option may_panic" where
  "segment_get_raw E sg key =
     outcome_bind (contains_raw (ke_xxh E) (sg_bloom sg) key) (\<lambda>maybe.
     if \<not> maybe then Ret None
     else
       outcome_bind (index_get (ke_fst E) (sg_index sg) key) (\<lambda>found.
       case found of
         None \<Rightarrow> Ret None
       | Some i \<Rightarrow>
           outcome_bind (lookup_get 32 from_bytes (sg_blob_index sg) (unat i)) (\<lambda>ptr.
           outcome_bind (blob_get (sg_store sg) ptr) (\<lambda>blob. Ret (Some (snd blob))))))"

fun outcome_map :: "('a \<Rightarrow> 'b may_panic) \<Rightarrow> 'a list \<Rightarrow> 'b list may_panic" where
  "outcome_map f [] = Ret []"
| "outcome_map f (x # xs) = outcome_bind (f x) (\<lambda>y. outcome_bind (outcome_map f xs) (\<lambda>ys. Ret (y # ys)))"

definition segment_iter_with_offset :: "'m segment \<Rightarrow> nat \<Rightarrow> kv list may_panic option" where
  "segment_iter_with_offset sg offset =
     Option.bind (lookup_collect 32 from_bytes (sg_blob_index sg) offset) (\<lambda>out.
     Some (outcome_bind out (\<lambda>ps. outcome_map (\<lambda>p. blob_get (sg_store sg) (snd p)) ps)))"

definition segment_iter_raw :: "'m segment \<Rightarrow> kv list may_panic option" where
  "segment_iter_raw sg = segment_iter_with_offset sg 0"

definition segment_range_raw :: "'m kv_env \<Rightarrow> 'm segment \<Rightarrow> key_bound \<Rightarrow> key_bound \<Rightarrow> kv list may_panic" where
  "segment_range_raw E sg lo hi =
     outcome_map (\<lambda>e. outcome_bind (lookup_get 32 from_bytes (sg_blob_index sg) (unat (snd e)))
       (\<lambda>ptr. blob_get (sg_store sg) ptr)) (fx_range (ke_fst E) (sg_index sg) lo hi)"

section \<open>What a written segment holds\<close>

definition weight :: "kv list \<Rightarrow> nat" where
  "weight es = (\<Sum>e \<leftarrow> es. length (fst e) + length (snd e))"

definition blobs :: "kv list \<Rightarrow> u8s" where
  "blobs es = concat (map (\<lambda>e. fst e @ snd e) es)"

definition pointer_at :: "kv list \<Rightarrow> nat \<Rightarrow> blob_pointer" where
  "pointer_at es i =
     (let o1 = weight (take i es); o2 = o1 + length (fst (es ! i)); o3 = o2 + length (snd (es ! i)) in
      \<lparr> bp_key = (word_of_nat o1, word_of_nat o2), bp_value = (word_of_nat o2, word_of_nat o3) \<rparr>)"

lemma length_blobs: "length (blobs es) = weight es"
  by (induction es) (auto simp: blobs_def weight_def)

lemma weight_simps [simp]: "weight [] = 0" "weight (e # es) = length (fst e) + length (snd e) + weight es"
  "weight (es @ fs) = weight es + weight fs"
  by (simp_all add: weight_def)

lemma blobs_simps [simp]: "blobs [] = []" "blobs (e # es) = fst e @ snd e @ blobs es" "blobs (es @ fs) = blobs es @ blobs fs"
  by (simp_all add: blobs_def)

lemma pointer_at_append:
  "i < length es \<Longrightarrow> pointer_at (es @ fs) i = pointer_at es i"
  "pointer_at (es @ [e]) (length es) = \<lparr> bp_key = (word_of_nat (weight es), word_of_nat (weight es + length (fst e))),
     bp_value = (word_of_nat (weight es + length (fst e)), word_of_nat (weight es + length (fst e) + length (snd e))) \<rparr>"
  by (simp_all add: pointer_at_def nth_append Let_def)

text \<open>The state of the writer after some entries.\<close>

definition written :: "kv list \<Rightarrow> segment_writer \<Rightarrow> bool" where
  "written es w \<longleftrightarrow>
     sgw_ids w = map (\<lambda>i. (fst (es ! i), word_of_nat i)) [0..<length es]
     \<and> sgw_blob_index w = \<lparr> lw_next_id = length es, lw_bytes = concat (map as_bytes (map (pointer_at es) [0..<length es])) \<rparr>
     \<and> sgw_store w = \<lparr> sw_bytes = blobs es, sw_offset = word_of_nat (weight es) \<rparr>"

lemma segment_insert_written:
  assumes "written es w" and "insert_raw (ke_xxh E) (fst e) (sgw_bloom w) = Ret bloom"
  shows "\<exists>w'. segment_insert E e w = Ret w' \<and> written (es @ [e]) w' \<and> sgw_bloom w' = bloom"
proof -
  have "concat (map (as_bytes \<circ> pointer_at (es @ [e])) [0..<length es]) = concat (map (as_bytes \<circ> pointer_at es) [0..<length es])"
    by (intro arg_cong [where f = concat] map_cong) (simp_all add: pointer_at_append)
  moreover have "map (\<lambda>i. (fst ((es @ [e]) ! i), word_of_nat i)) [0..<length es] = map (\<lambda>i. (fst (es ! i), word_of_nat i)) [0..<length es]"
    by (simp add: nth_append)
  ultimately show ?thesis
    using assms unfolding written_def segment_insert_def blob_write_def lookup_write_def
    by (simp add: Let_def pointer_at_append(2) add.assoc)
qed

lemma segment_insert_all_written:
  assumes "written es w" and "insert_all_raw (ke_xxh E) (map fst fs) (sgw_bloom w) = Ret bloom"
  shows "\<exists>w'. segment_insert_all E fs w = Ret w' \<and> written (es @ fs) w' \<and> sgw_bloom w' = bloom"
  using assms
proof (induction fs arbitrary: es w)
  case (Cons e fs)
  then obtain b1 where b1: "insert_raw (ke_xxh E) (fst e) (sgw_bloom w) = Ret b1" "insert_all_raw (ke_xxh E) (map fst fs) b1 = Ret bloom"
    by (cases "insert_raw (ke_xxh E) (fst e) (sgw_bloom w)") auto
  from segment_insert_written [OF Cons.prems(1) b1(1)] obtain w1 where
    w1: "segment_insert E e w = Ret w1" "written (es @ [e]) w1" "sgw_bloom w1 = b1" by blast
  from Cons.IH [OF w1(2)] b1(2) w1 show ?case by simp
qed auto

text \<open>A segment that holds exactly some entries, in ascending order of their keys.\<close>

definition holds :: "'m kv_env \<Rightarrow> 'm segment \<Rightarrow> kv list \<Rightarrow> bool" where
  "holds E sg es \<longleftrightarrow>
     sorted_wrt (<) (map fst es) \<and> weight es < 2 ^ 63 \<and> length es < 2 ^ 63
     \<and> sg_store sg = blobs es
     \<and> sg_blob_index sg = concat (map as_bytes (map (pointer_at es) [0..<length es]))
     \<and> bb_bits (sg_bloom sg) \<noteq> []
     \<and> (\<forall>e \<in> set es. contains_raw (ke_xxh E) (sg_bloom sg) (fst e) = Ret True)
     \<and> fx_build (ke_fst E) (map (\<lambda>i. (fst (es ! i), word_of_nat i)) [0..<length es]) = Some (sg_index sg)"

definition kv_env_ok :: "'m kv_env \<Rightarrow> bool" where
  "kv_env_ok E \<longleftrightarrow> fst_ok (ke_fst E) \<and> (\<forall>n > 0. fst (ke_bloom_size E n) > 0)"

lemma kv_env_fst: "kv_env_ok E \<Longrightarrow> fst_ok (ke_fst E)"
  by (simp add: kv_env_ok_def)

lemma map_fst_ids: "map fst (map (\<lambda>i. (fst (es ! i), word_of_nat i)) [0..<length es]) = map fst es"
  by (rule nth_equalityI) simp_all

lemma write_sorted_holds:
  assumes "kv_env_ok E" and "sorted_wrt (<) (map fst es)" and "weight es < 2 ^ 63" and "length es < 2 ^ 63" and "0 < n"
  shows "\<exists>sg. write_sorted_it E n uuid es = Ret (Some sg) \<and> holds E sg es \<and> sg_uuid sg = uuid"
proof -
  have ne: "bb_bits (sgw_bloom (segment_writer_new E n)) \<noteq> []"
    using assms(1,5) by (simp add: segment_writer_new_def bytes_bloom_new_def kv_env_ok_def)
  from insert_all_raw_Ret [OF ne, of "ke_xxh E" "map fst es"] obtain bloom where b:
    "insert_all_raw (ke_xxh E) (map fst es) (sgw_bloom (segment_writer_new E n)) = Ret bloom"
    "length (bb_bits bloom) = length (bb_bits (sgw_bloom (segment_writer_new E n)))"
    "\<forall>x \<in> set (map fst es). contains_raw (ke_xxh E) bloom x = Ret True" by blast
  have "written [] (segment_writer_new E n)" by (simp add: written_def segment_writer_new_def lookup_writer_new_def)
  from segment_insert_all_written [OF this b(1)] obtain w where
    w: "segment_insert_all E es (segment_writer_new E n) = Ret w" "written es w" "sgw_bloom w = bloom" by auto
  let ?ids = "map (\<lambda>i. (fst (es ! i), word_of_nat i)) [0..<length es]"
  have sorted: "sorted_wrt (<) (map fst ?ids)" using assms(2) by (simp only: map_fst_ids)
  then obtain mp where mp: "fx_build (ke_fst E) ?ids = Some mp"
    using kv_env_fst [OF assms(1)] unfolding fst_ok_def by blast
  have "bb_bits bloom \<noteq> []" using b(2) ne by auto
  with w mp b(3) assms(2-4) show ?thesis
    by (simp add: write_sorted_it_def written_def holds_def)
qed

lemma holds_blob:
  assumes "holds E sg es" and "i < length es"
  shows "lookup_get 32 from_bytes (sg_blob_index sg) i = Ret (pointer_at es i)"
    and "blob_get (sg_store sg) (pointer_at es i) = Ret (es ! i)"
proof -
  show "lookup_get 32 from_bytes (sg_blob_index sg) i = Ret (pointer_at es i)"
    using assms pointer.get_item [of i "map (pointer_at es) [0..<length es]"] by (simp add: holds_def)
  define a where "a = weight (take i es)"
  define k where "k = fst (es ! i)"
  define v where "v = snd (es ! i)"
  have es: "es = take i es @ es ! i # drop (Suc i) es" by (rule id_take_nth_drop [OF assms(2)])
  have w: "weight es = a + length k + length v + weight (drop (Suc i) es)"
    by (subst es) (simp add: a_def k_def v_def)
  then have small: "a + length k + length v < 2 ^ 63" using assms(1) by (simp add: holds_def)
  have u: "unat (word_of_nat n :: 64 word) = n" if "n \<le> a + length k + length v" for n
    using that small by (simp add: unat_of_nat)
  have len: "length (blobs es) = a + length k + length v + weight (drop (Suc i) es)" using w by (simp add: length_blobs)
  have b: "blobs es = blobs (take i es) @ k @ v @ blobs (drop (Suc i) es)"
    by (subst es) (simp add: k_def v_def)
  have la: "length (blobs (take i es)) = a" by (simp add: length_blobs a_def)
  have u1: "unat (word_of_nat a :: 64 word) = a" "unat (word_of_nat (a + length k) :: 64 word) = a + length k"
      "unat (word_of_nat (a + length k + length v) :: 64 word) = a + length k + length v"
    by (rule u, simp)+
  have "get_bytes (blobs es) (word_of_nat a, word_of_nat (a + length k)) = Ret k"
      "get_bytes (blobs es) (word_of_nat (a + length k), word_of_nat (a + length k + length v)) = Ret v"
    unfolding get_bytes_def fst_conv snd_conv u1 using len by (simp_all add: slice_def b la)
  then show "blob_get (sg_store sg) (pointer_at es i) = Ret (es ! i)"
    using assms(1) by (simp only: blob_get_def pointer_at_def Let_def a_def [symmetric] k_def [symmetric] v_def [symmetric]
        blob_pointer.simps holds_def outcome_bind.simps) (simp add: k_def v_def)
qed

text \<open>No stored key properly extends the queried one.\<close>

definition no_extension :: "kv list \<Rightarrow> u8s \<Rightarrow> bool" where
  "no_extension es key \<longleftrightarrow> \<not> (\<exists>e \<in> set es. \<exists>b t. fst e = key @ b # t)"

abbreviation ids_of :: "kv list \<Rightarrow> (u8s \<times> 64 word) list" where
  "ids_of es \<equiv> map (\<lambda>i. (fst (es ! i), word_of_nat i)) [0..<length es]"

lemma holds_index:
  assumes "kv_env_ok E" and "holds E sg es"
  shows "segment_len E sg = length es"
    and "no_extension es key \<Longrightarrow> fx_search (ke_fst E) (sg_index sg) (exact_match key)
      = Ret (filter (\<lambda>e. fst e = key) (ids_of es))"
    and "fx_range (ke_fst E) (sg_index sg) lo hi = filter (\<lambda>e. above lo (fst e) \<and> below hi (fst e)) (ids_of es)"
proof -
  have sorted: "sorted_wrt (<) (map fst (ids_of es))" using assms(2) by (simp only: map_fst_ids holds_def)
  then obtain mp where mp: "fx_build (ke_fst E) (ids_of es) = Some mp" "fst_map_ok (ke_fst E) mp (ids_of es)"
    using kv_env_fst [OF assms(1)] unfolding fst_ok_def by blast
  have sg: "sg_index sg = mp" using mp(1) assms(2) by (simp add: holds_def)
  show "segment_len E sg = length es" using mp(2) by (simp add: segment_len_def sg fst_map_ok_def)
  show "fx_range (ke_fst E) (sg_index sg) lo hi = filter (\<lambda>e. above lo (fst e) \<and> below hi (fst e)) (ids_of es)"
    using mp(2) by (simp add: sg fst_map_ok_def)
  assume ext: "no_extension es key"
  have run: "run_automaton (exact_match key) (am_start (exact_match key)) (fst e) = Ret (fst e = key)" if "e \<in> set (ids_of es)" for e
  proof -
    have "\<not> (\<exists>b t. fst e = drop 0 key @ b # t)" using ext that unfolding no_extension_def by auto
    from run_exact_match_at [OF _ this] show ?thesis by (simp add: exact_match_def)
  qed
  then have "filter (\<lambda>e. run_automaton (exact_match key) (am_start (exact_match key)) (fst e) = Ret True) (ids_of es)
      = filter (\<lambda>e. fst e = key) (ids_of es)"
    by (intro filter_cong) auto
  moreover have "\<forall>e \<in> set (ids_of es). run_automaton (exact_match key) (am_start (exact_match key)) (fst e) \<noteq> Panic"
    using run by auto
  ultimately show "fx_search (ke_fst E) (sg_index sg) (exact_match key) = Ret (filter (\<lambda>e. fst e = key) (ids_of es))"
    using mp(2) [unfolded fst_map_ok_def, THEN conjunct2, THEN conjunct1, THEN spec, of "exact_match key"]
    unfolding sg by argo
qed

lemma filter_upt_eq: "i < n \<Longrightarrow> filter (\<lambda>j. j = i) [0..<n] = [i]"
  by (induction n) (auto simp: less_Suc_eq)

lemma ids_filter:
  assumes "sorted_wrt (<) (map fst es)" and "i < length es"
  shows "filter (\<lambda>e. fst e = fst (es ! i)) (ids_of es) = [(fst (es ! i), word_of_nat i)]"
proof -
  have d: "distinct (map fst es)" using assms(1) by (simp add: strict_sorted_iff)
  have "filter (\<lambda>j. fst (es ! j) = fst (es ! i)) [0..<length es] = filter (\<lambda>j. j = i) [0..<length es]"
    using d assms(2) by (intro filter_cong) (auto simp: nth_eq_iff_index_eq [OF d, simplified] distinct_conv_nth)
  also have "\<dots> = [i]" using assms(2) by (rule filter_upt_eq)
  finally show ?thesis by (simp add: filter_map o_def)
qed

lemma index_get_holds:
  assumes "kv_env_ok E" and "holds E sg es" and "no_extension es key"
  shows "i < length es \<Longrightarrow> fst (es ! i) = key \<Longrightarrow> index_get (ke_fst E) (sg_index sg) key = Ret (Some (word_of_nat i))"
    and "key \<notin> fst ` set es \<Longrightarrow> index_get (ke_fst E) (sg_index sg) key = Ret None"
proof -
  have sorted: "sorted_wrt (<) (map fst es)" using assms(2) by (simp add: holds_def)
  show "index_get (ke_fst E) (sg_index sg) key = Ret (Some (word_of_nat i))" if "i < length es" "fst (es ! i) = key"
    using ids_filter [OF sorted that(1)] holds_index(2) [OF assms] that(2) by (simp add: index_get_def)
  show "index_get (ke_fst E) (sg_index sg) key = Ret None" if "key \<notin> fst ` set es"
  proof -
    have "filter (\<lambda>e. fst e = key) (ids_of es) = []"
      using that by (auto simp: filter_empty_conv)
    then show ?thesis using holds_index(2) [OF assms] by (simp add: index_get_def)
  qed
qed

lemma segment_get_holds:
  assumes "kv_env_ok E" and "holds E sg es" and "no_extension es key"
  shows "segment_get_raw E sg key = Ret (map_of es key)"
proof -
  have d: "distinct (map fst es)" using assms(2) by (simp add: holds_def strict_sorted_iff)
  obtain b where b: "contains_raw (ke_xxh E) (sg_bloom sg) key = Ret b"
    using contains_raw_total assms(2) unfolding holds_def by blast
  show ?thesis
  proof (cases "key \<in> fst ` set es")
    case True
    then obtain i where i: "i < length es" "fst (es ! i) = key" by (auto simp: in_set_conv_nth)
    have "contains_raw (ke_xxh E) (sg_bloom sg) key = Ret True" using assms(2) i nth_mem [OF i(1)] by (auto simp: holds_def)
    moreover have "unat (word_of_nat i :: 64 word) = i" using i(1) assms(2) by (simp add: holds_def unat_of_nat)
    moreover have "map_of es key = Some (snd (es ! i))" using d i map_of_is_SomeI [OF d] by (metis nth_mem prod.collapse)
    ultimately show ?thesis
      using holds_blob [OF assms(2) i(1)] index_get_holds(1) [OF assms i] by (simp add: segment_get_raw_def)
  next
    case False
    then have none: "map_of es key = None" by (simp add: map_of_eq_None_iff)
    with False b index_get_holds(2) [OF assms] show ?thesis by (simp add: segment_get_raw_def)
  qed
qed

lemma outcome_map_Ret: "(\<And>x. x \<in> set xs \<Longrightarrow> f x = Ret (g x)) \<Longrightarrow> outcome_map f xs = Ret (map g xs)"
  by (induction xs) auto

lemma segment_iter_holds:
  assumes "holds E sg es"
  shows "segment_iter_with_offset sg k = Some (Ret (drop k es))"
proof -
  let ?ps = "map (pointer_at es) [0..<length es]"
  have idx: "sg_blob_index sg = concat (map as_bytes ?ps)" using assms by (simp add: holds_def)
  have c: "lookup_collect 32 from_bytes (sg_blob_index sg) k = Some (Ret (zip [k..<length es] (drop k ?ps)))"
    unfolding idx using pointer.collect_items [of ?ps k] by simp
  have z: "zip [k..<length es] (drop k ?ps) = map (\<lambda>i. (i, pointer_at es i)) [k..<length es]"
    by (rule nth_equalityI) (simp_all add: drop_map)
  have "outcome_map (\<lambda>p. blob_get (sg_store sg) (snd p)) (map (\<lambda>i. (i, pointer_at es i)) [k..<length es])
      = Ret (map (\<lambda>p. es ! fst p) (map (\<lambda>i. (i, pointer_at es i)) [k..<length es]))"
    using holds_blob(2) [OF assms] by (intro outcome_map_Ret) auto
  moreover have "map (\<lambda>p. es ! fst p) (map (\<lambda>i. (i, pointer_at es i)) [k..<length es]) = drop k es"
    by (rule nth_equalityI) simp_all
  ultimately show ?thesis by (simp add: segment_iter_with_offset_def c z)
qed

lemma segment_range_holds:
  assumes "kv_env_ok E" and "holds E sg es"
  shows "segment_range_raw E sg lo hi = Ret (filter (\<lambda>e. above lo (fst e) \<and> below hi (fst e)) es)"
proof -
  let ?is = "filter (\<lambda>i. above lo (fst (es ! i)) \<and> below hi (fst (es ! i))) [0..<length es]"
  have r: "fx_range (ke_fst E) (sg_index sg) lo hi = map (\<lambda>i. (fst (es ! i), word_of_nat i)) ?is"
    using holds_index(3) [OF assms] by (simp add: filter_map o_def)
  have u: "unat (word_of_nat i :: 64 word) = i" if "i < length es" for i
    using that assms(2) by (simp add: holds_def unat_of_nat)
  have "segment_range_raw E sg lo hi = Ret (map (\<lambda>e. es ! unat (snd e)) (map (\<lambda>i. (fst (es ! i), word_of_nat i :: 64 word)) ?is))"
    unfolding segment_range_raw_def r
    using holds_blob [OF assms(2)] by (intro outcome_map_Ret) (auto simp: u)
  moreover have "map (\<lambda>e. es ! unat (snd e)) (map (\<lambda>i. (fst (es ! i), word_of_nat i :: 64 word)) ?is) = map ((!) es) ?is"
    by (auto simp: u)
  moreover have "map ((!) es) ?is = filter (\<lambda>e. above lo (fst e) \<and> below hi (fst e)) es"
    by (subst (5) map_nth [symmetric]) (simp add: filter_map o_def del: map_nth)
  ultimately show ?thesis by simp
qed

end
