(* ===== verification/Kv_Merge.thy ===== *)
theory Kv_Merge
  imports Kv_Segment
begin

text \<open>
  \<open>SortedSegments\<close> of \<open>segment.rs\<close>: the merge of the entry iterators of several segments. The queues
  stand for the peekable iterators, in segment order; the heap's greatest element is the queue
  with the least head key and, among equal keys, the newest segment.
\<close>

section \<open>The heap order\<close>

text \<open>\<open>SortedPeekable::cmp\<close>: does the queue \<open>(i, p)\<close> come after \<open>(j, q)\<close> in the heap order?\<close>

definition heap_greater :: "nat \<times> kv list \<Rightarrow> nat \<times> kv list \<Rightarrow> bool" where
  "heap_greater a b =
     (case (snd a, snd b) of
        (x # _, y # _) \<Rightarrow> fst x < fst y \<or> (fst x = fst y \<and> fst a > fst b)
      | (_ # _, []) \<Rightarrow> True
      | _ \<Rightarrow> False)"

text \<open>The greatest element of a nonempty heap.\<close>

fun heap_top :: "(nat \<times> kv list) list \<Rightarrow> (nat \<times> kv list) option" where
  "heap_top [] = None"
| "heap_top (a # as) =
     (case heap_top as of None \<Rightarrow> Some a | Some b \<Rightarrow> Some (if heap_greater b a then b else a))"

definition top_queue :: "kv list list \<Rightarrow> (nat \<times> kv list) option" where
  "top_queue qs = heap_top (zip [0..<length qs] qs)"

definition dominates :: "nat \<times> kv list \<Rightarrow> nat \<times> kv list \<Rightarrow> bool" where
  "dominates a b \<longleftrightarrow>
     (case snd b of
        [] \<Rightarrow> True
      | y # _ \<Rightarrow> (case snd a of [] \<Rightarrow> False | x # _ \<Rightarrow> fst x < fst y \<or> (fst x = fst y \<and> fst b \<le> fst a)))"

lemma dominates_greater:
  "heap_greater b a \<Longrightarrow> dominates b a" "\<not> heap_greater b a \<Longrightarrow> dominates a b"
  by (auto simp: heap_greater_def dominates_def split: list.splits)

lemma dominates_trans: "dominates a b \<Longrightarrow> dominates b c \<Longrightarrow> dominates a c"
  by (auto simp: dominates_def split: list.splits)

lemma heap_top_max:
  assumes "heap_top as = Some a"
  shows "a \<in> set as \<and> (\<forall>b \<in> set as. dominates a b)"
  using assms
proof (induction as arbitrary: a)
  case (Cons c as)
  have refl: "dominates x x" for x by (auto simp: dominates_def split: list.splits)
  show ?case
  proof (cases "heap_top as")
    case None
    then have "as = []" by (cases as) (auto split: option.splits)
    with Cons.prems refl show ?thesis by simp
  next
    case (Some b)
    note IH = Cons.IH [OF Some]
    show ?thesis
    proof (cases "heap_greater b c")
      case True
      with Cons.prems Some have "a = b" by simp
      with IH dominates_greater(1) [OF True] show ?thesis by auto
    next
      case False
      with Cons.prems Some have "a = c" by simp
      with IH dominates_greater(2) [OF False] refl show ?thesis by (auto intro: dominates_trans)
    qed
  qed
qed simp

lemma heap_top_None: "heap_top as = None \<longleftrightarrow> as = []"
  by (cases as) (auto split: option.splits)

lemma top_queue_index:
  assumes "top_queue qs = Some (i, q)"
  shows "i < length qs" "qs ! i = q"
  using heap_top_max [OF assms [unfolded top_queue_def]] by (auto simp: in_set_zip)

lemma top_queue_dominates:
  assumes "top_queue qs = Some a" and "j < length qs"
  shows "dominates a (j, qs ! j)"
proof -
  have "(j, qs ! j) \<in> set (zip [0..<length qs] qs)" using assms(2) by (force simp: in_set_zip)
  with heap_top_max [OF assms(1) [unfolded top_queue_def]] show ?thesis by blast
qed

lemma top_queue_empty:
  assumes "\<nexists>i e rest. top_queue qs = Some (i, e # rest)"
  shows "\<forall>q \<in> set qs. q = []"
proof (cases "top_queue qs")
  case None
  then show ?thesis by (simp add: top_queue_def heap_top_None zip_eq_Nil_iff)
next
  case (Some a)
  then obtain i where a: "a = (i, [])" using assms by (cases a; cases "snd a") auto
  have "qs ! j = []" if "j < length qs" for j
    using top_queue_dominates [OF Some that] by (cases "qs ! j") (simp_all add: a dominates_def)
  then show ?thesis by (auto simp: in_set_conv_nth)
qed

lemma sum_lengths_update:
  assumes "i < length qs" and "qs ! i = e # rest"
  shows "sum_list (map length (qs[i := rest])) < sum_list (map length qs)"
proof -
  have "sum_list (map length (qs[i := rest])) = sum_list (map length qs) + length rest - length (qs ! i)"
    using assms(1) by (simp add: map_update sum_list_update)
  moreover have "length (qs ! i) \<le> sum_list (map length qs)"
    using assms(1) by (intro member_le_sum_list) auto
  ultimately show ?thesis using assms(2) by simp
qed

section \<open>The iterator\<close>

function advance_same :: "u8s \<Rightarrow> kv list list \<Rightarrow> kv list list" where
  "advance_same key qs =
     (case top_queue qs of
        Some (i, e # rest) \<Rightarrow> if fst e = key then advance_same key (qs[i := rest]) else qs
      | _ \<Rightarrow> qs)"
  by pat_completeness auto
termination
  by (relation "measure (\<lambda>(key, qs). sum_list (map length qs))")
    (auto intro!: sum_lengths_update dest: top_queue_index)

declare advance_same.simps [simp del]

definition sorted_next :: "kv list list \<Rightarrow> (kv \<times> kv list list) option" where
  "sorted_next qs =
     (case top_queue qs of
        Some (i, e # rest) \<Rightarrow> Some (e, advance_same (fst e) (qs[i := rest]))
      | _ \<Rightarrow> None)"

lemma advance_same_eq:
  assumes "\<forall>q \<in> set qs. sorted_wrt (<) (map fst q)" and "\<forall>q \<in> set qs. \<forall>e \<in> set q. key \<le> fst e"
  shows "advance_same key qs = map (filter (\<lambda>e. fst e \<noteq> key)) qs"
  using assms
proof (induction key qs rule: advance_same.induct)
  case (1 key qs)
  show ?case
  proof (cases "\<exists>i e rest. top_queue qs = Some (i, e # rest) \<and> fst e = key")
    case True
    then obtain i e rest where top: "top_queue qs = Some (i, e # rest)" "fst e = key" by blast
    note i = top_queue_index [OF top(1)]
    have mem: "e # rest \<in> set qs" using i by (metis nth_mem)
    then have "sorted_wrt (<) (map fst (e # rest))" using 1(2) by blast
    then have rest: "sorted_wrt (<) (map fst rest)" "\<forall>f \<in> set rest. key < fst f" using top(2) by auto
    have sub: "q \<in> set (qs[i := rest]) \<Longrightarrow> q \<in> set qs \<or> q = rest" for q
      using set_update_subset_insert [of qs i rest] by auto
    have "\<forall>q \<in> set (qs[i := rest]). sorted_wrt (<) (map fst q)" using sub rest(1) 1(2) by blast
    moreover have "\<forall>q \<in> set (qs[i := rest]). \<forall>e \<in> set q. key \<le> fst e" 
    proof (intro ballI)
      fix q f
      assume "q \<in> set (qs[i := rest])" "f \<in> set q"
      with sub [of q] rest(2) 1(3) show "key \<le> fst f" by (auto intro: less_imp_le)
    qed
    ultimately have IH: "advance_same key (qs[i := rest]) = map (filter (\<lambda>e. fst e \<noteq> key)) (qs[i := rest])"
      by (rule 1(1) [OF top(1) refl refl top(2)])
    have "filter (\<lambda>e. fst e \<noteq> key) (qs ! i) = filter (\<lambda>e. fst e \<noteq> key) rest" using i top(2) by simp
    then have "map (filter (\<lambda>e. fst e \<noteq> key)) (qs[i := rest]) = map (filter (\<lambda>e. fst e \<noteq> key)) qs"
      using i(1) by (intro nth_equalityI) (auto simp: nth_list_update)
    with IH top show ?thesis by (subst advance_same.simps) simp
  next
    case False
    then have stop: "advance_same key qs = qs"
      by (subst advance_same.simps) (auto split: option.splits list.splits)
    have none: "fst f \<noteq> key" if qf: "q \<in> set qs" "f \<in> set q" for q f
    proof
      assume key: "fst f = key"
      obtain j where j: "j < length qs" "qs ! j = q" using qf(1) unfolding in_set_conv_nth by blast
      obtain h t where q: "q = h # t" using qf(2) by (cases q) auto
      have "sorted_wrt (<) (map fst (h # t))" using 1(2) qf(1) q by blast
      then have "fst h \<le> fst f" using qf(2) q by (auto intro: less_imp_le)
      moreover have "key \<le> fst h" using 1(3) qf(1) q by simp
      ultimately have hk: "fst h = key" using key by simp
      obtain i e rest where top: "top_queue qs = Some (i, e # rest)"
        using top_queue_empty [of qs] qf by (metis empty_iff list.set(1))
      have "fst e \<le> key" using top_queue_dominates [OF top j(1)] j(2) q hk by (auto simp: dominates_def)
      moreover have "key \<le> fst e" using 1(3) top_queue_index [OF top] by (metis list.set_intros(1) nth_mem)
      ultimately show False using False top by auto
    qed
    have "filter (\<lambda>e. fst e \<noteq> key) q = q" if "q \<in> set qs" for q
      using none [OF that] by simp
    with stop show ?thesis by (simp add: map_idI)
  qed
qed

section \<open>What the merge returns\<close>

text \<open>The map of several segments: the newest segment that has a key decides its value.\<close>

definition merged :: "kv list list \<Rightarrow> u8s \<Rightarrow> u8s option" where
  "merged qs = foldl (\<lambda>m q. m ++ map_of q) Map.empty qs"

lemma merged_snoc [simp]: "merged (qs @ [q]) = merged qs ++ map_of q" "merged [] = Map.empty"
  by (simp_all add: merged_def)

lemma merged_filter: "merged (map (filter (\<lambda>e. fst e \<noteq> key)) qs) = (merged qs)(key := None)"
proof (induction qs rule: rev_induct)
  case (snoc q qs)
  have "map_of (filter (\<lambda>e. fst e \<noteq> key) q) = (map_of q)(key := None)"
    by (induction q) (auto simp: fun_eq_iff)
  with snoc show ?case by (auto simp: fun_eq_iff map_add_def split: option.splits)
qed simp

lemma merged_newest:
  assumes "i < length qs" and "map_of (qs ! i) key = Some v" and "\<forall>j < length qs. j > i \<longrightarrow> map_of (qs ! j) key = None"
  shows "merged qs key = Some v"
  using assms
proof (induction qs rule: rev_induct)
  case (snoc q qs)
  show ?case
  proof (cases "i = length qs")
    case True
    with snoc.prems show ?thesis by simp
  next
    case False
    with snoc.prems(1) have i: "i < length qs" by simp
    have "map_of q key = None" using snoc.prems(3) i by (metis length_append_singleton lessI nth_append_length)
    moreover have "\<forall>j < length qs. j > i \<longrightarrow> map_of (qs ! j) key = None"
      using snoc.prems(3) by (metis length_append_singleton less_SucI nth_append)
    ultimately show ?thesis using snoc.IH [OF i] snoc.prems(2) i by (simp add: nth_append map_add_def)
  qed
qed simp

lemma merged_Some: "merged qs key = Some v \<Longrightarrow> \<exists>q \<in> set qs. (key, v) \<in> set q"
  by (induction qs rule: rev_induct) (auto simp: map_add_Some_iff dest: map_of_SomeD)

lemma merged_None: "merged qs key = None \<longleftrightarrow> (\<forall>q \<in> set qs. key \<notin> fst ` set q)"
  by (induction qs rule: rev_induct) (auto simp: map_add_None map_of_eq_None_iff)

definition queues_ok :: "kv list list \<Rightarrow> bool" where
  "queues_ok qs \<longleftrightarrow> (\<forall>q \<in> set qs. sorted_wrt (<) (map fst q))"

lemma sorted_next_Some:
  assumes "queues_ok qs" and "sorted_next qs = Some ((k, v), qs')"
  shows "queues_ok qs'" and "merged qs k = Some v" and "merged qs' = (merged qs)(k := None)"
    and "\<forall>q \<in> set qs'. \<forall>e \<in> set q. k < fst e" and "sum_list (map length qs') < sum_list (map length qs)"
    and "qs' = map (filter (\<lambda>e. fst e \<noteq> k)) qs"
proof -
  from assms(2) obtain i rest where top: "top_queue qs = Some (i, (k, v) # rest)" and qs': "qs' = advance_same k (qs[i := rest])"
    by (auto simp: sorted_next_def split: option.splits list.splits)
  note i = top_queue_index [OF top]
  have sorted: "sorted_wrt (<) (map fst q)" if "q \<in> set qs" for q using assms(1) that by (simp add: queues_ok_def)
  have least: "k \<le> fst f" if qf: "q \<in> set qs" "f \<in> set q" for q f
  proof -
    obtain j where j: "j < length qs" "qs ! j = q" using qf(1) unfolding in_set_conv_nth by blast
    obtain h t where q: "q = h # t" using qf(2) by (cases q) auto
    have "k \<le> fst h" using top_queue_dominates [OF top j(1)] j(2) q by (auto simp: dominates_def)
    moreover have "fst h \<le> fst f" using sorted [OF qf(1)] qf(2) q by (auto intro: less_imp_le)
    ultimately show ?thesis by simp
  qed
  have mem: "(k, v) # rest \<in> set qs" using i by (metis nth_mem)
  then have rest: "sorted_wrt (<) (map fst rest)" "\<forall>f \<in> set rest. k < fst f" using sorted by fastforce+
  have sub: "q \<in> set (qs[i := rest]) \<Longrightarrow> q \<in> set qs \<or> q = rest" for q
    using set_update_subset_insert [of qs i rest] by auto
  have ok: "\<forall>q \<in> set (qs[i := rest]). sorted_wrt (<) (map fst q)" using sub rest(1) sorted by blast
  have le: "\<forall>q \<in> set (qs[i := rest]). \<forall>e \<in> set q. k \<le> fst e"
  proof (intro ballI)
    fix q f
    assume "q \<in> set (qs[i := rest])" "f \<in> set q"
    with sub [of q] rest(2) least [of q f] show "k \<le> fst f" by (auto intro: less_imp_le)
  qed
  have "filter (\<lambda>e. fst e \<noteq> k) (qs ! i) = filter (\<lambda>e. fst e \<noteq> k) rest" using i by simp
  then have upd: "map (filter (\<lambda>e. fst e \<noteq> k)) (qs[i := rest]) = map (filter (\<lambda>e. fst e \<noteq> k)) qs"
    using i(1) by (intro nth_equalityI) (auto simp: nth_list_update)
  show eq: "qs' = map (filter (\<lambda>e. fst e \<noteq> k)) qs"
    unfolding qs' using advance_same_eq [OF ok le] upd by simp
  show "merged qs' = (merged qs)(k := None)" unfolding eq by (rule merged_filter)
  show "queues_ok qs'" unfolding eq queues_ok_def using sorted by (auto simp: sorted_wrt_filter filter_map [symmetric] o_def sorted_wrt_map)
  show "\<forall>q \<in> set qs'. \<forall>e \<in> set q. k < fst e" unfolding eq using least by (fastforce simp: less_le)
  have "sum_list (map length (map (filter (\<lambda>e. fst e \<noteq> k)) (qs[i := rest]))) \<le> sum_list (map length (qs[i := rest]))"
    unfolding map_map o_def by (rule sum_list_mono) simp
  then show "sum_list (map length qs') < sum_list (map length qs)"
    using sum_lengths_update [OF i] upd eq by simp
  have newest: "map_of (qs ! j) k = None" if "j < length qs" "j > i" for j
  proof (cases "qs ! j")
    case (Cons h t)
    have "k < fst h" using top_queue_dominates [OF top that(1)] Cons that(2) by (auto simp: dominates_def)
    moreover have "sorted_wrt (<) (map fst (h # t))" using sorted [OF nth_mem [OF that(1)]] Cons by simp
    ultimately have "k \<notin> fst ` set (h # t)" by fastforce
    then show ?thesis by (simp add: Cons map_of_eq_None_iff)
  qed simp
  show "merged qs k = Some v" using i newest by (intro merged_newest [of i]) auto
qed

lemma sorted_next_None: "sorted_next qs = None \<Longrightarrow> \<forall>q \<in> set qs. q = []"
  using top_queue_empty [of qs] by (auto simp: sorted_next_def split: option.splits list.splits)

text \<open>Collecting the iterator.\<close>

partial_function (option) sorted_collect :: "kv list list \<Rightarrow> kv list option" where
  "sorted_collect qs =
     (case sorted_next qs of
        None \<Rightarrow> Some []
      | Some (e, qs') \<Rightarrow> Option.bind (sorted_collect qs') (\<lambda>es. Some (e # es)))"

lemma weight_filter: "weight (filter P q) \<le> weight q"
  by (induction q) auto

lemma weight_filter_mem:
  "(k, v) \<in> set q \<Longrightarrow> length k + length v + weight (filter (\<lambda>e. fst e \<noteq> k) q) \<le> weight q"
  using weight_filter [of "\<lambda>e. fst e \<noteq> k"] by (induction q) (auto simp: add.assoc intro: trans_le_add2 add_mono)

lemma weight_filter_sum:
  assumes "q \<in> set qs" and "(k, v) \<in> set q"
  shows "length k + length v + sum_list (map weight (map (filter (\<lambda>e. fst e \<noteq> k)) qs)) \<le> sum_list (map weight qs)"
proof -
  obtain as bs where qs: "qs = as @ q # bs" using assms(1) by (metis split_list)
  have le: "sum_list (map weight (map (filter (\<lambda>e. fst e \<noteq> k)) xs)) \<le> sum_list (map weight xs)" for xs
    unfolding map_map o_def by (rule sum_list_mono) (rule weight_filter)
  show ?thesis using le [of as] le [of bs] weight_filter_mem [OF assms(2)] unfolding qs by simp
qed

lemma sorted_collect_merged:
  assumes "queues_ok qs"
  shows "\<exists>es. sorted_collect qs = Some es \<and> sorted_wrt (<) (map fst es) \<and> map_of es = merged qs
    \<and> weight es \<le> sum_list (map weight qs) \<and> length es \<le> sum_list (map length qs)"
  using assms
proof (induction "sum_list (map length qs)" arbitrary: qs rule: less_induct)
  case less
  show ?case
  proof (cases "sorted_next qs")
    case None
    from sorted_next_None [OF None] have "merged qs = Map.empty" by (auto simp: fun_eq_iff merged_None)
    with None show ?thesis by (subst sorted_collect.simps) simp
  next
    case (Some r)
    then obtain k v qs' where r: "sorted_next qs = Some ((k, v), qs')" by (cases r) auto
    note n = sorted_next_Some [OF less.prems r]
    from less.hyps [OF n(5) n(1)] obtain es where es: "sorted_collect qs' = Some es" "sorted_wrt (<) (map fst es)" "map_of es = merged qs'"
        "weight es \<le> sum_list (map weight qs')" "length es \<le> sum_list (map length qs')" by blast
    have collect: "sorted_collect qs = Some ((k, v) # es)" by (subst sorted_collect.simps) (simp add: r es(1))
    have above: "k < fst e" if "e \<in> set es" for e
    proof -
      have "merged qs' (fst e) \<noteq> None" using that es(3) by (metis imageI map_of_eq_None_iff)
      then obtain q f where "q \<in> set qs'" "f \<in> set q" "fst f = fst e" by (auto simp: merged_None)
      then show ?thesis using n(4) by metis
    qed
    then have "sorted_wrt (<) (map fst ((k, v) # es))" using es(2) by auto
    moreover have "map_of ((k, v) # es) = merged qs" using es(3) n(2,3) by (auto simp: fun_eq_iff)
    moreover obtain q where q: "q \<in> set qs" "(k, v) \<in> set q" using merged_Some [OF n(2)] by blast
    then have "weight ((k, v) # es) \<le> sum_list (map weight qs)"
      using weight_filter_sum [OF q] es(4) n(6) by simp
    moreover have "length ((k, v) # es) \<le> sum_list (map length qs)" using es(5) n(5) by simp
    ultimately show ?thesis using collect by blast
  qed
qed

end
