(* ===== verification/Kv_Store.thy ===== *)
theory Kv_Store
  imports Kv_Merge
begin

text \<open>
  The database of \<open>speedy-kv/src/lib.rs\<close>: a live segment in memory, committed segments, their merge
  and iteration. The folder is the list in its \<open>meta.json\<close> and the files of each segment; an
  operation returns the states the folder goes through, in order, so that a crash leaves one of
  them. Fresh uuids are arguments.
\<close>

section \<open>State\<close>

record 'm kv_disk =
  kd_meta :: "nat list option"
  kd_files :: "nat \<rightharpoonup> 'm segment"

record 'm db =
  db_live :: "kv list"
  db_segments :: "'m segment list"
  db_meta :: "nat list"

datatype kv_error = OpenFailed | BuildFailed

type_synonym 'm kv_result = "((kv_error + unit) \<times> 'm db \<times> 'm kv_disk list) may_panic"

text \<open>Inserting into the live \<open>BTreeMap\<close>, which iterates in the order of its keys.\<close>

fun live_insert :: "u8s \<Rightarrow> u8s \<Rightarrow> kv list \<Rightarrow> kv list" where
  "live_insert k v [] = [(k, v)]"
| "live_insert k v (e # es) =
     (if k < fst e then (k, v) # e # es
      else if k = fst e then (k, v) # es
      else e # live_insert k v es)"

definition db_insert_raw :: "u8s \<Rightarrow> u8s \<Rightarrow> 'm db \<Rightarrow> 'm db" where
  "db_insert_raw k v d = d\<lparr> db_live := live_insert k v (db_live d) \<rparr>"

definition save_meta :: "'m db \<Rightarrow> 'm kv_disk \<Rightarrow> 'm kv_disk" where
  "save_meta d disk = disk\<lparr> kd_meta := Some (db_meta d) \<rparr>"

definition open_or_create :: "'m kv_disk \<Rightarrow> (kv_error + 'm db) \<times> 'm kv_disk" where
  "open_or_create disk =
     (let meta = (case kd_meta disk of Some us \<Rightarrow> us | None \<Rightarrow> []) in
      case res_map (\<lambda>u. ok_or (kd_files disk u) OpenFailed) meta of
        Inl e \<Rightarrow> (Inl e, disk)
      | Inr segments \<Rightarrow>
          (let d = \<lparr> db_live = [], db_segments = segments, db_meta = meta \<rparr> in (Inr d, save_meta d disk)))"

section \<open>Lookups and iteration\<close>

fun find_newest :: "'m kv_env \<Rightarrow> u8s \<Rightarrow> 'm segment list \<Rightarrow> u8s option may_panic" where
  "find_newest E key [] = Ret None"
| "find_newest E key (sg # sgs) =
     outcome_bind (segment_get_raw E sg key) (\<lambda>found.
     case found of Some v \<Rightarrow> Ret (Some v) | None \<Rightarrow> find_newest E key sgs)"

definition db_get_raw :: "'m kv_env \<Rightarrow> 'm db \<Rightarrow> u8s \<Rightarrow> u8s option may_panic" where
  "db_get_raw E d key = find_newest E key (rev (db_segments d))"

definition db_get_raw_with_live :: "'m kv_env \<Rightarrow> 'm db \<Rightarrow> u8s \<Rightarrow> u8s option may_panic" where
  "db_get_raw_with_live E d key =
     (case map_of (db_live d) key of Some v \<Rightarrow> Ret (Some v) | None \<Rightarrow> db_get_raw E d key)"

definition db_len :: "'m kv_env \<Rightarrow> 'm db \<Rightarrow> nat" where
  "db_len E d = sum_list (map (segment_len E) (db_segments d))"

text \<open>The outcomes of several iterators, run to their end one after the other.\<close>

fun collect_all :: "kv list may_panic option list \<Rightarrow> kv list list may_panic option" where
  "collect_all [] = Some (Ret [])"
| "collect_all (it # its) =
     Option.bind it (\<lambda>out. Option.bind (collect_all its) (\<lambda>outs.
     Some (outcome_bind out (\<lambda>es. outcome_bind outs (\<lambda>ess. Ret (es # ess))))))"

definition db_iter_raw :: "'m db \<Rightarrow> kv list may_panic option" where
  "db_iter_raw d =
     map_option (\<lambda>out. outcome_bind out (\<lambda>ess. Ret (concat ess))) (collect_all (map segment_iter_raw (db_segments d)))"

text \<open>The loop of \<open>iter_raw_with_offset\<close>: the segment the offset falls into and the rest of the offset.\<close>

fun find_offset :: "'m kv_env \<Rightarrow> nat \<Rightarrow> 'm segment list \<Rightarrow> nat \<times> 'm segment list" where
  "find_offset E remaining [] = (remaining, [])"
| "find_offset E remaining (sg # sgs) =
     (if remaining < segment_len E sg then (remaining, sg # sgs) else find_offset E (remaining - segment_len E sg) sgs)"

definition db_iter_raw_with_offset :: "'m kv_env \<Rightarrow> 'm db \<Rightarrow> nat \<Rightarrow> kv list may_panic option" where
  "db_iter_raw_with_offset E d offset =
     (case find_offset E offset (db_segments d) of
        (remaining, []) \<Rightarrow> Some (Ret [])
      | (remaining, sg # sgs) \<Rightarrow>
          map_option (\<lambda>out. outcome_bind out (\<lambda>ess. Ret (concat ess)))
            (collect_all (segment_iter_with_offset sg remaining # map (\<lambda>s. segment_iter_with_offset s 0) sgs)))"

definition sorted_iter_of :: "'m segment list \<Rightarrow> kv list may_panic option" where
  "sorted_iter_of sgs =
     Option.bind (collect_all (map segment_iter_raw sgs)) (\<lambda>out.
     case out of
       Panic \<Rightarrow> Some Panic
     | Ret ess \<Rightarrow> map_option Ret (sorted_collect ess))"

definition db_sorted_iter_raw :: "'m db \<Rightarrow> kv list may_panic option" where
  "db_sorted_iter_raw d = sorted_iter_of (db_segments d)"

definition db_range_raw :: "'m kv_env \<Rightarrow> 'm db \<Rightarrow> key_bound \<Rightarrow> key_bound \<Rightarrow> kv list may_panic" where
  "db_range_raw E d lo hi =
     outcome_bind (outcome_map (\<lambda>sg. segment_range_raw E sg lo hi) (rev (db_segments d))) (\<lambda>ess. Ret (concat ess))"

section \<open>Commit and merge\<close>

text \<open>\<open>Db::commit\<close>: write the live segment's files, then the list of segments.\<close>

definition db_commit :: "'m kv_env \<Rightarrow> nat \<Rightarrow> 'm db \<Rightarrow> 'm kv_disk \<Rightarrow> 'm kv_result" where
  "db_commit E uuid d disk =
     (if db_live d = [] then Ret (Inr (), d, [disk])
      else
        let d1 = d\<lparr> db_live := [] \<rparr> in
        outcome_bind (write_sorted_it E (length (db_live d)) uuid (db_live d)) (\<lambda>written.
        case written of
          None \<Rightarrow> Ret (Inl BuildFailed, d1, [disk])
        | Some sg \<Rightarrow>
            (let d2 = d1\<lparr> db_segments := db_segments d @ [sg], db_meta := db_meta d @ [uuid] \<rparr>;
                 disk1 = disk\<lparr> kd_files := (kd_files disk)(uuid \<mapsto> sg) \<rparr>
             in Ret (Inr (), d2, [disk, disk1, save_meta d2 disk1]))))"

text \<open>\<open>Segment::merge\<close> of at least two segments: write the merged files, then remove the old ones.\<close>

definition segment_merge ::
  "'m kv_env \<Rightarrow> nat \<Rightarrow> 'm segment list \<Rightarrow> 'm kv_disk \<Rightarrow> ((kv_error + 'm segment) \<times> 'm kv_disk list) may_panic option" where
  "segment_merge E uuid sgs disk =
     Option.bind (sorted_iter_of sgs) (\<lambda>out. Some (
     outcome_bind out (\<lambda>es.
     outcome_bind (write_sorted_it E (sum_list (map (segment_len E) sgs)) uuid es) (\<lambda>written.
     case written of
       None \<Rightarrow> Ret (Inl BuildFailed, [disk])
     | Some sg \<Rightarrow>
         (let disk1 = disk\<lparr> kd_files := (kd_files disk)(uuid \<mapsto> sg) \<rparr>;
              disk2 = disk1\<lparr> kd_files := (\<lambda>u. if u \<in> sg_uuid ` set sgs then None else kd_files disk1 u) \<rparr>
          in Ret (Inr sg, [disk, disk1, disk2]))))))"

definition merge_all_segments :: "'m kv_env \<Rightarrow> nat \<Rightarrow> 'm db \<Rightarrow> 'm kv_disk \<Rightarrow> 'm kv_result option" where
  "merge_all_segments E uuid d disk =
     (let d0 = d\<lparr> db_segments := [] \<rparr> in
      case db_segments d of
        [] \<Rightarrow> Some (Ret (Inr (), d0, [disk]))
      | [sg] \<Rightarrow>
          (let d1 = d\<lparr> db_segments := [sg], db_meta := [sg_uuid sg] \<rparr> in Some (Ret (Inr (), d1, [disk, save_meta d1 disk])))
      | sgs \<Rightarrow>
          Option.bind (segment_merge E uuid sgs disk) (\<lambda>out. Some (
          outcome_bind out (\<lambda>(res, disks).
          case res of
            Inl e \<Rightarrow> Ret (Inl e, d0, disks)
          | Inr sg \<Rightarrow>
              (let d1 = d\<lparr> db_segments := [sg], db_meta := [sg_uuid sg] \<rparr> in
               Ret (Inr (), d1, disks @ [save_meta d1 (last disks)]))))))"

text \<open>\<open>Db::merge\<close>: the committed segments of the other database move behind the own ones.\<close>

definition db_merge :: "'m db \<Rightarrow> 'm kv_disk \<Rightarrow> 'm db \<Rightarrow> 'm db \<times> 'm kv_disk" where
  "db_merge d disk other =
     (let segments = db_segments d @ db_segments other;
          d1 = d\<lparr> db_segments := segments, db_meta := map sg_uuid segments \<rparr>;
          files = foldl (\<lambda>f sg. f(sg_uuid sg \<mapsto> sg)) (kd_files disk) (db_segments other)
      in (d1, save_meta d1 (disk\<lparr> kd_files := files \<rparr>)))"

section \<open>The live segment\<close>

definition cost :: "kv list \<Rightarrow> nat" where
  "cost es = weight es + length es"

lemma cost_simps [simp]: "cost [] = 0" "cost (e # es) = Suc (length (fst e) + length (snd e)) + cost es"
  by (simp_all add: cost_def)

lemma live_insert_keys: "fst ` set (live_insert k v es) = insert k (fst ` set es)"
  by (induction es) auto

lemma live_insert_sorted: "sorted_wrt (<) (map fst es) \<Longrightarrow> sorted_wrt (<) (map fst (live_insert k v es))"
proof (induction es)
  case (Cons e es)
  have keys: "x \<in> fst ` set (live_insert k v es) \<Longrightarrow> x = k \<or> x \<in> fst ` set es" for x by (simp add: live_insert_keys)
  show ?case
  proof (cases "fst e < k")
    case True
    then have "fst e < fst f" if "f \<in> set (live_insert k v es)" for f
      using keys [of "fst f"] that Cons.prems by auto
    with True Cons show ?thesis by auto
  next
    case False
    then consider "k < fst e" | "k = fst e" by fastforce
    then show ?thesis using Cons.prems by cases (auto dest: less_trans)
  qed
qed simp

lemma live_insert_map: "sorted_wrt (<) (map fst es) \<Longrightarrow> map_of (live_insert k v es) = (map_of es)(k \<mapsto> v)"
  by (induction es) (auto simp: fun_eq_iff)

lemma live_insert_cost: "cost (live_insert k v es) \<le> Suc (length k + length v) + cost es"
  by (induction es) auto

section \<open>Lookups and iterators over segments\<close>

lemma find_newest_merged:
  assumes "kv_env_ok E" and "list_all2 (holds E) sgs ess" and "\<forall>es \<in> set ess. no_extension es key"
  shows "find_newest E key (rev sgs) = Ret (merged ess key)"
  using assms(2,3)
proof (induction ess arbitrary: sgs rule: rev_induct)
  case Nil
  then show ?case by simp
next
  case (snoc es ess)
  then obtain sgs' sg where sgs: "sgs = sgs' @ [sg]" "list_all2 (holds E) sgs' ess" "holds E sg es"
    by (auto simp: list_all2_append2 list_all2_Cons2)
  have "segment_get_raw E sg key = Ret (map_of es key)"
    using segment_get_holds [OF assms(1) sgs(3)] snoc.prems(2) by simp
  with snoc.IH [OF sgs(2)] snoc.prems(2) sgs(1) show ?case
    by (auto simp: map_add_def split: option.splits)
qed

lemma collect_all_holds:
  "list_all2 (holds E) sgs ess \<Longrightarrow> collect_all (map segment_iter_raw sgs) = Some (Ret ess)"
  by (induction rule: list_all2_induct) (simp_all add: segment_iter_raw_def segment_iter_holds)

lemma holds_queues: "list_all2 (holds E) sgs ess \<Longrightarrow> queues_ok ess"
  by (induction rule: list_all2_induct) (auto simp: queues_ok_def holds_def)

lemma segment_len_sum:
  assumes "kv_env_ok E" and "list_all2 (holds E) sgs ess"
  shows "sum_list (map (segment_len E) sgs) = sum_list (map length ess)"
  using assms(2) by (induction rule: list_all2_induct) (simp_all add: holds_index(1) [OF assms(1)])

lemma sorted_iter_holds:
  assumes "list_all2 (holds E) sgs ess"
  shows "\<exists>es. sorted_iter_of sgs = Some (Ret es) \<and> sorted_wrt (<) (map fst es) \<and> map_of es = merged ess
    \<and> cost es \<le> sum_list (map cost ess)"
proof -
  from sorted_collect_merged [OF holds_queues [OF assms]] obtain es where es: "sorted_collect ess = Some es"
    "sorted_wrt (<) (map fst es)" "map_of es = merged ess" "weight es \<le> sum_list (map weight ess)"
    "length es \<le> sum_list (map length ess)" by blast
  have "sum_list (map cost ess) = sum_list (map weight ess) + sum_list (map length ess)"
    unfolding cost_def by (induction ess) auto
  with es show ?thesis by (intro exI [of _ es]) (simp add: sorted_iter_of_def collect_all_holds [OF assms] cost_def)
qed

section \<open>The invariant\<close>

definition prefix_free :: "u8s set \<Rightarrow> bool" where
  "prefix_free K \<longleftrightarrow> (\<forall>a \<in> K. \<forall>b t. a @ b # t \<notin> K)"

definition db_rep :: "'m kv_env \<Rightarrow> u8s set \<Rightarrow> nat \<Rightarrow> 'm db \<Rightarrow> 'm kv_disk \<Rightarrow> kv list list \<Rightarrow> bool" where
  "db_rep E K n d disk ess \<longleftrightarrow>
     list_all2 (holds E) (db_segments d) ess \<and> sorted_wrt (<) (map fst (db_live d))
     \<and> fst ` set (db_live d) \<subseteq> K \<and> (\<forall>es \<in> set ess. es \<noteq> [] \<and> fst ` set es \<subseteq> K)
     \<and> db_meta d = map sg_uuid (db_segments d) \<and> kd_meta disk = Some (db_meta d)
     \<and> (\<forall>sg \<in> set (db_segments d). kd_files disk (sg_uuid sg) = Some sg)
     \<and> cost (db_live d) + sum_list (map cost ess) \<le> n"

lemma db_rep_no_extension:
  assumes "db_rep E K n d disk ess" and "prefix_free K" and "key \<in> K" and "es \<in> set ess"
  shows "no_extension es key"
  using assms by (fastforce simp: db_rep_def prefix_free_def no_extension_def)

lemma db_rep_get:
  assumes "kv_env_ok E" and "db_rep E K n d disk ess" and "prefix_free K" and "key \<in> K"
  shows "db_get_raw E d key = Ret (merged ess key)"
    and "db_get_raw_with_live E d key = Ret ((merged ess ++ map_of (db_live d)) key)"
proof -
  show g: "db_get_raw E d key = Ret (merged ess key)"
    unfolding db_get_raw_def using db_rep_no_extension [OF assms(2-4)] assms(1,2)
    by (intro find_newest_merged) (auto simp: db_rep_def)
  then show "db_get_raw_with_live E d key = Ret ((merged ess ++ map_of (db_live d)) key)"
    by (auto simp: db_get_raw_with_live_def map_add_def split: option.splits)
qed

lemma db_rep_insert:
  assumes "db_rep E K n d disk ess" and "k \<in> K"
  shows "db_rep E K (n + Suc (length k + length v)) (db_insert_raw k v d) disk ess"
    and "map_of (db_live (db_insert_raw k v d)) = (map_of (db_live d))(k \<mapsto> v)"
  using assms live_insert_sorted [of "db_live d" k v] live_insert_map [of "db_live d" k v]
    live_insert_cost [of k v "db_live d"] live_insert_keys [of k v "db_live d"]
  by (auto simp: db_rep_def db_insert_raw_def)

lemma db_rep_commit:
  assumes "kv_env_ok E" and "db_rep E K n d disk ess" and "n < 2 ^ 63" and "uuid \<notin> set (db_meta d)"
  shows "\<exists>d' disks ess'. db_commit E uuid d disk = Ret (Inr (), d', disks) \<and> db_rep E K n d' (last disks) ess'
    \<and> merged ess' = merged ess ++ map_of (db_live d) \<and> db_live d' = [] \<and> set (db_meta d') \<subseteq> insert uuid (set (db_meta d))"
proof (cases "db_live d = []")
  case True
  with assms(2) show ?thesis by (intro exI [of _ d] exI [of _ "[disk]"] exI [of _ ess]) (auto simp: db_commit_def)
next
  case False
  have sorted: "sorted_wrt (<) (map fst (db_live d))" using assms(2) by (simp add: db_rep_def)
  have small: "weight (db_live d) < 2 ^ 63" "length (db_live d) < 2 ^ 63"
    using assms(2,3) unfolding db_rep_def cost_def by linarith+
  from write_sorted_holds [OF assms(1) sorted small, of "length (db_live d)" uuid] False obtain sg where
    sg: "write_sorted_it E (length (db_live d)) uuid (db_live d) = Ret (Some sg)" "holds E sg (db_live d)" "sg_uuid sg = uuid"
    by auto
  let ?d = "d\<lparr> db_live := [], db_segments := db_segments d @ [sg], db_meta := db_meta d @ [uuid] \<rparr>"
  let ?disk = "disk\<lparr> kd_files := (kd_files disk)(uuid \<mapsto> sg) \<rparr>"
  have run: "db_commit E uuid d disk = Ret (Inr (), ?d, [disk, ?disk, save_meta ?d ?disk])"
    using False sg(1) by (simp add: db_commit_def Let_def)
  have fresh: "sg_uuid x \<noteq> uuid" if "x \<in> set (db_segments d)" for x
    using assms(2,4) that by (auto simp: db_rep_def)
  have "db_rep E K n ?d (save_meta ?d ?disk) (ess @ [db_live d])"
    using assms(2) sg(2,3) fresh False by (auto simp: db_rep_def save_meta_def list_all2_appendI)
  with run show ?thesis by (intro exI [of _ ?d] exI [of _ "[disk, ?disk, save_meta ?d ?disk]"] exI [of _ "ess @ [db_live d]"]) simp
qed

lemma merge_many:
  assumes "kv_env_ok E" and "db_rep E K n d disk ess" and "n < 2 ^ 63" and "uuid \<notin> set (db_meta d)"
    and "db_segments d = a # b # rest"
  obtains sg d' disk1 disk2 es where
    "merge_all_segments E uuid d disk = Some (Ret (Inr (), d', [disk, disk1, disk2, save_meta d' disk2]))"
    "d' = d\<lparr> db_segments := [sg], db_meta := [uuid] \<rparr>" "disk1 = disk\<lparr> kd_files := (kd_files disk)(uuid \<mapsto> sg) \<rparr>"
    "disk2 = disk1\<lparr> kd_files := (\<lambda>u. if u \<in> sg_uuid ` set (db_segments d) then None else kd_files disk1 u) \<rparr>"
    "holds E sg es" "sg_uuid sg = uuid" "map_of es = merged ess" "cost es \<le> sum_list (map cost ess)"
proof -
  have segs: "list_all2 (holds E) (db_segments d) ess" using assms(2) by (simp add: db_rep_def)
  from sorted_iter_holds [OF segs] obtain es where es: "sorted_iter_of (db_segments d) = Some (Ret es)"
    "sorted_wrt (<) (map fst es)" "map_of es = merged ess" "cost es \<le> sum_list (map cost ess)" by blast
  have bound: "cost (db_live d) + sum_list (map cost ess) \<le> n" using assms(2) by (simp add: db_rep_def)
  have small: "weight es < 2 ^ 63" "length es < 2 ^ 63"
    using es(4) bound assms(3) unfolding cost_def by linarith+
  let ?n = "sum_list (map (segment_len E) (db_segments d))"
  obtain q qs where q: "ess = q # qs" using segs assms(5) by (cases ess) auto
  have "0 < sum_list (map length ess)" using assms(2) q by (simp add: db_rep_def)
  then have pos: "0 < ?n" using segment_len_sum [OF assms(1) segs] by simp
  from write_sorted_holds [OF assms(1) es(2) small pos, of uuid] obtain sg where
    sg: "write_sorted_it E ?n uuid es = Ret (Some sg)" "holds E sg es" "sg_uuid sg = uuid" by blast
  let ?d = "d\<lparr> db_segments := [sg], db_meta := [uuid] \<rparr>"
  let ?disk1 = "disk\<lparr> kd_files := (kd_files disk)(uuid \<mapsto> sg) \<rparr>"
  let ?disk2 = "?disk1\<lparr> kd_files := (\<lambda>u. if u \<in> sg_uuid ` set (db_segments d) then None else kd_files ?disk1 u) \<rparr>"
  have "segment_merge E uuid (db_segments d) disk = Some (Ret (Inr sg, [disk, ?disk1, ?disk2]))"
    by (simp add: segment_merge_def es(1) sg(1) Let_def)
  then have "merge_all_segments E uuid d disk = Some (Ret (Inr (), ?d, [disk, ?disk1, ?disk2, save_meta ?d ?disk2]))"
    using assms(5) sg(3) by (simp add: merge_all_segments_def Let_def)
  then show thesis using that [of ?d ?disk1 ?disk2 sg es] sg es by blast
qed

lemma db_rep_merge_all:
  assumes "kv_env_ok E" and "db_rep E K n d disk ess" and "n < 2 ^ 63" and "uuid \<notin> set (db_meta d)"
  shows "\<exists>d' disks ess'. merge_all_segments E uuid d disk = Some (Ret (Inr (), d', disks)) \<and> db_rep E K n d' (last disks) ess'
    \<and> merged ess' = merged ess \<and> db_live d' = db_live d \<and> set (db_meta d') \<subseteq> insert uuid (set (db_meta d))"
proof -
  consider "db_segments d = []" | sg where "db_segments d = [sg]" | a b rest where "db_segments d = a # b # rest"
    by (cases "db_segments d" rule: remdups_adj.cases) auto
  then show ?thesis
  proof cases
    case 1
    with assms(2) show ?thesis
      by (intro exI [of _ "d\<lparr> db_segments := [] \<rparr>"] exI [of _ "[disk]"] exI [of _ ess]) (auto simp: merge_all_segments_def Let_def db_rep_def)
  next
    case (2 sg)
    let ?d = "d\<lparr> db_segments := [sg], db_meta := [sg_uuid sg] \<rparr>"
    have run: "merge_all_segments E uuid d disk = Some (Ret (Inr (), ?d, [disk, save_meta ?d disk]))"
      using 2 by (simp add: merge_all_segments_def Let_def)
    have "db_rep E K n ?d (save_meta ?d disk) ess" using assms(2) 2 by (simp add: db_rep_def save_meta_def)
    with run 2 assms(2) show ?thesis
      by (intro exI [of _ ?d] exI [of _ "[disk, save_meta ?d disk]"] exI [of _ ess]) (simp add: db_rep_def)
  next
    case (3 a b rest)
    obtain sg d' disk1 disk2 es where m:
      "merge_all_segments E uuid d disk = Some (Ret (Inr (), d', [disk, disk1, disk2, save_meta d' disk2]))"
      "d' = d\<lparr> db_segments := [sg], db_meta := [uuid] \<rparr>" "disk1 = disk\<lparr> kd_files := (kd_files disk)(uuid \<mapsto> sg) \<rparr>"
      "disk2 = disk1\<lparr> kd_files := (\<lambda>u. if u \<in> sg_uuid ` set (db_segments d) then None else kd_files disk1 u) \<rparr>"
      "holds E sg es" "sg_uuid sg = uuid" "map_of es = merged ess" "cost es \<le> sum_list (map cost ess)"
      by (rule merge_many [OF assms 3])
    have ne: "\<forall>q \<in> set ess. q \<noteq> [] \<and> fst ` set q \<subseteq> K" using assms(2) by (simp add: db_rep_def)
    have keys: "fst ` set es \<subseteq> K"
    proof
      fix k
      assume "k \<in> fst ` set es"
      then have "merged ess k \<noteq> None" using m(7) by (metis map_of_eq_None_iff)
      then show "k \<in> K" using ne by (auto simp: merged_None)
    qed
    obtain q qs where q: "ess = q # qs" using assms(2) 3 by (cases ess) (auto simp: db_rep_def)
    then have "merged ess (fst (hd q)) \<noteq> None" using ne by (auto simp: merged_None)
    then have "es \<noteq> []" using m(7) by (metis map_of.simps(1))
    moreover have "uuid \<notin> sg_uuid ` set (db_segments d)" using assms(2,4) by (auto simp: db_rep_def)
    ultimately have "db_rep E K n d' (save_meta d' disk2) [es]"
      using assms(2) m keys by (simp add: db_rep_def save_meta_def)
    moreover have "merged [es] = merged ess" by (simp add: merged_def m(7))
    ultimately show ?thesis
      using m(1,2) by (intro exI [of _ d'] exI [of _ "[disk, disk1, disk2, save_meta d' disk2]"] exI [of _ "[es]"]) simp
  qed
qed

text \<open>
  Merging removes the files of the old segments before the list of segments is rewritten: a folder
  left by a crash in between cannot be opened any more.
\<close>

lemma merge_crash_unopenable:
  assumes "kv_env_ok E" and "db_rep E K n d disk ess" and "n < 2 ^ 63" and "uuid \<notin> set (db_meta d)"
    and "db_segments d = a # b # rest"
  shows "\<exists>d' disks disk2. merge_all_segments E uuid d disk = Some (Ret (Inr (), d', disks)) \<and> disk2 \<in> set disks
    \<and> fst (open_or_create disk2) = Inl OpenFailed"
proof -
  obtain sg d' disk1 disk2 where m:
    "merge_all_segments E uuid d disk = Some (Ret (Inr (), d', [disk, disk1, disk2, save_meta d' disk2]))"
    "disk1 = disk\<lparr> kd_files := (kd_files disk)(uuid \<mapsto> sg) \<rparr>"
    "disk2 = disk1\<lparr> kd_files := (\<lambda>u. if u \<in> sg_uuid ` set (db_segments d) then None else kd_files disk1 u) \<rparr>"
    by (rule merge_many [OF assms])
  have "kd_meta disk2 = Some (map sg_uuid (a # b # rest))" "kd_files disk2 (sg_uuid a) = None"
    using assms(2,5) m(2,3) by (simp_all add: db_rep_def)
  then have "fst (open_or_create disk2) = Inl OpenFailed" by (simp add: open_or_create_def)
  with m(1) show ?thesis by fastforce
qed

lemma db_rep_open:
  assumes "db_rep E K n d disk ess"
  shows "\<exists>d'. open_or_create disk = (Inr d', disk) \<and> db_rep E K n d' disk ess \<and> db_live d' = [] \<and> db_meta d' = db_meta d"
proof -
  have "res_map (\<lambda>u. ok_or (kd_files disk u) OpenFailed) (map sg_uuid sgs) = Inr sgs"
    if "\<forall>sg \<in> set sgs. kd_files disk (sg_uuid sg) = Some sg" for sgs
    using that by (induction sgs) auto
  then have "open_or_create disk = (Inr (d\<lparr> db_live := [] \<rparr>), disk)"
    using assms by (cases disk; cases d) (auto simp: db_rep_def open_or_create_def save_meta_def Let_def)
  moreover have "db_rep E K n (d\<lparr> db_live := [] \<rparr>) disk ess" using assms by (simp add: db_rep_def)
  ultimately show ?thesis by auto
qed

section \<open>Runs\<close>

datatype kv_op = KvInsert u8s u8s | KvCommit nat | KvMergeAll nat | KvReopen

text \<open>One operation; \<open>None\<close> is an endless iteration. Reopening forgets what was not committed.\<close>

fun kv_step :: "'m kv_env \<Rightarrow> kv_op \<Rightarrow> 'm db \<Rightarrow> 'm kv_disk \<Rightarrow> 'm kv_result option" where
  "kv_step E (KvInsert k v) d disk = Some (Ret (Inr (), db_insert_raw k v d, [disk]))"
| "kv_step E (KvCommit u) d disk = Some (db_commit E u d disk)"
| "kv_step E (KvMergeAll u) d disk = merge_all_segments E u d disk"
| "kv_step E KvReopen d disk =
     (case open_or_create disk of
        (Inl e, disk1) \<Rightarrow> Some (Ret (Inl e, d, [disk1]))
      | (Inr d1, disk1) \<Rightarrow> Some (Ret (Inr (), d1, [disk1])))"

fun kv_run :: "'m kv_env \<Rightarrow> kv_op list \<Rightarrow> 'm db \<Rightarrow> 'm kv_disk \<Rightarrow> ((kv_error + unit) \<times> 'm db \<times> 'm kv_disk) may_panic option" where
  "kv_run E [] d disk = Some (Ret (Inr (), d, disk))"
| "kv_run E (p # ps) d disk =
     (case kv_step E p d disk of
        None \<Rightarrow> None
      | Some Panic \<Rightarrow> Some Panic
      | Some (Ret (Inl e, d1, disks)) \<Rightarrow> Some (Ret (Inl e, d1, last disks))
      | Some (Ret (Inr _, d1, disks)) \<Rightarrow> kv_run E ps d1 (last disks))"

text \<open>The specification: a committed map and the uncommitted updates.\<close>

type_synonym kv_spec = "(u8s \<rightharpoonup> u8s) \<times> (u8s \<rightharpoonup> u8s)"

fun spec_step :: "kv_op \<Rightarrow> kv_spec \<Rightarrow> kv_spec" where
  "spec_step (KvInsert k v) (c, l) = (c, l(k \<mapsto> v))"
| "spec_step (KvCommit u) (c, l) = (c ++ l, Map.empty)"
| "spec_step (KvMergeAll u) (c, l) = (c, l)"
| "spec_step KvReopen (c, l) = (c, Map.empty)"

fun op_key :: "kv_op \<Rightarrow> u8s set" where
  "op_key (KvInsert k v) = {k}"
| "op_key _ = {}"

fun op_uuid :: "kv_op \<Rightarrow> nat list" where
  "op_uuid (KvCommit u) = [u]"
| "op_uuid (KvMergeAll u) = [u]"
| "op_uuid _ = []"

fun op_cost :: "kv_op \<Rightarrow> nat" where
  "op_cost (KvInsert k v) = Suc (length k + length v)"
| "op_cost _ = 0"

lemma kv_step_rep:
  assumes "kv_env_ok E" and "db_rep E K n d disk ess" and "n < 2 ^ 63"
    and "op_key p \<subseteq> K" and "set (op_uuid p) \<inter> set (db_meta d) = {}"
  shows "\<exists>d' disks ess'. kv_step E p d disk = Some (Ret (Inr (), d', disks)) \<and> db_rep E K (n + op_cost p) d' (last disks) ess'
    \<and> (merged ess', map_of (db_live d')) = spec_step p (merged ess, map_of (db_live d))
    \<and> set (db_meta d') \<subseteq> set (op_uuid p) \<union> set (db_meta d)"
proof (cases p)
  case (KvInsert k v)
  with assms(4) db_rep_insert [OF assms(2), of k v] show ?thesis
    by (intro exI [of _ "db_insert_raw k v d"] exI [of _ "[disk]"] exI [of _ ess]) (simp add: db_insert_raw_def)
next
  case (KvCommit u)
  with assms(5) have "u \<notin> set (db_meta d)" by simp
  from db_rep_commit [OF assms(1-3) this] KvCommit show ?thesis by fastforce
next
  case (KvMergeAll u)
  with assms(5) have "u \<notin> set (db_meta d)" by simp
  from db_rep_merge_all [OF assms(1-3) this] KvMergeAll show ?thesis by fastforce
next
  case KvReopen
  with db_rep_open [OF assms(2)] show ?thesis by fastforce
qed

lemma kv_run_rep:
  assumes "kv_env_ok E" and "db_rep E K n d disk ess" and "n + sum_list (map op_cost ps) < 2 ^ 63"
    and "\<forall>p \<in> set ps. op_key p \<subseteq> K" and "distinct (concat (map op_uuid ps))"
    and "set (concat (map op_uuid ps)) \<inter> set (db_meta d) = {}"
  shows "\<exists>d' disk' ess'. kv_run E ps d disk = Some (Ret (Inr (), d', disk'))
    \<and> db_rep E K (n + sum_list (map op_cost ps)) d' disk' ess'
    \<and> (merged ess', map_of (db_live d')) = fold spec_step ps (merged ess, map_of (db_live d))"
  using assms(2-6)
proof (induction ps arbitrary: n d disk ess)
  case Nil
  then show ?case by auto
next
  case (Cons p ps)
  have "n < 2 ^ 63" "op_key p \<subseteq> K" "set (op_uuid p) \<inter> set (db_meta d) = {}" using Cons.prems(2,3,5) by auto
  from kv_step_rep [OF assms(1) Cons.prems(1) this] obtain d1 disks ess1 where
    step: "kv_step E p d disk = Some (Ret (Inr (), d1, disks))" "db_rep E K (n + op_cost p) d1 (last disks) ess1"
      "(merged ess1, map_of (db_live d1)) = spec_step p (merged ess, map_of (db_live d))"
      "set (db_meta d1) \<subseteq> set (op_uuid p) \<union> set (db_meta d)" by blast
  have cost: "n + op_cost p + sum_list (map op_cost ps) < 2 ^ 63" using Cons.prems(2) by simp
  have keys: "\<forall>q \<in> set ps. op_key q \<subseteq> K" using Cons.prems(3) by simp
  have dist: "distinct (concat (map op_uuid ps))" using Cons.prems(4) by simp
  have fresh: "set (concat (map op_uuid ps)) \<inter> set (db_meta d1) = {}"
    using Cons.prems(4,5) step(4) by (auto simp: disjoint_iff)
  from Cons.IH [OF step(2) cost keys dist fresh] step(1,3) show ?case
    by (auto simp: add.assoc)
qed

text \<open>
  C38: the store implements a map. From an empty folder, any sequence of inserts, commits, merges of
  all segments and reopenings succeeds without panic, and afterwards a lookup returns what the
  committed map says, a lookup that includes the live segment what the committed map updated by the
  uncommitted inserts says, and the sorted iteration lists exactly the committed map in ascending
  order of its keys, each key once. The keys are serialisations of which none extends another, the
  uuids are fresh and the inserted data fits into memory.
\<close>

theorem kv_refines_map:
  assumes "kv_env_ok E" and "prefix_free K" and "\<forall>p \<in> set ps. op_key p \<subseteq> K"
    and "distinct (concat (map op_uuid ps))" and "sum_list (map op_cost ps) < 2 ^ 63"
    and "open_or_create \<lparr> kd_meta = None, kd_files = Map.empty \<rparr> = (Inr d, disk)"
  shows "\<exists>d' disk'. kv_run E ps d disk = Some (Ret (Inr (), d', disk'))
    \<and> (case fold spec_step ps (Map.empty, Map.empty) of (committed, live) \<Rightarrow>
         (\<forall>key \<in> K. db_get_raw E d' key = Ret (committed key) \<and> db_get_raw_with_live E d' key = Ret ((committed ++ live) key))
         \<and> (\<exists>es. db_sorted_iter_raw d' = Some (Ret es) \<and> sorted_wrt (<) (map fst es) \<and> map_of es = committed))"
proof -
  have start: "db_rep E K 0 d disk []" "db_meta d = []" "db_live d = []"
    using assms(6) by (auto simp: open_or_create_def db_rep_def save_meta_def)
  have "0 + sum_list (map op_cost ps) < 2 ^ 63" using assms(5) by simp
  from kv_run_rep [OF assms(1) start(1) this assms(3,4)] start obtain d' disk' ess where
    run: "kv_run E ps d disk = Some (Ret (Inr (), d', disk'))" and rep: "db_rep E K (0 + sum_list (map op_cost ps)) d' disk' ess"
      and spec: "(merged ess, map_of (db_live d')) = fold spec_step ps (Map.empty, Map.empty)" by auto
  have "list_all2 (holds E) (db_segments d') ess" using rep by (simp add: db_rep_def)
  from sorted_iter_holds [OF this] have "\<exists>es. db_sorted_iter_raw d' = Some (Ret es) \<and> sorted_wrt (<) (map fst es) \<and> map_of es = merged ess"
    by (auto simp: db_sorted_iter_raw_def)
  with run spec [symmetric] db_rep_get [OF assms(1) rep assms(2)] show ?thesis by simp
qed

text \<open>
  Paging. Iterating a database from an offset returns exactly the entries of the full iteration
  from that position on, whichever segment the offset falls into and also past the end.
\<close>

theorem iter_offset_is_drop:
  assumes "kv_env_ok E" and "list_all2 (holds E) (db_segments d) ess"
  shows "db_iter_raw d = Some (Ret (concat ess)) \<and> db_iter_raw_with_offset E d offset = Some (Ret (drop offset (concat ess)))"
proof -
  have all: "collect_all (map (\<lambda>s. segment_iter_with_offset s 0) sgs) = Some (Ret ess)"
    if "list_all2 (holds E) sgs ess" for sgs ess
    using that by (induction rule: list_all2_induct) (simp_all add: segment_iter_holds)
  have "(case find_offset E k sgs of
          (remaining, []) \<Rightarrow> Some (Ret [])
        | (remaining, sg # sgs) \<Rightarrow>
            map_option (\<lambda>out. outcome_bind out (\<lambda>ess. Ret (concat ess)))
              (collect_all (segment_iter_with_offset sg remaining # map (\<lambda>s. segment_iter_with_offset s 0) sgs)))
      = Some (Ret (drop k (concat ess)))" if "list_all2 (holds E) sgs ess" for k sgs ess
    using that
  proof (induction sgs arbitrary: ess k)
    case (Cons sg sgs)
    then obtain es fs where ess: "ess = es # fs" "holds E sg es" "list_all2 (holds E) sgs fs" by (auto simp: list_all2_Cons1)
    have len: "segment_len E sg = length es" by (rule holds_index(1) [OF assms(1) ess(2)])
    show ?case using Cons.IH [OF ess(3)] all [OF ess(3)] segment_iter_holds [OF ess(2)] by (simp add: ess(1) len)
  qed simp
  moreover have "db_iter_raw d = Some (Ret (concat ess))"
    by (simp add: db_iter_raw_def collect_all_holds [OF assms(2)])
  ultimately show ?thesis using assms(2) unfolding db_iter_raw_with_offset_def by blast
qed

section \<open>A concrete store\<close>

definition demo_fst :: "(u8s \<times> 64 word) list fst_lib" where
  "demo_fst = \<lparr> fx_build = (\<lambda>es. if sorted_wrt (<) (map fst es) then Some es else None), fx_len = length,
     fx_search = (\<lambda>es A. if list_all (\<lambda>e. run_automaton A (am_start A) (fst e) \<noteq> Panic) es
        then Ret (filter (\<lambda>e. run_automaton A (am_start A) (fst e) = Ret True) es) else Panic),
     fx_range = (\<lambda>es lo hi. filter (\<lambda>e. above lo (fst e) \<and> below hi (fst e)) es) \<rparr>"

definition demo_kv_env :: "(u8s \<times> 64 word) list kv_env" where
  "demo_kv_env = \<lparr> ke_fst = demo_fst, ke_xxh = (\<lambda>s. word_of_nat (le_value s)), ke_bloom_size = (\<lambda>n. (n, 1)) \<rparr>"

lemma demo_kv_env_ok: "kv_env_ok demo_kv_env"
  by (simp add: kv_env_ok_def demo_kv_env_def fst_ok_def fst_map_ok_def demo_fst_def list_all_iff)

theorem kv_refines_map_witness:
  "\<exists>d disk d' disk'. open_or_create \<lparr> kd_meta = None, kd_files = Map.empty \<rparr> = (Inr d, disk)
    \<and> kv_run demo_kv_env [KvInsert [1] [9], KvCommit 1, KvInsert [2] [8], KvCommit 2, KvMergeAll 3, KvInsert [1] [7]] d disk
        = Some (Ret (Inr (), d', disk'))
    \<and> db_get_raw demo_kv_env d' [1] = Ret (Some [9]) \<and> db_get_raw_with_live demo_kv_env d' [1] = Ret (Some [7])"
proof -
  obtain d disk where o: "open_or_create \<lparr> kd_meta = None, kd_files = Map.empty \<rparr> = (Inr (d :: (u8s \<times> 64 word) list db), disk)"
    by (simp add: open_or_create_def Let_def)
  have K: "prefix_free {[1], [2]}" by (auto simp: prefix_free_def)
  from kv_refines_map [OF demo_kv_env_ok K _ _ _ o,
      of "[KvInsert [1] [9], KvCommit 1, KvInsert [2] [8], KvCommit 2, KvMergeAll 3, KvInsert [1] [7]]"] o
  show ?thesis by (auto simp: map_add_def)
qed

theorem iter_offset_is_drop_witness:
  "\<exists>d. db_segments d \<noteq> [] \<and> db_iter_raw d = Some (Ret [([1], [9]), ([2], [8])])
    \<and> db_iter_raw_with_offset demo_kv_env d 1 = Some (Ret [([2], [8])])"
proof -
  have "sorted_wrt (<) (map fst [([1 :: 8 word], [9 :: 8 word]), ([2], [8])])" by simp
  from write_sorted_holds [OF demo_kv_env_ok this, of 2 0] obtain sg where
    sg: "holds demo_kv_env sg [([1], [9]), ([2], [8])]" by (auto simp: weight_def)
  let ?d = "\<lparr> db_live = [], db_segments = [sg], db_meta = [0] \<rparr>"
  have "list_all2 (holds demo_kv_env) (db_segments ?d) [[([1], [9]), ([2], [8])]]" using sg by simp
  from iter_offset_is_drop [OF demo_kv_env_ok this] show ?thesis by (intro exI [of _ ?d]) simp
qed

end
