(* ===== verification/Int_Map.thy ===== *)
theory Int_Map
  imports File_Store
begin

text \<open>
  The hash map of \<open>core/src/intmap.rs\<close>: bins of entries in ascending order of their keys, found by
  multiplicative hashing and searched by bisection. \<open>(n as f64 * 1.5) as usize\<close> is the integer part
  of one and a half times \<open>n\<close>, which is exact for every length that memory allows. A remainder by an
  empty list of bins panics.
\<close>

section \<open>The interface of a map\<close>

text \<open>What a client of a mutable map relies on: its lookups and inserts never panic and behave like a map.\<close>

locale map_contract =
  fixes invar :: "'m \<Rightarrow> bool" and model :: "'m \<Rightarrow> 'k \<Rightarrow> 'v option"
    and lookup :: "'m \<Rightarrow> 'k \<Rightarrow> 'v option may_panic" and insert :: "'k \<Rightarrow> 'v \<Rightarrow> 'm \<Rightarrow> 'm may_panic"
  assumes lookup_model: "invar m \<Longrightarrow> lookup m k = Ret (model m k)"
    and insert_model: "invar m \<Longrightarrow> \<exists>m'. insert k v m = Ret m' \<and> invar m' \<and> model m' = (model m)(k \<mapsto> v)"
begin

lemma insert_all_model:
  assumes "invar m"
  shows "\<exists>m'. fold (\<lambda>(k, v) r. outcome_bind r (insert k v)) es (Ret m) = Ret m' \<and> invar m'
    \<and> model m' = model m ++ map_of (rev es)"
  using assms
proof (induction es arbitrary: m)
  case (Cons e es)
  obtain k v where e: "e = (k, v)" by (cases e)
  from insert_model [OF Cons.prems] obtain m1 where m1: "insert k v m = Ret m1" "invar m1" "model m1 = (model m)(k \<mapsto> v)" by blast
  have step: "fold (\<lambda>(k, v) r. outcome_bind r (insert k v)) (e # es) (Ret m) = fold (\<lambda>(k, v) r. outcome_bind r (insert k v)) es (Ret m1)"
    by (simp add: e m1(1))
  have "model m ++ map_of (rev (e # es)) = model m1 ++ map_of (rev es)" by (simp add: e m1(3))
  with Cons.IH [OF m1(2)] step show ?case by metis
qed simp

end

section \<open>Bins\<close>

type_synonym 'v entry = "64 word \<times> 'v"

definition BIG_PRIME :: "64 word" where
  "BIG_PRIME = 11400714819323198549"

record 'v int_map =
  im_bins :: "'v entry list list"
  im_len :: nat

definition with_capacity :: "nat \<Rightarrow> 'v int_map" where
  "with_capacity cap = \<lparr> im_bins = replicate cap [], im_len = 0 \<rparr>"

definition int_map_new :: "'v int_map" where
  "int_map_new = with_capacity 2"

definition slot :: "nat \<Rightarrow> 64 word \<Rightarrow> nat" where
  "slot n key = unat (key * BIG_PRIME) mod n"

definition bin_idx :: "'v entry list list \<Rightarrow> 64 word \<Rightarrow> nat may_panic" where
  "bin_idx bins key = (if bins = [] then Panic else Ret (slot (length bins) key))"

definition grown_len :: "nat \<Rightarrow> nat" where
  "grown_len n = 3 * n div 2"

fun place_all :: "'v entry list \<Rightarrow> 'v entry list list \<Rightarrow> 'v entry list list may_panic" where
  "place_all [] bins = Ret bins"
| "place_all (e # es) bins =
     outcome_bind (bin_idx bins (fst e)) (\<lambda>i. place_all es (bins[i := bins ! i @ [e]]))"

definition grow :: "'v int_map \<Rightarrow> 'v int_map may_panic" where
  "grow m =
     outcome_bind (place_all (concat (im_bins m)) (replicate (grown_len (length (im_bins m))) [])) (\<lambda>bins.
     Ret (m\<lparr> im_bins := map (sort_key fst) bins \<rparr>))"

fun position_key :: "64 word \<Rightarrow> 'v entry list \<Rightarrow> nat option" where
  "position_key key [] = None"
| "position_key key (e # es) = (if fst e = key then Some 0 else map_option Suc (position_key key es))"

definition int_map_insert :: "64 word \<Rightarrow> 'v \<Rightarrow> 'v int_map \<Rightarrow> 'v int_map may_panic" where
  "int_map_insert key val m0 =
     outcome_bind (if im_len m0 \<ge> grown_len (length (im_bins m0)) then grow m0 else Ret m0) (\<lambda>m.
     outcome_bind (bin_idx (im_bins m) key) (\<lambda>i.
     let bin = im_bins m ! i in
     case position_key key bin of
       Some idx \<Rightarrow> Ret (m\<lparr> im_bins := (im_bins m)[i := bin[idx := (key, val)]] \<rparr>)
     | None \<Rightarrow> Ret (m\<lparr> im_bins := (im_bins m)[i := sort_key fst (bin @ [(key, val)])], im_len := im_len m + 1 \<rparr>)))"

definition int_map_get :: "'v int_map \<Rightarrow> 64 word \<Rightarrow> 'v option may_panic" where
  "int_map_get m key =
     outcome_bind (bin_idx (im_bins m) key) (\<lambda>i.
     let bin = im_bins m ! i in
     if bin = [] then Ret None
     else let idx = bsearch_loop fst key bin 0 (length bin) in
          Ret (if fst (bin ! idx) = key then Some (snd (bin ! idx)) else None))"

definition contains_key :: "'v int_map \<Rightarrow> 64 word \<Rightarrow> bool may_panic" where
  "contains_key m key = outcome_bind (int_map_get m key) (\<lambda>r. Ret (r \<noteq> None))"

definition int_map_iter :: "'v int_map \<Rightarrow> 'v entry list" where
  "int_map_iter m = concat (im_bins m)"

text \<open>\<open>FromIterator\<close>: the capacity is the upper size hint of the iterator, if it has one.\<close>

definition int_map_from_iter :: "nat option \<Rightarrow> 'v entry list \<Rightarrow> 'v int_map may_panic" where
  "int_map_from_iter upper es =
     fold (\<lambda>(k, v) r. outcome_bind r (int_map_insert k v)) es
       (Ret (case upper of Some cap \<Rightarrow> with_capacity cap | None \<Rightarrow> int_map_new))"

definition int_set_from_iter :: "64 word list \<Rightarrow> unit int_map may_panic" where
  "int_set_from_iter items = fold (\<lambda>k r. outcome_bind r (int_map_insert k ())) items (Ret int_map_new)"

section \<open>The invariant\<close>

definition placed :: "'v entry list list \<Rightarrow> bool" where
  "placed bins \<longleftrightarrow> (\<forall>i < length bins. \<forall>e \<in> set (bins ! i). slot (length bins) (fst e) = i)"

definition int_map_ok :: "'v int_map \<Rightarrow> bool" where
  "int_map_ok m \<longleftrightarrow>
     im_bins m \<noteq> [] \<and> placed (im_bins m) \<and> (\<forall>bin \<in> set (im_bins m). strictly_ascending fst bin)
     \<and> im_len m = length (concat (im_bins m))"

definition int_map_model :: "'v int_map \<Rightarrow> 64 word \<Rightarrow> 'v option" where
  "int_map_model m = map_of (concat (im_bins m))"

lemma slot_less: "bins \<noteq> [] \<Longrightarrow> slot (length bins) key < length bins"
  by (simp add: slot_def)

lemma ascending_distinct: "strictly_ascending fst bin \<Longrightarrow> distinct (map fst bin)"
  by (simp add: strictly_ascending_iff_sorted_wrt strict_sorted_iff flip: sorted_wrt_map)

lemma distinct_concat_slots:
  assumes "\<forall>i < length bins. \<forall>e \<in> set (bins ! i). f (fst e) = n + i" and "\<forall>bin \<in> set bins. distinct (map fst bin)"
  shows "distinct (map fst (concat bins)) \<and> (\<forall>e \<in> set (concat bins). n \<le> f (fst e))"
  using assms
proof (induction bins arbitrary: n)
  case (Cons bin bins)
  have tail: "\<forall>i < length bins. \<forall>e \<in> set (bins ! i). f (fst e) = Suc n + i"

  proof (intro allI impI ballI)
    fix i e
    assume "i < length bins" "e \<in> set (bins ! i)"
    with Cons.prems(1) [rule_format, of "Suc i" e] show "f (fst e) = Suc n + i" by simp
  qed
  have head: "\<forall>e \<in> set bin. f (fst e) = n" using Cons.prems(1) by force
  from Cons.IH [OF tail] Cons.prems(2) have IH: "distinct (map fst (concat bins))" "\<forall>e \<in> set (concat bins). Suc n \<le> f (fst e)" by auto
  have "fst ` set bin \<inter> fst ` set (concat bins) = {}"
    using head IH(2) by (force simp: disjoint_iff)
  then show ?case using IH head Cons.prems(2) by (auto simp: image_iff dest!: Suc_leD)
qed simp

lemma int_map_distinct:
  assumes "int_map_ok m"
  shows "distinct (map fst (concat (im_bins m)))"
  using distinct_concat_slots [of "im_bins m" "slot (length (im_bins m))" 0] assms ascending_distinct
  by (auto simp: int_map_ok_def placed_def)

lemma map_of_set_eq:
  "distinct (map fst xs) \<Longrightarrow> distinct (map fst ys) \<Longrightarrow> set xs = set ys \<Longrightarrow> map_of xs = map_of ys"
  by (simp add: map_of_inject_set)

lemma model_bin:
  assumes "int_map_ok m"
  shows "int_map_model m key = map_of (im_bins m ! slot (length (im_bins m)) key) key"
proof -
  let ?bin = "im_bins m ! slot (length (im_bins m)) key"
  have i: "slot (length (im_bins m)) key < length (im_bins m)" using assms by (intro slot_less) (simp add: int_map_ok_def)
  have d: "distinct (map fst (concat (im_bins m)))" "distinct (map fst ?bin)"
    using int_map_distinct [OF assms] ascending_distinct assms nth_mem [OF i] by (auto simp: int_map_ok_def)
  have "(key, v) \<in> set (concat (im_bins m)) \<longleftrightarrow> (key, v) \<in> set ?bin" for v
  proof
    assume "(key, v) \<in> set (concat (im_bins m))"
    then obtain bin where bin: "bin \<in> set (im_bins m)" "(key, v) \<in> set bin" by auto
    then obtain j where j: "j < length (im_bins m)" "(key, v) \<in> set (im_bins m ! j)" unfolding in_set_conv_nth [of bin] by blast
    then have "slot (length (im_bins m)) (fst (key, v)) = j" using assms unfolding int_map_ok_def placed_def by blast
    with j show "(key, v) \<in> set ?bin" by simp
  next
    assume "(key, v) \<in> set ?bin"
    with nth_mem [OF i] show "(key, v) \<in> set (concat (im_bins m))" by auto
  qed
  then have "map_of (concat (im_bins m)) key = Some v \<longleftrightarrow> map_of ?bin key = Some v" for v
    using d by (simp add: map_of_eq_Some_iff)
  then show ?thesis unfolding int_map_model_def by (metis option.exhaust)
qed

lemma bsearch_map_of:
  assumes "strictly_ascending fst bin" and "bin \<noteq> []"
  shows "(let idx = bsearch_loop fst key bin 0 (length bin) in if fst (bin ! idx) = key then Some (snd (bin ! idx)) else None) = map_of bin key"
proof -
  let ?idx = "bsearch_loop fst key bin 0 (length bin)"
  have idx: "?idx < length bin" using bsearch_loop_in_range [of "length bin" fst key bin 0] assms(2) by simp
  note d = ascending_distinct [OF assms(1)]
  show ?thesis
  proof (cases "fst (bin ! ?idx) = key")
    case True
    then have "(key, snd (bin ! ?idx)) \<in> set bin" using nth_mem [OF idx] by (metis prod.collapse)
    with True d show ?thesis by (simp add: Let_def)
  next
    case False
    have "key \<notin> fst ` set bin"
    proof
      assume "key \<in> fst ` set bin"
      then obtain k where "k < length bin" "fst (bin ! k) = key" by (auto simp: in_set_conv_nth)
      with bsearch_loop_correct [OF assms(1), of 0 "length bin" k key] False show False by simp
    qed
    then have "map_of bin key = None" by (simp add: map_of_eq_None_iff)
    with False show ?thesis by (simp add: Let_def)
  qed
qed

lemma int_map_get_model:
  assumes "int_map_ok m"
  shows "int_map_get m key = Ret (int_map_model m key)"
proof -
  have ne: "im_bins m \<noteq> []" using assms by (simp add: int_map_ok_def)
  let ?bin = "im_bins m ! slot (length (im_bins m)) key"
  have "strictly_ascending fst ?bin" using assms nth_mem [OF slot_less [OF ne]] by (simp add: int_map_ok_def)
  from bsearch_map_of [OF this, of key] show ?thesis
    unfolding int_map_get_def model_bin [OF assms] by (auto simp: bin_idx_def ne Let_def)
qed

subsection \<open>Growing\<close>

lemma place_all_eq:
  assumes "bins \<noteq> []"
  shows "place_all es bins = Ret (map (\<lambda>i. bins ! i @ filter (\<lambda>e. slot (length bins) (fst e) = i) es) [0..<length bins])"
  using assms
proof (induction es arbitrary: bins)
  case Nil
  then show ?case by (simp add: map_nth)
next
  case (Cons e es)
  let ?i = "slot (length bins) (fst e)"
  let ?b = "bins[?i := bins ! ?i @ [e]]"
  have i: "?i < length bins" by (rule slot_less [OF Cons.prems])
  have "map (\<lambda>i. ?b ! i @ filter (\<lambda>e. slot (length bins) (fst e) = i) es) [0..<length bins]
      = map (\<lambda>i. bins ! i @ filter (\<lambda>f. slot (length bins) (fst f) = i) (e # es)) [0..<length bins]"
    using i by (auto simp: nth_list_update)
  moreover have "?b \<noteq> []" using Cons.prems by simp
  ultimately show ?case using Cons.IH [of ?b] Cons.prems by (simp add: bin_idx_def)
qed

lemma grow_ok:
  assumes "int_map_ok m"
  shows "\<exists>m'. grow m = Ret m' \<and> int_map_ok m' \<and> int_map_model m' = int_map_model m"
proof -
  let ?es = "concat (im_bins m)" and ?n = "grown_len (length (im_bins m))"
  have "length (im_bins m) \<noteq> 0" using assms by (simp add: int_map_ok_def)
  then have n: "0 < ?n" unfolding grown_len_def by linarith
  define bins where "bins = map (\<lambda>i. sort_key fst (filter (\<lambda>e. slot ?n (fst e) = i) ?es)) [0..<?n]"
  define m' where "m' = m\<lparr> im_bins := bins \<rparr>"
  have len: "length bins = ?n" by (simp add: bins_def)
  have grow: "grow m = Ret m'"
    using n by (simp add: grow_def place_all_eq m'_def bins_def o_def)
  note d = int_map_distinct [OF assms]
  have nth: "bins ! i = sort_key fst (filter (\<lambda>e. slot ?n (fst e) = i) ?es)" if "i < ?n" for i
    using that by (simp add: bins_def)
  have asc: "strictly_ascending fst bin" if "bin \<in> set bins" for bin
    using that d by (auto simp: bins_def strictly_ascending_sort_key distinct_map_filter)
  have pl: "placed bins" by (simp add: placed_def len nth)
  have set: "set (concat bins) = set ?es"
  proof
    show "set ?es \<subseteq> set (concat bins)"
    proof
      fix e
      assume "e \<in> set ?es"
      moreover have "slot ?n (fst e) < ?n" using n by (simp add: slot_def)
      ultimately show "e \<in> set (concat bins)" unfolding bins_def by auto
    qed
  qed (auto simp: bins_def)
  have d': "distinct (map fst (concat bins))"
    using distinct_concat_slots [of bins "slot ?n" 0] pl len asc ascending_distinct by (auto simp: placed_def)
  have "length (concat bins) = length ?es"
    using set d d' by (metis distinct_card distinct_map length_map)
  then have "int_map_ok m'" using assms len n asc pl by (auto simp: int_map_ok_def m'_def)
  moreover have "int_map_model m' = int_map_model m"
    using map_of_set_eq [OF d' d set] by (simp add: int_map_model_def m'_def)
  ultimately show ?thesis using grow by blast
qed

subsection \<open>Inserting\<close>

lemma position_key_Some:
  "position_key key bin = Some idx \<Longrightarrow> idx < length bin \<and> fst (bin ! idx) = key"
  by (induction bin arbitrary: idx) (auto split: if_splits)

lemma position_key_None: "position_key key bin = None \<longleftrightarrow> key \<notin> fst ` set bin"
  by (induction bin) auto

lemma update_bin_ok:
  assumes "int_map_ok m" and "i = slot (length (im_bins m)) key" and "strictly_ascending fst bin"
    and "\<forall>e \<in> set bin. slot (length (im_bins m)) (fst e) = i"
    and "map_of bin = (map_of (im_bins m ! i))(key \<mapsto> val)"
    and "n + length (im_bins m ! i) = im_len m + length bin"
  shows "int_map_ok (m\<lparr> im_bins := (im_bins m)[i := bin], im_len := n \<rparr>)"
    and "int_map_model (m\<lparr> im_bins := (im_bins m)[i := bin], im_len := n \<rparr>) = (int_map_model m)(key \<mapsto> val)"
proof -
  have ne: "im_bins m \<noteq> []" using assms(1) by (simp add: int_map_ok_def)
  have i: "i < length (im_bins m)" unfolding assms(2) by (rule slot_less [OF ne])
  let ?m = "m\<lparr> im_bins := (im_bins m)[i := bin], im_len := n \<rparr>"
  have "length (concat ((im_bins m)[i := bin])) + length (im_bins m ! i) = length (concat (im_bins m)) + length bin"
    using i elem_le_sum_list [of i "map length (im_bins m)"] by (simp add: length_concat map_update sum_list_update)
  then have "n = length (concat ((im_bins m)[i := bin]))" using assms(1,6) by (simp add: int_map_ok_def)
  moreover have "placed ((im_bins m)[i := bin])"
    using assms(1,4) i by (auto simp: placed_def int_map_ok_def nth_list_update)
  moreover have "\<forall>b \<in> set ((im_bins m)[i := bin]). strictly_ascending fst b"
    using assms(1,3) set_update_subset_insert [of "im_bins m" i bin] by (auto simp: int_map_ok_def)
  ultimately show ok: "int_map_ok ?m" using ne by (simp add: int_map_ok_def)
  show "int_map_model ?m = (int_map_model m)(key \<mapsto> val)"
  proof
    fix k
    show "int_map_model ?m k = ((int_map_model m)(key \<mapsto> val)) k"
      using model_bin [OF ok, of k] model_bin [OF assms(1), of k] assms(2,5) i
      by (cases "slot (length (im_bins m)) k = i") auto
  qed
qed

lemma int_map_insert_model:
  assumes "int_map_ok m0"
  shows "\<exists>m'. int_map_insert key val m0 = Ret m' \<and> int_map_ok m' \<and> int_map_model m' = (int_map_model m0)(key \<mapsto> val)"
proof -
  obtain m where m: "(if im_len m0 \<ge> grown_len (length (im_bins m0)) then grow m0 else Ret m0) = Ret m" "int_map_ok m"
      "int_map_model m = int_map_model m0"
    using grow_ok [OF assms] assms by (cases "im_len m0 \<ge> grown_len (length (im_bins m0))") auto
  have ne: "im_bins m \<noteq> []" using m(2) by (simp add: int_map_ok_def)
  define i where "i = slot (length (im_bins m)) key"
  define bin where "bin = im_bins m ! i"
  have i: "i < length (im_bins m)" unfolding i_def by (rule slot_less [OF ne])
  have bin: "strictly_ascending fst bin" "\<forall>e \<in> set bin. slot (length (im_bins m)) (fst e) = i"
    using m(2) i nth_mem [OF i] by (auto simp: int_map_ok_def placed_def bin_def)
  note d = ascending_distinct [OF bin(1)]
  have run: "int_map_insert key val m0 =
      (case position_key key bin of
         Some idx \<Rightarrow> Ret (m\<lparr> im_bins := (im_bins m)[i := bin[idx := (key, val)]] \<rparr>)
       | None \<Rightarrow> Ret (m\<lparr> im_bins := (im_bins m)[i := sort_key fst (bin @ [(key, val)])], im_len := im_len m + 1 \<rparr>))"
    by (simp only: int_map_insert_def m(1) outcome_bind.simps bin_idx_def ne if_False i_def [symmetric] Let_def bin_def)
  show ?thesis
  proof (cases "position_key key bin")
    case None
    let ?bin = "sort_key fst (bin @ [(key, val)])"
    have fresh: "key \<notin> fst ` set bin" using None by (simp add: position_key_None)
    then have d': "distinct (map fst (bin @ [(key, val)]))" using d by simp
    have asc: "strictly_ascending fst ?bin" using d' by (simp add: strictly_ascending_sort_key)
    have "map_of ?bin = map_of ((key, val) # bin)"
      using fresh d by (intro map_of_set_eq ascending_distinct [OF asc]) auto
    then have "map_of ?bin = (map_of (im_bins m ! i))(key \<mapsto> val)" by (simp add: bin_def fun_upd_def)
    with update_bin_ok [OF m(2) i_def asc, of val "im_len m + 1"] bin(2) run None m(3) show ?thesis
      by (auto simp: bin_def i_def)
  next
    case (Some idx)
    let ?bin = "bin[idx := (key, val)]"
    note idx = position_key_Some [OF Some]
    have keys: "map fst ?bin = map fst bin" using idx by (simp add: map_update) (metis list_update_id nth_map)
    have "sorted_wrt (<) (map fst ?bin)"
      unfolding keys using bin(1) by (simp add: strictly_ascending_iff_sorted_wrt sorted_wrt_map)
    then have asc: "strictly_ascending fst ?bin" by (simp add: strictly_ascending_iff_sorted_wrt sorted_wrt_map)
    have "map_of ?bin k = ((map_of bin)(key \<mapsto> val)) k" for k
    proof (cases "k = key")
      case True
      have "(key, val) \<in> set ?bin" using idx by (meson set_update_memI)
      with True ascending_distinct [OF asc] show ?thesis by simp
    next
      case False
      have "(k, v) \<in> set ?bin \<longleftrightarrow> (k, v) \<in> set bin" for v
        using idx False by (auto simp: in_set_conv_nth nth_list_update) (metis fst_conv)
      then have "map_of ?bin k = Some v \<longleftrightarrow> map_of bin k = Some v" for v
        using d ascending_distinct [OF asc] by simp
      with False show ?thesis by (metis fun_upd_other option.exhaust)
    qed
    then have mp: "map_of ?bin = (map_of (im_bins m ! i))(key \<mapsto> val)" by (auto simp: bin_def)
    have sl: "\<forall>e \<in> set ?bin. slot (length (im_bins m)) (fst e) = i"
      using bin(2) set_update_subset_insert [of bin idx "(key, val)"] by (auto simp: i_def)
    have same: "m\<lparr> im_bins := (im_bins m)[i := ?bin] \<rparr> = m\<lparr> im_bins := (im_bins m)[i := ?bin], im_len := im_len m \<rparr>" by simp
    from update_bin_ok [OF m(2) i_def asc sl mp, of "im_len m"] run Some m(3) same show ?thesis by (simp add: bin_def)
  qed
qed

interpretation intmap: map_contract int_map_ok int_map_model int_map_get int_map_insert
  by unfold_locales (rule int_map_get_model, assumption, rule int_map_insert_model, assumption)

text \<open>
  the hash map implements a map. A map collected from any sequence of entries, with any
  positive capacity hint or none, is built without panic; its lookups return the last value given
  for a key and nothing for other keys, its length is the number of distinct keys, and the
  invariant holds that every bin is sorted and every entry in the bin of its hash.
\<close>

theorem int_map_refines_map:
  assumes "upper \<noteq> Some 0"
  shows "\<exists>m. int_map_from_iter upper es = Ret m \<and> int_map_ok m \<and> im_len m = card (fst ` set es)
    \<and> (\<forall>key. int_map_get m key = Ret (map_of (rev es) key))"
proof -
  let ?m0 = "case upper of Some cap \<Rightarrow> with_capacity cap | None \<Rightarrow> int_map_new"
  have ok: "int_map_ok ?m0" using assms
    by (cases upper) (auto simp: int_map_ok_def with_capacity_def int_map_new_def placed_def strictly_ascending_def)
  have empty: "int_map_model ?m0 = Map.empty" by (cases upper) (simp_all add: int_map_model_def with_capacity_def int_map_new_def)
  from intmap.insert_all_model [OF ok, of es] obtain m where
    m: "int_map_from_iter upper es = Ret m" "int_map_ok m" "int_map_model m = map_of (rev es)"
    unfolding int_map_from_iter_def empty by auto
  have "dom (int_map_model m) = fst ` set es" using m(3) by (simp add: dom_map_of_conv_image_fst)
  then have "card (fst ` set (concat (im_bins m))) = card (fst ` set es)"
    by (simp add: int_map_model_def dom_map_of_conv_image_fst del: set_concat)
  moreover have "im_len m = card (fst ` set (concat (im_bins m)))"
    using m(2) distinct_card [OF int_map_distinct [OF m(2)]] by (simp add: int_map_ok_def del: set_concat)
  ultimately show ?thesis using m int_map_get_model [OF m(2)] by auto
qed

theorem int_map_refines_map_witness:
  "\<exists>m. int_map_from_iter (Some 1) [(42, ''a''), (43, ''b''), (42, ''c'')] = Ret m \<and> im_len m = 2
    \<and> int_map_get m 42 = Ret (Some ''c'') \<and> int_map_get m 7 = Ret None"
proof -
  from int_map_refines_map [of "Some 1" "[(42, ''a''), (43, ''b''), (42, ''c'')]"] obtain m where
    "int_map_from_iter (Some 1) [(42, ''a''), (43, ''b''), (42, ''c'')] = Ret m"
    "im_len m = card (fst ` set [(42 :: 64 word, ''a''), (43, ''b''), (42, ''c'')])"
    "\<forall>key. int_map_get m key = Ret (map_of (rev [(42, ''a''), (43, ''b''), (42, ''c'')]) key)" by auto
  moreover have "card {42, 43, 42 :: 64 word} = 2" by (simp add: card_insert_if)
  ultimately show ?thesis by (intro exI [of _ m]) simp
qed

text \<open>A map collected from an iterator that announces no elements has no bins, and every lookup in it panics.\<close>

lemma empty_collected_map_panics:
  "int_map_from_iter (Some 0) ([] :: 'v entry list) = Ret (with_capacity 0) \<and> int_map_get (with_capacity 0 :: 'v int_map) key = Panic"
  by (simp add: int_map_from_iter_def with_capacity_def int_map_get_def bin_idx_def)

end
