(* ===== verification/Ttl_Cache.thy ===== *)
theory Ttl_Cache
  imports File_Store "HOL-Library.AList" "HOL-Library.Sublist"
begin

text \<open>
  \<open>TTLCache\<close> of \<open>ttl_cache.rs\<close>. The two hash maps are association lists with distinct keys, the
  insertion queue is a list with its front first, and a time is a number of nanoseconds. Each reading of
  the clock is an argument: an insertion reads it once while it prunes and once for the new entry.
  A clock that steps back makes \<open>duration_since\<close> fail, and its \<open>unwrap\<close> panics.
\<close>

section \<open>The cache\<close>

record ('k, 'v) ttl_cache =
  tc_ttl :: nat
  tc_data :: "('k \<times> 'v) list"
  tc_order :: "'k list"
  tc_times :: "('k \<times> nat) list"
  tc_max_size :: "nat option"

definition with_ttl_and_max_size :: "nat \<Rightarrow> nat option \<Rightarrow> ('k, 'v) ttl_cache" where
  "with_ttl_and_max_size ttl max_size =
     \<lparr> tc_ttl = ttl, tc_data = [], tc_order = [], tc_times = [], tc_max_size = max_size \<rparr>"

definition with_ttl :: "nat \<Rightarrow> ('k, 'v) ttl_cache" where
  "with_ttl ttl = with_ttl_and_max_size ttl None"

definition duration_since :: "nat \<Rightarrow> nat \<Rightarrow> nat may_panic" where
  "duration_since now earlier = (if earlier \<le> now then Ret (now - earlier) else Panic)"

text \<open>\<open>pop_front().unwrap()\<close> and the two removals, which both pruning loops perform.\<close>

definition pop_entry :: "('k, 'v) ttl_cache \<Rightarrow> ('k, 'v) ttl_cache may_panic" where
  "pop_entry c =
     (case tc_order c of
        [] \<Rightarrow> Panic
      | front # rest \<Rightarrow>
          Ret (c \<lparr> tc_order := rest, tc_times := AList.delete front (tc_times c),
                   tc_data := AList.delete front (tc_data c) \<rparr>))"

function prune_size :: "nat \<Rightarrow> ('k, 'v) ttl_cache \<Rightarrow> ('k, 'v) ttl_cache may_panic" where
  "prune_size max_size c =
     (if max_size \<le> length (tc_data c)
      then (case pop_entry c of Panic \<Rightarrow> Panic | Ret c' \<Rightarrow> prune_size max_size c')
      else Ret c)"
  by pat_completeness auto
termination
  by (relation "measure (\<lambda>(_, c). length (tc_order c))") (auto simp: pop_entry_def split: list.splits)

function prune_expired :: "nat \<Rightarrow> ('k, 'v) ttl_cache \<Rightarrow> ('k, 'v) ttl_cache may_panic" where
  "prune_expired now c =
     (case tc_order c of
        [] \<Rightarrow> Ret c
      | front # _ \<Rightarrow>
          (case map_of (tc_times c) front of
             None \<Rightarrow> Panic
           | Some time \<Rightarrow>
               (case duration_since now time of
                  Panic \<Rightarrow> Panic
                | Ret age \<Rightarrow>
                    if age \<le> tc_ttl c then Ret c
                    else (case pop_entry c of Panic \<Rightarrow> Panic | Ret c' \<Rightarrow> prune_expired now c'))))"
  by pat_completeness auto
termination
  by (relation "measure (\<lambda>(_, c). length (tc_order c))") (auto simp: pop_entry_def split: list.splits)

declare prune_size.simps [simp del] prune_expired.simps [simp del]

definition prune_old_entries :: "nat \<Rightarrow> ('k, 'v) ttl_cache \<Rightarrow> ('k, 'v) ttl_cache may_panic" where
  "prune_old_entries now c =
     outcome_bind (case tc_max_size c of None \<Rightarrow> Ret c | Some max_size \<Rightarrow> prune_size max_size c) (prune_expired now)"

definition ttl_insert :: "nat \<Rightarrow> nat \<Rightarrow> 'k \<Rightarrow> 'v \<Rightarrow> ('k, 'v) ttl_cache \<Rightarrow> ('k, 'v) ttl_cache may_panic" where
  "ttl_insert prune_time current_time key val c =
     outcome_bind (prune_old_entries prune_time c) (\<lambda>c.
       let order = (if map_of (tc_data c) key = None then Ret (tc_order c)
                    else if key \<in> set (tc_order c) then Ret (remove1 key (tc_order c)) else Panic)
       in outcome_bind order (\<lambda>order.
            Ret (c \<lparr> tc_data := AList.update key val (tc_data c),
                     tc_times := AList.update key current_time (tc_times c),
                     tc_order := order @ [key] \<rparr>)))"

definition ttl_get :: "nat \<Rightarrow> ('k, 'v) ttl_cache \<Rightarrow> 'k \<Rightarrow> 'v option may_panic" where
  "ttl_get now c key =
     (case map_of (tc_times c) key of
        None \<Rightarrow> Ret None
      | Some time \<Rightarrow>
          outcome_bind (duration_since now time) (\<lambda>age.
            Ret (if age < tc_ttl c then map_of (tc_data c) key else None)))"

section \<open>The queue the three collections hold\<close>

text \<open>One entry of the cache: its key, its value and the time it was inserted.\<close>

type_synonym ('k, 'v) ttl_entry = "'k \<times> 'v \<times> nat"

definition stored :: "('k, 'v) ttl_cache \<Rightarrow> ('k, 'v) ttl_entry list \<Rightarrow> bool" where
  "stored c q \<longleftrightarrow> tc_order c = map fst q \<and> distinct (map fst q)
     \<and> distinct (map fst (tc_data c)) \<and> distinct (map fst (tc_times c))
     \<and> map_of (tc_data c) = map_of (map (\<lambda>(k, v, t). (k, v)) q)
     \<and> map_of (tc_times c) = map_of (map (\<lambda>(k, v, t). (k, t)) q)"

definition expired :: "nat \<Rightarrow> nat \<Rightarrow> ('k, 'v) ttl_entry \<Rightarrow> bool" where
  "expired ttl now e \<longleftrightarrow> ttl < now - snd (snd e)"

abbreviation values_of :: "('k, 'v) ttl_entry list \<Rightarrow> ('k \<times> 'v) list" where
  "values_of \<equiv> map (\<lambda>(k, v, t). (k, v))"

abbreviation times_of :: "('k, 'v) ttl_entry list \<Rightarrow> ('k \<times> nat) list" where
  "times_of \<equiv> map (\<lambda>(k, v, t). (k, t))"

lemma dom_values_of [simp]: "fst ` set (values_of q) = fst ` set q" "fst ` set (times_of q) = fst ` set q"
  by (force simp: image_image split_def)+

lemma stored_length:
  assumes "stored c q"
  shows "length (tc_data c) = length q"
proof -
  have "dom (map_of (tc_data c)) = dom (map_of (values_of q))" using assms by (simp add: stored_def)
  then have "set (map fst (tc_data c)) = set (map fst q)" by (simp add: dom_map_of_conv_image_fst image_image split_def)
  with assms show ?thesis unfolding stored_def by (metis distinct_card length_map)
qed

lemma stored_new: "stored (with_ttl_and_max_size ttl max_size) []"
  by (simp add: stored_def with_ttl_and_max_size_def)

text \<open>An entry that is not in the queue is not in the maps either.\<close>

lemma map_of_outside:
  assumes "k \<notin> fst ` set q"
  shows "map_of (values_of q) k = None" "map_of (times_of q) k = None"
  using assms by (simp_all only: map_of_eq_None_iff dom_values_of simp_thms)

lemma map_of_columns:
  "map_of (values_of q) k = map_option fst (map_of q k)" "map_of (times_of q) k = map_option snd (map_of q k)"
  by (induction q) auto

lemma pop_stored:
  assumes "stored c (e # q)"
  obtains c' where "pop_entry c = Ret c'" "stored c' q" "tc_ttl c' = tc_ttl c" "tc_max_size c' = tc_max_size c"
    "length (tc_order c') < length (tc_order c)"
proof -
  obtain k v t where e: "e = (k, v, t)" by (cases e)
  let ?c = "c \<lparr> tc_order := map fst q, tc_times := AList.delete k (tc_times c), tc_data := AList.delete k (tc_data c) \<rparr>"
  have out: "k \<notin> fst ` set q" using assms by (simp add: stored_def e)
  have "pop_entry c = Ret ?c" using assms by (simp add: pop_entry_def stored_def e)
  moreover have "stored ?c q"
    using assms map_of_outside [OF out] by (auto simp: stored_def e delete_conv' distinct_delete fun_upd_idem)
  ultimately show ?thesis using that assms by (simp add: stored_def e)
qed

lemma prune_size_stored:
  assumes "stored c q" and "0 < max_size"
  shows "\<exists>c'. prune_size max_size c = Ret c' \<and> stored c' (drop (length q - (max_size - 1)) q)
    \<and> tc_ttl c' = tc_ttl c \<and> tc_max_size c' = tc_max_size c"
  using assms(1)
proof (induction q arbitrary: c)
  case Nil
  then show ?case using assms(2) stored_length [OF Nil] by (subst prune_size.simps) simp
next
  case (Cons e q)
  show ?case
  proof (cases "max_size \<le> length (e # q)")
    case True
    from pop_stored [OF Cons.prems] obtain c' where c': "pop_entry c = Ret c'" "stored c' q"
      "tc_ttl c' = tc_ttl c" "tc_max_size c' = tc_max_size c" by metis
    have "length (e # q) - (max_size - 1) = Suc (length q - (max_size - 1))" using True assms(2) by auto
    then show ?thesis using Cons.IH [OF c'(2)] c' True stored_length [OF Cons.prems] by (subst prune_size.simps) simp
  next
    case False
    then show ?thesis using Cons.prems stored_length [OF Cons.prems] by (subst prune_size.simps) simp
  qed
qed

lemma prune_expired_stored:
  assumes "stored c q" and "\<forall>e \<in> set q. snd (snd e) \<le> now"
  shows "\<exists>c'. prune_expired now c = Ret c' \<and> stored c' (dropWhile (expired (tc_ttl c) now) q)
    \<and> tc_ttl c' = tc_ttl c \<and> tc_max_size c' = tc_max_size c"
  using assms
proof (induction q arbitrary: c)
  case Nil
  then have "tc_order c = []" by (simp add: stored_def)
  with Nil show ?case by (subst prune_expired.simps) simp
next
  case (Cons e q)
  obtain k v t where e: "e = (k, v, t)" by (cases e)
  have front: "tc_order c = k # map fst q" "map_of (tc_times c) k = Some t" using Cons.prems(1) by (simp_all add: stored_def e)
  have age: "duration_since now t = Ret (now - t)" using Cons.prems(2) by (simp add: duration_since_def e)
  show ?case
  proof (cases "expired (tc_ttl c) now e")
    case True
    from pop_stored [OF Cons.prems(1)] obtain c' where c': "pop_entry c = Ret c'" "stored c' q"
      "tc_ttl c' = tc_ttl c" "tc_max_size c' = tc_max_size c" by metis
    have "prune_expired now c = prune_expired now c'"
      using True c'(1) by (subst prune_expired.simps) (simp add: front age expired_def e)
    with Cons.IH [OF c'(2)] Cons.prems(2) True c'(3,4) show ?thesis by simp
  next
    case False
    then have "prune_expired now c = Ret c"
      by (subst prune_expired.simps) (simp add: front age expired_def e not_less)
    with False Cons.prems(1) show ?thesis by simp
  qed
qed

text \<open>What the queue is after pruning and after an insertion.\<close>

definition queue_prune :: "nat \<Rightarrow> nat option \<Rightarrow> nat \<Rightarrow> ('k, 'v) ttl_entry list \<Rightarrow> ('k, 'v) ttl_entry list" where
  "queue_prune ttl max_size now q =
     dropWhile (expired ttl now)
       (case max_size of None \<Rightarrow> q | Some m \<Rightarrow> drop (length q - (m - 1)) q)"

definition queue_insert ::
  "nat \<Rightarrow> nat option \<Rightarrow> nat \<Rightarrow> ('k, 'v) ttl_entry \<Rightarrow> ('k, 'v) ttl_entry list \<Rightarrow> ('k, 'v) ttl_entry list" where
  "queue_insert ttl max_size now e q = filter (\<lambda>d. fst d \<noteq> fst e) (queue_prune ttl max_size now q) @ [e]"

lemma suffix_queue_prune: "suffix (queue_prune ttl max_size now q) q"
  by (cases max_size) (auto simp: queue_prune_def intro: suffix_dropWhile suffix_order.trans [OF suffix_dropWhile suffix_drop])

lemma prune_stored:
  assumes "stored c q" and "tc_max_size c \<noteq> Some 0" and "\<forall>e \<in> set q. snd (snd e) \<le> now"
  shows "\<exists>c'. prune_old_entries now c = Ret c' \<and> stored c' (queue_prune (tc_ttl c) (tc_max_size c) now q)
    \<and> tc_ttl c' = tc_ttl c \<and> tc_max_size c' = tc_max_size c"
proof (cases "tc_max_size c")
  case None
  with prune_expired_stored [OF assms(1,3)] show ?thesis by (auto simp: prune_old_entries_def queue_prune_def)
next
  case (Some m)
  with assms(2) have "0 < m" by simp
  from prune_size_stored [OF assms(1) this] obtain c1 where c1: "prune_size m c = Ret c1"
    "stored c1 (drop (length q - (m - 1)) q)" "tc_ttl c1 = tc_ttl c" "tc_max_size c1 = tc_max_size c" by auto
  have "\<forall>e \<in> set (drop (length q - (m - 1)) q). snd (snd e) \<le> now" using assms(3) by (meson in_set_dropD)
  from prune_expired_stored [OF c1(2) this] c1 Some show ?thesis by (auto simp: prune_old_entries_def queue_prune_def)
qed

lemma remove1_keys: "distinct (map fst q) \<Longrightarrow> remove1 k (map fst q) = map fst (filter (\<lambda>d. fst d \<noteq> k) q)"
  by (induction q) (auto simp: filter_id_conv image_iff intro!: arg_cong [where f = "map fst"] sym [OF filter_True])

lemma map_of_replace:
  assumes "fst e = k"
  shows "map_of (values_of (filter (\<lambda>d. fst d \<noteq> k) q @ [e])) = (map_of (values_of q))(k \<mapsto> fst (snd e))"
    and "map_of (times_of (filter (\<lambda>d. fst d \<noteq> k) q @ [e])) = (map_of (times_of q))(k \<mapsto> snd (snd e))"
proof -
  obtain v t where e: "e = (k, v, t)" using assms by (cases e) simp
  show "map_of (values_of (filter (\<lambda>d. fst d \<noteq> k) q @ [e])) = (map_of (values_of q))(k \<mapsto> fst (snd e))"
    by (induction q) (auto simp: e fun_eq_iff)
  show "map_of (times_of (filter (\<lambda>d. fst d \<noteq> k) q @ [e])) = (map_of (times_of q))(k \<mapsto> snd (snd e))"
    by (induction q) (auto simp: e fun_eq_iff)
qed

lemma insert_stored:
  assumes "stored c q" and "tc_max_size c \<noteq> Some 0" and "\<forall>e \<in> set q. snd (snd e) \<le> now"
  shows "\<exists>c'. ttl_insert now time key val c = Ret c'
    \<and> stored c' (queue_insert (tc_ttl c) (tc_max_size c) now (key, val, time) q)
    \<and> tc_ttl c' = tc_ttl c \<and> tc_max_size c' = tc_max_size c"
proof -
  let ?q = "queue_prune (tc_ttl c) (tc_max_size c) now q"
  from prune_stored [OF assms] obtain c1 where c1: "prune_old_entries now c = Ret c1" "stored c1 ?q"
    "tc_ttl c1 = tc_ttl c" "tc_max_size c1 = tc_max_size c" by auto
  let ?kept = "filter (\<lambda>d. fst d \<noteq> key) ?q"
  have keys: "map_of (tc_data c1) key = None \<longleftrightarrow> key \<notin> set (tc_order c1)"
    using c1(2) by (simp add: stored_def map_of_eq_None_iff image_image split_def)
  have order: "remove1 key (tc_order c1) = map fst ?kept" using c1(2) by (simp add: stored_def remove1_keys)
  let ?c = "c1 \<lparr> tc_data := AList.update key val (tc_data c1), tc_times := AList.update key time (tc_times c1),
    tc_order := map fst ?kept @ [key] \<rparr>"
  have "tc_order c1 = map fst ?kept" if "key \<notin> set (tc_order c1)" using order that by (simp add: remove1_idem)
  then have "ttl_insert now time key val c = Ret ?c" using order keys by (simp add: ttl_insert_def c1(1))
  moreover have "stored ?c (queue_insert (tc_ttl c) (tc_max_size c) now (key, val, time) q)"
    unfolding stored_def queue_insert_def
    using c1(2) map_of_replace [of "(key, val, time)" key ?q]
    by (intro conjI) (auto simp: stored_def update_conv' distinct_update distinct_map_filter)
  ultimately show ?thesis using c1(3,4) by simp
qed

section \<open>Histories of insertions\<close>

text \<open>An insertion with the two times it reads from the clock.\<close>

type_synonym ('k, 'v) insertion = "'k \<times> 'v \<times> nat \<times> nat"

definition run_inserts :: "('k, 'v) insertion list \<Rightarrow> ('k, 'v) ttl_cache \<Rightarrow> ('k, 'v) ttl_cache may_panic" where
  "run_inserts es c = fold (\<lambda>(k, v, p, t) r. outcome_bind r (ttl_insert p t k v)) es (Ret c)"

definition clock_readings :: "('k, 'v) insertion list \<Rightarrow> nat list" where
  "clock_readings es = concat (map (\<lambda>(k, v, p, t). [p, t]) es)"

definition inserted :: "('k, 'v) insertion list \<Rightarrow> ('k, 'v) ttl_entry list" where
  "inserted es = map (\<lambda>(k, v, p, t). (k, v, t)) es"

text \<open>The insertions that no later insertion of the same key follows, and the number of insertions since the
  last one of a key.\<close>

definition latest :: "('k, 'v) ttl_entry list \<Rightarrow> ('k, 'v) ttl_entry list" where
  "latest hs = fold (\<lambda>e q. filter (\<lambda>d. fst d \<noteq> fst e) q @ [e]) hs []"

definition insertions_since :: "('k, 'v) ttl_entry list \<Rightarrow> 'k \<Rightarrow> nat" where
  "insertions_since hs k = length (takeWhile (\<lambda>e. fst e \<noteq> k) (rev hs))"

lemma history_simps [simp]:
  "latest [] = []" "latest (hs @ [e]) = filter (\<lambda>d. fst d \<noteq> fst e) (latest hs) @ [e]"
  "insertions_since (hs @ [e]) k = (if fst e = k then 0 else Suc (insertions_since hs k))"
  "inserted (es @ [(k, v, p, t)]) = inserted es @ [(k, v, t)]" "inserted [] = []"
  "clock_readings (es @ [(k, v, p, t)]) = clock_readings es @ [p, t]" "clock_readings [] = []"
  "run_inserts (es @ [(k, v, p, t)]) c = outcome_bind (run_inserts es c) (ttl_insert p t k v)" "run_inserts [] c = Ret c"
  by (simp_all add: latest_def insertions_since_def inserted_def clock_readings_def run_inserts_def)

lemma latest_subset: "set (latest hs) \<subseteq> set hs"
  by (induction hs rule: rev_induct) auto

lemma latest_distinct: "distinct (map fst (latest hs))"
  by (induction hs rule: rev_induct) (auto simp: distinct_map_filter)

lemma map_of_latest: "map_of (latest hs) = map_of (rev hs)"
proof (induction hs rule: rev_induct)
  case (snoc e hs)
  have "map_of (filter (\<lambda>d. fst d \<noteq> fst e) q @ [e]) = (map_of q)(fst e \<mapsto> snd e)" for q
    by (induction q) (auto simp: fun_eq_iff)
  with snoc show ?case by simp
qed simp

lemma inserted_reading: "(k, v, t) \<in> set (inserted es) \<Longrightarrow> t \<in> set (clock_readings es)"
  by (force simp: inserted_def clock_readings_def)

lemma filter_split:
  "filter P xs = a @ x # b \<Longrightarrow> \<exists>a2 b2. xs = a2 @ x # b2 \<and> filter P b2 = b \<and> P x"
proof (induction xs arbitrary: a)
  case (Cons y xs)
  show ?case
  proof (cases "P y \<and> a = []")
    case True
    with Cons.prems show ?thesis by (intro exI [of _ "[]"] exI [of _ xs]) auto
  next
    case False
    with Cons.prems obtain a' where "filter P xs = a' @ x # b" by (cases a) (auto split: if_splits)
    from Cons.IH [OF this] show ?thesis by (metis append_Cons)
  qed
qed simp

text \<open>An insertion is followed by at least as many insertions as there are newer keys.\<close>

lemma newer_keys_since:
  "latest hs = a @ x # b \<Longrightarrow> length b \<le> insertions_since hs (fst x)"
proof (induction hs arbitrary: a b rule: rev_induct)
  case (snoc e hs)
  show ?case
  proof (cases "b = []")
    case False
    then obtain b' where b': "b = b' @ [e]" "filter (\<lambda>d. fst d \<noteq> fst e) (latest hs) = a @ x # b'"
      using snoc.prems by (cases b rule: rev_cases) auto
    from filter_split [OF b'(2)] obtain a2 b2 where
      split: "latest hs = a2 @ x # b2" "filter (\<lambda>d. fst d \<noteq> fst e) b2 = b'" and x: "fst x \<noteq> fst e" by auto
    have "length b' \<le> length b2" using split(2) by (metis length_filter_le)
    with snoc.IH [OF split(1)] x show ?thesis by (simp add: b'(1))
  qed simp
qed simp

lemma pruned_entry:
  assumes "x \<in> set q" and "x \<notin> set (queue_prune ttl max_size now q)" and "suffix q (latest hs)"
  shows "expired ttl now x \<or> (\<exists>m. max_size = Some m \<and> m \<le> Suc (insertions_since hs (fst x)))"
proof (rule disjCI)
  assume within: "\<nexists>m. max_size = Some m \<and> m \<le> Suc (insertions_since hs (fst x))"
  from assms(1) obtain a b where q: "q = a @ x # b" by (meson split_list)
  with assms(3) have since: "length b \<le> insertions_since hs (fst x)"
    by (metis append_assoc newer_keys_since suffix_def)
  have dw: "P y" if "y \<in> set ys" "y \<notin> set (dropWhile P ys)" for P and y :: "('a, 'b) ttl_entry" and ys
    using that by (metis Un_iff set_append set_takeWhileD takeWhile_dropWhile_id)
  show "expired ttl now x"
  proof (cases max_size)
    case None
    with dw [OF assms(1)] assms(2) show ?thesis by (simp add: queue_prune_def)
  next
    case (Some m)
    with within since have "length b < m - 1" by auto
    then have "length q - (m - 1) \<le> length a" by (simp add: q)
    then have "x \<in> set (drop (length q - (m - 1)) q)" by (simp add: q)
    from dw [OF this] assms(2) Some show ?thesis by (simp add: queue_prune_def)
  qed
qed

section \<open>What a history leaves in the cache\<close>

text \<open>The state after a history whose clock readings never step back: the cache holds the queue \<open>q\<close>, which
  ends the list of latest insertions, and what is missing from it has expired or is \<open>max_size\<close> insertions old.\<close>

definition holds_history ::
  "nat \<Rightarrow> nat option \<Rightarrow> ('k, 'v) ttl_entry list \<Rightarrow> nat \<Rightarrow> ('k, 'v) ttl_cache \<Rightarrow> ('k, 'v) ttl_entry list \<Rightarrow> bool" where
  "holds_history ttl max_size hs now c q \<longleftrightarrow>
     tc_ttl c = ttl \<and> tc_max_size c = max_size \<and> stored c q \<and> suffix q (latest hs)
     \<and> (\<forall>m. max_size = Some m \<longrightarrow> length q \<le> m)
     \<and> (\<forall>x \<in> set (latest hs) - set q. expired ttl now x \<or> (\<exists>m. max_size = Some m \<and> m \<le> insertions_since hs (fst x)))"

lemma suffix_filter: "suffix q p \<Longrightarrow> suffix (filter P q) (filter P p)"
  by (auto simp: suffix_def)

lemma holds_history_insert:
  assumes h: "holds_history ttl max_size hs now c q" and nz: "max_size \<noteq> Some 0"
    and past: "\<forall>x \<in> set hs. snd (snd x) \<le> p" and clock: "now \<le> p" "p \<le> t"
  shows "\<exists>c'. ttl_insert p t k v c = Ret c' \<and> holds_history ttl max_size (hs @ [(k, v, t)]) t c' (queue_insert ttl max_size p (k, v, t) q)"
proof -
  note h' = h [unfolded holds_history_def]
  let ?q = "queue_prune ttl max_size p q"
  let ?q' = "queue_insert ttl max_size p (k, v, t) q"
  have "\<forall>e \<in> set q. snd (snd e) \<le> p" using h' past latest_subset [of hs] set_mono_suffix [of q "latest hs"] by blast
  with insert_stored [of c q p t k v] h' nz obtain c' where c': "ttl_insert p t k v c = Ret c'" "stored c' ?q'"
    "tc_ttl c' = ttl" "tc_max_size c' = max_size" by auto
  have "suffix ?q (latest hs)" using h' suffix_queue_prune suffix_order.trans by blast
  then have "suffix ?q' (latest (hs @ [(k, v, t)]))" by (simp add: queue_insert_def suffix_filter)
  moreover have "length ?q' \<le> m" if m: "max_size = Some m" for m
  proof -
    have "length (filter (\<lambda>d. fst d \<noteq> k) ?q) \<le> length ?q" by (rule length_filter_le)
    also have "\<dots> \<le> length (drop (length q - (m - 1)) q)"
      unfolding queue_prune_def m option.case by (rule length_dropWhile_le)
    finally have "length (filter (\<lambda>d. fst d \<noteq> k) ?q) \<le> m - 1" by simp
    then show ?thesis using m nz by (simp add: queue_insert_def)
  qed
  moreover have "expired ttl t x \<or> (\<exists>m. max_size = Some m \<and> m \<le> insertions_since (hs @ [(k, v, t)]) (fst x))"
    if x: "x \<in> set (latest (hs @ [(k, v, t)])) - set ?q'" for x
  proof -
    from x have kept: "x \<in> set (latest hs)" "fst x \<noteq> k" "x \<notin> set ?q" by (auto simp: queue_insert_def)
    have later: "expired ttl t x" if "expired ttl s x" "s \<le> t" for s using that by (simp add: expired_def)
    show ?thesis
    proof (cases "x \<in> set q")
      case True
      with pruned_entry [OF _ kept(3), of hs] h' kept(2) clock(2) later show ?thesis by auto
    next
      case False
      with h' kept(1) have "expired ttl now x \<or> (\<exists>m. max_size = Some m \<and> m \<le> insertions_since hs (fst x))" by blast
      with kept(2) clock later [of now] show ?thesis by auto
    qed
  qed
  ultimately show ?thesis using c' unfolding holds_history_def by auto
qed

lemma run_inserts_history:
  assumes "max_size \<noteq> Some 0" and "sorted (clock_readings es)"
  shows "\<exists>c q. run_inserts es (with_ttl_and_max_size ttl max_size) = Ret c
    \<and> holds_history ttl max_size (inserted es) (last (0 # clock_readings es)) c q"
  using assms(2)
proof (induction es rule: rev_induct)
  case Nil
  have "holds_history ttl max_size [] 0 (with_ttl_and_max_size ttl max_size) []"
    by (simp add: holds_history_def stored_new, simp add: with_ttl_and_max_size_def)
  then show ?case by auto
next
  case (snoc e es)
  obtain k v p t where e: "e = (k, v, p, t)" by (cases e)
  from snoc.prems have s: "sorted (clock_readings es)" "\<forall>r \<in> set (clock_readings es). r \<le> p" "p \<le> t"
    by (auto simp: e sorted_append)
  from snoc.IH [OF s(1)] obtain c q where c: "run_inserts es (with_ttl_and_max_size ttl max_size) = Ret c"
    "holds_history ttl max_size (inserted es) (last (0 # clock_readings es)) c q" by blast
  have "\<forall>x \<in> set (inserted es). snd (snd x) \<le> p" using s(2) inserted_reading by fastforce
  moreover have "last (0 # clock_readings es) \<le> p" using s(2) by (cases "clock_readings es") auto
  ultimately show ?case
    using holds_history_insert [OF c(2) assms(1) _ _ s(3), of k v] c(1) by (auto simp: e)
qed

lemma stored_get:
  assumes "stored c q" and "\<forall>x \<in> set q. snd (snd x) \<le> now"
  shows "ttl_get now c key = Ret (case map_of q key of None \<Rightarrow> None | Some (v, t) \<Rightarrow> if now - t < tc_ttl c then Some v else None)"
proof -
  have times: "map_of (tc_times c) key = map_option snd (map_of q key)"
    and "values": "map_of (tc_data c) key = map_option fst (map_of q key)"
    using assms(1) by (simp_all add: stored_def map_of_columns)
  have "t \<le> now" if "map_of q key = Some (v, t)" for v t using assms(2) map_of_SomeD [OF that] by fastforce
  then show ?thesis by (auto simp: ttl_get_def times "values" duration_since_def split: option.splits)
qed

lemma suffix_map_of:
  assumes "suffix q p" and "distinct (map fst p)" and "map_of p k = Some x"
  shows "map_of q k = (if (k, x) \<in> set q then Some x else None)"
proof (cases "(k, x) \<in> set q")
  case True
  moreover have "distinct (map fst q)" using assms(1,2) by (auto simp: suffix_def)
  ultimately show ?thesis by simp
next
  case False
  have "map_of q k \<noteq> Some y" for y
  proof
    assume "map_of q k = Some y"
    then have "(k, y) \<in> set q" by (rule map_of_SomeD)
    moreover from this have "map_of p k = Some y" using assms(1,2) set_mono_suffix by fastforce
    ultimately show False using False assms(3) by simp
  qed
  with False show ?thesis by (cases "map_of q k") auto
qed

text \<open>After any history of insertions whose clock readings never step back, into a cache whose bound is not
  zero: nothing panics, the cache holds at most \<open>max_size\<close> entries, and a lookup returns nothing but the value
  last inserted under its key, and only while that is younger than the time to live. It does return it unless
  as many insertions as the bound have followed, which never happens without a bound.\<close>

theorem ttl_cache_lookup:
  assumes "max_size \<noteq> Some 0" and "sorted (clock_readings es @ [now])"
  shows "\<exists>c. run_inserts es (with_ttl_and_max_size ttl max_size) = Ret c
    \<and> (\<forall>m. max_size = Some m \<longrightarrow> length (tc_data c) \<le> m)
    \<and> (\<forall>key. case map_of (rev (inserted es)) key of
         None \<Rightarrow> ttl_get now c key = Ret None
       | Some (val, time) \<Rightarrow>
           if now - time < ttl
           then ttl_get now c key = Ret (Some val)
             \<or> ttl_get now c key = Ret None \<and> (\<exists>m. max_size = Some m \<and> m \<le> insertions_since (inserted es) key)
           else ttl_get now c key = Ret None)"
proof -
  from assms(2) have s: "sorted (clock_readings es)" "\<forall>r \<in> set (clock_readings es). r \<le> now" by (auto simp: sorted_append)
  from run_inserts_history [OF assms(1) s(1), of ttl] obtain c q where c: "run_inserts es (with_ttl_and_max_size ttl max_size) = Ret c"
    and h: "holds_history ttl max_size (inserted es) (last (0 # clock_readings es)) c q" by blast
  note h' = h [unfolded holds_history_def]
  have sub: "set q \<subseteq> set (inserted es)" using h' set_mono_suffix latest_subset by blast
  then have "\<forall>x \<in> set q. snd (snd x) \<le> now" using s(2) inserted_reading by fastforce
  with stored_get [of c q now] h' have get: "ttl_get now c key =
      Ret (case map_of q key of None \<Rightarrow> None | Some (v, t) \<Rightarrow> if now - t < ttl then Some v else None)" for key by blast
  have "map_of q key = None" if "map_of (rev (inserted es)) key = None" for key
    using that sub by (auto simp: map_of_eq_None_iff)
  moreover have "map_of q key = Some x \<or> map_of q key = None \<and>
      (ttl < now - snd x \<or> (\<exists>m. max_size = Some m \<and> m \<le> insertions_since (inserted es) key))"
    if "map_of (rev (inserted es)) key = Some x" for key x
  proof -
    from that have x: "map_of (latest (inserted es)) key = Some x" by (simp add: map_of_latest)
    have q: "map_of q key = (if (key, x) \<in> set q then Some x else None)"
      using h' suffix_map_of [OF _ latest_distinct x] by blast
    have last: "last (0 # clock_readings es) \<le> now" using s(2) by (cases "clock_readings es") auto
    have "ttl < now - snd x \<or> (\<exists>m. max_size = Some m \<and> m \<le> insertions_since (inserted es) key)" if out: "(key, x) \<notin> set q"
    proof -
      have "(key, x) \<in> set (latest (inserted es)) - set q" using map_of_SomeD [OF x] out by simp
      with h' have "expired ttl (last (0 # clock_readings es)) (key, x)
        \<or> (\<exists>m. max_size = Some m \<and> m \<le> insertions_since (inserted es) (fst (key, x)))" by blast
      with last show ?thesis unfolding expired_def by auto
    qed
    with q show ?thesis by auto
  qed
  ultimately show ?thesis using c get h' stored_length [of c q] by (fastforce split: option.splits)
qed

theorem ttl_cache_lookup_witness:
  "\<exists>c. run_inserts [(''x'', 10 :: nat, 0, 0), (''y'', 20, 3, 3), (''x'', 30, 5, 6)] (with_ttl_and_max_size 10 (Some 2)) = Ret c
    \<and> length (tc_data c) \<le> 2 \<and> ttl_get 9 c ''x'' = Ret (Some 30) \<and> ttl_get 9 c ''z'' = Ret None"
proof -
  let ?es = "[(''x'', 10 :: nat, 0, 0), (''y'', 20, 3, 3), (''x'', 30, 5, 6)]"
  have bounds: "Some 2 \<noteq> Some (0 :: nat)" "sorted (clock_readings ?es @ [9])" by (simp_all add: clock_readings_def)
  from ttl_cache_lookup [OF bounds, of 10] obtain c where
    c: "run_inserts ?es (with_ttl_and_max_size 10 (Some 2)) = Ret c" "length (tc_data c) \<le> 2"
    and look: "\<forall>key. case map_of (rev (inserted ?es)) key of
         None \<Rightarrow> ttl_get 9 c key = Ret None
       | Some (val, time) \<Rightarrow>
           if 9 - time < 10
           then ttl_get 9 c key = Ret (Some val)
             \<or> ttl_get 9 c key = Ret None \<and> (\<exists>m. Some 2 = Some m \<and> m \<le> insertions_since (inserted ?es) key)
           else ttl_get 9 c key = Ret None" by blast
  have "map_of (rev (inserted ?es)) ''x'' = Some (30, 6)" "map_of (rev (inserted ?es)) ''z'' = None"
    "insertions_since (inserted ?es) ''x'' = 0" by (simp_all add: inserted_def insertions_since_def)
  with spec [OF look, of "''x''"] spec [OF look, of "''z''"] c show ?thesis by auto
qed

text \<open>A cache bounded to no entries panics on its first insertion, and a lookup after the clock stepped back panics.\<close>

lemma zero_bound_panics: "ttl_insert p t k v (with_ttl_and_max_size ttl (Some 0)) = Panic"
  by (simp add: ttl_insert_def prune_old_entries_def with_ttl_and_max_size_def prune_size.simps pop_entry_def)

lemma clock_step_back_panics:
  assumes "stored c q" and "map_of q k = Some (v, t)" and "now < t"
  shows "ttl_get now c k = Panic"
  using assms by (simp add: ttl_get_def stored_def duration_since_def map_of_columns)

end
