(* ===== verification/External_Sort.thy ===== *)
theory External_Sort
  imports File_Store
begin

text \<open>
  \<open>external_sort.rs\<close>: items are cut into chunks, each chunk is sorted and written to a temporary file behind
  length headers, and the files are merged through a heap of their next items. A file is the list of the bytes not
  read yet; the bincode codec is a parameter. What the iterator needs of \<open>BinaryHeap\<close> is the locale
  \<open>head_heap\<close>, which is interpreted on a list from which the first least head is taken.
\<close>

section \<open>Chunks\<close>

fun write_into :: "('a \<Rightarrow> u8s option) \<Rightarrow> 'a list \<Rightarrow> u8s option" where
  "write_into enc [] = Some []"
| "write_into enc (item # data) =
     (case enc item of
        None \<Rightarrow> None
      | Some bytes \<Rightarrow>
          map_option (\<lambda>rest. to_le_bytes (word_of_nat (length bytes)) @ bytes @ rest) (write_into enc data))"

definition chunk_store :: "('a :: linorder \<Rightarrow> u8s option) \<Rightarrow> 'a list \<Rightarrow> u8s option" where
  "chunk_store enc data = write_into enc (sort data)"

definition stored_next :: "(u8s \<Rightarrow> 'a option) \<Rightarrow> u8s \<Rightarrow> ('a \<times> u8s) option" where
  "stored_next dec data =
     (if length data < 8 then None
      else let next_size = unat (from_le_bytes (take 8 data)); rest = drop 8 data in
           if length rest < next_size then None
           else map_option (\<lambda>item. (item, drop next_size rest)) (dec (take next_size rest)))"

text \<open>The loop of \<open>sort\<close> that fills the chunks, and the last chunk after it.\<close>

fun store_chunks :: "('a :: linorder \<Rightarrow> u8s option) \<Rightarrow> nat \<Rightarrow> 'a list \<Rightarrow> 'a list \<Rightarrow> u8s list option" where
  "store_chunks enc chunk_size chunk [] =
     (if chunk = [] then Some [] else map_option (\<lambda>f. [f]) (chunk_store enc chunk))"
| "store_chunks enc chunk_size chunk (item # iter) =
     (let chunk = chunk @ [item] in
      if chunk_size \<le> length chunk
      then (case chunk_store enc chunk of
              None \<Rightarrow> None
            | Some f \<Rightarrow> map_option ((#) f) (store_chunks enc chunk_size [] iter))
      else store_chunks enc chunk_size chunk iter)"

section \<open>The merge\<close>

record 'a chunk_head =
  hd_item :: 'a
  hd_rest :: u8s

definition head_new :: "(u8s \<Rightarrow> 'a option) \<Rightarrow> u8s \<Rightarrow> 'a chunk_head option" where
  "head_new dec chunk = map_option (\<lambda>(item, rest). \<lparr> hd_item = item, hd_rest = rest \<rparr>) (stored_next dec chunk)"

text \<open>The heap of reversed heads: a list, popped at the first of its least items.\<close>

fun head_pop :: "('a :: linorder) chunk_head list \<Rightarrow> ('a chunk_head \<times> 'a chunk_head list) option" where
  "head_pop [] = None"
| "head_pop (h # hs) =
     (case head_pop hs of
        None \<Rightarrow> Some (h, [])
      | Some (m, rest) \<Rightarrow> if hd_item h \<le> hd_item m then Some (h, hs) else Some (m, h # rest))"

definition head_push :: "'a chunk_head \<Rightarrow> 'a chunk_head list \<Rightarrow> 'a chunk_head list" where
  "head_push h hs = h # hs"

definition sort_external :: "('a :: linorder \<Rightarrow> u8s option) \<Rightarrow> (u8s \<Rightarrow> 'a option) \<Rightarrow> nat \<Rightarrow> 'a list \<Rightarrow> 'a chunk_head list option" where
  "sort_external enc dec chunk_size iter =
     map_option (\<lambda>stored_chunks. List.map_filter (head_new dec) stored_chunks) (store_chunks enc chunk_size [] iter)"

definition sorted_iterator_next ::
  "(u8s \<Rightarrow> 'a :: linorder option) \<Rightarrow> 'a chunk_head list \<Rightarrow> ('a \<times> 'a chunk_head list) option" where
  "sorted_iterator_next dec chunks =
     (case head_pop chunks of
        None \<Rightarrow> None
      | Some (head, chunks) \<Rightarrow>
          Some (hd_item head,
            case stored_next dec (hd_rest head) of
              None \<Rightarrow> chunks
            | Some (next, rest) \<Rightarrow> head_push \<lparr> hd_item = next, hd_rest = rest \<rparr> chunks))"

lemma head_pop_None: "head_pop hs = None \<longleftrightarrow> hs = []"
  by (cases hs) (auto split: option.splits)

lemma head_pop_mset: "head_pop hs = Some (m, rest) \<Longrightarrow> mset hs = add_mset m (mset rest)"
  by (induction hs arbitrary: m rest) (auto simp: head_pop_None split: option.splits if_splits)

lemma stored_next_shrinks: "stored_next dec data = Some (item, rest) \<Longrightarrow> length rest < length data"
  by (auto simp: stored_next_def Let_def split: if_splits)

definition bytes_left :: "'a chunk_head list \<Rightarrow> nat" where
  "bytes_left hs = sum_mset (image_mset (\<lambda>h. Suc (length (hd_rest h))) (mset hs))"

lemma sorted_iterator_progress:
  assumes "sorted_iterator_next dec hs = Some (x, hs')"
  shows "bytes_left hs' < bytes_left hs"
  using assms by (auto simp: sorted_iterator_next_def bytes_left_def head_push_def split: option.splits
      dest!: head_pop_mset stored_next_shrinks)

text \<open>Collecting the iterator: every step takes bytes from a chunk, so it terminates.\<close>

function merge_collect :: "(u8s \<Rightarrow> 'a :: linorder option) \<Rightarrow> 'a chunk_head list \<Rightarrow> 'a list" where
  "merge_collect dec chunks =
     (case sorted_iterator_next dec chunks of
        None \<Rightarrow> []
      | Some (item, chunks) \<Rightarrow> item # merge_collect dec chunks)"
  by pat_completeness auto
termination
  by (relation "measure (\<lambda>(dec, hs). bytes_left hs)") (auto dest!: sorted_iterator_progress)

declare merge_collect.simps [simp del]

section \<open>What a stored chunk holds\<close>

function decode_all :: "(u8s \<Rightarrow> 'a option) \<Rightarrow> u8s \<Rightarrow> 'a list" where
  "decode_all dec data =
     (case stored_next dec data of None \<Rightarrow> [] | Some (item, rest) \<Rightarrow> item # decode_all dec rest)"
  by pat_completeness auto
termination
  by (relation "measure (\<lambda>(dec, data). length data)") (auto dest!: stored_next_shrinks)

declare decode_all.simps [simp del]

definition items :: "(u8s \<Rightarrow> 'a option) \<Rightarrow> 'a chunk_head \<Rightarrow> 'a list" where
  "items dec h = hd_item h # decode_all dec (hd_rest h)"

lemma stored_next_write:
  assumes "dec bytes = Some item" and "length bytes < 2 ^ 63"
  shows "stored_next dec (to_le_bytes (word_of_nat (length bytes)) @ bytes @ rest) = Some (item, rest)"
proof -
  have "unat (word_of_nat (length bytes) :: 64 word) = length bytes" using assms(2) by (simp add: unat_of_nat)
  then show ?thesis using assms(1) by (simp add: stored_next_def)
qed

lemma decode_write_into:
  assumes "codec_ok enc dec" and "write_into enc xs = Some data"
  shows "decode_all dec data = xs"
  using assms(2)
proof (induction xs arbitrary: data)
  case Nil
  then show ?case by (subst decode_all.simps) (simp add: stored_next_def)
next
  case (Cons x xs)
  from Cons.prems obtain bytes rest where b: "enc x = Some bytes" "write_into enc xs = Some rest"
    "data = to_le_bytes (word_of_nat (length bytes)) @ bytes @ rest" by (auto split: option.splits)
  with assms(1) have "stored_next dec data = Some (x, rest)" by (auto simp: codec_ok_def intro: stored_next_write)
  then show ?case using Cons.IH [OF b(2)] by (subst decode_all.simps) simp
qed

lemma write_into_total: "write_into enc xs = None \<longleftrightarrow> (\<exists>x \<in> set xs. enc x = None)"
  by (induction xs) (auto split: option.splits)

section \<open>The interface of the heap\<close>

locale head_heap =
  fixes pop :: "'h \<Rightarrow> ('a :: linorder chunk_head \<times> 'h) option"
    and push :: "'a chunk_head \<Rightarrow> 'h \<Rightarrow> 'h"
    and contents :: "'h \<Rightarrow> 'a chunk_head multiset"
  assumes pop_empty: "pop q = None \<longleftrightarrow> contents q = {#}"
    and pop_contents: "pop q = Some (m, q') \<Longrightarrow> contents q = add_mset m (contents q')"
    and pop_least: "pop q = Some (m, q') \<Longrightarrow> h \<in># contents q \<Longrightarrow> hd_item m \<le> hd_item h"
    and push_contents: "contents (push h q) = add_mset h (contents q)"
begin

definition pending :: "(u8s \<Rightarrow> 'a option) \<Rightarrow> 'h \<Rightarrow> 'a multiset" where
  "pending dec q = sum_mset (image_mset (\<lambda>h. mset (items dec h)) (contents q))"

definition ascending :: "(u8s \<Rightarrow> 'a option) \<Rightarrow> 'h \<Rightarrow> bool" where
  "ascending dec q \<longleftrightarrow> (\<forall>h \<in># contents q. sorted (items dec h))"

text \<open>The heap after the popped head's successor, if its chunk has one, is pushed back.\<close>

definition refill :: "(u8s \<Rightarrow> 'a option) \<Rightarrow> 'a chunk_head \<Rightarrow> 'h \<Rightarrow> 'h" where
  "refill dec m q =
     (case stored_next dec (hd_rest m) of
        None \<Rightarrow> q
      | Some (next, rest) \<Rightarrow> push \<lparr> hd_item = next, hd_rest = rest \<rparr> q)"

lemma popped_is_least:
  assumes "pop q = Some (m, q')" and "ascending dec q" and "y \<in># pending dec q"
  shows "hd_item m \<le> y"
proof -
  from assms(3) obtain h where h: "h \<in># contents q" "y \<in> set (items dec h)" by (auto simp: pending_def)
  with assms(2) have "hd_item h \<le> y" by (auto simp: ascending_def items_def)
  with pop_least [OF assms(1) h(1)] show ?thesis by (rule order_trans)
qed

lemma refill_pending:
  assumes "pop q = Some (m, q')" and "ascending dec q"
  shows "pending dec q = add_mset (hd_item m) (pending dec (refill dec m q'))" "ascending dec (refill dec m q')"
proof -
  have rest: "decode_all dec (hd_rest m) =
      (case stored_next dec (hd_rest m) of None \<Rightarrow> [] | Some (item, rest) \<Rightarrow> item # decode_all dec rest)"
    by (rule decode_all.simps)
  show "pending dec q = add_mset (hd_item m) (pending dec (refill dec m q'))"
    using rest by (auto simp: pending_def pop_contents [OF assms(1)] refill_def push_contents items_def split: option.splits)
  have "sorted (items dec m)" using assms(2) by (simp add: ascending_def pop_contents [OF assms(1)])
  then show "ascending dec (refill dec m q')"
    using assms(2) rest by (auto simp: ascending_def pop_contents [OF assms(1)] refill_def push_contents items_def split: option.splits)
qed

end

lemma head_pop_least: "head_pop hs = Some (m, rest) \<Longrightarrow> h \<in> set hs \<Longrightarrow> hd_item m \<le> hd_item h"
proof (induction hs arbitrary: m rest)
  case (Cons a hs)
  then show ?case by (cases "head_pop hs") (fastforce simp: head_pop_None split: if_splits prod.splits)+
qed simp

interpretation heads: head_heap head_pop head_push mset
  by unfold_locales (auto simp: head_pop_None head_push_def head_pop_least dest: head_pop_mset)

section \<open>Sorting\<close>

lemma sorted_iterator_refill:
  "sorted_iterator_next dec hs = map_option (\<lambda>(m, hs'). (hd_item m, heads.refill dec m hs')) (head_pop hs)"
  by (auto simp: sorted_iterator_next_def heads.refill_def split: option.splits)

lemma sorted_collect_pending:
  assumes "heads.ascending dec hs"
  shows "sorted (merge_collect dec hs) \<and> mset (merge_collect dec hs) = heads.pending dec hs"
  using assms
proof (induction dec hs rule: merge_collect.induct)
  case (1 dec hs)
  show ?case
  proof (cases "head_pop hs")
    case None
    then show ?thesis
      by (subst merge_collect.simps) (simp add: merge_collect.simps sorted_iterator_refill head_pop_None heads.pending_def)
  next
    case (Some p)
    obtain m hs' where p: "head_pop hs = Some (m, hs')" using Some by (cases p) simp
    let ?rest = "heads.refill dec m hs'"
    have nxt: "sorted_iterator_next dec hs = Some (hd_item m, ?rest)" by (simp add: sorted_iterator_refill p)
    note step = heads.refill_pending [OF p "1.prems"]
    have IH: "sorted (merge_collect dec ?rest)" "mset (merge_collect dec ?rest) = heads.pending dec ?rest"
      using "1.IH" [OF nxt refl step(2)] by simp_all
    have "\<forall>y \<in> set (merge_collect dec ?rest). hd_item m \<le> y"
      using heads.popped_is_least [OF p "1.prems"] IH(2) step(1) by (metis set_mset_mset union_iff add_mset_add_single)
    moreover have "merge_collect dec hs = hd_item m # merge_collect dec ?rest"
      by (subst merge_collect.simps) (simp add: nxt)
    ultimately show ?thesis using IH step(1) by simp
  qed
qed

lemma head_new_items:
  "(case head_new dec f of None \<Rightarrow> [] | Some h \<Rightarrow> items dec h) = decode_all dec f"
  by (subst decode_all.simps) (auto simp: head_new_def items_def split: option.splits)

lemma heads_of_chunks:
  assumes "list_all (\<lambda>f. sorted (decode_all dec f)) fs"
  shows "heads.ascending dec (List.map_filter (head_new dec) fs)
    \<and> heads.pending dec (List.map_filter (head_new dec) fs) = sum_list (map (\<lambda>f. mset (decode_all dec f)) fs)"
  using assms
proof (induction fs)
  case (Cons f fs)
  then show ?case using head_new_items [of dec f]
    by (cases "head_new dec f") (auto simp: List.map_filter_simps heads.ascending_def heads.pending_def)
qed (simp add: List.map_filter_simps heads.ascending_def heads.pending_def)

lemma decode_chunk:
  assumes "codec_ok enc dec" and "chunk_store enc chunk = Some f"
  shows "decode_all dec f = sort chunk"
  using decode_write_into [OF assms(1)] assms(2) by (auto simp: chunk_store_def)

lemma store_chunks_contents:
  assumes "codec_ok enc dec" and "store_chunks enc n chunk iter = Some fs"
  shows "list_all (\<lambda>f. sorted (decode_all dec f)) fs
    \<and> sum_list (map (\<lambda>f. mset (decode_all dec f)) fs) = mset chunk + mset iter"
  using assms(2)
proof (induction iter arbitrary: chunk fs)
  case Nil
  then show ?case by (auto simp: decode_chunk [OF assms(1)] split: if_splits)
next
  case (Cons x iter)
  show ?case
  proof (cases "n \<le> length (chunk @ [x])")
    case True
    with Cons.prems obtain f fs' where "chunk_store enc (chunk @ [x]) = Some f" "store_chunks enc n [] iter = Some fs'" "fs = f # fs'"
      by (auto split: option.splits)
    with Cons.IH [of "[]" fs'] show ?thesis by (auto simp: decode_chunk [OF assms(1)])
  next
    case False
    with Cons.prems Cons.IH [of "chunk @ [x]" fs] show ?thesis by auto
  qed
qed

lemma store_chunks_total:
  "store_chunks enc n chunk iter = None \<longleftrightarrow> (\<exists>x \<in> set chunk \<union> set iter. enc x = None)"
proof (induction iter arbitrary: chunk)
  case Nil
  then show ?case using write_into_total [of enc "sort chunk"] by (auto simp: chunk_store_def)
next
  case (Cons x iter)
  show ?case
    using Cons.IH write_into_total [of enc "sort (chunk @ [x])"]
    by (cases "chunk_store enc (chunk @ [x])") (auto simp: chunk_store_def Let_def)
qed

text \<open>Sorting is correct for every chunk size, zero included: it fails exactly when some item cannot be
  encoded, and otherwise the merged iterator yields the items of the input in ascending order, each as often
  as the input has it.\<close>

theorem external_sort_sorts:
  assumes "codec_ok enc dec"
  shows "if \<exists>x \<in> set xs. enc x = None then sort_external enc dec chunk_size xs = None
    else \<exists>chunks. sort_external enc dec chunk_size xs = Some chunks \<and> merge_collect dec chunks = sort xs"
proof (cases "store_chunks enc chunk_size [] xs")
  case None
  then show ?thesis using store_chunks_total [of enc chunk_size "[]" xs] by (simp add: sort_external_def)
next
  case (Some fs)
  let ?chunks = "List.map_filter (head_new dec) fs"
  note fs = store_chunks_contents [OF assms Some]
  have "sorted (merge_collect dec ?chunks)" "mset (merge_collect dec ?chunks) = mset xs"
    using sorted_collect_pending [of dec ?chunks] heads_of_chunks [of dec fs] fs by auto
  then have "sort xs = merge_collect dec ?chunks" by (metis properties_for_sort)
  then show ?thesis using Some store_chunks_total [of enc chunk_size "[]" xs] by (simp add: sort_external_def)
qed

theorem external_sort_sorts_witness:
  "\<exists>chunks. sort_external u64_enc u64_dec 2 [9, 4, 7, 4, 1] = Some chunks \<and> merge_collect u64_dec chunks = [1, 4, 4, 7, 9]"
  using external_sort_sorts [OF u64_codec_ok, of "[9, 4, 7, 4, 1]" 2] by (auto simp: u64_enc_def word_le_nat_alt)

end
