(* ===== verification/Docset.thy ===== *)
theory Docset
  imports File_Store
begin

text \<open>
  Cursors over ascending document numbers, as queries are executed with them: the contract of tantivy's
  \<open>DocSet\<close>, the scorer of every document (\<open>core/src/query/pattern_query/scorer.rs\<close>) and the intersection of
  cursors (\<open>core/src/query/intersection.rs\<close>). The cursor a struct is generic over is a record of the trait's
  methods; a method that changes the cursor returns its answer and the new cursor.
\<close>

section \<open>The trait\<close>

definition TERMINATED :: nat where
  "TERMINATED = 2 ^ 31 - 1"

record 's docset_ops =
  op_doc :: "'s \<Rightarrow> nat"
  op_advance :: "'s \<Rightarrow> nat \<times> 's"
  op_seek :: "nat \<Rightarrow> 's \<Rightarrow> nat \<times> 's"
  op_size_hint :: "'s \<Rightarrow> nat"

text \<open>The default \<open>seek\<close> of the trait advances until the target, and a cursor is consumed by advancing it to the end.\<close>

partial_function (option) default_seek :: "('s \<Rightarrow> nat \<times> 's) \<Rightarrow> nat \<Rightarrow> nat \<Rightarrow> 's \<Rightarrow> (nat \<times> 's) option" where
  "default_seek advance target doc s =
     (if doc < target then (case advance s of (d, s') \<Rightarrow> default_seek advance target d s') else Some (doc, s))"

partial_function (option) collect_docs :: "'s docset_ops \<Rightarrow> 's \<Rightarrow> nat list option" where
  "collect_docs D s =
     (if op_doc D s = TERMINATED then Some []
      else Option.bind (collect_docs D (snd (op_advance D s))) (\<lambda>ds. Some (op_doc D s # ds)))"

section \<open>Every document\<close>

record all_scorer =
  as_doc :: nat
  as_max_doc :: nat

definition all_advance :: "all_scorer \<Rightarrow> nat \<times> all_scorer" where
  "all_advance s =
     (if as_doc s + 1 \<ge> as_max_doc s then (TERMINATED, s\<lparr> as_doc := TERMINATED \<rparr>)
      else (as_doc s + 1, s\<lparr> as_doc := as_doc s + 1 \<rparr>))"

definition all_seek :: "nat \<Rightarrow> all_scorer \<Rightarrow> nat \<times> all_scorer" where
  "all_seek target s =
     (if target \<ge> as_max_doc s then (TERMINATED, s\<lparr> as_doc := TERMINATED \<rparr>)
      else (target, s\<lparr> as_doc := target \<rparr>))"

definition all_ops :: "all_scorer docset_ops" where
  "all_ops = \<lparr> op_doc = as_doc, op_advance = all_advance, op_seek = all_seek, op_size_hint = as_max_doc \<rparr>"

section \<open>The intersection\<close>

record 's intersection =
  ix_docsets :: "'s list"
  ix_old_idx :: "nat list"

text \<open>
  One round of the loop over the cursors: each seeks the candidate, up to the first that has gone past it, which is returned
  with the answer of its seek.
\<close>

fun seek_pass :: "'s docset_ops \<Rightarrow> nat \<Rightarrow> 's list \<Rightarrow> (nat \<times> 's) option \<times> 's list" where
  "seek_pass D candidate [] = (None, [])"
| "seek_pass D candidate (s # ss) =
     (case op_seek D candidate s of (d, s') \<Rightarrow>
        if d > candidate then (Some (d, s'), s' # ss)
        else (case seek_pass D candidate ss of (r, ss') \<Rightarrow> (r, s' # ss')))"

partial_function (option) first_doc_loop :: "'s docset_ops \<Rightarrow> nat \<Rightarrow> 's list \<Rightarrow> (nat \<times> 's list) option" where
  "first_doc_loop D candidate ss =
     (case seek_pass D candidate ss of
        (None, ss') \<Rightarrow> Some (candidate, ss')
      | (Some (d, s), ss') \<Rightarrow> first_doc_loop D (op_doc D s) ss')"

definition go_to_first_doc :: "'s docset_ops \<Rightarrow> 's list \<Rightarrow> (nat \<times> 's list) may_panic option" where
  "go_to_first_doc D ss =
     (if ss = [] then Some Panic
      else map_option Ret (first_doc_loop D (Max (set (map (op_doc D) ss))) ss))"

definition place_idx :: "nat list \<Rightarrow> nat \<times> nat \<Rightarrow> nat list" where
  "place_idx old_idx p = old_idx[snd p := fst p]"

definition intersection_new :: "'s docset_ops \<Rightarrow> 's list \<Rightarrow> 's intersection may_panic option" where
  "intersection_new D ss =
     (if length ss = 1 then Some (Ret \<lparr> ix_docsets = ss, ix_old_idx = [0] \<rparr>)
      else
        (let es = sort_key (\<lambda>p. op_size_hint D (snd p)) (enumerate 0 ss);
             old_idx = foldl place_idx (replicate (length ss) 0) (enumerate 0 (map fst es))
         in map_option (\<lambda>r. outcome_bind r (\<lambda>p. Ret \<lparr> ix_docsets = snd p, ix_old_idx = old_idx \<rparr>)) (go_to_first_doc D (map snd es))))"

definition intersection_doc :: "'s docset_ops \<Rightarrow> 's intersection \<Rightarrow> nat" where
  "intersection_doc D x = (case ix_docsets x of [] \<Rightarrow> TERMINATED | s # _ \<Rightarrow> op_doc D s)"

definition intersection_size_hint :: "'s docset_ops \<Rightarrow> 's intersection \<Rightarrow> nat" where
  "intersection_size_hint D x = (case ix_docsets x of [] \<Rightarrow> 0 | s # _ \<Rightarrow> op_size_hint D s)"

partial_function (option) advance_loop :: "'s docset_ops \<Rightarrow> nat \<Rightarrow> 's \<Rightarrow> 's list \<Rightarrow> (nat \<times> 's list) option" where
  "advance_loop D candidate rarest others =
     (case seek_pass D candidate others of
        (None, others') \<Rightarrow> Some (candidate, rarest # others')
      | (Some (d, s), others') \<Rightarrow>
          (case op_seek D d rarest of (candidate', rarest') \<Rightarrow> advance_loop D candidate' rarest' others'))"

definition intersection_advance :: "'s docset_ops \<Rightarrow> 's intersection \<Rightarrow> (nat \<times> 's intersection) option" where
  "intersection_advance D x =
     (case ix_docsets x of
        [] \<Rightarrow> Some (TERMINATED, x)
      | rarest # others \<Rightarrow>
          (case op_advance D rarest of (candidate, rarest') \<Rightarrow>
             if others = [] then Some (candidate, x\<lparr> ix_docsets := [rarest'] \<rparr>)
             else map_option (\<lambda>(d, ss). (d, x\<lparr> ix_docsets := ss \<rparr>)) (advance_loop D candidate rarest' others)))"

definition intersection_seek :: "'s docset_ops \<Rightarrow> nat \<Rightarrow> 's intersection \<Rightarrow> (nat \<times> 's intersection) option" where
  "intersection_seek D target x =
     (case ix_docsets x of
        [] \<Rightarrow> Some (TERMINATED, x)
      | s # others \<Rightarrow>
          (case op_seek D target s of (_, s') \<Rightarrow>
             if others = [] then Some (op_doc D s', x\<lparr> ix_docsets := [s'] \<rparr>)
             else map_option (\<lambda>(d, ss). (d, x\<lparr> ix_docsets := ss \<rparr>))
                    (first_doc_loop D (Max (set (map (op_doc D) (s' # others)))) (s' # others))))"

definition docset_mut_specialized :: "'s intersection \<Rightarrow> nat \<Rightarrow> 's may_panic" where
  "docset_mut_specialized x ord =
     (if ord < length (ix_old_idx x) \<and> ix_old_idx x ! ord < length (ix_docsets x)
      then Ret (ix_docsets x ! (ix_old_idx x ! ord)) else Panic)"

definition intersection_ops :: "'s docset_ops \<Rightarrow> 's intersection docset_ops" where
  "intersection_ops D =
     \<lparr> op_doc = intersection_doc D, op_advance = (\<lambda>x. the (intersection_advance D x)),
       op_seek = (\<lambda>target x. the (intersection_seek D target x)), op_size_hint = intersection_size_hint D \<rparr>"

section \<open>Ascending lists\<close>

definition head_doc :: "nat list \<Rightarrow> nat" where
  "head_doc ds = (case ds of [] \<Rightarrow> TERMINATED | d # _ \<Rightarrow> d)"

definition ascending_docs :: "nat list \<Rightarrow> bool" where
  "ascending_docs ds \<longleftrightarrow> sorted_wrt (<) ds \<and> (\<forall>d \<in> set ds. d < TERMINATED)"

abbreviation docs_from :: "nat \<Rightarrow> nat list \<Rightarrow> nat list" where
  "docs_from t \<equiv> dropWhile (\<lambda>d. d < t)"

lemma head_doc_simps [simp]: "head_doc [] = TERMINATED" "head_doc (d # ds) = d"
  by (simp_all add: head_doc_def)

lemma ascending_simps [simp]:
  "ascending_docs []" "ascending_docs (d # ds) \<longleftrightarrow> d < TERMINATED \<and> (\<forall>e \<in> set ds. d < e) \<and> ascending_docs ds"
  by (auto simp: ascending_docs_def)

lemma ascending_from: "ascending_docs ds \<Longrightarrow> ascending_docs (docs_from t ds)"
  by (induction ds) auto

lemma set_docs_from: "ascending_docs ds \<Longrightarrow> set (docs_from t ds) = {d \<in> set ds. t \<le> d}"
  by (induction ds) force+

lemma head_le: "ascending_docs ds \<Longrightarrow> d \<in> set ds \<Longrightarrow> head_doc ds \<le> d"
  by (cases ds) (auto intro: less_imp_le)

lemma head_in: "ascending_docs ds \<Longrightarrow> head_doc ds < TERMINATED \<Longrightarrow> head_doc ds \<in> set ds"
  by (cases ds) auto

lemma head_bound: "ascending_docs ds \<Longrightarrow> head_doc ds \<le> TERMINATED"
  by (cases ds) auto

lemma head_from: "ascending_docs ds \<Longrightarrow> t \<le> TERMINATED \<Longrightarrow> t \<le> head_doc (docs_from t ds)"
  using head_in [OF ascending_from, of ds t] set_docs_from [of ds t] head_bound [OF ascending_from, of ds t]
  by (metis (mono_tags, lifting) le_neq_implies_less mem_Collect_eq)

lemma from_from: "t \<le> u \<Longrightarrow> docs_from u (docs_from t ds) = docs_from u ds"
  by (induction ds) auto

lemma from_head: "t \<le> head_doc ds \<Longrightarrow> docs_from t ds = ds"
  by (cases ds) auto

lemma ascending_eqI: "ascending_docs xs \<Longrightarrow> ascending_docs ys \<Longrightarrow> set xs = set ys \<Longrightarrow> xs = ys"
  unfolding ascending_docs_def by (metis strict_sorted_equal)

lemma tl_from: "ascending_docs ds \<Longrightarrow> set (tl ds) = set ds - {head_doc ds}"
  by (cases ds) auto

lemma ascending_tl: "ascending_docs ds \<Longrightarrow> ascending_docs (tl ds)"
  by (cases ds) auto

lemma ascending_filter: "ascending_docs ds \<Longrightarrow> ascending_docs (filter P ds)"
  by (induction ds) auto

lemma from_filter: "ascending_docs ds \<Longrightarrow> docs_from t ds = filter ((\<le>) t) ds"
proof (induction ds)
  case (Cons d ds)
  moreover have "filter ((\<le>) t) ds = ds" if "t \<le> d" using Cons.prems that by (auto simp: filter_id_conv)
  ultimately show ?case by auto
qed simp

lemma ascending_sorted: "ascending_docs ds \<Longrightarrow> sorted_list_of_set (set ds) = ds"
  by (simp add: ascending_docs_def strict_sorted_iff sorted_list_of_set.idem_if_sorted_distinct)

section \<open>The contract\<close>

text \<open>What the trait's documentation promises, on the documents a cursor has not passed yet.\<close>

locale docset_iter =
  fixes D :: "'s docset_ops" and docs :: "'s \<Rightarrow> nat list" and ok :: "'s \<Rightarrow> bool"
  assumes docs_ascending: "ok s \<Longrightarrow> ascending_docs (docs s)"
    and doc_head: "ok s \<Longrightarrow> op_doc D s = head_doc (docs s)"
    and advance_next: "ok s \<Longrightarrow> op_advance D s = (d, s') \<Longrightarrow> ok s' \<and> docs s' = tl (docs s) \<and> d = op_doc D s'"
begin

lemma doc_bound: "ok s \<Longrightarrow> op_doc D s \<le> TERMINATED"
  by (simp add: doc_head head_bound docs_ascending)

lemma collect_exact: "ok s \<Longrightarrow> collect_docs D s = Some (docs s)"
proof (induction "docs s" arbitrary: s)
  case Nil
  then show ?case by (subst collect_docs.simps) (metis doc_head head_doc_simps(1))
next
  case (Cons d ds)
  obtain e s' where a: "op_advance D s = (e, s')" by force
  have n: "ok s'" "docs s' = ds" using advance_next [OF Cons.prems a] Cons.hyps(2) by (metis list.sel(3))+
  have "op_doc D s = d" "d \<noteq> TERMINATED"
    using doc_head [OF Cons.prems] docs_ascending [OF Cons.prems] by (simp_all flip: Cons.hyps(2))
  then show ?case
    using Cons.hyps(1) [OF n(2) [symmetric] n(1)] a n(2) Cons.hyps(2) by (subst collect_docs.simps) simp
qed

lemma default_seek_from:
  assumes "ok s" and "t \<le> TERMINATED"
  shows "\<exists>s'. default_seek (op_advance D) t (op_doc D s) s = Some (op_doc D s', s') \<and> ok s' \<and> docs s' = docs_from t (docs s)"
  using assms(1)
proof (induction "docs s" arbitrary: s)
  case Nil
  then have "op_doc D s = TERMINATED" by (metis doc_head head_doc_simps(1))
  with Nil assms(2) show ?case by (subst default_seek.simps) auto
next
  case (Cons d ds)
  obtain e s' where a: "op_advance D s = (e, s')" by force
  have n: "ok s'" "docs s' = ds" "e = op_doc D s'" using advance_next [OF Cons.prems a] Cons.hyps(2) by (metis list.sel(3))+
  have d: "op_doc D s = d" using doc_head [OF Cons.prems] by (simp flip: Cons.hyps(2))
  show ?case
  proof (cases "d < t")
    case True
    with Cons.hyps(1) [OF n(2) [symmetric] n(1)] a n d Cons.hyps(2) show ?thesis
      by (subst default_seek.simps) (auto simp flip: Cons.hyps(2))
  next
    case False
    with Cons.prems d show ?thesis by (subst default_seek.simps) (auto simp flip: Cons.hyps(2))
  qed
qed

end

locale docset = docset_iter D docs ok for D :: "'s docset_ops" and docs and ok +
  assumes seek_from: "ok s \<Longrightarrow> op_doc D s \<le> t \<Longrightarrow> t \<le> TERMINATED \<Longrightarrow> op_seek D t s = (d, s') \<Longrightarrow>
      ok s' \<and> docs s' = docs_from t (docs s) \<and> d = op_doc D s'"

text \<open>A cursor without a \<open>seek\<close> of its own keeps the whole contract.\<close>

context docset_iter
begin

lemma default_docset:
  assumes "\<And>t s. op_seek D t s = the (default_seek (op_advance D) t (op_doc D s) s)"
  shows "docset D docs ok"
proof
  show "ok s' \<and> docs s' = docs_from t (docs s) \<and> d = op_doc D s'"
    if "ok s" "t \<le> TERMINATED" "op_seek D t s = (d, s')" for s t d s'
    using default_seek_from [OF that(1,2)] that(3) by (auto simp: assms)
qed

end

interpretation all_docset: docset all_ops
  "\<lambda>s. if as_doc s = TERMINATED then [] else [as_doc s..<as_max_doc s]"
  "\<lambda>s. as_max_doc s \<le> TERMINATED \<and> (as_doc s < as_max_doc s \<or> as_doc s = TERMINATED)"
proof
  fix t d and s s' :: all_scorer
  let ?docs = "\<lambda>s. if as_doc s = TERMINATED then [] else [as_doc s..<as_max_doc s]"
  assume ok: "as_max_doc s \<le> TERMINATED \<and> (as_doc s < as_max_doc s \<or> as_doc s = TERMINATED)"
  show "ascending_docs (?docs s)" using ok by (auto simp: ascending_docs_def)
  show "op_doc all_ops s = head_doc (?docs s)" using ok by (auto simp: all_ops_def upt_rec)
  have from_upt: "docs_from t [a..<b] = [max a t..<b]" for a b
    by (induction b arbitrary: a) (auto simp: dropWhile_append max_def)
  show "(as_max_doc s' \<le> TERMINATED \<and> (as_doc s' < as_max_doc s' \<or> as_doc s' = TERMINATED)) \<and> ?docs s' = tl (?docs s) \<and> d = op_doc all_ops s'"
    if "op_advance all_ops s = (d, s')"
    using ok that by (auto simp: all_ops_def all_advance_def upt_rec [of "as_doc s"] split: if_splits)
  show "(as_max_doc s' \<le> TERMINATED \<and> (as_doc s' < as_max_doc s' \<or> as_doc s' = TERMINATED)) \<and> ?docs s' = docs_from t (?docs s) \<and> d = op_doc all_ops s'"
    if "op_doc all_ops s \<le> t" "t \<le> TERMINATED" "op_seek all_ops t s = (d, s')"
    using ok that by (auto simp: all_ops_def all_seek_def from_upt max_def split: if_splits)
qed

section \<open>Rounds of seeking\<close>

context docset
begin

text \<open>A cursor that has moved forward to a document or stands there already.\<close>

definition moved :: "nat \<Rightarrow> 's \<Rightarrow> 's \<Rightarrow> bool" where
  "moved c s s' \<longleftrightarrow> ok s' \<and> op_doc D s' \<le> c \<and> (\<exists>t \<le> c. docs s' = docs_from t (docs s))"

definition landed :: "nat \<Rightarrow> 's \<Rightarrow> 's \<Rightarrow> bool" where
  "landed c s s' \<longleftrightarrow> ok s' \<and> op_doc D s' = c \<and> docs s' = docs_from c (docs s)"

definition common :: "'s list \<Rightarrow> nat set" where
  "common ss = {d. \<forall>s \<in> set ss. d \<in> set (docs s)}"

lemma moved_self: "ok s \<Longrightarrow> op_doc D s \<le> c \<Longrightarrow> moved c s s"
  unfolding moved_def by (intro conjI exI [of _ 0]) auto

lemma moved_later: "moved c s s' \<Longrightarrow> c \<le> c' \<Longrightarrow> moved c' s s'"
  unfolding moved_def by (meson order_trans)

lemma seek_landed:
  assumes "ok s" and "op_doc D s \<le> c" and "c \<le> TERMINATED" and "op_seek D c s = (d, s')"
  shows "landed d s s'" "c \<le> d" "d \<le> TERMINATED" "moved d s s'" "docs s' = docs_from c (docs s)"
proof -
  have n: "ok s'" "docs s' = docs_from c (docs s)" "d = op_doc D s'" using seek_from [OF assms] by auto
  then have d: "d = head_doc (docs_from c (docs s))" using doc_head by simp
  show c: "c \<le> d" unfolding d by (rule head_from [OF docs_ascending [OF assms(1)] assms(3)])
  have "docs s' = docs_from d (docs s)" using from_head [of d "docs s'"] from_from [OF c, of "docs s"] n doc_head by simp
  with n show "landed d s s'" by (simp add: landed_def)
  show "d \<le> TERMINATED" using n doc_bound by simp
  show "moved d s s'" unfolding moved_def using n c by auto
  show "docs s' = docs_from c (docs s)" by (rule n(2))
qed

lemma seek_pass_done:
  assumes "seek_pass D c ss = (None, ss')" and "\<forall>s \<in> set ss. ok s \<and> op_doc D s \<le> c" and "c \<le> TERMINATED"
  shows "list_all2 (landed c) ss ss'"
  using assms
proof (induction ss arbitrary: ss')
  case (Cons s ss)
  obtain d s1 where k: "op_seek D c s = (d, s1)" by force
  note l = seek_landed [OF _ _ Cons.prems(3) k]
  from Cons.prems k obtain ss1 where "\<not> c < d" "seek_pass D c ss = (None, ss1)" "ss' = s1 # ss1"
    by (auto split: if_splits prod.splits)
  with Cons l show ?case by (auto simp: order_antisym)
qed simp

lemma seek_pass_past:
  assumes "seek_pass D c ss = (Some (d, s1), ss')" and "\<forall>s \<in> set ss. ok s \<and> op_doc D s \<le> c" and "c \<le> TERMINATED"
  shows "c < d \<and> d \<le> TERMINATED \<and> op_doc D s1 = d \<and> list_all2 (moved d) ss ss' \<and> (\<exists>s \<in> set ss. head_doc (docs_from c (docs s)) = d)"
  using assms
proof (induction ss arbitrary: ss')
  case (Cons s ss)
  obtain e s2 where k: "op_seek D c s = (e, s2)" by force
  have ok: "ok s" "op_doc D s \<le> c" using Cons.prems(2) by auto
  note l = seek_landed [OF ok Cons.prems(3) k]
  show ?case
  proof (cases "c < e")
    case True
    then have r: "d = e" "s1 = s2" "ss' = s2 # ss" using Cons.prems(1) k by auto
    have "list_all2 (moved e) ss ss"
      using Cons.prems(2) True by (intro list.rel_refl_strong) (auto intro!: moved_self dest: order_trans)
    moreover have "e = head_doc (docs_from c (docs s))" using l(1,5) doc_head by (auto simp: landed_def)
    ultimately show ?thesis using True r l by (auto simp: landed_def)
  next
    case False
    then obtain ss1 where r: "seek_pass D c ss = (Some (d, s1), ss1)" "ss' = s2 # ss1"
      using Cons.prems(1) k by (auto split: prod.splits)
    from Cons.IH [OF r(1)] Cons.prems have i: "c < d \<and> d \<le> TERMINATED \<and> op_doc D s1 = d \<and> list_all2 (moved d) ss ss1
        \<and> (\<exists>s \<in> set ss. head_doc (docs_from c (docs s)) = d)" by simp
    have "moved d s s2" using moved_later [OF l(4), of d] False i by simp
    then have "list_all2 (moved d) (s # ss) ss'" using i r(2) by simp
    with i show ?thesis by (meson list.set_intros(2))
  qed
qed simp

lemma moved_landed: "moved c s s' \<Longrightarrow> c \<le> c' \<Longrightarrow> landed c' s' s'' \<Longrightarrow> landed c' s s''"
  unfolding moved_def landed_def by (metis from_from order_trans)

lemma moved_all_landed: "list_all2 (moved c) ss ss' \<Longrightarrow> c \<le> c' \<Longrightarrow> list_all2 (landed c') ss' ss'' \<Longrightarrow> list_all2 (landed c') ss ss''"
  by (rule list_all2_trans [OF moved_landed]) assumption+

lemma moved_common:
  assumes "list_all2 (moved c) ss ss'" and "\<forall>s \<in> set ss. ok s" and "d \<in> common ss" and "c \<le> d"
  shows "d \<in> common ss'"
proof -
  have "d \<in> set (docs s')" if "s' \<in> set ss'" for s'
  proof -
    obtain s where s: "s \<in> set ss" "moved c s s'" using assms(1) \<open>s' \<in> set ss'\<close> by (metis list_all2_conv_all_nth in_set_conv_nth)
    then obtain t where t: "t \<le> c" "docs s' = docs_from t (docs s)" by (auto simp: moved_def)
    with s(1) assms(2-4) show ?thesis by (auto simp: common_def set_docs_from docs_ascending)
  qed
  then show ?thesis by (simp add: common_def)
qed

lemma moved_ok: "list_all2 (moved c) ss ss' \<Longrightarrow> \<forall>s \<in> set ss'. ok s \<and> op_doc D s \<le> c"
  by (auto simp: list_all2_conv_all_nth in_set_conv_nth moved_def)

lemma past_common:
  assumes "\<exists>s \<in> set ss. head_doc (docs_from c (docs s)) = d" and "\<forall>s \<in> set ss. ok s" and "e \<in> common ss" and "c \<le> e"
  shows "d \<le> e"
proof -
  obtain s where s: "s \<in> set ss" "head_doc (docs_from c (docs s)) = d" using assms(1) by auto
  then have "e \<in> set (docs_from c (docs s))" using assms by (auto simp: common_def set_docs_from docs_ascending)
  with s show ?thesis using head_le [OF ascending_from [OF docs_ascending]] assms(2) by metis
qed

text \<open>Both loops end with every cursor on the first common document from the candidate on.\<close>

definition aligned :: "nat \<Rightarrow> 's list \<Rightarrow> nat \<Rightarrow> 's list \<Rightarrow> bool" where
  "aligned c ss c' ss' \<longleftrightarrow> c \<le> c' \<and> c' \<le> TERMINATED \<and> list_all2 (landed c') ss ss' \<and> (\<forall>d \<in> common ss. c \<le> d \<longrightarrow> c' \<le> d)"

lemma aligned_moved:
  assumes "aligned d ss1 c' ss'" and "list_all2 (moved d) ss ss1" and "\<forall>s \<in> set ss. ok s" and "c \<le> d" and "\<forall>e \<in> common ss. c \<le> e \<longrightarrow> d \<le> e"
  shows "aligned c ss c' ss'"
  using assms moved_all_landed [OF assms(2)] moved_common [OF assms(2,3)] unfolding aligned_def by (meson order_trans)

lemma first_doc_loop_aligned:
  assumes "\<forall>s \<in> set ss. ok s \<and> op_doc D s \<le> c" and "c \<le> TERMINATED"
  shows "\<exists>c' ss'. first_doc_loop D c ss = Some (c', ss') \<and> aligned c ss c' ss'"
  using assms
proof (induction "TERMINATED - c" arbitrary: c ss rule: less_induct)
  case less
  obtain r ss1 where p: "seek_pass D c ss = (r, ss1)" by force
  show ?case
  proof (cases r)
    case None
    with seek_pass_done [OF _ less.prems] p less.prems(2) show ?thesis
      by (subst first_doc_loop.simps) (auto simp: aligned_def)
  next
    case (Some q)
    obtain d s where q: "r = Some (d, s)" using Some by (cases q) auto
    note past = seek_pass_past [OF p [unfolded q] less.prems]
    have m: "\<forall>s \<in> set ss1. ok s \<and> op_doc D s \<le> d" using past moved_ok by blast
    obtain c' ss' where i: "first_doc_loop D d ss1 = Some (c', ss')" "aligned d ss1 c' ss'"
      using less.hyps [of d ss1] diff_less_mono2 [of c d TERMINATED] past m by auto
    have "aligned c ss c' ss'"
      using aligned_moved [OF i(2), of ss c] past past_common [of ss c d] less.prems(1) by (meson less_imp_le)
    with i(1) p q past show ?thesis by (subst first_doc_loop.simps) simp
  qed
qed

lemma advance_loop_aligned:
  assumes "ok r" and "op_doc D r = c" and "\<forall>s \<in> set ss. ok s \<and> op_doc D s \<le> c" and "c \<le> TERMINATED"
  shows "\<exists>c' ss'. advance_loop D c r ss = Some (c', ss') \<and> aligned c (r # ss) c' ss'"
  using assms
proof (induction "TERMINATED - c" arbitrary: c r ss rule: less_induct)
  case less
  obtain q ss1 where p: "seek_pass D c ss = (q, ss1)" by force
  show ?case
  proof (cases q)
    case None
    have "landed c r r" using less.prems(1,2) from_head doc_head by (simp add: landed_def)
    with None seek_pass_done [OF _ less.prems(3,4)] p less.prems(4) show ?thesis
      by (subst advance_loop.simps) (auto simp: aligned_def)
  next
    case (Some a)
    obtain d s where q: "q = Some (d, s)" using Some by (cases a) auto
    note past = seek_pass_past [OF p [unfolded q] less.prems(3,4)]
    obtain c1 r1 where k: "op_seek D d r = (c1, r1)" by force
    have "op_doc D r \<le> d" "d \<le> TERMINATED" using past less.prems(2) by auto
    note l = seek_landed [OF less.prems(1) this k]
    have mv: "list_all2 (moved c1) (r # ss) (r1 # ss1)"
      using past l(2,4) moved_later by (auto intro: list.rel_mono_strong)
    have n: "\<forall>s \<in> set ss1. ok s \<and> op_doc D s \<le> c1" "ok r1" "op_doc D r1 = c1" using moved_ok [OF mv] l(1) by (auto simp: landed_def)
    obtain c' ss' where i: "advance_loop D c1 r1 ss1 = Some (c', ss')" "aligned c1 (r1 # ss1) c' ss'"
      using less.hyps [of c1 r1 ss1] diff_less_mono2 [of c c1 TERMINATED] past n l(2,3) by auto
    have "c1 \<le> e" if "e \<in> common (r # ss)" "c \<le> e" for e
    proof -
      have "d \<le> e" using past_common [of ss c d e] past less.prems(3) that by (auto simp: common_def)
      then have "e \<in> set (docs r1)" using that l(5) less.prems(1) by (auto simp: common_def set_docs_from docs_ascending)
      then show ?thesis using head_le [OF docs_ascending] doc_head n(2,3) by metis
    qed
    then have "aligned c (r # ss) c' ss'"
      using aligned_moved [OF i(2) mv, of c] less.prems(1,3) past l(2) by auto
    with i(1) p q k show ?thesis by (subst advance_loop.simps) simp
  qed
qed

text \<open>The intersection is a cursor over the common documents.\<close>

definition isect_docs :: "'s intersection \<Rightarrow> nat list" where
  "isect_docs x = filter (\<lambda>d. d \<in> common (ix_docsets x)) (docs (hd (ix_docsets x)))"

definition isect_ok :: "'s intersection \<Rightarrow> bool" where
  "isect_ok x \<longleftrightarrow> ix_docsets x \<noteq> [] \<and> (\<exists>c. \<forall>s \<in> set (ix_docsets x). ok s \<and> op_doc D s = c)"

lemma isect_docs_set: "ix_docsets x \<noteq> [] \<Longrightarrow> set (isect_docs x) = common (ix_docsets x)"
  by (cases "ix_docsets x") (auto simp: isect_docs_def common_def)

lemma isect_docs_ascending: "isect_ok x \<Longrightarrow> ascending_docs (isect_docs x)"
  unfolding isect_docs_def isect_ok_def by (cases "ix_docsets x") (auto intro: ascending_filter docs_ascending)

lemma landed_common:
  assumes "list_all2 (landed c) ss ss'" and "\<forall>s \<in> set ss. ok s"
  shows "common ss' = (if ss = [] then UNIV else {d \<in> common ss. c \<le> d})"
proof -
  have "set (docs (ss' ! i)) = {d \<in> set (docs (ss ! i)). c \<le> d}" if "i < length ss" for i
    using assms that by (auto simp: list_all2_conv_all_nth landed_def set_docs_from docs_ascending)
  then have "d \<in> common ss' \<longleftrightarrow> (\<forall>i < length ss. d \<in> set (docs (ss ! i)) \<and> c \<le> d)" for d
    using list_all2_lengthD [OF assms(1)] by (simp add: common_def all_set_conv_all_nth)
  moreover have "d \<in> common ss \<longleftrightarrow> (\<forall>i < length ss. d \<in> set (docs (ss ! i)))" for d
    by (simp add: common_def all_set_conv_all_nth)
  moreover have "ss = [] \<or> 0 < length ss" by simp
  ultimately show ?thesis by (cases "ss = []") auto
qed

lemma landed_ok: "list_all2 (landed c) ss ss' \<Longrightarrow> ss \<noteq> [] \<Longrightarrow> isect_ok \<lparr> ix_docsets = ss', ix_old_idx = js \<rparr>"
  by (auto simp: isect_ok_def list_all2_conv_all_nth all_set_conv_all_nth landed_def intro!: exI [of _ c])

lemma isect_head:
  assumes "isect_ok x"
  shows "intersection_doc D x = head_doc (isect_docs x)"
proof -
  obtain s ss where x: "ix_docsets x = s # ss" using assms by (cases "ix_docsets x") (auto simp: isect_ok_def)
  have same: "ok u" "op_doc D u = op_doc D s" if "u \<in> set (s # ss)" for u using assms that x by (auto simp: isect_ok_def)
  show ?thesis
  proof (cases "op_doc D s = TERMINATED")
    case True
    then have "docs s = []"
      using doc_head [OF same(1), of s] docs_ascending [OF same(1), of s] by (cases "docs s") auto
    with x True show ?thesis by (simp add: intersection_doc_def isect_docs_def)
  next
    case False
    have m: "op_doc D s \<in> set (docs u)" if "u \<in> set (s # ss)" for u
      using head_in [OF docs_ascending [OF same(1) [OF that]]] doc_head [OF same(1) [OF that]] same(2) [OF that] False
        doc_bound [OF same(1) [OF that]] by auto
    then have "op_doc D s \<in> common (s # ss)" by (simp add: common_def)
    moreover have "docs s = op_doc D s # tl (docs s)"
      using m [of s] doc_head [OF same(1), of s] by (cases "docs s") auto
    ultimately show ?thesis
      using x by (simp add: intersection_doc_def isect_docs_def) (metis filter.simps(2) head_doc_simps(2))
  qed
qed

lemma aligned_docs:
  assumes "aligned c ss c' ss'" and "ss \<noteq> []" and "\<forall>s \<in> set ss. ok s"
  shows "set (isect_docs \<lparr> ix_docsets = ss', ix_old_idx = js \<rparr>) = {d \<in> common ss. c \<le> d}"
proof -
  have l: "list_all2 (landed c') ss ss'" "c \<le> c'" "\<forall>d \<in> common ss. c \<le> d \<longrightarrow> c' \<le> d" using assms(1) by (auto simp: aligned_def)
  have "ss' \<noteq> []" using l(1) assms(2) by auto
  with landed_common [OF l(1) assms(3)] assms(2) l(2,3) show ?thesis
    by (simp add: isect_docs_set) (meson order_trans)
qed

lemma isect_record: "x\<lparr> ix_docsets := ss \<rparr> = \<lparr> ix_docsets = ss, ix_old_idx = ix_old_idx x \<rparr>" for x :: "'s intersection"
  by (cases x) simp

lemma isect_advance:
  assumes "isect_ok x"
  shows "\<exists>d x'. intersection_advance D x = Some (d, x') \<and> isect_ok x' \<and> isect_docs x' = tl (isect_docs x) \<and> d = intersection_doc D x'"
proof -
  obtain r others where x: "ix_docsets x = r # others" using assms by (cases "ix_docsets x") (auto simp: isect_ok_def)
  have same: "ok u \<and> op_doc D u = op_doc D r" if "u \<in> set (r # others)" for u using assms that x by (auto simp: isect_ok_def)
  obtain c r' where a: "op_advance D r = (c, r')" by force
  have n: "ok r'" "docs r' = tl (docs r)" "c = op_doc D r'" using advance_next [OF _ a] same [of r] by auto
  have later: "d \<in> set (docs r') \<longleftrightarrow> d \<in> set (docs r) \<and> d \<noteq> op_doc D r" for d
    using tl_from [OF docs_ascending, of r] same [of r] n(2) doc_head [of r] by simp
  show ?thesis
  proof (cases "others = []")
    case True
    let ?x = "x\<lparr> ix_docsets := [r'] \<rparr>"
    have "isect_docs ?x = docs r'" "isect_docs x = docs r"
      using x True by (simp_all add: isect_docs_def common_def)
    then show ?thesis using x True a n by (auto simp: intersection_advance_def intersection_doc_def isect_ok_def)
  next
    case False
    have le: "\<forall>s \<in> set others. ok s \<and> op_doc D s \<le> c"
    proof
      fix s assume s: "s \<in> set others"
      have "op_doc D r \<le> c"
      proof (cases "c = TERMINATED")
        case True
        then show ?thesis using doc_bound same [of r] by simp
      next
        case False
        then have "c \<in> set (docs r')" using n head_in [OF docs_ascending [OF n(1)]] doc_head [OF n(1)] doc_bound [OF n(1)] by auto
        then show ?thesis using later head_le [OF docs_ascending, of r c] doc_head [of r] same [of r] by simp
      qed
      with s same [of s] show "ok s \<and> op_doc D s \<le> c" by simp
    qed
    obtain c' ss' where l: "advance_loop D c r' others = Some (c', ss')" "aligned c (r' # others) c' ss'"
      using advance_loop_aligned [OF n(1) n(3) [symmetric] le] doc_bound [OF n(1)] n(3) by auto
    let ?x = "x\<lparr> ix_docsets := ss' \<rparr>"
    have ok': "isect_ok ?x" unfolding isect_record using l(2) by (auto simp: aligned_def intro: landed_ok)
    have "set (isect_docs ?x) = {d \<in> common (r' # others). c \<le> d}"
      unfolding isect_record using aligned_docs [OF l(2)] n(1) le by auto
    also have "\<dots> = common (r' # others)" using head_le [OF docs_ascending [OF n(1)]] doc_head n(1,3) by (auto simp: common_def)
    also have "\<dots> = set (isect_docs x) - {op_doc D r}" using later x by (auto simp: isect_docs_set common_def)
    also have "\<dots> = set (tl (isect_docs x))"
      using tl_from [OF isect_docs_ascending [OF assms]] isect_head [OF assms] x by (simp add: intersection_doc_def)
    finally have "isect_docs ?x = tl (isect_docs x)"
      by (intro ascending_eqI isect_docs_ascending ok' ascending_tl assms)
    moreover have "c' = intersection_doc D ?x" using l(2) by (auto simp: aligned_def intersection_doc_def landed_def list_all2_Cons1)
    ultimately show ?thesis using x a l(1) ok' False by (simp add: intersection_advance_def)
  qed
qed

lemma isect_seek:
  assumes "isect_ok x" and "intersection_doc D x \<le> t" and "t \<le> TERMINATED"
  shows "\<exists>d x'. intersection_seek D t x = Some (d, x') \<and> isect_ok x' \<and> isect_docs x' = docs_from t (isect_docs x) \<and> d = intersection_doc D x'"
proof -
  obtain r others where x: "ix_docsets x = r # others" using assms(1) by (cases "ix_docsets x") (auto simp: isect_ok_def)
  have same: "ok u \<and> op_doc D u = op_doc D r" if "u \<in> set (r # others)" for u using assms(1) that x by (auto simp: isect_ok_def)
  have rt: "ok r" "op_doc D r \<le> t" using same [of r] assms(2) x by (auto simp: intersection_doc_def)
  obtain d r' where k: "op_seek D t r = (d, r')" by force
  note l = seek_landed [OF rt assms(3) k]
  have n: "ok r'" "op_doc D r' = d" using l(1) by (auto simp: landed_def)
  show ?thesis
  proof (cases "others = []")
    case True
    let ?x = "x\<lparr> ix_docsets := [r'] \<rparr>"
    have "isect_docs ?x = docs r'" "isect_docs x = docs r" using x True by (simp_all add: isect_docs_def common_def)
    then show ?thesis using x True k n l(5) by (auto simp: intersection_seek_def intersection_doc_def isect_ok_def)
  next
    case False
    let ?ss = "r' # others"
    let ?c = "Max (set (map (op_doc D) ?ss))"
    have "op_doc D s \<le> d" if "s \<in> set others" for s using same [of s] that rt l(2) by simp
    then have c: "?c = d" using n by (intro Max_eqI) auto
    have ok': "\<forall>s \<in> set ?ss. ok s \<and> op_doc D s \<le> d"
    proof
      fix s assume "s \<in> set ?ss"
      then show "ok s \<and> op_doc D s \<le> d" using n same [of s] rt l(2) by auto
    qed
    obtain c' ss' where i: "first_doc_loop D d ?ss = Some (c', ss')" "aligned d ?ss c' ss'"
      using first_doc_loop_aligned [OF ok' l(3)] by auto
    let ?x = "x\<lparr> ix_docsets := ss' \<rparr>"
    have okx: "isect_ok ?x" unfolding isect_record using i(2) by (auto simp: aligned_def intro: landed_ok)
    have dr: "d \<le> e" if "e \<in> set (docs r')" for e using head_le [OF docs_ascending [OF n(1)] that] doc_head [OF n(1)] n(2) by simp
    have "set (isect_docs ?x) = {e \<in> common ?ss. d \<le> e}" unfolding isect_record using aligned_docs [OF i(2)] ok' by auto
    also have "\<dots> = {e \<in> set (isect_docs x). t \<le> e}"
      using x dr l(5) rt(1) by (auto simp: isect_docs_set common_def set_docs_from docs_ascending)
    also have "\<dots> = set (docs_from t (isect_docs x))" by (simp add: set_docs_from isect_docs_ascending assms(1))
    finally have "isect_docs ?x = docs_from t (isect_docs x)"
      by (intro ascending_eqI isect_docs_ascending okx ascending_from assms(1))
    moreover have "c' = intersection_doc D ?x" using i(2) by (auto simp: aligned_def intersection_doc_def landed_def list_all2_Cons1)
    ultimately show ?thesis using x k i(1) okx False c by (simp add: intersection_seek_def)
  qed
qed

lemma isect_docset: "docset (intersection_ops D) isect_docs isect_ok"
proof
  fix x x' t d assume ok': "isect_ok x"
  show "ascending_docs (isect_docs x)" by (rule isect_docs_ascending [OF ok'])
  show "op_doc (intersection_ops D) x = head_doc (isect_docs x)" by (simp add: intersection_ops_def isect_head ok')
  show "isect_ok x' \<and> isect_docs x' = tl (isect_docs x) \<and> d = op_doc (intersection_ops D) x'"
    if "op_advance (intersection_ops D) x = (d, x')" using isect_advance [OF ok'] that by (auto simp: intersection_ops_def)
  show "isect_ok x' \<and> isect_docs x' = docs_from t (isect_docs x) \<and> d = op_doc (intersection_ops D) x'"
    if "op_doc (intersection_ops D) x \<le> t" "t \<le> TERMINATED" "op_seek (intersection_ops D) t x = (d, x')"
    using isect_seek [OF ok', of t] that by (auto simp: intersection_ops_def)
qed

lemma go_to_first_doc_aligned:
  assumes "ss \<noteq> []" and "\<forall>s \<in> set ss. ok s"
  shows "\<exists>c ss'. go_to_first_doc D ss = Some (Ret (c, ss')) \<and> list_all2 (landed c) ss ss' \<and> isect_ok \<lparr> ix_docsets = ss', ix_old_idx = js \<rparr>
    \<and> set (isect_docs \<lparr> ix_docsets = ss', ix_old_idx = js \<rparr>) = common ss"
proof -
  let ?c = "Max (set (map (op_doc D) ss))"
  have le: "\<forall>s \<in> set ss. ok s \<and> op_doc D s \<le> ?c" using assms(2) by auto
  have "?c \<in> set (map (op_doc D) ss)" using assms(1) by (intro Max_in) auto
  then obtain u where u: "u \<in> set ss" "?c = op_doc D u" by auto
  then have "?c \<le> TERMINATED" using doc_bound assms(2) by simp
  then obtain c ss' where l: "first_doc_loop D ?c ss = Some (c, ss')" "aligned ?c ss c ss'"
    using first_doc_loop_aligned [OF le] by auto
  have "?c \<le> d" if "d \<in> common ss" for d
    using that u assms(2) head_le [OF docs_ascending, of u d] doc_head [of u] by (auto simp: common_def)
  then have "set (isect_docs \<lparr> ix_docsets = ss', ix_old_idx = js \<rparr>) = common ss" using aligned_docs [OF l(2) assms] by auto
  moreover have "list_all2 (landed c) ss ss'" using l(2) by (simp add: aligned_def)
  ultimately show ?thesis using l(1) landed_ok [OF _ assms(1)] assms(1) by (auto simp: go_to_first_doc_def)
qed

end

lemma place_idx_pair [simp]: "place_idx acc (j, t) = acc[t := j]"
  by (simp add: place_idx_def)

lemma place_idx_length [simp]: "length (foldl place_idx acc ps) = length acc"
  by (induction ps arbitrary: acc) (simp_all add: place_idx_def)

lemma place_idx_other: "t \<notin> set (map snd ps) \<Longrightarrow> foldl place_idx acc ps ! t = acc ! t"
  by (induction ps arbitrary: acc) (auto simp: place_idx_def)

lemma place_idx_nth:
  "distinct ts \<Longrightarrow> \<forall>t \<in> set ts. t < length acc \<Longrightarrow> j < length ts \<Longrightarrow> foldl place_idx acc (enumerate k ts) ! (ts ! j) = k + j"
proof (induction ts arbitrary: acc j k)
  case (Cons t ts)
  show ?case
  proof (cases j)
    case 0
    with Cons.prems show ?thesis using place_idx_other [of t "enumerate (Suc k) ts"] by simp
  next
    case (Suc i)
    with Cons.IH [of "place_idx acc (k, t)" i "Suc k"] Cons.prems show ?thesis by simp
  qed
qed simp

text \<open>The position table of a stable sort is the inverse of its permutation.\<close>

lemma old_idx_nth:
  assumes "i < length ss" and "mset es = mset (enumerate 0 ss)"
  defines "js \<equiv> foldl place_idx (replicate (length ss) 0) (enumerate 0 (map fst es))"
  shows "js ! i < length es \<and> es ! (js ! i) = (i, ss ! i)"
proof -
  have d: "distinct (map fst es)" 
    using mset_eq_imp_distinct_iff [of "map fst es" "map fst (enumerate 0 ss)"] assms(2) by (metis distinct_upt map_fst_enumerate mset_map)
  have m: "set es = set (enumerate 0 ss)" "length es = length ss" using assms(2) by (metis set_mset_mset, metis size_mset length_enumerate)
  have "(i, ss ! i) \<in> set es" unfolding m(1) using assms(1) by (simp add: in_set_enumerate_eq)
  then obtain j where j: "j < length es" "es ! j = (i, ss ! i)" by (auto simp: in_set_conv_nth)
  have "\<forall>t \<in> set (map fst es). t < length (replicate (length ss) (0 :: nat))" using m(1) by (auto simp: in_set_enumerate_eq)
  from place_idx_nth [OF d this, of j 0] j have "js ! i = j" unfolding js_def by simp
  with j show ?thesis by simp
qed

context docset
begin

lemma intersection_new_docs:
  assumes "ss \<noteq> []" and "\<forall>s \<in> set ss. ok s"
  shows "\<exists>x. intersection_new D ss = Some (Ret x) \<and> isect_ok x \<and> set (isect_docs x) = common ss
    \<and> (\<forall>i < length ss. \<exists>s. docset_mut_specialized x i = Ret s \<and> docs s = docs_from (intersection_doc D x) (docs (ss ! i)))"
proof (cases "length ss = 1")
  case True
  then obtain s where s: "ss = [s]" by (auto simp: length_Suc_conv)
  with assms(2) show ?thesis
    by (auto simp: intersection_new_def isect_ok_def isect_docs_def common_def docset_mut_specialized_def intersection_doc_def from_head doc_head)
next
  case False
  let ?es = "sort_key (\<lambda>p. op_size_hint D (snd p)) (enumerate 0 ss)"
  let ?js = "foldl place_idx (replicate (length ss) 0) (enumerate 0 (map fst ?es))"
  have es: "mset ?es = mset (enumerate 0 ss)" by simp
  have sorted_set: "set (map snd ?es) = set ss" by (simp flip: list.set_map)
  then have "map snd ?es \<noteq> []" "\<forall>s \<in> set (map snd ?es). ok s" using assms by (metis list.set(1) set_empty) (use assms(2) sorted_set in metis)
  from go_to_first_doc_aligned [OF this, of ?js] obtain c ss' where g: "go_to_first_doc D (map snd ?es) = Some (Ret (c, ss'))"
    "list_all2 (landed c) (map snd ?es) ss'" "isect_ok \<lparr> ix_docsets = ss', ix_old_idx = ?js \<rparr>"
    "set (isect_docs \<lparr> ix_docsets = ss', ix_old_idx = ?js \<rparr>) = common (map snd ?es)" by auto
  let ?x = "\<lparr> ix_docsets = ss', ix_old_idx = ?js \<rparr>"
  have len: "length ss' = length ss" using list_all2_lengthD [OF g(2)] by simp
  have at: "docset_mut_specialized ?x i = Ret (ss' ! (?js ! i)) \<and> docs (ss' ! (?js ! i)) = docs_from (intersection_doc D ?x) (docs (ss ! i))" if i: "i < length ss" for i
  proof -
    have j: "?js ! i < length ?es" "?es ! (?js ! i) = (i, ss ! i)" using old_idx_nth [OF i es] by auto
    then have "landed c (ss ! i) (ss' ! (?js ! i))" using list_all2_nthD2 [OF g(2), of "?js ! i"] len by simp
    moreover have "intersection_doc D ?x = c"
      using g(2) len i by (cases ss') (auto simp: intersection_doc_def landed_def list_all2_Cons2)
    ultimately show ?thesis using j(1) i len by (simp add: docset_mut_specialized_def landed_def)
  qed
  have "intersection_new D ss = Some (Ret ?x)" using False g(1) by (simp add: intersection_new_def Let_def)
  moreover have "common (map snd ?es) = common ss" using sorted_set by (simp add: common_def)
  ultimately show ?thesis using g(3,4) at by blast
qed

end

interpretation all_isect: docset "intersection_ops all_ops" all_docset.isect_docs all_docset.isect_ok
  by (rule all_docset.isect_docset)

text \<open>
  C27: The intersection of any number of cursors is the cursor over their common documents: building it and running it to the end
  yields, for cursors that keep the contract of the trait, exactly the documents all of them hold, in ascending order,
  whatever order their size hints put them in; both loops of seeks end; seeking goes to the common documents from the target
  on; and the cursor handed out for an index is the one that was given at that index, moved up to the first common document.
\<close>

theorem intersection_refines:
  assumes "docset D docs good" and "ss \<noteq> []" and "\<forall>s \<in> set ss. good s"
  shows "\<exists>x. intersection_new D ss = Some (Ret x)
    \<and> collect_docs (intersection_ops D) x = Some (sorted_list_of_set (\<Inter>s \<in> set ss. set (docs s)))
    \<and> (\<forall>t \<in> {intersection_doc D x..TERMINATED}. \<exists>d x'. intersection_seek D t x = Some (d, x')
         \<and> collect_docs (intersection_ops D) x' = Some (filter ((\<le>) t) (sorted_list_of_set (\<Inter>s \<in> set ss. set (docs s)))))
    \<and> (\<forall>i < length ss. \<exists>s. docset_mut_specialized x i = Ret s
         \<and> docs s = filter ((\<le>) (intersection_doc D x)) (docs (ss ! i)))"
proof -
  let ?docs = "docset.isect_docs docs" and ?good = "docset.isect_ok D good"
  let ?all = "sorted_list_of_set (\<Inter>s \<in> set ss. set (docs s))"
  note isect = docset.isect_docset [OF assms(1), THEN docset.axioms(1)]
  from docset.intersection_new_docs [OF assms] obtain x where x: "intersection_new D ss = Some (Ret x)" "?good x"
    "set (?docs x) = docset.common docs ss"
    "\<forall>i < length ss. \<exists>s. docset_mut_specialized x i = Ret s \<and> docs s = docs_from (intersection_doc D x) (docs (ss ! i))" by blast
  note asc = docset_iter.docs_ascending [OF isect x(2)]
  have "docset.common docs ss = (\<Inter>s \<in> set ss. set (docs s))" by (auto simp: docset.common_def [OF assms(1)])
  with x(3) have all: "?docs x = ?all" using ascending_sorted [OF asc] by simp
  have seek: "\<exists>d x'. intersection_seek D t x = Some (d, x') \<and> collect_docs (intersection_ops D) x' = Some (filter ((\<le>) t) ?all)"
    if "t \<in> {intersection_doc D x..TERMINATED}" for t
  proof -
    have "intersection_doc D x \<le> t" "t \<le> TERMINATED" using that by auto
    from docset.isect_seek [OF assms(1) x(2) this] obtain d x' where
      s: "intersection_seek D t x = Some (d, x')" "?good x'" "?docs x' = docs_from t (?docs x)" by blast
    then show ?thesis using docset_iter.collect_exact [OF isect s(2)] from_filter [OF asc] all by simp
  qed
  have nth: "docs_from t (docs (ss ! i)) = filter ((\<le>) t) (docs (ss ! i))" if "i < length ss" for t i
    using assms(3) that by (intro from_filter docset_iter.docs_ascending [OF docset.axioms(1) [OF assms(1)]]) simp
  have "\<forall>i < length ss. \<exists>s. docset_mut_specialized x i = Ret s \<and> docs s = filter ((\<le>) (intersection_doc D x)) (docs (ss ! i))"
    using x(4) nth by metis
  moreover have "collect_docs (intersection_ops D) x = Some ?all" using docset_iter.collect_exact [OF isect x(2)] all by simp
  ultimately show ?thesis using x(1) seek by blast
qed

theorem intersection_refines_witness:
  "\<exists>x. intersection_new all_ops [\<lparr> as_doc = 0, as_max_doc = 5 \<rparr>, \<lparr> as_doc = 2, as_max_doc = 4 \<rparr>] = Some (Ret x)
    \<and> collect_docs (intersection_ops all_ops) x = Some [2, 3]"
proof -
  let ?s1 = "\<lparr> as_doc = 0, as_max_doc = 5 \<rparr>" and ?s2 = "\<lparr> as_doc = 2, as_max_doc = 4 \<rparr>"
  have "{0..<5} \<inter> {2..<4} = {2, 3 :: nat}" by auto
  with intersection_refines [OF all_docset.docset_axioms, of "[?s1, ?s2]"] show ?thesis
    by (auto simp: TERMINATED_def)
qed

end
