(* ===== verification/Docset_Union.thy ===== *)
theory Docset_Union
  imports Docset
begin

text \<open>
  The union of cursors (\<open>core/src/query/union.rs\<close>) and the scorer of a constant (\<open>core/src/query/const_query.rs\<close>).
  The double-ended heap is the crate \<open>min-max-heap\<close>: its operations are a parameter, with the laws its documentation
  states as a locale, and a sorted list as an instance. An entry of the heap is the first document of a cursor with the cursor.
\<close>

section \<open>The heap\<close>

type_synonym 's docset_head = "nat \<times> 's"

record ('h, 's) heap_ops =
  h_empty :: 'h
  h_push :: "'s docset_head \<Rightarrow> 'h \<Rightarrow> 'h"
  h_peek_min :: "'h \<Rightarrow> 's docset_head option"
  h_set_min :: "'s docset_head \<Rightarrow> 'h \<Rightarrow> 'h"
  h_items :: "'h \<Rightarrow> 's docset_head list"

locale min_heap =
  fixes H :: "('h, 's) heap_ops" and heap_ok :: "'h \<Rightarrow> bool"
  assumes empty_items: "heap_ok (h_empty H) \<and> h_items H (h_empty H) = []"
    and push_items: "heap_ok h \<Longrightarrow> heap_ok (h_push H x h) \<and> mset (h_items H (h_push H x h)) = add_mset x (mset (h_items H h))"
    and peek_none: "heap_ok h \<Longrightarrow> h_peek_min H h = None \<longleftrightarrow> h_items H h = []"
    and peek_least: "heap_ok h \<Longrightarrow> h_peek_min H h = Some x \<Longrightarrow> x \<in> set (h_items H h) \<and> (\<forall>y \<in> set (h_items H h). fst x \<le> fst y)"
    and set_min_items: "heap_ok h \<Longrightarrow> h_peek_min H h = Some x \<Longrightarrow>
      heap_ok (h_set_min H y h) \<and> mset (h_items H (h_set_min H y h)) = add_mset y (mset (h_items H h) - {#x#})"

definition list_heap :: "('s docset_head list, 's) heap_ops" where
  "list_heap = \<lparr> h_empty = [], h_push = insort_key fst, h_peek_min = (\<lambda>h. case h of [] \<Rightarrow> None | x # _ \<Rightarrow> Some x),
     h_set_min = (\<lambda>y h. insort_key fst y (tl h)), h_items = (\<lambda>h. h) \<rparr>"

interpretation list_heap: min_heap list_heap "\<lambda>h. sorted (map fst h)"
  by unfold_locales (auto simp: list_heap_def sorted_insort_key split: list.splits)

section \<open>The union\<close>

definition union_from :: "('h, 's) heap_ops \<Rightarrow> 's docset_ops \<Rightarrow> 's list \<Rightarrow> 'h" where
  "union_from H D ss =
     foldl (\<lambda>h s. h_push H (op_doc D s, s) h) (h_empty H) (filter (\<lambda>s. op_doc D s \<noteq> TERMINATED) ss)"

definition union_doc :: "('h, 's) heap_ops \<Rightarrow> 'h \<Rightarrow> nat" where
  "union_doc H h = (case h_peek_min H h of None \<Rightarrow> TERMINATED | Some head \<Rightarrow> fst head)"

partial_function (option) union_loop :: "('h, 's) heap_ops \<Rightarrow> 's docset_ops \<Rightarrow> nat \<Rightarrow> 'h \<Rightarrow> 'h may_panic option" where
  "union_loop H D old_min h =
     (case h_peek_min H h of
        None \<Rightarrow> Some Panic
      | Some head \<Rightarrow>
          if fst head \<noteq> old_min then Some (Ret h)
          else (case op_advance D (snd head) of (d, s) \<Rightarrow> union_loop H D old_min (h_set_min H (d, s) h)))"

definition union_advance :: "('h, 's) heap_ops \<Rightarrow> 's docset_ops \<Rightarrow> 'h \<Rightarrow> (nat \<times> 'h) may_panic option" where
  "union_advance H D h =
     (let old_min = union_doc H h in
      if old_min = TERMINATED then Some (Ret (TERMINATED, h))
      else
        map_option
          (\<lambda>r. outcome_bind r (\<lambda>h'. case h_peek_min H h' of None \<Rightarrow> Panic | Some head \<Rightarrow> Ret (fst head, h')))
          (union_loop H D old_min h))"

definition union_size_hint :: "('h, 's) heap_ops \<Rightarrow> 's docset_ops \<Rightarrow> 'h \<Rightarrow> nat" where
  "union_size_hint H D h = foldr (\<lambda>p n. max (op_size_hint D (snd p)) n) (h_items H h) 0"

definition returned :: "'a may_panic option \<Rightarrow> 'a" where
  "returned r = (case r of Some (Ret x) \<Rightarrow> x | _ \<Rightarrow> undefined)"

definition union_seek :: "('h, 's) heap_ops \<Rightarrow> 's docset_ops \<Rightarrow> nat \<Rightarrow> 'h \<Rightarrow> (nat \<times> 'h) option" where
  "union_seek H D target h = default_seek (\<lambda>h. returned (union_advance H D h)) target (union_doc H h) h"

definition union_ops :: "('h, 's) heap_ops \<Rightarrow> 's docset_ops \<Rightarrow> 'h docset_ops" where
  "union_ops H D =
     \<lparr> op_doc = union_doc H, op_advance = (\<lambda>h. returned (union_advance H D h)),
       op_seek = (\<lambda>target h. the (union_seek H D target h)), op_size_hint = union_size_hint H D \<rparr>"

section \<open>The constant scorer\<close>

text \<open>It forwards to the scorer below it, takes the trait's \<open>seek\<close>, and scores with the boost it was made with.\<close>

record ('s, 'f) const_scorer =
  cs_subscorer :: 's
  cs_score :: 'f

definition const_weight_scorer :: "'f \<Rightarrow> 's \<Rightarrow> 'f \<Rightarrow> ('s, 'f) const_scorer" where
  "const_weight_scorer score subscorer boost = \<lparr> cs_subscorer = subscorer, cs_score = boost \<rparr>"

definition const_advance :: "'s docset_ops \<Rightarrow> ('s, 'f) const_scorer \<Rightarrow> nat \<times> ('s, 'f) const_scorer" where
  "const_advance D s = (case op_advance D (cs_subscorer s) of (d, sub) \<Rightarrow> (d, s\<lparr> cs_subscorer := sub \<rparr>))"

definition const_ops :: "'s docset_ops \<Rightarrow> ('s, 'f) const_scorer docset_ops" where
  "const_ops D =
     \<lparr> op_doc = (\<lambda>s. op_doc D (cs_subscorer s)), op_advance = const_advance D,
       op_seek = (\<lambda>t s. the (default_seek (const_advance D) t (op_doc D (cs_subscorer s)) s)),
       op_size_hint = (\<lambda>s. op_size_hint D (cs_subscorer s)) \<rparr>"

lemma const_docset:
  assumes "docset D docs good"
  shows "docset (const_ops D) (\<lambda>s. docs (cs_subscorer s)) (\<lambda>s. good (cs_subscorer s))"
proof -
  note d = docset.axioms(1) [OF assms]
  have "docset_iter (const_ops D) (\<lambda>s. docs (cs_subscorer s)) (\<lambda>s. good (cs_subscorer s))"
    by unfold_locales
      (auto simp: const_ops_def const_advance_def docset_iter.docs_ascending [OF d] docset_iter.doc_head [OF d]
        split: prod.splits dest: docset_iter.advance_next [OF d])
  then show ?thesis by (rule docset_iter.default_docset) (simp add: const_ops_def)
qed

lemma const_score_ignored: "cs_score (const_weight_scorer score s boost) = cs_score (const_weight_scorer score' s boost)"
  by (simp add: const_weight_scorer_def)

section \<open>The union is a cursor\<close>

locale docset_union = docset D docs ok + min_heap H heap_ok
  for D :: "'s docset_ops" and docs and ok and H :: "('h, 's) heap_ops" and heap_ok
begin

definition heads_ok :: "'h \<Rightarrow> bool" where
  "heads_ok h \<longleftrightarrow> heap_ok h \<and> (\<forall>p \<in> set (h_items H h). ok (snd p) \<and> fst p = op_doc D (snd p))"

definition held :: "'h \<Rightarrow> nat set" where
  "held h = (\<Union>p \<in> set (h_items H h). set (docs (snd p)))"

definition union_docs :: "'h \<Rightarrow> nat list" where
  "union_docs h = sorted_list_of_set (held h)"

lemma held_finite: "finite (held h)"
  by (simp add: held_def)

lemma union_docs_set [simp]: "set (union_docs h) = held h"
  by (simp add: union_docs_def held_finite)

lemma union_ascending: "heads_ok h \<Longrightarrow> ascending_docs (union_docs h)"
  using docs_ascending by (auto simp: ascending_docs_def union_docs_def held_finite held_def heads_ok_def)

lemma held_least: "heads_ok h \<Longrightarrow> p \<in> set (h_items H h) \<Longrightarrow> d \<in> set (docs (snd p)) \<Longrightarrow> fst p \<le> d"
  by (simp add: heads_ok_def doc_head head_le docs_ascending)

lemma held_ge: "heads_ok h \<Longrightarrow> \<forall>q \<in> set (h_items H h). c \<le> fst q \<Longrightarrow> d \<in> held h \<Longrightarrow> c \<le> d"
  by (auto simp: held_def dest!: held_least dest: order_trans bspec)

lemma head_held: "heads_ok h \<Longrightarrow> p \<in> set (h_items H h) \<Longrightarrow> fst p < TERMINATED \<Longrightarrow> fst p \<in> held h"
  unfolding held_def heads_ok_def by (metis UN_I doc_head docs_ascending head_in)

lemma union_doc_head:
  assumes "heads_ok h"
  shows "union_doc H h = head_doc (union_docs h)"
proof (cases "h_peek_min H h")
  case None
  then have "h_items H h = []" using peek_none assms by (auto simp: heads_ok_def)
  with None show ?thesis by (simp add: union_doc_def union_docs_def held_def)
next
  case (Some p)
  then have p: "p \<in> set (h_items H h)" "\<forall>q \<in> set (h_items H h). fst p \<le> fst q"
    using peek_least [OF _ Some] assms by (auto simp: heads_ok_def)
  then have le: "fst p \<le> d" if "d \<in> held h" for d using held_ge [OF assms _ that] by blast
  have asc: "ascending_docs (union_docs h)" by (rule union_ascending [OF assms])
  have b: "fst p \<le> TERMINATED" using p(1) assms doc_bound by (auto simp: heads_ok_def)
  have "head_doc (union_docs h) = fst p"
  proof (cases "fst p = TERMINATED")
    case True
    with le head_in [OF asc] head_bound [OF asc] show ?thesis by force
  next
    case False
    with head_held [OF assms p(1)] b head_le [OF asc, of "fst p"] have l: "head_doc (union_docs h) \<le> fst p" by simp
    with False b head_in [OF asc] le show ?thesis by (simp add: order_antisym)
  qed
  with Some show ?thesis by (simp add: union_doc_def)
qed

text \<open>Advancing one head out of the way.\<close>

lemma set_min_step:
  assumes "heads_ok h" and "h_peek_min H h = Some p" and "fst p < TERMINATED" and "op_advance D (snd p) = (d, s)"
  shows "heads_ok (h_set_min H (d, s) h)" "fst p < d"
    "mset (h_items H (h_set_min H (d, s) h)) = add_mset (d, s) (mset (h_items H h) - {#p#})"
    "set (docs (snd p)) = insert (fst p) (set (docs s))" "fst p \<notin> set (docs s)"
proof -
  have h: "heap_ok h" using assms(1) by (simp add: heads_ok_def)
  note items = set_min_items [OF h assms(2), of "(d, s)"]
  show m: "mset (h_items H (h_set_min H (d, s) h)) = add_mset (d, s) (mset (h_items H h) - {#p#})" using items by simp
  have p: "ok (snd p)" "fst p = op_doc D (snd p)" using peek_least [OF h assms(2)] assms(1) by (auto simp: heads_ok_def)
  have n: "ok s" "docs s = tl (docs (snd p))" "d = op_doc D s" using advance_next [OF p(1) assms(4)] by auto
  have asc: "ascending_docs (docs (snd p))" by (rule docs_ascending [OF p(1)])
  have hd: "docs (snd p) = fst p # docs s"
    using doc_head [OF p(1)] p(2) n(2) assms(3) by (cases "docs (snd p)") auto
  show "set (docs (snd p)) = insert (fst p) (set (docs s))" "fst p \<notin> set (docs s)" using hd asc by auto
  show "fst p < d" using hd asc assms(3) n(3) doc_head [OF n(1)] by (cases "docs s") auto
  have "set (h_items H (h_set_min H (d, s) h)) \<subseteq> insert (d, s) (set (h_items H h))"
    using arg_cong [OF m, of set_mset] by (auto dest: in_diffD)
  then show "heads_ok (h_set_min H (d, s) h)" using items n assms(1) by (auto simp: heads_ok_def)
qed

lemma union_loop_passes:
  assumes "heads_ok h" and "c < TERMINATED" and "\<forall>p \<in> set (h_items H h). c \<le> fst p" and "h_items H h \<noteq> []"
  shows "\<exists>h'. union_loop H D c h = Some (Ret h') \<and> heads_ok h' \<and> h_items H h' \<noteq> [] \<and> held h' = held h - {c}"
  using assms
proof (induction "size (filter_mset (\<lambda>p. fst p = c) (mset (h_items H h)))" arbitrary: h rule: less_induct)
  case less
  have h: "heap_ok h" using less.prems(1) by (simp add: heads_ok_def)
  obtain p where p: "h_peek_min H h = Some p" using peek_none [OF h] less.prems(4) by auto
  have pin: "p \<in> set (h_items H h)" "\<forall>q \<in> set (h_items H h). fst p \<le> fst q" using peek_least [OF h p] by auto
  show ?case
  proof (cases "fst p = c")
    case False
    then have "c < fst p" using less.prems(3) pin by (simp add: le_neq_trans)
    then have "c \<notin> held h" using held_ge [OF less.prems(1) pin(2), of c] by auto
    with False p less.prems show ?thesis by (subst union_loop.simps) auto
  next
    case True
    obtain d s where a: "op_advance D (snd p) = (d, s)" by force
    have t: "fst p < TERMINATED" using True less.prems(2) by simp
    let ?h = "h_set_min H (d, s) h"
    note step = set_min_step [OF less.prems(1) p t a]
    have m: "mset (h_items H h) = add_mset p (mset (h_items H h) - {#p#})" using pin(1) by simp
    have sets: "set (h_items H ?h) = insert (d, s) (set_mset (mset (h_items H h) - {#p#}))"
      "set (h_items H h) = insert p (set_mset (mset (h_items H h) - {#p#}))"
      using arg_cong [OF step(3), of set_mset] arg_cong [OF m, of set_mset] by simp_all
    have "p \<in># filter_mset (\<lambda>p. fst p = c) (mset (h_items H h))" using pin(1) True by simp
    from size_Diff1_less [OF this]
    have "size (filter_mset (\<lambda>p. fst p = c) (mset (h_items H ?h))) < size (filter_mset (\<lambda>p. fst p = c) (mset (h_items H h)))"
      using step(2,3) True by simp
    moreover have "\<forall>q \<in> set (h_items H ?h). c \<le> fst q" using sets less.prems(3) step(2) True by auto
    moreover have "h_items H ?h \<noteq> []" using step(3) by auto
    ultimately obtain h' where h': "union_loop H D c ?h = Some (Ret h')" "heads_ok h'" "h_items H h' \<noteq> []" "held h' = held ?h - {c}"
      using less.hyps [of ?h] step(1) less.prems(2) by auto
    have "held ?h - {c} = held h - {c}" using sets step(4) True by (auto simp: held_def)
    with h' p a True show ?thesis by (subst union_loop.simps) auto
  qed
qed

lemma union_advance_next:
  assumes "heads_ok h"
  shows "\<exists>d h'. union_advance H D h = Some (Ret (d, h')) \<and> heads_ok h' \<and> union_docs h' = tl (union_docs h) \<and> d = union_doc H h'"
proof (cases "union_doc H h = TERMINATED")
  case True
  then have "union_docs h = []"
    using union_doc_head [OF assms] union_ascending [OF assms] by (cases "union_docs h") auto
  with True assms show ?thesis by (simp add: union_advance_def)
next
  case False
  then obtain p where p: "h_peek_min H h = Some p" by (auto simp: union_doc_def split: option.splits)
  have h: "heap_ok h" using assms by (simp add: heads_ok_def)
  have least: "p \<in> set (h_items H h)" "\<forall>q \<in> set (h_items H h). fst p \<le> fst q" using peek_least [OF h p] by auto
  have c: "union_doc H h = fst p" using p by (simp add: union_doc_def)
  have "fst p \<le> TERMINATED" using least(1) assms doc_bound by (auto simp: heads_ok_def)
  then obtain h' where h': "union_loop H D (fst p) h = Some (Ret h')" "heads_ok h'" "h_items H h' \<noteq> []" "held h' = held h - {fst p}"
    using union_loop_passes [OF assms _ least(2)] least(1) False c by (metis le_neq_implies_less length_pos_if_in_set less_numeral_extra(3) list.size(3))
  then obtain q where q: "h_peek_min H h' = Some q" using peek_none [of h'] by (auto simp: heads_ok_def)
  have "set (union_docs h') = set (tl (union_docs h))"
    using h'(4) tl_from [OF union_ascending [OF assms]] union_doc_head [OF assms] c by simp
  then have "union_docs h' = tl (union_docs h)" by (intro ascending_eqI union_ascending h' ascending_tl assms)
  with h' q False c show ?thesis by (simp add: union_advance_def union_doc_def)
qed

lemma union_iter: "docset_iter (union_ops H D) union_docs heads_ok"
proof
  fix h h' d assume h: "heads_ok h"
  show "ascending_docs (union_docs h)" by (rule union_ascending [OF h])
  show "op_doc (union_ops H D) h = head_doc (union_docs h)" by (simp add: union_ops_def union_doc_head h)
  show "heads_ok h' \<and> union_docs h' = tl (union_docs h) \<and> d = op_doc (union_ops H D) h'"
    if "op_advance (union_ops H D) h = (d, h')" using union_advance_next [OF h] that by (auto simp: union_ops_def returned_def)
qed

lemma union_docset: "docset (union_ops H D) union_docs heads_ok"
  by (rule docset_iter.default_docset [OF union_iter]) (simp add: union_ops_def union_seek_def)

lemma union_from_heads:
  assumes "\<forall>s \<in> set ss. ok s"
  shows "heads_ok (union_from H D ss)" "held (union_from H D ss) = (\<Union>s \<in> set ss. set (docs s))"
proof -
  let ?push = "\<lambda>h s. h_push H (op_doc D s, s) h"
  have push: "heads_ok (?push h s) \<and> held (?push h s) = set (docs s) \<union> held h" if "heads_ok h" "ok s" for h s
  proof -
    have "heap_ok (?push h s)" "mset (h_items H (?push h s)) = add_mset (op_doc D s, s) (mset (h_items H h))"
      using push_items that(1) by (simp_all add: heads_ok_def)
    moreover from arg_cong [OF this(2), of set_mset] have "set (h_items H (?push h s)) = insert (op_doc D s, s) (set (h_items H h))" by simp
    ultimately show ?thesis using that by (auto simp: heads_ok_def held_def)
  qed
  have fold: "heads_ok (foldl ?push h us) \<and> held (foldl ?push h us) = (\<Union>s \<in> set us. set (docs s)) \<union> held h"
    if "heads_ok h" "\<forall>s \<in> set us. ok s" for h us
    using that by (induction us arbitrary: h) (auto simp: push)
  have e: "heads_ok (h_empty H)" "held (h_empty H) = {}" using empty_items by (simp_all add: heads_ok_def held_def)
  have "docs s = []" if "s \<in> set ss" "op_doc D s = TERMINATED" for s
    using doc_head [of s] docs_ascending [of s] assms that by (cases "docs s") auto
  then have "(\<Union>s \<in> set (filter (\<lambda>s. op_doc D s \<noteq> TERMINATED) ss). set (docs s)) = (\<Union>s \<in> set ss. set (docs s))" by force
  with fold [OF e(1), of "filter (\<lambda>s. op_doc D s \<noteq> TERMINATED) ss"] e(2) assms
  show "heads_ok (union_from H D ss)" "held (union_from H D ss) = (\<Union>s \<in> set ss. set (docs s))"
    by (auto simp: union_from_def)
qed

end

interpretation all_union: docset_union all_ops
  "\<lambda>s. if as_doc s = TERMINATED then [] else [as_doc s..<as_max_doc s]"
  "\<lambda>s. as_max_doc s \<le> TERMINATED \<and> (as_doc s < as_max_doc s \<or> as_doc s = TERMINATED)" list_heap "\<lambda>h. sorted (map fst h)"
  by unfold_locales

text \<open>
  The union of cursors is the cursor over the documents any of them holds: for cursors that keep the contract of the trait and
  a heap that keeps the contract of the crate, the loop of an advance ends without a panic, running the union to the end
  yields each document once and in ascending order, and the trait's default seek goes to the first of them from the target on.
\<close>

theorem union_refines:
  assumes "docset D docs good" and "min_heap H heap_good" and "\<forall>s \<in> set ss. good s"
  shows "collect_docs (union_ops H D) (union_from H D ss) = Some (sorted_list_of_set (\<Union>s \<in> set ss. set (docs s)))
    \<and> (\<exists>d h. union_advance H D (union_from H D ss) = Some (Ret (d, h)) \<and> d = union_doc H h)
    \<and> (\<forall>t \<le> TERMINATED. \<exists>h. union_seek H D t (union_from H D ss) = Some (union_doc H h, h)
         \<and> collect_docs (union_ops H D) h = Some (filter ((\<le>) t) (sorted_list_of_set (\<Union>s \<in> set ss. set (docs s)))))"
proof -
  have u: "docset_union D docs good H heap_good" using assms(1,2) by (simp add: docset_union_def)
  note iter = docset_union.union_iter [OF u] and from_ok = docset_union.union_from_heads [OF u assms(3)]
  let ?h = "union_from H D ss" and ?docs = "docset_union.union_docs docs H"
  let ?all = "sorted_list_of_set (\<Union>s \<in> set ss. set (docs s))"
  have all: "?docs ?h = ?all" using from_ok(2) by (simp add: docset_union.union_docs_def [OF u])
  have seek: "\<exists>h. union_seek H D t ?h = Some (union_doc H h, h) \<and> collect_docs (union_ops H D) h = Some (filter ((\<le>) t) ?all)"
    if "t \<le> TERMINATED" for t
  proof -
    from docset_iter.default_seek_from [OF iter from_ok(1) that] obtain h where
      h: "default_seek (op_advance (union_ops H D)) t (op_doc (union_ops H D) ?h) ?h = Some (op_doc (union_ops H D) h, h)"
      "docset_union.heads_ok D good H heap_good h" "?docs h = docs_from t ?all" by (auto simp: all)
    then show ?thesis
      using docset_iter.collect_exact [OF iter h(2)] from_filter [OF docset_iter.docs_ascending [OF iter from_ok(1)], of t] all
      by (auto simp: union_seek_def union_ops_def)
  qed
  show ?thesis
    using docset_iter.collect_exact [OF iter from_ok(1)] all seek docset_union.union_advance_next [OF u from_ok(1)] by auto
qed

theorem union_refines_witness:
  "collect_docs (union_ops list_heap all_ops) (union_from list_heap all_ops [\<lparr> as_doc = 1, as_max_doc = 3 \<rparr>, \<lparr> as_doc = 2, as_max_doc = 4 \<rparr>])
     = Some [1, 2, 3]"
proof -
  let ?s1 = "\<lparr> as_doc = 1, as_max_doc = 3 \<rparr>" and ?s2 = "\<lparr> as_doc = 2, as_max_doc = 4 \<rparr>"
  have all: "(\<Union>s \<in> set [?s1, ?s2]. set (if as_doc s = TERMINATED then [] else [as_doc s..<as_max_doc s])) = {1, 2, 3}"
    by (auto simp: TERMINATED_def)
  have good: "\<forall>s \<in> set [?s1, ?s2]. as_max_doc s \<le> TERMINATED \<and> (as_doc s < as_max_doc s \<or> as_doc s = TERMINATED)"
    by (simp add: TERMINATED_def)
  show ?thesis
    using conjunct1 [OF union_refines [OF all_docset.docset_axioms list_heap.min_heap_axioms good], unfolded all] by simp
qed

end
