(* ===== verification/Pattern_Scorer.thy ===== *)
theory Pattern_Scorer
  imports Docset_Union
begin

text \<open>
  The scorers of pattern queries (\<open>core/src/query/pattern_query/scorer.rs\<close>): the merge of two position lists within a
  distance, the match of a pattern of terms, wildcards and anchors at one document, and the scorer that walks the intersection
  of the postings and stops where the pattern matches. Postings are cursors with the positions of their term in the current
  document; the number of tokens of a document's field is a parameter, as the column store is. The two position buffers of the
  scorer are overwritten before they are read and appear as local values.
\<close>

section \<open>Positions within a distance\<close>

definition U32_MAX :: nat where "U32_MAX = 2 ^ 32 - 1"

function best_left :: "nat list \<Rightarrow> nat \<Rightarrow> nat \<Rightarrow> nat" where
  "best_left left right_val left_index =
     (if left_index + 1 < length left
      then (if left ! (left_index + 1) > right_val then left_index else best_left left right_val (left_index + 1))
      else left_index)"
  by auto
termination by (relation "measure (\<lambda>(left, _, i). length left - i)") auto

declare best_left.simps [simp del]

lemma best_left_ge: "i \<le> best_left left v i"
  by (induction left v i rule: best_left.induct) (subst best_left.simps, auto)

function slop_loop :: "nat list \<Rightarrow> nat list \<Rightarrow> nat \<Rightarrow> nat \<Rightarrow> nat \<Rightarrow> nat \<Rightarrow> nat list \<Rightarrow> (nat \<times> nat list) may_panic" where
  "slop_loop left right slop left_index right_index cnt out =
     (if left_index < length left \<and> right_index < length right then
        (let left_val = left ! left_index; right_val = right ! right_index; right_slop = right_val - slop in
         if left_val < right_slop then slop_loop left right slop (left_index + 1) right_index cnt out
         else if left_val \<le> right_val then
           (if cnt < length out
            then slop_loop left right slop (best_left left right_val left_index) (right_index + 1) (cnt + 1) (out[cnt := right_val])
            else Panic)
         else slop_loop left right slop left_index (right_index + 1) cnt out)
      else Ret (cnt, out))"
  by auto
termination
proof (relation "measure (\<lambda>(left, right, _, i, j, _). (length left - i) + (length right - j))", goal_cases)
  case (3 left right slop i j cnt out l r)
  then have "i < length left" "j < length right" by simp_all
  then show ?case using best_left_ge [of i left r] by (simp only: in_measure case_prod_conv)
qed auto

declare slop_loop.simps [simp del]

definition intersection_with_slop :: "nat list \<Rightarrow> nat list \<Rightarrow> nat list \<Rightarrow> nat \<Rightarrow> (nat \<times> nat list) may_panic" where
  "intersection_with_slop left right out slop = slop_loop left right slop 0 0 0 out"

lemma best_left_bound: "i < length left \<Longrightarrow> left ! i \<le> v \<Longrightarrow> best_left left v i < length left \<and> left ! best_left left v i \<le> v"
proof (induction left v i rule: best_left.induct)
  case (1 left v i)
  then show ?case by (subst (1 2) best_left.simps) (auto simp: not_less)
qed

definition near :: "nat \<Rightarrow> nat list \<Rightarrow> nat \<Rightarrow> bool" where
  "near slop ls r \<longleftrightarrow> (\<exists>l \<in> set ls. l \<le> r \<and> r \<le> l + slop)"

lemma set_drop_nth: "set (drop n xs) = {xs ! k | k. n \<le> k \<and> k < length xs}"
proof -
  have "x \<in> set (drop n xs) \<longleftrightarrow> (\<exists>i < length xs - n. xs ! (n + i) = x)" for x by (auto simp: in_set_conv_nth)
  also have "(\<exists>i < length xs - n. xs ! (n + i) = x) \<longleftrightarrow> (\<exists>k. n \<le> k \<and> k < length xs \<and> xs ! k = x)" for x
    by (metis add_diff_inverse_nat diff_less_mono le_add1 less_diff_conv2 add.commute less_diff_conv not_less)
  finally show ?thesis by auto
qed

lemma near_later:
  assumes "sorted left" and "i \<le> b" and "b < length left" and "left ! b \<le> r"
  shows "near slop (drop b left) r \<longleftrightarrow> near slop (drop i left) r"
proof
  assume "near slop (drop i left) r"
  then obtain k where k: "i \<le> k" "k < length left" "left ! k \<le> r" "r \<le> left ! k + slop"
    unfolding near_def set_drop_nth by auto
  show "near slop (drop b left) r"
  proof (cases "b \<le> k")
    case True
    with k show ?thesis unfolding near_def set_drop_nth by auto
  next
    case False
    then have "left ! k \<le> left ! b" using assms by (simp add: sorted_nth_mono)
    with k(4) assms(3,4) show ?thesis unfolding near_def set_drop_nth by fastforce
  qed
qed (use assms(2) set_drop_subset_set_drop [OF assms(2), of left] in \<open>auto simp: near_def\<close>)

lemma slop_loop_filter:
  fixes slop :: nat
  assumes "sorted left" and "sorted right" and "cnt + (length right - j) \<le> length out"
  defines "F \<equiv> \<lambda>i j. filter (near slop (drop i left)) (drop j right)"
  shows "\<exists>out'. slop_loop left right slop i j cnt out = Ret (cnt + length (F i j), out') \<and> take (cnt + length (F i j)) out' = take cnt out @ F i j"
  using assms(3)
proof (induction "(length left - i) + (length right - j)" arbitrary: i j cnt out rule: less_induct)
  case less
  show ?case
  proof (cases "i < length left \<and> j < length right")
    case False
    then have "F i j = []" by (auto simp: F_def near_def)
    with False show ?thesis by (subst slop_loop.simps) auto
  next
    case True
    let ?l = "left ! i" and ?r = "right ! j"
    have right: "drop j right = ?r # drop (j + 1) right" using True by (simp add: Cons_nth_drop_Suc)
    have left: "drop i left = ?l # drop (i + 1) left" using True by (simp add: Cons_nth_drop_Suc)
    have later: "?r \<le> r" if "r \<in> set (drop j right)" for r
      using assms(2) that by (auto simp: set_drop_nth sorted_nth_mono)
    have ge: "?l \<le> l" if "l \<in> set (drop i left)" for l
      using assms(1) that by (auto simp: set_drop_nth sorted_nth_mono)
    consider "?l < ?r - slop" | "\<not> ?l < ?r - slop" "?l \<le> ?r" | "?r < ?l" by linarith
    then show ?thesis
    proof cases
      case 1
      have "F (i + 1) j = F i j" unfolding F_def
        by (rule filter_cong) (use later 1 in \<open>fastforce simp: near_def left\<close>)+
      with less.hyps [of "i + 1" j cnt out] less.prems True 1 show ?thesis
        by (subst slop_loop.simps) (auto simp: Let_def)
    next
      case 2
      let ?b = "best_left left ?r i"
      have b: "i \<le> ?b" "?b < length left" "left ! ?b \<le> ?r" using best_left_ge best_left_bound [of i left ?r] True 2 by auto
      have "F ?b (j + 1) = filter (near slop (drop i left)) (drop (j + 1) right)" unfolding F_def
        by (rule filter_cong [OF refl near_later [OF assms(1) b(1,2)]])
           (use later b(3) right in \<open>auto intro: order_trans\<close>)
      moreover have "near slop (drop i left) ?r" using 2 by (auto simp: near_def left)
      ultimately have F: "F i j = ?r # F ?b (j + 1)" by (simp add: F_def right)
      have c: "cnt < length out" using less.prems True by linarith
      have m: "(length left - ?b) + (length right - (j + 1)) < (length left - i) + (length right - j)"
        "cnt + 1 + (length right - (j + 1)) \<le> length (out[cnt := ?r])"
        using b less.prems True by (linarith, simp only: length_list_update, linarith)
      obtain out' where o: "slop_loop left right slop ?b (j + 1) (cnt + 1) (out[cnt := ?r]) = Ret (cnt + 1 + length (F ?b (j + 1)), out')"
        "take (cnt + 1 + length (F ?b (j + 1))) out' = take (cnt + 1) (out[cnt := ?r]) @ F ?b (j + 1)"
        using less.hyps [of ?b "j + 1" "cnt + 1" "out[cnt := ?r]", OF m(1)] m(2) by auto
      have "take (cnt + 1) (out[cnt := ?r]) = take cnt out @ [?r]" using c by (simp add: take_Suc_conv_app_nth)
      with o c True 2 F show ?thesis by (subst slop_loop.simps) (simp add: Let_def)
    next
      case 3
      then have "\<not> near slop (drop i left) ?r" using ge by (fastforce simp: near_def)
      then have "F i (j + 1) = F i j" by (simp add: F_def right)
      with less.hyps [of i "j + 1" cnt out] less.prems True 3 show ?thesis
        by (subst slop_loop.simps) (auto simp: Let_def)
    qed
  qed
qed

lemma intersection_with_slop_filter:
  assumes "sorted left" and "sorted right" and "length right \<le> length out"
  shows "\<exists>out'. intersection_with_slop left right out slop = Ret (length (filter (near slop left) right), out')
    \<and> take (length (filter (near slop left) right)) out' = filter (near slop left) right"
  using slop_loop_filter [OF assms(1,2), of 0 0 out slop 0] assms(3) by (simp add: intersection_with_slop_def)

section \<open>The pattern at one document\<close>

datatype small_pattern_part = Term | Wildcard | Anchor

text \<open>The last token's position, with the subtraction of a \<open>u64\<close> and the truncation to \<open>u32\<close>.\<close>

definition last_token :: "nat \<Rightarrow> nat" where
  "last_token n = (n + (2 ^ 64 - 1)) mod 2 ^ 64 mod 2 ^ 32"

fun match_parts_loop :: "(nat \<Rightarrow> nat list may_panic) \<Rightarrow> nat \<Rightarrow> nat \<Rightarrow> nat \<Rightarrow> nat list \<Rightarrow> nat \<Rightarrow> nat \<Rightarrow> nat \<Rightarrow> (nat \<times> small_pattern_part) list \<Rightarrow> nat may_panic" where
  "match_parts_loop positions num_tokens num_terms n left len current slop [] = Ret len"
| "match_parts_loop positions num_tokens num_terms n left len current slop ((i, Term) # ps) =
     (if current = 0 then match_parts_loop positions num_tokens num_terms n left len 1 slop ps
      else
        outcome_bind (positions current) (\<lambda>right.
        outcome_bind (intersection_with_slop left right (replicate (max (length left) (length right)) 0) slop) (\<lambda>(len', out).
          if len' = 0 then Ret 0
          else match_parts_loop positions num_tokens num_terms n (take len' out) len' (current + 1) 1 ps)))"
| "match_parts_loop positions num_tokens num_terms n left len current slop ((i, Wildcard) # ps) =
     match_parts_loop positions num_tokens num_terms n left len current U32_MAX ps"
| "match_parts_loop positions num_tokens num_terms n left len current slop ((i, Anchor) # ps) =
     (if i = 0 then
        (if left \<noteq> [] \<and> hd left \<noteq> 0 then Ret 0
         else match_parts_loop positions num_tokens num_terms n left len current slop ps)
      else if i = n - 1 then
        (if num_terms = 0 then Panic
         else
           outcome_bind (positions (num_terms - 1)) (\<lambda>right.
             if right \<noteq> [] \<and> last right \<noteq> last_token num_tokens then Ret 0
             else match_parts_loop positions num_tokens num_terms n left len current slop ps))
      else match_parts_loop positions num_tokens num_terms n left len current slop ps)"

text \<open>
  What the loop computes: the ends of the chains of positions, one for each term, in which consecutive positions are at most the
  gap apart that the parts between the terms allow. A wildcard before the first term is carried over to the second.
\<close>

fun gaps :: "bool \<Rightarrow> nat \<Rightarrow> small_pattern_part list \<Rightarrow> nat list" where
  "gaps seen slop [] = []"
| "gaps seen slop (Term # ps) = (if seen then slop # gaps True 1 ps else gaps True slop ps)"
| "gaps seen slop (Wildcard # ps) = gaps seen U32_MAX ps"
| "gaps seen slop (Anchor # ps) = gaps seen slop ps"

fun chain_ends :: "nat list \<Rightarrow> (nat \<times> nat list) list \<Rightarrow> nat list" where
  "chain_ends left [] = left"
| "chain_ends left ((g, right) # rest) = chain_ends (filter (near g left) right) rest"

definition chain :: "nat list list \<Rightarrow> nat list \<Rightarrow> nat list \<Rightarrow> bool" where
  "chain occs gs qs \<longleftrightarrow> length qs = length occs \<and> (\<forall>k < length occs. qs ! k \<in> set (occs ! k))
     \<and> (\<forall>k. k + 1 < length occs \<longrightarrow> qs ! k \<le> qs ! (k + 1) \<and> qs ! (k + 1) \<le> qs ! k + gs ! k)"

lemma chain_single: "chain [occ] gs qs \<longleftrightarrow> (\<exists>q \<in> set occ. qs = [q])"
  by (cases qs) (auto simp: chain_def)

lemma chain_Cons:
  "chain (occ # occ' # occs) (g # gs) (q # q' # qs) \<longleftrightarrow> q \<in> set occ \<and> q \<le> q' \<and> q' \<le> q + g \<and> chain (occ' # occs) gs (q' # qs)"
  (is "?l \<longleftrightarrow> ?r")
proof -
  have *: "(\<forall>k. k + 1 < Suc (Suc n) \<longrightarrow> P k) \<longleftrightarrow> P 0 \<and> (\<forall>k. k + 1 < Suc n \<longrightarrow> P (Suc k))" for P n
    by (metis Suc_eq_plus1 Suc_less_eq not0_implies_Suc zero_less_Suc)
  show ?thesis unfolding chain_def by (simp only: * length_Cons) (auto simp: All_less_Suc2)
qed

lemma chain_ends_set: "set (chain_ends left rest) = {last qs | qs. chain (left # map snd rest) (map fst rest) qs}"
proof (induction left rest rule: chain_ends.induct)
  case (1 left)
  show ?case by (auto simp: chain_single intro: exI [of _ "[_]"])
next
  case (2 left g right rest)
  let ?f = "filter (near g left) right"
  have "chain (?f # map snd rest) (map fst rest) (q' # qs) \<longleftrightarrow> (\<exists>q. chain (left # right # map snd rest) (g # map fst rest) (q # q' # qs))" for q' qs
    unfolding chain_Cons by (auto simp: chain_def near_def All_less_Suc2)
  moreover have "qs \<noteq> []" if "chain (?f # map snd rest) (map fst rest) qs" for qs using that by (auto simp: chain_def)
  moreover have "\<exists>q q' us. qs = q # q' # us" if "chain (left # right # map snd rest) (g # map fst rest) qs" for qs
    using that by (auto simp: chain_def length_Suc_conv)
  ultimately show ?case unfolding chain_ends.simps 2 by (auto, (metis last_ConsR list.distinct(1) neq_Nil_conv)+)
qed

lemma chain_ends_nil [simp]: "chain_ends [] rest = []"
proof (induction rest)
  case (Cons p rest)
  then show ?case by (cases p) (simp add: near_def)
qed simp

lemma chain_ends_distinct: "distinct left \<Longrightarrow> \<forall>p \<in> set rest. distinct (snd p) \<Longrightarrow> distinct (chain_ends left rest)"
  by (induction left rest rule: chain_ends.induct) auto

text \<open>The anchors: the first position of the first term and the last position of the last term.\<close>

definition start_ok :: "small_pattern_part list \<Rightarrow> nat list \<Rightarrow> bool" where
  "start_ok ps left \<longleftrightarrow> (ps \<noteq> [] \<and> hd ps = Anchor \<longrightarrow> left = [] \<or> hd left = 0)"

definition end_ok :: "small_pattern_part list \<Rightarrow> nat \<Rightarrow> nat list \<Rightarrow> bool" where
  "end_ok ps num_tokens right \<longleftrightarrow> (ps \<noteq> [] \<and> last ps = Anchor \<longrightarrow> right = [] \<or> last right = last_token num_tokens)"

definition terms_in :: "small_pattern_part list \<Rightarrow> nat" where
  "terms_in ps = length (filter ((=) Term) ps)"

lemma match_parts_loop_ends:
  assumes "\<forall>k < num_terms. positions k = Ret (occ k) \<and> sorted (occ k)" and "sorted left" and "0 < i" and "0 < num_terms"
    and "(if current = 0 then 0 else current) + terms_in ps \<le> num_terms"
  shows "match_parts_loop positions num_tokens num_terms (i + length ps) left (length left) current slop (enumerate i ps)
    = Ret (if end_ok ps num_tokens (occ (num_terms - 1))
           then length (chain_ends left (zip (gaps (current \<noteq> 0) slop ps) (map occ [max 1 current..<num_terms]))) else 0)"
  using assms(2,3,5)
proof (induction ps arbitrary: i left current slop)
  case Nil
  then show ?case by (simp add: end_ok_def)
next
  case (Cons p ps)
  have IH: "match_parts_loop positions num_tokens num_terms (Suc (i + length ps)) l (length l) c g (enumerate (Suc i) ps)
    = Ret (if end_ok ps num_tokens (occ (num_terms - 1))
           then length (chain_ends l (zip (gaps (c \<noteq> 0) g ps) (map occ [max 1 c..<num_terms]))) else 0)"
    if "sorted l" "(if c = 0 then 0 else c) + terms_in ps \<le> num_terms" for l c g
    using Cons.IH [of l "Suc i" c g] that by simp
  show ?case
  proof (cases p)
    case Term
    have e: "end_ok (Term # ps) num_tokens (occ (num_terms - 1)) = end_ok ps num_tokens (occ (num_terms - 1))" by (simp add: end_ok_def)
    show ?thesis
    proof (cases "current = 0")
      case True
      with Term Cons.prems IH [of left 1 slop] e show ?thesis by (simp add: terms_in_def)
    next
      case False
      then have c: "current < num_terms" using Cons.prems(3) Term by (simp add: terms_in_def)
      let ?r = "occ current"
      let ?F = "filter (near slop left) ?r"
      obtain out' where o: "intersection_with_slop left ?r (replicate (max (length left) (length ?r)) 0) slop = Ret (length ?F, out')"
        "take (length ?F) out' = ?F"
        using intersection_with_slop_filter [of left ?r "replicate (max (length left) (length ?r)) 0" slop] assms(1) c Cons.prems(1) by auto
      have r: "sorted ?F" using assms(1) c by (simp add: sorted_wrt_filter)
      have "map occ [max 1 current..<num_terms] = ?r # map occ [max 1 (current + 1)..<num_terms]"
        using c False by (simp add: upt_conv_Cons max_def)
      with Term False assms(1) c o e IH [OF r, of "current + 1" 1] Cons.prems(3) show ?thesis by (auto simp: terms_in_def)
    qed
  next
    case Wildcard
    with Cons.prems IH [of left current U32_MAX] show ?thesis by (simp add: end_ok_def terms_in_def)
  next
    case Anchor
    with Cons.prems IH [of left current slop] assms(1,4) show ?thesis
      by (cases "ps = []") (auto simp: end_ok_def terms_in_def)
  qed
qed

lemma length_gaps: "length (gaps seen slop ps) = terms_in ps - (if seen then 0 else 1)"
proof (induction seen slop ps rule: gaps.induct)
  case (2 seen slop ps)
  then show ?case by (cases seen) (auto simp: terms_in_def)
qed (simp_all add: terms_in_def)

definition phrase_ends :: "nat list list \<Rightarrow> nat \<Rightarrow> small_pattern_part list \<Rightarrow> nat set" where
  "phrase_ends occs num_tokens pattern =
     {last qs | qs. start_ok pattern (hd occs) \<and> end_ok (tl pattern) num_tokens (last occs) \<and> chain occs (gaps False 1 pattern) qs}"

lemma match_parts_count:
  assumes "\<forall>k < num_terms. positions k = Ret (occ k) \<and> sorted_wrt (<) (occ k)" and "0 < num_terms" and "terms_in pattern = num_terms"
  shows "match_parts_loop positions num_tokens num_terms (length pattern) (occ 0) (length (occ 0)) 0 1 (enumerate 0 pattern)
    = Ret (card (phrase_ends (map occ [0..<num_terms]) num_tokens pattern))"
proof -
  let ?ends = "chain_ends (occ 0) (zip (gaps False 1 pattern) (map occ [1..<num_terms]))"
  let ?occs = "map occ [0..<num_terms]"
  have srt: "\<forall>k < num_terms. positions k = Ret (occ k) \<and> sorted (occ k)" using assms(1) strict_sorted_imp_sorted by blast
  obtain p ps where p: "pattern = p # ps" using assms(2,3) by (cases pattern) (auto simp: terms_in_def)
  have occs: "hd ?occs = occ 0" "last ?occs = occ (num_terms - 1)" "?occs = occ 0 # map occ [1..<num_terms]"
    using assms(2) by (simp_all add: hd_map last_map upt_rec [of 0 num_terms] del: upt_Suc)
  have "length (gaps False 1 pattern) = length (map occ [1..<num_terms])" using assms(3) by (simp add: length_gaps)
  then have ends: "set ?ends = {last qs | qs. chain ?occs (gaps False 1 pattern) qs}"
    unfolding occs(3) by (simp add: chain_ends_set)
  have dist: "distinct (occ k)" if "k < num_terms" for k using assms(1) that by (simp add: strict_sorted_iff)
  have "distinct ?ends"
    by (rule chain_ends_distinct) (auto simp: assms(2) dist dest!: set_zip_rightD)
  from distinct_card [OF this] have len: "length ?ends = card {last qs | qs. chain ?occs (gaps False 1 pattern) qs}" by (simp only: ends)
  note loop = match_parts_loop_ends [OF srt, of "occ 0" 1]
  have "match_parts_loop positions num_tokens num_terms (length pattern) (occ 0) (length (occ 0)) 0 1 (enumerate 0 pattern)
    = Ret (if start_ok pattern (occ 0) \<and> end_ok ps num_tokens (occ (num_terms - 1)) then length ?ends else 0)"
  proof (cases p)
    case Term
    then show ?thesis using loop [of 1 ps num_tokens 1] srt assms(2,3) by (simp add: p terms_in_def start_ok_def)
  next
    case Wildcard
    then show ?thesis using loop [of 0 ps num_tokens U32_MAX] srt assms(2,3) by (simp add: p terms_in_def start_ok_def)
  next
    case Anchor
    then show ?thesis using loop [of 0 ps num_tokens 1] srt assms(2,3) by (simp add: p terms_in_def start_ok_def)
  qed
  moreover have "phrase_ends ?occs num_tokens pattern
    = (if start_ok pattern (occ 0) \<and> end_ok ps num_tokens (occ (num_terms - 1)) then {last qs | qs. chain ?occs (gaps False 1 pattern) qs} else {})"
    unfolding phrase_ends_def occs(1,2) by (auto simp: p)
  ultimately show ?thesis using len by simp
qed

section \<open>The scorer\<close>

record 's postings_ops =
  po_docset :: "'s docset_ops"
  po_positions :: "'s \<Rightarrow> nat list"
  po_term_freq :: "'s \<Rightarrow> nat"

record 's pattern_scorer =
  ps_all_simple :: bool
  ps_intersection :: "'s intersection"
  ps_pattern :: "small_pattern_part list"
  ps_num_query_terms :: nat
  ps_phrase_count :: nat

definition term_positions :: "'s postings_ops \<Rightarrow> 's intersection \<Rightarrow> nat \<Rightarrow> nat list may_panic" where
  "term_positions P x ord = outcome_bind (docset_mut_specialized x ord) (\<lambda>s. Ret (po_positions P s))"

definition perform_pattern_match :: "'s postings_ops \<Rightarrow> (nat \<Rightarrow> nat option) \<Rightarrow> 's pattern_scorer \<Rightarrow> nat may_panic" where
  "perform_pattern_match P tokens s =
     (let doc = intersection_doc (po_docset P) (ps_intersection s); positions = term_positions P (ps_intersection s) in
      if doc = TERMINATED then Ret 0
      else
        outcome_bind (positions 0) (\<lambda>left.
          case tokens doc of
            None \<Rightarrow> Panic
          | Some num_tokens \<Rightarrow>
              match_parts_loop positions num_tokens (ps_num_query_terms s) (length (ps_pattern s))
                left (length left) 0 1 (enumerate 0 (ps_pattern s))))"

definition pattern_match :: "'s postings_ops \<Rightarrow> (nat \<Rightarrow> nat option) \<Rightarrow> 's pattern_scorer \<Rightarrow> (bool \<times> 's pattern_scorer) may_panic" where
  "pattern_match P tokens s =
     outcome_bind
       (if ps_num_query_terms s = 1 \<and> ps_all_simple s
        then outcome_bind (docset_mut_specialized (ps_intersection s) 0) (\<lambda>p. Ret (po_term_freq P p))
        else outcome_bind (perform_pattern_match P tokens s) (\<lambda>n. Ret (n mod 2 ^ 32)))
       (\<lambda>n. Ret (n > 0, s\<lparr> ps_phrase_count := n \<rparr>))"

partial_function (option) pattern_advance :: "'s postings_ops \<Rightarrow> (nat \<Rightarrow> nat option) \<Rightarrow> 's pattern_scorer \<Rightarrow> (nat \<times> 's pattern_scorer) may_panic option" where
  "pattern_advance P tokens s =
     (case intersection_advance (po_docset P) (ps_intersection s) of
        None \<Rightarrow> None
      | Some (doc, x) \<Rightarrow>
          (let s' = s\<lparr> ps_intersection := x \<rparr> in
           if doc = TERMINATED then Some (Ret (doc, s'))
           else
             (case pattern_match P tokens s' of
                Panic \<Rightarrow> Some Panic
              | Ret (matched, s'') \<Rightarrow> if matched then Some (Ret (doc, s'')) else pattern_advance P tokens s'')))"

definition pattern_scorer_new :: "'s postings_ops \<Rightarrow> (nat \<Rightarrow> nat option) \<Rightarrow> 's list \<Rightarrow> small_pattern_part list \<Rightarrow> 's pattern_scorer may_panic option" where
  "pattern_scorer_new P tokens postings pattern =
     (case intersection_new (po_docset P) postings of
        None \<Rightarrow> None
      | Some Panic \<Rightarrow> Some Panic
      | Some (Ret x) \<Rightarrow>
          (let s = \<lparr> ps_all_simple = list_all ((=) Term) pattern, ps_intersection = x, ps_pattern = pattern,
                     ps_num_query_terms = length postings, ps_phrase_count = 0 \<rparr>
           in case pattern_match P tokens s of
                Panic \<Rightarrow> Some Panic
              | Ret (matched, s') \<Rightarrow>
                  if matched then Some (Ret s')
                  else map_option (\<lambda>r. outcome_bind r (\<lambda>p. Ret (snd p))) (pattern_advance P tokens s')))"

definition pattern_ops :: "'s postings_ops \<Rightarrow> (nat \<Rightarrow> nat option) \<Rightarrow> 's pattern_scorer docset_ops" where
  "pattern_ops P tokens =
     (let doc = (\<lambda>s. intersection_doc (po_docset P) (ps_intersection s)); advance = (\<lambda>s. returned (pattern_advance P tokens s)) in
      \<lparr> op_doc = doc, op_advance = advance, op_seek = (\<lambda>t s. the (default_seek advance t (doc s) s)),
        op_size_hint = (\<lambda>s. intersection_size_hint (po_docset P) (ps_intersection s)) \<rparr>)"

section \<open>Cursors keep their place\<close>

text \<open>The operations of an intersection only move its cursors: what seeking and advancing keep of a cursor, they keep.\<close>

locale cursor_relation =
  fixes D :: "'s docset_ops" and R :: "'s \<Rightarrow> 's \<Rightarrow> bool"
  assumes R_refl: "R s s" and R_trans: "R s s' \<Longrightarrow> R s' s'' \<Longrightarrow> R s s''"
    and R_seek: "R s (snd (op_seek D t s))" and R_advance: "R s (snd (op_advance D s))"
begin

lemma all_refl: "list_all2 R ss ss"
  by (rule list.rel_refl) (rule R_refl)

lemma all_trans: "list_all2 R ss ss' \<Longrightarrow> list_all2 R ss' ss'' \<Longrightarrow> list_all2 R ss ss''"
  by (rule list_all2_trans [OF R_trans])

lemma seek_pass_rel: "list_all2 R ss (snd (seek_pass D c ss))"
proof (induction ss)
  case (Cons s ss)
  with R_seek [of s c] show ?case by (auto simp: all_refl split: prod.splits)
qed simp

lemma first_doc_loop_rel:
  assumes "first_doc_loop D c ss = Some r"
  shows "list_all2 R ss (snd r)"
proof -
  have "D' = D \<longrightarrow> list_all2 R ss (snd r)" if "first_doc_loop D' c ss = Some r" for D'
    using that
  proof (rule first_doc_loop.raw_induct [rotated], intro impI)
    fix loop D' c ss r
    assume loop: "\<And>D' c ss r. loop D' c ss = Some r \<Longrightarrow> D' = D \<longrightarrow> list_all2 R ss (snd r)"
      and step: "(case seek_pass D' c ss of (None, ss') \<Rightarrow> Some (c, ss') | (Some (d, s), ss') \<Rightarrow> loop D' (op_doc D' s) ss') = Some r" and "D' = D"
    obtain q ss1 where p: "seek_pass D c ss = (q, ss1)" by force
    have a: "list_all2 R ss ss1" using seek_pass_rel [of ss c] p by simp
    have "list_all2 R ss (snd r)" if "loop D c' ss1 = Some r" for c' using loop [OF that] all_trans [OF a] by blast
    then show "list_all2 R ss (snd r)" using step a p \<open>D' = D\<close> by (cases q) auto
  qed
  with assms show ?thesis by blast
qed

lemma advance_loop_rel:
  assumes "advance_loop D c r ss = Some q"
  shows "list_all2 R (r # ss) (snd q)"
proof -
  have "D' = D \<longrightarrow> list_all2 R (r # ss) (snd q)" if "advance_loop D' c r ss = Some q" for D'
    using that
  proof (rule advance_loop.raw_induct [rotated], intro impI)
    fix loop D' c r ss q
    assume loop: "\<And>D' c r ss q. loop D' c r ss = Some q \<Longrightarrow> D' = D \<longrightarrow> list_all2 R (r # ss) (snd q)"
      and step: "(case seek_pass D' c ss of (None, ss') \<Rightarrow> Some (c, r # ss')
          | (Some (d, s), ss') \<Rightarrow> (case op_seek D' d r of (c', r') \<Rightarrow> loop D' c' r' ss')) = Some q" and "D' = D"
    obtain p ss1 where p: "seek_pass D c ss = (p, ss1)" by force
    have a: "list_all2 R ss ss1" using seek_pass_rel [of ss c] p by simp
    have "list_all2 R (r # ss) (snd q)" if "loop D (fst (op_seek D d r)) (snd (op_seek D d r)) ss1 = Some q" for d
      using loop [OF that] a R_seek [of r d] all_trans [of "r # ss" "snd (op_seek D d r) # ss1"] by simp
    then show "list_all2 R (r # ss) (snd q)"
      using step a p \<open>D' = D\<close> R_refl by (cases p) (auto simp: split_beta)
  qed
  with assms show ?thesis by blast
qed

lemma intersection_advance_rel:
  assumes "intersection_advance D x = Some (d, x')"
  shows "ix_old_idx x' = ix_old_idx x \<and> list_all2 R (ix_docsets x) (ix_docsets x')"
proof (cases "ix_docsets x")
  case Nil
  with assms show ?thesis by (simp add: intersection_advance_def all_refl)
next
  case (Cons r others)
  obtain c r' where a: "op_advance D r = (c, r')" by force
  have "R r r'" using R_advance [of r] a by simp
  then have "list_all2 R (r # others) (r' # others)" by (simp add: all_refl)
  from this all_trans [OF this] Cons assms a show ?thesis
    by (auto simp: intersection_advance_def all_refl split: if_splits dest!: advance_loop_rel)
qed

lemma intersection_new_rel:
  assumes "intersection_new D ss = Some (Ret x)" and "i < length ss"
  shows "\<exists>s. docset_mut_specialized x i = Ret s \<and> s \<in> set (ix_docsets x) \<and> R (ss ! i) s"
proof (cases "length ss = 1")
  case True
  with assms show ?thesis by (auto simp: intersection_new_def docset_mut_specialized_def R_refl)
next
  case False
  let ?es = "sort_key (\<lambda>p. op_size_hint D (snd p)) (enumerate 0 ss)"
  let ?js = "foldl place_idx (replicate (length ss) 0) (enumerate 0 (map fst ?es))"
  obtain c ss' where g: "go_to_first_doc D (map snd ?es) = Some (Ret (c, ss'))" and x: "x = \<lparr> ix_docsets = ss', ix_old_idx = ?js \<rparr>"
    using assms(1) False by (auto simp: intersection_new_def Let_def elim: outcome_bind.elims)
  then have rel: "list_all2 R (map snd ?es) ss'"
    by (auto simp: go_to_first_doc_def split: if_splits dest!: first_doc_loop_rel)
  have j: "?js ! i < length ?es" "?es ! (?js ! i) = (i, ss ! i)" using old_idx_nth [OF assms(2), of ?es] by auto
  moreover have "length ss' = length ss" using list_all2_lengthD [OF rel] by simp
  ultimately show ?thesis using list_all2_nthD [OF rel, of "?js ! i"] x assms(2) by (simp add: docset_mut_specialized_def)
qed

lemma specialized_rel:
  assumes "intersection_advance D x = Some (d, x')" and "docset_mut_specialized x i = Ret s"
  shows "\<exists>s'. docset_mut_specialized x' i = Ret s' \<and> R s s'"
proof -
  have r: "ix_old_idx x' = ix_old_idx x" "list_all2 R (ix_docsets x) (ix_docsets x')" using intersection_advance_rel [OF assms(1)] by auto
  with assms(2) list_all2_lengthD [OF r(2)] list_all2_nthD [OF r(2), of "ix_old_idx x ! i"] show ?thesis
    by (auto simp: docset_mut_specialized_def split: if_splits)
qed

end

section \<open>The scorer is a cursor over the matching documents\<close>

text \<open>
  The contract of postings: cursors over the documents of a term that keep their term, and whose positions in a document are
  ascending, as many as the frequency, and depend only on the term and the document.
\<close>

locale postings = docset "po_docset P" docs ok
  for P :: "'s postings_ops" and docs and ok +
  fixes tag :: "'s \<Rightarrow> 't" and occ :: "'t \<Rightarrow> nat \<Rightarrow> nat list"
  assumes tag_advance: "tag (snd (op_advance (po_docset P) s)) = tag s"
    and tag_seek: "tag (snd (op_seek (po_docset P) t s)) = tag s"
    and positions_at: "ok s \<Longrightarrow> op_doc (po_docset P) s < TERMINATED \<Longrightarrow>
      po_positions P s = occ (tag s) (op_doc (po_docset P) s) \<and> po_term_freq P s = length (occ (tag s) (op_doc (po_docset P) s))"
    and occ_ascending: "ok s \<Longrightarrow> sorted_wrt (<) (occ (tag s) d) \<and> length (occ (tag s) d) < 2 ^ 32"

sublocale postings \<subseteq> kept: cursor_relation "po_docset P" "\<lambda>s s'. tag s' = tag s"
  by unfold_locales (simp_all add: tag_advance tag_seek)

lemma phrase_ends_subset:
  assumes "occs \<noteq> []"
  shows "phrase_ends occs n pattern \<subseteq> set (last occs)"
proof
  fix q assume "q \<in> phrase_ends occs n pattern"
  then obtain qs where qs: "q = last qs" "chain occs (gaps False 1 pattern) qs" by (auto simp: phrase_ends_def)
  then have "length qs = length occs" "\<forall>k < length occs. qs ! k \<in> set (occs ! k)" by (auto simp: chain_def)
  with assms qs(1) show "q \<in> set (last occs)" by (metis diff_less last_conv_nth length_greater_0_conv zero_less_one)
qed

lemma phrase_ends_single: "phrase_ends [occ] n [Term] = set occ"
  by (auto simp: phrase_ends_def start_ok_def end_ok_def chain_single intro: exI [of _ "[_]"])

lemma all_terms_single: "list_all ((=) Term) ps \<Longrightarrow> terms_in ps = 1 \<Longrightarrow> ps = [Term]"
  by (cases ps) (auto simp: terms_in_def list_all_iff filter_empty_conv)

context postings
begin

definition occs_at :: "'t list \<Rightarrow> nat \<Rightarrow> nat list list" where
  "occs_at terms d = map (\<lambda>u. occ u d) terms"

text \<open>What the scorer keeps: cursors of the terms, in their order, all on one document.\<close>

definition built :: "'t list \<Rightarrow> small_pattern_part list \<Rightarrow> 's pattern_scorer \<Rightarrow> bool" where
  "built terms pattern s \<longleftrightarrow> terms \<noteq> [] \<and> terms_in pattern = length terms \<and> ps_pattern s = pattern \<and> ps_num_query_terms s = length terms
     \<and> ps_all_simple s = list_all ((=) Term) pattern \<and> isect_ok (ps_intersection s)
     \<and> (\<forall>i < length terms. \<exists>p. docset_mut_specialized (ps_intersection s) i = Ret p \<and> tag p = terms ! i)"

lemma specialized_at:
  assumes "isect_ok x" and "docset_mut_specialized x i = Ret p"
  shows "ok p" "op_doc (po_docset P) p = intersection_doc (po_docset P) x"
proof -
  have p: "p \<in> set (ix_docsets x)" using assms(2) by (auto simp: docset_mut_specialized_def split: if_splits)
  then obtain r rs where r: "ix_docsets x = r # rs" by (cases "ix_docsets x") auto
  obtain c where "\<forall>s \<in> set (ix_docsets x). ok s \<and> op_doc (po_docset P) s = c" using assms(1) by (auto simp: isect_ok_def)
  with p r show "ok p" "op_doc (po_docset P) p = intersection_doc (po_docset P) x" by (auto simp: intersection_doc_def)
qed

lemma built_positions:
  assumes "built terms pattern s" and "intersection_doc (po_docset P) (ps_intersection s) = d" and "d < TERMINATED" and "i < length terms"
  shows "term_positions P (ps_intersection s) i = Ret (occ (terms ! i) d)"
proof -
  obtain p where p: "docset_mut_specialized (ps_intersection s) i = Ret p" "tag p = terms ! i" using assms(1,4) by (auto simp: built_def)
  have "isect_ok (ps_intersection s)" using assms(1) by (simp add: built_def)
  from specialized_at [OF this p(1)] positions_at [of p] p assms(2,3) show ?thesis by (simp add: term_positions_def)
qed

lemma built_occ:
  assumes "built terms pattern s" and "i < length terms"
  shows "sorted_wrt (<) (occ (terms ! i) d) \<and> length (occ (terms ! i) d) < 2 ^ 32"
proof -
  obtain p where p: "docset_mut_specialized (ps_intersection s) i = Ret p" "tag p = terms ! i" using assms by (auto simp: built_def)
  have "isect_ok (ps_intersection s)" using assms(1) by (simp add: built_def)
  from occ_ascending [OF specialized_at(1) [OF this p(1)]] p(2) show ?thesis by simp
qed

lemma pattern_match_exact:
  assumes "built terms pattern s" and "intersection_doc (po_docset P) (ps_intersection s) = d" and "d < TERMINATED" and "tokens d = Some n"
  defines "m \<equiv> card (phrase_ends (occs_at terms d) n pattern)"
  shows "pattern_match P tokens s = Ret (m > 0, s\<lparr> ps_phrase_count := m \<rparr>)"
proof (cases "length terms = 1 \<and> list_all ((=) Term) pattern")
  case True
  then have pat: "pattern = [Term]" using assms(1) all_terms_single by (auto simp: built_def)
  obtain u where u: "terms = [u]" using True by (auto simp: length_Suc_conv)
  obtain p where p: "docset_mut_specialized (ps_intersection s) 0 = Ret p" "tag p = u" using assms(1) u by (auto simp: built_def)
  have "isect_ok (ps_intersection s)" using assms(1) by (simp add: built_def)
  from specialized_at [OF this p(1)] positions_at [of p] p(2) assms(2,3) have f: "po_term_freq P p = length (occ u d)" by simp
  have "m = length (occ u d)" using built_occ [OF assms(1), of 0 d] by (simp add: m_def occs_at_def u pat phrase_ends_single distinct_card strict_sorted_iff)
  with f p(1) True u assms(1) show ?thesis by (simp add: pattern_match_def built_def)
next
  case False
  let ?occ = "\<lambda>k. occ (terms ! k) d"
  have K: "0 < length terms" "terms_in pattern = length terms" using assms(1) by (auto simp: built_def)
  have occs: "map ?occ [0..<length terms] = occs_at terms d" by (rule nth_equalityI) (simp_all add: occs_at_def)
  have pos: "\<forall>k < length terms. term_positions P (ps_intersection s) k = Ret (?occ k) \<and> sorted_wrt (<) (?occ k)"
    using built_positions [OF assms(1-3)] built_occ [OF assms(1)] by simp
  have "perform_pattern_match P tokens s = Ret m"
    using match_parts_count [OF pos K, of n] pos K(1) assms(1-4) occs by (simp add: perform_pattern_match_def built_def m_def Let_def)
  moreover have "m < 2 ^ 32"
  proof -
    have ne: "occs_at terms d \<noteq> []" using K(1) by (simp add: occs_at_def)
    have "m \<le> card (set (last (occs_at terms d)))" unfolding m_def by (intro card_mono phrase_ends_subset ne) simp
    also have "\<dots> \<le> length (last (occs_at terms d))" by (rule card_length)
    also have "\<dots> < 2 ^ 32" using built_occ [OF assms(1), of "length terms - 1" d] K(1) by (simp add: occs_at_def last_map last_conv_nth)
    finally show ?thesis .
  qed
  ultimately show ?thesis using False assms(1) by (auto simp: pattern_match_def built_def)
qed

definition matching :: "'t list \<Rightarrow> small_pattern_part list \<Rightarrow> (nat \<Rightarrow> nat option) \<Rightarrow> nat \<Rightarrow> bool" where
  "matching terms pattern tokens d \<longleftrightarrow> phrase_ends (occs_at terms d) (the (tokens d)) pattern \<noteq> {}"

definition scorer_docs :: "'t list \<Rightarrow> small_pattern_part list \<Rightarrow> (nat \<Rightarrow> nat option) \<Rightarrow> 's pattern_scorer \<Rightarrow> nat list" where
  "scorer_docs terms pattern tokens s = filter (matching terms pattern tokens) (isect_docs (ps_intersection s))"

definition counted :: "(nat \<Rightarrow> nat option) \<Rightarrow> 's pattern_scorer \<Rightarrow> bool" where
  "counted tokens s \<longleftrightarrow> (\<forall>d \<in> set (isect_docs (ps_intersection s)). tokens d \<noteq> None)"

definition scorer_ok :: "'t list \<Rightarrow> small_pattern_part list \<Rightarrow> (nat \<Rightarrow> nat option) \<Rightarrow> 's pattern_scorer \<Rightarrow> bool" where
  "scorer_ok terms pattern tokens s \<longleftrightarrow> built terms pattern s \<and> counted tokens s
     \<and> (let d = intersection_doc (po_docset P) (ps_intersection s) in d = TERMINATED \<or> matching terms pattern tokens d)"

lemma built_count [simp]: "built terms pattern (s\<lparr> ps_phrase_count := n \<rparr>) = built terms pattern s"
  by (simp add: built_def)

lemma built_moved:
  assumes "built terms pattern s" and "intersection_advance (po_docset P) (ps_intersection s) = Some (d, x)" and "isect_ok x"
  shows "built terms pattern (s\<lparr> ps_intersection := x \<rparr>)"
  using assms kept.specialized_rel [OF assms(2)] by (fastforce simp: built_def)

lemma pattern_match_current:
  assumes "built terms pattern s" and "counted tokens s" and "intersection_doc (po_docset P) (ps_intersection s) = d" and "d \<noteq> TERMINATED"
  shows "\<exists>m. pattern_match P tokens s = Ret (matching terms pattern tokens d, s\<lparr> ps_phrase_count := m \<rparr>)"
proof -
  have x: "isect_ok (ps_intersection s)" using assms(1) by (simp add: built_def)
  note head = isect_head [OF x] and asc = isect_docs_ascending [OF x]
  have lt: "d < TERMINATED" using head_bound [OF asc] head assms(3,4) by simp
  then have "d \<in> set (isect_docs (ps_intersection s))" using head_in [OF asc] head assms(3) by simp
  then obtain n where n: "tokens d = Some n" using assms(2) by (auto simp: counted_def)
  have ne: "occs_at terms d \<noteq> []" using assms(1) by (simp add: built_def occs_at_def)
  have "finite (phrase_ends (occs_at terms d) n pattern)" by (rule finite_subset [OF phrase_ends_subset [OF ne]]) simp
  with pattern_match_exact [where tokens = tokens, OF assms(1,3) lt n] n show ?thesis by (auto simp: matching_def card_gt_0_iff)
qed

lemma pattern_advance_next:
  assumes "built terms pattern s" and "counted tokens s"
  shows "\<exists>d s'. pattern_advance P tokens s = Some (Ret (d, s')) \<and> scorer_ok terms pattern tokens s'
    \<and> scorer_docs terms pattern tokens s' = filter (matching terms pattern tokens) (tl (isect_docs (ps_intersection s)))
    \<and> d = intersection_doc (po_docset P) (ps_intersection s')"
  using assms
proof (induction "length (isect_docs (ps_intersection s))" arbitrary: s rule: less_induct)
  case less
  have "isect_ok (ps_intersection s)" using less.prems(1) by (simp add: built_def)
  from isect_advance [OF this] obtain d x where x: "intersection_advance (po_docset P) (ps_intersection s) = Some (d, x)" "isect_ok x"
    "isect_docs x = tl (isect_docs (ps_intersection s))" "d = intersection_doc (po_docset P) x" by blast
  let ?s = "s\<lparr> ps_intersection := x \<rparr>"
  have b: "built terms pattern ?s" by (rule built_moved [OF less.prems(1) x(1,2)])
  have c: "counted tokens ?s" using less.prems(2) x(3) by (cases "isect_docs (ps_intersection s)") (auto simp: counted_def)
  show ?case
  proof (cases "d = TERMINATED")
    case True
    then have "isect_docs x = []" using isect_head [OF x(2)] isect_docs_ascending [OF x(2)] x(4) by (cases "isect_docs x") auto
    with True x b c show ?thesis
      by (subst pattern_advance.simps) (simp add: scorer_ok_def scorer_docs_def)
  next
    case False
    obtain m where m: "pattern_match P tokens ?s = Ret (matching terms pattern tokens d, ?s\<lparr> ps_phrase_count := m \<rparr>)"
      using pattern_match_current [OF b c _ False] x(4) by auto
    let ?t = "?s\<lparr> ps_phrase_count := m \<rparr>"
    have ct: "counted tokens ?t" using c by (simp add: counted_def)
    have ne: "isect_docs x = d # tl (isect_docs x)"
      using isect_head [OF x(2)] x(4) False by (cases "isect_docs x") auto
    show ?thesis
    proof (cases "matching terms pattern tokens d")
      case True
      then show ?thesis using x False m b ct
        by (subst pattern_advance.simps) (simp add: scorer_ok_def scorer_docs_def)
    next
      case nomatch: False
      have "length (isect_docs (ps_intersection ?t)) < length (isect_docs (ps_intersection s))"
        using ne x(3) by (cases "isect_docs (ps_intersection s)") auto
      from less.hyps [OF this _ ct] b obtain d' s' where r: "pattern_advance P tokens ?t = Some (Ret (d', s'))" "scorer_ok terms pattern tokens s'"
        "scorer_docs terms pattern tokens s' = filter (matching terms pattern tokens) (tl (isect_docs x))"
        "d' = intersection_doc (po_docset P) (ps_intersection s')" by auto
      have "filter (matching terms pattern tokens) (tl (isect_docs x)) = filter (matching terms pattern tokens) (isect_docs x)"
        using nomatch by (subst (2) ne) simp
      with r x False m nomatch show ?thesis by (subst pattern_advance.simps) simp
    qed
  qed
qed

lemma scorer_iter: "docset_iter (pattern_ops P tokens) (scorer_docs terms pattern tokens) (scorer_ok terms pattern tokens)"
proof
  fix s s' d assume s: "scorer_ok terms pattern tokens s"
  then have x: "isect_ok (ps_intersection s)" "built terms pattern s" "counted tokens s" by (simp_all add: scorer_ok_def built_def)
  note head = isect_head [OF x(1)] and asc = isect_docs_ascending [OF x(1)]
  show "ascending_docs (scorer_docs terms pattern tokens s)" unfolding scorer_docs_def by (rule ascending_filter [OF asc])
  let ?d = "intersection_doc (po_docset P) (ps_intersection s)"
  have m: "?d = TERMINATED \<or> matching terms pattern tokens ?d" using s by (simp add: scorer_ok_def Let_def)
  show hd: "op_doc (pattern_ops P tokens) s = head_doc (scorer_docs terms pattern tokens s)"
    using head asc m by (cases "isect_docs (ps_intersection s)") (auto simp: pattern_ops_def scorer_docs_def Let_def)
  have tl: "tl (scorer_docs terms pattern tokens s) = filter (matching terms pattern tokens) (tl (isect_docs (ps_intersection s)))"
    using head asc m by (cases "isect_docs (ps_intersection s)") (auto simp: scorer_docs_def)
  show "scorer_ok terms pattern tokens s' \<and> scorer_docs terms pattern tokens s' = tl (scorer_docs terms pattern tokens s)
      \<and> d = op_doc (pattern_ops P tokens) s'" if "op_advance (pattern_ops P tokens) s = (d, s')"
    using pattern_advance_next [OF x(2,3)] that by (auto simp: pattern_ops_def Let_def returned_def tl)
qed

lemma scorer_docset: "docset (pattern_ops P tokens) (scorer_docs terms pattern tokens) (scorer_ok terms pattern tokens)"
  by (rule docset_iter.default_docset [OF scorer_iter]) (simp add: pattern_ops_def Let_def)

end

context postings
begin

lemma pattern_match_terminated:
  assumes "built terms pattern s" and "intersection_doc (po_docset P) (ps_intersection s) = TERMINATED"
  shows "\<exists>b m. pattern_match P tokens s = Ret (b, s\<lparr> ps_phrase_count := m \<rparr>)"
proof -
  obtain p where "docset_mut_specialized (ps_intersection s) 0 = Ret p" using assms(1) by (auto simp: built_def)
  with assms(2) show ?thesis by (auto simp: pattern_match_def perform_pattern_match_def)
qed

lemma pattern_new_docs:
  assumes "ss \<noteq> []" and "\<forall>s \<in> set ss. ok s" and "terms_in pattern = length ss" and "\<forall>d \<in> common ss. tokens d \<noteq> None"
  defines "terms \<equiv> map tag ss"
  shows "\<exists>s. pattern_scorer_new P tokens ss pattern = Some (Ret s) \<and> scorer_ok terms pattern tokens s
    \<and> set (scorer_docs terms pattern tokens s) = {d \<in> common ss. matching terms pattern tokens d}"
proof -
  from intersection_new_docs [OF assms(1,2)] obtain x where x: "intersection_new (po_docset P) ss = Some (Ret x)" "isect_ok x" "set (isect_docs x) = common ss"
    by blast
  let ?s = "\<lparr> ps_all_simple = list_all ((=) Term) pattern, ps_intersection = x, ps_pattern = pattern, ps_num_query_terms = length ss, ps_phrase_count = 0 \<rparr>"
  have b: "built terms pattern ?s"
    using kept.intersection_new_rel [OF x(1)] x(2) assms(1,3) by (fastforce simp: built_def terms_def)
  have c: "counted tokens (?s\<lparr> ps_phrase_count := m \<rparr>)" for m using x(3) assms(4) by (simp add: counted_def)
  let ?d = "intersection_doc (po_docset P) x" and ?all = "filter (matching terms pattern tokens) (isect_docs x)"
  have all: "set ?all = {d \<in> common ss. matching terms pattern tokens d}" by (auto simp: x(3))
  have "\<exists>s. pattern_scorer_new P tokens ss pattern = Some (Ret s) \<and> scorer_ok terms pattern tokens s \<and> scorer_docs terms pattern tokens s = ?all"
  proof -
    obtain hit m where m: "pattern_match P tokens ?s = Ret (hit, ?s\<lparr> ps_phrase_count := m \<rparr>)"
      and hit: "?d \<noteq> TERMINATED \<Longrightarrow> hit = matching terms pattern tokens ?d"
      using pattern_match_terminated [OF b, of tokens] pattern_match_current [OF b, of tokens ?d] c [of 0] by (cases "?d = TERMINATED") auto
    let ?t = "?s\<lparr> ps_phrase_count := m \<rparr>"
    have bt: "built terms pattern ?t" using b by (simp add: built_def)
    show ?thesis
    proof (cases hit)
      case True
      then have "scorer_ok terms pattern tokens ?t" using bt c hit by (auto simp: scorer_ok_def Let_def)
      with True x(1) m show ?thesis by (auto simp: pattern_scorer_new_def Let_def scorer_docs_def)
    next
      case False
      obtain d s' where a: "pattern_advance P tokens ?t = Some (Ret (d, s'))" "scorer_ok terms pattern tokens s'"
        "scorer_docs terms pattern tokens s' = filter (matching terms pattern tokens) (tl (isect_docs x))"
        using pattern_advance_next [of terms pattern ?t tokens] bt c by auto
      have "filter (matching terms pattern tokens) (tl (isect_docs x)) = ?all"
      proof (cases "isect_docs x")
        case (Cons e es)
        then have "?d = e" "?d \<noteq> TERMINATED" using isect_head [OF x(2)] isect_docs_ascending [OF x(2)] by auto
        with Cons hit False show ?thesis by simp
      qed simp
      with a False x(1) m show ?thesis by (simp add: pattern_scorer_new_def Let_def)
    qed
  qed
  with all show ?thesis by metis
qed

end

text \<open>Postings held as a list of documents with their positions, and what is left of it.\<close>

record list_postings =
  lp_all :: "(nat \<times> nat list) list"
  lp_rest :: "(nat \<times> nat list) list"

definition list_doc :: "list_postings \<Rightarrow> nat" where
  "list_doc s = head_doc (map fst (lp_rest s))"

definition list_move :: "list_postings \<Rightarrow> (nat \<times> nat list) list \<Rightarrow> nat \<times> list_postings" where
  "list_move s rest = (let s' = s\<lparr> lp_rest := rest \<rparr> in (list_doc s', s'))"

definition list_occ :: "(nat \<times> nat list) list \<Rightarrow> nat \<Rightarrow> nat list" where
  "list_occ ps d = (case map_of ps d of None \<Rightarrow> [] | Some qs \<Rightarrow> qs)"

definition list_ops :: "list_postings postings_ops" where
  "list_ops = \<lparr> po_docset = \<lparr> op_doc = list_doc, op_advance = (\<lambda>s. list_move s (tl (lp_rest s))),
      op_seek = (\<lambda>t s. list_move s (dropWhile (\<lambda>p. fst p < t) (lp_rest s))), op_size_hint = (\<lambda>s. length (lp_all s)) \<rparr>,
    po_positions = (\<lambda>s. list_occ (lp_all s) (list_doc s)), po_term_freq = (\<lambda>s. length (list_occ (lp_all s) (list_doc s))) \<rparr>"

definition list_ok :: "list_postings \<Rightarrow> bool" where
  "list_ok s \<longleftrightarrow> ascending_docs (map fst (lp_rest s)) \<and> (\<forall>p \<in> set (lp_all s). sorted_wrt (<) (snd p) \<and> length (snd p) < 2 ^ 32)"

interpretation list_postings: postings list_ops "\<lambda>s. map fst (lp_rest s)" list_ok lp_all list_occ
proof
  fix s s' t d assume s: "list_ok s"
  let ?docs = "\<lambda>s. map fst (lp_rest s)"
  show "ascending_docs (?docs s)" using s by (simp add: list_ok_def)
  show "op_doc (po_docset list_ops) s = head_doc (?docs s)" by (simp add: list_ops_def list_doc_def)
  have asc: "ascending_docs (tl (?docs s))" "ascending_docs (docs_from t (?docs s))" using s by (auto simp: list_ok_def ascending_tl ascending_from)
  have dw: "map fst (dropWhile (\<lambda>p. fst p < t) ps) = docs_from t (map fst ps)" for ps :: "(nat \<times> nat list) list" by (simp add: dropWhile_map comp_def)
  show "list_ok s' \<and> ?docs s' = tl (?docs s) \<and> d = op_doc (po_docset list_ops) s'" if "op_advance (po_docset list_ops) s = (d, s')"
    using s that asc by (auto simp: list_ops_def list_move_def Let_def list_ok_def map_tl)
  show "list_ok s' \<and> ?docs s' = docs_from t (?docs s) \<and> d = op_doc (po_docset list_ops) s'" if "op_seek (po_docset list_ops) t s = (d, s')"
    using s that asc by (auto simp: list_ops_def list_move_def Let_def list_ok_def dw)
  show "po_positions list_ops s = list_occ (lp_all s) (op_doc (po_docset list_ops) s)
      \<and> po_term_freq list_ops s = length (list_occ (lp_all s) (op_doc (po_docset list_ops) s))" by (simp add: list_ops_def)
  show "sorted_wrt (<) (list_occ (lp_all s) d) \<and> length (list_occ (lp_all s) d) < 2 ^ 32"
    using s by (auto simp: list_occ_def list_ok_def split: option.splits dest!: map_of_SomeD)
qed (simp_all add: list_ops_def list_move_def Let_def)

lemma pattern_scorer_hits:
  assumes "postings P docs good tag occ" and "ss \<noteq> []" and "\<forall>s \<in> set ss. good s" and "terms_in pattern = length ss"
    and "\<forall>d \<in> (\<Inter>s \<in> set ss. set (docs s)). tokens d \<noteq> None"
  shows "\<exists>s. pattern_scorer_new P tokens ss pattern = Some (Ret s)
    \<and> collect_docs (pattern_ops P tokens) s
      = Some (sorted_list_of_set {d \<in> (\<Inter>s \<in> set ss. set (docs s)). phrase_ends (map (\<lambda>s. occ (tag s) d) ss) (the (tokens d)) pattern \<noteq> {}})"
proof -
  note d = postings.axioms(1) [OF assms(1)]
  have common: "docset.common docs ss = (\<Inter>s \<in> set ss. set (docs s))" by (auto simp: docset.common_def [OF d])
  from postings.pattern_new_docs [OF assms(1-4), of tokens] assms(5) obtain s where
    s: "pattern_scorer_new P tokens ss pattern = Some (Ret s)" "postings.scorer_ok P docs good tag occ (map tag ss) pattern tokens s"
    "set (postings.scorer_docs docs occ (map tag ss) pattern tokens s)
      = {d \<in> docset.common docs ss. postings.matching occ (map tag ss) pattern tokens d}" unfolding common by blast
  note iter = postings.scorer_iter [OF assms(1)]
  have "collect_docs (pattern_ops P tokens) s = Some (postings.scorer_docs docs occ (map tag ss) pattern tokens s)"
    by (rule docset_iter.collect_exact [OF iter s(2)])
  also have "postings.scorer_docs docs occ (map tag ss) pattern tokens s
    = sorted_list_of_set (set (postings.scorer_docs docs occ (map tag ss) pattern tokens s))"
    by (rule ascending_sorted [symmetric]) (rule docset_iter.docs_ascending [OF iter s(2)])
  finally show ?thesis
    using s(1,3) by (simp add: common postings.matching_def [OF assms(1)] postings.occs_at_def [OF assms(1)] comp_def)
qed

section \<open>Documents with an empty field\<close>

partial_function (option) skip_filled :: "(nat \<Rightarrow> nat option) \<Rightarrow> nat \<Rightarrow> all_scorer \<Rightarrow> (nat \<times> all_scorer) option" where
  "skip_filled tokens doc s =
     (if doc \<noteq> TERMINATED \<and> (case tokens doc of None \<Rightarrow> 0 | Some n \<Rightarrow> n) > 0
      then (case all_advance s of (d, s') \<Rightarrow> skip_filled tokens d s')
      else Some (doc, s))"

definition empty_field_advance :: "(nat \<Rightarrow> nat option) \<Rightarrow> all_scorer \<Rightarrow> (nat \<times> all_scorer) option" where
  "empty_field_advance tokens s = (case all_advance s of (d, s') \<Rightarrow> skip_filled tokens d s')"

definition empty_field_seek :: "(nat \<Rightarrow> nat option) \<Rightarrow> nat \<Rightarrow> all_scorer \<Rightarrow> (nat \<times> all_scorer) option" where
  "empty_field_seek tokens target s =
     (case all_seek target s of (_, s') \<Rightarrow>
        if as_doc s' \<noteq> TERMINATED \<and> (case tokens (as_doc s') of None \<Rightarrow> 0 | Some n \<Rightarrow> n) > 0
        then empty_field_advance tokens s' else Some (as_doc s', s'))"

definition empty_field_ops :: "(nat \<Rightarrow> nat option) \<Rightarrow> all_scorer docset_ops" where
  "empty_field_ops tokens =
     \<lparr> op_doc = as_doc, op_advance = (\<lambda>s. the (empty_field_advance tokens s)),
       op_seek = (\<lambda>t s. the (empty_field_seek tokens t s)), op_size_hint = as_max_doc \<rparr>"

end
