(* ===== verification/Pattern_Query.thy ===== *)
theory Pattern_Query
  imports Pattern_Scorer
begin

text \<open>
  Pattern queries from their parts to a scorer: the construction of the query with its tokenized terms and the shortcut for whole
  sites and domains (\<open>core/src/query/pattern_query/mod.rs\<close>), the choice of the scorer for a segment
  (\<open>core/src/query/pattern_query/weight.rs\<close>) and the scorer of any kind (\<open>scorer.rs\<close>). The tokenizer, the dictionary of
  postings and the column of token counts are parameters.
\<close>

section \<open>The query\<close>

datatype pattern_part = Raw string | Part_Wildcard | Part_Anchor

datatype text_field = Title | CleanBody | StemmedTitle | StemmedCleanBody | AllBody | Url | UrlNoTokenizer | UrlForSiteOperator
  | SiteWithout | Domain | SiteNoTokenizer | DomainNoTokenizer | DomainNameNoTokenizer | SiteIfHomepageNoTokenizer
  | DomainIfHomepage | DomainNameIfHomepageNoTokenizer | DomainIfHomepageNoTokenizer | TitleIfHomepage | BacklinkText
  | Description | DmozDescription | SchemaOrgJson | FlattenedSchemaOrgJson | CleanBodyBigrams | TitleBigrams | CleanBodyTrigrams
  | TitleTrigrams | MicroformatTags | SafetyClassification | InsertionTimestamp | RecipeFirstIngredientTagId | Keywords
  | KeyPhrases | Links | BacklinkLabelsGroup0 | BacklinkLabelsGroup1 | BacklinkLabelsGroup2 | BacklinkLabelsGroup3
  | BacklinkLabelsGroup4 | BacklinkLabelsGroup5 | BacklinkLabelsGroup6 | BacklinkLabelsGroup7 | BacklinkLabelsGroup8
  | BacklinkLabelsGroup9 | FirstH1 | AllH2 | AllH3

type_synonym query_term = "text_field \<times> string"

record pattern_query =
  pq_patterns :: "pattern_part list"
  pq_can_optimize :: bool
  pq_field :: text_field
  pq_raw_terms :: "query_term list"

definition is_raw :: "pattern_part \<Rightarrow> bool" where
  "is_raw p = (case p of Raw _ \<Rightarrow> True | _ \<Rightarrow> False)"

definition can_optimize_site_domain :: "pattern_part list \<Rightarrow> text_field \<Rightarrow> bool" where
  "can_optimize_site_domain patterns field \<longleftrightarrow>
     length patterns \<ge> 2 \<and> patterns ! 0 = Part_Anchor \<and> patterns ! (length patterns - 1) = Part_Anchor
     \<and> list_all is_raw (butlast (tl patterns)) \<and> (field = UrlForSiteOperator \<or> field = Domain)"

fun raw_text :: "pattern_part \<Rightarrow> string" where
  "raw_text (Raw s) = s"
| "raw_text Part_Wildcard = []"
| "raw_text Part_Anchor = []"

fun tokenized_part :: "(string \<Rightarrow> string list) \<Rightarrow> pattern_part \<Rightarrow> pattern_part list" where
  "tokenized_part tokenizer (Raw text) = map Raw (tokenizer text)"
| "tokenized_part tokenizer Part_Wildcard = [Part_Wildcard]"
| "tokenized_part tokenizer Part_Anchor = [Part_Anchor]"

fun part_terms :: "(string \<Rightarrow> string list) \<Rightarrow> text_field \<Rightarrow> pattern_part \<Rightarrow> query_term list" where
  "part_terms tokenizer field (Raw text) = map (Pair field) (tokenizer text)"
| "part_terms tokenizer field Part_Wildcard = []"
| "part_terms tokenizer field Part_Anchor = []"

definition pattern_query_new :: "(string \<Rightarrow> string list) \<Rightarrow> pattern_part list \<Rightarrow> text_field \<Rightarrow> pattern_query" where
  "pattern_query_new tokenizer patterns field =
     (if can_optimize_site_domain patterns field then
        (if length patterns = 3
         then \<lparr> pq_patterns = [], pq_can_optimize = True, pq_field = field, pq_raw_terms = [(field, raw_text (patterns ! 1))] \<rparr>
         else \<lparr> pq_patterns = patterns, pq_can_optimize = True, pq_field = field, pq_raw_terms = [(field, concat (map raw_text patterns))] \<rparr>)
      else
        \<lparr> pq_patterns = concat (map (tokenized_part tokenizer) patterns), pq_can_optimize = False, pq_field = field,
          pq_raw_terms = concat (map (part_terms tokenizer field) patterns) \<rparr>)"

section \<open>The scorer of any kind\<close>

datatype 's any_scorer = Normal "'s pattern_scorer" | FastSiteDomain 's | Everything all_scorer | EmptyField all_scorer

fun any_doc :: "'s postings_ops \<Rightarrow> (nat \<Rightarrow> nat option) \<Rightarrow> 's any_scorer \<Rightarrow> nat" where
  "any_doc P tokens (Normal s) = op_doc (pattern_ops P tokens) s"
| "any_doc P tokens (FastSiteDomain s) = op_doc (po_docset P) s"
| "any_doc P tokens (Everything s) = op_doc all_ops s"
| "any_doc P tokens (EmptyField s) = op_doc (empty_field_ops tokens) s"

fun any_advance :: "'s postings_ops \<Rightarrow> (nat \<Rightarrow> nat option) \<Rightarrow> 's any_scorer \<Rightarrow> nat \<times> 's any_scorer" where
  "any_advance P tokens (Normal s) = apsnd Normal (op_advance (pattern_ops P tokens) s)"
| "any_advance P tokens (FastSiteDomain s) = apsnd FastSiteDomain (op_advance (po_docset P) s)"
| "any_advance P tokens (Everything s) = apsnd Everything (op_advance all_ops s)"
| "any_advance P tokens (EmptyField s) = apsnd EmptyField (op_advance (empty_field_ops tokens) s)"

text \<open>The scorer of a site or domain has no \<open>seek\<close> of its own and takes the trait's.\<close>

fun any_seek :: "'s postings_ops \<Rightarrow> (nat \<Rightarrow> nat option) \<Rightarrow> nat \<Rightarrow> 's any_scorer \<Rightarrow> nat \<times> 's any_scorer" where
  "any_seek P tokens t (Normal s) = apsnd Normal (op_seek (pattern_ops P tokens) t s)"
| "any_seek P tokens t (FastSiteDomain s) =
     apsnd FastSiteDomain (the (default_seek (op_advance (po_docset P)) t (op_doc (po_docset P) s) s))"
| "any_seek P tokens t (Everything s) = apsnd Everything (op_seek all_ops t s)"
| "any_seek P tokens t (EmptyField s) = apsnd EmptyField (op_seek (empty_field_ops tokens) t s)"

fun any_size_hint :: "'s postings_ops \<Rightarrow> (nat \<Rightarrow> nat option) \<Rightarrow> 's any_scorer \<Rightarrow> nat" where
  "any_size_hint P tokens (Normal s) = op_size_hint (pattern_ops P tokens) s"
| "any_size_hint P tokens (FastSiteDomain s) = op_size_hint (po_docset P) s"
| "any_size_hint P tokens (Everything s) = op_size_hint all_ops s"
| "any_size_hint P tokens (EmptyField s) = op_size_hint (empty_field_ops tokens) s"

definition any_ops :: "'s postings_ops \<Rightarrow> (nat \<Rightarrow> nat option) \<Rightarrow> 's any_scorer docset_ops" where
  "any_ops P tokens = \<lparr> op_doc = any_doc P tokens, op_advance = any_advance P tokens, op_seek = any_seek P tokens,
     op_size_hint = any_size_hint P tokens \<rparr>"

section \<open>The choice of the scorer\<close>

datatype num_tokens_field = NumTitleTokens | NumCleanBodyTokens | NumUrlTokens | NumDomainTokens | NumUrlForSiteOperatorTokens
  | NumDescriptionTokens | NumMicroformatTagsTokens | NumFlattenedSchemaTokens

fun num_tokens_columnfield :: "text_field \<Rightarrow> num_tokens_field option" where
  "num_tokens_columnfield Title = Some NumTitleTokens"
| "num_tokens_columnfield CleanBody = Some NumCleanBodyTokens"
| "num_tokens_columnfield Url = Some NumUrlTokens"
| "num_tokens_columnfield Domain = Some NumDomainTokens"
| "num_tokens_columnfield UrlForSiteOperator = Some NumUrlForSiteOperatorTokens"
| "num_tokens_columnfield Description = Some NumDescriptionTokens"
| "num_tokens_columnfield MicroformatTags = Some NumMicroformatTagsTokens"
| "num_tokens_columnfield FlattenedSchemaOrgJson = Some NumFlattenedSchemaTokens"
| "num_tokens_columnfield _ = None"

fun small_part :: "pattern_part \<Rightarrow> small_pattern_part" where
  "small_part (Raw _) = Term"
| "small_part Part_Wildcard = Wildcard"
| "small_part Part_Anchor = Anchor"

text \<open>A segment: its size, its postings by field and text, and its columns of token counts.\<close>

record 's segment_reader =
  sr_max_doc :: nat
  sr_postings :: "text_field \<Rightarrow> string \<Rightarrow> 's option"
  sr_tokens :: "num_tokens_field \<Rightarrow> nat \<Rightarrow> nat option"

datatype 's scorer_choice = Unsupported_Field | No_Scorer | Scorer_For "nat \<Rightarrow> nat option" "'s any_scorer"

fun read_all_postings :: "'s segment_reader \<Rightarrow> query_term list \<Rightarrow> 's list option" where
  "read_all_postings R [] = Some []"
| "read_all_postings R (t # ts) =
     (case sr_postings R (fst t) (snd t) of
        None \<Rightarrow> None
      | Some p \<Rightarrow> map_option ((#) p) (read_all_postings R ts))"

definition choose_scorer :: "'s postings_ops \<Rightarrow> 's segment_reader \<Rightarrow> pattern_query \<Rightarrow> 's scorer_choice may_panic option" where
  "choose_scorer P R q =
     (if pq_patterns q = [] then Some (Ret No_Scorer)
      else
        (case num_tokens_columnfield (pq_field q) of
           None \<Rightarrow> Some (Ret Unsupported_Field)
         | Some column \<Rightarrow>
             (let tokens = sr_tokens R column; everything = \<lparr> as_doc = 0, as_max_doc = sr_max_doc R \<rparr> in
              if pq_raw_terms q = [] \<and> list_ex ((=) Part_Wildcard) (pq_patterns q)
              then Some (Ret (Scorer_For tokens (Everything everything)))
              else if pq_raw_terms q = [] \<and> list_all ((=) Part_Anchor) (pq_patterns q)
              then Some (Ret (Scorer_For tokens (EmptyField everything)))
              else
                (case read_all_postings R (pq_raw_terms q) of
                   None \<Rightarrow> Some (Ret No_Scorer)
                 | Some ss \<Rightarrow>
                     map_option (\<lambda>r. outcome_bind r (\<lambda>s. Ret (Scorer_For tokens (Normal s))))
                       (pattern_scorer_new P tokens ss (map small_part (pq_patterns q)))))))"

definition fast_site_domain_scorer :: "'s segment_reader \<Rightarrow> pattern_query \<Rightarrow> 's scorer_choice may_panic" where
  "fast_site_domain_scorer R q =
     (let choice = (\<lambda>field. case sr_postings R field (snd (hd (pq_raw_terms q))) of
          None \<Rightarrow> Ret No_Scorer | Some s \<Rightarrow> Ret (Scorer_For (\<lambda>_. None) (FastSiteDomain s)))
      in case pq_field q of
           UrlForSiteOperator \<Rightarrow> choice SiteNoTokenizer
         | Domain \<Rightarrow> choice DomainNoTokenizer
         | _ \<Rightarrow> Panic)"

definition query_scorer :: "'s postings_ops \<Rightarrow> 's segment_reader \<Rightarrow> pattern_query \<Rightarrow> 's scorer_choice may_panic option" where
  "query_scorer P R q =
     (if pq_can_optimize q then (if pq_raw_terms q = [] then Some Panic else Some (fast_site_domain_scorer R q))
      else choose_scorer P R q)"

text \<open>The documents a choice stands for: none without a scorer, since tantivy's empty scorer takes its place.\<close>

definition scorer_hits :: "'s postings_ops \<Rightarrow> 's scorer_choice may_panic option \<Rightarrow> nat list option" where
  "scorer_hits P r =
     (case r of
        Some (Ret No_Scorer) \<Rightarrow> Some []
      | Some (Ret (Scorer_For tokens s)) \<Rightarrow> collect_docs (any_ops P tokens) s
      | _ \<Rightarrow> None)"

section \<open>Running any scorer\<close>

lemma collect_embed:
  assumes "\<And>s. op_doc E (f s) = op_doc D s" and "\<And>s. snd (op_advance E (f s)) = f (snd (op_advance D s))" and "collect_docs D s = Some ds"
  shows "collect_docs E (f s) = Some ds"
proof -
  have "D' = D \<longrightarrow> collect_docs E (f s) = Some ds" if "collect_docs D' s = Some ds" for D'
    using that
  proof (rule collect_docs.raw_induct [rotated], intro impI)
    fix loop D' s ds
    assume loop: "\<And>D' s ds. loop D' s = Some ds \<Longrightarrow> D' = D \<longrightarrow> collect_docs E (f s) = Some ds"
      and step: "(if op_doc D' s = TERMINATED then Some [] else Option.bind (loop D' (snd (op_advance D' s))) (\<lambda>ds. Some (op_doc D' s # ds))) = Some ds"
      and "D' = D"
    then show "collect_docs E (f s) = Some ds"
      using loop [of D "snd (op_advance D s)"] by (subst collect_docs.simps) (auto simp: assms(1,2) split: if_splits bind_splits)
  qed
  with assms(3) show ?thesis by blast
qed

lemma collect_any:
  "collect_docs (pattern_ops P tokens) s = Some ds \<Longrightarrow> collect_docs (any_ops P tokens) (Normal s) = Some ds"
  "collect_docs (po_docset P) p = Some ds \<Longrightarrow> collect_docs (any_ops P tokens) (FastSiteDomain p) = Some ds"
  "collect_docs all_ops a = Some ds \<Longrightarrow> collect_docs (any_ops P tokens) (Everything a) = Some ds"
  "collect_docs (empty_field_ops tokens) a = Some ds \<Longrightarrow> collect_docs (any_ops P tokens) (EmptyField a) = Some ds"
  by (erule collect_embed [rotated 2]; simp add: any_ops_def)+

text \<open>The scorer of empty fields, from any document on.\<close>

definition empty_at :: "(nat \<Rightarrow> nat option) \<Rightarrow> nat \<Rightarrow> bool" where
  "empty_at tokens d \<longleftrightarrow> tokens d = None \<or> tokens d = Some 0"

lemma filled_iff: "(case tokens d of None \<Rightarrow> 0 | Some n \<Rightarrow> n) > 0 \<longleftrightarrow> \<not> empty_at tokens d" for tokens :: "nat \<Rightarrow> nat option"
  by (auto simp: empty_at_def split: option.splits)

definition empty_docs :: "(nat \<Rightarrow> nat option) \<Rightarrow> all_scorer \<Rightarrow> nat list" where
  "empty_docs tokens s = (if as_doc s = TERMINATED then [] else as_doc s # filter (empty_at tokens) [as_doc s + 1..<as_max_doc s])"

abbreviation all_good :: "all_scorer \<Rightarrow> bool" where
  "all_good s \<equiv> as_max_doc s \<le> TERMINATED \<and> (as_doc s < as_max_doc s \<or> as_doc s = TERMINATED)"

lemma skip_filled_next:
  assumes "all_good s"
  shows "\<exists>s'. skip_filled tokens (as_doc s) s = Some (as_doc s', s') \<and> all_good s' \<and> as_max_doc s' = as_max_doc s
    \<and> empty_docs tokens s' = (if as_doc s = TERMINATED then [] else filter (empty_at tokens) [as_doc s..<as_max_doc s])"
  using assms
proof (induction "as_max_doc s - as_doc s" arbitrary: s rule: less_induct)
  case less
  show ?case
  proof (cases "as_doc s = TERMINATED \<or> empty_at tokens (as_doc s)")
    case True
    with less.prems show ?thesis
      by (subst skip_filled.simps) (auto simp: filled_iff empty_docs_def upt_rec [of "as_doc s"])
  next
    case False
    then have lt: "as_doc s < as_max_doc s" using less.prems by simp
    obtain d s' where a: "all_advance s = (d, s')" by force
    have n: "all_good s'" "d = as_doc s'" "as_max_doc s' = as_max_doc s" "as_doc s' = as_doc s + 1 \<or> (as_doc s' = TERMINATED \<and> as_max_doc s \<le> as_doc s + 1)"
      using a less.prems lt by (auto simp: all_advance_def split: if_splits)
    then have m: "as_max_doc s' - as_doc s' < as_max_doc s - as_doc s" using lt less.prems by auto
    from less.hyps [OF m n(1)] obtain t where t: "skip_filled tokens (as_doc s') s' = Some (as_doc t, t)" "all_good t" "as_max_doc t = as_max_doc s'"
      "empty_docs tokens t = (if as_doc s' = TERMINATED then [] else filter (empty_at tokens) [as_doc s'..<as_max_doc s'])" by blast
    have "filter (empty_at tokens) [as_doc s..<as_max_doc s] = filter (empty_at tokens) [as_doc s + 1..<as_max_doc s]"
      using lt False by (simp add: upt_rec [of "as_doc s"])
    then have "empty_docs tokens t = filter (empty_at tokens) [as_doc s..<as_max_doc s]"
      using t(4) n(3,4) less.prems lt by auto
    with t a n False show ?thesis by (subst skip_filled.simps) (auto simp: filled_iff)
  qed
qed

interpretation empty_field: docset_iter "empty_field_ops tokens" "empty_docs tokens" all_good for tokens
proof
  fix s s' d assume s: "all_good s"
  show "ascending_docs (empty_docs tokens s)" using s by (auto simp: empty_docs_def ascending_docs_def sorted_wrt_filter)
  show "op_doc (empty_field_ops tokens) s = head_doc (empty_docs tokens s)" by (simp add: empty_field_ops_def empty_docs_def)
  obtain e t where a: "all_advance s = (e, t)" by force
  have n: "all_good t" "e = as_doc t" "as_max_doc t = as_max_doc s" "as_doc s \<noteq> TERMINATED \<longrightarrow> as_doc t = as_doc s + 1 \<or> (as_doc t = TERMINATED \<and> as_max_doc s \<le> as_doc s + 1)"
    "as_doc s = TERMINATED \<longrightarrow> as_doc t = TERMINATED"
    using a s by (auto simp: all_advance_def split: if_splits)
  show "all_good s' \<and> empty_docs tokens s' = tl (empty_docs tokens s) \<and> d = op_doc (empty_field_ops tokens) s'"
    if "op_advance (empty_field_ops tokens) s = (d, s')"
  proof -
    obtain u where u: "skip_filled tokens (as_doc t) t = Some (as_doc u, u)" "all_good u"
      "empty_docs tokens u = (if as_doc t = TERMINATED then [] else filter (empty_at tokens) [as_doc t..<as_max_doc t])"
      using skip_filled_next [OF n(1)] by blast
    moreover have "s' = u" "d = as_doc u" using that u(1) a n(2) by (auto simp: empty_field_ops_def empty_field_advance_def)
    moreover have "empty_docs tokens u = tl (empty_docs tokens s)" using u(3) n s by (auto simp: empty_docs_def [of tokens s])
    ultimately show ?thesis by (simp add: empty_field_ops_def)
  qed
qed

text \<open>The scorer of empty fields starts on the first document without looking at its field, so it returns that document in any case.\<close>

lemma empty_field_first_document:
  "0 < n \<Longrightarrow> n \<le> TERMINATED \<Longrightarrow>
    collect_docs (empty_field_ops tokens) \<lparr> as_doc = 0, as_max_doc = n \<rparr> = Some (0 # filter (empty_at tokens) [1..<n])"
  using empty_field.collect_exact [of "\<lparr> as_doc = 0, as_max_doc = n \<rparr>" tokens] by (simp add: empty_docs_def)

section \<open>From the query to its documents\<close>

lemma terms_in_append [simp]: "terms_in (ps @ qs) = terms_in ps + terms_in qs"
  by (simp add: terms_in_def)

lemma tokenized_terms: "terms_in (map small_part (concat (map (tokenized_part tokenizer) ps))) = length (concat (map (part_terms tokenizer field) ps))"
proof (induction ps)
  case (Cons p ps)
  have "terms_in (map small_part (tokenized_part tokenizer p)) = length (part_terms tokenizer field p)"
    by (cases p) (simp_all add: terms_in_def filter_map comp_def)
  with Cons show ?case by simp
qed (simp add: terms_in_def)

lemma query_terms_counted:
  "\<not> can_optimize_site_domain ps field \<Longrightarrow>
    terms_in (map small_part (pq_patterns (pattern_query_new tokenizer ps field))) = length (pq_raw_terms (pattern_query_new tokenizer ps field))"
  by (simp add: pattern_query_new_def tokenized_terms)

lemma read_all_postings_iff:
  "read_all_postings R ts = Some ss \<longleftrightarrow> map (\<lambda>t. sr_postings R (fst t) (snd t)) ts = map Some ss"
  by (induction ts arbitrary: ss) (auto split: option.splits simp: Cons_eq_map_conv map_eq_Cons_conv)

lemma read_all_postings_none: "read_all_postings R ts = None \<longleftrightarrow> (\<exists>t \<in> set ts. sr_postings R (fst t) (snd t) = None)"
  by (induction ts) (auto split: option.splits)

text \<open>The documents a segment holds for a term, and the positions there.\<close>

definition term_docs :: "('s \<Rightarrow> nat list) \<Rightarrow> 's segment_reader \<Rightarrow> query_term \<Rightarrow> nat set" where
  "term_docs docs R t = (case sr_postings R (fst t) (snd t) of None \<Rightarrow> {} | Some s \<Rightarrow> set (docs s))"

definition term_occ :: "('s \<Rightarrow> 't) \<Rightarrow> ('t \<Rightarrow> nat \<Rightarrow> nat list) \<Rightarrow> 's segment_reader \<Rightarrow> nat \<Rightarrow> query_term \<Rightarrow> nat list" where
  "term_occ tag occ R d t = (case sr_postings R (fst t) (snd t) of None \<Rightarrow> [] | Some s \<Rightarrow> occ (tag s) d)"

text \<open>A query with terms outside that shortcut.\<close>

lemma term_query_hits:
  assumes "postings P docs good tag occ" and "\<forall>field text s. sr_postings R field text = Some s \<longrightarrow> good s"
    and "num_tokens_columnfield field = Some column" and "\<forall>d < TERMINATED. sr_tokens R column d \<noteq> None"
    and "\<not> can_optimize_site_domain ps field" and "q = pattern_query_new tokenizer ps field" and "pq_raw_terms q \<noteq> []"
  shows "scorer_hits P (query_scorer P R q)
    = Some (sorted_list_of_set {d \<in> (\<Inter>t \<in> set (pq_raw_terms q). term_docs docs R t).
        phrase_ends (map (term_occ tag occ R d) (pq_raw_terms q)) (the (sr_tokens R column d)) (map small_part (pq_patterns q)) \<noteq> {}})"
proof -
  let ?tokens = "sr_tokens R column" and ?ts = "pq_raw_terms q" and ?pat = "map small_part (pq_patterns q)"
  have q: "pq_can_optimize q = False" "pq_field q = field" "terms_in ?pat = length ?ts"
    using assms(5) query_terms_counted by (simp_all add: assms(6) pattern_query_new_def tokenized_terms)
  then have ne: "pq_patterns q \<noteq> []" using assms(7) by (auto simp: terms_in_def)
  have choice: "query_scorer P R q = (case read_all_postings R ?ts of None \<Rightarrow> Some (Ret No_Scorer)
      | Some ss \<Rightarrow> map_option (\<lambda>r. outcome_bind r (\<lambda>s. Ret (Scorer_For ?tokens (Normal s)))) (pattern_scorer_new P ?tokens ss ?pat))"
    using q(1,2) ne assms(3,7) by (simp add: query_scorer_def choose_scorer_def Let_def)
  show ?thesis
  proof (cases "read_all_postings R ?ts")
    case None
    then have "(\<Inter>t \<in> set ?ts. term_docs docs R t) = {}" unfolding read_all_postings_none by (auto simp: term_docs_def split: option.splits)
    with None choice show ?thesis by (simp add: scorer_hits_def)
  next
    case (Some ss)
    then have m: "map (\<lambda>t. sr_postings R (fst t) (snd t)) ?ts = map Some ss" by (simp add: read_all_postings_iff)
    then have len: "length ss = length ?ts" by (metis length_map)
    then have ss: "ss \<noteq> []" using assms(7) by auto
    have nth: "sr_postings R (fst (?ts ! i)) (snd (?ts ! i)) = Some (ss ! i)" if "i < length ?ts" for i
      using arg_cong [OF m, of "\<lambda>xs. xs ! i"] that len by simp
    have good: "\<forall>s \<in> set ss. good s" using nth assms(2) len by (metis in_set_conv_nth)
    have "term_docs docs R (?ts ! i) = set (docs (ss ! i))" if "i < length ?ts" for i using nth [OF that] by (simp add: term_docs_def)
    then have docs: "(\<Inter>s \<in> set ss. set (docs s)) = (\<Inter>t \<in> set ?ts. term_docs docs R t)"
      using len by (intro set_eqI) (simp only: INT_iff all_set_conv_all_nth, simp)
    have occs: "map (\<lambda>s. occ (tag s) d) ss = map (term_occ tag occ R d) ?ts" for d
      using nth len by (intro nth_equalityI) (simp_all add: term_occ_def)
    have "d < TERMINATED" if "d \<in> (\<Inter>s \<in> set ss. set (docs s))" for d
    proof -
      obtain s where "s \<in> set ss" using ss by (cases ss) auto
      then show ?thesis
        using that good docset_iter.docs_ascending [OF docset.axioms(1) [OF postings.axioms(1) [OF assms(1)]], of s] by (auto simp: ascending_docs_def)
    qed
    with assms(4) have "\<forall>d \<in> (\<Inter>s \<in> set ss. set (docs s)). ?tokens d \<noteq> None" by blast
    from pattern_scorer_hits [OF assms(1) ss good _ this, of ?pat] q(3) len obtain s where
      "pattern_scorer_new P ?tokens ss ?pat = Some (Ret s)"
      "collect_docs (pattern_ops P ?tokens) s = Some (sorted_list_of_set {d \<in> (\<Inter>s \<in> set ss. set (docs s)).
        phrase_ends (map (\<lambda>s. occ (tag s) d) ss) (the (?tokens d)) ?pat \<noteq> {}})" by auto
    with Some choice collect_any(1) docs occs show ?thesis by (simp add: scorer_hits_def)
  qed
qed

text \<open>A site or a domain given whole is looked up in the field that keeps it as one token.\<close>

definition whole_field :: "text_field \<Rightarrow> text_field" where
  "whole_field field = (if field = Domain then DomainNoTokenizer else SiteNoTokenizer)"

lemma whole_text:
  assumes "can_optimize_site_domain ps field"
  shows "pattern_query_new tokenizer ps field = \<lparr> pq_patterns = (if length ps = 3 then [] else ps), pq_can_optimize = True, pq_field = field,
    pq_raw_terms = [(field, concat (map raw_text ps))] \<rparr>"
proof (cases "length ps = 3")
  case True
  then obtain a b c where "ps = [a, b, c]" by (auto simp: length_Suc_conv numeral_3_eq_3)
  with assms show ?thesis by (auto simp: pattern_query_new_def can_optimize_site_domain_def)
qed (use assms in \<open>simp add: pattern_query_new_def\<close>)

lemma tokenized_wildcard: "Part_Wildcard \<in> set (concat (map (tokenized_part tokenizer) ps)) \<longleftrightarrow> Part_Wildcard \<in> set ps"
proof -
  have "Part_Wildcard \<in> set (tokenized_part tokenizer p) \<longleftrightarrow> p = Part_Wildcard" for p by (cases p) auto
  then show ?thesis by auto
qed

lemma no_terms_parts: "terms_in (map small_part ps) = 0 \<Longrightarrow> list_ex ((=) Part_Wildcard) ps \<or> list_all ((=) Part_Anchor) ps"
proof (induction ps)
  case (Cons p ps)
  then show ?case by (cases p) (auto simp: terms_in_def)
qed simp

context docset_iter begin

lemma collect_sorted: "ok s \<Longrightarrow> collect_docs D s = Some (sorted_list_of_set (set (docs s)))"
  using collect_exact [of s] docs_ascending [of s] by (simp add: ascending_docs_def sorted_list_of_set.idem_if_sorted_distinct strict_sorted_iff)

end

text \<open>The lookups of a site or a domain, and the two scorers for a query without terms.\<close>

lemma site_query_hits:
  assumes "postings P docs good tag occ" and "\<forall>field text s. sr_postings R field text = Some s \<longrightarrow> good s" and "can_optimize_site_domain ps field"
  shows "scorer_hits P (query_scorer P R (pattern_query_new tokenizer ps field))
    = Some (sorted_list_of_set (term_docs docs R (whole_field field, concat (map raw_text ps))))"
proof -
  have iter: "docset_iter (po_docset P) docs good" by (rule docset.axioms(1) [OF postings.axioms(1) [OF assms(1)]])
  have "field = UrlForSiteOperator \<or> field = Domain" using assms(3) by (simp add: can_optimize_site_domain_def)
  then have "query_scorer P R (pattern_query_new tokenizer ps field) = Some (case sr_postings R (whole_field field) (concat (map raw_text ps)) of
      None \<Rightarrow> Ret No_Scorer | Some s \<Rightarrow> Ret (Scorer_For (\<lambda>_. None) (FastSiteDomain s)))"
    by (auto simp: whole_text [OF assms(3)] query_scorer_def fast_site_domain_scorer_def whole_field_def)
  then show ?thesis
    using docset_iter.collect_sorted [OF iter] assms(2) by (auto simp: scorer_hits_def term_docs_def intro: collect_any(2) split: option.splits)
qed

lemma no_terms_hits:
  assumes "num_tokens_columnfield field = Some column" and "0 < sr_max_doc R" and "sr_max_doc R \<le> TERMINATED"
    and "\<not> can_optimize_site_domain ps field" and "q = pattern_query_new tokenizer ps field" and "pq_raw_terms q = []"
  shows "scorer_hits P (query_scorer P R q) = Some (sorted_list_of_set (if pq_patterns q = [] then {} else if Part_Wildcard \<in> set ps then {..<sr_max_doc R}
    else insert 0 {d \<in> {..<sr_max_doc R}. empty_at (sr_tokens R column) d}))"
proof -
  let ?all = "\<lparr> as_doc = 0, as_max_doc = sr_max_doc R \<rparr>"
  have q: "pq_can_optimize q = False" "pq_field q = field" "terms_in (map small_part (pq_patterns q)) = 0" "Part_Wildcard \<in> set (pq_patterns q) \<longleftrightarrow> Part_Wildcard \<in> set ps"
    using assms(4,6) query_terms_counted [OF assms(4)] tokenized_wildcard by (simp_all add: assms(5) pattern_query_new_def)
  then have wild: "list_ex ((=) Part_Wildcard) (pq_patterns q) \<longleftrightarrow> Part_Wildcard \<in> set ps" by (auto simp: list_ex_iff)
  have anchors: "list_all ((=) Part_Anchor) (pq_patterns q)" if "Part_Wildcard \<notin> set ps" using no_terms_parts [OF q(3)] wild that by blast
  have everything: "collect_docs all_ops ?all = Some (sorted_list_of_set {..<sr_max_doc R})"
    using all_docset.collect_exact [of ?all] assms(2,3) by (simp add: lessThan_atLeast0)
  have "sorted_list_of_set (set (0 # filter (empty_at (sr_tokens R column)) [1..<sr_max_doc R])) = 0 # filter (empty_at (sr_tokens R column)) [1..<sr_max_doc R]"
    by (subst sorted_list_of_set.idem_if_sorted_distinct) (auto intro: sorted_wrt_filter)
  moreover have "set (0 # filter (empty_at (sr_tokens R column)) [1..<sr_max_doc R]) = insert 0 {d \<in> {..<sr_max_doc R}. empty_at (sr_tokens R column) d}"
    by (auto simp: Suc_le_eq)
  ultimately have empties: "collect_docs (empty_field_ops (sr_tokens R column)) ?all
      = Some (sorted_list_of_set (insert 0 {d \<in> {..<sr_max_doc R}. empty_at (sr_tokens R column) d}))"
    using empty_field_first_document [OF assms(2,3)] by metis
  show ?thesis
    using q(1,2) wild anchors assms(1,6) collect_any(3) [OF everything] collect_any(4) [OF empties]
    by (auto simp: query_scorer_def choose_scorer_def scorer_hits_def Let_def)
qed

text \<open>
  C28: A pattern query finds exactly its documents in a segment, for each kind of scorer that may be chosen. A whole site or domain between anchors
  finds the documents whose untokenized site or domain is the text. A query with terms finds the documents that hold every token and, among their
  positions, the phrase of the pattern (none when the segment lacks a term). A query without terms finds every document when it has a wildcard
  and, with anchors only, the documents whose field is empty together with the segment's first document, which the code does not check.
  The query's own construction makes the parts and the terms agree, so no step panics.
\<close>

theorem pattern_query_exact:
  assumes "postings P docs good tag occ" and "\<forall>field text s. sr_postings R field text = Some s \<longrightarrow> good s"
    and "num_tokens_columnfield field = Some column" and "\<forall>d < TERMINATED. sr_tokens R column d \<noteq> None"
    and "0 < sr_max_doc R" and "sr_max_doc R \<le> TERMINATED" and "q = pattern_query_new tokenizer ps field"
  shows "scorer_hits P (query_scorer P R q) = Some (sorted_list_of_set
    (if can_optimize_site_domain ps field then term_docs docs R (whole_field field, concat (map raw_text ps))
     else if pq_raw_terms q \<noteq> [] then {d \<in> (\<Inter>t \<in> set (pq_raw_terms q). term_docs docs R t).
        phrase_ends (map (term_occ tag occ R d) (pq_raw_terms q)) (the (sr_tokens R column d)) (map small_part (pq_patterns q)) \<noteq> {}}
     else if pq_patterns q = [] then {}
     else if Part_Wildcard \<in> set ps then {..<sr_max_doc R}
     else insert 0 {d \<in> {..<sr_max_doc R}. empty_at (sr_tokens R column) d}))"
proof (cases "can_optimize_site_domain ps field")
  case True
  then show ?thesis using site_query_hits [OF assms(1,2) True] by (simp add: assms(7))
next
  case other: False
  show ?thesis
  proof (cases "pq_raw_terms q = []")
    case True
    then show ?thesis using no_terms_hits [OF assms(3,5,6) other assms(7) True] other by simp
  next
    case False
    then show ?thesis using term_query_hits [OF assms(1-4) other assms(7) False] other by simp
  qed
qed

definition sample_reader :: "list_postings segment_reader" where
  "sample_reader = \<lparr> sr_max_doc = 6,
     sr_postings = (\<lambda>field text. if text = ''foo'' then Some \<lparr> lp_all = [(0, [0, 3]), (4, [2])], lp_rest = [(0, [0, 3]), (4, [2])] \<rparr>
       else if text = ''bar'' then Some \<lparr> lp_all = [(0, [4]), (4, [0])], lp_rest = [(0, [4]), (4, [0])] \<rparr> else None),
     sr_tokens = (\<lambda>_ _. Some 5) \<rparr>"

theorem pattern_query_exact_witness:
  "scorer_hits list_ops (query_scorer list_ops sample_reader (pattern_query_new (\<lambda>text. [text]) [Raw ''foo'', Raw ''bar'', Part_Anchor] Title)) = Some [0]
    \<and> scorer_hits list_ops (query_scorer list_ops sample_reader (pattern_query_new (\<lambda>text. [text]) [Part_Anchor, Raw ''bar'', Part_Anchor] Domain)) = Some [0, 4]
    \<and> scorer_hits list_ops (query_scorer list_ops sample_reader (pattern_query_new (\<lambda>text. [text]) [Part_Anchor] Title)) = Some [0]"
proof -
  let ?q = "pattern_query_new (\<lambda>text. [text]) [Raw ''foo'', Raw ''bar'', Part_Anchor] Title"
  let ?ts = "[(Title, ''foo''), (Title, ''bar'')]"
  let ?holds = "\<lambda>d. phrase_ends (map (term_occ lp_all list_occ sample_reader d) ?ts) (the (sr_tokens sample_reader NumTitleTokens d)) [Term, Term, Anchor] \<noteq> {}"
  have q: "pq_raw_terms ?q = ?ts" "map small_part (pq_patterns ?q) = [Term, Term, Anchor]"
    by (simp_all add: pattern_query_new_def can_optimize_site_domain_def)
  have good: "\<forall>field text s. sr_postings sample_reader field text = Some s \<longrightarrow> list_ok s"
    by (auto simp: sample_reader_def list_ok_def TERMINATED_def split: if_splits)
  have docs: "(\<Inter>t \<in> set ?ts. term_docs (\<lambda>s. map fst (lp_rest s)) sample_reader t) = {0, 4}" by (auto simp: term_docs_def sample_reader_def)
  have "chain [[0, 3], [4]] [1] [3, 4]" by (simp add: chain_def All_less_Suc2 numeral_2_eq_2)
  then have h0: "?holds 0" by (auto simp: phrase_ends_def term_occ_def sample_reader_def list_occ_def start_ok_def end_ok_def last_token_def)
  have "\<not> chain [[2], [0]] [1] qs" for qs
    by (cases qs; cases "tl qs") (auto simp: chain_def All_less_Suc2 numeral_2_eq_2)
  then have h4: "\<not> ?holds 4" by (auto simp: phrase_ends_def term_occ_def sample_reader_def list_occ_def)
  have hits: "{d \<in> {0, 4}. ?holds d} = {0}" using h0 h4 by auto
  have fields: "num_tokens_columnfield Title = Some NumTitleTokens" "num_tokens_columnfield Domain = Some NumDomainTokens" by simp_all
  have counts: "\<forall>d < TERMINATED. sr_tokens sample_reader column d \<noteq> None" for column by (simp add: sample_reader_def)
  have size: "0 < sr_max_doc sample_reader" "sr_max_doc sample_reader \<le> TERMINATED" by (simp_all add: sample_reader_def TERMINATED_def)
  note exact = pattern_query_exact [OF list_postings.postings_axioms good _ counts size refl]
  have "scorer_hits list_ops (query_scorer list_ops sample_reader ?q) = Some [0]"
    using exact [OF fields(1), of "\<lambda>text. [text]" "[Raw ''foo'', Raw ''bar'', Part_Anchor]", unfolded q(1,2) docs hits]
    by (simp add: can_optimize_site_domain_def)
  moreover have "scorer_hits list_ops (query_scorer list_ops sample_reader (pattern_query_new (\<lambda>text. [text]) [Part_Anchor, Raw ''bar'', Part_Anchor] Domain)) = Some [0, 4]"
    using exact [OF fields(2), of "\<lambda>text. [text]" "[Part_Anchor, Raw ''bar'', Part_Anchor]"]
    by (simp add: can_optimize_site_domain_def is_raw_def term_docs_def sample_reader_def)
  moreover have "scorer_hits list_ops (query_scorer list_ops sample_reader (pattern_query_new (\<lambda>text. [text]) [Part_Anchor] Title)) = Some [0]"
    using exact [OF fields(1), of "\<lambda>text. [text]" "[Part_Anchor]"]
    by (simp add: can_optimize_site_domain_def pattern_query_new_def sample_reader_def empty_at_def)
  ultimately show ?thesis by simp
qed

end
