(* ===== verification/Ingestion.thy ===== *)
theory Ingestion
  imports Exclusions Politeness
begin

text \<open>
  The ingestion policy of the crawler (\<open>core/src/config/ingestion.rs\<close>) and the identity it announces
  (\<open>core/src/crawler/identity.rs\<close>): the configuration, its validation before any transport or storage, and the permit for
  production, which only an approved assessment gives. The url crate, the package version and the clock are parameters; an error
  is the message of the source.
\<close>

section \<open>Configuration\<close>

type_synonym 'a config = "string + 'a"

record identity_config =
  ic_policy_url :: string
  ic_contact :: string

record politeness_config =
  pl_gap_ms :: nat
  pl_max_concurrent_per_host :: nat
  pl_block_secs :: nat
  pl_retry_budget :: nat

record retention_config =
  rc_raw_body_max_age_days :: nat
  rc_snippet_max_chars :: nat
  rc_query_log_max_age_days :: nat
  rc_query_ip_v4_prefix :: nat
  rc_query_ip_v6_prefix :: nat
  rc_query_rotating_salt_required :: bool
  rc_cached_copy :: bool
  rc_profiling_allowed :: bool
  rc_advertising_allowed :: bool

datatype approval_status = Draft | Approved | Revoked

record approved_record =
  ar_id :: string
  ar_status :: approval_status
  ar_approver :: string
  ar_approved_at_utc :: int
  ar_lia_id :: string
  ar_lia_summary_url :: string
  ar_article14_measures_id :: string
  ar_policy_version :: string

record production_approval =
  pa_dpia_id :: "string option"
  pa_approved_records :: "approved_record list"
  pa_distributed_host_lease_configured :: bool

record policy_content =
  pt_controller_identity :: "string option"
  pt_lia_summary_url :: "string option"
  pt_removal_url :: "string option"
  pt_osa_report_url :: "string option"
  pt_complaints_url :: "string option"
  pt_ico_url :: "string option"
  pt_article14_measures :: "string option"
  pt_egress_file_url :: "string option"

record ingestion_policy =
  ip_version :: string
  ip_identity :: identity_config
  ip_robots_cache_secs :: nat
  ip_politeness :: politeness_config
  ip_retention :: retention_config
  ip_exclusions :: exclusions_config
  ip_production :: production_approval
  ip_policy_content :: policy_content

subsection \<open>Defaults\<close>

definition DEFAULT_HOST_GAP_MS :: nat where "DEFAULT_HOST_GAP_MS = 10000"
definition DEFAULT_HOST_CONCURRENCY :: nat where "DEFAULT_HOST_CONCURRENCY = 1"
definition MAX_ROBOTS_CACHE_SECS :: nat where "MAX_ROBOTS_CACHE_SECS = 24 * 60 * 60"

definition default_identity :: identity_config where
  "default_identity = \<lparr> ic_policy_url = ''https://github.com/Al3xWalton/agentic-search/blob/main/CRAWLER_POLICY.md'',
     ic_contact = ''https://github.com/Al3xWalton/agentic-search/issues'' \<rparr>"

definition default_politeness :: politeness_config where
  "default_politeness = \<lparr> pl_gap_ms = DEFAULT_HOST_GAP_MS, pl_max_concurrent_per_host = DEFAULT_HOST_CONCURRENCY,
     pl_block_secs = MIN_BLOCK_SECS, pl_retry_budget = 3 \<rparr>"

definition default_retention :: retention_config where
  "default_retention = \<lparr> rc_raw_body_max_age_days = 30, rc_snippet_max_chars = 300, rc_query_log_max_age_days = 90,
     rc_query_ip_v4_prefix = 24, rc_query_ip_v6_prefix = 48, rc_query_rotating_salt_required = True, rc_cached_copy = False,
     rc_profiling_allowed = False, rc_advertising_allowed = False \<rparr>"

text \<open>The instant of the default change is read from a fixed date.\<close>

definition default_exclusions :: "int \<Rightarrow> exclusions_config" where
  "default_exclusions changed = \<lparr> xc_version = ''585.1'', xc_changed_at_utc = changed,
     xc_change_log = [\<lparr> pg_version = ''585.1'', pg_date_utc = changed, pg_reason = ''Initial empty lists; founder review pending'',
       pg_review_ref = ''Story #585'' \<rparr>],
     xc_cctld_allow = [], xc_cctld_deny = [], xc_language_allow = [], xc_language_deny = [], xc_country_allow = [], xc_country_deny = [],
     xc_country_provider = None, xc_rules = [], xc_listing_sites = [], xc_serving = default_serving_policy \<rparr>"

definition default_policy :: "int \<Rightarrow> ingestion_policy" where
  "default_policy changed = \<lparr> ip_version = ''585.1'', ip_identity = default_identity, ip_robots_cache_secs = 3600,
     ip_politeness = default_politeness, ip_retention = default_retention, ip_exclusions = default_exclusions changed,
     ip_production = \<lparr> pa_dpia_id = None, pa_approved_records = [], pa_distributed_host_lease_configured = False \<rparr>,
     ip_policy_content = \<lparr> pt_controller_identity = None, pt_lia_summary_url = None, pt_removal_url = None, pt_osa_report_url = None,
       pt_complaints_url = None, pt_ico_url = None, pt_article14_measures = None, pt_egress_file_url = None \<rparr> \<rparr>"

section \<open>Identity\<close>

record location_lib =
  ll_parse :: "string \<Rightarrow> web_url option"
  ll_domain :: "web_url \<Rightarrow> string option"
  ll_fragment :: "web_url \<Rightarrow> string option"

definition ROBOTS_TOKEN :: string where "ROBOTS_TOKEN = ''AVASearchBot''"

definition validate_policy_url :: "location_lib \<Rightarrow> string \<Rightarrow> unit config" where
  "validate_policy_url L value =
     (if value = [] \<or> list_ex (\<lambda>c. is_whitespace c \<or> is_control c \<or> c \<in> {40, 41, 59}) (chars value)
      then Inl ''identity location contains invalid characters''
      else case ll_parse L value of
             None \<Rightarrow> Inl ''identity location is not an absolute URL''
           | Some url \<Rightarrow>
               if wu_scheme url = ''https'' \<and> (case ll_domain L url of Some host \<Rightarrow> host \<noteq> [] | None \<Rightarrow> False) \<and> wu_username url = []
                  \<and> wu_password url = None \<and> ll_fragment L url = None
                  \<and> \<not> (case drop 2 (split_on CHR ''/'' value) of s # _ \<Rightarrow> CHR ''@'' \<in> set s | [] \<Rightarrow> False)
               then Inr () else Inl ''identity location must be HTTPS without userinfo or fragment'')"

definition mailbox_label :: "string \<Rightarrow> bool" where
  "mailbox_label label \<longleftrightarrow> label \<noteq> [] \<and> list_all (\<lambda>c. is_ascii_alphanumeric (byte c) \<or> c = CHR ''-'') label"

definition validate_contact :: "location_lib \<Rightarrow> string \<Rightarrow> unit config" where
  "validate_contact L value =
     (if starts_with value ''https://'' then validate_policy_url L value
      else if \<not> list_all (\<lambda>c. byte c < (128 :: nat) \<and> byte c \<noteq> (127 :: nat) \<and> byte c > (32 :: nat)
                 \<and> c \<notin> {CHR ''('', CHR '')'', CHR '';'', CHR '':'', CHR ''/'', CHR 0x5C}) value
      then Inl ''identity contact contains invalid characters''
      else case split_once CHR ''@'' value of
             None \<Rightarrow> Inl ''identity contact must be email or HTTPS''
           | Some (local, domain) \<Rightarrow>
               if local \<noteq> [] \<and> CHR ''@'' \<notin> set domain \<and> CHR ''.'' \<in> set domain \<and> list_all mailbox_label (split_on CHR ''.'' domain)
               then Inr () else Inl ''identity contact has invalid mailbox shape'')"

definition build_user_agent :: "location_lib \<Rightarrow> string \<Rightarrow> identity_config \<Rightarrow> string config" where
  "build_user_agent L pkg_version identity =
     res_then (validate_policy_url L (ic_policy_url identity))
       (res_then (validate_contact L (ic_contact identity))
          (Inr (''AVASearchBot/'' @ pkg_version @ '' (+'' @ ic_policy_url identity @ ''; '' @ ic_contact identity @ '')'')))"

section \<open>Validation\<close>

definition nonempty :: "string \<Rightarrow> bool" where
  "nonempty value \<longleftrightarrow> trim value \<noteq> [] \<and> \<not> list_ex is_control (chars value)"

definition host_label :: "string \<Rightarrow> bool" where
  "host_label part \<longleftrightarrow> part \<noteq> [] \<and> length part \<le> 63 \<and> \<not> starts_with part ''-'' \<and> \<not> ends_with part ''-''
     \<and> list_all (\<lambda>c. is_ascii_lowercase (byte c) \<or> is_ascii_digit (byte c) \<or> c = CHR ''-'') part"

definition valid_host :: "string \<Rightarrow> bool" where
  "valid_host host \<longleftrightarrow> host \<noteq> [] \<and> length host \<le> 253 \<and> list_all host_label (split_on CHR ''.'' host)"

definition ascii_alphabetic :: "char \<Rightarrow> bool" where
  "ascii_alphabetic c \<longleftrightarrow> is_ascii_lowercase (byte c) \<or> is_ascii_uppercase (byte c)"

definition language_tag :: "string \<Rightarrow> bool" where
  "language_tag value =
     list_all (\<lambda>(i, part). part \<noteq> [] \<and> length part \<le> 8
         \<and> list_all (\<lambda>c. if i = 0 then ascii_alphabetic c else is_ascii_alphanumeric (byte c)) part)
       (List.enumerate 0 (split_on CHR ''-'' value))"

definition checked_duration :: "nat \<Rightarrow> nat config" where
  "checked_duration gap_ms =
     (if gap_ms > 86400000 then Inl ''ingestion.politeness.gap_ms exceeds 24 hours''
      else ok_or (checked_mul_u64 gap_ms 1000000) ''ingestion.politeness.gap_ms overflow'')"

definition ensure :: "bool \<Rightarrow> string \<Rightarrow> unit config" where
  "ensure condition message = (if condition then Inr () else Inl message)"

definition validate_retention_bounds :: "retention_config \<Rightarrow> unit config" where
  "validate_retention_bounds r =
     ensure (rc_raw_body_max_age_days r \<le> 30 \<and> rc_snippet_max_chars r \<le> 300 \<and> rc_query_log_max_age_days r \<le> 90
         \<and> rc_query_ip_v4_prefix r = 24 \<and> rc_query_ip_v6_prefix r = 48 \<and> rc_query_rotating_salt_required r
         \<and> \<not> rc_cached_copy r \<and> \<not> rc_profiling_allowed r \<and> \<not> rc_advertising_allowed r)
       ''ingestion.retention violates bounds or required safeguards''"

fun ensure_all :: "('a \<Rightarrow> bool) \<Rightarrow> string \<Rightarrow> 'a list \<Rightarrow> unit config" where
  "ensure_all condition message [] = Inr ()"
| "ensure_all condition message (x # xs) = res_then (ensure (condition x) message) (ensure_all condition message xs)"

fun unique_rules :: "string list \<Rightarrow> class_rule list \<Rightarrow> unit config" where
  "unique_rules ids [] = Inr ()"
| "unique_rules ids (rule # rules) =
     res_then (ensure (nonempty (cr_id rule) \<and> cr_id rule \<notin> set ids \<and> valid_host (cr_host rule)) ''ingestion.exclusions invalid or duplicate rule'')
       (unique_rules (cr_id rule # ids) rules)"

definition validate_change_log :: "exclusions_config \<Rightarrow> unit config" where
  "validate_change_log e =
     res_then (ensure (nonempty (xc_version e)) ''ingestion.exclusions.version is required'')
       (if xc_change_log e = [] then Inl ''ingestion.exclusions.change_log is empty''
        else
          (let head = last (xc_change_log e) in
           res_then (ensure (pg_version head = xc_version e \<and> pg_date_utc head = xc_changed_at_utc e)
               ''ingestion.exclusions change-log head differs from policy'')
             (ensure_all (\<lambda>c. nonempty (pg_version c) \<and> nonempty (pg_reason c) \<and> nonempty (pg_review_ref c))
               ''ingestion.exclusions incomplete change-log entry'' (xc_change_log e))))"

definition validate_codes :: "exclusions_config \<Rightarrow> unit config" where
  "validate_codes e =
     res_then (ensure_all (\<lambda>code. length code = 2 \<and> list_all (\<lambda>c. is_ascii_lowercase (byte c)) code)
         ''ingestion.exclusions ccTLD must be two lowercase DNS letters'' (xc_cctld_allow e @ xc_cctld_deny e))
       (res_then (ensure_all (\<lambda>code. length code = 2 \<and> list_all (\<lambda>c. is_ascii_uppercase (byte c)) code)
           ''ingestion.exclusions country code must be two uppercase letters'' (xc_country_allow e @ xc_country_deny e))
         (ensure_all language_tag ''ingestion.exclusions invalid language tag'' (xc_language_allow e @ xc_language_deny e)))"

definition validate_provider :: "exclusions_config \<Rightarrow> unit config" where
  "validate_provider e =
     res_then (if xc_country_allow e \<noteq> [] \<or> xc_country_deny e \<noteq> []
               then ensure (xc_country_provider e \<noteq> None) ''ingestion.exclusions country restrictions require an offline provider''
               else Inr ())
       (case xc_country_provider e of
          None \<Rightarrow> Inr ()
        | Some p \<Rightarrow> ensure (nonempty (pc_id p) \<and> nonempty (pc_version p)) ''ingestion.exclusions incomplete country provider'')"

definition validate_exclusion_schema :: "exclusions_config \<Rightarrow> unit config" where
  "validate_exclusion_schema e =
     res_then (validate_change_log e)
       (res_then (validate_codes e)
         (res_then (validate_provider e)
           (res_then (unique_rules [] (xc_rules e))
             (res_then (ensure_all (\<lambda>l. valid_host (lp_host l)) ''ingestion.exclusions invalid listing host'' (xc_listing_sites e))
               (ensure (sp_uk_or_unknown_measures (xc_serving e) \<and> sp_non_uk_policy (xc_serving e) = ''same-as-uk''
                   \<and> sp_missing_adult_is_child (xc_serving e))
                 ''ingestion.exclusions.serving must preserve conservative defaults'')))))"

record ingestion_env =
  ie_location :: location_lib
  ie_pkg_version :: string
  ie_wall :: wall
  ie_now :: int

definition block_representable :: "ingestion_env \<Rightarrow> nat \<Rightarrow> bool" where
  "block_representable E secs \<longleftrightarrow> int secs \<le> i64_max \<and> secs \<le> i64_seconds_max
     \<and> wl_add (ie_wall E) (ie_now E) (seconds_ns (int secs)) \<noteq> None"

definition validate_politeness :: "ingestion_env \<Rightarrow> politeness_config \<Rightarrow> unit config" where
  "validate_politeness E p =
     (if pl_gap_ms p < HARD_MIN_HOST_GAP_MS then Inl ''ingestion.politeness.gap_ms must be at least 500''
      else
        res_bind (checked_duration (pl_gap_ms p)) (\<lambda>_.
          res_then (ensure (1 \<le> pl_max_concurrent_per_host p \<and> pl_max_concurrent_per_host p \<le> HARD_MAX_HOST_CONCURRENCY)
              ''ingestion.politeness.max_concurrent_per_host must be 1..=2'')
            (res_then (ensure (pl_block_secs p \<ge> MIN_BLOCK_SECS \<and> block_representable E (pl_block_secs p))
                ''ingestion.politeness.block_secs violates minimum or UTC arithmetic'')
              (ensure (pl_retry_budget p \<le> 3) ''ingestion.politeness.retry_budget must be 0..=3''))))"

definition content_locations :: "policy_content \<Rightarrow> string list" where
  "content_locations c = concat (map (\<lambda>l. case l of None \<Rightarrow> [] | Some v \<Rightarrow> [v])
     [pt_lia_summary_url c, pt_removal_url c, pt_osa_report_url c, pt_complaints_url c, pt_ico_url c, pt_egress_file_url c])"

fun validate_locations :: "location_lib \<Rightarrow> string list \<Rightarrow> unit config" where
  "validate_locations L [] = Inr ()"
| "validate_locations L (l # ls) = res_then (validate_policy_url L l) (validate_locations L ls)"

text \<open>The result is the policy itself, which only validation wraps.\<close>

definition ingestion_validate :: "ingestion_env \<Rightarrow> ingestion_policy \<Rightarrow> ingestion_policy config" where
  "ingestion_validate E p =
     res_then (ensure (nonempty (ip_version p)) ''ingestion.version is required'')
       (res_bind (build_user_agent (ie_location E) (ie_pkg_version E) (ip_identity p)) (\<lambda>_.
         if ip_robots_cache_secs p = 0 \<or> ip_robots_cache_secs p > MAX_ROBOTS_CACHE_SECS
         then Inl ''ingestion.robots.cache_secs must be 1..=86400''
         else
           res_then (validate_politeness E (ip_politeness p))
             (res_then (validate_retention_bounds (ip_retention p))
               (res_then (validate_exclusion_schema (ip_exclusions p))
                 (res_then (validate_locations (ie_location E) (content_locations (ip_policy_content p)))
                   (Inr p))))))"

section \<open>Production\<close>

definition assessment_ok :: "ingestion_policy \<Rightarrow> int \<Rightarrow> approved_record \<Rightarrow> bool" where
  "assessment_ok p now r \<longleftrightarrow> ar_status r = Approved \<and> ar_approved_at_utc r \<le> now \<and> nonempty (ar_approver r) \<and> nonempty (ar_lia_id r)
     \<and> nonempty (ar_article14_measures_id r) \<and> ar_policy_version r = ip_version p"

definition require_production_approval :: "ingestion_env \<Rightarrow> ingestion_policy \<Rightarrow> int \<Rightarrow> string option \<Rightarrow> ingestion_policy config" where
  "require_production_approval E p now environment_id =
     res_bind (ingestion_validate E p) (\<lambda>policy.
       case pa_dpia_id (ip_production p) of
         None \<Rightarrow> Inl ''production requires selected dpia_id''
       | Some selected \<Rightarrow>
           if \<not> nonempty selected then Inl ''production requires selected dpia_id''
           else if environment_id \<noteq> None \<and> environment_id \<noteq> Some selected then Inl ''DPIA_ID must equal configured dpia_id''
           else
             (let matches = filter (\<lambda>r. ar_id r = selected) (pa_approved_records (ip_production p)) in
              if length matches \<noteq> 1 then Inl ''production requires exactly one matching assessment''
              else if \<not> assessment_ok p now (matches ! 0)
              then Inl ''production assessment is incomplete, unapproved, future-dated or for another policy''
              else
                res_then (validate_policy_url (ie_location E) (ar_lia_summary_url (matches ! 0)))
                  (res_then (ensure (pa_distributed_host_lease_configured (ip_production p)) ''production requires coordinated host ownership'')
                    (Inr policy))))"

section \<open>What validation comes to\<close>

lemma ensure_iff [simp]: "ensure c message = Inr () \<longleftrightarrow> c"
  by (simp add: ensure_def)

lemma res_then_unit: "res_then r s = Inr x \<longleftrightarrow> r = Inr () \<and> s = Inr x" for r :: "'e + unit"
  by (cases r) (auto simp: res_then_def)

lemma ensure_all_iff [simp]: "ensure_all c message xs = Inr () \<longleftrightarrow> (\<forall>x \<in> set xs. c x)"
  by (induction xs) (auto simp: res_then_unit)

lemma unique_rules_iff:
  "unique_rules ids rules = Inr () \<longleftrightarrow> (\<forall>r \<in> set rules. nonempty (cr_id r) \<and> valid_host (cr_host r))
     \<and> distinct (map cr_id rules) \<and> set ids \<inter> cr_id ` set rules = {}"
  by (induction rules arbitrary: ids) (auto simp: res_then_unit)

lemma validate_locations_iff [simp]: "validate_locations L ls = Inr () \<longleftrightarrow> (\<forall>l \<in> set ls. validate_policy_url L l = Inr ())"
  by (induction ls) (auto simp: res_then_unit)

lemma checked_duration_iff: "(\<exists>d. checked_duration gap = Inr d) \<longleftrightarrow> gap \<le> 86400000"
  by (auto simp: checked_duration_def ok_or_def checked_mul_u64_def)

lemma user_agent_iff:
  "build_user_agent L v i = Inr agent \<longleftrightarrow> validate_policy_url L (ic_policy_url i) = Inr () \<and> validate_contact L (ic_contact i) = Inr ()
     \<and> agent = ''AVASearchBot/'' @ v @ '' (+'' @ ic_policy_url i @ ''; '' @ ic_contact i @ '')''"
  by (auto simp: build_user_agent_def res_then_unit)

lemma politeness_iff:
  "validate_politeness E p = Inr () \<longleftrightarrow> HARD_MIN_HOST_GAP_MS \<le> pl_gap_ms p \<and> pl_gap_ms p \<le> 86400000
     \<and> 1 \<le> pl_max_concurrent_per_host p \<and> pl_max_concurrent_per_host p \<le> HARD_MAX_HOST_CONCURRENCY
     \<and> MIN_BLOCK_SECS \<le> pl_block_secs p \<and> block_representable E (pl_block_secs p) \<and> pl_retry_budget p \<le> 3"
proof (cases "\<exists>d. checked_duration (pl_gap_ms p) = Inr d")
  case True
  then show ?thesis using checked_duration_iff [of "pl_gap_ms p"] by (auto simp: validate_politeness_def res_bind_def res_then_unit)
next
  case False
  then have "\<exists>e. checked_duration (pl_gap_ms p) = Inl e" by (cases "checked_duration (pl_gap_ms p)") auto
  with False show ?thesis using checked_duration_iff [of "pl_gap_ms p"] by (auto simp: validate_politeness_def res_bind_def)
qed

lemma schema_iff:
  "validate_exclusion_schema e = Inr () \<longleftrightarrow> validate_change_log e = Inr () \<and> validate_codes e = Inr () \<and> validate_provider e = Inr ()
     \<and> unique_rules [] (xc_rules e) = Inr () \<and> (\<forall>l \<in> set (xc_listing_sites e). valid_host (lp_host l))
     \<and> sp_uk_or_unknown_measures (xc_serving e) \<and> sp_non_uk_policy (xc_serving e) = ''same-as-uk'' \<and> sp_missing_adult_is_child (xc_serving e)"
  by (auto simp: validate_exclusion_schema_def res_then_unit)

lemma validate_iff:
  "ingestion_validate E p = Inr q \<longleftrightarrow> q = p \<and> nonempty (ip_version p)
     \<and> validate_policy_url (ie_location E) (ic_policy_url (ip_identity p)) = Inr () \<and> validate_contact (ie_location E) (ic_contact (ip_identity p)) = Inr ()
     \<and> 1 \<le> ip_robots_cache_secs p \<and> ip_robots_cache_secs p \<le> MAX_ROBOTS_CACHE_SECS
     \<and> validate_politeness E (ip_politeness p) = Inr () \<and> validate_retention_bounds (ip_retention p) = Inr ()
     \<and> validate_exclusion_schema (ip_exclusions p) = Inr ()
     \<and> (\<forall>l \<in> set (content_locations (ip_policy_content p)). validate_policy_url (ie_location E) l = Inr ())"
proof (cases "build_user_agent (ie_location E) (ie_pkg_version E) (ip_identity p)")
  case (Inl e)
  then have "\<not> (validate_policy_url (ie_location E) (ic_policy_url (ip_identity p)) = Inr () \<and> validate_contact (ie_location E) (ic_contact (ip_identity p)) = Inr ())"
    using user_agent_iff [of "ie_location E" "ie_pkg_version E" "ip_identity p"] by (metis Inl_Inr_False)
  with Inl show ?thesis by (auto simp: ingestion_validate_def res_bind_def res_then_unit)
next
  case (Inr agent)
  with user_agent_iff [of "ie_location E" "ie_pkg_version E" "ip_identity p" agent] show ?thesis
    by (auto simp: ingestion_validate_def res_bind_def res_then_unit)
qed

text \<open>
  A \<open>str\<close> is well-formed UTF-8: the bytes of a character of several bytes are all outside ASCII. The separators of the
  user agent are then visible to the character checks.
\<close>

definition str_ok :: "string \<Rightarrow> bool" where
  "str_ok s \<longleftrightarrow> list_all (\<lambda>u. length u = 1 \<or> list_all (\<lambda>c. 128 \<le> byte c) u) (scalars s)"

lemma ascii_byte_char:
  assumes "str_ok s" and "c \<in> set s" and "byte c < (128 :: nat)"
  shows "byte c \<in> set (chars s)"
proof -
  obtain u where u: "u \<in> set (scalars s)" "c \<in> set u" using assms(2) by (subst (asm) concat_scalars [symmetric]) auto
  with assms(1,3) have "length u = 1" by (fastforce simp: str_ok_def list_all_iff)
  with u(2) have "u = [c]" by (auto simp: length_Suc_conv)
  then have "code_point u = byte c" using assms(3) by simp
  with u(1) show ?thesis unfolding chars_def by (metis image_eqI set_map)
qed

lemma location_no_separator: "validate_policy_url L v = Inr () \<Longrightarrow> str_ok v \<Longrightarrow> CHR '';'' \<notin> set v"
  using ascii_byte_char [of v "CHR '';''"] by (auto simp: validate_policy_url_def list_ex_iff split: if_splits)

lemma append_separator_inject: "c \<notin> set a \<Longrightarrow> c \<notin> set b \<Longrightarrow> a @ c # x = b @ c # y \<longleftrightarrow> a = b \<and> x = y"
  by (induction a arbitrary: b; case_tac b) auto

lemma user_agent_inject:
  assumes "build_user_agent L v i = Inr agent" and "build_user_agent L v i' = Inr agent"
    and "str_ok (ic_policy_url i)" and "str_ok (ic_policy_url i')"
  shows "ic_policy_url i = ic_policy_url i' \<and> ic_contact i = ic_contact i'"
proof -
  have "ic_policy_url i @ CHR '';'' # '' '' @ ic_contact i @ '')'' = ic_policy_url i' @ CHR '';'' # '' '' @ ic_contact i' @ '')''"
    using assms(1,2) by (auto simp: user_agent_iff)
  moreover have "CHR '';'' \<notin> set (ic_policy_url i)" "CHR '';'' \<notin> set (ic_policy_url i')"
    using assms location_no_separator by (auto simp: user_agent_iff)
  ultimately show ?thesis by (auto simp: append_separator_inject)
qed

definition change_logged :: "exclusions_config \<Rightarrow> bool" where
  "change_logged e \<longleftrightarrow> nonempty (xc_version e) \<and> xc_change_log e \<noteq> []
     \<and> pg_version (last (xc_change_log e)) = xc_version e \<and> pg_date_utc (last (xc_change_log e)) = xc_changed_at_utc e
     \<and> (\<forall>c \<in> set (xc_change_log e). nonempty (pg_version c) \<and> nonempty (pg_reason c) \<and> nonempty (pg_review_ref c))"

definition codes_canonical :: "exclusions_config \<Rightarrow> bool" where
  "codes_canonical e \<longleftrightarrow>
     (\<forall>code \<in> set (xc_cctld_allow e @ xc_cctld_deny e). length code = 2 \<and> (\<forall>c \<in> set code. byte c \<in> {97..122 :: nat}))
     \<and> (\<forall>code \<in> set (xc_country_allow e @ xc_country_deny e). length code = 2 \<and> (\<forall>c \<in> set code. byte c \<in> {65..90 :: nat}))
     \<and> (\<forall>tag \<in> set (xc_language_allow e @ xc_language_deny e). language_tag tag)"

definition provider_named :: "exclusions_config \<Rightarrow> bool" where
  "provider_named e \<longleftrightarrow> (xc_country_allow e \<noteq> [] \<or> xc_country_deny e \<noteq> [] \<longrightarrow> xc_country_provider e \<noteq> None)
     \<and> (\<forall>c. xc_country_provider e = Some c \<longrightarrow> nonempty (pc_id c) \<and> nonempty (pc_version c))"

lemma change_log_iff: "validate_change_log e = Inr () \<longleftrightarrow> change_logged e"
  by (auto simp: validate_change_log_def change_logged_def res_then_unit Let_def)

lemma codes_iff: "validate_codes e = Inr () \<longleftrightarrow> codes_canonical e"
  by (auto simp: validate_codes_def codes_canonical_def res_then_unit list_all_iff is_ascii_lowercase_def is_ascii_uppercase_def)

lemma provider_iff: "validate_provider e = Inr () \<longleftrightarrow> provider_named e"
  by (auto simp: validate_provider_def provider_named_def res_then_unit split: option.splits)


text \<open>
  A production permit is issued exactly for a validated policy whose selected assessment is the only one with its identifier,
  agrees with the environment where that names one, is approved, not in the future, complete and for this version of the
  policy, has a valid public summary, and whose deployment coordinates the ownership of hosts.
\<close>

theorem production_permit_iff:
  "require_production_approval E p now environment = Inr q \<longleftrightarrow>
    q = p \<and> ingestion_validate E p = Inr p \<and> pa_distributed_host_lease_configured (ip_production p)
    \<and> (\<exists>selected r. pa_dpia_id (ip_production p) = Some selected \<and> nonempty selected \<and> environment \<in> {None, Some selected}
        \<and> filter (\<lambda>r. ar_id r = selected) (pa_approved_records (ip_production p)) = [r]
        \<and> ar_status r = Approved \<and> ar_approved_at_utc r \<le> now \<and> nonempty (ar_approver r) \<and> nonempty (ar_lia_id r)
        \<and> nonempty (ar_article14_measures_id r) \<and> ar_policy_version r = ip_version p
        \<and> validate_policy_url (ie_location E) (ar_lia_summary_url r) = Inr ())"
proof (cases "ingestion_validate E p")
  case (Inl e)
  then show ?thesis by (simp add: require_production_approval_def res_bind_def)
next
  case (Inr policy)
  then have p: "ingestion_validate E p = Inr p" by (simp add: validate_iff)
  show ?thesis
  proof (cases "pa_dpia_id (ip_production p)")
    case None
    with p show ?thesis by (simp add: require_production_approval_def res_bind_def)
  next
    case (Some selected)
    have one: "length xs = 1 \<longleftrightarrow> (\<exists>r. xs = [r])" for xs :: "approved_record list" by (cases xs) auto
    from p Some show ?thesis
      by (auto simp: require_production_approval_def res_bind_def res_then_unit assessment_ok_def Let_def one [unfolded One_nat_def])
  qed
qed

section \<open>The default policy\<close>

definition demo_location :: location_lib where
  "demo_location = \<lparr> ll_parse = (\<lambda>s. Some \<lparr> wu_scheme = ''https'', wu_host = Some ''github.com'', wu_port = None, wu_path = ''/'', wu_query = None,
      wu_username = [], wu_password = None, wu_text = s \<rparr>), ll_domain = wu_host, ll_fragment = (\<lambda>_. None) \<rparr>"

definition demo_ingestion :: ingestion_env where
  "demo_ingestion = \<lparr> ie_location = demo_location, ie_pkg_version = ''1.0'', ie_wall = utc_wall, ie_now = 0 \<rparr>"

lemma nonempty_printable:
  assumes "list_all (\<lambda>c. 32 \<le> byte c \<and> byte c < (127 :: nat)) s" and "list_ex (\<lambda>c. byte c \<noteq> (32 :: nat)) s"
  shows "nonempty s"
proof -
  have ascii: "\<forall>c \<in> set s. byte c < (128 :: nat)" using assms(1) by (auto simp: list_all_iff)
  from assms(2) obtain c where c: "c \<in> set s" "byte c \<noteq> (32 :: nat)" by (auto simp: list_ex_iff)
  have "32 \<le> byte c" "byte c < (127 :: nat)" using assms(1) c(1) by (auto simp: list_all_iff)
  then have "\<not> is_whitespace (byte c)" using c(2) by (auto simp: is_whitespace_def)
  then have "trim s \<noteq> []" by (rule trim_ascii_not_blank [OF ascii c(1)])
  moreover have "\<not> list_ex is_control (chars s)"
    using assms(1) by (force simp: chars_ascii [OF ascii] list_ex_iff list_all_iff is_control_def)
  ultimately show ?thesis by (simp add: nonempty_def)
qed

lemma location_printable:
  assumes "list_all (\<lambda>c. 32 < byte c \<and> byte c < (127 :: nat) \<and> byte c \<notin> {40, 41, 59 :: nat}) v"
  shows "\<not> list_ex (\<lambda>c. is_whitespace c \<or> is_control c \<or> c \<in> {40, 41, 59}) (chars v)"
proof -
  have ascii: "\<forall>c \<in> set v. byte c < (128 :: nat)" using assms by (auto simp: list_all_iff)
  have "\<not> (is_whitespace (byte c) \<or> is_control (byte c) \<or> byte c \<in> {40, 41, 59})" if "c \<in> set v" for c
  proof -
    have "32 < byte c" "byte c < (127 :: nat)" "byte c \<notin> {40, 41, 59 :: nat}" using assms that by (auto simp: list_all_iff)
    then show ?thesis by (auto simp: is_whitespace_def is_control_def)
  qed
  then show ?thesis by (simp add: chars_ascii [OF ascii] list_ex_iff)
qed

lemma demo_locations:
  "validate_policy_url demo_location (ic_policy_url default_identity) = Inr ()"
  "validate_contact demo_location (ic_contact default_identity) = Inr ()"
proof -
  have p: "\<not> list_ex (\<lambda>c. is_whitespace c \<or> is_control c \<or> c \<in> {40, 41, 59}) (chars (ic_policy_url default_identity))"
    and c: "\<not> list_ex (\<lambda>c. is_whitespace c \<or> is_control c \<or> c \<in> {40, 41, 59}) (chars (ic_contact default_identity))"
    by (rule location_printable; simp add: default_identity_def)+
  from p show "validate_policy_url demo_location (ic_policy_url default_identity) = Inr ()"
    unfolding validate_policy_url_def by (simp add: demo_location_def default_identity_def)
  from c show "validate_contact demo_location (ic_contact default_identity) = Inr ()"
    unfolding validate_contact_def validate_policy_url_def by (simp add: demo_location_def default_identity_def starts_with_def)
qed

lemma default_policy_valid: "ingestion_validate demo_ingestion (default_policy n) = Inr (default_policy n)"
proof -
  have n: "nonempty ''585.1''" "nonempty ''Initial empty lists; founder review pending''" "nonempty ''Story #585''"
    by (rule nonempty_printable; simp)+
  have b: "block_representable demo_ingestion 86400"
    by (simp add: block_representable_def demo_ingestion_def utc_wall_def i64_seconds_max_def Let_def)
  show ?thesis
    using n b demo_locations
    by (simp add: validate_iff politeness_iff schema_iff default_policy_def default_politeness_def default_exclusions_def default_retention_def
        default_serving_policy_def demo_ingestion_def validate_change_log_def validate_codes_def validate_provider_def res_then_unit content_locations_def
        validate_retention_bounds_def HARD_MIN_HOST_GAP_MS_def HARD_MAX_HOST_CONCURRENCY_def MIN_BLOCK_SECS_def MAX_ROBOTS_CACHE_SECS_def
        DEFAULT_HOST_GAP_MS_def DEFAULT_HOST_CONCURRENCY_def)
qed


end
