(* ===== verification/Directives.thy ===== *)
theory Directives
  imports Network_Scope
begin

text \<open>
  Publisher directives and rights signals (\<open>core/src/crawler/directives.rs\<close>): the values of the headers and of the meta
  elements, their effect, and the restrictive merge of effects. A document is what the two static selectors return of it, its
  meta elements and its elements with a \<open>rel\<close> attribute, each a map of attributes. The two date parsers are chrono's and a
  parameter; instants are integers.
\<close>

section \<open>Restrictions\<close>

definition MAX_DIRECTIVES :: nat where "MAX_DIRECTIVES = 256"

datatype directive_source = Header_Source | Meta_Robots | Meta_Bot

datatype directive_name = Noindex | Nofollow | Noarchive | Nosnippet | Max_Snippet | Noimageindex | Unavailable_After
  | None_Directive | All_Directive | Index | Follow | Invalid_Directive | Unknown string

datatype directive_value = Flag | Snippet_Limit "nat option" | Date_Value int | Invalid_Value

datatype directive_error = InvalidHeaderBytes | InvalidSnippet | InvalidDate | DirectiveLimit | InvalidReservation | InvalidSignalUrl

record directive_observation =
  do_source :: directive_source
  do_name :: directive_name
  do_value :: directive_value
  do_applies :: bool
  do_parse_error :: "directive_error option"

record effective_directives =
  ef_noindex :: bool
  ef_nofollow :: bool
  ef_noarchive :: bool
  ef_nosnippet :: bool
  ef_noimageindex :: bool
  ef_max_snippet :: "nat option"
  ef_unavailable_after :: "int option"
  ef_invalid_unavailable_after :: bool
  ef_limit_exceeded :: bool

definition no_restriction :: effective_directives where
  "no_restriction = \<lparr> ef_noindex = False, ef_nofollow = False, ef_noarchive = False, ef_nosnippet = False, ef_noimageindex = False,
     ef_max_snippet = None, ef_unavailable_after = None, ef_invalid_unavailable_after = False, ef_limit_exceeded = False \<rparr>"

fun minimum :: "'a::linorder option \<Rightarrow> 'a option \<Rightarrow> 'a option" where
  "minimum (Some a) (Some b) = Some (min a b)"
| "minimum None b = b"
| "minimum (Some a) None = Some a"

definition restrictive_merge :: "effective_directives \<Rightarrow> effective_directives \<Rightarrow> effective_directives" where
  "restrictive_merge a b =
     \<lparr> ef_noindex = (ef_noindex a \<or> ef_noindex b), ef_nofollow = (ef_nofollow a \<or> ef_nofollow b),
       ef_noarchive = (ef_noarchive a \<or> ef_noarchive b), ef_nosnippet = (ef_nosnippet a \<or> ef_nosnippet b),
       ef_noimageindex = (ef_noimageindex a \<or> ef_noimageindex b), ef_max_snippet = minimum (ef_max_snippet a) (ef_max_snippet b),
       ef_unavailable_after = minimum (ef_unavailable_after a) (ef_unavailable_after b),
       ef_invalid_unavailable_after = (ef_invalid_unavailable_after a \<or> ef_invalid_unavailable_after b),
       ef_limit_exceeded = (ef_limit_exceeded a \<or> ef_limit_exceeded b) \<rparr>"

definition index_eligible :: "effective_directives \<Rightarrow> int \<Rightarrow> bool" where
  "index_eligible e now \<longleftrightarrow> \<not> ef_noindex e \<and> \<not> ef_invalid_unavailable_after e \<and> \<not> ef_limit_exceeded e
     \<and> (case ef_unavailable_after e of None \<Rightarrow> True | Some deadline \<Rightarrow> now < deadline)"

definition snippet_limit :: "effective_directives \<Rightarrow> nat \<Rightarrow> bool \<Rightarrow> bool \<Rightarrow> bool \<Rightarrow> nat" where
  "snippet_limit e local_limit news paywall publisher_permission =
     (if ef_nosnippet e \<or> ef_limit_exceeded e \<or> ((news \<or> paywall) \<and> \<not> publisher_permission) then 0
      else min (min local_limit 300) (case ef_max_snippet e of None \<Rightarrow> 2 ^ 64 - 1 | Some n \<Rightarrow> n))"

section \<open>Rights\<close>

datatype tdm_reservation = Absent | NotReserved | Reserved | Invalid_Reservation

record rights_signals =
  rs_license_urls :: "string list"
  rs_license_present :: bool
  rs_tdm_reservation :: tdm_reservation
  rs_tdm_policy_urls :: "string list"
  rs_tdm_policy_present :: bool
  rs_header_source :: bool
  rs_meta_source :: bool
  rs_link_source :: bool
  rs_parse_errors :: "directive_error list"

definition no_rights :: rights_signals where
  "no_rights = \<lparr> rs_license_urls = [], rs_license_present = False, rs_tdm_reservation = Absent, rs_tdm_policy_urls = [],
     rs_tdm_policy_present = False, rs_header_source = False, rs_meta_source = False, rs_link_source = False, rs_parse_errors = [] \<rparr>"

definition index_only :: "rights_signals \<Rightarrow> bool" where
  "index_only r \<longleftrightarrow> rs_license_present r \<or> rs_tdm_policy_present r \<or> rs_tdm_reservation r \<in> {Reserved, Invalid_Reservation}"

fun merge_reservation :: "tdm_reservation \<Rightarrow> tdm_reservation \<Rightarrow> tdm_reservation" where
  "merge_reservation Absent b = b"
| "merge_reservation a Absent = a"
| "merge_reservation NotReserved NotReserved = NotReserved"
| "merge_reservation Reserved Reserved = Reserved"
| "merge_reservation _ _ = Invalid_Reservation"

definition push_new :: "'a \<Rightarrow> 'a list \<Rightarrow> 'a list" where
  "push_new x xs = (if x \<in> set xs then xs else xs @ [x])"

abbreviation add_error :: "directive_error \<Rightarrow> directive_error list \<Rightarrow> directive_error list" where
  "add_error \<equiv> push_new"

definition rights_merge :: "rights_signals \<Rightarrow> rights_signals \<Rightarrow> rights_signals" where
  "rights_merge a b =
     (let urls = fold push_new (rs_license_urls b) (rs_license_urls a);
          policies = fold push_new (rs_tdm_policy_urls b) (rs_tdm_policy_urls a);
          errors = fold add_error (rs_parse_errors b) (rs_parse_errors a);
          over = length urls > MAX_DIRECTIVES \<or> length policies > MAX_DIRECTIVES
      in \<lparr> rs_license_urls = (if over then take MAX_DIRECTIVES urls else urls),
           rs_license_present = (rs_license_present a \<or> rs_license_present b),
           rs_tdm_reservation = merge_reservation (rs_tdm_reservation a) (rs_tdm_reservation b),
           rs_tdm_policy_urls = (if over then take MAX_DIRECTIVES policies else policies),
           rs_tdm_policy_present = (rs_tdm_policy_present a \<or> rs_tdm_policy_present b),
           rs_header_source = (rs_header_source a \<or> rs_header_source b),
           rs_meta_source = (rs_meta_source a \<or> rs_meta_source b),
           rs_link_source = (rs_link_source a \<or> rs_link_source b),
           rs_parse_errors = (if over then add_error DirectiveLimit errors else errors) \<rparr>)"

record parsed_directives =
  pd_effective :: effective_directives
  pd_seen :: "directive_observation list"
  pd_rights :: rights_signals
  pd_no_store :: bool

definition no_directives :: parsed_directives where
  "no_directives = \<lparr> pd_effective = no_restriction, pd_seen = [], pd_rights = no_rights, pd_no_store = False \<rparr>"

section \<open>One value\<close>

definition safe_token :: "string \<Rightarrow> bool" where
  "safe_token s \<longleftrightarrow> s \<noteq> [] \<and> length s \<le> 64 \<and> list_all (\<lambda>c. is_ascii_alphanumeric (byte c) \<or> c \<in> set ''_-*'') s"

definition directive_name_of :: "string \<Rightarrow> directive_name" where
  "directive_name_of s =
     (let key = map (\<lambda>c. if c = CHR ''_'' then CHR ''-'' else c) (to_ascii_lowercase s) in
      if key = ''noindex'' then Noindex
      else if key = ''nofollow'' then Nofollow
      else if key = ''noarchive'' then Noarchive
      else if key = ''nosnippet'' then Nosnippet
      else if key = ''max-snippet'' then Max_Snippet
      else if key = ''noimageindex'' then Noimageindex
      else if key = ''unavailable-after'' then Unavailable_After
      else if key = ''none'' then None_Directive
      else if key = ''all'' then All_Directive
      else if key = ''index'' then Index
      else if key = ''follow'' then Follow
      else Unknown (to_ascii_lowercase s))"

definition agent_applies :: "string \<Rightarrow> bool" where
  "agent_applies token \<longleftrightarrow> token = ''*'' \<or> eq_ignore_ascii_case token ''AVASearchBot''"

text \<open>A comma ends a directive when a directive or an agent follows it, not inside a date.\<close>

definition next_token :: "string \<Rightarrow> string" where
  "next_token rest = trim (takeWhile (\<lambda>c. c \<noteq> CHR '','' \<and> c \<noteq> CHR '':'') (trim_start rest))"

fun split_from :: "string \<Rightarrow> string \<Rightarrow> string list" where
  "split_from part [] = [trim part]"
| "split_from part (c # cs) =
     (if c = CHR '','' \<and> safe_token (next_token cs) then trim part # split_from [] cs else split_from (part @ [c]) cs)"

definition split_directives :: "string \<Rightarrow> string list" where
  "split_directives value = split_from [] value"

record date_lib =
  dl_rfc3339 :: "string \<Rightarrow> int option"
  dl_rfc2822 :: "string \<Rightarrow> int option"

definition ascii_space :: "char \<Rightarrow> bool" where
  "ascii_space c \<longleftrightarrow> byte c \<in> {32, 9, 10, 12, 13 :: nat}"

fun split_ascii_whitespace :: "string \<Rightarrow> string list" where
  "split_ascii_whitespace [] = []"
| "split_ascii_whitespace (c # cs) =
     (if ascii_space c then split_ascii_whitespace cs
      else (case split_ascii_whitespace cs of
              [] \<Rightarrow> [[c]]
            | w # ws \<Rightarrow> if cs \<noteq> [] \<and> ascii_space (hd cs) then [c] # w # ws else (c # w) # ws))"

definition validate_unavailable_after_timezone :: "date_lib \<Rightarrow> string \<Rightarrow> int option" where
  "validate_unavailable_after_timezone D value =
     (case dl_rfc3339 D value of
        Some date \<Rightarrow> Some date
      | None \<Rightarrow>
          (if split_ascii_whitespace value = [] then None
           else
             (let zone = last (split_ascii_whitespace value);
                  explicit = zone = ''GMT'' \<or> zone = ''UTC''
                    \<or> (length zone = 5 \<and> zone ! 0 \<in> {CHR ''+'', CHR ''-''} \<and> list_all (\<lambda>c. is_ascii_digit (byte c)) (drop 1 zone))
              in if explicit then dl_rfc2822 D value else None)))"

definition max_snippet_effect :: "string \<Rightarrow> effective_directives \<times> directive_error option \<times> directive_value" where
  "max_snippet_effect value =
     (if value = ''-1'' then (no_restriction, None, Snippet_Limit None)
      else
        (let invalid = (no_restriction\<lparr> ef_max_snippet := Some 0 \<rparr>, Some InvalidSnippet, Invalid_Value) in
         if value \<noteq> [] \<and> list_all (\<lambda>c. is_ascii_digit (byte c)) value
         then (case parse_u64 value of
                 Some limit \<Rightarrow> (no_restriction\<lparr> ef_max_snippet := Some limit \<rparr>, None, Snippet_Limit (Some limit))
               | None \<Rightarrow> invalid)
         else invalid))"

definition directive_effect :: "date_lib \<Rightarrow> directive_name \<Rightarrow> string \<Rightarrow> effective_directives \<times> directive_error option \<times> directive_value" where
  "directive_effect D name value =
     (case name of
        Noindex \<Rightarrow> (no_restriction\<lparr> ef_noindex := True \<rparr>, None, Flag)
      | Nofollow \<Rightarrow> (no_restriction\<lparr> ef_nofollow := True \<rparr>, None, Flag)
      | Noarchive \<Rightarrow> (no_restriction\<lparr> ef_noarchive := True \<rparr>, None, Flag)
      | Nosnippet \<Rightarrow> (no_restriction\<lparr> ef_nosnippet := True \<rparr>, None, Flag)
      | Noimageindex \<Rightarrow> (no_restriction\<lparr> ef_noimageindex := True \<rparr>, None, Flag)
      | None_Directive \<Rightarrow> (no_restriction\<lparr> ef_noindex := True, ef_nofollow := True \<rparr>, None, Flag)
      | Max_Snippet \<Rightarrow> max_snippet_effect (trim value)
      | Unavailable_After \<Rightarrow>
          (case validate_unavailable_after_timezone D (trim value) of
             Some date \<Rightarrow> (no_restriction\<lparr> ef_unavailable_after := Some date \<rparr>, None, Date_Value date)
           | None \<Rightarrow> (no_restriction\<lparr> ef_invalid_unavailable_after := True \<rparr>, Some InvalidDate, Invalid_Value))
      | _ \<Rightarrow> (no_restriction, None, Flag))"

text \<open>The scope a header segment opens, and the segment without its agent.\<close>

definition segment_scope :: "directive_source \<Rightarrow> bool \<Rightarrow> string \<Rightarrow> bool \<times> string" where
  "segment_scope source applies segment =
     (if source = Header_Source then
        (case split_once CHR '':'' segment of
           Some (prefix, rest) \<Rightarrow>
             (if safe_token (trim prefix) \<and> (case directive_name_of (trim prefix) of Unknown _ \<Rightarrow> True | _ \<Rightarrow> False)
              then (agent_applies (trim prefix), trim rest) else (applies, segment))
         | None \<Rightarrow> (applies, segment))
      else (applies, segment))"

definition named_part :: "string \<Rightarrow> string \<times> string" where
  "named_part segment = (case split_once CHR '':'' segment of Some q \<Rightarrow> q | None \<Rightarrow> (segment, []))"

definition parse_segment :: "date_lib \<Rightarrow> directive_source \<Rightarrow> bool \<times> parsed_directives \<Rightarrow> string \<Rightarrow> bool \<times> parsed_directives" where
  "parse_segment D source st segment =
     (let scope = segment_scope source (fst st) segment; applies = fst scope; p = snd st;
          named = named_part (snd scope);
          token = trim (fst named)
      in if \<not> safe_token token then (applies, p)
         else if length (pd_seen p) + 1 > MAX_DIRECTIVES
         then (applies, p\<lparr> pd_effective := (pd_effective p)\<lparr> ef_limit_exceeded := True \<rparr> \<rparr>)
         else
           (let name = directive_name_of token; r = directive_effect D name (snd named) in
            (applies,
             p\<lparr> pd_effective := (if applies then restrictive_merge (pd_effective p) (fst r) else pd_effective p),
                pd_seen := pd_seen p @ [\<lparr> do_source = source, do_name = name, do_value = snd (snd r), do_applies = applies,
                  do_parse_error = fst (snd r) \<rparr>] \<rparr>)))"

definition parse_value :: "date_lib \<Rightarrow> parsed_directives \<Rightarrow> string \<Rightarrow> directive_source \<Rightarrow> parsed_directives" where
  "parse_value D p value source = snd (foldl (parse_segment D source) (True, p) (split_directives value))"

section \<open>Headers and documents\<close>

definition reservation :: "string \<Rightarrow> rights_signals \<Rightarrow> rights_signals" where
  "reservation value r =
     (let declared = (if trim value = ''0'' then NotReserved else if trim value = ''1'' then Reserved else Invalid_Reservation);
          merged = merge_reservation (rs_tdm_reservation r) declared
      in r\<lparr> rs_tdm_reservation := merged,
            rs_parse_errors := (if merged = Invalid_Reservation then add_error InvalidReservation (rs_parse_errors r) else rs_parse_errors r) \<rparr>)"

definition signal_url :: "url_lib \<Rightarrow> web_url \<Rightarrow> string \<Rightarrow> string option" where
  "signal_url U base raw =
     (if raw = [] \<or> length raw > 8192 \<or> list_ex (\<lambda>c. is_control c \<or> is_whitespace c) (chars raw) then None
      else
        (case ul_join U base raw of
           None \<Rightarrow> None
         | Some url \<Rightarrow> if \<not> (wu_scheme url = ''http'' \<or> wu_scheme url = ''https'') \<or> wu_host url = None then None else Some (ul_safe U url)))"

definition push_signal :: "url_lib \<Rightarrow> web_url \<Rightarrow> string \<Rightarrow> string list \<times> directive_error list \<Rightarrow> string list \<times> directive_error list" where
  "push_signal U base value st =
     (case st of (urls, errors) \<Rightarrow>
        if length urls \<ge> MAX_DIRECTIVES then (urls, add_error DirectiveLimit errors)
        else (case signal_url U base value of
                Some url \<Rightarrow> (push_new url urls, errors)
              | None \<Rightarrow> (urls, add_error InvalidSignalUrl errors)))"

definition push_policy :: "url_lib \<Rightarrow> web_url \<Rightarrow> string \<Rightarrow> rights_signals \<Rightarrow> rights_signals" where
  "push_policy U base value r =
     (case push_signal U base value (rs_tdm_policy_urls r, rs_parse_errors r) of (urls, errors) \<Rightarrow>
        r\<lparr> rs_tdm_policy_present := True, rs_tdm_policy_urls := urls, rs_parse_errors := errors \<rparr>)"

definition push_license :: "url_lib \<Rightarrow> web_url \<Rightarrow> string \<Rightarrow> rights_signals \<Rightarrow> rights_signals" where
  "push_license U base value r =
     (case push_signal U base value (rs_license_urls r, rs_parse_errors r) of (urls, errors) \<Rightarrow>
        r\<lparr> rs_license_present := True, rs_license_urls := urls, rs_parse_errors := errors \<rparr>)"

definition no_store_header :: "response_headers \<Rightarrow> bool" where
  "no_store_header H \<longleftrightarrow> headers_invalid H ''cache-control''
     \<or> list_ex (\<lambda>part. eq_ignore_ascii_case (trim (hd (split_on CHR ''='' part))) ''no-store'')
         (concat (map (split_on CHR '','') (headers_all H ''cache-control'')))"

definition reservation_headers :: "response_headers \<Rightarrow> rights_signals" where
  "reservation_headers H = foldl (\<lambda>r v. reservation v (r\<lparr> rs_header_source := True \<rparr>)) no_rights (headers_all H ''tdm-reservation'')"

definition invalid_rights_headers :: "response_headers \<Rightarrow> rights_signals \<Rightarrow> rights_signals" where
  "invalid_rights_headers H r =
     (let r1 = (if headers_invalid H ''tdm-reservation''
                then r\<lparr> rs_header_source := True, rs_tdm_reservation := Reserved, rs_parse_errors := add_error InvalidHeaderBytes (rs_parse_errors r) \<rparr>
                else r)
      in if headers_invalid H ''tdm-policy''
         then r1\<lparr> rs_header_source := True, rs_tdm_policy_present := True, rs_parse_errors := add_error InvalidHeaderBytes (rs_parse_errors r1) \<rparr>
         else r1)"

definition header_rights :: "url_lib \<Rightarrow> response_headers \<Rightarrow> web_url \<Rightarrow> rights_signals" where
  "header_rights U H final_url =
     foldl (\<lambda>r v. push_policy U final_url (trim v) (r\<lparr> rs_header_source := True \<rparr>))
       (invalid_rights_headers H (reservation_headers H)) (headers_all H ''tdm-policy'')"

definition header_start :: "response_headers \<Rightarrow> parsed_directives" where
  "header_start H =
     (if headers_invalid H ''x-robots-tag''
      then no_directives\<lparr> pd_effective := no_restriction\<lparr> ef_noindex := True, ef_nofollow := True \<rparr>,
             pd_seen := [\<lparr> do_source = Header_Source, do_name = Invalid_Directive, do_value = Invalid_Value, do_applies = True,
               do_parse_error = Some InvalidHeaderBytes \<rparr>] \<rparr>
      else no_directives)"

definition parse_headers :: "date_lib \<Rightarrow> url_lib \<Rightarrow> response_headers \<Rightarrow> web_url \<Rightarrow> parsed_directives" where
  "parse_headers D U H final_url =
     (foldl (\<lambda>p v. parse_value D p v Header_Source) (header_start H) (headers_all H ''x-robots-tag''))
       \<lparr> pd_no_store := no_store_header H, pd_rights := header_rights U H final_url \<rparr>"

type_synonym attributes = "string \<rightharpoonup> string"

record html_document =
  hd_metas :: "attributes list"
  hd_rels :: "attributes list"

definition meta_source :: "string \<Rightarrow> directive_source option" where
  "meta_source name =
     (if eq_ignore_ascii_case name ''robots'' then Some Meta_Robots
      else if eq_ignore_ascii_case name ''AVASearchBot'' then Some Meta_Bot else None)"

definition parse_meta_element :: "date_lib \<Rightarrow> parsed_directives \<Rightarrow> attributes \<Rightarrow> parsed_directives" where
  "parse_meta_element D p attrs =
     (case Option.bind (attrs ''name'') meta_source of
        None \<Rightarrow> p
      | Some source \<Rightarrow> (case attrs ''content'' of Some value \<Rightarrow> parse_value D p value source | None \<Rightarrow> p))"

definition parse_meta_into :: "date_lib \<Rightarrow> html_document \<Rightarrow> parsed_directives \<Rightarrow> parsed_directives" where
  "parse_meta_into D root p = foldl (parse_meta_element D) p (hd_metas root)"

definition parse_meta :: "date_lib \<Rightarrow> html_document \<Rightarrow> parsed_directives" where
  "parse_meta D root = parse_meta_into D root no_directives"

definition meta_rights :: "url_lib \<Rightarrow> web_url \<Rightarrow> rights_signals \<Rightarrow> attributes \<Rightarrow> rights_signals" where
  "meta_rights U final_url r attrs =
     (case attrs ''name'' of
        None \<Rightarrow> r
      | Some name \<Rightarrow>
          (let value = (case attrs ''content'' of Some v \<Rightarrow> v | None \<Rightarrow> []);
               r1 = (if eq_ignore_ascii_case name ''tdm-reservation'' then reservation value (r\<lparr> rs_meta_source := True \<rparr>) else r)
           in if eq_ignore_ascii_case name ''tdm-policy'' then push_policy U final_url value (r1\<lparr> rs_meta_source := True \<rparr>) else r1))"

definition rel_token_rights :: "url_lib \<Rightarrow> web_url \<Rightarrow> string \<Rightarrow> rights_signals \<Rightarrow> string \<Rightarrow> rights_signals" where
  "rel_token_rights U final_url href r token =
     (let r1 = (if eq_ignore_ascii_case token ''license'' then push_license U final_url href (r\<lparr> rs_link_source := True \<rparr>) else r)
      in if eq_ignore_ascii_case token ''tdm-policy'' then push_policy U final_url href (r1\<lparr> rs_link_source := True \<rparr>) else r1)"

definition rel_rights :: "url_lib \<Rightarrow> web_url \<Rightarrow> rights_signals \<Rightarrow> attributes \<Rightarrow> rights_signals" where
  "rel_rights U final_url r attrs =
     (let text = (\<lambda>key. case attrs key of Some v \<Rightarrow> v | None \<Rightarrow> [])
      in foldl (rel_token_rights U final_url (text ''href'')) r (split_ascii_whitespace (text ''rel'')))"

definition parse_document :: "date_lib \<Rightarrow> url_lib \<Rightarrow> html_document \<Rightarrow> response_headers \<Rightarrow> web_url \<Rightarrow> parsed_directives" where
  "parse_document D U root H final_url =
     (let p = parse_meta_into D root (parse_headers D U H final_url);
          r = foldl (rel_rights U final_url) (foldl (meta_rights U final_url) (pd_rights p) (hd_metas root)) (hd_rels root)
      in p\<lparr> pd_rights := r \<rparr>)"

section \<open>The merge is a join\<close>

lemma minimum_comm: "minimum a b = minimum b a"
  by (cases a; cases b) (auto simp: min.commute)

lemma minimum_assoc: "minimum (minimum a b) c = minimum a (minimum b c)"
  by (cases a; cases b; cases c) (auto simp: min.assoc)

lemma minimum_simps [simp]: "minimum a a = a" "minimum a None = a"
  by (cases a; simp)+

lemma minimum_Some: "minimum (Some a) b = b \<longleftrightarrow> (\<exists>n. b = Some n \<and> n \<le> a)"
  by (cases b) (auto simp: min_def split: if_splits)

interpretation restrict: semilattice_neutr restrictive_merge no_restriction
  by unfold_locales (auto simp: restrictive_merge_def no_restriction_def minimum_assoc intro: minimum_comm)

text \<open>One set of restrictions is contained in another.\<close>

definition restricts :: "effective_directives \<Rightarrow> effective_directives \<Rightarrow> bool" where
  "restricts e f \<longleftrightarrow> restrictive_merge e f = f"

lemma restricts_trans: "restricts e f \<Longrightarrow> restricts f g \<Longrightarrow> restricts e g"
  unfolding restricts_def by (metis restrict.assoc)

lemma restricts_merge: "restricts e (restrictive_merge e f)" "restricts f (restrictive_merge e f)"
  unfolding restricts_def by (metis restrict.assoc restrict.idem, metis restrict.assoc restrict.commute restrict.idem)

lemma restricts_refl [simp]: "restricts e e"
  by (simp add: restricts_def)

lemma limit_is_merge: "e\<lparr> ef_limit_exceeded := True \<rparr> = restrictive_merge e (no_restriction\<lparr> ef_limit_exceeded := True \<rparr>)"
  by (simp add: restrictive_merge_def no_restriction_def)

lemma restricts_fields:
  assumes "restricts e f"
  shows "ef_noindex e \<Longrightarrow> ef_noindex f" "ef_nofollow e \<Longrightarrow> ef_nofollow f" "ef_noarchive e \<Longrightarrow> ef_noarchive f" "ef_nosnippet e \<Longrightarrow> ef_nosnippet f"
    "ef_noimageindex e \<Longrightarrow> ef_noimageindex f" "ef_invalid_unavailable_after e \<Longrightarrow> ef_invalid_unavailable_after f"
    "ef_limit_exceeded e \<Longrightarrow> ef_limit_exceeded f"
    "ef_max_snippet e = Some n \<Longrightarrow> \<exists>m. ef_max_snippet f = Some m \<and> m \<le> n"
    "ef_unavailable_after e = Some t \<Longrightarrow> \<exists>u. ef_unavailable_after f = Some u \<and> u \<le> t"
  using assms by (cases e; cases f; auto simp: restricts_def restrictive_merge_def minimum_Some)+

lemma eligible_antitone: "restricts e f \<Longrightarrow> index_eligible f now \<Longrightarrow> index_eligible e now"
  unfolding index_eligible_def
  by (auto dest: restricts_fields split: option.splits)

lemma snippet_antitone:
  assumes "restricts e f"
  shows "snippet_limit f l news paywall permitted \<le> snippet_limit e l news paywall permitted"
proof -
  have "(case ef_max_snippet f of None \<Rightarrow> 2 ^ 64 - 1 | Some n \<Rightarrow> n) \<le> (case ef_max_snippet e of None \<Rightarrow> 2 ^ 64 - 1 | Some n \<Rightarrow> n) \<or> ef_max_snippet e = None"
    using restricts_fields(8) [OF assms] by (cases "ef_max_snippet e") auto
  then show ?thesis
    using restricts_fields(4,7) [OF assms] by (auto simp: snippet_limit_def min_def split: option.splits)
qed

lemma snippet_cap: "ef_max_snippet e = Some m \<Longrightarrow> snippet_limit e l news paywall permitted \<le> m"
  by (simp add: snippet_limit_def)

section \<open>Declarations\<close>

text \<open>The directives of a value with their scope, whatever has been seen before.\<close>

type_synonym directive_decl = "bool \<times> directive_name \<times> string"

fun scoped :: "directive_source \<Rightarrow> bool \<Rightarrow> string list \<Rightarrow> directive_decl list" where
  "scoped source applies [] = []"
| "scoped source applies (segment # segments) =
     (let scope = segment_scope source applies segment;
          named = named_part (snd scope);
          token = trim (fst named)
      in (if safe_token token then [(fst scope, directive_name_of token, snd named)] else []) @ scoped source (fst scope) segments)"

definition declared :: "directive_source \<Rightarrow> string \<Rightarrow> (directive_source \<times> directive_decl) list" where
  "declared source value = map (Pair source) (scoped source True (split_directives value))"

fun record_directive :: "date_lib \<Rightarrow> parsed_directives \<Rightarrow> directive_source \<times> directive_decl \<Rightarrow> parsed_directives" where
  "record_directive D p (source, applies, name, value) =
     (if length (pd_seen p) + 1 > MAX_DIRECTIVES
      then p\<lparr> pd_effective := (pd_effective p)\<lparr> ef_limit_exceeded := True \<rparr> \<rparr>
      else
        (let r = directive_effect D name value in
         p\<lparr> pd_effective := (if applies then restrictive_merge (pd_effective p) (fst r) else pd_effective p),
            pd_seen := pd_seen p @ [\<lparr> do_source = source, do_name = name, do_value = snd (snd r), do_applies = applies,
              do_parse_error = fst (snd r) \<rparr>] \<rparr>))"

lemma parse_segments_recorded:
  "snd (foldl (parse_segment D source) (applies, p) segments) = foldl (record_directive D) p (map (Pair source) (scoped source applies segments))"
proof (induction segments arbitrary: applies p)
  case (Cons segment segments)
  obtain a rest where scope: "segment_scope source applies segment = (a, rest)" by force
  obtain token v where named: "named_part rest = (token, v)" by force
  show ?case using Cons [of a] by (auto simp: parse_segment_def Let_def scope named)
qed simp

lemma parse_value_recorded: "parse_value D p value source = foldl (record_directive D) p (declared source value)"
  by (simp add: parse_value_def declared_def parse_segments_recorded)

definition meta_declared :: "attributes \<Rightarrow> (directive_source \<times> directive_decl) list" where
  "meta_declared attrs =
     (case (Option.bind (attrs ''name'') meta_source, attrs ''content'') of
        (Some source, Some value) \<Rightarrow> declared source value
      | _ \<Rightarrow> [])"

definition declarations :: "html_document \<Rightarrow> response_headers \<Rightarrow> (directive_source \<times> directive_decl) list" where
  "declarations root H =
     concat (map (declared Header_Source) (headers_all H ''x-robots-tag'')) @ concat (map meta_declared (hd_metas root))"

lemma foldl_concat: "foldl f s (concat xss) = foldl (\<lambda>s xs. foldl f s xs) s xss"
  by (induction xss arbitrary: s) auto

lemma record_rights [simp]:
  "foldl (record_directive D) (p\<lparr> pd_no_store := b, pd_rights := r \<rparr>) ds = (foldl (record_directive D) p ds)\<lparr> pd_no_store := b, pd_rights := r \<rparr>"
proof (induction ds arbitrary: p)
  case (Cons d ds)
  have "record_directive D (p\<lparr> pd_no_store := b, pd_rights := r \<rparr>) d = (record_directive D p d)\<lparr> pd_no_store := b, pd_rights := r \<rparr>"
    by (cases d) (simp add: Let_def)
  with Cons show ?case by simp
qed simp

lemma parse_document_recorded:
  "pd_effective (parse_document D U root H url) = pd_effective (foldl (record_directive D) (header_start H) (declarations root H))"
  "pd_seen (parse_document D U root H url) = pd_seen (foldl (record_directive D) (header_start H) (declarations root H))"
proof -
  have metas: "parse_meta_into D root p = foldl (record_directive D) p (concat (map meta_declared (hd_metas root)))" for p
  proof -
    have "parse_meta_element D = (\<lambda>p attrs. foldl (record_directive D) p (meta_declared attrs))"
      by (intro ext) (auto simp: parse_meta_element_def meta_declared_def parse_value_recorded split: option.splits)
    then show ?thesis by (simp add: parse_meta_into_def foldl_concat foldl_map)
  qed
  have "foldl (\<lambda>p v. parse_value D p v Header_Source) p vs = foldl (record_directive D) p (concat (map (declared Header_Source) vs))" for p vs
    by (simp add: parse_value_recorded foldl_concat foldl_map)
  then show "pd_effective (parse_document D U root H url) = pd_effective (foldl (record_directive D) (header_start H) (declarations root H))"
    "pd_seen (parse_document D U root H url) = pd_seen (foldl (record_directive D) (header_start H) (declarations root H))"
    by (simp_all add: parse_document_def parse_headers_def metas declarations_def Let_def)
qed

lemma meta_into_rights: "pd_rights (parse_meta_into D root q) = pd_rights q"
proof -
  have "pd_rights (record_directive D p d) = pd_rights p" for p d by (cases d) (simp add: Let_def)
  then have f: "pd_rights (foldl (record_directive D) p ds) = pd_rights p" for p ds by (induction ds arbitrary: p) simp_all
  have "pd_rights (parse_meta_element D p attrs) = pd_rights p" for p attrs
    by (simp add: parse_meta_element_def parse_value_recorded f split: option.splits)
  then have "pd_rights (foldl (parse_meta_element D) p as) = pd_rights p" for p as by (induction as arbitrary: p) simp_all
  then show ?thesis by (simp add: parse_meta_into_def)
qed

section \<open>What the declarations come to\<close>

fun decl_effect :: "date_lib \<Rightarrow> directive_source \<times> directive_decl \<Rightarrow> effective_directives" where
  "decl_effect D (source, applies, name, value) = (if applies then fst (directive_effect D name value) else no_restriction)"

definition joined :: "date_lib \<Rightarrow> (directive_source \<times> directive_decl) list \<Rightarrow> effective_directives" where
  "joined D ds = foldr (\<lambda>d. restrictive_merge (decl_effect D d)) ds no_restriction"

lemma restricts_antisym: "restricts e f \<Longrightarrow> restricts f e \<Longrightarrow> e = f"
  unfolding restricts_def by (metis restrict.commute)

lemma restricts_merge_iff: "restricts (restrictive_merge e f) g \<longleftrightarrow> restricts e g \<and> restricts f g"
  unfolding restricts_def by (metis restrict.assoc restrict.left_commute restrict.left_idem)

lemma restricts_none [simp]: "restricts no_restriction e"
  by (simp add: restricts_def)

lemma joined_least: "restricts (joined D ds) e \<longleftrightarrow> (\<forall>d \<in> set ds. restricts (decl_effect D d) e)"
  by (induction ds) (auto simp: joined_def restricts_merge_iff)

lemma joined_set:
  assumes "decl_effect D ` set ds = decl_effect D ` set ds'"
  shows "joined D ds = joined D ds'"
proof -
  have j: "restricts (joined D ds) e \<longleftrightarrow> (\<forall>x \<in> decl_effect D ` set ds. restricts x e)" for e ds by (simp add: joined_least)
  have "restricts (joined D ds) e \<longleftrightarrow> restricts (joined D ds') e" for e by (simp only: j assms)
  then show ?thesis by (blast intro: restricts_antisym restricts_refl)
qed

lemma record_step:
  "length (pd_seen p) < MAX_DIRECTIVES \<Longrightarrow>
    pd_effective (record_directive D p d) = restrictive_merge (pd_effective p) (decl_effect D d) \<and> length (pd_seen (record_directive D p d)) = length (pd_seen p) + 1"
  "\<not> length (pd_seen p) < MAX_DIRECTIVES \<Longrightarrow>
    pd_effective (record_directive D p d) = (pd_effective p)\<lparr> ef_limit_exceeded := True \<rparr> \<and> pd_seen (record_directive D p d) = pd_seen p"
  by (cases d; simp add: Let_def)+

lemma recorded_exact:
  "length (pd_seen p) + length ds \<le> MAX_DIRECTIVES \<Longrightarrow>
    pd_effective (foldl (record_directive D) p ds) = restrictive_merge (pd_effective p) (joined D ds)"
proof (induction ds arbitrary: p)
  case (Cons d ds)
  have r: "pd_effective (record_directive D p d) = restrictive_merge (pd_effective p) (decl_effect D d)"
    "length (pd_seen (record_directive D p d)) = length (pd_seen p) + 1" using record_step(1) [of p D d] Cons.prems by auto
  with Cons.IH [of "record_directive D p d"] Cons.prems show ?case by (simp add: joined_def restrict.assoc)
qed (simp add: joined_def)

lemma recorded_more: "restricts (pd_effective p) (pd_effective (foldl (record_directive D) p ds))"
proof (induction ds arbitrary: p)
  case (Cons d ds)
  have "restricts (pd_effective p) (pd_effective (record_directive D p d))"
    using record_step [of p D d] limit_is_merge restricts_merge(1) by (metis (no_types, lifting))
  then show ?case using Cons [of "record_directive D p d"] restricts_trans by auto
qed simp

lemma recorded_over:
  assumes "length (pd_seen p) + length ds > MAX_DIRECTIVES" and "length (pd_seen p) \<le> MAX_DIRECTIVES"
  shows "ef_limit_exceeded (pd_effective (foldl (record_directive D) p ds))"
  using assms
proof (induction ds arbitrary: p)
  case (Cons d ds)
  show ?case
  proof (cases "length (pd_seen p) < MAX_DIRECTIVES")
    case True
    with record_step(1) [OF True, of D d] Cons show ?thesis by simp
  next
    case False
    have "ef_limit_exceeded (pd_effective (record_directive D p d))" using record_step(2) [OF False, of D d] by simp
    with recorded_more [of "record_directive D p d" D ds] show ?thesis by (auto dest: restricts_fields(7))
  qed
qed simp

lemma recorded_seen: "length (pd_seen p) \<le> MAX_DIRECTIVES \<Longrightarrow> length (pd_seen (foldl (record_directive D) p ds)) \<le> MAX_DIRECTIVES"
proof (induction ds arbitrary: p)
  case (Cons d ds)
  have "length (pd_seen (record_directive D p d)) \<le> MAX_DIRECTIVES" using record_step [of p D d] Cons.prems by force
  with Cons.IH show ?case by simp
qed simp

lemma start_seen: "length (pd_seen (header_start H)) \<le> 1"
  by (simp add: header_start_def no_directives_def)

lemma document_effect:
  assumes "d \<in> set (declarations root H)"
  shows "ef_limit_exceeded (pd_effective (parse_document D U root H url)) \<or> restricts (decl_effect D d) (pd_effective (parse_document D U root H url))"
proof (cases "length (pd_seen (header_start H)) + length (declarations root H) > MAX_DIRECTIVES")
  case True
  moreover have "length (pd_seen (header_start H)) \<le> MAX_DIRECTIVES" using start_seen [of H] by (simp add: MAX_DIRECTIVES_def)
  ultimately show ?thesis using recorded_over by (simp add: parse_document_recorded)
next
  case False
  then have eq: "pd_effective (parse_document D U root H url) = restrictive_merge (pd_effective (header_start H)) (joined D (declarations root H))"
    using recorded_exact by (simp add: parse_document_recorded)
  have "restricts (decl_effect D d) (joined D (declarations root H))"
    using assms joined_least [of D "declarations root H" "joined D (declarations root H)"] by simp
  then show ?thesis unfolding eq by (intro disjI2 restricts_trans [OF _ restricts_merge(2)])
qed

lemma declared_effect_holds:
  assumes "(source, True, name, value) \<in> set (declarations root H)" and "e = pd_effective (parse_document D U root H url)"
  shows "(name \<in> {Noindex, None_Directive} \<longrightarrow> \<not> index_eligible e now)
    \<and> (name = Unavailable_After \<longrightarrow>
        (case validate_unavailable_after_timezone D (trim value) of None \<Rightarrow> True | Some t \<Rightarrow> t \<le> now) \<longrightarrow> \<not> index_eligible e now)
    \<and> (name \<in> {Nofollow, None_Directive} \<longrightarrow> ef_nofollow e \<or> ef_limit_exceeded e)
    \<and> (name = Noarchive \<longrightarrow> ef_noarchive e \<or> ef_limit_exceeded e)
    \<and> (name = Noimageindex \<longrightarrow> ef_noimageindex e \<or> ef_limit_exceeded e)
    \<and> (name = Nosnippet \<longrightarrow> snippet_limit e l news paywall permitted = 0)
    \<and> (name = Max_Snippet \<longrightarrow> trim value \<noteq> ''-1'' \<longrightarrow> snippet_limit e l news paywall permitted
        \<le> (if all_digits (trim value) then (case parse_u64 (trim value) of None \<Rightarrow> 0 | Some n \<Rightarrow> n) else 0))"
proof (cases "ef_limit_exceeded e")
  case True
  then show ?thesis by (simp add: index_eligible_def snippet_limit_def)
next
  case False
  let ?f = "fst (directive_effect D name value)"
  have r: "restricts ?f e" using document_effect [OF assms(1), of D U url] False assms(2) by simp
  note el = eligible_antitone [OF r, of now] and sn = snippet_antitone [OF r, of l news paywall permitted]
  show ?thesis
  proof (intro conjI impI)
    show "\<not> index_eligible e now" if "name \<in> {Noindex, None_Directive}"
      using el that by (auto simp: directive_effect_def index_eligible_def)
    show "\<not> index_eligible e now" if "name = Unavailable_After"
      "case validate_unavailable_after_timezone D (trim value) of None \<Rightarrow> True | Some t \<Rightarrow> t \<le> now"
    proof -
      have "\<not> index_eligible ?f now" using that by (auto simp: directive_effect_def index_eligible_def split: option.splits)
      with el show ?thesis by blast
    qed
    show "ef_nofollow e \<or> ef_limit_exceeded e" if "name \<in> {Nofollow, None_Directive}"
      using restricts_fields(2) [OF r] that by (auto simp: directive_effect_def)
    show "ef_noarchive e \<or> ef_limit_exceeded e" if "name = Noarchive"
      using restricts_fields(3) [OF r] that by (auto simp: directive_effect_def)
    show "ef_noimageindex e \<or> ef_limit_exceeded e" if "name = Noimageindex"
      using restricts_fields(5) [OF r] that by (auto simp: directive_effect_def)
    show "snippet_limit e l news paywall permitted = 0" if "name = Nosnippet"
      using sn that by (simp add: directive_effect_def snippet_limit_def)
    show "snippet_limit e l news paywall permitted \<le> (if all_digits (trim value) then (case parse_u64 (trim value) of None \<Rightarrow> 0 | Some n \<Rightarrow> n) else 0)"
      if "name = Max_Snippet" "trim value \<noteq> ''-1''"
    proof -
      let ?k = "if all_digits (trim value) then (case parse_u64 (trim value) of None \<Rightarrow> 0 | Some n \<Rightarrow> n) else 0"
      have "ef_max_snippet ?f = Some ?k"
        using that by (simp add: directive_effect_def max_snippet_effect_def all_digits_def list_all_iff Let_def split: option.splits)
      from restricts_fields(8) [OF r this] show ?thesis using snippet_cap [of e] order_trans by blast
    qed
  qed
qed

section \<open>Values as publishers write them\<close>

definition blank_byte :: "char \<Rightarrow> bool" where
  "blank_byte c = blank_scalar [c]"

lemma trim_ascii:
  assumes "\<forall>c \<in> set s. byte c < (128 :: nat)"
  shows "trim s = rev (dropWhile blank_byte (rev (dropWhile blank_byte s)))" "trim_start s = dropWhile blank_byte s"
proof -
  have b: "blank_scalar \<circ> (\<lambda>c. [c]) = blank_byte" by (simp add: fun_eq_iff blank_byte_def)
  show "trim s = rev (dropWhile blank_byte (rev (dropWhile blank_byte s)))" "trim_start s = dropWhile blank_byte s"
    by (simp_all add: trim_def trim_start_def scalars_ascii [OF assms] dropWhile_map b rev_map)
qed

text \<open>
  A value is a list of directives separated by a comma and a blank. A directive has a name and may have an argument behind a
  colon; in a header it may be preceded by the agent it and the following directives are for. Names and agents are tokens; an
  argument is text without a comma, and only a known directive has one.
\<close>

record directive_item =
  di_agent :: "string option"
  di_name :: string
  di_arg :: "string option"

definition canonical_name :: "string \<Rightarrow> string" where
  "canonical_name s = map (\<lambda>c. if c = CHR ''_'' then CHR ''-'' else c) (to_ascii_lowercase s)"

definition known_directive :: "string \<Rightarrow> bool" where
  "known_directive s \<longleftrightarrow> canonical_name s \<in> {''noindex'', ''nofollow'', ''noarchive'', ''nosnippet'', ''max-snippet'', ''noimageindex'',
     ''unavailable-after'', ''none'', ''all'', ''index'', ''follow''}"

definition plain_text :: "string \<Rightarrow> bool" where
  "plain_text v \<longleftrightarrow> v \<noteq> [] \<and> \<not> blank_byte (hd v) \<and> \<not> blank_byte (last v) \<and> list_all (\<lambda>c. byte c < (128 :: nat) \<and> c \<noteq> CHR '','') v"

definition item_ok :: "directive_item \<Rightarrow> bool" where
  "item_ok i \<longleftrightarrow> safe_token (di_name i)
     \<and> (case di_agent i of None \<Rightarrow> True | Some a \<Rightarrow> safe_token a \<and> \<not> known_directive a)
     \<and> (case di_arg i of None \<Rightarrow> True | Some v \<Rightarrow> plain_text v \<and> known_directive (di_name i))"

definition directive_text :: "directive_item \<Rightarrow> string" where
  "directive_text i = di_name i @ (case di_arg i of None \<Rightarrow> [] | Some v \<Rightarrow> '': '' @ v)"

definition item_text :: "directive_item \<Rightarrow> string" where
  "item_text i = (case di_agent i of None \<Rightarrow> [] | Some a \<Rightarrow> a @ '': '') @ directive_text i"

fun written :: "directive_item list \<Rightarrow> string" where
  "written [] = []"
| "written [i] = item_text i"
| "written (i # j # items) = item_text i @ '', '' @ written (j # items)"

text \<open>The directives after an agent are for this agent, up to the next one; those before any agent are for everyone.\<close>

definition for_crawler :: "directive_item list \<Rightarrow> bool" where
  "for_crawler items = (case rev (List.map_filter di_agent items) of [] \<Rightarrow> True | a # _ \<Rightarrow> a = ''*'' \<or> eq_ignore_ascii_case a ''AVASearchBot'')"

definition announced :: "html_document \<Rightarrow> response_headers \<Rightarrow> directive_source \<Rightarrow> string \<Rightarrow> bool" where
  "announced root H source value \<longleftrightarrow>
     (case source of
        Header_Source \<Rightarrow> value \<in> set (headers_all H ''x-robots-tag'')
      | Meta_Robots \<Rightarrow> \<exists>attrs \<in> set (hd_metas root). attrs ''content'' = Some value
          \<and> (\<exists>n. attrs ''name'' = Some n \<and> eq_ignore_ascii_case n ''robots'')
      | Meta_Bot \<Rightarrow> \<exists>attrs \<in> set (hd_metas root). attrs ''content'' = Some value
          \<and> (\<exists>n. attrs ''name'' = Some n \<and> eq_ignore_ascii_case n ''AVASearchBot''))"

lemma trim_plain:
  assumes "\<forall>c \<in> set s. byte c < (128 :: nat)" and "s \<noteq> []" and "\<not> blank_byte (hd s)" and "\<not> blank_byte (last s)"
  shows "trim s = s" "trim (CHR '' '' # s) = s" "trim_start (CHR '' '' # s) = s"
proof -
  have b: "blank_byte CHR '' ''" by (simp add: blank_byte_def blank_scalar_def is_whitespace_def)
  have s: "dropWhile blank_byte s = s" using assms(2,3) by (cases s) auto
  have r: "dropWhile blank_byte (rev s) = rev s" using assms(2,4) by (cases s rule: rev_cases) auto
  have a: "\<forall>c \<in> set (CHR '' '' # s). byte c < (128 :: nat)" using assms(1) by simp
  show "trim s = s" using trim_ascii(1) [OF assms(1)] s r by simp
  show "trim (CHR '' '' # s) = s" "trim_start (CHR '' '' # s) = s" using trim_ascii [OF a] b s r by simp_all
qed

lemma safe_token_bytes:
  assumes "safe_token t" and "c \<in> set t"
  shows "byte c < (128 :: nat)" "\<not> blank_byte c" "c \<noteq> CHR '',''" "c \<noteq> CHR '':''"
proof -
  have "is_ascii_alphanumeric (byte c) \<or> c \<in> set ''_-*''" using assms by (auto simp: safe_token_def list_all_iff)
  then show "byte c < (128 :: nat)" "\<not> blank_byte c" "c \<noteq> CHR '',''" "c \<noteq> CHR '':''"
    by (auto simp: is_ascii_alphanumeric_def is_ascii_digit_def is_ascii_lowercase_def is_ascii_uppercase_def blank_byte_def
        blank_scalar_def is_whitespace_def)
qed

lemma safe_token_trim: "safe_token t \<Longrightarrow> trim t = t"
  by (rule trim_plain(1)) (auto simp: safe_token_bytes safe_token_def hd_in_set last_in_set)

lemma next_token_safe:
  assumes "safe_token t" and "\<forall>c \<in> set rest. byte c < (128 :: nat)" and "rest = [] \<or> hd rest \<in> {CHR '','', CHR '':''}"
  shows "next_token (CHR '' '' # t @ rest) = t"
proof -
  have ne: "t \<noteq> []" using assms(1) by (simp add: safe_token_def)
  have a: "\<forall>c \<in> set (CHR '' '' # t @ rest). byte c < (128 :: nat)" using assms(1,2) safe_token_bytes(1) by auto
  have "blank_byte CHR '' ''" by (simp add: blank_byte_def blank_scalar_def is_whitespace_def)
  moreover have "\<not> blank_byte (hd t)" using assms(1) ne safe_token_bytes(2) hd_in_set by blast
  ultimately have "trim_start (CHR '' '' # t @ rest) = t @ rest" using trim_ascii(2) [OF a] ne by (cases t) simp_all
  moreover have "takeWhile (\<lambda>c. c \<noteq> CHR '','' \<and> c \<noteq> CHR '':'') (t @ rest) = t"
    using assms(1,3) safe_token_bytes(3,4) by (cases rest) (auto simp: takeWhile_append)
  ultimately show ?thesis by (simp add: next_token_def safe_token_trim [OF assms(1)])
qed

lemma known_directive_iff: "known_directive s \<longleftrightarrow> \<not> (case directive_name_of s of Unknown _ \<Rightarrow> True | _ \<Rightarrow> False)"
  by (simp add: known_directive_def canonical_name_def directive_name_of_def Let_def)

definition arg_text :: "directive_item \<Rightarrow> string" where
  "arg_text i = (case di_arg i of None \<Rightarrow> [] | Some v \<Rightarrow> CHR '' '' # v)"

lemma trim_empty: "trim [] = []"
  by (simp add: trim_def trim_start_def trim_end_def)

lemma plain_text_trim: "plain_text v \<Longrightarrow> trim (CHR '' '' # v) = v"
  by (rule trim_plain(2)) (auto simp: plain_text_def list_all_iff)

lemma arg_text_trim: "item_ok i \<Longrightarrow> trim (arg_text i) = (case di_arg i of None \<Rightarrow> [] | Some v \<Rightarrow> v)"
  by (auto simp: arg_text_def item_ok_def plain_text_trim trim_empty split: option.splits)

lemma directive_text_bytes:
  assumes "item_ok i"
  shows "\<forall>c \<in> set (directive_text i). byte c < (128 :: nat) \<and> c \<noteq> CHR '',''" "directive_text i \<noteq> []"
    "\<not> blank_byte (hd (directive_text i))" "\<not> blank_byte (last (directive_text i))"
proof -
  have t: "safe_token (di_name i)" "di_name i \<noteq> []" using assms by (auto simp: item_ok_def safe_token_def)
  show "directive_text i \<noteq> []" using t by (simp add: directive_text_def)
  show "\<forall>c \<in> set (directive_text i). byte c < (128 :: nat) \<and> c \<noteq> CHR '',''"
    using assms safe_token_bytes [OF t(1)] by (auto simp: directive_text_def item_ok_def plain_text_def list_all_iff split: option.splits)
  show "\<not> blank_byte (hd (directive_text i))" using t safe_token_bytes(2) [OF t(1)] by (simp add: directive_text_def hd_in_set)
  show "\<not> blank_byte (last (directive_text i))"
    using assms t safe_token_bytes(2) [OF t(1)] last_in_set [OF t(2)]
    by (auto simp: directive_text_def item_ok_def plain_text_def split: option.splits)
qed

lemma item_text_shape:
  assumes "item_ok i"
  obtains t rest where "item_text i = t @ rest" "safe_token t" "rest = [] \<or> hd rest = CHR '':''"
  using assms
  by (cases "di_agent i"; cases "di_arg i") (auto simp: item_text_def directive_text_def item_ok_def intro: that [of "di_name i"] that)

lemma item_text_bytes:
  assumes "item_ok i"
  shows "\<forall>c \<in> set (item_text i). byte c < (128 :: nat) \<and> c \<noteq> CHR '',''" "trim (item_text i) = item_text i" "trim (CHR '' '' # item_text i) = item_text i"
proof -
  note d = directive_text_bytes [OF assms]
  have a: "\<forall>c \<in> set a. byte c < (128 :: nat) \<and> c \<noteq> CHR '',''" "a \<noteq> []" "\<not> blank_byte (hd a)" if "di_agent i = Some a" for a
  proof -
    have s: "safe_token a" using assms that by (simp add: item_ok_def)
    then show "\<forall>c \<in> set a. byte c < (128 :: nat) \<and> c \<noteq> CHR '',''" using safe_token_bytes(1,3) by blast
    show "a \<noteq> []" using s by (simp add: safe_token_def)
    then show "\<not> blank_byte (hd a)" using safe_token_bytes(2) [OF s] by simp
  qed
  show b: "\<forall>c \<in> set (item_text i). byte c < (128 :: nat) \<and> c \<noteq> CHR '',''"
  proof (cases "di_agent i")
    case None
    with d(1) show ?thesis by (simp add: item_text_def)
  next
    case (Some x)
    with a(1) [OF Some] d(1) show ?thesis by (simp add: item_text_def ball_Un)
  qed
  have "item_text i \<noteq> []" using d(2) by (simp add: item_text_def)
  moreover have "\<not> blank_byte (hd (item_text i))" using d(3) a(2,3) by (cases "di_agent i") (simp_all add: item_text_def)
  moreover have "\<not> blank_byte (last (item_text i))" using d(2,4) by (simp add: item_text_def)
  ultimately show "trim (item_text i) = item_text i" "trim (CHR '' '' # item_text i) = item_text i"
    using b by (simp_all add: trim_plain)
qed

lemma written_bytes: "list_all item_ok items \<Longrightarrow> \<forall>c \<in> set (written items). byte c < (128 :: nat)"
  by (induction items rule: written.induct) (auto dest: item_text_bytes(1))

lemma split_from_skip: "\<forall>c \<in> set t. c \<noteq> CHR '','' \<Longrightarrow> split_from part (t @ rest) = split_from (part @ t) rest"
  by (induction t arbitrary: part) auto

lemma next_written:
  assumes "list_all item_ok (i # items)"
  shows "safe_token (next_token (CHR '' '' # written (i # items)))"
proof -
  obtain t rest where t: "item_text i = t @ rest" "safe_token t" "rest = [] \<or> hd rest = CHR '':''"
    using item_text_shape [of i] assms by auto
  obtain more where w: "written (i # items) = t @ more" "more = [] \<or> hd more \<in> {CHR '','', CHR '':''}"
  proof (cases items)
    case Nil
    with t that [of rest] show thesis by auto
  next
    case (Cons j more)
    with t that [of "rest @ '', '' @ written (j # more)"] show thesis by (cases rest) auto
  qed
  have "\<forall>c \<in> set more. byte c < (128 :: nat)" using written_bytes [OF assms] w(1) by auto
  from next_token_safe [OF t(2) this w(2)] t(2) w(1) show ?thesis by simp
qed

lemma split_written:
  assumes "list_all item_ok items" and "items \<noteq> []"
  shows "split_from [] (written items) = map item_text items" "split_from [] (CHR '' '' # written items) = map item_text items"
proof -
  have "split_from part (written items) = trim (part @ item_text (hd items)) # map item_text (tl items)" for part
    using assms
  proof (induction items arbitrary: part rule: written.induct)
    case (2 i)
    then show ?case using split_from_skip [of "item_text i" part "[]"] item_text_bytes(1) [of i] by simp
  next
    case (3 i j items)
    have ok: "item_ok i" "list_all item_ok (j # items)" using "3.prems" by simp_all
    have "split_from part (written (i # j # items)) = split_from (part @ item_text i) ('', '' @ written (j # items))"
      using split_from_skip [of "item_text i"] item_text_bytes(1) [OF ok(1)] by simp
    also have "\<dots> = trim (part @ item_text i) # split_from [CHR '' ''] (written (j # items))"
      using next_written [OF ok(2)] by simp
    also have "\<dots> = trim (part @ item_text i) # map item_text (j # items)"
      using "3.IH" [of "'' ''"] ok item_text_bytes(3) [of j] by simp
    finally show ?case by simp
  qed simp
  note split = this
  have "item_ok (hd items)" using assms by (cases items) auto
  with split [of "[]"] split [of "'' ''"] item_text_bytes(2,3) [of "hd items"] assms(2)
  show "split_from [] (written items) = map item_text items" "split_from [] (CHR '' '' # written items) = map item_text items"
    by (cases items; simp)+
qed

lemma item_segment:
  assumes "item_ok i" and "source = Header_Source \<or> di_agent i = None"
  shows "segment_scope source applies (item_text i)
      = ((case di_agent i of None \<Rightarrow> applies | Some a \<Rightarrow> agent_applies a), directive_text i)"
    "named_part (directive_text i) = (di_name i, arg_text i)"
proof -
  have n: "safe_token (di_name i)" "CHR '':'' \<notin> set (di_name i)" using assms(1) safe_token_bytes(4) by (auto simp: item_ok_def)
  then show named: "named_part (directive_text i) = (di_name i, arg_text i)"
    using split_once_append [of "CHR '':''" "di_name i"] by (auto simp: named_part_def directive_text_def arg_text_def split_once_def split: option.splits)
  show "segment_scope source applies (item_text i)
      = ((case di_agent i of None \<Rightarrow> applies | Some a \<Rightarrow> agent_applies a), directive_text i)"
  proof (cases "di_agent i")
    case None
    have "split_once CHR '':'' (directive_text i) = (case di_arg i of None \<Rightarrow> None | Some v \<Rightarrow> Some (di_name i, CHR '' '' # v))"
      using n(2) split_once_append [OF n(2)] by (auto simp: directive_text_def split_once_def split: option.splits)
    moreover have "\<not> (case directive_name_of (trim (di_name i)) of Unknown _ \<Rightarrow> True | _ \<Rightarrow> False)" if "di_arg i = Some v" for v
      using assms(1) that known_directive_iff safe_token_trim [OF n(1)] by (simp add: item_ok_def)
    ultimately show ?thesis using None by (auto simp: segment_scope_def item_text_def split: option.splits)
  next
    case (Some a)
    have a: "safe_token a" "\<not> known_directive a" "CHR '':'' \<notin> set a" using assms(1) Some safe_token_bytes(4) [of a] by (auto simp: item_ok_def)
    note d = directive_text_bytes [OF assms(1)]
    have "trim (CHR '' '' # directive_text i) = directive_text i" by (rule trim_plain(2)) (use d in auto)
    then show ?thesis
      using Some assms(2) a split_once_append [OF a(3), of "CHR '' '' # directive_text i"] known_directive_iff [of a]
      by (simp add: segment_scope_def item_text_def safe_token_trim [OF a(1)])
  qed
qed

definition scope_after :: "bool \<Rightarrow> directive_item list \<Rightarrow> bool" where
  "scope_after applies items = (case rev (List.map_filter di_agent items) of [] \<Rightarrow> applies | a # _ \<Rightarrow> agent_applies a)"

lemma scope_after_simps [simp]:
  "scope_after applies [] = applies"
  "scope_after applies (i # items) = scope_after (case di_agent i of None \<Rightarrow> applies | Some a \<Rightarrow> agent_applies a) items"
proof -
  show "scope_after applies [] = applies" by (simp add: scope_after_def List.map_filter_def)
  show "scope_after applies (i # items) = scope_after (case di_agent i of None \<Rightarrow> applies | Some a \<Rightarrow> agent_applies a) items"
    by (cases "di_agent i"; cases "rev (List.map_filter di_agent items)") (auto simp: scope_after_def List.map_filter_def)
qed

lemma scoped_written:
  assumes "list_all item_ok (pre @ i # post)" and "source = Header_Source \<or> list_all (\<lambda>i. di_agent i = None) (pre @ i # post)"
  shows "(scope_after applies (pre @ [i]), directive_name_of (di_name i), arg_text i) \<in> set (scoped source applies (map item_text (pre @ i # post)))"
  using assms
proof (induction pre arbitrary: applies)
  case Nil
  then have "safe_token (di_name i)" by (simp add: item_ok_def)
  with Nil item_segment(1) [of i source applies] item_segment(2) [of i source] show ?case by (auto simp: Let_def safe_token_trim)
next
  case (Cons j pre)
  from Cons.prems Cons.IH [of "fst (segment_scope source applies (item_text j))"] item_segment(1) [of j source applies] show ?case
    by (auto simp: Let_def)
qed

lemma written_declares:
  assumes "list_all item_ok (pre @ i # post)" and "source = Header_Source \<or> list_all (\<lambda>i. di_agent i = None) (pre @ i # post)"
  shows "(source, for_crawler (pre @ [i]), directive_name_of (di_name i), arg_text i) \<in> set (declared source (written (pre @ i # post)))"
proof -
  have "scope_after True (pre @ [i]) = for_crawler (pre @ [i])" by (auto simp: scope_after_def for_crawler_def agent_applies_def split: list.split)
  with scoped_written [OF assms, of True] split_written(1) [OF assms(1)] show ?thesis
    by (simp add: declared_def split_directives_def)
qed

lemma announced_declares:
  assumes "announced root H source value" and "d \<in> set (declared source value)"
  shows "d \<in> set (declarations root H)"
proof (cases "source = Header_Source")
  case True
  with assms show ?thesis by (auto simp: announced_def declarations_def)
next
  case False
  have "\<not> eq_ignore_ascii_case n ''robots''" if "eq_ignore_ascii_case n ''AVASearchBot''" for n
    using that by (auto simp: eq_ignore_ascii_case_def to_ascii_lowercase_def to_ascii_lowercase_byte_def is_ascii_uppercase_def)
  with False assms(1) obtain attrs where "attrs \<in> set (hd_metas root)" "attrs ''content'' = Some value"
      "Option.bind (attrs ''name'') meta_source = Some source"
    by (cases source) (auto simp: announced_def meta_source_def)
  with assms(2) show ?thesis by (auto simp: declarations_def meta_declared_def intro!: bexI [of _ attrs])
qed


text \<open>
  The order of the declarations and their repetition make no difference: two documents with the same applying directives, in
  headers or in meta elements, each within the bound of recorded directives, have the same restrictions.
\<close>

theorem declaration_order_irrelevant:
  assumes "{(name, value). \<exists>source. (source, True, name, value) \<in> set (declarations root H)}
      = {(name, value). \<exists>source. (source, True, name, value) \<in> set (declarations root' H')}"
    and "headers_invalid H ''x-robots-tag'' = headers_invalid H' ''x-robots-tag''"
    and "length (declarations root H) < MAX_DIRECTIVES" and "length (declarations root' H') < MAX_DIRECTIVES"
  shows "pd_effective (parse_document D U root H url) = pd_effective (parse_document D U' root' H' url')"
proof -
  have applying: "insert no_restriction (decl_effect D ` set ds)
    = insert no_restriction {fst (directive_effect D n v) | n v. (n, v) \<in> {(n, v). \<exists>source. (source, True, n, v) \<in> set ds}}" for ds
  proof (intro equalityI subsetI)
    fix e assume "e \<in> insert no_restriction (decl_effect D ` set ds)"
    then consider "e = no_restriction" | source a n v where "(source, a, n, v) \<in> set ds" "e = decl_effect D (source, a, n, v)" by fastforce
    then show "e \<in> insert no_restriction {fst (directive_effect D n v) | n v. (n, v) \<in> {(n, v). \<exists>source. (source, True, n, v) \<in> set ds}}"
      by cases (auto split: if_splits)
  next
    fix e assume "e \<in> insert no_restriction {fst (directive_effect D n v) | n v. (n, v) \<in> {(n, v). \<exists>source. (source, True, n, v) \<in> set ds}}"
    then consider "e = no_restriction" | source n v where "(source, True, n, v) \<in> set ds" "e = decl_effect D (source, True, n, v)" by auto
    then show "e \<in> insert no_restriction (decl_effect D ` set ds)" by cases (auto simp del: decl_effect.simps)
  qed
  have join: "joined D ds = joined D ((Header_Source, False, Index, []) # ds)" for ds by (simp add: joined_def)
  have "joined D (declarations root H) = joined D (declarations root' H')"
    by (subst (1 2) join, rule joined_set) (simp add: applying assms(1))
  moreover have "header_start H = header_start H'" using assms(2) by (simp add: header_start_def)
  moreover have "length (pd_seen (header_start H)) + length (declarations root H) \<le> MAX_DIRECTIVES"
    "length (pd_seen (header_start H')) + length (declarations root' H') \<le> MAX_DIRECTIVES"
    using start_seen [of H] start_seen [of H'] assms(3,4) by linarith+
  ultimately show ?thesis by (simp add: parse_document_recorded recorded_exact)
qed

section \<open>Rights are kept\<close>

lemma merge_reservation_strict [simp]:
  "merge_reservation a Invalid_Reservation = Invalid_Reservation"
  "merge_reservation a Reserved \<in> {Reserved, Invalid_Reservation}"
  by (cases a; simp)+

lemma merge_reservation_keeps: "a \<in> {Reserved, Invalid_Reservation} \<Longrightarrow> merge_reservation a b \<in> {Reserved, Invalid_Reservation}"
  by (cases a; cases b) auto

lemma reservation_index_only: "index_only r \<or> trim v \<noteq> ''0'' \<Longrightarrow> index_only (reservation v r)"
  using merge_reservation_keeps [of "rs_tdm_reservation r"] merge_reservation_strict(2) [of "rs_tdm_reservation r"]
  by (auto simp: index_only_def reservation_def Let_def)

lemma push_index_only [simp]: "index_only (push_policy U base v r)" "index_only (push_license U base v r)"
  by (simp_all add: index_only_def push_policy_def push_license_def split: prod.splits)

lemma source_index_only [simp]:
  "index_only (r\<lparr> rs_header_source := b \<rparr>) = index_only r" "index_only (r\<lparr> rs_meta_source := b \<rparr>) = index_only r"
  "index_only (r\<lparr> rs_link_source := b \<rparr>) = index_only r"
  by (simp_all add: index_only_def)

lemma foldl_keeps:
  assumes "\<And>s x. Q s \<Longrightarrow> Q (f s x)" and "Q s \<or> (\<exists>x \<in> set xs. \<forall>s. Q (f s x))"
  shows "Q (foldl f s xs)"
  using assms(2) by (induction xs arbitrary: s) (auto intro: assms(1))

definition header_reserves :: "response_headers \<Rightarrow> bool" where
  "header_reserves H \<longleftrightarrow> (\<exists>v \<in> set (headers_all H ''tdm-reservation''). trim v \<noteq> ''0'') \<or> headers_invalid H ''tdm-reservation''
     \<or> headers_invalid H ''tdm-policy'' \<or> headers_all H ''tdm-policy'' \<noteq> []"

definition meta_reserves :: "attributes \<Rightarrow> bool" where
  "meta_reserves attrs \<longleftrightarrow> (\<exists>name. attrs ''name'' = Some name \<and> (eq_ignore_ascii_case name ''tdm-policy''
     \<or> eq_ignore_ascii_case name ''tdm-reservation'' \<and> (\<forall>v. attrs ''content'' = Some v \<longrightarrow> trim v \<noteq> ''0'')))"

definition rel_reserves :: "attributes \<Rightarrow> bool" where
  "rel_reserves attrs \<longleftrightarrow> (\<exists>rel. attrs ''rel'' = Some rel
     \<and> (\<exists>token \<in> set (split_ascii_whitespace rel). eq_ignore_ascii_case token ''license'' \<or> eq_ignore_ascii_case token ''tdm-policy''))"

definition declares_rights :: "html_document \<Rightarrow> response_headers \<Rightarrow> bool" where
  "declares_rights root H \<longleftrightarrow> header_reserves H \<or> (\<exists>attrs \<in> set (hd_metas root). meta_reserves attrs) \<or> (\<exists>attrs \<in> set (hd_rels root). rel_reserves attrs)"

lemma meta_rights_index_only: "index_only r \<or> meta_reserves attrs \<Longrightarrow> index_only (meta_rights U url r attrs)"
  by (auto simp: meta_reserves_def meta_rights_def Let_def trim_def trim_start_def trim_end_def intro!: reservation_index_only split: option.splits)

lemma rel_rights_index_only: "index_only r \<or> rel_reserves attrs \<Longrightarrow> index_only (rel_rights U url r attrs)"
  unfolding rel_rights_def rel_reserves_def Let_def by (rule foldl_keeps) (auto simp: rel_token_rights_def Let_def)

lemma header_rights_index_only:
  assumes "header_reserves H"
  shows "index_only (header_rights U H url)"
proof -
  have r1: "index_only (reservation_headers H)" if "\<exists>v \<in> set (headers_all H ''tdm-reservation''). trim v \<noteq> ''0''"
    unfolding reservation_headers_def by (rule foldl_keeps) (use that in \<open>auto intro: reservation_index_only\<close>)
  have r3: "index_only (invalid_rights_headers H r)" if "index_only r \<or> headers_invalid H ''tdm-reservation'' \<or> headers_invalid H ''tdm-policy''" for r
    using that by (auto simp: invalid_rights_headers_def Let_def index_only_def)
  show ?thesis
  proof (cases "headers_all H ''tdm-policy'' = []")
    case True
    with assms r1 r3 [of "reservation_headers H"] show ?thesis by (auto simp: header_rights_def header_reserves_def)
  next
    case False
    show ?thesis unfolding header_rights_def by (rule foldl_keeps) (use False in \<open>auto simp: neq_Nil_conv\<close>)
  qed
qed

text \<open>
  C32: A rights signal is never lost: a reservation other than an exact zero, an unreadable reservation or policy header, a policy
  in a header, a meta element or a link, and a licence link each leave the document index-only, whatever else is declared.
\<close>

theorem rights_signals_kept:
  assumes "declares_rights root H"
  shows "index_only (pd_rights (parse_document D U root H url))"
proof -
  let ?r = "header_rights U H url"
  have start: "pd_rights (parse_meta_into D root (parse_headers D U H url)) = ?r" by (simp add: meta_into_rights parse_headers_def)
  let ?m = "foldl (meta_rights U url) ?r (hd_metas root)"
  have m: "index_only ?m" if "index_only ?r \<or> (\<exists>attrs \<in> set (hd_metas root). meta_reserves attrs)"
    by (rule foldl_keeps) (use that meta_rights_index_only in blast)+
  have rels: "index_only ?m \<or> (\<exists>attrs \<in> set (hd_rels root). rel_reserves attrs)"
    using assms m header_rights_index_only [of H U url] unfolding declares_rights_def by blast
  have "index_only (foldl (rel_rights U url) ?m (hd_rels root))"
    by (rule foldl_keeps) (use rels rel_rights_index_only in blast)+
  then show ?thesis by (simp add: parse_document_def Let_def start)
qed

section \<open>Bounds of what is recorded\<close>

definition rights_wf :: "rights_signals \<Rightarrow> bool" where
  "rights_wf r \<longleftrightarrow> distinct (rs_license_urls r) \<and> length (rs_license_urls r) \<le> MAX_DIRECTIVES
     \<and> distinct (rs_tdm_policy_urls r) \<and> length (rs_tdm_policy_urls r) \<le> MAX_DIRECTIVES \<and> distinct (rs_parse_errors r)"

lemma push_new_wf: "distinct xs \<Longrightarrow> distinct (push_new x xs)" "length (push_new x xs) \<le> length xs + 1"
  by (simp_all add: push_new_def)

lemma fold_push_new: "distinct xs \<Longrightarrow> distinct (fold push_new ys xs)"
  by (induction ys arbitrary: xs) (simp_all add: push_new_wf)

lemma push_signal_wf:
  assumes "push_signal U base v (urls, errors) = (urls', errors')" and "distinct urls" and "length urls \<le> MAX_DIRECTIVES" and "distinct errors"
  shows "distinct urls' \<and> length urls' \<le> MAX_DIRECTIVES \<and> distinct errors'"
proof -
  have "length (push_new url urls) \<le> MAX_DIRECTIVES" if "\<not> MAX_DIRECTIVES \<le> length urls" for url
    using push_new_wf(2) [of url urls] that by linarith
  with assms show ?thesis by (auto simp: push_signal_def push_new_wf split: if_splits option.splits)
qed

lemma rights_step_wf:
  assumes "rights_wf r"
  shows "rights_wf (reservation v r)" "rights_wf (push_policy U base v r)" "rights_wf (push_license U base v r)"
    "rights_wf (r\<lparr> rs_header_source := b \<rparr>)" "rights_wf (r\<lparr> rs_meta_source := b \<rparr>)" "rights_wf (r\<lparr> rs_link_source := b \<rparr>)"
    "rights_wf (r\<lparr> rs_header_source := b, rs_tdm_reservation := t, rs_parse_errors := add_error e (rs_parse_errors r) \<rparr>)"
    "rights_wf (r\<lparr> rs_header_source := b, rs_tdm_policy_present := c, rs_parse_errors := add_error e (rs_parse_errors r) \<rparr>)"
  using assms push_signal_wf [of U base v "rs_tdm_policy_urls r" "rs_parse_errors r"] push_signal_wf [of U base v "rs_license_urls r" "rs_parse_errors r"]
  by (auto simp: rights_wf_def reservation_def push_policy_def push_license_def push_new_wf Let_def split: prod.splits)

text \<open>What every step of the rights keeps holds of the signals of a response and of a document.\<close>

lemma rights_document_keeps:
  assumes "Q no_rights" and "\<And>r v. Q r \<Longrightarrow> Q (reservation v r)" and "\<And>r v. Q r \<Longrightarrow> Q (push_policy U url v r)"
    and "\<And>r v. Q r \<Longrightarrow> Q (push_license U url v r)" and "\<And>r. Q r \<Longrightarrow> Q (invalid_rights_headers H r)"
    and "\<And>r b. Q r \<Longrightarrow> Q (r\<lparr> rs_header_source := b \<rparr>)" and "\<And>r b. Q r \<Longrightarrow> Q (r\<lparr> rs_meta_source := b \<rparr>)" and "\<And>r b. Q r \<Longrightarrow> Q (r\<lparr> rs_link_source := b \<rparr>)"
  shows "Q (header_rights U H url)" and "Q (pd_rights (parse_document D U root H url))"
proof -
  have keeps: "Q (foldl f r xs)" if "Q r" "\<And>r x. Q r \<Longrightarrow> Q (f r x)" for f r and xs :: "'x list"
    using that by (induction xs arbitrary: r) simp_all
  show h: "Q (header_rights U H url)"
    unfolding header_rights_def reservation_headers_def by (intro keeps assms)
  have m: "Q (meta_rights U url r attrs)" if "Q r" for r attrs
    using that by (auto simp: meta_rights_def Let_def intro!: assms split: option.splits)
  have t: "Q (rel_token_rights U url href r token)" if "Q r" for r href token
    using that by (auto simp: rel_token_rights_def Let_def intro!: assms)
  have "Q (foldl (rel_rights U url) (foldl (meta_rights U url) (header_rights U H url) (hd_metas root)) (hd_rels root))"
    by (intro keeps h m) (auto simp: rel_rights_def Let_def intro!: keeps t)
  then show "Q (pd_rights (parse_document D U root H url))" by (simp add: parse_document_def Let_def meta_into_rights parse_headers_def)
qed

lemma rights_document_wf: "rights_wf (pd_rights (parse_document D U root H url))"
proof (rule rights_document_keeps(2) [of rights_wf])
  show "rights_wf no_rights" by (simp add: rights_wf_def no_rights_def)
  show "rights_wf (invalid_rights_headers H r)" if "rights_wf r" for r
    using that by (simp add: rights_wf_def invalid_rights_headers_def Let_def push_new_wf)
qed (auto intro: rights_step_wf)

lemma recorded_bound: "length (pd_seen (parse_document D U root H url)) \<le> MAX_DIRECTIVES"
proof -
  have "length (pd_seen (header_start H)) \<le> MAX_DIRECTIVES" using start_seen [of H] by (simp add: MAX_DIRECTIVES_def)
  then show ?thesis by (simp add: parse_document_recorded recorded_seen)
qed

text \<open>
  What is kept of a document's declarations is bounded and free of repetition: at most 256 observations, at most 256 distinct
  licence and policy addresses and each kind of error once, for every response, and merging with earlier signals keeps it so.
\<close>

theorem parsed_directives_wf:
  "length (pd_seen (parse_document D U root H url)) \<le> MAX_DIRECTIVES \<and> rights_wf (pd_rights (parse_document D U root H url))
    \<and> (rights_wf r \<longrightarrow> rights_wf (rights_merge r (pd_rights (parse_document D U root H url))))"
proof (intro conjI impI)
  show "length (pd_seen (parse_document D U root H url)) \<le> MAX_DIRECTIVES" by (rule recorded_bound)
  show "rights_wf (pd_rights (parse_document D U root H url))" by (rule rights_document_wf)
  show "rights_wf (rights_merge r (pd_rights (parse_document D U root H url)))" if "rights_wf r"
    using that by (simp add: rights_wf_def rights_merge_def Let_def fold_push_new push_new_wf)
qed

section \<open>Samples\<close>

definition no_dates :: date_lib where
  "no_dates = \<lparr> dl_rfc3339 = (\<lambda>_. None), dl_rfc2822 = (\<lambda>_. None) \<rparr>"

definition robots_tag :: "string list \<Rightarrow> response_headers" where
  "robots_tag values = [''x-robots-tag'' \<mapsto> \<lparr> hv_values = values, hv_invalid = False \<rparr>]"

definition no_document :: html_document where
  "no_document = \<lparr> hd_metas = [], hd_rels = [] \<rparr>"

lemma robots_tag_all [simp]: "headers_all (robots_tag vs) ''x-robots-tag'' = vs" "headers_invalid (robots_tag vs) ''x-robots-tag'' = False"
  by (simp_all add: robots_tag_def headers_all_def headers_invalid_def to_ascii_lowercase_def to_ascii_lowercase_byte_def is_ascii_uppercase_def)

lemmas directive_eval = declared_def split_directives_def next_token_def trim_ascii blank_byte_def blank_scalar_def is_whitespace_def safe_token_def
  is_ascii_alphanumeric_def is_ascii_digit_def is_ascii_lowercase_def is_ascii_uppercase_def directive_name_of_def to_ascii_lowercase_def
  to_ascii_lowercase_byte_def segment_scope_def named_part_def split_once_def agent_applies_def eq_ignore_ascii_case_def

lemma sample_declared: "declared Header_Source ''index, noindex'' = [(Header_Source, True, Index, []), (Header_Source, True, Noindex, [])]"
  by (simp add: directive_eval)

text \<open>
  A directive with a value that the parser does not know is taken for the name of an agent, so the directives after it in the
  same header no longer apply.
\<close>

lemma unknown_directive_hides_noindex:
  "declared Header_Source ''max-image-preview:large, noindex''
    = [(Header_Source, False, Unknown ''large'', []), (Header_Source, False, Noindex, [])]"
  by (simp add: directive_eval)

lemma hidden_noindex_is_indexed:
  "index_eligible (pd_effective (parse_document D U no_document (robots_tag [''max-image-preview:large, noindex'']) url)) now"
  by (simp add: parse_document_recorded declarations_def no_document_def unknown_directive_hides_noindex header_start_def no_directives_def
      MAX_DIRECTIVES_def directive_effect_def index_eligible_def no_restriction_def)


theorem declaration_order_irrelevant_witness:
  "pd_effective (parse_document no_dates demo_url_lib no_document (robots_tag [''index, noindex'']) (demo_web ''https://a.example/''))
    = pd_effective (parse_document no_dates demo_url_lib no_document (robots_tag [''index, noindex'', ''index, noindex'']) (demo_web ''https://a.example/''))"
  by (rule declaration_order_irrelevant) (auto simp: declarations_def sample_declared no_document_def MAX_DIRECTIVES_def)

theorem rights_signals_kept_witness:
  "index_only (pd_rights (parse_document no_dates demo_url_lib
      \<lparr> hd_metas = [[''name'' \<mapsto> ''tdm-policy'']], hd_rels = [] \<rparr> (robots_tag []) (demo_web ''https://a.example/'')))"
  by (rule rights_signals_kept) (simp add: declares_rights_def meta_reserves_def eq_ignore_ascii_case_def)

theorem parsed_directives_wf_witness:
  "rights_wf (rights_merge no_rights (pd_rights (parse_document no_dates demo_url_lib no_document (robots_tag [''index'']) (demo_web ''https://a.example/''))))"
  using parsed_directives_wf [of no_dates demo_url_lib no_document "robots_tag [''index'']" "demo_web ''https://a.example/''" no_rights]
  by (simp add: rights_wf_def no_rights_def)

end
