(* ===== verification/Retention.thy ===== *)
theory Retention
  imports File_Store Host_State
begin

text \<open>
  Retention of raw bodies (\<open>core/src/crawler/retention.rs\<close>): the manifests of the managed objects, the deadline of an object,
  its deletion, and the scan that deletes what is due or, as a dry run, reports it. The store is the list of manifest files and
  the files of the directory \<open>objects\<close>, each a regular file with one name or a foreign object; a path is relative to the root.
  Which removals, synchronisations and manifest writes fail is a parameter, whether a failed write has replaced its file, and whether it has left
  its temporary \<open>.pending-<uuid>\<close> beside the manifests (a write that is cut off before its rename, or whose clean-up fails too). Instants are nanoseconds; adding days past chrono's last
  instant panics where the source uses the operator and is an error where it uses the checked addition.
\<close>

section \<open>The store\<close>

datatype object_state = Pending | Retained | Deleted

datatype body_retention = Body_Retained | NoStore | RightsReserved | Policy | Gone | NotReceived | Expired

record object_manifest =
  om_schema_version :: nat
  om_store_id :: string
  om_target_id :: string
  om_url_key :: string
  om_body_object :: string
  om_parsed_at :: int
  om_raw_expires_at :: int
  om_body_bytes :: nat
  om_object_bytes :: nat
  om_state :: object_state
  om_body_retention :: body_retention
  om_deleted_at :: "int option"

text \<open>A file in the directory of manifests: a regular file with one link, its name, and its parsed content. The temporaries that writes left in
  that directory are kept apart in \<open>st_leftovers\<close>, by name; none of them has the extension of a manifest.\<close>

record manifest_file =
  mf_regular :: bool
  mf_json :: bool
  mf_stem :: string
  mf_content :: "object_manifest option"

datatype object_file = Regular_File | Foreign_File

record retention_store =
  st_root_ok :: bool
  st_store_id :: string
  st_manifest_dir :: bool
  st_object_dir :: bool
  st_manifests :: "manifest_file list"
  st_objects :: "(string \<times> object_file) list"
  st_leftovers :: "string list"

record retention_env =
  en_is_uuid :: "string \<Rightarrow> bool"
  en_last_instant :: int
  en_max_age_days :: nat
  en_remove_fails :: "string \<Rightarrow> bool"
  en_sync_fails :: bool
  en_persist :: "string \<Rightarrow> write_end"
  en_leftover :: "string \<Rightarrow> string option"

record retention_report =
  rr_scanned :: nat
  rr_expired :: nat
  rr_deleted :: nat
  rr_failed :: nat
  rr_oldest_overdue :: nat

definition empty_report :: retention_report where
  "empty_report = \<lparr> rr_scanned = 0, rr_expired = 0, rr_deleted = 0, rr_failed = 0, rr_oldest_overdue = 0 \<rparr>"

definition ensure_success :: "retention_report \<Rightarrow> unit crawl" where
  "ensure_success r = (if rr_failed r > 0 \<or> rr_oldest_overdue r > 0 then Inl CeRetentionBacklog else Inr ())"

abbreviation days :: "nat \<Rightarrow> int" where
  "days n \<equiv> int n * 86400000000000"

definition object_name :: "retention_env \<Rightarrow> string \<Rightarrow> string crawl" where
  "object_name E target_id = (if en_is_uuid E target_id then Inr (''objects/'' @ target_id @ ''.warc.gz'') else Inl CeStoreRefused)"

definition staging_name :: "object_manifest \<Rightarrow> string" where
  "staging_name m = om_body_object m @ ''.pending''"

definition valid_key :: "string \<Rightarrow> bool" where
  "valid_key s \<longleftrightarrow> length s = 64 \<and> list_all (\<lambda>c. is_ascii_digit (byte c) \<or> (97 \<le> byte c \<and> byte c \<le> (102 :: nat))) s"

text \<open>The checks of a manifest itself, in the order of the condition; only the last one can overflow.\<close>

definition manifest_ok :: "retention_env \<Rightarrow> retention_store \<Rightarrow> object_manifest \<Rightarrow> unit crawl may_panic" where
  "manifest_ok E S m =
     (if om_schema_version m \<noteq> 1 \<or> om_store_id m \<noteq> st_store_id S then Ret (Inl CeStoreRefused)
      else
        (case object_name E (om_target_id m) of
           Inl e \<Rightarrow> Ret (Inl e)
         | Inr name \<Rightarrow>
             if om_body_object m \<noteq> name \<or> \<not> valid_key (om_url_key m) \<or> om_raw_expires_at m < om_parsed_at m then Ret (Inl CeStoreRefused)
             else if om_parsed_at m + days 30 > en_last_instant E then Panic
             else if om_raw_expires_at m > om_parsed_at m + days 30 then Ret (Inl CeStoreRefused)
             else Ret (Inr ())))"

definition object_at :: "retention_store \<Rightarrow> string \<Rightarrow> string option crawl" where
  "object_at S path =
     (if \<not> st_object_dir S then Inl CeStoreRefused
      else case map_of (st_objects S) path of
             Some Regular_File \<Rightarrow> Inr (Some path)
           | Some Foreign_File \<Rightarrow> Inl CeStoreRefused
           | None \<Rightarrow> Inr None)"

definition validate_owned_store_and_object :: "retention_env \<Rightarrow> retention_store \<Rightarrow> object_manifest \<Rightarrow> bool \<Rightarrow> string option crawl may_panic" where
  "validate_owned_store_and_object E S m staging =
     (if \<not> st_root_ok S then Ret (Inl CeStoreRefused)
      else
        outcome_bind (manifest_ok E S m) (\<lambda>r.
          Ret (res_bind r (\<lambda>_. object_at S (if staging then staging_name m else om_body_object m)))))"

definition write_manifest :: "object_manifest \<Rightarrow> manifest_file list \<Rightarrow> manifest_file list" where
  "write_manifest m fs =
     (if list_ex (\<lambda>f. mf_json f \<and> mf_stem f = om_target_id m) fs
      then map (\<lambda>f. if mf_json f \<and> mf_stem f = om_target_id m then f\<lparr> mf_content := Some m \<rparr> else f) fs
      else fs @ [\<lparr> mf_regular = True, mf_json = True, mf_stem = om_target_id m, mf_content = Some m \<rparr>])"

definition persist_manifest :: "retention_env \<Rightarrow> object_manifest \<Rightarrow> retention_store \<Rightarrow> unit crawl \<times> retention_store" where
  "persist_manifest E m S =
     (case object_name E (om_target_id m) of
        Inl e \<Rightarrow> (Inl e, S)
      | Inr _ \<Rightarrow>
          (let S' = S\<lparr> st_manifests := write_manifest m (st_manifests S) \<rparr> in
           case en_persist E (om_target_id m) of
             WriteOk \<Rightarrow> (Inr (), S')
           | WriteFailed replaced \<Rightarrow>
               (Inl CeSinkWrite,
                if replaced then S'
                else (case en_leftover E (om_target_id m) of
                        None \<Rightarrow> S
                      | Some temp \<Rightarrow> S\<lparr> st_leftovers := temp # st_leftovers S \<rparr>))))"

definition read_manifest :: "retention_env \<Rightarrow> manifest_file \<Rightarrow> object_manifest crawl" where
  "read_manifest E f =
     (if \<not> mf_regular f \<or> \<not> mf_json f then Inl CeStoreRefused
      else case mf_content f of
             None \<Rightarrow> Inl CeStoreRefused
           | Some m \<Rightarrow>
               res_bind (object_name E (om_target_id m)) (\<lambda>_. if mf_stem f \<noteq> om_target_id m then Inl CeStoreRefused else Inr m))"

definition manifests :: "retention_env \<Rightarrow> retention_store \<Rightarrow> object_manifest list crawl" where
  "manifests E S =
     (if \<not> st_manifest_dir S \<or> st_leftovers S \<noteq> [] then Inl CeStoreRefused
      else res_bind (res_map (read_manifest E) (st_manifests S)) (\<lambda>ms. Inr (sort_key om_target_id ms)))"

definition raw_deadline :: "retention_env \<Rightarrow> object_manifest \<Rightarrow> int crawl" where
  "raw_deadline E m =
     (let shortened = om_parsed_at m + days (en_max_age_days E) in
      if shortened > en_last_instant E then Inl CeRecordInvalid else Inr (min (om_raw_expires_at m) shortened))"

section \<open>Deletion\<close>

fun remove_files :: "retention_env \<Rightarrow> string list \<Rightarrow> retention_store \<Rightarrow> bool \<times> retention_store" where
  "remove_files E [] S = (True, S)"
| "remove_files E (p # ps) S =
     (if en_remove_fails E p then (False, S)
      else remove_files E ps (S\<lparr> st_objects := filter (\<lambda>f. fst f \<noteq> p) (st_objects S) \<rparr>))"

definition delete_manifest_objects :: "retention_env \<Rightarrow> object_manifest \<Rightarrow> int \<Rightarrow> retention_store \<Rightarrow> (bool crawl \<times> retention_store) may_panic" where
  "delete_manifest_objects E m now S =
     outcome_bind (validate_owned_store_and_object E S m False) (\<lambda>final.
     outcome_bind (validate_owned_store_and_object E S m True) (\<lambda>staging.
       Ret (case (final, staging) of
         (Inr a, Inr b) \<Rightarrow>
           (let paths = map the (filter (\<lambda>x. x \<noteq> None) [a, b]) in
            case remove_files E paths S of
              (False, S') \<Rightarrow> (Inl CeRetentionBacklog, S')
            | (True, S') \<Rightarrow>
                if en_sync_fails E then (Inl CeRetentionBacklog, S')
                else
                  (case persist_manifest E (m\<lparr> om_state := Deleted, om_deleted_at := Some now \<rparr>) S' of
                     (Inl e, S'') \<Rightarrow> (Inl e, S'')
                   | (Inr _, S'') \<Rightarrow> (Inr (paths \<noteq> []), S'')))
       | (Inl e, _) \<Rightarrow> (Inl e, S)
       | (_, Inl e) \<Rightarrow> (Inl e, S))))"

section \<open>The scan\<close>

definition due :: "int \<Rightarrow> int \<Rightarrow> object_manifest \<Rightarrow> bool" where
  "due now raw_expiry m \<longleftrightarrow> now \<ge> raw_expiry \<or> om_body_retention m \<noteq> Body_Retained \<or> om_state m \<noteq> Retained"

text \<open>One manifest: an error ends the scan.\<close>

definition run_step :: "retention_env \<Rightarrow> int \<Rightarrow> bool \<Rightarrow> object_manifest \<Rightarrow> retention_report \<Rightarrow> retention_store \<Rightarrow> (retention_report crawl \<times> retention_store) may_panic" where
  "run_step E now dry_run m report S =
     (let report = report\<lparr> rr_scanned := rr_scanned report + 1 \<rparr> in
      outcome_bind (validate_owned_store_and_object E S m False) (\<lambda>final.
      outcome_bind (validate_owned_store_and_object E S m True) (\<lambda>staging.
        case (final, staging) of
          (Inr a, Inr b) \<Rightarrow>
            (case raw_deadline E m of
               Inl e \<Rightarrow> Ret (Inl e, S)
             | Inr raw_expiry \<Rightarrow>
                 if a = None \<and> b = None then
                   (if om_state m = Retained then Ret (Inr (report\<lparr> rr_failed := rr_failed report + 1 \<rparr>), S)
                    else if om_state m = Pending \<and> \<not> dry_run then
                      (case persist_manifest E (m\<lparr> om_state := Deleted, om_deleted_at := Some now \<rparr>) S of
                         (Inl e, S') \<Rightarrow> Ret (Inl e, S')
                       | (Inr _, S') \<Rightarrow> Ret (Inr report, S'))
                    else Ret (Inr report, S))
                 else if \<not> due now raw_expiry m then Ret (Inr report, S)
                 else
                   (let report = report\<lparr> rr_expired := rr_expired report + 1 \<rparr>; overdue = nat ((now - raw_expiry) div 1000000000);
                        late = max (rr_oldest_overdue report) overdue
                    in if dry_run then Ret (Inr (report\<lparr> rr_oldest_overdue := late \<rparr>), S)
                       else
                         (let m' = (if om_body_retention m = Body_Retained then m\<lparr> om_body_retention := Expired \<rparr> else m) in
                          outcome_bind (delete_manifest_objects E m' now S) (\<lambda>r.
                            case r of
                              (Inr True, S') \<Rightarrow> Ret (Inr (report\<lparr> rr_deleted := rr_deleted report + 1 \<rparr>), S')
                            | (Inr False, S') \<Rightarrow> Ret (Inr report, S')
                            | (Inl _, S') \<Rightarrow> Ret (Inr (report\<lparr> rr_failed := rr_failed report + 1, rr_oldest_overdue := late \<rparr>), S')))))
        | _ \<Rightarrow> Ret (Inr (report\<lparr> rr_failed := rr_failed report + 1 \<rparr>), S))))"

fun run_manifests :: "retention_env \<Rightarrow> int \<Rightarrow> bool \<Rightarrow> object_manifest list \<Rightarrow> retention_report \<Rightarrow> retention_store \<Rightarrow> (retention_report crawl \<times> retention_store) may_panic" where
  "run_manifests E now dry_run [] report S = Ret (Inr report, S)"
| "run_manifests E now dry_run (m # ms) report S =
     outcome_bind (run_step E now dry_run m report S) (\<lambda>r.
       case r of
         (Inl e, S') \<Rightarrow> Ret (Inl e, S')
       | (Inr report', S') \<Rightarrow> run_manifests E now dry_run ms report' S')"

definition known_paths :: "object_manifest list \<Rightarrow> string list" where
  "known_paths ms = concat (map (\<lambda>m. [om_body_object m, staging_name m]) ms)"

definition retention_run :: "retention_env \<Rightarrow> int \<Rightarrow> bool \<Rightarrow> retention_store \<Rightarrow> (retention_report crawl \<times> retention_store) may_panic" where
  "retention_run E now dry_run S =
     (if \<not> st_root_ok S then Ret (Inl CeStoreRefused, S)
      else
        (case manifests E S of
           Inl e \<Rightarrow> Ret (Inl e, S)
         | Inr ms \<Rightarrow>
             outcome_bind (run_manifests E now dry_run ms empty_report S) (\<lambda>r.
               case r of
                 (Inl e, S') \<Rightarrow> Ret (Inl e, S')
               | (Inr report, S') \<Rightarrow>
                   if \<not> st_object_dir S' then Ret (Inl CeStoreRefused, S')
                   else
                     Ret (Inr (report\<lparr> rr_failed := rr_failed report
                       + length (filter (\<lambda>f. fst f \<notin> set (known_paths ms)) (st_objects S')) \<rparr>), S'))))"

definition retention_scan :: "retention_env \<Rightarrow> int \<Rightarrow> retention_store \<Rightarrow> retention_report crawl may_panic" where
  "retention_scan E now S =
     outcome_bind (retention_run E now True S) (\<lambda>r.
       Ret (res_bind (fst r) (\<lambda>report.
         let report = report\<lparr> rr_failed := saturating_add_u64 (rr_failed report) (rr_expired report) \<rparr>
         in res_bind (ensure_success report) (\<lambda>_. Inr report))))"

section \<open>Paths of different objects\<close>

lemma object_name_eq: "object_name E t = Inr name \<longleftrightarrow> en_is_uuid E t \<and> name = ''objects/'' @ t @ ''.warc.gz''"
  by (auto simp: object_name_def)

definition named :: "object_manifest \<Rightarrow> bool" where
  "named m \<longleftrightarrow> om_body_object m = ''objects/'' @ om_target_id m @ ''.warc.gz''"

definition paths_of :: "object_manifest \<Rightarrow> string set" where
  "paths_of m = {om_body_object m, staging_name m}"

lemma paths_disjoint:
  assumes "named m" and "named m'" and "om_target_id m \<noteq> om_target_id m'"
  shows "paths_of m \<inter> paths_of m' = {}"
proof -
  have "last (om_body_object n) = CHR ''z''" "last (staging_name n) = CHR ''g''" if "named n" for n
    using that by (simp_all add: named_def staging_name_def)
  from this [OF assms(1)] this [OF assms(2)] have "om_body_object m \<noteq> staging_name m'" "staging_name m \<noteq> om_body_object m'" by auto
  with assms show ?thesis by (auto simp: paths_of_def staging_name_def named_def)
qed

lemma manifest_ok_named: "manifest_ok E S m = Ret (Inr ()) \<Longrightarrow> named m"
  by (simp add: manifest_ok_def named_def object_name_def split: if_splits)

lemma validate_ok:
  "validate_owned_store_and_object E S m staging = Ret (Inr a) \<longleftrightarrow>
    st_root_ok S \<and> manifest_ok E S m = Ret (Inr ()) \<and> object_at S (if staging then staging_name m else om_body_object m) = Inr a"
proof (cases "manifest_ok E S m")
  case (Ret r)
  then show ?thesis by (cases r) (auto simp: validate_owned_store_and_object_def res_bind_def)
qed (simp add: validate_owned_store_and_object_def)

lemma object_at_some: "object_at S path = Inr a \<longleftrightarrow> st_object_dir S \<and> (a = None \<and> map_of (st_objects S) path = None \<or> a = Some path \<and> map_of (st_objects S) path = Some Regular_File)"
  by (auto simp: object_at_def split: option.splits object_file.splits)

section \<open>What a store holds\<close>

text \<open>The manifests of a store whose directory can be read, with distinct file names.\<close>

definition holds :: "retention_env \<Rightarrow> retention_store \<Rightarrow> object_manifest list \<Rightarrow> bool" where
  "holds E S ms \<longleftrightarrow> res_map (read_manifest E) (st_manifests S) = Inr ms \<and> distinct (map om_target_id ms)"

lemma read_manifest_iff:
  "read_manifest E f = Inr m \<longleftrightarrow> mf_regular f \<and> mf_json f \<and> mf_content f = Some m \<and> en_is_uuid E (om_target_id m) \<and> mf_stem f = om_target_id m"
  by (auto simp: read_manifest_def res_bind_def object_name_def split: option.splits sum.splits)

lemma write_present: "\<exists>f \<in> set fs. mf_json f \<and> mf_stem f = om_target_id m \<Longrightarrow>
    write_manifest m fs = map (\<lambda>f. if mf_json f \<and> mf_stem f = om_target_id m then f\<lparr> mf_content := Some m \<rparr> else f) fs"
  by (auto simp: write_manifest_def list_ex_iff)

lemma stems_present:
  assumes "list_all2 (\<lambda>f m. read_manifest E f = Inr m) fs ms"
  shows "m \<in> set ms \<Longrightarrow> \<exists>f \<in> set fs. mf_json f \<and> mf_stem f = om_target_id m"
  using assms by (induction rule: list_all2_induct) (auto simp: read_manifest_iff)

lemma holds_write:
  assumes "holds E S ms" and "om_target_id m' \<in> set (map om_target_id ms)"
  shows "holds E (S\<lparr> st_manifests := write_manifest m' (st_manifests S) \<rparr>) (map (\<lambda>m. if om_target_id m = om_target_id m' then m' else m) ms)"
proof -
  let ?f = "\<lambda>m. if om_target_id m = om_target_id m' then m' else m"
  have l: "list_all2 (\<lambda>f m. read_manifest E f = Inr m) (st_manifests S) ms" using assms(1) by (simp add: holds_def res_map_Inr_iff)
  have "list_all2 (\<lambda>f m. read_manifest E f = Inr m) (write_manifest m' (st_manifests S)) (map ?f ms)"
  proof -
    have "\<exists>f \<in> set (st_manifests S). mf_json f \<and> mf_stem f = om_target_id m'" using assms(2) stems_present [OF l] by auto
    note w = write_present [OF this]
    show ?thesis unfolding w list_all2_map1 list_all2_map2 by (rule list_all2_mono [OF l]) (auto simp: read_manifest_iff)
  qed
  moreover have "map om_target_id (map ?f ms) = map om_target_id ms" by simp
  ultimately show ?thesis using assms(1) by (simp add: holds_def res_map_Inr_iff comp_def cong: map_cong)
qed

definition settled :: "retention_env \<Rightarrow> int \<Rightarrow> retention_store \<Rightarrow> object_manifest \<Rightarrow> bool" where
  "settled E now S m \<longleftrightarrow> st_root_ok S \<and> st_object_dir S \<and> manifest_ok E S m = Ret (Inr ())
     \<and> (\<forall>p \<in> paths_of m. map_of (st_objects S) p \<noteq> Some Foreign_File)
     \<and> (\<exists>x. raw_deadline E m = Inr x
          \<and> (if \<forall>p \<in> paths_of m. map_of (st_objects S) p = None then om_state m \<noteq> Retained else \<not> due now x m))"

lemma validated_paths:
  assumes "validate_owned_store_and_object E S m False = Ret (Inr a)" and "validate_owned_store_and_object E S m True = Ret (Inr b)"
  shows "st_root_ok S" "st_object_dir S" "manifest_ok E S m = Ret (Inr ())" "\<forall>p \<in> paths_of m. map_of (st_objects S) p \<noteq> Some Foreign_File"
    "(a = None \<and> b = None) \<longleftrightarrow> (\<forall>p \<in> paths_of m. map_of (st_objects S) p = None)"
    "set (map the (filter (\<lambda>x. x \<noteq> None) [a, b])) = {p \<in> paths_of m. map_of (st_objects S) p \<noteq> None}"
  using assms by (auto simp: validate_ok object_at_some paths_of_def)

lemma settled_validates:
  assumes "settled E now S m"
  shows "\<exists>a b. validate_owned_store_and_object E S m False = Ret (Inr a) \<and> validate_owned_store_and_object E S m True = Ret (Inr b)"
proof -
  have "\<exists>a. object_at S p = Inr a" if "p \<in> paths_of m" for p
    using assms that by (auto simp: settled_def object_at_def split: option.splits object_file.splits)
  then show ?thesis using assms by (simp add: validate_ok settled_def paths_of_def)
qed

lemma remove_files_objects:
  "remove_files E ps S = (ok', S') \<Longrightarrow> \<exists>rs. set rs \<subseteq> set ps \<and> (ok' \<longrightarrow> set rs = set ps) \<and> S' = S\<lparr> st_objects := filter (\<lambda>f. fst f \<notin> set rs) (st_objects S) \<rparr>"
proof (induction ps arbitrary: S)
  case (Cons p ps)
  show ?case
  proof (cases "en_remove_fails E p")
    case True
    with Cons.prems show ?thesis by (intro exI [of _ "[]"]) auto
  next
    case False
    with Cons obtain rs where "set rs \<subseteq> set ps" "ok' \<longrightarrow> set rs = set ps"
      "S' = S\<lparr> st_objects := filter (\<lambda>f. fst f \<notin> set rs) (filter (\<lambda>f. fst f \<noteq> p) (st_objects S)) \<rparr>" by fastforce
    then show ?thesis by (intro exI [of _ "p # rs"]) (auto simp: conj_commute)
  qed
qed (auto intro: exI [of _ "[]"])

lemma map_of_removed: "map_of (filter (\<lambda>f. fst f \<notin> R) xs) p = (if p \<in> R then None else map_of xs p)"
  by (induction xs) auto

section \<open>One step of the scan\<close>

text \<open>What a step may change: it removes files of its manifest and rewrites the manifest, keeping its identity and its times.\<close>

definition same_object :: "object_manifest \<Rightarrow> object_manifest \<Rightarrow> bool" where
  "same_object m m' \<longleftrightarrow> om_schema_version m' = om_schema_version m \<and> om_store_id m' = om_store_id m \<and> om_target_id m' = om_target_id m
     \<and> om_url_key m' = om_url_key m \<and> om_body_object m' = om_body_object m \<and> om_parsed_at m' = om_parsed_at m \<and> om_raw_expires_at m' = om_raw_expires_at m"

definition changed :: "object_manifest \<Rightarrow> string set \<Rightarrow> object_manifest option \<Rightarrow> retention_store \<Rightarrow> retention_store \<Rightarrow> bool" where
  "changed m R w S S' \<longleftrightarrow> R \<subseteq> {p \<in> paths_of m. map_of (st_objects S) p = Some Regular_File}
     \<and> (\<forall>m'. w = Some m' \<longrightarrow> same_object m m')
     \<and> (\<exists>left. S' = S\<lparr> st_objects := filter (\<lambda>f. fst f \<notin> R) (st_objects S),
               st_manifests := (case w of None \<Rightarrow> st_manifests S | Some m' \<Rightarrow> write_manifest m' (st_manifests S)), st_leftovers := left \<rparr>)"

lemma changedI:
  "R \<subseteq> {p \<in> paths_of m. map_of (st_objects S) p = Some Regular_File} \<Longrightarrow> (\<And>m'. w = Some m' \<Longrightarrow> same_object m m')
    \<Longrightarrow> S' = S\<lparr> st_objects := filter (\<lambda>f. fst f \<notin> R) (st_objects S),
         st_manifests := (case w of None \<Rightarrow> st_manifests S | Some m' \<Rightarrow> write_manifest m' (st_manifests S)), st_leftovers := left \<rparr> \<Longrightarrow> changed m R w S S'"
  unfolding changed_def by blast

lemma changed_self [simp]: "changed m {} None S S"
  by (auto simp: changed_def intro: exI [of _ "st_leftovers S"])

lemma same_object_refl [simp]: "same_object m m"
  by (simp add: same_object_def)

lemma same_object_facts:
  assumes "same_object m m'"
  shows "manifest_ok E S m' = manifest_ok E S m" "paths_of m' = paths_of m" "raw_deadline E m' = raw_deadline E m" "om_target_id m' = om_target_id m"
proof -
  have e: "om_schema_version m' = om_schema_version m" "om_store_id m' = om_store_id m" "om_target_id m' = om_target_id m" "om_url_key m' = om_url_key m"
    "om_body_object m' = om_body_object m" "om_parsed_at m' = om_parsed_at m" "om_raw_expires_at m' = om_raw_expires_at m"
    using assms by (simp_all add: same_object_def)
  show "manifest_ok E S m' = manifest_ok E S m" "paths_of m' = paths_of m" "raw_deadline E m' = raw_deadline E m" "om_target_id m' = om_target_id m"
    unfolding manifest_ok_def paths_of_def staging_name_def raw_deadline_def e by (rule refl)+
qed

lemma same_object_trans: "same_object m m1 \<Longrightarrow> same_object m1 m2 \<Longrightarrow> same_object m m2"
  by (simp add: same_object_def)

lemma changed_via: "same_object m m1 \<Longrightarrow> changed m1 R w S S' \<Longrightarrow> changed m R w S S'"
  unfolding changed_def by (simp only: same_object_facts(2)) (blast intro: same_object_trans)

lemma persist_result:
  "persist_manifest E m' S = (r, S') \<Longrightarrow> (r = Inr () \<and> S' = S\<lparr> st_manifests := write_manifest m' (st_manifests S) \<rparr>)
    \<or> (\<exists>e. r = Inl e) \<and> (S' = S \<or> S' = S\<lparr> st_manifests := write_manifest m' (st_manifests S) \<rparr>
        \<or> (\<exists>temp. en_leftover E (om_target_id m') = Some temp \<and> S' = S\<lparr> st_leftovers := temp # st_leftovers S \<rparr>))"
  by (auto simp: persist_manifest_def Let_def split: sum.splits if_splits write_end.splits option.splits)

lemma persist_leftovers:
  "persist_manifest E m' S = (r, S') \<Longrightarrow> st_leftovers S' = st_leftovers S \<or> (\<exists>e. r = Inl e) \<and> en_leftover E (om_target_id m') \<noteq> None"
  using persist_result [of E m' S r S'] by auto

lemma delete_result:
  assumes "delete_manifest_objects E m now S = Ret (r, S')"
  shows "\<exists>R w. changed m R w S S' \<and> (\<forall>b. r = Inr b \<longrightarrow> w = Some (m\<lparr> om_state := Deleted, om_deleted_at := Some now \<rparr>)
      \<and> R = {p \<in> paths_of m. map_of (st_objects S) p \<noteq> None} \<and> manifest_ok E S m = Ret (Inr ()))"
proof -
  obtain a b where v: "validate_owned_store_and_object E S m False = Ret a" "validate_owned_store_and_object E S m True = Ret b"
    using assms by (cases "validate_owned_store_and_object E S m False"; cases "validate_owned_store_and_object E S m True")
      (auto simp: delete_manifest_objects_def)
  show ?thesis
  proof (cases "(\<exists>x. a = Inr x) \<and> (\<exists>y. b = Inr y)")
    case False
    then have "S' = S" "\<exists>e. r = Inl e" using assms v by (auto simp: delete_manifest_objects_def split: sum.splits)
    then show ?thesis by (intro exI [of _ "{}"] exI [of _ None]) auto
  next
    case True
    then obtain x y where xy: "a = Inr x" "b = Inr y" by auto
    let ?paths = "map the (filter (\<lambda>x. x \<noteq> None) [x, y])"
    note vp = validated_paths [OF v(1) [unfolded xy] v(2) [unfolded xy]]
    have reg: "p \<in> set ?paths \<Longrightarrow> p \<in> paths_of m \<and> map_of (st_objects S) p = Some Regular_File" for p
      using vp(4,6) by (metis (mono_tags, lifting) mem_Collect_eq not_None_eq object_file.exhaust)
    obtain g T where g: "remove_files E ?paths S = (g, T)" by force
    from remove_files_objects [OF g] obtain rs where rs: "set rs \<subseteq> set ?paths" "g \<longrightarrow> set rs = set ?paths"
      "T = S\<lparr> st_objects := filter (\<lambda>f. fst f \<notin> set rs) (st_objects S) \<rparr>" by blast
    let ?m = "m\<lparr> om_state := Deleted, om_deleted_at := Some now \<rparr>"
    have sub: "set rs \<subseteq> {p \<in> paths_of m. map_of (st_objects S) p = Some Regular_File}" using rs(1) reg by blast
    have keep: "changed m (set rs) None S T" by (rule changedI [where left = "st_leftovers S", OF sub]) (simp_all add: rs(3))
    have keep_written: "changed m (set rs) (Some ?m) S (T\<lparr> st_manifests := write_manifest ?m (st_manifests T) \<rparr>)"
      by (rule changedI [where left = "st_leftovers S", OF sub]) (auto simp: rs(3) same_object_def)
    have keep_left: "changed m (set rs) None S (T\<lparr> st_leftovers := left \<rparr>)" for left by (rule changedI [where left = left, OF sub]) (simp_all add: rs(3))
    have res: "(r, S') = (case (g, T) of (False, S') \<Rightarrow> (Inl CeRetentionBacklog, S')
        | (True, S') \<Rightarrow> if en_sync_fails E then (Inl CeRetentionBacklog, S')
            else (case persist_manifest E ?m S' of (Inl e, S'') \<Rightarrow> (Inl e, S'') | (Inr _, S'') \<Rightarrow> (Inr (?paths \<noteq> []), S'')))"
      using assms unfolding delete_manifest_objects_def v xy outcome_bind.simps Let_def prod.case sum.case g may_panic.inject by (rule sym)
    show ?thesis
    proof (cases "g \<and> \<not> en_sync_fails E \<and> fst (persist_manifest E ?m T) = Inr ()")
      case True
      obtain pr pS where ps: "persist_manifest E ?m T = (pr, pS)" by force
      with True persist_result [OF ps] res have "S' = T\<lparr> st_manifests := write_manifest ?m (st_manifests T) \<rparr>" by auto
      with keep_written True rs(2) vp(3,6) show ?thesis by blast
    next
      case False
      obtain pr pS where ps: "persist_manifest E ?m T = (pr, pS)" by force
      with False persist_result [OF ps] res have "(S' = T \<or> S' = T\<lparr> st_manifests := write_manifest ?m (st_manifests T) \<rparr> \<or> (\<exists>left. S' = T\<lparr> st_leftovers := left \<rparr>)) \<and> (\<exists>e. r = Inl e)"
        by (auto split: if_splits bool.splits)
      with keep keep_written keep_left show ?thesis by blast
    qed
  qed
qed

lemma changed_settled:
  assumes "changed m R (Some m') S S'" and "R = {p \<in> paths_of m. map_of (st_objects S) p \<noteq> None}" and "om_state m' \<noteq> Retained"
    and "st_root_ok S" and "st_object_dir S" and "manifest_ok E S m = Ret (Inr ())" and "raw_deadline E m = Inr x"
  shows "settled E now S' m'"
proof -
  obtain left where same: "same_object m m'"
    and S': "S' = S\<lparr> st_objects := filter (\<lambda>f. fst f \<notin> R) (st_objects S), st_manifests := write_manifest m' (st_manifests S), st_leftovers := left \<rparr>"
    using assms(1) by (auto simp: changed_def)
  have "map_of (st_objects S') p = None" if "p \<in> paths_of m" for p 
  proof -
    have "map_of (st_objects S') p = (if p \<in> R then None else map_of (st_objects S) p)" by (simp add: S' map_of_removed)
    then show ?thesis using that assms(2) by auto
  qed
  moreover have "manifest_ok E S' m' = Ret (Inr ())"
    using assms(6) unfolding same_object_facts(1) [OF same] by (simp add: S' manifest_ok_def)
  ultimately show ?thesis
    using assms(3-5,7) same_object_facts(2,3) [OF same] by (auto simp: settled_def S')
qed

definition written :: "object_manifest \<Rightarrow> object_manifest option \<Rightarrow> object_manifest" where
  "written m w = (case w of None \<Rightarrow> m | Some m' \<Rightarrow> m')"

text \<open>A step removes only what is due; it counts a failure or leaves its object settled.\<close>

definition step_ok :: "retention_env \<Rightarrow> int \<Rightarrow> bool \<Rightarrow> object_manifest \<Rightarrow> retention_report \<Rightarrow> retention_report crawl \<Rightarrow> retention_store \<Rightarrow> retention_store \<Rightarrow> bool" where
  "step_ok E now dry m report r S S' \<longleftrightarrow>
     (\<exists>R w. changed m R w S S' \<and> (dry \<longrightarrow> R = {} \<and> w = None) \<and> (R \<noteq> {} \<longrightarrow> named m \<and> (\<exists>x. raw_deadline E m = Inr x \<and> due now x m))
        \<and> (\<forall>report'. r = Inr report' \<longrightarrow> rr_failed report \<le> rr_failed report'
             \<and> (rr_failed report' = rr_failed report \<longrightarrow> \<not> dry \<longrightarrow> settled E now S' (written m w))))"

lemma step_ok_still:
  assumes "\<And>report'. r = Inr report' \<Longrightarrow> rr_failed report \<le> rr_failed report' \<and> (rr_failed report' = rr_failed report \<longrightarrow> \<not> dry \<longrightarrow> settled E now S m)"
  shows "step_ok E now dry m report r S S"
  unfolding step_ok_def by (intro exI [of _ "{}"] exI [of _ None]) (use assms in \<open>auto simp: written_def\<close>)

lemma run_step_ok:
  assumes "run_step E now dry m report S = Ret (r, S')"
  shows "step_ok E now dry m report r S S'"
proof -
  obtain a b where v: "validate_owned_store_and_object E S m False = Ret a" "validate_owned_store_and_object E S m True = Ret b"
    using assms by (cases "validate_owned_store_and_object E S m False"; cases "validate_owned_store_and_object E S m True") (auto simp: run_step_def)
  note step = assms [unfolded run_step_def Let_def v outcome_bind.simps]
  show ?thesis
  proof (cases "(\<exists>x. a = Inr x) \<and> (\<exists>y. b = Inr y)")
    case False
    then have "S' = S" "r = Inr (report\<lparr> rr_scanned := rr_scanned report + 1, rr_failed := rr_failed report + 1 \<rparr>)"
      using step by (auto split: sum.splits)
    then show ?thesis by (auto intro: step_ok_still)
  next
    case True
    then obtain x y where xy: "a = Inr x" "b = Inr y" by auto
    note vp = validated_paths [OF v(1) [unfolded xy] v(2) [unfolded xy]]
    note step = step [unfolded xy prod.case sum.case]
    show ?thesis
    proof (cases "raw_deadline E m")
      case (Inl e)
      with step have "S' = S" "r = Inl e" by auto
      then show ?thesis by (auto intro: step_ok_still)
    next
      case dl: (Inr raw)
      note step = step [unfolded dl sum.case]
      consider "x = None \<and> y = None" | "\<not> (x = None \<and> y = None)" "\<not> due now raw m" | "\<not> (x = None \<and> y = None)" "due now raw m" by blast
      then show ?thesis
      proof cases
        case 1
        note none = vp(5) [THEN iffD1, OF 1]
        show ?thesis
        proof (cases "om_state m = Pending \<and> \<not> dry")
          case True
          let ?m = "m\<lparr> om_state := Deleted, om_deleted_at := Some now \<rparr>"
          obtain pr pS where ps: "persist_manifest E ?m S = (pr, pS)" by force
          show ?thesis
          proof (cases pr)
            case (Inl e)
            with step 1 True ps persist_result [OF ps] have r: "S' = S \<or> S' = S\<lparr> st_manifests := write_manifest ?m (st_manifests S) \<rparr> \<or> (\<exists>left. S' = S\<lparr> st_leftovers := left \<rparr>)" "r = Inl e" by auto
            have "changed m {} None S (S\<lparr> st_leftovers := left \<rparr>)" for left by (rule changedI [where left = left]) simp_all
            moreover have "changed m {} (Some ?m) S (S\<lparr> st_manifests := write_manifest ?m (st_manifests S) \<rparr>)"
              by (rule changedI [where left = "st_leftovers S"]) (auto simp: same_object_def)
            ultimately have "changed m {} None S S' \<or> changed m {} (Some ?m) S S'" using r(1) changed_self by blast
            with r(2) True show ?thesis unfolding step_ok_def by (auto intro: exI [of _ "{}"] exI [of _ None] exI [of _ "Some ?m"])
          next
            case (Inr u)
            with step 1 True ps persist_result [OF ps] have r: "S' = S\<lparr> st_manifests := write_manifest ?m (st_manifests S) \<rparr>"
              "r = Inr (report\<lparr> rr_scanned := rr_scanned report + 1 \<rparr>)" by auto
            have c: "changed m {} (Some ?m) S S'" using r(1) by (auto intro!: changedI [where left = "st_leftovers S"] simp: same_object_def)
            have "settled E now S' ?m" by (rule changed_settled [OF c _ _ vp(1-3) dl]) (use none in auto)
            with c r(2) True show ?thesis unfolding step_ok_def by (intro exI [of _ "{}"] exI [of _ "Some ?m"]) (auto simp: written_def)
          qed
        next
          case False
          have S': "S' = S" "om_state m = Retained \<Longrightarrow> r = Inr (report\<lparr> rr_scanned := rr_scanned report + 1, rr_failed := rr_failed report + 1 \<rparr>)"
            "om_state m \<noteq> Retained \<Longrightarrow> r = Inr (report\<lparr> rr_scanned := rr_scanned report + 1 \<rparr>)"
            using step 1 False by (auto split: if_splits)
          have "settled E now S m" if "om_state m \<noteq> Retained" using that none vp(1-4) dl by (auto simp: settled_def)
          with S' show ?thesis by (cases "om_state m = Retained") (auto intro: step_ok_still)
        qed
      next
        case 2
        then have "S' = S" "r = Inr (report\<lparr> rr_scanned := rr_scanned report + 1 \<rparr>)" using step by auto
        moreover have "settled E now S m" using 2 vp dl by (auto simp: settled_def)
        ultimately show ?thesis by (auto intro: step_ok_still)
      next
        case 3
        show ?thesis
        proof (cases dry)
          case True
          then have "S' = S" "\<exists>report'. r = Inr report' \<and> rr_failed report' = rr_failed report" using step 3 by auto
          with True show ?thesis by (auto intro: step_ok_still)
        next
          case False
          let ?m = "if om_body_retention m = Body_Retained then m\<lparr> om_body_retention := Expired \<rparr> else m"
          obtain dr T where d: "delete_manifest_objects E ?m now S = Ret (dr, T)"
            using step 3 False by (cases "delete_manifest_objects E ?m now S") auto
          have T: "S' = T" "\<And>e. dr = Inl e \<Longrightarrow> \<exists>report'. r = Inr report' \<and> rr_failed report' = rr_failed report + 1"
            "\<And>g. dr = Inr g \<Longrightarrow> \<exists>report'. r = Inr report' \<and> rr_failed report' = rr_failed report"
            using step 3 False d by (auto split: sum.splits bool.splits)
          from delete_result [OF d] obtain R w where w: "changed ?m R w S T" "\<forall>g. dr = Inr g \<longrightarrow> w = Some (?m\<lparr> om_state := Deleted, om_deleted_at := Some now \<rparr>)
              \<and> R = {p \<in> paths_of ?m. map_of (st_objects S) p \<noteq> None} \<and> manifest_ok E S ?m = Ret (Inr ())" by blast
          have "same_object m ?m" by (simp add: same_object_def)
          then have c: "changed m R w S T" using w(1) by (rule changed_via)
          have "settled E now T (written m w)" if "dr = Inr g" for g
          proof -
            have ws: "w = Some (?m\<lparr> om_state := Deleted, om_deleted_at := Some now \<rparr>)" "R = {p \<in> paths_of m. map_of (st_objects S) p \<noteq> None}"
              using w(2) that same_object_facts(2) [OF \<open>same_object m ?m\<close>] by auto
            show ?thesis using changed_settled [OF c [unfolded ws(1)] ws(2) _ vp(1-3) dl] by (simp add: written_def ws(1))
          qed
          with c T 3(2) dl False manifest_ok_named [OF vp(3)] show ?thesis unfolding step_ok_def by (intro exI [of _ R] exI [of _ w]) (cases dr, auto)
        qed
      qed
    qed
  qed
qed

section \<open>The whole scan\<close>

lemma settled_frame:
  assumes "settled E now S m2" and "changed m R w S S'" and "R \<noteq> {} \<longrightarrow> named m" and "om_target_id m2 \<noteq> om_target_id m"
  shows "settled E now S' m2"
proof -
  have S': "st_root_ok S' = st_root_ok S" "st_object_dir S' = st_object_dir S" "st_store_id S' = st_store_id S"
    "st_objects S' = filter (\<lambda>f. fst f \<notin> R) (st_objects S)" "R \<subseteq> paths_of m" using assms(2) by (auto simp: changed_def)
  have ok: "manifest_ok E S' m2 = manifest_ok E S m2" by (simp add: manifest_ok_def S'(3))
  have n2: "named m2" using assms(1) manifest_ok_named by (auto simp: settled_def)
  have "p \<notin> R" if "p \<in> paths_of m2" for p
  proof
    assume p: "p \<in> R"
    then have "named m" using assms(3) by auto
    from paths_disjoint [OF this n2] assms(4) p S'(5) that show False by auto
  qed
  then have same: "map_of (st_objects S') p = map_of (st_objects S) p" if "p \<in> paths_of m2" for p using that by (simp add: S'(4) map_of_removed)
  then have all: "(\<forall>p \<in> paths_of m2. Q (map_of (st_objects S') p)) \<longleftrightarrow> (\<forall>p \<in> paths_of m2. Q (map_of (st_objects S) p))" for Q by simp
  show ?thesis using assms(1) unfolding settled_def ok S'(1,2) all [of "\<lambda>x. x \<noteq> Some Foreign_File"] all [of "\<lambda>x. x = None"] .
qed

lemma holds_changed:
  assumes "holds E S cs" and "changed m R w S S'" and "m \<in> set cs"
  shows "\<exists>cs'. holds E S' cs' \<and> list_all2 same_object cs cs' \<and> set cs' = insert (written m w) (set cs - {m})"
proof (cases w)
  case None
  then have "st_manifests S' = st_manifests S" using assms(2) by (auto simp: changed_def)
  then have "holds E S' cs" using assms(1) by (simp add: holds_def)
  then show ?thesis using None assms(3) by (intro exI [of _ cs]) (auto simp: written_def intro: list.rel_refl)
next
  case (Some m')
  then have w: "same_object m m'" "st_manifests S' = write_manifest m' (st_manifests S)" using assms(2) by (auto simp: changed_def)
  let ?f = "\<lambda>c. if om_target_id c = om_target_id m' then m' else c"
  have t: "om_target_id m' = om_target_id m" using w(1) by (simp add: same_object_def)
  have "holds E (S\<lparr> st_manifests := write_manifest m' (st_manifests S) \<rparr>) (map ?f cs)"
    by (rule holds_write [OF assms(1)]) (use t assms(3) in auto)
  then have h: "holds E S' (map ?f cs)" using w(2) by (simp add: holds_def)
  have only: "c = m" if "c \<in> set cs" "om_target_id c = om_target_id m" for c
    using assms(1,3) that by (metis holds_def distinct_map inj_onD)
  have "list_all2 same_object cs (map ?f cs)" unfolding list_all2_map2
    by (rule list.rel_refl_strong) (use only t w(1) in auto)
  moreover have "set (map ?f cs) = insert m' (set cs - {m})" using only t assms(3) by auto
  ultimately show ?thesis using h Some by (auto simp: written_def)
qed

definition objects_kept :: "retention_env \<Rightarrow> int \<Rightarrow> bool \<Rightarrow> object_manifest set \<Rightarrow> retention_store \<Rightarrow> retention_store \<Rightarrow> bool" where
  "objects_kept E now dry M S S' \<longleftrightarrow>
     (\<forall>p. map_of (st_objects S') p = map_of (st_objects S) p
        \<or> \<not> dry \<and> map_of (st_objects S) p = Some Regular_File \<and> map_of (st_objects S') p = None
          \<and> (\<exists>m \<in> M. \<exists>x. p \<in> paths_of m \<and> raw_deadline E m = Inr x \<and> due now x m))
     \<and> st_root_ok S' = st_root_ok S \<and> st_object_dir S' = st_object_dir S \<and> st_manifest_dir S' = st_manifest_dir S"

lemma step_objects_kept:
  assumes "changed m R w S S'" and "dry \<longrightarrow> R = {}" and "R \<noteq> {} \<longrightarrow> (\<exists>x. raw_deadline E m = Inr x \<and> due now x m)" and "m \<in> M"
  shows "objects_kept E now dry M S S'"
proof -
  have S': "st_root_ok S' = st_root_ok S" "st_object_dir S' = st_object_dir S" "st_manifest_dir S' = st_manifest_dir S"
    "st_objects S' = filter (\<lambda>f. fst f \<notin> R) (st_objects S)" "R \<subseteq> {p \<in> paths_of m. map_of (st_objects S) p = Some Regular_File}"
    using assms(1) by (auto simp: changed_def)
  show ?thesis unfolding objects_kept_def S'(4) map_of_removed using S' assms(2-4) by auto
qed

lemma objects_kept_trans:
  assumes "objects_kept E now dry M S S1" and "objects_kept E now dry M S1 S2"
  shows "objects_kept E now dry M S S2"
  unfolding objects_kept_def
proof (intro conjI allI)
  fix p
  show "map_of (st_objects S2) p = map_of (st_objects S) p
      \<or> \<not> dry \<and> map_of (st_objects S) p = Some Regular_File \<and> map_of (st_objects S2) p = None
        \<and> (\<exists>m \<in> M. \<exists>x. p \<in> paths_of m \<and> raw_deadline E m = Inr x \<and> due now x m)"
    using conjunct1 [OF assms(1) [unfolded objects_kept_def], rule_format, of p] conjunct1 [OF assms(2) [unfolded objects_kept_def], rule_format, of p]
    by (elim disjE conjE) simp_all
qed (use assms in \<open>simp_all add: objects_kept_def\<close>)

lemma run_manifests_result:
  assumes "holds E S cs" and "set ms \<subseteq> set cs" and "distinct ms" and "run_manifests E now dry ms report S = Ret (r, S')"
  shows "\<exists>cs'. holds E S' cs' \<and> list_all2 same_object cs cs' \<and> objects_kept E now dry (set ms) S S'
    \<and> (\<forall>report'. r = Inr report' \<longrightarrow> rr_failed report \<le> rr_failed report'
        \<and> (rr_failed report' = rr_failed report \<longrightarrow> \<not> dry \<longrightarrow> (\<forall>m \<in> set cs - set ms. settled E now S m) \<longrightarrow> (\<forall>m \<in> set cs'. settled E now S' m)))"
  using assms
proof (induction ms arbitrary: cs report S)
  case Nil
  then show ?case by (auto simp: objects_kept_def intro!: exI [of _ cs] list.rel_refl)
next
  case (Cons m ms)
  have mem: "m \<in> set cs" using Cons.prems(2) by simp
  obtain r1 S1 where st: "run_step E now dry m report S = Ret (r1, S1)"
    using Cons.prems(4) by (cases "run_step E now dry m report S") auto
  from run_step_ok [OF st, unfolded step_ok_def] obtain R w where c: "changed m R w S S1" "dry \<longrightarrow> R = {} \<and> w = None"
    "R \<noteq> {} \<longrightarrow> named m \<and> (\<exists>x. raw_deadline E m = Inr x \<and> due now x m)"
    "\<forall>report'. r1 = Inr report' \<longrightarrow> rr_failed report \<le> rr_failed report'
       \<and> (rr_failed report' = rr_failed report \<longrightarrow> \<not> dry \<longrightarrow> settled E now S1 (written m w))" by blast
  from holds_changed [OF Cons.prems(1) c(1) mem] obtain cs1 where cs1: "holds E S1 cs1" "list_all2 same_object cs cs1"
    "set cs1 = insert (written m w) (set cs - {m})" by blast
  have k1: "objects_kept E now dry (set (m # ms)) S S1" by (rule step_objects_kept [OF c(1)]) (use c in auto)
  show ?case
  proof (cases r1)
    case (Inl e)
    with Cons.prems(4) st have "S' = S1" "r = Inl e" by auto
    with cs1 k1 show ?thesis by auto
  next
    case (Inr report1)
    with Cons.prems(4) st have rest: "run_manifests E now dry ms report1 S1 = Ret (r, S')" by simp
    have sub: "set ms \<subseteq> set cs1" using Cons.prems(2,3) cs1(3) by auto
    from Cons.IH [OF cs1(1) sub _ rest] Cons.prems(3) obtain cs' where cs': "holds E S' cs'" "list_all2 same_object cs1 cs'"
      "objects_kept E now dry (set ms) S1 S'" and done': "\<forall>report'. r = Inr report' \<longrightarrow> rr_failed report1 \<le> rr_failed report'
        \<and> (rr_failed report' = rr_failed report1 \<longrightarrow> \<not> dry \<longrightarrow> (\<forall>m \<in> set cs1 - set ms. settled E now S1 m) \<longrightarrow> (\<forall>m \<in> set cs'. settled E now S' m))" by auto
    have k2: "objects_kept E now dry (set (m # ms)) S1 S'" using cs'(3) by (auto simp: objects_kept_def)
    have same: "list_all2 same_object cs cs'" by (rule list_all2_trans [OF same_object_trans cs1(2) cs'(2)])
    have others: "settled E now S1 c'" if "c' \<in> set cs1 - set ms" "settled E now S1 (written m w)" "\<forall>m' \<in> set cs - set (m # ms). settled E now S m'" for c'
    proof (cases "c' = written m w")
      case False
      then have c': "c' \<in> set cs" "c' \<noteq> m" "c' \<notin> set ms" using that(1) cs1(3) by auto
      then have "om_target_id c' \<noteq> om_target_id m" using Cons.prems(1) mem by (metis holds_def distinct_map inj_onD)
      moreover have "settled E now S c'" using that(3) c' by simp
      ultimately show ?thesis using settled_frame [OF _ c(1)] c(3) by blast
    qed (use that(2) in simp)
    have "rr_failed report \<le> rr_failed report' \<and> (rr_failed report' = rr_failed report \<longrightarrow> \<not> dry
        \<longrightarrow> (\<forall>m' \<in> set cs - set (m # ms). settled E now S m') \<longrightarrow> (\<forall>m' \<in> set cs'. settled E now S' m'))" if r: "r = Inr report'" for report'
    proof (intro conjI impI)
      have le: "rr_failed report \<le> rr_failed report1" "rr_failed report1 \<le> rr_failed report'" using c(4) Inr done' r by auto
      then show "rr_failed report \<le> rr_failed report'" by simp
      assume eq: "rr_failed report' = rr_failed report" and nd: "\<not> dry" and old: "\<forall>m' \<in> set cs - set (m # ms). settled E now S m'"
      have w: "settled E now S1 (written m w)" using c(4) Inr nd eq le by auto
      have "\<forall>m' \<in> set cs1 - set ms. settled E now S1 m'" using others [OF _ w old] by blast
      then show "\<forall>m' \<in> set cs'. settled E now S' m'" using done' r eq le nd by auto
    qed
    with cs'(1) same objects_kept_trans [OF k1 k2] show ?thesis by blast
  qed
qed

lemma run_failed_mono: "run_manifests E now dry ms report S = Ret (Inr report', S') \<Longrightarrow> rr_failed report \<le> rr_failed report'"
proof (induction ms arbitrary: report S)
  case (Cons m ms)
  obtain r1 S1 where st: "run_step E now dry m report S = Ret (r1, S1)" using Cons.prems by (cases "run_step E now dry m report S") auto
  with Cons.prems obtain report1 where r1: "r1 = Inr report1" by (cases r1) auto
  have "rr_failed report \<le> rr_failed report1" using run_step_ok [OF st] r1 by (auto simp: step_ok_def)
  then show ?case using Cons st r1 by fastforce
qed simp

text \<open>A temporary is left behind only by a failure, and a failure is counted or ends the scan.\<close>

lemma remove_files_leftovers: "remove_files E ps S = (g, T) \<Longrightarrow> st_leftovers T = st_leftovers S"
  by (induction ps arbitrary: S) (auto split: if_splits)

lemma delete_leftovers:
  assumes "delete_manifest_objects E m now S = Ret (r, S')"
  shows "st_leftovers S' = st_leftovers S \<or> (\<exists>e. r = Inl e) \<and> (\<exists>t. en_leftover E t \<noteq> None)"
proof -
  obtain a b where v: "validate_owned_store_and_object E S m False = Ret a" "validate_owned_store_and_object E S m True = Ret b"
    using assms by (cases "validate_owned_store_and_object E S m False"; cases "validate_owned_store_and_object E S m True")
      (auto simp: delete_manifest_objects_def)
  show ?thesis
  proof (cases "(\<exists>x. a = Inr x) \<and> (\<exists>y. b = Inr y)")
    case False
    then show ?thesis using assms v by (auto simp: delete_manifest_objects_def split: sum.splits)
  next
    case True
    then obtain x y where xy: "a = Inr x" "b = Inr y" by auto
    let ?paths = "map the (filter (\<lambda>x. x \<noteq> None) [x, y])" and ?m = "m\<lparr> om_state := Deleted, om_deleted_at := Some now \<rparr>"
    obtain g T where g: "remove_files E ?paths S = (g, T)" by force
    obtain pr pS where ps: "persist_manifest E ?m T = (pr, pS)" by force
    have "(r, S') = (if g \<and> \<not> en_sync_fails E then (case pr of Inl e \<Rightarrow> (Inl e, pS) | Inr _ \<Rightarrow> (Inr (?paths \<noteq> []), pS)) else (Inl CeRetentionBacklog, T))"
      using assms unfolding delete_manifest_objects_def v xy outcome_bind.simps Let_def prod.case sum.case g may_panic.inject
      by (cases g; cases pr) (auto simp: ps)
    then show ?thesis using remove_files_leftovers [OF g] persist_leftovers [OF ps] by (auto split: if_splits sum.splits)
  qed
qed

lemma step_leftovers:
  assumes "run_step E now dry m report S = Ret (r, S')"
  shows "st_leftovers S' = st_leftovers S \<or> (\<exists>t. en_leftover E t \<noteq> None) \<and> (\<forall>report'. r = Inr report' \<longrightarrow> rr_failed report < rr_failed report')"
proof -
  obtain a b where v: "validate_owned_store_and_object E S m False = Ret a" "validate_owned_store_and_object E S m True = Ret b"
    using assms by (cases "validate_owned_store_and_object E S m False"; cases "validate_owned_store_and_object E S m True") (auto simp: run_step_def)
  note step = assms [unfolded run_step_def Let_def v outcome_bind.simps]
  show ?thesis
  proof (cases "\<exists>x y raw. a = Inr x \<and> b = Inr y \<and> raw_deadline E m = Inr raw")
    case False
    then have "S' = S" using step by (auto split: sum.splits)
    then show ?thesis by simp
  next
    case True
    then obtain x y raw where xy: "a = Inr x" "b = Inr y" "raw_deadline E m = Inr raw" by blast
    note step = step [unfolded xy prod.case sum.case]
    let ?m = "m\<lparr> om_state := Deleted, om_deleted_at := Some now \<rparr>" and ?d = "if om_body_retention m = Body_Retained then m\<lparr> om_body_retention := Expired \<rparr> else m"
    obtain pr pS where ps: "persist_manifest E ?m S = (pr, pS)" by force
    consider "S' = S" | "S' = pS" "\<And>e. pr = Inl e \<Longrightarrow> r = Inl e"
      | dr where "delete_manifest_objects E ?d now S = Ret (dr, S')" "\<And>e. dr = Inl e \<Longrightarrow> \<exists>report'. r = Inr report' \<and> rr_failed report' = rr_failed report + 1"
    proof (cases "x = None \<and> y = None")
      case True
      with step ps show thesis using that(1,2) by (auto split: if_splits sum.splits)
    next
      case False
      show thesis
      proof (cases "due now raw m \<and> \<not> dry")
        case True
        obtain dr T where d: "delete_manifest_objects E ?d now S = Ret (dr, T)" using step False True by (cases "delete_manifest_objects E ?d now S") auto
        then have "S' = T" "\<And>e. dr = Inl e \<Longrightarrow> \<exists>report'. r = Inr report' \<and> rr_failed report' = rr_failed report + 1"
          using step False True by (auto split: sum.splits bool.splits)
        with d show thesis using that(3) by blast
      next
        case False
        with step \<open>\<not> (x = None \<and> y = None)\<close> have "S' = S" by (auto split: if_splits)
        then show thesis by (rule that(1))
      qed
    qed
    then show ?thesis
    proof cases
      case 2
      then show ?thesis using persist_leftovers [OF ps] by auto
    next
      case 3
      then show ?thesis using delete_leftovers [OF 3(1)] by auto
    qed simp
  qed
qed

lemma run_leftovers:
  assumes "run_manifests E now dry ms report S = Ret (r, S')"
  shows "st_leftovers S' = st_leftovers S \<or> (\<exists>t. en_leftover E t \<noteq> None) \<and> (\<forall>report'. r = Inr report' \<longrightarrow> rr_failed report < rr_failed report')"
  using assms
proof (induction ms arbitrary: report S)
  case (Cons m ms)
  obtain r1 S1 where st: "run_step E now dry m report S = Ret (r1, S1)" using Cons.prems by (cases "run_step E now dry m report S") auto
  show ?case
  proof (cases r1)
    case (Inl e)
    then show ?thesis using Cons.prems st step_leftovers [OF st] by auto
  next
    case (Inr report1)
    then have rest: "run_manifests E now dry ms report1 S1 = Ret (r, S')" using Cons.prems st by simp
    have "rr_failed report \<le> rr_failed report1" using run_step_ok [OF st] Inr by (auto simp: step_ok_def)
    moreover have "rr_failed report1 \<le> rr_failed report'" if "r = Inr report'" for report' using run_failed_mono [OF rest [unfolded that]] .
    ultimately show ?thesis using Cons.IH [OF rest] step_leftovers [OF st] Inr by (metis le_less_trans less_le_trans)
  qed
qed simp

lemma run_step_dry_settled:
  assumes "settled E now S m"
  shows "run_step E now True m report S = Ret (Inr (report\<lparr> rr_scanned := rr_scanned report + 1 \<rparr>), S)"
proof -
  obtain a b where v: "validate_owned_store_and_object E S m False = Ret (Inr a)" "validate_owned_store_and_object E S m True = Ret (Inr b)"
    using settled_validates [OF assms] by blast
  note vp = validated_paths [OF v]
  obtain x where x: "raw_deadline E m = Inr x"
    "if \<forall>p \<in> paths_of m. map_of (st_objects S) p = None then om_state m \<noteq> Retained else \<not> due now x m" using assms by (auto simp: settled_def)
  show ?thesis
  proof (cases "a = None \<and> b = None")
    case True
    then have "om_state m \<noteq> Retained" using x(2) vp(5) by simp
    with True v x(1) show ?thesis by (simp add: run_step_def)
  next
    case False
    then have "\<not> due now x m" using x(2) vp(5) by (auto split: if_splits)
    with False v x(1) show ?thesis by (auto simp: run_step_def Let_def)
  qed
qed

lemma run_manifests_dry_settled:
  "\<forall>m \<in> set ms. settled E now S m \<Longrightarrow> run_manifests E now True ms report S = Ret (Inr (report\<lparr> rr_scanned := rr_scanned report + length ms \<rparr>), S)"
  by (induction ms arbitrary: report) (simp_all add: run_step_dry_settled)

lemma manifests_holds: "manifests E S = Inr ms \<Longrightarrow> distinct (map mf_stem (st_manifests S)) \<Longrightarrow> \<exists>cs. holds E S cs \<and> ms = sort_key om_target_id cs"
proof -
  assume m: "manifests E S = Inr ms" and d: "distinct (map mf_stem (st_manifests S))"
  obtain cs where cs: "res_map (read_manifest E) (st_manifests S) = Inr cs" "ms = sort_key om_target_id cs"
    using m by (auto simp: manifests_def res_simps split: if_splits)
  have "list_all2 (\<lambda>f c. read_manifest E f = Inr c) (st_manifests S) cs" using cs(1) by (simp add: res_map_Inr_iff)
  then have "map mf_stem (st_manifests S) = map om_target_id cs"
    by (induction rule: list_all2_induct) (simp_all add: read_manifest_iff)
  with cs d show ?thesis by (auto simp: holds_def)
qed

lemma known_paths_set: "set (known_paths ms) = (\<Union>m \<in> set ms. paths_of m)"
  by (auto simp: known_paths_def paths_of_def)

lemma same_objects_paths: "list_all2 same_object cs cs' \<Longrightarrow> (\<Union>m \<in> set cs. paths_of m) = (\<Union>m \<in> set cs'. paths_of m)"
  by (induction rule: list_all2_induct) (simp_all add: same_object_facts(2))

lemma holds_content: "holds E S cs \<Longrightarrow> m \<in> set cs \<Longrightarrow> \<exists>f \<in> set (st_manifests S). mf_content f = Some m"
proof -
  assume h: "holds E S cs" and "m \<in> set cs"
  then obtain i where i: "i < length cs" "cs ! i = m" by (auto simp: in_set_conv_nth)
  from h have "list_all2 (\<lambda>f c. read_manifest E f = Inr c) (st_manifests S) cs" by (simp add: holds_def res_map_Inr_iff)
  from list_all2_nthD2 [OF this i(1)] list_all2_lengthD [OF this] i show ?thesis by (auto simp: read_manifest_iff)
qed

text \<open>
  C25: A retention run that reports success leaves nothing due behind. Every raw object still in the store is a regular file of a
  retained manifest whose body may be kept and whose deadline, the earlier of its original one and the configured age, has
  not been reached, and an independent scan of the resulting store succeeds.
\<close>

theorem retention_purges:
  assumes "distinct (map mf_stem (st_manifests S))" and "retention_run E now False S = Ret (Inr report, S')" and "ensure_success report = Inr ()"
  shows "(\<forall>path. map_of (st_objects S') path \<noteq> None \<longrightarrow>
      (\<exists>f \<in> set (st_manifests S'). \<exists>m x. mf_content f = Some m \<and> path \<in> paths_of m \<and> map_of (st_objects S') path = Some Regular_File
        \<and> om_state m = Retained \<and> om_body_retention m = Body_Retained \<and> raw_deadline E m = Inr x \<and> now < x \<and> x \<le> om_raw_expires_at m))
    \<and> (\<exists>r. retention_scan E now S' = Ret (Inr r))"
proof -
  obtain ms r0 where ms: "st_root_ok S" "manifests E S = Inr ms" "run_manifests E now False ms empty_report S = Ret (Inr r0, S')" "st_object_dir S'"
    and rep: "report = r0\<lparr> rr_failed := rr_failed r0 + length (filter (\<lambda>f. fst f \<notin> set (known_paths ms)) (st_objects S')) \<rparr>"
    using assms(2) by (cases "manifests E S"; cases "run_manifests E now False (projr (manifests E S)) empty_report S")
      (auto simp: retention_run_def split: if_splits sum.splits)
  have zero: "rr_failed report = 0" using assms(3) by (auto simp: ensure_success_def split: if_splits)
  from manifests_holds [OF ms(2) assms(1)] obtain cs where cs: "holds E S cs" "ms = sort_key om_target_id cs" by blast
  have "distinct ms" "set ms = set cs" using cs by (auto simp: holds_def distinct_map)
  with run_manifests_result [OF cs(1) _ _ ms(3)] obtain cs' where cs': "holds E S' cs'" "list_all2 same_object cs cs'"
    "objects_kept E now False (set ms) S S'" and all: "\<forall>m \<in> set cs'. settled E now S' m"
    using zero rep by (auto simp: empty_report_def)
  have known: "set (known_paths ms) = (\<Union>m \<in> set cs'. paths_of m)"
    using same_objects_paths [OF cs'(2)] \<open>set ms = set cs\<close> by (simp add: known_paths_set)
  have in_known: "fst f \<in> (\<Union>m \<in> set cs'. paths_of m)" if "f \<in> set (st_objects S')" for f
    using zero rep that known by (auto simp: filter_empty_conv)
  have kept: "\<exists>f \<in> set (st_manifests S'). \<exists>m x. mf_content f = Some m \<and> path \<in> paths_of m \<and> map_of (st_objects S') path = Some Regular_File
      \<and> om_state m = Retained \<and> om_body_retention m = Body_Retained \<and> raw_deadline E m = Inr x \<and> now < x \<and> x \<le> om_raw_expires_at m"
    if "map_of (st_objects S') path \<noteq> None" for path
  proof -
    from that obtain k where k: "map_of (st_objects S') path = Some k" by (cases "map_of (st_objects S') path") blast+
    from in_known [OF map_of_SomeD [OF k]] obtain m where m: "m \<in> set cs'" "path \<in> paths_of m" by auto
    from all m(1) have s: "settled E now S' m" by blast
    then obtain x where x: "raw_deadline E m = Inr x" "\<not> due now x m" using k m(2) by (auto simp: settled_def split: if_splits)
    have "map_of (st_objects S') path = Some Regular_File" using s m(2) k by (cases k) (auto simp: settled_def)
    moreover have "x \<le> om_raw_expires_at m" using x(1) by (auto simp: raw_deadline_def Let_def split: if_splits)
    moreover have "now < x" "om_state m = Retained" "om_body_retention m = Body_Retained" using x(2) by (auto simp: due_def)
    ultimately show ?thesis using holds_content [OF cs'(1) m(1)] m(2) x(1) by blast
  qed
  have dir: "st_root_ok S'" "st_manifest_dir S'" using cs'(3) ms(1,2) by (auto simp: objects_kept_def manifests_def split: if_splits)
  have left: "st_leftovers S' = []" using run_leftovers [OF ms(3)] ms(2) zero rep by (auto simp: manifests_def empty_report_def split: if_splits)
  let ?ms = "sort_key om_target_id cs'"
  have m': "manifests E S' = Inr ?ms" using cs'(1) dir left by (simp add: manifests_def holds_def)
  have "run_manifests E now True ?ms empty_report S' = Ret (Inr (empty_report\<lparr> rr_scanned := rr_scanned empty_report + length ?ms \<rparr>), S')"
    by (rule run_manifests_dry_settled) (use all in simp)
  moreover have "filter (\<lambda>f. fst f \<notin> set (known_paths ?ms)) (st_objects S') = []"
    using in_known by (auto simp: filter_empty_conv known_paths_set)
  ultimately have "retention_run E now True S' = Ret (Inr (empty_report\<lparr> rr_scanned := length ?ms \<rparr>), S')"
    using dir m' ms(4) by (simp add: retention_run_def empty_report_def)
  then have "\<exists>r. retention_scan E now S' = Ret (Inr r)"
    by (simp add: retention_scan_def empty_report_def ensure_success_def saturating_add_u64_def)
  with kept show ?thesis by blast
qed

text \<open>
  C31: A retention run touches nothing else. Whether it succeeds or stops with an error, every raw object it removes was a regular
  file of a manifest that was due at that instant, every other file, unknown and foreign ones included, is as before, a dry
  run removes nothing, and each manifest keeps its identity, its time of parsing and its original deadline. Only a failed write of a
  manifest that also leaves its temporary can make the directory unreadable, and the manifests beside the temporaries are then the same.
\<close>

theorem retention_only_due:
  assumes "distinct (map mf_stem (st_manifests S))" and "retention_run E now dry S = Ret (r, S')"
  shows "(\<forall>path. map_of (st_objects S') path = map_of (st_objects S) path
      \<or> \<not> dry \<and> map_of (st_objects S) path = Some Regular_File \<and> map_of (st_objects S') path = None
        \<and> (\<exists>f \<in> set (st_manifests S). \<exists>m x. mf_content f = Some m \<and> path \<in> paths_of m \<and> raw_deadline E m = Inr x \<and> due now x m))
    \<and> (\<forall>ms. manifests E S = Inr ms \<longrightarrow> (\<exists>ms'. manifests E (S'\<lparr> st_leftovers := [] \<rparr>) = Inr ms'
        \<and> ((\<forall>t. en_leftover E t = None) \<longrightarrow> manifests E S' = Inr ms')
        \<and> (\<lambda>m. (om_target_id m, om_parsed_at m, om_raw_expires_at m)) ` set ms = (\<lambda>m. (om_target_id m, om_parsed_at m, om_raw_expires_at m)) ` set ms'))"
proof (cases "st_root_ok S \<and> (\<exists>ms. manifests E S = Inr ms)")
  case False
  then have "S' = S" using assms(2) by (auto simp: retention_run_def split: sum.splits if_splits)
  moreover have "S\<lparr> st_leftovers := [] \<rparr> = S" if "manifests E S = Inr ms" for ms using that by (auto simp: manifests_def split: if_splits)
  ultimately show ?thesis by auto
next
  case True
  then obtain ms where ms: "st_root_ok S" "manifests E S = Inr ms" by blast
  obtain r0 where run: "run_manifests E now dry ms empty_report S = Ret (r0, S')"
    using assms(2) ms by (cases "run_manifests E now dry ms empty_report S") (auto simp: retention_run_def split: sum.splits if_splits)
  from manifests_holds [OF ms(2) assms(1)] obtain cs where cs: "holds E S cs" "ms = sort_key om_target_id cs" by blast
  have sub: "set ms \<subseteq> set cs" "distinct ms" using cs by (auto simp: holds_def distinct_map)
  from run_manifests_result [OF cs(1) sub run] obtain cs' where cs': "holds E S' cs'" "list_all2 same_object cs cs'"
    "objects_kept E now dry (set ms) S S'" by blast
  have "manifests E (S'\<lparr> st_leftovers := [] \<rparr>) = Inr (sort_key om_target_id cs')"
    using cs'(1,3) ms by (auto simp: manifests_def holds_def objects_kept_def split: if_splits)
  moreover have "S'\<lparr> st_leftovers := [] \<rparr> = S'" if "\<forall>t. en_leftover E t = None"
    using run_leftovers [OF run] ms(2) that by (auto simp: manifests_def split: if_splits)
  moreover have "(\<lambda>m. (om_target_id m, om_parsed_at m, om_raw_expires_at m)) ` set cs = (\<lambda>m. (om_target_id m, om_parsed_at m, om_raw_expires_at m)) ` set cs'"
    using cs'(2) by (induction rule: list_all2_induct) (auto simp: same_object_def)
  ultimately have kept: "\<exists>ms'. manifests E (S'\<lparr> st_leftovers := [] \<rparr>) = Inr ms' \<and> ((\<forall>t. en_leftover E t = None) \<longrightarrow> manifests E S' = Inr ms')
      \<and> (\<lambda>m. (om_target_id m, om_parsed_at m, om_raw_expires_at m)) ` set ms = (\<lambda>m. (om_target_id m, om_parsed_at m, om_raw_expires_at m)) ` set ms'"
    using cs(2) by (intro exI [of _ "sort_key om_target_id cs'"]) auto
  have "\<forall>m \<in> set ms. \<exists>f \<in> set (st_manifests S). mf_content f = Some m" using holds_content [OF cs(1)] sub by blast
  with cs'(3) have "\<forall>path. map_of (st_objects S') path = map_of (st_objects S) path
      \<or> \<not> dry \<and> map_of (st_objects S) path = Some Regular_File \<and> map_of (st_objects S') path = None
        \<and> (\<exists>f \<in> set (st_manifests S). \<exists>m x. mf_content f = Some m \<and> path \<in> paths_of m \<and> raw_deadline E m = Inr x \<and> due now x m)"
    unfolding objects_kept_def by metis
  with kept ms(2) show ?thesis by auto
qed

section \<open>A sample store\<close>

definition sample_manifest :: "string \<Rightarrow> int \<Rightarrow> object_manifest" where
  "sample_manifest t parsed = \<lparr> om_schema_version = 1, om_store_id = ''s'', om_target_id = t, om_url_key = replicate 64 CHR ''a'',
     om_body_object = ''objects/'' @ t @ ''.warc.gz'', om_parsed_at = parsed, om_raw_expires_at = parsed + days 30, om_body_bytes = 1, om_object_bytes = 1,
     om_state = Retained, om_body_retention = Body_Retained, om_deleted_at = None \<rparr>"

definition sample_env :: retention_env where
  "sample_env = \<lparr> en_is_uuid = (\<lambda>s. True), en_last_instant = 10 ^ 30, en_max_age_days = 30, en_remove_fails = (\<lambda>_. False),
     en_sync_fails = False, en_persist = (\<lambda>_. WriteOk), en_leftover = (\<lambda>_. None) \<rparr>"

definition sample_store :: retention_store where
  "sample_store = \<lparr> st_root_ok = True, st_store_id = ''s'', st_manifest_dir = True, st_object_dir = True,
     st_manifests = [\<lparr> mf_regular = True, mf_json = True, mf_stem = ''a'', mf_content = Some (sample_manifest ''a'' 0) \<rparr>],
     st_objects = [(''objects/a.warc.gz'', Regular_File)], st_leftovers = [] \<rparr>"

lemmas retention_eval = sample_store_def sample_env_def sample_manifest_def retention_run_def manifests_def read_manifest_def object_name_def
  run_step_def validate_owned_store_and_object_def manifest_ok_def object_at_def staging_name_def raw_deadline_def due_def valid_key_def
  is_ascii_digit_def delete_manifest_objects_def persist_manifest_def write_manifest_def known_paths_def empty_report_def Let_def

lemma sample_run:
  "retention_run sample_env (days 31) False sample_store
    = Ret (Inr \<lparr> rr_scanned = 1, rr_expired = 1, rr_deleted = 1, rr_failed = 0, rr_oldest_overdue = 0 \<rparr>,
        sample_store\<lparr> st_objects := [], st_manifests := [\<lparr> mf_regular = True, mf_json = True, mf_stem = ''a'',
          mf_content = Some ((sample_manifest ''a'' 0)\<lparr> om_state := Deleted, om_body_retention := Expired, om_deleted_at := Some (days 31) \<rparr>) \<rparr>] \<rparr>)"
  by (simp add: retention_eval list_all_iff)

theorem retention_purges_witness:
  "\<exists>r S'. retention_run sample_env (days 31) False sample_store = Ret (Inr r, S') \<and> (\<exists>u. retention_scan sample_env (days 31) S' = Ret (Inr u))"
proof -
  have "distinct (map mf_stem (st_manifests sample_store))" by (simp add: sample_store_def)
  from retention_purges [OF this sample_run] sample_run show ?thesis by (simp add: ensure_success_def)
qed

theorem retention_only_due_witness:
  "\<exists>f \<in> set (st_manifests sample_store). \<exists>m x. mf_content f = Some m \<and> raw_deadline sample_env m = Inr x \<and> due (days 31) x m"
proof -
  have "distinct (map mf_stem (st_manifests sample_store))" by (simp add: sample_store_def)
  from conjunct1 [OF retention_only_due [OF this sample_run], rule_format, of "''objects/a.warc.gz''"] show ?thesis
    by (auto simp: sample_store_def)
qed

end
