(* ===== verification/Document_Record.thy ===== *)
theory Document_Record
  imports Ingestion Directives Retention Robots_Txt
begin

text \<open>
  The evidence the crawler keeps of a target (\<open>core/src/crawler/record.rs\<close>): the record with its explicit absences, the record
  of a target at admission, the capture of declared metadata, the policy applied to a parsed document, and the validation every
  stored record passes. Instants are nanoseconds. The digest, the uuid grammar, the JSON parser, the url crate and the HTML
  document are parameters.
\<close>

section \<open>Data\<close>

datatype absence_reason = NotAttempted | NoResponse | IncompleteBody | NotDeclared | InvalidDeclaration | InvalidInput | NotParsed
  | NotApplicable

datatype 'a observation = Present 'a | Absent_Observation absence_reason

fun obs_value :: "'a observation \<Rightarrow> 'a option" where
  "obs_value (Present x) = Some x"
| "obs_value (Absent_Observation _) = None"

definition obs_is_none :: "'a observation \<Rightarrow> bool" where
  "obs_is_none x \<longleftrightarrow> obs_value x = None"

datatype content_hash_source = CurrentResponse | PreviousSuccess | Unavailable

datatype reuse_scope = SearchIndexOnly

datatype tombstone_scope = Url_Scope | Host_Scope

record tombstone =
  ts_scope :: tombstone_scope
  ts_observed_at_utc :: int
  ts_delete_due_at_utc :: int

record validators =
  vd_etag :: "string option"
  vd_last_modified :: "string option"

record document_record =
  dr_schema_version :: nat
  dr_target_id :: string
  dr_run_id :: string
  dr_canonical_url :: "string observation"
  dr_requested_url :: "string observation"
  dr_final_url :: "string observation"
  dr_url_key :: "string observation"
  dr_canonical_key :: "string observation"
  dr_retrieved_at_utc :: "int observation"
  dr_parsed_at_utc :: "int observation"
  dr_http_status :: "nat observation"
  dr_content_sha256 :: "string observation"
  dr_content_hash_source :: content_hash_source
  dr_robots :: "robots_snapshot observation"
  dr_directives :: effective_directives
  dr_directives_seen :: "directive_observation list"
  dr_rights :: rights_signals
  dr_rel_canonical :: "string observation"
  dr_publisher_name :: "string observation"
  dr_site_name :: "string observation"
  dr_title :: "string observation"
  dr_source_domain :: "string observation"
  dr_declared_language :: "string observation"
  dr_declared_languages :: "string list"
  dr_language :: "string observation"
  dr_crawl_policy_version :: string
  dr_exclusion_version :: string
  dr_retention_policy_version :: string
  dr_policy_config_sha256 :: string
  dr_identity_version :: string
  dr_fetch_time_ms :: "nat observation"
  dr_queue_time_ms :: "nat observation"
  dr_body_bytes :: "nat observation"
  dr_retained_body_bytes :: nat
  dr_media_type :: "string observation"
  dr_charset :: "string observation"
  dr_charset_fallback :: bool
  dr_validators :: validators
  dr_index_eligible :: bool
  dr_index_only :: bool
  dr_cached_copy :: bool
  dr_snippet_limit_chars :: nat
  dr_snippet_text :: "string option"
  dr_recognized_news :: bool
  dr_paywall_detected :: bool
  dr_publisher_snippet_permission :: "bool observation"
  dr_image_storage_allowed :: bool
  dr_reuse_scope :: reuse_scope
  dr_body_retention :: body_retention
  dr_raw_expires_at_utc :: "int option"
  dr_refresh_due_at_utc :: "int option"
  dr_unavailable_after_utc :: "int option"
  dr_tombstone :: "tombstone option"
  dr_content_classes :: "content_class list"
  dr_content_policies :: "content_policy list"
  dr_hosting_country :: hosting_country
  dr_exclusion_matches :: "exclusion_match list"
  dr_effective_gap_ms :: nat
  dr_retry_at_utc :: "int option"
  dr_blocked_until_utc :: "int option"
  dr_block_reason :: "block_reason option"
  dr_consecutive_rate_responses :: nat
  dr_retry_after_invalid :: bool

section \<open>Validators\<close>

definition validator_text_ok :: "string \<Rightarrow> bool" where
  "validator_text_ok value \<longleftrightarrow> value \<noteq> [] \<and> length value \<le> 1024 \<and> \<not> list_ex is_control (chars value)"

definition safe_validator :: "response_headers \<Rightarrow> string \<Rightarrow> string option" where
  "safe_validator H name =
     (if headers_invalid H name then None
      else case headers_all H name of
             [value] \<Rightarrow> if validator_text_ok value then Some value else None
           | _ \<Rightarrow> None)"

definition validators_from_headers :: "response_headers \<Rightarrow> validators" where
  "validators_from_headers H = \<lparr> vd_etag = safe_validator H ''etag'', vd_last_modified = safe_validator H ''last-modified'' \<rparr>"

definition validators_request_headers :: "validators \<Rightarrow> (string \<times> string) list" where
  "validators_request_headers v =
     (case vd_etag v of None \<Rightarrow> [] | Some e \<Rightarrow> [(''If-None-Match'', e)])
     @ (case vd_last_modified v of None \<Rightarrow> [] | Some m \<Rightarrow> [(''If-Modified-Since'', m)])"

definition no_validators :: validators where
  "no_validators = \<lparr> vd_etag = None, vd_last_modified = None \<rparr>"

definition validators_valid :: "validators \<Rightarrow> bool" where
  "validators_valid v \<longleftrightarrow> (\<forall>x \<in> set_option (vd_etag v) \<union> set_option (vd_last_modified v). validator_text_ok x)"

section \<open>The record of an admission\<close>

record record_env =
  re_url :: url_lib
  re_sha256 :: "string \<Rightarrow> string"
  re_is_uuid :: "string \<Rightarrow> bool"
  re_last_instant :: int
  re_pkg_version :: string
  re_policy_sha256 :: "ingestion_policy \<Rightarrow> string"

definition url_key :: "record_env \<Rightarrow> web_url \<Rightarrow> string" where
  "url_key E url = re_sha256 E (ul_safe (re_url E) url)"

definition observed :: "absence_reason \<Rightarrow> 'a option \<Rightarrow> 'a observation" where
  "observed reason x = (case x of Some v \<Rightarrow> Present v | None \<Rightarrow> Absent_Observation reason)"

definition pending_record :: "record_env \<Rightarrow> ingestion_policy \<Rightarrow> string \<Rightarrow> string \<Rightarrow> web_url option \<Rightarrow> document_record" where
  "pending_record E p run_id target_id url =
     \<lparr> dr_schema_version = 1, dr_target_id = target_id, dr_run_id = run_id,
       dr_canonical_url = Absent_Observation NotAttempted,
       dr_requested_url = observed InvalidInput (map_option (ul_safe (re_url E)) url),
       dr_final_url = Absent_Observation NotAttempted,
       dr_url_key = observed InvalidInput (map_option (url_key E) url),
       dr_canonical_key = Absent_Observation NotAttempted, dr_retrieved_at_utc = Absent_Observation NotAttempted,
       dr_parsed_at_utc = Absent_Observation NotParsed, dr_http_status = Absent_Observation NoResponse,
       dr_content_sha256 = Absent_Observation IncompleteBody, dr_content_hash_source = Unavailable,
       dr_robots = Absent_Observation NotAttempted, dr_directives = no_restriction, dr_directives_seen = [], dr_rights = no_rights,
       dr_rel_canonical = Absent_Observation NotDeclared, dr_publisher_name = Absent_Observation NotDeclared,
       dr_site_name = Absent_Observation NotDeclared, dr_title = Absent_Observation NotDeclared,
       dr_source_domain = observed InvalidInput (Option.bind url (\<lambda>u. case host_key_from_url u of Inr h \<Rightarrow> Some h | Inl _ \<Rightarrow> None)),
       dr_declared_language = Absent_Observation NotDeclared, dr_declared_languages = [], dr_language = Absent_Observation NotDeclared,
       dr_crawl_policy_version = ip_version p, dr_exclusion_version = xc_version (ip_exclusions p),
       dr_retention_policy_version = ip_version p, dr_policy_config_sha256 = re_policy_sha256 E p,
       dr_identity_version = re_pkg_version E,
       dr_fetch_time_ms = Absent_Observation NotAttempted, dr_queue_time_ms = Absent_Observation NotAttempted,
       dr_body_bytes = Absent_Observation NoResponse, dr_retained_body_bytes = 0,
       dr_media_type = Absent_Observation NotDeclared, dr_charset = Absent_Observation NotParsed, dr_charset_fallback = False,
       dr_validators = no_validators, dr_index_eligible = False, dr_index_only = False, dr_cached_copy = False,
       dr_snippet_limit_chars = rc_snippet_max_chars (ip_retention p), dr_snippet_text = None, dr_recognized_news = False,
       dr_paywall_detected = False, dr_publisher_snippet_permission = Absent_Observation NotDeclared, dr_image_storage_allowed = False,
       dr_reuse_scope = SearchIndexOnly, dr_body_retention = body_retention.NotReceived, dr_raw_expires_at_utc = None,
       dr_refresh_due_at_utc = None, dr_unavailable_after_utc = None, dr_tombstone = None, dr_content_classes = [],
       dr_content_policies = [], dr_hosting_country = Unknown_Country NotResolved, dr_exclusion_matches = [],
       dr_effective_gap_ms = pl_gap_ms (ip_politeness p), dr_retry_at_utc = None, dr_blocked_until_utc = None, dr_block_reason = None,
       dr_consecutive_rate_responses = 0, dr_retry_after_invalid = False \<rparr>"

section \<open>Policy\<close>

text \<open>Adding days with the checked addition of chrono.\<close>

definition checked_days :: "record_env \<Rightarrow> int \<Rightarrow> nat \<Rightarrow> int option" where
  "checked_days E t n = (if t + days n > re_last_instant E then None else Some (t + days n))"

definition retention_decision :: "parsed_directives \<Rightarrow> nat \<Rightarrow> body_retention" where
  "retention_decision parsed max_age =
     (if pd_no_store parsed then NoStore
      else if index_only (pd_rights parsed) then RightsReserved
      else if ef_limit_exceeded (pd_effective parsed) \<or> max_age = 0 then Policy
      else Body_Retained)"

definition policed :: "record_env \<Rightarrow> document_record \<Rightarrow> parsed_directives \<Rightarrow> ingestion_policy \<Rightarrow> int \<Rightarrow> document_record" where
  "policed E r parsed p now =
     r\<lparr> dr_directives := pd_effective parsed, dr_directives_seen := pd_seen parsed, dr_rights := pd_rights parsed,
        dr_index_eligible := index_eligible (pd_effective parsed) now,
        dr_index_only := (index_only (pd_rights parsed) \<or> ef_limit_exceeded (pd_effective parsed)),
        dr_snippet_limit_chars := snippet_limit (pd_effective parsed) (rc_snippet_max_chars (ip_retention p))
          (dr_recognized_news r) (dr_paywall_detected r)
          (case obs_value (dr_publisher_snippet_permission r) of Some b \<Rightarrow> b | None \<Rightarrow> False),
        dr_unavailable_after_utc := ef_unavailable_after (pd_effective parsed),
        dr_refresh_due_at_utc := checked_days E now 7,
        dr_body_retention := retention_decision parsed (rc_raw_body_max_age_days (ip_retention p)) \<rparr>"

text \<open>A deadline that cannot be represented is an error, which leaves the other changes in place.\<close>

definition apply_policy :: "record_env \<Rightarrow> document_record \<Rightarrow> parsed_directives \<Rightarrow> ingestion_policy \<Rightarrow> int \<Rightarrow> unit crawl \<times> document_record" where
  "apply_policy E r parsed p now =
     (let r' = policed E r parsed p now in
      if dr_body_retention r' = Body_Retained
      then (case checked_days E now (rc_raw_body_max_age_days (ip_retention p)) of
              None \<Rightarrow> (Inl CeInternalInvariant, r')
            | Some t \<Rightarrow> (Inr (), r'\<lparr> dr_raw_expires_at_utc := Some t \<rparr>))
      else if dr_body_retention r' = NoStore
      then (Inr (), r'\<lparr> dr_raw_expires_at_utc := None, dr_validators := no_validators \<rparr>)
      else (Inr (), r'\<lparr> dr_raw_expires_at_utc := None \<rparr>))"

section \<open>Declared metadata\<close>

definition bounded_metadata :: "string \<Rightarrow> nat \<Rightarrow> string" where
  "bounded_metadata value limit = concat (take limit (filter (\<lambda>u. \<not> is_control (code_point u)) (scalars value)))"

definition present :: "string \<Rightarrow> nat \<Rightarrow> string observation" where
  "present value limit = Present (bounded_metadata value limit)"

text \<open>What the selectors of the capture find in a document, in document order: the first title, the attributes of meta elements,
  of links with a rel and of the root, and the scripts with a type and their text.\<close>

record page_dom =
  pm_html :: html_document
  pm_title :: "string option"
  pm_links :: "attributes list"
  pm_root :: "attributes option"
  pm_scripts :: "(attributes \<times> string) list"

datatype ld_json = Json_Null | Json_Bool bool | Json_Number string | Json_String string | Json_Array "ld_json list"
  | Json_Object "(string \<times> ld_json) list"

fun json_get :: "string \<Rightarrow> ld_json \<Rightarrow> ld_json option" where
  "json_get key (Json_Object entries) = map_of entries key"
| "json_get key _ = None"

fun json_str :: "ld_json \<Rightarrow> string option" where
  "json_str (Json_String s) = Some s"
| "json_str _ = None"

definition is_news :: "ld_json \<Rightarrow> bool" where
  "is_news v \<longleftrightarrow> json_str v = Some ''NewsArticle''"

definition declares_news :: "ld_json \<Rightarrow> bool" where
  "declares_news object =
     (case json_get ''@type'' object of
        None \<Rightarrow> False
      | Some kind \<Rightarrow> is_news kind \<or> (case kind of Json_Array vs \<Rightarrow> list_ex is_news vs | _ \<Rightarrow> False))"

definition capture_object :: "ld_json \<Rightarrow> document_record \<Rightarrow> document_record" where
  "capture_object object r =
     r\<lparr> dr_recognized_news := (dr_recognized_news r \<or> declares_news object),
        dr_paywall_detected := (dr_paywall_detected r \<or> json_get ''isAccessibleForFree'' object = Some (Json_Bool False)),
        dr_publisher_name :=
          (if obs_is_none (dr_publisher_name r)
           then (case Option.bind (Option.bind (json_get ''publisher'' object) (json_get ''name'')) json_str of
                   Some name \<Rightarrow> present name 256
                 | None \<Rightarrow> dr_publisher_name r)
           else dr_publisher_name r) \<rparr>"

function capture_structured_metadata :: "nat \<Rightarrow> ld_json \<Rightarrow> document_record \<Rightarrow> document_record" where
  "capture_structured_metadata depth value r =
     (if depth > 16 then r
      else
        (case value of
           Json_Array vs \<Rightarrow> foldl (\<lambda>r v. capture_structured_metadata (depth + 1) v r) r vs
         | Json_Object _ \<Rightarrow>
             (let r' = capture_object value r in
              case json_get ''@graph'' value of
                Some graph \<Rightarrow> capture_structured_metadata (depth + 1) graph r'
              | None \<Rightarrow> r')
         | _ \<Rightarrow> r))"
  by pat_completeness auto
termination
  by (relation "measure (\<lambda>(depth, _). 17 - depth)") auto

declare capture_structured_metadata.simps [simp del]

definition attr :: "attributes \<Rightarrow> string \<Rightarrow> string" where
  "attr attrs name = (case attrs name of Some v \<Rightarrow> v | None \<Rightarrow> [])"

definition capture_site_name :: "document_record \<Rightarrow> attributes \<Rightarrow> document_record" where
  "capture_site_name r attrs =
     (if (case attrs ''property'' of Some name \<Rightarrow> eq_ignore_ascii_case name ''og:site_name'' | None \<Rightarrow> False) \<and> obs_is_none (dr_site_name r)
      then (case attrs ''content'' of
              Some value \<Rightarrow> r\<lparr> dr_site_name := present value 256, dr_publisher_name := present value 256 \<rparr>
            | None \<Rightarrow> r)
      else r)"

definition is_canonical_link :: "attributes \<Rightarrow> bool" where
  "is_canonical_link attrs = list_ex (\<lambda>token. eq_ignore_ascii_case token ''canonical'') (split_ascii_whitespace (attr attrs ''rel''))"

definition canonical_of :: "record_env \<Rightarrow> web_url \<Rightarrow> attributes \<Rightarrow> web_url option" where
  "canonical_of E final_url attrs =
     (let raw = attr attrs ''href'' in
      if length raw \<le> 8192 \<and> raw \<noteq> [] \<and> \<not> list_ex (\<lambda>c. is_control c \<or> is_whitespace c) (chars raw)
      then (case ul_join (re_url E) final_url raw of
              Some url \<Rightarrow> if http_scheme url \<and> wu_host url \<noteq> None then Some url else None
            | None \<Rightarrow> None)
      else None)"

text \<open>The first canonical link with a usable target is taken; the flag says that an unusable one came before it.\<close>

fun capture_canonical :: "record_env \<Rightarrow> web_url \<Rightarrow> bool \<Rightarrow> attributes list \<Rightarrow> document_record \<Rightarrow> document_record" where
  "capture_canonical E final_url invalid [] r =
     (if obs_is_none (dr_rel_canonical r) \<and> invalid then r\<lparr> dr_rel_canonical := Absent_Observation InvalidDeclaration \<rparr> else r)"
| "capture_canonical E final_url invalid (attrs # rest) r =
     (if \<not> is_canonical_link attrs then capture_canonical E final_url invalid rest r
      else case canonical_of E final_url attrs of
             Some url \<Rightarrow>
               (let safe = ul_safe (re_url E) url in
                r\<lparr> dr_canonical_key := Present (re_sha256 E safe), dr_rel_canonical := Present safe, dr_canonical_url := Present safe \<rparr>)
           | None \<Rightarrow> capture_canonical E final_url True rest r)"

definition header_languages :: "response_headers \<Rightarrow> string list \<Rightarrow> string list" where
  "header_languages H languages =
     foldl (\<lambda>ls value. case declared_language value of Some l \<Rightarrow> collect_new l ls | None \<Rightarrow> ls)
       languages (concat (map (split_on CHR '','') (headers_all H ''content-language'')))"

definition capture_languages :: "page_dom \<Rightarrow> response_headers \<Rightarrow> document_record \<Rightarrow> document_record" where
  "capture_languages root H r =
     (let lang = Option.bind (pm_root root) (\<lambda>attrs. attrs ''lang'');
          own = Option.bind lang declared_language;
          r1 = (if lang \<noteq> None \<and> own = None then r\<lparr> dr_declared_language := Absent_Observation InvalidDeclaration \<rparr> else r);
          languages = header_languages H (case own of Some l \<Rightarrow> [l] | None \<Rightarrow> []);
          r2 = (case languages of l # _ \<Rightarrow> r1\<lparr> dr_declared_language := Present l \<rparr> | [] \<Rightarrow> r1);
          invalid = headers_invalid H ''content-language'';
          r3 = (if invalid then r2\<lparr> dr_declared_language := Absent_Observation InvalidDeclaration \<rparr> else r2)
      in r3\<lparr> dr_language := dr_declared_language r3, dr_declared_languages := (if invalid then [] else languages) \<rparr>)"

definition capture_script :: "(string \<Rightarrow> ld_json option) \<Rightarrow> document_record \<Rightarrow> attributes \<times> string \<Rightarrow> document_record" where
  "capture_script parse_json r script =
     (case script of (attrs, text) \<Rightarrow>
        if (case attrs ''type'' of Some kind \<Rightarrow> eq_ignore_ascii_case kind ''application/ld+json'' | None \<Rightarrow> False)
        then (case parse_json text of Some value \<Rightarrow> capture_structured_metadata 0 value r | None \<Rightarrow> r)
        else r)"

definition capture_metadata :: "record_env \<Rightarrow> (string \<Rightarrow> ld_json option) \<Rightarrow> page_dom \<Rightarrow> response_headers \<Rightarrow> web_url \<Rightarrow> document_record \<Rightarrow> document_record" where
  "capture_metadata E parse_json root H final_url r =
     (let r1 = (case pm_title root of Some title \<Rightarrow> r\<lparr> dr_title := present title 512 \<rparr> | None \<Rightarrow> r);
          r2 = foldl capture_site_name r1 (hd_metas (pm_html root));
          r3 = capture_canonical E final_url False (pm_links root) r2;
          r4 = capture_languages root H r3
      in foldl (capture_script parse_json) r4 (pm_scripts root))"

section \<open>Validation\<close>

definition validate_success_fields :: "record_env \<Rightarrow> document_record \<Rightarrow> unit crawl may_panic" where
  "validate_success_fields E r =
     (if obs_is_none (dr_parsed_at_utc r) \<or> obs_is_none (dr_requested_url r) \<or> obs_is_none (dr_final_url r)
         \<or> obs_is_none (dr_canonical_url r) \<or> obs_is_none (dr_retrieved_at_utc r) \<or> obs_is_none (dr_http_status r)
         \<or> obs_is_none (dr_content_sha256 r) \<or> obs_is_none (dr_robots r) \<or> obs_is_none (dr_fetch_time_ms r)
         \<or> obs_is_none (dr_queue_time_ms r) \<or> obs_is_none (dr_body_bytes r) \<or> dr_content_hash_source r = Unavailable
      then Ret (Inl CeRecordInvalid)
      else case (dr_raw_expires_at_utc r, obs_value (dr_parsed_at_utc r)) of
             (Some expiry, Some parsed) \<Rightarrow>
               if expiry < parsed then Ret (Inl CeRecordInvalid)
               else if parsed + days 30 > re_last_instant E then Panic
               else if expiry > parsed + days 30 then Ret (Inl CeRecordInvalid)
               else Ret (Inr ())
           | _ \<Rightarrow> Ret (Inr ()))"

definition record_header_ok :: "record_env \<Rightarrow> document_record \<Rightarrow> bool" where
  "record_header_ok E r \<longleftrightarrow> dr_schema_version r = 1 \<and> re_is_uuid E (dr_target_id r) \<and> re_is_uuid E (dr_run_id r)
     \<and> dr_crawl_policy_version r \<noteq> [] \<and> dr_exclusion_version r \<noteq> [] \<and> dr_retention_policy_version r \<noteq> []
     \<and> valid_key (dr_policy_config_sha256 r) \<and> dr_snippet_limit_chars r \<le> 300 \<and> \<not> dr_cached_copy r \<and> \<not> dr_image_storage_allowed r
     \<and> dr_snippet_text r = None \<and> validators_valid (dr_validators r) \<and> length (dr_directives_seen r) \<le> 256 \<and> 500 \<le> dr_effective_gap_ms r
     \<and> (case obs_value (dr_http_status r) of None \<Rightarrow> True | Some s \<Rightarrow> 100 \<le> s \<and> s \<le> 599)"

definition keys_ok :: "document_record \<Rightarrow> bool" where
  "keys_ok r \<longleftrightarrow> list_all (\<lambda>x. case obs_value x of None \<Rightarrow> True | Some v \<Rightarrow> valid_key v) [dr_url_key r, dr_canonical_key r, dr_content_sha256 r]"

definition metadata_ok :: "document_record \<Rightarrow> bool" where
  "metadata_ok r \<longleftrightarrow> list_all (\<lambda>(x, limit). case obs_value x of None \<Rightarrow> True
       | Some v \<Rightarrow> length (chars v) \<le> limit \<and> \<not> list_ex is_control (chars v))
     [(dr_publisher_name r, 256), (dr_site_name r, 256), (dr_title r, 512)]"

definition stored_url_ok :: "record_env \<Rightarrow> string \<Rightarrow> bool" where
  "stored_url_ok E value =
     (case ul_parse (re_url E) value of
        None \<Rightarrow> False
      | Some url \<Rightarrow> ul_safe (re_url E) url = value \<and> length value \<le> 8192 \<and> http_scheme url)"

definition stored_urls :: "document_record \<Rightarrow> string list" where
  "stored_urls r = concat (map (\<lambda>x. case obs_value x of None \<Rightarrow> [] | Some v \<Rightarrow> [v])
       [dr_canonical_url r, dr_requested_url r, dr_final_url r, dr_rel_canonical r])
     @ rs_license_urls (dr_rights r) @ rs_tdm_policy_urls (dr_rights r)"

definition key_matches :: "record_env \<Rightarrow> string observation \<Rightarrow> string observation \<Rightarrow> bool" where
  "key_matches E url key =
     (case (obs_value url, obs_value key) of (Some u, Some k) \<Rightarrow> re_sha256 E u = k | _ \<Rightarrow> True)"

definition retention_ok :: "document_record \<Rightarrow> bool" where
  "retention_ok r \<longleftrightarrow>
     \<not> (dr_body_retention r \<noteq> Body_Retained \<and> (dr_retained_body_bytes r \<noteq> 0 \<or> dr_raw_expires_at_utc r \<noteq> None))
     \<and> \<not> (dr_index_only r \<and> dr_retained_body_bytes r \<noteq> 0)"

definition validate_record :: "record_env \<Rightarrow> document_record \<Rightarrow> unit crawl may_panic" where
  "validate_record E r =
     (if \<not> record_header_ok E r \<or> \<not> keys_ok r \<or> \<not> metadata_ok r \<or> \<not> list_all (stored_url_ok E) (stored_urls r)
         \<or> \<not> key_matches E (dr_requested_url r) (dr_url_key r) \<or> \<not> key_matches E (dr_canonical_url r) (dr_canonical_key r)
      then Ret (Inl CeRecordInvalid)
      else
        outcome_bind (if \<not> obs_is_none (dr_parsed_at_utc r) \<or> dr_retained_body_bytes r > 0 \<or> dr_index_eligible r
                      then validate_success_fields E r else Ret (Inr ()))
          (\<lambda>result. Ret (res_bind result (\<lambda>_. if retention_ok r then Inr () else Inl CeRecordInvalid))))"

section \<open>Valid records\<close>

text \<open>The part of the validation that does not depend on whether the document was parsed.\<close>

definition record_ok :: "record_env \<Rightarrow> document_record \<Rightarrow> bool" where
  "record_ok E r \<longleftrightarrow> record_header_ok E r \<and> keys_ok r \<and> metadata_ok r \<and> list_all (stored_url_ok E) (stored_urls r)
     \<and> key_matches E (dr_requested_url r) (dr_url_key r) \<and> key_matches E (dr_canonical_url r) (dr_canonical_key r)"

text \<open>The same without the bound on the addresses: each is the record form of a http or https URL. Captured targets are bounded before they
  are resolved only, so a page can break the bound and nothing else.\<close>

definition url_form :: "record_env \<Rightarrow> string \<Rightarrow> bool" where
  "url_form E value =
     (case ul_parse (re_url E) value of
        None \<Rightarrow> False
      | Some url \<Rightarrow> ul_safe (re_url E) url = value \<and> http_scheme url)"

definition record_shape :: "record_env \<Rightarrow> document_record \<Rightarrow> bool" where
  "record_shape E r \<longleftrightarrow> record_header_ok E r \<and> keys_ok r \<and> metadata_ok r \<and> list_all (url_form E) (stored_urls r)
     \<and> key_matches E (dr_requested_url r) (dr_url_key r) \<and> key_matches E (dr_canonical_url r) (dr_canonical_key r)"

definition urls_bounded :: "document_record \<Rightarrow> bool" where
  "urls_bounded r \<longleftrightarrow> (\<forall>u \<in> set (stored_urls r). length u \<le> 8192)"

lemma record_ok_shape: "record_ok E r \<longleftrightarrow> record_shape E r \<and> urls_bounded r"
proof -
  have "stored_url_ok E u \<longleftrightarrow> url_form E u \<and> length u \<le> 8192" for u by (auto simp: stored_url_ok_def url_form_def split: option.splits)
  then show ?thesis by (auto simp: record_ok_def record_shape_def urls_bounded_def list_all_iff)
qed

definition response_evidence :: "document_record \<Rightarrow> bool" where
  "response_evidence r \<longleftrightarrow> \<not> obs_is_none (dr_requested_url r) \<and> \<not> obs_is_none (dr_final_url r)
     \<and> \<not> obs_is_none (dr_canonical_url r) \<and> \<not> obs_is_none (dr_retrieved_at_utc r) \<and> \<not> obs_is_none (dr_http_status r)
     \<and> \<not> obs_is_none (dr_content_sha256 r) \<and> \<not> obs_is_none (dr_robots r) \<and> \<not> obs_is_none (dr_fetch_time_ms r)
     \<and> \<not> obs_is_none (dr_queue_time_ms r) \<and> \<not> obs_is_none (dr_body_bytes r) \<and> dr_content_hash_source r \<noteq> Unavailable"

definition expiry_ok :: "record_env \<Rightarrow> document_record \<Rightarrow> bool" where
  "expiry_ok E r = (case (dr_raw_expires_at_utc r, obs_value (dr_parsed_at_utc r)) of
     (Some expiry, Some parsed) \<Rightarrow> parsed \<le> expiry \<and> expiry \<le> parsed + days 30 \<and> parsed + days 30 \<le> re_last_instant E
   | _ \<Rightarrow> True)"

lemma success_fields_iff:
  "validate_success_fields E r = Ret (Inr ()) \<longleftrightarrow> \<not> obs_is_none (dr_parsed_at_utc r) \<and> response_evidence r \<and> expiry_ok E r"
  unfolding validate_success_fields_def response_evidence_def expiry_ok_def by (auto split: option.splits)

lemma validate_record_iff:
  "validate_record E r = Ret (Inr ()) \<longleftrightarrow> record_ok E r \<and> retention_ok r
     \<and> (\<not> obs_is_none (dr_parsed_at_utc r) \<or> dr_retained_body_bytes r > 0 \<or> dr_index_eligible r
        \<longrightarrow> \<not> obs_is_none (dr_parsed_at_utc r) \<and> response_evidence r \<and> expiry_ok E r)"
proof (cases "record_ok E r")
  case False
  then show ?thesis by (auto simp: validate_record_def record_ok_def)
next
  case True
  let ?s = "if \<not> obs_is_none (dr_parsed_at_utc r) \<or> dr_retained_body_bytes r > 0 \<or> dr_index_eligible r
            then validate_success_fields E r else Ret (Inr ())"
  have "validate_record E r = outcome_bind ?s (\<lambda>result. Ret (res_bind result (\<lambda>_. if retention_ok r then Inr () else Inl CeRecordInvalid)))"
    using True by (simp add: validate_record_def record_ok_def)
  also have "\<dots> = Ret (Inr ()) \<longleftrightarrow> ?s = Ret (Inr ()) \<and> retention_ok r"
    by (cases ?s) (auto simp: res_bind_def split: sum.splits if_splits)
  finally show ?thesis using True success_fields_iff [of E r] by auto
qed

lemma validate_shape:
  assumes "record_shape E r" and "retention_ok r" and "\<not> obs_is_none (dr_parsed_at_utc r)" and "response_evidence r" and "expiry_ok E r"
  shows "validate_record E r = Ret (if urls_bounded r then Inr () else Inl CeRecordInvalid)"
proof (cases "urls_bounded r")
  case True
  then show ?thesis using assms by (simp add: validate_record_iff record_ok_shape)
next
  case False
  then have "\<not> record_ok E r" by (simp add: record_ok_shape)
  with False show ?thesis by (auto simp: validate_record_def record_ok_def)
qed

section \<open>Captured metadata keeps the shape of a record\<close>

definition kept :: "document_record \<Rightarrow> document_record \<Rightarrow> bool" where
  "kept r r' \<longleftrightarrow> dr_retained_body_bytes r' = dr_retained_body_bytes r \<and> dr_parsed_at_utc r' = dr_parsed_at_utc r
     \<and> dr_raw_expires_at_utc r' = dr_raw_expires_at_utc r \<and> dr_body_retention r' = dr_body_retention r
     \<and> dr_index_only r' = dr_index_only r \<and> dr_index_eligible r' = dr_index_eligible r \<and> (response_evidence r \<longrightarrow> response_evidence r')"

text \<open>A step of the capture keeps what validation looks at.\<close>

definition keeps :: "record_env \<Rightarrow> (document_record \<Rightarrow> document_record) \<Rightarrow> bool" where
  "keeps E f \<longleftrightarrow> (\<forall>r. record_shape E r \<longrightarrow> record_shape E (f r) \<and> kept r (f r))"

lemma kept_refl [simp]: "kept r r"
  by (simp add: kept_def)

lemma kept_trans: "kept r r1 \<Longrightarrow> kept r1 r2 \<Longrightarrow> kept r r2"
  by (simp add: kept_def)

lemma keeps_id: "keeps E (\<lambda>r. r)"
  by (simp add: keeps_def)

lemma keeps_comp: "keeps E f \<Longrightarrow> keeps E g \<Longrightarrow> keeps E (\<lambda>r. g (f r))"
  unfolding keeps_def by (blast intro: kept_trans)

lemma keeps_foldl: "(\<And>x. x \<in> set xs \<Longrightarrow> keeps E (\<lambda>r. f r x)) \<Longrightarrow> keeps E (\<lambda>r. foldl f r xs)"
proof (induction xs)
  case (Cons x xs)
  then show ?case using keeps_comp [of E "\<lambda>r. f r x" "\<lambda>r. foldl f r xs"] by simp
qed (simp add: keeps_id)

text \<open>The scalars that are left of a text after filtering and cutting are the scalars of the result.\<close>

fun pieces :: "string list \<Rightarrow> bool" where
  "pieces [] \<longleftrightarrow> True"
| "pieces (u # us) \<longleftrightarrow> u \<noteq> [] \<and> length u \<le> scalar_width (hd u) \<and> (us \<noteq> [] \<longrightarrow> length u = scalar_width (hd u)) \<and> pieces us"

lemma scalar_width_pos: "0 < scalar_width c"
  by (simp add: scalar_width_def Let_def)

lemma pieces_scalars: "pieces (scalars s)"
proof (induction s rule: scalars.induct)
  case (2 c cs)
  have "scalars (drop (scalar_width c - 1) cs) \<noteq> [] \<Longrightarrow> length (take (scalar_width c - 1) cs) = scalar_width c - 1"
    by (cases "length cs \<le> scalar_width c - 1") auto
  with 2 scalar_width_pos [of c] show ?case by auto
qed simp

lemma scalars_pieces: "pieces us \<Longrightarrow> scalars (concat us) = us"
proof (induction us)
  case (Cons u us)
  then obtain c cs where u: "u = c # cs" by (cases u) auto
  have "us = [] \<and> length cs \<le> scalar_width c - 1 \<or> length cs = scalar_width c - 1" using Cons.prems u by (cases us) auto
  then show ?case using Cons u by auto
qed simp

lemma pieces_filter: "pieces us \<Longrightarrow> pieces (filter P us)"
  by (induction us) (auto simp: filter_empty_conv)

lemma pieces_take: "pieces us \<Longrightarrow> pieces (take n us)"
  by (induction us arbitrary: n) (auto simp: take_Cons split: nat.splits)

lemma chars_bounded: "chars (bounded_metadata v limit) = take limit (filter (\<lambda>c. \<not> is_control c) (chars v))"
proof -
  have "scalars (bounded_metadata v limit) = take limit (filter (\<lambda>u. \<not> is_control (code_point u)) (scalars v))"
    unfolding bounded_metadata_def by (intro scalars_pieces pieces_take pieces_filter pieces_scalars)
  then show ?thesis by (simp add: chars_def take_map filter_map comp_def)
qed

lemma bounded_ok: "length (chars (bounded_metadata v limit)) \<le> limit \<and> \<not> list_ex is_control (chars (bounded_metadata v limit))"
  by (auto simp: chars_bounded list_ex_iff dest: in_set_takeD)

lemmas record_ok_unfold = record_ok_def record_header_ok_def keys_ok_def metadata_ok_def stored_urls_def key_matches_def

lemmas record_shape_unfold = record_shape_def record_header_ok_def keys_ok_def metadata_ok_def stored_urls_def key_matches_def

lemma keeps_title: "keeps E (\<lambda>r. r\<lparr> dr_title := present t 512 \<rparr>)"
  using bounded_ok [of t 512] unfolding keeps_def kept_def response_evidence_def record_shape_unfold by (simp add: present_def)

lemma keeps_site_name: "keeps E (\<lambda>r. capture_site_name r attrs)"
  using bounded_ok [of _ 256] unfolding keeps_def kept_def response_evidence_def record_shape_unfold
  by (auto simp: capture_site_name_def present_def split: option.splits)

lemma keeps_object: "keeps E (capture_object v)"
  using bounded_ok [of _ 256] unfolding keeps_def kept_def response_evidence_def record_shape_unfold
  by (auto simp: capture_object_def present_def split: option.splits)

lemma keeps_structured: "keeps E (capture_structured_metadata depth v)"
proof (induction "17 - depth" arbitrary: depth v rule: less_induct)
  case less
  show ?case
  proof (cases "depth > 16")
    case True
    then have "capture_structured_metadata depth v = (\<lambda>r. r)" by (auto simp: capture_structured_metadata.simps)
    then show ?thesis by (simp add: keeps_id)
  next
    case False
    then have IH: "keeps E (capture_structured_metadata (Suc depth) w)" for w by (intro less) simp
    have unfold: "capture_structured_metadata depth v =
        (case v of Json_Array vs \<Rightarrow> (\<lambda>r. foldl (\<lambda>r w. capture_structured_metadata (Suc depth) w r) r vs)
         | Json_Object _ \<Rightarrow> (case json_get ''@graph'' v of Some g \<Rightarrow> (\<lambda>r. capture_structured_metadata (Suc depth) g (capture_object v r))
             | None \<Rightarrow> capture_object v)
         | _ \<Rightarrow> (\<lambda>r. r))"
      using False by (auto simp: capture_structured_metadata.simps [of depth] fun_eq_iff Let_def split: ld_json.splits option.splits)
    show ?thesis
      unfolding unfold by (cases v) (auto split: option.splits intro: keeps_id keeps_object keeps_comp [OF keeps_object IH] intro!: keeps_foldl IH)
  qed
qed

lemma keeps_script: "keeps E (\<lambda>r. capture_script J r script)"
proof (cases script)
  case (Pair attrs content)
  let ?ld = "case attrs ''type'' of Some kind \<Rightarrow> eq_ignore_ascii_case kind ''application/ld+json'' | None \<Rightarrow> False"
  have "(\<lambda>r. capture_script J r script) = (if ?ld then (case J content of Some value \<Rightarrow> capture_structured_metadata 0 value | None \<Rightarrow> (\<lambda>r. r)) else (\<lambda>r. r))"
    by (auto simp: capture_script_def Pair fun_eq_iff split: option.splits)
  then show ?thesis by (simp add: keeps_id keeps_structured split: option.splits)
qed

text \<open>The url crate's serialisation of a URL parses back to it: the record form of a target found in a page is a http or https URL in record form again.\<close>

definition record_forms_parse :: "url_lib \<Rightarrow> bool" where
  "record_forms_parse U \<longleftrightarrow> (\<forall>base raw url. ul_join U base raw = Some url \<longrightarrow> http_scheme url \<longrightarrow>
     (\<exists>back. ul_parse U (ul_safe U url) = Some back \<and> ul_safe U back = ul_safe U url \<and> wu_scheme back = wu_scheme url))"

lemma joined_form: "record_forms_parse (re_url E) \<Longrightarrow> ul_join (re_url E) base raw = Some url \<Longrightarrow> http_scheme url \<Longrightarrow> url_form E (ul_safe (re_url E) url)"
  by (fastforce simp: record_forms_parse_def url_form_def http_scheme_def)

definition digest_ok :: "record_env \<Rightarrow> bool" where
  "digest_ok E \<longleftrightarrow> (\<forall>x. valid_key (re_sha256 E x))"

lemma keeps_canonical:
  assumes "digest_ok E" and "record_forms_parse (re_url E)"
  shows "keeps E (capture_canonical E base invalid links)"
proof -
  have "record_shape E r \<Longrightarrow> record_shape E (capture_canonical E base invalid links r) \<and> kept r (capture_canonical E base invalid links r)" for r
  proof (induction links arbitrary: invalid)
    case Nil
    show ?case
    proof (cases "obs_is_none (dr_rel_canonical r) \<and> invalid")
      case True
      then show ?thesis using Nil unfolding kept_def response_evidence_def record_shape_unfold by (simp add: obs_is_none_def)
    qed (use Nil in auto)
  next
    case (Cons attrs rest)
    show ?case
    proof (cases "is_canonical_link attrs \<and> canonical_of E base attrs \<noteq> None")
      case True
      then obtain url where url: "is_canonical_link attrs" "canonical_of E base attrs = Some url" by auto
      have "url_form E (ul_safe (re_url E) url)"
        using url(2) joined_form [OF assms(2)] unfolding canonical_of_def Let_def by (auto split: if_splits option.splits)
      moreover have "valid_key (re_sha256 E (ul_safe (re_url E) url))" using assms(1) by (simp add: digest_ok_def)
      ultimately show ?thesis
        using Cons.prems url unfolding kept_def response_evidence_def record_shape_unfold by (simp add: Let_def obs_is_none_def)
    next
      case False
      then show ?thesis using Cons by auto
    qed
  qed
  then show ?thesis by (simp add: keeps_def)
qed

lemma keeps_languages: "keeps E (capture_languages root H)"
proof -
  have l: "keeps E (\<lambda>r. r\<lparr> dr_declared_language := l \<rparr>)" for l
    unfolding keeps_def kept_def response_evidence_def record_shape_unfold by simp
  have f: "record_shape E r \<Longrightarrow> record_shape E (r\<lparr> dr_language := a, dr_declared_languages := b \<rparr>) \<and> kept r (r\<lparr> dr_language := a, dr_declared_languages := b \<rparr>)" for r a b
    unfolding kept_def response_evidence_def record_shape_unfold by simp
  have step: "\<exists>l. (if c then r\<lparr> dr_declared_language := d \<rparr> else r) = r\<lparr> dr_declared_language := l \<rparr>" for c d r
    by (rule exI [of _ "if c then d else dr_declared_language r"]) simp
  have first: "\<exists>l. (case ls of a # _ \<Rightarrow> r\<lparr> dr_declared_language := Present a \<rparr> | [] \<Rightarrow> r) = r\<lparr> dr_declared_language := l \<rparr>" for r and ls :: "string list"
    by (cases ls) (auto intro: exI [of _ "dr_declared_language r"])
  have "\<exists>l a b. capture_languages root H r = (r\<lparr> dr_declared_language := l \<rparr>)\<lparr> dr_language := a, dr_declared_languages := b \<rparr>" for r
  proof -
    define lang where "lang = Option.bind (pm_root root) (\<lambda>attrs. attrs ''lang'')"
    define own where "own = Option.bind lang declared_language"
    define ls where "ls = header_languages H (case own of Some l \<Rightarrow> [l] | None \<Rightarrow> [])"
    obtain l1 where l1: "(if lang \<noteq> None \<and> own = None then r\<lparr> dr_declared_language := Absent_Observation InvalidDeclaration \<rparr> else r) = r\<lparr> dr_declared_language := l1 \<rparr>"
      using step by blast
    obtain l2 where l2: "(case ls of a # _ \<Rightarrow> (r\<lparr> dr_declared_language := l1 \<rparr>)\<lparr> dr_declared_language := Present a \<rparr> | [] \<Rightarrow> r\<lparr> dr_declared_language := l1 \<rparr>)
        = r\<lparr> dr_declared_language := l2 \<rparr>"
      using first [of "r\<lparr> dr_declared_language := l1 \<rparr>" ls] by auto
    obtain l3 where l3: "(if headers_invalid H ''content-language'' then (r\<lparr> dr_declared_language := l2 \<rparr>)\<lparr> dr_declared_language := Absent_Observation InvalidDeclaration \<rparr>
        else r\<lparr> dr_declared_language := l2 \<rparr>) = r\<lparr> dr_declared_language := l3 \<rparr>"
      using step [of "headers_invalid H ''content-language''" "Absent_Observation InvalidDeclaration" "r\<lparr> dr_declared_language := l2 \<rparr>"] by auto
    show ?thesis unfolding capture_languages_def Let_def lang_def [symmetric] own_def [symmetric] ls_def [symmetric] l1 l2 l3 by blast
  qed
  then have eq: "\<exists>l a b. capture_languages root H r = (r\<lparr> dr_declared_language := l \<rparr>)\<lparr> dr_language := a, dr_declared_languages := b \<rparr>" for r .
  show ?thesis
    unfolding keeps_def
  proof (intro allI impI)
    fix r assume ok: "record_shape E r"
    from eq obtain l' a b where e: "capture_languages root H r = (r\<lparr> dr_declared_language := l' \<rparr>)\<lparr> dr_language := a, dr_declared_languages := b \<rparr>" by blast
    from l [of l'] ok have "record_shape E (r\<lparr> dr_declared_language := l' \<rparr>)" "kept r (r\<lparr> dr_declared_language := l' \<rparr>)" unfolding keeps_def by blast+
    from f [OF this(1), where a = a and b = b] kept_trans [OF this(2)] show "record_shape E (capture_languages root H r) \<and> kept r (capture_languages root H r)"
      unfolding e by blast
  qed
qed

lemma keeps_metadata:
  assumes "digest_ok E" and "record_forms_parse (re_url E)"
  shows "keeps E (capture_metadata E J root H url)"
proof -
  have t: "keeps E (\<lambda>r. case pm_title root of Some t \<Rightarrow> r\<lparr> dr_title := present t 512 \<rparr> | None \<Rightarrow> r)"
    by (cases "pm_title root") (auto simp: keeps_id keeps_title)
  have m: "keeps E (\<lambda>r. foldl capture_site_name r (hd_metas (pm_html root)))" by (intro keeps_foldl keeps_site_name)
  have s: "keeps E (\<lambda>r. foldl (capture_script J) r (pm_scripts root))" by (intro keeps_foldl keeps_script)
  show ?thesis
    unfolding capture_metadata_def Let_def
    by (rule keeps_comp [OF keeps_comp [OF keeps_comp [OF keeps_comp [OF t m] keeps_canonical [OF assms]] keeps_languages] s])
qed

section \<open>The life of a record\<close>

lemma pending_ok:
  assumes "ingestion_validate I p = Inr p" and "digest_ok E" and "valid_key (re_policy_sha256 E p)"
    and "re_is_uuid E run" and "re_is_uuid E target" and "\<forall>u. url = Some u \<longrightarrow> stored_url_ok E (ul_safe (re_url E) u)"
  shows "validate_record E (pending_record E p run target url) = Ret (Inr ())"
proof -
  have v: "nonempty (ip_version p)" "nonempty (xc_version (ip_exclusions p))" "rc_snippet_max_chars (ip_retention p) \<le> 300" "500 \<le> pl_gap_ms (ip_politeness p)"
    using assms(1) by (auto simp: validate_iff politeness_iff schema_iff validate_retention_bounds_def validate_change_log_def res_then_unit HARD_MIN_HOST_GAP_MS_def)
  have n: "x \<noteq> []" if "nonempty x" for x using that by (auto simp: nonempty_def trim_def)
  have "record_ok E (pending_record E p run target url)"
    using assms(2-6) v(3,4) n [OF v(1)] n [OF v(2)]
    by (cases url) (simp_all add: record_ok_unfold pending_record_def observed_def url_key_def digest_ok_def no_validators_def validators_valid_def no_rights_def)
  moreover have "retention_ok (pending_record E p run target url)" by (simp add: retention_ok_def pending_record_def)
  ultimately show ?thesis by (simp add: validate_record_iff pending_record_def obs_is_none_def)
qed

text \<open>
  C33: A record is valid from its admission on. For a validated policy, opaque identifiers that are uuids and a digest of the right
  shape, the record of a new target passes the validation every stored record has to pass, for every input, also one that is
  not a URL at all.
\<close>

theorem pending_record_valid:
  assumes "ingestion_validate I p = Inr p" and "digest_ok E" and "valid_key (re_policy_sha256 E p)"
    and "re_is_uuid E run" and "re_is_uuid E target" and "\<forall>u. url = Some u \<longrightarrow> stored_url_ok E (ul_safe (re_url E) u)"
  shows "validate_record E (pending_record E p run target url) = Ret (Inr ())"
  using assms by (rule pending_ok)

lemma signals_storable:
  assumes "record_forms_parse (re_url E)"
  shows "list_all (url_form E) (rs_license_urls (pd_rights (parse_document D (re_url E) root H url)) @ rs_tdm_policy_urls (pd_rights (parse_document D (re_url E) root H url)))"
proof -
  let ?Q = "\<lambda>r. list_all (url_form E) (rs_license_urls r @ rs_tdm_policy_urls r)"
  have sig: "url_form E u" if "signal_url (re_url E) url raw = Some u" for raw u
    using that joined_form [OF assms] by (auto simp: signal_url_def http_scheme_def split: if_splits option.splits)
  show ?thesis
  proof (rule rights_document_keeps(2) [of ?Q])
    show "?Q no_rights" by (simp add: no_rights_def)
  qed (auto simp: reservation_def push_policy_def push_license_def push_signal_def push_new_def invalid_rights_headers_def Let_def list_all_iff
      intro: sig split: option.splits prod.splits)
qed

text \<open>The policy of a parsed document.\<close>

lemma safe_validator_ok: "safe_validator H name = Some v \<Longrightarrow> validator_text_ok v"
  by (auto simp: safe_validator_def split: list.splits if_splits)

lemma validators_ok: "validators_valid (validators_from_headers H)"
  by (auto simp: validators_valid_def validators_from_headers_def dest: safe_validator_ok)

lemma apply_policy_cases:
  assumes "apply_policy E r parsed p now = (Inr (), r')"
  obtains (retained) "retention_decision parsed (rc_raw_body_max_age_days (ip_retention p)) = Body_Retained"
      "r' = (policed E r parsed p now)\<lparr> dr_raw_expires_at_utc := Some (now + days (rc_raw_body_max_age_days (ip_retention p))) \<rparr>"
  | (no_store) "retention_decision parsed (rc_raw_body_max_age_days (ip_retention p)) = NoStore"
      "r' = (policed E r parsed p now)\<lparr> dr_raw_expires_at_utc := None, dr_validators := no_validators \<rparr>"
  | (other) "retention_decision parsed (rc_raw_body_max_age_days (ip_retention p)) \<notin> {Body_Retained, NoStore}"
      "r' = (policed E r parsed p now)\<lparr> dr_raw_expires_at_utc := None \<rparr>"
proof -
  have d: "dr_body_retention (policed E r parsed p now) = retention_decision parsed (rc_raw_body_max_age_days (ip_retention p))" by (simp add: policed_def)
  show thesis
    using assms retained no_store other unfolding apply_policy_def Let_def d checked_days_def
    by (auto split: if_splits option.splits)
qed

lemma apply_policy_decision:
  assumes "apply_policy E r parsed p now = (Inr (), r')"
  shows "dr_body_retention r' = retention_decision parsed (rc_raw_body_max_age_days (ip_retention p))"
    and "dr_index_only r' \<longleftrightarrow> index_only (pd_rights parsed) \<or> ef_limit_exceeded (pd_effective parsed)"
    and "dr_index_eligible r' = index_eligible (pd_effective parsed) now"
    and "dr_raw_expires_at_utc r' = (if dr_body_retention r' = Body_Retained then Some (now + days (rc_raw_body_max_age_days (ip_retention p))) else None)"
    and "dr_body_retention r' = NoStore \<longrightarrow> dr_validators r' = no_validators"
    and "dr_snippet_limit_chars r' = snippet_limit (pd_effective parsed) (rc_snippet_max_chars (ip_retention p))
      (dr_recognized_news r) (dr_paywall_detected r) (case obs_value (dr_publisher_snippet_permission r) of Some b \<Rightarrow> b | None \<Rightarrow> False)"
    and "dr_retained_body_bytes r' = dr_retained_body_bytes r" and "dr_parsed_at_utc r' = dr_parsed_at_utc r"
  by (rule apply_policy_cases [OF assms]; simp add: policed_def)+

lemma snippet_bound: "snippet_limit e l news paywall permitted \<le> l"
  by (auto simp: snippet_limit_def Let_def split: option.splits)

lemma record_shape_expiry: "record_shape E (r\<lparr> dr_raw_expires_at_utc := t \<rparr>) = record_shape E r" "response_evidence (r\<lparr> dr_raw_expires_at_utc := t \<rparr>) = response_evidence r"
  unfolding record_shape_unfold response_evidence_def by simp_all

lemma record_shape_validators:
  "validators_valid v \<Longrightarrow> record_shape E r \<Longrightarrow> record_shape E (r\<lparr> dr_validators := v \<rparr>)" "response_evidence (r\<lparr> dr_validators := v \<rparr>) = response_evidence r"
  unfolding record_shape_unfold response_evidence_def by simp_all

lemma policed_ok:
  assumes "record_shape E r" and "rc_snippet_max_chars (ip_retention p) \<le> 300" and "length (pd_seen parsed) \<le> MAX_DIRECTIVES"
    and "list_all (url_form E) (rs_license_urls (pd_rights parsed) @ rs_tdm_policy_urls (pd_rights parsed))"
  shows "record_shape E (policed E r parsed p now)" "response_evidence (policed E r parsed p now) = response_evidence r"
proof -
  have c: "snippet_limit e (rc_snippet_max_chars (ip_retention p)) news paywall permitted \<le> 300" for e news paywall permitted
    using snippet_bound assms(2) order_trans by blast
  note c = c [of "pd_effective parsed" "dr_recognized_news r" "dr_paywall_detected r" "case obs_value (dr_publisher_snippet_permission r) of Some b \<Rightarrow> b | None \<Rightarrow> False"]
  have "record_header_ok E (policed E r parsed p now)"
    using assms(1,3) c unfolding record_shape_def record_header_ok_def policed_def MAX_DIRECTIVES_def by simp
  moreover have "keys_ok (policed E r parsed p now) = keys_ok r" "metadata_ok (policed E r parsed p now) = metadata_ok r"
    "key_matches E (dr_requested_url (policed E r parsed p now)) (dr_url_key (policed E r parsed p now)) = key_matches E (dr_requested_url r) (dr_url_key r)"
    "key_matches E (dr_canonical_url (policed E r parsed p now)) (dr_canonical_key (policed E r parsed p now)) = key_matches E (dr_canonical_url r) (dr_canonical_key r)"
    by (simp_all add: policed_def keys_ok_def metadata_ok_def)
  moreover have "list_all (url_form E) (stored_urls (policed E r parsed p now))"
    using assms(1,4) unfolding record_shape_def by (simp add: policed_def stored_urls_def)
  ultimately show "record_shape E (policed E r parsed p now)" using assms(1) unfolding record_shape_def by simp
qed (simp add: policed_def response_evidence_def)

lemma apply_policy_ok:
  assumes "apply_policy E r parsed p now = (Inr (), r')" and "record_shape E r" and "rc_snippet_max_chars (ip_retention p) \<le> 300"
    and "length (pd_seen parsed) \<le> MAX_DIRECTIVES" and "list_all (url_form E) (rs_license_urls (pd_rights parsed) @ rs_tdm_policy_urls (pd_rights parsed))"
  shows "record_shape E r'" "response_evidence r' = response_evidence r"
proof -
  have v: "validators_valid no_validators" by (simp add: validators_valid_def no_validators_def)
  note ok = policed_ok [OF assms(2-5), of now]
  show "record_shape E r'" by (rule apply_policy_cases [OF assms(1)]) (simp_all only: record_shape_expiry record_shape_validators ok v)
  show "response_evidence r' = response_evidence r" by (rule apply_policy_cases [OF assms(1)]) (simp_all only: record_shape_expiry record_shape_validators ok)
qed

text \<open>
  C19: What a parsed page leaves behind is a valid record, and what it allows is what the publisher allows. When the response
  evidence is there, capturing the declared metadata of any page and applying the policy succeeds and yields a record that passes the
  validation exactly if every address in it is within 8192 bytes, with or without a retained body: nothing else that a page or its
  headers declare can make the record invalid. The body may be retained only if the response was not no-store, no rights signal
  was given, the directives were all recorded and the policy retains bodies, for at most thirty days after parsing; a no-store
  response leaves no validators; and the snippet stays within the policy and three hundred characters.
\<close>

theorem parsed_page_record:
  assumes "age = rc_raw_body_max_age_days (ip_retention p)" and "ingestion_validate I p = Inr p" and "digest_ok E" and "record_forms_parse (re_url E)" and "now + days 30 \<le> re_last_instant E"
    and "validate_record E r = Ret (Inr ())" and "response_evidence r" and "dr_retained_body_bytes r = 0"
    and "r1 = (capture_metadata E J root H url r)\<lparr> dr_parsed_at_utc := Present now, dr_validators := validators_from_headers H \<rparr>"
    and "parsed = parse_document D (re_url E) (pm_html root) H url" and "apply_policy E r1 parsed p now = (result, r2)"
    and "verdict = (if \<forall>u \<in> set (stored_urls r2). length u \<le> 8192 then Inr () else Inl CeRecordInvalid)"
  shows "result = Inr () \<and> validate_record E r2 = Ret verdict
    \<and> (dr_body_retention r2 = Body_Retained \<longrightarrow> validate_record E (r2\<lparr> dr_retained_body_bytes := n \<rparr>) = Ret verdict)
    \<and> (dr_body_retention r2 = Body_Retained \<longleftrightarrow> \<not> pd_no_store parsed \<and> \<not> index_only (pd_rights parsed) \<and> \<not> ef_limit_exceeded (pd_effective parsed) \<and> age > 0)
    \<and> dr_raw_expires_at_utc r2 = (if dr_body_retention r2 = Body_Retained then Some (now + days age) else None)
    \<and> age \<le> 30 \<and> (pd_no_store parsed \<longrightarrow> dr_validators r2 = no_validators) \<and> dr_snippet_limit_chars r2 \<le> min 300 (rc_snippet_max_chars (ip_retention p))"
proof -
  have bounds: "age \<le> 30" "rc_snippet_max_chars (ip_retention p) \<le> 300"
    using assms(2) by (auto simp: validate_iff validate_retention_bounds_def assms(1))
  have ok: "record_shape E r" using assms(6) by (simp add: validate_record_iff record_ok_shape)
  let ?c = "capture_metadata E J root H url r"
  have c: "record_shape E ?c" "kept r ?c" using keeps_metadata [OF assms(3,4)] ok unfolding keeps_def by blast+
  have p: "record_shape E (x\<lparr> dr_parsed_at_utc := t \<rparr>) = record_shape E x" "response_evidence (x\<lparr> dr_parsed_at_utc := t \<rparr>) = response_evidence x" for x t
    unfolding record_shape_unfold response_evidence_def by simp_all
  have r1: "record_shape E r1" "response_evidence r1" "dr_retained_body_bytes r1 = 0" "dr_parsed_at_utc r1 = Present now"
    using c assms(7,8) unfolding assms(9) by (simp_all add: record_shape_validators p validators_ok kept_def)
  have "days age \<le> days 30" using bounds(1) by simp
  then have "checked_days E now age = Some (now + days age)" using assms(5) by (simp add: checked_days_def)
  then have result: "apply_policy E r1 parsed p now = (Inr (), r2)"
    using assms(11) by (auto simp: apply_policy_def Let_def assms(1) split: if_splits)
  note d = apply_policy_decision [OF result]
  have ok2: "record_shape E r2" "response_evidence r2 = response_evidence r1"
    by (rule apply_policy_ok [OF result r1(1) bounds(2)]; use recorded_bound signals_storable [OF assms(4)] in \<open>simp add: assms(10)\<close>)+
  have retain: "dr_body_retention r2 = Body_Retained \<longleftrightarrow> \<not> pd_no_store parsed \<and> \<not> index_only (pd_rights parsed) \<and> \<not> ef_limit_exceeded (pd_effective parsed) \<and> age > 0"
    unfolding d(1) by (simp add: retention_decision_def assms(1))
  have e: "expiry_ok E r2" using d(4,8) bounds(1) assms(5) r1(4) by (simp add: expiry_ok_def assms(1))
  have v: "validate_record E r2 = Ret verdict"
    using ok2 r1(2-4) d(4,7,8) e unfolding assms(12) by (subst validate_shape) (simp_all add: retention_ok_def obs_is_none_def urls_bounded_def)
  have n: "record_shape E (r2\<lparr> dr_retained_body_bytes := n \<rparr>)" "response_evidence (r2\<lparr> dr_retained_body_bytes := n \<rparr>)" "expiry_ok E (r2\<lparr> dr_retained_body_bytes := n \<rparr>)"
    "urls_bounded (r2\<lparr> dr_retained_body_bytes := n \<rparr>) = urls_bounded r2"
    using ok2 r1(2) e unfolding record_shape_unfold response_evidence_def expiry_ok_def urls_bounded_def by simp_all
  have vn: "dr_body_retention r2 = Body_Retained \<longrightarrow> validate_record E (r2\<lparr> dr_retained_body_bytes := n \<rparr>) = Ret verdict"
    using validate_shape [OF n(1) _ _ n(2,3)] n(4) retain d(2,8) r1(4) unfolding assms(12) by (simp add: retention_ok_def obs_is_none_def urls_bounded_def)
  have s: "dr_snippet_limit_chars r2 \<le> rc_snippet_max_chars (ip_retention p)" unfolding d(6) by (rule snippet_bound)
  have ns: "pd_no_store parsed \<longrightarrow> dr_validators r2 = no_validators" using d(1,5) by (simp add: retention_decision_def)
  show ?thesis using result assms(11) v vn retain d(4) bounds s ns by (auto simp: assms(1))
qed

text \<open>
  The address of a canonical link is bounded before it is resolved, not after. A target whose record form is longer than the bound
  makes the record invalid, and the ledger refuses an invalid record.
\<close>

lemma overlong_canonical_invalid:
  assumes "is_canonical_link attrs" and "canonical_of E url attrs = Some target" and "8192 < length (ul_safe (re_url E) target)"
  shows "validate_record E (capture_canonical E url False [attrs] r) = Ret (Inl CeRecordInvalid)"
proof -
  have "\<not> stored_url_ok E (ul_safe (re_url E) target)" using assms(3) by (simp add: stored_url_ok_def split: option.splits)
  then have "\<not> list_all (stored_url_ok E) (stored_urls (capture_canonical E url False [attrs] r))"
    using assms(1,2) by (simp add: stored_urls_def Let_def)
  then show ?thesis by (simp add: validate_record_def)
qed

section \<open>Samples\<close>

definition sample_urls :: url_lib where
  "sample_urls = demo_url_lib\<lparr> ul_join := (\<lambda>base raw. if raw = [] then None else Some (demo_web (if hd raw = CHR ''/'' then raw else CHR ''/'' # raw))) \<rparr>"

definition sample_records :: record_env where
  "sample_records = \<lparr> re_url = sample_urls, re_sha256 = (\<lambda>_. replicate 64 CHR ''a''), re_is_uuid = (\<lambda>_. True), re_last_instant = 10 ^ 30,
     re_pkg_version = ''1.0'', re_policy_sha256 = (\<lambda>_. replicate 64 CHR ''a'') \<rparr>"

definition sample_snapshot :: robots_snapshot where
  "sample_snapshot = pending_snapshot ''https://example.org:443'' 0"

definition sample_response :: document_record where
  "sample_response = (pending_record sample_records (default_policy 0) ''r'' ''t'' (Some (demo_web ''/a'')))
     \<lparr> dr_final_url := Present ''https://example.org/a'', dr_canonical_url := Present ''https://example.org/a'',
       dr_canonical_key := Present (replicate 64 CHR ''a''), dr_retrieved_at_utc := Present 0, dr_http_status := Present 200,
       dr_content_sha256 := Present (replicate 64 CHR ''a''), dr_content_hash_source := CurrentResponse, dr_robots := Present sample_snapshot,
       dr_fetch_time_ms := Present 5, dr_queue_time_ms := Present 0, dr_body_bytes := Present 10 \<rparr>"

definition sample_page :: page_dom where
  "sample_page = \<lparr> pm_html = no_document, pm_title = Some ''A page'', pm_links = [[''rel'' \<mapsto> ''canonical'', ''href'' \<mapsto> ''b'']], pm_root = None, pm_scripts = [] \<rparr>"

lemma sample_digest: "valid_key (replicate 64 CHR ''a'')" "digest_ok sample_records"
  by (simp_all add: valid_key_def digest_ok_def sample_records_def list_all_iff)

lemma sample_storable: "length path \<le> 1000 \<Longrightarrow> stored_url_ok sample_records (''https://example.org'' @ path)"
  by (simp add: stored_url_ok_def sample_records_def sample_urls_def demo_url_lib_def demo_web_def http_scheme_def)

lemma sample_joins: "record_forms_parse (re_url sample_records)"
  by (auto simp: record_forms_parse_def sample_records_def sample_urls_def demo_url_lib_def demo_web_def split: if_splits)

lemma sample_pending: "validate_record sample_records (pending_record sample_records (default_policy 0) ''r'' ''t'' (Some (demo_web ''/a''))) = Ret (Inr ())"
proof (rule pending_ok [OF default_policy_valid sample_digest(2)])
  have s: "stored_url_ok sample_records (''https://example.org'' @ ''/a'')" by (rule sample_storable) simp
  show "\<forall>u. Some (demo_web ''/a'') = Some u \<longrightarrow> stored_url_ok sample_records (ul_safe (re_url sample_records) u)"
    using s by (simp add: sample_records_def sample_urls_def demo_url_lib_def demo_web_def)
qed (simp_all add: sample_records_def sample_digest [unfolded sample_records_def])

theorem pending_record_valid_witness:
  "validate_record sample_records (pending_record sample_records (default_policy 0) ''r'' ''t'' None) = Ret (Inr ())"
  by (rule pending_record_valid [OF default_policy_valid sample_digest(2)]) (simp_all add: sample_records_def sample_digest [unfolded sample_records_def])

lemma sample_response_valid: "validate_record sample_records sample_response = Ret (Inr ())" "response_evidence sample_response"
proof -
  have s: "stored_url_ok sample_records ''https://example.org/a''" using sample_storable [of "''/a''"] by simp
  have "record_ok sample_records (pending_record sample_records (default_policy 0) ''r'' ''t'' (Some (demo_web ''/a'')))"
    using sample_pending by (simp add: validate_record_iff)
  then have "record_ok sample_records sample_response"
    using s sample_digest unfolding sample_response_def record_ok_unfold by (simp add: digest_ok_def) (simp add: sample_records_def)
  then show "validate_record sample_records sample_response = Ret (Inr ())"
    by (simp add: validate_record_iff sample_response_def pending_record_def retention_ok_def obs_is_none_def)
  show "response_evidence sample_response"
    by (simp add: response_evidence_def sample_response_def pending_record_def obs_is_none_def observed_def)
qed

lemma policed_urls:
  assumes "apply_policy E r parsed p now = (Inr (), r')"
  shows "stored_urls r' = concat (map (\<lambda>x. case obs_value x of None \<Rightarrow> [] | Some v \<Rightarrow> [v]) [dr_canonical_url r, dr_requested_url r, dr_final_url r, dr_rel_canonical r])
      @ rs_license_urls (pd_rights parsed) @ rs_tdm_policy_urls (pd_rights parsed)"
    and "dr_canonical_url r' = dr_canonical_url r"
  by (rule apply_policy_cases [OF assms]; simp add: policed_def stored_urls_def)+

lemma sample_rights: "pd_rights (parse_document no_dates (re_url sample_records) (pm_html sample_page) (robots_tag [''index'']) (demo_web ''/a'')) = no_rights"
  by code_simp

lemma sample_link:
  "is_canonical_link [''rel'' \<mapsto> ''canonical'', ''href'' \<mapsto> ''b'']"
  "canonical_of sample_records (demo_web ''/a'') [''rel'' \<mapsto> ''canonical'', ''href'' \<mapsto> ''b''] = Some (demo_web ''/b'')"
  by code_simp+

lemma languages_urls:
  "dr_canonical_url (capture_languages root H r) = dr_canonical_url r" "dr_requested_url (capture_languages root H r) = dr_requested_url r"
  "dr_final_url (capture_languages root H r) = dr_final_url r" "dr_rel_canonical (capture_languages root H r) = dr_rel_canonical r"
  by (simp_all add: capture_languages_def Let_def split: list.splits)

lemma sample_capture:
  "map (\<lambda>f. obs_value (f (capture_metadata sample_records (\<lambda>_. None) sample_page (robots_tag [''index'']) (demo_web ''/a'') sample_response)))
     [dr_canonical_url, dr_requested_url, dr_final_url, dr_rel_canonical]
   = [Some ''https://example.org/b'', Some ''https://example.org/a'', Some ''https://example.org/a'', Some ''https://example.org/b'']"
proof -
  have "wu_text (demo_web ''/b'') = ''https://example.org/b''" "wu_text (demo_web ''/a'') = ''https://example.org/a''" by (simp_all add: demo_web_def)
  then show ?thesis
    by (simp add: capture_metadata_def Let_def languages_urls sample_page_def no_document_def sample_link)
      (simp add: sample_records_def sample_urls_def demo_url_lib_def sample_response_def pending_record_def observed_def)
qed

lemma obs_value_iff: "obs_value x = Some v \<longleftrightarrow> x = Present v"
  by (cases x) auto

text \<open>A page with a canonical link: its target is captured, and the record is valid.\<close>

theorem parsed_page_record_witness:
  "\<exists>r2. apply_policy sample_records ((capture_metadata sample_records (\<lambda>_. None) sample_page (robots_tag [''index'']) (demo_web ''/a'') sample_response)
        \<lparr> dr_parsed_at_utc := Present 0, dr_validators := validators_from_headers (robots_tag [''index'']) \<rparr>)
      (parse_document no_dates sample_urls no_document (robots_tag [''index'']) (demo_web ''/a'')) (default_policy 0) 0 = (Inr (), r2)
    \<and> dr_canonical_url r2 = Present ''https://example.org/b'' \<and> validate_record sample_records r2 = Ret (Inr ()) \<and> dr_snippet_limit_chars r2 \<le> 300"
proof -
  let ?r1 = "(capture_metadata sample_records (\<lambda>_. None) sample_page (robots_tag [''index'']) (demo_web ''/a'') sample_response)
        \<lparr> dr_parsed_at_utc := Present 0, dr_validators := validators_from_headers (robots_tag [''index'']) \<rparr>"
  let ?parsed = "parse_document no_dates (re_url sample_records) (pm_html sample_page) (robots_tag [''index'']) (demo_web ''/a'')"
  obtain result r2 where a: "apply_policy sample_records ?r1 ?parsed (default_policy 0) 0 = (result, r2)" by force
  have instant: "0 + days 30 \<le> re_last_instant sample_records" by (simp add: sample_records_def)
  have bytes: "dr_retained_body_bytes sample_response = 0" by (simp add: sample_response_def pending_record_def)
  note page = parsed_page_record [OF refl default_policy_valid sample_digest(2) sample_joins instant sample_response_valid bytes refl refl a refl]
  then have ok: "apply_policy sample_records ?r1 ?parsed (default_policy 0) 0 = (Inr (), r2)" using a by simp
  have urls: "dr_canonical_url r2 = Present ''https://example.org/b''" "stored_urls r2 = [''https://example.org/b'', ''https://example.org/a'', ''https://example.org/a'', ''https://example.org/b'']"
    using policed_urls [OF ok] sample_capture sample_rights by (simp_all add: no_rights_def obs_value_iff)
  show ?thesis using page ok urls by (simp add: sample_records_def sample_page_def)
qed

end
