(* ===== verification/Local_Sink.thy ===== *)
theory Local_Sink
  imports Document_Record
begin

text \<open>
  The managed sink for raw bodies (\<open>core/src/crawler/local_sink.rs\<close>) on the store of \<open>Retention\<close>: a body is written only when
  its record permits it, behind a manifest that is durable first, and bodies of a URL are purged when a later response forbids
  them. Each durable step of a write can fail or be the last one before a crash; the WARC encoder is a parameter that gives the
  length of the encoding.
\<close>

section \<open>Purging\<close>

type_synonym store_result = "(unit crawl \<times> retention_store) may_panic"

definition store_then :: "store_result \<Rightarrow> (retention_store \<Rightarrow> store_result) \<Rightarrow> store_result" where
  "store_then m k = outcome_bind m (\<lambda>(r, S). case r of Inl e \<Rightarrow> Ret (Inl e, S) | Inr _ \<Rightarrow> k S)"

text \<open>The instant of a deletion is read from the clock for each manifest.\<close>

fun purge_manifests :: "retention_env \<Rightarrow> body_retention \<Rightarrow> (string \<Rightarrow> int) \<Rightarrow> object_manifest list \<Rightarrow> retention_store \<Rightarrow> store_result" where
  "purge_manifests E reason clock [] S = Ret (Inr (), S)"
| "purge_manifests E reason clock (m # ms) S =
     (let m' = m\<lparr> om_body_retention := reason \<rparr> in
      store_then (Ret (persist_manifest E m' S)) (\<lambda>S1.
      store_then (outcome_bind (delete_manifest_objects E m' (clock (om_target_id m)) S1) (\<lambda>(r, S2). Ret (res_bind r (\<lambda>_. Inr ()), S2)))
        (purge_manifests E reason clock ms)))"

definition purge :: "retention_env \<Rightarrow> string \<Rightarrow> body_retention \<Rightarrow> (string \<Rightarrow> int) \<Rightarrow> retention_store \<Rightarrow> store_result" where
  "purge E key reason clock S =
     (case manifests E S of
        Inl e \<Rightarrow> Ret (Inl e, S)
      | Inr ms \<Rightarrow> purge_manifests E reason clock (filter (\<lambda>m. om_url_key m = key) ms) S)"

definition enforce_record :: "retention_env \<Rightarrow> document_record \<Rightarrow> (string \<Rightarrow> int) \<Rightarrow> retention_store \<Rightarrow> store_result" where
  "enforce_record E r clock S =
     (case obs_value (dr_url_key r) of
        None \<Rightarrow> Ret (Inr (), S)
      | Some key \<Rightarrow>
          store_then (if dr_body_retention r = NoStore then purge E key NoStore clock S else Ret (Inr (), S))
            (\<lambda>S1. if dr_index_only r \<or> dr_body_retention r \<in> {RightsReserved, Policy, Gone}
                  then purge E key (dr_body_retention r) clock S1 else Ret (Inr (), S1)))"

section \<open>Opening\<close>

text \<open>
  A managed directory is created when nothing is at its path; \<open>dl_foreign\<close> says that something else than a directory is there.
\<close>

record directory_faults =
  dl_foreign :: "string \<Rightarrow> bool"
  dl_create_fails :: "string \<Rightarrow> bool"
  dl_mode_fails :: "string \<Rightarrow> bool"

definition dir_present :: "string \<Rightarrow> retention_store \<Rightarrow> bool" where
  "dir_present name S = (if name = ''objects'' then st_object_dir S else st_manifest_dir S)"

definition dir_created :: "string \<Rightarrow> retention_store \<Rightarrow> retention_store" where
  "dir_created name S = (if name = ''objects'' then S\<lparr> st_object_dir := True \<rparr> else S\<lparr> st_manifest_dir := True \<rparr>)"

definition managed_directory :: "directory_faults \<Rightarrow> string \<Rightarrow> retention_store \<Rightarrow> unit crawl \<times> retention_store" where
  "managed_directory D name S =
     (if name \<notin> {''objects'', ''manifests''} then (Inl CeStoreRefused, S)
      else if dir_present name S then (if dl_mode_fails D name then Inl CeSinkWrite else Inr (), S)
      else if dl_foreign D name then (Inl CeStoreRefused, S)
      else if dl_create_fails D name then (Inl CeSinkWrite, S)
      else (if dl_mode_fails D name then Inl CeSinkWrite else Inr (), dir_created name S))"

definition sink_open :: "retention_env \<Rightarrow> directory_faults \<Rightarrow> int \<Rightarrow> retention_store \<Rightarrow> store_result" where
  "sink_open E D now S =
     store_then (Ret (managed_directory D ''objects'' S)) (\<lambda>S1.
     store_then (Ret (managed_directory D ''manifests'' S1)) (\<lambda>S2.
     outcome_bind (retention_run E now False S2) (\<lambda>(r, S'). Ret (res_bind r ensure_success, S'))))"

definition sink_retention :: "retention_env \<Rightarrow> int \<Rightarrow> bool \<Rightarrow> retention_store \<Rightarrow> (retention_report crawl \<times> retention_store) may_panic" where
  "sink_retention E now dry_run S =
     outcome_bind (retention_run E now dry_run S) (\<lambda>(r, S').
       Ret (res_bind r (\<lambda>report. if dry_run then Inr report else res_then (ensure_success report) (Inr report)), S'))"

definition sink_finish :: "retention_env \<Rightarrow> int \<Rightarrow> int \<Rightarrow> retention_store \<Rightarrow> store_result" where
  "sink_finish E now later S =
     outcome_bind (sink_retention E now False S) (\<lambda>(r, S').
       case res_bind r ensure_success of
         Inl e \<Rightarrow> Ret (Inl e, S')
       | Inr _ \<Rightarrow> outcome_bind (retention_scan E later S') (\<lambda>scanned. Ret (res_bind scanned (\<lambda>_. Inr ()), S')))"

section \<open>Writing\<close>

datatype payload_type = Payload_Html | Payload_Pdf | Payload_Rss | Payload_Atom

record crawl_datum =
  cd_record :: document_record
  cd_url :: web_url
  cd_payload_type :: payload_type
  cd_body :: string
  cd_fetch_time_ms :: nat
  cd_date :: int

text \<open>Where the durable steps of a write fail or are cut off, and the temporary a write of a manifest leaves then.\<close>

record sink_faults =
  sf_pending :: write_end
  sf_pending_temp :: "string option"
  sf_create_fails :: bool
  sf_write_fails :: bool
  sf_rename_fails :: bool
  sf_sync_fails :: bool
  sf_final :: write_end
  sf_final_temp :: "string option"

definition body_permitted :: "document_record \<Rightarrow> string \<Rightarrow> bool" where
  "body_permitted r body \<longleftrightarrow> \<not> dr_index_only r \<and> dr_body_retention r \<noteq> NoStore
     \<and> \<not> (body = [] \<or> dr_body_retention r \<noteq> Body_Retained \<or> index_only (dr_rights r) \<or> ef_limit_exceeded (dr_directives r))"

definition pending_manifest :: "retention_store \<Rightarrow> document_record \<Rightarrow> string \<Rightarrow> string \<Rightarrow> int \<Rightarrow> int \<Rightarrow> nat \<Rightarrow> object_manifest" where
  "pending_manifest S r key object parsed_at expiry bytes =
     \<lparr> om_schema_version = 1, om_store_id = st_store_id S, om_target_id = dr_target_id r, om_url_key = key, om_body_object = object,
       om_parsed_at = parsed_at, om_raw_expires_at = expiry, om_body_bytes = bytes, om_object_bytes = 0, om_state = Pending,
       om_body_retention = Body_Retained, om_deleted_at = None \<rparr>"

definition manifest_exists :: "retention_store \<Rightarrow> string \<Rightarrow> bool" where
  "manifest_exists S target = list_ex (\<lambda>f. mf_json f \<and> mf_stem f = target) (st_manifests S)"

text \<open>The checks before anything is written.\<close>

definition sink_record_checks :: "record_env \<Rightarrow> crawl_datum \<Rightarrow> unit crawl may_panic" where
  "sink_record_checks R d =
     outcome_bind (validate_record R (cd_record d)) (\<lambda>v.
       case v of
         Inl e \<Rightarrow> Ret (Inl e)
       | Inr _ \<Rightarrow>
           outcome_bind (validate_success_fields R (cd_record d)) (\<lambda>s.
             Ret (res_then s (if body_permitted (cd_record d) (cd_body d) then Inr () else Inl CeSinkWrite))))"

definition sink_lifetime :: "retention_env \<Rightarrow> document_record \<Rightarrow> int \<Rightarrow> (int \<times> int) crawl may_panic" where
  "sink_lifetime E r now =
     (case (obs_value (dr_parsed_at_utc r), dr_raw_expires_at_utc r) of
        (Some parsed_at, Some expiry) \<Rightarrow>
          (let shortened = parsed_at + days (en_max_age_days E) in
           if shortened > en_last_instant E then Panic
           else if now \<ge> min expiry shortened then Ret (Inl CeSinkWrite)
           else Ret (Inr (parsed_at, expiry)))
      | _ \<Rightarrow> Ret (Inl CeRecordInvalid))"

definition sink_manifest :: "retention_env \<Rightarrow> crawl_datum \<Rightarrow> int \<Rightarrow> int \<Rightarrow> retention_store \<Rightarrow> object_manifest crawl" where
  "sink_manifest E d parsed_at expiry S =
     res_bind (object_name E (dr_target_id (cd_record d))) (\<lambda>object.
       if manifest_exists S (dr_target_id (cd_record d)) then Inl CeSinkWrite
       else res_bind (ok_or (obs_value (dr_url_key (cd_record d))) CeRecordInvalid) (\<lambda>key.
         Inr (pending_manifest S (cd_record d) key object parsed_at expiry (length (cd_body d)))))"

definition sink_vacant :: "retention_env \<Rightarrow> retention_store \<Rightarrow> object_manifest \<Rightarrow> unit crawl may_panic" where
  "sink_vacant E S m =
     outcome_bind (validate_owned_store_and_object E S m False) (\<lambda>final.
       case final of
         Inl e \<Rightarrow> Ret (Inl e)
       | Inr (Some _) \<Rightarrow> Ret (Inl CeSinkWrite)
       | Inr None \<Rightarrow>
           outcome_bind (validate_owned_store_and_object E S m True) (\<lambda>staging.
             Ret (res_bind staging (\<lambda>x. if x = None then Inr () else Inl CeSinkWrite))))"

definition sink_admit :: "retention_env \<Rightarrow> record_env \<Rightarrow> crawl_datum \<Rightarrow> int \<Rightarrow> retention_store \<Rightarrow> object_manifest crawl may_panic" where
  "sink_admit E R d now S =
     outcome_bind (sink_record_checks R d) (\<lambda>c.
     case c of
       Inl e \<Rightarrow> Ret (Inl e)
     | Inr _ \<Rightarrow>
         outcome_bind (sink_lifetime E (cd_record d) now) (\<lambda>l.
         case l of
           Inl e \<Rightarrow> Ret (Inl e)
         | Inr (parsed_at, expiry) \<Rightarrow>
             (case sink_manifest E d parsed_at expiry S of
                Inl e \<Rightarrow> Ret (Inl e)
              | Inr m \<Rightarrow> outcome_bind (sink_vacant E S m) (\<lambda>v. Ret (res_then v (Inr m))))))"

text \<open>The durable steps.\<close>

definition persist_as :: "retention_env \<Rightarrow> write_end \<Rightarrow> string option \<Rightarrow> object_manifest \<Rightarrow> retention_store \<Rightarrow> unit crawl \<times> retention_store" where
  "persist_as E w temp m S = persist_manifest (E\<lparr> en_persist := (\<lambda>_. w), en_leftover := (\<lambda>_. temp) \<rparr>) m S"

definition create_file :: "string \<Rightarrow> retention_store \<Rightarrow> retention_store" where
  "create_file path S = S\<lparr> st_objects := (path, Regular_File) # st_objects S \<rparr>"

definition rename_file :: "string \<Rightarrow> string \<Rightarrow> retention_store \<Rightarrow> retention_store" where
  "rename_file old new S = S\<lparr> st_objects := (new, Regular_File) # filter (\<lambda>f. fst f \<noteq> old \<and> fst f \<noteq> new) (st_objects S) \<rparr>"

definition sink_store :: "retention_env \<Rightarrow> sink_faults \<Rightarrow> nat option \<Rightarrow> object_manifest \<Rightarrow> retention_store \<Rightarrow> unit crawl \<times> retention_store" where
  "sink_store E F encoded m S =
     (case persist_as E (sf_pending F) (sf_pending_temp F) m S of
        (Inl e, S1) \<Rightarrow> (Inl e, S1)
      | (Inr _, S1) \<Rightarrow>
          (case encoded of
             None \<Rightarrow> (Inl CeSinkWrite, S1)
           | Some bytes \<Rightarrow>
               if sf_create_fails F \<or> \<not> st_object_dir S1 \<or> map_of (st_objects S1) (staging_name m) \<noteq> None then (Inl CeSinkWrite, S1)
               else
                 (let S2 = create_file (staging_name m) S1; S3 = rename_file (staging_name m) (om_body_object m) S2 in
                  if sf_write_fails F \<or> sf_rename_fails F then (Inl CeSinkWrite, S2)
                  else if sf_sync_fails F then (Inl CeSinkWrite, S3)
                  else persist_as E (sf_final F) (sf_final_temp F) (m\<lparr> om_object_bytes := bytes, om_state := Retained \<rparr>) S3)))"

definition write_durable :: "retention_env \<Rightarrow> record_env \<Rightarrow> (crawl_datum \<Rightarrow> nat option) \<Rightarrow> sink_faults \<Rightarrow> crawl_datum \<Rightarrow> int \<Rightarrow> retention_store \<Rightarrow> store_result" where
  "write_durable E R warc F d now S =
     outcome_bind (sink_admit E R d now S) (\<lambda>r.
       case r of
         Inl e \<Rightarrow> Ret (Inl e, S)
       | Inr m \<Rightarrow> Ret (sink_store E F (warc d) m S))"

text \<open>The trait's \<open>write\<close> reports every error as a failed write.\<close>

definition sink_write :: "retention_env \<Rightarrow> record_env \<Rightarrow> (crawl_datum \<Rightarrow> nat option) \<Rightarrow> sink_faults \<Rightarrow> crawl_datum \<Rightarrow> int \<Rightarrow> retention_store \<Rightarrow> store_result" where
  "sink_write E R warc F d now S =
     outcome_bind (write_durable E R warc F d now S) (\<lambda>(r, S'). Ret (map_err r CeSinkWrite, S'))"

section \<open>Purging is complete\<close>

lemma store_then_ok: "store_then m k = Ret (Inr (), S') \<longleftrightarrow> (\<exists>u S. m = Ret (Inr u, S) \<and> k S = Ret (Inr (), S'))"
  by (cases m) (auto simp: store_then_def split: sum.splits)

definition purged :: "body_retention \<Rightarrow> (string \<Rightarrow> int) \<Rightarrow> object_manifest \<Rightarrow> object_manifest" where
  "purged reason clock m = m\<lparr> om_body_retention := reason, om_state := Deleted, om_deleted_at := Some (clock (om_target_id m)) \<rparr>"

lemma purged_same: "same_object m (purged reason clock m)"
  by (simp add: same_object_def purged_def)

lemma write_twice:
  assumes "om_target_id m = om_target_id m'"
  shows "write_manifest m' (write_manifest m fs) = write_manifest m' fs"
proof (cases "\<exists>f \<in> set fs. mf_json f \<and> mf_stem f = om_target_id m'")
  case True
  then have w: "write_manifest m fs = map (\<lambda>f. if mf_json f \<and> mf_stem f = om_target_id m' then f\<lparr> mf_content := Some m \<rparr> else f) fs"
    using write_present [of fs m] assms by simp
  from True obtain f where f: "f \<in> set fs" "mf_json f" "mf_stem f = om_target_id m'" by blast
  then have "f\<lparr> mf_content := Some m \<rparr> \<in> set (write_manifest m fs)" unfolding w by force
  with f have "\<exists>f \<in> set (write_manifest m fs). mf_json f \<and> mf_stem f = om_target_id m'"
    by (intro bexI [of _ "f\<lparr> mf_content := Some m \<rparr>"]) simp_all
  from write_present [OF this] have "write_manifest m' (write_manifest m fs)
      = map (\<lambda>f. if mf_json f \<and> mf_stem f = om_target_id m' then f\<lparr> mf_content := Some m' \<rparr> else f) (write_manifest m fs)" .
  also have "\<dots> = map (\<lambda>f. if mf_json f \<and> mf_stem f = om_target_id m' then f\<lparr> mf_content := Some m' \<rparr> else f) fs"
    unfolding w map_map by (rule map_cong) simp_all
  finally show ?thesis by (simp only: write_present [OF True])
next
  case False
  then have n: "\<not> list_ex (\<lambda>f. mf_json f \<and> mf_stem f = om_target_id m') fs" unfolding list_ex_iff by blast
  have id: "map (\<lambda>f. if mf_json f \<and> mf_stem f = om_target_id m' then f\<lparr> mf_content := Some m' \<rparr> else f) fs = fs"
    using False by (intro map_idI) auto
  show ?thesis unfolding write_manifest_def using n id assms by simp
qed

text \<open>Purging one manifest.\<close>

lemma purge_one:
  assumes "persist_manifest E (m\<lparr> om_body_retention := reason \<rparr>) S = (Inr u, S1)"
    and "delete_manifest_objects E (m\<lparr> om_body_retention := reason \<rparr>) (clock (om_target_id m)) S1 = Ret (Inr b, S2)"
  shows "S2 = S\<lparr> st_objects := filter (\<lambda>f. fst f \<notin> paths_of m) (st_objects S), st_manifests := write_manifest (purged reason clock m) (st_manifests S) \<rparr>"
    and "manifest_ok E S m = Ret (Inr ())"
proof -
  let ?m = "m\<lparr> om_body_retention := reason \<rparr>"
  have S1: "S1 = S\<lparr> st_manifests := write_manifest ?m (st_manifests S) \<rparr>" using persist_result [OF assms(1)] by auto
  from delete_result [OF assms(2)] obtain R w where d: "changed ?m R w S1 S2" "w = Some (?m\<lparr> om_state := Deleted, om_deleted_at := Some (clock (om_target_id m)) \<rparr>)"
    "R = {p \<in> paths_of ?m. map_of (st_objects S1) p \<noteq> None}" "manifest_ok E S1 ?m = Ret (Inr ())" by auto
  have same: "same_object m ?m" by (simp add: same_object_def)
  have p: "purged reason clock m = ?m\<lparr> om_state := Deleted, om_deleted_at := Some (clock (om_target_id m)) \<rparr>" by (simp add: purged_def)
  have R: "R = {p \<in> paths_of m. map_of (st_objects S) p \<noteq> None}" using d(3) same_object_facts(2) [OF same] S1 by simp
  have f: "filter (\<lambda>f. fst f \<notin> R) (st_objects S) = filter (\<lambda>f. fst f \<notin> paths_of m) (st_objects S)"
    by (rule filter_cong) (auto simp: R map_of_eq_None_iff)
  have w: "write_manifest (purged reason clock m) (write_manifest ?m (st_manifests S)) = write_manifest (purged reason clock m) (st_manifests S)"
    by (rule write_twice) (simp add: purged_def)
  have "st_leftovers S2 = st_leftovers S1" using delete_leftovers [OF assms(2)] by auto
  then have "S2 = S1\<lparr> st_objects := filter (\<lambda>f. fst f \<notin> R) (st_objects S1), st_manifests := write_manifest (purged reason clock m) (st_manifests S1) \<rparr>"
    using d(1) unfolding changed_def d(2) p by auto
  then show "S2 = S\<lparr> st_objects := filter (\<lambda>f. fst f \<notin> paths_of m) (st_objects S), st_manifests := write_manifest (purged reason clock m) (st_manifests S) \<rparr>"
    unfolding S1 using f w by simp
  show "manifest_ok E S m = Ret (Inr ())" using d(4) same_object_facts(1) [OF same, of E S] by (simp add: S1 manifest_ok_def)
qed

lemma purge_manifests_ok:
  assumes "purge_manifests E reason clock ks S = Ret (Inr (), S')" and "holds E S cur" and "set ks \<subseteq> set cur" and "distinct (map om_target_id ks)"
  shows "holds E S' (map (\<lambda>m. if om_target_id m \<in> om_target_id ` set ks then purged reason clock m else m) cur)
    \<and> S' = S\<lparr> st_objects := filter (\<lambda>f. fst f \<notin> (\<Union>m \<in> set ks. paths_of m)) (st_objects S), st_manifests := st_manifests S' \<rparr>"
  using assms
proof (induction ks arbitrary: S cur)
  case Nil
  then show ?case by simp
next
  case (Cons k ks)
  let ?k = "purged reason clock k"
  from Cons.prems(1) obtain u S1 b S2 where s: "persist_manifest E (k\<lparr> om_body_retention := reason \<rparr>) S = (Inr u, S1)"
    "delete_manifest_objects E (k\<lparr> om_body_retention := reason \<rparr>) (clock (om_target_id k)) S1 = Ret (Inr b, S2)"
    "purge_manifests E reason clock ks S2 = Ret (Inr (), S')"
    by (auto simp: Let_def store_then_ok bind_Ret_iff res_bind_Inr)
  note one = purge_one [where clock = clock and m = k and reason = reason, OF s(1,2)]
  let ?cur = "map (\<lambda>m. if om_target_id m = om_target_id ?k then ?k else m) cur"
  have k: "k \<in> set cur" "om_target_id ?k = om_target_id k" using Cons.prems(3) by (auto simp: purged_def)
  have "holds E (S\<lparr> st_manifests := write_manifest ?k (st_manifests S) \<rparr>) ?cur" using holds_write [OF Cons.prems(2), of ?k] k by auto
  then have h: "holds E S2 ?cur" by (simp add: holds_def one(1))
  have uniq: "m = k" if "m \<in> set cur" "om_target_id m = om_target_id k" for m
    using Cons.prems(2) that k(1) by (auto simp: holds_def distinct_map dest: inj_onD)
  have cur': "set ks \<subseteq> set ?cur"
  proof
    fix x assume x: "x \<in> set ks"
    have "om_target_id k \<notin> om_target_id ` set ks" using Cons.prems(4) by simp
    then have "om_target_id x \<noteq> om_target_id ?k" "x \<in> set cur" using Cons.prems(3) k(2) x by (metis imageI, auto)
    then show "x \<in> set ?cur" by (auto intro: rev_image_eqI)
  qed
  from Cons.IH [OF s(3) h cur'] Cons.prems(4)
  have IH: "holds E S' (map (\<lambda>m. if om_target_id m \<in> om_target_id ` set ks then purged reason clock m else m) ?cur)"
    "S' = S2\<lparr> st_objects := filter (\<lambda>f. fst f \<notin> (\<Union>m \<in> set ks. paths_of m)) (st_objects S2), st_manifests := st_manifests S' \<rparr>" by auto
  have notin: "om_target_id k \<notin> om_target_id ` set ks" using Cons.prems(4) by simp
  have relabel: "map (\<lambda>m. if om_target_id m \<in> om_target_id ` set ks then purged reason clock m else m) ?cur
      = map (\<lambda>m. if om_target_id m \<in> om_target_id ` set (k # ks) then purged reason clock m else m) cur"
    using uniq notin k(2) by auto
  have "S' = S\<lparr> st_objects := filter (\<lambda>f. fst f \<notin> (\<Union>m \<in> set (k # ks). paths_of m)) (st_objects S), st_manifests := st_manifests S' \<rparr>"
    using IH(2) one(1) by (simp add: conj_commute)
  with IH(1) [unfolded relabel] show ?case by blast
qed

lemma purge_complete:
  assumes "distinct (map mf_stem (st_manifests S))" and "purge E key reason clock S = Ret (Inr (), S')"
  shows "\<exists>ms. holds E S ms \<and> holds E S' (map (\<lambda>m. if om_url_key m = key then purged reason clock m else m) ms)
    \<and> S' = S\<lparr> st_objects := filter (\<lambda>f. fst f \<notin> (\<Union>m \<in> {m \<in> set ms. om_url_key m = key}. paths_of m)) (st_objects S), st_manifests := st_manifests S' \<rparr>"
proof -
  obtain ss where ss: "manifests E S = Inr ss" "purge_manifests E reason clock (filter (\<lambda>m. om_url_key m = key) ss) S = Ret (Inr (), S')"
    using assms(2) by (auto simp: purge_def split: sum.splits)
  obtain ms where ms: "res_map (read_manifest E) (st_manifests S) = Inr ms" "ss = sort_key om_target_id ms"
    using ss(1) by (auto simp: manifests_def res_bind_Inr split: if_splits)
  have l: "list_all2 (\<lambda>f m. read_manifest E f = Inr m) (st_manifests S) ms" using ms(1) by (simp add: res_map_Inr_iff)
  have "map mf_stem (st_manifests S) = map om_target_id ms" using l by (induction rule: list_all2_induct) (auto simp: read_manifest_iff)
  then have h: "holds E S ms" using ms(1) assms(1) by (simp add: holds_def)
  then have d: "distinct (map om_target_id ms)" by (simp add: holds_def)
  let ?ks = "filter (\<lambda>m. om_url_key m = key) ss"
  have "distinct (map om_target_id ss)" unfolding ms(2) using d by (simp add: distinct_map)
  then have dk: "distinct (map om_target_id ?ks)" by (rule distinct_map_filter)
  have sub: "set ?ks \<subseteq> set ms" using ms(2) by auto
  have mem: "om_target_id m \<in> om_target_id ` set ?ks \<longleftrightarrow> om_url_key m = key" if "m \<in> set ms" for m
    using that d ms(2) by (auto simp: distinct_map dest: inj_onD)
  have eq: "map (\<lambda>m. if om_target_id m \<in> om_target_id ` set ?ks then purged reason clock m else m) ms
      = map (\<lambda>m. if om_url_key m = key then purged reason clock m else m) ms" using mem by (intro map_cong) auto
  have un: "(\<Union>m \<in> set ?ks. paths_of m) = (\<Union>m \<in> {m \<in> set ms. om_url_key m = key}. paths_of m)" using ms(2) by auto
  from purge_manifests_ok [OF ss(2) h sub dk] have "holds E S' (map (\<lambda>m. if om_url_key m = key then purged reason clock m else m) ms)"
    "S' = S\<lparr> st_objects := filter (\<lambda>f. fst f \<notin> (\<Union>m \<in> {m \<in> set ms. om_url_key m = key}. paths_of m)) (st_objects S), st_manifests := st_manifests S' \<rparr>"
    unfolding eq un by blast+
  with h show ?thesis by blast
qed

text \<open>The paths of a URL, and a store in which no body of it is left.\<close>

definition key_paths :: "retention_store \<Rightarrow> string \<Rightarrow> string set" where
  "key_paths S key = {path. \<exists>f \<in> set (st_manifests S). \<exists>m. mf_content f = Some m \<and> om_url_key m = key \<and> path \<in> paths_of m}"

definition no_body :: "retention_store \<Rightarrow> string \<Rightarrow> bool" where
  "no_body S key \<longleftrightarrow> (\<forall>path \<in> key_paths S key. map_of (st_objects S) path = None)"

lemma holds_files:
  assumes "holds E S ms"
  shows "map mf_content (st_manifests S) = map Some ms" and "map mf_stem (st_manifests S) = map om_target_id ms"
proof -
  have l: "list_all2 (\<lambda>f m. read_manifest E f = Inr m) (st_manifests S) ms" using assms by (simp add: holds_def res_map_Inr_iff)
  then show "map mf_content (st_manifests S) = map Some ms" by (induction rule: list_all2_induct) (auto simp: read_manifest_iff)
  from l show "map mf_stem (st_manifests S) = map om_target_id ms" by (induction rule: list_all2_induct) (auto simp: read_manifest_iff)
qed

lemma key_paths_holds:
  assumes "holds E S ms"
  shows "key_paths S key = (\<Union>m \<in> {m \<in> set ms. om_url_key m = key}. paths_of m)"
proof -
  have "mf_content ` set (st_manifests S) = Some ` set ms" using arg_cong [OF holds_files(1) [OF assms], of set] by simp
  then have "(\<exists>f \<in> set (st_manifests S). mf_content f = Some m) \<longleftrightarrow> m \<in> set ms" for m by (metis (no_types, lifting) image_iff option.inject)
  then show ?thesis unfolding key_paths_def by blast
qed

lemma relabelled_union:
  assumes "\<And>m. k (f m) = k m" and "\<And>m. p (f m) = p m"
  shows "(\<Union>m \<in> {m \<in> set (map f ms). k m = c}. p m) = (\<Union>m \<in> {m \<in> set ms. k m = c}. p m)"
  by (auto simp: assms)

lemma purge_result:
  assumes "distinct (map mf_stem (st_manifests S))" and "purge E key reason clock S = Ret (Inr (), S')"
  shows "key_paths S' key = key_paths S key" and "map_of (st_objects S') path = (if path \<in> key_paths S key then None else map_of (st_objects S) path)"
    and "distinct (map mf_stem (st_manifests S'))"
proof -
  from purge_complete [OF assms] obtain ms where ms: "holds E S ms" "holds E S' (map (\<lambda>m. if om_url_key m = key then purged reason clock m else m) ms)"
    "S' = S\<lparr> st_objects := filter (\<lambda>f. fst f \<notin> (\<Union>m \<in> {m \<in> set ms. om_url_key m = key}. paths_of m)) (st_objects S), st_manifests := st_manifests S' \<rparr>" by blast
  have p: "paths_of (purged reason clock m) = paths_of m" "om_url_key (purged reason clock m) = om_url_key m" "om_target_id (purged reason clock m) = om_target_id m" for m
    using same_object_facts(2) [OF purged_same] by (simp_all add: purged_def)
  show "key_paths S' key = key_paths S key"
    unfolding key_paths_holds [OF ms(1)] key_paths_holds [OF ms(2)] by (rule relabelled_union) (simp_all add: p)
  have o: "st_objects S' = filter (\<lambda>f. fst f \<notin> key_paths S key) (st_objects S)"
    using arg_cong [OF ms(3), of st_objects] by (simp add: key_paths_holds [OF ms(1)])
  show "map_of (st_objects S') path = (if path \<in> key_paths S key then None else map_of (st_objects S) path)" unfolding o by (rule map_of_removed)
  have "map om_target_id (map (\<lambda>m. if om_url_key m = key then purged reason clock m else m) ms) = map om_target_id ms" by (simp add: p)
  then show "distinct (map mf_stem (st_manifests S'))" using holds_files(2) [OF ms(2)] ms(1) unfolding holds_def by metis
qed

text \<open>
  C21: A record that forbids keeping a body takes earlier bodies of its URL away. When enforcing a record succeeds and the response
  was no-store, its rights are reserved, the document is gone or the policy keeps metadata only, no managed body of that URL,
  of this target or of any earlier one, is left in the store, and no file of another URL is touched.
\<close>

theorem forbidden_bodies_purged:
  assumes "distinct (map mf_stem (st_manifests S))" and "enforce_record E r clock S = Ret (Inr (), S')" and "obs_value (dr_url_key r) = Some key"
  shows "(dr_index_only r \<or> dr_body_retention r \<in> {NoStore, RightsReserved, Policy, Gone} \<longrightarrow> no_body S' key)
    \<and> (path \<notin> key_paths S key \<longrightarrow> map_of (st_objects S') path = map_of (st_objects S) path)"
proof -
  let ?first = "dr_body_retention r = NoStore" and ?second = "dr_index_only r \<or> dr_body_retention r \<in> {RightsReserved, Policy, Gone}"
  from assms(2,3) obtain S1 where s: "(if ?first then purge E key NoStore clock S else Ret (Inr (), S)) = Ret (Inr (), S1)"
    "(if ?second then purge E key (dr_body_retention r) clock S1 else Ret (Inr (), S1)) = Ret (Inr (), S')"
    by (auto simp: enforce_record_def store_then_ok)
  have one: "distinct (map mf_stem (st_manifests S1)) \<and> key_paths S1 key = key_paths S key \<and> (?first \<longrightarrow> no_body S1 key)
      \<and> (path \<notin> key_paths S key \<longrightarrow> map_of (st_objects S1) path = map_of (st_objects S) path)"
    using s(1) assms(1) purge_result [OF assms(1), of E key NoStore clock S1] by (auto simp: no_body_def split: if_splits)
  then show ?thesis
    using s(2) purge_result [of S1 E key "dr_body_retention r" clock S'] by (auto simp: no_body_def split: if_splits)
qed

section \<open>Writing leaves nothing unmanaged\<close>

lemma sink_admit_ok:
  assumes "sink_admit E R d now S = Ret (Inr m)"
  shows "body_permitted (cd_record d) (cd_body d)" "validate_record R (cd_record d) = Ret (Inr ())"
    and "manifest_ok E S m = Ret (Inr ())" "\<not> manifest_exists S (om_target_id m)" "\<forall>path \<in> paths_of m. map_of (st_objects S) path = None"
    and "om_target_id m = dr_target_id (cd_record d)" "Some (om_url_key m) = obs_value (dr_url_key (cd_record d))" "om_state m = Pending" "om_body_retention m = Body_Retained"
    and "\<exists>x. raw_deadline E m = Inr x \<and> now < x" "st_root_ok S" "st_object_dir S"
proof -
  obtain parsed expiry where a: "sink_record_checks R d = Ret (Inr ())" "sink_lifetime E (cd_record d) now = Ret (Inr (parsed, expiry))"
    "sink_manifest E d parsed expiry S = Inr m" "sink_vacant E S m = Ret (Inr ())"
  proof -
    from assms obtain t where t: "sink_record_checks R d = Ret (Inr ())" "sink_lifetime E (cd_record d) now = Ret (Inr t)"
      "(case t of (parsed, expiry) \<Rightarrow> (case sink_manifest E d parsed expiry S of
          Inl e \<Rightarrow> Ret (Inl e) | Inr m \<Rightarrow> outcome_bind (sink_vacant E S m) (\<lambda>v. Ret (res_then v (Inr m))))) = Ret (Inr m)"
      by (auto simp: sink_admit_def bind_case_iff)
    then show thesis using that [of "fst t" "snd t"] by (cases t; cases "sink_manifest E d (fst t) (snd t) S") (auto simp: bind_Ret_iff res_then_Inr)
  qed
  show "body_permitted (cd_record d) (cd_body d)" "validate_record R (cd_record d) = Ret (Inr ())"
    using a(1) [unfolded sink_record_checks_def bind_case_iff] by (auto simp: bind_Ret_iff res_then_Inr split: if_splits)
  obtain object key where m: "object_name E (dr_target_id (cd_record d)) = Inr object" "\<not> manifest_exists S (dr_target_id (cd_record d))"
    "obs_value (dr_url_key (cd_record d)) = Some key" "m = pending_manifest S (cd_record d) key object parsed expiry (length (cd_body d))"
    using a(3) by (auto simp: sink_manifest_def res_bind_Inr ok_or_def split: if_splits option.splits)
  then show "\<not> manifest_exists S (om_target_id m)" "om_target_id m = dr_target_id (cd_record d)" "Some (om_url_key m) = obs_value (dr_url_key (cd_record d))"
    "om_state m = Pending" "om_body_retention m = Body_Retained" by (simp_all add: pending_manifest_def)
  have v: "validate_owned_store_and_object E S m False = Ret (Inr None)" "validate_owned_store_and_object E S m True = Ret (Inr None)"
  proof -
    obtain f where f: "validate_owned_store_and_object E S m False = Ret f" using a(4) by (auto simp: sink_vacant_def bind_Ret_iff)
    then have f': "f = Inr None" using a(4) by (cases f) (auto simp: sink_vacant_def split: option.split_asm)
    then show "validate_owned_store_and_object E S m False = Ret (Inr None)" "validate_owned_store_and_object E S m True = Ret (Inr None)"
      using a(4) f by (auto simp: sink_vacant_def bind_Ret_iff res_bind_Inr split: if_splits)
  qed
  from validated_paths [OF v] show "manifest_ok E S m = Ret (Inr ())" "\<forall>path \<in> paths_of m. map_of (st_objects S) path = None" "st_root_ok S" "st_object_dir S" by simp_all
  have "om_parsed_at m = parsed" "om_raw_expires_at m = expiry" using m(4) by (simp_all add: pending_manifest_def)
  then show "\<exists>x. raw_deadline E m = Inr x \<and> now < x"
    using a(2) by (auto simp: sink_lifetime_def raw_deadline_def Let_def split: option.splits if_splits)
qed

text \<open>Writing a manifest of a new target appends it.\<close>

lemma write_fresh:
  assumes "\<not> list_ex (\<lambda>f. mf_json f \<and> mf_stem f = om_target_id m) fs"
  shows "write_manifest m fs = fs @ [\<lparr> mf_regular = True, mf_json = True, mf_stem = om_target_id m, mf_content = Some m \<rparr>]"
  using assms by (simp add: write_manifest_def)

text \<open>
  What a write may leave: nothing, a pending manifest with at most its staging or final file, or the complete object; and beside the first
  two, when the write of the pending or of the final manifest was cut off, one temporary. The store has at most one of the two files, and
  never a file without its manifest.
\<close>

inductive write_outcome :: "retention_store \<Rightarrow> object_manifest \<Rightarrow> nat \<Rightarrow> unit crawl \<Rightarrow> retention_store \<Rightarrow> bool" for S m bytes where
  untouched: "r \<noteq> Inr () \<Longrightarrow> left = st_leftovers S \<or> (\<exists>temp. left = temp # st_leftovers S) \<Longrightarrow> write_outcome S m bytes r (S\<lparr> st_leftovers := left \<rparr>)"
| managed: "r \<noteq> Inr () \<Longrightarrow> objects \<in> {st_objects S, (staging_name m, Regular_File) # st_objects S, (om_body_object m, Regular_File) # st_objects S} \<Longrightarrow>
    left = st_leftovers S \<or> (\<exists>temp. left = temp # st_leftovers S) \<Longrightarrow>
    write_outcome S m bytes r (S\<lparr> st_manifests := write_manifest m (st_manifests S), st_objects := objects, st_leftovers := left \<rparr>)"
| complete: "write_outcome S m bytes r (S\<lparr> st_manifests := write_manifest (m\<lparr> om_object_bytes := bytes, om_state := Retained \<rparr>) (st_manifests S),
    st_objects := (om_body_object m, Regular_File) # st_objects S \<rparr>)"

lemma managed_plain:
  assumes "r \<noteq> Inr ()" and "objects \<in> {st_objects S, (staging_name m, Regular_File) # st_objects S, (om_body_object m, Regular_File) # st_objects S}"
  shows "write_outcome S m bytes r (S\<lparr> st_manifests := write_manifest m (st_manifests S), st_objects := objects \<rparr>)"
  using managed [OF assms, of "st_leftovers S"] by simp

lemma persist_as_cases:
  assumes "persist_as E w temp m S = (r, S')"
  shows "(\<exists>left. S' = S\<lparr> st_leftovers := left \<rparr> \<and> (left = st_leftovers S \<or> (\<exists>t. left = t # st_leftovers S))) \<and> r \<noteq> Inr ()
    \<or> S' = S\<lparr> st_manifests := write_manifest m (st_manifests S) \<rparr>"
proof -
  consider "r = Inr ()" "S' = S\<lparr> st_manifests := write_manifest m (st_manifests S) \<rparr>" | "r \<noteq> Inr ()" "S' = S\<lparr> st_leftovers := st_leftovers S \<rparr>"
    | "S' = S\<lparr> st_manifests := write_manifest m (st_manifests S) \<rparr>" | t where "r \<noteq> Inr ()" "S' = S\<lparr> st_leftovers := t # st_leftovers S \<rparr>"
    using persist_result [OF assms [unfolded persist_as_def]] by auto
  then show ?thesis by cases blast+
qed

lemma sink_store_outcome:
  assumes "sink_store E F encoded m S = (r, S')" and "\<forall>path \<in> paths_of m. map_of (st_objects S) path = None"
  shows "\<exists>bytes. write_outcome S m bytes r S'"
proof -
  let ?S1 = "S\<lparr> st_manifests := write_manifest m (st_manifests S) \<rparr>"
  obtain r1 S1 where p: "persist_as E (sf_pending F) (sf_pending_temp F) m S = (r1, S1)" by force
  show ?thesis
  proof (cases "\<exists>bytes. r1 = Inr () \<and> encoded = Some bytes \<and> \<not> (sf_create_fails F \<or> \<not> st_object_dir S1 \<or> map_of (st_objects S1) (staging_name m) \<noteq> None)")
    case False
    then have "S' = S1" "r \<noteq> Inr ()" using assms(1) p by (auto simp: sink_store_def split: sum.split_asm option.split_asm if_splits)
    then show ?thesis using persist_as_cases [OF p] managed_plain [of r "st_objects S" S m] untouched by fastforce
  next
    case True
    then obtain bytes where t: "r1 = Inr ()" "encoded = Some bytes" "\<not> (sf_create_fails F \<or> \<not> st_object_dir S1 \<or> map_of (st_objects S1) (staging_name m) \<noteq> None)" by blast
    have S1: "S1 = ?S1" using persist_as_cases [OF p] t(1) by auto
    let ?S2 = "create_file (staging_name m) S1" and ?S3 = "rename_file (staging_name m) (om_body_object m) (create_file (staging_name m) S1)"
    have fresh: "filter (\<lambda>f. fst f \<noteq> staging_name m \<and> fst f \<noteq> om_body_object m) (st_objects S) = st_objects S"
      using assms(2) by (force simp: filter_id_conv paths_of_def map_of_eq_None_iff)
    have S3: "?S3 = ?S1\<lparr> st_objects := (om_body_object m, Regular_File) # st_objects S \<rparr>"
      by (simp add: S1 rename_file_def create_file_def fresh)
    consider "S' = ?S2" "r \<noteq> Inr ()" | "S' = ?S3" "r \<noteq> Inr ()"
      | "persist_as E (sf_final F) (sf_final_temp F) (m\<lparr> om_object_bytes := bytes, om_state := Retained \<rparr>) ?S3 = (r, S')"
      using assms(1) p t by (auto simp: sink_store_def Let_def split: if_splits)
    then show ?thesis
    proof cases
      case 1
      then show ?thesis using managed_plain [of r "(staging_name m, Regular_File) # st_objects S" S m] by (auto simp: S1 create_file_def)
    next
      case 2
      then show ?thesis using managed_plain [of r "(om_body_object m, Regular_File) # st_objects S" S m] by (auto simp: S3)
    next
      case 3
      have w: "write_manifest (m\<lparr> om_object_bytes := bytes, om_state := Retained \<rparr>) (write_manifest m (st_manifests S))
          = write_manifest (m\<lparr> om_object_bytes := bytes, om_state := Retained \<rparr>) (st_manifests S)" by (rule write_twice) simp
      from persist_as_cases [OF 3] show ?thesis
      proof (elim disjE conjE exE)
        fix left assume l: "S' = ?S3\<lparr> st_leftovers := left \<rparr>" "r \<noteq> Inr ()" and "left = st_leftovers ?S3"
        then show ?thesis using managed_plain [of r "(om_body_object m, Regular_File) # st_objects S" S m] by (auto simp: S3)
      next
        fix left temp assume l: "S' = ?S3\<lparr> st_leftovers := left \<rparr>" "r \<noteq> Inr ()" and "left = temp # st_leftovers ?S3"
        then show ?thesis using managed [of r "(om_body_object m, Regular_File) # st_objects S" S m left] by (auto simp: S3)
      next
        assume "S' = ?S3\<lparr> st_manifests := write_manifest (m\<lparr> om_object_bytes := bytes, om_state := Retained \<rparr>) (st_manifests ?S3) \<rparr>"
        then have "S' = S\<lparr> st_manifests := write_manifest (m\<lparr> om_object_bytes := bytes, om_state := Retained \<rparr>) (st_manifests S),
            st_objects := (om_body_object m, Regular_File) # st_objects S \<rparr>" by (simp add: S3 w)
        then show ?thesis using complete [of S m bytes r] by blast
      qed
    qed
  qed
qed

text \<open>
  C20: A body is written only where its record permits it and is managed from the first byte. Wherever a write fails or is cut off,
  every object file it left belongs to a manifest of the same target and URL whose deadline is still ahead, and that manifest is
  pending unless the final object is in place; all other files and all earlier manifests are as they were, and beside the manifests
  it leaves at most the one temporary of a manifest write that failed, with which every later scan refuses the store; and an
  acknowledged write leaves the final object under a retained manifest and no temporary.
\<close>

theorem sink_write_managed:
  assumes "write_durable E R warc F d now S = Ret (r, S')"
  shows "(\<forall>path. map_of (st_objects S') path \<noteq> map_of (st_objects S) path \<longrightarrow>
        map_of (st_objects S) path = None \<and> map_of (st_objects S') path = Some Regular_File \<and> body_permitted (cd_record d) (cd_body d)
        \<and> (\<exists>f \<in> set (st_manifests S'). \<exists>m x. mf_content f = Some m \<and> path \<in> paths_of m \<and> om_target_id m = dr_target_id (cd_record d)
            \<and> Some (om_url_key m) = obs_value (dr_url_key (cd_record d)) \<and> raw_deadline E m = Inr x \<and> now < x
            \<and> (om_state m = Pending \<or> om_state m = Retained \<and> path = om_body_object m)))
    \<and> set (st_manifests S) \<subseteq> set (st_manifests S')
    \<and> (st_leftovers S' = st_leftovers S
        \<or> r \<noteq> Inr () \<and> (\<exists>temp. st_leftovers S' = temp # st_leftovers S) \<and> manifests E S' = Inl CeStoreRefused)
    \<and> (r = Inr () \<longrightarrow> (\<exists>f \<in> set (st_manifests S'). \<exists>m. mf_content f = Some m \<and> om_target_id m = dr_target_id (cd_record d)
        \<and> om_state m = Retained \<and> map_of (st_objects S') (om_body_object m) = Some Regular_File))"
proof (cases "\<exists>m. sink_admit E R d now S = Ret (Inr m)")
  case False
  obtain c where c: "sink_admit E R d now S = Ret c" using assms by (auto simp: write_durable_def bind_Ret_iff)
  with False obtain e where "c = Inl e" by (cases c) auto
  then have "S' = S" "r \<noteq> Inr ()" using assms c by (auto simp: write_durable_def)
  then show ?thesis by simp
next
  case True
  then obtain m where m: "sink_admit E R d now S = Ret (Inr m)" by blast
  note a = sink_admit_ok [OF m]
  have "sink_store E F (warc d) m S = (r, S')" using assms m by (simp add: write_durable_def)
  from sink_store_outcome [OF this a(5)] obtain bytes where o: "write_outcome S m bytes r S'" by blast
  obtain x where x: "raw_deadline E m = Inr x" "now < x" using a(10) by blast
  let ?final = "m\<lparr> om_object_bytes := bytes, om_state := Retained \<rparr>"
  have fresh: "write_manifest k (st_manifests S) = st_manifests S @ [\<lparr> mf_regular = True, mf_json = True, mf_stem = om_target_id k, mf_content = Some k \<rparr>]"
    if "om_target_id k = om_target_id m" for k
    using a(4) that by (intro write_fresh) (simp add: manifest_exists_def)
  have same: "paths_of ?final = paths_of m" "raw_deadline E ?final = raw_deadline E m"
    using same_object_facts [of m ?final] by (simp_all add: same_object_def)
  have none: "map_of (st_objects S) (staging_name m) = None" "map_of (st_objects S) (om_body_object m) = None" using a(5) by (auto simp: paths_of_def)
  have paths: "staging_name m \<in> paths_of m" "om_body_object m \<in> paths_of m" by (simp_all add: paths_of_def)
  from o show ?thesis
  proof cases
    case (untouched left)
    then show ?thesis by (auto simp: manifests_def)
  next
    case (managed objects left)
    have st: "st_manifests S' = st_manifests S @ [\<lparr> mf_regular = True, mf_json = True, mf_stem = om_target_id m, mf_content = Some m \<rparr>]"
      "st_objects S' = objects" "st_leftovers S' = left" using managed(1) fresh [of m] by simp_all
    have "left = st_leftovers S \<or> (\<exists>temp. left = temp # st_leftovers S) \<and> manifests E S' = Inl CeStoreRefused" using managed(4) st(3) by (auto simp: manifests_def)
    then show ?thesis unfolding st using managed(2,3) a(1,6,7,8) x none paths by (auto split: if_splits)
  next
    case complete
    have st: "st_manifests S' = st_manifests S @ [\<lparr> mf_regular = True, mf_json = True, mf_stem = om_target_id m, mf_content = Some ?final \<rparr>]"
      "st_objects S' = (om_body_object m, Regular_File) # st_objects S" "st_leftovers S' = st_leftovers S" using complete fresh [of ?final] by simp_all
    show ?thesis unfolding st using a(1,6,7) x none paths same by (auto split: if_splits)
  qed
qed

text \<open>
  A temporary is never removed and never passed over: once a write of a manifest was cut off, the store refuses every retention run and every
  opening.
\<close>

lemma leftover_refuses_store:
  assumes "st_leftovers S \<noteq> []"
  shows "retention_run E now dry S = Ret (Inl CeStoreRefused, S)" and "\<exists>e S'. sink_open E D now S = Ret (Inl e, S') \<and> st_leftovers S' = st_leftovers S"
proof -
  have run: "retention_run E now dry T = Ret (Inl CeStoreRefused, T)" if "st_leftovers T \<noteq> []" for T dry
    using that by (simp add: retention_run_def manifests_def)
  then show "retention_run E now dry S = Ret (Inl CeStoreRefused, S)" using assms .
  have dir: "st_leftovers (snd (managed_directory D name T)) = st_leftovers T" for name T
    by (simp add: managed_directory_def dir_created_def)
  obtain r1 S1 where 1: "managed_directory D ''objects'' S = (r1, S1)" by force
  obtain r2 S2 where 2: "managed_directory D ''manifests'' S1 = (r2, S2)" by force
  have l: "st_leftovers S1 = st_leftovers S" "st_leftovers S2 = st_leftovers S" using dir [of "''objects''" S] dir [of "''manifests''" S1] 1 2 by simp_all
  show "\<exists>e S'. sink_open E D now S = Ret (Inl e, S') \<and> st_leftovers S' = st_leftovers S"
    using l assms run [of S2 False] by (cases r1; cases r2) (simp_all add: sink_open_def store_then_def 1 2 res_bind_def)
qed

section \<open>Samples\<close>

definition sample_kept :: document_record where
  "sample_kept = sample_response\<lparr> dr_parsed_at_utc := Present 0, dr_raw_expires_at_utc := Some (days 30), dr_body_retention := Body_Retained,
     dr_index_only := False, dr_index_eligible := True, dr_retained_body_bytes := 10 \<rparr>"

definition sample_datum :: crawl_datum where
  "sample_datum = \<lparr> cd_record = sample_kept, cd_url = demo_web ''/a'', cd_payload_type = Payload_Html, cd_body = ''<p>hello</p>'', cd_fetch_time_ms = 5, cd_date = 0 \<rparr>"

definition no_sink_faults :: sink_faults where
  "no_sink_faults = \<lparr> sf_pending = WriteOk, sf_pending_temp = None, sf_create_fails = False, sf_write_fails = False, sf_rename_fails = False, sf_sync_fails = False, sf_final = WriteOk, sf_final_temp = None \<rparr>"

lemma sample_kept_fields [simp]:
  "dr_target_id sample_kept = ''t''" "obs_value (dr_url_key sample_kept) = Some (replicate 64 CHR ''a'')" "dr_parsed_at_utc sample_kept = Present 0"
  "dr_raw_expires_at_utc sample_kept = Some (days 30)" "dr_body_retention sample_kept = Body_Retained" "\<not> dr_index_only sample_kept"
  "dr_rights sample_kept = no_rights" "dr_directives sample_kept = no_restriction"
  by (simp_all add: sample_kept_def sample_response_def pending_record_def observed_def url_key_def sample_records_def)

lemma sample_kept_valid: "validate_record sample_records sample_kept = Ret (Inr ())" "validate_success_fields sample_records sample_kept = Ret (Inr ())"
proof -
  have "record_ok sample_records sample_response" using sample_response_valid(1) by (simp add: validate_record_iff)
  then have ok: "record_ok sample_records sample_kept" unfolding sample_kept_def record_ok_unfold by simp
  have ev: "response_evidence sample_kept" using sample_response_valid(2) by (simp add: sample_kept_def response_evidence_def)
  have ex: "expiry_ok sample_records sample_kept" by (simp add: expiry_ok_def sample_kept_def sample_records_def)
  show "validate_success_fields sample_records sample_kept = Ret (Inr ())" using ev ex by (simp add: success_fields_iff obs_is_none_def)
  show "validate_record sample_records sample_kept = Ret (Inr ())"
    using ok ev ex by (simp add: validate_record_iff retention_ok_def obs_is_none_def)
qed

lemma sample_admitted:
  "sink_admit sample_env sample_records sample_datum 0 sample_store
    = Ret (Inr (pending_manifest sample_store sample_kept (replicate 64 CHR ''a'') ''objects/t.warc.gz'' 0 (days 30) 12))"
proof -
  have p: "body_permitted sample_kept ''<p>hello</p>''"
    by (simp add: body_permitted_def index_only_def no_rights_def no_restriction_def)
  have c: "sink_record_checks sample_records sample_datum = Ret (Inr ())"
    using sample_kept_valid p by (simp add: sink_record_checks_def sample_datum_def)
  show ?thesis unfolding sink_admit_def c
    by (simp add: sample_datum_def sink_lifetime_def sink_manifest_def sink_vacant_def
      manifest_exists_def pending_manifest_def retention_eval ok_or_def list_all_iff)
qed

theorem sink_write_managed_witness:
  "\<exists>S'. write_durable sample_env sample_records (\<lambda>_. Some 100) no_sink_faults sample_datum 0 sample_store = Ret (Inr (), S')
    \<and> map_of (st_objects S') ''objects/t.warc.gz'' = Some Regular_File
    \<and> (\<exists>f \<in> set (st_manifests S'). \<exists>m. mf_content f = Some m \<and> om_target_id m = ''t'' \<and> om_state m = Retained) \<and> st_leftovers S' = []"
proof -
  obtain S' where w: "write_durable sample_env sample_records (\<lambda>_. Some 100) no_sink_faults sample_datum 0 sample_store = Ret (Inr (), S')"
    "map_of (st_objects S') ''objects/t.warc.gz'' = Some Regular_File"
    unfolding write_durable_def sample_admitted
    by (simp add: sink_store_def persist_as_def no_sink_faults_def pending_manifest_def create_file_def rename_file_def retention_eval)
  have "dr_target_id (cd_record sample_datum) = ''t''" by (simp add: sample_datum_def)
  moreover have "st_leftovers sample_store = []" by (simp add: sample_store_def)
  ultimately show ?thesis using sink_write_managed [OF w(1)] w by auto
qed

theorem forbidden_bodies_purged_witness:
  "\<exists>S'. enforce_record sample_env (sample_kept\<lparr> dr_body_retention := NoStore \<rparr>) (\<lambda>_. days 1) sample_store = Ret (Inr (), S')
    \<and> no_body S' (replicate 64 CHR ''a'')"
proof -
  have key: "obs_value (dr_url_key (sample_kept\<lparr> dr_body_retention := NoStore \<rparr>)) = Some (replicate 64 CHR ''a'')" by simp
  obtain S' where e: "enforce_record sample_env (sample_kept\<lparr> dr_body_retention := NoStore \<rparr>) (\<lambda>_. days 1) sample_store = Ret (Inr (), S')"
    unfolding enforce_record_def key
    by (simp add: purge_def store_then_def retention_eval list_all_iff)
  have "distinct (map mf_stem (st_manifests sample_store))" by (simp add: sample_store_def)
  from forbidden_bodies_purged [OF this e key] e show ?thesis by auto
qed

end
