(* ===== verification/Attempts.thy ===== *)
theory Attempts
  imports Document_Record
begin

text \<open>
  The evidence of one crawl target (the first half of \<open>core/src/crawler/ledger.rs\<close>): the closed vocabulary of terminal outcomes,
  the fetch attempts a target made on the wire with the guard that finishes each of them, and the terminal row. The mutex of a
  trace is never poisoned, so its errors are not modelled.
\<close>

section \<open>Vocabularies\<close>

datatype target_kind = TkSeed | TkFrontier | TkAuxiliary

datatype fetch_kind = FkRobots | FkPage | FkSitemap | FkFeed | FkFrontpage | FkConditional

datatype wire_error = WeTimeout | WeConnect | WeTls | WeBodyRead | WeTooLarge | WeCancelled | WeHostState | WeInternal

datatype redirect_reason = MissingOrConflictingLocation | InvalidLocation | HttpsDowngrade | UnsupportedStatus

datatype content_type_reason = InvalidHeaderBytes | MissingOrContradictory | Invalid_Mime | Unsupported_Mime

datatype http_status_reason = Plain_Status | UnexpectedNotModified | Challenge_Status

datatype internal_code = HostStatePersistence | RecordInvariant | RuntimeInvariant | Configuration

datatype target_outcome =
    OcSaved | OcSavedNoindex | OcRedirectedToSeed nat | OcRedirectedOffSeed nat | OcRedirectInvalid redirect_reason
  | OcRedirectLoop | OcRedirectLimit | OcRobotsDisallowed | OcRobotsUnreachable | OcCrawlDelayExceedsCeiling | OcHostBlocked
  | OcRefusedPrivateAddress | OcInvalidContentType content_type_reason | OcContentTooLarge | OcBodyReadFailed
  | OcHttpStatus nat http_status_reason | OcNotModified | OcGone | OcTimeout | OcConnectError | OcTlsError | OcAlreadyCrawled
  | OcDomainMismatch | OcPortRefused | OcSchemeRefused | OcExcludedByPolicy exclusion_reason exclusion_phase | OcInvalidUrl
  | OcUrlTooLong | OcIgnoredExtension | OcEmptyBody | OcParsedNotRetained | OcSinkWriteFailed | OcCancelled
  | OcInternalError internal_code

definition ALL_KINDS :: "string list" where
  "ALL_KINDS =
     [''saved'', ''saved-noindex'', ''redirected-to-seed'', ''redirected-off-seed'', ''redirect-invalid'', ''redirect-loop'',
      ''redirect-limit'', ''robots-disallowed'', ''robots-unreachable'', ''crawl-delay-exceeds-ceiling'', ''host-blocked'',
      ''refused-private-address'', ''invalid-content-type'', ''content-too-large'', ''body-read-failed'', ''http-status'',
      ''not-modified'', ''gone'', ''timeout'', ''connect-error'', ''tls-error'', ''already-crawled'', ''domain-mismatch'',
      ''port-refused'', ''scheme-refused'', ''excluded-by-policy'', ''invalid-url'', ''url-too-long'', ''ignored-extension'',
      ''empty-body'', ''parsed-not-retained'', ''sink-write-failed'', ''cancelled'', ''internal-error'']"

primrec outcome_kind :: "target_outcome \<Rightarrow> string" where
  "outcome_kind OcSaved = ''saved''"
| "outcome_kind OcSavedNoindex = ''saved-noindex''"
| "outcome_kind (OcRedirectedToSeed _) = ''redirected-to-seed''"
| "outcome_kind (OcRedirectedOffSeed _) = ''redirected-off-seed''"
| "outcome_kind (OcRedirectInvalid _) = ''redirect-invalid''"
| "outcome_kind OcRedirectLoop = ''redirect-loop''"
| "outcome_kind OcRedirectLimit = ''redirect-limit''"
| "outcome_kind OcRobotsDisallowed = ''robots-disallowed''"
| "outcome_kind OcRobotsUnreachable = ''robots-unreachable''"
| "outcome_kind OcCrawlDelayExceedsCeiling = ''crawl-delay-exceeds-ceiling''"
| "outcome_kind OcHostBlocked = ''host-blocked''"
| "outcome_kind OcRefusedPrivateAddress = ''refused-private-address''"
| "outcome_kind (OcInvalidContentType _) = ''invalid-content-type''"
| "outcome_kind OcContentTooLarge = ''content-too-large''"
| "outcome_kind OcBodyReadFailed = ''body-read-failed''"
| "outcome_kind (OcHttpStatus _ _) = ''http-status''"
| "outcome_kind OcNotModified = ''not-modified''"
| "outcome_kind OcGone = ''gone''"
| "outcome_kind OcTimeout = ''timeout''"
| "outcome_kind OcConnectError = ''connect-error''"
| "outcome_kind OcTlsError = ''tls-error''"
| "outcome_kind OcAlreadyCrawled = ''already-crawled''"
| "outcome_kind OcDomainMismatch = ''domain-mismatch''"
| "outcome_kind OcPortRefused = ''port-refused''"
| "outcome_kind OcSchemeRefused = ''scheme-refused''"
| "outcome_kind (OcExcludedByPolicy _ _) = ''excluded-by-policy''"
| "outcome_kind OcInvalidUrl = ''invalid-url''"
| "outcome_kind OcUrlTooLong = ''url-too-long''"
| "outcome_kind OcIgnoredExtension = ''ignored-extension''"
| "outcome_kind OcEmptyBody = ''empty-body''"
| "outcome_kind OcParsedNotRetained = ''parsed-not-retained''"
| "outcome_kind OcSinkWriteFailed = ''sink-write-failed''"
| "outcome_kind OcCancelled = ''cancelled''"
| "outcome_kind (OcInternalError _) = ''internal-error''"

definition content_type_reason_of :: "string \<Rightarrow> content_type_reason" where
  "content_type_reason_of reason =
     (if reason = ''invalid-header-bytes'' then InvalidHeaderBytes
      else if reason = ''missing-or-contradictory'' then MissingOrContradictory
      else if reason = ''unsupported'' then Unsupported_Mime
      else Invalid_Mime)"

primrec from_error :: "crawl_error \<Rightarrow> target_outcome" where
  "from_error (CeInvalidContentType reason) = OcInvalidContentType (content_type_reason_of reason)"
| "from_error (CeFetchFailed status) = OcHttpStatus status Plain_Status"
| "from_error CeInvalidUrl = OcInvalidUrl"
| "from_error CeUrlTooLong = OcUrlTooLong"
| "from_error CeSchemeRefused = OcSchemeRefused"
| "from_error CePortRefused = OcPortRefused"
| "from_error CeOffScope = OcExcludedByPolicy OutsideScope Frontier"
| "from_error CeRefusedPrivateAddress = OcRefusedPrivateAddress"
| "from_error CeConnectError = OcConnectError"
| "from_error CeTlsError = OcTlsError"
| "from_error CeTimeout = OcTimeout"
| "from_error CeHostBlocked = OcHostBlocked"
| "from_error CeChallenge = OcHostBlocked"
| "from_error CeCrawlDelayExceedsCeiling = OcCrawlDelayExceedsCeiling"
| "from_error CeRobotsUnreachable = OcRobotsUnreachable"
| "from_error CeHostStateWrite = OcInternalError HostStatePersistence"
| "from_error CeStoreRefused = OcInternalError Configuration"
| "from_error CeStoreOwned = OcInternalError Configuration"
| "from_error CeCountryProviderUnavailable = OcInternalError Configuration"
| "from_error CeAnyhow = OcInternalError Configuration"
| "from_error (CeExcludedByPolicy reason phase) = OcExcludedByPolicy reason phase"
| "from_error CeRecordInvalid = OcInternalError RecordInvariant"
| "from_error CeListingBudgetExhausted = OcExcludedByPolicy ListingBudgetExhausted Frontier"
| "from_error CeCancelled = OcCancelled"
| "from_error CeInternalInvariant = OcInternalError RuntimeInvariant"
| "from_error CeTestNetworkDisabled = OcInternalError RuntimeInvariant"
| "from_error CeDomainMismatch = OcDomainMismatch"
| "from_error CeAlreadyCrawled = OcAlreadyCrawled"
| "from_error CeIgnoredExtension = OcIgnoredExtension"
| "from_error CeEmptyBody = OcEmptyBody"
| "from_error CeContentTooLarge = OcContentTooLarge"
| "from_error CeResponseBodyReadFailed = OcBodyReadFailed"
| "from_error CeInvalidRedirect = OcRedirectInvalid InvalidLocation"
| "from_error CeDisallowedPath = OcRobotsDisallowed"
| "from_error CeSinkWrite = OcSinkWriteFailed"
| "from_error CeRetentionBacklog = OcSinkWriteFailed"
| "from_error CeLedgerWrite = OcInternalError RuntimeInvariant"
| "from_error CeLedgerIncomplete = OcInternalError RuntimeInvariant"
| "from_error CeDuplicateTarget = OcInternalError RuntimeInvariant"
| "from_error CeFatalRun = OcInternalError RuntimeInvariant"

section \<open>Fetch attempts\<close>

record fetch_attempt =
  fa_requested_url :: string
  fa_url_key :: string
  fa_kind :: fetch_kind
  fa_started_at_utc :: int
  fa_finished_at_utc :: "int observation"
  fa_queue_time_ms :: nat
  fa_fetch_time_ms :: nat
  fa_status :: "nat observation"
  fa_error :: "wire_error option"
  fa_robots :: "robots_snapshot observation"
  fa_body_bytes :: nat
  fa_scope_admitted :: bool
  fa_retry_at_utc :: "int option"
  fa_blocked_until_utc :: "int option"
  fa_redirect :: "string observation"

record attempt_trace =
  tr_attempts :: "fetch_attempt list"
  tr_last_robots :: "robots_snapshot option"
  tr_country :: "hosting_country option"

definition empty_trace :: attempt_trace where
  "empty_trace = \<lparr> tr_attempts = [], tr_last_robots = None, tr_country = None \<rparr>"

definition trace_redirect :: "record_env \<Rightarrow> web_url \<Rightarrow> attempt_trace \<Rightarrow> attempt_trace" where
  "trace_redirect E destination T =
     (if tr_attempts T = [] then T
      else T\<lparr> tr_attempts := (tr_attempts T)[length (tr_attempts T) - 1 :=
              (last (tr_attempts T))\<lparr> fa_redirect := Present (ul_safe (re_url E) destination) \<rparr>] \<rparr>)"

definition trace_country :: "hosting_country \<Rightarrow> attempt_trace \<Rightarrow> attempt_trace" where
  "trace_country found T = T\<lparr> tr_country := Some found \<rparr>"

definition trace_robots :: "robots_snapshot \<Rightarrow> attempt_trace \<Rightarrow> attempt_trace" where
  "trace_robots snapshot T = T\<lparr> tr_last_robots := Some snapshot \<rparr>"

text \<open>The owned evidence of a request in flight.\<close>

record wire_guard =
  wg_index :: nat
  wg_start_ticks :: nat
  wg_finished :: bool

definition new_attempt :: "record_env \<Rightarrow> web_url \<Rightarrow> fetch_kind \<Rightarrow> int \<Rightarrow> nat \<Rightarrow> fetch_attempt" where
  "new_attempt E url kind start_at queue_ms =
     \<lparr> fa_requested_url = ul_safe (re_url E) url, fa_url_key = url_key E url, fa_kind = kind, fa_started_at_utc = start_at,
       fa_finished_at_utc = Absent_Observation NotAttempted, fa_queue_time_ms = queue_ms, fa_fetch_time_ms = 0,
       fa_status = Absent_Observation NoResponse, fa_error = None, fa_robots = Absent_Observation NotAttempted, fa_body_bytes = 0,
       fa_scope_admitted = True, fa_retry_at_utc = None, fa_blocked_until_utc = None, fa_redirect = Absent_Observation NotDeclared \<rparr>"

definition trace_start :: "record_env \<Rightarrow> web_url \<Rightarrow> fetch_kind \<Rightarrow> nat \<Rightarrow> int \<Rightarrow> nat \<Rightarrow> attempt_trace \<Rightarrow> wire_guard \<times> attempt_trace" where
  "trace_start E url kind ticks start_at queue_ms T =
     (\<lparr> wg_index = length (tr_attempts T), wg_start_ticks = ticks, wg_finished = False \<rparr>,
      T\<lparr> tr_attempts := tr_attempts T @ [new_attempt E url kind start_at queue_ms] \<rparr>)"

definition bootstrap_result :: "robots_snapshot \<Rightarrow> nat \<Rightarrow> attempt_trace \<Rightarrow> attempt_trace" where
  "bootstrap_result snapshot start_index T =
     T\<lparr> tr_attempts := take start_index (tr_attempts T)
          @ map (\<lambda>a. if fa_kind a = FkRobots then a\<lparr> fa_robots := Present (snapshot\<lparr> rs_decision := Bootstrap \<rparr>) \<rparr> else a)
              (drop start_index (tr_attempts T)) \<rparr>"

definition wire_update :: "wire_guard \<Rightarrow> (fetch_attempt \<Rightarrow> fetch_attempt) \<Rightarrow> attempt_trace \<Rightarrow> unit crawl \<times> attempt_trace" where
  "wire_update g change T =
     (if wg_index g < length (tr_attempts T)
      then (Inr (), T\<lparr> tr_attempts := (tr_attempts T)[wg_index g := change (tr_attempts T ! wg_index g)] \<rparr>)
      else (Inl CeInternalInvariant, T))"

definition wire_finish :: "wire_error option \<Rightarrow> int \<Rightarrow> nat \<Rightarrow> wire_guard \<times> attempt_trace \<Rightarrow> unit crawl \<times> wire_guard \<times> attempt_trace" where
  "wire_finish error now ticks s =
     (case s of (g, T) \<Rightarrow>
        (case wire_update g (\<lambda>a. a\<lparr> fa_finished_at_utc := Present now, fa_fetch_time_ms := ticks - wg_start_ticks g, fa_error := error \<rparr>) T of
           (Inl e, T') \<Rightarrow> (Inl e, g, T')
         | (Inr _, T') \<Rightarrow> (Inr (), g\<lparr> wg_finished := True \<rparr>, T')))"

text \<open>Dropping the guard of a request that was not finished records a cancellation.\<close>

definition wire_drop :: "int \<Rightarrow> nat \<Rightarrow> wire_guard \<times> attempt_trace \<Rightarrow> attempt_trace" where
  "wire_drop now ticks s =
     (if wg_finished (fst s) then snd s else snd (snd (wire_finish (Some WeCancelled) now ticks s)))"

section \<open>Targets and rows\<close>

record target =
  tg_target_id :: string
  tg_run_id :: string
  tg_input_ordinal :: nat
  tg_kind :: target_kind
  tg_category :: "string option"
  tg_started_at_utc :: int
  tg_record :: document_record

record ledger_row =
  lr_schema_version :: nat
  lr_run_id :: string
  lr_target_id :: string
  lr_input_ordinal :: nat
  lr_kind :: target_kind
  lr_category :: "string option"
  lr_started_at_utc :: int
  lr_finished_at_utc :: int
  lr_outcome :: target_outcome
  lr_record :: document_record
  lr_fetch_attempts :: "fetch_attempt list"
  lr_destination_target_id :: "string option"
  lr_redirect_destination :: "string observation"
  lr_body_object :: "string option"
  lr_fatal :: bool

fun is_internal_error :: "target_outcome \<Rightarrow> bool" where
  "is_internal_error (OcInternalError _) = True"
| "is_internal_error _ = False"

definition from_target :: "target \<Rightarrow> target_outcome \<Rightarrow> int \<Rightarrow> ledger_row" where
  "from_target t outcome now =
     \<lparr> lr_schema_version = 1, lr_run_id = tg_run_id t, lr_target_id = tg_target_id t, lr_input_ordinal = tg_input_ordinal t,
       lr_kind = tg_kind t, lr_category = tg_category t, lr_started_at_utc = tg_started_at_utc t, lr_finished_at_utc = now,
       lr_outcome = outcome, lr_record = tg_record t, lr_fetch_attempts = [], lr_destination_target_id = None,
       lr_redirect_destination = Absent_Observation NotDeclared, lr_body_object = None, lr_fatal = is_internal_error outcome \<rparr>"

section \<open>The vocabulary is closed\<close>

text \<open>Every outcome has a registered kind, every registered kind is the kind of an outcome, and the register has no duplicates.\<close>

lemma outcome_kinds: "range outcome_kind = set ALL_KINDS" "distinct ALL_KINDS" "length ALL_KINDS = 34"
proof -
  have "outcome_kind x \<in> set ALL_KINDS" for x by (cases x) (simp_all add: ALL_KINDS_def)
  moreover have "map outcome_kind [OcSaved, OcSavedNoindex, OcRedirectedToSeed 301, OcRedirectedOffSeed 301, OcRedirectInvalid InvalidLocation,
      OcRedirectLoop, OcRedirectLimit, OcRobotsDisallowed, OcRobotsUnreachable, OcCrawlDelayExceedsCeiling, OcHostBlocked, OcRefusedPrivateAddress,
      OcInvalidContentType Invalid_Mime, OcContentTooLarge, OcBodyReadFailed, OcHttpStatus 500 Plain_Status, OcNotModified, OcGone, OcTimeout,
      OcConnectError, OcTlsError, OcAlreadyCrawled, OcDomainMismatch, OcPortRefused, OcSchemeRefused, OcExcludedByPolicy OutsideScope Frontier,
      OcInvalidUrl, OcUrlTooLong, OcIgnoredExtension, OcEmptyBody, OcParsedNotRetained, OcSinkWriteFailed, OcCancelled,
      OcInternalError Configuration] = ALL_KINDS" by (simp add: ALL_KINDS_def)
  then have "set ALL_KINDS \<subseteq> range outcome_kind" by (metis image_subset_iff list.set_map rangeI)
  ultimately show "range outcome_kind = set ALL_KINDS" by blast
qed (simp_all add: ALL_KINDS_def)

section \<open>The evidence of a request\<close>

text \<open>The operations between the start of a request and its end, on the trace the guard shares with its target.\<close>

datatype wire_op =
    Op_Update "fetch_attempt \<Rightarrow> fetch_attempt" | Op_Start web_url fetch_kind nat int nat | Op_Redirect web_url | Op_Robots robots_snapshot
  | Op_Country hosting_country | Op_Bootstrap robots_snapshot nat

fun wire_step :: "record_env \<Rightarrow> wire_guard \<Rightarrow> attempt_trace \<Rightarrow> wire_op \<Rightarrow> attempt_trace" where
  "wire_step E g T (Op_Update f) = snd (wire_update g f T)"
| "wire_step E g T (Op_Start url kind ticks start_at queue) = snd (trace_start E url kind ticks start_at queue T)"
| "wire_step E g T (Op_Redirect url) = trace_redirect E url T"
| "wire_step E g T (Op_Robots s) = trace_robots s T"
| "wire_step E g T (Op_Country c) = trace_country c T"
| "wire_step E g T (Op_Bootstrap s n) = bootstrap_result s n T"

lemma wire_step_grows: "length (tr_attempts T) \<le> length (tr_attempts (wire_step E g T op))"
  by (cases op) (auto simp: wire_update_def trace_start_def trace_redirect_def trace_robots_def trace_country_def bootstrap_result_def)

lemma wire_steps_grow: "length (tr_attempts T) \<le> length (tr_attempts (foldl (wire_step E g) T ops))"
  by (induction ops arbitrary: T) (auto intro: order_trans [OF wire_step_grows])

lemma dropped_guard_recorded:
  assumes "trace_start E url kind ticks start_at queue T = (g, T1)" and "wire_drop now ticks' (g, foldl (wire_step E g) T1 ops) = T'"
  shows "wg_index g < length (tr_attempts T') \<and> fa_finished_at_utc (tr_attempts T' ! wg_index g) = Present now
    \<and> fa_error (tr_attempts T' ! wg_index g) = Some WeCancelled \<and> fa_fetch_time_ms (tr_attempts T' ! wg_index g) = ticks' - ticks"
proof -
  have g: "wg_index g = length (tr_attempts T)" "wg_start_ticks g = ticks" "\<not> wg_finished g" "length (tr_attempts T1) = Suc (length (tr_attempts T))"
    using assms(1) by (auto simp: trace_start_def)
  have "wg_index g < length (tr_attempts (foldl (wire_step E g) T1 ops))" using wire_steps_grow [of T1 E g ops] g by simp
  then show ?thesis using assms(2) g by (auto simp: wire_drop_def wire_finish_def wire_update_def)
qed

end
