(* ===== verification/Ledger.thy ===== *)
theory Ledger
  imports Attempts Ordered_Map
begin

text \<open>
  The journal of admitted targets and its projection to terminal rows (\<open>core/src/crawler/ledger.rs\<close>). The disk holds the journal
  file, replaced atomically, and the line file of rows, appended to. \<open>write_end\<close> and \<open>append_end\<close> say how a write ends, a crash
  included. The calls of a ledger are atomic under its mutex, except that the failure flag is read before the mutex is taken: the
  value read is an argument and may be stale. The identifiers drawn and the clock are arguments too; serde is exact.
\<close>

section \<open>The disk\<close>

record crawl_journal =
  jn_version :: nat
  jn_store_id :: string
  jn_admissions :: "(string \<times> target) list"
  jn_completions :: "(string \<times> ledger_row) list"

text \<open>
  The lines of the row file: complete lines, each with its row if it parses, and a last line without a newline. \<open>lk_journal\<close> is
  \<open>Some None\<close> for a journal file that cannot be read or parsed.
\<close>

record row_file =
  rf_lines :: "ledger_row option list"
  rf_tail :: "ledger_row option option"

record ledger_disk =
  lk_foreign :: bool
  lk_journal :: "crawl_journal option option"
  lk_rows :: "row_file option"

record ledger =
  lg_run_id :: string
  lg_journal :: crawl_journal
  lg_projected :: "string set"
  lg_claimed :: "string set"
  lg_redirects :: "(string \<times> string) list"
  lg_failed :: bool

definition persist_journal :: "write_end \<Rightarrow> crawl_journal \<Rightarrow> ledger_disk \<Rightarrow> unit crawl \<times> ledger_disk" where
  "persist_journal w j D =
     (case w of
        WriteOk \<Rightarrow> (Inr (), D\<lparr> lk_journal := Some (Some j) \<rparr>)
      | WriteFailed renamed \<Rightarrow> (Inl CeLedgerWrite, if renamed then D\<lparr> lk_journal := Some (Some j) \<rparr> else D))"

definition write_rows :: "write_end \<Rightarrow> ledger_row list \<Rightarrow> ledger_disk \<Rightarrow> unit crawl \<times> ledger_disk" where
  "write_rows w rows D =
     (let D' = D\<lparr> lk_rows := Some \<lparr> rf_lines = map Some rows, rf_tail = None \<rparr> \<rparr> in
      case w of WriteOk \<Rightarrow> (Inr (), D') | WriteFailed renamed \<Rightarrow> (Inl CeLedgerWrite, if renamed then D' else D))"

text \<open>
  An append ends with the whole line on disk, or fails with nothing, a part of the line, the line without its newline, or the
  whole line written. A line that follows an unterminated one makes one line of both, which does not parse.
\<close>

datatype append_end = AppendOk | AppendNothing | AppendPart | AppendBare | AppendUnsynced

definition append_to :: "append_end \<Rightarrow> ledger_row \<Rightarrow> row_file \<Rightarrow> row_file" where
  "append_to a row f =
     (let whole = (case rf_tail f of None \<Rightarrow> Some row | Some _ \<Rightarrow> None) in
      case a of
        AppendOk \<Rightarrow> \<lparr> rf_lines = rf_lines f @ [whole], rf_tail = None \<rparr>
      | AppendNothing \<Rightarrow> f
      | AppendPart \<Rightarrow> f\<lparr> rf_tail := Some None \<rparr>
      | AppendBare \<Rightarrow> f\<lparr> rf_tail := Some whole \<rparr>
      | AppendUnsynced \<Rightarrow> \<lparr> rf_lines = rf_lines f @ [whole], rf_tail = None \<rparr>)"

definition append_terminal :: "append_end \<Rightarrow> ledger_row \<Rightarrow> ledger_disk \<Rightarrow> unit crawl \<times> ledger_disk" where
  "append_terminal a row D =
     (case lk_rows D of
        None \<Rightarrow> (Inl CeLedgerWrite, D)
      | Some f \<Rightarrow> (if a = AppendOk then Inr () else Inl CeLedgerWrite, D\<lparr> lk_rows := Some (append_to a row f) \<rparr>))"

section \<open>Opening\<close>

definition new_journal :: "string \<Rightarrow> crawl_journal" where
  "new_journal store_id = \<lparr> jn_version = 1, jn_store_id = store_id, jn_admissions = [], jn_completions = [] \<rparr>"

text \<open>An admission without a completion is completed as cancelled.\<close>

fun recover_admissions :: "record_env \<Rightarrow> (string \<Rightarrow> int) \<Rightarrow> (string \<times> target) list \<Rightarrow> (string \<times> ledger_row) list
    \<Rightarrow> (string \<times> ledger_row) list crawl may_panic" where
  "recover_admissions R clock [] rows = Ret (Inr rows)"
| "recover_admissions R clock ((k, t) # ts) rows =
     (if k \<noteq> tg_target_id t then Ret (Inl CeLedgerWrite)
      else outcome_bind (validate_record R (tg_record t)) (\<lambda>v.
        case v of
          Inl _ \<Rightarrow> Ret (Inl CeLedgerWrite)
        | Inr _ \<Rightarrow> recover_admissions R clock ts
            (if map_of rows k = None then btree_insert k (from_target t OcCancelled (clock k)) rows else rows)))"

fun check_completions :: "record_env \<Rightarrow> (string \<times> target) list \<Rightarrow> (string \<times> ledger_row) list \<Rightarrow> unit crawl may_panic" where
  "check_completions R ts [] = Ret (Inr ())"
| "check_completions R ts ((k, row) # rows) =
     (if k \<noteq> lr_target_id row \<or> map_of ts k = None then Ret (Inl CeLedgerWrite)
      else outcome_bind (validate_record R (lr_record row)) (\<lambda>v.
        case v of Inl _ \<Rightarrow> Ret (Inl CeLedgerWrite) | Inr _ \<Rightarrow> check_completions R ts rows))"

definition read_journal :: "string \<Rightarrow> ledger_disk \<Rightarrow> crawl_journal crawl" where
  "read_journal store_id D =
     (if lk_foreign D then Inl CeStoreRefused
      else
        res_bind (case lk_journal D of None \<Rightarrow> Inr (new_journal store_id) | Some None \<Rightarrow> Inl CeLedgerWrite | Some (Some j) \<Rightarrow> Inr j)
          (\<lambda>j. if jn_version j \<noteq> 1 \<or> jn_store_id j \<noteq> store_id then Inl CeStoreRefused else Inr j))"

definition recover_journal :: "record_env \<Rightarrow> (string \<Rightarrow> int) \<Rightarrow> crawl_journal \<Rightarrow> crawl_journal crawl may_panic" where
  "recover_journal R clock j =
     outcome_bind (recover_admissions R clock (jn_admissions j) (jn_completions j)) (\<lambda>r.
       case r of
         Inl e \<Rightarrow> Ret (Inl e)
       | Inr rows \<Rightarrow>
           outcome_bind (check_completions R (jn_admissions j) rows) (\<lambda>c.
             Ret (res_then c (Inr (j\<lparr> jn_completions := rows \<rparr>)))))"

definition ledger_open :: "record_env \<Rightarrow> string \<Rightarrow> string \<Rightarrow> (string \<Rightarrow> int) \<Rightarrow> write_end \<Rightarrow> write_end \<Rightarrow> ledger_disk \<Rightarrow> (ledger crawl \<times> ledger_disk) may_panic" where
  "ledger_open R store_id run_id clock w1 w2 D =
     (case read_journal store_id D of
        Inl e \<Rightarrow> Ret (Inl e, D)
      | Inr j0 \<Rightarrow>
          outcome_bind (recover_journal R clock j0) (\<lambda>r.
            case r of
              Inl e \<Rightarrow> Ret (Inl e, D)
            | Inr j \<Rightarrow>
                (case persist_journal w1 j D of
                   (Inl e, D1) \<Rightarrow> Ret (Inl e, D1)
                 | (Inr _, D1) \<Rightarrow>
                     (case write_rows w2 (map snd (jn_completions j)) D1 of
                        (Inl e, D2) \<Rightarrow> Ret (Inl e, D2)
                      | (Inr _, D2) \<Rightarrow>
                          Ret (Inr \<lparr> lg_run_id = run_id, lg_journal = j, lg_projected = fst ` set (jn_completions j), lg_claimed = {},
                                 lg_redirects = [], lg_failed = False \<rparr>, D2)))))"

section \<open>Admission\<close>

definition run_targets :: "ledger \<Rightarrow> target list" where
  "run_targets L = filter (\<lambda>t. tg_run_id t = lg_run_id L) (map snd (jn_admissions (lg_journal L)))"

definition next_ordinal :: "ledger \<Rightarrow> nat crawl" where
  "next_ordinal L =
     (case map tg_input_ordinal (run_targets L) of
        [] \<Rightarrow> Inr 0
      | n # ns \<Rightarrow> (let m = foldl max n ns in if m + 1 > u32_max then Inl CeInternalInvariant else Inr (m + 1)))"

definition new_target :: "record_env \<Rightarrow> ingestion_policy \<Rightarrow> string \<Rightarrow> string \<Rightarrow> nat \<Rightarrow> target_kind \<Rightarrow> string option \<Rightarrow> int \<Rightarrow> web_url option \<Rightarrow> target" where
  "new_target R p run_id target_id ordinal kind category now url =
     \<lparr> tg_target_id = target_id, tg_run_id = run_id, tg_input_ordinal = ordinal, tg_kind = kind,
       tg_category = map_option (\<lambda>s. bounded_metadata s 128) category, tg_started_at_utc = now,
       tg_record = pending_record R p run_id target_id url \<rparr>"

record admission_input =
  ai_target_id :: string
  ai_ordinal :: "nat option"
  ai_kind :: target_kind
  ai_category :: "string option"
  ai_url :: "web_url option"
  ai_now :: int

definition chosen_ordinal :: "admission_input \<Rightarrow> ledger \<Rightarrow> nat crawl" where
  "chosen_ordinal i L = (case ai_ordinal i of Some n \<Rightarrow> Inr n | None \<Rightarrow> next_ordinal L)"

text \<open>The lock is held over the persistence; a target that was not persisted stays in memory and poisons the ledger.\<close>

definition insert_target :: "write_end \<Rightarrow> target \<Rightarrow> ledger \<times> ledger_disk \<Rightarrow> target crawl \<times> ledger \<times> ledger_disk" where
  "insert_target w t s =
     (case s of (L, D) \<Rightarrow>
        if list_ex (\<lambda>u. tg_input_ordinal u = tg_input_ordinal t) (run_targets L) then (Inl CeDuplicateTarget, L, D)
        else
          (let j = (lg_journal L)\<lparr> jn_admissions := btree_insert (tg_target_id t) t (jn_admissions (lg_journal L)) \<rparr>;
               L' = L\<lparr> lg_journal := j \<rparr>
           in case persist_journal w j D of
                (Inl _, D') \<Rightarrow> (Inl CeLedgerWrite, L'\<lparr> lg_failed := True \<rparr>, D')
              | (Inr _, D') \<Rightarrow> (Inr t, L', D')))"

definition admit_ordinal :: "record_env \<Rightarrow> ingestion_policy \<Rightarrow> bool \<Rightarrow> write_end \<Rightarrow> admission_input \<Rightarrow> ledger \<times> ledger_disk \<Rightarrow> (target crawl \<times> ledger \<times> ledger_disk) may_panic" where
  "admit_ordinal R p seen_failed w i s =
     (if seen_failed then Ret (Inl CeLedgerWrite, s)
      else
        (case chosen_ordinal i (fst s) of
           Inl e \<Rightarrow> Ret (Inl e, s)
         | Inr n \<Rightarrow>
             (let t = new_target R p (lg_run_id (fst s)) (ai_target_id i) n (ai_kind i) (ai_category i) (ai_now i) (ai_url i) in
              outcome_bind (validate_record R (tg_record t)) (\<lambda>v.
                case v of Inl e \<Rightarrow> Ret (Inl e, s) | Inr _ \<Rightarrow> Ret (insert_target w t s)))))"

definition ledger_admit :: "record_env \<Rightarrow> ingestion_policy \<Rightarrow> bool \<Rightarrow> write_end \<Rightarrow> nat \<Rightarrow> admission_input \<Rightarrow> ledger \<times> ledger_disk \<Rightarrow> (target crawl \<times> ledger \<times> ledger_disk) may_panic" where
  "ledger_admit R p seen_failed w ordinal i s = admit_ordinal R p seen_failed w (i\<lparr> ai_ordinal := Some ordinal \<rparr>) s"

definition admit_next :: "record_env \<Rightarrow> ingestion_policy \<Rightarrow> bool \<Rightarrow> write_end \<Rightarrow> admission_input \<Rightarrow> ledger \<times> ledger_disk \<Rightarrow> (target crawl \<times> ledger \<times> ledger_disk) may_panic" where
  "admit_next R p seen_failed w i s = admit_ordinal R p seen_failed w (i\<lparr> ai_ordinal := None \<rparr>) s"

definition claim :: "record_env \<Rightarrow> web_url \<Rightarrow> ledger \<Rightarrow> unit crawl \<times> ledger" where
  "claim R url L =
     (if url_key R url \<in> lg_claimed L then (Inl CeAlreadyCrawled, L)
      else (Inr (), L\<lparr> lg_claimed := insert (url_key R url) (lg_claimed L) \<rparr>))"

section \<open>Redirects\<close>

datatype walk_end = Walk_Ends | Walk_Loops | Walk_Exceeds

definition MAX_HOPS :: nat where "MAX_HOPS = 10"

function walk :: "(string \<times> string) list \<Rightarrow> string list \<Rightarrow> string \<Rightarrow> nat \<Rightarrow> walk_end" where
  "walk graph visited current hops =
     (if current \<in> set visited then Walk_Loops
      else case map_of graph current of
             None \<Rightarrow> Walk_Ends
           | Some follower \<Rightarrow> if hops + 1 > MAX_HOPS then Walk_Exceeds else walk graph (current # visited) follower (hops + 1))"
  by pat_completeness auto
termination
  by (relation "measure (\<lambda>(_, _, _, hops). MAX_HOPS - hops)") auto

declare walk.simps [simp del]

fun walk_all :: "(string \<times> string) list \<Rightarrow> string list \<Rightarrow> walk_end" where
  "walk_all graph [] = Walk_Ends"
| "walk_all graph (s # starts) = (case walk graph [] s 0 of Walk_Ends \<Rightarrow> walk_all graph starts | r \<Rightarrow> r)"

definition destination_of :: "string \<Rightarrow> ledger \<Rightarrow> string option" where
  "destination_of key L =
     (case filter (\<lambda>t. obs_value (dr_url_key (tg_record t)) = Some key) (run_targets L) of
        [] \<Rightarrow> None
      | ts \<Rightarrow> Some (tg_target_id (arg_min_list tg_input_ordinal ts)))"

definition redirect :: "record_env \<Rightarrow> target \<Rightarrow> web_url \<Rightarrow> nat \<Rightarrow> ledger \<Rightarrow> (target_outcome \<times> string option) \<times> ledger" where
  "redirect R source destination status L =
     (case destination_of (url_key R destination) L of
        None \<Rightarrow> ((OcRedirectedOffSeed status, None), L)
      | Some d \<Rightarrow>
          (let graph = btree_insert (tg_target_id source) d (lg_redirects L) in
           case walk_all graph (map fst graph) of
             Walk_Loops \<Rightarrow> ((OcRedirectLoop, Some d), L)
           | Walk_Exceeds \<Rightarrow> ((OcRedirectLimit, Some d), L)
           | Walk_Ends \<Rightarrow> ((OcRedirectedToSeed status, Some d), L\<lparr> lg_redirects := graph \<rparr>)))"

section \<open>Completion\<close>

definition row_matches :: "ledger_row \<Rightarrow> target \<Rightarrow> bool" where
  "row_matches row t \<longleftrightarrow> lr_run_id row = tg_run_id t \<and> lr_input_ordinal row = tg_input_ordinal t
     \<and> dr_target_id (lr_record row) = lr_target_id row \<and> dr_run_id (lr_record row) = lr_run_id row"

definition commit_row :: "write_end \<Rightarrow> append_end \<Rightarrow> ledger_row \<Rightarrow> ledger \<times> ledger_disk \<Rightarrow> unit crawl \<times> ledger \<times> ledger_disk" where
  "commit_row w a row s =
     (case s of (L, D) \<Rightarrow>
        (let j = (lg_journal L)\<lparr> jn_completions := btree_insert (lr_target_id row) row (jn_completions (lg_journal L)) \<rparr>;
             L' = L\<lparr> lg_journal := j \<rparr>
         in case persist_journal w j D of
              (Inl _, D1) \<Rightarrow> (Inl CeLedgerWrite, L'\<lparr> lg_failed := True \<rparr>, D1)
            | (Inr _, D1) \<Rightarrow>
                (case append_terminal a row D1 of
                   (Inl _, D2) \<Rightarrow> (Inl CeLedgerWrite, L'\<lparr> lg_failed := True \<rparr>, D2)
                 | (Inr _, D2) \<Rightarrow> (Inr (), L'\<lparr> lg_projected := insert (lr_target_id row) (lg_projected L) \<rparr>, D2))))"

definition complete :: "record_env \<Rightarrow> bool \<Rightarrow> write_end \<Rightarrow> append_end \<Rightarrow> ledger_row \<Rightarrow> ledger \<times> ledger_disk \<Rightarrow> (unit crawl \<times> ledger \<times> ledger_disk) may_panic" where
  "complete R seen_failed w a row s =
     (if seen_failed then Ret (Inl CeLedgerWrite, s)
      else outcome_bind (validate_record R (lr_record row)) (\<lambda>v.
        case v of
          Inl e \<Rightarrow> Ret (Inl e, s)
        | Inr _ \<Rightarrow>
            (case map_of (jn_admissions (lg_journal (fst s))) (lr_target_id row) of
               None \<Rightarrow> Ret (Inl CeDuplicateTarget, s)
             | Some t \<Rightarrow>
                 if map_of (jn_completions (lg_journal (fst s))) (lr_target_id row) \<noteq> None then Ret (Inl CeDuplicateTarget, s)
                 else if \<not> row_matches row t then Ret (Inl CeLedgerWrite, s)
                 else Ret (commit_row w a row s))))"

section \<open>Reading\<close>

fun read_lines :: "record_env \<Rightarrow> string list \<Rightarrow> ledger_row option list \<Rightarrow> ledger_row list crawl may_panic" where
  "read_lines R ids [] = Ret (Inr [])"
| "read_lines R ids (None # ls) = Ret (Inl CeLedgerWrite)"
| "read_lines R ids (Some row # ls) =
     outcome_bind (validate_record R (lr_record row)) (\<lambda>v.
       case v of
         Inl e \<Rightarrow> Ret (Inl e)
       | Inr _ \<Rightarrow>
           if lr_schema_version row \<noteq> 1 \<or> lr_target_id row \<in> set ids then Ret (Inl CeLedgerIncomplete)
           else outcome_bind (read_lines R (lr_target_id row # ids) ls) (\<lambda>rs. Ret (res_bind rs (\<lambda>rows. Inr (row # rows)))))"

definition file_lines :: "row_file \<Rightarrow> ledger_row option list" where
  "file_lines f = rf_lines f @ (case rf_tail f of None \<Rightarrow> [] | Some l \<Rightarrow> [l])"

definition read_rows :: "record_env \<Rightarrow> ledger_disk \<Rightarrow> ledger_row list crawl may_panic" where
  "read_rows R D = (case lk_rows D of None \<Rightarrow> Ret (Inl CeLedgerWrite) | Some f \<Rightarrow> read_lines R [] (file_lines f))"

definition no_pending :: "ledger \<Rightarrow> bool" where
  "no_pending L \<longleftrightarrow> \<not> list_ex (\<lambda>(k, _). map_of (jn_completions (lg_journal L)) k = None \<or> k \<notin> lg_projected L) (jn_admissions (lg_journal L))"

definition finish :: "record_env \<Rightarrow> bool \<Rightarrow> ledger \<Rightarrow> ledger_disk \<Rightarrow> unit crawl may_panic" where
  "finish R seen_failed L D =
     (if seen_failed then Ret (Inl CeLedgerWrite)
      else if \<not> no_pending L then Ret (Inl CeLedgerIncomplete)
      else outcome_bind (read_rows R D) (\<lambda>r.
        Ret (res_bind r (\<lambda>rows.
          let ids = set (map lr_target_id rows) in
          if card ids \<noteq> length rows \<or> ids \<noteq> lg_projected L then Inl CeLedgerIncomplete else Inr ()))))"

definition ledger_rows :: "ledger \<Rightarrow> ledger_row list" where
  "ledger_rows L = sort_key lr_input_ordinal (filter (\<lambda>row. lr_run_id row = lg_run_id L) (map snd (jn_completions (lg_journal L))))"

definition ledger_targets :: "ledger \<Rightarrow> target list" where
  "ledger_targets L = sort_key tg_input_ordinal (run_targets L)"

definition rows_of_url :: "record_env \<Rightarrow> web_url \<Rightarrow> ledger \<Rightarrow> ledger_row list" where
  "rows_of_url R url L = filter (\<lambda>row. obs_value (dr_url_key (lr_record row)) = Some (url_key R url)) (map snd (jn_completions (lg_journal L)))"

fun newest_success :: "ledger_row list \<Rightarrow> document_record option" where
  "newest_success [] = None"
| "newest_success (row # rows) =
     (if lr_outcome row = OcGone then None
      else if lr_outcome row \<in> {OcSaved, OcSavedNoindex, OcParsedNotRetained, OcNotModified} then Some (lr_record row)
      else newest_success rows)"

definition previous_success :: "record_env \<Rightarrow> web_url \<Rightarrow> ledger \<Rightarrow> document_record option" where
  "previous_success R url L =
     newest_success (rev (sort_key (\<lambda>row. (lr_finished_at_utc row, lr_input_ordinal row)) (rows_of_url R url L)))"

definition previous_languages :: "record_env \<Rightarrow> web_url \<Rightarrow> ledger \<Rightarrow> string list option" where
  "previous_languages R url L =
     (case rev (sort_key (\<lambda>row. (lr_finished_at_utc row, lr_input_ordinal row))
             (filter (\<lambda>row. \<not> obs_is_none (dr_parsed_at_utc (lr_record row))) (rows_of_url R url L))) of
        [] \<Rightarrow> None
      | row # _ \<Rightarrow> Some (dr_declared_languages (lr_record row)))"

section \<open>The invariant\<close>

definition record_valid :: "record_env \<Rightarrow> document_record \<Rightarrow> bool" where
  "record_valid R r \<longleftrightarrow> validate_record R r = Ret (Inr ())"

definition admission_ok :: "record_env \<Rightarrow> string \<times> target \<Rightarrow> bool" where
  "admission_ok R e = (case e of (k, t) \<Rightarrow> k = tg_target_id t \<and> record_valid R (tg_record t) \<and> dr_target_id (tg_record t) = k
     \<and> dr_run_id (tg_record t) = tg_run_id t)"

definition completion_ok :: "record_env \<Rightarrow> (string \<times> target) list \<Rightarrow> string \<times> ledger_row \<Rightarrow> bool" where
  "completion_ok R ts e = (case e of (k, row) \<Rightarrow> k = lr_target_id row \<and> record_valid R (lr_record row) \<and> lr_schema_version row = 1
     \<and> (\<exists>t. map_of ts k = Some t \<and> row_matches row t))"

definition ordinals_unique :: "(string \<times> target) list \<Rightarrow> bool" where
  "ordinals_unique ts \<longleftrightarrow> (\<forall>(k, t) \<in> set ts. \<forall>(k', t') \<in> set ts.
     tg_run_id t = tg_run_id t' \<and> tg_input_ordinal t = tg_input_ordinal t' \<longrightarrow> k = k')"

definition journal_ok :: "record_env \<Rightarrow> string \<Rightarrow> crawl_journal \<Rightarrow> bool" where
  "journal_ok R store j \<longleftrightarrow> jn_version j = 1 \<and> jn_store_id j = store \<and> btree_ok (jn_admissions j) \<and> btree_ok (jn_completions j)
     \<and> (\<forall>e \<in> set (jn_admissions j). admission_ok R e) \<and> (\<forall>e \<in> set (jn_completions j). completion_ok R (jn_admissions j) e)
     \<and> ordinals_unique (jn_admissions j)"

definition journal_le :: "crawl_journal \<Rightarrow> crawl_journal \<Rightarrow> bool" where
  "journal_le j j' \<longleftrightarrow> map_of (jn_admissions j) \<subseteq>\<^sub>m map_of (jn_admissions j') \<and> map_of (jn_completions j) \<subseteq>\<^sub>m map_of (jn_completions j')"

definition rows_from :: "crawl_journal \<Rightarrow> row_file \<Rightarrow> bool" where
  "rows_from j f \<longleftrightarrow> (\<forall>row. Some row \<in> set (file_lines f) \<longrightarrow> map_of (jn_completions j) (lr_target_id row) = Some row)"

text \<open>What holds whatever has failed, and what holds besides while nothing has.\<close>

definition ledger_backed :: "record_env \<Rightarrow> string \<Rightarrow> ledger \<Rightarrow> ledger_disk \<Rightarrow> bool" where
  "ledger_backed R store L D \<longleftrightarrow> journal_ok R store (lg_journal L)
     \<and> (\<exists>j f. lk_journal D = Some (Some j) \<and> journal_ok R store j \<and> journal_le j (lg_journal L) \<and> lk_rows D = Some f \<and> rows_from (lg_journal L) f)
     \<and> lg_projected L \<subseteq> fst ` set (jn_completions (lg_journal L))"

definition ledger_synced :: "ledger \<Rightarrow> ledger_disk \<Rightarrow> bool" where
  "ledger_synced L D \<longleftrightarrow> lk_journal D = Some (Some (lg_journal L)) \<and> lg_projected L = fst ` set (jn_completions (lg_journal L))
     \<and> (\<exists>ls. lk_rows D = Some \<lparr> rf_lines = map Some ls, rf_tail = None \<rparr> \<and> mset ls = mset (map snd (jn_completions (lg_journal L))))"

type_synonym ledger_world = "ledger option \<times> ledger_disk"

definition world_ok :: "record_env \<Rightarrow> string \<Rightarrow> ledger_world \<Rightarrow> bool" where
  "world_ok R store w = (case w of (l, D) \<Rightarrow>
     (lk_journal D = None \<or> (\<exists>j. lk_journal D = Some (Some j) \<and> journal_ok R store j))
     \<and> (case l of None \<Rightarrow> True | Some L \<Rightarrow> ledger_backed R store L D \<and> (\<not> lg_failed L \<longrightarrow> ledger_synced L D)))"

definition disk_le :: "ledger_disk \<Rightarrow> ledger_disk \<Rightarrow> bool" where
  "disk_le D D' \<longleftrightarrow> (\<forall>j. lk_journal D = Some (Some j) \<longrightarrow> (\<exists>j'. lk_journal D' = Some (Some j') \<and> journal_le j j'))"

lemma journal_le_refl [simp]: "journal_le j j"
  by (simp add: journal_le_def)

lemma journal_le_trans: "journal_le a b \<Longrightarrow> journal_le b c \<Longrightarrow> journal_le a c"
  unfolding journal_le_def by (blast intro: map_le_trans)

lemma disk_le_refl [simp]: "disk_le D D"
  by (simp add: disk_le_def)

lemma disk_le_trans: "disk_le a b \<Longrightarrow> disk_le b c \<Longrightarrow> disk_le a c"
  unfolding disk_le_def by (meson journal_le_trans)

lemma rows_from_le: "rows_from j f \<Longrightarrow> journal_le j j' \<Longrightarrow> rows_from j' f"
  unfolding rows_from_def journal_le_def map_le_def by (metis domI)

lemma insert_le: "btree_ok es \<Longrightarrow> k \<notin> fst ` set es \<Longrightarrow> map_of es \<subseteq>\<^sub>m map_of (btree_insert k v es)"
  by (auto simp: map_le_def dom_map_of_conv_image_fst)

lemma completion_ok_mono: "completion_ok R ts e \<Longrightarrow> map_of ts \<subseteq>\<^sub>m map_of ts' \<Longrightarrow> completion_ok R ts' e"
  unfolding completion_ok_def by (cases e) (fastforce simp: map_le_def dom_def)

text \<open>Adding an admission or a completion.\<close>

lemma admission_added:
  assumes "journal_ok R store j" and "admission_ok R (k, t)" and "k \<notin> fst ` set (jn_admissions j)"
    and "\<forall>u \<in> snd ` set (jn_admissions j). tg_run_id u = tg_run_id t \<longrightarrow> tg_input_ordinal u \<noteq> tg_input_ordinal t"
  shows "journal_ok R store (j\<lparr> jn_admissions := btree_insert k t (jn_admissions j) \<rparr>)"
    and "journal_le j (j\<lparr> jn_admissions := btree_insert k t (jn_admissions j) \<rparr>)"
proof -
  note j = assms(1) [unfolded journal_ok_def]
  have set: "set (btree_insert k t (jn_admissions j)) = insert (k, t) (set (jn_admissions j))" using assms(3) by (rule btree_fresh_values)
  have le: "map_of (jn_admissions j) \<subseteq>\<^sub>m map_of (btree_insert k t (jn_admissions j))" using j assms(3) by (intro insert_le) auto
  have c: "completion_ok R (btree_insert k t (jn_admissions j)) e" if "e \<in> set (jn_completions j)" for e
    using j that le by (blast intro: completion_ok_mono)
  have "tg_run_id u \<noteq> tg_run_id t \<or> tg_input_ordinal u \<noteq> tg_input_ordinal t" if "(k', u) \<in> set (jn_admissions j)" for k' u
    using assms(4) that by force
  then have "ordinals_unique (btree_insert k t (jn_admissions j))"
    using j unfolding ordinals_unique_def set by (fastforce split: prod.splits)
  then show "journal_ok R store (j\<lparr> jn_admissions := btree_insert k t (jn_admissions j) \<rparr>)"
    using j assms(2) c by (simp add: journal_ok_def set)
  show "journal_le j (j\<lparr> jn_admissions := btree_insert k t (jn_admissions j) \<rparr>)" using le by (simp add: journal_le_def)
qed

lemma completion_added:
  assumes "journal_ok R store j" and "completion_ok R (jn_admissions j) (k, row)" and "k \<notin> fst ` set (jn_completions j)"
  shows "journal_ok R store (j\<lparr> jn_completions := btree_insert k row (jn_completions j) \<rparr>)"
    and "journal_le j (j\<lparr> jn_completions := btree_insert k row (jn_completions j) \<rparr>)"
proof -
  note j = assms(1) [unfolded journal_ok_def]
  have set: "set (btree_insert k row (jn_completions j)) = insert (k, row) (set (jn_completions j))" using assms(3) by (rule btree_fresh_values)
  show "journal_ok R store (j\<lparr> jn_completions := btree_insert k row (jn_completions j) \<rparr>)" using j assms(2) by (simp add: journal_ok_def set)
  have "map_of (jn_completions j) \<subseteq>\<^sub>m map_of (btree_insert k row (jn_completions j))" using j assms(3) by (intro insert_le) auto
  then show "journal_le j (j\<lparr> jn_completions := btree_insert k row (jn_completions j) \<rparr>)" by (simp add: journal_le_def)
qed

lemma persist_journal_cases:
  assumes "persist_journal w j D = (r, D')"
  shows "(r \<noteq> Inr () \<and> D' = D) \<or> D' = D\<lparr> lk_journal := Some (Some j) \<rparr>"
  using assms by (auto simp: persist_journal_def split: write_end.splits if_splits)

text \<open>A failed call may have changed the journal, in memory or on disk, only to a later one.\<close>

lemma failed_world:
  assumes "ledger_backed R store L D" and "journal_ok R store j" and "journal_le (lg_journal L) j"
    and "D' = D \<or> D' = D\<lparr> lk_journal := Some (Some j) \<rparr>"
  shows "world_ok R store (Some (L\<lparr> lg_journal := j, lg_failed := True \<rparr>), D')" "disk_le D D'"
proof -
  from assms(1) obtain i f where i: "lk_journal D = Some (Some i)" "journal_ok R store i" "journal_le i (lg_journal L)" "lk_rows D = Some f"
    "rows_from (lg_journal L) f" "lg_projected L \<subseteq> fst ` set (jn_completions (lg_journal L))" unfolding ledger_backed_def by blast
  have le: "journal_le i j" using i(3) assms(3) by (rule journal_le_trans)
  have "fst ` set (jn_completions (lg_journal L)) \<subseteq> fst ` set (jn_completions j)"
    using assms(3) by (auto simp: journal_le_def dom_map_of_conv_image_fst [symmetric] dest: map_le_implies_dom_le)
  then show "world_ok R store (Some (L\<lparr> lg_journal := j, lg_failed := True \<rparr>), D')"
    using assms(2,4) i le rows_from_le [OF i(5) assms(3)] by (auto simp: world_ok_def ledger_backed_def)
  show "disk_le D D'" using assms(4) i(1) le by (auto simp: disk_le_def)
qed

section \<open>Every call keeps it\<close>

lemma insert_target_keeps:
  assumes "world_ok R store (Some L, D)" and "admission_ok R (tg_target_id t, t)" and "tg_run_id t = lg_run_id L"
    and "tg_target_id t \<notin> fst ` set (jn_admissions (lg_journal L))" and "insert_target w t (L, D) = (r, L', D')"
  shows "world_ok R store (Some L', D')" "disk_le D D'" "r = Inr u \<Longrightarrow> u = t \<and> (\<exists>j. lk_journal D' = Some (Some j) \<and> map_of (jn_admissions j) (tg_target_id t) = Some t)"
proof -
  let ?j = "(lg_journal L)\<lparr> jn_admissions := btree_insert (tg_target_id t) t (jn_admissions (lg_journal L)) \<rparr>"
  have b: "ledger_backed R store L D" "\<not> lg_failed L \<longrightarrow> ledger_synced L D" using assms(1) by (simp_all add: world_ok_def)
  have jL: "journal_ok R store (lg_journal L)" using b(1) by (simp add: ledger_backed_def)
  have all: "world_ok R store (Some L', D') \<and> disk_le D D'
      \<and> (r = Inr u \<longrightarrow> u = t \<and> (\<exists>j. lk_journal D' = Some (Some j) \<and> map_of (jn_admissions j) (tg_target_id t) = Some t))"
  proof (cases "list_ex (\<lambda>u. tg_input_ordinal u = tg_input_ordinal t) (run_targets L)")
    case True
    then show ?thesis using assms(1,5) by (auto simp: insert_target_def)
  next
    case False
    then have "\<forall>u \<in> snd ` set (jn_admissions (lg_journal L)). tg_run_id u = tg_run_id t \<longrightarrow> tg_input_ordinal u \<noteq> tg_input_ordinal t"
      using assms(3) by (auto simp: list_ex_iff run_targets_def)
    note j = admission_added [OF jL assms(2,4) this]
    obtain v D1 where p: "persist_journal w ?j D = (v, D1)" by force
    have D1: "(v \<noteq> Inr () \<and> D1 = D) \<or> D1 = D\<lparr> lk_journal := Some (Some ?j) \<rparr>" by (rule persist_journal_cases [OF p])
    note f = failed_world [OF b(1) j, of D1]
    show ?thesis
    proof (cases v)
      case (Inl e)
      then have "L' = L\<lparr> lg_journal := ?j, lg_failed := True \<rparr>" "D' = D1" "r = Inl CeLedgerWrite"
        using assms(5) False p by (simp_all add: insert_target_def Let_def)
      then show ?thesis using f D1 by auto
    next
      case (Inr w)
      then have s: "L' = L\<lparr> lg_journal := ?j \<rparr>" "D' = D\<lparr> lk_journal := Some (Some ?j) \<rparr>" "r = Inr t"
        using assms(5) False p D1 by (auto simp: insert_target_def Let_def)
      have "world_ok R store (Some (L\<lparr> lg_journal := ?j, lg_failed := True \<rparr>), D')" "disk_le D D'" using f s(2) D1 Inr by auto
      moreover have "map_of (jn_admissions ?j) (tg_target_id t) = Some t" using jL by (simp add: journal_ok_def)
      ultimately show ?thesis using s b(2) by (auto simp: world_ok_def ledger_backed_def ledger_synced_def)
    qed
  qed
  then show "world_ok R store (Some L', D')" "disk_le D D'"
    "r = Inr u \<Longrightarrow> u = t \<and> (\<exists>j. lk_journal D' = Some (Some j) \<and> map_of (jn_admissions j) (tg_target_id t) = Some t)" by auto
qed

lemma admit_keeps:
  assumes "world_ok R store (Some L, D)" and "ai_target_id i \<notin> fst ` set (jn_admissions (lg_journal L))"
    and "admit_ordinal R p seen w i (L, D) = Ret (r, L', D')"
  shows "world_ok R store (Some L', D')" "disk_le D D'" "r = Inr t \<Longrightarrow> \<exists>j. lk_journal D' = Some (Some j) \<and> map_of (jn_admissions j) (tg_target_id t) = Some t"
proof -
  consider "(L', D') = (L, D)" "\<forall>t. r \<noteq> Inr t"
    | t where "tg_target_id t = ai_target_id i" "tg_run_id t = lg_run_id L" "admission_ok R (tg_target_id t, t)" "insert_target w t (L, D) = (r, L', D')"
  proof (cases "\<not> seen \<and> (\<exists>n. chosen_ordinal i L = Inr n)")
    case False
    then show ?thesis using assms(3) that(1)
      by (cases "chosen_ordinal i L") (auto simp: admit_ordinal_def split: if_splits)
  next
    case True
    then obtain n where n: "\<not> seen" "chosen_ordinal i L = Inr n" by blast
    let ?t = "new_target R p (lg_run_id L) (ai_target_id i) n (ai_kind i) (ai_category i) (ai_now i) (ai_url i)"
    obtain v where v: "validate_record R (tg_record ?t) = Ret v" using assms(3) n by (cases "validate_record R (tg_record ?t)") (simp_all add: admit_ordinal_def Let_def)
    show ?thesis
    proof (cases v)
      case (Inl e)
      then show ?thesis using assms(3) n v that(1) by (auto simp: admit_ordinal_def Let_def)
    next
      case (Inr x)
      then have "insert_target w ?t (L, D) = (r, L', D')" using assms(3) n v by (simp add: admit_ordinal_def Let_def)
      moreover have "admission_ok R (tg_target_id ?t, ?t)" using v Inr by (simp add: admission_ok_def record_valid_def new_target_def pending_record_def)
      ultimately show ?thesis using that(2) [of ?t] by (simp add: new_target_def)
    qed
  qed
  then have "world_ok R store (Some L', D') \<and> disk_le D D' \<and> (r = Inr t \<longrightarrow> (\<exists>j. lk_journal D' = Some (Some j) \<and> map_of (jn_admissions j) (tg_target_id t) = Some t))"
  proof cases
    case 1
    then show ?thesis using assms(1) by simp
  next
    case (2 u)
    note k = insert_target_keeps [OF assms(1) 2(3,2) _ 2(4)]
    show ?thesis using k(1,2) k(3) [of t] 2(1) assms(2) by auto
  qed
  then show "world_ok R store (Some L', D')" "disk_le D D'" "r = Inr t \<Longrightarrow> \<exists>j. lk_journal D' = Some (Some j) \<and> map_of (jn_admissions j) (tg_target_id t) = Some t" by auto
qed

lemma commit_row_keeps:
  assumes "world_ok R store (Some L, D)" and "completion_ok R (jn_admissions (lg_journal L)) (lr_target_id row, row)"
    and "lr_target_id row \<notin> fst ` set (jn_completions (lg_journal L))" and "commit_row w a row (L, D) = (r, L', D')"
  shows "world_ok R store (Some L', D') \<and> disk_le D D'
    \<and> (r = Inr () \<longrightarrow> (\<exists>j. lk_journal D' = Some (Some j) \<and> map_of (jn_completions j) (lr_target_id row) = Some row))"
proof -
  let ?j = "(lg_journal L)\<lparr> jn_completions := btree_insert (lr_target_id row) row (jn_completions (lg_journal L)) \<rparr>"
  let ?D1 = "D\<lparr> lk_journal := Some (Some ?j) \<rparr>"
  have b: "ledger_backed R store L D" "\<not> lg_failed L \<longrightarrow> ledger_synced L D" using assms(1) by (simp_all add: world_ok_def)
  have jL: "journal_ok R store (lg_journal L)" using b(1) by (simp add: ledger_backed_def)
  note j = completion_added [OF jL assms(2,3)]
  have here: "map_of (jn_completions ?j) (lr_target_id row) = Some row" using jL by (simp add: journal_ok_def)
  obtain v D1 where p: "persist_journal w ?j D = (v, D1)" by force
  have D1: "(v \<noteq> Inr () \<and> D1 = D) \<or> D1 = ?D1" by (rule persist_journal_cases [OF p])
  show ?thesis
  proof (cases v)
    case (Inl e)
    then have "L' = L\<lparr> lg_journal := ?j, lg_failed := True \<rparr>" "D' = D1" "r = Inl CeLedgerWrite"
      using assms(4) p by (simp_all add: commit_row_def Let_def)
    then show ?thesis using failed_world [OF b(1) j, of D1] D1 by auto
  next
    case (Inr u)
    have D1': "D1 = ?D1" using D1 Inr by simp
    obtain f where f: "lk_rows D = Some f" "rows_from (lg_journal L) f" using b(1) by (auto simp: ledger_backed_def)
    let ?D2 = "?D1\<lparr> lk_rows := Some (append_to a row f) \<rparr>"
    have w: "world_ok R store (Some (L\<lparr> lg_journal := ?j, lg_failed := True \<rparr>), ?D1)" "disk_le D ?D1" using failed_world [OF b(1) j, of ?D1] by simp_all
    have rows: "rows_from ?j (append_to a row f)"
      using rows_from_le [OF f(2) j(2)] here unfolding rows_from_def append_to_def file_lines_def
      by (auto simp: Let_def split: append_end.splits option.splits)
    have w2: "world_ok R store (Some (L\<lparr> lg_journal := ?j, lg_failed := True \<rparr>), ?D2)"
      using w(1) rows by (auto simp: world_ok_def ledger_backed_def)
    have d2: "disk_le D ?D2" using w(2) by (simp add: disk_le_def)
    show ?thesis
    proof (cases "a = AppendOk")
      case False
      then have "L' = L\<lparr> lg_journal := ?j, lg_failed := True \<rparr>" "D' = ?D2" "r = Inl CeLedgerWrite"
        using assms(4) p Inr D1' f by (simp_all add: commit_row_def Let_def append_terminal_def)
      then show ?thesis using w2 d2 by simp
    next
      case True
      then have s: "L' = L\<lparr> lg_journal := ?j, lg_projected := insert (lr_target_id row) (lg_projected L) \<rparr>" "D' = ?D2" "r = Inr ()"
        using assms(4) p Inr D1' f by (simp_all add: commit_row_def Let_def append_terminal_def)
      have backed: "ledger_backed R store L' D'" using w2 s(1,2) by (auto simp: world_ok_def ledger_backed_def)
      have sync: "ledger_synced L' D'" if nf: "\<not> lg_failed L"
      proof -
        from nf b(2) obtain ls where ls: "lk_rows D = Some \<lparr> rf_lines = map Some ls, rf_tail = None \<rparr>"
          "mset ls = mset (map snd (jn_completions (lg_journal L)))" "lg_projected L = fst ` set (jn_completions (lg_journal L))"
          by (auto simp: ledger_synced_def)
        have "mset (map snd (btree_insert (lr_target_id row) row (jn_completions (lg_journal L)))) = mset (ls @ [row])"
          using btree_fresh_mset [OF assms(3), of row] ls(2) by simp
        then show ?thesis using ls f s True by (auto simp: ledger_synced_def append_to_def intro!: exI [of _ "ls @ [row]"])
      qed
      then show ?thesis using s backed sync d2 here w2 by (auto simp: world_ok_def)
    qed
  qed
qed

lemma complete_keeps:
  assumes "world_ok R store (Some L, D)" and "lr_schema_version row = 1" and "complete R seen w a row (L, D) = Ret (r, L', D')"
  shows "world_ok R store (Some L', D') \<and> disk_le D D'
    \<and> (r = Inr () \<longrightarrow> (\<exists>j. lk_journal D' = Some (Some j) \<and> map_of (jn_completions j) (lr_target_id row) = Some row))"
proof -
  let ?t = "map_of (jn_admissions (lg_journal L)) (lr_target_id row)"
  consider "L' = L" "D' = D" "r \<noteq> Inr ()"
    | t where "validate_record R (lr_record row) = Ret (Inr ())" "?t = Some t" "row_matches row t"
        "map_of (jn_completions (lg_journal L)) (lr_target_id row) = None" "commit_row w a row (L, D) = (r, L', D')"
    using assms(3) by (cases "validate_record R (lr_record row)") (auto simp: complete_def split: if_splits sum.split_asm option.split_asm)
  then show ?thesis
  proof cases
    case 1
    then show ?thesis using assms(1) by simp
  next
    case (2 t)
    have "completion_ok R (jn_admissions (lg_journal L)) (lr_target_id row, row)"
      using 2 assms(2) by (simp add: completion_ok_def record_valid_def)
    moreover have "lr_target_id row \<notin> fst ` set (jn_completions (lg_journal L))" using 2(4) by (simp add: map_of_eq_None_iff)
    ultimately show ?thesis using commit_row_keeps [OF assms(1) _ _ 2(5)] by blast
  qed
qed

section \<open>Opening\<close>

definition recovered :: "(string \<Rightarrow> int) \<Rightarrow> (string \<rightharpoonup> target) \<Rightarrow> (string \<rightharpoonup> ledger_row) \<Rightarrow> string \<rightharpoonup> ledger_row" where
  "recovered clock ts rows k = (case rows k of Some row \<Rightarrow> Some row | None \<Rightarrow> map_option (\<lambda>t. from_target t OcCancelled (clock k)) (ts k))"

lemma recover_admissions_ok:
  assumes "\<forall>e \<in> set ts. admission_ok R e" and "btree_ok rows" and "distinct (map fst ts)"
  shows "\<exists>rows'. recover_admissions R clock ts rows = Ret (Inr rows') \<and> btree_ok rows' \<and> map_of rows' = recovered clock (map_of ts) (map_of rows)"
  using assms
proof (induction ts arbitrary: rows)
  case Nil
  then show ?case by (auto simp: recovered_def fun_eq_iff split: option.splits)
next
  case (Cons e ts)
  obtain k t where e: "e = (k, t)" by force
  let ?rows = "if map_of rows k = None then btree_insert k (from_target t OcCancelled (clock k)) rows else rows"
  have "k = tg_target_id t" "validate_record R (tg_record t) = Ret (Inr ())" using Cons.prems(1) e by (auto simp: admission_ok_def record_valid_def)
  then have "recover_admissions R clock (e # ts) rows = recover_admissions R clock ts ?rows" unfolding e by simp
  moreover have "btree_ok ?rows" using Cons.prems(2) by simp
  moreover have "recovered clock (map_of ts) (map_of ?rows) = recovered clock (map_of (e # ts)) (map_of rows)"
  proof -
    have "map_of ts k = None" using Cons.prems(3) e by (simp add: map_of_eq_None_iff)
    then show ?thesis using Cons.prems(2) e by (auto simp: recovered_def fun_eq_iff split: option.splits)
  qed
  moreover have "\<forall>e \<in> set ts. admission_ok R e" "distinct (map fst ts)" using Cons.prems(1,3) by simp_all
  ultimately show ?case using Cons.IH [of ?rows] by metis
qed

lemma check_completions_ok: "\<forall>e \<in> set rows. completion_ok R ts e \<Longrightarrow> check_completions R ts rows = Ret (Inr ())"
  by (induction rows) (auto simp: completion_ok_def record_valid_def)

lemma cancelled_ok:
  assumes "admission_ok R (k, t)" and "map_of ts k = Some t"
  shows "completion_ok R ts (k, from_target t OcCancelled now)"
  using assms by (simp add: completion_ok_def admission_ok_def from_target_def row_matches_def)

lemma recover_journal_ok:
  assumes "journal_ok R store j"
  shows "\<exists>j'. recover_journal R clock j = Ret (Inr j') \<and> journal_ok R store j' \<and> journal_le j j' \<and> jn_admissions j' = jn_admissions j
    \<and> map_of (jn_completions j') = recovered clock (map_of (jn_admissions j)) (map_of (jn_completions j))"
proof -
  note j = assms [unfolded journal_ok_def]
  from recover_admissions_ok [of "jn_admissions j" R "jn_completions j" clock] j btree_ok_distinct obtain rows where
    rows: "recover_admissions R clock (jn_admissions j) (jn_completions j) = Ret (Inr rows)" "btree_ok rows"
      "map_of rows = recovered clock (map_of (jn_admissions j)) (map_of (jn_completions j))" by blast
  have c: "completion_ok R (jn_admissions j) e" if e: "e \<in> set rows" for e
  proof -
    obtain k row where kr: "e = (k, row)" by force
    have "map_of rows k = Some row" using e kr rows(2) btree_mem [of rows k row] by simp
    then consider "map_of (jn_completions j) k = Some row"
      | t where "map_of (jn_admissions j) k = Some t" "row = from_target t OcCancelled (clock k)"
      unfolding rows(3) recovered_def by (auto split: option.splits)
    then show ?thesis
    proof cases
      case 1
      then show ?thesis using j kr by (auto dest: map_of_SomeD)
    next
      case (2 t)
      then show ?thesis using j kr cancelled_ok [of R k t] by (auto dest: map_of_SomeD)
    qed
  qed
  have "map_of (jn_completions j) \<subseteq>\<^sub>m map_of rows" unfolding rows(3) by (auto simp: map_le_def recovered_def)
  then have "journal_le j (j\<lparr> jn_completions := rows \<rparr>)" by (simp add: journal_le_def)
  moreover have "journal_ok R store (j\<lparr> jn_completions := rows \<rparr>)" using j rows(2) c by (simp add: journal_ok_def)
  moreover have "recover_journal R clock j = Ret (Inr (j\<lparr> jn_completions := rows \<rparr>))"
    using rows(1) check_completions_ok [of rows R "jn_admissions j"] c by (simp add: recover_journal_def)
  ultimately show ?thesis using rows(3) by auto
qed

lemma new_journal_ok: "journal_ok R store (new_journal store)"
  by (simp add: journal_ok_def new_journal_def ordinals_unique_def)

text \<open>The journal an opening starts from.\<close>

definition disk_journal :: "string \<Rightarrow> ledger_disk \<Rightarrow> crawl_journal" where
  "disk_journal store D = (case lk_journal D of Some (Some j) \<Rightarrow> j | _ \<Rightarrow> new_journal store)"

lemma read_journal_ok:
  assumes "world_ok R store (None, D)"
  shows "read_journal store D = (if lk_foreign D then Inl CeStoreRefused else Inr (disk_journal store D))" "journal_ok R store (disk_journal store D)"
  using assms new_journal_ok [of R store] by (auto simp: world_ok_def read_journal_def disk_journal_def journal_ok_def)

lemma rows_of_completions:
  assumes "btree_ok cs" and "\<forall>e \<in> set cs. completion_ok R ts e"
  shows "\<forall>row. Some row \<in> set (map Some (map snd cs)) \<longrightarrow> map_of cs (lr_target_id row) = Some row"
proof -
  have "map_of cs (lr_target_id row) = Some row" if "(k, row) \<in> set cs" for k row
    using assms that btree_mem [OF assms(1), of k row] by (auto simp: completion_ok_def)
  then show ?thesis by auto
qed

lemma open_keeps:
  assumes "world_ok R store (None, D)" and "ledger_open R store run clock w1 w2 D = Ret (r, D')"
  shows "world_ok R store (ok r, D')" "disk_le D D'"
proof -
  let ?i = "disk_journal store D"
  note i = read_journal_ok [OF assms(1)]
  obtain j where j: "recover_journal R clock ?i = Ret (Inr j)" "journal_ok R store j" "journal_le ?i j" using recover_journal_ok [OF i(2)] by blast
  have "world_ok R store (ok r, D') \<and> disk_le D D'"
  proof (cases "lk_foreign D")
    case True
    then show ?thesis using assms i(1) by (auto simp: ledger_open_def)
  next
    case False
    obtain v D1 where p: "persist_journal w1 j D = (v, D1)" by force
    obtain u D2 where q: "write_rows w2 (map snd (jn_completions j)) D1 = (u, D2)" by force
    let ?L = "\<lparr> lg_run_id = run, lg_journal = j, lg_projected = fst ` set (jn_completions j), lg_claimed = {}, lg_redirects = [], lg_failed = False \<rparr>"
    have le: "disk_le D (D\<lparr> lk_journal := Some (Some j) \<rparr>)" using j(3) by (auto simp: disk_le_def disk_journal_def)
    have ok1: "world_ok R store (None, D1) \<and> disk_le D D1"
      using persist_journal_cases [OF p] assms(1) j(2) le by (auto simp: world_ok_def)
    have D2: "lk_journal D2 = lk_journal D1" using q by (auto simp: write_rows_def Let_def split: write_end.splits if_splits)
    have ok2: "world_ok R store (None, D2) \<and> disk_le D D2" using ok1 D2 by (simp add: world_ok_def disk_le_def)
    consider e where "r = Inl e" "D' = D1 \<or> D' = D2" | "r = Inr ?L" "D' = D2" "v = Inr ()" "u = Inr ()"
      using assms(2) i(1) False j(1) p q by (auto simp: ledger_open_def split: sum.split_asm)
    then show ?thesis
    proof cases
      case 1
      then show ?thesis using ok1 ok2 by auto
    next
      case 2
      have D1: "D1 = D\<lparr> lk_journal := Some (Some j) \<rparr>" using persist_journal_cases [OF p] 2(3) by simp
      have D2': "D2 = D1\<lparr> lk_rows := Some \<lparr> rf_lines = map Some (map snd (jn_completions j)), rf_tail = None \<rparr> \<rparr>"
        using q 2(4) by (auto simp: write_rows_def Let_def split: write_end.splits)
      have "rows_from j \<lparr> rf_lines = map Some (map snd (jn_completions j)), rf_tail = None \<rparr>"
        using rows_of_completions [of "jn_completions j" R "jn_admissions j"] j(2) by (simp add: rows_from_def file_lines_def journal_ok_def)
      then have "ledger_backed R store ?L D'" using 2(2) D1 D2' j(2) by (simp add: ledger_backed_def)
      moreover have "ledger_synced ?L D'"
        unfolding ledger_synced_def using 2(2) D1 D2' by (auto intro!: exI [of _ "map snd (jn_completions j)"])
      ultimately show ?thesis using 2 ok2 by (simp add: world_ok_def)
    qed
  qed
  then show "world_ok R store (ok r, D')" "disk_le D D'" by simp_all
qed

section \<open>Histories\<close>

text \<open>
  What can happen to a ledger and its disk: opening, the calls of a run, and the end of the process at any point. A drawn target
  identifier is new, and rows are built from their targets, so that they have the version of the schema.
\<close>

inductive ledger_step :: "record_env \<Rightarrow> string \<Rightarrow> ledger_world \<Rightarrow> ledger_world \<Rightarrow> bool" for R store where
  opened: "ledger_open R store run clock w1 w2 D = Ret (r, D') \<Longrightarrow> ledger_step R store (None, D) (ok r, D')"
| admitted: "(seen \<longrightarrow> lg_failed L) \<Longrightarrow> ai_target_id i \<notin> fst ` set (jn_admissions (lg_journal L)) \<Longrightarrow>
    admit_ordinal R p seen w i (L, D) = Ret (r, L', D') \<Longrightarrow> ledger_step R store (Some L, D) (Some L', D')"
| claimed: "claim R url L = (r, L') \<Longrightarrow> ledger_step R store (Some L, D) (Some L', D)"
| redirected: "redirect R source destination status L = (r, L') \<Longrightarrow> ledger_step R store (Some L, D) (Some L', D)"
| completed: "(seen \<longrightarrow> lg_failed L) \<Longrightarrow> lr_schema_version row = 1 \<Longrightarrow>
    complete R seen w a row (L, D) = Ret (r, L', D') \<Longrightarrow> ledger_step R store (Some L, D) (Some L', D')"
| crashed: "ledger_step R store (l, D) (None, D)"

inductive_cases ledger_stepE: "ledger_step R store w w'"

lemma claim_frame: "claim R url L = (r, L') \<Longrightarrow> lg_journal L' = lg_journal L \<and> lg_projected L' = lg_projected L \<and> lg_failed L' = lg_failed L \<and> lg_redirects L' = lg_redirects L \<and> lg_run_id L' = lg_run_id L"
  by (auto simp: claim_def split: if_splits)

lemma redirect_frame: "redirect R source destination status L = (r, L') \<Longrightarrow> lg_journal L' = lg_journal L \<and> lg_projected L' = lg_projected L \<and> lg_failed L' = lg_failed L \<and> lg_run_id L' = lg_run_id L"
  by (auto simp: redirect_def Let_def split: option.splits walk_end.splits)

lemma world_frame:
  "lg_journal L' = lg_journal L \<Longrightarrow> lg_projected L' = lg_projected L \<Longrightarrow> lg_failed L' = lg_failed L \<Longrightarrow> world_ok R store (Some L', D) = world_ok R store (Some L, D)"
  by (simp add: world_ok_def ledger_backed_def ledger_synced_def)

lemma ledger_step_keeps:
  assumes "ledger_step R store w w'" and "world_ok R store w"
  shows "world_ok R store w' \<and> disk_le (snd w) (snd w')"
  using assms
proof cases
  case opened
  then show ?thesis using assms(2) open_keeps by simp
next
  case admitted
  then show ?thesis using assms(2) admit_keeps(1,2) by simp
next
  case (claimed url L r L' D)
  then show ?thesis using assms(2) claim_frame [OF claimed(3)] world_frame [of L' L] by simp
next
  case (redirected source destination status L r L' D)
  then show ?thesis using assms(2) redirect_frame [OF redirected(3)] world_frame [of L' L] by simp
next
  case completed
  then show ?thesis using assms(2) complete_keeps by simp
next
  case crashed
  then show ?thesis using assms(2) by (simp add: world_ok_def split: option.splits)
qed

abbreviation ledger_steps :: "record_env \<Rightarrow> string \<Rightarrow> ledger_world \<Rightarrow> ledger_world \<Rightarrow> bool" where
  "ledger_steps R store \<equiv> (ledger_step R store)\<^sup>*\<^sup>*"

lemma ledger_steps_keep:
  assumes "ledger_steps R store w w'" and "world_ok R store w"
  shows "world_ok R store w' \<and> disk_le (snd w) (snd w')"
  using assms by (induction rule: rtranclp_induct) (auto dest: ledger_step_keeps intro: disk_le_trans)

definition empty_disk :: ledger_disk where
  "empty_disk = \<lparr> lk_foreign = False, lk_journal = None, lk_rows = None \<rparr>"

lemma reachable_ok: "ledger_steps R store (None, empty_disk) w \<Longrightarrow> world_ok R store w"
  using ledger_steps_keep [of R store "(None, empty_disk)" w] by (simp add: world_ok_def empty_disk_def)

lemma completions_admitted: "journal_ok R store j \<Longrightarrow> fst ` set (jn_completions j) \<subseteq> fst ` set (jn_admissions j)"
proof
  fix k assume j: "journal_ok R store j" and "k \<in> fst ` set (jn_completions j)"
  then obtain row where "(k, row) \<in> set (jn_completions j)" by auto
  then have "completion_ok R (jn_admissions j) (k, row)" using j unfolding journal_ok_def by blast
  then show "k \<in> fst ` set (jn_admissions j)" by (auto simp: completion_ok_def dest: map_of_SomeD intro: rev_image_eqI)
qed

section \<open>Reading the rows back\<close>

lemma read_lines_Inr:
  assumes "read_lines R ids ls = Ret (Inr rows)"
  shows "ls = map Some rows \<and> distinct (map lr_target_id rows) \<and> set ids \<inter> lr_target_id ` set rows = {}"
  using assms
proof (induction ls arbitrary: ids rows)
  case (Cons l ls)
  obtain row where l: "l = Some row" using Cons.prems by (cases l) auto
  obtain rest where "rows = row # rest" "lr_target_id row \<notin> set ids" "read_lines R (lr_target_id row # ids) ls = Ret (Inr rest)"
    using Cons.prems l by (cases "validate_record R (lr_record row)") (auto simp: bind_Ret_iff res_bind_Inr split: sum.split_asm if_splits)
  then show ?case using Cons.IH [of "lr_target_id row # ids" rest] l by auto
qed simp

lemma read_lines_ok:
  assumes "\<forall>row \<in> set rows. record_valid R (lr_record row) \<and> lr_schema_version row = 1" and "distinct (map lr_target_id rows)"
    and "set ids \<inter> lr_target_id ` set rows = {}"
  shows "read_lines R ids (map Some rows) = Ret (Inr rows)"
  using assms by (induction rows arbitrary: ids) (auto simp: record_valid_def)

text \<open>
  C22: A run that ends well accounts for every input exactly once. Over every history of runs from an empty store, with writes that
  fail, calls that race with a failure and crashes at any point: when the reconciliation at the end of a run succeeds, the row
  file has exactly one row for every target ever admitted and no other row, and each is the row that was committed.
\<close>

theorem ledger_exactly_once:
  assumes "ledger_steps R store (None, empty_disk) (Some L, D)" and "finish R seen L D = Ret (Inr ())"
  shows "\<exists>rows. read_rows R D = Ret (Inr rows) \<and> distinct (map lr_target_id rows)
    \<and> set (map lr_target_id rows) = fst ` set (jn_admissions (lg_journal L))
    \<and> (\<forall>row \<in> set rows. map_of (jn_completions (lg_journal L)) (lr_target_id row) = Some row)"
proof -
  have w: "world_ok R store (Some L, D)" by (rule reachable_ok [OF assms(1)])
  then obtain f where f: "lk_rows D = Some f" "rows_from (lg_journal L) f" "lg_projected L \<subseteq> fst ` set (jn_completions (lg_journal L))"
    by (auto simp: world_ok_def ledger_backed_def)
  have c: "fst ` set (jn_completions (lg_journal L)) \<subseteq> fst ` set (jn_admissions (lg_journal L))"
    using w by (intro completions_admitted [of R store]) (simp add: world_ok_def ledger_backed_def)
  have np: "no_pending L" using assms(2) by (simp add: finish_def split: if_splits)
  then have p: "fst ` set (jn_admissions (lg_journal L)) \<subseteq> lg_projected L" by (auto simp: no_pending_def list_ex_iff)
  obtain rows where rows: "read_rows R D = Ret (Inr rows)" "set (map lr_target_id rows) = lg_projected L"
    using assms(2) np by (auto simp: finish_def bind_Ret_iff res_bind_Inr Let_def split: if_splits)
  have l: "file_lines f = map Some rows \<and> distinct (map lr_target_id rows)" using rows(1) f(1) read_lines_Inr by (auto simp: read_rows_def)
  have "map_of (jn_completions (lg_journal L)) (lr_target_id row) = Some row" if "row \<in> set rows" for row
    using f(2) l that by (simp add: rows_from_def)
  moreover have "set (map lr_target_id rows) = fst ` set (jn_admissions (lg_journal L))" using rows(2) p f(3) c by auto
  ultimately show ?thesis using rows(1) l by blast
qed

text \<open>The converse: nothing but a failure or an input without a row stops a run from ending well.\<close>

lemma finish_succeeds:
  assumes "world_ok R store (Some L, D)" and "\<not> lg_failed L"
    and "fst ` set (jn_admissions (lg_journal L)) \<subseteq> fst ` set (jn_completions (lg_journal L))"
  shows "finish R False L D = Ret (Inr ())"
proof -
  have s: "ledger_synced L D" and j: "journal_ok R store (lg_journal L)" using assms(1,2) by (simp_all add: world_ok_def ledger_backed_def)
  obtain ls where ls: "lk_rows D = Some \<lparr> rf_lines = map Some ls, rf_tail = None \<rparr>" "mset ls = mset (map snd (jn_completions (lg_journal L)))"
    "lg_projected L = fst ` set (jn_completions (lg_journal L))" using s by (auto simp: ledger_synced_def)
  have c: "\<forall>e \<in> set (jn_completions (lg_journal L)). completion_ok R (jn_admissions (lg_journal L)) e" using j by (simp add: journal_ok_def)
  have ids: "map lr_target_id (map snd (jn_completions (lg_journal L))) = map fst (jn_completions (lg_journal L))"
    using c by (auto simp: completion_ok_def)
  have m: "mset (map lr_target_id ls) = mset (map fst (jn_completions (lg_journal L)))"
    using arg_cong [OF ls(2), of "image_mset lr_target_id"] ids by (metis mset_map)
  have "distinct (map fst (jn_completions (lg_journal L)))" using j by (intro btree_ok_distinct) (simp add: journal_ok_def)
  then have d: "distinct (map lr_target_id ls)" "set (map lr_target_id ls) = lg_projected L"
    using mset_eq_imp_distinct_iff [OF m] mset_eq_setD [OF m] ls(3) by simp_all
  have "set ls = snd ` set (jn_completions (lg_journal L))" using mset_eq_setD [OF ls(2)] by simp
  then have v: "\<forall>row \<in> set ls. record_valid R (lr_record row) \<and> lr_schema_version row = 1" using c by (auto simp: completion_ok_def)
  have r: "read_rows R D = Ret (Inr ls)" using read_lines_ok [OF v d(1), of "[]"] ls(1) by (simp add: read_rows_def file_lines_def)
  have "k \<in> fst ` set (jn_completions (lg_journal L))" if "(k, t) \<in> set (jn_admissions (lg_journal L))" for k t
    using assms(3) that by force
  then have np: "no_pending L" using ls(3) by (auto simp: no_pending_def list_ex_iff map_of_eq_None_iff)
  have "card (lg_projected L) = length ls" using distinct_card [OF d(1)] d(2) by simp
  then show ?thesis using r np d(2) by (simp add: finish_def)
qed

text \<open>
  C23: What was recorded stays recorded. In every history from an empty store, the admission of a target that was acknowledged and
  the row of a completion that was acknowledged are in the journal on disk from then on, unchanged, whatever fails or crashes
  later.
\<close>

theorem committed_rows_permanent:
  assumes "ledger_steps R store (None, empty_disk) (Some L, D)" and "lr_schema_version row = 1"
    and "complete R seen w a row (L, D) = Ret (Inr (), L1, D1)" and "ledger_steps R store (Some L1, D1) (l, D2)"
  shows "\<exists>j. lk_journal D2 = Some (Some j) \<and> map_of (jn_completions j) (lr_target_id row) = Some row
    \<and> (\<exists>t. map_of (jn_admissions j) (lr_target_id row) = Some t \<and> row_matches row t)"
proof -
  from complete_keeps [OF reachable_ok [OF assms(1)] assms(2,3)] obtain j1 where
    k: "world_ok R store (Some L1, D1)" "lk_journal D1 = Some (Some j1)" "map_of (jn_completions j1) (lr_target_id row) = Some row" by auto
  from ledger_steps_keep [OF assms(4) k(1)] k(2) obtain j where
    j: "lk_journal D2 = Some (Some j)" "journal_le j1 j" "world_ok R store (l, D2)" by (auto simp: disk_le_def)
  have row: "map_of (jn_completions j) (lr_target_id row) = Some row" using j(2) k(3) by (fastforce simp: journal_le_def map_le_def dom_def)
  have "journal_ok R store j" using j(1,3) by (auto simp: world_ok_def)
  then have "completion_ok R (jn_admissions j) (lr_target_id row, row)" using row unfolding journal_ok_def by (blast dest: map_of_SomeD)
  then show ?thesis using j(1) row by (auto simp: completion_ok_def)
qed

text \<open>
  C24: A store can always be opened again. Whatever happened to it, opening succeeds when its two files are regular files and its
  two writes succeed; every admission then has a row, a committed row is kept as it was, only an admission without a row is
  cancelled, no other row appears, and the new run can be brought to its end.
\<close>

theorem ledger_reopens:
  assumes "ledger_steps R store (None, empty_disk) (l, D)" and "\<not> lk_foreign D"
  shows "\<exists>L D'. ledger_open R store run clock WriteOk WriteOk D = Ret (Inr L, D') \<and> lg_run_id L = run
    \<and> jn_admissions (lg_journal L) = jn_admissions (disk_journal store D)
    \<and> (\<forall>k. map_of (jn_completions (lg_journal L)) k = (case map_of (jn_completions (disk_journal store D)) k of
          Some row \<Rightarrow> Some row
        | None \<Rightarrow> map_option (\<lambda>t. from_target t OcCancelled (clock k)) (map_of (jn_admissions (disk_journal store D)) k)))
    \<and> finish R False L D' = Ret (Inr ())"
proof -
  have w: "world_ok R store (None, D)" using reachable_ok [OF assms(1)] by (simp add: world_ok_def split: option.splits)
  note i = read_journal_ok [OF w]
  obtain j where j: "recover_journal R clock (disk_journal store D) = Ret (Inr j)" "jn_admissions j = jn_admissions (disk_journal store D)"
    "map_of (jn_completions j) = recovered clock (map_of (jn_admissions (disk_journal store D))) (map_of (jn_completions (disk_journal store D)))"
    using recover_journal_ok [OF i(2)] by blast
  obtain L D' where o: "ledger_open R store run clock WriteOk WriteOk D = Ret (Inr L, D')" "lg_journal L = j" "lg_run_id L = run" "\<not> lg_failed L"
    using i(1) assms(2) j(1) by (auto simp: ledger_open_def persist_journal_def write_rows_def Let_def)
  have "world_ok R store (Some L, D')" using open_keeps(1) [OF w o(1)] by simp
  moreover have "fst ` set (jn_admissions j) \<subseteq> fst ` set (jn_completions j)"
    unfolding dom_map_of_conv_image_fst [symmetric] j(2,3) by (auto simp: recovered_def dom_def split: option.splits)
  ultimately have "finish R False L D' = Ret (Inr ())" using finish_succeeds o(2,4) by blast
  then show ?thesis using o j(2,3) by (auto simp: recovered_def)
qed

section \<open>Redirects form short chains\<close>

definition hop :: "(string \<times> string) list \<Rightarrow> (string \<times> string) set" where
  "hop graph = {(a, b). map_of graph a = Some b}"

definition short_chains :: "(string \<times> string) list \<Rightarrow> bool" where
  "short_chains graph \<longleftrightarrow> (\<forall>a b n. (a, b) \<in> hop graph ^^ n \<longrightarrow> n \<le> MAX_HOPS)"

lemma hop_first: "(a, b) \<in> hop graph ^^ Suc m \<Longrightarrow> \<exists>c. map_of graph a = Some c \<and> (c, b) \<in> hop graph ^^ m"
  by (drule relpow_Suc_D2) (auto simp: hop_def)

lemma repeated_cycle: "(v, v) \<in> r ^^ n \<Longrightarrow> (v, v) \<in> r ^^ (k * n)"
  by (induction k) (auto simp: relpow_add intro: relcompI)

lemma walk_ends_bound:
  assumes "walk graph visited current hops = Walk_Ends" and "(current, b) \<in> hop graph ^^ n" and "hops \<le> MAX_HOPS"
  shows "hops + n \<le> MAX_HOPS"
  using assms
proof (induction graph visited current hops arbitrary: n rule: walk.induct)
  case (1 graph visited current hops)
  show ?case
  proof (cases n)
    case (Suc m)
    then obtain c where c: "map_of graph current = Some c" "(c, b) \<in> hop graph ^^ m" using 1(3) hop_first by blast
    then have "current \<notin> set visited" "\<not> hops + 1 > MAX_HOPS" "walk graph (current # visited) c (hops + 1) = Walk_Ends"
      using 1(2) by (auto simp: walk.simps [of graph visited current] split: if_splits)
    then show ?thesis using 1(1) [of c m] c Suc by simp
  qed (use 1 in simp)
qed

text \<open>A walk that has come along the chain of its visited nodes ends, when all chains are short.\<close>

lemma walk_short:
  assumes "short_chains graph" and "\<forall>v \<in> set visited. \<exists>n. 0 < n \<and> (v, current) \<in> hop graph ^^ n" and "\<exists>a. (a, current) \<in> hop graph ^^ hops"
  shows "walk graph visited current hops = Walk_Ends"
  using assms
proof (induction graph visited current hops rule: walk.induct)
  case (1 graph visited current hops)
  have no_cycle: "(v, v) \<notin> hop graph ^^ n" if "0 < n" for v n
  proof
    assume "(v, v) \<in> hop graph ^^ n"
    then have "(v, v) \<in> hop graph ^^ (Suc MAX_HOPS * n)" by (rule repeated_cycle)
    then have "Suc MAX_HOPS * n \<le> MAX_HOPS" using 1(2) unfolding short_chains_def by blast
    then show False using that by (cases n) simp_all
  qed
  then have cur: "current \<notin> set visited" using 1(3) by blast
  show ?case
  proof (cases "map_of graph current")
    case None
    then show ?thesis using cur by (simp add: walk.simps [of graph visited current])
  next
    case (Some c)
    then have step: "(current, c) \<in> hop graph" by (simp add: hop_def)
    obtain a where "(a, current) \<in> hop graph ^^ hops" using 1(4) by blast
    with step have a: "(a, c) \<in> hop graph ^^ (hops + 1)" by auto
    then have h: "hops + 1 \<le> MAX_HOPS" using 1(2) unfolding short_chains_def by blast
    have "\<exists>n. 0 < n \<and> (v, c) \<in> hop graph ^^ n" if "v \<in> set (current # visited)" for v
    proof (cases "v = current")
      case True
      then show ?thesis using step by (intro exI [of _ 1]) simp
    next
      case False
      then have "v \<in> set visited" using that by simp
      then obtain n where "(v, current) \<in> hop graph ^^ n" using 1(3) by blast
      then show ?thesis using step by (intro exI [of _ "Suc n"]) auto
    qed
    then have "walk graph (current # visited) c (hops + 1) = Walk_Ends" using 1(1) [OF cur Some _ 1(2)] a h by auto
    then show ?thesis using cur Some h by (simp add: walk.simps [of graph visited current])
  qed
qed

lemma walk_all_iff: "walk_all graph ss = Walk_Ends \<longleftrightarrow> (\<forall>s \<in> set ss. walk graph [] s 0 = Walk_Ends)"
  by (induction ss) (auto split: walk_end.splits)

lemma walk_all_short: "walk_all graph (map fst graph) = Walk_Ends \<longleftrightarrow> short_chains graph"
proof
  assume w: "walk_all graph (map fst graph) = Walk_Ends"
  show "short_chains graph" unfolding short_chains_def
  proof (intro allI impI)
    fix a b n assume r: "(a, b) \<in> hop graph ^^ n"
    show "n \<le> MAX_HOPS"
    proof (cases n)
      case (Suc m)
      then obtain c where "map_of graph a = Some c" using r hop_first by blast
      then have "a \<in> fst ` set graph" by (auto dest: map_of_SomeD intro: rev_image_eqI)
      then have "walk graph [] a 0 = Walk_Ends" using w by (auto simp: walk_all_iff)
      from walk_ends_bound [OF this r] show ?thesis by simp
    qed simp
  qed
next
  assume short: "short_chains graph"
  have "walk graph [] s 0 = Walk_Ends" for s by (rule walk_short [OF short]) (auto intro: exI [of _ s])
  then show "walk_all graph (map fst graph) = Walk_Ends" unfolding walk_all_iff by blast
qed

text \<open>What a redirect does.\<close>

lemma redirect_cases:
  assumes "redirect R source destination status L = ((outcome, target), L')"
  shows "case destination_of (url_key R destination) L of
      None \<Rightarrow> outcome = OcRedirectedOffSeed status \<and> target = None \<and> L' = L
    | Some d \<Rightarrow> target = Some d
        \<and> (let graph = btree_insert (tg_target_id source) d (lg_redirects L) in
           if short_chains graph then outcome = OcRedirectedToSeed status \<and> L' = L\<lparr> lg_redirects := graph \<rparr>
           else outcome \<in> {OcRedirectLoop, OcRedirectLimit} \<and> L' = L)"
proof (cases "destination_of (url_key R destination) L")
  case None
  then show ?thesis using assms by (simp add: redirect_def)
next
  case (Some d)
  let ?graph = "btree_insert (tg_target_id source) d (lg_redirects L)"
  show ?thesis
    unfolding Some option.case using assms Some walk_all_short [of ?graph]
    by (cases "walk_all ?graph (map fst ?graph)") (auto simp: redirect_def Let_def)
qed

lemma redirect_short:
  assumes "redirect R source destination status L = (r, L')" and "short_chains (lg_redirects L)"
  shows "short_chains (lg_redirects L')"
  using redirect_cases [of R source destination status L "fst r" "snd r" L'] assms by (auto simp: Let_def split: option.splits if_splits)

text \<open>Only a redirect changes the graph.\<close>

lemma open_redirects:
  assumes "ledger_open R store run clock w1 w2 D = Ret (r, D')" and "ok r = Some L"
  shows "lg_redirects L = []"
proof -
  obtain i x where x: "read_journal store D = Inr i" "recover_journal R clock i = Ret x"
    using assms by (cases "read_journal store D") (auto simp: ledger_open_def bind_Ret_iff)
  then show ?thesis using assms
    by (cases x) (auto simp: ledger_open_def persist_journal_def write_rows_def Let_def split: write_end.splits if_splits)
qed

lemma insert_target_redirects: "insert_target w t (L, D) = (r, L', D') \<Longrightarrow> lg_redirects L' = lg_redirects L"
  by (auto simp: insert_target_def persist_journal_def Let_def split: if_splits write_end.splits)

lemma admit_redirects:
  assumes "admit_ordinal R p seen w i (L, D) = Ret (r, L', D')"
  shows "lg_redirects L' = lg_redirects L"
proof (cases "seen \<or> (\<exists>e. chosen_ordinal i L = Inl e)")
  case True
  then show ?thesis using assms by (auto simp: admit_ordinal_def split: if_splits)
next
  case False
  then obtain n where n: "\<not> seen" "chosen_ordinal i L = Inr n" by (cases "chosen_ordinal i L") auto
  let ?t = "new_target R p (lg_run_id L) (ai_target_id i) n (ai_kind i) (ai_category i) (ai_now i) (ai_url i)"
  obtain v where v: "validate_record R (tg_record ?t) = Ret v" using assms n by (auto simp: admit_ordinal_def Let_def bind_Ret_iff)
  show ?thesis using assms n v insert_target_redirects [of w ?t L D] by (cases v) (auto simp: admit_ordinal_def Let_def)
qed

lemma complete_redirects:
  assumes "complete R seen w a row (L, D) = Ret (r, L', D')"
  shows "lg_redirects L' = lg_redirects L"
proof -
  have "lg_redirects L' = lg_redirects L" if "commit_row w a row (L, D) = (r, L', D')" for r L' D'
    using that by (auto simp: commit_row_def persist_journal_def append_terminal_def Let_def split: if_splits write_end.splits option.splits)
  then show ?thesis
    using assms by (cases "validate_record R (lr_record row)") (auto simp: complete_def split: if_splits sum.split_asm option.split_asm)
qed

lemma redirects_reachable:
  assumes "ledger_steps R store (None, empty_disk) w" and "fst w = Some L"
  shows "short_chains (lg_redirects L)"
  using assms
proof (induction arbitrary: L rule: rtranclp_induct)
  case (step v w)
  have empty: "short_chains []" using walk_all_short [of "[]"] by simp
  from step(2) show ?case
  proof cases
    case opened
    then show ?thesis using step(4) open_redirects empty by fastforce
  next
    case admitted
    then show ?thesis using step(3,4) admit_redirects by fastforce
  next
    case claimed
    then show ?thesis using step(3,4) claim_frame by fastforce
  next
    case redirected
    then show ?thesis using step(3,4) redirect_short by fastforce
  next
    case completed
    then show ?thesis using step(3,4) complete_redirects by fastforce
  next
    case crashed
    then show ?thesis using step(4) by simp
  qed
qed simp

text \<open>
  C34: Redirects never lead in a circle and never further than ten hops. In every reachable ledger no chain of accepted redirects is
  longer than ten, which leaves no room for a cycle; and a redirect to a target of the run is accepted exactly when that stays so.
\<close>

theorem redirect_chains_bounded:
  assumes "ledger_steps R store (None, empty_disk) (Some L, D)" and "redirect R source destination status L = ((outcome, target), L')"
  shows "(\<forall>a b n. (a, b) \<in> hop (lg_redirects L') ^^ n \<longrightarrow> n \<le> 10)
    \<and> (case destination_of (url_key R destination) L of
         None \<Rightarrow> outcome = OcRedirectedOffSeed status \<and> target = None \<and> L' = L
       | Some d \<Rightarrow> target = Some d
           \<and> (let graph = btree_insert (tg_target_id source) d (lg_redirects L) in
              if \<forall>a b n. (a, b) \<in> hop graph ^^ n \<longrightarrow> n \<le> 10 then outcome = OcRedirectedToSeed status \<and> L' = L\<lparr> lg_redirects := graph \<rparr>
              else outcome \<in> {OcRedirectLoop, OcRedirectLimit} \<and> L' = L))"
proof -
  have "short_chains (lg_redirects L')" using redirect_short [OF assms(2)] redirects_reachable [OF assms(1)] by simp
  moreover have short: "short_chains g \<longleftrightarrow> (\<forall>a b n. (a, b) \<in> hop g ^^ n \<longrightarrow> n \<le> 10)" for g by (simp add: short_chains_def MAX_HOPS_def)
  ultimately show ?thesis
    using redirect_cases [OF assms(2)] unfolding short [symmetric] by blast
qed

section \<open>Earlier successes\<close>

abbreviation success_outcomes :: "target_outcome set" where
  "success_outcomes \<equiv> {OcSaved, OcSavedNoindex, OcParsedNotRetained, OcNotModified}"

abbreviation row_time :: "ledger_row \<Rightarrow> int \<times> nat" where
  "row_time row \<equiv> (lr_finished_at_utc row, lr_input_ordinal row)"

lemma newest_success_Some:
  "newest_success rows = Some r \<longleftrightarrow> (\<exists>pre row post. rows = pre @ row # post \<and> lr_outcome row \<in> success_outcomes \<and> lr_record row = r
     \<and> (\<forall>x \<in> set pre. lr_outcome x \<noteq> OcGone \<and> lr_outcome x \<notin> success_outcomes))"
proof (induction rows)
  case (Cons x rows)
  show ?case
  proof (cases "lr_outcome x = OcGone \<or> lr_outcome x \<in> success_outcomes")
    case True
    have eq: "newest_success (x # rows) = Some r \<longleftrightarrow> lr_outcome x \<in> success_outcomes \<and> lr_record x = r" using True by auto
    have "pre = []" if "x # rows = pre @ row # post" "\<forall>y \<in> set pre. lr_outcome y \<noteq> OcGone \<and> lr_outcome y \<notin> success_outcomes" for pre row post
      using that True by (cases pre) auto
    then show ?thesis unfolding eq by fastforce
  next
    case False
    then have "newest_success (x # rows) = newest_success rows" by auto
    moreover have "(\<exists>pre row post. x # rows = pre @ row # post \<and> lr_outcome row \<in> success_outcomes \<and> lr_record row = r
        \<and> (\<forall>x \<in> set pre. lr_outcome x \<noteq> OcGone \<and> lr_outcome x \<notin> success_outcomes))
      \<longleftrightarrow> (\<exists>pre row post. rows = pre @ row # post \<and> lr_outcome row \<in> success_outcomes \<and> lr_record row = r
        \<and> (\<forall>x \<in> set pre. lr_outcome x \<noteq> OcGone \<and> lr_outcome x \<notin> success_outcomes))" (is "?l = ?r")
    proof
      assume ?l
      then obtain pre row post where p: "x # rows = pre @ row # post" "lr_outcome row \<in> success_outcomes" "lr_record row = r"
        "\<forall>x \<in> set pre. lr_outcome x \<noteq> OcGone \<and> lr_outcome x \<notin> success_outcomes" by blast
      from False p(1,2) obtain pre' where "pre = x # pre'" by (cases pre) auto
      with p show ?r by (intro exI [of _ pre'] exI [of _ row] exI [of _ post]) simp
    next
      assume ?r
      then obtain pre row post where "rows = pre @ row # post" "lr_outcome row \<in> success_outcomes" "lr_record row = r"
        "\<forall>x \<in> set pre. lr_outcome x \<noteq> OcGone \<and> lr_outcome x \<notin> success_outcomes" by blast
      with False show ?l by (intro exI [of _ "x # pre"] exI [of _ row] exI [of _ post]) simp
    qed
    ultimately show ?thesis using Cons.IH by simp
  qed
qed simp

text \<open>A representation is reused only if it is the newest success of its URL and the URL has not gone since.\<close>

lemma previous_success_newest:
  assumes "previous_success R url L = Some r"
  shows "\<exists>row \<in> set (rows_of_url R url L). lr_record row = r \<and> lr_outcome row \<in> success_outcomes
    \<and> (\<forall>x \<in> set (rows_of_url R url L). row_time row < row_time x \<longrightarrow> lr_outcome x \<noteq> OcGone \<and> lr_outcome x \<notin> success_outcomes)"
proof -
  let ?rows = "sort_key row_time (rows_of_url R url L)"
  from assms obtain pre row post where p: "rev ?rows = pre @ row # post" "lr_outcome row \<in> success_outcomes" "lr_record row = r"
    "\<forall>x \<in> set pre. lr_outcome x \<noteq> OcGone \<and> lr_outcome x \<notin> success_outcomes"
    unfolding previous_success_def newest_success_Some by blast
  have rows: "?rows = rev post @ row # rev pre" using arg_cong [OF p(1), of rev] by simp
  have "sorted (map row_time ?rows)" by (rule sorted_sort_key)
  then have post: "\<forall>x \<in> set post. row_time x \<le> row_time row" unfolding rows by (simp add: sorted_append)
  have set: "set (rows_of_url R url L) = insert row (set pre \<union> set post)" using arg_cong [OF rows, of set] by auto
  have "lr_outcome x \<noteq> OcGone \<and> lr_outcome x \<notin> success_outcomes" if "x \<in> set (rows_of_url R url L)" "row_time row < row_time x" for x
  proof -
    have "x \<noteq> row" "x \<notin> set post" using that(2) post by force+
    then show ?thesis using that(1) set p(4) by blast
  qed
  then show ?thesis using p(2,3) set by (intro bexI [of _ row]) auto
qed

section \<open>A sample history\<close>

definition sample_ledger :: ledger where
  "sample_ledger = \<lparr> lg_run_id = ''r'', lg_journal = new_journal ''s'', lg_projected = {}, lg_claimed = {}, lg_redirects = [], lg_failed = False \<rparr>"

definition sample_target :: target where
  "sample_target = new_target sample_records (default_policy 0) ''r'' ''t'' 0 TkSeed None 0 (Some (demo_web ''/a''))"

definition sample_input :: admission_input where
  "sample_input = \<lparr> ai_target_id = ''t'', ai_ordinal = None, ai_kind = TkSeed, ai_category = None, ai_url = Some (demo_web ''/a''), ai_now = 0 \<rparr>"

definition opened_disk :: ledger_disk where
  "opened_disk = \<lparr> lk_foreign = False, lk_journal = Some (Some (new_journal ''s'')), lk_rows = Some \<lparr> rf_lines = [], rf_tail = None \<rparr> \<rparr>"

definition admitted_journal :: crawl_journal where
  "admitted_journal = (new_journal ''s'')\<lparr> jn_admissions := [(''t'', sample_target)] \<rparr>"

definition sample_row :: ledger_row where
  "sample_row = from_target sample_target OcHostBlocked 5"

definition completed_journal :: crawl_journal where
  "completed_journal = admitted_journal\<lparr> jn_completions := [(''t'', sample_row)] \<rparr>"

definition completed_disk :: ledger_disk where
  "completed_disk = \<lparr> lk_foreign = False, lk_journal = Some (Some completed_journal), lk_rows = Some \<lparr> rf_lines = [Some sample_row], rf_tail = None \<rparr> \<rparr>"

definition completed_ledger :: ledger where
  "completed_ledger = sample_ledger\<lparr> lg_journal := completed_journal, lg_projected := {''t''} \<rparr>"

definition admitted_disk :: ledger_disk where
  "admitted_disk = opened_disk\<lparr> lk_journal := Some (Some admitted_journal) \<rparr>"

definition admitted_ledger :: ledger where
  "admitted_ledger = sample_ledger\<lparr> lg_journal := admitted_journal \<rparr>"

lemma sample_opens: "ledger_open sample_records ''s'' ''r'' (\<lambda>_. 0) WriteOk WriteOk empty_disk = Ret (Inr sample_ledger, opened_disk)"
  by (simp add: ledger_open_def read_journal_def empty_disk_def recover_journal_def new_journal_def persist_journal_def write_rows_def
    sample_ledger_def opened_disk_def)

lemma sample_target_valid: "validate_record sample_records (tg_record sample_target) = Ret (Inr ())"
  using sample_pending by (simp add: sample_target_def new_target_def)

lemma sample_admits:
  "admit_ordinal sample_records (default_policy 0) False WriteOk sample_input (sample_ledger, opened_disk)
    = Ret (Inr sample_target, admitted_ledger, admitted_disk)"
proof -
  have n: "chosen_ordinal sample_input sample_ledger = Inr 0"
    by (simp add: chosen_ordinal_def sample_input_def next_ordinal_def run_targets_def sample_ledger_def new_journal_def)
  have t: "new_target sample_records (default_policy 0) (lg_run_id sample_ledger) (ai_target_id sample_input) 0 (ai_kind sample_input)
      (ai_category sample_input) (ai_now sample_input) (ai_url sample_input) = sample_target"
    by (simp add: sample_target_def sample_input_def sample_ledger_def)
  have k: "tg_target_id sample_target = ''t''" by (simp add: sample_target_def new_target_def)
  show ?thesis
    unfolding admit_ordinal_def fst_conv n t sum.case Let_def sample_target_valid
    by (simp add: insert_target_def run_targets_def sample_ledger_def new_journal_def persist_journal_def admitted_journal_def admitted_ledger_def admitted_disk_def k Let_def)
qed

lemma sample_completes:
  "complete sample_records False WriteOk AppendOk sample_row (admitted_ledger, admitted_disk)
    = Ret (Inr (), completed_ledger,
        completed_disk)"
proof -
  have k: "lr_target_id sample_row = ''t''" "lr_record sample_row = tg_record sample_target" "row_matches sample_row sample_target"
    by (simp_all add: sample_row_def from_target_def sample_target_def new_target_def row_matches_def pending_record_def)
  show ?thesis
    unfolding complete_def k(2) sample_target_valid
    by (simp add: k admitted_journal_def new_journal_def commit_row_def persist_journal_def append_terminal_def opened_disk_def append_to_def
      completed_journal_def sample_ledger_def admitted_ledger_def admitted_disk_def completed_ledger_def completed_disk_def Let_def)
qed

lemma sample_run_admitted: "ledger_steps sample_records ''s'' (None, empty_disk)
    (Some admitted_ledger, admitted_disk)"
proof -
  have "ledger_step sample_records ''s'' (None, empty_disk) (Some sample_ledger, opened_disk)" using opened [OF sample_opens] by simp
  moreover have "ai_target_id sample_input \<notin> fst ` set (jn_admissions (lg_journal sample_ledger))" by (simp add: sample_ledger_def new_journal_def)
  ultimately show ?thesis using admitted [OF _ _ sample_admits, of "''s''"] by (simp add: rtranclp.rtrancl_into_rtrancl)
qed

lemma sample_history: "ledger_steps sample_records ''s'' (None, empty_disk) (Some completed_ledger,
    completed_disk)"
proof -
  have "lr_schema_version sample_row = 1" by (simp add: sample_row_def from_target_def)
  then show ?thesis using sample_run_admitted completed [OF _ _ sample_completes, of "''s''"] by (simp add: rtranclp.rtrancl_into_rtrancl)
qed

theorem ledger_exactly_once_witness:
  "\<exists>rows. read_rows sample_records completed_disk = Ret (Inr rows) \<and> set (map lr_target_id rows) = {''t''}"
proof -
  have w: "world_ok sample_records ''s'' (Some completed_ledger,
      completed_disk)"
    by (rule reachable_ok [OF sample_history])
  have "fst ` set (jn_admissions completed_journal) \<subseteq> fst ` set (jn_completions completed_journal)"
    by (simp add: completed_journal_def admitted_journal_def)
  then have "finish sample_records False completed_ledger
      completed_disk = Ret (Inr ())"
    using finish_succeeds [OF w] by (simp add: completed_ledger_def sample_ledger_def)
  from ledger_exactly_once [OF sample_history this] show ?thesis by (auto simp: completed_ledger_def completed_journal_def admitted_journal_def)
qed

theorem committed_rows_permanent_witness:
  "\<exists>j. lk_journal completed_disk
    = Some (Some j) \<and> map_of (jn_completions j) (lr_target_id sample_row) = Some sample_row"
proof -
  have v: "lr_schema_version sample_row = 1" by (simp add: sample_row_def from_target_def)
  have "ledger_steps sample_records ''s'' (Some completed_ledger,
        completed_disk)
      (None, completed_disk)"
    by (rule r_into_rtranclp) (rule crashed)
  from committed_rows_permanent [OF sample_run_admitted v sample_completes this] show ?thesis by blast
qed

theorem ledger_reopens_witness:
  "\<exists>L D. ledger_open sample_records ''s'' ''q'' (\<lambda>_. 9) WriteOk WriteOk admitted_disk = Ret (Inr L, D)
    \<and> map_of (jn_completions (lg_journal L)) ''t'' = Some (from_target sample_target OcCancelled 9) \<and> finish sample_records False L D = Ret (Inr ())"
proof -
  have "\<not> lk_foreign admitted_disk" by (simp add: admitted_disk_def opened_disk_def)
  from ledger_reopens [OF sample_run_admitted this, of "''q''" "\<lambda>_. 9"] show ?thesis
    by (auto simp: disk_journal_def admitted_disk_def admitted_journal_def new_journal_def)
qed

theorem redirect_chains_bounded_witness:
  "fst (fst (redirect sample_records sample_target (demo_web ''/a'') 301 admitted_ledger)) \<in> {OcRedirectLoop, OcRedirectLimit}"
proof -
  obtain outcome target L' where r: "redirect sample_records sample_target (demo_web ''/a'') 301 admitted_ledger = ((outcome, target), L')" by (metis surj_pair)
  have d: "destination_of (url_key sample_records (demo_web ''/a'')) admitted_ledger = Some ''t''"
    by (simp add: destination_of_def run_targets_def admitted_ledger_def sample_ledger_def admitted_journal_def sample_target_def new_target_def
      pending_record_def observed_def)
  have t: "tg_target_id sample_target = ''t''" "lg_redirects admitted_ledger = []"
    by (simp_all add: sample_target_def new_target_def admitted_ledger_def sample_ledger_def)
  have "(''t'', ''t'') \<in> hop [(''t'', ''t'')] ^^ 1" by (simp add: hop_def)
  then have "(''t'', ''t'') \<in> hop [(''t'', ''t'')] ^^ (11 * 1)" by (rule repeated_cycle)
  moreover have "\<not> 11 * 1 \<le> (10 :: nat)" by simp
  ultimately have "\<not> (\<forall>a b n. (a, b) \<in> hop [(''t'', ''t'')] ^^ n \<longrightarrow> n \<le> 10)" by blast
  moreover from conjunct2 [OF redirect_chains_bounded [OF sample_run_admitted r], unfolded d option.case Let_def t btree_insert.simps]
  have "if \<forall>a b n. (a, b) \<in> hop [(''t'', ''t'')] ^^ n \<longrightarrow> n \<le> 10
    then outcome = OcRedirectedToSeed 301 \<and> L' = admitted_ledger\<lparr> lg_redirects := [(''t'', ''t'')] \<rparr>
    else outcome \<in> {OcRedirectLoop, OcRedirectLimit} \<and> L' = admitted_ledger" by (rule conjunct2)
  ultimately have "outcome \<in> {OcRedirectLoop, OcRedirectLimit}" by (metis (no_types, lifting))
  then show ?thesis using r by simp
qed

end
