(* ===== verification/File_Queue.thy ===== *)
theory File_Queue
  imports File_Store
begin

text \<open>
  The crawler's queue on disk (\<open>core/src/crawler/file_queue.rs\<close>): a file of items behind fixed-size headers and a file that
  holds the position of the next item. A directory is the content of its two files, if they exist. The codecs of the header
  (postcard) and of the items (bincode) are parameters, with what the queue relies on as a locale.
\<close>

record 'a queue_codec =
  qc_max_size :: nat
  qc_header :: "nat \<Rightarrow> u8s"
  qc_parse_header :: "u8s \<Rightarrow> nat option"
  qc_encode :: "'a \<Rightarrow> u8s option"
  qc_decode :: "u8s \<Rightarrow> 'a option"

record queue_dir =
  qd_data :: "u8s option"
  qd_pointer :: "u8s option"

section \<open>Writing\<close>

text \<open>Opening a writer truncates the data file and leaves the pointer file as it is.\<close>

record queue_writer =
  qw_dir :: queue_dir
  qw_bytes :: u8s

definition queue_writer_new :: "queue_dir \<Rightarrow> queue_writer" where
  "queue_writer_new d = \<lparr> qw_dir = d\<lparr> qd_data := Some [] \<rparr>, qw_bytes = [] \<rparr>"

definition padded_header :: "'a queue_codec \<Rightarrow> nat \<Rightarrow> u8s" where
  "padded_header Q n =
     (let h = qc_header Q n in if length h < qc_max_size Q then h @ replicate (qc_max_size Q - length h) 0 else h)"

definition queue_push :: "'a queue_codec \<Rightarrow> 'a \<Rightarrow> queue_writer \<Rightarrow> queue_writer option" where
  "queue_push Q item w =
     (case qc_encode Q item of
        None \<Rightarrow> None
      | Some body \<Rightarrow> Some (w\<lparr> qw_bytes := qw_bytes w @ padded_header Q (length body) @ body \<rparr>))"

fun push_items :: "'a queue_codec \<Rightarrow> 'a list \<Rightarrow> queue_writer \<Rightarrow> queue_writer option" where
  "push_items Q [] w = Some w"
| "push_items Q (x # xs) w = Option.bind (queue_push Q x w) (push_items Q xs)"

section \<open>Reading\<close>

record file_queue =
  fq_pointer :: u8s
  fq_file :: u8s

definition pointer_open :: "queue_dir \<Rightarrow> u8s" where
  "pointer_open d = (case qd_pointer d of None \<Rightarrow> [] | Some bs \<Rightarrow> bs)"

definition pointer_get :: "u8s \<Rightarrow> nat" where
  "pointer_get bs = (if length bs < 8 then 0 else unat (from_le_bytes (take 8 bs)))"

definition pointer_set :: "nat \<Rightarrow> u8s \<Rightarrow> u8s" where
  "pointer_set p bs = to_le_bytes (word_of_nat p) @ drop 8 bs"

definition queue_finalize :: "queue_writer \<Rightarrow> file_queue" where
  "queue_finalize w = \<lparr> fq_pointer = pointer_open (qw_dir w), fq_file = qw_bytes w \<rparr>"

definition queue_open :: "queue_dir \<Rightarrow> file_queue option" where
  "queue_open d = map_option (\<lambda>data. \<lparr> fq_pointer = pointer_open d, fq_file = data \<rparr>) (qd_data d)"

definition queue_dir_of :: "file_queue \<Rightarrow> queue_dir" where
  "queue_dir_of q = \<lparr> qd_data = Some (fq_file q), qd_pointer = Some (fq_pointer q) \<rparr>"

datatype 'a popped = Item 'a | Empty | Undecodable

definition queue_pop :: "'a queue_codec \<Rightarrow> file_queue \<Rightarrow> ('a popped \<times> file_queue) may_panic" where
  "queue_pop Q q =
     (let cur = pointer_get (fq_pointer q); size = qc_max_size Q in
      if cur \<ge> length (fq_file q) then Ret (Empty, q)
      else
        outcome_bind (slice (fq_file q) cur (cur + size)) (\<lambda>header.
          case qc_parse_header Q header of
            None \<Rightarrow> Panic
          | Some n \<Rightarrow>
              outcome_bind (slice (fq_file q) (cur + size) (cur + size + n)) (\<lambda>body.
                case qc_decode Q body of
                  None \<Rightarrow> Ret (Undecodable, q)
                | Some item \<Rightarrow> Ret (Item item, q\<lparr> fq_pointer := pointer_set (cur + size + n) (fq_pointer q) \<rparr>))))"

text \<open>Consuming a queue, closing and opening it again where the flag says so.\<close>

fun queue_pops :: "'a queue_codec \<Rightarrow> bool list \<Rightarrow> file_queue \<Rightarrow> 'a popped list may_panic" where
  "queue_pops Q [] q = Ret []"
| "queue_pops Q (reopened # rs) q =
     outcome_bind (queue_pop Q (if reopened then the (queue_open (queue_dir_of q)) else q)) (\<lambda>(r, q').
       outcome_bind (queue_pops Q rs q') (\<lambda>xs. Ret (r # xs)))"

section \<open>First in, first out\<close>

lemma pointer_get_set: "p < 2 ^ 64 \<Longrightarrow> pointer_get (pointer_set p bs) = p"
  by (simp add: pointer_get_def pointer_set_def unat_of_nat take_bit_nat_eq_self)

locale queue_laws =
  fixes Q :: "'a queue_codec" and encodable :: "'a \<Rightarrow> bool"
  assumes header_size: "n < 2 ^ 64 \<Longrightarrow> length (qc_header Q n) \<le> qc_max_size Q"
    and header_padded: "n < 2 ^ 64 \<Longrightarrow> qc_parse_header Q (qc_header Q n @ replicate k 0) = Some n"
    and max_size_pos: "0 < qc_max_size Q"
    and encodes: "encodable x \<Longrightarrow> \<exists>bs. qc_encode Q x = Some bs \<and> qc_decode Q bs = Some x"
begin

definition item_bytes :: "'a \<Rightarrow> u8s" where
  "item_bytes x = (let bs = the (qc_encode Q x) in padded_header Q (length bs) @ bs)"

abbreviation all_bytes :: "'a list \<Rightarrow> u8s" where
  "all_bytes xs \<equiv> concat (map item_bytes xs)"

lemma padded: "n < 2 ^ 64 \<Longrightarrow> length (padded_header Q n) = qc_max_size Q \<and> qc_parse_header Q (padded_header Q n) = Some n"
  using header_size [of n] header_padded [of n 0] header_padded [of n] by (auto simp: padded_header_def Let_def)

lemma push_items_bytes: "\<forall>x \<in> set xs. encodable x \<Longrightarrow> push_items Q xs w = Some (w\<lparr> qw_bytes := qw_bytes w @ all_bytes xs \<rparr>)"
proof (induction xs arbitrary: w)
  case (Cons x xs)
  obtain bs where "qc_encode Q x = Some bs" using encodes [of x] Cons.prems by auto
  with Cons show ?case by (simp add: queue_push_def item_bytes_def)
qed simp

text \<open>A queue whose pointer stands before the items still to come.\<close>

definition at_items :: "'a list \<Rightarrow> file_queue \<Rightarrow> bool" where
  "at_items xs q \<longleftrightarrow> (\<forall>x \<in> set xs. encodable x) \<and> length (fq_file q) < 2 ^ 64
     \<and> (\<exists>front. fq_file q = front @ all_bytes xs \<and> pointer_get (fq_pointer q) = length front)"

lemma at_items_reopened: "at_items xs (the (queue_open (queue_dir_of q))) = at_items xs q"
  by (simp add: at_items_def queue_open_def queue_dir_of_def pointer_open_def)

lemma pop_empty: "at_items [] q \<Longrightarrow> queue_pop Q q = Ret (Empty, q)"
  by (auto simp: at_items_def queue_pop_def Let_def)

lemma pop_item:
  assumes "at_items (x # xs) q"
  shows "\<exists>q'. queue_pop Q q = Ret (Item x, q') \<and> at_items xs q'"
proof -
  obtain front where f: "fq_file q = front @ all_bytes (x # xs)" "pointer_get (fq_pointer q) = length front"
    and ok': "\<forall>y \<in> set (x # xs). encodable y" and lt: "length (fq_file q) < 2 ^ 64" using assms by (auto simp: at_items_def)
  obtain bs where bs: "qc_encode Q x = Some bs" "qc_decode Q bs = Some x" using encodes [of x] ok' by auto
  let ?h = "padded_header Q (length bs)" and ?s = "qc_max_size Q" and ?cur = "length front"
  have data: "fq_file q = front @ ?h @ bs @ all_bytes xs" using f(1) bs(1) by (simp add: item_bytes_def)
  have n: "length bs < 2 ^ 64" using lt data by simp
  note h = padded [OF n]
  have cur: "?cur < length (fq_file q)" using data h max_size_pos by simp
  have s1: "slice (fq_file q) ?cur (?cur + ?s) = Ret ?h" unfolding slice_def data using h by simp
  have s2: "slice (fq_file q) (?cur + ?s) (?cur + ?s + length bs) = Ret bs" unfolding slice_def data using h by simp
  let ?p = "?cur + ?s + length bs"
  have p: "?p < 2 ^ 64" using lt data h by simp
  let ?q = "q\<lparr> fq_pointer := pointer_set ?p (fq_pointer q) \<rparr>"
  have "pointer_get (fq_pointer ?q) = ?p" using pointer_get_set [OF p] by simp
  then have "at_items xs ?q" using ok' lt data h unfolding at_items_def by (intro conjI exI [of _ "front @ ?h @ bs"]) auto
  moreover have "queue_pop Q q = Ret (Item x, ?q)" using cur f(2) s1 s2 h bs(2) by (simp add: queue_pop_def Let_def)
  ultimately show ?thesis by blast
qed

lemma pops_in_order: "at_items xs q \<Longrightarrow> queue_pops Q rs q = Ret (map Item (take (length rs) xs) @ replicate (length rs - length xs) Empty)"
proof (induction rs arbitrary: xs q)
  case (Cons b rs)
  let ?q = "if b then the (queue_open (queue_dir_of q)) else q"
  have at: "at_items xs ?q" using Cons.prems by (simp add: at_items_reopened)
  show ?case
  proof (cases xs)
    case Nil
    then show ?thesis using pop_empty at Cons.IH [of "[]" ?q] by simp
  next
    case xs: (Cons x ys)
    with pop_item at obtain q' where "queue_pop Q ?q = Ret (Item x, q')" "at_items ys q'" by blast
    with Cons.IH xs show ?thesis by simp
  qed
qed simp

end

text \<open>A codec of the shape the queue expects: one byte for the length, and bytes as items.\<close>

definition byte_codec :: "u8s queue_codec" where
  "byte_codec = \<lparr> qc_max_size = 10, qc_header = (\<lambda>n. to_le_bytes (word_of_nat n)),
     qc_parse_header = (\<lambda>bs. if length bs < 8 then None else Some (unat (from_le_bytes (take 8 bs)))), qc_encode = Some, qc_decode = Some \<rparr>"

interpretation byte_queue: queue_laws byte_codec "\<lambda>_. True"
  by unfold_locales (simp_all add: byte_codec_def unat_of_nat take_bit_nat_eq_self)

text \<open>
  The queue is first in, first out, across restarts: items pushed to a directory without a position are popped once each and
  in their order, then the queue is empty, wherever it is closed and opened again in between, and no pop panics.
\<close>

theorem file_queue_fifo:
  assumes "queue_laws Q encodable" and "\<forall>x \<in> set xs. encodable x" and "pointer_get (pointer_open d) = 0"
    and "push_items Q xs (queue_writer_new d) = Some w" and "length (qw_bytes w) < 2 ^ 64"
  shows "queue_pops Q rs (queue_finalize w) = Ret (map Item (take (length rs) xs) @ replicate (length rs - length xs) Empty)"
proof (rule queue_laws.pops_in_order [OF assms(1)])
  have w: "w = (queue_writer_new d)\<lparr> qw_bytes := concat (map (queue_laws.item_bytes Q) xs) \<rparr>"
    using queue_laws.push_items_bytes [OF assms(1,2), of "queue_writer_new d"] assms(4) by (simp add: queue_writer_new_def)
  then show "queue_laws.at_items Q encodable xs (queue_finalize w)"
    unfolding queue_laws.at_items_def [OF assms(1)] using assms(2,3,5)
    by (auto simp: queue_finalize_def queue_writer_new_def pointer_open_def)
qed

theorem file_queue_fifo_witness:
  "\<exists>w. push_items byte_codec [[1, 2], [3]] (queue_writer_new \<lparr> qd_data = None, qd_pointer = None \<rparr>) = Some w
    \<and> queue_pops byte_codec [True, False, True] (queue_finalize w) = Ret [Item [1, 2], Item [3], Empty]"
proof -
  let ?d = "\<lparr> qd_data = None, qd_pointer = None \<rparr>"
  obtain w where w: "push_items byte_codec [[1, 2], [3]] (queue_writer_new ?d) = Some w" "length (qw_bytes w) < 2 ^ 64"
    by (auto simp: queue_push_def queue_writer_new_def padded_header_def byte_codec_def Let_def)
  have "pointer_get (pointer_open ?d) = 0" by (simp add: pointer_get_def pointer_open_def)
  from file_queue_fifo [OF byte_queue.queue_laws_axioms _ this w, of "[True, False, True]"] w(1) show ?thesis by simp
qed

text \<open>
  A writer on a used directory keeps the old position: the new queue starts behind its first items, here behind all of them.
\<close>

lemma reused_directory_loses_items:
  assumes "queue_laws Q encodable" and "encodable x" and "push_items Q [x] (queue_writer_new \<lparr> qd_data = Some old, qd_pointer = Some (to_le_bytes (word_of_nat p)) \<rparr>) = Some w"
    and "length (qw_bytes w) \<le> p" and "p < 2 ^ 64"
  shows "queue_pop Q (queue_finalize w) = Ret (Empty, queue_finalize w)"
proof -
  have "fq_file (queue_finalize w) = qw_bytes w" by (simp add: queue_finalize_def)
  moreover have "qw_dir w = \<lparr> qd_data = Some [], qd_pointer = Some (to_le_bytes (word_of_nat p)) \<rparr>"
    using queue_laws.push_items_bytes [OF assms(1), of "[x]"] assms(2,3) by (auto simp: queue_writer_new_def)
  then have "pointer_get (fq_pointer (queue_finalize w)) = p"
    using assms(5) by (simp add: queue_finalize_def pointer_open_def pointer_get_def unat_of_nat take_bit_nat_eq_self)
  ultimately show ?thesis using assms(4) by (simp add: queue_pop_def Let_def)
qed

end
