(* ===== verification/Spec2Isabelle.thy ===== *)
theory Spec2Isabelle
  imports Case_Demo Robots_Txt Transport Wal Kv_Store Int_Map Ttl_Cache External_Sort Pattern_Query Local_Sink Ledger File_Queue
begin

text \<open>
  A verification library for the search engine in this repository. It covers four parts of the Rust code: the
  compliance domain (\<open>src/crates/core/src/compliance\<close>), which records legal requests about search results and
  decides what may be served; the crawler's policy (\<open>src/crates/core/src/crawler\<close>, \<open>config/ingestion.rs\<close> and
  \<open>src/crates/robotstxt\<close>), which decides what may be fetched, when, and what of it may be kept for how long; the document
  cursors of a query (\<open>src/crates/core/src/query\<close>); and the storage layer they stand on
  (\<open>src/crates/file-store\<close>, \<open>simple-wal\<close>, \<open>bloom\<close>, \<open>speedy-kv\<close> and containers of
  \<open>src/crates/core/src\<close>).

  \<^bold>\<open>Conventions.\<close> A struct is a record, an enum a datatype, an operation a function with the name it has in the
  source where HOL allows it. A \<open>Result\<close> is a sum with the error on the left (\<open>Prelude\<close>: \<open>res_bind\<close> is the
  question mark); a call that may panic returns \<open>may_panic\<close> (\<open>File_Store\<close>). State that outlives a call,
  the file system included, is an explicit argument and result, and the ways a durable step can end are arguments.
  Third-party code is a parameter: its documented behaviour is a locale or a named predicate, and each of
  these has an executable instance on which the theorems are run. \<open>Rust_Str\<close> holds the byte strings of Rust.

  \<^bold>\<open>The compliance domain.\<close>
  \<^item> \<open>Bounds\<close> (\<open>bounds.rs\<close>), \<open>Vocabulary\<close> and \<open>Model\<close> (\<open>model.rs\<close>), \<open>Config\<close>
    (\<open>config/compliance.rs\<close>): the closed vocabularies, bounded text and numbers, hexadecimal identifiers, the domain
    records and their validation. The macro's promise is the locale \<open>vocabulary\<close>, interpreted at each use.
  \<^item> \<open>Civil_Calendar\<close>, \<open>Clock\<close> (\<open>clock.rs\<close>): the statutory deadlines over a calendar whose contract is the locale
    \<open>calendar\<close>; the Gregorian calendar is proved to meet it. Shown: the order of the deadlines and their margins.
  \<^item> \<open>Journal_Row\<close>, \<open>Journal\<close>, \<open>Journal_Chain\<close>, \<open>Journal_Recovery\<close>, \<open>Journal_Json\<close> (\<open>journal.rs\<close>): the
    hash-chained event log with its durable append, verification, load and quarantine of a torn tail. Shown: exactly
    which bytes verify under a checkpoint, that one checkpoint means one history up to a digest collision, and that a crash at any
    step of an append loses nothing but the row being written, whose torn part a reopening quarantines and records.
  \<^item> \<open>Transitions\<close>, \<open>Lifecycle\<close> (\<open>transitions.rs\<close>): the ticket reducer. Shown: the invariant of every replayed
    ticket, and the safety rules of the procedure (protection before acknowledgement, purge only on an intent after the configured retention,
    completions match their intents, closed is final, one timely extension).
  \<^item> \<open>Listed\<close>, \<open>Rules\<close>, \<open>Serving\<close> (\<open>listed.rs\<close>, \<open>rules.rs\<close>): the gate that decides whether a document is served
    and the store of its rules. Shown: the indexed gate equals a scan, an installed rule protects, a
    reversal is permanent, and a commit that panics or whose replacement is uncertain stops serving for good.

  \<^item> \<open>Payload\<close> (\<open>payload.rs\<close>): the immutable revisions with the personal content of a ticket, committed to by salted
    digests in its rows. Shown: what was written reads back, whatever other writes fail.
  \<^item> \<open>Cases\<close> (\<open>tickets.rs\<close>): the owner of the cases. Every operation drafts rows, reserves capacity, and becomes
    a plan whose durable steps run in a fixed order; the service wraps the owner with a flag that takes it out of service
    after a failure that may have written. \<open>plan_faults\<close> says where the steps of a plan fail, \<open>draws\<close> what the entropy
    source returned.
  \<^item> \<open>Case_Plan\<close>, \<open>Case_Store\<close>: the contract of the parameters is the locale \<open>case_env\<close>, interpreted in \<open>Case_Demo\<close> on the
    journal's JSON; \<open>case_ok\<close> is the invariant of a case in service. Shown: the order of durable writes wherever a plan
    stops, and that a failed call changes nothing or closes the store.
  \<^item> \<open>Case_Admission\<close>, \<open>Case_Progress\<close>: an acknowledged report is queued, readable and, for intimate images,
    protected at the serving gate; and an admission that fits does complete.
  \<^item> \<open>Case_Queue\<close>: following the queue's cursor ends and lists every selected ticket once.
  \<^item> \<open>Case_Recovery\<close>, \<open>Case_Startup\<close> (\<open>recovery.rs\<close>, \<open>ComplianceStore::open\<close>): rebuilding, verification of every revision,
    and completion of what a crash left pending. Shown: a recovered store has nothing half done.
  \<^item> \<open>Case_Lifetime\<close>: histories of calls and restarts as a step relation. Shown: no history loses a recorded row.
  \<^item> \<open>Case_Demo\<close>: a concrete owner, one report, its admission, a crash and the restarts, on which the theorems are run.

  The journal's rows drive the reducer; the reducer's intents become deltas of the rules; the gate reads the
  rules and the lists. The owner of the cases writes the journal, the revisions and the rules together, in an order from
  which recovery can always go forward.

  \<^bold>\<open>The crawler.\<close>
  \<^item> \<open>Robots_Pattern\<close>, \<open>Robots\<close> (\<open>robotstxt/src/pattern.rs\<close>, \<open>lib.rs\<close>): path patterns against their glob
    meaning, rule precedence, and the nested reading loops against one pass over the lines.
  \<^item> \<open>Host_State\<close> (\<open>host_state.rs\<close>): what responses do to the state of a host and the registry that keeps
    it; time is the locale \<open>wall_time\<close>. Shown: denials block for a day, rate responses defer, a failed write closes
    the registry.
  \<^item> \<open>Politeness\<close> (\<open>politeness.rs\<close>): the gate of a host as a step relation over all interleavings of its suspended
    tasks. Shown: starts are spaced, concurrency is bounded, blocked hosts are not started, and a waiting
    request does start.
  \<^item> \<open>Network_Scope\<close> (\<open>network.rs\<close>), \<open>Transport\<close> (\<open>Transport\<close> in \<open>network.rs\<close>, the resolver in \<open>identity.rs\<close>): which URLs and
    addresses may be contacted, and the pins from which alone the client resolves. Shown: what it dials are the public
    addresses a target was vetted with.
  \<^item> \<open>Robots_Txt\<close> (\<open>robots_txt.rs\<close>): fetching, caching and applying robots rules, on top of all of the above. Shown:
    a refresh follows a short chain of redirects and fails closed, and a permission rests on the answer at its end, a 4xx or rules that
    allow both forms of the URL.

  \<^item> \<open>Ingestion\<close> (\<open>config/ingestion.rs\<close>, \<open>identity.rs\<close>): the policy of a crawl, its defaults, its validation and the permit for
    production. Shown: exactly which policies validate, and exactly when a permit is issued.
  \<^item> \<open>Exclusions\<close> (\<open>exclusions.rs\<close>): host rules, suffixes, languages, the hosting country and the listing budget. Shown:
    what is admitted violates none of them, and an unknown country is admitted only where no rule names one.
  \<^item> \<open>Directives\<close> (\<open>directives.rs\<close>): the robots directives and rights signals of headers and documents. Shown: every
    restriction written for the crawler is in force, in whatever order they come, and what is recorded is bounded.
  \<^item> \<open>Document_Record\<close> (\<open>record.rs\<close>): the evidence kept of a document. Shown: an admitted target
    leaves a valid record, a parsed page does unless a resolved link target in it is too long, and a record allows a body only where publisher and policy do.
  \<^item> \<open>Retention\<close> (\<open>retention.rs\<close>), \<open>Local_Sink\<close> (\<open>local_sink.rs\<close>): the store of raw bodies, whose every durable step may
    fail, a cut-off write of a manifest leaving its temporary. Shown: a successful run leaves nothing past its deadline and removes
    nothing else, a write leaves no object without a manifest, and a record that forbids a body takes the earlier ones away.
  \<^item> \<open>Attempts\<close>, \<open>Ledger\<close> (\<open>ledger.rs\<close>): the outcomes of targets, the evidence of requests, and the journal of admissions with its
    file of terminal rows, as a step relation over runs, failed writes and crashes. Shown: a run that ends well has exactly
    one row for every target, a committed row is permanent, a store can always be opened again, and accepted redirects form
    no cycle and no long chain.
  \<^item> \<open>File_Queue\<close> (\<open>file_queue.rs\<close>): the queue of a crawl on disk. Shown: first in, first out across reopenings.

  A response passes the directives into its record, the record decides what the sink may keep, and retention deletes by what
  the sink's manifests say; the policy validated by \<open>Ingestion\<close> bounds all three.

  \<^bold>\<open>Queries.\<close>
  \<^item> \<open>Docset\<close>, \<open>Docset_Union\<close> (\<open>query/intersection.rs\<close>, \<open>union.rs\<close>, \<open>const_query.rs\<close>, tantivy's \<open>docset.rs\<close>): the contract of a cursor
    is the locale over \<open>docset_ops\<close>, interpreted at each cursor. Shown: intersection and union list exactly
    the intersection and union of their parts.
  \<^item> \<open>Pattern_Scorer\<close>, \<open>Pattern_Query\<close> (\<open>query/pattern_query\<close>): phrase matching with wildcards and anchors, the scorers and the
    choice between them. Shown: for each scorer, exactly which documents a query returns.

  \<^bold>\<open>Storage.\<close>
  \<^item> \<open>File_Store\<close> (\<open>file-store/src/iterable.rs\<close>, \<open>random_lookup.rs\<close>, \<open>const_serializable.rs\<close>): framed and
    constant-size items on bytes; the trait is the locale \<open>const_serializable\<close>. Shown: the round trip,
    and what a torn file does.
  \<^item> \<open>Wal\<close> (\<open>simple-wal/src/lib.rs\<close>): the log refines a list; a reopened log refuses writes.
  \<^item> \<open>Bloom\<close> (\<open>bloom/src/lib.rs\<close>): both filters have no false negatives.
  \<^item> \<open>Kv_Segment\<close>, \<open>Kv_Merge\<close>, \<open>Kv_Store\<close> (\<open>speedy-kv/src\<close>): segments over the file store and the filter, the merging
    iterator and the database, which refines a pair of finite maps over all sequences of inserts,
    commits, merges and reopenings of stores whose keys are prefix free. The fst crate is the record \<open>fst_lib\<close>.
  \<^item> \<open>Int_Map\<close> (\<open>intmap.rs\<close>), \<open>Ttl_Cache\<close> (\<open>ttl_cache.rs\<close>), \<open>External_Sort\<close> (\<open>external_sort.rs\<close>): a hash map that meets
    the locale \<open>map_contract\<close>, a cache described by its history of insertions, and a sort over files whose heap
    meets the locale \<open>head_heap\<close>.

  \<^bold>\<open>Bounds and termination.\<close> Loops are total functions with a measure wherever the code ends on every input: readers
    consume bytes, merges consume entries, pruning shortens a queue, a walk along redirects counts its hops, a robots refresh makes at most as many fetches as
    the source allows hops. Two iterators, \<open>lookup_collect\<close> and \<open>sorted_collect\<close>, are partial
    functions into \<open>option\<close>; the theorems about the database show that they end. Encodings are shorter than
    \<open>2 ^ 63\<close> bytes, the greatest size of a Rust allocation, so a 64-bit length header is exact. Keys, hashes,
    offsets and addresses are words of their width.

  \<^bold>\<open>Not modelled.\<close> Opening, mapping, locking and moving files, beyond the durable steps named above; the HTTP client
    and DNS; the nom grammar of robots lines; floating-point sizing and scores; the HTML parser and the WARC encoder; the detached tasks of the case service, whose
    mutex runs them one at a time; the records of assessments and reviews (\<open>records.rs\<close>) and the reports derived from
    tickets; crawl planning and workers; the rest of the search core (indexing, ranking, graphs, the
    interfaces); and the vendored full-text library.
\<close>

end
